(* ===== verification/Prelude.thy ===== *)
theory Prelude
  imports Main "HOL-Library.Word" "HOL-Library.Monad_Syntax"
begin

unbundle bit_operations_syntax

text \<open>
  Shared vocabulary of the development: the crash monad (an operation that aborts the
  process, by a failed \<open>ASSERT\<close>, a \<open>CHECK_CONDITION\<close>, a \<open>Log(kCrash, ...)\<close> or the
  dereference of a null pointer, is the value \<open>None\<close>), the C integer conversions the
  components use, and the generic lemmas on lists, options and words they share.
\<close>

named_theorems crash_simps \<open>equations of the crash monad\<close>
named_theorems view_simps \<open>what an update leaves of the abstract view of a state\<close>

section \<open>The crash monad\<close>

text \<open>\<open>ASSERT(b)\<close> and \<open>CHECK_CONDITION(b)\<close> (internal_logging.h): abort unless \<open>b\<close>.\<close>

definition CHECK :: "bool \<Rightarrow> unit option" where
  "CHECK b = (if b then Some () else None)"

lemma CHECK_simps [simp, crash_simps]:
  "CHECK True = Some ()" "CHECK False = None"
  "(CHECK b = Some u) = b" "(CHECK b = None) = (\<not> b)"
  by (auto simp: CHECK_def)

lemma bind_CHECK [simp, crash_simps]:
  "(CHECK b \<bind> f) = (if b then f () else None)"
  by (simp add: CHECK_def)

lemma bind_Some_elim:
  assumes "x \<bind> f = Some y"
  obtains z where "x = Some z" and "f z = Some y"
  using assms by (auto simp: Option.bind_eq_Some_conv)

section \<open>C integers\<close>

text \<open>Conversion of an unsigned 64-bit quantity to \<open>int\<close> (32 bits, two's complement).\<close>

definition to_int32 :: "nat \<Rightarrow> int" where
  "to_int32 n = signed_take_bit 31 (int n)"

lemma to_int32_small: "n < 2 ^ 31 \<Longrightarrow> to_int32 n = int n"
  by (simp add: to_int32_def signed_take_bit_int_eq_self)

text \<open>Unsigned 64-bit decrement: \<open>0 - 1\<close> wraps.\<close>

definition dec64 :: "nat \<Rightarrow> nat" where
  "dec64 p = (if p = 0 then 2 ^ 64 - 1 else p - 1)"

lemma dec64_pos [simp]: "0 < p \<Longrightarrow> dec64 p = p - 1"
  by (simp add: dec64_def)

text \<open>Division of \<open>int\<close>s truncates towards zero; an \<open>int\<close> compared with a \<open>size_t\<close> is
  converted to it first.\<close>

definition c_div :: "int \<Rightarrow> int \<Rightarrow> int" where
  "c_div a b = sgn a * sgn b * (\<bar>a\<bar> div \<bar>b\<bar>)"

definition to_size_t :: "int \<Rightarrow> nat" where
  "to_size_t i = nat (i mod 2 ^ 64)"

text \<open>Masking with \<open>2^n - 1\<close> and shifting, read on natural numbers.\<close>

lemma unat_drop_bit: "unat (drop_bit n (w :: 'a :: len word)) = unat w div 2 ^ n"
  by (subst unat_drop_bit_eq) (simp add: drop_bit_eq_div)

lemma unat_and_mask: "unat ((w :: 'a :: len word) AND mask n) = unat w mod 2 ^ n"
  unfolding take_bit_eq_mask [symmetric] unsigned_take_bit_eq by (simp add: take_bit_eq_mod)

text \<open>Sums and differences that do not wrap.\<close>

lemma unat_minus_of_nat:
  assumes "N \<le> unat (w :: 'a :: len word)"
  shows "unat (w - of_nat N) = unat w - N"
proof -
  have l: "N < 2 ^ LENGTH('a)" using assms unsigned_less [of w, where ?'a = nat] by linarith
  then have "unat (of_nat N :: 'a word) = N" by (simp add: unat_of_nat)
  then show ?thesis using assms by (simp add: unat_sub word_le_nat_alt)
qed

lemma unat_plus_of_nat:
  assumes "unat (w :: 'a :: len word) + N < 2 ^ LENGTH('a)"
  shows "unat (w + of_nat N) = unat w + N"
  using assms by (simp add: unat_word_ariths unat_of_nat mod_add_right_eq)

section \<open>Lists\<close>

lemma removeAll_split: "distinct (xs @ x # ys) \<Longrightarrow> removeAll x (xs @ x # ys) = xs @ ys"
  by simp

lemma take_Suc_hd: "xs \<noteq> [] \<Longrightarrow> take (Suc n) xs = hd xs # take n (tl xs)"
  by (cases xs) auto

lemma last_take_nth: "0 < n \<Longrightarrow> n \<le> length xs \<Longrightarrow> last (take n xs) = xs ! (n - 1)"
  by (cases n) (simp_all add: take_Suc_conv_app_nth)

section \<open>Address ranges\<close>

text \<open>The \<open>n\<close> addresses (or pages) from \<open>a\<close> on.\<close>

definition extent :: "nat \<Rightarrow> nat \<Rightarrow> nat set" where
  "extent a n = {a..<a + n}"

lemma mem_extent [simp]: "x \<in> extent a n \<longleftrightarrow> a \<le> x \<and> x < a + n"
  by (simp add: extent_def)

lemma finite_extent [simp]: "finite (extent a n)"
  by (simp add: extent_def)

lemma card_extent [simp]: "card (extent a n) = n"
  by (simp add: extent_def)

lemma extent_0 [simp]: "extent a 0 = {}"
  by (simp add: extent_def)

lemma extent_mono: "a \<le> b \<Longrightarrow> b + k \<le> a + n \<Longrightarrow> extent b k \<subseteq> extent a n"
  by (auto simp: extent_def)

lemma extent_add: "extent a (m + n) = extent a m \<union> extent (a + m) n"
  by (auto simp: extent_def)

lemma extent_apart: "a + m \<le> b \<Longrightarrow> extent a m \<inter> extent b n = {}"
  by (auto simp: extent_def)

end
