(* ===== verification/Linked_List.thy ===== *)
theory Linked_List
  imports Prelude
begin

text \<open>
  The singly linked free lists of \<open>linked_list.h\<close>. An object on a free list keeps the
  address of the next one in its first word; the memory \<open>mem\<close> is that word at every
  address, and address \<open>0\<close> is \<open>NULL\<close>. A head pointer that the C code updates through
  \<open>void **list\<close> is passed in and returned. Reading or writing through \<open>NULL\<close> is the crash
  \<open>None\<close>.
\<close>

type_synonym addr = nat
type_synonym mem = "addr \<Rightarrow> addr"

definition SLL_Next :: "mem \<Rightarrow> addr \<Rightarrow> addr option" where
  "SLL_Next m t = (if t = 0 then None else Some (m t))"

definition SLL_SetNext :: "mem \<Rightarrow> addr \<Rightarrow> addr \<Rightarrow> mem option" where
  "SLL_SetNext m t n = (if t = 0 then None else Some (m(t := n)))"

definition SLL_Push :: "mem \<Rightarrow> addr \<Rightarrow> addr \<Rightarrow> (mem \<times> addr) option" where
  "SLL_Push m lst element = do {
     m' \<leftarrow> SLL_SetNext m element lst;
     Some (m', element) }"

text \<open>Result: the popped object and the new head.\<close>

definition SLL_Pop :: "mem \<Rightarrow> addr \<Rightarrow> (addr \<times> addr) option" where
  "SLL_Pop m lst = do {
     lst' \<leftarrow> SLL_Next m lst;
     Some (lst, lst') }"

text \<open>The loop \<open>for (i = 1; i < N; ++i) tmp = SLL_Next(tmp)\<close>, with \<open>k = N - 1\<close> rounds left.\<close>

fun SLL_advance :: "mem \<Rightarrow> addr \<Rightarrow> nat \<Rightarrow> addr option" where
  "SLL_advance m tmp 0 = Some tmp"
| "SLL_advance m tmp (Suc k) = do {
     tmp' \<leftarrow> SLL_Next m tmp;
     SLL_advance m tmp' k }"

text \<open>Result: memory, new head, \<open>*start\<close> and \<open>*end\<close>.\<close>

definition SLL_PopRange :: "mem \<Rightarrow> addr \<Rightarrow> nat \<Rightarrow> (mem \<times> addr \<times> addr \<times> addr) option" where
  "SLL_PopRange m head N =
     (if N = 0 then Some (m, head, 0, 0)
      else do {
        tmp \<leftarrow> SLL_advance m head (N - 1);
        head' \<leftarrow> SLL_Next m tmp;
        m' \<leftarrow> SLL_SetNext m tmp 0;
        Some (m', head', head, tmp) })"

definition SLL_PushRange :: "mem \<Rightarrow> addr \<Rightarrow> addr \<Rightarrow> addr \<Rightarrow> (mem \<times> addr) option" where
  "SLL_PushRange m head start end1 =
     (if start = 0 then Some (m, head)
      else do {
        m' \<leftarrow> SLL_SetNext m end1 head;
        Some (m', start) })"

text \<open>The counting loop of \<open>SLL_Size\<close>; it does not return on a cyclic list.\<close>

partial_function (option) SLL_Size_from :: "mem \<Rightarrow> addr \<Rightarrow> nat \<Rightarrow> nat option" where
  "SLL_Size_from m head count =
     (if head = 0 then Some count else SLL_Size_from m (m head) (Suc count))"

definition SLL_Size :: "mem \<Rightarrow> addr \<Rightarrow> nat option" where
  "SLL_Size m head = SLL_Size_from m head 0"

section \<open>Abstraction to lists\<close>

text \<open>\<open>slseg m p xs q\<close>: following the links from \<open>p\<close> visits \<open>xs\<close> and arrives at \<open>q\<close>.\<close>

fun slseg :: "mem \<Rightarrow> addr \<Rightarrow> addr list \<Rightarrow> addr \<Rightarrow> bool" where
  "slseg m p [] q = (p = q)"
| "slseg m p (x # xs) q = (p = x \<and> x \<noteq> 0 \<and> slseg m (m x) xs q)"

abbreviation sll :: "mem \<Rightarrow> addr \<Rightarrow> addr list \<Rightarrow> bool" where
  "sll m p xs \<equiv> slseg m p xs 0"

lemma slseg_append: "slseg m p (xs @ ys) q = (\<exists>r. slseg m p xs r \<and> slseg m r ys q)"
  by (induction xs arbitrary: p) auto

lemma slseg_frame [simp]: "a \<notin> set xs \<Longrightarrow> slseg (m(a := v)) p xs q = slseg m p xs q"
  by (induction xs arbitrary: p) auto

lemma slseg_frame_mem: "(\<And>x. x \<in> set xs \<Longrightarrow> m' x = m x) \<Longrightarrow> slseg m' p xs q = slseg m p xs q"
  by (induction xs arbitrary: p) auto

lemma slseg_nonzero: "slseg m p xs q \<Longrightarrow> x \<in> set xs \<Longrightarrow> x \<noteq> 0"
  by (induction xs arbitrary: p) auto

lemma sll_0 [simp]: "sll m 0 xs = (xs = [])"
  by (cases xs) auto

lemma sll_unique: "sll m p xs \<Longrightarrow> sll m p ys \<Longrightarrow> xs = ys"
proof (induction xs arbitrary: p ys)
  case (Cons x xs)
  then show ?case by (cases ys) auto
qed auto

lemma sll_suffix: "sll m p (xs @ ys) \<Longrightarrow> \<exists>r. sll m r ys"
  by (auto simp: slseg_append)

text \<open>A list that ends in \<open>NULL\<close> has no repetition: a repeated node would have two tails.\<close>

lemma sll_hd_notin_tl: "sll m (m a) xs \<Longrightarrow> a \<notin> set xs"
proof
  assume l: "sll m (m a) xs" and "a \<in> set xs"
  then obtain ys zs where xs: "xs = ys @ a # zs" by (auto simp: in_set_conv_decomp)
  with l have "sll m (m a) zs" by (auto simp: slseg_append)
  with l have "xs = zs" by (rule sll_unique)
  with xs show False by simp
qed

lemma sll_distinct: "sll m p xs \<Longrightarrow> distinct xs"
  by (induction xs arbitrary: p) (auto dest: sll_hd_notin_tl)

lemma sll_nonempty: "p \<noteq> 0 \<Longrightarrow> sll m p xs \<Longrightarrow> \<exists>ys. xs = p # ys \<and> sll m (m p) ys"
  by (cases xs) auto

section \<open>What the operations do to the abstract lists\<close>

lemma SLL_Push_sll:
  assumes "sll m p xs" "e \<noteq> 0" "e \<notin> set xs"
  shows "\<exists>m'. SLL_Push m p e = Some (m', e) \<and> sll m' e (e # xs) \<and> (\<forall>a. a \<noteq> e \<longrightarrow> m' a = m a)"
  using assms by (simp add: SLL_Push_def SLL_SetNext_def)

lemma SLL_Pop_sll:
  assumes "sll m p (x # xs)"
  shows "\<exists>q. SLL_Pop m p = Some (x, q) \<and> sll m q xs"
  using assms by (auto simp: SLL_Pop_def SLL_Next_def)

lemma SLL_advance_seg:
  "slseg m p xs q \<Longrightarrow> k = length xs \<Longrightarrow> SLL_advance m p k = Some q"
  by (induction xs arbitrary: p k) (auto simp: SLL_Next_def)

text \<open>Cutting a list after \<open>xs\<close>.\<close>

lemma sll_cut:
  assumes l: "sll m p (xs @ ys)" and ne: "xs \<noteq> []"
  shows "sll (m(last xs := 0)) p xs" "sll (m(last xs := 0)) (m (last xs)) ys" "p = hd xs" "last xs \<noteq> 0"
proof -
  obtain us u where xs: "xs = us @ [u]" using ne by (cases xs rule: rev_cases) auto
  have seg: "slseg m p us u" and u: "u \<noteq> 0" and q: "sll m (m u) ys"
    using l by (auto simp: xs slseg_append)
  have d: "distinct (xs @ ys)" using l by (rule sll_distinct)
  show "sll (m(last xs := 0)) p xs" using seg u d by (auto simp: xs slseg_append)
  show "sll (m(last xs := 0)) (m (last xs)) ys" using q d xs by simp
  show "p = hd xs" using l xs by (cases us) (auto simp: slseg_append)
  show "last xs \<noteq> 0" using u xs by simp
qed

lemma SLL_PopRange_sll:
  assumes l: "sll m p (xs @ ys)" and n: "N = length xs" "xs \<noteq> []"
  shows "\<exists>m' q. SLL_PopRange m p N = Some (m', q, hd xs, last xs) \<and>
           sll m' (hd xs) xs \<and> sll m' q ys \<and> (\<forall>a. a \<noteq> last xs \<longrightarrow> m' a = m a)"
proof -
  from n obtain us u where xs: "xs = us @ [u]" by (cases xs rule: rev_cases) auto
  note C = sll_cut [OF l n(2)]
  have "slseg m p us u" using l by (auto simp: xs slseg_append)
  then have "SLL_advance m p (N - 1) = Some (last xs)" using n xs by (auto intro: SLL_advance_seg)
  then have "SLL_PopRange m p N = Some (m(last xs := 0), m (last xs), hd xs, last xs)"
    using C(3,4) n by (simp add: SLL_PopRange_def SLL_Next_def SLL_SetNext_def)
  with C show ?thesis by auto
qed

lemma SLL_PushRange_sll:
  assumes "sll m p ys" "sll m s xs" "xs \<noteq> []" "e = last xs" "set xs \<inter> set ys = {}"
  shows "\<exists>m'. SLL_PushRange m p s e = Some (m', s) \<and> sll m' s (xs @ ys) \<and>
           (\<forall>a. a \<noteq> e \<longrightarrow> m' a = m a)"
proof -
  from assms obtain us where xs: "xs = us @ [e]" by (cases xs rule: rev_cases) auto
  from assms(2) xs have e: "slseg m s us e" "e \<noteq> 0" by (auto simp: slseg_append)
  have s: "s \<noteq> 0" using assms(2,3) by (cases xs) auto
  have d: "distinct xs" using assms(2) by (rule sll_distinct)
  have "sll (m(e := p)) s (xs @ ys)" 
    using e d assms(1,5) by (auto simp: xs slseg_append)
  then show ?thesis using s e by (simp add: SLL_PushRange_def SLL_SetNext_def)
qed

lemma SLL_Size_from_sll: "sll m p xs \<Longrightarrow> SLL_Size_from m p k = Some (k + length xs)"
  by (induction xs arbitrary: p k) (auto simp: SLL_Size_from.simps)

lemma SLL_Size_sll: "sll m p xs \<Longrightarrow> SLL_Size m p = Some (length xs)"
  by (simp add: SLL_Size_def SLL_Size_from_sll)

end
