(* ===== verification/Span_List.thy ===== *)
theory Span_List
  imports Linked_List
begin

text \<open>
  Spans and their doubly linked lists (\<open>span.h\<close>, \<open>span.cc\<close>). A \<open>Span*\<close> is a value of
  \<open>span_ptr\<close>: \<open>NULL\<close>, a span carved by the span allocator (by its address), or one of the
  list headers that live inside other objects, \<open>free_[i].normal\<close>, \<open>free_[i].returned\<close>,
  \<open>large_.normal\<close>, \<open>large_.returned\<close> of the page heap and \<open>empty_\<close>, \<open>nonempty_\<close> of a
  central free list. The store gives the \<open>Span\<close> object behind every pointer; the list
  operations rewrite its \<open>next\<close> and \<open>prev\<close> fields as the C code does.
\<close>

section \<open>The span object\<close>

datatype location = IN_USE | ON_NORMAL_FREELIST | ON_RETURNED_FREELIST

datatype span_ptr =
    SNull
  | Sp addr
  | FreeNormal nat | FreeReturned nat
  | LargeNormal | LargeReturned
  | CentralEmpty nat | CentralNonempty nat
  | SampledObjects

record Span =
  span_start :: nat
  span_length :: nat
  span_next :: span_ptr
  span_prev :: span_ptr
  objects :: addr
  refcount :: nat
  sizeclass :: nat
  location :: location
  sample :: bool

type_synonym store = "span_ptr \<Rightarrow> Span"

text \<open>A span object after \<open>memset(result, 0, sizeof(*result))\<close>.\<close>

definition zero_span :: Span where
  "zero_span = \<lparr>span_start = 0, span_length = 0, span_next = SNull, span_prev = SNull, objects = 0,
     refcount = 0, sizeclass = 0, location = IN_USE, sample = False\<rparr>"

text \<open>The fields other than the links.\<close>

definition span_data :: "Span \<Rightarrow> Span" where
  "span_data s = s\<lparr>span_next := SNull, span_prev := SNull\<rparr>"

section \<open>The list operations\<close>

definition deref :: "store \<Rightarrow> span_ptr \<Rightarrow> Span option" where
  "deref st p = (if p = SNull then None else Some (st p))"

definition set_next :: "store \<Rightarrow> span_ptr \<Rightarrow> span_ptr \<Rightarrow> store option" where
  "set_next st p q = (if p = SNull then None else Some (st(p := (st p)\<lparr>span_next := q\<rparr>)))"

definition set_prev :: "store \<Rightarrow> span_ptr \<Rightarrow> span_ptr \<Rightarrow> store option" where
  "set_prev st p q = (if p = SNull then None else Some (st(p := (st p)\<lparr>span_prev := q\<rparr>)))"

definition DLL_Init :: "store \<Rightarrow> span_ptr \<Rightarrow> store option" where
  "DLL_Init st lst = do {
     st \<leftarrow> set_next st lst lst;
     set_prev st lst lst }"

definition DLL_Remove :: "store \<Rightarrow> span_ptr \<Rightarrow> store option" where
  "DLL_Remove st span = do {
     st \<leftarrow> set_next st (span_prev (st span)) (span_next (st span));
     st \<leftarrow> set_prev st (span_next (st span)) (span_prev (st span));
     st \<leftarrow> set_prev st span SNull;
     set_next st span SNull }"

definition DLL_IsEmpty :: "store \<Rightarrow> span_ptr \<Rightarrow> bool" where
  "DLL_IsEmpty st lst = (span_next (st lst) = lst)"

definition DLL_Prepend :: "store \<Rightarrow> span_ptr \<Rightarrow> span_ptr \<Rightarrow> store option" where
  "DLL_Prepend st lst span = do {
     CHECK (span_next (st span) = SNull);
     CHECK (span_prev (st span) = SNull);
     st \<leftarrow> set_next st span (span_next (st lst));
     st \<leftarrow> set_prev st span lst;
     st \<leftarrow> set_prev st (span_next (st lst)) span;
     set_next st lst span }"

text \<open>The counting loop; it follows \<open>next\<close> until it is back at the header.\<close>

partial_function (option) DLL_Length_from ::
    "store \<Rightarrow> span_ptr \<Rightarrow> span_ptr \<Rightarrow> nat \<Rightarrow> nat option" where
  "DLL_Length_from st lst s result =
     (if s = lst then Some result
      else if s = SNull then None
      else DLL_Length_from st lst (span_next (st s)) (Suc result))"

definition DLL_Length :: "store \<Rightarrow> span_ptr \<Rightarrow> nat option" where
  "DLL_Length st lst = DLL_Length_from st lst (span_next (st lst)) 0"

section \<open>Abstraction: circular lists\<close>

text \<open>\<open>dseg st a xs b\<close>: from \<open>a\<close> the \<open>next\<close> links visit \<open>xs\<close> and arrive at \<open>b\<close>, and the
  \<open>prev\<close> links run back. \<open>dll st h xs\<close>: the circular list with header \<open>h\<close> holds \<open>xs\<close>.\<close>

fun dseg :: "store \<Rightarrow> span_ptr \<Rightarrow> span_ptr list \<Rightarrow> span_ptr \<Rightarrow> bool" where
  "dseg st a [] b = (span_next (st a) = b \<and> span_prev (st b) = a)"
| "dseg st a (x # xs) b = (span_next (st a) = x \<and> span_prev (st x) = a \<and> dseg st x xs b)"

definition dll :: "store \<Rightarrow> span_ptr \<Rightarrow> span_ptr list \<Rightarrow> bool" where
  "dll st h xs = (dseg st h xs h \<and> distinct (h # xs) \<and> SNull \<notin> set (h # xs))"

lemma dseg_append: "dseg st a (xs @ y # ys) b = (dseg st a xs y \<and> dseg st y ys b)"
  by (induction xs arbitrary: a) auto

lemma dseg_first: "dseg st a xs b \<Longrightarrow> span_next (st a) = hd (xs @ [b])"
  by (cases xs) auto

lemma dseg_last: "dseg st a xs b \<Longrightarrow> span_prev (st b) = last (a # xs)"
  by (induction xs arbitrary: a) auto

text \<open>Frame: only \<open>next\<close> of \<open>a\<close> and of \<open>xs\<close> and \<open>prev\<close> of \<open>xs\<close> and of \<open>b\<close> matter.\<close>

lemma dseg_frame:
  assumes "\<And>x. x \<in> set (a # xs) \<Longrightarrow> span_next (st' x) = span_next (st x)"
    and "\<And>x. x \<in> set (xs @ [b]) \<Longrightarrow> span_prev (st' x) = span_prev (st x)"
  shows "dseg st' a xs b = dseg st a xs b"
  using assms by (induction xs arbitrary: a) auto

lemma dll_frame:
  assumes "\<And>x. x \<in> set (h # xs) \<Longrightarrow> span_next (st' x) = span_next (st x)"
    and "\<And>x. x \<in> set (h # xs) \<Longrightarrow> span_prev (st' x) = span_prev (st x)"
  shows "dll st' h xs = dll st h xs"
proof -
  have "dseg st' h xs h = dseg st h xs h"
    by (rule dseg_frame) (use assms in auto)
  then show ?thesis by (simp add: dll_def)
qed

lemma dll_nonnull: "dll st h xs \<Longrightarrow> x \<in> set (h # xs) \<Longrightarrow> x \<noteq> SNull"
  by (auto simp: dll_def)

lemma dll_IsEmpty: "dll st h xs \<Longrightarrow> DLL_IsEmpty st h = (xs = [])"
  by (cases xs) (auto simp: dll_def DLL_IsEmpty_def)

lemma dll_hd: "dll st h (x # xs) \<Longrightarrow> span_next (st h) = x"
  by (auto simp: dll_def)

lemma dll_last: "dll st h xs \<Longrightarrow> xs \<noteq> [] \<Longrightarrow> span_prev (st h) = last xs"
  by (auto simp: dll_def dest: dseg_last)

lemma dll_next_linked: "dll st h xs \<Longrightarrow> x \<in> set xs \<Longrightarrow> span_next (st x) \<in> set (h # xs)"
proof -
  assume d: "dll st h xs" and "x \<in> set xs"
  then obtain ys zs where xs: "xs = ys @ x # zs" by (auto simp: in_set_conv_decomp)
  with d have "dseg st x zs h" by (auto simp: dll_def dseg_append)
  then have "span_next (st x) = hd (zs @ [h])" by (rule dseg_first)
  with xs show ?thesis by (cases zs) auto
qed

text \<open>Cutting a node out: the neighbours are linked to each other, the rest is unchanged.\<close>

lemma dseg_join:
  assumes "dseg st a ys s" "dseg st s zs b" "distinct (a # ys @ zs)" "b \<notin> set (ys @ zs)"
    and "span_next (st' (last (a # ys))) = hd (zs @ [b])"
    and "span_prev (st' (hd (zs @ [b]))) = last (a # ys)"
    and "\<And>x. x \<in> set (a # ys @ zs) \<Longrightarrow> x \<noteq> last (a # ys) \<Longrightarrow> span_next (st' x) = span_next (st x)"
    and "\<And>x. x \<in> set (ys @ zs @ [b]) \<Longrightarrow> x \<noteq> hd (zs @ [b]) \<Longrightarrow> span_prev (st' x) = span_prev (st x)"
  shows "dseg st' a (ys @ zs) b"
  using assms
proof (induction ys arbitrary: a)
  case Nil
  show ?case
  proof (cases zs)
    case (Cons z zs')
    with Nil have "dseg st z zs' b" by simp
    then have "dseg st' z zs' b"
      by (rule dseg_frame [THEN iffD2, rotated 2]) (use Nil Cons in auto)
    with Nil Cons show ?thesis by simp
  qed (use Nil in simp)
next
  case (Cons y ys)
  have "a \<noteq> last (y # ys)" using Cons.prems(3) last_in_set [of "y # ys"] by auto
  then have a: "span_next (st' a) = y" using Cons.prems(1) Cons.prems(7) [of a] by simp
  have h: "hd (zs @ [b]) \<in> set (zs @ [b])" by (cases zs) auto
  have "y \<notin> set (zs @ [b])" using Cons.prems(3,4) by auto
  with h have "y \<noteq> hd (zs @ [b])" by metis
  then have y: "span_prev (st' y) = a" using Cons.prems(1) Cons.prems(8) [of y] by simp
  have "dseg st' y (ys @ zs) b"
    by (rule Cons.IH) (use Cons.prems in \<open>auto split: if_splits\<close>)
  with a y show ?case by simp
qed

section \<open>Effect of the operations on one list\<close>

lemma DLL_Init_dll:
  "h \<noteq> SNull \<Longrightarrow> \<exists>st'. DLL_Init st h = Some st' \<and> dll st' h [] \<and>
     (\<forall>x. span_data (st' x) = span_data (st x)) \<and> (\<forall>x. x \<noteq> h \<longrightarrow> st' x = st x)"
  by (simp add: DLL_Init_def set_next_def set_prev_def dll_def span_data_def)

lemma DLL_Length_from_dseg:
  "dseg st s xs h \<Longrightarrow> h \<notin> set (s # xs) \<Longrightarrow> SNull \<notin> set (s # xs) \<Longrightarrow>
   DLL_Length_from st h s k = Some (k + Suc (length xs))"
  by (induction xs arbitrary: s k) (auto simp: DLL_Length_from.simps [of st h])

lemma DLL_Length_dll: "dll st h xs \<Longrightarrow> DLL_Length st h = Some (length xs)"
  by (cases xs) (auto simp: dll_def DLL_Length_def DLL_Length_from.simps [of st h h]
      DLL_Length_from_dseg)

lemma DLL_Prepend_dll:
  assumes d: "dll st h xs" and s: "s \<notin> set (h # xs)" "s \<noteq> SNull"
    and l: "span_next (st s) = SNull" "span_prev (st s) = SNull"
  shows "\<exists>st'. DLL_Prepend st h s = Some st' \<and> dll st' h (s # xs) \<and>
     (\<forall>x. span_data (st' x) = span_data (st x)) \<and> (\<forall>x. x \<notin> set (h # s # xs) \<longrightarrow> st' x = st x)"
proof (cases xs)
  case Nil
  with d s l show ?thesis
    by (auto simp: DLL_Prepend_def set_next_def set_prev_def dll_def span_data_def)
next
  case (Cons y ys)
  let ?st = "\<lambda>x. if x = h then (st h)\<lparr>span_next := s\<rparr> else if x = y then (st y)\<lparr>span_prev := s\<rparr>
    else if x = s then (st s)\<lparr>span_next := y, span_prev := h\<rparr> else st x"
  from Cons d have *: "span_next (st h) = y" "span_prev (st y) = h" "dseg st y ys h" "y \<noteq> SNull" "h \<noteq> SNull"
      "y \<noteq> h" "distinct (h # y # ys)" "SNull \<notin> set (h # y # ys)" by (auto simp: dll_def)
  have op: "DLL_Prepend st h s = Some ?st"
    using l s * Cons by (auto simp: DLL_Prepend_def set_next_def set_prev_def fun_eq_iff)
  have "dseg ?st y ys h"
    by (rule dseg_frame [THEN iffD2, OF _ _ *(3)]) (use * s Cons in auto)
  with * s Cons have "dll ?st h (s # xs)" by (auto simp: dll_def)
  moreover have "\<forall>x. span_data (?st x) = span_data (st x)" by (auto simp: span_data_def)
  moreover have "\<forall>x. x \<notin> set (h # s # xs) \<longrightarrow> ?st x = st x" by (auto simp: Cons)
  ultimately show ?thesis using op by blast
qed

lemma DLL_Remove_dll:
  assumes d: "dll st h xs" and s: "s \<in> set xs"
  shows "\<exists>st'. DLL_Remove st s = Some st' \<and> dll st' h (removeAll s xs) \<and>
     (\<forall>x. span_data (st' x) = span_data (st x)) \<and> (\<forall>x. x \<notin> set (h # xs) \<longrightarrow> st' x = st x) \<and>
     span_next (st' s) = SNull \<and> span_prev (st' s) = SNull"
proof -
  from s obtain ys zs where xs: "xs = ys @ s # zs" by (auto simp: in_set_conv_decomp)
  from d xs have segs: "dseg st h ys s" "dseg st s zs h"
    and dist: "distinct (h # ys @ s # zs)" and nn: "SNull \<notin> set (h # ys @ s # zs)"
    by (auto simp: dll_def dseg_append)
  obtain p n where pn: "p = last (h # ys)" "n = hd (zs @ [h])" by blast
  have p: "span_prev (st s) = p" unfolding pn using segs(1) by (rule dseg_last)
  have n: "span_next (st s) = n" unfolding pn using segs(2) by (rule dseg_first)
  have pin: "p \<in> set (h # ys)" unfolding pn by (rule last_in_set) simp
  have nin: "n \<in> set (zs @ [h])" unfolding pn by (cases zs) auto
  have ne: "p \<noteq> s" "n \<noteq> s" "p \<noteq> SNull" "n \<noteq> SNull" "s \<noteq> SNull"
    using pin nin dist nn by auto
  define st1 where "st1 = st(p := (st p)\<lparr>span_next := n\<rparr>)"
  define st2 where "st2 = st1(n := (st1 n)\<lparr>span_prev := p\<rparr>)"
  define st3 where "st3 = st2(s := (st2 s)\<lparr>span_prev := SNull, span_next := SNull\<rparr>)"
  have op: "DLL_Remove st s = Some st3"
    using p n ne by (simp add: DLL_Remove_def set_next_def set_prev_def st1_def st2_def st3_def)
  have eqs: "span_next (st3 p) = n" "span_prev (st3 n) = p"
    "\<And>x. x \<noteq> s \<Longrightarrow> x \<noteq> p \<Longrightarrow> span_next (st3 x) = span_next (st x)"
    "\<And>x. x \<noteq> s \<Longrightarrow> x \<noteq> n \<Longrightarrow> span_prev (st3 x) = span_prev (st x)"
    using ne by (simp_all add: st1_def st2_def st3_def)
  have "dseg st3 h (ys @ zs) h"
    by (rule dseg_join [OF segs], unfold pn [symmetric]) (use dist in \<open>auto simp: eqs(1,2) intro!: eqs(3,4)\<close>)
  moreover have "removeAll s xs = ys @ zs" using dist by (simp add: xs)
  ultimately have "dll st3 h (removeAll s xs)" using dist nn by (auto simp: dll_def)
  moreover have "\<forall>x. span_data (st3 x) = span_data (st x)"
    by (simp add: st1_def st2_def st3_def span_data_def)
  moreover have "\<forall>x. x \<notin> set (h # xs) \<longrightarrow> st3 x = st x"
    using pin nin by (auto simp: st1_def st2_def st3_def xs)
  moreover have "span_next (st3 s) = SNull" "span_prev (st3 s) = SNull"
    by (auto simp: st3_def)
  ultimately show ?thesis using op by blast
qed

section \<open>A family of disjoint lists\<close>

text \<open>
  All list headers of the allocator at once: \<open>dlls st H L\<close> holds when every header \<open>h\<close> of
  \<open>H\<close> carries the circular list \<open>L h\<close> and no span is on two lists (or twice on one).
  A span on no list is \<open>loose\<close> when both links are \<open>NULL\<close>, as \<open>DLL_Prepend\<close> demands.
\<close>

definition dlls :: "store \<Rightarrow> span_ptr set \<Rightarrow> (span_ptr \<Rightarrow> span_ptr list) \<Rightarrow> bool" where
  "dlls st H L = ((\<forall>h\<in>H. dll st h (L h) \<and> set (L h) \<inter> H = {}) \<and>
     (\<forall>h\<in>H. \<forall>h'\<in>H. h \<noteq> h' \<longrightarrow> set (L h) \<inter> set (L h') = {}))"

definition loose :: "store \<Rightarrow> span_ptr \<Rightarrow> bool" where
  "loose st s = (span_next (st s) = SNull \<and> span_prev (st s) = SNull)"

lemma dlls_dll: "dlls st H L \<Longrightarrow> h \<in> H \<Longrightarrow> dll st h (L h)"
  by (simp add: dlls_def)

lemma dlls_distinct: "dlls st H L \<Longrightarrow> h \<in> H \<Longrightarrow> distinct (L h)"
  by (auto simp: dlls_def dll_def)

lemma dlls_disjoint:
  assumes "dlls st H L" "h \<in> H" "h' \<in> H" "s \<in> set (L h)" "s \<in> set (L h')"
  shows "h = h'"
  using assms unfolding dlls_def by blast

lemma dlls_cell_disjoint:
  assumes "dlls st H L" "h \<in> H" "h' \<in> H" "h' \<noteq> h" "x \<in> set (h' # L h')"
  shows "x \<notin> set (h # L h)"
  using assms unfolding dlls_def by (auto; blast)

lemma dlls_not_header: "dlls st H L \<Longrightarrow> h \<in> H \<Longrightarrow> s \<in> set (L h) \<Longrightarrow> s \<notin> H"
  by (auto simp: dlls_def)

lemma dlls_nonnull: "dlls st H L \<Longrightarrow> h \<in> H \<Longrightarrow> s \<in> set (L h) \<Longrightarrow> s \<noteq> SNull"
  by (auto simp: dlls_def dll_def)

lemma dlls_not_loose:
  assumes "dlls st H L" "h \<in> H" "loose st s"
  shows "s \<notin> set (h # L h)"
proof
  assume "s \<in> set (h # L h)"
  moreover have d: "dll st h (L h)" using assms(1,2) by (rule dlls_dll)
  moreover from d have "span_next (st h) \<in> set (h # L h)"
    by (cases "L h") (auto simp: dll_def)
  ultimately have "span_next (st s) \<in> set (h # L h)" by (auto dest: dll_next_linked)
  then have "span_next (st s) \<noteq> SNull" using d by (blast dest: dll_nonnull)
  with assms(3) show False by (simp add: loose_def)
qed

lemma dlls_frame:
  assumes "dlls st H L" "\<And>x. x \<in> H \<union> (\<Union>h\<in>H. set (L h)) \<Longrightarrow>
      span_next (st' x) = span_next (st x) \<and> span_prev (st' x) = span_prev (st x)"
  shows "dlls st' H L"
proof -
  have "dll st' h (L h) = dll st h (L h)" if "h \<in> H" for h
    by (rule dll_frame) (use that assms(2) in auto)
  with assms(1) show ?thesis by (simp add: dlls_def)
qed

lemma DLL_Prepend_dlls:
  assumes D: "dlls st H L" and h: "h \<in> H" and s: "s \<noteq> SNull" "s \<notin> H" "loose st s"
  shows "\<exists>st'. DLL_Prepend st h s = Some st' \<and> dlls st' H (L(h := s # L h)) \<and>
     (\<forall>x. span_data (st' x) = span_data (st x)) \<and> (\<forall>x. x \<noteq> s \<longrightarrow> loose st x \<longrightarrow> loose st' x)"
proof -
  have nin: "s \<notin> set (L h')" if "h' \<in> H" for h' using dlls_not_loose [OF D that s(3)] by simp
  obtain st' where st': "DLL_Prepend st h s = Some st'" "dll st' h (s # L h)"
      "\<forall>x. span_data (st' x) = span_data (st x)" "\<forall>x. x \<notin> set (h # s # L h) \<longrightarrow> st' x = st x"
    using DLL_Prepend_dll [OF dlls_dll [OF D h], of s] nin [OF h] s h by (auto simp: loose_def)
  have "dll st' h' (L h')" if "h' \<in> H" "h' \<noteq> h" for h'
  proof -
    have "st' x = st x" if "x \<in> set (h' # L h')" for x
      using dlls_cell_disjoint [OF D h \<open>h' \<in> H\<close> \<open>h' \<noteq> h\<close> that] that s(2) nin [OF \<open>h' \<in> H\<close>] st'(4)
        \<open>h' \<in> H\<close> by auto
    then show ?thesis using dll_frame [of h' "L h'" st' st] dlls_dll [OF D \<open>h' \<in> H\<close>] by simp
  qed
  moreover have "set (L h1) \<inter> set (L h2) = {}" if "h1 \<in> H" "h2 \<in> H" "h1 \<noteq> h2" for h1 h2
    using D that unfolding dlls_def by blast
  moreover have "set (L h1) \<inter> H = {}" if "h1 \<in> H" for h1 using D that unfolding dlls_def by blast
  ultimately have "dlls st' H (L(h := s # L h))"
    using h s(2) nin st'(2) unfolding dlls_def by auto
  moreover have "loose st' x" if "x \<noteq> s" "loose st x" for x
  proof -
    have "x \<notin> set (h # L h)" using that by (intro dlls_not_loose [OF D h])
    with that st'(4) show ?thesis by (simp add: loose_def)
  qed
  ultimately show ?thesis using st' by blast
qed

lemma DLL_Remove_dlls:
  assumes D: "dlls st H L" and h: "h \<in> H" and s: "s \<in> set (L h)"
  shows "\<exists>st'. DLL_Remove st s = Some st' \<and> dlls st' H (L(h := removeAll s (L h))) \<and>
     (\<forall>x. span_data (st' x) = span_data (st x)) \<and> loose st' s \<and>
     (\<forall>x. loose st x \<longrightarrow> loose st' x)"
proof -
  obtain st' where st': "DLL_Remove st s = Some st'" "dll st' h (removeAll s (L h))"
      "\<forall>x. span_data (st' x) = span_data (st x)" "\<forall>x. x \<notin> set (h # L h) \<longrightarrow> st' x = st x"
      "loose st' s"
    using DLL_Remove_dll [OF dlls_dll [OF D h] s] by (auto simp: loose_def)
  have "dll st' h' (L h')" if "h' \<in> H" "h' \<noteq> h" for h'
  proof -
    have "st' x = st x" if "x \<in> set (h' # L h')" for x
      using dlls_cell_disjoint [OF D h \<open>h' \<in> H\<close> \<open>h' \<noteq> h\<close> that] st'(4) by auto
    then show ?thesis using dll_frame [of h' "L h'" st' st] dlls_dll [OF D \<open>h' \<in> H\<close>] by simp
  qed
  moreover have "set (L h1) \<inter> set (L h2) = {}" if "h1 \<in> H" "h2 \<in> H" "h1 \<noteq> h2" for h1 h2
    using D that unfolding dlls_def by blast
  moreover have "set (L h1) \<inter> H = {}" if "h1 \<in> H" for h1 using D that unfolding dlls_def by blast
  ultimately have "dlls st' H (L(h := removeAll s (L h)))"
    using h st'(2) unfolding dlls_def by auto blast+
  moreover have "loose st' x" if "loose st x" for x
  proof -
    have "x \<notin> set (h # L h)" using that by (intro dlls_not_loose [OF D h])
    with that st'(4) show ?thesis by (simp add: loose_def)
  qed
  ultimately show ?thesis using st' by blast
qed

end
