(* ===== verification/Page_Map.thy ===== *)
theory Page_Map
  imports Prelude
begin

text \<open>
  The maps from page numbers to per-page data of \<open>pagemap.h\<close>: a flat array
  (\<open>TCMalloc_PageMap1\<close>), a two-level (\<open>TCMalloc_PageMap2\<close>) and a three-level radix tree
  (\<open>TCMalloc_PageMap3\<close>), all over a number of key bits \<open>b\<close> (the template parameter \<open>BITS\<close>).
  A \<open>void*\<close> entry is a value of type \<open>'v option\<close>, \<open>None\<close> being \<open>NULL\<close>; an array is a function
  from its index; a node pointer is an option. Keys are natural numbers below \<open>2^64\<close>; shifts
  and masks are written as \<open>div\<close>, \<open>mod\<close> and multiplication by powers of two, and the one sum
  that can wrap (\<open>start + n - 1\<close>) is written modulo \<open>2^64\<close>. The function pointer
  \<open>allocator\<close> is the argument \<open>alloc\<close>: given a size and the allocator's state it tells
  whether it returned memory.
  The locale \<open>page_map\<close> is the interface that the page heap relies on; the three maps
  interpret it.
\<close>

section \<open>The interface\<close>

type_synonym 'a allocator = "nat \<Rightarrow> 'a \<Rightarrow> bool \<times> 'a"

locale page_map =
  fixes get :: "'m \<Rightarrow> nat \<Rightarrow> 'v option"
    and put :: "'m \<Rightarrow> nat \<Rightarrow> 'v option \<Rightarrow> 'm option"
    and ensure :: "'a allocator \<Rightarrow> 'm \<Rightarrow> 'a \<Rightarrow> nat \<Rightarrow> nat \<Rightarrow> bool \<times> 'm \<times> 'a"
    and nxt :: "'m \<Rightarrow> nat \<Rightarrow> 'v option"
    and ensured :: "'m \<Rightarrow> nat \<Rightarrow> bool"
  assumes get_unensured: "\<not> ensured m k \<Longrightarrow> get m k = None"
    and put_ok: "ensured m k \<Longrightarrow> \<exists>m'. put m k v = Some m'"
    and get_put: "ensured m k \<Longrightarrow> put m k v = Some m' \<Longrightarrow> get m' = (get m)(k := v)"
    and ensured_put: "ensured m k \<Longrightarrow> put m k v = Some m' \<Longrightarrow> ensured m' = ensured m"
    and get_ensure: "ensure al m a x n = (r, m', a') \<Longrightarrow> get m' = get m"
    and ensured_ensure: "ensure al m a x n = (r, m', a') \<Longrightarrow> ensured m k \<Longrightarrow> ensured m' k"
    and ensure_true: "ensure al m a x n = (True, m', a') \<Longrightarrow> 0 < n \<Longrightarrow> x + n \<le> 2 ^ 64 \<Longrightarrow>
        x \<le> k \<Longrightarrow> k < x + n \<Longrightarrow> ensured m' k"
    and nxt_Some: "nxt m k = Some w \<Longrightarrow>
        \<exists>j\<ge>k. get m j = Some w \<and> (\<forall>i. k \<le> i \<and> i < j \<longrightarrow> get m i = None)"
    and nxt_None: "nxt m k = None \<Longrightarrow> j \<ge> k \<Longrightarrow> get m j = None"
begin

fun puts :: "'m \<Rightarrow> (nat \<times> 'v option) list \<Rightarrow> 'm option" where
  "puts m [] = Some m"
| "puts m ((k, v) # kvs) = do { m' \<leftarrow> put m k v; puts m' kvs }"

text \<open>A sequence of stores to ensured keys succeeds and acts as the updates in order.\<close>

lemma puts_get:
  assumes "\<forall>(k, v) \<in> set kvs. ensured m k"
  shows "\<exists>m'. puts m kvs = Some m' \<and> ensured m' = ensured m \<and>
     get m' = fold (\<lambda>(k, v) f. f(k := v)) kvs (get m)"
  using assms
proof (induction kvs arbitrary: m)
  case (Cons kv kvs)
  obtain k v where kv: "kv = (k, v)" by (cases kv)
  with Cons.prems have k: "ensured m k" by auto
  then obtain m1 where m1: "put m k v = Some m1" using put_ok by blast
  have e: "ensured m1 = ensured m" and g: "get m1 = (get m)(k := v)"
    using ensured_put [OF k m1] get_put [OF k m1] by simp_all
  from Cons.prems e have "\<forall>(k, v)\<in>set kvs. ensured m1 k" by auto
  from Cons.IH [OF this] m1 e g kv show ?case by auto
qed simp

lemma put_same_key: "ensured m k \<Longrightarrow> put m k v = Some m' \<Longrightarrow> get m' k = v"
  using get_put by fastforce

lemma put_other_key: "ensured m k \<Longrightarrow> put m k v = Some m' \<Longrightarrow> j \<noteq> k \<Longrightarrow> get m' j = get m j"
  using get_put by fastforce

lemma nxt_first: "get m k = Some v \<Longrightarrow> nxt m k = Some v"
proof (cases "nxt m k")
  case None
  then show "get m k = Some v \<Longrightarrow> nxt m k = Some v" using nxt_None [OF None, of k] by simp
next
  case (Some w)
  assume g: "get m k = Some v"
  from nxt_Some [OF Some] obtain j where j: "j \<ge> k" "get m j = Some w"
    "\<forall>i. k \<le> i \<and> i < j \<longrightarrow> get m i = None" by blast
  with g have "j = k" by (metis le_neq_implies_less option.distinct(1) order_refl)
  with j g Some show ?thesis by simp
qed

end

text \<open>The last key of \<open>start .. start + n - 1\<close> in 64-bit arithmetic.\<close>

definition last_key :: "nat \<Rightarrow> nat \<Rightarrow> nat" where
  "last_key start n = (start + n + (2 ^ 64 - 1)) mod 2 ^ 64"

lemma last_key_eq: "0 < n \<Longrightarrow> start + n \<le> 2 ^ 64 \<Longrightarrow> last_key start n = start + n - 1"
proof -
  assume "0 < n" "start + n \<le> 2 ^ 64"
  then have "start + n + (2 ^ 64 - 1) = (start + n - 1) + 2 ^ 64" "start + n - 1 < 2 ^ 64" by auto
  then show ?thesis unfolding last_key_def by (metis mod_add_self2 mod_less)
qed

text \<open>The forward scan of a value array: first non-null entry at or after \<open>i\<close>, below \<open>len\<close>.\<close>

function scan :: "(nat \<Rightarrow> 'v option) \<Rightarrow> nat \<Rightarrow> nat \<Rightarrow> 'v option" where
  "scan values i len =
     (if i < len then (case values i of Some v \<Rightarrow> Some v | None \<Rightarrow> scan values (Suc i) len)
      else None)"
  by pat_completeness auto
termination by (relation "measure (\<lambda>(_, i, len). len - i)") auto

declare scan.simps [simp del]

lemma scan_Some:
  "scan f i len = Some v \<Longrightarrow> \<exists>j. i \<le> j \<and> j < len \<and> f j = Some v \<and> (\<forall>l. i \<le> l \<and> l < j \<longrightarrow> f l = None)"
proof (induction f i len rule: scan.induct)
  case (1 f i len)
  show ?case
  proof (cases "i < len \<and> f i = None")
    case True
    with "1.prems" have "scan f (Suc i) len = Some v" by (simp add: scan.simps [of f i])
    with "1.IH" True obtain j where "Suc i \<le> j" "j < len" "f j = Some v"
      "\<forall>l. Suc i \<le> l \<and> l < j \<longrightarrow> f l = None" by auto
    with True show ?thesis by (metis Suc_leD le_neq_implies_less less_eq_Suc_le)
  next
    case False
    with "1.prems" show ?thesis by (auto simp: scan.simps [of f i] split: if_splits option.splits)
  qed
qed

lemma scan_None: "scan f i len = None \<Longrightarrow> i \<le> j \<Longrightarrow> j < len \<Longrightarrow> f j = None"
proof (induction f i len rule: scan.induct)
  case (1 f i len)
  then show ?case
    by (cases "i = j") (auto simp: scan.simps [of f i] scan.simps [of f j] split: option.splits)
qed

text \<open>\<open>((key >> l) + 1) << l\<close>: the first key past the leaf of \<open>2^l\<close> keys that holds \<open>key\<close>.\<close>

definition next_key :: "nat \<Rightarrow> nat \<Rightarrow> nat" where
  "next_key l key = (key div 2 ^ l + 1) * 2 ^ l"

lemma next_key_gt: "key < next_key l key"
proof -
  have "key = key div 2 ^ l * 2 ^ l + key mod 2 ^ l" by (simp only: div_mult_mod_eq)
  also have "\<dots> < key div 2 ^ l * 2 ^ l + 2 ^ l" by (rule add_strict_left_mono) simp
  finally show ?thesis unfolding next_key_def by (simp only: add_mult_distrib mult_1)
qed

lemma next_key_same_leaf: "k \<le> j \<Longrightarrow> j < next_key l k \<Longrightarrow> j div 2 ^ l = k div 2 ^ l"
proof -
  assume "k \<le> j" and "j < next_key l k"
  then have "k div 2 ^ l \<le> j div 2 ^ l" "j div 2 ^ l < k div 2 ^ l + 1"
    by (auto simp: next_key_def div_le_mono less_mult_imp_div_less)
  then show ?thesis by simp
qed

text \<open>
  The loop that both radix trees run in \<open>Ensure\<close>: \<open>step\<close> is the loop body up to the advance
  of \<open>key\<close> (the overflow check and the creation of missing nodes for \<open>key\<close>); \<open>False\<close> is
  its early return. \<open>l\<close> is \<open>LEAF_BITS\<close>.
\<close>

function ensure_loop :: "nat \<Rightarrow> ('m \<Rightarrow> 'a \<Rightarrow> nat \<Rightarrow> bool \<times> 'm \<times> 'a) \<Rightarrow> 'm \<Rightarrow> 'a \<Rightarrow> nat \<Rightarrow> nat \<Rightarrow>
    bool \<times> 'm \<times> 'a" where
  "ensure_loop l step m a key stop =
     (if key \<le> stop then
        (let (ok, m', a') = step m a key
         in if ok then ensure_loop l step m' a' (next_key l key) stop else (False, m', a'))
      else (True, m, a))"
  by pat_completeness auto
termination
proof (relation "measure (\<lambda>(l, step, m, a, key, stop). Suc stop - key)", goal_cases)
  case (2 l step m a key stop)
  then show ?case using next_key_gt [of key l] by auto
qed simp

declare ensure_loop.simps [simp del]

text \<open>
  What one round keeps and establishes, the loop keeps and establishes for all its keys:
  \<open>G\<close> is what lookups see, \<open>E\<close> which keys have their nodes.
\<close>

lemma ensure_loop_spec:
  assumes step: "\<And>m a key r m' a'. step m a key = (r, m', a') \<Longrightarrow>
      G m' = G m \<and> (\<forall>k. E m k \<longrightarrow> E m' k) \<and> (r \<longrightarrow> (\<forall>k. key \<le> k \<and> k < next_key l key \<longrightarrow> E m' k))"
    and "ensure_loop l step m a key stop = (r, m', a')"
  shows "G m' = G m \<and> (\<forall>k. E m k \<longrightarrow> E m' k) \<and> (r \<longrightarrow> (\<forall>k. key \<le> k \<and> k \<le> stop \<longrightarrow> E m' k))"
  using assms
proof (induction l step m a key stop rule: ensure_loop.induct)
  case (1 l step m a key stop)
  show ?case
  proof (cases "key \<le> stop")
    case True
    obtain ok m1 a1 where st: "step m a key = (ok, m1, a1)" by (cases "step m a key") auto
    note s = "1.prems"(1) [OF st]
    show ?thesis
    proof (cases ok)
      case t: True
      have run: "ensure_loop l step m1 a1 (next_key l key) stop = (r, m', a')"
        using "1.prems"(2) True st t by (simp add: ensure_loop.simps [of l step m])
      have "G m' = G m1 \<and> (\<forall>k. E m1 k \<longrightarrow> E m' k) \<and>
          (r \<longrightarrow> (\<forall>k. next_key l key \<le> k \<and> k \<le> stop \<longrightarrow> E m' k))"
        by (rule "1.IH" [OF True refl st [symmetric] refl t _ run]) (rule "1.prems"(1))
      with s t show ?thesis by (metis not_le)
    next
      case False
      with "1.prems"(2) True st have "r = False" "m' = m1" by (simp_all add: ensure_loop.simps [of l step m])
      with s show ?thesis by simp
    qed
  next
    case False
    with "1.prems"(2) show ?thesis by (auto simp: ensure_loop.simps [of l step m])
  qed
qed

text \<open>\<open>r\<close> is the first entry of \<open>g\<close> at or after key \<open>k\<close>.\<close>

definition first_from :: "(nat \<Rightarrow> 'v option) \<Rightarrow> nat \<Rightarrow> 'v option \<Rightarrow> bool" where
  "first_from g k r =
     (case r of
        Some w \<Rightarrow> \<exists>j\<ge>k. g j = Some w \<and> (\<forall>i. k \<le> i \<and> i < j \<longrightarrow> g i = None)
      | None \<Rightarrow> \<forall>j\<ge>k. g j = None)"

lemma first_from_skip:
  assumes "first_from g k' r" "k \<le> k'" "\<And>i. k \<le> i \<Longrightarrow> i < k' \<Longrightarrow> g i = None"
  shows "first_from g k r"
  using assms unfolding first_from_def
  by (auto split: option.splits) (metis le_trans not_le)+

text \<open>Scanning the rest of a leaf is searching the keys up to the next leaf.\<close>

lemma leaf_scan:
  assumes g: "\<And>j. k \<le> j \<Longrightarrow> j < next_key l k \<Longrightarrow> g j = leaf (j mod 2 ^ l)"
  shows leaf_scan_Some: "scan leaf (k mod 2 ^ l) (2 ^ l) = Some v \<Longrightarrow> first_from g k (Some v)"
    and leaf_scan_None: "scan leaf (k mod 2 ^ l) (2 ^ l) = None \<Longrightarrow> k \<le> j \<Longrightarrow> j < next_key l k \<Longrightarrow> g j = None"
proof -
  define q t where "q = k div 2 ^ l * 2 ^ l" and "t = k mod 2 ^ l"
  have k: "k = q + t" unfolding q_def t_def by (simp only: div_mult_mod_eq)
  have nk: "next_key l k = q + 2 ^ l" by (simp add: next_key_def q_def)
  have md: "(q + i) mod 2 ^ l = i" if "i < 2 ^ l" for i using that by (simp add: q_def)
  have loc: "g (q + i) = leaf i" if "t \<le> i" "i < 2 ^ l" for i
    using g [of "q + i"] that md [of i] k nk by simp
  {
    assume "scan leaf (k mod 2 ^ l) (2 ^ l) = Some v"
    then obtain i where i: "t \<le> i" "i < 2 ^ l" "leaf i = Some v"
      and first: "\<forall>x. t \<le> x \<and> x < i \<longrightarrow> leaf x = None"
      unfolding t_def by (blast dest: scan_Some)
    have "g x = None" if x: "k \<le> x" "x < q + i" for x
    proof -
      define y where "y = x - q"
      have y: "x = q + y" "t \<le> y" "y < i" using x k by (simp_all add: y_def)
      then have "g x = leaf y" using loc [of y] i(2) by simp
      with first y show ?thesis by simp
    qed
    moreover have "k \<le> q + i" "g (q + i) = Some v" using k i loc [of i] by simp_all
    ultimately show "first_from g k (Some v)" unfolding first_from_def by auto
  }
  {
    assume sc: "scan leaf (k mod 2 ^ l) (2 ^ l) = None" and j: "k \<le> j" "j < next_key l k"
    define y where "y = j - q"
    have y: "j = q + y" "t \<le> y" "y < 2 ^ l" using j k nk by (simp_all add: y_def)
    have "leaf y = None" by (rule scan_None [OF sc]) (use y in \<open>simp_all add: t_def\<close>)
    with loc [of y] y show "g j = None" by simp
  }
qed

text \<open>One round of a \<open>Next\<close> loop over the leaf of \<open>k\<close>, given what the loop finds afterwards.\<close>

lemma leaf_scan_first:
  assumes "\<And>j. k \<le> j \<Longrightarrow> j < next_key l k \<Longrightarrow> g j = leaf (j mod 2 ^ l)"
    and "first_from g (next_key l k) r"
  shows "first_from g k (case scan leaf (k mod 2 ^ l) (2 ^ l) of Some v \<Rightarrow> Some v | None \<Rightarrow> r)"
proof (cases "scan leaf (k mod 2 ^ l) (2 ^ l)")
  case None
  have "first_from g k r"
    by (rule first_from_skip [OF assms(2)])
      (use next_key_gt [of k l] leaf_scan_None [of k l g leaf, OF assms(1) None] in auto)
  with None show ?thesis by simp
next
  case (Some v)
  with leaf_scan_Some [of k l g leaf, OF assms(1) Some] show ?thesis by simp
qed

section \<open>Single-level array\<close>

type_synonym 'v pagemap1 = "nat \<Rightarrow> 'v option"

text \<open>\<open>LENGTH - x\<close> is an unsigned 64-bit subtraction.\<close>

definition PageMap1_new :: "'v pagemap1" where
  "PageMap1_new = (\<lambda>_. None)"

definition PageMap1_Ensure :: "nat \<Rightarrow> nat \<Rightarrow> nat \<Rightarrow> bool" where
  "PageMap1_Ensure b x n = (n \<le> (2 ^ b + 2 ^ 64 - x) mod 2 ^ 64)"

definition PageMap1_get :: "nat \<Rightarrow> 'v pagemap1 \<Rightarrow> nat \<Rightarrow> 'v option" where
  "PageMap1_get b m k = (if k div 2 ^ b > 0 then None else m k)"

text \<open>A store outside the array is undefined behaviour, modelled as a crash.\<close>

definition PageMap1_set :: "nat \<Rightarrow> 'v pagemap1 \<Rightarrow> nat \<Rightarrow> 'v option \<Rightarrow> 'v pagemap1 option" where
  "PageMap1_set b m k v = (if k < 2 ^ b then Some (m(k := v)) else None)"

definition PageMap1_Next :: "nat \<Rightarrow> 'v pagemap1 \<Rightarrow> nat \<Rightarrow> 'v option" where
  "PageMap1_Next b m k = scan m k (2 ^ b)"

lemma div_pow2_pos: "(k div 2 ^ b > 0) = (2 ^ b \<le> (k::nat))"
  by (simp add: div_greater_zero_iff)

lemma PageMap1_Ensure_in_range:
  "b < 64 \<Longrightarrow> x \<le> 2 ^ b \<Longrightarrow> PageMap1_Ensure b x n = (x + n \<le> 2 ^ b)"
proof -
  assume b: "b < 64" and x: "x \<le> 2 ^ b"
  have "(2::nat) ^ b < 2 ^ 64" using b by (intro power_strict_increasing) auto
  moreover have "2 ^ b + 2 ^ 64 - x = (2 ^ b - x) + 2 ^ 64" using x by simp
  ultimately have "(2 ^ b + 2 ^ 64 - x) mod 2 ^ 64 = 2 ^ b - x"
    by (metis mod_add_self2 mod_less diff_le_self le_less_trans)
  with x show ?thesis by (auto simp: PageMap1_Ensure_def)
qed

lemma PageMap1_Ensure_out_of_range:
  assumes "b < 63" "2 ^ b < x" "x < 2 ^ 64" "n \<le> 2 ^ b"
  shows "PageMap1_Ensure b x n"
proof -
  have p: "(2::nat) ^ Suc b \<le> 2 ^ 63" using assms(1) by (intro power_increasing) auto
  have lt: "2 ^ b + 2 ^ 64 - x < 2 ^ 64" using assms(2,3) by simp
  have "n \<le> 2 ^ b + 2 ^ 64 - x" using assms(3,4) p by simp
  then show ?thesis using lt by (simp add: PageMap1_Ensure_def mod_less)
qed

lemma PageMap1_get_range: "PageMap1_get b m k = (if k < 2 ^ b then m k else None)"
  by (auto simp: PageMap1_get_def not_less div_pow2_pos)

text \<open>
  The flat array meets the interface where \<open>Ensure\<close> is asked about a start inside the
  array; past the end the unsigned subtraction of the code wraps (see
  \<open>PageMap1_Ensure_out_of_range\<close>), so the interpretation is over the guarded call.
\<close>

interpretation pm1: page_map "PageMap1_get b" "PageMap1_set b"
    "\<lambda>al m a x n. (b < 64 \<and> x \<le> 2 ^ b \<and> PageMap1_Ensure b x n, m, a)" "PageMap1_Next b"
    "\<lambda>m k. k < 2 ^ b" for b
proof (unfold_locales, goal_cases)
  case (7 al m a x n m' a' k)
  then show ?case using PageMap1_Ensure_in_range [of b x n] by auto
next
  case (8 m k v)
  then obtain j where "k \<le> j" "j < 2 ^ b" "m j = Some v" "\<forall>i. k \<le> i \<and> i < j \<longrightarrow> m i = None"
    unfolding PageMap1_Next_def by (blast dest: scan_Some)
  then show ?case by (intro exI [of _ j]) (simp add: PageMap1_get_range)
next
  case (9 m k j)
  then show ?case by (auto simp: PageMap1_Next_def PageMap1_get_range dest: scan_None)
qed (auto simp: PageMap1_get_range [abs_def] PageMap1_set_def split: if_splits)

section \<open>Two-level radix tree\<close>

text \<open>
  \<open>ROOT_BITS = 5\<close>; the rest of the key indexes a leaf. A leaf is its value array.
\<close>

type_synonym 'v leaf = "nat \<Rightarrow> 'v option"
type_synonym 'v pagemap2 = "nat \<Rightarrow> 'v leaf option"

definition ROOT_LENGTH :: nat where "ROOT_LENGTH = 2 ^ 5"

definition PageMap2_new :: "'v pagemap2" where
  "PageMap2_new = (\<lambda>_. None)"

definition PageMap2_get :: "nat \<Rightarrow> 'v pagemap2 \<Rightarrow> nat \<Rightarrow> 'v option" where
  "PageMap2_get b root k =
     (let i1 = k div 2 ^ (b - 5); i2 = k mod 2 ^ (b - 5)
      in if k div 2 ^ b > 0 then None
         else case root i1 of None \<Rightarrow> None | Some leaf \<Rightarrow> leaf i2)"

definition PageMap2_set :: "nat \<Rightarrow> 'v pagemap2 \<Rightarrow> nat \<Rightarrow> 'v option \<Rightarrow> 'v pagemap2 option" where
  "PageMap2_set b root k v =
     (let i1 = k div 2 ^ (b - 5); i2 = k mod 2 ^ (b - 5)
      in do {
        CHECK (i1 < ROOT_LENGTH);
        leaf \<leftarrow> root i1;
        Some (root(i1 := Some (leaf(i2 := v)))) })"

text \<open>One round of \<open>Ensure\<close>: the overflow check and the leaf for \<open>key\<close>. \<open>sizeof(Leaf)\<close> is
  \<open>8 * LEAF_LENGTH\<close>.\<close>

definition PageMap2_Ensure_key :: "nat \<Rightarrow> 'a allocator \<Rightarrow> 'v pagemap2 \<Rightarrow> 'a \<Rightarrow> nat \<Rightarrow>
    bool \<times> 'v pagemap2 \<times> 'a" where
  "PageMap2_Ensure_key b alloc root a key =
     (let i1 = key div 2 ^ (b - 5)
      in if i1 \<ge> ROOT_LENGTH then (False, root, a)
         else if root i1 = None then
           (case alloc (8 * 2 ^ (b - 5)) a of
              (False, a') \<Rightarrow> (False, root, a')
            | (True, a') \<Rightarrow> (True, root(i1 := Some (\<lambda>_. None)), a'))
         else (True, root, a))"

definition PageMap2_Ensure :: "nat \<Rightarrow> 'a allocator \<Rightarrow> 'v pagemap2 \<Rightarrow> 'a \<Rightarrow> nat \<Rightarrow> nat \<Rightarrow>
    bool \<times> 'v pagemap2 \<times> 'a" where
  "PageMap2_Ensure b alloc root a start n =
     ensure_loop (b - 5) (PageMap2_Ensure_key b alloc) root a start (last_key start n)"

definition PageMap2_PreallocateMoreMemory :: "nat \<Rightarrow> 'a allocator \<Rightarrow> 'v pagemap2 \<Rightarrow> 'a \<Rightarrow>
    'v pagemap2 \<times> 'a" where
  "PageMap2_PreallocateMoreMemory b alloc root a =
     snd (PageMap2_Ensure b alloc root a 0 (2 ^ b))"

function PageMap2_Next :: "nat \<Rightarrow> 'v pagemap2 \<Rightarrow> nat \<Rightarrow> 'v option" where
  "PageMap2_Next b root k =
     (if k < 2 ^ b then
        let i1 = k div 2 ^ (b - 5); k' = next_key (b - 5) k
        in case root i1 of
             None \<Rightarrow> PageMap2_Next b root k'
           | Some leaf \<Rightarrow>
               (case scan leaf (k mod 2 ^ (b - 5)) (2 ^ (b - 5)) of
                  Some v \<Rightarrow> Some v
                | None \<Rightarrow> PageMap2_Next b root k')
      else None)"
  by pat_completeness auto
termination
proof (relation "measure (\<lambda>(b, root, k). 2 ^ b - k)", goal_cases)
  case 1
  show ?case by simp
next
  case (2 b root k i1 k')
  then show ?case using next_key_gt [of k "b - 5"] by auto
next
  case (3 b root k i1 k')
  then show ?case using next_key_gt [of k "b - 5"] by auto
qed

declare PageMap2_Next.simps [simp del]

definition PageMap2_ensured :: "nat \<Rightarrow> 'v pagemap2 \<Rightarrow> nat \<Rightarrow> bool" where
  "PageMap2_ensured b root k = (k < 2 ^ b \<and> root (k div 2 ^ (b - 5)) \<noteq> None)"


lemma PageMap2_Ensure_key_spec:
  assumes "5 \<le> b" and "PageMap2_Ensure_key b alloc root a key = (r, root', a')"
  shows "PageMap2_get b root' = PageMap2_get b root \<and>
    (\<forall>k. PageMap2_ensured b root k \<longrightarrow> PageMap2_ensured b root' k) \<and>
    (r \<longrightarrow> (\<forall>k. key \<le> k \<and> k < next_key (b - 5) key \<longrightarrow> PageMap2_ensured b root' k))"
proof -
  have "(2::nat) ^ (5 + (b - 5)) = 2 ^ b" using assms(1) by simp
  then have b: "ROOT_LENGTH * 2 ^ (b - 5) = 2 ^ b" unfolding power_add ROOT_LENGTH_def .
  have "k < 2 ^ b" if "key div 2 ^ (b - 5) < ROOT_LENGTH" "k div 2 ^ (b - 5) = key div 2 ^ (b - 5)" for k
    using that by (metis b div_less_iff_less_mult zero_less_numeral zero_less_power)
  then have covered: "PageMap2_ensured b m k"
    if "key div 2 ^ (b - 5) < ROOT_LENGTH" "m (key div 2 ^ (b - 5)) \<noteq> None"
      "key \<le> k \<and> k < next_key (b - 5) key" for m :: "'v pagemap2" and k
    using that next_key_same_leaf [of key k "b - 5"] by (simp add: PageMap2_ensured_def)
  show ?thesis
  proof (cases "key div 2 ^ (b - 5) < ROOT_LENGTH \<and> root (key div 2 ^ (b - 5)) = None \<and>
      fst (alloc (8 * 2 ^ (b - 5)) a)")
    case True
    then have "root' = root(key div 2 ^ (b - 5) := Some (\<lambda>_. None))" "r"
      using assms(2) by (auto simp: PageMap2_Ensure_key_def Let_def split: prod.splits bool.splits)
    with True covered [of root'] show ?thesis
      by (auto simp: PageMap2_get_def PageMap2_ensured_def Let_def fun_eq_iff split: option.splits)
  next
    case False
    then have "root' = root \<and> (r \<longrightarrow> key div 2 ^ (b - 5) < ROOT_LENGTH \<and> root (key div 2 ^ (b - 5)) \<noteq> None)"
      using assms(2)
      by (auto simp: PageMap2_Ensure_key_def Let_def split: if_splits prod.splits bool.splits)
    with covered [of root'] show ?thesis by blast
  qed
qed

lemma PageMap2_Next_first:
  "5 \<le> b \<Longrightarrow> first_from (PageMap2_get b root) k (PageMap2_Next b root k)"
proof (induction b root k rule: PageMap2_Next.induct)
  case (1 b root k)
  let ?l = "b - 5" and ?i = "k div 2 ^ (b - 5)"
  show ?case
  proof (cases "k < 2 ^ b")
    case k: True
    have "(2::nat) ^ (5 + ?l) = 2 ^ b" using "1.prems" by simp
    then have b: "(2::nat) ^ 5 * 2 ^ ?l = 2 ^ b" unfolding power_add .
    have in_range: "j < 2 ^ b" if "j div 2 ^ ?l = ?i" for j
    proof -
      have "?i < 2 ^ 5" using k by (intro less_mult_imp_div_less) (simp only: b)
      with that have "j < 2 ^ 5 * 2 ^ ?l" by (metis div_less_iff_less_mult zero_less_numeral zero_less_power)
      with b show ?thesis by simp
    qed
    have g: "PageMap2_get b root j = (case root ?i of None \<Rightarrow> None | Some leaf \<Rightarrow> leaf (j mod 2 ^ ?l))"
      if "k \<le> j" "j < next_key ?l k" for j
      using next_key_same_leaf [OF that] in_range [of j] by (simp add: PageMap2_get_def Let_def)
    have eq: "PageMap2_Next b root k = (case root ?i of
        None \<Rightarrow> PageMap2_Next b root (next_key ?l k)
      | Some leaf \<Rightarrow> (case scan leaf (k mod 2 ^ ?l) (2 ^ ?l) of Some v \<Rightarrow> Some v
          | None \<Rightarrow> PageMap2_Next b root (next_key ?l k)))"
      using k by (simp add: PageMap2_Next.simps [of b root k] Let_def)
    show ?thesis
    proof (cases "root ?i")
      case None
      have "first_from (PageMap2_get b root) (next_key ?l k) (PageMap2_Next b root (next_key ?l k))"
        by (rule "1.IH"(1) [OF k refl refl None "1.prems"])
      then have "first_from (PageMap2_get b root) k (PageMap2_Next b root (next_key ?l k))"
        by (rule first_from_skip) (use g None next_key_gt [of k ?l] in auto)
      with None eq show ?thesis by simp
    next
      case (Some leaf)
      show ?thesis
      proof (cases "scan leaf (k mod 2 ^ ?l) (2 ^ ?l)")
        case sc: None
        have "first_from (PageMap2_get b root) (next_key ?l k) (PageMap2_Next b root (next_key ?l k))"
          by (rule "1.IH"(2) [OF k refl refl Some sc "1.prems"])
        with leaf_scan_first [of k ?l "PageMap2_get b root" leaf] g Some eq show ?thesis by simp
      next
        case (Some v)
        with leaf_scan_Some [of k ?l "PageMap2_get b root" leaf] g \<open>root ?i = Some leaf\<close> eq
        show ?thesis by simp
      qed
    qed
  next
    case False
    then have "PageMap2_Next b root k = None" by (simp add: PageMap2_Next.simps [of b root k])
    moreover have "\<forall>j\<ge>k. PageMap2_get b root j = None"
      using False by (auto simp: PageMap2_get_def div_pow2_pos not_less)
    ultimately show ?thesis by (simp add: first_from_def)
  qed
qed

lemma PageMap2_set_get:
  assumes "5 \<le> b" "PageMap2_ensured b root k"
  shows "\<exists>root'. PageMap2_set b root k v = Some root' \<and>
    PageMap2_get b root' = (PageMap2_get b root)(k := v) \<and> PageMap2_ensured b root' = PageMap2_ensured b root"
proof -
  let ?l = "b - 5" and ?i = "k div 2 ^ (b - 5)"
  from assms(2) obtain leaf where k: "k < 2 ^ b" and leaf: "root ?i = Some leaf"
    by (auto simp: PageMap2_ensured_def)
  have "(2::nat) ^ (5 + ?l) = 2 ^ b" using assms(1) by simp
  then have "(2::nat) ^ 5 * 2 ^ ?l = 2 ^ b" unfolding power_add .
  then have i: "?i < ROOT_LENGTH" using k
    unfolding ROOT_LENGTH_def by (intro less_mult_imp_div_less) (simp only:)
  have inj: "(j div 2 ^ ?l = ?i \<and> j mod 2 ^ ?l = k mod 2 ^ ?l) = (j = k)" for j
    by (metis div_mult_mod_eq)
  have op: "PageMap2_set b root k v = Some (root(?i := Some (leaf(k mod 2 ^ ?l := v))))" (is "_ = Some ?r")
    using i leaf by (simp add: PageMap2_set_def Let_def)
  have "PageMap2_get b ?r j = ((PageMap2_get b root)(k := v)) j" for j
    using inj [of j] leaf k by (auto simp: PageMap2_get_def Let_def not_less div_pow2_pos)
  moreover have "PageMap2_ensured b ?r j = PageMap2_ensured b root j" for j
    using leaf by (simp add: PageMap2_ensured_def)
  ultimately show ?thesis using op by blast
qed

lemma PageMap2_Ensure_spec:
  assumes b: "5 \<le> b" and run: "PageMap2_Ensure b al m a x n = (r, m', a')"
  shows "PageMap2_get b m' = PageMap2_get b m \<and>
    (\<forall>k. PageMap2_ensured b m k \<longrightarrow> PageMap2_ensured b m' k) \<and>
    (r \<longrightarrow> 0 < n \<longrightarrow> x + n \<le> 2 ^ 64 \<longrightarrow> (\<forall>k. x \<le> k \<and> k < x + n \<longrightarrow> PageMap2_ensured b m' k))"
proof -
  have "PageMap2_get b m' = PageMap2_get b m \<and>
    (\<forall>k. PageMap2_ensured b m k \<longrightarrow> PageMap2_ensured b m' k) \<and>
    (r \<longrightarrow> (\<forall>k. x \<le> k \<and> k \<le> last_key x n \<longrightarrow> PageMap2_ensured b m' k))"
    by (rule ensure_loop_spec [OF _ run [unfolded PageMap2_Ensure_def]])
      (rule PageMap2_Ensure_key_spec [OF b])
  then show ?thesis using last_key_eq [of n x] by auto
qed

lemma first_from_Some: "first_from g k (Some w) \<Longrightarrow>
    \<exists>j\<ge>k. g j = Some w \<and> (\<forall>i. k \<le> i \<and> i < j \<longrightarrow> g i = None)"
  by (simp add: first_from_def)

lemma first_from_None: "first_from g k None \<Longrightarrow> k \<le> j \<Longrightarrow> g j = None"
  by (simp add: first_from_def)

text \<open>\<open>MapSelector<32>::Type\<close> is \<open>TCMalloc_PageMap2<32 - kPageShift>\<close>.\<close>

abbreviation BITS32 :: nat where "BITS32 \<equiv> 19"

interpretation pm2: page_map "PageMap2_get BITS32" "PageMap2_set BITS32" "PageMap2_Ensure BITS32"
    "PageMap2_Next BITS32" "PageMap2_ensured BITS32"
proof (unfold_locales, goal_cases)
  case (1 m k)
  then show ?case
    by (auto simp: PageMap2_get_def PageMap2_ensured_def Let_def not_less div_pow2_pos split: option.splits)
next
  case (2 m k v)
  then show ?case using PageMap2_set_get [of BITS32 m k v] by auto
next
  case (3 m k v m')
  then show ?case using PageMap2_set_get [of BITS32 m k v] by auto
next
  case (4 m k v m')
  then show ?case using PageMap2_set_get [of BITS32 m k v] by auto
next
  case (5 al m a x n r m' a')
  then show ?case using PageMap2_Ensure_spec [of BITS32 al m a x n r m' a'] by simp
next
  case (6 al m a x n r m' a' k)
  then show ?case using PageMap2_Ensure_spec [of BITS32 al m a x n r m' a'] by simp
next
  case (7 al m a x n m' a' k)
  then show ?case using PageMap2_Ensure_spec [of BITS32 al m a x n True m' a'] by simp
next
  case (8 m k w)
  with PageMap2_Next_first [of BITS32 m k] show ?case by (simp add: first_from_Some)
next
  case (9 m k j)
  with PageMap2_Next_first [of BITS32 m k] show ?case by (simp add: first_from_None)
qed

section \<open>Three-level radix tree\<close>

text \<open>
  An interior node is its pointer array; the second level points to leaves (the C code casts
  between \<open>Node*\<close> and \<open>Leaf*\<close>). The map of the model is a tree whose root node exists: the
  constructor's \<open>root_ = NewNode()\<close> is \<open>None\<close> when the allocator fails, and every use of such
  a map dereferences the null root.
\<close>

type_synonym 'v node = "nat \<Rightarrow> 'v leaf option"
type_synonym 'v pagemap3 = "nat \<Rightarrow> 'v node option"

definition INTERIOR_BITS :: "nat \<Rightarrow> nat" where "INTERIOR_BITS b = (b + 2) div 3"
definition LEAF_BITS :: "nat \<Rightarrow> nat" where "LEAF_BITS b = b - 2 * INTERIOR_BITS b"

text \<open>\<open>NewNode\<close> (\<open>sizeof(Node) = 8 * INTERIOR_LENGTH\<close>): a zeroed node.\<close>

definition PageMap3_NewNode :: "nat \<Rightarrow> 'a allocator \<Rightarrow> 'a \<Rightarrow> (nat \<Rightarrow> 'p option) option \<times> 'a" where
  "PageMap3_NewNode b alloc a =
     (case alloc (8 * 2 ^ INTERIOR_BITS b) a of
        (False, a') \<Rightarrow> (None, a')
      | (True, a') \<Rightarrow> (Some (\<lambda>_. None), a'))"

definition PageMap3_new :: "nat \<Rightarrow> 'a allocator \<Rightarrow> 'a \<Rightarrow> 'v pagemap3 option \<times> 'a" where
  "PageMap3_new b alloc a = PageMap3_NewNode b alloc a"

definition i1_of :: "nat \<Rightarrow> nat \<Rightarrow> nat" where
  "i1_of b k = k div 2 ^ (LEAF_BITS b + INTERIOR_BITS b)"
definition i2_of :: "nat \<Rightarrow> nat \<Rightarrow> nat" where
  "i2_of b k = k div 2 ^ LEAF_BITS b mod 2 ^ INTERIOR_BITS b"
definition i3_of :: "nat \<Rightarrow> nat \<Rightarrow> nat" where
  "i3_of b k = k mod 2 ^ LEAF_BITS b"

definition PageMap3_get :: "nat \<Rightarrow> 'v pagemap3 \<Rightarrow> nat \<Rightarrow> 'v option" where
  "PageMap3_get b root k =
     (if k div 2 ^ b > 0 then None
      else case root (i1_of b k) of
        None \<Rightarrow> None
      | Some node \<Rightarrow> (case node (i2_of b k) of None \<Rightarrow> None | Some leaf \<Rightarrow> leaf (i3_of b k)))"

definition PageMap3_set :: "nat \<Rightarrow> 'v pagemap3 \<Rightarrow> nat \<Rightarrow> 'v option \<Rightarrow> 'v pagemap3 option" where
  "PageMap3_set b root k v = do {
     CHECK (k div 2 ^ b = 0);
     node \<leftarrow> root (i1_of b k);
     leaf \<leftarrow> node (i2_of b k);
     Some (root(i1_of b k := Some (node(i2_of b k := Some (leaf(i3_of b k := v)))))) }"

text \<open>One round of \<open>Ensure\<close>: overflow check, second-level node, leaf.\<close>

definition PageMap3_Ensure_key :: "nat \<Rightarrow> 'a allocator \<Rightarrow> 'v pagemap3 \<Rightarrow> 'a \<Rightarrow> nat \<Rightarrow>
    bool \<times> 'v pagemap3 \<times> 'a" where
  "PageMap3_Ensure_key b alloc root a key =
     (let i1 = i1_of b key; i2 = i2_of b key
      in if i1 \<ge> 2 ^ INTERIOR_BITS b \<or> i2 \<ge> 2 ^ INTERIOR_BITS b then (False, root, a)
         else
           (case (case root i1 of
                    Some node \<Rightarrow> (Some node, a)
                  | None \<Rightarrow> PageMap3_NewNode b alloc a) of
              (None, a1) \<Rightarrow> (False, root, a1)
            | (Some node, a1) \<Rightarrow>
                (let root1 = root(i1 := Some node)
                 in if node i2 = None then
                      (case alloc (8 * 2 ^ LEAF_BITS b) a1 of
                         (False, a2) \<Rightarrow> (False, root1, a2)
                       | (True, a2) \<Rightarrow> (True, root1(i1 := Some (node(i2 := Some (\<lambda>_. None)))), a2))
                    else (True, root1, a1))))"

definition PageMap3_Ensure :: "nat \<Rightarrow> 'a allocator \<Rightarrow> 'v pagemap3 \<Rightarrow> 'a \<Rightarrow> nat \<Rightarrow> nat \<Rightarrow>
    bool \<times> 'v pagemap3 \<times> 'a" where
  "PageMap3_Ensure b alloc root a start n =
     ensure_loop (LEAF_BITS b) (PageMap3_Ensure_key b alloc) root a start (last_key start n)"

function PageMap3_Next :: "nat \<Rightarrow> 'v pagemap3 \<Rightarrow> nat \<Rightarrow> 'v option" where
  "PageMap3_Next b root k =
     (if k < 2 ^ b then
        (case root (i1_of b k) of
           None \<Rightarrow> PageMap3_Next b root (next_key (LEAF_BITS b + INTERIOR_BITS b) k)
         | Some node \<Rightarrow>
             (case node (i2_of b k) of
                None \<Rightarrow> PageMap3_Next b root (next_key (LEAF_BITS b) k)
              | Some leaf \<Rightarrow>
                  (case scan leaf (i3_of b k) (2 ^ LEAF_BITS b) of
                     Some v \<Rightarrow> Some v
                   | None \<Rightarrow> PageMap3_Next b root (next_key (LEAF_BITS b) k))))
      else None)"
  by pat_completeness auto
termination
proof (relation "measure (\<lambda>(b, root, k). 2 ^ b - k)", goal_cases)
  case (2 b root k)
  then show ?case using next_key_gt [of k "LEAF_BITS b + INTERIOR_BITS b"] by auto
next
  case (3 b root k node)
  then show ?case using next_key_gt [of k "LEAF_BITS b"] by auto
next
  case (4 b root k node leaf)
  then show ?case using next_key_gt [of k "LEAF_BITS b"] by auto
qed simp

declare PageMap3_Next.simps [simp del]

definition PageMap3_ensured :: "nat \<Rightarrow> 'v pagemap3 \<Rightarrow> nat \<Rightarrow> bool" where
  "PageMap3_ensured b root k =
     (k < 2 ^ b \<and> (case root (i1_of b k) of None \<Rightarrow> False | Some node \<Rightarrow> node (i2_of b k) \<noteq> None))"

text \<open>The index arithmetic: three indices, their ranges, and that they determine the key.\<close>

lemma pow2_split3:
  assumes "2 * INTERIOR_BITS b \<le> b"
  shows "(2::nat) ^ b = 2 ^ INTERIOR_BITS b * (2 ^ INTERIOR_BITS b * 2 ^ LEAF_BITS b)"
proof -
  have "b = INTERIOR_BITS b + (INTERIOR_BITS b + LEAF_BITS b)" using assms by (simp add: LEAF_BITS_def)
  then have "(2::nat) ^ b = 2 ^ (INTERIOR_BITS b + (INTERIOR_BITS b + LEAF_BITS b))" by simp
  then show ?thesis unfolding power_add .
qed

lemma i1_of_eq: "i1_of b k = k div 2 ^ LEAF_BITS b div 2 ^ INTERIOR_BITS b"
  by (simp add: i1_of_def power_add div_mult2_eq)

lemma indices_inj:
  "(i1_of b j = i1_of b k \<and> i2_of b j = i2_of b k \<and> i3_of b j = i3_of b k) = (j = k)"
  unfolding i1_of_eq i2_of_def i3_of_def by (metis div_mult_mod_eq)

lemma in_range_iff:
  assumes "2 * INTERIOR_BITS b \<le> b"
  shows "(k < 2 ^ b) = (i1_of b k < 2 ^ INTERIOR_BITS b)"
  unfolding i1_of_eq pow2_split3 [OF assms] by (simp add: div_less_iff_less_mult ac_simps)

lemma i2_of_range [simp]: "i2_of b k < 2 ^ INTERIOR_BITS b"
  by (simp add: i2_of_def)

lemma same_leaf_indices:
  assumes "k \<le> j" "j < next_key (LEAF_BITS b) k"
  shows "i1_of b j = i1_of b k \<and> i2_of b j = i2_of b k"
  using next_key_same_leaf [OF assms] by (simp add: i1_of_eq i2_of_def)

lemma same_node_index:
  assumes "k \<le> j" "j < next_key (LEAF_BITS b + INTERIOR_BITS b) k"
  shows "i1_of b j = i1_of b k"
  using next_key_same_leaf [OF assms] by (simp add: i1_of_def)

lemma PageMap3_get_ensured:
  "PageMap3_get b root k = (if PageMap3_ensured b root k
     then the (the (root (i1_of b k)) (i2_of b k)) (i3_of b k) else None)"
  by (auto simp: PageMap3_get_def PageMap3_ensured_def div_pow2_pos not_less split: option.splits)

lemma PageMap3_Ensure_key_spec:
  assumes b: "2 * INTERIOR_BITS b \<le> b" and run: "PageMap3_Ensure_key b alloc root a key = (r, root', a')"
  shows "PageMap3_get b root' = PageMap3_get b root \<and>
    (\<forall>k. PageMap3_ensured b root k \<longrightarrow> PageMap3_ensured b root' k) \<and>
    (r \<longrightarrow> (\<forall>k. key \<le> k \<and> k < next_key (LEAF_BITS b) key \<longrightarrow> PageMap3_ensured b root' k))"
proof -
  let ?i1 = "i1_of b key" and ?i2 = "i2_of b key"
  have covered: "PageMap3_ensured b m k"
    if "?i1 < 2 ^ INTERIOR_BITS b" "m ?i1 = Some node" "node ?i2 \<noteq> None"
      "key \<le> k \<and> k < next_key (LEAF_BITS b) key" for m :: "'v pagemap3" and node k
    using that same_leaf_indices [of key k b] in_range_iff [OF b, of k]
    by (simp add: PageMap3_ensured_def)
  define node0 where "node0 = (case root ?i1 of Some node \<Rightarrow> node | None \<Rightarrow> (\<lambda>_. None))"
  have node: "PageMap3_get b (root(?i1 := Some node0)) = PageMap3_get b root"
    "PageMap3_ensured b (root(?i1 := Some node0)) = PageMap3_ensured b root"
    by (auto simp: node0_def PageMap3_get_def PageMap3_ensured_def fun_eq_iff split: option.splits)
  define root2 where "root2 = root(?i1 := Some (node0(?i2 := Some (\<lambda>_. None))))"
  have leaf: "PageMap3_get b root2 = PageMap3_get b root"
    "\<And>k. PageMap3_ensured b root k \<Longrightarrow> PageMap3_ensured b root2 k" if "node0 ?i2 = None"
    using that
    by (auto simp: root2_def node0_def PageMap3_get_def PageMap3_ensured_def fun_eq_iff
        split: option.splits if_splits)
  have "root' = root \<and> \<not> r \<or> root' = root(?i1 := Some node0) \<and> (r \<longrightarrow> node0 ?i2 \<noteq> None) \<or>
      root' = root2 \<and> node0 ?i2 = None"
    and "r \<Longrightarrow> ?i1 < 2 ^ INTERIOR_BITS b"
    using run unfolding PageMap3_Ensure_key_def PageMap3_NewNode_def node0_def root2_def Let_def
    by (auto split: if_splits option.splits prod.splits bool.splits)
  then show ?thesis
    using node leaf covered [of root' node0] covered [of root' "node0(?i2 := Some (\<lambda>_. None))"]
    by (auto simp: root2_def)
qed

lemma PageMap3_Ensure_spec:
  assumes b: "2 * INTERIOR_BITS b \<le> b" and run: "PageMap3_Ensure b al m a x n = (r, m', a')"
  shows "PageMap3_get b m' = PageMap3_get b m \<and>
    (\<forall>k. PageMap3_ensured b m k \<longrightarrow> PageMap3_ensured b m' k) \<and>
    (r \<longrightarrow> 0 < n \<longrightarrow> x + n \<le> 2 ^ 64 \<longrightarrow> (\<forall>k. x \<le> k \<and> k < x + n \<longrightarrow> PageMap3_ensured b m' k))"
proof -
  have "PageMap3_get b m' = PageMap3_get b m \<and>
    (\<forall>k. PageMap3_ensured b m k \<longrightarrow> PageMap3_ensured b m' k) \<and>
    (r \<longrightarrow> (\<forall>k. x \<le> k \<and> k \<le> last_key x n \<longrightarrow> PageMap3_ensured b m' k))"
    by (rule ensure_loop_spec [OF _ run [unfolded PageMap3_Ensure_def]])
      (rule PageMap3_Ensure_key_spec [OF b])
  then show ?thesis using last_key_eq [of n x] by auto
qed

lemma PageMap3_set_get:
  assumes "PageMap3_ensured b root k"
  shows "\<exists>root'. PageMap3_set b root k v = Some root' \<and>
    PageMap3_get b root' = (PageMap3_get b root)(k := v) \<and> PageMap3_ensured b root' = PageMap3_ensured b root"
proof -
  from assms obtain node leaf where k: "k < 2 ^ b"
    and nl: "root (i1_of b k) = Some node" "node (i2_of b k) = Some leaf"
    by (auto simp: PageMap3_ensured_def split: option.splits)
  define r where "r = root(i1_of b k := Some (node(i2_of b k := Some (leaf(i3_of b k := v)))))"
  have op: "PageMap3_set b root k v = Some r"
    using k nl by (simp add: PageMap3_set_def r_def)
  have ens: "PageMap3_ensured b r j = PageMap3_ensured b root j" for j
    using nl by (simp add: PageMap3_ensured_def r_def)
  have "PageMap3_get b r j = ((PageMap3_get b root)(k := v)) j" for j
    using indices_inj [of b j k] nl assms
    unfolding PageMap3_get_ensured ens by (auto simp: r_def PageMap3_get_ensured)
  with ens op show ?thesis by blast
qed

lemma PageMap3_Next_first:
  "2 * INTERIOR_BITS b \<le> b \<Longrightarrow> first_from (PageMap3_get b root) k (PageMap3_Next b root k)"
proof (induction b root k rule: PageMap3_Next.induct)
  case (1 b root k)
  let ?l = "LEAF_BITS b" and ?i1 = "i1_of b k" and ?i2 = "i2_of b k"
  let ?rec = "\<lambda>l. PageMap3_Next b root (next_key l k)" and ?g = "PageMap3_get b root"
  show ?case
  proof (cases "k < 2 ^ b")
    case k: True
    have g: "?g j = (case root ?i1 of None \<Rightarrow> None | Some node \<Rightarrow>
        (case node ?i2 of None \<Rightarrow> None | Some leaf \<Rightarrow> leaf (j mod 2 ^ ?l)))"
      if "k \<le> j" "j < next_key ?l k" for j
      using same_leaf_indices [OF that] in_range_iff [OF "1.prems", of j] in_range_iff [OF "1.prems", of k] k
      by (simp add: PageMap3_get_def i3_of_def split: option.split)
    have g1: "?g j = None" if "k \<le> j" "j < next_key (?l + INTERIOR_BITS b) k" "root ?i1 = None" for j
      using same_node_index [OF that(1,2)] that(3) by (simp add: PageMap3_get_def)
    show ?thesis
    proof (cases "root ?i1")
      case None
      have "first_from ?g k (?rec (?l + INTERIOR_BITS b))"
        by (rule first_from_skip [OF "1.IH"(1) [OF k None "1.prems"]])
          (use g1 None next_key_gt [of k "?l + INTERIOR_BITS b"] in auto)
      with None k show ?thesis by (simp add: PageMap3_Next.simps [of b root k])
    next
      case node: (Some node)
      show ?thesis
      proof (cases "node ?i2")
        case None
        have "first_from ?g k (?rec ?l)"
          by (rule first_from_skip [OF "1.IH"(2) [OF k node None "1.prems"]])
            (use g None node next_key_gt [of k ?l] in auto)
        with None node k show ?thesis by (simp add: PageMap3_Next.simps [of b root k])
      next
        case leaf: (Some leaf)
        with g node have gl: "\<And>j. k \<le> j \<Longrightarrow> j < next_key ?l k \<Longrightarrow> ?g j = leaf (j mod 2 ^ ?l)" by simp
        show ?thesis
        proof (cases "scan leaf (i3_of b k) (2 ^ ?l)")
          case None
          from leaf_scan_first [of k ?l ?g leaf, OF gl "1.IH"(3) [OF k node leaf None "1.prems"]] None
          show ?thesis using k node leaf by (simp add: PageMap3_Next.simps [of b root k] i3_of_def)
        next
          case (Some v)
          with leaf_scan_Some [of k ?l ?g leaf, OF gl] k node leaf
          show ?thesis by (simp add: PageMap3_Next.simps [of b root k] i3_of_def)
        qed
      qed
    qed
  next
    case False
    then have "PageMap3_Next b root k = None" by (simp add: PageMap3_Next.simps [of b root k])
    moreover have "\<forall>j\<ge>k. ?g j = None"
      using False by (auto simp: PageMap3_get_def div_pow2_pos not_less)
    ultimately show ?thesis by (simp add: first_from_def)
  qed
qed

text \<open>\<open>MapSelector<64>::Type\<close> is \<open>TCMalloc_PageMap3<64 - kPageShift>\<close>.\<close>

abbreviation BITS64 :: nat where "BITS64 \<equiv> 51"

lemma BITS64_ok: "2 * INTERIOR_BITS BITS64 \<le> BITS64"
  by (simp add: INTERIOR_BITS_def)

interpretation pm3: page_map "PageMap3_get BITS64" "PageMap3_set BITS64" "PageMap3_Ensure BITS64"
    "PageMap3_Next BITS64" "PageMap3_ensured BITS64"
proof (unfold_locales, goal_cases)
  case (1 m k)
  then show ?case by (simp add: PageMap3_get_ensured)
next
  case (2 m k v)
  then show ?case using PageMap3_set_get [of BITS64 m k v] by auto
next
  case (3 m k v m')
  then show ?case using PageMap3_set_get [of BITS64 m k v] by auto
next
  case (4 m k v m')
  then show ?case using PageMap3_set_get [of BITS64 m k v] by auto
next
  case (5 al m a x n r m' a')
  then show ?case using PageMap3_Ensure_spec [OF BITS64_ok, of al m a x n r m' a'] by simp
next
  case (6 al m a x n r m' a' k)
  then show ?case using PageMap3_Ensure_spec [OF BITS64_ok, of al m a x n r m' a'] by simp
next
  case (7 al m a x n m' a' k)
  then show ?case using PageMap3_Ensure_spec [OF BITS64_ok, of al m a x n True m' a'] by simp
next
  case (8 m k w)
  with PageMap3_Next_first [OF BITS64_ok, of m k] show ?case by (simp add: first_from_Some)
next
  case (9 m k j)
  with PageMap3_Next_first [OF BITS64_ok, of m k] show ?case by (simp add: first_from_None)
qed

end
