(* ===== verification/Packed_Cache.thy ===== *)
theory Packed_Cache
  imports Prelude
begin

text \<open>
  The packed direct-mapped cache of \<open>packed-cache-inl.h\<close>, which the page heap uses from page
  numbers to size classes. \<open>'k word\<close> is the type \<open>K\<close> of keys (and \<open>V\<close> of values, which has the
  same width), \<open>'t word\<close> the type \<open>T\<close> of entries, \<open>kb\<close> the template parameter \<open>kKeybits\<close>. The
  locale \<open>lossy_cache\<close> states the three facts that the comment in the source promises; both
  instances of the source, for 64-bit and for 32-bit processes, interpret it.
\<close>

section \<open>The interface\<close>

locale lossy_cache =
  fixes Put :: "'c \<Rightarrow> 'key \<Rightarrow> 'val \<Rightarrow> 'c option"
    and Has :: "'c \<Rightarrow> 'key \<Rightarrow> bool option"
    and GetOrDefault :: "'c \<Rightarrow> 'key \<Rightarrow> 'val \<Rightarrow> 'val option"
    and key_ok :: "'key \<Rightarrow> bool" and val_ok :: "'val \<Rightarrow> bool"
  assumes Put_ok: "key_ok k \<Longrightarrow> val_ok v \<Longrightarrow> \<exists>c'. Put c k v = Some c'"
    and Has_ok: "key_ok k \<Longrightarrow> \<exists>b. Has c k = Some b"
    and Get_miss: "Has c k = Some False \<Longrightarrow> GetOrDefault c k d = Some d"
    and Get_put: "Put c k v = Some c' \<Longrightarrow> Has c' k = Some True \<and> GetOrDefault c' k d = Some v"
    and Put_other: "Put c k v = Some c' \<Longrightarrow> key_ok k' \<Longrightarrow> k' \<noteq> k \<Longrightarrow>
        Has c' k' = Some False \<or> Has c' k' = Has c k' \<and> GetOrDefault c' k' d = GetOrDefault c k' d"
begin

fun puts :: "'c \<Rightarrow> ('key \<times> 'val) list \<Rightarrow> 'c option" where
  "puts c [] = Some c"
| "puts c ((k, v) # kvs) = do { c' \<leftarrow> Put c k v; puts c' kvs }"

text \<open>After any stores a lookup that hits gives the value last stored under that key, or, if there
  was none, what the cache held before.\<close>

lemma hit_is_last_put:
  "puts c kvs = Some c' \<Longrightarrow> key_ok k \<Longrightarrow> Has c' k = Some True \<Longrightarrow>
   GetOrDefault c' k d = (case map_of (rev kvs) k of Some v \<Rightarrow> Some v | None \<Rightarrow> GetOrDefault c k d)"
proof (induction kvs arbitrary: c)
  case (Cons kv kvs)
  obtain j v where kv: "kv = (j, v)" by (cases kv)
  then obtain c1 where c1: "Put c j v = Some c1" "puts c1 kvs = Some c'"
    using Cons.prems(1) by (auto simp: Option.bind_eq_Some_conv)
  have IH: "GetOrDefault c' k d = (case map_of (rev kvs) k of Some v \<Rightarrow> Some v | None \<Rightarrow> GetOrDefault c1 k d)"
    using Cons.IH [OF c1(2) Cons.prems(2,3)] .
  show ?case
  proof (cases "map_of (rev kvs) k")
    case None
    have "GetOrDefault c1 k d = (if k = j then Some v else GetOrDefault c k d)"
    proof (cases "k = j")
      case True
      with Get_put [OF c1(1)] show ?thesis by simp
    next
      case False
      have "Has c1 k = Some True"
        using c1(2) Cons.prems(2,3) None
      proof (induction kvs arbitrary: c1)
        case (Cons kv' kvs)
        obtain j' v' where kv': "kv' = (j', v')" by (cases kv')
        then obtain c2 where c2: "Put c1 j' v' = Some c2" "puts c2 kvs = Some c'"
          using Cons.prems(1) by (auto simp: Option.bind_eq_Some_conv)
        have ne: "k \<noteq> j'" "map_of (rev kvs) k = None"
          using Cons.prems(4) kv' by (auto simp: map_add_def split: option.splits if_splits)
        from Cons.IH [OF c2(2) Cons.prems(2,3) ne(2)] Put_other [OF c2(1) Cons.prems(2) ne(1)]
        show ?case by auto
      qed simp
      with Put_other [OF c1(1) Cons.prems(2) False] False show ?thesis by auto
    qed
    with IH None kv show ?thesis by (auto simp: map_add_def)
  qed (use IH kv in \<open>simp add: map_add_def\<close>)
qed simp

lemma get_put_get: "Put c k v = Some c' \<Longrightarrow> GetOrDefault c' k d = Some v"
  using Get_put by blast

end

section \<open>The cache\<close>

definition kHashbits :: nat where "kHashbits = 16"
definition kValuebits :: nat where "kValuebits = 7"

text \<open>The macro \<open>N_ONES_(IntType, N)\<close>.\<close>

definition N_ONES :: "nat \<Rightarrow> 'a :: len word" where
  "N_ONES n = (if n = 0 then 0 else (push_bit (n - 1) 1 - 1) + push_bit (n - 1) 1)"

definition kUseWholeKeys :: "nat \<Rightarrow> 't :: len itself \<Rightarrow> bool" where
  "kUseWholeKeys kb T = (kb + kValuebits \<le> LENGTH('t))"

definition kUpperbits :: "nat \<Rightarrow> 't :: len itself \<Rightarrow> nat" where
  "kUpperbits kb T = (if kUseWholeKeys kb T then kb else kb - kHashbits)"

definition kKeyMask :: "nat \<Rightarrow> 'k :: len word" where "kKeyMask kb = N_ONES kb"

definition kUpperMask :: "nat \<Rightarrow> 't :: len word" where
  "kUpperMask kb = push_bit kValuebits (N_ONES (kUpperbits kb TYPE('t)))"

definition kValueMask :: "'a :: len word" where "kValueMask = N_ONES kValuebits"

type_synonym ('k, 't) packed_cache = "'k word \<Rightarrow> 't word"

definition EntryToValue :: "'t :: len word \<Rightarrow> 'k :: len word" where
  "EntryToValue t = ucast t AND kValueMask"

definition KeyToUpper :: "nat \<Rightarrow> 'k :: len word \<Rightarrow> 't :: len word" where
  "KeyToUpper kb k =
     (if kUseWholeKeys kb TYPE('t) then push_bit kValuebits (ucast k)
      else let shift = kHashbits - kValuebits in ucast (drop_bit shift k) AND kUpperMask kb)"

definition Hash :: "'k :: len word \<Rightarrow> 'k word" where
  "Hash key = key AND N_ONES kHashbits"

definition KeyMatch :: "nat \<Rightarrow> 't :: len word \<Rightarrow> 'k :: len word \<Rightarrow> bool" where
  "KeyMatch kb entry key =
     (if kUseWholeKeys kb TYPE('t) then ucast (drop_bit kValuebits entry) = key
      else (KeyToUpper kb key XOR entry) AND kUpperMask kb = 0)"

definition Cache_Put :: "nat \<Rightarrow> ('k :: len, 't :: len) packed_cache \<Rightarrow> 'k word \<Rightarrow> 'k word \<Rightarrow>
    ('k, 't) packed_cache option" where
  "Cache_Put kb arr key val = do {
     CHECK (key = (key AND kKeyMask kb));
     CHECK (val = (val AND kValueMask));
     Some (arr(Hash key := KeyToUpper kb key OR ucast val)) }"

definition Cache_Has :: "nat \<Rightarrow> ('k :: len, 't :: len) packed_cache \<Rightarrow> 'k word \<Rightarrow> bool option" where
  "Cache_Has kb arr key = do {
     CHECK (key = (key AND kKeyMask kb));
     Some (KeyMatch kb (arr (Hash key)) key) }"

definition Cache_GetOrDefault :: "nat \<Rightarrow> ('k :: len, 't :: len) packed_cache \<Rightarrow> 'k word \<Rightarrow> 'k word \<Rightarrow>
    'k word option" where
  "Cache_GetOrDefault kb arr key default_value = do {
     CHECK (key = (key AND kKeyMask kb));
     let entry = arr (Hash key) in
     Some (if KeyMatch kb entry key then EntryToValue entry else default_value) }"

text \<open>The loop of \<open>Clear\<close> over the slots \<open>i .. 2^kHashbits - 1\<close>, \<open>n\<close> of them left.\<close>

fun Cache_Clear_from :: "nat \<Rightarrow> 'k :: len word \<Rightarrow> nat \<Rightarrow> nat \<Rightarrow> ('k, 't :: len) packed_cache \<Rightarrow>
    ('k, 't) packed_cache option" where
  "Cache_Clear_from kb val i 0 arr = Some arr"
| "Cache_Clear_from kb val i (Suc n) arr = do {
     CHECK (kUseWholeKeys kb TYPE('t) \<or> (KeyToUpper kb (of_nat i :: 'k word) :: 't word) = 0);
     Cache_Clear_from kb val (Suc i) n
       (arr(of_nat i := (if kUseWholeKeys kb TYPE('t) then ucast val OR KeyToUpper kb (of_nat i :: 'k word)
                         else ucast val))) }"

definition Cache_Clear :: "nat \<Rightarrow> ('k :: len, 't :: len) packed_cache \<Rightarrow> 'k word \<Rightarrow>
    ('k, 't) packed_cache option" where
  "Cache_Clear kb arr val = do {
     CHECK (val = (val AND kValueMask));
     Cache_Clear_from kb val 0 (2 ^ kHashbits) arr }"

section \<open>Bit level\<close>

lemma N_ONES_mask: "n \<le> LENGTH('a) \<Longrightarrow> (N_ONES n :: 'a :: len word) = mask n"
proof (cases n)
  case (Suc m)
  have "(N_ONES n :: 'a word) = 2 * 2 ^ m - 1"
    by (simp add: N_ONES_def Suc push_bit_eq_mult)
  also have "\<dots> = mask n" by (simp add: mask_eq_exp_minus_1 Suc)
  finally show ?thesis .
qed (simp add: N_ONES_def)

lemma bit_N_ONES: "n \<le> LENGTH('a) \<Longrightarrow> bit (N_ONES n :: 'a :: len word) i = (i < n \<and> i < LENGTH('a))"
  by (auto simp: N_ONES_mask bit_mask_iff possible_bit_def)

lemma masked_bits: "(w :: 'a :: len word) = w AND N_ONES n \<Longrightarrow> n \<le> LENGTH('a) \<Longrightarrow> bit w i \<Longrightarrow> i < n"
proof -
  assume "w = w AND N_ONES n" "n \<le> LENGTH('a)" "bit w i"
  then have "bit (w AND N_ONES n) i" by simp
  with \<open>n \<le> LENGTH('a)\<close> show "i < n" by (simp add: bit_and_iff bit_N_ONES)
qed

text \<open>The two shapes an entry can have, and what the code asserts of the sizes at compile time.\<close>

definition sizes_ok :: "nat \<Rightarrow> 'k :: len itself \<Rightarrow> 't :: len itself \<Rightarrow> bool" where
  "sizes_ok kb K T = (kb \<le> LENGTH('k) \<and> kValuebits \<le> LENGTH('k) \<and> kHashbits \<le> kb \<and>
     kb - kHashbits + kValuebits \<le> LENGTH('t))"

definition key_ok :: "nat \<Rightarrow> 'k :: len word \<Rightarrow> bool" where
  "key_ok kb key = (key = (key AND kKeyMask kb))"

definition val_ok :: "'k :: len word \<Rightarrow> bool" where
  "val_ok val = (val = (val AND kValueMask))"

lemma key_bits: "key_ok kb (key :: 'k :: len word) \<Longrightarrow> kb \<le> LENGTH('k) \<Longrightarrow> bit key i \<Longrightarrow> i < kb"
  unfolding key_ok_def kKeyMask_def by (rule masked_bits)

lemma val_bits: "val_ok (val :: 'k :: len word) \<Longrightarrow> kValuebits \<le> LENGTH('k) \<Longrightarrow> bit val i \<Longrightarrow> i < kValuebits"
  unfolding val_ok_def kValueMask_def by (rule masked_bits)

lemma Hash_bits: "Hash (key :: 'k :: len word) = Hash key' \<Longrightarrow> kHashbits \<le> LENGTH('k) \<Longrightarrow> i < kHashbits \<Longrightarrow>
    bit key i = bit key' i"
proof -
  assume h: "Hash key = Hash key'" and l: "kHashbits \<le> LENGTH('k)" "i < kHashbits"
  have "bit (Hash key) i = bit (Hash key') i" by (simp add: h)
  with l show ?thesis by (simp add: Hash_def bit_and_iff bit_N_ONES)
qed

text \<open>The bits of the packed key: a whole key from bit 7 on, or its bits from 16 on.\<close>

lemma upper_bits:
  assumes "sizes_ok kb TYPE('k) TYPE('t)" "key_ok kb (key :: 'k :: len word)"
  shows "bit (KeyToUpper kb key :: 't :: len word) i =
    (kValuebits \<le> i \<and> i < LENGTH('t) \<and>
     bit key (if kUseWholeKeys kb TYPE('t) then i - kValuebits else i - kValuebits + kHashbits))"
proof (cases "kUseWholeKeys kb TYPE('t)")
  case True
  then show ?thesis
    by (auto simp: KeyToUpper_def bit_push_bit_iff bit_ucast_iff possible_bit_def)
next
  case False
  have kb: "kb \<le> LENGTH('k)" "kHashbits \<le> kb" "kb - kHashbits \<le> LENGTH('t)"
    using assms(1) by (auto simp: sizes_ok_def)
  have "kValuebits \<le> i \<Longrightarrow> kHashbits - kValuebits + i = i - kValuebits + kHashbits"
    by (simp add: kHashbits_def kValuebits_def)
  moreover have "bit key (i - kValuebits + kHashbits) \<Longrightarrow> i - kValuebits < kb - kHashbits"
    using key_bits [OF assms(2) kb(1)] by fastforce
  ultimately show ?thesis using False kb
    by (auto simp: KeyToUpper_def Let_def kUpperMask_def kUpperbits_def bit_and_iff bit_push_bit_iff bit_ucast_iff
        bit_drop_bit_eq bit_N_ONES possible_bit_def)
qed

lemma entry_value:
  assumes S: "sizes_ok kb TYPE('k) TYPE('t)" and k: "key_ok kb (key :: 'k :: len word)" and v: "val_ok (val :: 'k word)"
  shows "EntryToValue (KeyToUpper kb key OR ucast val :: 't :: len word) = val"
proof (rule bit_word_eqI)
  fix i assume i: "i < LENGTH('k)"
  have s: "kValuebits \<le> LENGTH('k)" "kValuebits \<le> LENGTH('t)" using S by (auto simp: sizes_ok_def)
  show "bit (EntryToValue (KeyToUpper kb key OR ucast val :: 't word) :: 'k word) i = bit val i"
    using i s val_bits [OF v s(1), of i]
    by (auto simp: EntryToValue_def kValueMask_def bit_and_iff bit_or_iff bit_ucast_iff bit_N_ONES upper_bits [OF S k]
        possible_bit_def)
qed

lemma entry_match:
  assumes S: "sizes_ok kb TYPE('k) TYPE('t)" and k: "key_ok kb (key :: 'k :: len word)" "key_ok kb key'"
    and v: "val_ok (val :: 'k word)" and h: "Hash key = Hash key'"
  shows "KeyMatch kb (KeyToUpper kb key OR ucast val :: 't :: len word) key' = (key = key')"
proof -
  let ?e = "KeyToUpper kb key OR ucast val :: 't word"
  have s: "kValuebits \<le> LENGTH('k)" "kb \<le> LENGTH('k)" "kHashbits \<le> kb" using S by (auto simp: sizes_ok_def)
  have vb: "\<not> bit val (i + kValuebits)" for i using val_bits [OF v s(1), of "i + kValuebits"] by auto
  show ?thesis
  proof (cases "kUseWholeKeys kb TYPE('t)")
    case True
    then have w: "kb + kValuebits \<le> LENGTH('t)" by (simp add: kUseWholeKeys_def)
    have "(ucast (drop_bit kValuebits ?e) :: 'k word) = key"
    proof (rule bit_word_eqI)
      fix i assume i: "i < LENGTH('k)"
      show "bit (ucast (drop_bit kValuebits ?e) :: 'k word) i = bit key i"
        using i True w vb [of i] key_bits [OF k(1) s(2), of i]
        by (auto simp: bit_ucast_iff bit_drop_bit_eq bit_or_iff upper_bits [OF S k(1)] add.commute possible_bit_def)
    qed
    with True show ?thesis by (simp add: KeyMatch_def)
  next
    case False
    let ?u = "kb - kHashbits"
    have u: "?u + kValuebits \<le> LENGTH('t)" using S unfolding sizes_ok_def by blast
    have mask: "bit (kUpperMask kb :: 't word) i = (kValuebits \<le> i \<and> i < ?u + kValuebits)" for i
      using False u by (auto simp: kUpperMask_def kUpperbits_def bit_push_bit_iff bit_N_ONES possible_bit_def)
    define at where "at i = i - kValuebits + kHashbits" for i
    define top where "top = ?u + kValuebits"
    have ub: "bit (KeyToUpper kb key :: 't word) i = (kValuebits \<le> i \<and> i < LENGTH('t) \<and> bit key (at i))"
      "bit (KeyToUpper kb key' :: 't word) i = (kValuebits \<le> i \<and> i < LENGTH('t) \<and> bit key' (at i))" for i
      using False by (simp_all add: upper_bits [OF S k(1)] upper_bits [OF S k(2)] at_def)
    have vz: "kValuebits \<le> i \<Longrightarrow> \<not> bit val i" for i using val_bits [OF v s(1), of i] by auto
    have "KeyMatch kb ?e key' = (\<forall>i. kValuebits \<le> i \<and> i < top \<longrightarrow> bit key (at i) = bit key' (at i))"
      using False u [folded top_def] vz
      by (auto simp: KeyMatch_def bit_eq_iff bit_and_iff bit_xor_iff bit_or_iff mask [folded top_def] bit_ucast_iff ub
          possible_bit_def dest: order_less_le_trans)
    also have "\<dots> = (\<forall>j. kHashbits \<le> j \<and> j < kb \<longrightarrow> bit key j = bit key' j)"
    proof
      assume l: "\<forall>i. kValuebits \<le> i \<and> i < top \<longrightarrow> bit key (at i) = bit key' (at i)"
      show "\<forall>j. kHashbits \<le> j \<and> j < kb \<longrightarrow> bit key j = bit key' j"
      proof (intro allI impI)
        fix j assume j: "kHashbits \<le> j \<and> j < kb"
        then have "at (j - kHashbits + kValuebits) = j" "j - kHashbits + kValuebits < top"
          by (auto simp: at_def top_def)
        with l show "bit key j = bit key' j" by (metis le_add2)
      qed
    next
      have "kHashbits \<le> at i \<and> at i < kb" if "kValuebits \<le> i" "i < top" for i
        using that by (auto simp: at_def top_def)
      then show "\<forall>j. kHashbits \<le> j \<and> j < kb \<longrightarrow> bit key j = bit key' j \<Longrightarrow>
          \<forall>i. kValuebits \<le> i \<and> i < top \<longrightarrow> bit key (at i) = bit key' (at i)" by blast
    qed
    also have "\<dots> = (key = key')"
    proof
      assume hi: "\<forall>j. kHashbits \<le> j \<and> j < kb \<longrightarrow> bit key j = bit key' j"
      have "bit key i = bit key' i" for i
        using hi Hash_bits [OF h, of i] s key_bits [OF k(1) s(2), of i] key_bits [OF k(2) s(2), of i]
        by (cases "i < kHashbits") auto
      then show "key = key'" by (simp add: bit_eq_iff)
    qed simp
    finally show ?thesis .
  qed
qed

lemmas cache_defs = Cache_Put_def Cache_Has_def Cache_GetOrDefault_def

lemma Cache_Put_effect:
  assumes S: "sizes_ok kb TYPE('k) TYPE('t)" and p: "Cache_Put kb (c :: ('k :: len, 't :: len) packed_cache) k v = Some c'"
  shows "Cache_Has kb c' k = Some True" "Cache_GetOrDefault kb c' k d = Some v"
    and "key_ok kb k' \<Longrightarrow> k' \<noteq> k \<Longrightarrow> Cache_Has kb c' k' = Some False \<or>
      Cache_Has kb c' k' = Cache_Has kb c k' \<and> Cache_GetOrDefault kb c' k' d = Cache_GetOrDefault kb c k' d"
proof -
  have kv: "key_ok kb k" "val_ok v" "c' = c(Hash k := KeyToUpper kb k OR ucast v)"
    using p by (auto simp: Cache_Put_def key_ok_def val_ok_def split: if_splits)
  have k: "k = k AND kKeyMask kb" using kv(1) by (simp add: key_ok_def)
  from entry_match [OF S kv(1,1,2)] show "Cache_Has kb c' k = Some True"
    by (simp add: cache_defs kv(3) flip: k)
  from entry_match [OF S kv(1,1,2)] entry_value [OF S kv(1,2)] show "Cache_GetOrDefault kb c' k d = Some v"
    by (simp add: cache_defs kv(3) Let_def flip: k)
  assume k': "key_ok kb k'" "k' \<noteq> k"
  show "Cache_Has kb c' k' = Some False \<or>
      Cache_Has kb c' k' = Cache_Has kb c k' \<and> Cache_GetOrDefault kb c' k' d = Cache_GetOrDefault kb c k' d"
  proof (cases "Hash k = Hash k'")
    case True
    from entry_match [OF S kv(1) k'(1) kv(2) True] k' show ?thesis
      by (simp add: cache_defs kv(3) flip: True)
  qed (simp add: cache_defs kv(3))
qed

section \<open>The two instances\<close>

text \<open>64-bit processes: \<open>PackedCache<51, uint64_t>\<close>, whole keys. 32-bit processes:
  \<open>PackedCache<19, uint16_t>\<close>, upper parts of keys.\<close>

lemma sizes_ok_64: "sizes_ok 51 TYPE(64) TYPE(64)"
  by (simp add: sizes_ok_def kValuebits_def kHashbits_def)

lemma sizes_ok_32: "sizes_ok 19 TYPE(32) TYPE(16)"
  by (simp add: sizes_ok_def kValuebits_def kHashbits_def)

lemma cache_laws:
  assumes S: "sizes_ok kb TYPE('k :: len) TYPE('t :: len)"
  shows "lossy_cache (Cache_Put kb :: ('k, 't) packed_cache \<Rightarrow> _) (Cache_Has kb) (Cache_GetOrDefault kb) (key_ok kb) val_ok"
proof (unfold_locales, goal_cases)
  case (1 k v c)
  then show ?case by (simp add: Cache_Put_def key_ok_def val_ok_def)
next
  case (2 k c)
  then show ?case by (simp add: Cache_Has_def key_ok_def)
next
  case (3 c k d)
  then show ?case by (auto simp: cache_defs Let_def split: if_splits)
next
  case (4 c k v c' d)
  with Cache_Put_effect(1,2) [OF S] show ?case by blast
next
  case (5 c k v c' k' d)
  with Cache_Put_effect(3) [OF S] show ?case by blast
qed

interpretation cache64: lossy_cache "Cache_Put 51 :: (64, 64) packed_cache \<Rightarrow> _" "Cache_Has 51"
    "Cache_GetOrDefault 51" "key_ok 51" val_ok
  by (rule cache_laws [OF sizes_ok_64])

interpretation cache32: lossy_cache "Cache_Put 19 :: (32, 16) packed_cache \<Rightarrow> _" "Cache_Has 19"
    "Cache_GetOrDefault 19" "key_ok 19" val_ok
  by (rule cache_laws [OF sizes_ok_32])

end
