(* ===== verification/Size_Map.thy ===== *)
theory Size_Map
  imports Prelude
begin

text \<open>
  Size classes (\<open>common.h\<close>, \<open>common.cc\<close>): the configuration constants of the default build
  (16-byte minimum alignment, 8 KiB pages), the arithmetic of \<open>ClassIndex\<close>,
  \<open>AlignmentForSize\<close> and \<open>NumMoveSize\<close>, and \<open>SizeMap::Init\<close>, which computes the size classes,
  fills the array that maps a size to its class, double-checks it and fills the batch sizes.
\<close>

section \<open>Configuration\<close>

definition kMinAlign :: nat where "kMinAlign = 16"
definition kBaseClasses :: nat where "kBaseClasses = 9"
definition kPageShift :: nat where "kPageShift = 13"
definition kNumClasses :: nat where "kNumClasses = kBaseClasses + 79"
definition kPageSize :: nat where "kPageSize = 2 ^ kPageShift"
definition kMaxSize :: nat where "kMaxSize = 256 * 1024"
definition kAlignment :: nat where "kAlignment = 8"
definition kMaxPages :: nat where "kMaxPages = 2 ^ (20 - kPageShift)"
definition kMaxSmallSize :: nat where "kMaxSmallSize = 1024"
definition kClassArraySize :: nat where "kClassArraySize = (kMaxSize + 127 + 120 * 2 ^ 7) div 2 ^ 7 + 1"
definition kMaxValidPages :: nat where "kMaxValidPages = (2 ^ 64 - 1) div 2 ^ kPageShift"

lemmas config_defs = kMinAlign_def kBaseClasses_def kPageShift_def kNumClasses_def kPageSize_def
  kMaxSize_def kAlignment_def kMaxPages_def kMaxSmallSize_def kClassArraySize_def kMaxValidPages_def

text \<open>Bytes to pages: round up.\<close>

definition pages :: "nat \<Rightarrow> nat" where
  "pages bytes = bytes div 2 ^ kPageShift + (if bytes mod kPageSize > 0 then 1 else 0)"

section \<open>Index arithmetic\<close>

text \<open>The sums are \<open>uint32_t\<close> sums.\<close>

definition SmallSizeClass :: "nat \<Rightarrow> nat" where
  "SmallSizeClass s = ((s mod 2 ^ 32 + 7) mod 2 ^ 32) div 2 ^ 3"

definition LargeSizeClass :: "nat \<Rightarrow> nat" where
  "LargeSizeClass s = ((s mod 2 ^ 32 + 127 + 120 * 2 ^ 7) mod 2 ^ 32) div 2 ^ 7"

definition ClassIndex :: "nat \<Rightarrow> nat option" where
  "ClassIndex s = do {
     CHECK (s \<le> kMaxSize);
     Some (if s \<le> kMaxSmallSize then SmallSizeClass s else LargeSizeClass s) }"

text \<open>The loop of \<open>LgFloor\<close>, over the values of \<open>i\<close> still to come.\<close>

fun LgFloor_loop :: "nat list \<Rightarrow> nat \<Rightarrow> nat \<Rightarrow> nat \<times> nat" where
  "LgFloor_loop [] n log = (n, log)"
| "LgFloor_loop (i # is) n log =
     (let shift = 2 ^ i; x = n div 2 ^ shift
      in if x \<noteq> 0 then LgFloor_loop is x (log + shift) else LgFloor_loop is n log)"

definition LgFloor :: "nat \<Rightarrow> nat option" where
  "LgFloor n =
     (let (n', log) = LgFloor_loop [4, 3, 2, 1, 0] n 0 in do { CHECK (n' = 1); Some log })"

definition AlignmentForSize :: "nat \<Rightarrow> nat option" where
  "AlignmentForSize sz = do {
     alignment \<leftarrow>
       (if sz > kMaxSize then Some kPageSize
        else if sz \<ge> 128 then do { l \<leftarrow> LgFloor sz; Some (2 ^ l div 8) }
        else if sz \<ge> kMinAlign then Some kMinAlign
        else Some kAlignment);
     let alignment = (if alignment > kPageSize then kPageSize else alignment) in do {
       CHECK (sz < kMinAlign \<or> alignment \<ge> kMinAlign);
       CHECK (alignment AND (alignment - 1) = 0);
       Some alignment } }"

text \<open>
  \<open>xfer\<close> is \<open>FLAGS_tcmalloc_transfer_num_objects\<close>. It is read once from the environment: the
  argument \<open>envval\<close> is the number that \<open>strtol\<close> reads in \<open>TCMALLOC_TRANSFER_NUM_OBJ\<close>, if set.
\<close>

definition kDefaultTransferNumObjecs :: int where "kDefaultTransferNumObjecs = 512"

definition InitTCMallocTransferNumObjects :: "int option \<Rightarrow> int \<Rightarrow> int" where
  "InitTCMallocTransferNumObjects envval xfer =
     (if xfer = 0 then (case envval of None \<Rightarrow> kDefaultTransferNumObjecs
        | Some v \<Rightarrow> signed_take_bit 31 v)
      else xfer)"

text \<open>\<open>64.0 * 1024.0 / size\<close> truncated is the integer quotient for every size below \<open>2^53\<close>.\<close>

definition NumMoveSize :: "int \<Rightarrow> nat \<Rightarrow> int" where
  "NumMoveSize xfer sz =
     (if sz = 0 then 0
      else let num = int (64 * 1024 div sz);
               num = (if num < 2 then 2 else num)
           in if num > xfer then xfer else num)"

section \<open>Initialisation\<close>

record SizeMap =
  num_objects_to_move :: "nat \<Rightarrow> int"
  class_array :: "nat \<Rightarrow> nat"
  class_to_size :: "nat \<Rightarrow> nat"
  class_to_pages :: "nat \<Rightarrow> nat"

definition SizeMap_zero :: SizeMap where
  "SizeMap_zero = \<lparr>num_objects_to_move = (\<lambda>_. 0), class_array = (\<lambda>_. 0),
     class_to_size = (\<lambda>_. 0), class_to_pages = (\<lambda>_. 0)\<rparr>"

text \<open>The inner \<open>while\<close>: grow until the leftover is at most an eighth.\<close>

partial_function (option) grow_leftover :: "nat \<Rightarrow> nat \<Rightarrow> nat option" where
  [code]: "grow_leftover sz psize =
     (if psize mod sz > psize div 2 ^ 3
      then grow_leftover sz ((psize + kPageSize) mod 2 ^ 64) else Some psize)"

text \<open>The \<open>do ... while\<close>: grow until the span holds \<open>blocks\<close> objects.\<close>

partial_function (option) span_bytes :: "nat \<Rightarrow> nat \<Rightarrow> nat \<Rightarrow> nat option" where
  [code]: "span_bytes sz blocks psize = do {
     psize1 \<leftarrow> grow_leftover sz ((psize + kPageSize) mod 2 ^ 64);
     if psize1 div sz < blocks then span_bytes sz blocks psize1 else Some psize1 }"

text \<open>The loop over sizes that creates the classes; \<open>sc\<close> is the next class to assign.\<close>

partial_function (option) Init_classes :: "int \<Rightarrow> nat \<Rightarrow> nat \<Rightarrow> SizeMap \<Rightarrow> (nat \<times> SizeMap) option" where
  [code]: "Init_classes xfer sz sc sm =
     (if sz \<le> kMaxSize then do {
        alignment \<leftarrow> AlignmentForSize sz;
        CHECK (sz mod alignment = 0);
        psize \<leftarrow> span_bytes sz (to_size_t (c_div (NumMoveSize xfer sz) 4)) 0;
        let my_pages = psize div 2 ^ kPageShift in
        if sc > 1 \<and> my_pages = class_to_pages sm (sc - 1) \<and>
           my_pages * 2 ^ kPageShift div sz =
             class_to_pages sm (sc - 1) * 2 ^ kPageShift div class_to_size sm (sc - 1)
        then Init_classes xfer (sz + alignment) sc
               (sm\<lparr>class_to_size := (class_to_size sm)(sc - 1 := sz)\<rparr>)
        else do {
          CHECK (sc < kNumClasses);
          Init_classes xfer (sz + alignment) (sc + 1)
            (sm\<lparr>class_to_pages := (class_to_pages sm)(sc := my_pages),
                class_to_size := (class_to_size sm)(sc := sz)\<rparr>) } }
      else Some (sc, sm))"

text \<open>The loop \<open>for (s = next_size; s <= max; s += kAlignment) class_array_[ClassIndex(s)] = c\<close>.
  A store past the end of the array is a crash.\<close>

function Init_fill :: "nat \<Rightarrow> nat \<Rightarrow> nat \<Rightarrow> (nat \<Rightarrow> nat) \<Rightarrow> (nat \<Rightarrow> nat) option" where
  "Init_fill s mx c arr =
     (if s \<le> mx then do {
        i \<leftarrow> ClassIndex s;
        CHECK (i < kClassArraySize);
        Init_fill (s + kAlignment) mx c (arr(i := c)) }
      else Some arr)"
  by pat_completeness auto
termination by (relation "measure (\<lambda>(s, mx, c, arr). Suc mx - s)") (auto simp: kAlignment_def)

declare Init_fill.simps [simp del]

text \<open>The loop over the classes \<open>c .. kNumClasses - 1\<close>, \<open>k\<close> of them left.\<close>

fun Init_array :: "nat \<Rightarrow> nat \<Rightarrow> nat \<Rightarrow> SizeMap \<Rightarrow> SizeMap option" where
  "Init_array 0 c next_size sm = Some sm"
| "Init_array (Suc k) c next_size sm = do {
     arr \<leftarrow> Init_fill next_size (class_to_size sm c) c (class_array sm);
     Init_array k (c + 1) (class_to_size sm c + kAlignment) (sm\<lparr>class_array := arr\<rparr>) }"

definition SizeClass :: "SizeMap \<Rightarrow> nat \<Rightarrow> nat option" where
  "SizeClass sm sz = do { i \<leftarrow> ClassIndex sz; Some (class_array sm i) }"

definition MaybeSizeClass :: "SizeMap \<Rightarrow> nat \<Rightarrow> nat option" where
  "MaybeSizeClass sm sz =
     (if sz \<le> kMaxSmallSize then Some (class_array sm (SmallSizeClass sz))
      else if sz \<le> kMaxSize then Some (class_array sm (LargeSizeClass sz))
      else None)"

text \<open>The double-checking loop: every branch with \<open>Log(kCrash, ...)\<close> is a \<open>CHECK\<close>.\<close>

function Init_check :: "SizeMap \<Rightarrow> nat \<Rightarrow> unit option" where
  "Init_check sm sz =
     (if sz \<le> kMaxSize then do {
        sc \<leftarrow> SizeClass sm sz;
        CHECK (\<not> (sc = 0 \<or> sc \<ge> kNumClasses));
        CHECK (\<not> (sc > 1 \<and> sz \<le> class_to_size sm (sc - 1)));
        CHECK (\<not> (sz > class_to_size sm sc \<or> class_to_size sm sc = 0));
        Init_check sm (if sz \<le> kMaxSmallSize then sz + 8 else sz + 128) }
      else Some ())"
  by pat_completeness auto
termination by (relation "measure (\<lambda>(sm, sz). Suc kMaxSize - sz)") auto

declare Init_check.simps [simp del]

definition Init_moves :: "int \<Rightarrow> SizeMap \<Rightarrow> SizeMap" where
  "Init_moves xfer sm = sm\<lparr>num_objects_to_move := (\<lambda>cl.
     if 1 \<le> cl \<and> cl < kNumClasses then NumMoveSize xfer (class_to_size sm cl)
     else num_objects_to_move sm cl)\<rparr>"

definition SizeMap_Init :: "int option \<Rightarrow> int \<Rightarrow> SizeMap \<Rightarrow> SizeMap option" where
  "SizeMap_Init envval xfer sm =
     (let xfer = InitTCMallocTransferNumObjects envval xfer in do {
        i0 \<leftarrow> ClassIndex 0;
        CHECK (i0 = 0);
        im \<leftarrow> ClassIndex kMaxSize;
        CHECK (im < kClassArraySize);
        CHECK (kAlignment \<le> kMinAlign);
        (sc, sm1) \<leftarrow> Init_classes xfer kAlignment 1 sm;
        CHECK (sc = kNumClasses);
        sm2 \<leftarrow> Init_array (kNumClasses - 1) 1 0 sm1;
        Init_check sm2 0;
        Some (Init_moves xfer sm2) })"

section \<open>Properties of the index arithmetic\<close>

text \<open>\<open>idx\<close> is the index of a size in range, \<open>top i\<close> the largest size with index \<open>i\<close>.\<close>

definition idx :: "nat \<Rightarrow> nat" where
  "idx s = (if s \<le> 1024 then (s + 7) div 8 else (s + 15487) div 128)"

definition top_size :: "nat \<Rightarrow> nat" where
  "top_size i = (if i \<le> 128 then 8 * i else 128 * (i - 120))"

lemma ClassIndex_idx: "s \<le> kMaxSize \<Longrightarrow> ClassIndex s = Some (idx s)"
  by (simp add: ClassIndex_def SmallSizeClass_def LargeSizeClass_def idx_def config_defs add.commute)

lemma idx_mono: "s \<le> t \<Longrightarrow> idx s \<le> idx t"
  by (auto simp: idx_def intro: div_le_mono)

lemma idx_bound: "s \<le> kMaxSize \<Longrightarrow> idx s < kClassArraySize"
  by (auto simp: idx_def config_defs)

lemma le_top_size: "s \<le> top_size (idx s)"
  by (auto simp: idx_def top_size_def)

lemma idx_top_size: "idx (top_size i) = i"
  by (auto simp: idx_def top_size_def)

lemma top_size_mono: "i \<le> j \<Longrightarrow> top_size i \<le> top_size j"
  by (auto simp: top_size_def)

lemma top_size_8 [simp]: "8 dvd top_size i"
  by (auto simp: top_size_def intro: dvd_mult2)

lemma top_size_max: "s \<le> kMaxSize \<Longrightarrow> top_size (idx s) \<le> kMaxSize"
  using top_size_mono [OF idx_mono, of s kMaxSize] by (simp add: idx_def top_size_def kMaxSize_def)

lemma LgFloor_loop_correct:
  "0 < n \<Longrightarrow> n < 2 ^ 2 ^ k \<Longrightarrow> \<exists>l. LgFloor_loop (rev [0..<k]) n log = (1, log + l) \<and> 2 ^ l \<le> n \<and> n < 2 ^ Suc l"
proof (induction k arbitrary: n log)
  case 0
  then show ?case by (intro exI [of _ 0]) simp
next
  case (Suc k)
  let ?x = "n div 2 ^ 2 ^ k"
  show ?case
  proof (cases "?x = 0")
    case True
    then have "n < 2 ^ 2 ^ k" by (simp add: div_eq_0_iff)
    from Suc.IH [OF Suc.prems(1) this, of log] True show ?thesis by (simp add: Let_def)
  next
    case False
    have "n < 2 ^ 2 ^ k * 2 ^ 2 ^ k" using Suc.prems(2) by (simp flip: power_add mult_2)
    then have "?x < 2 ^ 2 ^ k" by (simp add: less_mult_imp_div_less)
    with False Suc.IH [of ?x "log + 2 ^ k"] obtain l where
      l: "LgFloor_loop (rev [0..<k]) ?x (log + 2 ^ k) = (1, log + 2 ^ k + l)" "2 ^ l \<le> ?x" "?x < 2 ^ Suc l"
      by auto
    have "2 ^ l * 2 ^ 2 ^ k \<le> n" using l(2) by (simp add: less_eq_div_iff_mult_less_eq)
    moreover have "n < 2 ^ Suc l * 2 ^ 2 ^ k" using l(3) by (simp add: div_less_iff_less_mult)
    ultimately have "2 ^ (2 ^ k + l) \<le> n \<and> n < 2 ^ Suc (2 ^ k + l)"
      by (simp add: power_add mult.commute mult.left_commute)
    with l(1) False show ?thesis by (intro exI [of _ "2 ^ k + l"]) (simp add: Let_def add.assoc)
  qed
qed

lemma LgFloor_correct:
  assumes "0 < n" "n < 2 ^ 32"
  shows "\<exists>l. LgFloor n = Some l \<and> 2 ^ l \<le> n \<and> n < 2 ^ Suc l"
proof -
  have "rev [0..<5] = [4, 3, 2, 1, 0]" by code_simp
  then show ?thesis
    using LgFloor_loop_correct [of n 5 0] assms by (auto simp: LgFloor_def)
qed

lemma pow2_and_pred: "(2::nat) ^ k AND (2 ^ k - 1) = 0"
  unfolding mask_eq_exp_minus_1 [symmetric] take_bit_eq_mask [symmetric] by (simp add: take_bit_eq_mod)

text \<open>Every size has an alignment: a power of two between \<open>kAlignment\<close> and \<open>kPageSize\<close>, at least
  \<open>kMinAlign\<close> from that size on, and at most an eighth of a size of \<open>128\<close> or more.\<close>

lemma AlignmentForSize_spec:
  "\<exists>k. AlignmentForSize sz = Some (2 ^ k) \<and> 3 \<le> k \<and> k \<le> kPageShift \<and>
     (kMinAlign \<le> sz \<longrightarrow> kMinAlign \<le> 2 ^ k) \<and> (128 \<le> sz \<longrightarrow> 8 * 2 ^ k \<le> sz)"
proof -
  consider "sz > kMaxSize" | "128 \<le> sz" "sz \<le> kMaxSize" | "kMinAlign \<le> sz" "sz < 128" | "sz < kMinAlign"
    by (meson not_le)
  then show ?thesis
  proof cases
    case 1
    then show ?thesis
      using pow2_and_pred [of 13] by (intro exI [of _ 13]) (simp add: AlignmentForSize_def config_defs Let_def)
  next
    case 2
    then obtain l where l: "LgFloor sz = Some l" "2 ^ l \<le> sz" "sz < 2 ^ Suc l"
      using LgFloor_correct [of sz] by (auto simp: config_defs)
    have "(2::nat) ^ 7 < 2 ^ Suc l" using l(3) 2(1) by simp
    then have l7: "7 \<le> l" by (simp only: power_strict_increasing_iff less_Suc_eq_le)
    have "(2::nat) ^ l < 2 ^ 19" using l(2) 2(2) by (simp add: config_defs)
    then have l18: "l \<le> 18" by (simp only: power_strict_increasing_iff)
    define k where "k = min (l - 3) 13"
    have e: "(2::nat) ^ l div 8 = 2 ^ (l - 3)"
      using l7 power_diff [of "2::nat" 3 l] by simp
    have "(kPageSize < 2 ^ (l - 3)) = (13 < l - 3)"
      unfolding kPageSize_def kPageShift_def by (rule power_strict_increasing_iff) simp
    then have k: "(if 2 ^ (l - 3) > kPageSize then kPageSize else 2 ^ (l - 3)) = 2 ^ k"
      by (auto simp: k_def min_def kPageSize_def kPageShift_def)
    have kk: "4 \<le> k" "k \<le> 13" "k + 3 \<le> l" using l7 by (auto simp: k_def)
    have "(2::nat) ^ 4 \<le> 2 ^ k" using kk(1) by (rule power_increasing) simp
    then have "AlignmentForSize sz = Some (2 ^ k)"
      using 2 l(1) e k pow2_and_pred [of k] by (simp add: AlignmentForSize_def kMinAlign_def)
    moreover have "(8::nat) * 2 ^ k \<le> sz"
    proof -
      have "(8::nat) * 2 ^ k = 2 ^ (k + 3)" by (simp add: power_add)
      also have "\<dots> \<le> 2 ^ l" using kk(3) by (rule power_increasing) simp
      finally show ?thesis using l(2) by simp
    qed
    ultimately show ?thesis using kk \<open>2 ^ 4 \<le> 2 ^ k\<close> by (intro exI [of _ k]) (simp add: kMinAlign_def kPageShift_def)
  next
    case 3
    then show ?thesis
      using pow2_and_pred [of 4] by (intro exI [of _ 4]) (simp add: AlignmentForSize_def config_defs Let_def)
  next
    case 4
    then show ?thesis
      using pow2_and_pred [of 3] by (intro exI [of _ 3]) (simp add: AlignmentForSize_def config_defs Let_def)
  qed
qed

section \<open>The span of a class\<close>

text \<open>The two growing loops return, and their result wastes at most an eighth of the span and holds
  at least \<open>blocks\<close> objects.\<close>

lemma kPageSize_pos [simp]: "0 < kPageSize"
  by (simp add: kPageSize_def)

lemma grow_leftover_returns:
  assumes "0 < sz" "sz \<le> kMaxSize" "p < 2 ^ 60"
  shows "\<exists>q. grow_leftover sz p = Some q \<and> p \<le> q \<and> q \<le> max p (8 * sz + kPageSize) \<and> q mod sz \<le> q div 2 ^ 3 \<and>
    (kPageSize dvd p \<longrightarrow> kPageSize dvd q)"
  using assms(3)
proof (induction "8 * sz + kPageSize - p" arbitrary: p rule: less_induct)
  case less
  show ?case
  proof (cases "p mod sz > p div 2 ^ 3")
    case True
    have "p mod sz < sz" using assms(1) by simp
    with True have "p div 8 < sz" by simp
    then have "p < 8 * sz" by (simp add: div_less_iff_less_mult)
    with assms(2) have p: "p < 8 * kMaxSize" by linarith
    then have nw: "(p + kPageSize) mod 2 ^ 64 = p + kPageSize" by (simp add: config_defs)
    have "p + kPageSize < 2 ^ 60" using p by (simp add: config_defs)
    moreover have "8 * sz + kPageSize - (p + kPageSize) < 8 * sz + kPageSize - p"
      using \<open>p < 8 * sz\<close> kPageSize_pos by linarith
    ultimately obtain q where
      "grow_leftover sz (p + kPageSize) = Some q" "p + kPageSize \<le> q"
      "q \<le> max (p + kPageSize) (8 * sz + kPageSize)" "q mod sz \<le> q div 2 ^ 3"
      "kPageSize dvd p + kPageSize \<longrightarrow> kPageSize dvd q"
      using less.hyps [of "p + kPageSize"] by blast
    with True nw \<open>p < 8 * sz\<close> show ?thesis by (auto simp: grow_leftover.simps [of sz p])
  next
    case False
    then show ?thesis by (simp add: grow_leftover.simps [of sz p])
  qed
qed

lemma span_bytes_returns:
  assumes "0 < sz" "sz \<le> kMaxSize" "blocks \<le> 2 ^ 16" "p < 2 ^ 50"
  shows "\<exists>q. span_bytes sz blocks p = Some q \<and> p < q \<and> q mod sz \<le> q div 2 ^ 3 \<and> blocks \<le> q div sz \<and>
    (kPageSize dvd p \<longrightarrow> kPageSize dvd q)"
  using assms(4)
proof (induction "2 ^ 50 - p" arbitrary: p rule: less_induct)
  case less
  have nw: "(p + kPageSize) mod 2 ^ 64 = p + kPageSize" using less.prems by (simp add: config_defs)
  have "p + kPageSize < 2 ^ 60" using less.prems by (simp add: config_defs)
  from grow_leftover_returns [OF assms(1,2) this] obtain q where
    q: "grow_leftover sz (p + kPageSize) = Some q" "p + kPageSize \<le> q"
    "q \<le> max (p + kPageSize) (8 * sz + kPageSize)" "q mod sz \<le> q div 2 ^ 3"
    "kPageSize dvd p + kPageSize \<longrightarrow> kPageSize dvd q"
    by blast
  show ?case
  proof (cases "q div sz < blocks")
    case True
    then have "q < blocks * sz" using assms(1) by (simp add: div_less_iff_less_mult)
    also have "\<dots> \<le> 2 ^ 16 * kMaxSize" using assms(2,3) by (intro mult_le_mono)
    finally have q50: "q < 2 ^ 50" by (simp add: config_defs)
    have "2 ^ 50 - q < 2 ^ 50 - p" using q(2) q50 by (simp add: config_defs)
    from less.hyps [OF this q50] obtain r where
      "span_bytes sz blocks q = Some r" "q < r" "r mod sz \<le> r div 2 ^ 3" "blocks \<le> r div sz"
      "kPageSize dvd q \<longrightarrow> kPageSize dvd r"
      by blast
    with q True nw kPageSize_pos show ?thesis by (auto simp: span_bytes.simps [of sz blocks p])
  next
    case False
    have "p < q" using q(2) kPageSize_pos by linarith
    with False q nw show ?thesis by (auto simp: span_bytes.simps [of sz blocks p])
  qed
qed

section \<open>The classes of the default configuration\<close>

text \<open>What the first loop of \<open>Init\<close> computes with the default batch limit: the sizes and span
  lengths of the classes \<open>1 .. 87\<close>.\<close>

definition default_sizes :: "nat list" where
  "default_sizes =
    [8, 16, 32, 48, 64, 80, 96, 112, 128, 144, 160, 176, 192, 208, 224, 240, 256, 288, 320,
     352, 384, 416, 448, 480, 512, 576, 640, 704, 768, 832, 896, 960, 1024, 1152, 1280,
     1408, 1536, 1792, 2048, 2304, 2560, 2816, 3072, 3328, 4096, 4608, 5120, 6144, 6656,
     8192, 9216, 10240, 12288, 13312, 16384, 20480, 24576, 26624, 32768, 40960, 49152,
     57344, 65536, 73728, 81920, 90112, 98304, 106496, 114688, 122880, 131072, 139264,
     147456, 155648, 163840, 172032, 180224, 188416, 196608, 204800, 212992, 221184, 229376,
     237568, 245760, 253952, 262144]"

definition default_pages :: "nat list" where
  "default_pages =
    [1, 1, 1, 1, 1, 2, 2, 2, 2, 2, 2, 2, 2, 2, 2, 2, 2, 2, 2, 2, 2, 2, 2, 2, 2, 2, 2, 2, 2,
     2, 2, 2, 2, 2, 2, 2, 2, 2, 2, 2, 2, 3, 2, 3, 2, 3, 2, 3, 5, 2, 5, 4, 3, 5, 2, 5, 3, 7,
     4, 5, 6, 7, 8, 9, 10, 11, 12, 13, 14, 15, 16, 17, 18, 19, 20, 21, 22, 23, 24, 25, 26,
     27, 28, 29, 30, 31, 32]"

fun fun_upds :: "nat \<Rightarrow> 'b list \<Rightarrow> (nat \<Rightarrow> 'b) \<Rightarrow> (nat \<Rightarrow> 'b)" where
  "fun_upds k [] f = f"
| "fun_upds k (x # xs) f = fun_upds (k + 1) xs (f(k := x))"

lemma fun_upds_apply:
  "fun_upds k xs f i = (if k \<le> i \<and> i < k + length xs then xs ! (i - k) else f i)"
proof (induction xs arbitrary: k f)
  case (Cons x xs)
  show ?case
    unfolding fun_upds.simps Cons.IH by (cases "i = k") (auto simp: nth_Cons')
qed auto

definition default_map :: SizeMap where
  "default_map = SizeMap_zero\<lparr>class_to_size := fun_upds 1 default_sizes (\<lambda>_. 0),
     class_to_pages := fun_upds 1 default_pages (\<lambda>_. 0)\<rparr>"

lemma Init_classes_default: "Init_classes 512 kAlignment 1 SizeMap_zero = Some (kNumClasses, default_map)"
  unfolding default_map_def default_sizes_def default_pages_def SizeMap_zero_def
  by (simp add: Init_classes.simps span_bytes.simps grow_leftover.simps AlignmentForSize_def LgFloor_def
      NumMoveSize_def to_size_t_def c_div_def config_defs Let_def del: One_nat_def)


lemma default_length: "length default_sizes = 87" "length default_pages = 87"
  by (simp_all add: default_sizes_def default_pages_def)

lemma default_sizes_table:
  "sorted_wrt (<) default_sizes"
  "list_all (\<lambda>s. 0 < s \<and> top_size (idx s) = s) default_sizes"
  "last default_sizes = kMaxSize"
  by (simp_all add: default_sizes_def top_size_def idx_def kMaxSize_def)

section \<open>The array from sizes to classes\<close>

text \<open>A size table that \<open>Init\<close> can index: increasing, and every size is the largest one of its
  index.\<close>

definition table_ok :: "SizeMap \<Rightarrow> nat \<Rightarrow> nat \<Rightarrow> bool" where
  "table_ok sm c k = ((\<forall>d. c \<le> d \<and> d < c + k \<longrightarrow>
       0 < class_to_size sm d \<and> class_to_size sm d \<le> kMaxSize \<and>
       top_size (idx (class_to_size sm d)) = class_to_size sm d) \<and>
     (\<forall>d e. c \<le> d \<and> d < e \<and> e < c + k \<longrightarrow> class_to_size sm d < class_to_size sm e))"

lemma table_ok_Suc: "table_ok sm c (Suc k) \<Longrightarrow> table_ok sm (Suc c) k"
  unfolding table_ok_def by auto

lemma table_ok_array [simp]: "table_ok (sm\<lparr>class_array := a\<rparr>) c k = table_ok sm c k"
  by (simp add: table_ok_def)

lemma Init_fill_spec:
  "mx \<le> kMaxSize \<Longrightarrow>
     Init_fill s mx c arr =
       Some (\<lambda>i. if \<exists>j. s + 8 * j \<le> mx \<and> idx (s + 8 * j) = i then c else arr i)"
proof (induction s mx c arr rule: Init_fill.induct)
  case (1 s mx c arr)
  show ?case
  proof (cases "s \<le> mx")
    case True
    then have s: "ClassIndex s = Some (idx s)" "idx s < kClassArraySize"
      using 1 by (auto simp: ClassIndex_idx idx_bound)
    have ex: "(\<exists>j. s + 8 * j \<le> mx \<and> idx (s + 8 * j) = i) =
        (i = idx s \<or> (\<exists>j. s + 8 + 8 * j \<le> mx \<and> idx (s + 8 + 8 * j) = i))" for i
    proof -
      have "(\<exists>j. s + 8 * j \<le> mx \<and> idx (s + 8 * j) = i) =
          ((s + 8 * 0 \<le> mx \<and> idx (s + 8 * 0) = i) \<or> (\<exists>j. s + 8 * Suc j \<le> mx \<and> idx (s + 8 * Suc j) = i))"
        by (metis not0_implies_Suc)
      then show ?thesis using True by (auto simp: add.assoc)
    qed
    show ?thesis
      using 1 True s by (subst Init_fill.simps) (auto simp: kAlignment_def ex fun_upd_def intro!: ext)
  next
    case False
    then show ?thesis by (subst Init_fill.simps) auto
  qed
qed

lemma Init_array_spec:
  assumes "table_ok sm c k" "8 dvd nxt" "0 < k \<Longrightarrow> nxt \<le> class_to_size sm c"
  shows "\<exists>A. Init_array k c nxt sm = Some (sm\<lparr>class_array := A\<rparr>) \<and>
    (\<forall>i. top_size i < nxt \<longrightarrow> A i = class_array sm i) \<and>
    (\<forall>i. 0 < k \<and> nxt \<le> top_size i \<and> top_size i \<le> class_to_size sm (c + k - 1) \<longrightarrow>
       c \<le> A i \<and> A i < c + k \<and> top_size i \<le> class_to_size sm (A i) \<and>
       (c < A i \<longrightarrow> class_to_size sm (A i - 1) < top_size i))"
  using assms
proof (induction k arbitrary: c nxt sm)
  case 0
  then show ?case by (intro exI [of _ "class_array sm"]) simp
next
  case (Suc k)
  let ?sz = "class_to_size sm" and ?arr = "\<lambda>i. if \<exists>j. nxt + 8 * j \<le> class_to_size sm c \<and> idx (nxt + 8 * j) = i
    then c else class_array sm i"
  have tc: "?sz c \<le> kMaxSize" "8 dvd ?sz c"
    using Suc.prems(1) top_size_8 [of "idx (?sz c)"] unfolding table_ok_def by (force, force)
  have fill: "Init_fill nxt (?sz c) c (class_array sm) = Some ?arr"
    by (rule Init_fill_spec) (rule tc)
  let ?sm = "sm\<lparr>class_array := ?arr\<rparr>"
  have lt: "0 < k \<Longrightarrow> ?sz c < ?sz (Suc c)" using Suc.prems(1) unfolding table_ok_def by auto
  have le8: "?sz c + 8 \<le> t" if "?sz c < t" "8 dvd t" for t
    using that tc(2) by (auto elim!: dvdE)
  have "table_ok ?sm (Suc c) k" using table_ok_Suc [OF Suc.prems(1)] by simp
  moreover have "8 dvd ?sz c + 8" using tc(2) by simp
  moreover have "0 < k \<Longrightarrow> ?sz c + 8 \<le> class_to_size ?sm (Suc c)"
    using lt Suc.prems(1) top_size_8 [of "idx (?sz (Suc c))"] by (intro le8 [simplified]) (auto simp: table_ok_def)
  ultimately obtain A where A: "Init_array k (Suc c) (?sz c + 8) ?sm = Some (?sm\<lparr>class_array := A\<rparr>)"
    "\<And>i. top_size i < ?sz c + 8 \<Longrightarrow> A i = ?arr i"
    "\<And>i. 0 < k \<Longrightarrow> ?sz c + 8 \<le> top_size i \<Longrightarrow> top_size i \<le> ?sz (c + k) \<Longrightarrow>
       Suc c \<le> A i \<and> A i < Suc c + k \<and> top_size i \<le> ?sz (A i) \<and> (Suc c < A i \<longrightarrow> ?sz (A i - 1) < top_size i)"
    using Suc.IH [of ?sm "Suc c" "?sz c + 8"] by auto
  have low: "A i = class_array sm i" if "top_size i < nxt" for i
  proof -
    have "idx (nxt + 8 * j) \<noteq> i" for j
      using that le_top_size [of "nxt + 8 * j"] by auto
    then show ?thesis using A(2) [of i] that Suc.prems(3) by simp
  qed
  have mid: "A i = c" if i: "nxt \<le> top_size i" "top_size i \<le> ?sz c" for i
  proof -
    have "8 dvd top_size i - nxt" using Suc.prems(2) by simp
    then obtain j where "top_size i - nxt = 8 * j" by (elim dvdE)
    then have "nxt + 8 * j = top_size i" using i by simp
    then have "\<exists>j. nxt + 8 * j \<le> ?sz c \<and> idx (nxt + 8 * j) = i"
      using i idx_top_size [of i] by (intro exI [of _ j]) simp
    then show ?thesis using A(2) [of i] i by simp
  qed
  have high: "c \<le> A i \<and> A i < c + Suc k \<and> top_size i \<le> ?sz (A i) \<and> (c < A i \<longrightarrow> ?sz (A i - 1) < top_size i)"
    if i: "nxt \<le> top_size i" "top_size i \<le> ?sz (c + k)" for i
  proof (cases "top_size i \<le> ?sz c")
    case True
    with mid [OF i(1)] show ?thesis by simp
  next
    case False
    then have t: "?sz c + 8 \<le> top_size i" using le8 [of "top_size i"] by simp
    have "0 < k" using i False by (cases k) auto
    from A(3) [OF this t i(2)] False show ?thesis by (cases "A i = Suc c") auto
  qed
  show ?case
    using A(1) fill low high by (intro exI [of _ A]) (simp add: kAlignment_def)
qed

lemma default_table: "table_ok default_map 1 87"
proof -
  have cs: "class_to_size default_map d = default_sizes ! (d - 1)" if "1 \<le> d" "d < 88" for d
    using that by (simp add: default_map_def fun_upds_apply default_length)
  have "class_to_size default_map d < class_to_size default_map e" if "1 \<le> d" "d < e" "e < 88" for d e
    using that default_sizes_table(1) by (simp add: cs sorted_wrt_nth_less default_length)
  moreover have "0 < class_to_size default_map d \<and> class_to_size default_map d \<le> kMaxSize \<and>
      top_size (idx (class_to_size default_map d)) = class_to_size default_map d" if "1 \<le> d" "d < 88" for d
  proof -
    have "default_sizes ! (d - 1) \<le> last default_sizes"
    proof (cases "d = 87")
      case True
      then show ?thesis by (simp add: last_conv_nth default_length flip: length_greater_0_conv)
    next
      case False
      then have "default_sizes ! (d - 1) < default_sizes ! 86"
        using that sorted_wrt_nth_less [OF default_sizes_table(1), of "d - 1" 86] by (simp add: default_length)
      moreover have "default_sizes \<noteq> []" by (simp flip: length_greater_0_conv add: default_length)
      ultimately show ?thesis by (simp add: last_conv_nth default_length)
    qed
    moreover have "0 < default_sizes ! (d - 1) \<and> top_size (idx (default_sizes ! (d - 1))) = default_sizes ! (d - 1)"
      using default_sizes_table(2) that by (simp add: list_all_length default_length)
    ultimately show ?thesis using that by (simp add: cs default_sizes_table(3))
  qed
  ultimately show ?thesis unfolding table_ok_def by auto
qed

lemma default_last: "class_to_size default_map 87 = kMaxSize"
  by (simp add: default_map_def fun_upds_apply default_length default_sizes_def kMaxSize_def)

text \<open>What \<open>Init\<close> promises of a filled map: the class of a size is the least that holds it.\<close>

definition classes_ok :: "SizeMap \<Rightarrow> bool" where
  "classes_ok sm = (table_ok sm 1 87 \<and> class_to_size sm 87 = kMaxSize \<and>
     (\<forall>i. top_size i \<le> kMaxSize \<longrightarrow> 1 \<le> class_array sm i \<and> class_array sm i < 88 \<and>
        top_size i \<le> class_to_size sm (class_array sm i) \<and>
        (1 < class_array sm i \<longrightarrow> class_to_size sm (class_array sm i - 1) < top_size i)))"

lemma Init_array_default:
  "\<exists>A. Init_array 87 1 0 default_map = Some (default_map\<lparr>class_array := A\<rparr>) \<and>
     classes_ok (default_map\<lparr>class_array := A\<rparr>)"
  using Init_array_spec [of default_map 1 87 0] default_table default_last
  by (fastforce simp: classes_ok_def)

lemma SizeClass_least:
  assumes "classes_ok sm" "s \<le> kMaxSize"
  shows "\<exists>c. SizeClass sm s = Some c \<and> 1 \<le> c \<and> c < 88 \<and> s \<le> class_to_size sm c \<and>
    (\<forall>d. 1 \<le> d \<and> d < c \<longrightarrow> class_to_size sm d < s)"
proof -
  let ?i = "idx s" and ?sz = "class_to_size sm"
  let ?c = "class_array sm ?i"
  have t: "top_size ?i \<le> kMaxSize" using assms(2) by (rule top_size_max)
  with assms(1) have c: "1 \<le> ?c" "?c < 88" "top_size ?i \<le> ?sz ?c" "1 < ?c \<Longrightarrow> ?sz (?c - 1) < top_size ?i"
    unfolding classes_ok_def by blast+
  have tab: "table_ok sm 1 87" using assms(1) by (simp add: classes_ok_def)
  have below: "?sz d < s" if d: "1 \<le> d" "d < ?c" for d
  proof -
    have "?sz d \<le> ?sz (?c - 1)"
    proof (cases "d = ?c - 1")
      case False
      then have "d < ?c - 1" "?c - 1 < 1 + 87" using d c(2) by auto
      then show ?thesis using tab d(1) unfolding table_ok_def by (intro less_imp_le) blast
    qed simp
    also have "\<dots> < top_size ?i" using c d by auto
    finally have dt: "?sz d < top_size ?i" .
    have "\<not> s \<le> ?sz d"
    proof
      assume "s \<le> ?sz d"
      then have "?i \<le> idx (?sz d)" by (rule idx_mono)
      then have "top_size ?i \<le> top_size (idx (?sz d))" by (rule top_size_mono)
      also have "\<dots> = ?sz d" using tab d c(2) unfolding table_ok_def by auto
      finally show False using dt by simp
    qed
    then show ?thesis by simp
  qed
  have "s \<le> ?sz ?c" using le_top_size [of s] c(3) by simp
  with c below assms(2) show ?thesis by (simp add: SizeClass_def ClassIndex_idx)
qed

lemma Init_check_ok: "classes_ok sm \<Longrightarrow> Init_check sm s = Some ()"
proof (induction sm s rule: Init_check.induct)
  case (1 sm s)
  show ?case
  proof (cases "s \<le> kMaxSize")
    case True
    from SizeClass_least [OF "1.prems" True] obtain c where
      c: "SizeClass sm s = Some c" "1 \<le> c" "c < 88" "s \<le> class_to_size sm c"
      "\<And>d. 1 \<le> d \<Longrightarrow> d < c \<Longrightarrow> class_to_size sm d < s" by blast
    have "0 < class_to_size sm c"
      using "1.prems" c(2,3) unfolding classes_ok_def table_ok_def by auto
    moreover have "\<not> (c > 1 \<and> s \<le> class_to_size sm (c - 1))"
    proof (cases "c > 1")
      case True
      then have "class_to_size sm (c - 1) < s" by (intro c(5)) auto
      then show ?thesis by simp
    qed simp
    moreover have "kNumClasses = 88" by (simp add: config_defs)
    ultimately show ?thesis
      using True c "1.IH" [OF True] "1.prems"
      by (subst Init_check.simps) (auto simp: Option.bind_eq_Some_conv simp del: One_nat_def)
  next
    case False
    then show ?thesis by (subst Init_check.simps) simp
  qed
qed


lemma SizeMap_Init_default:
  "\<exists>A. SizeMap_Init None 0 SizeMap_zero = Some (Init_moves 512 (default_map\<lparr>class_array := A\<rparr>)) \<and>
     classes_ok (default_map\<lparr>class_array := A\<rparr>)"
proof -
  obtain A where A: "Init_array 87 1 0 default_map = Some (default_map\<lparr>class_array := A\<rparr>)"
    "classes_ok (default_map\<lparr>class_array := A\<rparr>)"
    using Init_array_default by blast
  have k: "kNumClasses = 88" "kNumClasses - 1 = 87" "kAlignment \<le> kMinAlign" "idx 0 = 0" "idx kMaxSize < kClassArraySize"
    by (simp_all add: config_defs idx_def)
  show ?thesis
    using A Init_classes_default k Init_check_ok [OF A(2)]
    by (intro exI [of _ A])
      (simp add: SizeMap_Init_def InitTCMallocTransferNumObjects_def kDefaultTransferNumObjecs_def ClassIndex_idx
        del: One_nat_def)
qed

lemma Init_moves_views [simp, view_simps]:
  "class_array (Init_moves x sm) = class_array sm"
  "class_to_size (Init_moves x sm) = class_to_size sm"
  "class_to_pages (Init_moves x sm) = class_to_pages sm"
  "SizeClass (Init_moves x sm) = SizeClass sm"
  "classes_ok (Init_moves x sm) = classes_ok sm"
  by (simp_all add: Init_moves_def SizeClass_def classes_ok_def table_ok_def fun_eq_iff)

text \<open>A \<open>do ... while\<close> that returns has reached its number of blocks.\<close>

lemma grow_leftover_lt: "grow_leftover sz p = Some q \<Longrightarrow> p < 2 ^ 64 \<longrightarrow> q < 2 ^ 64"
proof (rule grow_leftover.raw_induct [of "\<lambda>sz p q. p < 2 ^ 64 \<longrightarrow> q < 2 ^ 64" sz p q])
  fix f :: "nat \<Rightarrow> nat \<Rightarrow> nat option" and a b y :: nat
  assume "\<And>a b y. f a b = Some y \<Longrightarrow> b < 2 ^ 64 \<longrightarrow> y < 2 ^ 64"
    and "(if b mod a > b div 2 ^ 3 then f a ((b + kPageSize) mod 2 ^ 64) else Some b) = Some y"
  then show "b < 2 ^ 64 \<longrightarrow> y < 2 ^ 64"
    by (metis mod_less_divisor option.inject zero_less_numeral zero_less_power)
qed

lemma span_bytes_post: "span_bytes sz blocks p = Some q \<Longrightarrow> blocks \<le> q div sz \<and> q < 2 ^ 64"
proof (rule span_bytes.raw_induct [of "\<lambda>sz blocks p q. blocks \<le> q div sz \<and> q < 2 ^ 64" sz blocks p q])
  fix f :: "nat \<Rightarrow> nat \<Rightarrow> nat \<Rightarrow> nat option" and sz blocks p q :: nat
  assume IH: "\<And>a b c y. f a b c = Some y \<Longrightarrow> b \<le> y div a \<and> y < 2 ^ 64"
    and "do { r \<leftarrow> grow_leftover sz ((p + kPageSize) mod 2 ^ 64);
              if r div sz < blocks then f sz blocks r else Some r } = Some q"
  then obtain r where r: "grow_leftover sz ((p + kPageSize) mod 2 ^ 64) = Some r"
    "(if r div sz < blocks then f sz blocks r else Some r) = Some q"
    by (auto simp: Option.bind_eq_Some_conv)
  have "r < 2 ^ 64" using grow_leftover_lt [OF r(1)] by simp
  with r(2) IH show "blocks \<le> q div sz \<and> q < 2 ^ 64" by (auto split: if_splits)
qed

lemma span_bytes_negative:
  assumes "v < 0" "- (2 ^ 31) \<le> v" "v \<le> - 4"
  shows "span_bytes 8 (to_size_t (c_div v 4)) 0 = None"
proof (rule ccontr)
  assume "span_bytes 8 (to_size_t (c_div v 4)) 0 \<noteq> None"
  then obtain q where "span_bytes 8 (to_size_t (c_div v 4)) 0 = Some q" by blast
  from span_bytes_post [OF this] have "to_size_t (c_div v 4) \<le> q div 8" "q < 2 ^ 64" by auto
  then have le: "to_size_t (c_div v 4) < 2 ^ 61" by (simp add: less_mult_imp_div_less)
  define w where "w = (- v) div 4"
  have "c_div v 4 = - w" using assms(1) by (simp add: c_div_def w_def)
  moreover have "1 \<le> w" "w \<le> 2 ^ 29" using assms by (auto simp: w_def)
  ultimately have "c_div v 4 mod 2 ^ 64 = 2 ^ 64 - w"
    by (simp add: zmod_zminus1_eq_if)
  with le \<open>w \<le> 2 ^ 29\<close> show False by (simp add: to_size_t_def)
qed

section \<open>Properties\<close>



text \<open>C26: the spans of the filled map waste at most an eighth of their bytes, hold at least a quarter
  of the batch of their class, and a batch has between 2 and 512 objects.\<close>

theorem SizeMap_Init_spans:
  "\<exists>sm. SizeMap_Init None 0 SizeMap_zero = Some sm \<and>
     (\<forall>c. 0 < c \<and> c < kNumClasses \<longrightarrow>
        (let bytes = class_to_pages sm c * kPageSize; sz = class_to_size sm c; n = num_objects_to_move sm c
         in 0 < class_to_pages sm c \<and> bytes mod sz \<le> bytes div 8 \<and> n = NumMoveSize 512 sz \<and>
            2 \<le> n \<and> n \<le> 512 \<and> n div 4 \<le> int (bytes div sz)))"
proof -
  have all: "list_all (\<lambda>(sz, pg). let bytes = pg * kPageSize; n = NumMoveSize 512 sz in
      0 < pg \<and> bytes mod sz \<le> bytes div 8 \<and> 2 \<le> n \<and> n \<le> 512 \<and> n div 4 \<le> int (bytes div sz))
      (zip default_sizes default_pages)"
    by (simp add: default_sizes_def default_pages_def NumMoveSize_def config_defs)
  obtain A where A: "SizeMap_Init None 0 SizeMap_zero = Some (Init_moves 512 (default_map\<lparr>class_array := A\<rparr>))"
    using SizeMap_Init_default by blast
  have "let bytes = class_to_pages default_map c * kPageSize; sz = class_to_size default_map c; n = NumMoveSize 512 sz
      in 0 < class_to_pages default_map c \<and> bytes mod sz \<le> bytes div 8 \<and> 2 \<le> n \<and> n \<le> 512 \<and>
        n div 4 \<le> int (bytes div sz)" if "0 < c" "c < 88" for c
    using all that
    by (auto simp: list_all_length default_length default_map_def fun_upds_apply Let_def dest!: spec [of _ "c - 1"])
  with A show ?thesis
    by (intro exI [of _ "Init_moves 512 (default_map\<lparr>class_array := A\<rparr>)"])
      (auto simp: Init_moves_def config_defs Let_def)
qed

lemma SizeMap_Init_spans_witness:
  "\<exists>sm. SizeMap_Init None 0 SizeMap_zero = Some sm \<and> 0 < class_to_pages sm 87 \<and> 2 \<le> num_objects_to_move sm 87"
proof -
  have "(0::nat) < 87 \<and> 87 < kNumClasses" by (simp add: config_defs)
  with SizeMap_Init_spans show ?thesis unfolding Let_def by blast
qed

text \<open>a negative batch limit read from the environment (at most \<open>-4\<close>) keeps \<open>Init\<close> from
  returning: the \<open>do ... while\<close> compares the span's object count with a negative \<open>int\<close> converted
  to \<open>size_t\<close>.\<close>

theorem SizeMap_Init_negative_limit:
  assumes "- (2 ^ 31) \<le> v" "v \<le> - 4"
  shows "SizeMap_Init (Some v) 0 SizeMap_zero = None"
proof -
  have "signed_take_bit 31 v = v" using assms by (simp add: signed_take_bit_int_eq_self)
  moreover have "NumMoveSize v 8 = v" using assms by (simp add: NumMoveSize_def)
  moreover have "AlignmentForSize 8 = Some 8"
    by (simp add: AlignmentForSize_def config_defs Let_def)
  ultimately have "Init_classes v kAlignment 1 SizeMap_zero = None"
    using span_bytes_negative [of v] assms by (subst Init_classes.simps) (simp add: kAlignment_def kMaxSize_def)
  then show ?thesis
    using \<open>signed_take_bit 31 v = v\<close>
    by (simp add: SizeMap_Init_def InitTCMallocTransferNumObjects_def Option.bind_eq_None_conv del: One_nat_def)
qed

lemma SizeMap_Init_negative_limit_witness: "SizeMap_Init (Some (- 512)) 0 SizeMap_zero = None"
  by (rule SizeMap_Init_negative_limit) simp_all

end
