(* ===== verification/System_Alloc.thy ===== *)
theory System_Alloc
  imports Linked_List Size_Map
begin

text \<open>
  The system allocator of the Windows build (\<open>windows/system-alloc.cc\<close>): \<open>VirtualSysAllocator\<close>,
  \<open>TCMalloc_SystemAlloc\<close>, \<open>TCMalloc_SystemRelease\<close> and \<open>TCMalloc_SystemCommit\<close>. The kernel
  calls are the parameter \<open>E\<close>, a record of functions over a state of the kernel of any type
  \<open>'os\<close>; \<open>os_contract\<close> states what their documentation promises. The \<open>assert\<close>s of the file
  are crashes.
\<close>

section \<open>The kernel calls\<close>

text \<open>
  \<open>os_reserve\<close> is \<open>VirtualAlloc(0, size, MEM_COMMIT|MEM_RESERVE, PAGE_READWRITE)\<close>, \<open>os_commit\<close>
  is \<open>VirtualAlloc(start, size, MEM_COMMIT, PAGE_READWRITE)\<close>, \<open>os_decommit\<close> is
  \<open>VirtualFree(start, size, MEM_DECOMMIT)\<close>, \<open>os_query\<close> is \<open>VirtualQuery\<close>: the size of the
  answer and \<open>RegionSize\<close>.
\<close>

record 'os OS =
  os_pagesize :: nat
  os_reserve :: "nat \<Rightarrow> 'os \<Rightarrow> addr \<times> 'os"
  os_commit :: "addr \<Rightarrow> nat \<Rightarrow> 'os \<Rightarrow> addr \<times> 'os"
  os_decommit :: "addr \<Rightarrow> nat \<Rightarrow> 'os \<Rightarrow> bool \<times> 'os"
  os_query :: "addr \<Rightarrow> 'os \<Rightarrow> nat \<times> nat"

definition sizeof_info :: nat where "sizeof_info = 48"

text \<open>\<open>res s\<close> is the set of addresses the process has reserved in kernel state \<open>s\<close>. The page size
  is a power of two of at least \<open>kPageSize\<close> (Windows reserves in units of 64 KiB); a reservation
  of nothing fails; a granted one is new and aligned; commit and decommit reserve and release
  nothing, and do not fail inside one region.\<close>

definition os_reserve_ok :: "'os OS \<Rightarrow> ('os \<Rightarrow> nat set) \<Rightarrow> bool" where
  "os_reserve_ok E res = (\<forall>sz s a s'. os_pagesize E dvd sz \<longrightarrow> os_reserve E sz s = (a, s') \<longrightarrow>
     (a = 0 \<and> res s' = res s) \<or>
     (0 < a \<and> 0 < sz \<and> os_pagesize E dvd a \<and> a + sz \<le> 2 ^ 47 \<and> extent a sz \<inter> res s = {} \<and>
      res s' = res s \<union> extent a sz))"

definition os_region_ok :: "'os OS \<Rightarrow> addr \<Rightarrow> 'os \<Rightarrow> bool" where
  "os_region_ok E a s = (\<exists>r > 0. os_query E a s = (sizeof_info, r) \<and>
     (\<forall>n. 0 < n \<and> n \<le> r \<longrightarrow> fst (os_commit E a n s) = a \<and> fst (os_decommit E a n s)))"

definition os_contract :: "'os OS \<Rightarrow> ('os \<Rightarrow> nat set) \<Rightarrow> bool" where
  "os_contract E res =
     ((\<exists>k. 13 \<le> k \<and> k \<le> 30 \<and> os_pagesize E = 2 ^ k) \<and> os_reserve_ok E res \<and>
      (\<forall>a n s. res (snd (os_commit E a n s)) = res s) \<and>
      (\<forall>a n s. res (snd (os_decommit E a n s)) = res s) \<and>
      (\<forall>a s. a \<in> res s \<longrightarrow> os_region_ok E a s))"

section \<open>The allocator\<close>

text \<open>The globals: the kernel's state, \<open>TCMalloc_SystemTaken\<close> and \<open>system_alloc_inited\<close>.\<close>

record 'os sys =
  os :: 'os
  SystemTaken :: nat
  system_alloc_inited :: bool

text \<open>Result: the pointer, \<open>*actual_size\<close> and the kernel's state.\<close>

definition VirtualSysAllocator_Alloc :: "'os OS \<Rightarrow> nat \<Rightarrow> nat \<Rightarrow> 'os \<Rightarrow> (addr \<times> nat \<times> 'os) option" where
  "VirtualSysAllocator_Alloc E sz alignment s =
     (let pagesize = os_pagesize E;
          alignment = (if alignment < pagesize then pagesize else alignment);
          sz = ((sz + alignment - 1) mod 2 ^ 64 div alignment * alignment) mod 2 ^ 64;
          actual_size = sz
      in do {
        CHECK (alignment \<le> pagesize);
        let (result, s) = os_reserve E sz s in
        if result = 0 then Some (0, actual_size, s)
        else do {
          CHECK (result AND (alignment - 1) = 0);
          Some (result, actual_size, s) } })"

definition InitSystemAllocators :: "'os sys \<Rightarrow> 'os sys" where
  "InitSystemAllocators st = st"

text \<open>\<open>report\<close> tells whether the caller passes a non-null \<open>actual_size\<close>.\<close>

definition TCMalloc_SystemAlloc :: "'os OS \<Rightarrow> nat \<Rightarrow> bool \<Rightarrow> nat \<Rightarrow> 'os sys \<Rightarrow> (addr \<times> nat \<times> 'os sys) option" where
  "TCMalloc_SystemAlloc E sz report alignment st =
     (let st = (if \<not> system_alloc_inited st then (InitSystemAllocators st)\<lparr>system_alloc_inited := True\<rparr> else st)
      in do {
        (result, actual_size, s) \<leftarrow> VirtualSysAllocator_Alloc E sz alignment (os st);
        let st = st\<lparr>os := s\<rparr> in
        if result \<noteq> 0 then
          Some (result, actual_size,
            st\<lparr>SystemTaken := (SystemTaken st + (if report then actual_size else sz)) mod 2 ^ 64\<rparr>)
        else Some (result, actual_size, st) })"

text \<open>The two loops over the regions between \<open>ptr\<close> and \<open>end\<close>.\<close>

partial_function (option) release_regions :: "'os OS \<Rightarrow> addr \<Rightarrow> addr \<Rightarrow> 'os \<Rightarrow> 'os option" where
  [code]: "release_regions E ptr end1 s =
     (if ptr < end1 then
        let (resultSize, RegionSize) = os_query E ptr s in do {
          CHECK (resultSize = sizeof_info);
          let decommitSize = min RegionSize (end1 - ptr);
              (success, s) = os_decommit E ptr decommitSize s in do {
            CHECK success;
            release_regions E (ptr + decommitSize) end1 s } }
      else Some s)"

definition TCMalloc_SystemRelease :: "'os OS \<Rightarrow> addr \<Rightarrow> nat \<Rightarrow> 'os sys \<Rightarrow> (bool \<times> 'os sys) option" where
  "TCMalloc_SystemRelease E start len st =
     (let (ok, s) = os_decommit E start len (os st) in
      if ok then Some (True, st\<lparr>os := s\<rparr>)
      else do {
        s \<leftarrow> release_regions E start (start + len) s;
        Some (True, st\<lparr>os := s\<rparr>) })"

partial_function (option) commit_regions :: "'os OS \<Rightarrow> addr \<Rightarrow> addr \<Rightarrow> 'os \<Rightarrow> 'os option" where
  [code]: "commit_regions E ptr end1 s =
     (if ptr < end1 then
        let (resultSize, RegionSize) = os_query E ptr s in do {
          CHECK (resultSize = sizeof_info);
          let commitSize = min RegionSize (end1 - ptr);
              (newAddress, s) = os_commit E ptr commitSize s in do {
            CHECK (newAddress = ptr);
            commit_regions E (ptr + commitSize) end1 s } }
      else Some s)"

definition TCMalloc_SystemCommit :: "'os OS \<Rightarrow> addr \<Rightarrow> nat \<Rightarrow> 'os sys \<Rightarrow> 'os sys option" where
  "TCMalloc_SystemCommit E start len st =
     (let (a, s) = os_commit E start len (os st) in
      if a = start then Some (st\<lparr>os := s\<rparr>)
      else do {
        s \<leftarrow> commit_regions E start (start + len) s;
        Some (st\<lparr>os := s\<rparr>) })"

section \<open>What the contract gives\<close>

lemma os_contract_pagesize:
  assumes "os_contract E res"
  obtains k where "13 \<le> k" "k \<le> 30" "os_pagesize E = 2 ^ k"
  using assms unfolding os_contract_def by blast

lemma os_contract_reserve:
  assumes "os_contract E res" "os_pagesize E dvd sz" "os_reserve E sz s = (a, s')"
  shows "(a = 0 \<and> res s' = res s) \<or>
    (0 < a \<and> 0 < sz \<and> os_pagesize E dvd a \<and> a + sz \<le> 2 ^ 47 \<and> extent a sz \<inter> res s = {} \<and>
     res s' = res s \<union> extent a sz)"
  using assms(2,3) assms(1) [unfolded os_contract_def] unfolding os_reserve_ok_def by blast

lemma os_contract_res:
  "os_contract E res \<Longrightarrow> res (snd (os_commit E a n s)) = res s"
  "os_contract E res \<Longrightarrow> res (snd (os_decommit E a n s)) = res s"
  by (simp_all add: os_contract_def)

lemma os_contract_region:
  assumes "os_contract E res" "a \<in> res s"
  obtains r where "0 < r" "os_query E a s = (sizeof_info, r)"
    "\<And>n. 0 < n \<Longrightarrow> n \<le> r \<Longrightarrow> fst (os_commit E a n s) = a \<and> fst (os_decommit E a n s)"
proof -
  have "os_region_ok E a s" using assms by (simp add: os_contract_def)
  then show thesis using that unfolding os_region_ok_def by blast
qed

lemma round_up_spec:
  assumes "0 < (a::nat)" "a \<le> 2 ^ 30" "sz < 2 ^ 64" "a dvd 2 ^ 64"
  defines "r \<equiv> ((sz + a - 1) mod 2 ^ 64 div a * a) mod 2 ^ 64"
  shows "a dvd r" "r \<noteq> 0 \<Longrightarrow> sz \<le> r \<and> r < sz + a"
proof -
  let ?t = "(sz + a - 1) mod 2 ^ 64"
  have "?t div a * a \<le> ?t" by (simp add: div_times_less_eq_dividend)
  also have "?t < 2 ^ 64" by simp
  finally have r: "r = ?t div a * a" by (simp add: r_def)
  then show "a dvd r" by simp
  assume "r \<noteq> 0"
  show "sz \<le> r \<and> r < sz + a"
  proof (cases "sz + a - 1 < 2 ^ 64")
    case True
    then have t: "?t = sz + a - 1" by simp
    have "r + ?t mod a = sz + a - 1" using t by (simp only: r div_mult_mod_eq)
    moreover have "?t mod a < a" using assms(1) by simp
    ultimately show ?thesis using assms(1) by linarith
  next
    case False
    then have "?t = sz + a - 1 - 2 ^ 64" using assms(2,3) by (simp add: le_mod_geq)
    then have "?t < a" using assms(1,3) by linarith
    then have "r = 0" by (simp add: r)
    with \<open>r \<noteq> 0\<close> show ?thesis by simp
  qed
qed

lemma VirtualSysAllocator_Alloc_spec:
  assumes C: "os_contract E res" and al: "alignment \<le> os_pagesize E" and sz: "sz < 2 ^ 64"
  shows "\<exists>a n s'. VirtualSysAllocator_Alloc E sz alignment s = Some (a, n, s') \<and>
    (a = 0 \<and> res s' = res s \<or>
     0 < a \<and> 0 < n \<and> os_pagesize E dvd a \<and> os_pagesize E dvd n \<and> sz \<le> n \<and> n < sz + os_pagesize E \<and>
     a + n \<le> 2 ^ 47 \<and> extent a n \<inter> res s = {} \<and> res s' = res s \<union> extent a n)"
proof -
  obtain k where k: "13 \<le> k" "k \<le> 30" "os_pagesize E = 2 ^ k" using os_contract_pagesize [OF C] .
  let ?a = "os_pagesize E"
  have a: "(if alignment < ?a then ?a else alignment) = ?a" using al by simp
  have le: "?a \<le> 2 ^ 30" unfolding k(3) by (rule power_increasing [OF k(2)]) simp
  have dv: "?a dvd 2 ^ 64" unfolding k(3) by (rule le_imp_power_dvd) (use k(2) in simp)
  have pos: "0 < ?a" by (simp add: k(3))
  define n where "n = ((sz + ?a - 1) mod 2 ^ 64 div ?a * ?a) mod 2 ^ 64"
  have n: "?a dvd n" "n \<noteq> 0 \<Longrightarrow> sz \<le> n \<and> n < sz + ?a"
    unfolding n_def using round_up_spec [OF pos le sz dv] by auto
  obtain p s' where p: "os_reserve E n s = (p, s')" by (cases "os_reserve E n s")
  from os_contract_reserve [OF C n(1) p] show ?thesis
  proof (elim disjE conjE)
    assume "p = 0" "res s' = res s"
    then show ?thesis using p by (simp add: VirtualSysAllocator_Alloc_def a n_def Let_def)
  next
    assume h: "0 < p" "0 < n" "?a dvd p" "p + n \<le> 2 ^ 47" "extent p n \<inter> res s = {}"
      "res s' = res s \<union> extent p n"
    have "p AND (?a - 1) = 0"
      using h(3) unfolding k(3) mask_eq_exp_minus_1 [symmetric] take_bit_eq_mask [symmetric]
      by (simp add: take_bit_eq_mod)
    then have "VirtualSysAllocator_Alloc E sz alignment s = Some (p, n, s')"
      using p h(1) by (simp add: VirtualSysAllocator_Alloc_def a n_def Let_def)
    with h n show ?thesis by auto
  qed
qed

text \<open>\<open>TCMalloc_SystemTaken\<close> never exceeds what is reserved, so its sum does not wrap.\<close>

definition sys_inv :: "('os \<Rightarrow> nat set) \<Rightarrow> 'os sys \<Rightarrow> bool" where
  "sys_inv res st = (res (os st) \<subseteq> {..<2 ^ 47} \<and> SystemTaken st \<le> card (res (os st)))"

lemma TCMalloc_SystemAlloc_spec:
  assumes C: "os_contract E res" and al: "alignment \<le> os_pagesize E" and sz: "sz < 2 ^ 64"
    and I: "sys_inv res st"
  shows "\<exists>a n st'. TCMalloc_SystemAlloc E sz report alignment st = Some (a, n, st') \<and> sys_inv res st' \<and>
    (a = 0 \<and> res (os st') = res (os st) \<and> SystemTaken st' = SystemTaken st \<or>
     0 < a \<and> 0 < n \<and> os_pagesize E dvd a \<and> os_pagesize E dvd n \<and> sz \<le> n \<and> n < sz + os_pagesize E \<and>
     a + n \<le> 2 ^ 47 \<and> extent a n \<inter> res (os st) = {} \<and> res (os st') = res (os st) \<union> extent a n \<and>
     SystemTaken st' = SystemTaken st + (if report then n else sz))"
proof -
  obtain a n s' where r: "VirtualSysAllocator_Alloc E sz alignment (os st) = Some (a, n, s')"
    "a = 0 \<and> res s' = res (os st) \<or>
     0 < a \<and> 0 < n \<and> os_pagesize E dvd a \<and> os_pagesize E dvd n \<and> sz \<le> n \<and> n < sz + os_pagesize E \<and>
     a + n \<le> 2 ^ 47 \<and> extent a n \<inter> res (os st) = {} \<and> res s' = res (os st) \<union> extent a n"
    using VirtualSysAllocator_Alloc_spec [OF C al sz] by blast
  have sub: "res (os st) \<subseteq> {..<2 ^ 47}" and tk: "SystemTaken st \<le> card (res (os st))"
    using I by (auto simp: sys_inv_def)
  let ?st = "if \<not> system_alloc_inited st then (InitSystemAllocators st)\<lparr>system_alloc_inited := True\<rparr> else st"
  have st: "os ?st = os st" "SystemTaken ?st = SystemTaken st" by (simp_all add: InitSystemAllocators_def)
  show ?thesis
  proof (cases "a = 0")
    case True
    with r(2) have "res s' = res (os st)" by auto
    with True r(1) st sub tk show ?thesis
      by (intro exI [of _ a] exI [of _ n] exI [of _ "?st\<lparr>os := s'\<rparr>"])
        (simp add: TCMalloc_SystemAlloc_def Let_def sys_inv_def)
  next
    case False
    with r(2) have h: "sz \<le> n" "a + n \<le> 2 ^ 47" "extent a n \<inter> res (os st) = {}"
      "res s' = res (os st) \<union> extent a n" by auto
    let ?t = "SystemTaken st + (if report then n else sz)"
    have fin: "finite (res (os st))" using sub finite_subset by blast
    have card: "card (res s') = card (res (os st)) + n"
      unfolding h(4) using fin h(3) by (subst card_Un_disjoint) auto
    have sub': "res s' \<subseteq> {..<2 ^ 47}" using sub h(2,4) by auto
    have le: "?t \<le> card (res s')" using tk h(1) card by auto
    also have "\<dots> \<le> card {..<(2::nat) ^ 47}" by (rule card_mono [OF _ sub']) simp
    finally have "?t < 2 ^ 64" by simp
    then have nw: "?t mod 2 ^ 64 = ?t" by simp
    have "TCMalloc_SystemAlloc E sz report alignment st = Some (a, n, ?st\<lparr>os := s', SystemTaken := ?t\<rparr>)"
      using False r(1) st nw by (simp add: TCMalloc_SystemAlloc_def Let_def)
    moreover have "sys_inv res (?st\<lparr>os := s', SystemTaken := ?t\<rparr>)"
      using le sub' by (simp add: sys_inv_def)
    ultimately show ?thesis using r(2) False
      by (intro exI [of _ a] exI [of _ n] exI [of _ "?st\<lparr>os := s', SystemTaken := ?t\<rparr>"]) simp
  qed
qed

lemma release_regions_spec:
  assumes C: "os_contract E res"
  shows "{ptr..<end1} \<subseteq> res s \<Longrightarrow> \<exists>s'. release_regions E ptr end1 s = Some s' \<and> res s' = res s"
proof (induction "end1 - ptr" arbitrary: ptr s rule: less_induct)
  case less
  show ?case
  proof (cases "ptr < end1")
    case True
    with less.prems have "ptr \<in> res s" by auto
    from os_contract_region [OF C this] obtain r where r: "0 < r" "os_query E ptr s = (sizeof_info, r)"
      "\<And>n. 0 < n \<Longrightarrow> n \<le> r \<Longrightarrow> fst (os_commit E ptr n s) = ptr \<and> fst (os_decommit E ptr n s)" by blast
    let ?n = "min r (end1 - ptr)"
    have n: "0 < ?n" "?n \<le> r" using r(1) True by auto
    obtain s1 where s1: "os_decommit E ptr ?n s = (True, s1)"
      using r(3) [OF n] by (metis fst_conv surj_pair)
    have res1: "res s1 = res s" using os_contract_res(2) [OF C, of ptr ?n s] s1 by simp
    have "\<exists>s'. release_regions E (ptr + ?n) end1 s1 = Some s' \<and> res s' = res s1"
      by (rule less.hyps) (use True n res1 less.prems in auto)
    then show ?thesis
      using True r(2) s1 res1 by (subst release_regions.simps) simp
  qed (simp add: release_regions.simps)
qed

lemma commit_regions_spec:
  assumes C: "os_contract E res"
  shows "{ptr..<end1} \<subseteq> res s \<Longrightarrow> \<exists>s'. commit_regions E ptr end1 s = Some s' \<and> res s' = res s"
proof (induction "end1 - ptr" arbitrary: ptr s rule: less_induct)
  case less
  show ?case
  proof (cases "ptr < end1")
    case True
    with less.prems have "ptr \<in> res s" by auto
    from os_contract_region [OF C this] obtain r where r: "0 < r" "os_query E ptr s = (sizeof_info, r)"
      "\<And>n. 0 < n \<Longrightarrow> n \<le> r \<Longrightarrow> fst (os_commit E ptr n s) = ptr \<and> fst (os_decommit E ptr n s)" by blast
    let ?n = "min r (end1 - ptr)"
    have n: "0 < ?n" "?n \<le> r" using r(1) True by auto
    obtain s1 where s1: "os_commit E ptr ?n s = (ptr, s1)"
      using r(3) [OF n] by (metis fst_conv surj_pair)
    have res1: "res s1 = res s" using os_contract_res(1) [OF C, of ptr ?n s] s1 by simp
    have "\<exists>s'. commit_regions E (ptr + ?n) end1 s1 = Some s' \<and> res s' = res s1"
      by (rule less.hyps) (use True n res1 less.prems in auto)
    then show ?thesis
      using True r(2) s1 res1 by (subst commit_regions.simps) simp
  qed (simp add: commit_regions.simps)
qed

lemma TCMalloc_SystemRelease_spec:
  assumes C: "os_contract E res" and R: "extent start len \<subseteq> res (os st)"
  shows "\<exists>s. TCMalloc_SystemRelease E start len st = Some (True, st\<lparr>os := s\<rparr>) \<and> res s = res (os st)"
proof -
  obtain ok s where d: "os_decommit E start len (os st) = (ok, s)" by (cases "os_decommit E start len (os st)")
  then have r: "res s = res (os st)" using os_contract_res(2) [OF C, of start len "os st"] by simp
  then obtain s' where "release_regions E start (start + len) s = Some s'" "res s' = res s"
    using release_regions_spec [OF C, of start "start + len" s] R by (auto simp: extent_def)
  with d r show ?thesis by (cases ok) (auto simp: TCMalloc_SystemRelease_def)
qed

lemma TCMalloc_SystemCommit_spec:
  assumes C: "os_contract E res" and R: "extent start len \<subseteq> res (os st)"
  shows "\<exists>s. TCMalloc_SystemCommit E start len st = Some (st\<lparr>os := s\<rparr>) \<and> res s = res (os st)"
proof -
  obtain a s where d: "os_commit E start len (os st) = (a, s)" by (cases "os_commit E start len (os st)")
  then have r: "res s = res (os st)" using os_contract_res(1) [OF C, of start len "os st"] by simp
  then obtain s' where "commit_regions E start (start + len) s = Some s'" "res s' = res s"
    using commit_regions_spec [OF C, of start "start + len" s] R by (auto simp: extent_def)
  with d r show ?thesis by (cases "a = start") (auto simp: TCMalloc_SystemCommit_def)
qed

section \<open>A kernel that satisfies the contract\<close>

text \<open>Used to instantiate the contract: reservations in units of 64 KiB from a bump pointer, up to
  \<open>limit\<close>; the state counts the units handed out.\<close>

definition bump_os :: "nat \<Rightarrow> nat OS" where
  "bump_os limit = \<lparr>os_pagesize = 2 ^ 16,
     os_reserve = (\<lambda>sz s. if 0 < sz \<and> (s + 1) * 2 ^ 16 + sz \<le> limit
       then ((s + 1) * 2 ^ 16, s + sz div 2 ^ 16) else (0, s)),
     os_commit = (\<lambda>a n s. (a, s)), os_decommit = (\<lambda>a n s. (True, s)),
     os_query = (\<lambda>a s. (sizeof_info, 2 ^ 16))\<rparr>"

definition bump_res :: "nat \<Rightarrow> nat \<Rightarrow> nat set" where
  "bump_res limit s = {2 ^ 16..<min limit ((s + 1) * 2 ^ 16)}"

lemma bump_os_contract: "limit \<le> 2 ^ 47 \<Longrightarrow> os_contract (bump_os limit) (bump_res limit)"
proof -
  assume L: "limit \<le> 2 ^ 47"
  have "os_reserve_ok (bump_os limit) (bump_res limit)"
    unfolding os_reserve_ok_def
  proof (intro allI impI)
    fix sz s a s' :: nat
    assume "os_pagesize (bump_os limit) dvd sz" and r: "os_reserve (bump_os limit) sz s = (a, s')"
    then obtain k where k: "sz = 2 ^ 16 * k" by (auto simp: bump_os_def)
    show "(a = 0 \<and> bump_res limit s' = bump_res limit s) \<or>
     (0 < a \<and> 0 < sz \<and> os_pagesize (bump_os limit) dvd a \<and> a + sz \<le> 2 ^ 47 \<and> extent a sz \<inter> bump_res limit s = {} \<and>
      bump_res limit s' = bump_res limit s \<union> extent a sz)"
    proof (cases "0 < sz \<and> (s + 1) * 2 ^ 16 + sz \<le> limit")
      case True
      with r k have as: "a = (s + 1) * 2 ^ 16" "s' = s + k" by (auto simp: bump_os_def)
      have "bump_res limit s' = bump_res limit s \<union> extent a sz" using True unfolding bump_res_def as k by (auto simp: extent_def min_def)
      moreover have "extent a sz \<inter> bump_res limit s = {}" unfolding bump_res_def as by (auto simp: extent_def min_def)
      moreover have "a + sz \<le> 2 ^ 47" using True L as by linarith
      moreover have "os_pagesize (bump_os limit) dvd a" by (simp add: as bump_os_def)
      ultimately show ?thesis using True as by simp
    next
      case False
      with r show ?thesis by (auto simp: bump_os_def split: if_splits)
    qed
  qed
  moreover have "os_region_ok (bump_os limit) a s" for a s
    unfolding os_region_ok_def by (intro exI [of _ "2 ^ 16"]) (simp add: bump_os_def)
  ultimately show ?thesis
    unfolding os_contract_def by (intro conjI exI [of _ 16]) (auto simp: bump_os_def)
qed

end
