(* ===== verification/Meta_Alloc.thy ===== *)
theory Meta_Alloc
  imports System_Alloc
begin

text \<open>
  Memory for the allocator's own data: \<open>MetaDataAlloc\<close> (\<open>common.cc\<close>), which carves
  chunks taken from the system, and \<open>PageHeapAllocator\<close> (\<open>page_heap_allocator.h\<close>), the
  free-list allocator for objects of one type that is built on it. The locale
  \<open>object_allocator\<close> is the interface its clients rely on. Running out of memory while
  allocating internal data is a \<open>Log(kCrash, ...)\<close> of its own in the code; it is the value
  \<open>OutOfMemory\<close> here, apart from the failed assertions.
\<close>

section \<open>MetaDataAlloc\<close>

definition kMetadataAllocChunkSize :: nat where "kMetadataAllocChunkSize = 8 * 1024 * 1024"
definition kMetadataAllignment :: nat where "kMetadataAllignment = 8"

record 'os meta =
  sysm :: "'os sys"
  metadata_system_bytes :: nat
  metadata_chunk_alloc :: addr
  metadata_chunk_avail :: nat

text \<open>The end of the function: take \<open>bytes\<close> after \<open>alignment\<close> bytes of the current chunk.\<close>

definition MetaData_take :: "nat \<Rightarrow> nat \<Rightarrow> 'os meta \<Rightarrow> addr \<times> 'os meta" where
  "MetaData_take bytes alignment m =
     (let rv = metadata_chunk_alloc m + alignment;
          bytes = bytes + alignment
      in (rv, m\<lparr>metadata_chunk_alloc := metadata_chunk_alloc m + bytes,
                metadata_chunk_avail := metadata_chunk_avail m - bytes,
                metadata_system_bytes := (metadata_system_bytes m + bytes) mod 2 ^ 64\<rparr>))"

definition MetaDataAlloc :: "'os OS \<Rightarrow> nat \<Rightarrow> 'os meta \<Rightarrow> (addr \<times> 'os meta) option" where
  "MetaDataAlloc E bytes m =
     (if bytes \<ge> kMetadataAllocChunkSize then do {
        (rv, _, s) \<leftarrow> TCMalloc_SystemAlloc E bytes False kMetadataAllignment (sysm m);
        let m = m\<lparr>sysm := s\<rparr> in
        Some (rv, if rv \<noteq> 0 then m\<lparr>metadata_system_bytes := (metadata_system_bytes m + bytes) mod 2 ^ 64\<rparr> else m) }
      else
        let alignment = nat ((- int (metadata_chunk_alloc m)) AND int (kMetadataAllignment - 1)) in
        if metadata_chunk_avail m < bytes + alignment then do {
          (ptr, real_size, s) \<leftarrow> TCMalloc_SystemAlloc E kMetadataAllocChunkSize True kMetadataAllignment (sysm m);
          let m = m\<lparr>sysm := s\<rparr> in
          if ptr = 0 then Some (0, m)
          else Some (MetaData_take bytes 0
            (m\<lparr>metadata_chunk_alloc := ptr, metadata_chunk_avail := real_size\<rparr>)) }
        else Some (MetaData_take bytes alignment m))"

text \<open>\<open>meta_inv res m X\<close>: the addresses \<open>X\<close> are reserved and in use; what is left of the current
  chunk is reserved and not in use.\<close>

definition meta_inv :: "('os \<Rightarrow> nat set) \<Rightarrow> 'os meta \<Rightarrow> nat set \<Rightarrow> bool" where
  "meta_inv res m X =
     (sys_inv res (sysm m) \<and> X \<subseteq> res (os (sysm m)) \<and>
      extent (metadata_chunk_alloc m) (metadata_chunk_avail m) \<subseteq> res (os (sysm m)) - X \<and>
      (0 < metadata_chunk_avail m \<longrightarrow> 0 < metadata_chunk_alloc m))"

lemma meta_inv_mono: "meta_inv res m X \<Longrightarrow> Y \<subseteq> X \<Longrightarrow> meta_inv res m Y"
  by (auto simp: meta_inv_def)

lemma meta_inv_res: "meta_inv res m X \<Longrightarrow> X \<subseteq> res (os (sysm m))"
  by (simp add: meta_inv_def)

text \<open>A kernel call that reserves nothing leaves the invariant.\<close>

lemma meta_inv_same_res:
  "meta_inv res m X \<Longrightarrow> sysm m' = (sysm m)\<lparr>os := s\<rparr> \<Longrightarrow> res s = res (os (sysm m)) \<Longrightarrow>
   metadata_chunk_alloc m' = metadata_chunk_alloc m \<Longrightarrow> metadata_chunk_avail m' = metadata_chunk_avail m \<Longrightarrow>
   meta_inv res m' X"
  by (simp add: meta_inv_def sys_inv_def)

lemma MetaData_take_spec:
  assumes I: "meta_inv res m X" and b: "0 < bytes" "bytes + al \<le> metadata_chunk_avail m"
  shows "\<exists>a m'. MetaData_take bytes al m = (a, m') \<and> a = metadata_chunk_alloc m + al \<and> a \<noteq> 0 \<and>
    extent a bytes \<inter> X = {} \<and> meta_inv res m' (X \<union> extent a bytes) \<and> sysm m' = sysm m"
proof -
  let ?c = "metadata_chunk_alloc m" and ?n = "metadata_chunk_avail m" and ?R = "res (os (sysm m))"
  define rest where "rest = ?n - (bytes + al)"
  have I': "sys_inv res (sysm m)" "X \<subseteq> ?R" "extent ?c ?n \<subseteq> ?R - X" "0 < ?c"
    using I b by (auto simp: meta_inv_def)
  have n: "?n = al + (bytes + rest)" using b by (simp add: rest_def)
  have parts: "extent ?c ?n = extent ?c al \<union> (extent (?c + al) bytes \<union> extent (?c + (bytes + al)) rest)"
    unfolding n extent_add by (simp add: add_ac)
  have ap: "extent (?c + al) bytes \<inter> extent (?c + (bytes + al)) rest = {}" by (rule extent_apart) simp
  let ?m = "m\<lparr>metadata_chunk_alloc := ?c + (bytes + al), metadata_chunk_avail := rest,
      metadata_system_bytes := (metadata_system_bytes m + (bytes + al)) mod 2 ^ 64\<rparr>"
  have "MetaData_take bytes al m = (?c + al, ?m)"
    by (simp add: MetaData_take_def rest_def Let_def)
  moreover have "extent (?c + al) bytes \<inter> X = {}" using I'(3) parts by blast
  moreover have "extent (?c + (bytes + al)) rest \<subseteq> ?R - (X \<union> extent (?c + al) bytes)"
    using I'(3) ap parts by blast
  then have "meta_inv res ?m (X \<union> extent (?c + al) bytes)"
    using I' parts by (auto simp: meta_inv_def simp del: mem_extent)
  ultimately show ?thesis using I'(4) by auto
qed

lemma MetaDataAlloc_spec:
  assumes C: "os_contract E res" and I: "meta_inv res m X" and b: "0 < bytes" "bytes < 2 ^ 64"
  shows "\<exists>a m'. MetaDataAlloc E bytes m = Some (a, m') \<and> SystemTaken (sysm m) \<le> SystemTaken (sysm m') \<and>
    (a = 0 \<and> meta_inv res m' X \<or>
     a \<noteq> 0 \<and> extent a bytes \<inter> X = {} \<and> meta_inv res m' (X \<union> extent a bytes))"
proof -
  obtain k where k: "13 \<le> k" "os_pagesize E = 2 ^ k" using os_contract_pagesize [OF C] .
  have "(2::nat) ^ 3 \<le> 2 ^ k" by (rule power_increasing) (use k in auto)
  then have al: "kMetadataAllignment \<le> os_pagesize E" by (simp add: kMetadataAllignment_def k(2))
  have I': "sys_inv res (sysm m)" "X \<subseteq> res (os (sysm m))"
    "extent (metadata_chunk_alloc m) (metadata_chunk_avail m) \<subseteq> res (os (sysm m)) - X"
    using I by (auto simp: meta_inv_def)
  show ?thesis
  proof (cases "bytes \<ge> kMetadataAllocChunkSize")
    case True
    obtain a n st' where r: "TCMalloc_SystemAlloc E bytes False kMetadataAllignment (sysm m) = Some (a, n, st')"
      "sys_inv res st'"
      "a = 0 \<and> res (os st') = res (os (sysm m)) \<and> SystemTaken st' = SystemTaken (sysm m) \<or>
       0 < a \<and> bytes \<le> n \<and> extent a n \<inter> res (os (sysm m)) = {} \<and>
       res (os st') = res (os (sysm m)) \<union> extent a n \<and> SystemTaken st' = SystemTaken (sysm m) + bytes"
      using TCMalloc_SystemAlloc_spec [OF C al b(2) I'(1), of False] by auto
    from r(3) show ?thesis
    proof (elim disjE conjE)
      assume "a = 0" "res (os st') = res (os (sysm m))" "SystemTaken st' = SystemTaken (sysm m)"
      with r I True show ?thesis
        by (simp add: MetaDataAlloc_def Let_def meta_inv_def)
    next
      assume h: "0 < a" "bytes \<le> n" "extent a n \<inter> res (os (sysm m)) = {}"
        "res (os st') = res (os (sysm m)) \<union> extent a n" "SystemTaken st' = SystemTaken (sysm m) + bytes"
      have sub: "extent a bytes \<subseteq> extent a n" using h(2) by auto
      with h(3) I'(2) have "extent a bytes \<inter> X = {}" by blast
      moreover have "extent (metadata_chunk_alloc m) (metadata_chunk_avail m) \<inter> extent a bytes = {}"
        using I'(3) h(3) sub by blast
      moreover have "extent a bytes \<subseteq> res (os st')" using h(4) sub by blast
      ultimately show ?thesis using r(1,2) I h True
        by (simp add: MetaDataAlloc_def Let_def meta_inv_def) blast
    qed
  next
    case False
    define align where "align = nat ((- int (metadata_chunk_alloc m)) AND int (kMetadataAllignment - 1))"
    show ?thesis
    proof (cases "metadata_chunk_avail m < bytes + align")
      case True
      have sz: "kMetadataAllocChunkSize < 2 ^ 64" by (simp add: kMetadataAllocChunkSize_def)
      obtain a n st' where r: "TCMalloc_SystemAlloc E kMetadataAllocChunkSize True kMetadataAllignment (sysm m) = Some (a, n, st')"
        "sys_inv res st'"
        "a = 0 \<and> res (os st') = res (os (sysm m)) \<and> SystemTaken st' = SystemTaken (sysm m) \<or>
         0 < a \<and> kMetadataAllocChunkSize \<le> n \<and> extent a n \<inter> res (os (sysm m)) = {} \<and>
         res (os st') = res (os (sysm m)) \<union> extent a n \<and> SystemTaken st' = SystemTaken (sysm m) + n"
        using TCMalloc_SystemAlloc_spec [OF C al sz I'(1), of True] by auto
      from r(3) show ?thesis
      proof (elim disjE conjE)
        assume "a = 0" "res (os st') = res (os (sysm m))" "SystemTaken st' = SystemTaken (sysm m)"
        with r I True False align_def show ?thesis
          by (simp add: MetaDataAlloc_def Let_def meta_inv_def)
      next
        assume h: "0 < a" "kMetadataAllocChunkSize \<le> n" "extent a n \<inter> res (os (sysm m)) = {}"
          "res (os st') = res (os (sysm m)) \<union> extent a n" "SystemTaken st' = SystemTaken (sysm m) + n"
        let ?m = "m\<lparr>sysm := st', metadata_chunk_alloc := a, metadata_chunk_avail := n\<rparr>"
        have "meta_inv res ?m X" using r(2) h I'(2) by (auto simp: meta_inv_def)
        moreover have "bytes + 0 \<le> metadata_chunk_avail ?m" using False h(2) by simp
        ultimately obtain m' where
          "MetaData_take bytes 0 ?m = (a, m')" "extent a bytes \<inter> X = {}"
          "meta_inv res m' (X \<union> extent a bytes)" "sysm m' = st'"
          using MetaData_take_spec [of res ?m X bytes 0] b(1) by auto
        then show ?thesis using r(1) h True False align_def
          by (simp add: MetaDataAlloc_def Let_def)
      qed
    next
      case False2: False
      with MetaData_take_spec [OF I b(1), of align] obtain a m' where
        "MetaData_take bytes align m = (a, m')" "a \<noteq> 0" "extent a bytes \<inter> X = {}"
        "meta_inv res m' (X \<union> extent a bytes)" "sysm m' = sysm m"
        by auto
      then show ?thesis using False False2 align_def
        by (simp add: MetaDataAlloc_def Let_def)
    qed
  qed
qed

section \<open>PageHeapAllocator\<close>

datatype 'a outcome = OutOfMemory | Ret 'a

definition kAllocIncrement :: nat where "kAllocIncrement = 128 * 2 ^ 10"

text \<open>\<open>links\<close> is the first word of the objects the allocator manages, where a free object keeps
  the address of the next one.\<close>

record pha =
  free_area :: addr
  free_avail :: nat
  free_list :: addr
  inuse :: int
  links :: mem

text \<open>The argument \<open>sz\<close> is \<open>sizeof(T)\<close>.\<close>

definition pha_carve :: "nat \<Rightarrow> 'os meta \<times> pha \<Rightarrow> addr \<times> 'os meta \<times> pha" where
  "pha_carve sz s = (let (m, a) = s in
     (free_area a, m, a\<lparr>free_area := free_area a + sz, free_avail := free_avail a - sz, inuse := inuse a + 1\<rparr>))"

definition PageHeapAllocator_New ::
    "'os OS \<Rightarrow> nat \<Rightarrow> 'os meta \<times> pha \<Rightarrow> (addr \<times> 'os meta \<times> pha) outcome option" where
  "PageHeapAllocator_New E sz s =
     (let (m, a) = s in
      if free_list a \<noteq> 0 then
        Some (Ret (free_list a, m, a\<lparr>free_list := links a (free_list a), inuse := inuse a + 1\<rparr>))
      else if free_avail a < sz then do {
        (area, m) \<leftarrow> MetaDataAlloc E kAllocIncrement m;
        if area = 0 then Some OutOfMemory
        else Some (Ret (pha_carve sz (m, a\<lparr>free_area := area, free_avail := kAllocIncrement\<rparr>))) }
      else Some (Ret (pha_carve sz (m, a))))"

definition PageHeapAllocator_Delete :: "'os meta \<times> pha \<Rightarrow> addr \<Rightarrow> ('os meta \<times> pha) option" where
  "PageHeapAllocator_Delete s p =
     (let (m, a) = s in do {
        links' \<leftarrow> SLL_SetNext (links a) p (free_list a);
        Some (m, a\<lparr>links := links', free_list := p, inuse := inuse a - 1\<rparr>) })"

definition PageHeapAllocator_Init ::
    "'os OS \<Rightarrow> nat \<Rightarrow> 'os meta \<times> pha \<Rightarrow> ('os meta \<times> pha) outcome option" where
  "PageHeapAllocator_Init E sz s =
     (let (m, a) = s in do {
        CHECK (sz \<le> kAllocIncrement);
        r \<leftarrow> PageHeapAllocator_New E sz (m, a\<lparr>inuse := 0, free_area := 0, free_avail := 0, free_list := 0\<rparr>);
        case r of
          OutOfMemory \<Rightarrow> Some OutOfMemory
        | Ret (p, s) \<Rightarrow> do { s \<leftarrow> PageHeapAllocator_Delete s p; Some (Ret s) } })"

section \<open>The interface of an object allocator\<close>

datatype request = Alloc | Free addr

text \<open>\<open>ok s U F\<close>: \<open>U\<close> are the objects handed out and not given back, \<open>F\<close> addresses in use for other
  purposes. An allocation never ends in a failed assertion.\<close>

locale object_allocator =
  fixes New :: "'s \<Rightarrow> (addr \<times> 's) outcome option"
    and Delete :: "'s \<Rightarrow> addr \<Rightarrow> 's option"
    and ok :: "'s \<Rightarrow> addr set \<Rightarrow> nat set \<Rightarrow> bool"
    and sz :: nat
  assumes New_ok: "ok s U F \<Longrightarrow> \<exists>r. New s = Some r \<and>
      (\<forall>p s'. r = Ret (p, s') \<longrightarrow> p \<noteq> 0 \<and> p \<notin> U \<and> ok s' (insert p U) F)"
    and Delete_ok: "ok s U F \<Longrightarrow> p \<in> U \<Longrightarrow> \<exists>s'. Delete s p = Some s' \<and> ok s' (U - {p}) F"
    and apart: "ok s U F \<Longrightarrow> p \<in> U \<Longrightarrow> q \<in> U \<Longrightarrow> p \<noteq> q \<Longrightarrow> extent p sz \<inter> extent q sz = {}"
    and apart_frame: "ok s U F \<Longrightarrow> p \<in> U \<Longrightarrow> extent p sz \<inter> F = {}"
begin

text \<open>The client: a sequence of allocations and deallocations.\<close>

fun serve :: "request list \<Rightarrow> 's \<Rightarrow> addr set \<Rightarrow> ('s \<times> addr set) outcome option" where
  "serve [] s U = Some (Ret (s, U))"
| "serve (Alloc # rs) s U = do {
     r \<leftarrow> New s;
     case r of OutOfMemory \<Rightarrow> Some OutOfMemory | Ret (p, s) \<Rightarrow> serve rs s (insert p U) }"
| "serve (Free p # rs) s U =
     (if p \<in> U then do { s \<leftarrow> Delete s p; serve rs s (U - {p}) } else serve rs s U)"

lemma serve_ok: "ok s U F \<Longrightarrow> \<exists>r. serve rs s U = Some r \<and> (\<forall>s' U'. r = Ret (s', U') \<longrightarrow> ok s' U' F)"
proof (induction rs arbitrary: s U)
  case (Cons req rs)
  show ?case
  proof (cases req)
    case Alloc
    from New_ok [OF Cons.prems] obtain r where r: "New s = Some r"
      "\<forall>p s'. r = Ret (p, s') \<longrightarrow> p \<noteq> 0 \<and> p \<notin> U \<and> ok s' (insert p U) F" by blast
    with Alloc Cons.IH show ?thesis by (cases r) auto
  next
    case (Free p)
    with Delete_ok [OF Cons.prems] Cons.IH Cons.prems show ?thesis by (cases "p \<in> U") fastforce+
  qed
qed auto

lemma serve_apart:
  assumes "ok s U F" "serve rs s U = Some (Ret (s', U'))" "p \<in> U'" "q \<in> U'" "p \<noteq> q"
  shows "extent p sz \<inter> extent q sz = {}" "extent p sz \<inter> F = {}"
  using serve_ok [OF assms(1), of rs] assms(2-5) apart apart_frame by fastforce+

end

section \<open>The allocator meets its interface\<close>

text \<open>The objects \<open>S\<close> of size \<open>sz\<close> lie in \<open>A\<close> and do not overlap.\<close>

definition objs_ok :: "nat \<Rightarrow> nat set \<Rightarrow> addr set \<Rightarrow> bool" where
  "objs_ok sz A S = ((\<forall>x\<in>S. x \<noteq> 0 \<and> extent x sz \<subseteq> A) \<and>
     (\<forall>x\<in>S. \<forall>y\<in>S. x \<noteq> y \<longrightarrow> extent x sz \<inter> extent y sz = {}))"

lemma objs_okD:
  assumes "objs_ok sz A S" "x \<in> S"
  shows "x \<noteq> 0" "extent x sz \<subseteq> A" "y \<in> S \<Longrightarrow> x \<noteq> y \<Longrightarrow> extent x sz \<inter> extent y sz = {}"
  using assms by (simp_all add: objs_ok_def)

lemma objs_okI:
  assumes "\<And>x. x \<in> S \<Longrightarrow> x \<noteq> 0" "\<And>x. x \<in> S \<Longrightarrow> extent x sz \<subseteq> A"
    and "\<And>x y. x \<in> S \<Longrightarrow> y \<in> S \<Longrightarrow> x \<noteq> y \<Longrightarrow> extent x sz \<inter> extent y sz = {}"
  shows "objs_ok sz A S"
  using assms by (simp add: objs_ok_def)

lemma objs_ok_mono: "objs_ok sz A S \<Longrightarrow> A \<subseteq> B \<Longrightarrow> objs_ok sz B S"
  by (rule objs_okI) (simp add: objs_okD(1), blast dest: objs_okD(2), simp add: objs_okD(3))

lemma objs_ok_subset: "objs_ok sz A S \<Longrightarrow> T \<subseteq> S \<Longrightarrow> objs_ok sz A T"
  by (rule objs_okI) (simp add: subsetD objs_okD(1), blast dest: objs_okD(2), simp add: subsetD objs_okD(3))

lemma objs_ok_insert:
  assumes "objs_ok sz A S" "x \<noteq> 0" "extent x sz \<inter> A = {}" "extent x sz \<subseteq> B" "A \<subseteq> B"
  shows "objs_ok sz B (insert x S)"
proof (rule objs_okI)
  have ap: "extent x sz \<inter> extent y sz = {}" if "y \<in> S" for y
    using objs_okD(2) [OF assms(1) that] assms(3) by blast
  fix u assume u: "u \<in> insert x S"
  then show "u \<noteq> 0" using objs_okD(1) [OF assms(1)] assms(2) by blast
  show "extent u sz \<subseteq> B"
  proof (cases "u = x")
    case False
    with u objs_okD(2) [OF assms(1), of u] assms(5) show ?thesis by blast
  qed (simp add: assms)
  fix v assume v: "v \<in> insert x S" "u \<noteq> v"
  show "extent u sz \<inter> extent v sz = {}"
  proof (cases "u = x \<or> v = x")
    case True
    then show ?thesis using u v ap by (metis Int_commute insertE)
  next
    case False
    then show ?thesis using u v objs_okD(3) [OF assms(1)] by blast
  qed
qed

lemma objs_ok_fresh:
  assumes "objs_ok sz A S" "0 < sz" "extent x sz \<inter> A = {}"
  shows "x \<notin> S"
proof
  assume "x \<in> S"
  then have "extent x sz \<subseteq> A" by (rule objs_okD(2) [OF assms(1)])
  moreover have "x \<in> extent x sz" using assms(2) by simp
  ultimately show False using assms(3) by blast
qed

text \<open>\<open>Own\<close> are the addresses of the chunks the allocator took; its objects, in use or on the free
  list, lie in \<open>Own\<close>, outside the area still to carve, and do not overlap.\<close>

definition pha_area :: "pha \<Rightarrow> nat set" where
  "pha_area a = extent (free_area a) (free_avail a)"

definition pha_inv :: "nat \<Rightarrow> pha \<Rightarrow> addr set \<Rightarrow> nat set \<Rightarrow> bool" where
  "pha_inv sz a U Own =
     (finite U \<and> inuse a = int (card U) \<and> pha_area a \<subseteq> Own \<and> (0 < free_avail a \<longrightarrow> 0 < free_area a) \<and>
      (\<exists>fl. sll (links a) (free_list a) fl \<and> set fl \<inter> U = {} \<and> objs_ok sz (Own - pha_area a) (U \<union> set fl)))"

lemma pha_invE:
  assumes "pha_inv sz a U Own"
  obtains fl where "sll (links a) (free_list a) fl" "set fl \<inter> U = {}" "objs_ok sz (Own - pha_area a) (U \<union> set fl)"
    and "finite U" "inuse a = int (card U)" "pha_area a \<subseteq> Own" "0 < free_avail a \<longrightarrow> 0 < free_area a"
  using assms unfolding pha_inv_def by (elim conjE exE) (rule that; assumption)

lemma pha_carve_inv:
  assumes I: "pha_inv sz a U Own" and f: "free_list a = 0" "sz \<le> free_avail a" "0 < sz"
  shows "\<exists>p a'. pha_carve sz (m, a) = (p, m, a') \<and> p \<noteq> 0 \<and> p \<notin> U \<and> pha_inv sz a' (insert p U) Own"
proof -
  let ?p = "free_area a"
  let ?a = "a\<lparr>free_area := ?p + sz, free_avail := free_avail a - sz, inuse := inuse a + 1\<rparr>"
  have U: "finite U" "inuse a = int (card U)" "pha_area a \<subseteq> Own" "0 < ?p" "objs_ok sz (Own - pha_area a) U"
    using I f by (auto simp: pha_inv_def)
  have "free_avail a = sz + (free_avail a - sz)" using f(2) by simp
  then have parts: "pha_area a = extent ?p sz \<union> pha_area ?a"
    unfolding pha_area_def by (simp flip: extent_add)
  have ap: "extent ?p sz \<inter> pha_area ?a = {}" unfolding pha_area_def by (simp add: extent_apart)
  have fresh: "?p \<notin> U"
    by (rule objs_ok_fresh [OF U(5) f(3)]) (use parts in blast)
  have "objs_ok sz (Own - pha_area ?a) (insert ?p U)"
    by (rule objs_ok_insert [OF U(5)]) (use U parts ap in auto)
  then have "pha_inv sz ?a (insert ?p U) Own"
    unfolding pha_inv_def using U parts fresh f(1)
    by (intro conjI exI [of _ "[]"]) (simp_all del: mem_extent)
  then show ?thesis using U(4) fresh by (simp add: pha_carve_def)
qed

lemma PageHeapAllocator_New_spec:
  assumes C: "os_contract E res" and M: "meta_inv res m (Own \<union> F)" and D: "Own \<inter> F = {}"
    and I: "pha_inv sz a U Own" and sz: "0 < sz" "sz \<le> kAllocIncrement"
  shows "\<exists>r. PageHeapAllocator_New E sz (m, a) = Some r \<and>
    (\<forall>p m' a'. r = Ret (p, m', a') \<longrightarrow> p \<noteq> 0 \<and> p \<notin> U \<and> SystemTaken (sysm m) \<le> SystemTaken (sysm m') \<and>
      (\<exists>Own'. Own \<subseteq> Own' \<and> Own' \<inter> F = {} \<and> meta_inv res m' (Own' \<union> F) \<and> pha_inv sz a' (insert p U) Own'))"
proof -
  from I obtain fl where fl: "sll (links a) (free_list a) fl" "set fl \<inter> U = {}" "objs_ok sz (Own - pha_area a) (U \<union> set fl)"
    and J: "finite U" "inuse a = int (card U)" "pha_area a \<subseteq> Own" "0 < free_avail a \<longrightarrow> 0 < free_area a"
    by (rule pha_invE)
  consider "free_list a \<noteq> 0" | "free_list a = 0" "free_avail a < sz" | "free_list a = 0" "sz \<le> free_avail a"
    by linarith
  then show ?thesis
  proof cases
    case 1
    let ?p = "free_list a" and ?a = "a\<lparr>free_list := links a (free_list a), inuse := inuse a + 1\<rparr>"
    obtain ys where ys: "fl = ?p # ys" "sll (links a) (links a ?p) ys" using sll_nonempty [OF 1 fl(1)] by blast
    have d: "?p \<notin> set ys" "?p \<notin> U" using sll_distinct [OF fl(1)] fl(2) ys(1) by auto
    have eq: "insert ?p U \<union> set ys = U \<union> set fl" by (auto simp: ys(1))
    have "pha_inv sz ?a (insert ?p U) Own"
      unfolding pha_inv_def
    proof (intro conjI exI [of _ ys])
      show "objs_ok sz (Own - pha_area ?a) (insert ?p U \<union> set ys)"
        unfolding eq using fl(3) by (simp add: pha_area_def)
    qed (use J fl(2) ys d in \<open>auto simp: pha_area_def\<close>)
    moreover have "PageHeapAllocator_New E sz (m, a) = Some (Ret (?p, m, ?a))"
      using 1 by (simp add: PageHeapAllocator_New_def)
    ultimately show ?thesis using 1 d(2) M D by auto
  next
    case 2
    have "0 < kAllocIncrement" "kAllocIncrement < 2 ^ 64" by (simp_all add: kAllocIncrement_def)
    from MetaDataAlloc_spec [OF C M this] obtain ar m' where r: "MetaDataAlloc E kAllocIncrement m = Some (ar, m')"
      "SystemTaken (sysm m) \<le> SystemTaken (sysm m')"
      "ar = 0 \<and> meta_inv res m' (Own \<union> F) \<or>
       ar \<noteq> 0 \<and> extent ar kAllocIncrement \<inter> (Own \<union> F) = {} \<and>
       meta_inv res m' (Own \<union> F \<union> extent ar kAllocIncrement)" by blast
    show ?thesis
    proof (cases "ar = 0")
      case True
      with 2 r(1) show ?thesis by (simp add: PageHeapAllocator_New_def)
    next
      case False
      let ?N = "extent ar kAllocIncrement"
      let ?a = "a\<lparr>free_area := ar, free_avail := kAllocIncrement\<rparr>"
      from False r(3) have n: "?N \<inter> Own = {}" "?N \<inter> F = {}" "meta_inv res m' (Own \<union> ?N \<union> F)"
        by (simp_all add: Int_Un_distrib Un_ac)
      have area: "pha_area ?a = ?N" by (simp add: pha_area_def)
      have "Own - pha_area a \<subseteq> (Own \<union> ?N) - ?N" using n(1) by blast
      from objs_ok_mono [OF fl(3) this] have "pha_inv sz ?a U (Own \<union> ?N)"
        unfolding pha_inv_def area using J fl(1,2) False by (intro conjI exI [of _ fl]) simp_all
      from pha_carve_inv [OF this, of m'] 2 sz obtain p a' where
        p: "pha_carve sz (m', ?a) = (p, m', a')" "p \<noteq> 0" "p \<notin> U" "pha_inv sz a' (insert p U) (Own \<union> ?N)"
        by auto
      moreover have "PageHeapAllocator_New E sz (m, a) = Some (Ret (p, m', a'))"
        using 2 r(1) False p(1) by (simp add: PageHeapAllocator_New_def)
      moreover have "Own \<subseteq> Own \<union> ?N" "(Own \<union> ?N) \<inter> F = {}" using n D by blast+
      ultimately show ?thesis using n(3) r(2) by blast
    qed
  next
    case 3
    from pha_carve_inv [OF I 3(1,2) sz(1), of m] obtain p a' where
      "pha_carve sz (m, a) = (p, m, a')" "p \<noteq> 0" "p \<notin> U" "pha_inv sz a' (insert p U) Own" by blast
    moreover from this have "PageHeapAllocator_New E sz (m, a) = Some (Ret (p, m, a'))"
      using 3 by (simp add: PageHeapAllocator_New_def)
    ultimately show ?thesis using M D by blast
  qed
qed

lemma PageHeapAllocator_Delete_spec:
  assumes I: "pha_inv sz a U Own" and p: "p \<in> U"
  shows "\<exists>a'. PageHeapAllocator_Delete (m, a) p = Some (m, a') \<and> pha_inv sz a' (U - {p}) Own"
proof -
  from I obtain fl where fl: "sll (links a) (free_list a) fl" "set fl \<inter> U = {}" "objs_ok sz (Own - pha_area a) (U \<union> set fl)"
    and J: "finite U" "inuse a = int (card U)" "pha_area a \<subseteq> Own" "0 < free_avail a \<longrightarrow> 0 < free_area a"
    by (rule pha_invE)
  have p0: "p \<noteq> 0" "p \<notin> set fl" using fl(2) p objs_okD(1) [OF fl(3), of p] by auto
  let ?a = "a\<lparr>links := (links a)(p := free_list a), free_list := p, inuse := inuse a - 1\<rparr>"
  have eq: "(U - {p}) \<union> set (p # fl) = U \<union> set fl" using p by auto
  have ar: "pha_area ?a = pha_area a" by (simp add: pha_area_def)
  have "pha_inv sz ?a (U - {p}) Own"
    unfolding pha_inv_def
  proof (intro conjI exI [of _ "p # fl"])
    show "objs_ok sz (Own - pha_area ?a) (U - {p} \<union> set (p # fl))" unfolding eq ar by (rule fl(3))
    have "0 < card U" using J(1) p card_gt_0_iff by blast
    then show "inuse ?a = int (card (U - {p}))" using J p by (simp add: card_Diff_singleton)
  qed (use J fl p0 ar in auto)
  then show ?thesis using p0 by (simp add: PageHeapAllocator_Delete_def SLL_SetNext_def)
qed

definition pha_ok :: "'os OS \<Rightarrow> ('os \<Rightarrow> nat set) \<Rightarrow> nat \<Rightarrow> 'os meta \<times> pha \<Rightarrow> addr set \<Rightarrow> nat set \<Rightarrow> bool" where
  "pha_ok E res sz s U F = (os_contract E res \<and> 0 < sz \<and> sz \<le> kAllocIncrement \<and>
     (\<exists>Own. meta_inv res (fst s) (Own \<union> F) \<and> Own \<inter> F = {} \<and> pha_inv sz (snd s) U Own))"

interpretation pha: object_allocator "PageHeapAllocator_New E sz" PageHeapAllocator_Delete "pha_ok E res sz" sz
  for E res sz
proof (unfold_locales, goal_cases)
  case (1 s U F)
  then obtain Own where c: "os_contract E res" "0 < sz" "sz \<le> kAllocIncrement"
    and "meta_inv res (fst s) (Own \<union> F)" "Own \<inter> F = {}" "pha_inv sz (snd s) U Own"
    unfolding pha_ok_def by blast
  from PageHeapAllocator_New_spec [OF c(1) this(4-6) c(2,3)] obtain r where
    r: "PageHeapAllocator_New E sz s = Some r"
    "\<forall>p m' a'. r = Ret (p, m', a') \<longrightarrow> p \<noteq> 0 \<and> p \<notin> U \<and> SystemTaken (sysm (fst s)) \<le> SystemTaken (sysm m') \<and>
      (\<exists>Own'. Own \<subseteq> Own' \<and> Own' \<inter> F = {} \<and> meta_inv res m' (Own' \<union> F) \<and> pha_inv sz a' (insert p U) Own')"
    by auto
  then show ?case
    unfolding pha_ok_def using c by (intro exI [of _ r]) auto
next
  case (2 s U F p)
  then obtain Own where "meta_inv res (fst s) (Own \<union> F)" "Own \<inter> F = {}" "pha_inv sz (snd s) U Own"
    unfolding pha_ok_def by blast
  with PageHeapAllocator_Delete_spec [of sz "snd s" U Own p "fst s"] 2 show ?case
    unfolding pha_ok_def by (cases s) auto
next
  case (3 s U F p q)
  then obtain V A where "objs_ok sz A (U \<union> V)" unfolding pha_ok_def pha_inv_def by blast
  from objs_okD(3) [OF this, of p q] show ?case using 3 by simp
next
  case (4 s U F p)
  then obtain Own where "Own \<inter> F = {}" "extent p sz \<subseteq> Own"
    unfolding pha_ok_def pha_inv_def by (blast dest: objs_okD(2))
  then show ?case by blast
qed

end
