(* ===== verification/Page_Heap.thy ===== *)
theory Page_Heap
  imports Complex_Main Span_List Page_Map Packed_Cache Meta_Alloc
begin

text \<open>
  The page heap (\<open>page_heap.h\<close>, \<open>page_heap.cc\<close>) with the span allocator functions of
  \<open>span.cc\<close>: state and operations. Page numbers and lengths are natural numbers; sums and
  differences that the code computes in 64 bits and that can leave that range are written with
  \<open>add64\<close> and \<open>sub64\<close>; the statistics are 64-bit words. \<open>ASSERT\<close> is active, as in a debug build.
  An operation that may allocate a \<open>Span\<close> object has the result type \<open>'a outcome\<close>, since the
  code crashes on purpose when metadata memory runs out. \<open>Event\<close> expands to nothing, and the
  filling of deleted spans with \<open>0x3f\<close> is left out: no code reads it.
\<close>

section \<open>State\<close>

definition add64 :: "nat \<Rightarrow> nat \<Rightarrow> nat" where "add64 a b = (a + b) mod 2 ^ 64"
definition sub64 :: "nat \<Rightarrow> nat \<Rightarrow> nat" where "sub64 a b = nat ((int a - int b) mod 2 ^ 64)"

text \<open>What the page heap reads from its environment: the kernel, the two flags (the release rate,
  a \<open>double\<close>, as an exact rational), and the depth that \<open>GetStackTrace\<close> reports.\<close>

record 'os heap_env =
  os_calls :: "'os OS"
  release_rate :: rat
  heap_limit_mb :: int
  stack_depth :: nat

definition sizeof_Span :: nat where "sizeof_Span = 48"
definition sizeof_StackTrace :: nat where "sizeof_StackTrace = 264"

record StackTrace =
  trace_size :: nat
  trace_depth :: nat
  trace_next :: addr

record 'os page_heap =
  heap_meta :: "'os meta"
  span_allocator :: pha
  stacktrace_allocator :: pha
  growth_stacks :: addr
  stack_traces :: "addr \<Rightarrow> StackTrace"
  spans :: store
  pagemap :: "span_ptr pagemap3"
  pagemap_cache :: "(64, 64) packed_cache"
  system_bytes :: "64 word"
  free_bytes :: "64 word"
  unmapped_bytes :: "64 word"
  committed_bytes :: "64 word"
  scavenge_counter :: int
  release_index :: nat
  aggressive_decommit :: bool

definition kPageMapBigAllocationThreshold :: nat where "kPageMapBigAllocationThreshold = 128 * 2 ^ 20"
definition kMinSystemAlloc :: nat where "kMinSystemAlloc = kMaxPages"
definition kMaxReleaseDelay :: int where "kMaxReleaseDelay = 2 ^ 20"
definition kDefaultReleaseDelay :: int where "kDefaultReleaseDelay = 2 ^ 18"
definition kForcedCoalesceInterval :: nat where "kForcedCoalesceInterval = 128 * 1024 * 1024"

text \<open>\<open>length << kPageShift\<close> as a 64-bit quantity.\<close>

definition len_bytes :: "nat \<Rightarrow> 64 word" where
  "len_bytes n = of_nat (n * 2 ^ kPageShift)"

definition span_of :: "'os page_heap \<Rightarrow> span_ptr \<Rightarrow> Span" where
  "span_of h s = spans h s"

text \<open>A store through a span pointer.\<close>

definition upd_span :: "'os page_heap \<Rightarrow> span_ptr \<Rightarrow> (Span \<Rightarrow> Span) \<Rightarrow> 'os page_heap option" where
  "upd_span h s f = (if s = SNull then None else Some (h\<lparr>spans := (spans h)(s := f (spans h s))\<rparr>))"

definition lift_dll :: "(store \<Rightarrow> store option) \<Rightarrow> 'os page_heap \<Rightarrow> 'os page_heap option" where
  "lift_dll f h = do { st \<leftarrow> f (spans h); Some (h\<lparr>spans := st\<rparr>) }"

section \<open>The span allocator\<close>

definition NewSpan :: "'os heap_env \<Rightarrow> 'os page_heap \<Rightarrow> nat \<Rightarrow> nat \<Rightarrow> (span_ptr \<times> 'os page_heap) outcome option" where
  "NewSpan E h p len = do {
     r \<leftarrow> PageHeapAllocator_New (os_calls E) sizeof_Span (heap_meta h, span_allocator h);
     case r of
       OutOfMemory \<Rightarrow> Some OutOfMemory
     | Ret (a, m, al) \<Rightarrow>
         Some (Ret (Sp a, h\<lparr>heap_meta := m, span_allocator := al,
           spans := (spans h)(Sp a := zero_span\<lparr>span_start := p, span_length := len\<rparr>)\<rparr>)) }"

definition DeleteSpan :: "'os page_heap \<Rightarrow> span_ptr \<Rightarrow> 'os page_heap option" where
  "DeleteSpan h s = (case s of
     Sp a \<Rightarrow> do {
       (m, al) \<leftarrow> PageHeapAllocator_Delete (heap_meta h, span_allocator h) a;
       Some (h\<lparr>heap_meta := m, span_allocator := al\<rparr>) }
   | _ \<Rightarrow> None)"

section \<open>Construction and the page map\<close>

text \<open>The constructor: \<open>DLL_Init\<close> of every header. \<open>pm\<close> and \<open>cache\<close> are what the constructors of the
  two members leave.\<close>

fun init_lists :: "nat \<Rightarrow> store \<Rightarrow> store option" where
  "init_lists 0 st = Some st"
| "init_lists (Suc i) st = do {
     st \<leftarrow> init_lists i st;
     st \<leftarrow> DLL_Init st (FreeNormal i);
     DLL_Init st (FreeReturned i) }"

definition PageHeap_new :: "'os meta \<Rightarrow> pha \<Rightarrow> pha \<Rightarrow> store \<Rightarrow> span_ptr pagemap3 \<Rightarrow>
    (64, 64) packed_cache \<Rightarrow> 'os page_heap option" where
  "PageHeap_new m sa ta st pm cache = do {
     cache \<leftarrow> Cache_Clear BITS64 cache 0;
     st \<leftarrow> DLL_Init st LargeNormal;
     st \<leftarrow> DLL_Init st LargeReturned;
     st \<leftarrow> init_lists kMaxPages st;
     Some \<lparr>heap_meta = m, span_allocator = sa, stacktrace_allocator = ta, growth_stacks = 0,
       stack_traces = (\<lambda>_. \<lparr>trace_size = 0, trace_depth = 0, trace_next = 0\<rparr>),
       spans = st, pagemap = pm, pagemap_cache = cache,
       system_bytes = 0, free_bytes = 0, unmapped_bytes = 0, committed_bytes = 0,
       scavenge_counter = 0, release_index = kMaxPages, aggressive_decommit = False\<rparr> }"

definition GetDescriptor :: "'os page_heap \<Rightarrow> nat \<Rightarrow> span_ptr" where
  "GetDescriptor h p = (case PageMap3_get BITS64 (pagemap h) p of None \<Rightarrow> SNull | Some s \<Rightarrow> s)"

definition pagemap_set :: "'os page_heap \<Rightarrow> nat \<Rightarrow> span_ptr \<Rightarrow> 'os page_heap option" where
  "pagemap_set h p s = do {
     pm \<leftarrow> PageMap3_set BITS64 (pagemap h) p (Some s);
     Some (h\<lparr>pagemap := pm\<rparr>) }"

definition RecordSpan :: "'os page_heap \<Rightarrow> span_ptr \<Rightarrow> 'os page_heap option" where
  "RecordSpan h s = do {
     h \<leftarrow> pagemap_set h (span_start (span_of h s)) s;
     if span_length (span_of h s) > 1
     then pagemap_set h (span_start (span_of h s) + span_length (span_of h s) - 1) s
     else Some h }"

definition GetSizeClassIfCached :: "'os page_heap \<Rightarrow> nat \<Rightarrow> nat option" where
  "GetSizeClassIfCached h p = map_option unat (Cache_GetOrDefault BITS64 (pagemap_cache h) (of_nat p) 0)"

definition CacheSizeClass :: "'os page_heap \<Rightarrow> nat \<Rightarrow> nat \<Rightarrow> 'os page_heap option" where
  "CacheSizeClass h p cl = do {
     c \<leftarrow> Cache_Put BITS64 (pagemap_cache h) (of_nat p) (of_nat cl);
     Some (h\<lparr>pagemap_cache := c\<rparr>) }"

definition SetAggressiveDecommit :: "'os page_heap \<Rightarrow> bool \<Rightarrow> 'os page_heap" where
  "SetAggressiveDecommit h b = h\<lparr>aggressive_decommit := b\<rparr>"

definition Check :: "'os page_heap \<Rightarrow> bool" where
  "Check h = (span_next (span_of h (FreeNormal 0)) = FreeNormal 0 \<and>
              span_next (span_of h (FreeReturned 0)) = FreeReturned 0)"

section \<open>Free lists, commit and decommit\<close>

definition PrependToFreeList :: "'os page_heap \<Rightarrow> span_ptr \<Rightarrow> 'os page_heap option" where
  "PrependToFreeList h s = do {
     CHECK (location (span_of h s) \<noteq> IN_USE);
     let len = span_length (span_of h s) in
     if location (span_of h s) = ON_NORMAL_FREELIST then
       lift_dll (\<lambda>st. DLL_Prepend st (if len < kMaxPages then FreeNormal len else LargeNormal) s)
         (h\<lparr>free_bytes := free_bytes h + len_bytes len\<rparr>)
     else
       lift_dll (\<lambda>st. DLL_Prepend st (if len < kMaxPages then FreeReturned len else LargeReturned) s)
         (h\<lparr>unmapped_bytes := unmapped_bytes h + len_bytes len\<rparr>) }"

definition RemoveFromFreeList :: "'os page_heap \<Rightarrow> span_ptr \<Rightarrow> 'os page_heap option" where
  "RemoveFromFreeList h s = do {
     CHECK (location (span_of h s) \<noteq> IN_USE);
     let len = span_length (span_of h s);
         h = (if location (span_of h s) = ON_NORMAL_FREELIST
              then h\<lparr>free_bytes := free_bytes h - len_bytes len\<rparr>
              else h\<lparr>unmapped_bytes := unmapped_bytes h - len_bytes len\<rparr>)
     in lift_dll (\<lambda>st. DLL_Remove st s) h }"

definition CommitSpan :: "'os heap_env \<Rightarrow> 'os page_heap \<Rightarrow> span_ptr \<Rightarrow> 'os page_heap option" where
  "CommitSpan E h s = do {
     sy \<leftarrow> TCMalloc_SystemCommit (os_calls E) (span_start (span_of h s) * 2 ^ kPageShift)
       (span_length (span_of h s) * 2 ^ kPageShift) (sysm (heap_meta h));
     Some (h\<lparr>heap_meta := (heap_meta h)\<lparr>sysm := sy\<rparr>,
       committed_bytes := committed_bytes h + len_bytes (span_length (span_of h s))\<rparr>) }"

definition DecommitSpan :: "'os heap_env \<Rightarrow> 'os page_heap \<Rightarrow> span_ptr \<Rightarrow> (bool \<times> 'os page_heap) option" where
  "DecommitSpan E h s = do {
     (rv, sy) \<leftarrow> TCMalloc_SystemRelease (os_calls E) (span_start (span_of h s) * 2 ^ kPageShift)
       (span_length (span_of h s) * 2 ^ kPageShift) (sysm (heap_meta h));
     let h = h\<lparr>heap_meta := (heap_meta h)\<lparr>sysm := sy\<rparr>\<rparr> in
     Some (rv, if rv then h\<lparr>committed_bytes := committed_bytes h - len_bytes (span_length (span_of h s))\<rparr> else h) }"

definition MayMergeSpans :: "'os page_heap \<Rightarrow> span_ptr \<Rightarrow> span_ptr \<Rightarrow> bool" where
  "MayMergeSpans h s other =
     (if aggressive_decommit h then location (span_of h other) \<noteq> IN_USE
      else location (span_of h s) = location (span_of h other))"

text \<open>The two merging steps of \<open>MergeIntoFreeList\<close>; the result carries \<open>temp_committed\<close>.\<close>

definition MergePrev :: "'os page_heap \<Rightarrow> span_ptr \<Rightarrow> nat \<Rightarrow> ('os page_heap \<times> 64 word) option" where
  "MergePrev h s p =
     (let prev = GetDescriptor h (dec64 p) in
      if prev \<noteq> SNull \<and> MayMergeSpans h s prev then do {
        CHECK (span_start (span_of h prev) + span_length (span_of h prev) = p);
        let len = span_length (span_of h prev);
            temp = (if aggressive_decommit h \<and> location (span_of h prev) = ON_RETURNED_FREELIST
                    then len_bytes len else 0) in do {
          h \<leftarrow> RemoveFromFreeList h prev;
          h \<leftarrow> DeleteSpan h prev;
          h \<leftarrow> upd_span h s (\<lambda>x. x\<lparr>span_start := sub64 (span_start x) len, span_length := add64 (span_length x) len\<rparr>);
          h \<leftarrow> pagemap_set h (span_start (span_of h s)) s;
          Some (h, temp) } }
      else Some (h, 0))"

definition MergeNext :: "'os page_heap \<Rightarrow> span_ptr \<Rightarrow> nat \<Rightarrow> 64 word \<Rightarrow> ('os page_heap \<times> 64 word) option" where
  "MergeNext h s q temp =
     (let nxt = GetDescriptor h q in
      if nxt \<noteq> SNull \<and> MayMergeSpans h s nxt then do {
        CHECK (span_start (span_of h nxt) = q);
        let len = span_length (span_of h nxt);
            temp = (if aggressive_decommit h \<and> location (span_of h nxt) = ON_RETURNED_FREELIST
                    then temp + len_bytes len else temp) in do {
          h \<leftarrow> RemoveFromFreeList h nxt;
          h \<leftarrow> DeleteSpan h nxt;
          h \<leftarrow> upd_span h s (\<lambda>x. x\<lparr>span_length := add64 (span_length x) len\<rparr>);
          h \<leftarrow> pagemap_set h (span_start (span_of h s) + span_length (span_of h s) - 1) s;
          Some (h, temp) } }
      else Some (h, temp))"

definition MergeIntoFreeList :: "'os heap_env \<Rightarrow> 'os page_heap \<Rightarrow> span_ptr \<Rightarrow> 'os page_heap option" where
  "MergeIntoFreeList E h s = do {
     CHECK (location (span_of h s) \<noteq> IN_USE);
     let p = span_start (span_of h s); n = span_length (span_of h s) in do {
       (h, temp_committed) \<leftarrow> MergePrev h s p;
       (h, temp_committed) \<leftarrow> MergeNext h s (add64 p n) temp_committed;
       h \<leftarrow>
         (if aggressive_decommit h then do {
            (rv, h) \<leftarrow> DecommitSpan E h s;
            if rv then do {
              h \<leftarrow> upd_span h s (\<lambda>x. x\<lparr>location := ON_RETURNED_FREELIST\<rparr>);
              Some (h\<lparr>committed_bytes := committed_bytes h + temp_committed\<rparr>) }
            else do { CHECK (temp_committed = 0); Some h } }
          else Some h);
       PrependToFreeList h s } }"

section \<open>Releasing memory to the system\<close>

text \<open>\<open>hdr\<close> is the \<open>normal\<close> header of the \<open>SpanList\<close>.\<close>

definition ReleaseLastNormalSpan :: "'os heap_env \<Rightarrow> 'os page_heap \<Rightarrow> span_ptr \<Rightarrow> (nat \<times> 'os page_heap) option" where
  "ReleaseLastNormalSpan E h hdr =
     (let s = span_prev (span_of h hdr) in do {
        CHECK (location (span_of h s) = ON_NORMAL_FREELIST);
        (rv, h) \<leftarrow> DecommitSpan E h s;
        if rv then do {
          h \<leftarrow> RemoveFromFreeList h s;
          let n = span_length (span_of h s) in do {
            h \<leftarrow> upd_span h s (\<lambda>x. x\<lparr>location := ON_RETURNED_FREELIST\<rparr>);
            h \<leftarrow> MergeIntoFreeList E h s;
            Some (n, h) } }
        else Some (0, h) })"

text \<open>The inner \<open>for\<close> loop with \<open>k\<close> rounds left; the flag tells that the function returned inside.\<close>

fun Release_pass :: "'os heap_env \<Rightarrow> nat \<Rightarrow> 'os page_heap \<Rightarrow> nat \<Rightarrow> nat \<Rightarrow> (bool \<times> nat \<times> 'os page_heap) option" where
  "Release_pass E 0 h num released = Some (False, released, h)"
| "Release_pass E (Suc k) h num released =
     (if released < num then
        let ri = (if release_index h > kMaxPages then 0 else release_index h);
            h = h\<lparr>release_index := ri\<rparr>;
            hdr = (if ri = kMaxPages then LargeNormal else FreeNormal ri) in do {
          (stop, released, h) \<leftarrow>
            (if \<not> DLL_IsEmpty (spans h) hdr then do {
               (len, h) \<leftarrow> ReleaseLastNormalSpan E h hdr;
               if len = 0 then Some (True, released, h) else Some (False, add64 released len, h) }
             else Some (False, released, h));
          if stop then Some (True, released, h)
          else Release_pass E k (h\<lparr>release_index := release_index h + 1\<rparr>) num released }
      else Some (False, released, h))"

partial_function (option) Release_loop :: "'os heap_env \<Rightarrow> 'os page_heap \<Rightarrow> nat \<Rightarrow> nat \<Rightarrow> (nat \<times> 'os page_heap) option" where
  [code]: "Release_loop E h num released =
     (if released < num \<and> free_bytes h > 0 then do {
        (stop, released, h) \<leftarrow> Release_pass E (kMaxPages + 1) h num released;
        if stop then Some (released, h) else Release_loop E h num released }
      else Some (released, h))"

definition ReleaseAtLeastNPages :: "'os heap_env \<Rightarrow> 'os page_heap \<Rightarrow> nat \<Rightarrow> (nat \<times> 'os page_heap) option" where
  "ReleaseAtLeastNPages E h num_pages = Release_loop E h num_pages 0"

definition IncrementalScavenge :: "'os heap_env \<Rightarrow> 'os page_heap \<Rightarrow> nat \<Rightarrow> 'os page_heap option" where
  "IncrementalScavenge E h n =
     (let h = h\<lparr>scavenge_counter := scavenge_counter h - int n\<rparr> in
      if scavenge_counter h \<ge> 0 then Some h
      else if release_rate E \<le> 1 / 10 ^ 6 then Some (h\<lparr>scavenge_counter := kDefaultReleaseDelay\<rparr>)
      else do {
        (released_pages, h) \<leftarrow> ReleaseAtLeastNPages E h 1;
        if released_pages = 0 then Some (h\<lparr>scavenge_counter := kDefaultReleaseDelay\<rparr>)
        else
          let mult = 1000 / release_rate E;
              wait = mult * of_nat released_pages;
              wait = (if wait > of_int kMaxReleaseDelay then of_int kMaxReleaseDelay else wait)
          in Some (h\<lparr>scavenge_counter := \<lfloor>wait\<rfloor>\<rparr>) })"

definition EnsureLimit :: "'os heap_env \<Rightarrow> 'os page_heap \<Rightarrow> nat \<Rightarrow> bool \<Rightarrow> (bool \<times> 'os page_heap) option" where
  "EnsureLimit E h n withRelease =
     (let limit = nat ((heap_limit_mb E * 1024 * 1024 div 2 ^ kPageShift) mod 2 ^ 64) in
      if limit = 0 then Some (True, h)
      else
        let takenPages = SystemTaken (sysm (heap_meta h)) div 2 ^ kPageShift;
            unmapped = unat (drop_bit kPageShift (unmapped_bytes h)) in do {
          CHECK (takenPages \<ge> unmapped);
          let takenPages = takenPages - unmapped in do {
            (takenPages, h) \<leftarrow>
              (if add64 takenPages n > limit \<and> withRelease then do {
                 (released, h) \<leftarrow> ReleaseAtLeastNPages E h (sub64 (add64 takenPages n) limit);
                 Some (sub64 takenPages released, h) }
               else Some (takenPages, h));
            Some (add64 takenPages n \<le> limit, h) } })"

section \<open>Allocation\<close>

text \<open>The leftover of \<open>Carve\<close>: a new span behind the first \<open>n\<close> pages, on the free list that \<open>span\<close>
  was on. \<open>extra\<close> is an \<open>int\<close>.\<close>

definition Carve_leftover :: "'os heap_env \<Rightarrow> 'os page_heap \<Rightarrow> span_ptr \<Rightarrow> nat \<Rightarrow> int \<Rightarrow> location \<Rightarrow>
    'os page_heap outcome option" where
  "Carve_leftover E h s n extra old_location = do {
     r \<leftarrow> NewSpan E h (add64 (span_start (span_of h s)) n) (to_size_t extra);
     case r of
       OutOfMemory \<Rightarrow> Some OutOfMemory
     | Ret (leftover, h) \<Rightarrow> do {
         h \<leftarrow> upd_span h leftover (\<lambda>x. x\<lparr>location := old_location\<rparr>);
         h \<leftarrow> RecordSpan h leftover;
         let nxt = GetDescriptor h (add64 (span_start (span_of h leftover)) (span_length (span_of h leftover))) in do {
           CHECK (nxt = SNull \<or> location (span_of h nxt) = IN_USE \<or>
             location (span_of h nxt) \<noteq> location (span_of h leftover));
           h \<leftarrow> PrependToFreeList h leftover;
           h \<leftarrow> upd_span h s (\<lambda>x. x\<lparr>span_length := n\<rparr>);
           h \<leftarrow> pagemap_set h (span_start (span_of h s) + n - 1) s;
           Some (Ret h) } } }"

definition Carve :: "'os heap_env \<Rightarrow> 'os page_heap \<Rightarrow> span_ptr \<Rightarrow> nat \<Rightarrow> (span_ptr \<times> 'os page_heap) outcome option" where
  "Carve E h s n = do {
     CHECK (n > 0);
     CHECK (location (span_of h s) \<noteq> IN_USE);
     let old_location = location (span_of h s) in do {
       h \<leftarrow> RemoveFromFreeList h s;
       h \<leftarrow> upd_span h s (\<lambda>x. x\<lparr>location := IN_USE\<rparr>);
       let extra = to_int32 (sub64 (span_length (span_of h s)) n) in do {
         CHECK (extra \<ge> 0);
         r \<leftarrow> (if extra > 0 then Carve_leftover E h s n extra old_location else Some (Ret h));
         case r of
           OutOfMemory \<Rightarrow> Some OutOfMemory
         | Ret h \<Rightarrow> do {
             CHECK (Check h);
             h \<leftarrow> (if old_location = ON_RETURNED_FREELIST then CommitSpan E h s else Some h);
             CHECK (location (span_of h s) = IN_USE);
             CHECK (span_length (span_of h s) = n);
             CHECK (unmapped_bytes h + committed_bytes h = system_bytes h);
             Some (Ret (s, h)) } } } }"

text \<open>One of the two search loops of \<open>AllocLarge\<close>, from \<open>span\<close> up to the header \<open>hdr\<close>.\<close>

partial_function (option) best_fit :: "store \<Rightarrow> span_ptr \<Rightarrow> location \<Rightarrow> nat \<Rightarrow> span_ptr \<Rightarrow> span_ptr \<Rightarrow> span_ptr option" where
  [code]: "best_fit st hdr loc n sp best =
     (if sp = hdr then Some best
      else do {
        CHECK (sp \<noteq> SNull);
        best \<leftarrow>
          (if span_length (st sp) \<ge> n \<and>
              (best = SNull \<or> span_length (st sp) < span_length (st best) \<or>
               span_length (st sp) = span_length (st best) \<and> span_start (st sp) < span_start (st best))
           then do { CHECK (location (st sp) = loc); Some sp }
           else Some best);
        best_fit st hdr loc n (span_next (st sp)) best })"

partial_function (option) AllocLarge :: "'os heap_env \<Rightarrow> 'os page_heap \<Rightarrow> nat \<Rightarrow>
    (span_ptr \<times> 'os page_heap) outcome option" where
  [code]: "AllocLarge E h n = do {
     bestNormal \<leftarrow> best_fit (spans h) LargeNormal ON_NORMAL_FREELIST n (span_next (span_of h LargeNormal)) SNull;
     best \<leftarrow> best_fit (spans h) LargeReturned ON_RETURNED_FREELIST n (span_next (span_of h LargeReturned)) bestNormal;
     if best = bestNormal then
       if best = SNull then Some (Ret (SNull, h)) else Carve E h best n
     else do {
       (ok, h) \<leftarrow> EnsureLimit E h n False;
       if ok then Carve E h best n
       else do {
         (ok, h) \<leftarrow> EnsureLimit E h n True;
         if ok then AllocLarge E h n
         else do { CHECK (bestNormal = SNull); Some (Ret (SNull, h)) } } } }"

text \<open>The loop of \<open>SearchFreeAndLargeLists\<close> from list \<open>s\<close> on.\<close>

function Search_lists :: "'os heap_env \<Rightarrow> 'os page_heap \<Rightarrow> nat \<Rightarrow> nat \<Rightarrow> (span_ptr \<times> 'os page_heap) outcome option" where
  "Search_lists E h n s =
     (if s < kMaxPages then
        if \<not> DLL_IsEmpty (spans h) (FreeNormal s) then do {
          CHECK (location (span_of h (span_next (span_of h (FreeNormal s)))) = ON_NORMAL_FREELIST);
          Carve E h (span_next (span_of h (FreeNormal s))) n }
        else if \<not> DLL_IsEmpty (spans h) (FreeReturned s) then do {
          (ok, h) \<leftarrow> EnsureLimit E h n True;
          if ok \<and> \<not> DLL_IsEmpty (spans h) (FreeReturned s) then do {
            CHECK (location (span_of h (span_next (span_of h (FreeReturned s)))) = ON_RETURNED_FREELIST);
            Carve E h (span_next (span_of h (FreeReturned s))) n }
          else Search_lists E h n (s + 1) }
        else Search_lists E h n (s + 1)
      else AllocLarge E h n)"
  by pat_completeness auto
termination by (relation "measure (\<lambda>(E, h, n, s). kMaxPages - s)") auto

declare Search_lists.simps [simp del]

definition SearchFreeAndLargeLists :: "'os heap_env \<Rightarrow> 'os page_heap \<Rightarrow> nat \<Rightarrow>
    (span_ptr \<times> 'os page_heap) outcome option" where
  "SearchFreeAndLargeLists E h n = do {
     CHECK (Check h);
     CHECK (n > 0);
     Search_lists E h n n }"

definition Delete :: "'os heap_env \<Rightarrow> 'os page_heap \<Rightarrow> span_ptr \<Rightarrow> 'os page_heap option" where
  "Delete E h s = do {
     CHECK (Check h);
     CHECK (location (span_of h s) = IN_USE);
     CHECK (span_length (span_of h s) > 0);
     CHECK (GetDescriptor h (span_start (span_of h s)) = s);
     CHECK (GetDescriptor h (span_start (span_of h s) + span_length (span_of h s) - 1) = s);
     let n = span_length (span_of h s) in do {
       h \<leftarrow> upd_span h s (\<lambda>x. x\<lparr>sizeclass := 0, sample := False, location := ON_NORMAL_FREELIST\<rparr>);
       h \<leftarrow> MergeIntoFreeList E h s;
       h \<leftarrow> IncrementalScavenge E h n;
       CHECK (unmapped_bytes h + committed_bytes h = system_bytes h);
       CHECK (Check h);
       Some h } }"

definition RecordGrowth :: "'os heap_env \<Rightarrow> 'os page_heap \<Rightarrow> nat \<Rightarrow> 'os page_heap outcome option" where
  "RecordGrowth E h growth = do {
     r \<leftarrow> PageHeapAllocator_New (os_calls E) sizeof_StackTrace (heap_meta h, stacktrace_allocator h);
     case r of
       OutOfMemory \<Rightarrow> Some OutOfMemory
     | Ret (t, m, al) \<Rightarrow>
         Some (Ret (h\<lparr>heap_meta := m, stacktrace_allocator := al, growth_stacks := t,
           stack_traces := (stack_traces h)(t :=
             \<lparr>trace_size = growth, trace_depth = stack_depth E, trace_next = growth_stacks h\<rparr>)\<rparr>)) }"

text \<open>The \<open>allocator\<close> argument of the page map is \<open>MetaDataAlloc\<close>. A failed assertion inside it cannot
  be told apart here from a null result; \<open>MetaDataAlloc_spec\<close> shows that there is none.\<close>

definition meta_allocator :: "'os OS \<Rightarrow> 'os meta allocator" where
  "meta_allocator E bytes m = (case MetaDataAlloc E bytes m of None \<Rightarrow> (False, m) | Some (a, m') \<Rightarrow> (a \<noteq> 0, m'))"

text \<open>\<open>GrowHeap\<close> up to the system allocation: the pointer and the size that the system delivers.\<close>

definition GrowHeap_alloc :: "'os heap_env \<Rightarrow> 'os page_heap \<Rightarrow> nat \<Rightarrow> (addr \<times> nat \<times> 'os page_heap) option" where
  "GrowHeap_alloc E h ask = do {
     (ok, h) \<leftarrow> EnsureLimit E h ask True;
     if ok then do {
       (ptr, actual_size, sy) \<leftarrow>
         TCMalloc_SystemAlloc (os_calls E) (ask * 2 ^ kPageShift) True kPageSize (sysm (heap_meta h));
       Some (ptr, actual_size, h\<lparr>heap_meta := (heap_meta h)\<lparr>sysm := sy\<rparr>\<rparr>) }
     else Some (0, 0, h) }"

text \<open>\<open>PreallocateMoreMemory\<close> of the three-level map does nothing.\<close>

definition GrowHeap_add :: "'os heap_env \<Rightarrow> 'os page_heap \<Rightarrow> addr \<Rightarrow> nat \<Rightarrow> (bool \<times> 'os page_heap) outcome option" where
  "GrowHeap_add E h ptr actual_size =
     (let ask = actual_size div 2 ^ kPageShift in do {
        r \<leftarrow> RecordGrowth E h (ask * 2 ^ kPageShift);
        case r of
          OutOfMemory \<Rightarrow> Some OutOfMemory
        | Ret h \<Rightarrow>
            let h = h\<lparr>system_bytes := system_bytes h + len_bytes ask,
                      committed_bytes := committed_bytes h + len_bytes ask\<rparr>;
                p = ptr div 2 ^ kPageShift in do {
              CHECK (p > 0);
              let (ok, pm, m) = PageMap3_Ensure BITS64 (meta_allocator (os_calls E)) (pagemap h) (heap_meta h)
                    (p - 1) (ask + 2);
                  h = h\<lparr>pagemap := pm, heap_meta := m\<rparr> in
              if ok then do {
                r \<leftarrow> NewSpan E h p ask;
                case r of
                  OutOfMemory \<Rightarrow> Some OutOfMemory
                | Ret (s, h) \<Rightarrow> do {
                    h \<leftarrow> RecordSpan h s;
                    h \<leftarrow> Delete E h s;
                    CHECK (unmapped_bytes h + committed_bytes h = system_bytes h);
                    CHECK (Check h);
                    Some (Ret (True, h)) } }
              else Some (Ret (False, h)) } })"

definition GrowHeap :: "'os heap_env \<Rightarrow> 'os page_heap \<Rightarrow> nat \<Rightarrow> (bool \<times> 'os page_heap) outcome option" where
  "GrowHeap E h n = do {
     CHECK (kMaxPages \<ge> kMinSystemAlloc);
     if n > kMaxValidPages then Some (Ret (False, h))
     else
       let ask = (if n > kMinSystemAlloc then n else kMinSystemAlloc) in do {
         (ptr, actual_size, h) \<leftarrow> GrowHeap_alloc E h ask;
         (ptr, actual_size, h) \<leftarrow>
           (if ptr = 0 \<and> n < ask then GrowHeap_alloc E h n else Some (ptr, actual_size, h));
         if ptr = 0 then Some (Ret (False, h)) else GrowHeap_add E h ptr actual_size } }"

text \<open>The condition of \<open>New\<close> for unmapping all free pages before it grows the heap.\<close>

definition New_should_coalesce :: "'os page_heap \<Rightarrow> nat \<Rightarrow> bool" where
  "New_should_coalesce h n =
     (free_bytes h \<noteq> 0 \<and> unmapped_bytes h \<noteq> 0 \<and>
      free_bytes h + unmapped_bytes h \<ge> system_bytes h div 4 \<and>
      system_bytes h div of_nat kForcedCoalesceInterval \<noteq>
        (system_bytes h + len_bytes n) div of_nat kForcedCoalesceInterval)"

definition New_grow :: "'os heap_env \<Rightarrow> 'os page_heap \<Rightarrow> nat \<Rightarrow> (span_ptr \<times> 'os page_heap) outcome option" where
  "New_grow E h n = do {
     r \<leftarrow> GrowHeap E h n;
     case r of
       OutOfMemory \<Rightarrow> Some OutOfMemory
     | Ret (grown, h) \<Rightarrow>
         if \<not> grown then do {
           CHECK (unmapped_bytes h + committed_bytes h = system_bytes h);
           CHECK (Check h);
           Some (Ret (SNull, h)) }
         else SearchFreeAndLargeLists E h n }"

definition New :: "'os heap_env \<Rightarrow> 'os page_heap \<Rightarrow> nat \<Rightarrow> (span_ptr \<times> 'os page_heap) outcome option" where
  "New E h n = do {
     CHECK (Check h);
     CHECK (n > 0);
     r \<leftarrow> SearchFreeAndLargeLists E h n;
     case r of
       OutOfMemory \<Rightarrow> Some OutOfMemory
     | Ret (result, h) \<Rightarrow>
         if result \<noteq> SNull then Some (Ret (result, h))
         else if New_should_coalesce h n then do {
           (_, h) \<leftarrow> ReleaseAtLeastNPages E h 0x7fffffff;
           r \<leftarrow> SearchFreeAndLargeLists E h n;
           case r of
             OutOfMemory \<Rightarrow> Some OutOfMemory
           | Ret (result, h) \<Rightarrow>
               if result \<noteq> SNull then Some (Ret (result, h)) else New_grow E h n }
         else New_grow E h n }"

section \<open>Other operations\<close>

definition Split :: "'os heap_env \<Rightarrow> 'os page_heap \<Rightarrow> span_ptr \<Rightarrow> nat \<Rightarrow> (span_ptr \<times> 'os page_heap) outcome option" where
  "Split E h s n = do {
     CHECK (0 < n);
     CHECK (n < span_length (span_of h s));
     CHECK (location (span_of h s) = IN_USE);
     CHECK (sizeclass (span_of h s) = 0);
     let extra = to_int32 (span_length (span_of h s) - n) in do {
       r \<leftarrow> NewSpan E h (span_start (span_of h s) + n) (to_size_t extra);
       case r of
         OutOfMemory \<Rightarrow> Some OutOfMemory
       | Ret (leftover, h) \<Rightarrow> do {
           CHECK (location (span_of h leftover) = IN_USE);
           h \<leftarrow> RecordSpan h leftover;
           h \<leftarrow> pagemap_set h (span_start (span_of h s) + n - 1) s;
           h \<leftarrow> upd_span h s (\<lambda>x. x\<lparr>span_length := n\<rparr>);
           Some (Ret (leftover, h)) } } }"

text \<open>The loop that enters the interior pages \<open>i .. i + k - 1\<close> of a span.\<close>

fun set_interior :: "'os page_heap \<Rightarrow> span_ptr \<Rightarrow> nat \<Rightarrow> nat \<Rightarrow> 'os page_heap option" where
  "set_interior h s i 0 = Some h"
| "set_interior h s i (Suc k) = do {
     h \<leftarrow> pagemap_set h (span_start (span_of h s) + i) s;
     set_interior h s (Suc i) k }"

text \<open>\<open>i < span->length - 1\<close>: the length is positive here, so the loop runs \<open>length - 2\<close> times.\<close>

definition RegisterSizeClass :: "'os page_heap \<Rightarrow> span_ptr \<Rightarrow> nat \<Rightarrow> 'os page_heap option" where
  "RegisterSizeClass h s sc = do {
     CHECK (location (span_of h s) = IN_USE);
     CHECK (GetDescriptor h (span_start (span_of h s)) = s);
     CHECK (GetDescriptor h (span_start (span_of h s) + span_length (span_of h s) - 1) = s);
     h \<leftarrow> upd_span h s (\<lambda>x. x\<lparr>sizeclass := sc mod 2 ^ 8\<rparr>);
     set_interior h s 1 (span_length (span_of h s) - 2) }"

datatype range_type = INUSE | FREE | UNMAPPED

text \<open>\<open>base::MallocRange\<close>; \<open>fraction\<close> is an exact rational.\<close>

record MallocRange =
  range_address :: nat
  range_length :: nat
  range_kind :: range_type
  fraction :: rat

definition GetNextRange :: "SizeMap \<Rightarrow> 'os page_heap \<Rightarrow> nat \<Rightarrow> MallocRange option" where
  "GetNextRange sm h start =
     (case PageMap3_Next BITS64 (pagemap h) start of
        None \<Rightarrow> None
      | Some s \<Rightarrow>
          let x = span_of h s; len = span_length x * 2 ^ kPageShift in
          Some \<lparr>range_address = span_start x * 2 ^ kPageShift, range_length = len,
            range_kind = (case location x of IN_USE \<Rightarrow> INUSE | ON_NORMAL_FREELIST \<Rightarrow> FREE
              | ON_RETURNED_FREELIST \<Rightarrow> UNMAPPED),
            fraction = (if location x = IN_USE then
                if sizeclass x > 0
                then of_nat (class_to_size sm (sizeclass x) * refcount x) / of_nat len else 1
              else 0)\<rparr>)"

text \<open>\<open>CheckList\<close>: the loop from \<open>s\<close> to the header.\<close>

partial_function (option) CheckList_from :: "'os page_heap \<Rightarrow> span_ptr \<Rightarrow> nat \<Rightarrow> nat \<Rightarrow> location \<Rightarrow> span_ptr \<Rightarrow>
    unit option" where
  [code]: "CheckList_from h lst min_pages max_pages freelist s =
     (if s = lst then Some ()
      else do {
        CHECK (s \<noteq> SNull);
        CHECK (location (span_of h s) = freelist);
        CHECK (span_length (span_of h s) \<ge> min_pages);
        CHECK (span_length (span_of h s) \<le> max_pages);
        CHECK (GetDescriptor h (span_start (span_of h s)) = s);
        CHECK (GetDescriptor h (span_start (span_of h s) + span_length (span_of h s) - 1) = s);
        CheckList_from h lst min_pages max_pages freelist (span_next (span_of h s)) })"

definition CheckList :: "'os page_heap \<Rightarrow> span_ptr \<Rightarrow> nat \<Rightarrow> nat \<Rightarrow> location \<Rightarrow> unit option" where
  "CheckList h lst min_pages max_pages freelist =
     CheckList_from h lst min_pages max_pages freelist (span_next (span_of h lst))"

fun CheckSmall :: "'os page_heap \<Rightarrow> nat \<Rightarrow> nat \<Rightarrow> unit option" where
  "CheckSmall h s 0 = Some ()"
| "CheckSmall h s (Suc k) = do {
     CheckList h (FreeNormal s) s s ON_NORMAL_FREELIST;
     CheckList h (FreeReturned s) s s ON_RETURNED_FREELIST;
     CheckSmall h (Suc s) k }"

definition CheckExpensive :: "'os page_heap \<Rightarrow> unit option" where
  "CheckExpensive h = do {
     CHECK (Check h);
     CheckList h LargeNormal kMaxPages 1000000000 ON_NORMAL_FREELIST;
     CheckList h LargeReturned kMaxPages 1000000000 ON_RETURNED_FREELIST;
     CheckSmall h 1 (kMaxPages - 1) }"

end
