(* ===== verification/Page_Heap_Inv.thy ===== *)
theory Page_Heap_Inv
  imports Page_Heap
begin

text \<open>
  The invariant of the page heap. A state is read against the set \<open>U\<close> of the live \<open>Span\<close>
  objects, the contents \<open>L\<close> of every list header and the set \<open>F\<close> of the spans that an operation
  has taken off a list and not yet put back. The parts of the invariant: the spans partition the
  pages of the heap (\<open>geom\<close>), the page map finds them (\<open>mapped\<close>), the free spans are on the
  lists of their length and location (\<open>lists_ok\<close>), the statistics are the sums of their lengths
  (\<open>sums_ok\<close>), no two neighbouring free spans share a location (\<open>coalesced\<close>), and the memory of
  the pages, of the \<open>Span\<close> objects and of the rest of the metadata is reserved and disjoint
  (\<open>mem_ok\<close>), and in the aggressive mode no free span is committed (\<open>mode_ok\<close>). The lemmas here say what one step on lists, fields or page map does to each part.
\<close>

section \<open>Views of the store\<close>

abbreviation start_of :: "store \<Rightarrow> addr \<Rightarrow> nat" where "start_of st a \<equiv> span_start (st (Sp a))"
abbreviation plen_of :: "store \<Rightarrow> addr \<Rightarrow> nat" where "plen_of st a \<equiv> span_length (st (Sp a))"
abbreviation loc_of :: "store \<Rightarrow> addr \<Rightarrow> location" where "loc_of st a \<equiv> location (st (Sp a))"
abbreviation class_of :: "store \<Rightarrow> addr \<Rightarrow> nat" where "class_of st a \<equiv> sizeclass (st (Sp a))"

definition ext :: "store \<Rightarrow> addr \<Rightarrow> nat set" where
  "ext st a = extent (start_of st a) (plen_of st a)"

definition heap_pages :: "store \<Rightarrow> addr set \<Rightarrow> nat set" where
  "heap_pages st U = (\<Union>a\<in>U. ext st a)"

text \<open>The abstract view that clients have: the in-use spans and their data.\<close>

definition inuse_view :: "store \<Rightarrow> addr set \<Rightarrow> addr \<rightharpoonup> Span" where
  "inuse_view st U = (\<lambda>a. if a \<in> U \<and> loc_of st a = IN_USE then Some (span_data (st (Sp a))) else None)"

lemma span_data_fields:
  assumes "span_data x = span_data y"
  shows "span_start x = span_start y" "span_length x = span_length y" "objects x = objects y"
    "refcount x = refcount y" "sizeclass x = sizeclass y" "location x = location y" "sample x = sample y"
proof -
  have "span_start (span_data x) = span_start x \<and> span_length (span_data x) = span_length x \<and>
      objects (span_data x) = objects x \<and> refcount (span_data x) = refcount x \<and>
      sizeclass (span_data x) = sizeclass x \<and> location (span_data x) = location x \<and> sample (span_data x) = sample x"
    for x by (simp add: span_data_def)
  with assms show "span_start x = span_start y" "span_length x = span_length y" "objects x = objects y"
    "refcount x = refcount y" "sizeclass x = sizeclass y" "location x = location y" "sample x = sample y"
    by metis+
qed

section \<open>Geometry\<close>

text \<open>Addresses are below \<open>2^47\<close>, so page numbers are below \<open>2^34\<close>.\<close>

definition geom :: "store \<Rightarrow> addr set \<Rightarrow> bool" where
  "geom st U = (finite U \<and> (\<forall>a\<in>U. 0 < plen_of st a \<and> ext st a \<subseteq> {0<..<2 ^ 34}) \<and>
     (\<forall>a\<in>U. \<forall>b\<in>U. a \<noteq> b \<longrightarrow> ext st a \<inter> ext st b = {}))"

lemma geomD:
  assumes "geom st U" "a \<in> U"
  shows "0 < plen_of st a" "0 < start_of st a" "start_of st a + plen_of st a \<le> 2 ^ 34"
    "start_of st a \<in> ext st a" "start_of st a + plen_of st a - 1 \<in> ext st a"
proof -
  show l: "0 < plen_of st a" using assms by (simp add: geom_def)
  then show m: "start_of st a \<in> ext st a" "start_of st a + plen_of st a - 1 \<in> ext st a"
    by (auto simp: ext_def)
  have sub: "ext st a \<subseteq> {0<..<2 ^ 34}" using assms by (simp add: geom_def)
  from m(1) sub show "0 < start_of st a" by (meson greaterThanLessThan_iff subsetD)
  from m(2) sub have "start_of st a + plen_of st a - 1 < 2 ^ 34" by (meson greaterThanLessThan_iff subsetD)
  with l show "start_of st a + plen_of st a \<le> 2 ^ 34" by linarith
qed

lemma geom_disjoint: "geom st U \<Longrightarrow> a \<in> U \<Longrightarrow> b \<in> U \<Longrightarrow> p \<in> ext st a \<Longrightarrow> p \<in> ext st b \<Longrightarrow> a = b"
  unfolding geom_def by blast

lemma geom_finite: "geom st U \<Longrightarrow> finite U"
  by (simp add: geom_def)

lemma geomI:
  assumes "finite U" "\<And>a. a \<in> U \<Longrightarrow> 0 < plen_of st a" "\<And>a. a \<in> U \<Longrightarrow> ext st a \<subseteq> {0<..<2 ^ 34}"
    and "\<And>a b p. a \<in> U \<Longrightarrow> b \<in> U \<Longrightarrow> p \<in> ext st a \<Longrightarrow> p \<in> ext st b \<Longrightarrow> a = b"
  shows "geom st U"
  unfolding geom_def using assms(1-3) assms(4) by blast

lemma geom_ext_bound: "geom st U \<Longrightarrow> a \<in> U \<Longrightarrow> ext st a \<subseteq> {0<..<2 ^ 34}"
  by (simp add: geom_def)

lemma view_cong:
  assumes "\<And>a. a \<in> U \<Longrightarrow> span_data (st' (Sp a)) = span_data (st (Sp a))"
  shows "a \<in> U \<Longrightarrow> ext st' a = ext st a" "geom st' U = geom st U" "heap_pages st' U = heap_pages st U"
    "inuse_view st' U = inuse_view st U"
proof -
  have d: "start_of st' a = start_of st a" "plen_of st' a = plen_of st a" "loc_of st' a = loc_of st a" if "a \<in> U" for a
    using span_data_fields [OF assms [OF that]] by auto
  then show e: "a \<in> U \<Longrightarrow> ext st' a = ext st a" for a by (simp add: ext_def)
  then show "geom st' U = geom st U" by (simp add: geom_def d cong: ball_cong)
  show "heap_pages st' U = heap_pages st U" using e by (simp add: heap_pages_def)
  show "inuse_view st' U = inuse_view st U" using d assms by (auto simp: inuse_view_def fun_eq_iff)
qed

text \<open>A span that takes over the pages of its neighbour.\<close>

lemma geom_absorb:
  assumes G: "geom st U" and ab: "a \<in> U" "b \<in> U" "a \<noteq> b"
    and e: "ext st' a = ext st a \<union> ext st b" "\<And>x. x \<noteq> a \<Longrightarrow> ext st' x = ext st x"
    and l: "0 < plen_of st' a" "\<And>x. x \<noteq> a \<Longrightarrow> plen_of st' x = plen_of st x"
  shows "geom st' (U - {b})" "heap_pages st' (U - {b}) = heap_pages st U"
proof -
  show "geom st' (U - {b})"
  proof (rule geomI)
    fix x assume x: "x \<in> U - {b}"
    show "0 < plen_of st' x" using l G x by (cases "x = a") (auto dest: geomD(1))
    show "ext st' x \<subseteq> {0<..<2 ^ 34}"
      using e geom_ext_bound [OF G] x ab by (cases "x = a") auto
  next
    fix x y p assume "x \<in> U - {b}" "y \<in> U - {b}" "p \<in> ext st' x" "p \<in> ext st' y"
    then show "x = y"
      using e geom_disjoint [OF G] ab by (cases "x = a"; cases "y = a") (auto; blast)+
  qed (use geom_finite [OF G] in simp)
  show "heap_pages st' (U - {b}) = heap_pages st U"
  proof -
    have "(\<Union>x\<in>U - {a, b}. ext st' x) = (\<Union>x\<in>U - {a, b}. ext st x)" using e(2) by auto
    moreover have "U - {b} = insert a (U - {a, b})" "U = insert a (insert b (U - {a, b}))" using ab by auto
    ultimately show ?thesis unfolding heap_pages_def using e(1) by (metis UN_insert Un_assoc)
  qed
qed

text \<open>A span whose tail becomes a span of its own.\<close>

lemma geom_split:
  assumes G: "geom st U" and ab: "a \<in> U" "b \<notin> U"
    and e: "ext st a = ext st' a \<union> ext st' b" "ext st' a \<inter> ext st' b = {}" "\<And>x. x \<in> U \<Longrightarrow> x \<noteq> a \<Longrightarrow> ext st' x = ext st x"
    and l: "0 < plen_of st' a" "0 < plen_of st' b" "\<And>x. x \<in> U \<Longrightarrow> x \<noteq> a \<Longrightarrow> plen_of st' x = plen_of st x"
  shows "geom st' (insert b U)" "heap_pages st' (insert b U) = heap_pages st U"
proof -
  have ne: "a \<noteq> b" using ab by auto
  show "geom st' (insert b U)"
  proof (rule geomI)
    fix x assume x: "x \<in> insert b U"
    show "0 < plen_of st' x" using l G x by (cases "x = a"; cases "x = b") (auto dest: geomD(1))
    show "ext st' x \<subseteq> {0<..<2 ^ 34}"
      using e geom_ext_bound [OF G] x ab by (cases "x = a"; cases "x = b") auto
  next
    fix x y p assume h: "x \<in> insert b U" "y \<in> insert b U" "p \<in> ext st' x" "p \<in> ext st' y"
    define w where "w x = (if x = b then a else x)" for x
    have w: "w z \<in> U" "p \<in> ext st (w z)" if "z \<in> insert b U" "p \<in> ext st' z" for z
      using that ab ne e(1) e(3) [of z] by (cases "z = b"; cases "z = a"; simp add: w_def)+
    have "w x = w y" using geom_disjoint [OF G w(1) w(1) w(2) w(2)] h by blast
    then show "x = y" using h(3,4) e(2) by (cases "x = b"; cases "y = b") (auto simp: w_def)
  qed (use geom_finite [OF G] in simp)
  have "(\<Union>x\<in>U - {a}. ext st' x) = (\<Union>x\<in>U - {a}. ext st x)" using e(3) by simp
  moreover have "insert b U = insert a (insert b (U - {a}))" "U = insert a (U - {a})" using ab(1) by auto
  ultimately show "heap_pages st' (insert b U) = heap_pages st U"
    unfolding heap_pages_def using e(1) by (metis UN_insert Un_assoc)
qed

text \<open>A new span on pages that no span has.\<close>

lemma geom_new:
  assumes G: "geom st U" and b: "b \<notin> U" and e: "ext st' b \<inter> heap_pages st U = {}" "ext st' b \<subseteq> {0<..<2 ^ 34}"
    "0 < plen_of st' b" and o: "\<And>x. x \<in> U \<Longrightarrow> st' (Sp x) = st (Sp x)"
  shows "geom st' (insert b U)" "heap_pages st' (insert b U) = heap_pages st U \<union> ext st' b"
proof -
  have e': "ext st' x = ext st x" if "x \<in> U" for x using o that by (simp add: ext_def)
  show "geom st' (insert b U)"
  proof (rule geomI)
    fix x assume x: "x \<in> insert b U"
    show "0 < plen_of st' x" using e(3) o G x by (cases "x = b") (auto dest: geomD(1))
    show "ext st' x \<subseteq> {0<..<2 ^ 34}" using e e' geom_ext_bound [OF G] x by (cases "x = b") auto
  next
    fix x y p assume "x \<in> insert b U" "y \<in> insert b U" "p \<in> ext st' x" "p \<in> ext st' y"
    then show "x = y" using e(1) e' geom_disjoint [OF G] b unfolding heap_pages_def
      by (cases "x = b"; cases "y = b") (auto simp: disjoint_iff)
  qed (use geom_finite [OF G] in simp)
  show "heap_pages st' (insert b U) = heap_pages st U \<union> ext st' b"
    using e' by (auto simp: heap_pages_def)
qed

section \<open>The page map\<close>

definition mapped :: "(nat \<Rightarrow> span_ptr option) \<Rightarrow> (nat \<Rightarrow> bool) \<Rightarrow> store \<Rightarrow> addr set \<Rightarrow> bool" where
  "mapped m ens st U =
     ((\<forall>a\<in>U. m (start_of st a) = Some (Sp a) \<and> m (start_of st a + plen_of st a - 1) = Some (Sp a) \<and>
         (class_of st a \<noteq> 0 \<longrightarrow> (\<forall>p\<in>ext st a. m p = Some (Sp a)))) \<and>
      (\<forall>p\<in>heap_pages st U. ens p) \<and>
      (\<forall>p. m p \<noteq> None \<longrightarrow> p \<in> heap_pages st U))"

lemma mappedD:
  assumes "mapped m ens st U" "a \<in> U"
  shows "m (start_of st a) = Some (Sp a)" "m (start_of st a + plen_of st a - 1) = Some (Sp a)"
    "class_of st a \<noteq> 0 \<Longrightarrow> p \<in> ext st a \<Longrightarrow> m p = Some (Sp a)" "p \<in> ext st a \<Longrightarrow> ens p"
  using assms by (auto simp: mapped_def heap_pages_def)

text \<open>The page before a span is the last page of a span, or of none; the page behind it the first.\<close>

lemma mapped_prev:
  assumes M: "mapped m ens st U" and G: "geom st U" and a: "a \<in> U" and x: "m (start_of st a - 1) = Some x"
  shows "\<exists>b\<in>U. x = Sp b \<and> b \<noteq> a \<and> start_of st b + plen_of st b = start_of st a"
proof -
  have "start_of st a - 1 \<in> heap_pages st U" using M x by (auto simp: mapped_def)
  then obtain b where b: "b \<in> U" "start_of st a - 1 \<in> ext st b" by (auto simp: heap_pages_def)
  have pos: "0 < start_of st a" using geomD(2) [OF G a] .
  then have ne: "b \<noteq> a" using b(2) by (auto simp: ext_def)
  have "start_of st a \<notin> ext st b" using geom_disjoint [OF G a b(1) geomD(4) [OF G a]] ne by blast
  with b(2) pos have e: "start_of st b + plen_of st b = start_of st a" by (auto simp: ext_def)
  then have "x = Sp b" using mappedD(2) [OF M b(1)] x by simp
  with b ne e show ?thesis by blast
qed

lemma mapped_next:
  assumes M: "mapped m ens st U" and G: "geom st U" and a: "a \<in> U" and x: "m (start_of st a + plen_of st a) = Some x"
  shows "\<exists>b\<in>U. x = Sp b \<and> b \<noteq> a \<and> start_of st b = start_of st a + plen_of st a"
proof -
  let ?q = "start_of st a + plen_of st a"
  have "?q \<in> heap_pages st U" using M x by (auto simp: mapped_def)
  then obtain b where b: "b \<in> U" "?q \<in> ext st b" by (auto simp: heap_pages_def)
  then have ne: "b \<noteq> a" by (auto simp: ext_def)
  have "?q - 1 \<notin> ext st b" using geom_disjoint [OF G a b(1) geomD(5) [OF G a]] ne by blast
  with b(2) geomD(1) [OF G a] have e: "start_of st b = ?q" by (auto simp: ext_def)
  then have "x = Sp b" using mappedD(1) [OF M b(1)] x by simp
  with b ne e show ?thesis by blast
qed

lemma mapped_cong:
  assumes "\<And>a. a \<in> U \<Longrightarrow> span_data (st' (Sp a)) = span_data (st (Sp a))"
  shows "mapped m ens st' U = mapped m ens st U"
proof -
  have "start_of st' a = start_of st a" "plen_of st' a = plen_of st a" "class_of st' a = class_of st a" if "a \<in> U" for a
    using span_data_fields [OF assms [OF that]] by auto
  then show ?thesis
    using view_cong(1,3) [of U st' st] assms by (simp add: mapped_def cong: ball_cong)
qed

section \<open>Lists\<close>

definition headers :: "span_ptr set" where
  "headers = FreeNormal ` {..<kMaxPages} \<union> FreeReturned ` {..<kMaxPages} \<union> {LargeNormal, LargeReturned}"

definition central_headers :: "span_ptr set" where
  "central_headers = range CentralEmpty \<union> range CentralNonempty"

definition list_of :: "location \<Rightarrow> nat \<Rightarrow> span_ptr" where
  "list_of l n =
     (if l = ON_NORMAL_FREELIST then if n < kMaxPages then FreeNormal n else LargeNormal
      else if n < kMaxPages then FreeReturned n else LargeReturned)"

lemma list_of_header [simp]: "list_of l n \<in> headers"
  by (auto simp: list_of_def headers_def)

lemma headers_central: "headers \<inter> central_headers = {}"
  by (auto simp: headers_def central_headers_def)

definition listed :: "span_ptr set \<Rightarrow> (span_ptr \<Rightarrow> span_ptr list) \<Rightarrow> span_ptr \<Rightarrow> bool" where
  "listed H L s = (\<exists>h\<in>H. s \<in> set (L h))"

text \<open>\<open>C\<close> are the headers of central lists in use; their members are spans in use. A live span that
  is on no list has null links.\<close>

definition lists_ok :: "span_ptr set \<Rightarrow> store \<Rightarrow> addr set \<Rightarrow> (span_ptr \<Rightarrow> span_ptr list) \<Rightarrow> addr set \<Rightarrow> bool" where
  "lists_ok C st U L F =
     (C \<subseteq> central_headers \<and> F \<subseteq> U \<and> dlls st (headers \<union> C) L \<and>
      (\<forall>a\<in>U - F. loc_of st a \<noteq> IN_USE \<longrightarrow> Sp a \<in> set (L (list_of (loc_of st a) (plen_of st a)))) \<and>
      (\<forall>h\<in>headers. \<forall>s\<in>set (L h). \<exists>a\<in>U - F. s = Sp a \<and> loc_of st a \<noteq> IN_USE \<and> h = list_of (loc_of st a) (plen_of st a)) \<and>
      (\<forall>h\<in>C. \<forall>s\<in>set (L h). \<exists>a\<in>U - F. s = Sp a \<and> loc_of st a = IN_USE) \<and>
      (\<forall>a\<in>U. \<not> listed (headers \<union> C) L (Sp a) \<longrightarrow> loose st (Sp a)))"

lemma lists_okD:
  assumes "lists_ok C st U L F"
  shows "C \<subseteq> central_headers" "F \<subseteq> U" "dlls st (headers \<union> C) L"
    "a \<in> U - F \<Longrightarrow> loc_of st a \<noteq> IN_USE \<Longrightarrow> Sp a \<in> set (L (list_of (loc_of st a) (plen_of st a)))"
    "h \<in> headers \<Longrightarrow> s \<in> set (L h) \<Longrightarrow>
      \<exists>a\<in>U - F. s = Sp a \<and> loc_of st a \<noteq> IN_USE \<and> h = list_of (loc_of st a) (plen_of st a)"
    "h \<in> C \<Longrightarrow> s \<in> set (L h) \<Longrightarrow> \<exists>a\<in>U - F. s = Sp a \<and> loc_of st a = IN_USE"
    "a \<in> U \<Longrightarrow> \<not> listed (headers \<union> C) L (Sp a) \<Longrightarrow> loose st (Sp a)"
  using assms by (simp_all add: lists_ok_def)

lemma Sp_not_header: "C \<subseteq> central_headers \<Longrightarrow> Sp a \<notin> headers \<union> C"
  by (auto simp: headers_def central_headers_def)

lemma listed_member:
  assumes "lists_ok C st U L F" "listed (headers \<union> C) L s"
  shows "\<exists>a\<in>U - F. s = Sp a"
  using assms unfolding listed_def by (blast dest: lists_okD(5,6))

lemma floating_not_listed:
  assumes "lists_ok C st U L F" "a \<in> F"
  shows "\<not> listed (headers \<union> C) L (Sp a)" "loose st (Sp a)"
proof -
  show n: "\<not> listed (headers \<union> C) L (Sp a)" using listed_member [OF assms(1)] assms(2) by auto
  with assms lists_okD(2,7) [OF assms(1)] show "loose st (Sp a)" by blast
qed

text \<open>Storing into a floating span, or into a span in use without changing its location.\<close>

lemma lists_ok_upd:
  assumes O: "lists_ok C st U L F" and f: "span_next (f (st (Sp a))) = span_next (st (Sp a))"
      "span_prev (f (st (Sp a))) = span_prev (st (Sp a))"
    and a: "a \<in> F \<or> loc_of st a = IN_USE \<and> location (f (st (Sp a))) = IN_USE"
  shows "lists_ok C (st(Sp a := f (st (Sp a)))) U L F"
proof -
  let ?st = "st(Sp a := f (st (Sp a)))"
  have "dlls ?st (headers \<union> C) L"
    by (rule dlls_frame [OF lists_okD(3) [OF O]]) (use f in auto)
  moreover have lo: "loose ?st x = loose st x" for x using f by (simp add: loose_def)
  moreover have d: "loc_of ?st x = loc_of st x \<and> (loc_of st x \<noteq> IN_USE \<longrightarrow> plen_of ?st x = plen_of st x)" if "x \<in> U - F" for x
    using a that by auto
  ultimately show ?thesis
    unfolding lists_ok_def
  proof (intro conjI ballI impI)
    fix x assume x: "x \<in> U - F" "loc_of ?st x \<noteq> IN_USE"
    then show "Sp x \<in> set (L (list_of (loc_of ?st x) (plen_of ?st x)))"
      using d [OF x(1)] lists_okD(4) [OF O x(1)] by simp
  next
    fix h s assume "h \<in> headers" "s \<in> set (L h)"
    from lists_okD(5) [OF O this] d show "\<exists>a'\<in>U - F. s = Sp a' \<and> loc_of ?st a' \<noteq> IN_USE \<and>
      h = list_of (loc_of ?st a') (plen_of ?st a')" by metis
  next
    fix h s assume "h \<in> C" "s \<in> set (L h)"
    from lists_okD(6) [OF O this] d show "\<exists>a'\<in>U - F. s = Sp a' \<and> loc_of ?st a' = IN_USE" by metis
  next
    fix x assume "x \<in> U" "\<not> listed (headers \<union> C) L (Sp x)"
    then show "loose ?st (Sp x)" using lo lists_okD(7) [OF O] by blast
  qed (use lists_okD(1,2) [OF O] in auto)
qed

lemma lists_ok_float:
  assumes O: "lists_ok C st U L F" and a: "a \<in> U" "\<not> listed (headers \<union> C) L (Sp a)"
  shows "lists_ok C st U L (insert a F)"
proof -
  have ne: "s \<noteq> Sp a" if "h \<in> headers \<union> C" "s \<in> set (L h)" for h s using a(2) that by (auto simp: listed_def)
  show ?thesis unfolding lists_ok_def
  proof (intro conjI ballI impI)
    fix h s assume h: "h \<in> headers" "s \<in> set (L h)"
    then have "s \<noteq> Sp a" using ne by blast
    with lists_okD(5) [OF O h] show "\<exists>a'\<in>U - insert a F. s = Sp a' \<and> loc_of st a' \<noteq> IN_USE \<and>
        h = list_of (loc_of st a') (plen_of st a')" by blast
  next
    fix h s assume h: "h \<in> C" "s \<in> set (L h)"
    then have "s \<noteq> Sp a" using ne by blast
    with lists_okD(6) [OF O h] show "\<exists>a'\<in>U - insert a F. s = Sp a' \<and> loc_of st a' = IN_USE" by blast
  qed (use O a in \<open>auto simp: lists_ok_def\<close>)
qed

lemma lists_ok_unfloat:
  assumes O: "lists_ok C st U L F" and a: "loc_of st a = IN_USE"
  shows "lists_ok C st U L (F - {a})"
  using O a unfolding lists_ok_def by (intro conjI) (blast | metis Diff_iff singletonD)+

lemma lists_ok_remove:
  assumes O: "lists_ok C st U L F" and a: "a \<in> U - F" "loc_of st a \<noteq> IN_USE"
  shows "\<exists>st' L'. DLL_Remove st (Sp a) = Some st' \<and> lists_ok C st' U L' (insert a F) \<and>
    (\<forall>x. span_data (st' x) = span_data (st x)) \<and> (\<forall>x. x \<notin> headers \<longrightarrow> L' x = L x)"
proof -
  let ?h = "list_of (loc_of st a) (plen_of st a)"
  have h: "?h \<in> headers \<union> C" "Sp a \<in> set (L ?h)" using lists_okD(4) [OF O a] by auto
  obtain st' where st': "DLL_Remove st (Sp a) = Some st'" "dlls st' (headers \<union> C) (L(?h := removeAll (Sp a) (L ?h)))"
      "\<forall>x. span_data (st' x) = span_data (st x)" "loose st' (Sp a)" "\<forall>x. loose st x \<longrightarrow> loose st' x"
    using DLL_Remove_dlls [OF lists_okD(3) [OF O] h] by blast
  let ?L = "L(?h := removeAll (Sp a) (L ?h))"
  have d: "plen_of st' x = plen_of st x" "loc_of st' x = loc_of st x" for x
    using span_data_fields [of "st' (Sp x)" "st (Sp x)"] st'(3) by auto
  have sub: "set (?L h) \<subseteq> set (L h) - {Sp a}" if "h \<in> headers \<union> C" for h
  proof -
    have "Sp a \<notin> set (L h)" if "h \<noteq> ?h" using dlls_disjoint [OF lists_okD(3) [OF O] h(1) \<open>h \<in> headers \<union> C\<close> h(2)] that by blast
    then show ?thesis by auto
  qed
  have hc: "?h \<notin> C" using lists_okD(1) [OF O] headers_central list_of_header by blast
  have "lists_ok C st' U ?L (insert a F)"
    unfolding lists_ok_def d
  proof (intro conjI ballI impI)
    fix x assume x: "x \<in> U - insert a F" "loc_of st x \<noteq> IN_USE"
    then have "Sp x \<in> set (L (list_of (loc_of st x) (plen_of st x)))" using lists_okD(4) [OF O, of x] by blast
    then show "Sp x \<in> set (?L (list_of (loc_of st x) (plen_of st x)))" using x by auto
  next
    fix h s assume h: "h \<in> headers" "s \<in> set (?L h)"
    then have s: "s \<in> set (L h)" "s \<noteq> Sp a" using sub [of h] by blast+
    from lists_okD(5) [OF O h(1) s(1)] s(2) show "\<exists>x\<in>U - insert a F. s = Sp x \<and> loc_of st x \<noteq> IN_USE \<and> h = list_of (loc_of st x) (plen_of st x)"
      by blast
  next
    fix h s assume h: "h \<in> C" "s \<in> set (?L h)"
    then have s: "s \<in> set (L h)" "s \<noteq> Sp a" using sub [of h] by blast+
    from lists_okD(6) [OF O h(1) s(1)] s(2) show "\<exists>x\<in>U - insert a F. s = Sp x \<and> loc_of st x = IN_USE" by blast
  next
    fix x assume x: "x \<in> U" "\<not> listed (headers \<union> C) ?L (Sp x)"
    show "loose st' (Sp x)"
    proof (cases "x = a")
      case False
      then have "\<not> listed (headers \<union> C) L (Sp x)" using x(2) by (auto simp: listed_def split: if_splits)
      then show ?thesis using lists_okD(7) [OF O x(1)] st'(5) by blast
    qed (use st'(4) in simp)
  qed (use O a st' in \<open>auto simp: lists_ok_def\<close>)
  then show ?thesis using st' by (intro exI [of _ st'] exI [of _ ?L]) auto
qed

lemma lists_ok_prepend:
  assumes O: "lists_ok C st U L F" and a: "a \<in> F" "loc_of st a \<noteq> IN_USE"
  shows "\<exists>st' L'. DLL_Prepend st (list_of (loc_of st a) (plen_of st a)) (Sp a) = Some st' \<and>
    lists_ok C st' U L' (F - {a}) \<and>
    (\<forall>x. span_data (st' x) = span_data (st x)) \<and> (\<forall>x. x \<notin> headers \<longrightarrow> L' x = L x)"
proof -
  let ?h = "list_of (loc_of st a) (plen_of st a)"
  have aU: "a \<in> U" using lists_okD(2) [OF O] a(1) by blast
  have h: "?h \<in> headers \<union> C" by simp
  have nl: "Sp a \<notin> headers \<union> C" using Sp_not_header [OF lists_okD(1) [OF O]] .
  obtain st' where st': "DLL_Prepend st ?h (Sp a) = Some st'" "dlls st' (headers \<union> C) (L(?h := Sp a # L ?h))"
      "\<forall>x. span_data (st' x) = span_data (st x)" "\<forall>x. x \<noteq> Sp a \<longrightarrow> loose st x \<longrightarrow> loose st' x"
    using DLL_Prepend_dlls [OF lists_okD(3) [OF O] h _ nl floating_not_listed(2) [OF O a(1)]] by blast
  let ?L = "L(?h := Sp a # L ?h)"
  have d: "plen_of st' x = plen_of st x" "loc_of st' x = loc_of st x" for x
    using span_data_fields [of "st' (Sp x)" "st (Sp x)"] st'(3) by auto
  have hc: "?h \<notin> C" using lists_okD(1) [OF O] headers_central list_of_header by blast
  have "lists_ok C st' U ?L (F - {a})"
    unfolding lists_ok_def d
  proof (intro conjI ballI impI)
    fix x assume x: "x \<in> U - (F - {a})" "loc_of st x \<noteq> IN_USE"
    show "Sp x \<in> set (?L (list_of (loc_of st x) (plen_of st x)))"
    proof (cases "x = a")
      case False
      then have "Sp x \<in> set (L (list_of (loc_of st x) (plen_of st x)))" using lists_okD(4) [OF O, of x] x by blast
      then show ?thesis by auto
    qed simp
  next
    fix h s assume h: "h \<in> headers" "s \<in> set (?L h)"
    show "\<exists>x\<in>U - (F - {a}). s = Sp x \<and> loc_of st x \<noteq> IN_USE \<and> h = list_of (loc_of st x) (plen_of st x)"
    proof (cases "s = Sp a \<and> h = ?h")
      case False
      then have "s \<in> set (L h)" using h(2) by (auto split: if_splits)
      from lists_okD(5) [OF O h(1) this] show ?thesis by blast
    qed (use a aU in auto)
  next
    fix h s assume h: "h \<in> C" "s \<in> set (?L h)"
    then have "s \<in> set (L h)" using hc by (auto split: if_splits)
    from lists_okD(6) [OF O h(1) this] show "\<exists>x\<in>U - (F - {a}). s = Sp x \<and> loc_of st x = IN_USE" by blast
  next
    fix x assume x: "x \<in> U" "\<not> listed (headers \<union> C) ?L (Sp x)"
    have "Sp a \<in> set (?L ?h)" by simp
    then have "x \<noteq> a" using x(2) h unfolding listed_def by blast
    moreover have "\<not> listed (headers \<union> C) L (Sp x)" using x(2) by (auto simp: listed_def split: if_splits)
    ultimately show "loose st' (Sp x)" using lists_okD(7) [OF O x(1)] st'(4) by blast
  qed (use O a st' in \<open>auto simp: lists_ok_def\<close>)
  then show ?thesis using st' by (intro exI [of _ st'] exI [of _ ?L]) auto
qed

lemma lists_ok_delete:
  assumes O: "lists_ok C st U L F" and a: "a \<in> F"
  shows "lists_ok C st (U - {a}) L (F - {a})"
proof -
  have e: "U - {a} - (F - {a}) = U - F" using a by auto
  show ?thesis using O unfolding lists_ok_def e by auto
qed

lemma lists_ok_new:
  assumes O: "lists_ok C st U L F" and a: "a \<notin> U" and x: "span_next x = SNull" "span_prev x = SNull"
  shows "lists_ok C (st(Sp a := x)) (insert a U) L (insert a F)"
proof -
  let ?st = "st(Sp a := x)"
  have nl: "\<not> listed (headers \<union> C) L (Sp a)" using listed_member [OF O] a by auto
  have "dlls ?st (headers \<union> C) L"
  proof (rule dlls_frame [OF lists_okD(3) [OF O]])
    fix y assume "y \<in> headers \<union> C \<union> (\<Union>h\<in>headers \<union> C. set (L h))"
    then have "y \<noteq> Sp a" using nl Sp_not_header [OF lists_okD(1) [OF O], of a] unfolding listed_def by blast
    then show "span_next (?st y) = span_next (st y) \<and> span_prev (?st y) = span_prev (st y)" by simp
  qed
  moreover have e: "insert a U - insert a F = U - F" using a lists_okD(2) [OF O] by auto
  moreover have "?st (Sp y) = st (Sp y)" if "y \<in> U - F" for y using that a by auto
  moreover have "loose ?st (Sp y)" if "y \<in> insert a U" "\<not> listed (headers \<union> C) L (Sp y)" for y
    using that lists_okD(7) [OF O, of y] x by (auto simp: loose_def)
  ultimately show ?thesis using O unfolding lists_ok_def e by (intro conjI) auto
qed

section \<open>Statistics\<close>

definition stat_sum :: "store \<Rightarrow> addr set \<Rightarrow> location \<Rightarrow> nat" where
  "stat_sum st S l = (\<Sum>a\<in>{a \<in> S. loc_of st a = l}. plen_of st a)"

lemma stat_sum_cong:
  assumes "\<And>a. a \<in> S \<Longrightarrow> span_data (st' (Sp a)) = span_data (st (Sp a))"
  shows "stat_sum st' S l = stat_sum st S l"
proof -
  have "plen_of st' a = plen_of st a" "loc_of st' a = loc_of st a" if "a \<in> S" for a
    using span_data_fields [OF assms [OF that]] by auto
  then show ?thesis unfolding stat_sum_def by (intro sum.cong) auto
qed

lemma stat_sum_upd [simp]: "a \<notin> S \<Longrightarrow> stat_sum (st(Sp a := x)) S l = stat_sum st S l"
  unfolding stat_sum_def by (intro sum.cong) auto

lemma stat_sum_insert:
  "finite S \<Longrightarrow> a \<notin> S \<Longrightarrow> stat_sum st (insert a S) l = stat_sum st S l + (if loc_of st a = l then plen_of st a else 0)"
proof -
  assume "finite S" "a \<notin> S"
  moreover have "{x \<in> insert a S. loc_of st x = l} = (if loc_of st a = l then insert a {x \<in> S. loc_of st x = l} else {x \<in> S. loc_of st x = l})"
    by auto
  ultimately show ?thesis by (simp add: stat_sum_def)
qed

lemma stat_sum_remove:
  "finite S \<Longrightarrow> a \<in> S \<Longrightarrow> stat_sum st S l = stat_sum st (S - {a}) l + (if loc_of st a = l then plen_of st a else 0)"
  using stat_sum_insert [of "S - {a}" a st l] by (simp add: insert_absorb)

lemma stat_sum_bound:
  assumes G: "geom st U" and S: "S \<subseteq> U"
  shows "stat_sum st S l \<le> 2 ^ 34"
proof -
  let ?T = "{a \<in> S. loc_of st a = l}"
  have fin: "finite ?T" using geom_finite [OF G] S finite_subset by fastforce
  have "stat_sum st S l = (\<Sum>a\<in>?T. card (ext st a))" by (simp add: stat_sum_def ext_def)
  also have "\<dots> = card (\<Union>a\<in>?T. ext st a)"
    by (rule card_UN_disjoint [symmetric]) (use fin G S in \<open>auto simp: geom_def ext_def subset_iff\<close>)
  also have "\<dots> \<le> card {0<..<(2::nat) ^ 34}"
    by (rule card_mono) (use G S in \<open>auto simp: geom_def\<close>)
  finally show ?thesis by simp
qed

lemma stat_sum_zero:
  assumes "geom st U" "S \<subseteq> U" "stat_sum st S l = 0" "a \<in> S"
  shows "loc_of st a \<noteq> l"
proof
  assume "loc_of st a = l"
  moreover have "finite S" using geom_finite [OF assms(1)] assms(2) finite_subset by blast
  ultimately have "plen_of st a = 0" using assms(3,4) by (auto simp: stat_sum_def)
  moreover have "a \<in> U" using assms(2,4) by blast
  ultimately show False using geomD(1) [OF assms(1), of a] by simp
qed

lemma len_bytes_add: "len_bytes (m + n) = len_bytes m + len_bytes n"
  by (simp add: len_bytes_def add_mult_distrib)

lemma len_bytes_zero: "n < 2 ^ 51 \<Longrightarrow> len_bytes n = 0 \<longleftrightarrow> n = 0"
proof -
  assume n: "n < 2 ^ 51"
  have "(of_nat (n * 2 ^ 13) :: 64 word) = 0 \<longleftrightarrow> 2 ^ 64 dvd n * 2 ^ 13" by (simp only: word_of_nat_eq_0_iff) simp
  moreover have "n * 2 ^ 13 < 2 ^ 64" using n by simp
  ultimately have "(of_nat (n * 2 ^ 13) :: 64 word) = 0 \<longleftrightarrow> n * 2 ^ 13 = 0"
    using dvd_imp_le not_less by (metis dvd_0_right neq0_conv)
  then show ?thesis by (simp only: len_bytes_def kPageShift_def) simp
qed

section \<open>Memory\<close>

definition page_bytes :: "nat set \<Rightarrow> nat set" where
  "page_bytes P = {x. x div 2 ^ kPageShift \<in> P}"

lemma page_bytes_Un: "page_bytes (P \<union> Q) = page_bytes P \<union> page_bytes Q"
  by (auto simp: page_bytes_def)

lemma page_bytes_extent: "page_bytes (extent p n) = extent (p * 2 ^ kPageShift) (n * 2 ^ kPageShift)"
proof (rule set_eqI)
  fix x
  have "0 < (2::nat) ^ kPageShift" by simp
  then show "x \<in> page_bytes (extent p n) \<longleftrightarrow> x \<in> extent (p * 2 ^ kPageShift) (n * 2 ^ kPageShift)"
    unfolding page_bytes_def mem_extent mem_Collect_eq add_mult_distrib [symmetric]
    by (simp only: less_eq_div_iff_mult_less_eq div_less_iff_less_mult)
qed

text \<open>The span objects in \<open>U\<close> are allocated, and perhaps others \<open>W\<close> that nobody refers to:
  \<open>InitStaticVars\<close> drops two.\<close>

definition span_objs_ok :: "pha \<Rightarrow> addr set \<Rightarrow> nat set \<Rightarrow> bool" where
  "span_objs_ok sa U Own = (\<exists>W. U \<inter> W = {} \<and> pha_inv sizeof_Span sa (U \<union> W) Own)"

lemma span_objs_okI: "pha_inv sizeof_Span sa U Own \<Longrightarrow> span_objs_ok sa U Own"
  unfolding span_objs_ok_def by (intro exI [of _ "{}"]) simp

lemma span_objs_ok_lost: "pha_inv sizeof_Span sa W Own \<Longrightarrow> span_objs_ok sa {} Own"
  unfolding span_objs_ok_def by (intro exI [of _ W]) simp

lemma span_objs_New:
  assumes K: "os_contract E res" and f: "meta_inv res m (Own \<union> X)" "Own \<inter> X = {}" and I: "span_objs_ok sa U Own"
  shows "\<exists>r. PageHeapAllocator_New E sizeof_Span (m, sa) = Some r \<and> (\<forall>b m' al. r = Ret (b, m', al) \<longrightarrow> b \<notin> U \<and>
    (\<exists>Own'. Own' \<inter> X = {} \<and> meta_inv res m' (Own' \<union> X) \<and> span_objs_ok al (insert b U) Own'))"
proof -
  obtain W where W: "U \<inter> W = {}" "pha_inv sizeof_Span sa (U \<union> W) Own" using I unfolding span_objs_ok_def by blast
  have sz: "0 < sizeof_Span" "sizeof_Span \<le> kAllocIncrement" by (simp_all add: sizeof_Span_def kAllocIncrement_def)
  obtain r where r: "PageHeapAllocator_New E sizeof_Span (m, sa) = Some r"
    "\<And>b m' al. r = Ret (b, m', al) \<Longrightarrow> b \<notin> U \<union> W \<and> (\<exists>Own'. Own' \<inter> X = {} \<and> meta_inv res m' (Own' \<union> X) \<and>
      pha_inv sizeof_Span al (insert b (U \<union> W)) Own')"
    using PageHeapAllocator_New_spec [OF K f W(2) sz] by blast
  have "span_objs_ok al (insert b U) Own'" if "b \<notin> U \<union> W" "pha_inv sizeof_Span al (insert b (U \<union> W)) Own'" for b al Own'
    unfolding span_objs_ok_def using that W(1) by (intro exI [of _ W]) auto
  with r show ?thesis by blast
qed

lemma span_objs_Delete:
  assumes I: "span_objs_ok sa U Own" and b: "b \<in> U"
  shows "\<exists>al. PageHeapAllocator_Delete (m, sa) b = Some (m, al) \<and> span_objs_ok al (U - {b}) Own"
proof -
  obtain W where W: "U \<inter> W = {}" "pha_inv sizeof_Span sa (U \<union> W) Own" using I unfolding span_objs_ok_def by blast
  obtain al where al: "PageHeapAllocator_Delete (m, sa) b = Some (m, al)" "pha_inv sizeof_Span al (U \<union> W - {b}) Own"
    using PageHeapAllocator_Delete_spec [OF W(2)] b by blast
  have "U \<union> W - {b} = (U - {b}) \<union> W" "(U - {b}) \<inter> W = {}" using W(1) b by auto
  then show ?thesis using al unfolding span_objs_ok_def by auto
qed

definition mem_ok :: "('os \<Rightarrow> nat set) \<Rightarrow> nat set \<Rightarrow> 'os meta \<Rightarrow> pha \<Rightarrow> pha \<Rightarrow> addr set \<Rightarrow> nat set \<Rightarrow> bool" where
  "mem_ok res Fm m sa ta U P = (\<exists>O1 O2 T. meta_inv res m (O1 \<union> O2 \<union> page_bytes P) \<and> O1 \<inter> O2 = {} \<and>
     (O1 \<union> O2) \<inter> page_bytes P = {} \<and> span_objs_ok sa U O1 \<and> pha_inv sizeof_StackTrace ta T O2 \<and> Fm \<subseteq> O2)"

lemma mem_ok_res: "mem_ok res Fm m sa ta U P \<Longrightarrow> page_bytes P \<subseteq> res (os (sysm m))"
  unfolding mem_ok_def by (blast dest: meta_inv_res)

lemma mem_ok_same_res:
  assumes "mem_ok res Fm m sa ta U P" "res s = res (os (sysm m))"
  shows "mem_ok res Fm (m\<lparr>sysm := (sysm m)\<lparr>os := s\<rparr>\<rparr>) sa ta U P"
proof -
  have "meta_inv res (m\<lparr>sysm := (sysm m)\<lparr>os := s\<rparr>\<rparr>) X" if "meta_inv res m X" for X
    by (rule meta_inv_same_res [OF that _ assms(2)]) simp_all
  with assms(1) show ?thesis unfolding mem_ok_def by (elim exE conjE) (intro exI conjI; assumption?; blast)
qed

section \<open>The invariant\<close>

definition coalesced :: "store \<Rightarrow> addr set \<Rightarrow> bool" where
  "coalesced st S = (\<forall>a\<in>S. \<forall>b\<in>S. start_of st a + plen_of st a = start_of st b \<longrightarrow> loc_of st a = loc_of st b \<longrightarrow>
     loc_of st a = IN_USE)"

lemma coalesced_subset: "coalesced st S \<Longrightarrow> T \<subseteq> S \<Longrightarrow> coalesced st T"
  unfolding coalesced_def by blast

lemma coalesced_cong:
  assumes "\<And>a. a \<in> S \<Longrightarrow> span_data (st' (Sp a)) = span_data (st (Sp a))"
  shows "coalesced st' S = coalesced st S"
proof -
  have "start_of st' a = start_of st a" "plen_of st' a = plen_of st a" "loc_of st' a = loc_of st a" if "a \<in> S" for a
    using span_data_fields [OF assms [OF that]] by auto
  then show ?thesis by (simp add: coalesced_def cong: ball_cong)
qed

text \<open>Free spans have no class; no span is sampled.\<close>

definition clean :: "store \<Rightarrow> addr set \<Rightarrow> bool" where
  "clean st U = (\<forall>a\<in>U. (loc_of st a \<noteq> IN_USE \<longrightarrow> class_of st a = 0) \<and> \<not> sample (st (Sp a)))"

definition sums_ok :: "'os page_heap \<Rightarrow> addr set \<Rightarrow> bool" where
  "sums_ok h S = (free_bytes h = len_bytes (stat_sum (spans h) S ON_NORMAL_FREELIST) \<and>
     unmapped_bytes h = len_bytes (stat_sum (spans h) S ON_RETURNED_FREELIST))"

text \<open>In the aggressive mode every free span has been returned.\<close>

definition mode_ok :: "bool \<Rightarrow> store \<Rightarrow> addr set \<Rightarrow> bool" where
  "mode_ok g st S = (g \<longrightarrow> (\<forall>a\<in>S. loc_of st a \<noteq> ON_NORMAL_FREELIST))"

lemma mode_okD: "mode_ok g st S \<Longrightarrow> g \<Longrightarrow> a \<in> S \<Longrightarrow> loc_of st a \<noteq> ON_NORMAL_FREELIST"
  by (simp add: mode_ok_def)

lemma mode_ok_subset: "mode_ok g st S \<Longrightarrow> T \<subseteq> S \<Longrightarrow> mode_ok g st T"
  unfolding mode_ok_def by blast

lemma mode_ok_cong:
  assumes "\<And>a. a \<in> S \<Longrightarrow> span_data (st' (Sp a)) = span_data (st (Sp a))"
  shows "mode_ok g st' S = mode_ok g st S"
  using span_data_fields(6) [OF assms] by (auto simp: mode_ok_def)

definition heap_inv :: "('os \<Rightarrow> nat set) \<Rightarrow> nat set \<Rightarrow> span_ptr set \<Rightarrow> 'os page_heap \<Rightarrow> addr set \<Rightarrow>
    (span_ptr \<Rightarrow> span_ptr list) \<Rightarrow> addr set \<Rightarrow> bool" where
  "heap_inv res Fm C h U L F =
     (geom (spans h) U \<and>
      mapped (PageMap3_get BITS64 (pagemap h)) (PageMap3_ensured BITS64 (pagemap h)) (spans h) U \<and>
      lists_ok C (spans h) U L F \<and> sums_ok h (U - F) \<and> coalesced (spans h) (U - F) \<and> clean (spans h) U \<and>
      mem_ok res Fm (heap_meta h) (span_allocator h) (stacktrace_allocator h) U (heap_pages (spans h) U) \<and>
      mode_ok (aggressive_decommit h) (spans h) (U - F))"

text \<open>What is committed and what the returned spans have, against what came from the system.\<close>

definition imbalance :: "'os page_heap \<Rightarrow> addr set \<Rightarrow> 64 word" where
  "imbalance h U = system_bytes h - (committed_bytes h + len_bytes (stat_sum (spans h) U ON_RETURNED_FREELIST))"

text \<open>Free spans are only ever merged: each one lies in a free span of the later state.\<close>

definition coarser :: "store \<Rightarrow> addr set \<Rightarrow> store \<Rightarrow> addr set \<Rightarrow> bool" where
  "coarser st U st' U' = (\<forall>a\<in>U. loc_of st a \<noteq> IN_USE \<longrightarrow> (\<exists>b\<in>U'. loc_of st' b \<noteq> IN_USE \<and> ext st a \<subseteq> ext st' b))"

lemma coarser_refl [simp]: "coarser st U st U"
  unfolding coarser_def by blast

lemma coarser_trans: "coarser st U st' U' \<Longrightarrow> coarser st' U' st'' U'' \<Longrightarrow> coarser st U st'' U''"
  unfolding coarser_def by (meson order_trans)

lemma coarser_cong:
  assumes "\<And>a. a \<in> U \<Longrightarrow> span_data (st' (Sp a)) = span_data (st (Sp a))"
  shows "coarser st U st' U"
  unfolding coarser_def
proof (intro ballI impI)
  fix a assume a: "a \<in> U" "loc_of st a \<noteq> IN_USE"
  then have "loc_of st' a \<noteq> IN_USE" "ext st' a = ext st a"
    using span_data_fields(6) [OF assms [OF a(1)]] view_cong(1) [of U st' st a] assms by auto
  with a(1) show "\<exists>b\<in>U. loc_of st' b \<noteq> IN_USE \<and> ext st a \<subseteq> ext st' b" by blast
qed

text \<open>What an operation leaves alone: the spans in use, the central lists, the mode; pages are never
  given up, and free spans stay free.\<close>

definition keeps :: "'os page_heap \<Rightarrow> addr set \<Rightarrow> (span_ptr \<Rightarrow> span_ptr list) \<Rightarrow> 'os page_heap \<Rightarrow> addr set \<Rightarrow>
    (span_ptr \<Rightarrow> span_ptr list) \<Rightarrow> bool" where
  "keeps h U L h' U' L' =
     (inuse_view (spans h') U' = inuse_view (spans h) U \<and> (\<forall>x. x \<notin> headers \<longrightarrow> L' x = L x) \<and>
      aggressive_decommit h' = aggressive_decommit h \<and>
      heap_pages (spans h) U \<subseteq> heap_pages (spans h') U' \<and> coarser (spans h) U (spans h') U')"

lemma keeps_refl [simp]: "keeps h U L h U L"
  by (simp add: keeps_def)

lemma keeps_trans [trans]: "keeps h U L h' U' L' \<Longrightarrow> keeps h' U' L' h'' U'' L'' \<Longrightarrow> keeps h U L h'' U'' L''"
  using coarser_trans by (auto simp: keeps_def)

text \<open>The fields the invariant does not look at.\<close>

lemma heap_inv_frame [simp]:
  "heap_inv res Fm C (h\<lparr>scavenge_counter := i\<rparr>) U L F = heap_inv res Fm C h U L F"
  "heap_inv res Fm C (h\<lparr>release_index := n\<rparr>) U L F = heap_inv res Fm C h U L F"
  "heap_inv res Fm C (h\<lparr>committed_bytes := w\<rparr>) U L F = heap_inv res Fm C h U L F"
  "heap_inv res Fm C (h\<lparr>system_bytes := w\<rparr>) U L F = heap_inv res Fm C h U L F"
  "imbalance (h\<lparr>scavenge_counter := i\<rparr>) U = imbalance h U"
  "imbalance (h\<lparr>release_index := n\<rparr>) U = imbalance h U"
  by (simp_all add: heap_inv_def sums_ok_def imbalance_def)

lemma keeps_frame [simp]:
  "keeps h U L (h'\<lparr>scavenge_counter := i\<rparr>) U' L' = keeps h U L h' U' L'"
  "keeps h U L (h'\<lparr>release_index := n\<rparr>) U' L' = keeps h U L h' U' L'"
  "keeps h U L (h'\<lparr>committed_bytes := w\<rparr>) U' L' = keeps h U L h' U' L'"
  "keeps h U L (h'\<lparr>system_bytes := w\<rparr>) U' L' = keeps h U L h' U' L'"
  "keeps (h\<lparr>scavenge_counter := i\<rparr>) U L h' U' L' = keeps h U L h' U' L'"
  "keeps (h\<lparr>release_index := n\<rparr>) U L h' U' L' = keeps h U L h' U' L'"
  "keeps (h\<lparr>committed_bytes := w\<rparr>) U L h' U' L' = keeps h U L h' U' L'"
  "keeps (h\<lparr>system_bytes := w\<rparr>) U L h' U' L' = keeps h U L h' U' L'"
  by (simp_all add: keeps_def)

lemma heap_invD:
  assumes "heap_inv res Fm C h U L F"
  shows "geom (spans h) U"
    "mapped (PageMap3_get BITS64 (pagemap h)) (PageMap3_ensured BITS64 (pagemap h)) (spans h) U"
    "lists_ok C (spans h) U L F" "sums_ok h (U - F)" "coalesced (spans h) (U - F)" "clean (spans h) U"
    "mem_ok res Fm (heap_meta h) (span_allocator h) (stacktrace_allocator h) U (heap_pages (spans h) U)"
    "mode_ok (aggressive_decommit h) (spans h) (U - F)"
  using assms by (simp_all add: heap_inv_def)

lemma heap_inv_Check: "heap_inv res Fm C h U L F \<Longrightarrow> Check h"
proof -
  assume I: "heap_inv res Fm C h U L F"
  note O = heap_invD(3) [OF I]
  have empty: "L x = []" if "x \<in> {FreeNormal 0, FreeReturned 0}" for x
  proof (rule ccontr)
    assume "L x \<noteq> []"
    then obtain s where s: "s \<in> set (L x)" by (cases "L x") auto
    have x: "x \<in> headers" using that by (auto simp: headers_def kMaxPages_def kPageShift_def)
    from lists_okD(5) [OF O x s] obtain a where a: "a \<in> U" "x = list_of (loc_of (spans h) a) (plen_of (spans h) a)" by blast
    have "0 < plen_of (spans h) a" using geomD(1) [OF heap_invD(1) [OF I] a(1)] .
    with a(2) that show False by (auto simp: list_of_def split: if_splits)
  qed
  have "DLL_IsEmpty (spans h) x" if "x \<in> {FreeNormal 0, FreeReturned 0}" for x
  proof -
    have "x \<in> headers \<union> C" using that by (auto simp: headers_def kMaxPages_def kPageShift_def)
    from dlls_dll [OF lists_okD(3) [OF O] this] show ?thesis using empty [OF that] by (simp add: dll_IsEmpty)
  qed
  then show ?thesis by (simp add: Check_def span_of_def DLL_IsEmpty_def)
qed

end
