(* ===== verification/Page_Heap_Free.thy ===== *)
theory Page_Heap_Free
  imports Page_Heap_Inv
begin

text \<open>
  Freeing: what the free-list steps, the merging of neighbours, the release of memory to the
  system and \<open>Delete\<close> do to the invariant. Every lemma states that the operation returns.
\<close>

section \<open>Steps on one span\<close>

lemma len_bytes_0 [simp]: "len_bytes 0 = 0"
  by (simp add: len_bytes_def)

lemma heap_invI:
  assumes "geom (spans h) U"
    "mapped (PageMap3_get BITS64 (pagemap h)) (PageMap3_ensured BITS64 (pagemap h)) (spans h) U"
    "lists_ok C (spans h) U L F" "sums_ok h (U - F)" "coalesced (spans h) (U - F)" "clean (spans h) U"
    "mem_ok res Fm (heap_meta h) (span_allocator h) (stacktrace_allocator h) U (heap_pages (spans h) U)"
    "mode_ok (aggressive_decommit h) (spans h) (U - F)"
  shows "heap_inv res Fm C h U L F"
  using assms by (simp add: heap_inv_def)

lemma imbalance_same:
  assumes "system_bytes h' = system_bytes h" "committed_bytes h' = committed_bytes h"
    "stat_sum (spans h') U' ON_RETURNED_FREELIST = stat_sum (spans h) U ON_RETURNED_FREELIST"
  shows "imbalance h' U' = imbalance h U"
  using assms by (simp add: imbalance_def)

lemma keeps_data:
  assumes "\<And>a. a \<in> U \<Longrightarrow> span_data (spans h' (Sp a)) = span_data (spans h (Sp a))"
    "\<And>x. x \<notin> headers \<Longrightarrow> L' x = L x" "aggressive_decommit h' = aggressive_decommit h"
  shows "keeps h U L h' U L'"
  using assms view_cong(3,4) [of U "spans h'" "spans h"] coarser_cong [of U "spans h'" "spans h"] by (simp add: keeps_def)

lemma RemoveFromFreeList_spec:
  assumes I: "heap_inv res Fm C h U L F" and a: "a \<in> U - F" "loc_of (spans h) a \<noteq> IN_USE"
  shows "\<exists>h' L' st f u. RemoveFromFreeList h (Sp a) = Some h' \<and>
    h' = h\<lparr>spans := st, free_bytes := f, unmapped_bytes := u\<rparr> \<and> heap_inv res Fm C h' U L' (insert a F) \<and>
    (\<forall>x. span_data (st x) = span_data (spans h x)) \<and> (\<forall>x. x \<notin> headers \<longrightarrow> L' x = L x)"
proof -
  note I' = heap_invD [OF I]
  let ?l = "loc_of (spans h) a" and ?n = "plen_of (spans h) a"
  obtain st L' where st: "DLL_Remove (spans h) (Sp a) = Some st" "lists_ok C st U L' (insert a F)"
    "\<forall>x. span_data (st x) = span_data (spans h x)" "\<forall>x. x \<notin> headers \<longrightarrow> L' x = L x"
    using lists_ok_remove [OF I'(3) a] by blast
  have c: "span_data (st (Sp x)) = span_data (spans h (Sp x))" for x using st(3) by simp
  have fin: "finite (U - F)" using geom_finite [OF I'(1)] by simp
  have e: "U - F - {a} = U - insert a F" by auto
  have sum: "stat_sum (spans h) (U - F) l = stat_sum st (U - insert a F) l + (if ?l = l then ?n else 0)" for l
    using stat_sum_remove [OF fin a(1), of "spans h" l] stat_sum_cong [of "U - insert a F" st "spans h" l] c
    by (simp add: e)
  let ?f = "if ?l = ON_NORMAL_FREELIST then free_bytes h - len_bytes ?n else free_bytes h"
  let ?u = "if ?l = ON_NORMAL_FREELIST then unmapped_bytes h else unmapped_bytes h - len_bytes ?n"
  let ?h = "h\<lparr>spans := st, free_bytes := ?f, unmapped_bytes := ?u\<rparr>"
  have op: "RemoveFromFreeList h (Sp a) = Some ?h"
    using a(2) st(1) by (simp add: RemoveFromFreeList_def span_of_def lift_dll_def Let_def)
  have "?l = ON_NORMAL_FREELIST \<or> ?l = ON_RETURNED_FREELIST" using a(2) by (cases ?l) auto
  then have "sums_ok ?h (U - insert a F)"
    using I'(4) sum by (auto simp: sums_ok_def len_bytes_add)
  moreover have "coalesced st (U - insert a F)"
    using coalesced_cong [of "U - insert a F" st "spans h"] c coalesced_subset [OF I'(5)] by blast
  moreover have "clean st U" using I'(6) span_data_fields [OF c] by (simp add: clean_def)
  moreover have "mode_ok (aggressive_decommit h) st (U - insert a F)"
    using mode_ok_cong [of "U - insert a F" st "spans h"] c mode_ok_subset [OF I'(8)] by blast
  ultimately have "heap_inv res Fm C ?h U L' (insert a F)"
    using I' st(2) view_cong [of U st "spans h"] mapped_cong [of U st "spans h"] c
    by (intro heap_invI) simp_all
  then show ?thesis using op st(3,4) by blast
qed

text \<open>\<open>PrependToFreeList\<close> on the level of the lists alone.\<close>

lemma PrependToFreeList_lists:
  assumes O: "lists_ok C (spans h) U L F" and a: "a \<in> F" "loc_of (spans h) a \<noteq> IN_USE"
  shows "\<exists>st L'. PrependToFreeList h (Sp a) = Some (h\<lparr>spans := st,
      free_bytes := (if loc_of (spans h) a = ON_NORMAL_FREELIST
        then free_bytes h + len_bytes (plen_of (spans h) a) else free_bytes h),
      unmapped_bytes := (if loc_of (spans h) a = ON_NORMAL_FREELIST
        then unmapped_bytes h else unmapped_bytes h + len_bytes (plen_of (spans h) a))\<rparr>) \<and>
    lists_ok C st U L' (F - {a}) \<and> (\<forall>x. span_data (st x) = span_data (spans h x)) \<and> (\<forall>x. x \<notin> headers \<longrightarrow> L' x = L x)"
proof -
  let ?l = "loc_of (spans h) a" and ?n = "plen_of (spans h) a"
  obtain st L' where st: "DLL_Prepend (spans h) (list_of ?l ?n) (Sp a) = Some st" "lists_ok C st U L' (F - {a})"
    "\<forall>x. span_data (st x) = span_data (spans h x)" "\<forall>x. x \<notin> headers \<longrightarrow> L' x = L x"
    using lists_ok_prepend [OF O a] by blast
  have "?l = ON_NORMAL_FREELIST \<or> ?l = ON_RETURNED_FREELIST" using a(2) by (cases ?l) auto
  with a(2) st show ?thesis
    by (intro exI [of _ st] exI [of _ L']) (auto simp: PrependToFreeList_def span_of_def lift_dll_def list_of_def Let_def)
qed

lemma PrependToFreeList_spec:
  assumes I: "heap_inv res Fm C h U L F" and a: "a \<in> F" "loc_of (spans h) a \<noteq> IN_USE"
    and co: "\<And>b. b \<in> U - F \<Longrightarrow> start_of (spans h) b + plen_of (spans h) b = start_of (spans h) a \<or>
      start_of (spans h) a + plen_of (spans h) a = start_of (spans h) b \<Longrightarrow> loc_of (spans h) b \<noteq> loc_of (spans h) a"
    and md: "aggressive_decommit h \<Longrightarrow> loc_of (spans h) a \<noteq> ON_NORMAL_FREELIST"
  shows "\<exists>h' L' st f u. PrependToFreeList h (Sp a) = Some h' \<and>
    h' = h\<lparr>spans := st, free_bytes := f, unmapped_bytes := u\<rparr> \<and> heap_inv res Fm C h' U L' (F - {a}) \<and>
    (\<forall>x. span_data (st x) = span_data (spans h x)) \<and> (\<forall>x. x \<notin> headers \<longrightarrow> L' x = L x)"
proof -
  note I' = heap_invD [OF I]
  let ?l = "loc_of (spans h) a" and ?n = "plen_of (spans h) a"
  let ?f = "if ?l = ON_NORMAL_FREELIST then free_bytes h + len_bytes ?n else free_bytes h"
  let ?u = "if ?l = ON_NORMAL_FREELIST then unmapped_bytes h else unmapped_bytes h + len_bytes ?n"
  obtain st L' where st: "PrependToFreeList h (Sp a) = Some (h\<lparr>spans := st, free_bytes := ?f, unmapped_bytes := ?u\<rparr>)"
    "lists_ok C st U L' (F - {a})" "\<forall>x. span_data (st x) = span_data (spans h x)" "\<forall>x. x \<notin> headers \<longrightarrow> L' x = L x"
    using PrependToFreeList_lists [OF I'(3) a] by blast
  let ?h = "h\<lparr>spans := st, free_bytes := ?f, unmapped_bytes := ?u\<rparr>"
  have c: "span_data (st (Sp x)) = span_data (spans h (Sp x))" for x using st(3) by simp
  have aU: "a \<in> U" using lists_okD(2) [OF I'(3)] a(1) by blast
  have fin: "finite (U - F)" using geom_finite [OF I'(1)] by simp
  have e: "U - (F - {a}) = insert a (U - F)" using aU by auto
  have sum: "stat_sum st (U - (F - {a})) l = stat_sum (spans h) (U - F) l + (if ?l = l then ?n else 0)" for l
    using stat_sum_insert [OF fin, of a "spans h" l] stat_sum_cong [of "U - (F - {a})" st "spans h" l] c a(1)
    by (simp add: e)
  have "?l = ON_NORMAL_FREELIST \<or> ?l = ON_RETURNED_FREELIST" using a(2) by (cases ?l) auto
  then have "sums_ok ?h (U - (F - {a}))"
    using I'(4) sum by (auto simp: sums_ok_def len_bytes_add)
  moreover have "coalesced (spans h) (insert a (U - F))"
    unfolding coalesced_def
  proof (intro ballI impI)
    fix x y
    assume xy: "x \<in> insert a (U - F)" "y \<in> insert a (U - F)"
      "start_of (spans h) x + plen_of (spans h) x = start_of (spans h) y" "loc_of (spans h) x = loc_of (spans h) y"
    have "0 < plen_of (spans h) x" using geomD(1) [OF I'(1)] xy(1) aU by blast
    then have "x \<noteq> y" using xy(3) by auto
    then show "loc_of (spans h) x = IN_USE"
      using xy co I'(5) unfolding coalesced_def by (metis insertE)
  qed
  then have "coalesced st (U - (F - {a}))"
    unfolding e using coalesced_cong [of "insert a (U - F)" st "spans h"] c by blast
  moreover have "clean st U" using I'(6) span_data_fields [OF c] by (simp add: clean_def)
  moreover have "mode_ok (aggressive_decommit h) (spans h) (insert a (U - F))" using I'(8) md by (simp add: mode_ok_def)
  then have "mode_ok (aggressive_decommit h) st (U - (F - {a}))"
    unfolding e using mode_ok_cong [of "insert a (U - F)" st "spans h"] c by blast
  ultimately have "heap_inv res Fm C ?h U L' (F - {a})"
    using I' st(2) view_cong [of U st "spans h"] mapped_cong [of U st "spans h"] c
    by (intro heap_invI) simp_all
  then show ?thesis using st by blast
qed

text \<open>A store into a floating span that leaves its place and its links.\<close>

lemma heap_inv_upd:
  assumes I: "heap_inv res Fm C h U L F" and a: "a \<in> F"
    and f: "x = spans h (Sp a)" "span_next (f x) = span_next x" "span_prev (f x) = span_prev x"
      "span_start (f x) = span_start x" "span_length (f x) = span_length x"
    and cl: "sizeclass (f x) = 0" "sample (f x) \<Longrightarrow> sample x"
  shows "heap_inv res Fm C (h\<lparr>spans := (spans h)(Sp a := f x)\<rparr>) U L F"
proof -
  note I' = heap_invD [OF I]
  let ?st = "(spans h)(Sp a := f x)"
  have ge: "start_of ?st b = start_of (spans h) b" "plen_of ?st b = plen_of (spans h) b" for b
    using f by auto
  then have e: "ext ?st = ext (spans h)" by (simp add: ext_def fun_eq_iff)
  have p: "heap_pages ?st = heap_pages (spans h)" by (simp add: heap_pages_def e fun_eq_iff)
  have aS: "a \<notin> U - F" using a by simp
  show ?thesis
  proof (rule heap_invI, simp_all)
    show "geom ?st U" using I'(1) unfolding geom_def ge e .
    show "mapped (PageMap3_get BITS64 (pagemap h)) (PageMap3_ensured BITS64 (pagemap h)) ?st U"
      unfolding mapped_def p e ge using I'(2) cl by (auto simp: mapped_def)
    show "lists_ok C ?st U L F"
      using lists_ok_upd [OF I'(3), of f a] f a by simp
    show "sums_ok (h\<lparr>spans := ?st\<rparr>) (U - F)" using I'(4) aS by (simp add: sums_ok_def)
    show "coalesced ?st (U - F)"
    proof -
      have "span_data (?st (Sp b)) = span_data (spans h (Sp b))" if "b \<in> U - F" for b using that aS by auto
      then show ?thesis using coalesced_cong [of "U - F" ?st "spans h"] I'(5) by simp
    qed
    show "clean ?st U" using I'(6) cl f(1) by (auto simp: clean_def)
    show "mem_ok res Fm (heap_meta h) (span_allocator h) (stacktrace_allocator h) U (heap_pages ?st U)"
      using I'(7) by (simp add: p)
    show "mode_ok (aggressive_decommit h) ?st (U - F)" using I'(8) aS by (auto simp: mode_ok_def)
  qed
qed

lemma heap_inv_float:
  assumes I: "heap_inv res Fm C h U L F" and a: "a \<in> U" "\<not> listed (headers \<union> C) L (Sp a)" "loc_of (spans h) a = IN_USE" "a \<notin> F"
  shows "heap_inv res Fm C h U L (insert a F)"
proof -
  note I' = heap_invD [OF I]
  have fin: "finite (U - F)" using geom_finite [OF I'(1)] by simp
  have e: "U - F - {a} = U - insert a F" by auto
  have "stat_sum (spans h) (U - insert a F) l = stat_sum (spans h) (U - F) l" if "l \<noteq> IN_USE" for l
    using stat_sum_remove [OF fin, of a "spans h" l] a that by (simp add: e)
  then have "sums_ok h (U - insert a F)" using I'(4) by (simp add: sums_ok_def)
  moreover have "mode_ok (aggressive_decommit h) (spans h) (U - insert a F)" by (rule mode_ok_subset [OF I'(8)]) auto
  ultimately show ?thesis
    using I' lists_ok_float [OF I'(3) a(1,2)] coalesced_subset [OF I'(5)] by (intro heap_invI) auto
qed

lemma heap_inv_unfloat:
  assumes I: "heap_inv res Fm C h U L F" and a: "loc_of (spans h) a = IN_USE" "a \<in> F"
    and o: "sums_ok h (U - F)"
  shows "heap_inv res Fm C h U L (F - {a})"
proof -
  note I' = heap_invD [OF I]
  have aU: "a \<in> U" using lists_okD(2) [OF I'(3)] a(2) by blast
  have fin: "finite (U - F)" using geom_finite [OF I'(1)] by simp
  have e: "U - (F - {a}) = insert a (U - F)" using aU by auto
  have "stat_sum (spans h) (U - (F - {a})) l = stat_sum (spans h) (U - F) l" if "l \<noteq> IN_USE" for l
    unfolding e using stat_sum_insert [OF fin, of a "spans h" l] a that by simp
  then have "sums_ok h (U - (F - {a}))" using I'(4) by (simp add: sums_ok_def)
  moreover have "coalesced (spans h) (U - (F - {a}))"
    unfolding e using I'(5) a(1) by (auto simp: coalesced_def)
  moreover have "mode_ok (aggressive_decommit h) (spans h) (U - (F - {a}))" unfolding e using I'(8) a(1) by (simp add: mode_ok_def)
  ultimately show ?thesis
    using I' lists_ok_unfloat [OF I'(3) a(1)] by (intro heap_invI) auto
qed

section \<open>Merging\<close>

text \<open>A floating span takes over a free neighbour: the common part of the two merging steps.\<close>

lemma absorb:
  assumes I: "heap_inv res Fm C h U L F" and a: "a \<in> F" and b: "b \<in> U - F"
    and loc: "loc_of (spans h) b = loc_of (spans h) a \<or> loc_of (spans h) b = ON_RETURNED_FREELIST \<and> loc_of (spans h) a = ON_NORMAL_FREELIST"
      "loc_of (spans h) a \<noteq> IN_USE"
    and f: "\<And>x. span_start x = start_of (spans h) a \<Longrightarrow> span_length x = plen_of (spans h) a \<Longrightarrow>
        f x = x\<lparr>span_start := S, span_length := plen_of (spans h) a + plen_of (spans h) b\<rparr>"
    and e: "extent S (plen_of (spans h) a + plen_of (spans h) b) = ext (spans h) a \<union> ext (spans h) b"
    and q: "q = S \<and> S + plen_of (spans h) b = start_of (spans h) a \<or>
        S = start_of (spans h) a \<and> q = S + plen_of (spans h) a + plen_of (spans h) b - 1"
  shows "\<exists>h1 h2 h3 h4 L'. RemoveFromFreeList h (Sp b) = Some h1 \<and> DeleteSpan h1 (Sp b) = Some h2 \<and>
    upd_span h2 (Sp a) f = Some h3 \<and> span_of h3 (Sp a) = f (span_of h2 (Sp a)) \<and>
    start_of (spans h3) a = S \<and> plen_of (spans h3) a = plen_of (spans h) a + plen_of (spans h) b \<and>
    pagemap_set h3 q (Sp a) = Some h4 \<and> heap_inv res Fm C h4 (U - {b}) L' F \<and> keeps h U L h4 (U - {b}) L' \<and>
    imbalance h4 (U - {b}) = imbalance h U + (if loc_of (spans h) b = loc_of (spans h) a then 0 else len_bytes (plen_of (spans h) b)) \<and>
    heap_pages (spans h4) (U - {b}) = heap_pages (spans h) U \<and>
    spans h4 = spans h3 \<and> loc_of (spans h4) a = loc_of (spans h) a \<and>
    (\<forall>x. x \<noteq> a \<longrightarrow> span_data (spans h4 (Sp x)) = span_data (spans h (Sp x)))"
proof -
  note I' = heap_invD [OF I]
  let ?st = "spans h" and ?N = "plen_of (spans h) a + plen_of (spans h) b"
  have ab: "a \<in> U" "b \<in> U" "a \<noteq> b" "b \<notin> F" using lists_okD(2) [OF I'(3)] a b by auto
  have lb: "loc_of ?st b \<noteq> IN_USE" using loc by auto
  obtain h1 L' st fb ub where r: "RemoveFromFreeList h (Sp b) = Some h1"
    "h1 = h\<lparr>spans := st, free_bytes := fb, unmapped_bytes := ub\<rparr>" "heap_inv res Fm C h1 U L' (insert b F)"
    "\<forall>x. span_data (st x) = span_data (?st x)" "\<forall>x. x \<notin> headers \<longrightarrow> L' x = L x"
    using RemoveFromFreeList_spec [OF I b lb] by blast
  note J = heap_invD [OF r(3)]
  have c: "span_data (st (Sp x)) = span_data (?st (Sp x))" for x using r(4) by simp
  note cf = span_data_fields [OF c]
  obtain O1 O2 T where M: "meta_inv res (heap_meta h) (O1 \<union> O2 \<union> page_bytes (heap_pages ?st U))" "O1 \<inter> O2 = {}"
     "(O1 \<union> O2) \<inter> page_bytes (heap_pages ?st U) = {}" "span_objs_ok (span_allocator h) U O1"
     "pha_inv sizeof_StackTrace (stacktrace_allocator h) T O2" "Fm \<subseteq> O2"
    using I'(7) unfolding mem_ok_def by blast
  obtain al where al: "PageHeapAllocator_Delete (heap_meta h, span_allocator h) b = Some (heap_meta h, al)"
    "span_objs_ok al (U - {b}) O1"
    using span_objs_Delete [OF M(4) ab(2)] by blast
  let ?h2 = "h1\<lparr>heap_meta := heap_meta h, span_allocator := al\<rparr>"
  have h2: "DeleteSpan h1 (Sp b) = Some ?h2" using al(1) by (simp add: DeleteSpan_def r(2))
  have fa: "f (st (Sp a)) = (st (Sp a))\<lparr>span_start := S, span_length := ?N\<rparr>" using f [of "st (Sp a)"] by (simp add: cf)
  let ?st3 = "st(Sp a := f (st (Sp a)))"
  let ?h3 = "?h2\<lparr>spans := ?st3\<rparr>"
  have h3: "upd_span ?h2 (Sp a) f = Some ?h3" by (simp add: upd_span_def r(2))
  have x3: "x \<noteq> a \<Longrightarrow> ?st3 (Sp x) = st (Sp x)" for x by simp
  have e3: "ext ?st3 a = ext ?st a \<union> ext ?st b" using e by (simp add: ext_def fa)
  have e3': "ext ?st3 x = ext ?st x" "plen_of ?st3 x = plen_of ?st x" "loc_of ?st3 x = loc_of ?st x"
      "start_of ?st3 x = start_of ?st x" "class_of ?st3 x = class_of ?st x" if "x \<noteq> a" for x
    using that by (simp_all add: ext_def cf)
  have la: "loc_of ?st3 a = loc_of ?st a" "class_of ?st3 a = class_of ?st a" by (simp_all add: fa cf)
  have Npos: "0 < plen_of ?st3 a" using geomD(1) [OF I'(1) ab(1)] by (simp add: fa)
  have st3a: "start_of ?st3 a = S" "plen_of ?st3 a = ?N" by (simp_all add: fa)
  have G: "geom ?st3 (U - {b})" "heap_pages ?st3 (U - {b}) = heap_pages ?st U"
    by (rule geom_absorb [OF I'(1) ab(1-3) e3 e3'(1) Npos e3'(2)]; assumption)+
  have qin: "q \<in> ext ?st3 a" 
    using q geomD(1) [OF I'(1) ab(1)] geomD(1) [OF I'(1) ab(2)] unfolding ext_def mem_extent st3a by linarith
  then have "q \<in> heap_pages ?st3 (U - {b})" using ab by (auto simp: heap_pages_def)
  then have ens: "PageMap3_ensured BITS64 (pagemap h) q" using I'(2) unfolding mapped_def G(2) by blast
  obtain pm where pm: "PageMap3_set BITS64 (pagemap h) q (Some (Sp a)) = Some pm"
    using pm3.put_ok [OF ens] by blast
  have pm': "PageMap3_get BITS64 pm = (PageMap3_get BITS64 (pagemap h))(q := Some (Sp a))"
    "PageMap3_ensured BITS64 pm = PageMap3_ensured BITS64 (pagemap h)"
    using pm3.get_put [OF ens pm] pm3.ensured_put [OF ens pm] by auto
  let ?h4 = "?h3\<lparr>pagemap := pm\<rparr>"
  have h4: "pagemap_set ?h3 q (Sp a) = Some ?h4" by (simp add: pagemap_set_def pm r(2))
  have class0: "class_of ?st a = 0" using I'(6) ab(1) loc(2) by (simp add: clean_def)
  define g where "g = PageMap3_get BITS64 (pagemap h)"
  have map: "mapped (PageMap3_get BITS64 pm) (PageMap3_ensured BITS64 pm) ?st3 (U - {b})"
    unfolding mapped_def pm' G(2) g_def [symmetric]
  proof (intro conjI ballI impI allI)
    fix x assume x: "x \<in> U - {b}"
    have nq: "p \<noteq> q" if "x \<noteq> a" "p \<in> ext ?st3 x" for p
      using geom_disjoint [OF G(1), of x a p] qin x ab that by blast
    have d: "g (start_of ?st x) = Some (Sp x)" "g (start_of ?st x + plen_of ?st x - 1) = Some (Sp x)"
      using mappedD(1,2) [OF I'(2)] x by (simp_all add: g_def)
    show "(g(q := Some (Sp a))) (start_of ?st3 x) = Some (Sp x)"
    proof (cases "x = a")
      case True
      have "(g(q := Some (Sp a))) S = Some (Sp a)" using q d(1) True by (metis fun_upd_apply)
      then show ?thesis unfolding True st3a .
    next
      case False
      then show ?thesis using nq [OF False geomD(4) [OF G(1) x]] d(1) e3' by simp
    qed
    show "(g(q := Some (Sp a))) (start_of ?st3 x + plen_of ?st3 x - 1) = Some (Sp x)"
    proof (cases "x = a")
      case True
      have "S + plen_of ?st b = start_of ?st a \<Longrightarrow> S + ?N - 1 = start_of ?st a + plen_of ?st a - 1" by linarith
      then have "(g(q := Some (Sp a))) (S + ?N - 1) = Some (Sp a)"
        using q d(2) True by (metis fun_upd_apply add.assoc)
      then show ?thesis unfolding True st3a .
    next
      case False
      then show ?thesis using nq [OF False geomD(5) [OF G(1) x]] d(2) e3' by simp
    qed
    fix p assume p: "class_of ?st3 x \<noteq> 0" "p \<in> ext ?st3 x"
    then have "x \<noteq> a" using class0 la(2) by auto
    then show "(g(q := Some (Sp a))) p = Some (Sp x)"
      using nq [OF _ p(2)] mappedD(3) [OF I'(2), of x p] x e3' p by (simp add: g_def cf)
  next
    fix p assume "p \<in> heap_pages ?st U"
    then show "PageMap3_ensured BITS64 (pagemap h) p" using I'(2) by (auto simp: mapped_def)
  next
    fix p assume "(g(q := Some (Sp a))) p \<noteq> None"
    then show "p \<in> heap_pages ?st U"
      using I'(2) \<open>q \<in> heap_pages ?st3 (U - {b})\<close> G(2) by (auto simp: mapped_def g_def split: if_splits)
  qed
  have lists: "lists_ok C ?st3 (U - {b}) L' F"
  proof -
    have "lists_ok C st U L' (insert b F)" using J(3) by (simp add: r(2))
    from lists_ok_delete [OF this, of b] ab(4) have "lists_ok C st (U - {b}) L' F" by simp
    from lists_ok_upd [OF this, of f a] a show ?thesis by (simp add: fa)
  qed
  have S: "U - {b} - F = U - insert b F" "a \<notin> U - insert b F" using a by auto
  have sums: "sums_ok ?h4 (U - {b} - F)"
    using J(4) S by (simp add: sums_ok_def r(2))
  have "coalesced st (U - insert b F)" using J(5) by (simp add: r(2))
  then have coal: "coalesced ?st3 (U - {b} - F)"
    unfolding S(1) using coalesced_cong [of "U - insert b F" ?st3 st] S(2) by force
  have cln: "clean ?st3 (U - {b})"
    unfolding clean_def
  proof (intro ballI impI conjI)
    fix x assume "x \<in> U - {b}" "loc_of ?st3 x \<noteq> IN_USE"
    then show "class_of ?st3 x = 0" using I'(6) e3' la class0 by (cases "x = a") (auto simp: clean_def)
  next
    fix x assume "x \<in> U - {b}"
    then have "\<not> sample (?st (Sp x))" using I'(6) by (simp add: clean_def)
    then show "\<not> sample (?st3 (Sp x))" using cf(7) [of x] by (cases "x = a") (simp_all add: fa)
  qed
  have mem: "mem_ok res Fm (heap_meta h) al (stacktrace_allocator h) (U - {b}) (heap_pages ?st3 (U - {b}))"
    unfolding mem_ok_def G(2) using M al(2) by blast
  have "mode_ok (aggressive_decommit h) st (U - insert b F)" using J(8) by (simp add: r(2))
  then have mode: "mode_ok (aggressive_decommit h) ?st3 (U - {b} - F)" using S by (auto simp: mode_ok_def)
  have H: "heap_inv res Fm C ?h4 (U - {b}) L' F"
    using G map lists sums coal cln mem mode by (intro heap_invI) (simp_all add: r(2))
  have inu: "inuse_view ?st3 (U - {b}) = inuse_view ?st U"
  proof
    fix x
    show "inuse_view ?st3 (U - {b}) x = inuse_view ?st U x"
      using e3' la lb loc(2) c by (cases "x = a"; cases "x = b") (simp_all add: inuse_view_def)
  qed
  have fin: "finite U" using geom_finite [OF I'(1)] .
  have bal: "imbalance ?h4 (U - {b}) = imbalance h U + (if loc_of ?st b = loc_of ?st a then 0 else len_bytes (plen_of ?st b))"
  proof -
    let ?l = ON_RETURNED_FREELIST
    have "stat_sum ?st3 (U - {b} - {a}) ?l = stat_sum ?st (U - {b} - {a}) ?l"
      by (rule stat_sum_cong) (use c in auto)
    moreover have "stat_sum ?st3 (U - {b}) ?l = stat_sum ?st3 (U - {b} - {a}) ?l + (if loc_of ?st3 a = ?l then plen_of ?st3 a else 0)"
      by (rule stat_sum_remove) (use fin ab in auto)
    moreover have "stat_sum ?st (U - {b}) ?l = stat_sum ?st (U - {b} - {a}) ?l + (if loc_of ?st a = ?l then plen_of ?st a else 0)"
      by (rule stat_sum_remove) (use fin ab in auto)
    moreover have "stat_sum ?st U ?l = stat_sum ?st (U - {b}) ?l + (if loc_of ?st b = ?l then plen_of ?st b else 0)"
      by (rule stat_sum_remove) (use fin ab in auto)
    moreover have "plen_of ?st3 a = ?N" by (simp add: fa)
    ultimately have "stat_sum ?st U ?l = stat_sum ?st3 (U - {b}) ?l + (if loc_of ?st b = loc_of ?st a then 0 else plen_of ?st b)"
      using la(1) loc(1) by (auto split: if_splits)
    then show ?thesis by (simp add: imbalance_def r(2) len_bytes_add)
  qed
  have co: "coarser ?st U ?st3 (U - {b})"
    unfolding coarser_def
  proof (intro ballI impI)
    fix x assume x: "x \<in> U" "loc_of ?st x \<noteq> IN_USE"
    show "\<exists>y\<in>U - {b}. loc_of ?st3 y \<noteq> IN_USE \<and> ext ?st x \<subseteq> ext ?st3 y"
    proof (cases "x = a \<or> x = b")
      case True
      then show ?thesis using ab la(1) loc(2) e3 by (intro bexI [of _ a]) auto
    next
      case False
      then show ?thesis using x e3' by (intro bexI [of _ x]) auto
    qed
  qed
  have k: "keeps h U L ?h4 (U - {b}) L'" using inu r(5) G(2) co by (simp add: keeps_def r(2))
  have D: "\<forall>x. x \<noteq> a \<longrightarrow> span_data (spans ?h4 (Sp x)) = span_data (?st (Sp x))" using c by simp
  show ?thesis
  proof (intro exI conjI)
    show "RemoveFromFreeList h (Sp b) = Some h1" by (rule r(1))
    show "DeleteSpan h1 (Sp b) = Some ?h2" by (rule h2)
    show "upd_span ?h2 (Sp a) f = Some ?h3" by (rule h3)
    show "pagemap_set ?h3 q (Sp a) = Some ?h4" by (rule h4)
    show "heap_inv res Fm C ?h4 (U - {b}) L' F" by (rule H)
  qed (use k bal G(2) la(1) D in \<open>simp_all add: span_of_def r(2) fa\<close>)
qed

lemma add64_small: "a + b < 2 ^ 64 \<Longrightarrow> add64 a b = a + b"
  by (simp add: add64_def)

lemma sub64_small: "b \<le> a \<Longrightarrow> a < 2 ^ 64 \<Longrightarrow> sub64 a b = a - b"
proof -
  assume "b \<le> a" "a < 2 ^ 64"
  then have "(int a - int b) mod 2 ^ 64 = int a - int b" by (intro mod_pos_pos_trivial) auto
  then show ?thesis by (simp add: sub64_def nat_diff_distrib)
qed

text \<open>\<open>merged_left g st S a\<close>: no span of \<open>S\<close> that ends where \<open>a\<close> starts has the location of \<open>a\<close>; in the
  aggressive mode \<open>g\<close> none of them is free.\<close>

definition merged_left :: "bool \<Rightarrow> store \<Rightarrow> addr set \<Rightarrow> addr \<Rightarrow> bool" where
  "merged_left g st S a = (\<forall>b\<in>S. start_of st b + plen_of st b = start_of st a \<longrightarrow> (if g then loc_of st b = IN_USE else loc_of st b \<noteq> loc_of st a))"

definition merged_right :: "bool \<Rightarrow> store \<Rightarrow> addr set \<Rightarrow> addr \<Rightarrow> bool" where
  "merged_right g st S a = (\<forall>b\<in>S. start_of st a + plen_of st a = start_of st b \<longrightarrow> (if g then loc_of st b = IN_USE else loc_of st b \<noteq> loc_of st a))"

text \<open>A free neighbour that may be merged has the same location, or is returned in the aggressive mode.\<close>

lemma MayMergeSpans_loc:
  assumes "MayMergeSpans h (Sp a) (Sp b)" "mode_ok (aggressive_decommit h) (spans h) S" "b \<in> S" "loc_of (spans h) a \<noteq> IN_USE"
    "aggressive_decommit h \<Longrightarrow> loc_of (spans h) a = ON_NORMAL_FREELIST"
  shows "loc_of (spans h) b = loc_of (spans h) a \<or> loc_of (spans h) b = ON_RETURNED_FREELIST \<and> loc_of (spans h) a = ON_NORMAL_FREELIST"
    "loc_of (spans h) b \<noteq> IN_USE" "aggressive_decommit h \<and> loc_of (spans h) b = ON_RETURNED_FREELIST \<longleftrightarrow> loc_of (spans h) b \<noteq> loc_of (spans h) a"
    "aggressive_decommit h \<Longrightarrow> loc_of (spans h) b = ON_RETURNED_FREELIST"
    "\<not> aggressive_decommit h \<Longrightarrow> loc_of (spans h) b = loc_of (spans h) a"
  using assms mode_okD [OF assms(2) _ assms(3)] by (cases "loc_of (spans h) b"; auto simp: MayMergeSpans_def span_of_def split: if_splits)+

text \<open>The neighbours of a span that is merged are not merged further.\<close>

lemma coalesced_beyond:
  assumes "coalesced st S" "b \<in> S" "c \<in> S" "start_of st c + plen_of st c = start_of st b \<or> start_of st b + plen_of st b = start_of st c"
    "loc_of st b \<noteq> IN_USE" "mode_ok g st S" "g \<Longrightarrow> loc_of st b = ON_RETURNED_FREELIST" "\<not> g \<Longrightarrow> loc_of st b = l"
  shows "if g then loc_of st c = IN_USE else loc_of st c \<noteq> l"
proof -
  have n: "loc_of st c = IN_USE \<or> loc_of st c \<noteq> loc_of st b" using assms(1-5) unfolding coalesced_def by metis
  show ?thesis
  proof (cases g)
    case True
    then have "loc_of st c \<noteq> ON_NORMAL_FREELIST" "loc_of st b = ON_RETURNED_FREELIST" using mode_okD [OF assms(6) _ assms(3)] assms(7) by blast+
    then show ?thesis using n True by (cases "loc_of st c") simp_all
  qed (use n assms(5,8) in auto)
qed

lemma if_swap: "P \<longleftrightarrow> \<not> Q \<Longrightarrow> (if P then x else y) = (if Q then y else x)"
  by simp

lemma coalescedD:
  "coalesced st S \<Longrightarrow> a \<in> S \<Longrightarrow> b \<in> S \<Longrightarrow> start_of st a + plen_of st a = start_of st b \<Longrightarrow>
   loc_of st a \<noteq> IN_USE \<Longrightarrow> loc_of st a \<noteq> loc_of st b"
  by (auto simp: coalesced_def)

lemma MergePrev_spec:
  assumes I: "heap_inv res Fm C h U L {a}" and loc: "loc_of (spans h) a \<noteq> IN_USE" and ag: "aggressive_decommit h \<Longrightarrow> loc_of (spans h) a = ON_NORMAL_FREELIST"
  shows "\<exists>h' temp U' L'. MergePrev h (Sp a) (start_of (spans h) a) = Some (h', temp) \<and> (\<not> aggressive_decommit h \<longrightarrow> temp = 0) \<and> heap_inv res Fm C h' U' L' {a} \<and>
    keeps h U L h' U' L' \<and> imbalance h' U' = imbalance h U + temp \<and> heap_pages (spans h') U' = heap_pages (spans h) U \<and>
    loc_of (spans h') a = loc_of (spans h) a \<and> merged_left (aggressive_decommit h) (spans h') (U' - {a}) a \<and>
    start_of (spans h') a + plen_of (spans h') a = start_of (spans h) a + plen_of (spans h) a \<and> U' \<subseteq> U \<and>
    (\<forall>x\<in>U. loc_of (spans h) x = ON_NORMAL_FREELIST \<and> loc_of (spans h) a \<noteq> ON_NORMAL_FREELIST \<longrightarrow> x \<in> U') \<and>
    (\<forall>x. x \<noteq> a \<longrightarrow> span_data (spans h' (Sp x)) = span_data (spans h (Sp x)))"
proof -
  note I' = heap_invD [OF I]
  let ?st = "spans h" and ?p = "start_of (spans h) a"
  have aU: "a \<in> U" using lists_okD(2) [OF I'(3)] by blast
  note g = geomD [OF I'(1) aU]
  have d: "dec64 ?p = ?p - 1" using g(2) by simp
  define prev where "prev = GetDescriptor h (?p - 1)"
  have pv: "prev = Sp b" if "b \<in> U" "start_of ?st b + plen_of ?st b = ?p" for b
    using mappedD(2) [OF I'(2) that(1)] that(2) by (simp add: prev_def GetDescriptor_def)
  show ?thesis
  proof (cases "prev \<noteq> SNull \<and> MayMergeSpans h (Sp a) prev")
    case False
    then have "MergePrev h (Sp a) ?p = Some (h, 0)"
      unfolding MergePrev_def d Let_def prev_def [symmetric] by (rule if_not_P)
    moreover have "merged_left (aggressive_decommit h) ?st (U - {a}) a"
      unfolding merged_left_def
    proof (intro ballI impI)
      fix b assume "b \<in> U - {a}" "start_of ?st b + plen_of ?st b = ?p"
      with pv [of b] have "prev = Sp b" by simp
      with False show "if aggressive_decommit h then loc_of ?st b = IN_USE else loc_of ?st b \<noteq> loc_of ?st a"
        by (auto simp: MayMergeSpans_def span_of_def)
    qed
    ultimately show ?thesis using I by (intro exI [of _ h] exI [of _ 0] exI [of _ U] exI [of _ L]) simp
  next
    case True
    then have "PageMap3_get BITS64 (pagemap h) (?p - 1) \<noteq> None" by (auto simp: prev_def GetDescriptor_def split: option.splits)
    then obtain x where "PageMap3_get BITS64 (pagemap h) (?p - 1) = Some x" by blast
    from mapped_prev [OF I'(2,1) aU this] obtain b where b: "b \<in> U" "b \<noteq> a" "start_of ?st b + plen_of ?st b = ?p" by blast
    have pb: "prev = Sp b" using pv b by blast
    note gb = geomD [OF I'(1) b(1)]
    let ?N = "plen_of ?st a + plen_of ?st b"
    let ?f = "\<lambda>x. x\<lparr>span_start := sub64 (span_start x) (plen_of ?st b), span_length := add64 (span_length x) (plen_of ?st b)\<rparr>"
    have f: "?f x = x\<lparr>span_start := start_of ?st b, span_length := ?N\<rparr>"
      if "span_start x = ?p" "span_length x = plen_of ?st a" for x
      using that g(3) gb(3) b(3) by (simp add: sub64_small add64_small)
    have e: "extent (start_of ?st b) ?N = ext ?st a \<union> ext ?st b"
      using extent_add [of "start_of ?st b" "plen_of ?st b" "plen_of ?st a"] b(3) by (simp add: ext_def Un_commute add.commute)
    have bF: "b \<in> U - {a}" "a \<in> {a}" using b by auto
    have mm: "MayMergeSpans h (Sp a) (Sp b)" using True pb by simp
    note lb = MayMergeSpans_loc [OF mm I'(8) bF(1) loc ag]
    let ?temp = "if loc_of ?st b = loc_of ?st a then 0 else len_bytes (plen_of ?st b)"
    have qq: "start_of ?st b = start_of ?st b \<and> start_of ?st b + plen_of ?st b = start_of ?st a \<or>
        start_of ?st b = start_of ?st a \<and> start_of ?st b = start_of ?st b + plen_of ?st a + plen_of ?st b - 1"
      using b(3) by simp
    obtain h1 h2 h3 h4 L' where r: "RemoveFromFreeList h (Sp b) = Some h1" "DeleteSpan h1 (Sp b) = Some h2"
      "upd_span h2 (Sp a) ?f = Some h3" "start_of (spans h3) a = start_of ?st b" "plen_of (spans h3) a = ?N"
      "pagemap_set h3 (start_of ?st b) (Sp a) = Some h4" "heap_inv res Fm C h4 (U - {b}) L' {a}" "keeps h U L h4 (U - {b}) L'"
      "imbalance h4 (U - {b}) = imbalance h U + ?temp" "heap_pages (spans h4) (U - {b}) = heap_pages ?st U"
      "spans h4 = spans h3" "loc_of (spans h4) a = loc_of ?st a"
      "\<forall>x. x \<noteq> a \<longrightarrow> span_data (spans h4 (Sp x)) = span_data (?st (Sp x))"
      using absorb [OF I bF(2,1) lb(1) loc f e qq] by blast
    have op: "MergePrev h (Sp a) ?p = Some (h4, ?temp)"
    proof -
      have gd: "GetDescriptor h (dec64 ?p) = Sp b" using pb unfolding prev_def d .
      have t: "(if aggressive_decommit h \<and> loc_of ?st b = ON_RETURNED_FREELIST then len_bytes (plen_of ?st b) else 0) = ?temp"
        by (rule if_swap [OF lb(3)])
      show ?thesis using r(1-4,6) b(3) mm unfolding t [symmetric] by (simp add: MergePrev_def Let_def gd span_of_def)
    qed
    have ml: "merged_left (aggressive_decommit h) (spans h4) (U - {b} - {a}) a"
      unfolding merged_left_def
    proof (intro ballI impI)
      fix c assume c: "c \<in> U - {b} - {a}" "start_of (spans h4) c + plen_of (spans h4) c = start_of (spans h4) a"
      note cf = span_data_fields [OF r(13) [rule_format, of c]]
      have adj: "start_of ?st c + plen_of ?st c = start_of ?st b" using c cf r(4,11) by simp
      have "if aggressive_decommit h then loc_of ?st c = IN_USE else loc_of ?st c \<noteq> loc_of ?st a"
        by (rule coalesced_beyond [OF I'(5) bF(1) _ _ lb(2) I'(8) lb(4,5)]) (use c(1) adj in auto)
      then show "if aggressive_decommit h then loc_of (spans h4) c = IN_USE else loc_of (spans h4) c \<noteq> loc_of (spans h4) a"
        using c cf r(12) by simp
    qed
    have "start_of (spans h4) a + plen_of (spans h4) a = ?p + plen_of ?st a" using r(4,5,11) b(3) by simp
    moreover have "x \<in> U - {b}" if "x \<in> U" "loc_of ?st x = ON_NORMAL_FREELIST" "loc_of ?st a \<noteq> ON_NORMAL_FREELIST" for x
      using that lb(1) by auto
    moreover have "\<not> aggressive_decommit h \<longrightarrow> ?temp = 0" using lb(5) by simp
    ultimately show ?thesis using op r ml by (intro exI [of _ h4] exI [of _ ?temp] exI [of _ "U - {b}"] exI [of _ L']) blast
  qed
qed

lemma MergeNext_spec:
  assumes I: "heap_inv res Fm C h U L {a}" and loc: "loc_of (spans h) a \<noteq> IN_USE" and ag: "aggressive_decommit h \<Longrightarrow> loc_of (spans h) a = ON_NORMAL_FREELIST"
    and ml: "merged_left (aggressive_decommit h) (spans h) (U - {a}) a" and q: "q = start_of (spans h) a + plen_of (spans h) a"
  shows "\<exists>h' t U' L'. MergeNext h (Sp a) q temp = Some (h', temp + t) \<and> (\<not> aggressive_decommit h \<longrightarrow> t = 0) \<and> heap_inv res Fm C h' U' L' {a} \<and>
    keeps h U L h' U' L' \<and> imbalance h' U' = imbalance h U + t \<and> heap_pages (spans h') U' = heap_pages (spans h) U \<and>
    loc_of (spans h') a = loc_of (spans h) a \<and> merged_left (aggressive_decommit h) (spans h') (U' - {a}) a \<and>
    merged_right (aggressive_decommit h) (spans h') (U' - {a}) a \<and> U' \<subseteq> U \<and>
    (\<forall>x\<in>U. loc_of (spans h) x = ON_NORMAL_FREELIST \<and> loc_of (spans h) a \<noteq> ON_NORMAL_FREELIST \<longrightarrow> x \<in> U') \<and>
    (\<forall>x. x \<noteq> a \<longrightarrow> span_data (spans h' (Sp x)) = span_data (spans h (Sp x)))"
proof -
  note I' = heap_invD [OF I]
  let ?st = "spans h"
  have aU: "a \<in> U" using lists_okD(2) [OF I'(3)] by blast
  note g = geomD [OF I'(1) aU]
  define nxt where "nxt = GetDescriptor h q"
  have pv: "nxt = Sp b" if "b \<in> U" "q = start_of ?st b" for b
    using mappedD(1) [OF I'(2) that(1)] that(2) by (simp add: nxt_def GetDescriptor_def)
  show ?thesis
  proof (cases "nxt \<noteq> SNull \<and> MayMergeSpans h (Sp a) nxt")
    case False
    then have "MergeNext h (Sp a) q temp = Some (h, temp)"
      unfolding MergeNext_def Let_def nxt_def [symmetric] by (rule if_not_P)
    moreover have "merged_right (aggressive_decommit h) ?st (U - {a}) a"
      unfolding merged_right_def
    proof (intro ballI impI)
      fix b assume "b \<in> U - {a}" "start_of ?st a + plen_of ?st a = start_of ?st b"
      with pv [of b] q have "nxt = Sp b" by simp
      with False show "if aggressive_decommit h then loc_of ?st b = IN_USE else loc_of ?st b \<noteq> loc_of ?st a"
        by (auto simp: MayMergeSpans_def span_of_def)
    qed
    ultimately show ?thesis using I ml by (intro exI [of _ h] exI [of _ 0] exI [of _ U] exI [of _ L]) simp
  next
    case True
    then have "PageMap3_get BITS64 (pagemap h) q \<noteq> None" by (auto simp: nxt_def GetDescriptor_def split: option.splits)
    then obtain x where "PageMap3_get BITS64 (pagemap h) q = Some x" by blast
    from mapped_next [OF I'(2,1) aU this [unfolded q]] obtain b where
      b: "b \<in> U" "b \<noteq> a" "start_of ?st b = q" using q by auto
    have pb: "nxt = Sp b" using pv b by blast
    note gb = geomD [OF I'(1) b(1)]
    let ?N = "plen_of ?st a + plen_of ?st b" and ?S = "start_of ?st a"
    let ?f = "\<lambda>x. x\<lparr>span_length := add64 (span_length x) (plen_of ?st b)\<rparr>"
    have f: "?f x = x\<lparr>span_start := ?S, span_length := ?N\<rparr>"
      if "span_start x = ?S" "span_length x = plen_of ?st a" for x
      using that g(3) gb(3) by (simp add: add64_small)
    have e: "extent ?S ?N = ext ?st a \<union> ext ?st b"
      using extent_add [of ?S "plen_of ?st a" "plen_of ?st b"] b(3) q by (simp add: ext_def)
    have bF: "b \<in> U - {a}" "a \<in> {a}" using b by auto
    have mm: "MayMergeSpans h (Sp a) (Sp b)" using True pb by simp
    note lb = MayMergeSpans_loc [OF mm I'(8) bF(1) loc ag]
    let ?t = "if loc_of ?st b = loc_of ?st a then 0 else len_bytes (plen_of ?st b)"
    let ?e = "?S + plen_of ?st a + plen_of ?st b - 1"
    have qq: "?e = ?S \<and> ?S + plen_of ?st b = start_of ?st a \<or>
        ?S = start_of ?st a \<and> ?e = ?S + plen_of ?st a + plen_of ?st b - 1"
      by simp
    obtain h1 h2 h3 h4 L' where r: "RemoveFromFreeList h (Sp b) = Some h1" "DeleteSpan h1 (Sp b) = Some h2"
      "upd_span h2 (Sp a) ?f = Some h3" "start_of (spans h3) a = ?S" "plen_of (spans h3) a = ?N"
      "pagemap_set h3 (?S + plen_of ?st a + plen_of ?st b - 1) (Sp a) = Some h4"
      "heap_inv res Fm C h4 (U - {b}) L' {a}" "keeps h U L h4 (U - {b}) L'"
      "imbalance h4 (U - {b}) = imbalance h U + ?t" "heap_pages (spans h4) (U - {b}) = heap_pages ?st U"
      "spans h4 = spans h3" "loc_of (spans h4) a = loc_of ?st a"
      "\<forall>x. x \<noteq> a \<longrightarrow> span_data (spans h4 (Sp x)) = span_data (?st (Sp x))"
      using absorb [OF I bF(2,1) lb(1) loc f e qq] by blast
    have "(if aggressive_decommit h \<and> loc_of ?st b = ON_RETURNED_FREELIST then temp + len_bytes (plen_of ?st b) else temp) =
        (if loc_of ?st b = loc_of ?st a then temp else temp + len_bytes (plen_of ?st b))"
      by (rule if_swap [OF lb(3)])
    also have "\<dots> = temp + ?t" by simp
    finally have t: "(if aggressive_decommit h \<and> loc_of ?st b = ON_RETURNED_FREELIST then temp + len_bytes (plen_of ?st b) else temp) = temp + ?t" .
    have op: "MergeNext h (Sp a) q temp = Some (h4, temp + ?t)"
      using True r(1-6) b(3) unfolding t [symmetric]
      by (simp add: MergeNext_def Let_def nxt_def [symmetric] pb span_of_def add.assoc)
    have fld: "start_of (spans h4) c = start_of ?st c" "plen_of (spans h4) c = plen_of ?st c" "loc_of (spans h4) c = loc_of ?st c"
      if "c \<noteq> a" for c using span_data_fields [OF r(13) [rule_format, OF that]] by auto
    have ml': "merged_left (aggressive_decommit h) (spans h4) (U - {b} - {a}) a"
      using ml fld r(4,11,12) by (auto simp: merged_left_def)
    have mr: "merged_right (aggressive_decommit h) (spans h4) (U - {b} - {a}) a"
      unfolding merged_right_def
    proof (intro ballI impI)
      fix c assume c: "c \<in> U - {b} - {a}" "start_of (spans h4) a + plen_of (spans h4) a = start_of (spans h4) c"
      have adj: "start_of ?st b + plen_of ?st b = start_of ?st c" using c fld r(4,5,11) b(3) q by simp
      have "if aggressive_decommit h then loc_of ?st c = IN_USE else loc_of ?st c \<noteq> loc_of ?st a"
        by (rule coalesced_beyond [OF I'(5) bF(1) _ _ lb(2) I'(8) lb(4,5)]) (use c(1) adj in auto)
      then show "if aggressive_decommit h then loc_of (spans h4) c = IN_USE else loc_of (spans h4) c \<noteq> loc_of (spans h4) a"
        using c fld r(12) by simp
    qed
    have "x \<in> U - {b}" if "x \<in> U" "loc_of ?st x = ON_NORMAL_FREELIST" "loc_of ?st a \<noteq> ON_NORMAL_FREELIST" for x
      using that lb(1) by auto
    moreover have "U - {b} \<subseteq> U" by blast
    moreover have "\<not> aggressive_decommit h \<longrightarrow> ?t = 0" using lb(5) by simp
    ultimately show ?thesis using op r ml' mr by (intro exI [of _ h4] exI [of _ ?t] exI [of _ "U - {b}"] exI [of _ L']) blast
  qed
qed

section \<open>Releasing memory\<close>

abbreviation normal_sum :: "'os page_heap \<Rightarrow> addr set \<Rightarrow> nat" where
  "normal_sum h U \<equiv> stat_sum (spans h) U ON_NORMAL_FREELIST"

lemma span_in_res:
  assumes I: "heap_inv res Fm C h U L F" and a: "a \<in> U"
  shows "extent (start_of (spans h) a * 2 ^ kPageShift) (plen_of (spans h) a * 2 ^ kPageShift) \<subseteq>
    res (os (sysm (heap_meta h)))"
proof -
  have "ext (spans h) a \<subseteq> heap_pages (spans h) U" using a by (auto simp: heap_pages_def)
  then have "page_bytes (ext (spans h) a) \<subseteq> page_bytes (heap_pages (spans h) U)" by (auto simp: page_bytes_def)
  also have "\<dots> \<subseteq> res (os (sysm (heap_meta h)))" by (rule mem_ok_res [OF heap_invD(7) [OF I]])
  finally show ?thesis by (simp only: ext_def page_bytes_extent)
qed

lemma heap_inv_os:
  assumes I: "heap_inv res Fm C h U L F" and s: "res s = res (os (sysm (heap_meta h)))"
  shows "heap_inv res Fm C (h\<lparr>heap_meta := (heap_meta h)\<lparr>sysm := (sysm (heap_meta h))\<lparr>os := s\<rparr>\<rparr>\<rparr>) U L F"
proof -
  note I' = heap_invD [OF I]
  show ?thesis
    by (rule heap_invI) (use I' mem_ok_same_res [OF I'(7) s] in \<open>simp_all add: sums_ok_def\<close>)
qed

lemma DecommitSpan_spec:
  assumes K: "os_contract (os_calls E) res" and I: "heap_inv res Fm C h U L F" and a: "a \<in> U"
  shows "\<exists>m. DecommitSpan E h (Sp a) =
      Some (True, h\<lparr>heap_meta := m, committed_bytes := committed_bytes h - len_bytes (plen_of (spans h) a)\<rparr>) \<and>
    heap_inv res Fm C (h\<lparr>heap_meta := m, committed_bytes := committed_bytes h - len_bytes (plen_of (spans h) a)\<rparr>) U L F"
proof -
  obtain s where s: "TCMalloc_SystemRelease (os_calls E) (start_of (spans h) a * 2 ^ kPageShift)
      (plen_of (spans h) a * 2 ^ kPageShift) (sysm (heap_meta h)) = Some (True, (sysm (heap_meta h))\<lparr>os := s\<rparr>)"
    "res s = res (os (sysm (heap_meta h)))"
    using TCMalloc_SystemRelease_spec [OF K span_in_res [OF I a]] by blast
  let ?m = "(heap_meta h)\<lparr>sysm := (sysm (heap_meta h))\<lparr>os := s\<rparr>\<rparr>"
  have "DecommitSpan E h (Sp a) =
      Some (True, h\<lparr>heap_meta := ?m, committed_bytes := committed_bytes h - len_bytes (plen_of (spans h) a)\<rparr>)"
    by (simp add: DecommitSpan_def span_of_def s(1) Let_def)
  moreover have "heap_inv res Fm C (h\<lparr>heap_meta := ?m, committed_bytes := committed_bytes h - len_bytes (plen_of (spans h) a)\<rparr>) U L F"
    using heap_inv_os [OF I s(2)] by simp
  ultimately show ?thesis by blast
qed

definition normal_header :: "nat \<Rightarrow> span_ptr" where
  "normal_header i = (if i = kMaxPages then LargeNormal else FreeNormal i)"

lemma normal_header_in: "i \<le> kMaxPages \<Longrightarrow> normal_header i \<in> headers"
  by (auto simp: normal_header_def headers_def)

lemma normal_header_list: "list_of l n = normal_header i \<Longrightarrow> l \<noteq> IN_USE \<Longrightarrow> l = ON_NORMAL_FREELIST"
  by (cases l) (auto simp: normal_header_def list_of_def split: if_splits)

lemma normal_list: "\<exists>i \<le> kMaxPages. list_of ON_NORMAL_FREELIST n = normal_header i"
proof (cases "n < kMaxPages")
  case True
  then show ?thesis by (intro exI [of _ n]) (simp add: normal_header_def list_of_def)
next
  case False
  then show ?thesis by (intro exI [of _ kMaxPages]) (simp add: normal_header_def list_of_def)
qed

lemma header_is_empty:
  assumes "heap_inv res Fm C h U L F" "x \<in> headers"
  shows "DLL_IsEmpty (spans h) x = (L x = [])"
  using dll_IsEmpty [OF dlls_dll [OF lists_okD(3) [OF heap_invD(3) [OF assms(1)]], of x]] assms(2) by blast

text \<open>Setting the location of a floating span that was normal to \<open>returned\<close>.\<close>

lemma stat_sum_relocate:
  assumes "finite U" "a \<in> U" "plen_of st a = span_length x" "location x = l'" "l \<noteq> loc_of st a"
  shows "stat_sum (st(Sp a := x)) U l = stat_sum st U l + (if l' = l then plen_of st a else 0)"
proof -
  have "stat_sum (st(Sp a := x)) U l = stat_sum (st(Sp a := x)) (U - {a}) l + (if l' = l then plen_of st a else 0)"
    using stat_sum_remove [OF assms(1,2), of "st(Sp a := x)" l] assms(3,4) by simp
  moreover have "stat_sum (st(Sp a := x)) (U - {a}) l = stat_sum st (U - {a}) l" by simp
  moreover have "stat_sum st U l = stat_sum st (U - {a}) l"
    using stat_sum_remove [OF assms(1,2), of st l] assms(5) by auto
  ultimately show ?thesis by simp
qed

text \<open>The last part of \<open>MergeIntoFreeList\<close> in the aggressive mode: the merged span is decommitted and returned.\<close>

lemma merged_decommit:
  assumes K: "os_contract (os_calls E) res" and I: "heap_inv res Fm C h U L {a}" and n: "loc_of (spans h) a = ON_NORMAL_FREELIST"
  shows "\<exists>h1. (do { (rv, h) \<leftarrow> DecommitSpan E h (Sp a);
        if rv then do { h \<leftarrow> upd_span h (Sp a) (\<lambda>x. x\<lparr>location := ON_RETURNED_FREELIST\<rparr>); Some (h\<lparr>committed_bytes := committed_bytes h + temp\<rparr>) }
        else do { CHECK (temp = 0); Some h } }) = Some h1 \<and>
    heap_inv res Fm C h1 U L {a} \<and> keeps h U L h1 U L \<and> imbalance h1 U = imbalance h U - temp \<and>
    heap_pages (spans h1) U = heap_pages (spans h) U \<and> loc_of (spans h1) a = ON_RETURNED_FREELIST \<and>
    start_of (spans h1) a = start_of (spans h) a \<and> plen_of (spans h1) a = plen_of (spans h) a \<and>
    (\<forall>x. x \<noteq> a \<longrightarrow> spans h1 (Sp x) = spans h (Sp x))"
proof -
  note I' = heap_invD [OF I]
  let ?n = "plen_of (spans h) a" and ?f = "\<lambda>x :: Span. x\<lparr>location := ON_RETURNED_FREELIST\<rparr>"
  have aU: "a \<in> U" using lists_okD(2) [OF I'(3)] by blast
  have fin: "finite U" using geom_finite [OF I'(1)] .
  obtain m where m: "DecommitSpan E h (Sp a) = Some (True, h\<lparr>heap_meta := m, committed_bytes := committed_bytes h - len_bytes ?n\<rparr>)"
    "heap_inv res Fm C (h\<lparr>heap_meta := m, committed_bytes := committed_bytes h - len_bytes ?n\<rparr>) U L {a}"
    using DecommitSpan_spec [OF K I aU] by blast
  let ?st = "(spans h)(Sp a := ?f (spans h (Sp a)))"
  let ?h = "h\<lparr>heap_meta := m, spans := ?st, committed_bytes := committed_bytes h - len_bytes ?n + temp\<rparr>"
  have "class_of (spans h) a = 0" using I'(6) aU n by (simp add: clean_def)
  then have "heap_inv res Fm C (h\<lparr>heap_meta := m, committed_bytes := committed_bytes h - len_bytes ?n, spans := ?st\<rparr>) U L {a}"
    using heap_inv_upd [OF m(2) _ refl, of a ?f] by simp
  then have "heap_inv res Fm C (h\<lparr>heap_meta := m, committed_bytes := committed_bytes h - len_bytes ?n, spans := ?st\<rparr>
      \<lparr>committed_bytes := committed_bytes h - len_bytes ?n + temp\<rparr>) U L {a}" by (simp only: heap_inv_frame(3))
  then have H: "heap_inv res Fm C ?h U L {a}" by simp
  have sum: "stat_sum ?st U ON_RETURNED_FREELIST = stat_sum (spans h) U ON_RETURNED_FREELIST + ?n"
    using stat_sum_relocate [OF fin aU, of "spans h" "?f (spans h (Sp a))" _ ON_RETURNED_FREELIST] n by simp
  have e: "ext ?st = ext (spans h)" by (simp add: ext_def fun_eq_iff)
  then have p: "heap_pages ?st U = heap_pages (spans h) U" by (simp add: heap_pages_def)
  have "inuse_view ?st U = inuse_view (spans h) U" using n by (auto simp: inuse_view_def fun_eq_iff)
  moreover have "coarser (spans h) U ?st U" unfolding coarser_def using e by (intro ballI impI) (rule bexI, auto)
  ultimately have "keeps h U L ?h U L" using p by (simp add: keeps_def)
  moreover have "imbalance ?h U = imbalance h U - temp" using sum by (simp add: imbalance_def len_bytes_add)
  ultimately show ?thesis using m(1) H p by (intro exI [of _ ?h]) (simp add: upd_span_def)
qed

text \<open>The whole of \<open>MergeIntoFreeList\<close>, in both modes.\<close>

lemma MergeIntoFreeList_spec:
  assumes K: "os_contract (os_calls E) res" and I: "heap_inv res Fm C h U L {a}" and loc: "loc_of (spans h) a \<noteq> IN_USE"
    and ag: "aggressive_decommit h \<Longrightarrow> loc_of (spans h) a = ON_NORMAL_FREELIST"
  shows "\<exists>h' U' L'. MergeIntoFreeList E h (Sp a) = Some h' \<and> heap_inv res Fm C h' U' L' {} \<and>
    keeps h U L h' U' L' \<and> imbalance h' U' = imbalance h U \<and> heap_pages (spans h') U' = heap_pages (spans h) U \<and>
    U' \<subseteq> U \<and> a \<in> U' \<and> loc_of (spans h') a = (if aggressive_decommit h then ON_RETURNED_FREELIST else loc_of (spans h) a) \<and>
    (\<forall>x\<in>U. loc_of (spans h) x = ON_NORMAL_FREELIST \<and> loc_of (spans h) a \<noteq> ON_NORMAL_FREELIST \<longrightarrow> x \<in> U') \<and>
    (\<forall>x. x \<noteq> a \<longrightarrow> span_data (spans h' (Sp x)) = span_data (spans h (Sp x)))"
proof -
  note I' = heap_invD [OF I]
  have aU: "a \<in> U" using lists_okD(2) [OF I'(3)] by blast
  note g = geomD [OF I'(1) aU]
  let ?p = "start_of (spans h) a" and ?n = "plen_of (spans h) a" and ?g = "aggressive_decommit h"
  obtain h1 t1 U1 L1 where r1: "MergePrev h (Sp a) ?p = Some (h1, t1)" "heap_inv res Fm C h1 U1 L1 {a}"
    "keeps h U L h1 U1 L1" "imbalance h1 U1 = imbalance h U + t1" "heap_pages (spans h1) U1 = heap_pages (spans h) U"
    "loc_of (spans h1) a = loc_of (spans h) a" "merged_left ?g (spans h1) (U1 - {a}) a"
    "start_of (spans h1) a + plen_of (spans h1) a = ?p + ?n" "U1 \<subseteq> U"
    "\<forall>x\<in>U. loc_of (spans h) x = ON_NORMAL_FREELIST \<and> loc_of (spans h) a \<noteq> ON_NORMAL_FREELIST \<longrightarrow> x \<in> U1"
    "\<forall>x. x \<noteq> a \<longrightarrow> span_data (spans h1 (Sp x)) = span_data (spans h (Sp x))" "\<not> ?g \<longrightarrow> t1 = 0"
    using MergePrev_spec [OF I loc ag] by blast
  have loc1: "loc_of (spans h1) a \<noteq> IN_USE" using r1(6) loc by simp
  have g1: "aggressive_decommit h1 = ?g" using r1(3) by (simp add: keeps_def)
  have ag1: "aggressive_decommit h1 \<Longrightarrow> loc_of (spans h1) a = ON_NORMAL_FREELIST" using ag g1 r1(6) by simp
  have q: "add64 ?p ?n = ?p + ?n" using g(3) by (simp add: add64_small)
  obtain h2 t2 U2 L2 where r2: "MergeNext h1 (Sp a) (?p + ?n) t1 = Some (h2, t1 + t2)" "heap_inv res Fm C h2 U2 L2 {a}"
    "keeps h1 U1 L1 h2 U2 L2" "imbalance h2 U2 = imbalance h1 U1 + t2" "heap_pages (spans h2) U2 = heap_pages (spans h1) U1"
    "loc_of (spans h2) a = loc_of (spans h1) a" "merged_left ?g (spans h2) (U2 - {a}) a" "merged_right ?g (spans h2) (U2 - {a}) a"
    "U2 \<subseteq> U1" "\<forall>x\<in>U1. loc_of (spans h1) x = ON_NORMAL_FREELIST \<and> loc_of (spans h1) a \<noteq> ON_NORMAL_FREELIST \<longrightarrow> x \<in> U2"
    "\<forall>x. x \<noteq> a \<longrightarrow> span_data (spans h2 (Sp x)) = span_data (spans h1 (Sp x))" "\<not> ?g \<longrightarrow> t2 = 0"
    using MergeNext_spec [OF r1(2) loc1 ag1 r1(7) [folded g1] r1(8) [symmetric], of t1] unfolding g1 by blast
  have g2: "aggressive_decommit h2 = ?g" using r2(3) g1 by (simp add: keeps_def)
  let ?dec = "if aggressive_decommit h2 then do { (rv, h) \<leftarrow> DecommitSpan E h2 (Sp a);
        if rv then do { h \<leftarrow> upd_span h (Sp a) (\<lambda>x. x\<lparr>location := ON_RETURNED_FREELIST\<rparr>); Some (h\<lparr>committed_bytes := committed_bytes h + (t1 + t2)\<rparr>) }
        else do { CHECK (t1 + t2 = 0); Some h } } else Some h2"
  have t0: "t1 + t2 = 0" if "\<not> ?g" using r1(12) r2(12) that by simp
  obtain h3 where r3: "?dec = Some h3" "heap_inv res Fm C h3 U2 L2 {a}" "keeps h2 U2 L2 h3 U2 L2" "imbalance h3 U2 = imbalance h2 U2 - (t1 + t2)"
    "heap_pages (spans h3) U2 = heap_pages (spans h2) U2" "loc_of (spans h3) a = (if ?g then ON_RETURNED_FREELIST else loc_of (spans h) a)"
    "start_of (spans h3) a = start_of (spans h2) a" "plen_of (spans h3) a = plen_of (spans h2) a" "\<forall>x. x \<noteq> a \<longrightarrow> spans h3 (Sp x) = spans h2 (Sp x)"
  proof (cases ?g)
    case True
    then have "loc_of (spans h2) a = ON_NORMAL_FREELIST" using ag r1(6) r2(6) by simp
    from merged_decommit [OF K r2(2) this, of "t1 + t2"] that True g2 show thesis by auto
  next
    case False
    then show thesis using that [of h2] r2(2,6) r1(6) g2 t0 by simp
  qed
  have loc3: "loc_of (spans h3) a \<noteq> IN_USE" using r3(6) loc by simp
  have g3: "aggressive_decommit h3 = ?g" using r3(3) g2 by (simp add: keeps_def)
  have co: "loc_of (spans h3) b \<noteq> loc_of (spans h3) a"
    if "b \<in> U2 - {a}" "start_of (spans h3) b + plen_of (spans h3) b = start_of (spans h3) a \<or>
      start_of (spans h3) a + plen_of (spans h3) a = start_of (spans h3) b" for b
  proof -
    have b: "spans h3 (Sp b) = spans h2 (Sp b)" using r3(9) that(1) by blast
    then have "if ?g then loc_of (spans h2) b = IN_USE else loc_of (spans h2) b \<noteq> loc_of (spans h2) a"
      using that r2(7,8) r3(7,8) unfolding merged_left_def merged_right_def by metis
    then show ?thesis using b r3(6) r1(6) r2(6) by (auto split: if_splits)
  qed
  have md: "aggressive_decommit h3 \<Longrightarrow> loc_of (spans h3) a \<noteq> ON_NORMAL_FREELIST" using g3 r3(6) by simp
  have aF: "a \<in> {a}" by simp
  obtain h4 L4 st f u where r4: "PrependToFreeList h3 (Sp a) = Some h4" "h4 = h3\<lparr>spans := st, free_bytes := f, unmapped_bytes := u\<rparr>"
    "heap_inv res Fm C h4 U2 L4 ({a} - {a})" "\<forall>x. span_data (st x) = span_data (spans h3 x)" "\<forall>x. x \<notin> headers \<longrightarrow> L4 x = L2 x"
    using PrependToFreeList_spec [OF r3(2) aF loc3 co md] by blast
  have D: "span_data (spans h4 (Sp x)) = span_data (spans h3 (Sp x))" for x using r4(2,4) by simp
  have k4: "keeps h3 U2 L2 h4 U2 L4" by (rule keeps_data) (use D r4(2,5) in simp_all)
  have s4: "stat_sum (spans h4) U2 l = stat_sum (spans h3) U2 l" for l by (rule stat_sum_cong) (rule D)
  have i4: "imbalance h4 U2 = imbalance h3 U2" by (rule imbalance_same) (use s4 in \<open>simp_all add: r4(2)\<close>)
  have p4: "heap_pages (spans h4) U2 = heap_pages (spans h3) U2" by (rule view_cong(3)) (rule D)
  have op: "MergeIntoFreeList E h (Sp a) = Some h4"
    using loc r1(1) r2(1) r3(1) r4(1) q by (simp add: MergeIntoFreeList_def span_of_def Let_def)
  have a2: "a \<in> U2" using lists_okD(2) [OF heap_invD(3) [OF r2(2)]] by blast
  have fr: "x \<in> U2" if "x \<in> U" "loc_of (spans h) x = ON_NORMAL_FREELIST" "loc_of (spans h) a \<noteq> ON_NORMAL_FREELIST" for x
  proof -
    have "x \<noteq> a" using that by auto
    then have "loc_of (spans h1) x = ON_NORMAL_FREELIST"
      using span_data_fields(6) [OF r1(11) [rule_format, of x]] that(2) by simp
    moreover have "x \<in> U1" using r1(10) that by blast
    ultimately show ?thesis using r2(10) r1(6) that(3) by simp
  qed
  have "keeps h U L h4 U2 L4" using keeps_trans [OF keeps_trans [OF keeps_trans [OF r1(3) r2(3)] r3(3)] k4] .
  moreover have "imbalance h4 U2 = imbalance h U" using i4 r3(4) r2(4) r1(4) by simp
  moreover have "heap_pages (spans h4) U2 = heap_pages (spans h) U" using p4 r3(5) r2(5) r1(5) by simp
  moreover have "loc_of (spans h4) a = (if ?g then ON_RETURNED_FREELIST else loc_of (spans h) a)" using span_data_fields(6) [OF D] r3(6) by simp
  moreover have "span_data (spans h4 (Sp x)) = span_data (spans h (Sp x))" if "x \<noteq> a" for x using D r3(9) r2(11) r1(11) that by simp
  ultimately show ?thesis using op r4(3) a2 fr r2(9) r1(9) by (intro exI [of _ h4] exI [of _ U2] exI [of _ L4]) auto
qed

lemma ReleaseLastNormalSpan_spec:
  assumes K: "os_contract (os_calls E) res" and I: "heap_inv res Fm C h U L {}" and B: "imbalance h U = 0"
    and i: "i \<le> kMaxPages" "L (normal_header i) \<noteq> []"
  shows "\<exists>n h' U' L'. ReleaseLastNormalSpan E h (normal_header i) = Some (n, h') \<and> heap_inv res Fm C h' U' L' {} \<and>
    imbalance h' U' = 0 \<and> keeps h U L h' U' L' \<and> heap_pages (spans h') U' = heap_pages (spans h) U \<and>
    0 < n \<and> normal_sum h' U' + n = normal_sum h U"
proof -
  note I' = heap_invD [OF I]
  let ?H = "normal_header i" and ?st = "spans h"
  have hd: "?H \<in> headers" using normal_header_in [OF i(1)] .
  have d: "dll ?st ?H (L ?H)" using dlls_dll [OF lists_okD(3) [OF I'(3)]] hd by blast
  have "last (L ?H) \<in> set (L ?H)" using i(2) by simp
  then obtain a where a: "a \<in> U" "last (L ?H) = Sp a" "loc_of ?st a \<noteq> IN_USE" "?H = list_of (loc_of ?st a) (plen_of ?st a)"
    using lists_okD(5) [OF I'(3) hd, of "last (L ?H)"] by auto
  have s: "span_prev (?st ?H) = Sp a" using dll_last [OF d i(2)] a(2) by simp
  have ln: "loc_of ?st a = ON_NORMAL_FREELIST" using normal_header_list [OF a(4) [symmetric] a(3)] .
  have ag: "\<not> aggressive_decommit h" using mode_okD [OF I'(8), of a] a(1) ln by auto
  let ?n = "plen_of ?st a"
  have fin: "finite U" using geom_finite [OF I'(1)] .
  obtain m where m: "DecommitSpan E h (Sp a) = Some (True, h\<lparr>heap_meta := m, committed_bytes := committed_bytes h - len_bytes ?n\<rparr>)"
    "heap_inv res Fm C (h\<lparr>heap_meta := m, committed_bytes := committed_bytes h - len_bytes ?n\<rparr>) U L {}"
    using DecommitSpan_spec [OF K I a(1)] by blast
  let ?h1 = "h\<lparr>heap_meta := m, committed_bytes := committed_bytes h - len_bytes ?n\<rparr>"
  obtain h2 L2 st2 f2 u2 where r2: "RemoveFromFreeList ?h1 (Sp a) = Some h2"
    "h2 = ?h1\<lparr>spans := st2, free_bytes := f2, unmapped_bytes := u2\<rparr>" "heap_inv res Fm C h2 U L2 (insert a {})"
    "\<forall>x. span_data (st2 x) = span_data (spans ?h1 x)" "\<forall>x. x \<notin> headers \<longrightarrow> L2 x = L x"
    using RemoveFromFreeList_spec [OF m(2), of a] a by auto
  have D2: "span_data (st2 (Sp x)) = span_data (?st (Sp x))" for x using r2(4) by simp
  note f2 = span_data_fields [OF D2]
  let ?f = "\<lambda>x. x\<lparr>location := ON_RETURNED_FREELIST\<rparr>"
  let ?st3 = "st2(Sp a := ?f (st2 (Sp a)))"
  let ?h3 = "h2\<lparr>spans := (spans h2)(Sp a := ?f (spans h2 (Sp a)))\<rparr>"
  have sp2: "spans h2 = st2" "spans ?h3 = ?st3" by (simp_all add: r2(2))
  have c0: "class_of st2 a = 0" using I'(6) a f2 by (simp add: clean_def)
  have inv3: "heap_inv res Fm C ?h3 U L2 {a}"
    using heap_inv_upd [OF r2(3) _ refl, of a ?f] c0 sp2(1) by simp
  have u3: "upd_span h2 (Sp a) ?f = Some ?h3" by (simp add: upd_span_def)
  have loc3: "loc_of (spans ?h3) a \<noteq> IN_USE" by simp
  have ag3: "\<not> aggressive_decommit ?h3" using ag by (simp add: r2(2))
  have sum2: "stat_sum st2 U l = stat_sum ?st U l" for l by (rule stat_sum_cong) (rule D2)
  have sum3: "stat_sum ?st3 U ON_RETURNED_FREELIST = stat_sum ?st U ON_RETURNED_FREELIST + ?n"
    using stat_sum_relocate [OF fin a(1), of st2 "?f (st2 (Sp a))" _ ON_RETURNED_FREELIST] ln f2 sum2 by simp
  have imb3: "imbalance ?h3 U = 0"
    using B sum3 by (simp add: imbalance_def r2(2) len_bytes_add)
  have rest: "stat_sum ?st3 (U - {a}) l = stat_sum ?st (U - {a}) l" for l
    by (rule stat_sum_cong) (use D2 in auto)
  obtain h4 U4 L4 where r4: "MergeIntoFreeList E ?h3 (Sp a) = Some h4" "heap_inv res Fm C h4 U4 L4 {}"
    "keeps ?h3 U L2 h4 U4 L4" "imbalance h4 U4 = imbalance ?h3 U" "heap_pages (spans h4) U4 = heap_pages (spans ?h3) U"
    "U4 \<subseteq> U" "a \<in> U4" "loc_of (spans h4) a = loc_of (spans ?h3) a"
    "\<forall>x\<in>U. loc_of (spans ?h3) x = ON_NORMAL_FREELIST \<and> loc_of (spans ?h3) a \<noteq> ON_NORMAL_FREELIST \<longrightarrow> x \<in> U4"
    "\<forall>x. x \<noteq> a \<longrightarrow> span_data (spans h4 (Sp x)) = span_data (spans ?h3 (Sp x))"
    using MergeIntoFreeList_spec [OF K inv3 loc3] ag3 by auto
  have f4: "loc_of (spans h4) x = loc_of ?st x" "plen_of (spans h4) x = plen_of ?st x" if "x \<noteq> a" for x
    using span_data_fields [OF r4(10) [rule_format, OF that]] that f2 by (simp_all add: sp2)
  have la4: "loc_of (spans h4) a = ON_RETURNED_FREELIST" using r4(8) by simp
  have "{x \<in> U4. loc_of (spans h4) x = ON_NORMAL_FREELIST} = {x \<in> U. loc_of ?st x = ON_NORMAL_FREELIST} - {a}"
  proof (rule set_eqI)
    fix x
    show "x \<in> {x \<in> U4. loc_of (spans h4) x = ON_NORMAL_FREELIST} \<longleftrightarrow> x \<in> {x \<in> U. loc_of ?st x = ON_NORMAL_FREELIST} - {a}"
      using r4(6,9) f4 la4 f2(6) by (cases "x = a") (auto simp: sp2)
  qed
  then have "normal_sum h4 U4 = (\<Sum>x\<in>{x \<in> U. loc_of ?st x = ON_NORMAL_FREELIST} - {a}. plen_of ?st x)"
    unfolding stat_sum_def by (rule sum.cong) (use f4(2) in auto)
  also have "\<dots> + ?n = normal_sum h U"
    unfolding stat_sum_def using fin a(1) ln by (subst sum.remove [of _ a]) auto
  finally have ns: "normal_sum h4 U4 + ?n = normal_sum h U" .
  have inu: "inuse_view ?st3 U = inuse_view ?st U"
    using ln f2 D2 by (auto simp: inuse_view_def fun_eq_iff)
  have ext3: "ext ?st3 = ext ?st" using f2 by (simp add: ext_def fun_eq_iff)
  then have p3: "heap_pages ?st3 U = heap_pages ?st U" by (simp add: heap_pages_def)
  have "coarser ?st U ?st3 U"
    unfolding coarser_def using f2 ext3 by (intro ballI impI) (rule bexI, auto)
  then have k3: "keeps h U L ?h3 U L2" using inu p3 r2(5) by (simp add: keeps_def r2(2))
  have op: "ReleaseLastNormalSpan E h ?H = Some (?n, h4)"
    using s ln m(1) r2(1) u3 r4(1) f2 by (simp add: ReleaseLastNormalSpan_def span_of_def Let_def sp2)
  have "0 < ?n" using geomD(1) [OF I'(1) a(1)] .
  then show ?thesis using op r4(2,4,5) imb3 keeps_trans [OF k3 r4(3)] p3 sp2(2) ns by metis
qed

text \<open>The index at which the next round looks.\<close>

definition next_index :: "'os page_heap \<Rightarrow> nat" where
  "next_index h = (if release_index h > kMaxPages then 0 else release_index h)"

text \<open>A pass either releases a span or finds the \<open>k\<close> lists it visits empty.\<close>

lemma Release_pass_spec:
  assumes K: "os_contract (os_calls E) res"
  shows "heap_inv res Fm C h U L {} \<Longrightarrow> imbalance h U = 0 \<Longrightarrow>
    released + normal_sum h U < 2 ^ 40 \<Longrightarrow>
    \<exists>r h' U' L'. Release_pass E k h num released = Some (False, r, h') \<and> heap_inv res Fm C h' U' L' {} \<and>
      imbalance h' U' = 0 \<and> keeps h U L h' U' L' \<and> heap_pages (spans h') U' = heap_pages (spans h) U \<and>
      r + normal_sum h' U' = released + normal_sum h U \<and> released \<le> r \<and>
      (r = released \<longrightarrow> released < num \<longrightarrow>
        (\<forall>j < k. L (normal_header ((next_index h + j) mod (kMaxPages + 1))) = []))"
proof (induction k arbitrary: h U L released)
  case 0
  then show ?case by (intro exI [of _ released] exI [of _ h] exI [of _ U] exI [of _ L]) simp
next
  case (Suc k)
  note I = Suc.prems(1) and B = Suc.prems(2) and bound = Suc.prems(3)
  let ?i = "next_index h" and ?h0 = "h\<lparr>release_index := next_index h\<rparr>"
  have i: "?i \<le> kMaxPages" by (simp add: next_index_def)
  have I0: "heap_inv res Fm C ?h0 U L {}" "imbalance ?h0 U = 0" using I B by simp_all
  have hd: "normal_header ?i \<in> headers" using normal_header_in [OF i] .
  have e: "DLL_IsEmpty (spans ?h0) (normal_header ?i) = (L (normal_header ?i) = [])"
    using header_is_empty [OF I hd] by simp
  have hdr: "(if next_index h = kMaxPages then LargeNormal else FreeNormal (next_index h)) = normal_header ?i"
    by (simp add: normal_header_def)
  have i0: "?i mod (kMaxPages + 1) = ?i" using i by simp
  show ?case
  proof (cases "released < num")
    case False
    then show ?thesis using Suc.prems by (intro exI [of _ released] exI [of _ h] exI [of _ U] exI [of _ L]) simp
  next
    case True
    show ?thesis
    proof (cases "L (normal_header ?i) = []")
      case False
      obtain n h1 U1 L1 where r1: "ReleaseLastNormalSpan E ?h0 (normal_header ?i) = Some (n, h1)"
        "heap_inv res Fm C h1 U1 L1 {}" "imbalance h1 U1 = 0" "keeps ?h0 U L h1 U1 L1"
        "heap_pages (spans h1) U1 = heap_pages (spans ?h0) U" "0 < n" "normal_sum h1 U1 + n = normal_sum ?h0 U"
        using ReleaseLastNormalSpan_spec [OF K I0 i False] by blast
      let ?h1 = "h1\<lparr>release_index := release_index h1 + 1\<rparr>"
      have ad: "add64 released n = released + n" using bound r1(7) by (simp add: add64_small)
      obtain r h2 U2 L2 where r2: "Release_pass E k ?h1 num (released + n) = Some (False, r, h2)"
        "heap_inv res Fm C h2 U2 L2 {}" "imbalance h2 U2 = 0" "keeps ?h1 U1 L1 h2 U2 L2"
        "heap_pages (spans h2) U2 = heap_pages (spans ?h1) U1" "r + normal_sum h2 U2 = released + n + normal_sum ?h1 U1"
        "released + n \<le> r"
        using Suc.IH [of ?h1 U1 L1 "released + n"] r1 bound by auto
      have op: "Release_pass E (Suc k) h num released = Some (False, r, h2)"
        using True False r1(1,6) r2(1) e ad
        by (simp add: Let_def next_index_def [symmetric] hdr)
      have kk: "keeps h U L h2 U2 L2" using keeps_trans [OF r1(4)] r2(4) by simp
      show ?thesis using op r2 kk r1(5,6,7)
        by (intro exI [of _ r] exI [of _ h2] exI [of _ U2] exI [of _ L2]) simp
    next
      case empty: True
      let ?h1 = "?h0\<lparr>release_index := ?i + 1\<rparr>"
      obtain r h2 U2 L2 where r2: "Release_pass E k ?h1 num released = Some (False, r, h2)"
        "heap_inv res Fm C h2 U2 L2 {}" "imbalance h2 U2 = 0" "keeps ?h1 U L h2 U2 L2"
        "heap_pages (spans h2) U2 = heap_pages (spans ?h1) U" "r + normal_sum h2 U2 = released + normal_sum ?h1 U"
        "released \<le> r" "r = released \<longrightarrow> released < num \<longrightarrow>
          (\<forall>j < k. L (normal_header ((next_index ?h1 + j) mod (kMaxPages + 1))) = [])"
        using Suc.IH [of ?h1 U L released] Suc.prems by auto
      have op: "Release_pass E (Suc k) h num released = Some (False, r, h2)"
        using True empty r2(1) e by (simp add: Let_def next_index_def [symmetric] hdr)
      have nx: "(next_index ?h1 + j) mod (kMaxPages + 1) = (?i + Suc j) mod (kMaxPages + 1)" for j
      proof (cases "?i = kMaxPages")
        case True
        then have "next_index ?h1 = 0" by (simp add: next_index_def)
        moreover have "(kMaxPages + Suc j) mod (kMaxPages + 1) = j mod (kMaxPages + 1)"
          using mod_add_self1 [of "kMaxPages + 1" j] by (simp add: add.commute)
        ultimately show ?thesis using True by simp
      next
        case False
        then have "next_index ?h1 = ?i + 1" using i by (simp add: next_index_def)
        then show ?thesis by simp
      qed
      have all: "L (normal_header ((?i + j) mod (kMaxPages + 1))) = []"
        if "r = released" "released < num" "j < Suc k" for j
      proof (cases j)
        case 0
        then show ?thesis using empty i0 by simp
      next
        case (Suc j')
        have "L (normal_header ((next_index ?h1 + j') mod (kMaxPages + 1))) = []"
          using r2(8) that Suc by simp
        then show ?thesis unfolding nx Suc .
      qed
      show ?thesis using op r2(2-7) all
        by (intro exI [of _ r] exI [of _ h2] exI [of _ U2] exI [of _ L2]) simp
    qed
  qed
qed

text \<open>If all lists of normal spans are empty, there is no normal span.\<close>

lemma normal_sum_zero:
  assumes I: "heap_inv res Fm C h U L {}" and e: "\<And>i. i \<le> kMaxPages \<Longrightarrow> L (normal_header i) = []"
  shows "normal_sum h U = 0"
proof -
  have "loc_of (spans h) a \<noteq> ON_NORMAL_FREELIST" if "a \<in> U" for a
  proof
    assume l: "loc_of (spans h) a = ON_NORMAL_FREELIST"
    obtain i where "i \<le> kMaxPages" "list_of ON_NORMAL_FREELIST (plen_of (spans h) a) = normal_header i"
      using normal_list by blast
    with lists_okD(4) [OF heap_invD(3) [OF I], of a] that l e show False by simp
  qed
  then have "{a \<in> U. loc_of (spans h) a = ON_NORMAL_FREELIST} = {}" by blast
  then show ?thesis unfolding stat_sum_def by (simp only: sum.empty)
qed

lemma free_bytes_zero:
  assumes I: "heap_inv res Fm C h U L {}"
  shows "(free_bytes h > 0) = (normal_sum h U > 0)"
proof -
  have "normal_sum h U < 2 ^ 51" using stat_sum_bound [OF heap_invD(1) [OF I], of U ON_NORMAL_FREELIST] by simp
  moreover have "free_bytes h = len_bytes (normal_sum h U)" using heap_invD(4) [OF I] by (simp add: sums_ok_def)
  ultimately show ?thesis using len_bytes_zero [of "normal_sum h U"] by (simp add: word_greater_zero_iff)
qed

lemma Release_loop_spec:
  assumes K: "os_contract (os_calls E) res"
  shows "heap_inv res Fm C h U L {} \<Longrightarrow> imbalance h U = 0 \<Longrightarrow>
    released + normal_sum h U < 2 ^ 40 \<Longrightarrow>
    \<exists>r h' U' L'. Release_loop E h num released = Some (r, h') \<and> heap_inv res Fm C h' U' L' {} \<and>
      imbalance h' U' = 0 \<and> keeps h U L h' U' L' \<and> heap_pages (spans h') U' = heap_pages (spans h) U \<and>
      r + normal_sum h' U' = released + normal_sum h U \<and> (num \<le> r \<or> normal_sum h' U' = 0)"
proof (induction "normal_sum h U" arbitrary: h U L released rule: less_induct)
  case less
  note I = less.prems(1)
  show ?case
  proof (cases "released < num \<and> free_bytes h > 0")
    case False
    then have "num \<le> released \<or> normal_sum h U = 0" using free_bytes_zero [OF I] by auto
    with False less.prems show ?thesis
      by (subst Release_loop.simps) (intro exI [of _ released] exI [of _ h] exI [of _ U] exI [of _ L], auto)
  next
    case True
    obtain r h1 U1 L1 where r1: "Release_pass E (kMaxPages + 1) h num released = Some (False, r, h1)"
      "heap_inv res Fm C h1 U1 L1 {}" "imbalance h1 U1 = 0" "keeps h U L h1 U1 L1"
      "heap_pages (spans h1) U1 = heap_pages (spans h) U" "r + normal_sum h1 U1 = released + normal_sum h U" "released \<le> r"
      "r = released \<longrightarrow> released < num \<longrightarrow>
        (\<forall>j < kMaxPages + 1. L (normal_header ((next_index h + j) mod (kMaxPages + 1))) = [])"
      using Release_pass_spec [OF K less.prems, of "kMaxPages + 1" num] by blast
    have "r \<noteq> released"
    proof
      assume "r = released"
      with r1(8) True have e: "L (normal_header ((next_index h + j) mod (kMaxPages + 1))) = []" if "j < kMaxPages + 1" for j
        using that by blast
      have "normal_sum h U = 0"
      proof (rule normal_sum_zero [OF I])
        fix i assume i: "i \<le> kMaxPages"
        let ?n = "next_index h" and ?m = "kMaxPages + 1"
        have n: "?n < ?m" by (simp add: next_index_def)
        define j where "j = (i + ?m - ?n) mod ?m"
        have "(?n + j) mod ?m = (?n + (i + ?m - ?n)) mod ?m" unfolding j_def by (rule mod_add_right_eq)
        also have "?n + (i + ?m - ?n) = i + ?m" using n by linarith
        also have "(i + ?m) mod ?m = i" using i by (simp only: mod_add_self2) simp
        finally show "L (normal_header i) = []" using e [of j] by (simp add: j_def)
      qed
      then show False using True free_bytes_zero [OF I] by simp
    qed
    then have lt: "normal_sum h1 U1 < normal_sum h U" using r1(6,7) by linarith
    have b1: "r + normal_sum h1 U1 < 2 ^ 40" using r1(6) less.prems(3) by simp
    obtain r' h2 U2 L2 where r2: "Release_loop E h1 num r = Some (r', h2)" "heap_inv res Fm C h2 U2 L2 {}"
      "imbalance h2 U2 = 0" "keeps h1 U1 L1 h2 U2 L2" "heap_pages (spans h2) U2 = heap_pages (spans h1) U1"
      "r' + normal_sum h2 U2 = r + normal_sum h1 U1" "num \<le> r' \<or> normal_sum h2 U2 = 0"
      using less.hyps [OF lt r1(2,3) b1] by blast
    have "Release_loop E h num released = Some (r', h2)"
      using True r1(1) r2(1) by (subst Release_loop.simps) simp
    then show ?thesis using r2 r1(5,6) keeps_trans [OF r1(4) r2(4)]
      by (intro exI [of _ r'] exI [of _ h2] exI [of _ U2] exI [of _ L2]) simp
  qed
qed

lemma ReleaseAtLeastNPages_spec:
  assumes K: "os_contract (os_calls E) res" and I: "heap_inv res Fm C h U L {}" and B: "imbalance h U = 0"
  shows "\<exists>r h' U' L'. ReleaseAtLeastNPages E h num = Some (r, h') \<and> heap_inv res Fm C h' U' L' {} \<and>
      imbalance h' U' = 0 \<and> keeps h U L h' U' L' \<and> heap_pages (spans h') U' = heap_pages (spans h) U \<and>
      r + normal_sum h' U' = normal_sum h U \<and> (num \<le> r \<or> normal_sum h' U' = 0)"
proof -
  have "0 + normal_sum h U < 2 ^ 40" using stat_sum_bound [OF heap_invD(1) [OF I], of U ON_NORMAL_FREELIST] by simp
  from Release_loop_spec [OF K I B this, of num] show ?thesis by (simp add: ReleaseAtLeastNPages_def)
qed

lemma IncrementalScavenge_spec:
  assumes K: "os_contract (os_calls E) res" and I: "heap_inv res Fm C h U L {}" and B: "imbalance h U = 0"
  shows "\<exists>h' U' L'. IncrementalScavenge E h n = Some h' \<and> heap_inv res Fm C h' U' L' {} \<and>
      imbalance h' U' = 0 \<and> keeps h U L h' U' L' \<and> heap_pages (spans h') U' = heap_pages (spans h) U"
proof -
  let ?h = "h\<lparr>scavenge_counter := scavenge_counter h - int n\<rparr>"
  consider "scavenge_counter ?h \<ge> 0" | "scavenge_counter ?h < 0" "release_rate E \<le> 1 / 10 ^ 6"
    | "scavenge_counter ?h < 0" "release_rate E > 1 / 10 ^ 6" by linarith
  then show ?thesis
  proof cases
    case 1
    then have "IncrementalScavenge E h n = Some ?h" by (simp add: IncrementalScavenge_def Let_def)
    then show ?thesis using I B by (intro exI [of _ ?h] exI [of _ U] exI [of _ L]) simp
  next
    case 2
    then have "IncrementalScavenge E h n = Some (h\<lparr>scavenge_counter := kDefaultReleaseDelay\<rparr>)"
      by (simp add: IncrementalScavenge_def Let_def)
    then show ?thesis using I B by (intro exI [of _ "h\<lparr>scavenge_counter := kDefaultReleaseDelay\<rparr>"] exI [of _ U] exI [of _ L]) simp
  next
    case 3
    have "heap_inv res Fm C ?h U L {}" "imbalance ?h U = 0" using I B by simp_all
    from ReleaseAtLeastNPages_spec [OF K this, of 1] obtain r h1 U1 L1 where
      r1: "ReleaseAtLeastNPages E ?h 1 = Some (r, h1)" "heap_inv res Fm C h1 U1 L1 {}" "imbalance h1 U1 = 0"
      "keeps ?h U L h1 U1 L1" "heap_pages (spans h1) U1 = heap_pages (spans ?h) U" by blast
    then have "\<exists>i. IncrementalScavenge E h n = Some (h1\<lparr>scavenge_counter := i\<rparr>)"
      using 3 by (auto simp: IncrementalScavenge_def Let_def)
    then obtain i where "IncrementalScavenge E h n = Some (h1\<lparr>scavenge_counter := i\<rparr>)" by blast
    then show ?thesis using r1 by (intro exI [of _ "h1\<lparr>scavenge_counter := i\<rparr>"] exI [of _ U1] exI [of _ L1]) simp
  qed
qed

lemma Delete_spec:
  assumes K: "os_contract (os_calls E) res" and I: "heap_inv res Fm C h U L {}" and B: "imbalance h U = 0"
    and a: "a \<in> U" "loc_of (spans h) a = IN_USE" "\<not> listed (headers \<union> C) L (Sp a)"
  shows "\<exists>h' U' L'. Delete E h (Sp a) = Some h' \<and> heap_inv res Fm C h' U' L' {} \<and> imbalance h' U' = 0 \<and>
    inuse_view (spans h') U' = (inuse_view (spans h) U)(a := None) \<and>
    heap_pages (spans h') U' = heap_pages (spans h) U \<and> (\<forall>x. x \<notin> headers \<longrightarrow> L' x = L x) \<and>
    aggressive_decommit h' = aggressive_decommit h \<and> (\<exists>b\<in>U'. loc_of (spans h') b \<noteq> IN_USE \<and> ext (spans h) a \<subseteq> ext (spans h') b)"
proof -
  note I' = heap_invD [OF I]
  let ?st = "spans h"
  let ?f = "\<lambda>x. x\<lparr>sizeclass := 0, sample := False, location := ON_NORMAL_FREELIST\<rparr>"
  let ?st1 = "?st(Sp a := ?f (?st (Sp a)))"
  let ?h1 = "h\<lparr>spans := ?st1\<rparr>"
  have inv0: "heap_inv res Fm C h U L {a}" using heap_inv_float [OF I a(1,3,2)] by simp
  have inv1: "heap_inv res Fm C ?h1 U L {a}" using heap_inv_upd [OF inv0 _ refl, of a ?f] by simp
  have loc1: "loc_of (spans ?h1) a \<noteq> IN_USE" by simp
  have fin: "finite U" using geom_finite [OF I'(1)] .
  have "stat_sum ?st1 U ON_RETURNED_FREELIST = stat_sum ?st U ON_RETURNED_FREELIST"
    using stat_sum_relocate [OF fin a(1), of ?st "?f (?st (Sp a))" _ ON_RETURNED_FREELIST] a(2) by simp
  then have imb1: "imbalance ?h1 U = 0" using B by (simp add: imbalance_def)
  obtain h2 U2 L2 where r2: "MergeIntoFreeList E ?h1 (Sp a) = Some h2" "heap_inv res Fm C h2 U2 L2 {}"
    "keeps ?h1 U L h2 U2 L2" "imbalance h2 U2 = imbalance ?h1 U" "heap_pages (spans h2) U2 = heap_pages (spans ?h1) U"
    using MergeIntoFreeList_spec [OF K inv1 loc1] by auto
  have imb2: "imbalance h2 U2 = 0" using r2(4) imb1 by simp
  obtain h3 U3 L3 where r3: "IncrementalScavenge E h2 (plen_of ?st a) = Some h3" "heap_inv res Fm C h3 U3 L3 {}"
    "imbalance h3 U3 = 0" "keeps h2 U2 L2 h3 U3 L3" "heap_pages (spans h3) U3 = heap_pages (spans h2) U2"
    using IncrementalScavenge_spec [OF K r2(2) imb2, of "plen_of ?st a"] by blast
  have k: "keeps ?h1 U L h3 U3 L3" using keeps_trans [OF r2(3) r3(4)] .
  have "PageMap3_get BITS64 (pagemap h) (start_of ?st a) = Some (Sp a)"
    "PageMap3_get BITS64 (pagemap h) (start_of ?st a + plen_of ?st a - 1) = Some (Sp a)"
    using mappedD(1,2) [OF I'(2) a(1)] by auto
  then have desc: "GetDescriptor h (start_of ?st a) = Sp a" "GetDescriptor h (start_of ?st a + plen_of ?st a - 1) = Sp a"
    by (simp_all add: GetDescriptor_def)
  have "unmapped_bytes h3 = len_bytes (stat_sum (spans h3) U3 ON_RETURNED_FREELIST)"
    using heap_invD(4) [OF r3(2)] by (simp add: sums_ok_def)
  then have bal: "unmapped_bytes h3 + committed_bytes h3 = system_bytes h3"
    using r3(3) by (simp add: imbalance_def algebra_simps)
  have op: "Delete E h (Sp a) = Some h3"
    using heap_inv_Check [OF I] heap_inv_Check [OF r3(2)] a(2) geomD(1) [OF I'(1) a(1)] desc r2(1) r3(1) bal
    by (simp add: Delete_def span_of_def upd_span_def Let_def)
  have "inuse_view ?st1 U = (inuse_view ?st U)(a := None)"
    by (auto simp: inuse_view_def fun_eq_iff)
  moreover have "ext ?st1 = ext ?st" by (simp add: ext_def fun_eq_iff)
  moreover from this have "heap_pages ?st1 U = heap_pages ?st U" by (simp add: heap_pages_def)
  moreover have "\<exists>b\<in>U3. loc_of (spans h3) b \<noteq> IN_USE \<and> ext ?st a \<subseteq> ext (spans h3) b"
  proof -
    have "\<exists>b\<in>U3. loc_of (spans h3) b \<noteq> IN_USE \<and> ext ?st1 a \<subseteq> ext (spans h3) b"
      using k a(1) by (simp add: keeps_def coarser_def)
    then show ?thesis using \<open>ext ?st1 = ext ?st\<close> by simp
  qed
  ultimately show ?thesis using op r3 r2(5) k
    by (intro exI [of _ h3] exI [of _ U3] exI [of _ L3]) (simp add: keeps_def)
qed

end
