(* ===== verification/Page_Heap_Alloc.thy ===== *)
theory Page_Heap_Alloc
  imports Page_Heap_Free
begin

text \<open>
  Allocation of spans: \<open>NewSpan\<close>, \<open>Carve\<close>, the best-fit search, \<open>SearchFreeAndLargeLists\<close>,
  \<open>GrowHeap\<close>, \<open>New\<close>, \<open>Split\<close> and \<open>RegisterSizeClass\<close>. The lemmas are about the default
  configuration without a heap limit (\<open>heap_limit_mb = 0\<close>) and about heaps below 16 TiB, since
  \<open>Carve\<close> and \<open>Split\<close> keep the length of the leftover in an \<open>int\<close>.
\<close>

section \<open>Metadata\<close>

lemma mem_ok_mono: "mem_ok res Fm m sa ta U P \<Longrightarrow> Q \<subseteq> P \<Longrightarrow> mem_ok res Fm m sa ta U Q"
proof -
  assume M: "mem_ok res Fm m sa ta U P" and "Q \<subseteq> P"
  then have sub: "page_bytes Q \<subseteq> page_bytes P" by (auto simp: page_bytes_def)
  from M obtain O1 O2 T where m: "meta_inv res m (O1 \<union> O2 \<union> page_bytes P)" "O1 \<inter> O2 = {}"
     "(O1 \<union> O2) \<inter> page_bytes P = {}" "span_objs_ok sa U O1" "pha_inv sizeof_StackTrace ta T O2" "Fm \<subseteq> O2"
    unfolding mem_ok_def by blast
  have "meta_inv res m (O1 \<union> O2 \<union> page_bytes Q)" by (rule meta_inv_mono [OF m(1)]) (use sub in blast)
  moreover have "(O1 \<union> O2) \<inter> page_bytes Q = {}" using m(3) sub by blast
  ultimately show ?thesis unfolding mem_ok_def using m(2,4-6) by blast
qed

lemma meta_allocator_mem_ok:
  assumes K: "os_contract E res" and M: "mem_ok res Fm m sa ta U P" and b: "0 < bytes" "bytes < 2 ^ 64"
    and r: "meta_allocator E bytes m = (ok, m')"
  shows "mem_ok res Fm m' sa ta U P"
proof -
  obtain O1 O2 T where m: "meta_inv res m (O1 \<union> O2 \<union> page_bytes P)" "O1 \<inter> O2 = {}"
     "(O1 \<union> O2) \<inter> page_bytes P = {}" "span_objs_ok sa U O1" "pha_inv sizeof_StackTrace ta T O2" "Fm \<subseteq> O2"
    using M unfolding mem_ok_def by blast
  obtain a m1 where "MetaDataAlloc E bytes m = Some (a, m1)"
    "a = 0 \<and> meta_inv res m1 (O1 \<union> O2 \<union> page_bytes P) \<or>
     a \<noteq> 0 \<and> meta_inv res m1 (O1 \<union> O2 \<union> page_bytes P \<union> extent a bytes)"
    using MetaDataAlloc_spec [OF K m(1) b] by blast
  moreover from this have "m' = m1" using r by (simp add: meta_allocator_def)
  ultimately have "meta_inv res m' (O1 \<union> O2 \<union> page_bytes P)" using meta_inv_mono by blast
  then show ?thesis unfolding mem_ok_def using m(2-6) by blast
qed

lemma ensure_loop_keeps:
  assumes "\<And>m a key r m' a'. step m a key = (r, m', a') \<Longrightarrow> Q a \<Longrightarrow> Q a'"
    and "ensure_loop l step m a key stop = (r, m', a')" "Q a"
  shows "Q a'"
  using assms
proof (induction l step m a key stop rule: ensure_loop.induct)
  case (1 l step m a key stop)
  show ?case
  proof (cases "key \<le> stop")
    case True
    obtain ok m1 a1 where st: "step m a key = (ok, m1, a1)" by (cases "step m a key") auto
    have Q1: "Q a1" using "1.prems"(1) [OF st "1.prems"(3)] .
    show ?thesis
    proof (cases ok)
      case t: True
      have run: "ensure_loop l step m1 a1 (next_key l key) stop = (r, m', a')"
        using "1.prems"(2) True st t by (simp add: ensure_loop.simps [of l step m])
      show ?thesis
        by (rule "1.IH" [OF True refl st [symmetric] refl t _ run Q1]) (rule "1.prems"(1))
    next
      case False
      with "1.prems"(2) True st Q1 show ?thesis by (simp add: ensure_loop.simps [of l step m])
    qed
  next
    case False
    with "1.prems"(2,3) show ?thesis by (simp add: ensure_loop.simps [of l step m])
  qed
qed

lemma PageMap3_Ensure_keeps:
  assumes al: "\<And>bytes a ok a'. alloc bytes a = (ok, a') \<Longrightarrow> 0 < bytes \<Longrightarrow> bytes < 2 ^ 64 \<Longrightarrow> Q a \<Longrightarrow> Q a'"
    and r: "PageMap3_Ensure BITS64 alloc rt a x n = (r, rt', a')" and Q: "Q a"
  shows "Q a'"
proof (rule ensure_loop_keeps [of "PageMap3_Ensure_key BITS64 alloc" Q, OF _ r [unfolded PageMap3_Ensure_def] Q])
  fix m a key r m' a'
  assume st: "PageMap3_Ensure_key BITS64 alloc m a key = (r, m', a')" and Q: "Q a"
  have sz: "(8::nat) * 2 ^ INTERIOR_BITS BITS64 < 2 ^ 64" "(8::nat) * 2 ^ LEAF_BITS BITS64 < 2 ^ 64"
    by (simp_all add: LEAF_BITS_def INTERIOR_BITS_def)
  have nn: "Q a2" if "PageMap3_NewNode BITS64 alloc a1 = (o1, a2)" "Q a1" for a1 a2 o1
    using that al [of "8 * 2 ^ INTERIOR_BITS BITS64" a1] sz(1)
    by (auto simp: PageMap3_NewNode_def split: prod.splits bool.splits)
  show "Q a'"
    using st Q nn al [of "8 * 2 ^ LEAF_BITS BITS64"] sz(2)
    by (auto simp: PageMap3_Ensure_key_def Let_def split: prod.splits bool.splits option.splits if_splits)
qed

lemma NewSpan_spec:
  assumes K: "os_contract (os_calls E) res" and M: "mem_ok res Fm (heap_meta h) (span_allocator h) ta U P"
  shows "\<exists>r. NewSpan E h p len = Some r \<and> (\<forall>x h'. r = Ret (x, h') \<longrightarrow>
    (\<exists>b m al. x = Sp b \<and> b \<notin> U \<and> mem_ok res Fm m al ta (insert b U) P \<and>
      h' = h\<lparr>heap_meta := m, span_allocator := al,
        spans := (spans h)(Sp b := zero_span\<lparr>span_start := p, span_length := len\<rparr>)\<rparr>))"
proof -
  obtain O1 O2 T where m: "meta_inv res (heap_meta h) (O1 \<union> O2 \<union> page_bytes P)" "O1 \<inter> O2 = {}"
     "(O1 \<union> O2) \<inter> page_bytes P = {}" "span_objs_ok (span_allocator h) U O1" "pha_inv sizeof_StackTrace ta T O2" "Fm \<subseteq> O2"
    using M unfolding mem_ok_def by blast
  have f: "meta_inv res (heap_meta h) (O1 \<union> (O2 \<union> page_bytes P))" "O1 \<inter> (O2 \<union> page_bytes P) = {}"
    using m(1-3) by (simp_all add: Un_assoc, blast)
  obtain r where r: "PageHeapAllocator_New (os_calls E) sizeof_Span (heap_meta h, span_allocator h) = Some r"
    "\<forall>b m al. r = Ret (b, m, al) \<longrightarrow> b \<notin> U \<and>
      (\<exists>Own'. Own' \<inter> (O2 \<union> page_bytes P) = {} \<and> meta_inv res m (Own' \<union> (O2 \<union> page_bytes P)) \<and>
        span_objs_ok al (insert b U) Own')"
    using span_objs_New [OF K f m(4)] by blast
  show ?thesis
  proof (cases r)
    case OutOfMemory
    then show ?thesis using r(1) by (simp add: NewSpan_def)
  next
    case (Ret x)
    obtain b m1 al where x: "x = (b, m1, al)" by (cases x)
    obtain Own' where O: "b \<notin> U" "Own' \<inter> (O2 \<union> page_bytes P) = {}" "meta_inv res m1 (Own' \<union> (O2 \<union> page_bytes P))"
      "span_objs_ok al (insert b U) Own'"
      using r(2) Ret x by blast
    have "(Own' \<union> O2) \<inter> page_bytes P = {}" "Own' \<inter> O2 = {}" using O(2) m(3) by blast+
    then have "mem_ok res Fm m1 al ta (insert b U) P"
      unfolding mem_ok_def using O(3,4) m(5,6) by (metis Un_assoc)
    then show ?thesis using r(1) Ret x O(1) by (simp add: NewSpan_def) blast
  qed
qed

lemma RecordGrowth_spec:
  assumes K: "os_contract (os_calls E) res" and M: "mem_ok res Fm (heap_meta h) sa (stacktrace_allocator h) U P"
  shows "\<exists>r. RecordGrowth E h g = Some r \<and> (\<forall>h'. r = Ret h' \<longrightarrow>
    (\<exists>m al t tr. mem_ok res Fm m sa al U P \<and>
      h' = h\<lparr>heap_meta := m, stacktrace_allocator := al, growth_stacks := t, stack_traces := tr\<rparr>))"
proof -
  obtain O1 O2 T where m: "meta_inv res (heap_meta h) (O1 \<union> O2 \<union> page_bytes P)" "O1 \<inter> O2 = {}"
     "(O1 \<union> O2) \<inter> page_bytes P = {}" "span_objs_ok sa U O1" "pha_inv sizeof_StackTrace (stacktrace_allocator h) T O2" "Fm \<subseteq> O2"
    using M unfolding mem_ok_def by blast
  have sz: "0 < sizeof_StackTrace" "sizeof_StackTrace \<le> kAllocIncrement"
    by (simp_all add: sizeof_StackTrace_def kAllocIncrement_def)
  have f: "meta_inv res (heap_meta h) (O2 \<union> (O1 \<union> page_bytes P))" "O2 \<inter> (O1 \<union> page_bytes P) = {}"
    using m(1-3) by (simp_all add: Un_ac, blast)
  obtain r where r: "PageHeapAllocator_New (os_calls E) sizeof_StackTrace (heap_meta h, stacktrace_allocator h) = Some r"
    "\<forall>b m al. r = Ret (b, m, al) \<longrightarrow> b \<noteq> 0 \<and> b \<notin> T \<and>
      SystemTaken (sysm (heap_meta h)) \<le> SystemTaken (sysm m) \<and>
      (\<exists>Own'. O2 \<subseteq> Own' \<and> Own' \<inter> (O1 \<union> page_bytes P) = {} \<and> meta_inv res m (Own' \<union> (O1 \<union> page_bytes P)) \<and>
        pha_inv sizeof_StackTrace al (insert b T) Own')"
    using PageHeapAllocator_New_spec [OF K f m(5) sz] by blast
  show ?thesis
  proof (cases r)
    case OutOfMemory
    then show ?thesis using r(1) by (simp add: RecordGrowth_def)
  next
    case (Ret x)
    obtain b m1 al where x: "x = (b, m1, al)" by (cases x)
    obtain Own' where O: "Own' \<inter> (O1 \<union> page_bytes P) = {}" "meta_inv res m1 (Own' \<union> (O1 \<union> page_bytes P))"
      "pha_inv sizeof_StackTrace al (insert b T) Own'" "O2 \<subseteq> Own'"
      using r(2) Ret x by blast
    have "(O1 \<union> Own') \<inter> page_bytes P = {}" "O1 \<inter> Own' = {}" using O(1) m(3) by blast+
    moreover have "meta_inv res m1 (O1 \<union> Own' \<union> page_bytes P)" using O(2) by (simp add: Un_ac)
    moreover have "Fm \<subseteq> Own'" using O(4) m(6) by blast
    ultimately have "mem_ok res Fm m1 sa al U P"
      unfolding mem_ok_def using O(3) m(4) by blast
    then show ?thesis using r(1) Ret x by (simp add: RecordGrowth_def) blast
  qed
qed

section \<open>Carving a span\<close>

definition alloc_post :: "('os \<Rightarrow> nat set) \<Rightarrow> nat set \<Rightarrow> span_ptr set \<Rightarrow> 'os page_heap \<Rightarrow> addr set \<Rightarrow>
    (span_ptr \<Rightarrow> span_ptr list) \<Rightarrow> nat \<Rightarrow> (span_ptr \<times> 'os page_heap) outcome \<Rightarrow> bool" where
  "alloc_post res Fm C h U L n r = (\<forall>s h'. r = Ret (s, h') \<longrightarrow> (\<exists>U' L'.
     heap_inv res Fm C h' U' L' {} \<and> imbalance h' U' = 0 \<and> aggressive_decommit h' = aggressive_decommit h \<and>
     (\<forall>x. x \<notin> headers \<longrightarrow> L' x = L x) \<and> heap_pages (spans h) U \<subseteq> heap_pages (spans h') U' \<and>
     (s = SNull \<and> inuse_view (spans h') U' = inuse_view (spans h) U \<or>
      (\<exists>a d. s = Sp a \<and> inuse_view (spans h) U a = None \<and>
        inuse_view (spans h') U' = (inuse_view (spans h) U)(a \<mapsto> d) \<and> span_length d = n \<and> sizeclass d = 0 \<and>
        \<not> listed (headers \<union> C) L' (Sp a)))))"

lemma pagemap_set_spec:
  assumes "PageMap3_ensured BITS64 (pagemap h) p"
  shows "\<exists>pm. pagemap_set h p s = Some (h\<lparr>pagemap := pm\<rparr>) \<and>
    PageMap3_get BITS64 pm = (PageMap3_get BITS64 (pagemap h))(p := Some s) \<and>
    PageMap3_ensured BITS64 pm = PageMap3_ensured BITS64 (pagemap h)"
proof -
  obtain pm where pm: "PageMap3_set BITS64 (pagemap h) p (Some s) = Some pm" using pm3.put_ok [OF assms] by blast
  then show ?thesis using pm3.get_put [OF assms pm] pm3.ensured_put [OF assms pm]
    by (intro exI [of _ pm]) (simp add: pagemap_set_def)
qed

lemma RecordSpan_spec:
  assumes "PageMap3_ensured BITS64 (pagemap h) p" "PageMap3_ensured BITS64 (pagemap h) (p + n - 1)"
    and "start_of (spans h) b = p" "plen_of (spans h) b = n" "0 < n"
  shows "\<exists>pm. RecordSpan h (Sp b) = Some (h\<lparr>pagemap := pm\<rparr>) \<and>
    PageMap3_get BITS64 pm = (PageMap3_get BITS64 (pagemap h))(p := Some (Sp b), p + n - 1 := Some (Sp b)) \<and>
    PageMap3_ensured BITS64 pm = PageMap3_ensured BITS64 (pagemap h)"
proof -
  obtain pm where pm: "pagemap_set h p (Sp b) = Some (h\<lparr>pagemap := pm\<rparr>)"
    "PageMap3_get BITS64 pm = (PageMap3_get BITS64 (pagemap h))(p := Some (Sp b))"
    "PageMap3_ensured BITS64 pm = PageMap3_ensured BITS64 (pagemap h)"
    using pagemap_set_spec [OF assms(1)] by blast
  show ?thesis
  proof (cases "n > 1")
    case True
    have "PageMap3_ensured BITS64 (pagemap (h\<lparr>pagemap := pm\<rparr>)) (p + n - 1)" using assms(2) pm(3) by simp
    from pagemap_set_spec [OF this, of "Sp b"] obtain pm2 where
      "pagemap_set (h\<lparr>pagemap := pm\<rparr>) (p + n - 1) (Sp b) = Some (h\<lparr>pagemap := pm2\<rparr>)"
      "PageMap3_get BITS64 pm2 = (PageMap3_get BITS64 pm)(p + n - 1 := Some (Sp b))"
      "PageMap3_ensured BITS64 pm2 = PageMap3_ensured BITS64 pm" by auto
    then show ?thesis using True pm assms(3,4) by (intro exI [of _ pm2]) (simp add: RecordSpan_def span_of_def)
  next
    case False
    then have "n = 1" using assms(5) by simp
    then show ?thesis using pm assms(3,4) by (intro exI [of _ pm]) (simp add: RecordSpan_def span_of_def)
  qed
qed

text \<open>Cutting the tail of \<open>a\<close> off as the span \<open>b\<close>: the common part of \<open>Carve\<close> and \<open>Split\<close>.\<close>

lemma cut_span:
  assumes G: "geom st U" and M: "mapped g ens st U" and ab: "a \<in> U" "b \<notin> U" and n: "0 < n" "n < plen_of st a"
    and sa: "start_of st' a = start_of st a" "plen_of st' a = n" "class_of st' a = 0"
    and sb: "start_of st' b = start_of st a + n" "plen_of st' b = plen_of st a - n" "class_of st' b = 0"
    and so: "\<And>x. x \<in> U - {a} \<Longrightarrow> start_of st' x = start_of st x"
      "\<And>x. x \<in> U - {a} \<Longrightarrow> plen_of st' x = plen_of st x" "\<And>x. x \<in> U - {a} \<Longrightarrow> class_of st' x = class_of st x"
    and ga: "g' (start_of st a) = Some (Sp a)" "g' (start_of st a + n - 1) = Some (Sp a)"
    and gb: "g' (start_of st a + n) = Some (Sp b)" "g' (start_of st a + plen_of st a - 1) = Some (Sp b)"
    and go: "\<And>q. q \<notin> ext st a \<Longrightarrow> g' q = g q"
  shows "geom st' (insert b U)" "heap_pages st' (insert b U) = heap_pages st U" "mapped g' ens st' (insert b U)"
proof -
  let ?S = "start_of st a" and ?N = "plen_of st a"
  have ea: "ext st' a = extent ?S n" and eb: "ext st' b = extent (?S + n) (?N - n)" using sa sb by (simp_all add: ext_def)
  have eo: "ext st' x = ext st x" if "x \<in> U - {a}" for x using so that by (simp add: ext_def)
  have e: "ext st a = ext st' a \<union> ext st' b" using extent_add [of ?S n "?N - n"] n unfolding ea eb by (simp add: ext_def)
  have d: "ext st' a \<inter> ext st' b = {}" unfolding ea eb by (rule extent_apart) simp
  have l: "0 < plen_of st' a" "0 < plen_of st' b" using n sa sb by simp_all
  have o: "ext st' x = ext st x" "plen_of st' x = plen_of st x" if "x \<in> U" "x \<noteq> a" for x using eo so that by blast+
  have GG: "geom st' (insert b U)" "heap_pages st' (insert b U) = heap_pages st U"
    by (rule geom_split [OF G ab e d o(1) l o(2)]; assumption)+
  then show "geom st' (insert b U)" "heap_pages st' (insert b U) = heap_pages st U" by blast+
  have gx: "g' q = g q" if "x \<in> U - {a}" "q \<in> ext st x" for x q
    using go [of q] geom_disjoint [OF G, of x a q] that ab by blast
  show "mapped g' ens st' (insert b U)"
    unfolding mapped_def GG(2)
  proof (intro conjI ballI impI allI)
    fix x assume x: "x \<in> insert b U"
    consider "x = a" | "x = b" | "x \<in> U - {a}" using x by blast
    note cs = this
    have U: "x \<in> U" if "x \<in> U - {a}" using that by simp
    show "g' (start_of st' x) = Some (Sp x)"
    proof (cases rule: cs)
      case 3
      then show ?thesis using so(1) [OF 3] gx [OF 3 geomD(4) [OF G U [OF 3]]] mappedD(1) [OF M U [OF 3]] by simp
    qed (use ga gb sa sb in \<open>simp_all only:\<close>)
    have lb: "start_of st' b + plen_of st' b - 1 = ?S + ?N - 1" using sb n by simp
    show "g' (start_of st' x + plen_of st' x - 1) = Some (Sp x)"
    proof (cases rule: cs)
      case 2
      then show ?thesis using lb gb(2) by (simp only:)
    next
      case 3
      then show ?thesis using so(1,2) [OF 3] gx [OF 3 geomD(5) [OF G U [OF 3]]] mappedD(2) [OF M U [OF 3]] by simp
    qed (use ga sa in \<open>simp_all only:\<close>)
    fix q assume q: "class_of st' x \<noteq> 0" "q \<in> ext st' x"
    then have 3: "x \<in> U - {a}" using cs sa(3) sb(3) by metis
    then show "g' q = Some (Sp x)"
      using so(3) [OF 3] eo [OF 3] gx [OF 3] mappedD(3) [OF M, of x q] q by simp
  next
    fix q assume "q \<in> heap_pages st U"
    then show "ens q" using M unfolding mapped_def by blast
  next
    fix q assume q: "g' q \<noteq> None"
    show "q \<in> heap_pages st U"
    proof (cases "q \<in> ext st a")
      case True
      then show ?thesis using ab(1) by (auto simp: heap_pages_def)
    next
      case False
      then show ?thesis using q M go by (simp add: mapped_def)
    qed
  qed
qed

lemma Carve_leftover_spec:
  assumes K: "os_contract (os_calls E) res" and I: "heap_inv res Fm C h U L {a}"
    and a: "loc_of (spans h) a = IN_USE" "class_of (spans h) a = 0"
    and n: "0 < n" "n < plen_of (spans h) a" "plen_of (spans h) a < 2 ^ 31" and old: "old \<noteq> IN_USE"
    and right: "\<And>b. b \<in> U \<Longrightarrow> start_of (spans h) b = start_of (spans h) a + plen_of (spans h) a \<Longrightarrow> loc_of (spans h) b \<noteq> old"
    and md: "aggressive_decommit h \<Longrightarrow> old \<noteq> ON_NORMAL_FREELIST"
  shows "\<exists>r. Carve_leftover E h (Sp a) n (int (plen_of (spans h) a - n)) old = Some r \<and> (\<forall>h'. r = Ret h' \<longrightarrow>
    (\<exists>b L'. b \<notin> U \<and> heap_inv res Fm C h' (insert b U) L' {a} \<and> (\<forall>x. x \<notin> headers \<longrightarrow> L' x = L x) \<and>
      span_data (spans h' (Sp a)) = (span_data (spans h (Sp a)))\<lparr>span_length := n\<rparr> \<and>
      (\<forall>x\<in>U - {a}. span_data (spans h' (Sp x)) = span_data (spans h (Sp x))) \<and>
      loc_of (spans h') b = old \<and> plen_of (spans h') b = plen_of (spans h) a - n \<and>
      heap_pages (spans h') (insert b U) = heap_pages (spans h) U \<and> system_bytes h' = system_bytes h \<and>
      committed_bytes h' = committed_bytes h \<and> aggressive_decommit h' = aggressive_decommit h))"
proof -
  note I' = heap_invD [OF I]
  let ?st = "spans h" and ?S = "start_of (spans h) a" and ?N = "plen_of (spans h) a"
  let ?p = "?S + n" and ?len = "?N - n"
  have aU: "a \<in> U" using lists_okD(2) [OF I'(3)] by blast
  note g = geomD [OF I'(1) aU]
  have len: "0 < ?len" "?len < 2 ^ 31" using n by simp_all
  have ts: "to_size_t (int ?len) = ?len" using len by (simp add: to_size_t_def)
  have pa: "add64 ?S n = ?p" "add64 ?p ?len = ?S + ?N" using g(3) n by (simp_all add: add64_small)
  obtain r where r: "NewSpan E h ?p ?len = Some r" "\<forall>x h'. r = Ret (x, h') \<longrightarrow>
    (\<exists>b m al. x = Sp b \<and> b \<notin> U \<and> mem_ok res Fm m al (stacktrace_allocator h) (insert b U) (heap_pages ?st U) \<and>
      h' = h\<lparr>heap_meta := m, span_allocator := al,
        spans := (spans h)(Sp b := zero_span\<lparr>span_start := ?p, span_length := ?len\<rparr>)\<rparr>)"
    using NewSpan_spec [OF K I'(7)] by blast
  show ?thesis
  proof (cases r)
    case OutOfMemory
    then show ?thesis using r(1) pa(1) ts by (intro exI [of _ OutOfMemory]) (simp add: Carve_leftover_def span_of_def)
  next
    case (Ret xh)
    obtain x h1 where xh: "xh = (x, h1)" by (cases xh)
    obtain b m al where b: "x = Sp b" "b \<notin> U"
      and M1: "mem_ok res Fm m al (stacktrace_allocator h) (insert b U) (heap_pages ?st U)"
      and h1: "h1 = h\<lparr>heap_meta := m, span_allocator := al,
        spans := (spans h)(Sp b := zero_span\<lparr>span_start := ?p, span_length := ?len\<rparr>)\<rparr>"
      using r(2) Ret xh by blast
    have ne: "b \<noteq> a" using b(2) aU by auto
    define z where "z = zero_span\<lparr>span_start := ?p, span_length := ?len, location := old\<rparr>"
    have zf: "span_start z = ?p" "span_length z = ?len" "location z = old" "sizeclass z = 0"
      "span_next z = SNull" "span_prev z = SNull" "\<not> sample z" by (simp_all add: z_def zero_span_def)
    let ?st2 = "?st(Sp b := z)"
    let ?h2 = "h\<lparr>heap_meta := m, span_allocator := al, spans := ?st2\<rparr>"
    have u2: "upd_span h1 (Sp b) (\<lambda>x. x\<lparr>location := old\<rparr>) = Some ?h2"
      by (simp add: upd_span_def h1 z_def)
    have ea: "ext ?st a = extent ?S n \<union> extent ?p ?len" using extent_add [of ?S n ?len] n by (simp add: ext_def)
    have ens: "PageMap3_ensured BITS64 (pagemap h) q" if "q \<in> ext ?st a" for q using mappedD(4) [OF I'(2) aU that] .
    have mem3: "?p \<in> ext ?st a" "?p + ?len - 1 \<in> ext ?st a" "?S + n - 1 \<in> ext ?st a"
      using n by (auto simp: ext_def)
    obtain pm where pm: "RecordSpan ?h2 (Sp b) = Some (?h2\<lparr>pagemap := pm\<rparr>)"
      "PageMap3_get BITS64 pm = (PageMap3_get BITS64 (pagemap h))(?p := Some (Sp b), ?p + ?len - 1 := Some (Sp b))"
      "PageMap3_ensured BITS64 pm = PageMap3_ensured BITS64 (pagemap h)"
      using RecordSpan_spec [of ?h2 ?p ?len b] ens mem3 zf len(1) by auto
    let ?h3 = "?h2\<lparr>pagemap := pm\<rparr>"
    define nxt where "nxt = GetDescriptor ?h3 (?S + ?N)"
    have far: "?S + ?N \<noteq> ?p" "?S + ?N \<noteq> ?p + ?len - 1" using n by linarith+
    have chk: "nxt = SNull \<or> location (span_of ?h3 nxt) = IN_USE \<or> location (span_of ?h3 nxt) \<noteq> old"
    proof (cases "PageMap3_get BITS64 (pagemap h) (?S + ?N)")
      case None
      have "PageMap3_get BITS64 pm (?S + ?N) = None" using None far by (simp add: pm(2))
      then show ?thesis by (simp add: nxt_def GetDescriptor_def)
    next
      case (Some y)
      from mapped_next [OF I'(2,1) aU Some] obtain c where c: "c \<in> U" "y = Sp c" "start_of ?st c = ?S + ?N" by blast
      have "nxt = Sp c" using Some c far by (simp add: nxt_def GetDescriptor_def pm(2))
      moreover have "loc_of ?st c \<noteq> old" using right c by blast
      moreover have "c \<noteq> b" using c b by auto
      ultimately show ?thesis by (simp add: span_of_def)
    qed
    have O2: "lists_ok C ?st2 (insert b U) L {b, a}" using lists_ok_new [OF I'(3) b(2) zf(5,6)] by simp
    have O3: "lists_ok C (spans ?h3) (insert b U) L {b, a}" and l3: "loc_of (spans ?h3) b \<noteq> IN_USE"
      using O2 zf(3) old by simp_all
    define f4 where "f4 = (if old = ON_NORMAL_FREELIST then free_bytes h + len_bytes ?len else free_bytes h)"
    define u4 where "u4 = (if old = ON_NORMAL_FREELIST then unmapped_bytes h else unmapped_bytes h + len_bytes ?len)"
    have e3: "loc_of (spans ?h3) b = old" "plen_of (spans ?h3) b = ?len" "free_bytes ?h3 = free_bytes h"
      "unmapped_bytes ?h3 = unmapped_bytes h" using zf by simp_all
    note P = PrependToFreeList_lists [OF O3 insertI1 l3, unfolded e3 f4_def [symmetric] u4_def [symmetric]]
    obtain st4 L' where st4': "PrependToFreeList ?h3 (Sp b) = Some (?h3\<lparr>spans := st4, free_bytes := f4, unmapped_bytes := u4\<rparr>)"
      "lists_ok C st4 (insert b U) L' ({b, a} - {b})" "\<forall>x. span_data (st4 x) = span_data (spans ?h3 x)"
      "\<forall>x. x \<notin> headers \<longrightarrow> L' x = L x"
      using P by blast
    note st4 = st4'(1,2) st4'(3) [simplified] st4'(4)
    let ?h4 = "?h3\<lparr>spans := st4, free_bytes := f4, unmapped_bytes := u4\<rparr>"
    note cf = span_data_fields [OF st4(3) [rule_format]]
    let ?st5 = "st4(Sp a := (st4 (Sp a))\<lparr>span_length := n\<rparr>)"
    let ?h5 = "?h4\<lparr>spans := ?st5\<rparr>"
    have ens5: "PageMap3_ensured BITS64 (pagemap ?h5) (?S + n - 1)" using ens mem3(3) pm(3) by simp
    obtain pm6 where pm6: "pagemap_set ?h5 (?S + n - 1) (Sp a) = Some (?h5\<lparr>pagemap := pm6\<rparr>)"
      "PageMap3_get BITS64 pm6 = (PageMap3_get BITS64 pm)(?S + n - 1 := Some (Sp a))"
      "PageMap3_ensured BITS64 pm6 = PageMap3_ensured BITS64 pm"
      using pagemap_set_spec [OF ens5, of "Sp a"] by auto
    let ?h6 = "?h5\<lparr>pagemap := pm6\<rparr>"
    have op: "Carve_leftover E h (Sp a) n (int ?len) old = Some (Ret ?h6)"
    proof -
      have s5: "span_start (span_of ?h5 (Sp a)) = ?S" using cf(1) [of "Sp a"] ne by (simp add: span_of_def)
      have s3: "span_start (span_of ?h3 (Sp b)) = ?p" "span_length (span_of ?h3 (Sp b)) = ?len"
        "location (span_of ?h3 (Sp b)) = old" using zf by (simp_all add: span_of_def)
      have u5: "upd_span ?h4 (Sp a) (\<lambda>x. x\<lparr>span_length := n\<rparr>) = Some ?h5" by (simp add: upd_span_def)
      have n1: "NewSpan E h (add64 (span_start (span_of h (Sp a))) n) (to_size_t (int ?len)) = Some (Ret (Sp b, h1))"
        using r(1) Ret xh b(1) pa(1) ts by (simp add: span_of_def)
      show ?thesis
        unfolding Carve_leftover_def n1 Option.bind.bind_lunit outcome.case prod.case u2 pm(1) s3 pa(2) nxt_def [symmetric] Let_def
        using chk by (simp only: Option.bind.bind_lunit st4(1) u5 s5 pm6(1)) simp
    qed
    have st5x: "start_of ?st5 x = start_of ?st x" "plen_of ?st5 x = plen_of ?st x" "loc_of ?st5 x = loc_of ?st x"
        "class_of ?st5 x = class_of ?st x" "ext ?st5 x = ext ?st x" "span_data (?st5 (Sp x)) = span_data (?st (Sp x))"
      if "x \<in> U - {a}" for x
      using that b(2) cf [of "Sp x"] st4(3) by (auto simp: ext_def)
    have st5a: "start_of ?st5 a = ?S" "plen_of ?st5 a = n" "loc_of ?st5 a = IN_USE" "class_of ?st5 a = 0"
        "ext ?st5 a = extent ?S n"
      using ne cf [of "Sp a"] a by (simp_all add: ext_def)
    have st5b: "start_of ?st5 b = ?p" "plen_of ?st5 b = ?len" "loc_of ?st5 b = old" "class_of ?st5 b = 0"
        "ext ?st5 b = extent ?p ?len"
      using ne cf [of "Sp b"] zf by (simp_all add: ext_def)
    have da: "span_data (?st5 (Sp a)) = (span_data (?st (Sp a)))\<lparr>span_length := n\<rparr>"
    proof -
      have "span_data (st4 (Sp a)) = span_data (?st (Sp a))" using st4(3) ne by simp
      from span_data_fields [OF this] show ?thesis by (simp add: span_data_def)
    qed
    define g6 where "g6 = PageMap3_get BITS64 pm6"
    have g6: "g6 = (PageMap3_get BITS64 (pagemap h))(?p := Some (Sp b), ?p + ?len - 1 := Some (Sp b), ?S + n - 1 := Some (Sp a))"
      by (simp only: g6_def pm6(2) pm(2))
    have pq: "?S \<noteq> ?p" "?S \<noteq> ?p + ?len - 1" "?p \<noteq> ?S + n - 1" "?p + ?len - 1 \<noteq> ?S + n - 1" "?p + ?len - 1 = ?S + ?N - 1"
      using n by linarith+
    have g6a: "g6 ?S = Some (Sp a)" "g6 (?S + n - 1) = Some (Sp a)" "g6 ?p = Some (Sp b)" "g6 (?S + ?N - 1) = Some (Sp b)"
      using mappedD(1) [OF I'(2) aU] pq unfolding g6 by (metis fun_upd_apply)+
    have g6o: "g6 q = PageMap3_get BITS64 (pagemap h) q" if "q \<notin> ext ?st a" for q
      using that mem3 unfolding g6 by (metis fun_upd_other)
    have ens6: "PageMap3_ensured BITS64 pm6 = PageMap3_ensured BITS64 (pagemap h)" using pm6(3) pm(3) by simp
    note cut = cut_span [where st' = ?st5, OF I'(1,2) aU b(2) n(1,2) st5a(1,2,4) st5b(1,2,4) st5x(1,2,4) g6a g6o]
    note G = cut(1,2) and M6 = cut(3) [folded ens6]
    have O6: "lists_ok C ?st5 (insert b U) L' {a}"
    proof -
      have "{b, a} - {b} = {a}" using ne by auto
      with st4(2) have "lists_ok C st4 (insert b U) L' {a}" by simp
      from lists_ok_upd [OF this, of "\<lambda>x. x\<lparr>span_length := n\<rparr>" a] show ?thesis by simp
    qed
    have S: "insert b U - {a} = insert b (U - {a})" using ne by auto
    have fin: "finite (U - {a})" using geom_finite [OF I'(1)] by simp
    have bn: "b \<notin> U - {a}" using b by simp
    have sum: "stat_sum ?st5 (insert b U - {a}) l = stat_sum ?st (U - {a}) l + (if old = l then ?len else 0)" for l
    proof -
      have "stat_sum ?st5 (U - {a}) l = stat_sum ?st (U - {a}) l" by (rule stat_sum_cong) (rule st5x(6))
      then show ?thesis unfolding S stat_sum_insert [OF fin bn] st5b by simp
    qed
    have lo: "old = ON_NORMAL_FREELIST \<or> old = ON_RETURNED_FREELIST" using old by (cases old) auto
    have SU: "sums_ok ?h6 (insert b U - {a})"
      using I'(4) sum lo by (auto simp: sums_ok_def f4_def u4_def len_bytes_add)
    have CO: "coalesced ?st5 (insert b U - {a})"
      unfolding coalesced_def
    proof (intro ballI impI)
      fix x y assume xy: "x \<in> insert b U - {a}" "y \<in> insert b U - {a}"
        "start_of ?st5 x + plen_of ?st5 x = start_of ?st5 y" "loc_of ?st5 x = loc_of ?st5 y"
      have xn: "x \<noteq> y" using xy(3) geomD(1) [OF G(1), of x] xy(1) by auto
      show "loc_of ?st5 x = IN_USE"
      proof (cases "x = b")
        case True
        then have y: "y \<in> U - {a}" using xy(2) xn by auto
        have "start_of ?st y = ?S + ?N" using xy(3) True st5b(1,2) st5x(1) [OF y] n by simp
        then have "loc_of ?st y \<noteq> old" using right y by blast
        then show ?thesis using xy(4) True st5b(3) st5x(3) [OF y] by simp
      next
        case xb: False
        then have x: "x \<in> U - {a}" using xy(1) by auto
        show ?thesis
        proof (cases "y = b")
          case True
          have e: "start_of ?st x + plen_of ?st x - 1 = ?S + n - 1" using xy(3) True st5b(1) st5x(1,2) [OF x] by simp
          have xU: "x \<in> U" using x by simp
          have "x = a" using geom_disjoint [OF I'(1) xU aU geomD(5) [OF I'(1) xU]] mem3(3) unfolding e by blast
          with x show ?thesis by simp
        next
          case False
          then have y: "y \<in> U - {a}" using xy(2) by auto
          show ?thesis using I'(5) x y xy(3,4) st5x(1,2,3) [OF x] st5x(1,2,3) [OF y] by (auto simp: coalesced_def)
        qed
      qed
    qed
    have CL: "clean ?st5 (insert b U)"
      unfolding clean_def
    proof (intro ballI impI conjI)
      fix x assume x: "x \<in> insert b U" "loc_of ?st5 x \<noteq> IN_USE"
      consider "x = a" | "x = b" | "x \<in> U - {a}" using x by blast
      then show "class_of ?st5 x = 0"
      proof cases
        case 3
        then show ?thesis using st5x(3,4) [OF 3] I'(6) x(2) by (auto simp: clean_def)
      qed (use st5a(4) st5b(4) in \<open>simp_all only:\<close>)
    next
      fix x assume x: "x \<in> insert b U"
      have "\<not> sample (spans ?h3 (Sp x))" using x zf(7) I'(6) by (cases "x = b") (auto simp: clean_def)
      then show "\<not> sample (?st5 (Sp x))" using cf(7) [of "Sp x"] by (auto split: if_splits)
    qed
    have MO: "mode_ok (aggressive_decommit ?h6) ?st5 (insert b U - {a})"
      unfolding mode_ok_def
    proof (intro impI ballI)
      fix x assume x: "aggressive_decommit ?h6" "x \<in> insert b U - {a}"
      then have g: "aggressive_decommit h" by simp
      show "loc_of ?st5 x \<noteq> ON_NORMAL_FREELIST"
      proof (cases "x = b")
        case True
        then show ?thesis using md [OF g] st5b(3) by simp
      next
        case False
        with x have x': "x \<in> U - {a}" by blast
        show ?thesis using mode_okD [OF I'(8) g x'] st5x(3) [OF x'] by simp
      qed
    qed
    have H: "heap_inv res Fm C ?h6 (insert b U) L' {a}"
    proof (rule heap_invI)
      show "mem_ok res Fm (heap_meta ?h6) (span_allocator ?h6) (stacktrace_allocator ?h6) (insert b U) (heap_pages (spans ?h6) (insert b U))"
        using M1 G(2) by simp
      show "mapped (PageMap3_get BITS64 (pagemap ?h6)) (PageMap3_ensured BITS64 (pagemap ?h6)) (spans ?h6) (insert b U)"
        using M6 by (simp add: g6_def)
    qed (use G(1) O6 SU CO CL MO in simp_all)
    show ?thesis
    proof (intro exI [of _ "Ret ?h6"] conjI op allI impI)
      fix h' assume "Ret ?h6 = Ret h'"
      then have h': "h' = ?h6" by simp
      show "\<exists>b L'. b \<notin> U \<and> heap_inv res Fm C h' (insert b U) L' {a} \<and> (\<forall>x. x \<notin> headers \<longrightarrow> L' x = L x) \<and>
        span_data (spans h' (Sp a)) = (span_data (spans h (Sp a)))\<lparr>span_length := n\<rparr> \<and>
        (\<forall>x\<in>U - {a}. span_data (spans h' (Sp x)) = span_data (spans h (Sp x))) \<and>
        loc_of (spans h') b = old \<and> plen_of (spans h') b = plen_of (spans h) a - n \<and>
        heap_pages (spans h') (insert b U) = heap_pages (spans h) U \<and> system_bytes h' = system_bytes h \<and>
        committed_bytes h' = committed_bytes h \<and> aggressive_decommit h' = aggressive_decommit h"
        unfolding h'
      proof (intro exI [of _ b] exI [of _ L'] conjI)
        show "heap_inv res Fm C ?h6 (insert b U) L' {a}" by (rule H)
      qed (use b(2) st4(4) da st5x(6) st5b(2,3) G(2) in simp_all)
    qed
  qed
qed

text \<open>The state after the optional leftover: \<open>a\<close>, in use and floating, has \<open>n\<close> pages.\<close>

definition trimmed :: "('os \<Rightarrow> nat set) \<Rightarrow> nat set \<Rightarrow> span_ptr set \<Rightarrow> location \<Rightarrow> 'os page_heap \<Rightarrow> addr set \<Rightarrow>
    (span_ptr \<Rightarrow> span_ptr list) \<Rightarrow> addr \<Rightarrow> nat \<Rightarrow> 'os page_heap \<Rightarrow> bool" where
  "trimmed res Fm C old h U L a n h' = (\<exists>U' L'. heap_inv res Fm C h' U' L' {a} \<and> (\<forall>x. x \<notin> headers \<longrightarrow> L' x = L x) \<and>
      span_data (spans h' (Sp a)) = (span_data (spans h (Sp a)))\<lparr>span_length := n\<rparr> \<and>
      inuse_view (spans h') (U' - {a}) = inuse_view (spans h) (U - {a}) \<and>
      stat_sum (spans h') U' ON_RETURNED_FREELIST = stat_sum (spans h) U ON_RETURNED_FREELIST +
        (if old = ON_RETURNED_FREELIST then plen_of (spans h) a - n else 0) \<and>
      heap_pages (spans h') U' = heap_pages (spans h) U \<and> system_bytes h' = system_bytes h \<and>
      committed_bytes h' = committed_bytes h \<and> aggressive_decommit h' = aggressive_decommit h)"

text \<open>The optional leftover: \<open>Carve\<close> up to the point where \<open>span\<close> has \<open>n\<close> pages.\<close>

lemma Carve_trim:
  assumes K: "os_contract (os_calls E) res" and I: "heap_inv res Fm C h U L {a}"
    and a: "loc_of (spans h) a = IN_USE" "class_of (spans h) a = 0"
    and n: "0 < n" "n \<le> plen_of (spans h) a" "plen_of (spans h) a < 2 ^ 31" and old: "old \<noteq> IN_USE"
    and right: "\<And>b. b \<in> U \<Longrightarrow> start_of (spans h) b = start_of (spans h) a + plen_of (spans h) a \<Longrightarrow> loc_of (spans h) b \<noteq> old"
    and md: "aggressive_decommit h \<Longrightarrow> old \<noteq> ON_NORMAL_FREELIST"
    and extra: "extra = int (plen_of (spans h) a - n)"
  shows "\<exists>r. (if extra > 0 then Carve_leftover E h (Sp a) n extra old else Some (Ret h)) = Some r \<and> (\<forall>h'. r = Ret h' \<longrightarrow> trimmed res Fm C old h U L a n h')"
proof (cases "extra > 0")
  case False
  then have "n = plen_of (spans h) a" using extra n(2) by simp
  moreover have "span_data (spans h (Sp a)) = (span_data (spans h (Sp a)))\<lparr>span_length := plen_of (spans h) a\<rparr>"
    by (simp add: span_data_def)
  ultimately show ?thesis using I False
    by (intro exI [of _ "Ret h"]) (simp add: trimmed_def, intro exI [of _ U] exI [of _ L], simp)
next
  case True
  then have n': "n < plen_of (spans h) a" using extra by simp
  obtain r where r: "Carve_leftover E h (Sp a) n extra old = Some r" "\<forall>h'. r = Ret h' \<longrightarrow>
    (\<exists>b L'. b \<notin> U \<and> heap_inv res Fm C h' (insert b U) L' {a} \<and> (\<forall>x. x \<notin> headers \<longrightarrow> L' x = L x) \<and>
      span_data (spans h' (Sp a)) = (span_data (spans h (Sp a)))\<lparr>span_length := n\<rparr> \<and>
      (\<forall>x\<in>U - {a}. span_data (spans h' (Sp x)) = span_data (spans h (Sp x))) \<and>
      loc_of (spans h') b = old \<and> plen_of (spans h') b = plen_of (spans h) a - n \<and>
      heap_pages (spans h') (insert b U) = heap_pages (spans h) U \<and> system_bytes h' = system_bytes h \<and>
      committed_bytes h' = committed_bytes h \<and> aggressive_decommit h' = aggressive_decommit h)"
    using Carve_leftover_spec [OF K I a n(1) n' n(3) old right md] unfolding extra by blast
  have aU: "a \<in> U" using lists_okD(2) [OF heap_invD(3) [OF I]] by blast
  have fin: "finite U" using geom_finite [OF heap_invD(1) [OF I]] .
  have "trimmed res Fm C old h U L a n h'" if rh: "r = Ret h'" for h'
  proof -
    obtain b L' where b: "b \<notin> U" "heap_inv res Fm C h' (insert b U) L' {a}" "\<forall>x. x \<notin> headers \<longrightarrow> L' x = L x"
      "span_data (spans h' (Sp a)) = (span_data (spans h (Sp a)))\<lparr>span_length := n\<rparr>"
      "\<forall>x\<in>U - {a}. span_data (spans h' (Sp x)) = span_data (spans h (Sp x))"
      "loc_of (spans h') b = old" "plen_of (spans h') b = plen_of (spans h) a - n"
      "heap_pages (spans h') (insert b U) = heap_pages (spans h) U" "system_bytes h' = system_bytes h"
      "committed_bytes h' = committed_bytes h" "aggressive_decommit h' = aggressive_decommit h"
      using r(2) rh by blast
    let ?R = ON_RETURNED_FREELIST
    have la: "loc_of (spans h') a = IN_USE" using b(4) a(1) span_data_fields(6) [of "spans h' (Sp a)" "(spans h (Sp a))\<lparr>span_length := n\<rparr>"]
      by (simp add: span_data_def)
    have "stat_sum (spans h') (U - {a}) ?R = stat_sum (spans h) (U - {a}) ?R" by (rule stat_sum_cong) (use b(5) in blast)
    moreover have "stat_sum (spans h') U ?R = stat_sum (spans h') (U - {a}) ?R" using stat_sum_remove [OF fin aU, of "spans h'" ?R] la by simp
    moreover have "stat_sum (spans h) U ?R = stat_sum (spans h) (U - {a}) ?R" using stat_sum_remove [OF fin aU, of "spans h" ?R] a by simp
    moreover have "stat_sum (spans h') (insert b U) ?R = stat_sum (spans h') U ?R + (if old = ?R then plen_of (spans h) a - n else 0)"
      using stat_sum_insert [OF fin b(1), of "spans h'" ?R] b(6,7) by simp
    ultimately have st: "stat_sum (spans h') (insert b U) ?R = stat_sum (spans h) U ?R + (if old = ?R then plen_of (spans h) a - n else 0)"
      by simp
    have "inuse_view (spans h') (insert b U - {a}) = inuse_view (spans h') (U - {a})"
      using b(6) old b(1) by (auto simp: inuse_view_def fun_eq_iff)
    also have "\<dots> = inuse_view (spans h) (U - {a})" by (rule view_cong(4)) (use b(5) in blast)
    finally show ?thesis unfolding trimmed_def using b st by (intro exI [of _ "insert b U"] exI [of _ L']) simp
  qed
  then show ?thesis using True r(1) by simp
qed

lemma CommitSpan_spec:
  assumes K: "os_contract (os_calls E) res" and I: "heap_inv res Fm C h U L F" and a: "a \<in> U"
  shows "\<exists>m. CommitSpan E h (Sp a) =
      Some (h\<lparr>heap_meta := m, committed_bytes := committed_bytes h + len_bytes (plen_of (spans h) a)\<rparr>) \<and>
    heap_inv res Fm C (h\<lparr>heap_meta := m, committed_bytes := committed_bytes h + len_bytes (plen_of (spans h) a)\<rparr>) U L F"
proof -
  obtain s where s: "TCMalloc_SystemCommit (os_calls E) (start_of (spans h) a * 2 ^ kPageShift)
      (plen_of (spans h) a * 2 ^ kPageShift) (sysm (heap_meta h)) = Some ((sysm (heap_meta h))\<lparr>os := s\<rparr>)"
    "res s = res (os (sysm (heap_meta h)))"
    using TCMalloc_SystemCommit_spec [OF K span_in_res [OF I a]] by blast
  let ?m = "(heap_meta h)\<lparr>sysm := (sysm (heap_meta h))\<lparr>os := s\<rparr>\<rparr>"
  have "CommitSpan E h (Sp a) =
      Some (h\<lparr>heap_meta := ?m, committed_bytes := committed_bytes h + len_bytes (plen_of (spans h) a)\<rparr>)"
    by (simp add: CommitSpan_def span_of_def s(1))
  moreover have "heap_inv res Fm C (h\<lparr>heap_meta := ?m, committed_bytes := committed_bytes h + len_bytes (plen_of (spans h) a)\<rparr>) U L F"
    using heap_inv_os [OF I s(2)] by simp
  ultimately show ?thesis by blast
qed

text \<open>What \<open>Carve\<close> delivers: \<open>n\<close> pages from the start of the free span \<open>a\<close>, now in use.\<close>

definition taken :: "('os \<Rightarrow> nat set) \<Rightarrow> nat set \<Rightarrow> span_ptr set \<Rightarrow> 'os page_heap \<Rightarrow> addr set \<Rightarrow>
    (span_ptr \<Rightarrow> span_ptr list) \<Rightarrow> addr \<Rightarrow> nat \<Rightarrow> 'os page_heap \<Rightarrow> bool" where
  "taken res Fm C h U L a n h' = (\<exists>U' L' d. heap_inv res Fm C h' U' L' {} \<and> imbalance h' U' = 0 \<and> aggressive_decommit h' = aggressive_decommit h \<and>
     (\<forall>x. x \<notin> headers \<longrightarrow> L' x = L x) \<and> heap_pages (spans h') U' = heap_pages (spans h) U \<and>
     inuse_view (spans h') U' = (inuse_view (spans h) U)(a \<mapsto> d) \<and> span_start d = start_of (spans h) a \<and>
     span_length d = n \<and> sizeclass d = 0 \<and> \<not> listed (headers \<union> C) L' (Sp a))"

lemma taken_alloc_post:
  assumes "taken res Fm C h U L a n h'" "loc_of (spans h) a \<noteq> IN_USE"
  shows "alloc_post res Fm C h U L n (Ret (Sp a, h'))"
  unfolding alloc_post_def
proof (intro allI impI)
  fix s h2 assume "Ret (Sp a, h') = Ret (s, h2)"
  then have e: "s = Sp a" "h2 = h'" by simp_all
  obtain U' L' d where t: "heap_inv res Fm C h' U' L' {}" "imbalance h' U' = 0" "aggressive_decommit h' = aggressive_decommit h"
     "\<forall>x. x \<notin> headers \<longrightarrow> L' x = L x" "heap_pages (spans h') U' = heap_pages (spans h) U"
     "inuse_view (spans h') U' = (inuse_view (spans h) U)(a \<mapsto> d)"
     "span_length d = n" "sizeclass d = 0" "\<not> listed (headers \<union> C) L' (Sp a)"
    using assms(1) unfolding taken_def by blast
  have "inuse_view (spans h) U a = None" using assms(2) by (simp add: inuse_view_def)
  then show "\<exists>U' L'. heap_inv res Fm C h2 U' L' {} \<and> imbalance h2 U' = 0 \<and> aggressive_decommit h2 = aggressive_decommit h \<and>
     (\<forall>x. x \<notin> headers \<longrightarrow> L' x = L x) \<and> heap_pages (spans h) U \<subseteq> heap_pages (spans h2) U' \<and>
     (s = SNull \<and> inuse_view (spans h2) U' = inuse_view (spans h) U \<or>
      (\<exists>a d. s = Sp a \<and> inuse_view (spans h) U a = None \<and>
        inuse_view (spans h2) U' = (inuse_view (spans h) U)(a \<mapsto> d) \<and> span_length d = n \<and> sizeclass d = 0 \<and>
        \<not> listed (headers \<union> C) L' (Sp a)))"
    unfolding e using t by (intro exI [of _ U'] exI [of _ L']) (simp, intro exI [of _ d], simp)
qed

text \<open>\<open>h2\<close> is the state in which \<open>span\<close> is off its list and in use, \<open>h3\<close> the state after the leftover.\<close>

lemma Carve_finish:
  assumes K: "os_contract (os_calls E) res" and T: "trimmed res Fm C old h U L a n h'"
    and a: "a \<in> U" "loc_of (spans h) a = IN_USE" "class_of (spans h) a = 0" and old: "old \<noteq> IN_USE"
    and n: "n \<le> plen_of (spans h) a"
    and B: "imbalance h U = (if old = ON_RETURNED_FREELIST then len_bytes (plen_of (spans h) a) else 0)"
  shows "\<exists>h''. (if old = ON_RETURNED_FREELIST then CommitSpan E h' (Sp a) else Some h') = Some h'' \<and> Check h' \<and>
    loc_of (spans h'') a = IN_USE \<and> plen_of (spans h'') a = n \<and>
    unmapped_bytes h'' + committed_bytes h'' = system_bytes h'' \<and> taken res Fm C h U L a n h''"
proof -
  let ?R = ON_RETURNED_FREELIST
  obtain U' L' where t: "heap_inv res Fm C h' U' L' {a}" "\<forall>x. x \<notin> headers \<longrightarrow> L' x = L x"
      "span_data (spans h' (Sp a)) = (span_data (spans h (Sp a)))\<lparr>span_length := n\<rparr>"
      "inuse_view (spans h') (U' - {a}) = inuse_view (spans h) (U - {a})"
      "stat_sum (spans h') U' ?R = stat_sum (spans h) U ?R + (if old = ?R then plen_of (spans h) a - n else 0)"
      "heap_pages (spans h') U' = heap_pages (spans h) U" "system_bytes h' = system_bytes h"
      "committed_bytes h' = committed_bytes h" "aggressive_decommit h' = aggressive_decommit h"
    using T unfolding trimmed_def by blast
  have "span_data (spans h' (Sp a)) = span_data ((spans h (Sp a))\<lparr>span_length := n\<rparr>)" using t(3) by (simp add: span_data_def)
  from span_data_fields [OF this] a
  have fa: "start_of (spans h') a = start_of (spans h) a" "plen_of (spans h') a = n" "loc_of (spans h') a = IN_USE" "class_of (spans h') a = 0" by simp_all
  have aU': "a \<in> U'" using lists_okD(2) [OF heap_invD(3) [OF t(1)]] by blast
  have so: "sums_ok h' (U' - {a})" using heap_invD(4) [OF t(1)] .
  have I3: "heap_inv res Fm C h' U' L' {}" using heap_inv_unfloat [OF t(1) fa(3) _ so] by simp
  have nl: "\<not> listed (headers \<union> C) L' (Sp a)" using floating_not_listed(1) [OF heap_invD(3) [OF t(1)]] by simp
  have inu: "inuse_view (spans h') U' = (inuse_view (spans h) U)(a \<mapsto> span_data (spans h' (Sp a)))"
  proof
    fix x
    have "inuse_view (spans h') (U' - {a}) x = inuse_view (spans h) (U - {a}) x" using t(4) by simp
    then show "inuse_view (spans h') U' x = ((inuse_view (spans h) U)(a \<mapsto> span_data (spans h' (Sp a)))) x"
      using aU' fa(3) by (cases "x = a") (simp_all add: inuse_view_def)
  qed
  have fin: "unmapped_bytes h'' + committed_bytes h'' = system_bytes h'' \<and> taken res Fm C h U L a n h''"
    if "heap_inv res Fm C h'' U' L' {}" "imbalance h'' U' = 0" "spans h'' = spans h'" "aggressive_decommit h'' = aggressive_decommit h'"
    for h'' :: "'a page_heap"
  proof
    have "unmapped_bytes h'' = len_bytes (stat_sum (spans h'') U' ?R)" using heap_invD(4) [OF that(1)] by (simp add: sums_ok_def)
    then show "unmapped_bytes h'' + committed_bytes h'' = system_bytes h''" using that(2) by (simp add: imbalance_def algebra_simps)
    show "taken res Fm C h U L a n h''"
      unfolding taken_def using that t(2,6,9) inu nl fa
      by (intro exI [of _ U'] exI [of _ L'] exI [of _ "span_data (spans h' (Sp a))"]) (simp add: span_data_def)
  qed
  have lb: "len_bytes (plen_of (spans h) a) = len_bytes (plen_of (spans h) a - n) + len_bytes n"
    using len_bytes_add [of "plen_of (spans h) a - n" n] n by simp
  show ?thesis
  proof (cases "old = ?R")
    case False
    have "imbalance h' U' = 0" using B t(5,7,8) False by (simp add: imbalance_def)
    from fin [OF I3 this refl refl] show ?thesis using False fa heap_inv_Check [OF I3] by simp
  next
    case True
    obtain m where m: "CommitSpan E h' (Sp a) = Some (h'\<lparr>heap_meta := m, committed_bytes := committed_bytes h' + len_bytes (plen_of (spans h') a)\<rparr>)"
      "heap_inv res Fm C (h'\<lparr>heap_meta := m, committed_bytes := committed_bytes h' + len_bytes (plen_of (spans h') a)\<rparr>) U' L' {}"
      using CommitSpan_spec [OF K I3 aU'] by blast
    let ?h = "h'\<lparr>heap_meta := m, committed_bytes := committed_bytes h' + len_bytes (plen_of (spans h') a)\<rparr>"
    have "imbalance ?h U' = 0" using B t(5,7,8) True fa(2) lb by (simp add: imbalance_def len_bytes_add algebra_simps)
    from fin [OF m(2) this] show ?thesis using True fa m(1) heap_inv_Check [OF I3] by simp
  qed
qed

lemma Carve_spec:
  assumes K: "os_contract (os_calls E) res" and I: "heap_inv res Fm C h U L {}" and B: "imbalance h U = 0"
    and a: "a \<in> U" "loc_of (spans h) a \<noteq> IN_USE"
    and n: "0 < n" "n \<le> plen_of (spans h) a" "plen_of (spans h) a < 2 ^ 31"
  shows "\<exists>r. Carve E h (Sp a) n = Some r \<and> (\<forall>s h'. r = Ret (s, h') \<longrightarrow> s = Sp a \<and> taken res Fm C h U L a n h')"
proof -
  note I' = heap_invD [OF I]
  let ?st = "spans h" and ?old = "loc_of (spans h) a" and ?R = ON_RETURNED_FREELIST
  obtain h1 L1 st f u where r1: "RemoveFromFreeList h (Sp a) = Some h1"
    "h1 = h\<lparr>spans := st, free_bytes := f, unmapped_bytes := u\<rparr>" "heap_inv res Fm C h1 U L1 {a}"
    "\<forall>x. span_data (st x) = span_data (?st x)" "\<forall>x. x \<notin> headers \<longrightarrow> L1 x = L x"
    using RemoveFromFreeList_spec [OF I, of a] a by auto
  note f1 = span_data_fields [OF r1(4) [rule_format]]
  let ?f = "\<lambda>x. x\<lparr>location := IN_USE\<rparr>"
  let ?h2 = "h1\<lparr>spans := (spans h1)(Sp a := ?f (spans h1 (Sp a)))\<rparr>"
  have sp: "spans h1 = st" "spans ?h2 = st(Sp a := ?f (st (Sp a)))" by (simp_all add: r1(2))
  have c0: "class_of st a = 0" using I'(6) a f1 by (simp add: clean_def)
  have I2: "heap_inv res Fm C ?h2 U L1 {a}" using heap_inv_upd [OF r1(3) _ refl, of a ?f] c0 sp(1) by simp
  have a2: "start_of (spans ?h2) a = start_of ?st a" "plen_of (spans ?h2) a = plen_of ?st a"
    "loc_of (spans ?h2) a = IN_USE" "class_of (spans ?h2) a = 0" using f1 c0 by (simp_all add: sp)
  have D2: "span_data (spans ?h2 (Sp x)) = span_data (?st (Sp x))" if "x \<noteq> a" for x using that r1(4) by (simp add: sp)
  have right: "loc_of (spans ?h2) b \<noteq> ?old" if "b \<in> U" "start_of (spans ?h2) b = start_of (spans ?h2) a + plen_of (spans ?h2) a" for b
  proof -
    have "b \<noteq> a" using that(2) a2 n by auto
    note d = span_data_fields [OF D2 [OF this]]
    have "start_of ?st a + plen_of ?st a = start_of ?st b" using that(2) a2 d by simp
    then show ?thesis using coalescedD [OF I'(5), of a b] a that(1) d(6) by auto
  qed
  have md: "?old \<noteq> ON_NORMAL_FREELIST" if "aggressive_decommit ?h2"
    using mode_okD [OF I'(8), of a] a(1) that by (simp add: r1(2))
  have nn: "n \<le> plen_of (spans ?h2) a" "plen_of (spans ?h2) a < 2 ^ 31" using n a2 by simp_all
  have ex: "to_int32 (sub64 (span_length (span_of ?h2 (Sp a))) n) = int (plen_of (spans ?h2) a - n)"
    unfolding span_of_def using sub64_small [OF nn(1)] nn(2) by (simp add: to_int32_small)
  obtain r where r: "(if int (plen_of (spans ?h2) a - n) > 0 then Carve_leftover E ?h2 (Sp a) n (int (plen_of (spans ?h2) a - n)) ?old
      else Some (Ret ?h2)) = Some r" "\<forall>h'. r = Ret h' \<longrightarrow> trimmed res Fm C ?old ?h2 U L1 a n h'"
    using Carve_trim [OF K I2 a2(3,4) n(1) nn a(2) right md refl] by blast
  have fin: "finite U" using geom_finite [OF I'(1)] .
  have imb: "imbalance ?h2 U = (if ?old = ?R then len_bytes (plen_of (spans ?h2) a) else 0)"
  proof -
    have "stat_sum (spans ?h2) (U - {a}) ?R = stat_sum ?st (U - {a}) ?R" by (rule stat_sum_cong) (use D2 in auto)
    then have "stat_sum ?st U ?R = stat_sum (spans ?h2) U ?R + (if ?old = ?R then plen_of ?st a else 0)"
      using stat_sum_remove [OF fin a(1), of "spans ?h2" ?R] stat_sum_remove [OF fin a(1), of ?st ?R] a2(3) by simp
    then show ?thesis using B a2(2) by (simp add: imbalance_def len_bytes_add r1(2) algebra_simps)
  qed
  have inu2: "inuse_view (spans ?h2) U = (inuse_view ?st U)(a \<mapsto> span_data (spans ?h2 (Sp a)))"
  proof
    fix x
    show "inuse_view (spans ?h2) U x = ((inuse_view ?st U)(a \<mapsto> span_data (spans ?h2 (Sp a)))) x"
      using a(1) a2(3) D2 [of x] span_data_fields(6) [OF D2, of x] by (cases "x = a") (simp_all add: inuse_view_def)
  qed
  have hp2: "heap_pages (spans ?h2) U = heap_pages ?st U"
  proof -
    have "ext (spans ?h2) = ext ?st" using f1 by (simp add: sp ext_def fun_eq_iff)
    then show ?thesis by (simp add: heap_pages_def)
  qed
  have op: "Carve E h (Sp a) n = (case r of OutOfMemory \<Rightarrow> Some OutOfMemory
     | Ret h3 \<Rightarrow> do {
         CHECK (Check h3);
         h4 \<leftarrow> (if ?old = ?R then CommitSpan E h3 (Sp a) else Some h3);
         CHECK (loc_of (spans h4) a = IN_USE);
         CHECK (plen_of (spans h4) a = n);
         CHECK (unmapped_bytes h4 + committed_bytes h4 = system_bytes h4);
         Some (Ret (Sp a, h4)) })"
  proof -
    have u2: "upd_span h1 (Sp a) ?f = Some ?h2" by (simp add: upd_span_def)
    have l0: "location (span_of h (Sp a)) = ?old" by (simp add: span_of_def)
    have e0: "CHECK (int (plen_of (spans ?h2) a - n) \<ge> 0) = Some ()" by simp
    have c: "CHECK (0 < n) = Some ()" "CHECK (?old \<noteq> IN_USE) = Some ()" using n(1) a(2) by simp_all
    show ?thesis
      unfolding Carve_def l0 c Option.bind.bind_lunit r1(1) u2 Let_def span_of_def ex [unfolded span_of_def] e0 r(1) by (rule refl)
  qed
  have ag2: "aggressive_decommit ?h2 = aggressive_decommit h" by (simp add: r1(2))
  show ?thesis
  proof (cases r)
    case OutOfMemory
    then show ?thesis using op by simp
  next
    case (Ret h3)
    from Carve_finish [OF K r(2) [rule_format, OF Ret] a(1) a2(3,4) a(2) nn(1) imb]
    obtain h4 where h4: "(if ?old = ?R then CommitSpan E h3 (Sp a) else Some h3) = Some h4" "Check h3"
      "loc_of (spans h4) a = IN_USE" "plen_of (spans h4) a = n" "unmapped_bytes h4 + committed_bytes h4 = system_bytes h4"
      "taken res Fm C ?h2 U L1 a n h4" by blast
    have "taken res Fm C h U L a n h4"
      using h4(6) inu2 hp2 a2(1) r1(5) ag2 unfolding taken_def by simp
    moreover have "Carve E h (Sp a) n = Some (Ret (Sp a, h4))"
      unfolding op Ret outcome.case h4(1) using h4(2-5) by simp
    ultimately show ?thesis by simp
  qed
qed

section \<open>The search for a span\<close>

text \<open>The order of \<open>AllocLarge\<close>: shorter first, then by address.\<close>

definition fit_less :: "store \<Rightarrow> span_ptr \<Rightarrow> span_ptr \<Rightarrow> bool" where
  "fit_less st s t = (span_length (st s) < span_length (st t) \<or>
     span_length (st s) = span_length (st t) \<and> span_start (st s) < span_start (st t))"

lemma fit_less_trans: "fit_less st s t \<Longrightarrow> fit_less st t u \<Longrightarrow> fit_less st s u"
  by (auto simp: fit_less_def)

lemma fit_less_weak: "\<not> fit_less st s t \<Longrightarrow> fit_less st s u \<Longrightarrow> fit_less st t u"
  by (auto simp: fit_less_def)

text \<open>\<open>b\<close> is the better of \<open>best\<close> and the fitting elements of \<open>X\<close>.\<close>

definition best_of :: "store \<Rightarrow> nat \<Rightarrow> span_ptr \<Rightarrow> span_ptr set \<Rightarrow> span_ptr \<Rightarrow> bool" where
  "best_of st n best X b =
     ((b = best \<or> b \<in> X \<and> n \<le> span_length (st b) \<and> (best = SNull \<or> fit_less st b best)) \<and>
      (\<forall>x\<in>X. n \<le> span_length (st x) \<longrightarrow> b \<noteq> SNull \<and> \<not> fit_less st x b))"

lemma best_ofD:
  assumes "best_of st n best X b"
  shows "b = best \<or> b \<in> X \<and> n \<le> span_length (st b) \<and> (best = SNull \<or> fit_less st b best)"
    "x \<in> X \<Longrightarrow> n \<le> span_length (st x) \<Longrightarrow> b \<noteq> SNull \<and> \<not> fit_less st x b"
  using assms by (auto simp: best_of_def)

lemma best_of_step:
  assumes b: "best_of st n best' X b" and x: "x \<noteq> SNull" and nX: "SNull \<notin> X"
    and best': "best' = (if n \<le> span_length (st x) \<and> (best = SNull \<or> fit_less st x best) then x else best)"
  shows "best_of st n best (insert x X) b"
proof (cases "n \<le> span_length (st x) \<and> (best = SNull \<or> fit_less st x best)")
  case True
  with best' have e: "best' = x" by simp
  note D = best_ofD [OF b [unfolded e]]
  have bx: "b = x \<or> b \<in> X \<and> n \<le> span_length (st b) \<and> fit_less st b x" using D(1) x by blast
  have irr: "\<not> fit_less st x x" by (simp add: fit_less_def)
  have asym: "\<not> fit_less st x b" if "fit_less st b x" using that by (auto simp: fit_less_def)
  have "b \<noteq> SNull" using bx x nX by metis
  moreover have "\<not> fit_less st x b" using bx irr asym by metis
  moreover have "n \<le> span_length (st b)" "best = SNull \<or> fit_less st b best" "b \<in> insert x X"
    using bx True fit_less_trans [of st b x best] by auto
  ultimately show ?thesis unfolding best_of_def using D(2) by blast
next
  case False
  with best' have e: "best' = best" by auto
  note D = best_ofD [OF b [unfolded e]]
  have "b \<noteq> SNull \<and> \<not> fit_less st x b" if "n \<le> span_length (st x)"
  proof -
    have ne: "best \<noteq> SNull" "\<not> fit_less st x best" using False that by auto
    show ?thesis using D(1) nX ne fit_less_trans [of st x b best] by blast
  qed
  then show ?thesis unfolding best_of_def using D by blast
qed

lemma best_fit_dseg:
  assumes "dseg st s xs hdr" "hdr \<notin> set xs" "SNull \<notin> set xs"
    and "\<And>x. x \<in> set xs \<Longrightarrow> n \<le> span_length (st x) \<Longrightarrow> location (st x) = loc"
  shows "\<exists>b. best_fit st hdr loc n (span_next (st s)) best = Some b \<and> best_of st n best (set xs) b"
  using assms
proof (induction xs arbitrary: s best)
  case Nil
  then show ?case by (simp add: best_fit.simps [of st hdr] best_of_def)
next
  case (Cons x xs)
  define best' where "best' = (if n \<le> span_length (st x) \<and> (best = SNull \<or> fit_less st x best) then x else best)"
  from Cons.prems have d: "span_next (st s) = x" "dseg st x xs hdr" "x \<noteq> hdr" "x \<noteq> SNull"
    "hdr \<notin> set xs" "SNull \<notin> set xs" by auto
  obtain b where b: "best_fit st hdr loc n (span_next (st x)) best' = Some b" "best_of st n best' (set xs) b"
    using Cons.IH [OF d(2,5,6), of best'] Cons.prems(4) by auto
  have "best_fit st hdr loc n x best = Some b"
    using b(1) d Cons.prems(4) [of x] by (subst best_fit.simps) (auto simp: best'_def fit_less_def)
  then show ?case using best_of_step [OF b(2) d(4,6) best'_def] d(1) by auto
qed

lemma EnsureLimit_none: "heap_limit_mb E = 0 \<Longrightarrow> EnsureLimit E h n w = Some (True, h)"
  by (simp add: EnsureLimit_def)

lemma plen_le_pages:
  assumes "geom st U" "a \<in> U"
  shows "plen_of st a \<le> card (heap_pages st U)"
proof -
  have "heap_pages st U \<subseteq> {0<..<2 ^ 34}" unfolding heap_pages_def using geom_ext_bound [OF assms(1)] by blast
  then have "finite (heap_pages st U)" by (rule finite_subset) simp
  moreover have "ext st a \<subseteq> heap_pages st U" using assms(2) by (auto simp: heap_pages_def)
  ultimately have "card (ext st a) \<le> card (heap_pages st U)" by (rule card_mono)
  then show ?thesis by (simp add: ext_def)
qed

text \<open>The free spans that a search for \<open>n\<close> pages may use.\<close>

definition fits :: "store \<Rightarrow> addr set \<Rightarrow> nat \<Rightarrow> addr set" where
  "fits st U n = {x \<in> U. loc_of st x \<noteq> IN_USE \<and> n \<le> plen_of st x}"

lemma large_lists:
  assumes I: "heap_inv res Fm C h U L {}"
  shows "Sp x \<in> set (L LargeNormal) \<union> set (L LargeReturned) \<longleftrightarrow> x \<in> fits (spans h) U kMaxPages"
    "s \<in> set (L LargeNormal) \<union> set (L LargeReturned) \<Longrightarrow> \<exists>x\<in>U. s = Sp x"
    "s \<in> set (L LargeNormal) \<Longrightarrow> location (spans h s) = ON_NORMAL_FREELIST"
    "s \<in> set (L LargeReturned) \<Longrightarrow> location (spans h s) = ON_RETURNED_FREELIST"
proof -
  note O = heap_invD(3) [OF I]
  have hd: "LargeNormal \<in> headers" "LargeReturned \<in> headers" by (simp_all add: headers_def)
  have N: "\<exists>a\<in>U. s = Sp a \<and> loc_of (spans h) a = ON_NORMAL_FREELIST \<and> kMaxPages \<le> plen_of (spans h) a"
    if "s \<in> set (L LargeNormal)" for s
    using lists_okD(5) [OF O hd(1) that] by (auto simp: list_of_def split: if_splits)
  have R: "\<exists>a\<in>U. s = Sp a \<and> loc_of (spans h) a = ON_RETURNED_FREELIST \<and> kMaxPages \<le> plen_of (spans h) a"
    if s: "s \<in> set (L LargeReturned)" for s
  proof -
    obtain a where a: "a \<in> U" "s = Sp a" "loc_of (spans h) a \<noteq> IN_USE" "LargeReturned = list_of (loc_of (spans h) a) (plen_of (spans h) a)"
      using lists_okD(5) [OF O hd(2) s] by blast
    then show ?thesis by (cases "loc_of (spans h) a") (auto simp: list_of_def split: if_splits)
  qed
  show "Sp x \<in> set (L LargeNormal) \<union> set (L LargeReturned) \<longleftrightarrow> x \<in> fits (spans h) U kMaxPages"
  proof
    assume "Sp x \<in> set (L LargeNormal) \<union> set (L LargeReturned)"
    then show "x \<in> fits (spans h) U kMaxPages" using N [of "Sp x"] R [of "Sp x"] by (auto simp: fits_def)
  next
    assume "x \<in> fits (spans h) U kMaxPages"
    then have x: "x \<in> U - {}" "loc_of (spans h) x \<noteq> IN_USE" "kMaxPages \<le> plen_of (spans h) x" by (simp_all add: fits_def)
    from lists_okD(4) [OF O x(1,2)] x(3)
    show "Sp x \<in> set (L LargeNormal) \<union> set (L LargeReturned)" by (auto simp: list_of_def split: if_splits)
  qed
  show "s \<in> set (L LargeNormal) \<union> set (L LargeReturned) \<Longrightarrow> \<exists>x\<in>U. s = Sp x" using N R by blast
  show "s \<in> set (L LargeNormal) \<Longrightarrow> location (spans h s) = ON_NORMAL_FREELIST" using N by auto
  show "s \<in> set (L LargeReturned) \<Longrightarrow> location (spans h s) = ON_RETURNED_FREELIST" using R by auto
qed

text \<open>The two search loops.\<close>

lemma best_fit_large:
  assumes I: "heap_inv res Fm C h U L {}"
  shows "\<exists>bn b. best_fit (spans h) LargeNormal ON_NORMAL_FREELIST n (span_next (span_of h LargeNormal)) SNull = Some bn \<and>
    best_fit (spans h) LargeReturned ON_RETURNED_FREELIST n (span_next (span_of h LargeReturned)) bn = Some b \<and>
    (if b = SNull then bn = SNull \<and> fits (spans h) U (max n kMaxPages) = {}
     else \<exists>a\<in>fits (spans h) U (max n kMaxPages). b = Sp a \<and>
       (\<forall>x\<in>fits (spans h) U (max n kMaxPages). \<not> fit_less (spans h) (Sp x) (Sp a)))"
proof -
  note O = heap_invD(3) [OF I] and ll = large_lists [OF I]
  have hd: "LargeNormal \<in> headers \<union> C" "LargeReturned \<in> headers \<union> C" by (simp_all add: headers_def)
  have seg: "dseg (spans h) x (L x) x" "x \<notin> set (L x)" "SNull \<notin> set (L x)" if "x \<in> headers \<union> C" for x
    using dlls_dll [OF lists_okD(3) [OF O] that] by (auto simp: dll_def)
  obtain bn where bn: "best_fit (spans h) LargeNormal ON_NORMAL_FREELIST n (span_next (span_of h LargeNormal)) SNull = Some bn"
    "best_of (spans h) n SNull (set (L LargeNormal)) bn"
    unfolding span_of_def using best_fit_dseg [OF seg [OF hd(1)] ll(3)] by blast
  obtain b where b: "best_fit (spans h) LargeReturned ON_RETURNED_FREELIST n (span_next (span_of h LargeReturned)) bn = Some b"
    "best_of (spans h) n bn (set (L LargeReturned)) b"
    unfolding span_of_def using best_fit_dseg [OF seg [OF hd(2)] ll(4)] by blast
  note Dn = best_ofD [OF bn(2)] and Db = best_ofD [OF b(2)]
  have nn: "SNull \<notin> set (L LargeNormal)" "SNull \<notin> set (L LargeReturned)" using seg(3) hd by blast+
  have mx: "x \<in> fits (spans h) U (max n kMaxPages) \<longleftrightarrow> n \<le> plen_of (spans h) x \<and> x \<in> fits (spans h) U kMaxPages" for x
    by (auto simp: fits_def)
  have opt: "b \<noteq> SNull \<and> \<not> fit_less (spans h) (Sp x) b" if "x \<in> fits (spans h) U (max n kMaxPages)" for x
  proof -
    have x: "n \<le> plen_of (spans h) x" "Sp x \<in> set (L LargeNormal) \<union> set (L LargeReturned)" using that ll(1) mx by auto
    show ?thesis
    proof (cases "Sp x \<in> set (L LargeReturned)")
      case True
      then show ?thesis using Db(2) x(1) by blast
    next
      case False
      then have "bn \<noteq> SNull" "\<not> fit_less (spans h) (Sp x) bn" using Dn(2) [of "Sp x"] x by blast+
      then show ?thesis using Db(1) nn(2) fit_less_trans [of "spans h" "Sp x" b bn] by blast
    qed
  qed
  have mem: "\<exists>a\<in>fits (spans h) U (max n kMaxPages). b = Sp a" if "b \<noteq> SNull"
  proof -
    have s: "b \<in> set (L LargeNormal) \<union> set (L LargeReturned)" "n \<le> span_length (spans h b)"
      using Db(1) Dn(1) that by blast+
    then obtain a where "a \<in> U" "b = Sp a" using ll(2) by blast
    then show ?thesis using s ll(1) mx by blast
  qed
  have "bn = SNull" if "b = SNull" using Db(1) nn(2) that by blast
  then show ?thesis using bn(1) b(1) opt mem by (intro exI [of _ bn] exI [of _ b]) auto
qed

lemma AllocLarge_spec:
  assumes K: "os_contract (os_calls E) res" and I: "heap_inv res Fm C h U L {}" and B: "imbalance h U = 0"
    and lim: "heap_limit_mb E = 0" and n: "0 < n"
    and small: "card (heap_pages (spans h) U) < 2 ^ 31"
  shows "\<exists>r. AllocLarge E h n = Some r \<and> (\<forall>s h'. r = Ret (s, h') \<longrightarrow>
    (if s = SNull then h' = h \<and> fits (spans h) U (max n kMaxPages) = {}
     else \<exists>a\<in>fits (spans h) U (max n kMaxPages). s = Sp a \<and> taken res Fm C h U L a n h' \<and>
       (\<forall>x\<in>fits (spans h) U (max n kMaxPages). \<not> fit_less (spans h) (Sp x) (Sp a))))"
proof -
  obtain bn b where s: "best_fit (spans h) LargeNormal ON_NORMAL_FREELIST n (span_next (span_of h LargeNormal)) SNull = Some bn"
    "best_fit (spans h) LargeReturned ON_RETURNED_FREELIST n (span_next (span_of h LargeReturned)) bn = Some b"
    "if b = SNull then bn = SNull \<and> fits (spans h) U (max n kMaxPages) = {}
     else \<exists>a\<in>fits (spans h) U (max n kMaxPages). b = Sp a \<and>
       (\<forall>x\<in>fits (spans h) U (max n kMaxPages). \<not> fit_less (spans h) (Sp x) (Sp a))"
    using best_fit_large [OF I] by blast
  have op: "AllocLarge E h n = (if b = SNull then Some (Ret (SNull, h)) else Carve E h b n)"
    using s by (subst AllocLarge.simps) (auto simp: EnsureLimit_none [OF lim] split: if_splits)
  show ?thesis
  proof (cases "b = SNull")
    case True
    then show ?thesis using op s(3) by simp
  next
    case False
    with s(3) obtain a where a: "a \<in> fits (spans h) U (max n kMaxPages)" "b = Sp a"
       "\<forall>x\<in>fits (spans h) U (max n kMaxPages). \<not> fit_less (spans h) (Sp x) (Sp a)" by auto
    then have a': "a \<in> U" "loc_of (spans h) a \<noteq> IN_USE" "n \<le> plen_of (spans h) a" by (simp_all add: fits_def)
    have "plen_of (spans h) a < 2 ^ 31" using plen_le_pages [OF heap_invD(1) [OF I] a'(1)] small by simp
    from Carve_spec [OF K I B a'(1,2) n a'(3) this] show ?thesis using op a by auto
  qed
qed

text \<open>What the whole search promises: it fails only if no free span has \<open>n\<close> pages, and otherwise
  takes the pages from a shortest one.\<close>

definition search_post :: "('os \<Rightarrow> nat set) \<Rightarrow> nat set \<Rightarrow> span_ptr set \<Rightarrow> 'os page_heap \<Rightarrow> addr set \<Rightarrow>
    (span_ptr \<Rightarrow> span_ptr list) \<Rightarrow> nat \<Rightarrow> (span_ptr \<times> 'os page_heap) outcome \<Rightarrow> bool" where
  "search_post res Fm C h U L n r = (\<forall>s h'. r = Ret (s, h') \<longrightarrow>
    (if s = SNull then h' = h \<and> fits (spans h) U n = {}
     else \<exists>a\<in>fits (spans h) U n. s = Sp a \<and> taken res Fm C h U L a n h' \<and>
       (\<forall>x\<in>fits (spans h) U n. plen_of (spans h) a \<le> plen_of (spans h) x)))"

lemma small_list:
  assumes I: "heap_inv res Fm C h U L {}" and s: "s < kMaxPages" and l: "l \<noteq> IN_USE"
  shows "DLL_IsEmpty (spans h) (list_of l s) \<longleftrightarrow> (\<forall>x\<in>U. loc_of (spans h) x = l \<longrightarrow> plen_of (spans h) x \<noteq> s)"
    "\<not> DLL_IsEmpty (spans h) (list_of l s) \<Longrightarrow> \<exists>a\<in>U. span_next (spans h (list_of l s)) = Sp a \<and>
       loc_of (spans h) a = l \<and> plen_of (spans h) a = s"
proof -
  note O = heap_invD(3) [OF I]
  have e: "DLL_IsEmpty (spans h) (list_of l s) = (L (list_of l s) = [])" by (rule header_is_empty [OF I]) simp
  have mem: "\<exists>a\<in>U. y = Sp a \<and> loc_of (spans h) a = l \<and> plen_of (spans h) a = s" if y: "y \<in> set (L (list_of l s))" for y
  proof -
    obtain a where a: "a \<in> U" "y = Sp a" "loc_of (spans h) a \<noteq> IN_USE" "list_of l s = list_of (loc_of (spans h) a) (plen_of (spans h) a)"
      using lists_okD(5) [OF O list_of_header y] by blast
    then show ?thesis using s l
      by (cases "loc_of (spans h) a"; cases l) (auto simp: list_of_def split: if_splits)
  qed
  show "DLL_IsEmpty (spans h) (list_of l s) \<longleftrightarrow> (\<forall>x\<in>U. loc_of (spans h) x = l \<longrightarrow> plen_of (spans h) x \<noteq> s)"
  proof
    assume "DLL_IsEmpty (spans h) (list_of l s)"
    then have "L (list_of l s) = []" using e by simp
    then show "\<forall>x\<in>U. loc_of (spans h) x = l \<longrightarrow> plen_of (spans h) x \<noteq> s" using lists_okD(4) [OF O] l by force
  next
    assume no: "\<forall>x\<in>U. loc_of (spans h) x = l \<longrightarrow> plen_of (spans h) x \<noteq> s"
    have "y \<notin> set (L (list_of l s))" for y using mem [of y] no by auto
    then have "L (list_of l s) = []" by (metis list.set_intros(1) neq_Nil_conv)
    then show "DLL_IsEmpty (spans h) (list_of l s)" using e by simp
  qed
  assume "\<not> DLL_IsEmpty (spans h) (list_of l s)"
  then obtain y ys where y: "L (list_of l s) = y # ys" using e by (cases "L (list_of l s)") auto
  have "dll (spans h) (list_of l s) (y # ys)" using dlls_dll [OF lists_okD(3) [OF O], of "list_of l s"] y by simp
  then have "span_next (spans h (list_of l s)) = y" by (rule dll_hd)
  then show "\<exists>a\<in>U. span_next (spans h (list_of l s)) = Sp a \<and> loc_of (spans h) a = l \<and> plen_of (spans h) a = s"
    using mem [of y] y by simp
qed

lemma Search_lists_spec:
  assumes K: "os_contract (os_calls E) res" and I: "heap_inv res Fm C h U L {}" and B: "imbalance h U = 0"
    and lim: "heap_limit_mb E = 0" and n: "0 < n"
    and small: "card (heap_pages (spans h) U) < 2 ^ 31"
  shows "n \<le> s \<Longrightarrow> \<forall>x\<in>fits (spans h) U n. s \<le> plen_of (spans h) x \<Longrightarrow>
    \<exists>r. Search_lists E h n s = Some r \<and> search_post res Fm C h U L n r"
proof (induction "kMaxPages - s" arbitrary: s rule: less_induct)
  case less
  let ?st = "spans h"
  have hit: "\<exists>r. Carve E h (Sp a) n = Some r \<and> search_post res Fm C h U L n r"
    if a: "a \<in> U" "loc_of ?st a \<noteq> IN_USE" "plen_of ?st a = s" for a
  proof -
    have f: "a \<in> fits ?st U n" using a less.prems(1) by (simp add: fits_def)
    have "plen_of ?st a < 2 ^ 31" using plen_le_pages [OF heap_invD(1) [OF I] a(1)] small by simp
    from Carve_spec [OF K I B a(1,2) n _ this] less.prems(1) a(3)
    obtain r where "Carve E h (Sp a) n = Some r" "\<forall>x h'. r = Ret (x, h') \<longrightarrow> x = Sp a \<and> taken res Fm C h U L a n h'" by auto
    then show ?thesis using f less.prems(2) a(3) by (auto simp: search_post_def)
  qed
  show ?case
  proof (cases "s < kMaxPages")
    case False
    then have mx: "fits ?st U (max n kMaxPages) = fits ?st U n"
      using less.prems by (fastforce simp: fits_def)
    obtain r where r: "AllocLarge E h n = Some r" "\<forall>s h'. r = Ret (s, h') \<longrightarrow>
      (if s = SNull then h' = h \<and> fits ?st U n = {}
       else \<exists>a\<in>fits ?st U n. s = Sp a \<and> taken res Fm C h U L a n h' \<and>
         (\<forall>x\<in>fits ?st U n. \<not> fit_less ?st (Sp x) (Sp a)))"
      using AllocLarge_spec [OF K I B lim n small] unfolding mx by blast
    have "plen_of ?st a \<le> plen_of ?st x" if "\<not> fit_less ?st (Sp x) (Sp a)" for a x using that by (simp add: fit_less_def)
    then have "search_post res Fm C h U L n r" unfolding search_post_def using r(2) by metis
    then show ?thesis using r(1) False by (simp add: Search_lists.simps [of E h n s])
  next
    case True
    have ln: "list_of ON_NORMAL_FREELIST s = FreeNormal s" "list_of ON_RETURNED_FREELIST s = FreeReturned s"
      using True by (simp_all add: list_of_def)
    note N = small_list [OF I True, of ON_NORMAL_FREELIST, unfolded ln] and R = small_list [OF I True, of ON_RETURNED_FREELIST, unfolded ln]
    show ?thesis
    proof (cases "DLL_IsEmpty ?st (FreeNormal s)")
      case False
      then obtain a where "a \<in> U" "span_next (?st (FreeNormal s)) = Sp a" "loc_of ?st a = ON_NORMAL_FREELIST" "plen_of ?st a = s"
        using N(2) by blast
      then show ?thesis using True False hit [of a] by (simp add: Search_lists.simps [of E h n s] span_of_def)
    next
      case en: True
      show ?thesis
      proof (cases "DLL_IsEmpty ?st (FreeReturned s)")
        case False
        then obtain a where "a \<in> U" "span_next (?st (FreeReturned s)) = Sp a" "loc_of ?st a = ON_RETURNED_FREELIST" "plen_of ?st a = s"
          using R(2) by blast
        then show ?thesis using True False en hit [of a]
          by (simp add: Search_lists.simps [of E h n s] span_of_def EnsureLimit_none [OF lim])
      next
        case er: True
        have "\<forall>x\<in>fits ?st U n. s + 1 \<le> plen_of ?st x"
        proof
          fix x assume x: "x \<in> fits ?st U n"
          then have "x \<in> U" "loc_of ?st x = ON_NORMAL_FREELIST \<or> loc_of ?st x = ON_RETURNED_FREELIST"
            by (auto simp: fits_def intro: location.exhaust)
          then have "plen_of ?st x \<noteq> s" using N(1) R(1) en er by auto
          then show "s + 1 \<le> plen_of ?st x" using less.prems(2) x by force
        qed
        then obtain r where "Search_lists E h n (s + 1) = Some r" "search_post res Fm C h U L n r"
          using less.hyps [of "s + 1"] True less.prems(1) by (auto simp: diff_less_mono2)
        then show ?thesis using True en er by (simp add: Search_lists.simps [of E h n s])
      qed
    qed
  qed
qed

lemma SearchFreeAndLargeLists_spec:
  assumes "os_contract (os_calls E) res" and I: "heap_inv res Fm C h U L {}" and "imbalance h U = 0"
    and "heap_limit_mb E = 0" and n: "0 < n"
    and "card (heap_pages (spans h) U) < 2 ^ 31"
  shows "\<exists>r. SearchFreeAndLargeLists E h n = Some r \<and> search_post res Fm C h U L n r"
proof -
  have "\<forall>x\<in>fits (spans h) U n. n \<le> plen_of (spans h) x" by (simp add: fits_def)
  from Search_lists_spec [OF assms order_refl this] show ?thesis
    using heap_inv_Check [OF I] n by (simp add: SearchFreeAndLargeLists_def)
qed

end
