(* ===== verification/Page_Heap_Grow.thy ===== *)
theory Page_Heap_Grow
  imports Page_Heap_Alloc
begin

text \<open>
  Growing the heap, and \<open>New\<close>. \<open>GrowHeap\<close> reserves a region, makes
  the page map cover it, pretends that it is one span in use and deletes that span; the lemmas
  show that this keeps the invariant, also when one of the allocations on the way fails.
\<close>

section \<open>Memory from the system\<close>

lemma heap_inv_meta:
  assumes "heap_inv res Fm C h U L F" "mem_ok res Fm m (span_allocator h) ta U (heap_pages (spans h) U)"
  shows "heap_inv res Fm C (h\<lparr>heap_meta := m, stacktrace_allocator := ta, growth_stacks := g, stack_traces := tr\<rparr>) U L F"
  using heap_invD [OF assms(1)] assms(2) by (intro heap_invI) (simp_all add: sums_ok_def)

lemma mem_ok_grow:
  assumes M: "mem_ok res Fm m sa ta U P" and S: "sys_inv res sy" and n: "extent a n \<inter> res (os (sysm m)) = {}"
    "res (os sy) = res (os (sysm m)) \<union> extent a n" "page_bytes Q = extent a n"
  shows "mem_ok res Fm (m\<lparr>sysm := sy\<rparr>) sa ta U (P \<union> Q)"
proof -
  let ?R = "res (os (sysm m))"
  obtain O1 O2 T where m: "meta_inv res m (O1 \<union> O2 \<union> page_bytes P)" "O1 \<inter> O2 = {}"
     "(O1 \<union> O2) \<inter> page_bytes P = {}" "span_objs_ok sa U O1" "pha_inv sizeof_StackTrace ta T O2" "Fm \<subseteq> O2"
    using M unfolding mem_ok_def by blast
  have R: "O1 \<union> O2 \<union> page_bytes P \<subseteq> ?R" using meta_inv_res [OF m(1)] .
  have "meta_inv res (m\<lparr>sysm := sy\<rparr>) (O1 \<union> O2 \<union> page_bytes (P \<union> Q))"
    using m(1) S n R unfolding meta_inv_def page_bytes_Un by (simp del: mem_extent) blast
  moreover have "(O1 \<union> O2) \<inter> page_bytes (P \<union> Q) = {}" using m(3) n R unfolding page_bytes_Un by blast
  ultimately show ?thesis unfolding mem_ok_def using m(2,4-6) by blast
qed

lemma fresh_pages:
  assumes "page_bytes P \<subseteq> R" "page_bytes Q \<inter> R = {}"
  shows "P \<inter> Q = {}"
proof -
  have "p * 2 ^ kPageShift \<in> page_bytes P" if "p \<in> P" for p P using that by (simp add: page_bytes_def)
  then show ?thesis using assms by blast
qed

text \<open>A region of \<open>k\<close> new pages from page \<open>p\<close> on.\<close>

definition new_region :: "('os \<Rightarrow> nat set) \<Rightarrow> nat set \<Rightarrow> 'os page_heap \<Rightarrow> addr set \<Rightarrow> 'os sys \<Rightarrow> nat \<Rightarrow> nat \<Rightarrow> bool" where
  "new_region res Fm h U sy p k = (0 < p \<and> 0 < k \<and> p + k \<le> 2 ^ 34 \<and> extent p k \<inter> heap_pages (spans h) U = {} \<and>
     mem_ok res Fm ((heap_meta h)\<lparr>sysm := sy\<rparr>) (span_allocator h) (stacktrace_allocator h) U
       (heap_pages (spans h) U \<union> extent p k))"

lemma GrowHeap_alloc_spec:
  assumes K: "os_contract (os_calls E) res" and I: "heap_inv res Fm C h U L {}" and lim: "heap_limit_mb E = 0"
    and ask: "0 < ask" "ask < 2 ^ 51"
  shows "\<exists>ptr sz sy. GrowHeap_alloc E h ask = Some (ptr, sz, h\<lparr>heap_meta := (heap_meta h)\<lparr>sysm := sy\<rparr>\<rparr>) \<and>
    (ptr = 0 \<and> mem_ok res Fm ((heap_meta h)\<lparr>sysm := sy\<rparr>) (span_allocator h) (stacktrace_allocator h) U (heap_pages (spans h) U) \<or>
     (\<exists>p k. ptr = p * 2 ^ kPageShift \<and> sz = k * 2 ^ kPageShift \<and> new_region res Fm h U sy p k \<and> ask \<le> k \<and> k < ask + 2 ^ 17))"
proof -
  let ?m = "heap_meta h"
  obtain j where j: "13 \<le> j" "j \<le> 30" "os_pagesize (os_calls E) = 2 ^ j" using os_contract_pagesize [OF K] .
  have M: "mem_ok res Fm ?m (span_allocator h) (stacktrace_allocator h) U (heap_pages (spans h) U)" using heap_invD(7) [OF I] .
  then have S: "sys_inv res (sysm ?m)" unfolding mem_ok_def by (auto simp: meta_inv_def)
  have al: "kPageSize \<le> os_pagesize (os_calls E)" unfolding j(3) kPageSize_def kPageShift_def by (rule power_increasing) (use j in auto)
  have lt: "ask * 2 ^ kPageShift < 2 ^ 64" using ask(2) by (simp add: kPageShift_def)
  obtain a n sy where r: "TCMalloc_SystemAlloc (os_calls E) (ask * 2 ^ kPageShift) True kPageSize (sysm ?m) = Some (a, n, sy)"
    "sys_inv res sy" "a = 0 \<and> res (os sy) = res (os (sysm ?m)) \<and> SystemTaken sy = SystemTaken (sysm ?m) \<or>
     0 < a \<and> 0 < n \<and> os_pagesize (os_calls E) dvd a \<and> os_pagesize (os_calls E) dvd n \<and> ask * 2 ^ kPageShift \<le> n \<and>
     n < ask * 2 ^ kPageShift + os_pagesize (os_calls E) \<and> a + n \<le> 2 ^ 47 \<and> extent a n \<inter> res (os (sysm ?m)) = {} \<and>
     res (os sy) = res (os (sysm ?m)) \<union> extent a n"
    using TCMalloc_SystemAlloc_spec [OF K al lt S, of True] by blast
  have op: "GrowHeap_alloc E h ask = Some (a, n, h\<lparr>heap_meta := ?m\<lparr>sysm := sy\<rparr>\<rparr>)"
    by (simp add: GrowHeap_alloc_def EnsureLimit_none [OF lim] r(1))
  from r(3) show ?thesis
  proof
    assume z: "a = 0 \<and> res (os sy) = res (os (sysm ?m)) \<and> SystemTaken sy = SystemTaken (sysm ?m)"
    have "extent 0 0 \<inter> res (os (sysm ?m)) = {}" "res (os sy) = res (os (sysm ?m)) \<union> extent 0 0" "page_bytes {} = extent 0 0"
      using z by (auto simp: extent_def page_bytes_def)
    from mem_ok_grow [OF M r(2) this] show ?thesis using op z by (intro exI [of _ a] exI [of _ n] exI [of _ sy]) simp
  next
    assume g: "0 < a \<and> 0 < n \<and> os_pagesize (os_calls E) dvd a \<and> os_pagesize (os_calls E) dvd n \<and> ask * 2 ^ kPageShift \<le> n \<and>
     n < ask * 2 ^ kPageShift + os_pagesize (os_calls E) \<and> a + n \<le> 2 ^ 47 \<and> extent a n \<inter> res (os (sysm ?m)) = {} \<and>
     res (os sy) = res (os (sysm ?m)) \<union> extent a n"
    have "(2::nat) ^ kPageShift dvd 2 ^ j" unfolding kPageShift_def by (rule le_imp_power_dvd) (use j in simp)
    then have "2 ^ kPageShift dvd a" "2 ^ kPageShift dvd n" using g dvd_trans unfolding j(3) by blast+
    then obtain p k where pk: "a = p * 2 ^ kPageShift" "n = k * 2 ^ kPageShift" by (metis dvd_def mult.commute)
    have pb: "page_bytes (extent p k) = extent a n" unfolding pk by (rule page_bytes_extent)
    have "(2::nat) ^ j \<le> 2 ^ 30" by (rule power_increasing) (use j in auto)
    then have "k * 2 ^ kPageShift < (ask + 2 ^ 17) * 2 ^ kPageShift" using g unfolding pk j(3) by (simp add: kPageShift_def)
    then have k: "k < ask + 2 ^ 17" by (simp only: mult_less_cancel2)
    have "(p + k) * 2 ^ kPageShift \<le> 2 ^ 34 * 2 ^ kPageShift" using g unfolding pk by (simp add: kPageShift_def add_mult_distrib)
    then have b: "p + k \<le> 2 ^ 34" by (simp only: mult_le_cancel2) (simp add: kPageShift_def)
    have ak: "ask \<le> k" using g unfolding pk by simp
    have d: "extent p k \<inter> heap_pages (spans h) U = {}"
      using fresh_pages [OF mem_ok_res [OF M], of "extent p k"] g unfolding pb by blast
    have "mem_ok res Fm (?m\<lparr>sysm := sy\<rparr>) (span_allocator h) (stacktrace_allocator h) U (heap_pages (spans h) U \<union> extent p k)"
      using mem_ok_grow [OF M r(2) _ _ pb] g by blast
    then have "new_region res Fm h U sy p k" unfolding new_region_def using g pk b d by auto
    then show ?thesis using op pk ak k by blast
  qed
qed

section \<open>Growing the heap\<close>

text \<open>The heap after growing: the spans in use are the same, and after a success there is a free span
  of at least \<open>k\<close> pages.\<close>

definition grow_post :: "('os \<Rightarrow> nat set) \<Rightarrow> nat set \<Rightarrow> span_ptr set \<Rightarrow> 'os page_heap \<Rightarrow> addr set \<Rightarrow>
    (span_ptr \<Rightarrow> span_ptr list) \<Rightarrow> nat \<Rightarrow> nat \<Rightarrow> (bool \<times> 'os page_heap) outcome \<Rightarrow> bool" where
  "grow_post res Fm C h U L n k r = (\<forall>ok h'. r = Ret (ok, h') \<longrightarrow> (\<exists>U' L'.
     heap_inv res Fm C h' U' L' {} \<and> imbalance h' U' = 0 \<and> aggressive_decommit h' = aggressive_decommit h \<and>
     inuse_view (spans h') U' = inuse_view (spans h) U \<and> (\<forall>x. x \<notin> headers \<longrightarrow> L' x = L x) \<and>
     heap_pages (spans h) U \<subseteq> heap_pages (spans h') U' \<and>
     card (heap_pages (spans h') U') \<le> card (heap_pages (spans h) U) + k \<and>
     (ok \<longrightarrow> fits (spans h') U' n \<noteq> {})))"

lemma zero_span_fields [simp]:
  "span_start (zero_span\<lparr>span_start := p, span_length := k\<rparr>) = p" "span_length (zero_span\<lparr>span_start := p, span_length := k\<rparr>) = k"
  "location (zero_span\<lparr>span_start := p, span_length := k\<rparr>) = IN_USE" "sizeclass (zero_span\<lparr>span_start := p, span_length := k\<rparr>) = 0"
  "span_next (zero_span\<lparr>span_start := p, span_length := k\<rparr>) = SNull" "span_prev (zero_span\<lparr>span_start := p, span_length := k\<rparr>) = SNull"
  by (simp_all add: zero_span_def)

text \<open>A new span in use on pages that were in no span: the pretended allocation of \<open>GrowHeap\<close>.\<close>

lemma heap_inv_new_span:
  assumes I: "heap_inv res Fm C h U L {}" and b: "b \<notin> U"
    and M: "mem_ok res Fm m al ta (insert b U) (heap_pages (spans h) U \<union> extent p k)"
    and r: "0 < p" "0 < k" "p + k \<le> 2 ^ 34" "extent p k \<inter> heap_pages (spans h) U = {}"
    and pm: "PageMap3_get BITS64 pm = (PageMap3_get BITS64 (pagemap h))(p := Some (Sp b), p + k - 1 := Some (Sp b))"
      "\<And>q. q \<in> heap_pages (spans h) U \<union> extent p k \<Longrightarrow> PageMap3_ensured BITS64 pm q"
    and h': "spans h' = (spans h)(Sp b := zero_span\<lparr>span_start := p, span_length := k\<rparr>)" "pagemap h' = pm"
      "heap_meta h' = m" "span_allocator h' = al" "stacktrace_allocator h' = ta"
      "free_bytes h' = free_bytes h" "unmapped_bytes h' = unmapped_bytes h"
      "aggressive_decommit h' = aggressive_decommit h"
  shows "heap_inv res Fm C h' (insert b U) L {}" "\<not> listed (headers \<union> C) L (Sp b)"
    "heap_pages (spans h') (insert b U) = heap_pages (spans h) U \<union> extent p k"
    "inuse_view (spans h') (insert b U) = (inuse_view (spans h) U)(b \<mapsto> span_data (zero_span\<lparr>span_start := p, span_length := k\<rparr>))"
    "stat_sum (spans h') (insert b U) ON_RETURNED_FREELIST = stat_sum (spans h) U ON_RETURNED_FREELIST"
proof -
  note I' = heap_invD [OF I]
  let ?st = "spans h" and ?z = "zero_span\<lparr>span_start := p, span_length := k\<rparr>"
  let ?st' = "?st(Sp b := ?z)"
  have eb: "ext ?st' b = extent p k" by (simp add: ext_def)
  have ox: "?st' (Sp x) = ?st (Sp x)" if "x \<in> U" for x using that b by auto
  have d: "ext ?st' b \<inter> heap_pages ?st U = {}" "ext ?st' b \<subseteq> {0<..<2 ^ 34}" "0 < plen_of ?st' b"
    using r unfolding eb by (auto simp: extent_def)
  have G: "geom ?st' (insert b U)" "heap_pages ?st' (insert b U) = heap_pages ?st U \<union> extent p k"
    using geom_new [OF I'(1) b d ox] unfolding eb by blast+
  define g where "g = PageMap3_get BITS64 (pagemap h)"
  have inP: "p \<in> extent p k" "p + k - 1 \<in> extent p k" using r by (auto simp: extent_def)
  have gold: "(g(p := Some (Sp b), p + k - 1 := Some (Sp b))) q = g q" if "q \<in> heap_pages ?st U" for q
  proof -
    have "q \<notin> extent p k" using r(4) that by blast
    then show ?thesis using inP by (metis fun_upd_other)
  qed
  have Mp: "mapped (PageMap3_get BITS64 pm) (PageMap3_ensured BITS64 pm) ?st' (insert b U)"
    unfolding mapped_def G(2) pm(1) g_def [symmetric]
  proof (intro conjI ballI impI allI)
    fix x assume x: "x \<in> insert b U"
    have inx: "q \<in> heap_pages ?st U" if "x \<noteq> b" "q \<in> ext ?st x" for q using x that by (auto simp: heap_pages_def)
    show "(g(p := Some (Sp b), p + k - 1 := Some (Sp b))) (start_of ?st' x) = Some (Sp x)"
    proof (cases "x = b")
      case False
      then have "x \<in> U" using x by simp
      then show ?thesis using gold [OF inx [OF False geomD(4) [OF I'(1)]]] mappedD(1) [OF I'(2)] ox by (simp add: g_def)
    qed simp
    show "(g(p := Some (Sp b), p + k - 1 := Some (Sp b))) (start_of ?st' x + plen_of ?st' x - 1) = Some (Sp x)"
    proof (cases "x = b")
      case False
      then have "x \<in> U" using x by simp
      then show ?thesis using gold [OF inx [OF False geomD(5) [OF I'(1)]]] mappedD(2) [OF I'(2)] ox by (simp add: g_def)
    qed simp
    fix q assume q: "class_of ?st' x \<noteq> 0" "q \<in> ext ?st' x"
    then have "x \<noteq> b" by auto
    moreover from this have "x \<in> U" using x by simp
    moreover have "ext ?st' x = ext ?st x" using ox [OF \<open>x \<in> U\<close>] by (simp add: ext_def)
    ultimately show "(g(p := Some (Sp b), p + k - 1 := Some (Sp b))) q = Some (Sp x)"
      using gold [OF inx] mappedD(3) [OF I'(2), of x q] q ox by (simp add: g_def)
  next
    fix q assume "q \<in> heap_pages ?st U \<union> extent p k"
    then show "PageMap3_ensured BITS64 pm q" by (rule pm(2))
  next
    fix q assume "(g(p := Some (Sp b), p + k - 1 := Some (Sp b))) q \<noteq> None"
    then show "q \<in> heap_pages ?st U \<union> extent p k"
      using I'(2) inP by (auto simp: mapped_def g_def split: if_splits)
  qed
  have O: "lists_ok C ?st' (insert b U) L {b}" using lists_ok_new [OF I'(3) b, of ?z] by simp
  then have O': "lists_ok C ?st' (insert b U) L {}" using lists_ok_unfloat [OF O, of b] by simp
  show "\<not> listed (headers \<union> C) L (Sp b)" using floating_not_listed(1) [OF O] by simp
  have fin: "finite U" using geom_finite [OF I'(1)] .
  have sum: "stat_sum ?st' (insert b U) l = stat_sum ?st U l" if "l \<noteq> IN_USE" for l
    using stat_sum_insert [OF fin b, of ?st' l] stat_sum_upd [OF b] that by simp
  show "stat_sum (spans h') (insert b U) ON_RETURNED_FREELIST = stat_sum (spans h) U ON_RETURNED_FREELIST"
    using sum h' by simp
  have co: "coalesced ?st' (insert b U)" using I'(5) b unfolding coalesced_def by (auto simp: ox)
  have cl: "clean ?st' (insert b U)" using I'(6) by (auto simp: clean_def zero_span_def)
  have mo: "mode_ok (aggressive_decommit h) ?st' (insert b U)"
    using I'(8) b by (auto simp: mode_ok_def)
  show "heap_inv res Fm C h' (insert b U) L {}"
    by (rule heap_invI) (use G Mp O' sum I'(4) co cl M mo h' in \<open>simp_all add: sums_ok_def\<close>)
  show "heap_pages (spans h') (insert b U) = heap_pages (spans h) U \<union> extent p k" using G(2) h' by simp
  show "inuse_view (spans h') (insert b U) = (inuse_view (spans h) U)(b \<mapsto> span_data ?z)"
    using h' by (auto simp: inuse_view_def fun_eq_iff)
qed

lemma card_pages_add:
  assumes "geom st U"
  shows "card (heap_pages st U \<union> extent p k) \<le> card (heap_pages st U) + k"
  using card_Un_le [of "heap_pages st U" "extent p k"] by simp

text \<open>The part of \<open>GrowHeap_add\<close> before the span is made.\<close>

lemma Ensure_region:
  assumes K: "os_contract (os_calls E) res" and M: "mem_ok res Fm m sa ta U P"
    and r: "PageMap3_Ensure BITS64 (meta_allocator (os_calls E)) pm m (p - 1) (k + 2) = (ok, pm', m')"
    and b: "0 < p" "p + k \<le> 2 ^ 34"
  shows "mem_ok res Fm m' sa ta U P" "PageMap3_get BITS64 pm' = PageMap3_get BITS64 pm"
    "PageMap3_ensured BITS64 pm q \<Longrightarrow> PageMap3_ensured BITS64 pm' q"
    "ok \<Longrightarrow> q \<in> extent p k \<Longrightarrow> PageMap3_ensured BITS64 pm' q"
proof -
  show "mem_ok res Fm m' sa ta U P"
    by (rule PageMap3_Ensure_keeps [where Q = "\<lambda>m. mem_ok res Fm m sa ta U P", OF _ r M]) (rule meta_allocator_mem_ok [OF K])
  show "PageMap3_get BITS64 pm' = PageMap3_get BITS64 pm"
    "PageMap3_ensured BITS64 pm q \<Longrightarrow> PageMap3_ensured BITS64 pm' q"
    using PageMap3_Ensure_spec [OF BITS64_ok r] by auto
  assume ok: "ok" "q \<in> extent p k"
  have "p - 1 + (k + 2) \<le> 2 ^ 64" using b by simp
  moreover have "p - 1 \<le> q \<and> q < p - 1 + (k + 2)" using ok(2) by auto
  ultimately show "PageMap3_ensured BITS64 pm' q" using PageMap3_Ensure_spec [OF BITS64_ok r] ok(1) by (metis add_gr_0 zero_less_numeral)
qed

text \<open>Making the new region a span in use and deleting that span.\<close>

lemma GrowHeap_insert:
  assumes K: "os_contract (os_calls E) res" and I: "heap_inv res Fm C h U L {}" and B: "imbalance h U = 0"
    and M: "mem_ok res Fm (heap_meta h) (span_allocator h) (stacktrace_allocator h) U (heap_pages (spans h) U \<union> extent p k)"
    and r: "0 < p" "0 < k" "p + k \<le> 2 ^ 34" "extent p k \<inter> heap_pages (spans h) U = {}"
    and ens: "\<And>q. q \<in> extent p k \<Longrightarrow> PageMap3_ensured BITS64 (pagemap h) q"
  shows "\<exists>rs. NewSpan E h p k = Some rs \<and> (\<forall>s h1. rs = Ret (s, h1) \<longrightarrow>
    (\<exists>h2 h3 U' L'. RecordSpan h1 s = Some h2 \<and> Delete E h2 s = Some h3 \<and>
      heap_inv res Fm C h3 U' L' {} \<and> imbalance h3 U' = 0 \<and> aggressive_decommit h3 = aggressive_decommit h \<and>
      inuse_view (spans h3) U' = inuse_view (spans h) U \<and> (\<forall>x. x \<notin> headers \<longrightarrow> L' x = L x) \<and>
      heap_pages (spans h3) U' = heap_pages (spans h) U \<union> extent p k \<and> fits (spans h3) U' k \<noteq> {}))"
proof -
  note I' = heap_invD [OF I]
  let ?z = "zero_span\<lparr>span_start := p, span_length := k\<rparr>"
  obtain rs where rs: "NewSpan E h p k = Some rs" "\<forall>x h1. rs = Ret (x, h1) \<longrightarrow>
    (\<exists>b m al. x = Sp b \<and> b \<notin> U \<and> mem_ok res Fm m al (stacktrace_allocator h) (insert b U) (heap_pages (spans h) U \<union> extent p k) \<and>
      h1 = h\<lparr>heap_meta := m, span_allocator := al, spans := (spans h)(Sp b := ?z)\<rparr>)"
    using NewSpan_spec [OF K M] by blast
  show ?thesis
  proof (rule exI [of _ rs], intro conjI allI impI)
    show "NewSpan E h p k = Some rs" by (rule rs(1))
    fix s h1 assume ret: "rs = Ret (s, h1)"
    obtain b m al where b: "s = Sp b" "b \<notin> U"
      "mem_ok res Fm m al (stacktrace_allocator h) (insert b U) (heap_pages (spans h) U \<union> extent p k)"
      "h1 = h\<lparr>heap_meta := m, span_allocator := al, spans := (spans h)(Sp b := ?z)\<rparr>"
      using rs(2) [rule_format, OF ret] by blast
    have ex: "p \<in> extent p k" "p + k - 1 \<in> extent p k" using r by (auto simp: extent_def)
    have f1: "start_of (spans h1) b = p" "plen_of (spans h1) b = k" "pagemap h1 = pagemap h" by (simp_all add: b(4))
    obtain pm where pm: "RecordSpan h1 (Sp b) = Some (h1\<lparr>pagemap := pm\<rparr>)"
      "PageMap3_get BITS64 pm = (PageMap3_get BITS64 (pagemap h))(p := Some (Sp b), p + k - 1 := Some (Sp b))"
      "PageMap3_ensured BITS64 pm = PageMap3_ensured BITS64 (pagemap h)"
      using RecordSpan_spec [of h1 p k b] ens [OF ex(1)] ens [OF ex(2)] f1 r(2) by auto
    let ?h2 = "h1\<lparr>pagemap := pm\<rparr>"
    have e2: "PageMap3_ensured BITS64 pm q" if "q \<in> heap_pages (spans h) U \<union> extent p k" for q
      using that ens I'(2) unfolding pm(3) mapped_def by blast
    have f2: "spans ?h2 = (spans h)(Sp b := ?z)" "pagemap ?h2 = pm" "heap_meta ?h2 = m" "span_allocator ?h2 = al"
      "stacktrace_allocator ?h2 = stacktrace_allocator h" "free_bytes ?h2 = free_bytes h" "unmapped_bytes ?h2 = unmapped_bytes h"
      "aggressive_decommit ?h2 = aggressive_decommit h"
      by (simp_all add: b(4))
    note N = heap_inv_new_span [OF I b(2,3) r pm(2) e2 f2]
    have B2: "imbalance ?h2 (insert b U) = 0" using B N(5) by (simp add: imbalance_def b(4))
    have ag2: "aggressive_decommit ?h2 = aggressive_decommit h" by (simp add: b(4))
    have lb: "loc_of (spans ?h2) b = IN_USE" by (simp add: b(4))
    obtain h3 U3 L3 where d: "Delete E ?h2 (Sp b) = Some h3" "heap_inv res Fm C h3 U3 L3 {}" "imbalance h3 U3 = 0"
      "inuse_view (spans h3) U3 = (inuse_view (spans ?h2) (insert b U))(b := None)"
      "heap_pages (spans h3) U3 = heap_pages (spans ?h2) (insert b U)" "\<forall>x. x \<notin> headers \<longrightarrow> L3 x = L x"
      "aggressive_decommit h3 = aggressive_decommit ?h2" "\<exists>c\<in>U3. loc_of (spans h3) c \<noteq> IN_USE \<and> ext (spans ?h2) b \<subseteq> ext (spans h3) c"
      using Delete_spec [OF K N(1) B2 _ lb N(2)] by blast
    have "inuse_view (spans h) U b = None" using b(2) by (simp add: inuse_view_def)
    then have inu: "inuse_view (spans h3) U3 = inuse_view (spans h) U" using N(4) unfolding d(4) by (auto simp: fun_eq_iff)
    have hp: "heap_pages (spans h3) U3 = heap_pages (spans h) U \<union> extent p k" using N(3) d(5) by simp
    obtain c where c: "c \<in> U3" "loc_of (spans h3) c \<noteq> IN_USE" "ext (spans ?h2) b \<subseteq> ext (spans h3) c" using d(8) by blast
    have "card (ext (spans ?h2) b) \<le> card (ext (spans h3) c)" by (rule card_mono [OF _ c(3)]) (simp add: ext_def)
    then have "k \<le> plen_of (spans h3) c" by (simp add: ext_def b(4))
    then have "c \<in> fits (spans h3) U3 k" using c by (simp add: fits_def)
    then show "\<exists>h2 h3 U' L'. RecordSpan h1 s = Some h2 \<and> Delete E h2 s = Some h3 \<and>
      heap_inv res Fm C h3 U' L' {} \<and> imbalance h3 U' = 0 \<and> aggressive_decommit h3 = aggressive_decommit h \<and>
      inuse_view (spans h3) U' = inuse_view (spans h) U \<and> (\<forall>x. x \<notin> headers \<longrightarrow> L' x = L x) \<and>
      heap_pages (spans h3) U' = heap_pages (spans h) U \<union> extent p k \<and> fits (spans h3) U' k \<noteq> {}"
      unfolding b(1) using pm(1) d(1,2,3,6) d(7) [unfolded ag2] inu hp by blast
  qed
qed

lemma balanced:
  assumes "heap_inv res Fm C h U L {}" "imbalance h U = 0"
  shows "unmapped_bytes h + committed_bytes h = system_bytes h"
  using heap_invD(4) [OF assms(1)] assms(2) by (simp add: sums_ok_def imbalance_def algebra_simps)

lemma fits_mono: "n \<le> k \<Longrightarrow> fits st U k \<subseteq> fits st U n"
  by (auto simp: fits_def)

lemma GrowHeap_add_spec:
  assumes K: "os_contract (os_calls E) res" and I: "heap_inv res Fm C h U L {}" and B: "imbalance h U = 0"
    and R: "new_region res Fm h U sy p k" and n: "n \<le> k"
  shows "\<exists>r. GrowHeap_add E (h\<lparr>heap_meta := (heap_meta h)\<lparr>sysm := sy\<rparr>\<rparr>) (p * 2 ^ kPageShift) (k * 2 ^ kPageShift) = Some r \<and>
    grow_post res Fm C h U L n k r"
proof -
  let ?h0 = "h\<lparr>heap_meta := (heap_meta h)\<lparr>sysm := sy\<rparr>\<rparr>" and ?P = "heap_pages (spans h) U" and ?Q = "extent p k"
  have r: "0 < p" "0 < k" "p + k \<le> 2 ^ 34" "?Q \<inter> ?P = {}"
    and M0: "mem_ok res Fm (heap_meta ?h0) (span_allocator h) (stacktrace_allocator ?h0) U (?P \<union> ?Q)"
    using R by (simp_all add: new_region_def)
  have fin: "finite U" and G: "geom (spans h) U" using geom_finite heap_invD(1) [OF I] by auto
  obtain rg where rg: "RecordGrowth E ?h0 (k * 2 ^ kPageShift) = Some rg" "\<forall>h'. rg = Ret h' \<longrightarrow>
    (\<exists>m al t tr. mem_ok res Fm m (span_allocator h) al U (?P \<union> ?Q) \<and>
      h' = ?h0\<lparr>heap_meta := m, stacktrace_allocator := al, growth_stacks := t, stack_traces := tr\<rparr>)"
    using RecordGrowth_spec [OF K M0] by blast
  have div: "k * 2 ^ kPageShift div 2 ^ kPageShift = k" "p * 2 ^ kPageShift div 2 ^ kPageShift = p" by simp_all
  show ?thesis
  proof (cases rg)
    case OutOfMemory
    then show ?thesis using rg(1) by (simp add: GrowHeap_add_def div grow_post_def del: mult_cancel_right1)
  next
    case (Ret h1)
    obtain m1 al t tr where h1: "mem_ok res Fm m1 (span_allocator h) al U (?P \<union> ?Q)"
      "h1 = ?h0\<lparr>heap_meta := m1, stacktrace_allocator := al, growth_stacks := t, stack_traces := tr\<rparr>"
      using rg(2) [rule_format, OF Ret] by blast
    define h2 where "h2 = h1\<lparr>system_bytes := system_bytes h1 + len_bytes k, committed_bytes := committed_bytes h1 + len_bytes k\<rparr>"
    obtain ok pm m3 where e: "PageMap3_Ensure BITS64 (meta_allocator (os_calls E)) (pagemap h2) (heap_meta h2) (p - 1) (k + 2) = (ok, pm, m3)"
      by (cases "PageMap3_Ensure BITS64 (meta_allocator (os_calls E)) (pagemap h2) (heap_meta h2) (p - 1) (k + 2)") auto
    let ?h3 = "h2\<lparr>pagemap := pm, heap_meta := m3\<rparr>"
    have f2: "heap_meta h2 = m1" "pagemap h2 = pagemap h" by (simp_all add: h2_def h1(2))
    note En = Ensure_region [OF K h1(1) e [unfolded f2] r(1,3)]
    have op: "GrowHeap_add E ?h0 (p * 2 ^ kPageShift) (k * 2 ^ kPageShift) =
       (if ok then do {
           r \<leftarrow> NewSpan E ?h3 p k;
           case r of OutOfMemory \<Rightarrow> Some OutOfMemory
           | Ret (s, h) \<Rightarrow> do {
               h \<leftarrow> RecordSpan h s;
               h \<leftarrow> Delete E h s;
               CHECK (unmapped_bytes h + committed_bytes h = system_bytes h);
               CHECK (Check h);
               Some (Ret (True, h)) } }
        else Some (Ret (False, ?h3)))"
      unfolding GrowHeap_add_def div Let_def rg(1) Ret Option.bind.bind_lunit outcome.case h2_def [symmetric] e prod.case
      using r(1) by simp
    have M3: "mem_ok res Fm m3 (span_allocator h) al U ?P" by (rule mem_ok_mono [OF En(1)]) blast
    have get: "PageMap3_get BITS64 pm = PageMap3_get BITS64 (pagemap h)" using En(2) .
    have ens: "q \<in> ?P \<Longrightarrow> PageMap3_ensured BITS64 pm q" for q
      using En(3) heap_invD(2) [OF I] by (auto simp: mapped_def)
    have s3: "spans ?h3 = spans h" by (simp add: h2_def h1(2))
    have map3: "mapped (PageMap3_get BITS64 pm) (PageMap3_ensured BITS64 pm) (spans h) U"
      using heap_invD(2) [OF I] ens unfolding mapped_def get by blast
    have I3: "heap_inv res Fm C ?h3 U L {}"
      by (rule heap_invI) (use heap_invD [OF I] M3 map3 in \<open>simp_all add: h2_def h1(2) sums_ok_def\<close>)
    have B3: "imbalance ?h3 U = 0" using B by (simp add: imbalance_def h2_def h1(2) algebra_simps)
    have ag3: "aggressive_decommit ?h3 = aggressive_decommit h" by (simp add: h2_def h1(2))
    show ?thesis
    proof (cases ok)
      case False
      then have "grow_post res Fm C h U L n k (Ret (False, ?h3))"
        unfolding grow_post_def using I3 B3 ag3 s3 by (intro allI impI exI [of _ U] exI [of _ L]) auto
      then show ?thesis using op False by simp
    next
      case True
      have M4: "mem_ok res Fm (heap_meta ?h3) (span_allocator ?h3) (stacktrace_allocator ?h3) U (heap_pages (spans ?h3) U \<union> ?Q)"
        using En(1) by (simp add: h2_def h1(2))
      have e4: "PageMap3_ensured BITS64 (pagemap ?h3) q" if "q \<in> ?Q" for q using En(4) [OF True that] by simp
      have r4: "?Q \<inter> heap_pages (spans ?h3) U = {}" using r(4) s3 by simp
      obtain rs where rs: "NewSpan E ?h3 p k = Some rs" "\<forall>s h1. rs = Ret (s, h1) \<longrightarrow>
        (\<exists>h2 h3 U' L'. RecordSpan h1 s = Some h2 \<and> Delete E h2 s = Some h3 \<and>
          heap_inv res Fm C h3 U' L' {} \<and> imbalance h3 U' = 0 \<and> aggressive_decommit h3 = aggressive_decommit ?h3 \<and>
          inuse_view (spans h3) U' = inuse_view (spans ?h3) U \<and> (\<forall>x. x \<notin> headers \<longrightarrow> L' x = L x) \<and>
          heap_pages (spans h3) U' = heap_pages (spans ?h3) U \<union> extent p k \<and> fits (spans h3) U' k \<noteq> {})"
        using GrowHeap_insert [OF K I3 B3 M4 r(1-3) r4 e4] by blast
      show ?thesis
      proof (cases rs)
        case OutOfMemory
        then show ?thesis using op True rs(1) by (simp add: grow_post_def)
      next
        case (Ret sh)
        obtain s h4 where sh: "sh = (s, h4)" by (cases sh)
        obtain h5 h6 U' L' where d: "RecordSpan h4 s = Some h5" "Delete E h5 s = Some h6"
          "heap_inv res Fm C h6 U' L' {}" "imbalance h6 U' = 0" "aggressive_decommit h6 = aggressive_decommit ?h3"
          "inuse_view (spans h6) U' = inuse_view (spans ?h3) U" "\<forall>x. x \<notin> headers \<longrightarrow> L' x = L x"
          "heap_pages (spans h6) U' = heap_pages (spans ?h3) U \<union> extent p k" "fits (spans h6) U' k \<noteq> {}"
          using rs(2) [rule_format, OF Ret [unfolded sh]] by blast
        have "GrowHeap_add E ?h0 (p * 2 ^ kPageShift) (k * 2 ^ kPageShift) = Some (Ret (True, h6))"
          using op True rs(1) Ret sh d(1,2) balanced [OF d(3,4)] heap_inv_Check [OF d(3)] by simp
        moreover have "grow_post res Fm C h U L n k (Ret (True, h6))"
          unfolding grow_post_def
        proof (intro allI impI exI [of _ U'] exI [of _ L'])
          fix ok h' assume "Ret (True, h6) = Ret (ok, h')"
          then have x: "ok = True" "h' = h6" by simp_all
          have "fits (spans h6) U' n \<noteq> {}" using d(9) fits_mono [OF n] by blast
          then show "heap_inv res Fm C h' U' L' {} \<and> imbalance h' U' = 0 \<and> aggressive_decommit h' = aggressive_decommit h \<and>
             inuse_view (spans h') U' = inuse_view (spans h) U \<and> (\<forall>x. x \<notin> headers \<longrightarrow> L' x = L x) \<and>
             ?P \<subseteq> heap_pages (spans h') U' \<and> card (heap_pages (spans h') U') \<le> card ?P + k \<and>
             (ok \<longrightarrow> fits (spans h') U' n \<noteq> {})"
            using d(3-8) ag3 card_pages_add [OF G, of p k] s3 x by simp
        qed
        ultimately show ?thesis by blast
      qed
    qed
  qed
qed

lemma new_region_same:
  "spans h' = spans h \<Longrightarrow> span_allocator h' = span_allocator h \<Longrightarrow> stacktrace_allocator h' = stacktrace_allocator h \<Longrightarrow>
   (heap_meta h')\<lparr>sysm := sy\<rparr> = (heap_meta h)\<lparr>sysm := sy\<rparr> \<Longrightarrow> new_region res Fm h' U sy p k = new_region res Fm h U sy p k"
  by (simp add: new_region_def)

lemma grow_post_weaken: "grow_post res Fm C h U L n k r \<Longrightarrow> k \<le> k' \<Longrightarrow> grow_post res Fm C h U L n k' r"
  unfolding grow_post_def by (intro allI impI, elim allE, erule (1) impE) (elim exE conjE, intro exI conjI; (assumption | linarith))

lemma grow_post_fail:
  assumes "heap_inv res Fm C h' U L {}" "imbalance h' U = 0" "aggressive_decommit h' = aggressive_decommit h" "spans h' = spans h"
  shows "grow_post res Fm C h U L n k (Ret (False, h'))"
  unfolding grow_post_def using assms by (intro allI impI exI [of _ U] exI [of _ L]) auto

lemma GrowHeap_spec:
  assumes K: "os_contract (os_calls E) res" and I: "heap_inv res Fm C h U L {}" and B: "imbalance h U = 0"
    and lim: "heap_limit_mb E = 0" and n: "0 < n"
  shows "\<exists>r. GrowHeap E h n = Some r \<and> grow_post res Fm C h U L n (n + 2 ^ 18) r"
proof (cases "n > kMaxValidPages")
  case True
  then show ?thesis using grow_post_fail [OF I B refl refl] by (simp add: GrowHeap_def kMinSystemAlloc_def)
next
  case False
  then have n51: "n < 2 ^ 51" by (simp add: kMaxValidPages_def kPageShift_def)
  define ask where "ask = (if n > kMinSystemAlloc then n else kMinSystemAlloc)"
  have ask: "0 < ask" "ask < 2 ^ 51" "n \<le> ask" "ask \<le> n + 2 ^ 17"
    using n n51 by (auto simp: ask_def kMinSystemAlloc_def kMaxPages_def kPageShift_def)
  let ?set = "\<lambda>h sy. h\<lparr>heap_meta := (heap_meta h)\<lparr>sysm := sy\<rparr>\<rparr>"
  obtain ptr sz sy where r1: "GrowHeap_alloc E h ask = Some (ptr, sz, ?set h sy)"
    "ptr = 0 \<and> mem_ok res Fm ((heap_meta h)\<lparr>sysm := sy\<rparr>) (span_allocator h) (stacktrace_allocator h) U (heap_pages (spans h) U) \<or>
     (\<exists>p k. ptr = p * 2 ^ kPageShift \<and> sz = k * 2 ^ kPageShift \<and> new_region res Fm h U sy p k \<and> ask \<le> k \<and> k < ask + 2 ^ 17)"
    using GrowHeap_alloc_spec [OF K I lim ask(1,2)] by blast
  have add: "\<exists>r. GrowHeap_add E (?set h sy) (p * 2 ^ kPageShift) (k * 2 ^ kPageShift) = Some r \<and> grow_post res Fm C h U L n (n + 2 ^ 18) r"
    if "new_region res Fm h U sy p k" "n \<le> k" "k < ask + 2 ^ 17" for p k sy
  proof -
    have "k \<le> n + 2 ^ 18" using that(3) ask(4) by simp
    then show ?thesis using GrowHeap_add_spec [OF K I B that(1,2)] grow_post_weaken by blast
  qed
  have nz: "p * 2 ^ kPageShift \<noteq> 0" if "new_region res Fm h U sy p k" for p k sy using that by (simp add: new_region_def)
  have op: "GrowHeap E h n = do {
     (ptr, actual_size, h) \<leftarrow> (if ptr = 0 \<and> n < ask then GrowHeap_alloc E (?set h sy) n else Some (ptr, sz, ?set h sy));
     if ptr = 0 then Some (Ret (False, h)) else GrowHeap_add E h ptr actual_size }"
    unfolding GrowHeap_def ask_def [symmetric] Let_def r1(1) using False by (simp add: kMinSystemAlloc_def)
  show ?thesis
  proof (cases "ptr = 0")
    case False
    then obtain p k where pk: "ptr = p * 2 ^ kPageShift" "sz = k * 2 ^ kPageShift" "new_region res Fm h U sy p k" "ask \<le> k" "k < ask + 2 ^ 17"
      using r1(2) by blast
    then have "GrowHeap E h n = GrowHeap_add E (?set h sy) (p * 2 ^ kPageShift) (k * 2 ^ kPageShift)" using op False by simp
    then show ?thesis using add [OF pk(3) _ pk(5)] pk(4) ask(3) by simp
  next
    case True
    then have M: "mem_ok res Fm ((heap_meta h)\<lparr>sysm := sy\<rparr>) (span_allocator h) (stacktrace_allocator h) U (heap_pages (spans h) U)"
      using r1(2) by (auto dest: nz)
    let ?h1 = "?set h sy"
    have I1: "heap_inv res Fm C ?h1 U L {}" by (rule heap_invI) (use heap_invD [OF I] M in \<open>simp_all add: sums_ok_def\<close>)
    have B1: "imbalance ?h1 U = 0" "aggressive_decommit ?h1 = aggressive_decommit h" using B by (simp_all add: imbalance_def)
    show ?thesis
    proof (cases "n < ask")
      case False
      then show ?thesis using op True grow_post_fail [OF I1 B1] by simp
    next
      case lt: True
      obtain ptr2 sz2 sy2 where r2: "GrowHeap_alloc E ?h1 n = Some (ptr2, sz2, ?set ?h1 sy2)"
        "ptr2 = 0 \<and> mem_ok res Fm ((heap_meta ?h1)\<lparr>sysm := sy2\<rparr>) (span_allocator ?h1) (stacktrace_allocator ?h1) U (heap_pages (spans ?h1) U) \<or>
         (\<exists>p k. ptr2 = p * 2 ^ kPageShift \<and> sz2 = k * 2 ^ kPageShift \<and> new_region res Fm ?h1 U sy2 p k \<and> n \<le> k \<and> k < n + 2 ^ 17)"
        using GrowHeap_alloc_spec [OF K I1 lim n n51] by blast
      have same: "?set ?h1 sy2 = ?set h sy2" "new_region res Fm ?h1 U sy2 p k = new_region res Fm h U sy2 p k" for p k
        by (simp_all add: new_region_def)
      have op2: "GrowHeap E h n = (if ptr2 = 0 then Some (Ret (False, ?set h sy2)) else GrowHeap_add E (?set h sy2) ptr2 sz2)"
        using op True lt r2(1) same(1) by simp
      show ?thesis
      proof (cases "ptr2 = 0")
        case True
        then have M2: "mem_ok res Fm ((heap_meta h)\<lparr>sysm := sy2\<rparr>) (span_allocator h) (stacktrace_allocator h) U (heap_pages (spans h) U)"
          using r2(2) unfolding same(2) by (auto dest: nz)
        have "heap_inv res Fm C (?set h sy2) U L {}" by (rule heap_invI) (use heap_invD [OF I] M2 in \<open>simp_all add: sums_ok_def\<close>)
        then have "grow_post res Fm C h U L n (n + 2 ^ 18) (Ret (False, ?set h sy2))"
          by (rule grow_post_fail) (use B in \<open>simp_all add: imbalance_def\<close>)
        then show ?thesis using op2 True by simp
      next
        case False
        then obtain p k where pk: "ptr2 = p * 2 ^ kPageShift" "sz2 = k * 2 ^ kPageShift" "new_region res Fm h U sy2 p k" "n \<le> k" "k < n + 2 ^ 17"
          using r2(2) unfolding same(2) by blast
        have "k < ask + 2 ^ 17" using pk(5) ask(3) by simp
        then show ?thesis using add [OF pk(3,4)] op2 False pk(1,2) by simp
      qed
    qed
  qed
qed

section \<open>New\<close>

text \<open>\<open>alloc_post\<close> for a state that an earlier step has produced from \<open>h\<close>.\<close>

lemma alloc_post_after:
  assumes "alloc_post res Fm C h1 U1 L1 n r" "inuse_view (spans h1) U1 = inuse_view (spans h) U"
    "aggressive_decommit h1 = aggressive_decommit h" "\<forall>x. x \<notin> headers \<longrightarrow> L1 x = L x" "heap_pages (spans h) U \<subseteq> heap_pages (spans h1) U1"
  shows "alloc_post res Fm C h U L n r"
  unfolding alloc_post_def
proof (intro allI impI)
  fix s h' assume "r = Ret (s, h')"
  with assms(1) obtain U' L' where "heap_inv res Fm C h' U' L' {}" "imbalance h' U' = 0" "aggressive_decommit h' = aggressive_decommit h1"
     "\<forall>x. x \<notin> headers \<longrightarrow> L' x = L1 x" "heap_pages (spans h1) U1 \<subseteq> heap_pages (spans h') U'"
     "s = SNull \<and> inuse_view (spans h') U' = inuse_view (spans h1) U1 \<or>
      (\<exists>a d. s = Sp a \<and> inuse_view (spans h1) U1 a = None \<and>
        inuse_view (spans h') U' = (inuse_view (spans h1) U1)(a \<mapsto> d) \<and> span_length d = n \<and> sizeclass d = 0 \<and>
        \<not> listed (headers \<union> C) L' (Sp a))" unfolding alloc_post_def by blast
  then show "\<exists>U' L'. heap_inv res Fm C h' U' L' {} \<and> imbalance h' U' = 0 \<and> aggressive_decommit h' = aggressive_decommit h \<and>
     (\<forall>x. x \<notin> headers \<longrightarrow> L' x = L x) \<and> heap_pages (spans h) U \<subseteq> heap_pages (spans h') U' \<and>
     (s = SNull \<and> inuse_view (spans h') U' = inuse_view (spans h) U \<or>
      (\<exists>a d. s = Sp a \<and> inuse_view (spans h) U a = None \<and>
        inuse_view (spans h') U' = (inuse_view (spans h) U)(a \<mapsto> d) \<and> span_length d = n \<and> sizeclass d = 0 \<and>
        \<not> listed (headers \<union> C) L' (Sp a)))"
    using assms(2-5) by (intro exI [of _ U'] exI [of _ L']) auto
qed

lemma search_alloc_post:
  assumes P: "search_post res Fm C h U L n r" and I: "heap_inv res Fm C h U L {}" "imbalance h U = 0"
  shows "alloc_post res Fm C h U L n r"
proof -
  have "alloc_post res Fm C h U L n (Ret (s, h'))" if rs: "r = Ret (s, h')" for s h'
  proof (cases "s = SNull")
    case True
    then have "h' = h" using P rs by (simp add: search_post_def)
    then show ?thesis unfolding alloc_post_def using I True by (intro allI impI exI [of _ U] exI [of _ L]) simp
  next
    case False
    then obtain a where a: "a \<in> fits (spans h) U n" "s = Sp a" "taken res Fm C h U L a n h'"
      using P [unfolded search_post_def, rule_format, OF rs] by auto
    have "loc_of (spans h) a \<noteq> IN_USE" using a(1) by (simp add: fits_def)
    from taken_alloc_post [OF a(3) this] a(2) show ?thesis by simp
  qed
  then show ?thesis unfolding alloc_post_def by blast
qed

lemma New_grow_spec:
  assumes K: "os_contract (os_calls E) res" and I: "heap_inv res Fm C h U L {}" and B: "imbalance h U = 0"
    and lim: "heap_limit_mb E = 0" and n: "0 < n"
    and small: "\<And>h' U' L'. heap_inv res Fm C h' U' L' {} \<Longrightarrow>
      card (heap_pages (spans h') U') \<le> card (heap_pages (spans h) U) + (n + 2 ^ 18) \<Longrightarrow> card (heap_pages (spans h') U') < 2 ^ 31"
  shows "\<exists>r. New_grow E h n = Some r \<and> alloc_post res Fm C h U L n r \<and>
    (\<forall>h'. r = Ret (SNull, h') \<longrightarrow> GrowHeap E h n = Some (Ret (False, h')))"
proof -
  obtain r where r: "GrowHeap E h n = Some r" "grow_post res Fm C h U L n (n + 2 ^ 18) r"
    using GrowHeap_spec [OF K I B lim n] by blast
  show ?thesis
  proof (cases r)
    case OutOfMemory
    then show ?thesis using r(1) by (simp add: New_grow_def alloc_post_def)
  next
    case (Ret gh)
    obtain ok h1 where gh: "gh = (ok, h1)" by (cases gh)
    obtain U1 L1 where g: "heap_inv res Fm C h1 U1 L1 {}" "imbalance h1 U1 = 0"
      "inuse_view (spans h1) U1 = inuse_view (spans h) U" "aggressive_decommit h1 = aggressive_decommit h" "\<forall>x. x \<notin> headers \<longrightarrow> L1 x = L x"
      "heap_pages (spans h) U \<subseteq> heap_pages (spans h1) U1"
      "card (heap_pages (spans h1) U1) \<le> card (heap_pages (spans h) U) + (n + 2 ^ 18)"
      "ok \<longrightarrow> fits (spans h1) U1 n \<noteq> {}"
      using r(2) [unfolded grow_post_def, rule_format, OF Ret [unfolded gh]] by blast
    show ?thesis
    proof (cases ok)
      case False
      have "New_grow E h n = Some (Ret (SNull, h1))"
        using r(1) Ret gh False balanced [OF g(1,2)] heap_inv_Check [OF g(1)] by (simp add: New_grow_def)
      moreover have "alloc_post res Fm C h1 U1 L1 n (Ret (SNull, h1))"
        unfolding alloc_post_def using g(1,2) by (intro allI impI exI [of _ U1] exI [of _ L1]) simp
      moreover have "alloc_post res Fm C h U L n (Ret (SNull, h1))" by (rule alloc_post_after [OF calculation(2) g(3-6)])
      ultimately show ?thesis using r(1) Ret gh False by (intro exI [of _ "Ret (SNull, h1)"]) simp
    next
      case True
      have "card (heap_pages (spans h1) U1) < 2 ^ 31" by (rule small [OF g(1,7)])
      from SearchFreeAndLargeLists_spec [OF K g(1,2) lim n this] obtain rs where
        rs: "SearchFreeAndLargeLists E h1 n = Some rs" "search_post res Fm C h1 U1 L1 n rs" by blast
      have "rs \<noteq> Ret (SNull, h')" for h' using rs(2) g(8) True by (auto simp: search_post_def)
      moreover have "New_grow E h n = Some rs" using r(1) Ret gh True rs(1) by (simp add: New_grow_def)
      moreover have "alloc_post res Fm C h U L n rs" using alloc_post_after [OF search_alloc_post [OF rs(2) g(1,2)] g(3-6)] .
      ultimately show ?thesis by blast
    qed
  qed
qed

lemma New_spec_bound:
  assumes K: "os_contract (os_calls E) res" and I: "heap_inv res Fm C h U L {}" and B: "imbalance h U = 0"
    and lim: "heap_limit_mb E = 0" and n: "0 < n"
    and small: "\<And>h' U' L'. heap_inv res Fm C h' U' L' {} \<Longrightarrow>
      card (heap_pages (spans h') U') \<le> card (heap_pages (spans h) U) + (n + 2 ^ 18) \<Longrightarrow> card (heap_pages (spans h') U') < 2 ^ 31"
  shows "\<exists>r. New E h n = Some r \<and> alloc_post res Fm C h U L n r"
proof -
  have sm: "card (heap_pages (spans h) U) < 2 ^ 31" by (rule small [OF I]) simp
  obtain r where r: "SearchFreeAndLargeLists E h n = Some r" "search_post res Fm C h U L n r"
    using SearchFreeAndLargeLists_spec [OF K I B lim n sm] by blast
  have ch: "Check h" using heap_inv_Check [OF I] .
  show ?thesis
  proof (cases "\<exists>h'. r = Ret (SNull, h')")
    case False
    have "New E h n = Some r"
      using r(1) ch n False by (cases r) (auto simp: New_def)
    then show ?thesis using search_alloc_post [OF r(2) I B] by blast
  next
    case True
    then have rr: "r = Ret (SNull, h)" using r(2) by (auto simp: search_post_def)
    show ?thesis
    proof (cases "New_should_coalesce h n")
      case False
      then have "New E h n = New_grow E h n" using r(1) rr ch n by (simp add: New_def)
      moreover have "\<exists>r. New_grow E h n = Some r \<and> alloc_post res Fm C h U L n r \<and>
        (\<forall>h'. r = Ret (SNull, h') \<longrightarrow> GrowHeap E h n = Some (Ret (False, h')))"
        by (rule New_grow_spec [OF K I B lim n]) (rule small)
      ultimately show ?thesis by auto
    next
      case co: True
      obtain k h1 U1 L1 where g: "ReleaseAtLeastNPages E h 0x7fffffff = Some (k, h1)" "heap_inv res Fm C h1 U1 L1 {}"
        "imbalance h1 U1 = 0" "keeps h U L h1 U1 L1" "heap_pages (spans h1) U1 = heap_pages (spans h) U"
        using ReleaseAtLeastNPages_spec [OF K I B, of "0x7fffffff"] by blast
      have k: "inuse_view (spans h1) U1 = inuse_view (spans h) U" "aggressive_decommit h1 = aggressive_decommit h" "\<forall>x. x \<notin> headers \<longrightarrow> L1 x = L x"
        "heap_pages (spans h) U \<subseteq> heap_pages (spans h1) U1" using g(4) by (simp_all add: keeps_def)
      have sm1: "card (heap_pages (spans h1) U1) < 2 ^ 31"
        "\<And>h' U' L'. heap_inv res Fm C h' U' L' {} \<Longrightarrow>
          card (heap_pages (spans h') U') \<le> card (heap_pages (spans h1) U1) + (n + 2 ^ 18) \<Longrightarrow> card (heap_pages (spans h') U') < 2 ^ 31"
        using sm small unfolding g(5) by blast+
      obtain r1 where r1: "SearchFreeAndLargeLists E h1 n = Some r1" "search_post res Fm C h1 U1 L1 n r1"
        using SearchFreeAndLargeLists_spec [OF K g(2,3) lim n sm1(1)] by blast
      show ?thesis
      proof (cases "\<exists>h'. r1 = Ret (SNull, h')")
        case False
        have "New E h n = Some r1"
          using r(1) rr ch n co g(1) r1(1) False by (cases r1) (auto simp: New_def)
        then show ?thesis using alloc_post_after [OF search_alloc_post [OF r1(2) g(2,3)] k] by blast
      next
        case True
        then have "r1 = Ret (SNull, h1)" using r1(2) by (auto simp: search_post_def)
        then have "New E h n = New_grow E h1 n" using r(1) rr ch n co g(1) r1(1) by (simp add: New_def)
        moreover have "\<exists>r. New_grow E h1 n = Some r \<and> alloc_post res Fm C h1 U1 L1 n r \<and>
          (\<forall>h'. r = Ret (SNull, h') \<longrightarrow> GrowHeap E h1 n = Some (Ret (False, h')))"
          by (rule New_grow_spec [OF K g(2,3) lim n]) (rule sm1(2))
        ultimately show ?thesis using alloc_post_after k by metis
      qed
    qed
  qed
qed

lemma New_spec:
  assumes K: "os_contract (os_calls E) res" and I: "heap_inv res Fm C h U L {}" and B: "imbalance h U = 0"
    and lim: "heap_limit_mb E = 0" and n: "0 < n"
    and small: "card (heap_pages (spans h) U) + n + 2 ^ 18 < 2 ^ 31"
  shows "\<exists>r. New E h n = Some r \<and> alloc_post res Fm C h U L n r"
proof (rule New_spec_bound [OF K I B lim n])
  fix h' U' assume "card (heap_pages (spans h') U') \<le> card (heap_pages (spans h) U) + (n + 2 ^ 18)"
  with small show "card (heap_pages (spans h') U') < 2 ^ 31" by linarith
qed

end
