(* ===== verification/Page_Heap_Split.thy ===== *)
theory Page_Heap_Split
  imports Page_Heap_Grow
begin

text \<open>
  \<open>Split\<close>, \<open>RegisterSizeClass\<close>, the consistency check \<open>CheckExpensive\<close> and the state that the
  constructor leaves.
\<close>

section \<open>Split\<close>

lemma Split_spec:
  assumes K: "os_contract (os_calls E) res" and I: "heap_inv res Fm C h U L {}" and B: "imbalance h U = 0"
    and a: "a \<in> U" "loc_of (spans h) a = IN_USE" "class_of (spans h) a = 0"
    and n: "0 < n" "n < plen_of (spans h) a" "plen_of (spans h) a < 2 ^ 31"
  shows "\<exists>r. Split E h (Sp a) n = Some r \<and> (\<forall>s h'. r = Ret (s, h') \<longrightarrow>
    (\<exists>b. s = Sp b \<and> b \<notin> U \<and> heap_inv res Fm C h' (insert b U) L {} \<and> imbalance h' (insert b U) = 0 \<and>
      aggressive_decommit h' = aggressive_decommit h \<and> \<not> listed (headers \<union> C) L (Sp b) \<and>
      heap_pages (spans h') (insert b U) = heap_pages (spans h) U \<and>
      inuse_view (spans h') (insert b U) = (inuse_view (spans h) U)
        (a \<mapsto> (span_data (spans h (Sp a)))\<lparr>span_length := n\<rparr>,
         b \<mapsto> zero_span\<lparr>span_start := start_of (spans h) a + n, span_length := plen_of (spans h) a - n\<rparr>)))"
proof -
  note I' = heap_invD [OF I]
  let ?st = "spans h" and ?S = "start_of (spans h) a" and ?N = "plen_of (spans h) a"
  let ?p = "?S + n" and ?len = "?N - n"
  let ?z = "zero_span\<lparr>span_start := ?p, span_length := ?len\<rparr>"
  note g = geomD [OF I'(1) a(1)]
  have ext: "to_size_t (to_int32 ?len) = ?len" using n by (simp add: to_int32_small to_size_t_def)
  obtain r where r: "NewSpan E h ?p ?len = Some r" "\<forall>x h'. r = Ret (x, h') \<longrightarrow>
    (\<exists>b m al. x = Sp b \<and> b \<notin> U \<and> mem_ok res Fm m al (stacktrace_allocator h) (insert b U) (heap_pages ?st U) \<and>
      h' = h\<lparr>heap_meta := m, span_allocator := al, spans := (spans h)(Sp b := ?z)\<rparr>)"
    using NewSpan_spec [OF K I'(7)] by blast
  have op: "Split E h (Sp a) n = (case r of OutOfMemory \<Rightarrow> Some OutOfMemory
       | Ret (leftover, h1) \<Rightarrow> do {
           CHECK (location (span_of h1 leftover) = IN_USE);
           h1 \<leftarrow> RecordSpan h1 leftover;
           h1 \<leftarrow> pagemap_set h1 (span_start (span_of h1 (Sp a)) + n - 1) (Sp a);
           h1 \<leftarrow> upd_span h1 (Sp a) (\<lambda>x. x\<lparr>span_length := n\<rparr>);
           Some (Ret (leftover, h1)) })"
  proof -
    have c: "CHECK (0 < n) = Some ()" "CHECK (n < ?N) = Some ()" "CHECK (loc_of ?st a = IN_USE) = Some ()"
      "CHECK (class_of ?st a = 0) = Some ()" using n a by simp_all
    show ?thesis unfolding Split_def Let_def span_of_def c Option.bind.bind_lunit ext r(1) by (rule refl)
  qed
  show ?thesis
  proof (cases r)
    case OutOfMemory
    then show ?thesis using op by simp
  next
    case (Ret xh)
    obtain x h1 where xh: "xh = (x, h1)" by (cases xh)
    obtain b m al where b: "x = Sp b" "b \<notin> U" "mem_ok res Fm m al (stacktrace_allocator h) (insert b U) (heap_pages ?st U)"
      and h1: "h1 = h\<lparr>heap_meta := m, span_allocator := al, spans := (spans h)(Sp b := ?z)\<rparr>"
      using r(2) [rule_format, OF Ret [unfolded xh]] by blast
    have ne: "b \<noteq> a" using b(2) a(1) by auto
    have ens: "PageMap3_ensured BITS64 (pagemap h) q" if "q \<in> ext ?st a" for q using mappedD(4) [OF I'(2) a(1) that] .
    have mem: "?p \<in> ext ?st a" "?p + ?len - 1 \<in> ext ?st a" "?S + n - 1 \<in> ext ?st a" using n by (auto simp: ext_def)
    obtain pm where pm: "RecordSpan h1 (Sp b) = Some (h1\<lparr>pagemap := pm\<rparr>)"
      "PageMap3_get BITS64 pm = (PageMap3_get BITS64 (pagemap h))(?p := Some (Sp b), ?p + ?len - 1 := Some (Sp b))"
      "PageMap3_ensured BITS64 pm = PageMap3_ensured BITS64 (pagemap h)"
      using RecordSpan_spec [of h1 ?p ?len b] ens mem n by (auto simp: h1)
    let ?h2 = "h1\<lparr>pagemap := pm\<rparr>"
    have "PageMap3_ensured BITS64 (pagemap ?h2) (?S + n - 1)" using ens mem(3) pm(3) by simp
    then obtain pm3 where pm3: "pagemap_set ?h2 (?S + n - 1) (Sp a) = Some (?h2\<lparr>pagemap := pm3\<rparr>)"
      "PageMap3_get BITS64 pm3 = (PageMap3_get BITS64 pm)(?S + n - 1 := Some (Sp a))"
      "PageMap3_ensured BITS64 pm3 = PageMap3_ensured BITS64 pm"
      using pagemap_set_spec [of ?h2 "?S + n - 1" "Sp a"] by auto
    let ?st' = "?st(Sp b := ?z, Sp a := (?st (Sp a))\<lparr>span_length := n\<rparr>)"
    define h' where "h' = h1\<lparr>pagemap := pm3, spans := ?st'\<rparr>"
    have fin: "Split E h (Sp a) n = Some (Ret (Sp b, h'))"
      unfolding op Ret xh outcome.case prod.case b(1) pm(1) Option.bind.bind_lunit
      using pm3(1) ne by (simp add: span_of_def h1 upd_span_def h'_def)
    have sa: "start_of ?st' a = ?S" "plen_of ?st' a = n" "class_of ?st' a = 0" "loc_of ?st' a = IN_USE" using a by simp_all
    have sb: "start_of ?st' b = ?p" "plen_of ?st' b = ?len" "class_of ?st' b = 0" "loc_of ?st' b = IN_USE" using ne by simp_all
    have so: "?st' (Sp x) = ?st (Sp x)" if "x \<in> U - {a}" for x using that b(2) by auto
    have sx: "start_of ?st' x = start_of ?st x" "plen_of ?st' x = plen_of ?st x" "class_of ?st' x = class_of ?st x" if "x \<in> U - {a}" for x
      using so that by simp_all
    define g' where "g' = PageMap3_get BITS64 pm3"
    have g': "g' = (PageMap3_get BITS64 (pagemap h))(?p := Some (Sp b), ?p + ?len - 1 := Some (Sp b), ?S + n - 1 := Some (Sp a))"
      by (simp only: g'_def pm3(2) pm(2))
    have pq: "?S \<noteq> ?p" "?S \<noteq> ?p + ?len - 1" "?p \<noteq> ?S + n - 1" "?p + ?len - 1 \<noteq> ?S + n - 1" "?p + ?len - 1 = ?S + ?N - 1"
      using n by linarith+
    have ga: "g' ?S = Some (Sp a)" "g' (?S + n - 1) = Some (Sp a)" "g' ?p = Some (Sp b)" "g' (?S + ?N - 1) = Some (Sp b)"
      using mappedD(1) [OF I'(2) a(1)] pq unfolding g' by (metis fun_upd_apply)+
    have go: "g' q = PageMap3_get BITS64 (pagemap h) q" if "q \<notin> ext ?st a" for q
      using that mem unfolding g' by (metis fun_upd_other)
    have ens': "PageMap3_ensured BITS64 pm3 = PageMap3_ensured BITS64 (pagemap h)" using pm3(3) pm(3) by simp
    note cut = cut_span [where st' = ?st', OF I'(1,2) a(1) b(2) n(1,2) sa(1-3) sb(1-3) sx ga go]
    have ox: "span_data (?st' (Sp x)) = span_data (?st (Sp x))" if "x \<in> U - {a}" for x using so [OF that] by simp
    have O1: "lists_ok C (?st(Sp b := ?z)) (insert b U) L {b}" using lists_ok_new [OF I'(3) b(2), of ?z] by simp
    have nl: "\<not> listed (headers \<union> C) L (Sp b)" using floating_not_listed(1) [OF O1] by simp
    have "lists_ok C (?st(Sp b := ?z)) (insert b U) L {}" using lists_ok_unfloat [OF O1, of b] by simp
    from lists_ok_upd [OF this, of "\<lambda>x. x\<lparr>span_length := n\<rparr>" a] have O': "lists_ok C ?st' (insert b U) L {}"
      using ne a(2) by simp
    have finU: "finite U" using geom_finite [OF I'(1)] .
    have sum: "stat_sum ?st' (insert b U) l = stat_sum ?st U l" if "l \<noteq> IN_USE" for l
    proof -
      have "stat_sum ?st' (insert b U) l = stat_sum ?st' U l" using stat_sum_insert [OF finU b(2), of ?st' l] sb(4) that by simp
      also have "\<dots> = stat_sum ?st' (U - {a}) l" using stat_sum_remove [OF finU a(1), of ?st' l] sa(4) that by simp
      also have "\<dots> = stat_sum ?st (U - {a}) l" by (rule stat_sum_cong) (rule ox)
      also have "\<dots> = stat_sum ?st U l" using stat_sum_remove [OF finU a(1), of ?st l] a(2) that by simp
      finally show ?thesis .
    qed
    have co: "coalesced ?st' (insert b U)"
      unfolding coalesced_def
    proof (intro ballI impI)
      fix x y assume xy: "x \<in> insert b U" "y \<in> insert b U" "start_of ?st' x + plen_of ?st' x = start_of ?st' y" "loc_of ?st' x = loc_of ?st' y"
      show "loc_of ?st' x = IN_USE"
      proof (cases "x \<in> {a, b} \<or> y \<in> {a, b}")
        case True
        then show ?thesis using xy(4) sa(4) sb(4) by (metis insertE singletonD)
      next
        case False
        then have "x \<in> U - {a}" "y \<in> U - {a}" using xy by auto
        then show ?thesis using I'(5) xy(3,4) so unfolding coalesced_def by auto
      qed
    qed
    have cl: "clean ?st' (insert b U)"
      unfolding clean_def
    proof (intro ballI impI conjI)
      fix x assume "x \<in> insert b U" "loc_of ?st' x \<noteq> IN_USE"
      then show "class_of ?st' x = 0" using I'(6) a(1) b(2) by (auto simp: clean_def split: if_splits)
    next
      fix x assume "x \<in> insert b U"
      then show "\<not> sample (?st' (Sp x))" using I'(6) a(1) b(2) by (auto simp: clean_def zero_span_def split: if_splits)
    qed
    have mo: "mode_ok (aggressive_decommit h) ?st' (insert b U)"
      unfolding mode_ok_def
    proof (intro impI ballI)
      fix x assume x: "aggressive_decommit h" "x \<in> insert b U"
      show "loc_of ?st' x \<noteq> ON_NORMAL_FREELIST"
        using mode_okD [OF I'(8) x(1), of x] x(2) so [of x] sa(4) sb(4) by (cases "x = a"; cases "x = b") auto
    qed
    have H: "heap_inv res Fm C h' (insert b U) L {}"
    proof (rule heap_invI)
      show "mapped (PageMap3_get BITS64 (pagemap h')) (PageMap3_ensured BITS64 (pagemap h')) (spans h') (insert b U)"
        using cut(3) by (simp add: h'_def g'_def ens')
      show "mem_ok res Fm (heap_meta h') (span_allocator h') (stacktrace_allocator h') (insert b U) (heap_pages (spans h') (insert b U))"
        unfolding h'_def using cut(2) b(3) by (simp add: h1)
    qed (use cut(1) O' sum co cl mo I'(4) in \<open>simp_all add: h'_def h1 sums_ok_def\<close>)
    have inu: "inuse_view ?st' (insert b U) = (inuse_view ?st U)(a \<mapsto> (span_data (?st (Sp a)))\<lparr>span_length := n\<rparr>, b \<mapsto> ?z)"
      using a ne b(2) by (auto simp: inuse_view_def fun_eq_iff span_data_def zero_span_def)
    have hp: "heap_pages ?st' (insert b U) = heap_pages ?st U" by (rule cut(2))
    have bal: "imbalance h' (insert b U) = 0" using B sum by (simp add: imbalance_def h'_def h1)
    have sp: "spans h' = ?st'" "aggressive_decommit h' = aggressive_decommit h" by (simp_all add: h'_def h1)
    have "\<exists>c. Sp b = Sp c \<and> c \<notin> U \<and> heap_inv res Fm C h' (insert c U) L {} \<and> imbalance h' (insert c U) = 0 \<and>
      aggressive_decommit h' = aggressive_decommit h \<and> \<not> listed (headers \<union> C) L (Sp c) \<and>
      heap_pages (spans h') (insert c U) = heap_pages (spans h) U \<and>
      inuse_view (spans h') (insert c U) = (inuse_view (spans h) U)
        (a \<mapsto> (span_data (spans h (Sp a)))\<lparr>span_length := n\<rparr>, c \<mapsto> ?z)"
      unfolding sp using b(2) H bal nl hp inu by (intro exI [of _ b]) blast
    then show ?thesis using fin by (intro exI [of _ "Ret (Sp b, h')"]) auto
  qed
qed

section \<open>RegisterSizeClass\<close>

lemma set_interior_spec:
  assumes "\<And>q. q \<in> extent (start_of (spans h) a + i) k \<Longrightarrow> PageMap3_ensured BITS64 (pagemap h) q"
  shows "\<exists>pm. set_interior h (Sp a) i k = Some (h\<lparr>pagemap := pm\<rparr>) \<and>
    PageMap3_get BITS64 pm = (\<lambda>q. if q \<in> extent (start_of (spans h) a + i) k then Some (Sp a) else PageMap3_get BITS64 (pagemap h) q) \<and>
    PageMap3_ensured BITS64 pm = PageMap3_ensured BITS64 (pagemap h)"
  using assms
proof (induction k arbitrary: h i)
  case 0
  then show ?case by (intro exI [of _ "pagemap h"]) (simp add: fun_eq_iff)
next
  case (Suc k)
  let ?S = "start_of (spans h) a"
  have "PageMap3_ensured BITS64 (pagemap h) (?S + i)" using Suc.prems by auto
  then obtain pm where pm: "pagemap_set h (?S + i) (Sp a) = Some (h\<lparr>pagemap := pm\<rparr>)"
    "PageMap3_get BITS64 pm = (PageMap3_get BITS64 (pagemap h))(?S + i := Some (Sp a))"
    "PageMap3_ensured BITS64 pm = PageMap3_ensured BITS64 (pagemap h)" using pagemap_set_spec by blast
  let ?h = "h\<lparr>pagemap := pm\<rparr>"
  have "PageMap3_ensured BITS64 (pagemap ?h) q" if "q \<in> extent (start_of (spans ?h) a + Suc i) k" for q
    using Suc.prems [of q] that pm(3) by auto
  note IH = Suc.IH [of ?h "Suc i", OF this]
  have eqs: "pagemap ?h = pm" "spans ?h = spans h" by simp_all
  from IH [unfolded eqs] obtain pm2 where pm2: "set_interior ?h (Sp a) (Suc i) k = Some (?h\<lparr>pagemap := pm2\<rparr>)"
    "PageMap3_get BITS64 pm2 = (\<lambda>q. if q \<in> extent (?S + Suc i) k then Some (Sp a) else PageMap3_get BITS64 pm q)"
    "PageMap3_ensured BITS64 pm2 = PageMap3_ensured BITS64 pm" by blast
  have "PageMap3_get BITS64 pm2 = (\<lambda>q. if q \<in> extent (?S + i) (Suc k) then Some (Sp a) else PageMap3_get BITS64 (pagemap h) q)"
    unfolding pm2(2) pm(2) by (auto simp: fun_eq_iff)
  moreover have "set_interior h (Sp a) i (Suc k) = Some (h\<lparr>pagemap := pm2\<rparr>)"
    using pm(1) pm2(1) by (simp add: span_of_def)
  ultimately show ?case using pm2(3) pm(3) by (intro exI [of _ pm2]) simp
qed

lemma RegisterSizeClass_spec:
  assumes I: "heap_inv res Fm C h U L {}" and B: "imbalance h U = 0"
    and a: "a \<in> U" "loc_of (spans h) a = IN_USE"
  shows "\<exists>h'. RegisterSizeClass h (Sp a) sc = Some h' \<and> heap_inv res Fm C h' U L {} \<and> imbalance h' U = 0 \<and>
    aggressive_decommit h' = aggressive_decommit h \<and> heap_pages (spans h') U = heap_pages (spans h) U \<and>
    inuse_view (spans h') U = (inuse_view (spans h) U)(a \<mapsto> (span_data (spans h (Sp a)))\<lparr>sizeclass := sc mod 2 ^ 8\<rparr>) \<and>
    (\<forall>q. GetDescriptor h' q = (if q \<in> ext (spans h) a then Sp a else GetDescriptor h q))"
proof -
  note I' = heap_invD [OF I]
  let ?st = "spans h" and ?S = "start_of (spans h) a" and ?N = "plen_of (spans h) a"
  define c where "c = sc mod 2 ^ 8"
  let ?f = "\<lambda>x. x\<lparr>sizeclass := c\<rparr>"
  let ?st' = "?st(Sp a := ?f (?st (Sp a)))"
  let ?h1 = "h\<lparr>spans := ?st'\<rparr>"
  have N: "0 < ?N" using geomD(1) [OF I'(1) a(1)] .
  have ens: "PageMap3_ensured BITS64 (pagemap ?h1) q" if "q \<in> extent (start_of (spans ?h1) a + 1) (?N - 2)" for q
  proof -
    have "q \<in> ext ?st a" using that by (auto simp: ext_def)
    then show ?thesis using mappedD(4) [OF I'(2) a(1)] by simp
  qed
  have eqs: "pagemap ?h1 = pagemap h" "start_of (spans ?h1) a = ?S" by simp_all
  obtain pm where pm: "set_interior ?h1 (Sp a) 1 (?N - 2) = Some (?h1\<lparr>pagemap := pm\<rparr>)"
    "PageMap3_get BITS64 pm = (\<lambda>q. if q \<in> extent (?S + 1) (?N - 2) then Some (Sp a) else PageMap3_get BITS64 (pagemap h) q)"
    "PageMap3_ensured BITS64 pm = PageMap3_ensured BITS64 (pagemap h)"
    using set_interior_spec [of ?h1 a 1 "?N - 2", OF ens, unfolded eqs] by blast
  have ends: "PageMap3_get BITS64 (pagemap h) ?S = Some (Sp a)" "PageMap3_get BITS64 (pagemap h) (?S + ?N - 1) = Some (Sp a)"
    using mappedD(1,2) [OF I'(2) a(1)] by auto
  have get: "PageMap3_get BITS64 pm q = (if q \<in> ext ?st a then Some (Sp a) else PageMap3_get BITS64 (pagemap h) q)" for q
  proof -
    consider "q = ?S" | "q = ?S + ?N - 1" | "q \<in> extent (?S + 1) (?N - 2)" | "q \<notin> ext ?st a" "q \<notin> extent (?S + 1) (?N - 2)"
      unfolding ext_def mem_extent using N by linarith
    then show ?thesis
    proof cases
      case 3
      then show ?thesis unfolding pm(2) by (auto simp: ext_def)
    next
      case 4
      then show ?thesis unfolding pm(2) by (simp only: if_False)
    qed (use ends N in \<open>auto simp: pm(2) ext_def\<close>)
  qed
  let ?h' = "?h1\<lparr>pagemap := pm\<rparr>"
  have op: "RegisterSizeClass h (Sp a) sc = Some ?h'"
    using a(2) ends pm(1) by (simp add: RegisterSizeClass_def span_of_def GetDescriptor_def upd_span_def c_def)
  have ge: "start_of ?st' b = start_of ?st b" "plen_of ?st' b = plen_of ?st b" "loc_of ?st' b = loc_of ?st b" for b by simp_all
  then have e: "ext ?st' = ext ?st" by (simp add: ext_def fun_eq_iff)
  have p: "heap_pages ?st' = heap_pages ?st" unfolding fun_eq_iff heap_pages_def e by blast
  have s: "stat_sum ?st' S l = stat_sum ?st S l" for S l unfolding stat_sum_def ge ..
  have map: "mapped (PageMap3_get BITS64 pm) (PageMap3_ensured BITS64 pm) ?st' U"
    unfolding mapped_def e p ge pm(3)
  proof (intro conjI ballI impI allI)
    fix x assume x: "x \<in> U"
    have nx: "PageMap3_get BITS64 pm q = PageMap3_get BITS64 (pagemap h) q" if "x \<noteq> a" "q \<in> ext ?st x" for q
      using geom_disjoint [OF I'(1) x a(1) that(2)] that(1) get by auto
    show "PageMap3_get BITS64 pm (start_of ?st x) = Some (Sp x)"
      using nx [OF _ geomD(4) [OF I'(1) x]] mappedD(1) [OF I'(2) x] geomD(4) [OF I'(1) x] get by (cases "x = a") auto
    show "PageMap3_get BITS64 pm (start_of ?st x + plen_of ?st x - 1) = Some (Sp x)"
      using nx [OF _ geomD(5) [OF I'(1) x]] mappedD(2) [OF I'(2) x] geomD(5) [OF I'(1) x] get by (cases "x = a") auto
    fix q assume q: "class_of ?st' x \<noteq> 0" "q \<in> ext ?st x"
    show "PageMap3_get BITS64 pm q = Some (Sp x)"
      using nx [OF _ q(2)] mappedD(3) [OF I'(2) x, of q] q get by (cases "x = a") auto
  next
    fix q assume "q \<in> heap_pages ?st U"
    then show "PageMap3_ensured BITS64 (pagemap h) q" using I'(2) by (simp add: mapped_def)
  next
    fix q assume "PageMap3_get BITS64 pm q \<noteq> None"
    then show "q \<in> heap_pages ?st U"
      using I'(2) a(1) get by (auto simp: mapped_def heap_pages_def split: if_splits)
  qed
  have L: "lists_ok C ?st' U L {}" using lists_ok_upd [OF I'(3), of ?f a] a(2) by simp
  have H: "heap_inv res Fm C ?h' U L {}"
  proof (rule heap_invI)
    show "mem_ok res Fm (heap_meta ?h') (span_allocator ?h') (stacktrace_allocator ?h') U (heap_pages (spans ?h') U)"
      using I'(7) p by simp
    show "geom (spans ?h') U" using I'(1) unfolding geom_def by (simp add: e ge del: fun_upd_apply)
    show "coalesced (spans ?h') (U - {})" using I'(5) unfolding coalesced_def by (simp add: ge del: fun_upd_apply)
    show "sums_ok ?h' (U - {})" using I'(4) unfolding sums_ok_def by (simp add: s del: fun_upd_apply)
    show "clean (spans ?h') U" using I'(6) a(2) by (auto simp: clean_def)
    show "mode_ok (aggressive_decommit ?h') (spans ?h') (U - {})" using I'(8) unfolding mode_ok_def by (simp add: ge del: fun_upd_apply)
  qed (use map L in \<open>simp_all del: fun_upd_apply\<close>)
  have bal: "imbalance ?h' U = 0" using B by (simp add: imbalance_def s del: fun_upd_apply)
  have inu: "inuse_view ?st' U = (inuse_view ?st U)(a \<mapsto> (span_data (?st (Sp a)))\<lparr>sizeclass := c\<rparr>)"
    using a by (auto simp: inuse_view_def fun_eq_iff span_data_def)
  have "GetDescriptor ?h' q = (if q \<in> ext ?st a then Sp a else GetDescriptor h q)" for q
    by (simp add: GetDescriptor_def get)
  then show ?thesis using op H bal inu p unfolding c_def by (intro exI [of _ "h\<lparr>spans := ?st(Sp a := (?st (Sp a))\<lparr>sizeclass := sc mod 2 ^ 8\<rparr>), pagemap := pm\<rparr>"]) (simp del: fun_upd_apply)
qed

section \<open>The consistency check\<close>

lemma CheckList_from_ok:
  assumes "dseg (spans h) s xs lst" "lst \<notin> set xs" "SNull \<notin> set xs"
    and "\<And>x. x \<in> set xs \<Longrightarrow> location (spans h x) = l \<and> lo \<le> span_length (spans h x) \<and> span_length (spans h x) \<le> hi \<and>
      GetDescriptor h (span_start (spans h x)) = x \<and> GetDescriptor h (span_start (spans h x) + span_length (spans h x) - 1) = x"
  shows "CheckList_from h lst lo hi l (span_next (spans h s)) = Some ()"
  using assms
proof (induction xs arbitrary: s)
  case Nil
  then show ?case by (simp add: CheckList_from.simps [of h lst])
next
  case (Cons x xs)
  then have "CheckList_from h lst lo hi l (span_next (spans h x)) = Some ()" by simp
  moreover have "span_next (spans h s) = x" "x \<noteq> lst" "x \<noteq> SNull" using Cons.prems(1-3) by auto
  ultimately show ?case using Cons.prems(4) [of x] by (subst CheckList_from.simps) (simp add: span_of_def)
qed

lemma CheckList_ok:
  assumes I: "heap_inv res Fm C h U L {}" and H: "H \<in> headers"
    and m: "\<And>a. a \<in> U \<Longrightarrow> loc_of (spans h) a \<noteq> IN_USE \<Longrightarrow> list_of (loc_of (spans h) a) (plen_of (spans h) a) = H \<Longrightarrow>
      loc_of (spans h) a = l \<and> lo \<le> plen_of (spans h) a \<and> plen_of (spans h) a \<le> hi"
  shows "CheckList h H lo hi l = Some ()"
proof -
  note I' = heap_invD [OF I]
  have d: "dseg (spans h) H (L H) H" "H \<notin> set (L H)" "SNull \<notin> set (L H)"
    using dlls_dll [OF lists_okD(3) [OF I'(3)], of H] H by (auto simp: dll_def)
  have "location (spans h x) = l \<and> lo \<le> span_length (spans h x) \<and> span_length (spans h x) \<le> hi \<and>
      GetDescriptor h (span_start (spans h x)) = x \<and> GetDescriptor h (span_start (spans h x) + span_length (spans h x) - 1) = x"
    if x: "x \<in> set (L H)" for x
  proof -
    obtain a where a: "a \<in> U" "x = Sp a" "loc_of (spans h) a \<noteq> IN_USE" "H = list_of (loc_of (spans h) a) (plen_of (spans h) a)"
      using lists_okD(5) [OF I'(3) H x] by blast
    show ?thesis using m [OF a(1,3) a(4) [symmetric]] mappedD(1,2) [OF I'(2) a(1)] by (simp add: a(2) GetDescriptor_def)
  qed
  from CheckList_from_ok [OF d this] show ?thesis by (simp add: CheckList_def span_of_def)
qed

lemma CheckSmall_ok:
  assumes I: "heap_inv res Fm C h U L {}"
  shows "s + k \<le> kMaxPages \<Longrightarrow> CheckSmall h s k = Some ()"
proof (induction k arbitrary: s)
  case (Suc k)
  have H: "FreeNormal s \<in> headers" "FreeReturned s \<in> headers" using Suc.prems by (auto simp: headers_def)
  have "CheckList h (FreeNormal s) s s ON_NORMAL_FREELIST = Some ()"
    by (rule CheckList_ok [OF I H(1)]) (auto simp: list_of_def split: if_splits)
  moreover have "CheckList h (FreeReturned s) s s ON_RETURNED_FREELIST = Some ()"
  proof (rule CheckList_ok [OF I H(2)])
    fix a assume "loc_of (spans h) a \<noteq> IN_USE" "list_of (loc_of (spans h) a) (plen_of (spans h) a) = FreeReturned s"
    then show "loc_of (spans h) a = ON_RETURNED_FREELIST \<and> s \<le> plen_of (spans h) a \<and> plen_of (spans h) a \<le> s"
      by (cases "loc_of (spans h) a") (auto simp: list_of_def split: if_splits)
  qed
  ultimately show ?case using Suc by simp
qed simp

lemma CheckExpensive_ok:
  assumes I: "heap_inv res Fm C h U L {}" and small: "card (heap_pages (spans h) U) \<le> 1000000000"
  shows "CheckExpensive h = Some ()"
proof -
  have len: "plen_of (spans h) a \<le> 1000000000" if "a \<in> U" for a
    using plen_le_pages [OF heap_invD(1) [OF I] that] small by simp
  have H: "LargeNormal \<in> headers" "LargeReturned \<in> headers" by (simp_all add: headers_def)
  have "CheckList h LargeNormal kMaxPages 1000000000 ON_NORMAL_FREELIST = Some ()"
    by (rule CheckList_ok [OF I H(1)]) (use len in \<open>auto simp: list_of_def split: if_splits\<close>)
  moreover have "CheckList h LargeReturned kMaxPages 1000000000 ON_RETURNED_FREELIST = Some ()"
  proof (rule CheckList_ok [OF I H(2)])
    fix a assume "a \<in> U" "loc_of (spans h) a \<noteq> IN_USE" "list_of (loc_of (spans h) a) (plen_of (spans h) a) = LargeReturned"
    then show "loc_of (spans h) a = ON_RETURNED_FREELIST \<and> kMaxPages \<le> plen_of (spans h) a \<and> plen_of (spans h) a \<le> 1000000000"
      using len [of a] by (cases "loc_of (spans h) a") (auto simp: list_of_def split: if_splits)
  qed
  moreover have "CheckSmall h 1 (kMaxPages - 1) = Some ()" by (rule CheckSmall_ok [OF I]) (simp add: kMaxPages_def)
  ultimately show ?thesis using heap_inv_Check [OF I] by (simp add: CheckExpensive_def)
qed

section \<open>The mode\<close>

text \<open>The mode may be left at any time, and entered when no free span is committed: at the start.\<close>

lemma SetAggressiveDecommit_spec:
  assumes I: "heap_inv res Fm C h U L F" and m: "b \<Longrightarrow> mode_ok True (spans h) (U - F)"
  shows "heap_inv res Fm C (SetAggressiveDecommit h b) U L F" "imbalance (SetAggressiveDecommit h b) U = imbalance h U"
proof -
  have "mode_ok b (spans h) (U - F)" using m by (cases b) (simp_all add: mode_ok_def)
  then show "heap_inv res Fm C (SetAggressiveDecommit h b) U L F"
    by (intro heap_invI) (use heap_invD [OF I] in \<open>simp_all add: SetAggressiveDecommit_def sums_ok_def\<close>)
  show "imbalance (SetAggressiveDecommit h b) U = imbalance h U" by (simp add: SetAggressiveDecommit_def imbalance_def)
qed

lemma SetAggressiveDecommit_same: "aggressive_decommit h = b \<Longrightarrow> SetAggressiveDecommit h b = h"
  by (cases h) (simp add: SetAggressiveDecommit_def)

text \<open>In the aggressive mode all free memory has gone back to the system.\<close>

lemma aggressive_free_bytes:
  assumes I: "heap_inv res Fm C h U L {}" and g: "aggressive_decommit h"
  shows "free_bytes h = 0"
proof -
  have "stat_sum (spans h) U ON_NORMAL_FREELIST = 0"
    using mode_okD [OF heap_invD(8) [OF I] g] by (auto simp: stat_sum_def intro: sum.neutral)
  then show ?thesis using heap_invD(4) [OF I] by (simp add: sums_ok_def)
qed

section \<open>The initial state\<close>

lemma Cache_Clear_whole_keys:
  "kUseWholeKeys kb TYPE('t :: len) \<Longrightarrow> \<exists>c. Cache_Clear_from kb val i n (arr :: ('k :: len, 't) packed_cache) = Some c"
  by (induction n arbitrary: i arr) auto

text \<open>Initialised headers: each is linked to itself.\<close>

definition self_linked :: "store \<Rightarrow> span_ptr set \<Rightarrow> bool" where
  "self_linked st H = (\<forall>h\<in>H. h \<noteq> SNull \<and> span_next (st h) = h \<and> span_prev (st h) = h)"

lemma DLL_Init_self_linked:
  "self_linked st H \<Longrightarrow> h \<noteq> SNull \<Longrightarrow> \<exists>st'. DLL_Init st h = Some st' \<and> self_linked st' (insert h H)"
  by (auto simp: DLL_Init_def set_next_def set_prev_def self_linked_def)

lemma init_lists_self_linked:
  "self_linked st H \<Longrightarrow> \<exists>st'. init_lists n st = Some st' \<and> self_linked st' (H \<union> FreeNormal ` {..<n} \<union> FreeReturned ` {..<n})"
proof (induction n)
  case (Suc n)
  then obtain st1 where st1: "init_lists n st = Some st1" "self_linked st1 (H \<union> FreeNormal ` {..<n} \<union> FreeReturned ` {..<n})" by blast
  obtain st2 where st2: "DLL_Init st1 (FreeNormal n) = Some st2"
    "self_linked st2 (insert (FreeNormal n) (H \<union> FreeNormal ` {..<n} \<union> FreeReturned ` {..<n}))"
    using DLL_Init_self_linked [OF st1(2), of "FreeNormal n"] by blast
  obtain st3 where st3: "DLL_Init st2 (FreeReturned n) = Some st3"
    "self_linked st3 (insert (FreeReturned n) (insert (FreeNormal n) (H \<union> FreeNormal ` {..<n} \<union> FreeReturned ` {..<n})))"
    using DLL_Init_self_linked [OF st2(2), of "FreeReturned n"] by blast
  have "insert (FreeReturned n) (insert (FreeNormal n) (H \<union> FreeNormal ` {..<n} \<union> FreeReturned ` {..<n})) =
    H \<union> FreeNormal ` {..<Suc n} \<union> FreeReturned ` {..<Suc n}" by (auto simp: lessThan_Suc)
  then show ?case using st1(1) st2(1) st3 by auto
qed auto

lemma self_linked_dlls: "self_linked st H \<Longrightarrow> dlls st H (\<lambda>_. [])"
  by (auto simp: dlls_def dll_def self_linked_def)

lemma PageHeap_new_spec:
  assumes M: "mem_ok res Fm m sa ta {} {}" and C: "C \<subseteq> central_headers" "self_linked st C"
  shows "\<exists>h. PageHeap_new m sa ta st (\<lambda>_. None) cache = Some h \<and> heap_inv res Fm C h {} (\<lambda>_. []) {} \<and> imbalance h {} = 0 \<and>
    self_linked (spans h) (headers \<union> C) \<and> \<not> aggressive_decommit h \<and> heap_meta h = m \<and> span_allocator h = sa \<and> stacktrace_allocator h = ta \<and>
    pagemap h = (\<lambda>_. None) \<and> system_bytes h = 0 \<and> committed_bytes h = 0"
proof -
  have "kUseWholeKeys BITS64 TYPE(64)" by (simp add: kUseWholeKeys_def kValuebits_def)
  then obtain c where c: "Cache_Clear BITS64 cache 0 = Some c"
    using Cache_Clear_whole_keys [of BITS64 0 0 "2 ^ kHashbits" cache] by (auto simp: Cache_Clear_def)
  obtain st1 where st1: "DLL_Init st LargeNormal = Some st1" "self_linked st1 (insert LargeNormal C)"
    using DLL_Init_self_linked [OF C(2), of LargeNormal] by blast
  then obtain st2 where st2: "DLL_Init st1 LargeReturned = Some st2" "self_linked st2 (insert LargeReturned (insert LargeNormal C))"
    using DLL_Init_self_linked [of st1 "insert LargeNormal C" LargeReturned] by blast
  then obtain st3 where st3: "init_lists kMaxPages st2 = Some st3" "self_linked st3 (insert LargeReturned (insert LargeNormal C) \<union> FreeNormal ` {..<kMaxPages} \<union> FreeReturned ` {..<kMaxPages})"
    using init_lists_self_linked [OF st2(2)] by blast
  have hd: "insert LargeReturned (insert LargeNormal C) \<union> FreeNormal ` {..<kMaxPages} \<union> FreeReturned ` {..<kMaxPages} = headers \<union> C"
    by (auto simp: headers_def)
  have O: "lists_ok C st3 {} (\<lambda>_. []) {}" using self_linked_dlls [OF st3(2) [unfolded hd]] C(1) by (simp add: lists_ok_def)
  obtain h where h: "PageHeap_new m sa ta st (\<lambda>_. None) cache = Some h" "heap_meta h = m" "span_allocator h = sa"
    "stacktrace_allocator h = ta" "spans h = st3" "pagemap h = (\<lambda>_. None)" "system_bytes h = 0" "committed_bytes h = 0"
    "free_bytes h = 0" "unmapped_bytes h = 0" "\<not> aggressive_decommit h"
    using c st1(1) st2(1) st3(1) by (simp add: PageHeap_new_def)
  have "heap_inv res Fm C h {} (\<lambda>_. []) {}"
    by (rule heap_invI)
      (use O M in \<open>simp_all add: h geom_def mapped_def heap_pages_def sums_ok_def stat_sum_def coalesced_def clean_def mode_ok_def PageMap3_get_def\<close>)
  moreover have "imbalance h {} = 0" by (simp add: imbalance_def h stat_sum_def)
  ultimately show ?thesis using h st3(2) [unfolded hd] by blast
qed

lemma PageHeap_new_empty:
  assumes "mem_ok res Fm m sa ta {} {}" "PageHeap_new m sa ta st (\<lambda>_. None) cache = Some h"
  shows "heap_inv res Fm {} h {} (\<lambda>_. []) {}" "imbalance h {} = 0" "\<not> aggressive_decommit h" "heap_meta h = m"
    "span_allocator h = sa" "stacktrace_allocator h = ta" "pagemap h = (\<lambda>_. None)" "system_bytes h = 0" "committed_bytes h = 0"
  using PageHeap_new_spec [OF assms(1), of "{}" st cache] assms(2) by (auto simp: self_linked_def)

end
