(* ===== verification/Page_Heap_Run.thy ===== *)
theory Page_Heap_Run
  imports Page_Heap_Split
begin

text \<open>
  The page heap as a state machine. A client calls \<open>New\<close>, \<open>Delete\<close>, \<open>Split\<close>,
  \<open>RegisterSizeClass\<close> and \<open>ReleaseAtLeastNPages\<close> in any order, on spans that it holds. The state
  has the heap and the set of the spans that the client holds. The invariant of the
  earlier theories holds in every reachable state, and no call ends in a failed assertion.
\<close>

section \<open>Steps\<close>

inductive heap_step :: "'os heap_env \<Rightarrow> 'os page_heap \<times> addr set \<Rightarrow> 'os page_heap \<times> addr set \<Rightarrow> bool" for E where
  step_New: "0 < n \<Longrightarrow> n \<le> 2 ^ 29 \<Longrightarrow> New E h n = Some (Ret (Sp a, h')) \<Longrightarrow> heap_step E (h, V) (h', insert a V)"
| step_New_fails: "0 < n \<Longrightarrow> n \<le> 2 ^ 29 \<Longrightarrow> New E h n = Some (Ret (SNull, h')) \<Longrightarrow> heap_step E (h, V) (h', V)"
| step_Delete: "a \<in> V \<Longrightarrow> Delete E h (Sp a) = Some h' \<Longrightarrow> heap_step E (h, V) (h', V - {a})"
| step_Split: "a \<in> V \<Longrightarrow> sizeclass (span_of h (Sp a)) = 0 \<Longrightarrow> 0 < n \<Longrightarrow> n < span_length (span_of h (Sp a)) \<Longrightarrow>
    Split E h (Sp a) n = Some (Ret (Sp b, h')) \<Longrightarrow> heap_step E (h, V) (h', insert b V)"
| step_Register: "a \<in> V \<Longrightarrow> RegisterSizeClass h (Sp a) sc = Some h' \<Longrightarrow> heap_step E (h, V) (h', V)"
| step_Release: "ReleaseAtLeastNPages E h k = Some (r, h') \<Longrightarrow> heap_step E (h, V) (h', V)"

text \<open>The states that calls can reach from a freshly constructed heap, in either mode.\<close>

inductive reachable :: "'os heap_env \<Rightarrow> 'os page_heap \<times> addr set \<Rightarrow> bool" for E where
  reach_start: "PageHeap_new m sa ta st (\<lambda>_. None) cache = Some h \<Longrightarrow> mem_ok res Fm m sa ta {} {} \<Longrightarrow>
    os_contract (os_calls E) res \<Longrightarrow> (\<And>s. res s \<subseteq> {..<2 ^ 42}) \<Longrightarrow>
    reachable E (SetAggressiveDecommit h b, {})"
| reach_step: "reachable E s \<Longrightarrow> heap_step E s s' \<Longrightarrow> reachable E s'"

section \<open>The invariant of the machine\<close>

definition heap_ok :: "'os heap_env \<Rightarrow> ('os \<Rightarrow> nat set) \<Rightarrow> nat set \<Rightarrow> addr set \<Rightarrow> (span_ptr \<Rightarrow> span_ptr list) \<Rightarrow> 'os page_heap \<times> addr set \<Rightarrow> bool" where
  "heap_ok E res Fm U L s = (os_contract (os_calls E) res \<and> (\<forall>x. res x \<subseteq> {..<2 ^ 42}) \<and>
     heap_inv res Fm {} (fst s) U L {} \<and> imbalance (fst s) U = 0 \<and>
     snd s = dom (inuse_view (spans (fst s)) U))"

lemma inuse_dom: "a \<in> dom (inuse_view st U) \<longleftrightarrow> a \<in> U \<and> loc_of st a = IN_USE"
  by (auto simp: inuse_view_def split: if_splits)

lemma inuse_not_listed:
  assumes I: "heap_inv res Fm {} h U L {}" and a: "loc_of (spans h) a = IN_USE"
  shows "\<not> listed (headers \<union> {}) L (Sp a)"
proof
  assume "listed (headers \<union> {}) L (Sp a)"
  then obtain H where H: "H \<in> headers" "Sp a \<in> set (L H)" by (auto simp: listed_def)
  show False using lists_okD(5) [OF heap_invD(3) [OF I] H] a by auto
qed

text \<open>All pages lie in the first 4 TiB, so there are at most \<open>2^29\<close> of them.\<close>

lemma few_pages:
  assumes "heap_inv res Fm C h U L F" "\<And>x. res x \<subseteq> {..<2 ^ 42}"
  shows "card (heap_pages (spans h) U) \<le> 2 ^ 29"
proof -
  let ?P = "heap_pages (spans h) U"
  have b: "page_bytes ?P \<subseteq> {..<2 ^ 42}"
    using mem_ok_res [OF heap_invD(7) [OF assms(1)]] assms(2) by (rule order_trans)
  have "?P \<subseteq> {..<2 ^ 29}"
  proof
    fix p assume "p \<in> ?P"
    then have "p * 2 ^ kPageShift \<in> page_bytes ?P" by (simp add: page_bytes_def)
    then have "p * 2 ^ kPageShift < 2 ^ 42" using b by blast
    then show "p \<in> {..<2 ^ 29}" by (simp add: kPageShift_def)
  qed
  then have "card ?P \<le> card {..<(2::nat) ^ 29}" by (rule card_mono [rotated]) simp
  then show ?thesis by simp
qed

lemma heap_okD:
  assumes "heap_ok E res Fm U L (h, V)"
  shows "os_contract (os_calls E) res" "heap_inv res Fm {} h U L {}" "imbalance h U = 0"
    "V = dom (inuse_view (spans h) U)" "card (heap_pages (spans h) U) \<le> 2 ^ 29"
    "a \<in> V \<Longrightarrow> a \<in> U \<and> loc_of (spans h) a = IN_USE \<and> \<not> listed (headers \<union> {}) L (Sp a) \<and> plen_of (spans h) a < 2 ^ 31"
proof -
  show b: "os_contract (os_calls E) res" "heap_inv res Fm {} h U L {}" "imbalance h U = 0"
    "V = dom (inuse_view (spans h) U)" using assms by (simp_all add: heap_ok_def)
  show c: "card (heap_pages (spans h) U) \<le> 2 ^ 29" using few_pages [OF b(2)] assms by (simp add: heap_ok_def)
  assume "a \<in> V"
  then have a: "a \<in> U" "loc_of (spans h) a = IN_USE" using b(4) inuse_dom by blast+
  have "plen_of (spans h) a < 2 ^ 31" using plen_le_pages [OF heap_invD(1) [OF b(2)] a(1)] c by simp
  then show "a \<in> U \<and> loc_of (spans h) a = IN_USE \<and> \<not> listed (headers \<union> {}) L (Sp a) \<and> plen_of (spans h) a < 2 ^ 31"
    using a inuse_not_listed [OF b(2) a(2)] by blast
qed

lemma heap_okI:
  assumes "heap_ok E res Fm U L s" "heap_inv res Fm {} h U' L' {}" "imbalance h U' = 0"
    "V = dom (inuse_view (spans h) U')"
  shows "heap_ok E res Fm U' L' (h, V)"
  using assms by (simp add: heap_ok_def)

lemma heap_ok_New:
  assumes ok: "heap_ok E res Fm U L (h, V)" and lim: "heap_limit_mb E = 0" and n: "0 < n" "n \<le> 2 ^ 29"
  shows "\<exists>r. New E h n = Some r \<and> alloc_post res Fm {} h U L n r"
proof -
  note D = heap_okD [OF ok]
  have "card (heap_pages (spans h) U) + n + 2 ^ 18 < 2 ^ 31" using D(5) n(2) by simp
  from New_spec [OF D(1-3) lim n(1) this] show ?thesis .
qed

lemma heap_ok_step:
  assumes ok: "heap_ok E res Fm U L s" and lim: "heap_limit_mb E = 0" and st: "heap_step E s s'"
  shows "\<exists>U' L'. heap_ok E res Fm U' L' s'"
  using st
proof (cases rule: heap_step.cases)
  case (step_New n h a h' V)
  note ok = ok [unfolded step_New(1)]
  obtain U' L' d where "heap_inv res Fm {} h' U' L' {}" "imbalance h' U' = 0"
    "inuse_view (spans h') U' = (inuse_view (spans h) U)(a \<mapsto> d)"
    using heap_ok_New [OF ok lim step_New(3,4)] step_New(5) by (auto simp: alloc_post_def)
  then have "heap_ok E res Fm U' L' (h', insert a V)" using heap_okD(4) [OF ok] by (intro heap_okI [OF ok]) simp_all
  then show ?thesis unfolding step_New(2) by blast
next
  case (step_New_fails n h h' V)
  note ok = ok [unfolded step_New_fails(1)]
  obtain U' L' where "heap_inv res Fm {} h' U' L' {}" "imbalance h' U' = 0"
    "inuse_view (spans h') U' = inuse_view (spans h) U"
    using heap_ok_New [OF ok lim step_New_fails(3,4)] step_New_fails(5) by (auto simp: alloc_post_def)
  then have "heap_ok E res Fm U' L' (h', V)" using heap_okD(4) [OF ok] by (intro heap_okI [OF ok]) simp_all
  then show ?thesis unfolding step_New_fails(2) by blast
next
  case (step_Delete a V h h')
  note ok = ok [unfolded step_Delete(1)]
  note D = heap_okD [OF ok] and a = heap_okD(6) [OF ok step_Delete(3)]
  obtain U' L' where "heap_inv res Fm {} h' U' L' {}" "imbalance h' U' = 0"
    "inuse_view (spans h') U' = (inuse_view (spans h) U)(a := None)"
    using Delete_spec [OF D(1-3), of a] a step_Delete(4) by auto
  then have "heap_ok E res Fm U' L' (h', V - {a})" using D(4) by (intro heap_okI [OF ok]) simp_all
  then show ?thesis unfolding step_Delete(2) by blast
next
  case (step_Split a V h n b h')
  note ok = ok [unfolded step_Split(1)]
  note D = heap_okD [OF ok] and a = heap_okD(6) [OF ok step_Split(3)]
  have "class_of (spans h) a = 0" "n < plen_of (spans h) a" using step_Split(4,6) by (simp_all add: span_of_def)
  from Split_spec [OF D(1-3) _ _ this(1) step_Split(5) this(2)] a step_Split(7) obtain z y where
    s: "heap_inv res Fm {} h' (insert b U) L {}" "imbalance h' (insert b U) = 0" "aggressive_decommit h' = aggressive_decommit h"
      "inuse_view (spans h') (insert b U) = (inuse_view (spans h) U)(a \<mapsto> z, b \<mapsto> y)" by auto
  have "insert b V = dom (inuse_view (spans h') (insert b U))" using step_Split(3) D(4) unfolding s(4) by auto
  then have "heap_ok E res Fm (insert b U) L (h', insert b V)" using s by (intro heap_okI [OF ok]) simp_all
  then show ?thesis unfolding step_Split(2) by blast
next
  case (step_Register a V h sc h')
  note ok = ok [unfolded step_Register(1)]
  note D = heap_okD [OF ok] and a = heap_okD(6) [OF ok step_Register(3)]
  obtain z where s: "heap_inv res Fm {} h' U L {}" "imbalance h' U = 0" "aggressive_decommit h' = aggressive_decommit h"
      "inuse_view (spans h') U = (inuse_view (spans h) U)(a \<mapsto> z)"
    using RegisterSizeClass_spec [OF D(2,3), of a sc] a step_Register(4) by auto
  have "V = dom (inuse_view (spans h') U)" using step_Register(3) D(4) unfolding s(4) by auto
  then have "heap_ok E res Fm U L (h', V)" using s by (intro heap_okI [OF ok]) simp_all
  then show ?thesis unfolding step_Register(2) by blast
next
  case (step_Release h k r h' V)
  note ok = ok [unfolded step_Release(1)]
  note D = heap_okD [OF ok]
  obtain U' L' where "heap_inv res Fm {} h' U' L' {}" "imbalance h' U' = 0" "keeps h U L h' U' L'"
    using ReleaseAtLeastNPages_spec [OF D(1-3), of k] step_Release(3) by auto
  then have "heap_ok E res Fm U' L' (h', V)" using D(4) by (intro heap_okI [OF ok]) (simp_all add: keeps_def)
  then show ?thesis unfolding step_Release(2) by blast
qed

lemma heap_ok_steps:
  assumes "(heap_step E)\<^sup>*\<^sup>* s s'" "heap_ok E res Fm U L s" "heap_limit_mb E = 0"
  shows "\<exists>U' L'. heap_ok E res Fm U' L' s'"
  using assms
proof (induction rule: rtranclp_induct)
  case (step s' s'')
  then show ?case using heap_ok_step by blast
qed blast

lemma reachable_ok:
  assumes "reachable E s" "heap_limit_mb E = 0"
  shows "\<exists>res Fm U L. heap_ok E res Fm U L s"
  using assms
proof (induction rule: reachable.induct)
  case (reach_start m sa ta st cache h res Fm b)
  note h = PageHeap_new_empty(1,2) [OF reach_start(2,1)]
  have "mode_ok True (spans h) ({} - {})" by (simp add: mode_ok_def)
  then have "heap_ok E res Fm {} (\<lambda>_. []) (SetAggressiveDecommit h b, {})"
    using reach_start(3,4) SetAggressiveDecommit_spec [OF h(1)] h(2) by (simp add: heap_ok_def inuse_view_def)
  then show ?case by blast
next
  case (reach_step s s')
  then show ?case using heap_ok_step by blast
qed

end
