(* ===== verification/Page_Heap_Properties.thy ===== *)
theory Page_Heap_Properties
  imports Page_Heap_Run
begin

text \<open>
  What the page heap promises, with instances. The instances are two heaps over the kernel
  \<open>bump_os\<close>: the empty heap as it is constructed, and a heap with one span of 8 pages in use.
\<close>

section \<open>Two concrete heaps\<close>

definition ex_env :: "nat heap_env" where
  "ex_env = \<lparr>os_calls = bump_os (2 ^ 42), release_rate = 1, heap_limit_mb = 0, stack_depth = 0\<rparr>"

abbreviation ex_res :: "nat \<Rightarrow> nat set" where "ex_res \<equiv> bump_res (2 ^ 42)"

definition ex_meta :: "nat \<Rightarrow> nat meta" where
  "ex_meta n = \<lparr>sysm = \<lparr>os = n, SystemTaken = 0, system_alloc_inited = True\<rparr>,
     metadata_system_bytes = 0, metadata_chunk_alloc = 0, metadata_chunk_avail = 0\<rparr>"

definition ex_pha :: "int \<Rightarrow> pha" where
  "ex_pha n = \<lparr>free_area = 0, free_avail = 0, free_list = 0, inuse = n, links = (\<lambda>_. 0)\<rparr>"

definition empty_heap :: "nat page_heap" where
  "empty_heap = the (PageHeap_new (ex_meta 0) (ex_pha 0) (ex_pha 0) (\<lambda>_. zero_span) (\<lambda>_. None) (\<lambda>_. 0))"

lemma ex_contract: "os_contract (os_calls ex_env) ex_res"
  using bump_os_contract [of "2 ^ 42"] by (simp add: ex_env_def)

lemma ex_res_bound: "ex_res x \<subseteq> {..<2 ^ 42}"
  by (auto simp: bump_res_def)

lemma ex_limit [simp]: "heap_limit_mb ex_env = 0"
  by (simp add: ex_env_def)

lemma ex_pha_empty: "pha_inv sz (ex_pha 0) {} {}"
  by (simp add: pha_inv_def ex_pha_def objs_ok_def pha_area_def extent_def)

lemma ex_mem_empty: "mem_ok ex_res {} (ex_meta 0) (ex_pha 0) (ex_pha 0) {} {}"
proof -
  have "meta_inv ex_res (ex_meta 0) ({} \<union> {} \<union> page_bytes {})"
    by (simp add: meta_inv_def ex_meta_def sys_inv_def bump_res_def page_bytes_def)
  then show ?thesis unfolding mem_ok_def using ex_pha_empty span_objs_okI [OF ex_pha_empty] by (intro exI [of _ "{}"]) simp
qed

lemma empty_heap_new: "PageHeap_new (ex_meta 0) (ex_pha 0) (ex_pha 0) (\<lambda>_. zero_span) (\<lambda>_. None) (\<lambda>_. 0) = Some empty_heap"
  using PageHeap_new_spec [OF ex_mem_empty, of "{}" "\<lambda>_. zero_span" "\<lambda>_. 0"] by (auto simp: empty_heap_def self_linked_def)

lemma empty_heap_facts:
  "PageHeap_new (ex_meta 0) (ex_pha 0) (ex_pha 0) (\<lambda>_. zero_span) (\<lambda>_. None) (\<lambda>_. 0) = Some empty_heap"
  "heap_inv ex_res {} {} empty_heap {} (\<lambda>_. []) {}" "imbalance empty_heap {} = 0" "\<not> aggressive_decommit empty_heap"
  "stacktrace_allocator empty_heap = ex_pha 0" "pagemap empty_heap = (\<lambda>_. None)"
  "system_bytes empty_heap = 0" "committed_bytes empty_heap = 0"
  using PageHeap_new_empty [OF ex_mem_empty empty_heap_new] empty_heap_new by simp_all

lemma empty_heap_reachable: "reachable ex_env (empty_heap, {})"
  using reach_start [OF empty_heap_facts(1) ex_mem_empty ex_contract ex_res_bound, of False]
    SetAggressiveDecommit_same [of empty_heap False] empty_heap_facts(4) by simp

text \<open>Pages 8 to 15 are one span, whose object is at address \<open>2^17\<close>.\<close>

definition ex_span :: Span where "ex_span = zero_span\<lparr>span_start := 8, span_length := 8\<rparr>"

definition ex_pagemap :: "span_ptr pagemap3" where
  "ex_pagemap = (\<lambda>_. None)(0 := Some ((\<lambda>_. None)(0 := Some ((\<lambda>_. None)(8 := Some (Sp (2 ^ 17)), 15 := Some (Sp (2 ^ 17)))))))"

definition one_heap :: "nat page_heap" where
  "one_heap = empty_heap\<lparr>spans := (spans empty_heap)(Sp (2 ^ 17) := ex_span), pagemap := ex_pagemap,
     heap_meta := ex_meta 3, span_allocator := ex_pha 1, system_bytes := len_bytes 8, committed_bytes := len_bytes 8\<rparr>"

lemma ex_indices: "i1_of BITS64 q = q div 2 ^ 34" "i2_of BITS64 q = q div 2 ^ 17 mod 2 ^ 17" "i3_of BITS64 q = q mod 2 ^ 17"
  by (simp_all add: i1_of_def i2_of_def i3_of_def LEAF_BITS_def INTERIOR_BITS_def)

lemma ex_pagemap_get: "PageMap3_get BITS64 ex_pagemap = (PageMap3_get BITS64 (\<lambda>_. None))(8 := Some (Sp (2 ^ 17)), 8 + 8 - 1 := Some (Sp (2 ^ 17)))"
proof
  fix q :: nat
  show "PageMap3_get BITS64 ex_pagemap q = ((PageMap3_get BITS64 (\<lambda>_. None))(8 := Some (Sp (2 ^ 17)), 8 + 8 - 1 := Some (Sp (2 ^ 17)))) q"
  proof (cases "q < 2 ^ 17")
    case True
    then show ?thesis by (simp add: PageMap3_get_def ex_indices ex_pagemap_def)
  next
    case False
    have "q div 2 ^ 34 \<noteq> 0 \<or> q div 2 ^ 17 mod 2 ^ 17 \<noteq> 0"
    proof (rule ccontr)
      assume "\<not> ?thesis"
      then have "q < 2 ^ 34" "2 ^ 17 dvd q div 2 ^ 17" by (auto simp: div_eq_0_iff)
      moreover have "q div 2 ^ 17 < 2 ^ 17" using \<open>q < 2 ^ 34\<close> by (simp add: div_less_iff_less_mult)
      ultimately have "q div 2 ^ 17 = 0" using dvd_imp_le not_less by blast
      then show False using False by (simp add: div_eq_0_iff)
    qed
    then show ?thesis using False by (auto simp: PageMap3_get_def ex_indices ex_pagemap_def split: option.splits)
  qed
qed

lemma ex_pagemap_ensured: "q \<in> extent 8 8 \<Longrightarrow> PageMap3_ensured BITS64 ex_pagemap q"
  by (auto simp: PageMap3_ensured_def ex_indices ex_pagemap_def)

lemma ex_pages: "page_bytes (extent 8 8) = {2 ^ 16..<2 ^ 17}"
  unfolding page_bytes_extent by (simp add: extent_def kPageShift_def)

lemma ex_mem_one: "mem_ok ex_res {} (ex_meta 3) (ex_pha 1) (ex_pha 0) {2 ^ 17} (extent 8 8)"
proof -
  let ?O = "extent (2 ^ 17) sizeof_Span"
  have r: "ex_res 3 = {2 ^ 16..<2 ^ 18}" by (simp add: bump_res_def)
  have O: "?O = {2 ^ 17..<2 ^ 17 + 48}" by (simp add: extent_def sizeof_Span_def)
  have "meta_inv ex_res (ex_meta 3) (?O \<union> {} \<union> page_bytes (extent 8 8))"
    unfolding meta_inv_def ex_pages O by (auto simp: ex_meta_def sys_inv_def bump_res_def)
  moreover have "span_objs_ok (ex_pha 1) {2 ^ 17} ?O"
    by (rule span_objs_okI) (simp add: pha_inv_def ex_pha_def objs_ok_def pha_area_def extent_def)
  moreover have "(?O \<union> {}) \<inter> page_bytes (extent 8 8) = {}" by (auto simp: ex_pages O)
  ultimately show ?thesis unfolding mem_ok_def using ex_pha_empty by (intro exI [of _ ?O] exI [of _ "{}"]) simp
qed

lemma one_heap_facts:
  "heap_inv ex_res {} {} one_heap {2 ^ 17} (\<lambda>_. []) {}" "imbalance one_heap {2 ^ 17} = 0" "\<not> aggressive_decommit one_heap"
  "spans one_heap (Sp (2 ^ 17)) = ex_span" "heap_pages (spans one_heap) {2 ^ 17} = extent 8 8"
proof -
  note e = empty_heap_facts
  have f: "spans one_heap = (spans empty_heap)(Sp (2 ^ 17) := zero_span\<lparr>span_start := 8, span_length := 8\<rparr>)"
    "pagemap one_heap = ex_pagemap" "heap_meta one_heap = ex_meta 3" "span_allocator one_heap = ex_pha 1"
    "stacktrace_allocator one_heap = stacktrace_allocator empty_heap" "free_bytes one_heap = free_bytes empty_heap"
    "unmapped_bytes one_heap = unmapped_bytes empty_heap" "aggressive_decommit one_heap = aggressive_decommit empty_heap"
    by (simp_all add: one_heap_def ex_span_def)
  have hp: "heap_pages (spans empty_heap) {} = {}" by (simp add: heap_pages_def)
  have M: "mem_ok ex_res {} (ex_meta 3) (ex_pha 1) (stacktrace_allocator empty_heap) (insert (2 ^ 17) {}) (heap_pages (spans empty_heap) {} \<union> extent 8 8)"
    using ex_mem_one by (simp add: e(5) hp)
  have ens: "PageMap3_ensured BITS64 ex_pagemap q" if "q \<in> heap_pages (spans empty_heap) {} \<union> extent 8 8" for q
    using that ex_pagemap_ensured by (simp add: hp del: mem_extent)
  have get: "PageMap3_get BITS64 ex_pagemap = (PageMap3_get BITS64 (pagemap empty_heap))(8 := Some (Sp (2 ^ 17)), 8 + 8 - 1 := Some (Sp (2 ^ 17)))"
    unfolding e(6) by (rule ex_pagemap_get)
  have ap: "extent 8 8 \<inter> heap_pages (spans empty_heap) {} = {}" by (simp add: hp)
  have pos: "(0::nat) < 8" "(8::nat) + 8 \<le> 2 ^ 34" by simp_all
  note N = heap_inv_new_span [OF e(2) _ M pos(1) pos(1) pos(2) ap get ens f]
  show "heap_inv ex_res {} {} one_heap {2 ^ 17} (\<lambda>_. []) {}" using N(1) by simp
  show "heap_pages (spans one_heap) {2 ^ 17} = extent 8 8" using N(3) hp by simp
  have "stat_sum (spans one_heap) {2 ^ 17} ON_RETURNED_FREELIST = 0" using N(5) by (simp add: stat_sum_def)
  then show "imbalance one_heap {2 ^ 17} = 0" by (simp add: imbalance_def one_heap_def)
  show "\<not> aggressive_decommit one_heap" using e(4) by (simp add: one_heap_def)
  show "spans one_heap (Sp (2 ^ 17)) = ex_span" by (simp add: one_heap_def)
qed

lemma one_heap_small: "card (heap_pages (spans one_heap) {2 ^ 17}) = 8"
  unfolding one_heap_facts(5) by simp

lemma one_heap_span:
  "(2 ^ 17 :: nat) \<in> {2 ^ 17}" "loc_of (spans one_heap) (2 ^ 17) = IN_USE" "class_of (spans one_heap) (2 ^ 17) = 0"
  "plen_of (spans one_heap) (2 ^ 17) = 8" "start_of (spans one_heap) (2 ^ 17) = 8"
  "\<not> listed (headers \<union> {}) (\<lambda>_. []) (Sp (2 ^ 17))"
  unfolding one_heap_facts(4) by (simp_all add: ex_span_def listed_def)

text \<open>The heap with one span in use is a consistent state of the machine.\<close>

lemma one_heap_ok: "heap_ok ex_env ex_res {} {2 ^ 17} (\<lambda>_. []) (one_heap, {2 ^ 17})"
proof -
  have "{2 ^ 17 :: nat} = dom (inuse_view (spans one_heap) {2 ^ 17})"
    by (rule set_eqI, unfold inuse_dom) (use one_heap_span(2) in auto)
  then show ?thesis unfolding heap_ok_def using ex_contract ex_res_bound one_heap_facts(1-3) by simp
qed

section \<open>Every reachable state\<close>



text \<open>C18: After any sequence of calls from a consistent heap the spans that the client holds do not
  share a page, and the page map gives a held span for its first and its last page (and, once its
  size class is registered, for every page of it): this is what \<open>free\<close> relies on when it looks up a
  pointer.\<close>

theorem held_spans_disjoint:
  assumes ok: "heap_ok E res Fm U0 L0 s" and lim: "heap_limit_mb E = 0" and st: "(heap_step E)\<^sup>*\<^sup>* s (h, V)"
    and ab: "a \<in> V" "b \<in> V"
  shows "(a \<noteq> b \<longrightarrow> extent (span_start (span_of h (Sp a))) (span_length (span_of h (Sp a))) \<inter>
        extent (span_start (span_of h (Sp b))) (span_length (span_of h (Sp b))) = {}) \<and>
    GetDescriptor h (span_start (span_of h (Sp a))) = Sp a \<and>
    GetDescriptor h (span_start (span_of h (Sp a)) + span_length (span_of h (Sp a)) - 1) = Sp a \<and>
    (sizeclass (span_of h (Sp a)) \<noteq> 0 \<longrightarrow>
      (\<forall>p\<in>extent (span_start (span_of h (Sp a))) (span_length (span_of h (Sp a))). GetDescriptor h p = Sp a))"
proof -
  obtain U L where ok: "heap_ok E res Fm U L (h, V)" using heap_ok_steps [OF st ok lim] by blast
  have U: "a \<in> U" "b \<in> U" using heap_okD(6) [OF ok] ab by blast+
  note I = heap_invD [OF heap_okD(2) [OF ok]]
  have "a \<noteq> b \<longrightarrow> ext (spans h) a \<inter> ext (spans h) b = {}" using I(1) U by (simp add: geom_def)
  then show ?thesis
    using mappedD [OF I(2) U(1)] by (simp add: span_of_def ext_def GetDescriptor_def)
qed

theorem held_spans_disjoint_witness:
  "GetDescriptor one_heap 8 = Sp (2 ^ 17) \<and> GetDescriptor one_heap 15 = Sp (2 ^ 17)"
proof -
  have g: "span_start (span_of one_heap (Sp (2 ^ 17))) = 8" "span_length (span_of one_heap (Sp (2 ^ 17))) = 8"
    by (simp_all add: span_of_def one_heap_def ex_span_def)
  from held_spans_disjoint [OF one_heap_ok ex_limit rtranclp.rtrancl_refl, of "2 ^ 17" "2 ^ 17", unfolded g] show ?thesis by simp
qed



text \<open>The spans on the free lists, read off the links.\<close>

definition free_spans :: "'os page_heap \<Rightarrow> span_ptr set" where
  "free_spans h = {s. \<exists>H\<in>headers. \<exists>xs. dll (spans h) H xs \<and> s \<in> set xs}"

lemma dseg_unique: "dseg st a xs h \<Longrightarrow> dseg st a ys h \<Longrightarrow> h \<notin> set xs \<Longrightarrow> h \<notin> set ys \<Longrightarrow> xs = ys"
proof (induction xs arbitrary: a ys)
  case Nil
  then show ?case by (cases ys) auto
next
  case (Cons x xs)
  then show ?case by (cases ys) auto
qed

lemma free_spans_live:
  assumes "heap_inv res Fm C h U L {}" "s \<in> free_spans h"
  shows "\<exists>a\<in>U. s = Sp a \<and> loc_of (spans h) a \<noteq> IN_USE"
proof -
  obtain H xs where H: "H \<in> headers" "dll (spans h) H xs" "s \<in> set xs" using assms(2) by (auto simp: free_spans_def)
  note O = heap_invD(3) [OF assms(1)]
  have "dll (spans h) H (L H)" using dlls_dll [OF lists_okD(3) [OF O]] H(1) by blast
  then have "xs = L H" using dseg_unique [of "spans h" H xs H "L H"] H(2) by (auto simp: dll_def)
  then show ?thesis using lists_okD(5) [OF O H(1)] H(3) by auto
qed



section \<open>Single operations\<close>

text \<open>C16: \<open>New\<close> returns. Either it gives a span of exactly \<open>n\<close> pages that was not in use, adds just that
  span to the spans in use and leaves the others as they are; or it gives null and changes no span in
  use; or metadata memory has run out (the deliberate crash). The heap stays consistent, its
  statistics balance, no central list is touched, and no page is lost. \<open>C\<close> are the lists of the
  central caches.\<close>

theorem New_correct:
  assumes "os_contract (os_calls E) res" and "heap_inv res Fm C h U L {}" and "imbalance h U = 0"
    and "heap_limit_mb E = 0" and "0 < n"
    and "card (heap_pages (spans h) U) + n + 2 ^ 18 < 2 ^ 31"
  shows "\<exists>r. New E h n = Some r \<and> (\<forall>s h'. r = Ret (s, h') \<longrightarrow> (\<exists>U' L'.
     heap_inv res Fm C h' U' L' {} \<and> imbalance h' U' = 0 \<and> aggressive_decommit h' = aggressive_decommit h \<and>
     (\<forall>x. x \<notin> headers \<longrightarrow> L' x = L x) \<and> heap_pages (spans h) U \<subseteq> heap_pages (spans h') U' \<and>
     (s = SNull \<and> inuse_view (spans h') U' = inuse_view (spans h) U \<or>
      (\<exists>a d. s = Sp a \<and> inuse_view (spans h) U a = None \<and>
        inuse_view (spans h') U' = (inuse_view (spans h) U)(a \<mapsto> d) \<and> span_length d = n \<and> sizeclass d = 0 \<and>
        \<not> listed (headers \<union> C) L' (Sp a)))))"
  using New_spec [OF assms] unfolding alloc_post_def .

theorem New_correct_witness: "\<exists>r. New ex_env one_heap 20 = Some r"
  using New_correct [OF ex_contract one_heap_facts(1,2) ex_limit, of 20] one_heap_small by auto

text \<open>C17: \<open>Delete\<close> of a span in use that is on no list returns; just this span is no longer in use, no
  page is gained or lost, and the heap, with the neighbours merged and some memory possibly released,
  is consistent again.\<close>

theorem Delete_correct:
  assumes "os_contract (os_calls E) res" and "heap_inv res Fm C h U L {}" and "imbalance h U = 0"
    and "a \<in> U" "loc_of (spans h) a = IN_USE" "\<not> listed (headers \<union> C) L (Sp a)"
  shows "\<exists>h' U' L'. Delete E h (Sp a) = Some h' \<and> heap_inv res Fm C h' U' L' {} \<and> imbalance h' U' = 0 \<and>
    inuse_view (spans h') U' = (inuse_view (spans h) U)(a := None) \<and>
    heap_pages (spans h') U' = heap_pages (spans h) U \<and> (\<forall>x. x \<notin> headers \<longrightarrow> L' x = L x) \<and>
    (\<exists>b\<in>U'. loc_of (spans h') b \<noteq> IN_USE \<and> ext (spans h) a \<subseteq> ext (spans h') b)"
  using Delete_spec [OF assms] by metis

theorem Delete_correct_witness: "\<exists>h'. Delete ex_env one_heap (Sp (2 ^ 17)) = Some h'"
  using Delete_correct [OF ex_contract one_heap_facts(1,2) one_heap_span(1,2,6)] by blast

text \<open>C23: \<open>ReleaseAtLeastNPages\<close> terminates and returns the number of pages it gave back to the system:
  the pages of normal free spans go down by just that number, and it is at least the number asked for
  unless no normal free span is left. Spans in use are not touched.\<close>

theorem ReleaseAtLeastNPages_correct:
  assumes "os_contract (os_calls E) res" and "heap_inv res Fm C h U L {}" and "imbalance h U = 0"
  shows "\<exists>r h' U' L'. ReleaseAtLeastNPages E h num = Some (r, h') \<and> heap_inv res Fm C h' U' L' {} \<and>
      imbalance h' U' = 0 \<and> inuse_view (spans h') U' = inuse_view (spans h) U \<and>
      heap_pages (spans h') U' = heap_pages (spans h) U \<and>
      r + stat_sum (spans h') U' ON_NORMAL_FREELIST = stat_sum (spans h) U ON_NORMAL_FREELIST \<and>
      (num \<le> r \<or> stat_sum (spans h') U' ON_NORMAL_FREELIST = 0)"
  using ReleaseAtLeastNPages_spec [OF assms, of num] unfolding keeps_def by metis

theorem ReleaseAtLeastNPages_correct_witness: "\<exists>r h'. ReleaseAtLeastNPages ex_env one_heap 5 = Some (r, h')"
  using ReleaseAtLeastNPages_correct [OF ex_contract one_heap_facts(1,2), of 5] by blast





text \<open>C24: \<open>Split\<close> of a span in use without size class shortens it to \<open>n\<close> pages and makes the rest of its
  pages a new span in use; both are in the page map and nothing else changes.\<close>

theorem Split_correct:
  assumes "os_contract (os_calls E) res" and "heap_inv res Fm C h U L {}" and "imbalance h U = 0"
    and "a \<in> U" "loc_of (spans h) a = IN_USE" "class_of (spans h) a = 0"
    and "0 < n" "n < plen_of (spans h) a" "plen_of (spans h) a < 2 ^ 31"
  shows "\<exists>r. Split E h (Sp a) n = Some r \<and> (\<forall>s h'. r = Ret (s, h') \<longrightarrow>
    (\<exists>b. s = Sp b \<and> b \<notin> U \<and> heap_inv res Fm C h' (insert b U) L {} \<and> imbalance h' (insert b U) = 0 \<and>
      heap_pages (spans h') (insert b U) = heap_pages (spans h) U \<and>
      inuse_view (spans h') (insert b U) = (inuse_view (spans h) U)
        (a \<mapsto> (span_data (spans h (Sp a)))\<lparr>span_length := n\<rparr>,
         b \<mapsto> zero_span\<lparr>span_start := start_of (spans h) a + n, span_length := plen_of (spans h) a - n\<rparr>)))"
  using Split_spec [OF assms] by metis

theorem Split_correct_witness: "\<exists>r. Split ex_env one_heap (Sp (2 ^ 17)) 3 = Some r"
  using Split_correct [OF ex_contract one_heap_facts(1,2) one_heap_span(1-3), of 3] one_heap_span(4) by auto

text \<open>After \<open>RegisterSizeClass\<close> the page map gives the span for every page of it, and is unchanged
  elsewhere; the span has the size class (mod 256, the field is 8 bits wide).\<close>

theorem RegisterSizeClass_correct:
  assumes "heap_inv res Fm C h U L {}" and "imbalance h U = 0" and "a \<in> U" "loc_of (spans h) a = IN_USE"
  shows "\<exists>h'. RegisterSizeClass h (Sp a) sc = Some h' \<and> heap_inv res Fm C h' U L {} \<and>
    inuse_view (spans h') U = (inuse_view (spans h) U)(a \<mapsto> (span_data (spans h (Sp a)))\<lparr>sizeclass := sc mod 2 ^ 8\<rparr>) \<and>
    (\<forall>q. GetDescriptor h' q = (if q \<in> ext (spans h) a then Sp a else GetDescriptor h q))"
  using RegisterSizeClass_spec [OF assms, of sc] by metis

theorem RegisterSizeClass_correct_witness:
  "\<exists>h'. RegisterSizeClass one_heap (Sp (2 ^ 17)) 7 = Some h' \<and> GetDescriptor h' 12 = Sp (2 ^ 17)"
proof -
  have "(12::nat) \<in> ext (spans one_heap) (2 ^ 17)" unfolding ext_def one_heap_span(4,5) by simp
  then show ?thesis
    using RegisterSizeClass_correct [OF one_heap_facts(1,2) one_heap_span(1,2), of 7] by metis
qed

end
