(* ===== verification/Memory_Properties.thy ===== *)
theory Memory_Properties
  imports Page_Heap_Properties
begin

text \<open>
  What the parts below the page heap promise: singly and doubly linked lists, the page maps, the
  metadata allocator with the object allocators on top of it, and the packed cache.
\<close>

section \<open>Linked lists\<close>

text \<open>\<open>SLL_PopRange\<close> of the first objects of a free list cuts it in two null-terminated lists, and
  \<open>SLL_PushRange\<close> of the piece that was cut off restores the memory to what it was.\<close>

theorem SLL_PopRange_PushRange:
  assumes l: "sll m p (xs @ ys)" and ne: "xs \<noteq> []"
  shows "\<exists>m' q. SLL_PopRange m p (length xs) = Some (m', q, hd xs, last xs) \<and> sll m' (hd xs) xs \<and> sll m' q ys \<and>
    SLL_PushRange m' q (hd xs) (last xs) = Some (m, p)"
proof -
  from SLL_PopRange_sll [OF l refl ne] obtain m' q where
    r: "SLL_PopRange m p (length xs) = Some (m', q, hd xs, last xs)" "sll m' (hd xs) xs" "sll m' q ys"
      "\<forall>a. a \<noteq> last xs \<longrightarrow> m' a = m a" by blast
  obtain us u where xs: "xs = us @ [u]" using ne by (cases xs rule: rev_cases) auto
  have p: "p = hd xs" "p \<noteq> 0" and u: "u \<noteq> 0" "sll m (m u) ys" using l xs by (cases us; auto simp: slseg_append)+
  have "m u = q" using u(2) r(3) by (cases ys) auto
  then have "m'(last xs := q) = m" using r(4) xs by auto
  then have "SLL_PushRange m' q (hd xs) (last xs) = Some (m, p)"
    using p u(1) xs by (simp add: SLL_PushRange_def SLL_SetNext_def)
  with r show ?thesis by blast
qed

definition ex_links :: mem where "ex_links = (\<lambda>_. 0)(8 := 24, 24 := 16, 16 := 40)"

theorem SLL_PopRange_PushRange_witness:
  "\<exists>m' q. SLL_PopRange ex_links 8 2 = Some (m', q, 8, 24) \<and> SLL_PushRange m' q 8 24 = Some (ex_links, 8)"
  using SLL_PopRange_PushRange [of ex_links 8 "[8, 24]" "[16, 40]"] by (auto simp: ex_links_def numeral_2_eq_2)

text \<open>In a family of circular span lists \<open>DLL_Prepend\<close> of an unlinked span succeeds and puts it in
  front of just one of them; \<open>DLL_Remove\<close> then succeeds, restores every list and leaves the span
  unlinked. No other field of a span changes.\<close>

theorem DLL_Prepend_Remove:
  assumes D: "dlls st H L" and h: "h \<in> H" and s: "s \<noteq> SNull" "s \<notin> H" "loose st s"
  shows "\<exists>st' st''. DLL_Prepend st h s = Some st' \<and> dlls st' H (L(h := s # L h)) \<and>
    DLL_Remove st' s = Some st'' \<and> dlls st'' H L \<and> loose st'' s \<and> DLL_Length st'' h = Some (length (L h)) \<and>
    (\<forall>x. span_data (st' x) = span_data (st x) \<and> span_data (st'' x) = span_data (st x))"
proof -
  obtain st' where st': "DLL_Prepend st h s = Some st'" "dlls st' H (L(h := s # L h))"
    "\<forall>x. span_data (st' x) = span_data (st x)" using DLL_Prepend_dlls [OF D h s] by blast
  obtain st'' where st'': "DLL_Remove st' s = Some st''"
    "dlls st'' H ((L(h := s # L h))(h := removeAll s ((L(h := s # L h)) h)))"
    "\<forall>x. span_data (st'' x) = span_data (st' x)" "loose st'' s"
    using DLL_Remove_dlls [OF st'(2) h, of s] by auto
  have "removeAll s (L h) = L h" using dlls_not_loose [OF D h s(3)] by simp
  then have "dlls st'' H L" using st''(2) by simp
  moreover from this have "DLL_Length st'' h = Some (length (L h))" using dlls_dll [OF _ h] DLL_Length_dll by blast
  ultimately show ?thesis using st' st'' by auto
qed

definition ex_store :: store where
  "ex_store = (\<lambda>x. if x = Sp 96 then zero_span else zero_span\<lparr>span_next := x, span_prev := x\<rparr>)"

theorem DLL_Prepend_Remove_witness:
  "\<exists>st' st''. DLL_Prepend ex_store (Sp 48) (Sp 96) = Some st' \<and> dll st' (Sp 48) [Sp 96] \<and>
    DLL_Remove st' (Sp 96) = Some st'' \<and> DLL_Length st'' (Sp 48) = Some 0"
proof -
  have "dlls ex_store {Sp 48} (\<lambda>_. [])" "loose ex_store (Sp 96)"
    by (simp_all add: dlls_def dll_def loose_def ex_store_def zero_span_def)
  from DLL_Prepend_Remove [OF this(1) _ _ _ this(2), of "Sp 48"] show ?thesis by (auto simp: dlls_def)
qed

section \<open>Page maps\<close>

text \<open>C27: The three-level page map of 64-bit processes. \<open>Ensure\<close> terminates and changes no entry,
  whether or not it runs out of node memory; when it succeeds every key of its range can be set
  without a null dereference, and \<open>get\<close> then sees just that update.\<close>

theorem PageMap3_Ensure_set_get:
  assumes "0 < n" "x + n \<le> 2 ^ 64"
  shows "\<exists>r m' a'. PageMap3_Ensure BITS64 al m a x n = (r, m', a') \<and> PageMap3_get BITS64 m' = PageMap3_get BITS64 m \<and>
    (r \<longrightarrow> (\<forall>k v. x \<le> k \<and> k < x + n \<longrightarrow>
       (\<exists>m''. PageMap3_set BITS64 m' k v = Some m'' \<and> PageMap3_get BITS64 m'' = (PageMap3_get BITS64 m)(k := v))))"
proof -
  obtain r m' a' where e: "PageMap3_Ensure BITS64 al m a x n = (r, m', a')" by (cases "PageMap3_Ensure BITS64 al m a x n") auto
  note g = pm3.get_ensure [OF e]
  have "\<exists>m''. PageMap3_set BITS64 m' k v = Some m'' \<and> PageMap3_get BITS64 m'' = (PageMap3_get BITS64 m)(k := v)"
    if r and "x \<le> k" "k < x + n" for k v
  proof -
    have k: "PageMap3_ensured BITS64 m' k" using pm3.ensure_true [of al m a x n m' a' k] e that assms by simp
    then obtain m'' where "PageMap3_set BITS64 m' k v = Some m''" using pm3.put_ok by blast
    with pm3.get_put [OF k this] g show ?thesis by simp
  qed
  with e g show ?thesis by blast
qed

theorem PageMap3_Ensure_set_get_witness:
  "PageMap3_get BITS64 (fst (snd (PageMap3_Ensure BITS64 (\<lambda>n a. (a < 3, a + 1)) (\<lambda>_. None :: span_ptr node option) (0::nat) 7 2))) =
     PageMap3_get BITS64 (\<lambda>_. None)"
  using PageMap3_Ensure_set_get [of 2 7 "\<lambda>n a. (a < 3, a + 1)" "\<lambda>_. None :: span_ptr node option" "0::nat"] by auto

text \<open>C28: \<open>Next\<close> of the three-level map terminates for every key and finds the first entry at or after
  it: all keys before the one it finds are empty, and it returns null just if none is left.\<close>

theorem PageMap3_Next_correct:
  "case PageMap3_Next BITS64 m k of
     Some w \<Rightarrow> \<exists>j\<ge>k. PageMap3_get BITS64 m j = Some w \<and> (\<forall>i. k \<le> i \<and> i < j \<longrightarrow> PageMap3_get BITS64 m i = None)
   | None \<Rightarrow> \<forall>j\<ge>k. PageMap3_get BITS64 m j = None"
  using PageMap3_Next_first [OF BITS64_ok, of m k] unfolding first_from_def .

theorem PageMap3_Next_correct_witness:
  "\<exists>j. 9 \<le> j \<and> PageMap3_Next BITS64 ex_pagemap 9 = PageMap3_get BITS64 ex_pagemap j \<and>
    PageMap3_get BITS64 ex_pagemap j = Some (Sp (2 ^ 17))"
proof -
  have "PageMap3_get BITS64 ex_pagemap 15 = Some (Sp (2 ^ 17))" by (simp add: ex_pagemap_get)
  then have "PageMap3_Next BITS64 ex_pagemap 9 \<noteq> None" using pm3.nxt_None [of ex_pagemap 9 15] by auto
  then obtain w where w: "PageMap3_Next BITS64 ex_pagemap 9 = Some w" by auto
  from PageMap3_Next_correct [where m = ex_pagemap and k = 9] w obtain j where
    j: "j \<ge> 9" "PageMap3_get BITS64 ex_pagemap j = Some w" "\<forall>i. 9 \<le> i \<and> i < j \<longrightarrow> PageMap3_get BITS64 ex_pagemap i = None" by auto
  have "w = Sp (2 ^ 17)" using j(1,2) by (simp add: ex_pagemap_get split: if_splits) (simp add: PageMap3_get_def split: if_splits)
  with j w show ?thesis by auto
qed

text \<open>C29: The two-level page map of 32-bit processes and the flat one have the same behaviour: after
  storing to keys that they accept, \<open>Next\<close> finds the same entry in both.\<close>

theorem PageMap2_flat:
  assumes k: "k < 2 ^ BITS32" and e: "PageMap2_ensured BITS32 m k"
    and g: "PageMap2_get BITS32 m = PageMap1_get BITS32 f"
  shows "\<exists>m' f'. PageMap2_set BITS32 m k v = Some m' \<and> PageMap1_set BITS32 f k v = Some f' \<and>
    PageMap2_get BITS32 m' = PageMap1_get BITS32 f' \<and> (\<forall>j. PageMap2_Next BITS32 m' j = PageMap1_Next BITS32 f' j)"
proof -
  obtain m' where m': "PageMap2_set BITS32 m k v = Some m'" using pm2.put_ok [OF e] by blast
  obtain f' where f': "PageMap1_set BITS32 f k v = Some f'" using pm1.put_ok [OF k] by blast
  have eq: "PageMap2_get BITS32 m' = PageMap1_get BITS32 f'"
    using pm2.get_put [OF e m'] pm1.get_put [OF k f'] g by simp
  have "PageMap2_Next BITS32 m' j = PageMap1_Next BITS32 f' j" for j
  proof (cases "PageMap2_Next BITS32 m' j")
    case None
    then show ?thesis
      using pm2.nxt_None [OF None] pm1.nxt_Some [of BITS32 f' j] eq
      by (metis not_None_eq)
  next
    case (Some w)
    then obtain i where i: "i \<ge> j" "PageMap1_get BITS32 f' i = Some w" "\<forall>l. j \<le> l \<and> l < i \<longrightarrow> PageMap1_get BITS32 f' l = None"
      using pm2.nxt_Some [OF Some] eq by metis
    have "PageMap1_Next BITS32 f' j \<noteq> None" using pm1.nxt_None i(1,2) by fastforce
    then obtain w' where w': "PageMap1_Next BITS32 f' j = Some w'" by blast
    then obtain i' where i': "i' \<ge> j" "PageMap1_get BITS32 f' i' = Some w'" "\<forall>l. j \<le> l \<and> l < i' \<longrightarrow> PageMap1_get BITS32 f' l = None"
      using pm1.nxt_Some by metis
    have "i = i'" using i i' by (metis linorder_neqE_nat option.distinct(1))
    with i i' w' Some show ?thesis by simp
  qed
  with m' f' eq show ?thesis by blast
qed

definition ex_pagemap2 :: "nat pagemap2" where "ex_pagemap2 = (\<lambda>_. None)(0 := Some (\<lambda>_. None))"

theorem PageMap2_flat_witness:
  "\<exists>m' f'. PageMap2_set BITS32 ex_pagemap2 5 (Some 1) = Some m' \<and> PageMap1_set BITS32 (\<lambda>_. None) 5 (Some 1) = Some f' \<and>
    PageMap2_Next BITS32 m' 2 = PageMap1_Next BITS32 f' 2"
proof -
  have "PageMap2_ensured BITS32 ex_pagemap2 5" by (simp add: PageMap2_ensured_def ex_pagemap2_def)
  moreover have "PageMap2_get BITS32 ex_pagemap2 = PageMap1_get BITS32 (\<lambda>_. None)"
    by (rule ext) (auto simp: PageMap2_get_def PageMap1_get_def ex_pagemap2_def split: option.splits)
  ultimately show ?thesis using PageMap2_flat [of 5 ex_pagemap2 "\<lambda>_. None" "Some 1"] by auto
qed

text \<open>C39: In the flat map \<open>Ensure\<close> is exact for a range that starts inside the array or right after it,
  but its unsigned subtraction accepts every range of up to \<open>LENGTH\<close> keys that starts beyond that,
  where a store is out of bounds.\<close>

theorem PageMap1_Ensure_wraps:
  assumes "b < 63" "x < 2 ^ 64" "n \<le> 2 ^ b"
  shows "PageMap1_Ensure b x n = (x + n \<le> 2 ^ b \<or> 2 ^ b < x) \<and> (2 ^ b < x \<longrightarrow> PageMap1_set b m x v = None)"
  using assms PageMap1_Ensure_in_range [of b x n] PageMap1_Ensure_out_of_range [of b x n]
  by (cases "x \<le> 2 ^ b") (auto simp: PageMap1_set_def)

theorem PageMap1_Ensure_wraps_witness:
  "PageMap1_Ensure 19 (2 ^ 20) 1 \<and> PageMap1_set 19 (\<lambda>_. None) (2 ^ 20) (Some (0::nat)) = None"
  using PageMap1_Ensure_wraps [of 19 "2 ^ 20" 1 "\<lambda>_. None" "Some 0"] by simp

section \<open>Metadata\<close>



text \<open>C31: For every sequence of allocations and deallocations the objects that \<open>PageHeapAllocator\<close> has
  handed out and not got back do not overlap each other or memory in use elsewhere, and no call ends
  in a failed assertion; \<open>serve\<close> runs the requests, ignoring a deallocation of what is not in use.\<close>

theorem PageHeapAllocator_objects_apart:
  assumes ok: "pha_ok E res sz s U F"
  shows "\<exists>r. object_allocator.serve (PageHeapAllocator_New E sz) PageHeapAllocator_Delete rs s U = Some r \<and>
    (\<forall>s' U'. r = Ret (s', U') \<longrightarrow> pha_ok E res sz s' U' F \<and>
      (\<forall>p\<in>U'. extent p sz \<inter> F = {} \<and> (\<forall>q\<in>U'. p \<noteq> q \<longrightarrow> extent p sz \<inter> extent q sz = {})))"
proof -
  obtain r where r: "pha.serve E sz rs s U = Some r" "\<forall>s' U'. r = Ret (s', U') \<longrightarrow> pha_ok E res sz s' U' F"
    using pha.serve_ok [OF ok, of rs] by blast
  have "extent p sz \<inter> F = {} \<and> (\<forall>q\<in>U'. p \<noteq> q \<longrightarrow> extent p sz \<inter> extent q sz = {})"
    if "r = Ret (s', U')" "p \<in> U'" for s' U' p
    using r(2) that pha.apart [of E res sz s' U' F p] pha.apart_frame [of E res sz s' U' F p] by blast
  with r(2) have "\<forall>s' U'. r = Ret (s', U') \<longrightarrow> pha_ok E res sz s' U' F \<and>
      (\<forall>p\<in>U'. extent p sz \<inter> F = {} \<and> (\<forall>q\<in>U'. p \<noteq> q \<longrightarrow> extent p sz \<inter> extent q sz = {}))" by simp
  with r(1) show ?thesis by (intro exI [of _ r] conjI)
qed

theorem PageHeapAllocator_objects_apart_witness:
  "\<exists>r. object_allocator.serve (PageHeapAllocator_New (bump_os (2 ^ 42)) 48) PageHeapAllocator_Delete
     [Alloc, Alloc, Free 65536, Alloc] (ex_meta 0, ex_pha 0) {} = Some r"
proof -
  have "meta_inv ex_res (ex_meta 0) ({} \<union> {})" by (simp add: meta_inv_def ex_meta_def sys_inv_def bump_res_def)
  then have "pha_ok (bump_os (2 ^ 42)) ex_res 48 (ex_meta 0, ex_pha 0) {} {}"
    unfolding pha_ok_def using bump_os_contract [of "2 ^ 42"] ex_pha_empty
    by (intro conjI exI [of _ "{}"]) (simp_all add: kAllocIncrement_def)
  from PageHeapAllocator_objects_apart [OF this] show ?thesis by (rule ex_forward) (erule conjunct1)
qed

section \<open>The packed cache\<close>

text \<open>C30: After any sequence of stores a lookup that hits gives the value that was stored last under its
  key, or what the cache gave before if there was none: eviction loses entries, it never confuses
  keys. This holds for every admissible size of keys and entries, so for the 64-bit and the 32-bit
  cache.\<close>

theorem PackedCache_hit_is_last_put:
  assumes S: "sizes_ok kb TYPE('k :: len) TYPE('t :: len)"
    and p: "lossy_cache.puts (Cache_Put kb) (c :: ('k, 't) packed_cache) kvs = Some c'"
    and k: "key_ok kb k" "Cache_Has kb c' k = Some True"
  shows "Cache_GetOrDefault kb c' k d =
    (case map_of (rev kvs) k of Some v \<Rightarrow> Some v | None \<Rightarrow> Cache_GetOrDefault kb c k d)"
  by (rule lossy_cache.hit_is_last_put [OF cache_laws [OF S], OF p k])

theorem PackedCache_hit_is_last_put_witness:
  "\<exists>c'. lossy_cache.puts (Cache_Put 51) (\<lambda>_. 0 :: 64 word) [(7 :: 64 word, 3)] = Some c' \<and> Cache_GetOrDefault 51 c' 7 0 = Some 3"
proof -
  have "key_ok 51 (7 :: 64 word)" "val_ok (3 :: 64 word)"
    by (simp_all add: key_ok_def val_ok_def kKeyMask_def kValueMask_def N_ONES_def kValuebits_def)
  then obtain c' where c': "Cache_Put 51 (\<lambda>_. 0 :: 64 word) (7 :: 64 word) 3 = Some c'" using cache64.Put_ok by blast
  have "lossy_cache.puts (Cache_Put 51) (\<lambda>_. 0 :: 64 word) [(7 :: 64 word, 3)] = Some c'"
    using c' by (simp add: lossy_cache.puts.simps [OF cache_laws [OF sizes_ok_64]])
  moreover from PackedCache_hit_is_last_put [OF sizes_ok_64 this \<open>key_ok 51 7\<close>] cache64.Get_put [OF c']
  have "Cache_GetOrDefault 51 c' 7 0 = Some 3" by simp
  ultimately show ?thesis by blast
qed

end
