(* ===== verification/Central_Free_List.thy ===== *)
theory Central_Free_List
  imports Page_Heap
begin

text \<open>
  The central free lists (\<open>central_freelist.h\<close>, \<open>central_freelist.cc\<close>): for every size class the
  spans that are cut in objects of that class, and the transfer cache of whole batches. All lists
  share one page heap, one size map and the memory of the objects, so the state is one record; the
  \<open>Span\<close> headers \<open>empty_\<close> and \<open>nonempty_\<close> of class \<open>c\<close> are the list headers \<open>CentralEmpty c\<close> and
  \<open>CentralNonempty c\<close> in the store of spans. Each operation is one step: the locks, and the places
  where the code drops one for a while, are left out.
\<close>

section \<open>State\<close>

definition kMaxNumTransferEntries :: int where "kMaxNumTransferEntries = 64"

record central_list =
  size_class :: nat
  num_spans :: "64 word"
  counter :: "64 word"
  tc_slots :: "nat \<Rightarrow> addr \<times> addr"
  used_slots :: int
  cache_size :: int
  max_cache_size :: int

record 'os central =
  pageheap :: "'os page_heap"
  object_mem :: mem
  sizemap :: SizeMap
  central_cache :: "nat \<Rightarrow> central_list"
  race_counter :: int

definition upd_list :: "'os central \<Rightarrow> nat \<Rightarrow> (central_list \<Rightarrow> central_list) \<Rightarrow> 'os central" where
  "upd_list S c f = S\<lparr>central_cache := (central_cache S)(c := f (central_cache S c))\<rparr>"

definition heap_op :: "('os page_heap \<Rightarrow> 'os page_heap option) \<Rightarrow> 'os central \<Rightarrow> 'os central option" where
  "heap_op f S = do { h \<leftarrow> f (pageheap S); Some (S\<lparr>pageheap := h\<rparr>) }"

text \<open>\<open>min\<close> and \<open>max\<close> of \<open>int32_t\<close>; the product of the object size and the batch is an \<open>int\<close>, whose
  overflow, like the division by 0, is undefined behaviour.\<close>

definition CentralFreeList_Init :: "'os central \<Rightarrow> nat \<Rightarrow> 'os central option" where
  "CentralFreeList_Init S cl = do {
     S \<leftarrow> heap_op (lift_dll (\<lambda>st. DLL_Init st (CentralEmpty cl))) S;
     S \<leftarrow> heap_op (lift_dll (\<lambda>st. DLL_Init st (CentralNonempty cl))) S;
     let S = upd_list S cl (\<lambda>l. l\<lparr>size_class := cl, num_spans := 0, counter := 0,
       max_cache_size := kMaxNumTransferEntries, cache_size := 16\<rparr>) in do {
       S \<leftarrow>
         (if cl > 0 then
            let bytes = int (class_to_size (sizemap S) cl); objs_to_move = num_objects_to_move (sizemap S) cl in do {
              CHECK (objs_to_move > 0 \<and> bytes > 0);
              CHECK (bytes * objs_to_move < 2 ^ 31);
              let m = min kMaxNumTransferEntries (max 1 (c_div (1024 * 1024) (bytes * objs_to_move))) in
              Some (upd_list S cl (\<lambda>l. l\<lparr>max_cache_size := m, cache_size := min 16 m\<rparr>)) }
          else Some S);
       let S = upd_list S cl (\<lambda>l. l\<lparr>used_slots := 0\<rparr>) in do {
         CHECK (cache_size (central_cache S cl) \<le> max_cache_size (central_cache S cl));
         Some S } } }"

section \<open>Returning objects to their spans\<close>

definition MapObjectToSpan :: "'os central \<Rightarrow> addr \<Rightarrow> span_ptr" where
  "MapObjectToSpan S obj = GetDescriptor (pageheap S) (obj div 2 ^ kPageShift)"

text \<open>\<open>refcount\<close> is a bit field of 16 bits; it is positive when it is decremented.\<close>

definition ReleaseToSpans :: "'os heap_env \<Rightarrow> nat \<Rightarrow> 'os central \<Rightarrow> addr \<Rightarrow> 'os central option" where
  "ReleaseToSpans E c S obj =
     (let s = MapObjectToSpan S obj in do {
        CHECK (s \<noteq> SNull);
        CHECK (refcount (span_of (pageheap S) s) > 0);
        S \<leftarrow>
          (if objects (span_of (pageheap S) s) = 0 then do {
             S \<leftarrow> heap_op (lift_dll (\<lambda>st. DLL_Remove st s)) S;
             heap_op (lift_dll (\<lambda>st. DLL_Prepend st (CentralNonempty c) s)) S }
           else Some S);
        let S = upd_list S c (\<lambda>l. l\<lparr>counter := counter l + 1\<rparr>) in do {
          S \<leftarrow> heap_op (\<lambda>h. upd_span h s (\<lambda>x. x\<lparr>refcount := refcount x - 1\<rparr>)) S;
          let x = span_of (pageheap S) s in
          if refcount x = 0 then do {
            let sz = class_to_size (sizemap S) (sizeclass x) in do {
              CHECK (sz \<noteq> 0);
              let S = upd_list S c (\<lambda>l. l\<lparr>counter := counter l - of_nat ((span_length x * 2 ^ kPageShift) mod 2 ^ 64 div sz)\<rparr>) in do {
                S \<leftarrow> heap_op (lift_dll (\<lambda>st. DLL_Remove st s)) S;
                let S = upd_list S c (\<lambda>l. l\<lparr>num_spans := num_spans l - 1\<rparr>) in
                heap_op (\<lambda>h. Delete E h s) S } } }
          else do {
            m \<leftarrow> SLL_SetNext (object_mem S) obj (objects x);
            heap_op (\<lambda>h. upd_span h s (\<lambda>x. x\<lparr>objects := obj\<rparr>)) (S\<lparr>object_mem := m\<rparr>) } } })"

partial_function (option) ReleaseListToSpans :: "'os heap_env \<Rightarrow> nat \<Rightarrow> 'os central \<Rightarrow> addr \<Rightarrow> 'os central option" where
  [code]: "ReleaseListToSpans E c S start =
     (if start = 0 then Some S
      else do {
        nxt \<leftarrow> SLL_Next (object_mem S) start;
        S \<leftarrow> ReleaseToSpans E c S start;
        ReleaseListToSpans E c S nxt })"

section \<open>The transfer cache\<close>

definition ShrinkCache :: "'os heap_env \<Rightarrow> nat \<Rightarrow> 'os central \<Rightarrow> bool \<Rightarrow> (bool \<times> 'os central) option" where
  "ShrinkCache E c S force =
     (let l = central_cache S c in
      if cache_size l = 0 then Some (False, S)
      else if \<not> force \<and> used_slots l = cache_size l then Some (False, S)
      else do {
        CHECK (used_slots l \<le> cache_size l);
        CHECK (0 \<le> cache_size l);
        if used_slots l = cache_size l then
          let S = upd_list S c (\<lambda>l. l\<lparr>cache_size := cache_size l - 1, used_slots := used_slots l - 1\<rparr>) in do {
            S \<leftarrow> ReleaseListToSpans E c S (fst (tc_slots l (nat (used_slots l - 1))));
            Some (True, S) }
        else Some (True, upd_list S c (\<lambda>l. l\<lparr>cache_size := cache_size l - 1\<rparr>)) })"

text \<open>The loop that brings the counter back in range.\<close>

function evict_index :: "int \<Rightarrow> int" where
  "evict_index t = (if t \<ge> int kNumClasses then evict_index (t - int kNumClasses) else t)"
  by pat_completeness auto
termination by (relation "measure nat") (auto simp: config_defs)

declare evict_index.simps [simp del]

definition EvictRandomSizeClass :: "'os heap_env \<Rightarrow> 'os central \<Rightarrow> nat \<Rightarrow> bool \<Rightarrow> (bool \<times> 'os central) option" where
  "EvictRandomSizeClass E S locked_size_class force =
     (let t = race_counter S; S = S\<lparr>race_counter := t + 1\<rparr>;
          (t, S) = (if t \<ge> int kNumClasses then let t = evict_index t in (t, S\<lparr>race_counter := t\<rparr>) else (t, S)) in do {
        CHECK (t \<ge> 0);
        CHECK (t < int kNumClasses);
        if t = int locked_size_class then Some (False, S)
        else ShrinkCache E (nat t) S force })"

definition MakeCacheSpace :: "'os heap_env \<Rightarrow> nat \<Rightarrow> 'os central \<Rightarrow> (bool \<times> 'os central) option" where
  "MakeCacheSpace E c S =
     (let l = central_cache S c in
      if used_slots l < cache_size l then Some (True, S)
      else if cache_size l = max_cache_size l then Some (False, S)
      else do {
        (ok, S) \<leftarrow> EvictRandomSizeClass E S (size_class l) False;
        (ok, S) \<leftarrow> (if ok then Some (True, S) else EvictRandomSizeClass E S (size_class l) True);
        if ok \<and> cache_size (central_cache S c) < max_cache_size (central_cache S c)
        then Some (True, upd_list S c (\<lambda>l. l\<lparr>cache_size := cache_size l + 1\<rparr>))
        else Some (False, S) })"

text \<open>The last check is the bound of the array \<open>tc_slots_\<close>.\<close>

definition InsertRange :: "'os heap_env \<Rightarrow> nat \<Rightarrow> 'os central \<Rightarrow> addr \<Rightarrow> addr \<Rightarrow> int \<Rightarrow> 'os central option" where
  "InsertRange E c S start tail N = do {
     (ok, S) \<leftarrow>
       (if N = num_objects_to_move (sizemap S) (size_class (central_cache S c))
        then MakeCacheSpace E c S else Some (False, S));
     if ok then
       let slot = used_slots (central_cache S c);
           S = upd_list S c (\<lambda>l. l\<lparr>used_slots := used_slots l + 1\<rparr>) in do {
         CHECK (slot \<ge> 0);
         CHECK (slot < max_cache_size (central_cache S c));
         CHECK (slot < kMaxNumTransferEntries);
         Some (upd_list S c (\<lambda>l. l\<lparr>tc_slots := (tc_slots l)(nat slot := (start, tail))\<rparr>)) }
     else ReleaseListToSpans E c S start }"

section \<open>Fetching objects\<close>

text \<open>The loop of \<open>FetchFromOneSpans\<close>: how many objects, the last of them, and the one after it.\<close>

function fetch_loop :: "mem \<Rightarrow> addr \<Rightarrow> int \<Rightarrow> int \<Rightarrow> (int \<times> addr \<times> addr) option" where
  "fetch_loop m cur result N = do {
     nxt \<leftarrow> SLL_Next m cur;
     if result + 1 < N \<and> nxt \<noteq> 0 then fetch_loop m nxt (result + 1) N
     else Some (result + 1, cur, nxt) }"
  by pat_completeness auto
termination by (relation "measure (\<lambda>(m, cur, result, N). nat (N - result))") auto

declare fetch_loop.simps [simp del]

definition FetchFromOneSpans :: "nat \<Rightarrow> 'os central \<Rightarrow> int \<Rightarrow> (int \<times> addr \<times> addr \<times> 'os central) option" where
  "FetchFromOneSpans c S N =
     (if DLL_IsEmpty (spans (pageheap S)) (CentralNonempty c) then Some (0, 0, 0, S)
      else let s = span_next (span_of (pageheap S) (CentralNonempty c)); first = objects (span_of (pageheap S) s) in do {
        CHECK (first \<noteq> 0);
        (result, prev, cur) \<leftarrow> fetch_loop (object_mem S) first 0 N;
        S \<leftarrow>
          (if cur = 0 then do {
             S \<leftarrow> heap_op (lift_dll (\<lambda>st. DLL_Remove st s)) S;
             heap_op (lift_dll (\<lambda>st. DLL_Prepend st (CentralEmpty c) s)) S }
           else Some S);
        S \<leftarrow> heap_op (\<lambda>h. upd_span h s (\<lambda>x. x\<lparr>objects := cur\<rparr>)) S;
        m \<leftarrow> SLL_SetNext (object_mem S) prev 0;
        S \<leftarrow> heap_op (\<lambda>h. upd_span h s (\<lambda>x. x\<lparr>refcount := nat ((int (refcount x) + result) mod 2 ^ 16)\<rparr>)) (S\<lparr>object_mem := m\<rparr>);
        Some (result, first, prev, upd_list S c (\<lambda>l. l\<lparr>counter := counter l - of_int result\<rparr>)) })"

text \<open>Cutting a span: \<open>tail\<close> is the word to store to, \<open>None\<close> for \<open>span->objects\<close>. The result has the
  memory, the first object and the number of objects.\<close>

partial_function (option) cut_objects :: "mem \<Rightarrow> addr \<Rightarrow> addr option \<Rightarrow> addr \<Rightarrow> addr \<Rightarrow> nat \<Rightarrow> int \<Rightarrow> (mem \<times> addr \<times> int) option" where
  [code]: "cut_objects m first tail p limit sz num =
     (if p + sz \<le> limit then
        (case tail of
           None \<Rightarrow> cut_objects m p (Some p) (p + sz) limit sz (num + 1)
         | Some t \<Rightarrow> cut_objects (m(t := p)) first (Some p) (p + sz) limit sz (num + 1))
      else do {
        CHECK (p \<le> limit);
        (case tail of None \<Rightarrow> Some (m, 0, num) | Some t \<Rightarrow> Some (m(t := 0), first, num)) })"

fun cache_pages :: "'os page_heap \<Rightarrow> nat \<Rightarrow> nat \<Rightarrow> nat \<Rightarrow> 'os page_heap option" where
  "cache_pages h p 0 cl = Some h"
| "cache_pages h p (Suc n) cl = do { h \<leftarrow> CacheSizeClass h p cl; cache_pages h (p + 1) n cl }"

definition Populate_add :: "nat \<Rightarrow> 'os central \<Rightarrow> span_ptr \<Rightarrow> nat \<Rightarrow> 'os central option" where
  "Populate_add c S s npages = do {
     CHECK (span_length (span_of (pageheap S) s) = npages);
     S \<leftarrow> heap_op (\<lambda>h. cache_pages h (span_start (span_of h s)) npages (size_class (central_cache S c))) S;
     let p = span_start (span_of (pageheap S) s) * 2 ^ kPageShift;
         sz = class_to_size (sizemap S) (size_class (central_cache S c)) in do {
       (m, first, num) \<leftarrow> cut_objects (object_mem S) (objects (span_of (pageheap S) s)) None p (p + npages * 2 ^ kPageShift) sz 0;
       S \<leftarrow> heap_op (\<lambda>h. upd_span h s (\<lambda>x. x\<lparr>objects := first, refcount := 0\<rparr>)) (S\<lparr>object_mem := m\<rparr>);
       S \<leftarrow> heap_op (lift_dll (\<lambda>st. DLL_Prepend st (CentralNonempty c) s)) S;
       Some (upd_list S c (\<lambda>l. l\<lparr>num_spans := num_spans l + 1, counter := counter l + of_int num\<rparr>)) } }"

definition Populate :: "'os heap_env \<Rightarrow> nat \<Rightarrow> 'os central \<Rightarrow> 'os central outcome option" where
  "Populate E c S =
     (let npages = class_to_pages (sizemap S) (size_class (central_cache S c)) in do {
        r \<leftarrow> New E (pageheap S) npages;
        case r of
          OutOfMemory \<Rightarrow> Some OutOfMemory
        | Ret (s, h) \<Rightarrow>
            let S = S\<lparr>pageheap := h\<rparr> in
            if s = SNull then Some (Ret S)
            else do {
              S \<leftarrow> heap_op (\<lambda>h. RegisterSizeClass h s (size_class (central_cache S c))) S;
              S \<leftarrow> Populate_add c S s npages;
              Some (Ret S) } })"

definition FetchFromOneSpansSafe :: "'os heap_env \<Rightarrow> nat \<Rightarrow> 'os central \<Rightarrow> int \<Rightarrow> (int \<times> addr \<times> addr \<times> 'os central) outcome option" where
  "FetchFromOneSpansSafe E c S N = do {
     (result, start, tail, S) \<leftarrow> FetchFromOneSpans c S N;
     if result \<noteq> 0 then Some (Ret (result, start, tail, S))
     else do {
       r \<leftarrow> Populate E c S;
       case r of
         OutOfMemory \<Rightarrow> Some OutOfMemory
       | Ret S \<Rightarrow> do { q \<leftarrow> FetchFromOneSpans c S N; Some (Ret q) } } }"

text \<open>The loop of \<open>RemoveRange\<close>; \<open>end\<close> stays that of the first piece.\<close>

partial_function (option) fetch_more :: "nat \<Rightarrow> 'os central \<Rightarrow> int \<Rightarrow> int \<Rightarrow> addr \<Rightarrow> (int \<times> addr \<times> 'os central) option" where
  [code]: "fetch_more c S N result start =
     (if result < N then do {
        (n, head, tail, S) \<leftarrow> FetchFromOneSpans c S (N - result);
        if n = 0 then Some (result, start, S)
        else do {
          (m, start) \<leftarrow> SLL_PushRange (object_mem S) start head tail;
          fetch_more c (S\<lparr>object_mem := m\<rparr>) N (result + n) start } }
      else Some (result, start, S))"

definition RemoveRange :: "'os heap_env \<Rightarrow> nat \<Rightarrow> 'os central \<Rightarrow> int \<Rightarrow> (int \<times> addr \<times> addr \<times> 'os central) outcome option" where
  "RemoveRange E c S N = do {
     CHECK (N > 0);
     let l = central_cache S c in
     if N = num_objects_to_move (sizemap S) (size_class l) \<and> used_slots l > 0 then
       let slot = used_slots l - 1; S = upd_list S c (\<lambda>l. l\<lparr>used_slots := slot\<rparr>) in do {
         CHECK (slot \<ge> 0);
         Some (Ret (N, fst (tc_slots l (nat slot)), snd (tc_slots l (nat slot)), S)) }
     else do {
       r \<leftarrow> FetchFromOneSpansSafe E c S N;
       case r of
         OutOfMemory \<Rightarrow> Some OutOfMemory
       | Ret (result, start, tail, S) \<Rightarrow>
           if result \<noteq> 0 then do {
             (result, start, S) \<leftarrow> fetch_more c S N result start;
             Some (Ret (result, start, tail, S)) }
           else Some (Ret (result, start, tail, S)) } }"

section \<open>Statistics\<close>

definition tc_length :: "'os central \<Rightarrow> nat \<Rightarrow> int" where
  "tc_length S c = used_slots (central_cache S c) * num_objects_to_move (sizemap S) (size_class (central_cache S c))"

definition OverheadBytes :: "'os central \<Rightarrow> nat \<Rightarrow> 64 word option" where
  "OverheadBytes S c =
     (let l = central_cache S c in
      if size_class l = 0 then Some 0
      else let pages_per_span = class_to_pages (sizemap S) (size_class l);
               object_size = class_to_size (sizemap S) (size_class l) in do {
        CHECK (object_size > 0);
        Some (num_spans l * of_nat ((pages_per_span * kPageSize) mod object_size)) })"

end
