(* ===== verification/Thread_Cache.thy ===== *)
theory Thread_Cache
  imports Central_Free_List
begin

text \<open>
  The thread caches (\<open>thread_cache.h\<close>, \<open>thread_cache.cc\<close>): every thread keeps short free lists, one
  for each size class, in front of the central lists. All caches are in a doubly linked list and share
  a budget of bytes. The build is 64-bit Windows: \<open>size_t\<close> has 64 bits but \<open>_LP64\<close> is not defined, so
  the fields of a free list have 16; \<open>HAVE_TLS\<close> is. A thread is named by its identifier; the sampler
  of a cache is left out (the sampling parameter is 0 by default and sampling is then off).
\<close>

section \<open>State\<close>

definition kMaxThreadCacheSize :: nat where "kMaxThreadCacheSize = 4 * 2 ^ 20"
definition kDefaultOverallThreadCacheSize :: nat where "kDefaultOverallThreadCacheSize = 8 * kMaxThreadCacheSize"
definition kMinThreadCacheSize :: nat where "kMinThreadCacheSize = kMaxSize * 2"
definition kStealAmount :: nat where "kStealAmount = 2 ^ 16"
definition kMaxOverages :: nat where "kMaxOverages = 3"
definition kMaxDynamicFreeListLength :: int where "kMaxDynamicFreeListLength = 8192"

record FreeList =
  fl_list :: addr
  fl_length :: "16 word"
  fl_lowater :: "16 word"
  fl_max_length :: "16 word"
  fl_overages :: "16 word"

record ThreadCache =
  tc_next :: addr
  tc_prev :: addr
  tc_size :: "64 word"
  tc_max_size :: "64 word"
  tc_lists :: "nat \<Rightarrow> FreeList"
  tc_tid :: nat
  tc_in_setspecific :: bool

definition sizeof_ThreadCache :: nat where "sizeof_ThreadCache = 1464"

text \<open>The static members; \<open>caches\<close> is the memory of the cache objects, \<open>local_heap\<close> and
  \<open>min_size_for_slow_path\<close> are \<open>threadlocal_data_\<close> and \<open>key_value\<close> the thread-specific value of
  \<open>heap_key_\<close>, of every thread.\<close>

record 'os threads =
  central :: "'os central"
  caches :: "addr \<Rightarrow> ThreadCache"
  threadcache_allocator :: pha
  thread_heaps :: addr
  thread_heap_count :: int
  next_memory_steal :: addr
  overall_thread_cache_size :: "64 word"
  per_thread_cache_size :: "64 word"
  unclaimed_cache_space :: "64 word"
  tsd_inited :: bool
  local_heap :: "nat \<Rightarrow> addr"
  min_size_for_slow_path :: "nat \<Rightarrow> nat"
  key_value :: "nat \<Rightarrow> addr"

definition upd_cache :: "'os threads \<Rightarrow> addr \<Rightarrow> (ThreadCache \<Rightarrow> ThreadCache) \<Rightarrow> 'os threads option" where
  "upd_cache T h f = (if h = 0 then None else Some (T\<lparr>caches := (caches T)(h := f (caches T h))\<rparr>))"

section \<open>The free lists\<close>

text \<open>Each takes and returns the memory of the objects where it changes it.\<close>

definition FL_Init :: "FreeList \<Rightarrow> FreeList" where
  "FL_Init l = l\<lparr>fl_list := 0, fl_length := 0, fl_lowater := 0, fl_max_length := 1, fl_overages := 0\<rparr>"

definition FL_empty :: "FreeList \<Rightarrow> bool" where
  "FL_empty l = (fl_list l = 0)"

definition clear_lowwatermark :: "FreeList \<Rightarrow> FreeList" where
  "clear_lowwatermark l = l\<lparr>fl_lowater := fl_length l\<rparr>"

definition set_max_length :: "int \<Rightarrow> FreeList \<Rightarrow> FreeList" where
  "set_max_length n l = l\<lparr>fl_max_length := of_int n\<rparr>"

definition FL_Push :: "mem \<Rightarrow> FreeList \<Rightarrow> addr \<Rightarrow> (mem \<times> FreeList) option" where
  "FL_Push m l ptr = do {
     (m, head) \<leftarrow> SLL_Push m (fl_list l) ptr;
     Some (m, l\<lparr>fl_list := head, fl_length := fl_length l + 1\<rparr>) }"

definition lower_mark :: "FreeList \<Rightarrow> FreeList" where
  "lower_mark l = (if fl_length l < fl_lowater l then l\<lparr>fl_lowater := fl_length l\<rparr> else l)"

definition FL_Pop :: "mem \<Rightarrow> FreeList \<Rightarrow> (addr \<times> FreeList) option" where
  "FL_Pop m l = do {
     CHECK (fl_list l \<noteq> 0);
     let l = lower_mark (l\<lparr>fl_length := fl_length l - 1\<rparr>) in do {
       (p, head) \<leftarrow> SLL_Pop m (fl_list l);
       Some (p, l\<lparr>fl_list := head\<rparr>) } }"

text \<open>\<open>SLL_Next(&list_)\<close> is the first word of the member \<open>list_\<close>.\<close>

definition FL_Next :: "FreeList \<Rightarrow> addr" where
  "FL_Next l = fl_list l"

definition FL_PushRange :: "mem \<Rightarrow> FreeList \<Rightarrow> int \<Rightarrow> addr \<Rightarrow> addr \<Rightarrow> (mem \<times> FreeList) option" where
  "FL_PushRange m l N start tail = do {
     (m, head) \<leftarrow> SLL_PushRange m (fl_list l) start tail;
     Some (m, l\<lparr>fl_list := head, fl_length := fl_length l + of_int N\<rparr>) }"

definition FL_PopRange :: "mem \<Rightarrow> FreeList \<Rightarrow> nat \<Rightarrow> (mem \<times> FreeList \<times> addr \<times> addr) option" where
  "FL_PopRange m l N = do {
     (m, head, start, tail) \<leftarrow> SLL_PopRange m (fl_list l) N;
     CHECK (unat (fl_length l) \<ge> N);
     Some (m, lower_mark (l\<lparr>fl_list := head, fl_length := fl_length l - of_nat N\<rparr>), start, tail) }"

section \<open>Returning objects to the central lists\<close>

definition upd_fl :: "ThreadCache \<Rightarrow> nat \<Rightarrow> (FreeList \<Rightarrow> FreeList) \<Rightarrow> ThreadCache" where
  "upd_fl C cl f = C\<lparr>tc_lists := (tc_lists C)(cl := f (tc_lists C cl))\<rparr>"

text \<open>The loop that returns whole batches.\<close>

partial_function (option) release_batches ::
    "'os heap_env \<Rightarrow> nat \<Rightarrow> int \<Rightarrow> 'os central \<Rightarrow> FreeList \<Rightarrow> int \<Rightarrow> ('os central \<times> FreeList \<times> int) option" where
  [code]: "release_batches E cl batch S l N =
     (if N > batch then do {
        (m, l, head, tail) \<leftarrow> FL_PopRange (object_mem S) l (nat batch);
        S \<leftarrow> InsertRange E cl (S\<lparr>object_mem := m\<rparr>) head tail batch;
        release_batches E cl batch S l (N - batch) }
      else Some (S, l, N))"

definition ReleaseToCentralCache ::
    "'os heap_env \<Rightarrow> nat \<Rightarrow> int \<Rightarrow> 'os central \<times> ThreadCache \<Rightarrow> ('os central \<times> ThreadCache) option" where
  "ReleaseToCentralCache E cl N s =
     (let (S, C) = s; src = tc_lists C cl;
          N = (if to_size_t N > unat (fl_length src) then int (unat (fl_length src)) else N);
          delta_bytes = of_int N * of_nat (class_to_size (sizemap S) cl) in do {
        (S, src, N) \<leftarrow> release_batches E cl (num_objects_to_move (sizemap S) cl) S src N;
        (m, src, head, tail) \<leftarrow> FL_PopRange (object_mem S) src (nat N);
        S \<leftarrow> InsertRange E cl (S\<lparr>object_mem := m\<rparr>) head tail N;
        Some (S, C\<lparr>tc_lists := (tc_lists C)(cl := src), tc_size := tc_size C - delta_bytes\<rparr>) })"

text \<open>The comparisons of \<open>max_length()\<close> with the \<open>int\<close> \<open>batch_size\<close> are made in \<open>size_t\<close>.\<close>

definition ListTooLong :: "'os heap_env \<Rightarrow> nat \<Rightarrow> 'os central \<times> ThreadCache \<Rightarrow> ('os central \<times> ThreadCache) option" where
  "ListTooLong E cl s =
     (let batch_size = num_objects_to_move (sizemap (fst s)) cl in do {
        (S, C) \<leftarrow> ReleaseToCentralCache E cl batch_size s;
        let mx = unat (fl_max_length (tc_lists C cl)) in
        if mx < to_size_t batch_size then Some (S, upd_fl C cl (set_max_length (int mx + 1)))
        else if mx > to_size_t batch_size then
          let C = upd_fl C cl (\<lambda>l. l\<lparr>fl_overages := fl_overages l + 1\<rparr>) in
          if unat (fl_overages (tc_lists C cl)) > kMaxOverages then do {
            CHECK (mx > to_size_t batch_size);
            Some (S, upd_fl C cl (\<lambda>l. (set_max_length (int mx - batch_size) l)\<lparr>fl_overages := 0\<rparr>)) }
          else Some (S, C)
        else Some (S, C) })"

text \<open>\<open>Cleanup\<close> and the loop of \<open>Scavenge\<close>, with \<open>k\<close> classes left from \<open>cl\<close> on.\<close>

fun Cleanup_loop :: "'os heap_env \<Rightarrow> nat \<Rightarrow> nat \<Rightarrow> 'os central \<times> ThreadCache \<Rightarrow> ('os central \<times> ThreadCache) option" where
  "Cleanup_loop E cl 0 s = Some s"
| "Cleanup_loop E cl (Suc k) s = do {
     s \<leftarrow>
       (let n = fl_length (tc_lists (snd s) cl) in
        if unat n > 0 then ReleaseToCentralCache E cl (int (unat n)) s else Some s);
     Cleanup_loop E (Suc cl) k s }"

definition Cleanup :: "'os heap_env \<Rightarrow> 'os central \<times> ThreadCache \<Rightarrow> ('os central \<times> ThreadCache) option" where
  "Cleanup E s = Cleanup_loop E 0 kNumClasses s"

definition scavenge_list :: "'os heap_env \<Rightarrow> nat \<Rightarrow> 'os central \<times> ThreadCache \<Rightarrow> ('os central \<times> ThreadCache) option" where
  "scavenge_list E cl s =
     (let lowmark = unat (fl_lowater (tc_lists (snd s) cl)) in do {
        (S, C) \<leftarrow>
          (if lowmark > 0 then
             let drop = (if lowmark > 1 then int (lowmark div 2) else 1) in do {
               (S, C) \<leftarrow> ReleaseToCentralCache E cl drop s;
               let batch_size = num_objects_to_move (sizemap S) cl; mx = unat (fl_max_length (tc_lists C cl)) in
               if mx > to_size_t batch_size
               then Some (S, upd_fl C cl (set_max_length (max (int mx - batch_size) batch_size)))
               else Some (S, C) }
           else Some s);
        Some (S, upd_fl C cl clear_lowwatermark) })"

fun Scavenge_loop :: "'os heap_env \<Rightarrow> nat \<Rightarrow> nat \<Rightarrow> 'os central \<times> ThreadCache \<Rightarrow> ('os central \<times> ThreadCache) option" where
  "Scavenge_loop E cl 0 s = Some s"
| "Scavenge_loop E cl (Suc k) s = do { s \<leftarrow> scavenge_list E cl s; Scavenge_loop E (Suc cl) k s }"

section \<open>Taking objects from the central lists\<close>

definition c_mod :: "int \<Rightarrow> int \<Rightarrow> int" where
  "c_mod a b = a - b * c_div a b"

text \<open>The end of \<open>FetchFromCentralCache\<close>: \<open>max_length\<close> grows by one up to a batch, then by batches.\<close>

definition grow_max_length :: "int \<Rightarrow> FreeList \<Rightarrow> FreeList option" where
  "grow_max_length batch_size l =
     (let mx = unat (fl_max_length l) in
      if mx < to_size_t batch_size then Some (set_max_length (int mx + 1) l)
      else do {
        CHECK (batch_size \<noteq> 0);
        let new_length = min (to_int32 (mx + to_size_t batch_size)) kMaxDynamicFreeListLength;
            new_length = new_length - c_mod new_length batch_size in do {
          CHECK (c_mod new_length batch_size = 0);
          Some (set_max_length new_length l) } })"

definition FetchFromCentralCache ::
    "'os heap_env \<Rightarrow> nat \<Rightarrow> nat \<Rightarrow> 'os central \<times> ThreadCache \<Rightarrow> (addr \<times> 'os central \<times> ThreadCache) outcome option" where
  "FetchFromCentralCache E cl byte_size s =
     (let (S, C) = s in do {
        CHECK (FL_empty (tc_lists C cl));
        let batch_size = num_objects_to_move (sizemap S) cl;
            num_to_move = min (int (unat (fl_max_length (tc_lists C cl)))) batch_size in do {
          r \<leftarrow> RemoveRange E cl S num_to_move;
          case r of
            OutOfMemory \<Rightarrow> Some OutOfMemory
          | Ret (fetch_count, start, tail, S) \<Rightarrow> do {
              CHECK ((start = 0) = (fetch_count = 0));
              let fetch_count = fetch_count - 1 in do {
                (S, C) \<leftarrow>
                  (if fetch_count \<ge> 0 then do {
                     nxt \<leftarrow> SLL_Next (object_mem S) start;
                     (m, l) \<leftarrow> FL_PushRange (object_mem S) (tc_lists C cl) fetch_count nxt tail;
                     Some (S\<lparr>object_mem := m\<rparr>,
                       C\<lparr>tc_size := tc_size C + of_nat byte_size * of_int fetch_count, tc_lists := (tc_lists C)(cl := l)\<rparr>) }
                   else Some (S, C));
                l \<leftarrow> grow_max_length batch_size (tc_lists C cl);
                Some (Ret (start, S, upd_fl C cl (\<lambda>_. l))) } } } })"

definition Allocate ::
    "'os heap_env \<Rightarrow> nat \<Rightarrow> nat \<Rightarrow> 'os central \<times> ThreadCache \<Rightarrow> (addr \<times> 'os central \<times> ThreadCache) outcome option" where
  "Allocate E sz cl s =
     (let (S, C) = s in do {
        CHECK (sz \<le> kMaxSize);
        CHECK (sz = class_to_size (sizemap S) cl);
        if FL_empty (tc_lists C cl) then FetchFromCentralCache E cl sz s
        else do {
          (p, l) \<leftarrow> FL_Pop (object_mem S) (tc_lists C cl);
          Some (Ret (p, S, C\<lparr>tc_size := tc_size C - of_nat sz, tc_lists := (tc_lists C)(cl := l)\<rparr>)) } })"

section \<open>The budget of the caches\<close>

text \<open>The loop of \<open>IncreaseCacheLimitLocked\<close> with \<open>k\<close> rounds left; \<open>h\<close> is \<open>this\<close>.\<close>

fun steal_loop :: "nat \<Rightarrow> 'os threads \<Rightarrow> addr \<Rightarrow> 'os threads option" where
  "steal_loop 0 T h = Some T"
| "steal_loop (Suc k) T h = do {
     T \<leftarrow>
       (if next_memory_steal T = 0 then do {
          CHECK (thread_heaps T \<noteq> 0);
          Some (T\<lparr>next_memory_steal := thread_heaps T\<rparr>) }
        else Some T);
     let v = next_memory_steal T in
     if v = h \<or> unat (tc_max_size (caches T v)) \<le> kMinThreadCacheSize
     then steal_loop k (T\<lparr>next_memory_steal := tc_next (caches T v)\<rparr>) h
     else do {
       T \<leftarrow> upd_cache T v (\<lambda>C. C\<lparr>tc_max_size := tc_max_size C - of_nat kStealAmount\<rparr>);
       T \<leftarrow> upd_cache T h (\<lambda>C. C\<lparr>tc_max_size := tc_max_size C + of_nat kStealAmount\<rparr>);
       Some (T\<lparr>next_memory_steal := tc_next (caches T v)\<rparr>) } }"

definition IncreaseCacheLimitLocked :: "'os threads \<Rightarrow> addr \<Rightarrow> 'os threads option" where
  "IncreaseCacheLimitLocked T h =
     (if sint (unclaimed_cache_space T) > 0
      then upd_cache (T\<lparr>unclaimed_cache_space := unclaimed_cache_space T - of_nat kStealAmount\<rparr>) h
             (\<lambda>C. C\<lparr>tc_max_size := tc_max_size C + of_nat kStealAmount\<rparr>)
      else steal_loop 10 T h)"

definition IncreaseCacheLimit :: "'os threads \<Rightarrow> addr \<Rightarrow> 'os threads option" where
  "IncreaseCacheLimit = IncreaseCacheLimitLocked"

section \<open>Operations of a cache\<close>

text \<open>An operation on the cache \<open>h\<close> and the central lists.\<close>

definition on_cache :: "addr \<Rightarrow> ('os central \<times> ThreadCache \<Rightarrow> ('os central \<times> ThreadCache) option) \<Rightarrow> 'os threads \<Rightarrow> 'os threads option" where
  "on_cache h f T = (if h = 0 then None else do {
     (S, C) \<leftarrow> f (central T, caches T h);
     Some (T\<lparr>central := S, caches := (caches T)(h := C)\<rparr>) })"

definition Scavenge :: "'os heap_env \<Rightarrow> addr \<Rightarrow> 'os threads \<Rightarrow> 'os threads option" where
  "Scavenge E h T = do {
     T \<leftarrow> on_cache h (Scavenge_loop E 0 kNumClasses) T;
     IncreaseCacheLimit T h }"

definition cache_Allocate :: "'os heap_env \<Rightarrow> nat \<Rightarrow> nat \<Rightarrow> addr \<Rightarrow> 'os threads \<Rightarrow> (addr \<times> 'os threads) outcome option" where
  "cache_Allocate E sz cl h T = (if h = 0 then None else do {
     r \<leftarrow> Allocate E sz cl (central T, caches T h);
     case r of
       OutOfMemory \<Rightarrow> Some OutOfMemory
     | Ret (p, S, C) \<Rightarrow> Some (Ret (p, T\<lparr>central := S, caches := (caches T)(h := C)\<rparr>)) })"

text \<open>\<open>list_headroom\<close> and \<open>size_headroom\<close> are computed in \<open>size_t\<close>.\<close>

definition Deallocate_push :: "nat \<Rightarrow> addr \<Rightarrow> 'os central \<times> ThreadCache \<Rightarrow> ('os central \<times> ThreadCache) option" where
  "Deallocate_push cl ptr s =
     (let (S, C) = s in do {
        CHECK (ptr \<noteq> FL_Next (tc_lists C cl));
        (m, l) \<leftarrow> FL_Push (object_mem S) (tc_lists C cl) ptr;
        Some (S\<lparr>object_mem := m\<rparr>, C\<lparr>tc_size := tc_size C + of_nat (class_to_size (sizemap S) cl), tc_lists := (tc_lists C)(cl := l)\<rparr>) })"

definition Deallocate :: "'os heap_env \<Rightarrow> addr \<Rightarrow> nat \<Rightarrow> addr \<Rightarrow> 'os threads \<Rightarrow> 'os threads option" where
  "Deallocate E ptr cl h T = do {
     T \<leftarrow> on_cache h (Deallocate_push cl ptr) T;
     let C = caches T h; l = tc_lists C cl;
         size_headroom = tc_max_size C - tc_size C - 1;
         list_headroom = ucast (fl_max_length l) - ucast (fl_length l) :: 64 word in
     if sint (list_headroom OR size_headroom) < 0 then do {
       T \<leftarrow> (if sint list_headroom < 0 then on_cache h (ListTooLong E cl) T else Some T);
       if tc_size (caches T h) \<ge> tc_max_size (caches T h) then Scavenge E h T else Some T }
     else Some T }"

section \<open>Caches come and go\<close>

definition init_free_lists :: "(nat \<Rightarrow> FreeList) \<Rightarrow> (nat \<Rightarrow> FreeList)" where
  "init_free_lists ls = (\<lambda>cl. if cl < kNumClasses then FL_Init (ls cl) else ls cl)"

definition Cache_Init :: "nat \<Rightarrow> addr \<Rightarrow> 'os threads \<Rightarrow> 'os threads option" where
  "Cache_Init tid h T = do {
     T \<leftarrow> upd_cache T h (\<lambda>C. C\<lparr>tc_size := 0, tc_max_size := 0\<rparr>);
     T \<leftarrow> IncreaseCacheLimitLocked T h;
     T \<leftarrow>
       (if tc_max_size (caches T h) = 0 then do {
          T \<leftarrow> upd_cache T h (\<lambda>C. C\<lparr>tc_max_size := of_nat kMinThreadCacheSize\<rparr>);
          let T = T\<lparr>unclaimed_cache_space := unclaimed_cache_space T - of_nat kMinThreadCacheSize\<rparr> in do {
            CHECK (sint (unclaimed_cache_space T) < 0);
            Some T } }
        else Some T);
     upd_cache T h (\<lambda>C. C\<lparr>tc_next := 0, tc_prev := 0, tc_tid := tid, tc_in_setspecific := False,
       tc_lists := init_free_lists (tc_lists C)\<rparr>) }"

definition NewHeap :: "'os heap_env \<Rightarrow> nat \<Rightarrow> 'os threads \<Rightarrow> (addr \<times> 'os threads) outcome option" where
  "NewHeap E tid T = do {
     r \<leftarrow> PageHeapAllocator_New (os_calls E) sizeof_ThreadCache (heap_meta (pageheap (central T)), threadcache_allocator T);
     case r of
       OutOfMemory \<Rightarrow> Some OutOfMemory
     | Ret (h, m, a) \<Rightarrow>
         let S = central T;
             T = T\<lparr>central := S\<lparr>pageheap := (pageheap S)\<lparr>heap_meta := m\<rparr>\<rparr>, threadcache_allocator := a\<rparr> in do {
           T \<leftarrow> Cache_Init tid h T;
           T \<leftarrow> upd_cache T h (\<lambda>C. C\<lparr>tc_next := thread_heaps T, tc_prev := 0\<rparr>);
           T \<leftarrow>
             (if thread_heaps T \<noteq> 0 then upd_cache T (thread_heaps T) (\<lambda>C. C\<lparr>tc_prev := h\<rparr>)
              else do {
                CHECK (next_memory_steal T = 0);
                Some (T\<lparr>next_memory_steal := h\<rparr>) });
           Some (Ret (h, T\<lparr>thread_heaps := h, thread_heap_count := thread_heap_count T + 1\<rparr>)) } }"

definition DeleteCache :: "'os heap_env \<Rightarrow> addr \<Rightarrow> 'os threads \<Rightarrow> 'os threads option" where
  "DeleteCache E h T = do {
     T \<leftarrow> on_cache h (Cleanup E) T;
     T \<leftarrow>
       (let n = tc_next (caches T h) in
        if n \<noteq> 0 then upd_cache T n (\<lambda>C. C\<lparr>tc_prev := tc_prev (caches T h)\<rparr>) else Some T);
     T \<leftarrow>
       (let p = tc_prev (caches T h) in
        if p \<noteq> 0 then upd_cache T p (\<lambda>C. C\<lparr>tc_next := tc_next (caches T h)\<rparr>) else Some T);
     let T = (if thread_heaps T = h then T\<lparr>thread_heaps := tc_next (caches T h)\<rparr> else T);
         T = T\<lparr>thread_heap_count := thread_heap_count T - 1\<rparr>;
         T = (if next_memory_steal T = h then T\<lparr>next_memory_steal := tc_next (caches T h)\<rparr> else T);
         T = (if next_memory_steal T = 0 then T\<lparr>next_memory_steal := thread_heaps T\<rparr> else T);
         T = T\<lparr>unclaimed_cache_space := unclaimed_cache_space T + tc_max_size (caches T h)\<rparr> in do {
       (_, a) \<leftarrow> PageHeapAllocator_Delete (heap_meta (pageheap (central T)), threadcache_allocator T) h;
       Some (T\<lparr>threadcache_allocator := a\<rparr>) } }"

text \<open>The search for the cache of a thread; it does not return on a cyclic list.\<close>

partial_function (option) find_heap :: "(addr \<Rightarrow> ThreadCache) \<Rightarrow> nat \<Rightarrow> addr \<Rightarrow> addr option" where
  [code]: "find_heap cs me h =
     (if h = 0 then Some 0 else if tc_tid (cs h) = me then Some h else find_heap cs me (tc_next (cs h)))"

text \<open>\<open>threadlocal_data_.heap = heap; SetMinSizeForSlowPath(size)\<close> in thread \<open>me\<close>.\<close>

definition set_local :: "nat \<Rightarrow> addr \<Rightarrow> nat \<Rightarrow> 'os threads \<Rightarrow> 'os threads" where
  "set_local me h sz T = T\<lparr>local_heap := (local_heap T)(me := h), min_size_for_slow_path := (min_size_for_slow_path T)(me := sz)\<rparr>"

text \<open>\<open>TlsSetValue\<close>, which \<open>pthread_setspecific\<close> is here, does not call \<open>malloc\<close>.\<close>

definition CreateCacheIfNecessary :: "'os heap_env \<Rightarrow> nat \<Rightarrow> 'os threads \<Rightarrow> (addr \<times> 'os threads) outcome option" where
  "CreateCacheIfNecessary E me T = do {
     h \<leftarrow> find_heap (caches T) me (thread_heaps T);
     r \<leftarrow> (if h = 0 then NewHeap E me T else Some (Ret (h, T)));
     case r of
       OutOfMemory \<Rightarrow> Some OutOfMemory
     | Ret (h, T) \<Rightarrow>
         if \<not> tc_in_setspecific (caches T h) \<and> tsd_inited T then do {
           T \<leftarrow> upd_cache T h (\<lambda>C. C\<lparr>tc_in_setspecific := True\<rparr>);
           let T = T\<lparr>key_value := (key_value T)(me := h)\<rparr>; T = set_local me h (kMaxSize + 1) T in do {
             T \<leftarrow> upd_cache T h (\<lambda>C. C\<lparr>tc_in_setspecific := False\<rparr>);
             Some (Ret (h, T)) } }
         else Some (Ret (h, T)) }"

text \<open>\<open>GetCache\<close> after \<open>InitModule\<close> has run; before \<open>InitTSD\<close> the cache is always searched.\<close>

definition GetCache :: "'os heap_env \<Rightarrow> nat \<Rightarrow> 'os threads \<Rightarrow> (addr \<times> 'os threads) outcome option" where
  "GetCache E me T =
     (let ptr = (if tsd_inited T then local_heap T me else 0) in
      if ptr = 0 then CreateCacheIfNecessary E me T else Some (Ret (ptr, T)))"

definition GetCacheIfPresent :: "nat \<Rightarrow> 'os threads \<Rightarrow> addr" where
  "GetCacheIfPresent me T = local_heap T me"

definition InitTSD :: "'os threads \<Rightarrow> 'os threads option" where
  "InitTSD T = do { CHECK (\<not> tsd_inited T); Some (T\<lparr>tsd_inited := True\<rparr>) }"

definition BecomeIdle :: "'os heap_env \<Rightarrow> nat \<Rightarrow> 'os threads \<Rightarrow> 'os threads option" where
  "BecomeIdle E me T =
     (if \<not> tsd_inited T then Some T
      else let h = local_heap T me in
        if h = 0 then Some T
        else if tc_in_setspecific (caches T h) then Some T
        else do {
          T \<leftarrow> upd_cache T h (\<lambda>C. C\<lparr>tc_in_setspecific := True\<rparr>);
          let T = T\<lparr>key_value := (key_value T)(me := 0)\<rparr>; T = set_local me 0 0 T in do {
            T \<leftarrow> upd_cache T h (\<lambda>C. C\<lparr>tc_in_setspecific := False\<rparr>);
            if local_heap T me = h then Some T else DeleteCache E h T } })"

definition BecomeTemporarilyIdle :: "'os heap_env \<Rightarrow> nat \<Rightarrow> 'os threads \<Rightarrow> 'os threads option" where
  "BecomeTemporarilyIdle E me T =
     (let h = GetCacheIfPresent me T in if h \<noteq> 0 then on_cache h (Cleanup E) T else Some T)"

text \<open>Called when the thread \<open>me\<close> ends, with the value of its key.\<close>

definition DestroyThreadCache :: "'os heap_env \<Rightarrow> nat \<Rightarrow> addr \<Rightarrow> 'os threads \<Rightarrow> 'os threads option" where
  "DestroyThreadCache E me ptr T = (if ptr = 0 then Some T else DeleteCache E ptr (set_local me 0 0 T))"

text \<open>The callback of \<open>windows/port.cc\<close> at the end of a thread; the destructor is registered once
  \<open>InitTSD\<close> has created the key.\<close>

definition on_process_term :: "'os heap_env \<Rightarrow> nat \<Rightarrow> 'os threads \<Rightarrow> 'os threads option" where
  "on_process_term E me T =
     (if tsd_inited T then
        let ptr = key_value T me; T = T\<lparr>key_value := (key_value T)(me := 0)\<rparr> in
        if ptr \<noteq> 0 then DestroyThreadCache E me ptr T else Some T
      else Some T)"

section \<open>The overall size\<close>

text \<open>Division and multiplication of \<open>double\<close>s, for positive integers that a \<open>double\<close> holds exactly and
  a quotient below 1. A \<open>double\<close> is a mantissa of 53 bits and an exponent: \<open>(m, e)\<close> is \<open>m / 2^e\<close>. Results
  are rounded to the nearest, ties to even.\<close>

definition round_div :: "nat \<Rightarrow> nat \<Rightarrow> nat" where
  "round_div a b =
     (let q = a div b; r = a mod b in if 2 * r < b \<or> 2 * r = b \<and> even q then q else q + 1)"

function quotient_exponent :: "nat \<Rightarrow> nat \<Rightarrow> nat \<Rightarrow> nat" where
  "quotient_exponent a b e =
     (if 0 < a \<and> a * 2 ^ e < 2 ^ 52 * b then quotient_exponent a b (Suc e) else e)"
  by pat_completeness auto
termination
proof (relation "measure (\<lambda>(a, b, e). 2 ^ 52 * b - a * 2 ^ e)", goal_cases)
  case (2 a b e)
  then have "a * 2 ^ e < a * 2 ^ Suc e" by simp
  with 2 show ?case unfolding in_measure prod.case by (intro diff_less_mono2) simp_all
qed simp

declare quotient_exponent.simps [simp del]

definition double_div :: "nat \<Rightarrow> nat \<Rightarrow> nat \<times> nat" where
  "double_div a b = (let e = quotient_exponent a b 0 in (round_div (a * 2 ^ e) b, e))"

text \<open>\<open>static_cast<size_t>(n * x)\<close>: the product is rounded to 53 bits before it is cut off.\<close>

fun bit_length :: "nat \<Rightarrow> nat" where
  "bit_length n = (if n = 0 then 0 else Suc (bit_length (n div 2)))"

declare bit_length.simps [simp del]

definition double_mul_trunc :: "nat \<Rightarrow> nat \<times> nat \<Rightarrow> nat" where
  "double_mul_trunc n x =
     (let (m, e) = x; p = n * m; k = bit_length p - 53 in round_div p (2 ^ k) * 2 ^ k div 2 ^ e)"

text \<open>The loop over the caches; a ratio below 1 is the quotient of \<open>space\<close> and \<open>per\<close>.\<close>

partial_function (option) recompute_loop ::
    "nat \<Rightarrow> nat \<Rightarrow> 'os threads \<Rightarrow> addr \<Rightarrow> 64 word \<Rightarrow> ('os threads \<times> 64 word) option" where
  [code]: "recompute_loop space per T h claimed =
     (if h = 0 then Some (T, claimed)
      else
        let mx = unat (tc_max_size (caches T h));
            T = (if space < per then T\<lparr>caches := (caches T)(h := (caches T h)\<lparr>tc_max_size := of_nat (double_mul_trunc mx (double_div space per))\<rparr>)\<rparr> else T)
        in recompute_loop space per T (tc_next (caches T h)) (claimed + tc_max_size (caches T h)))"

definition RecomputePerThreadCacheSize :: "'os threads \<Rightarrow> 'os threads option" where
  "RecomputePerThreadCacheSize T =
     (let n = (if thread_heap_count T > 0 then nat (thread_heap_count T) else 1);
          space = unat (overall_thread_cache_size T) div n;
          space = (if space < kMinThreadCacheSize then kMinThreadCacheSize else space);
          space = (if space > kMaxThreadCacheSize then kMaxThreadCacheSize else space) in do {
        (T, claimed) \<leftarrow> recompute_loop space (max 1 (unat (per_thread_cache_size T))) T (thread_heaps T) 0;
        Some (T\<lparr>unclaimed_cache_space := overall_thread_cache_size T - claimed, per_thread_cache_size := of_nat space\<rparr>) })"

definition set_overall_thread_cache_size :: "64 word \<Rightarrow> 'os threads \<Rightarrow> 'os threads option" where
  "set_overall_thread_cache_size new_size T =
     (let new_size = (if unat new_size < kMinThreadCacheSize then of_nat kMinThreadCacheSize else new_size);
          new_size = (if new_size > 2 ^ 30 then 2 ^ 30 else new_size) in
      RecomputePerThreadCacheSize (T\<lparr>overall_thread_cache_size := new_size\<rparr>))"

section \<open>Statistics\<close>

fun add_lengths :: "ThreadCache \<Rightarrow> nat \<Rightarrow> nat \<Rightarrow> (nat \<Rightarrow> 64 word) \<Rightarrow> (nat \<Rightarrow> 64 word)" where
  "add_lengths C cl 0 class_count = class_count"
| "add_lengths C cl (Suc k) class_count =
     add_lengths C (Suc cl) k (class_count(cl := class_count cl + ucast (fl_length (tc_lists C cl))))"

partial_function (option) GetThreadStats_loop ::
    "(addr \<Rightarrow> ThreadCache) \<Rightarrow> addr \<Rightarrow> 64 word \<Rightarrow> (nat \<Rightarrow> 64 word) option \<Rightarrow> (64 word \<times> (nat \<Rightarrow> 64 word) option) option" where
  [code]: "GetThreadStats_loop cs h total_bytes class_count =
     (if h = 0 then Some (total_bytes, class_count)
      else GetThreadStats_loop cs (tc_next (cs h)) (total_bytes + tc_size (cs h))
        (map_option (add_lengths (cs h) 0 kNumClasses) class_count))"

definition GetThreadStats :: "'os threads \<Rightarrow> 64 word \<Rightarrow> (nat \<Rightarrow> 64 word) option \<Rightarrow> (64 word \<times> (nat \<Rightarrow> 64 word) option) option" where
  "GetThreadStats T total_bytes class_count = GetThreadStats_loop (caches T) (thread_heaps T) total_bytes class_count"

end
