(* ===== verification/Malloc.thy ===== *)
theory Malloc
  imports Thread_Cache
begin

text \<open>
  The entry points of the allocator (\<open>tcmalloc.cc\<close>) over the thread caches and the page heap. The build
  is the one of \<open>Thread_Cache\<close>: thread-local storage, no emergency malloc; sampling is off (the
  parameter is 0), so \<open>SampleAllocation\<close> is false. The hooks of \<open>malloc_hook.cc\<close>, empty by default, and
  the printing of large allocations are left out; sizes are below \<open>2^64\<close>. \<open>me\<close> is the thread that calls.
\<close>

section \<open>State\<close>

text \<open>\<open>extra_bytes_released\<close> is the member of \<open>TCMallocImplementation\<close>.\<close>

record 'os process =
  tcs :: "'os threads"
  large_alloc_threshold :: int
  tc_new_mode :: int
  extra_bytes_released :: nat

abbreviation heap_of :: "'os threads \<Rightarrow> 'os page_heap" where
  "heap_of T \<equiv> pageheap (central T)"

definition set_heap :: "'os page_heap \<Rightarrow> 'os threads \<Rightarrow> 'os threads" where
  "set_heap h T = T\<lparr>central := (central T)\<lparr>pageheap := h\<rparr>\<rparr>"

definition set_mem :: "mem \<Rightarrow> 'os threads \<Rightarrow> 'os threads" where
  "set_mem m T = T\<lparr>central := (central T)\<lparr>object_mem := m\<rparr>\<rparr>"

definition page_of :: "addr \<Rightarrow> nat" where
  "page_of ptr = ptr div 2 ^ kPageShift"

section \<open>Copying and clearing memory\<close>

text \<open>\<open>memset(p, 0, n)\<close> and \<open>memcpy(dst, src, n)\<close> on the words from an aligned address on. Where \<open>n\<close> is not
  a multiple of 8 the last word is changed in its low bytes: the machine is little endian.\<close>

definition low_bytes :: "nat \<Rightarrow> nat \<Rightarrow> nat \<Rightarrow> nat" where
  "low_bytes n new old = (if n \<ge> 8 then new else old div 2 ^ (8 * n) * 2 ^ (8 * n) + new mod 2 ^ (8 * n))"

definition mem_set0 :: "addr \<Rightarrow> nat \<Rightarrow> mem \<Rightarrow> mem" where
  "mem_set0 p n m = (\<lambda>a. if p \<le> a \<and> a < p + n \<and> (a - p) mod 8 = 0 then low_bytes (p + n - a) 0 (m a) else m a)"

definition mem_copy :: "addr \<Rightarrow> addr \<Rightarrow> nat \<Rightarrow> mem \<Rightarrow> mem" where
  "mem_copy dst src n m =
     (\<lambda>a. if dst \<le> a \<and> a < dst + n \<and> (a - dst) mod 8 = 0 then low_bytes (dst + n - a) (m (src + (a - dst))) (m a) else m a)"

section \<open>Allocation\<close>

text \<open>The page map gives no span for a null descriptor: the dereference is a crash.\<close>

definition CheckCachedSizeClass :: "'os central \<Rightarrow> addr \<Rightarrow> bool option" where
  "CheckCachedSizeClass S ptr = do {
     cached_value \<leftarrow> GetSizeClassIfCached (pageheap S) (page_of ptr);
     if cached_value = 0 then Some True
     else if GetDescriptor (pageheap S) (page_of ptr) = SNull then None
     else Some (cached_value = sizeclass (span_of (pageheap S) (GetDescriptor (pageheap S) (page_of ptr)))) }"

definition CheckedMallocResult :: "'os central \<Rightarrow> addr \<Rightarrow> addr option" where
  "CheckedMallocResult S result = do {
     ok \<leftarrow> (if result = 0 then Some True else CheckCachedSizeClass S result);
     CHECK ok;
     Some result }"

definition SpanToMallocResult :: "'os threads \<Rightarrow> span_ptr \<Rightarrow> (addr \<times> 'os threads) option" where
  "SpanToMallocResult T sp =
     (let start = span_start (span_of (heap_of T) sp) in do {
        h \<leftarrow> CacheSizeClass (heap_of T) start 0;
        let T = set_heap h T in do {
          result \<leftarrow> CheckedMallocResult (central T) (start * 2 ^ kPageShift mod 2 ^ 64);
          Some (result, T) } })"

text \<open>The result and the new threshold.\<close>

definition should_report_large :: "nat \<Rightarrow> int \<Rightarrow> bool \<times> int" where
  "should_report_large num_pages threshold =
     (if threshold > 0 \<and> num_pages \<ge> to_size_t (threshold div 2 ^ kPageShift)
      then (True, if threshold + c_div threshold 8 < 8 * 2 ^ 30 then threshold + c_div threshold 8 else 8 * 2 ^ 30)
      else (False, threshold))"

definition do_malloc_pages :: "'os heap_env \<Rightarrow> nat \<Rightarrow> 'os process \<Rightarrow> (addr \<times> 'os process) outcome option" where
  "do_malloc_pages E sz P =
     (let num_pages = pages sz; T = tcs P in do {
        r \<leftarrow> New E (heap_of T) num_pages;
        case r of
          OutOfMemory \<Rightarrow> Some OutOfMemory
        | Ret (sp, h) \<Rightarrow> do {
            (result, T) \<leftarrow> (let T = set_heap h T in if sp = SNull then Some (0, T) else SpanToMallocResult T sp);
            let (report_large, threshold) = should_report_large num_pages (large_alloc_threshold P) in
            Some (Ret (result, P\<lparr>tcs := T, large_alloc_threshold := threshold\<rparr>)) } })"

definition do_malloc_small :: "'os heap_env \<Rightarrow> addr \<Rightarrow> nat \<Rightarrow> 'os threads \<Rightarrow> (addr \<times> 'os threads) outcome option" where
  "do_malloc_small E heap sz T = do {
     CHECK (heap \<noteq> 0);
     cl \<leftarrow> SizeClass (sizemap (central T)) sz;
     r \<leftarrow> cache_Allocate E (class_to_size (sizemap (central T)) cl) cl heap T;
     case r of
       OutOfMemory \<Rightarrow> Some OutOfMemory
     | Ret (result, T) \<Rightarrow> do {
         result \<leftarrow> CheckedMallocResult (central T) result;
         Some (Ret (result, T)) } }"

definition on_threads :: "('a \<times> 'os threads) outcome option \<Rightarrow> 'os process \<Rightarrow> ('a \<times> 'os process) outcome option" where
  "on_threads r P = do {
     r \<leftarrow> r;
     case r of OutOfMemory \<Rightarrow> Some OutOfMemory | Ret (x, T) \<Rightarrow> Some (Ret (x, P\<lparr>tcs := T\<rparr>)) }"

definition do_malloc :: "'os heap_env \<Rightarrow> nat \<Rightarrow> nat \<Rightarrow> 'os process \<Rightarrow> (addr \<times> 'os process) outcome option" where
  "do_malloc E me sz P =
     (if sz < min_size_for_slow_path (tcs P) me then do {
        CHECK (local_heap (tcs P) me \<noteq> 0);
        on_threads (do_malloc_small E (local_heap (tcs P) me) sz (tcs P)) P }
      else do {
        r \<leftarrow> GetCache E me (tcs P);
        case r of
          OutOfMemory \<Rightarrow> Some OutOfMemory
        | Ret (heap, T) \<Rightarrow>
            let P = P\<lparr>tcs := T\<rparr> in
            if sz \<le> kMaxSize then on_threads (do_malloc_small E heap sz (tcs P)) P
            else do_malloc_pages E sz P })"

section \<open>Out of memory\<close>

text \<open>The handler that \<open>set_new_handler\<close> has installed is code of the program: a function of the state
  says whether there is one and what calling it does. \<open>HandlerThrows\<close> is \<open>std::bad_alloc\<close>.\<close>

datatype 'p handler = NoHandler | HandlerReturns 'p | HandlerThrows 'p

datatype alloc_result = Pointer addr | BadAlloc

partial_function (option) oom_loop ::
    "('p \<Rightarrow> 'p handler) \<Rightarrow> ('p \<Rightarrow> (addr \<times> 'p) outcome option) \<Rightarrow> bool \<Rightarrow> 'p \<Rightarrow> (alloc_result \<times> 'p) outcome option" where
  [code]: "oom_loop nh retry_fn nothrow P =
     (case nh P of
        NoHandler \<Rightarrow> Some (Ret (if nothrow then Pointer 0 else BadAlloc, P))
      | HandlerThrows P \<Rightarrow> Some (Ret (if nothrow then Pointer 0 else BadAlloc, P))
      | HandlerReturns P \<Rightarrow> do {
          r \<leftarrow> retry_fn P;
          case r of
            OutOfMemory \<Rightarrow> Some OutOfMemory
          | Ret (rv, P) \<Rightarrow> if rv \<noteq> 0 then Some (Ret (Pointer rv, P)) else oom_loop nh retry_fn nothrow P })"

definition handle_oom ::
    "('os process \<Rightarrow> 'os process handler) \<Rightarrow> ('os process \<Rightarrow> (addr \<times> 'os process) outcome option) \<Rightarrow> bool \<Rightarrow> bool \<Rightarrow>
     'os process \<Rightarrow> (alloc_result \<times> 'os process) outcome option" where
  "handle_oom nh retry_fn from_operator nothrow P =
     (if \<not> from_operator \<and> tc_new_mode P = 0 then Some (Ret (Pointer 0, P)) else oom_loop nh retry_fn nothrow P)"

text \<open>A first attempt, and \<open>handle_oom\<close> with the same function when it gives no memory: the common shape of
  \<open>do_malloc_or_cpp_alloc\<close>, \<open>do_memalign_or_cpp_memalign\<close> and \<open>cpp_alloc\<close>.\<close>

definition or_handle_oom ::
    "('os process \<Rightarrow> 'os process handler) \<Rightarrow> ('os process \<Rightarrow> (addr \<times> 'os process) outcome option) \<Rightarrow> bool \<Rightarrow> bool \<Rightarrow>
     'os process \<Rightarrow> (alloc_result \<times> 'os process) outcome option" where
  "or_handle_oom nh alloc from_operator nothrow P = do {
     r \<leftarrow> alloc P;
     case r of
       OutOfMemory \<Rightarrow> Some OutOfMemory
     | Ret (rv, P) \<Rightarrow> if rv \<noteq> 0 then Some (Ret (Pointer rv, P)) else handle_oom nh alloc from_operator nothrow P }"

definition do_malloc_or_cpp_alloc where
  "do_malloc_or_cpp_alloc E nh me sz P = or_handle_oom nh (do_malloc E me sz) False True P"

definition cpp_alloc where
  "cpp_alloc E nh me sz nothrow P = or_handle_oom nh (do_malloc E me sz) True nothrow P"

definition do_calloc :: "'os heap_env \<Rightarrow> ('os process \<Rightarrow> 'os process handler) \<Rightarrow> nat \<Rightarrow> nat \<Rightarrow> nat \<Rightarrow> 'os process \<Rightarrow>
    (alloc_result \<times> 'os process) outcome option" where
  "do_calloc E nh me n elem_size P =
     (let sz = n * elem_size mod 2 ^ 64 in
      if elem_size \<noteq> 0 \<and> sz div elem_size \<noteq> n then Some (Ret (Pointer 0, P))
      else do {
        r \<leftarrow> do_malloc_or_cpp_alloc E nh me sz P;
        case r of
          OutOfMemory \<Rightarrow> Some OutOfMemory
        | Ret (BadAlloc, P) \<Rightarrow> Some (Ret (BadAlloc, P))
        | Ret (Pointer result, P) \<Rightarrow>
            Some (Ret (Pointer result, if result \<noteq> 0
              then P\<lparr>tcs := set_mem (mem_set0 result sz (object_mem (central (tcs P)))) (tcs P)\<rparr> else P)) })"

section \<open>Freeing\<close>

definition free_null_or_invalid :: "addr \<Rightarrow> (addr \<Rightarrow> 'os threads \<Rightarrow> 'os threads option) \<Rightarrow> 'os threads \<Rightarrow> 'os threads option" where
  "free_null_or_invalid ptr invalid_free_fn T = (if ptr \<noteq> 0 then invalid_free_fn ptr T else Some T)"

text \<open>\<open>InvalidFree\<close> and its likes end the process.\<close>

definition InvalidFree :: "addr \<Rightarrow> 'os threads \<Rightarrow> 'os threads option" where
  "InvalidFree ptr T = None"

text \<open>The part after the label \<open>non_zero\<close>, and the freeing of a whole span.\<close>

definition free_object :: "'os heap_env \<Rightarrow> addr \<Rightarrow> nat \<Rightarrow> addr \<Rightarrow> bool \<Rightarrow> 'os threads \<Rightarrow> 'os threads option" where
  "free_object E ptr cl heap heap_must_be_valid T =
     (let s = GetDescriptor (heap_of T) (page_of ptr) in do {
        CHECK (s \<noteq> SNull \<and> \<not> sample (span_of (heap_of T) s));
        if heap_must_be_valid \<or> heap \<noteq> 0 then Deallocate E ptr cl heap T
        else do {
          m \<leftarrow> SLL_SetNext (object_mem (central T)) ptr 0;
          S \<leftarrow> InsertRange E cl ((central T)\<lparr>object_mem := m\<rparr>) ptr ptr 1;
          Some (T\<lparr>central := S\<rparr>) } })"

definition free_span :: "'os heap_env \<Rightarrow> addr \<Rightarrow> span_ptr \<Rightarrow> 'os threads \<Rightarrow> 'os threads option" where
  "free_span E ptr sp T = do {
     CHECK (ptr mod kPageSize = 0);
     CHECK (sp \<noteq> SNull \<and> span_start (span_of (heap_of T) sp) = page_of ptr);
     h \<leftarrow>
       (if sample (span_of (heap_of T) sp) then
          let st = objects (span_of (heap_of T) sp) in do {
            h \<leftarrow> lift_dll (\<lambda>s. DLL_Remove s sp) (heap_of T);
            (m, a) \<leftarrow> PageHeapAllocator_Delete (heap_meta h, stacktrace_allocator h) st;
            upd_span (h\<lparr>heap_meta := m, stacktrace_allocator := a\<rparr>) sp (\<lambda>x. x\<lparr>objects := 0\<rparr>) }
        else Some (heap_of T));
     h \<leftarrow> Delete E h sp;
     Some (set_heap h T) }"

definition do_free_helper ::
    "'os heap_env \<Rightarrow> addr \<Rightarrow> (addr \<Rightarrow> 'os threads \<Rightarrow> 'os threads option) \<Rightarrow> addr \<Rightarrow> bool \<Rightarrow> bool \<Rightarrow> nat \<Rightarrow> 'os threads \<Rightarrow> 'os threads option" where
  "do_free_helper E ptr invalid_free_fn heap heap_must_be_valid use_hint size_hint T = do {
     CHECK (heap \<noteq> 0 \<or> \<not> heap_must_be_valid);
     case (if use_hint then MaybeSizeClass (sizemap (central T)) size_hint else None) of
       Some cl \<Rightarrow> free_object E ptr cl heap heap_must_be_valid T
     | None \<Rightarrow> do {
         cl \<leftarrow> GetSizeClassIfCached (heap_of T) (page_of ptr);
         if cl = 0 then
           let sp = GetDescriptor (heap_of T) (page_of ptr) in
           if sp = SNull then free_null_or_invalid ptr invalid_free_fn T
           else
             let cl = sizeclass (span_of (heap_of T) sp) in do {
               h \<leftarrow> CacheSizeClass (heap_of T) (page_of ptr) cl;
               let T = set_heap h T in do {
                 CHECK (ptr \<noteq> 0);
                 if cl \<noteq> 0 then free_object E ptr cl heap heap_must_be_valid T else free_span E ptr sp T } }
         else do {
           CHECK (ptr \<noteq> 0);
           free_object E ptr cl heap heap_must_be_valid T } } }"

definition do_free_with_callback ::
    "'os heap_env \<Rightarrow> nat \<Rightarrow> addr \<Rightarrow> (addr \<Rightarrow> 'os threads \<Rightarrow> 'os threads option) \<Rightarrow> bool \<Rightarrow> nat \<Rightarrow> 'os threads \<Rightarrow> 'os threads option" where
  "do_free_with_callback E me ptr invalid_free_fn use_hint size_hint T =
     (let heap = GetCacheIfPresent me T in
      if heap \<noteq> 0 then do_free_helper E ptr invalid_free_fn heap True use_hint size_hint T
      else do_free_helper E ptr invalid_free_fn heap False use_hint size_hint T)"

definition do_free :: "'os heap_env \<Rightarrow> nat \<Rightarrow> addr \<Rightarrow> 'os threads \<Rightarrow> 'os threads option" where
  "do_free E me ptr T = do_free_with_callback E me ptr InvalidFree False 0 T"

definition tc_free :: "'os heap_env \<Rightarrow> nat \<Rightarrow> addr \<Rightarrow> 'os process \<Rightarrow> 'os process option" where
  "tc_free E me ptr P = map_option (\<lambda>T. P\<lparr>tcs := T\<rparr>) (do_free E me ptr (tcs P))"

definition tc_free_sized :: "'os heap_env \<Rightarrow> nat \<Rightarrow> addr \<Rightarrow> nat \<Rightarrow> 'os process \<Rightarrow> 'os process option" where
  "tc_free_sized E me ptr sz P =
     (if ptr AND (kPageSize - 1) = 0 then tc_free E me ptr P
      else map_option (\<lambda>T. P\<lparr>tcs := T\<rparr>) (do_free_with_callback E me ptr InvalidFree True sz (tcs P)))"

section \<open>Sizes and reallocation\<close>

definition GetSizeWithCallback :: "addr \<Rightarrow> nat option \<Rightarrow> 'os threads \<Rightarrow> (nat \<times> 'os threads) option" where
  "GetSizeWithCallback ptr invalid_getsize T =
     (if ptr = 0 then Some (0, T)
      else do {
        cl \<leftarrow> GetSizeClassIfCached (heap_of T) (page_of ptr);
        if cl \<noteq> 0 then Some (class_to_size (sizemap (central T)) cl, T)
        else
          let sp = GetDescriptor (heap_of T) (page_of ptr); d = span_of (heap_of T) sp in
          if sp = SNull then map_option (\<lambda>n. (n, T)) invalid_getsize
          else if sizeclass d \<noteq> 0 then do {
            h \<leftarrow> CacheSizeClass (heap_of T) (page_of ptr) (sizeclass d);
            Some (class_to_size (sizemap (central T)) (sizeclass d), set_heap h T) }
          else Some (span_length d * 2 ^ kPageShift mod 2 ^ 64, T) })"

text \<open>The second attempt of \<open>do_realloc\<close> is made when the first was not, or gave no memory.\<close>

definition realloc_attempt ::
    "'os heap_env \<Rightarrow> ('os process \<Rightarrow> 'os process handler) \<Rightarrow> nat \<Rightarrow> nat \<Rightarrow> nat \<Rightarrow> 'os process \<Rightarrow> (alloc_result \<times> 'os process) outcome option" where
  "realloc_attempt E nh me old_size new_size P =
     (let lower_bound_to_grow = (old_size + old_size div 4) mod 2 ^ 64 in do {
        r \<leftarrow> (if new_size > old_size \<and> new_size < lower_bound_to_grow
          then do_malloc_or_cpp_alloc E nh me lower_bound_to_grow P else Some (Ret (Pointer 0, P)));
        case r of
          OutOfMemory \<Rightarrow> Some OutOfMemory
        | Ret (rv, P) \<Rightarrow> if rv = Pointer 0 then do_malloc_or_cpp_alloc E nh me new_size P else Some (Ret (rv, P)) })"

definition do_realloc ::
    "'os heap_env \<Rightarrow> ('os process \<Rightarrow> 'os process handler) \<Rightarrow> nat \<Rightarrow> addr \<Rightarrow> nat \<Rightarrow> 'os process \<Rightarrow> (alloc_result \<times> 'os process) outcome option" where
  "do_realloc E nh me old_ptr new_size P = do {
     (old_size, T) \<leftarrow> GetSizeWithCallback old_ptr None (tcs P);
     let P = P\<lparr>tcs := T\<rparr>; upper_bound_to_shrink = old_size div 2 in
     if new_size > old_size \<or> new_size < upper_bound_to_shrink then do {
       r \<leftarrow> realloc_attempt E nh me old_size new_size P;
       case r of
         OutOfMemory \<Rightarrow> Some OutOfMemory
       | Ret (BadAlloc, P) \<Rightarrow> Some (Ret (BadAlloc, P))
       | Ret (Pointer new_ptr, P) \<Rightarrow>
           if new_ptr = 0 then Some (Ret (Pointer 0, P))
           else
             let n = (if old_size < new_size then old_size else new_size);
                 T = set_mem (mem_copy new_ptr old_ptr n (object_mem (central (tcs P)))) (tcs P) in do {
               T \<leftarrow> do_free_with_callback E me old_ptr InvalidFree False 0 T;
               Some (Ret (Pointer new_ptr, P\<lparr>tcs := T\<rparr>)) } }
     else Some (Ret (Pointer old_ptr, P)) }"

definition tc_realloc where
  "tc_realloc E nh me old_ptr new_size P =
     (if old_ptr = 0 then do_malloc_or_cpp_alloc E nh me new_size P
      else if new_size = 0 then do { P \<leftarrow> tc_free E me old_ptr P; Some (Ret (Pointer 0, P)) }
      else do_realloc E nh me old_ptr new_size P)"

section \<open>Aligned memory\<close>

text \<open>The search for a class whose size is a multiple of the alignment, with \<open>k\<close> classes left from \<open>cl\<close> on,
  and the search for an aligned page of a span.\<close>

fun aligned_class :: "SizeMap \<Rightarrow> nat \<Rightarrow> nat \<Rightarrow> nat \<Rightarrow> nat" where
  "aligned_class sm align cl 0 = cl"
| "aligned_class sm align cl (Suc k) =
     (if class_to_size sm cl AND (align - 1) \<noteq> 0 then aligned_class sm align (cl + 1) k else cl)"

partial_function (option) aligned_skip :: "nat \<Rightarrow> nat \<Rightarrow> nat \<Rightarrow> nat option" where
  [code]: "aligned_skip start align skip =
     (if add64 start skip * 2 ^ kPageShift mod 2 ^ 64 AND (align - 1) \<noteq> 0 then aligned_skip start align (skip + 1) else Some skip)"

text \<open>Both ends of the span that the result does not need go back; each cut allocates a \<open>Span\<close>.\<close>

definition trim_start :: "'os heap_env \<Rightarrow> 'os page_heap \<Rightarrow> span_ptr \<Rightarrow> nat \<Rightarrow> (span_ptr \<times> 'os page_heap) outcome option" where
  "trim_start E h sp skip =
     (if skip > 0 then do {
        r \<leftarrow> Split E h sp skip;
        case r of
          OutOfMemory \<Rightarrow> Some OutOfMemory
        | Ret (rest, h) \<Rightarrow> do { h \<leftarrow> Delete E h sp; Some (Ret (rest, h)) } }
      else Some (Ret (sp, h)))"

definition trim_end :: "'os heap_env \<Rightarrow> 'os page_heap \<Rightarrow> span_ptr \<Rightarrow> nat \<Rightarrow> 'os page_heap outcome option" where
  "trim_end E h sp needed = do {
     CHECK (span_length (span_of h sp) \<ge> needed);
     if span_length (span_of h sp) > needed then do {
       r \<leftarrow> Split E h sp needed;
       case r of
         OutOfMemory \<Rightarrow> Some OutOfMemory
       | Ret (trailer, h) \<Rightarrow> do { h \<leftarrow> Delete E h trailer; Some (Ret h) } }
     else Some (Ret h) }"

definition memalign_span :: "'os heap_env \<Rightarrow> nat \<Rightarrow> nat \<Rightarrow> 'os threads \<Rightarrow> (addr \<times> 'os threads) outcome option" where
  "memalign_span E align sz T = do {
     r \<leftarrow> New E (heap_of T) (pages (sz + align));
     case r of
       OutOfMemory \<Rightarrow> Some OutOfMemory
     | Ret (sp, h) \<Rightarrow>
         if sp = SNull then Some (Ret (0, set_heap h T))
         else do {
           skip \<leftarrow> aligned_skip (span_start (span_of h sp)) align 0;
           CHECK (skip < pages (sz + align));
           r \<leftarrow> trim_start E h sp skip;
           case r of
             OutOfMemory \<Rightarrow> Some OutOfMemory
           | Ret (sp, h) \<Rightarrow> do {
               r \<leftarrow> trim_end E h sp (pages sz);
               case r of
                 OutOfMemory \<Rightarrow> Some OutOfMemory
               | Ret h \<Rightarrow> do { (p, T) \<leftarrow> SpanToMallocResult (set_heap h T) sp; Some (Ret (p, T)) } } } }"

definition memalign_pages :: "'os heap_env \<Rightarrow> nat \<Rightarrow> 'os threads \<Rightarrow> (addr \<times> 'os threads) outcome option" where
  "memalign_pages E sz T = do {
     r \<leftarrow> New E (heap_of T) (pages sz);
     case r of
       OutOfMemory \<Rightarrow> Some OutOfMemory
     | Ret (sp, h) \<Rightarrow>
         let T = set_heap h T in
         if sp = SNull then Some (Ret (0, T)) else do { (p, T) \<leftarrow> SpanToMallocResult T sp; Some (Ret (p, T)) } }"

definition memalign_class :: "'os heap_env \<Rightarrow> nat \<Rightarrow> nat \<Rightarrow> 'os process \<Rightarrow> (addr \<times> 'os process) outcome option" where
  "memalign_class E me cl P = do {
     r \<leftarrow> GetCache E me (tcs P);
     case r of
       OutOfMemory \<Rightarrow> Some OutOfMemory
     | Ret (heap, T) \<Rightarrow> do {
         r \<leftarrow> cache_Allocate E (class_to_size (sizemap (central T)) cl) cl heap T;
         case r of
           OutOfMemory \<Rightarrow> Some OutOfMemory
         | Ret (p, T) \<Rightarrow> do { p \<leftarrow> CheckedMallocResult (central T) p; Some (Ret (p, P\<lparr>tcs := T\<rparr>)) } } }"

definition do_memalign :: "'os heap_env \<Rightarrow> nat \<Rightarrow> nat \<Rightarrow> nat \<Rightarrow> 'os process \<Rightarrow> (addr \<times> 'os process) outcome option" where
  "do_memalign E me align sz P = do {
     CHECK (align AND (align - 1) = 0);
     CHECK (align > 0);
     if (sz + align) mod 2 ^ 64 < sz then Some (Ret (0, P))
     else do {
       a \<leftarrow> AlignmentForSize sz;
       if align \<le> a then do {
         r \<leftarrow> do_malloc E me sz P;
         case r of
           OutOfMemory \<Rightarrow> Some OutOfMemory
         | Ret (p, P) \<Rightarrow> do { CHECK (p mod align = 0); Some (Ret (p, P)) } }
       else
         let sz = (if sz = 0 then 1 else sz) in do {
           cl \<leftarrow> (if sz \<le> kMaxSize \<and> align < kPageSize
             then map_option (\<lambda>cl. aligned_class (sizemap (central (tcs P))) align cl (kNumClasses - cl)) (SizeClass (sizemap (central (tcs P))) sz)
             else Some kNumClasses);
           if cl < kNumClasses then memalign_class E me cl P
           else if align \<le> kPageSize then on_threads (memalign_pages E sz (tcs P)) P
           else on_threads (memalign_span E align sz (tcs P)) P } } }"

definition do_memalign_or_cpp_memalign where
  "do_memalign_or_cpp_memalign E nh me align sz P = or_handle_oom nh (do_memalign E me align sz) False True P"

datatype posix_result = EINVAL | ENOMEM | Stored addr | Thrown

definition tc_posix_memalign where
  "tc_posix_memalign E nh me align sz P =
     (if align mod 8 \<noteq> 0 \<or> align AND (align - 1) \<noteq> 0 \<or> align = 0 then Some (Ret (EINVAL, P))
      else do {
        r \<leftarrow> do_memalign_or_cpp_memalign E nh me align sz P;
        case r of
          OutOfMemory \<Rightarrow> Some OutOfMemory
        | Ret (BadAlloc, P) \<Rightarrow> Some (Ret (Thrown, P))
        | Ret (Pointer result, P) \<Rightarrow> Some (Ret (if result = 0 then ENOMEM else Stored result, P)) })"

text \<open>\<open>pagesize\<close> is what \<open>getpagesize\<close> of \<open>windows/port.cc\<close> gets from the system.\<close>

definition tc_valloc where
  "tc_valloc E nh me pagesize sz P = do_memalign_or_cpp_memalign E nh me pagesize sz P"

definition pvalloc_size :: "nat \<Rightarrow> nat \<Rightarrow> nat" where
  "pvalloc_size pagesize sz =
     (let sz = (if sz = 0 then pagesize else sz); n = (sz + pagesize - 1) mod 2 ^ 64 in n - n mod pagesize)"

definition tc_pvalloc where
  "tc_pvalloc E nh me pagesize sz P = do_memalign_or_cpp_memalign E nh me pagesize (pvalloc_size pagesize sz) P"

section \<open>The rest of the interface\<close>

definition tc_set_new_mode :: "int \<Rightarrow> 'os process \<Rightarrow> int \<times> 'os process" where
  "tc_set_new_mode flag P = (tc_new_mode P, P\<lparr>tc_new_mode := flag\<rparr>)"

datatype Ownership = kOwned | kNotOwned

definition GetOwnership :: "addr \<Rightarrow> 'os threads \<Rightarrow> Ownership option" where
  "GetOwnership ptr T =
     (if page_of ptr div 2 ^ BITS64 > 0 then Some kNotOwned
      else do {
        cl \<leftarrow> GetSizeClassIfCached (heap_of T) (page_of ptr);
        Some (if cl \<noteq> 0 \<or> GetDescriptor (heap_of T) (page_of ptr) \<noteq> SNull then kOwned else kNotOwned) })"

definition GetAllocatedSize :: "addr \<Rightarrow> 'os threads \<Rightarrow> (nat \<times> 'os threads) option" where
  "GetAllocatedSize ptr T =
     (if ptr = 0 then Some (0, T)
      else do {
        o1 \<leftarrow> GetOwnership ptr T;
        CHECK (o1 \<noteq> kNotOwned);
        GetSizeWithCallback ptr None T })"

definition GetEstimatedAllocatedSize :: "SizeMap \<Rightarrow> nat \<Rightarrow> nat option" where
  "GetEstimatedAllocatedSize sm sz =
     (if sz \<le> kMaxSize then map_option (class_to_size sm) (SizeClass sm sz) else Some (pages sz * 2 ^ kPageShift mod 2 ^ 64))"

definition MarkThreadBusy :: "'os heap_env \<Rightarrow> nat \<Rightarrow> 'os process \<Rightarrow> 'os process outcome option" where
  "MarkThreadBusy E me P = do {
     r \<leftarrow> do_malloc E me 0 P;
     case r of
       OutOfMemory \<Rightarrow> Some OutOfMemory
     | Ret (p, P) \<Rightarrow> map_option Ret (tc_free E me p P) }"

definition ReleaseToSystem :: "'os heap_env \<Rightarrow> nat \<Rightarrow> 'os process \<Rightarrow> 'os process option" where
  "ReleaseToSystem E num_bytes P =
     (if num_bytes \<le> extra_bytes_released P then Some (P\<lparr>extra_bytes_released := extra_bytes_released P - num_bytes\<rparr>)
      else
        let num_bytes = num_bytes - extra_bytes_released P; num_pages = max (num_bytes div 2 ^ kPageShift) 1 in do {
          (released, h) \<leftarrow> ReleaseAtLeastNPages E (heap_of (tcs P)) num_pages;
          let bytes_released = released * 2 ^ kPageShift mod 2 ^ 64 in
          Some (P\<lparr>tcs := set_heap h (tcs P),
            extra_bytes_released := (if bytes_released > num_bytes then bytes_released - num_bytes else 0)\<rparr>) })"

text \<open>\<open>ExtractStats\<close> without the lists of free spans; the loop over the classes has \<open>k\<close> left from \<open>cl\<close> on.\<close>

record TCMallocStats =
  thread_bytes :: "64 word"
  central_bytes :: "64 word"
  transfer_bytes :: "64 word"
  metadata_bytes :: "64 word"
  stat_system_bytes :: "64 word"
  stat_free_bytes :: "64 word"
  stat_unmapped_bytes :: "64 word"
  stat_committed_bytes :: "64 word"

fun ExtractStats_classes :: "'os central \<Rightarrow> nat \<Rightarrow> nat \<Rightarrow> TCMallocStats \<times> (nat \<Rightarrow> 64 word) option \<Rightarrow>
    (TCMallocStats \<times> (nat \<Rightarrow> 64 word) option) option" where
  "ExtractStats_classes S cl 0 s = Some s"
| "ExtractStats_classes S cl (Suc k) s =
     (let (r, class_count) = s; len = of_int (sint (ucast (counter (central_cache S cl)) :: 32 word)); tcl = of_int (tc_length S cl);
          sz = of_nat (class_to_size (sizemap S) cl) in do {
        cache_overhead \<leftarrow> OverheadBytes S cl;
        ExtractStats_classes S (Suc cl) k
          (r\<lparr>central_bytes := central_bytes r + (sz * len + cache_overhead), transfer_bytes := transfer_bytes r + sz * tcl\<rparr>,
           map_option (\<lambda>f. f(cl := len + tcl)) class_count) })"

definition ExtractStats :: "TCMallocStats \<Rightarrow> (nat \<Rightarrow> 64 word) option \<Rightarrow> 'os threads \<Rightarrow> (TCMallocStats \<times> (nat \<Rightarrow> 64 word) option) option" where
  "ExtractStats r class_count T = do {
     (r, class_count) \<leftarrow> ExtractStats_classes (central T) 0 kNumClasses (r\<lparr>central_bytes := 0, transfer_bytes := 0\<rparr>, class_count);
     (tb, class_count) \<leftarrow> GetThreadStats T 0 class_count;
     let h = heap_of T in
     Some (r\<lparr>thread_bytes := tb, metadata_bytes := of_nat (metadata_system_bytes (heap_meta h)),
       stat_system_bytes := system_bytes h, stat_free_bytes := free_bytes h, stat_unmapped_bytes := unmapped_bytes h,
       stat_committed_bytes := committed_bytes h\<rparr>, class_count) }"

end
