(* ===== verification/Span_Heap.thy ===== *)
theory Span_Heap
  imports Page_Heap_Run Central_Free_List
begin

text \<open>
  The page heap as its clients see it. \<open>V\<close> gives the data of every span in use, \<open>L\<close> the members of the
  clients' own span lists. The locale \<open>span_heap\<close> states what the operations that clients call do to
  these two, and \<open>A\<close> is memory that no span of the client reaches; \<open>heap_view\<close> is the relation to the page heap's state for which the model of the code
  keeps them.
\<close>

definition cheaders :: "span_ptr set" where
  "cheaders = CentralEmpty ` {..<kNumClasses} \<union> CentralNonempty ` {..<kNumClasses}"

definition span_pages :: "Span \<Rightarrow> nat set" where
  "span_pages d = extent (span_start d) (span_length d)"

text \<open>An update of the fields that belong to the central lists.\<close>

definition client_update :: "(Span \<Rightarrow> Span) \<Rightarrow> bool" where
  "client_update f = (\<forall>x. span_next (f x) = span_next x \<and> span_prev (f x) = span_prev x \<and>
     span_start (f x) = span_start x \<and> span_length (f x) = span_length x \<and> sizeclass (f x) = sizeclass x \<and> sample (f x) = sample x \<and>
     location (f x) = location x \<and> span_data (f x) = f (span_data x))"

section \<open>The interface\<close>

locale span_heap =
  fixes E :: "'os heap_env"
    and rep :: "'os page_heap \<Rightarrow> (addr \<rightharpoonup> Span) \<Rightarrow> (span_ptr \<Rightarrow> span_ptr list) \<Rightarrow> bool"
    and A :: "addr set"
  assumes member: "rep h V L \<Longrightarrow> H \<in> cheaders \<Longrightarrow> s \<in> set (L H) \<Longrightarrow> \<exists>a d. s = Sp a \<and> V a = Some d"
    and lists_distinct: "rep h V L \<Longrightarrow> H \<in> cheaders \<Longrightarrow> distinct (L H)"
    and lists_apart: "rep h V L \<Longrightarrow> H \<in> cheaders \<Longrightarrow> H' \<in> cheaders \<Longrightarrow> s \<in> set (L H) \<Longrightarrow> s \<in> set (L H') \<Longrightarrow> H = H'"
    and is_empty: "rep h V L \<Longrightarrow> H \<in> cheaders \<Longrightarrow> DLL_IsEmpty (spans h) H = (L H = [])"
    and first: "rep h V L \<Longrightarrow> H \<in> cheaders \<Longrightarrow> L H = s # ss \<Longrightarrow> span_next (span_of h H) = s"
    and view_data: "rep h V L \<Longrightarrow> V a = Some d \<Longrightarrow> span_data (span_of h (Sp a)) = d"
    and finite_view: "rep h V L \<Longrightarrow> finite (dom V)"
    and pages_bound: "rep h V L \<Longrightarrow> V a = Some d \<Longrightarrow> 0 < span_length d \<and> span_pages d \<subseteq> {0<..<2 ^ 34}"
    and pages_apart: "rep h V L \<Longrightarrow> V a = Some d \<Longrightarrow> V b = Some e \<Longrightarrow> a \<noteq> b \<Longrightarrow> span_pages d \<inter> span_pages e = {}"
    and foreign: "rep h V L \<Longrightarrow> V a = Some d \<Longrightarrow> page_bytes (span_pages d) \<inter> A = {}"
    and lookup: "rep h V L \<Longrightarrow> V a = Some d \<Longrightarrow> sizeclass d \<noteq> 0 \<Longrightarrow> p \<in> span_pages d \<Longrightarrow> GetDescriptor h p = Sp a"
    and remove: "rep h V L \<Longrightarrow> H \<in> cheaders \<Longrightarrow> s \<in> set (L H) \<Longrightarrow>
      \<exists>h'. lift_dll (\<lambda>st. DLL_Remove st s) h = Some h' \<and> rep h' V (L(H := removeAll s (L H)))"
    and prepend: "rep h V L \<Longrightarrow> H \<in> cheaders \<Longrightarrow> V a = Some d \<Longrightarrow> \<forall>H\<in>cheaders. Sp a \<notin> set (L H) \<Longrightarrow>
      \<exists>h'. lift_dll (\<lambda>st. DLL_Prepend st H (Sp a)) h = Some h' \<and> rep h' V (L(H := Sp a # L H))"
    and update: "rep h V L \<Longrightarrow> V a = Some d \<Longrightarrow> client_update f \<Longrightarrow>
      \<exists>h'. upd_span h (Sp a) f = Some h' \<and> rep h' (V(a \<mapsto> f d)) L"
    and delete: "rep h V L \<Longrightarrow> V a = Some d \<Longrightarrow> \<forall>H\<in>cheaders. Sp a \<notin> set (L H) \<Longrightarrow>
      \<exists>h'. Delete E h (Sp a) = Some h' \<and> rep h' (V(a := None)) L"
    and new: "rep h V L \<Longrightarrow> 0 < n \<Longrightarrow> \<exists>r. New E h n = Some r \<and> (\<forall>s h'. r = Ret (s, h') \<longrightarrow>
      (s = SNull \<and> rep h' V L \<or>
       (\<exists>a d. s = Sp a \<and> V a = None \<and> rep h' (V(a \<mapsto> d)) L \<and> span_length d = n \<and> sizeclass d = 0 \<and>
          (\<forall>H\<in>cheaders. Sp a \<notin> set (L H)))))"
    and register: "rep h V L \<Longrightarrow> V a = Some d \<Longrightarrow> sc < kNumClasses \<Longrightarrow>
      \<exists>h1 h2. RegisterSizeClass h (Sp a) sc = Some h1 \<and> span_data (span_of h1 (Sp a)) = d\<lparr>sizeclass := sc\<rparr> \<and>
        cache_pages h1 (span_start d) (span_length d) sc = Some h2 \<and> rep h2 (V(a \<mapsto> d\<lparr>sizeclass := sc\<rparr>)) L"

section \<open>The page heap meets the interface\<close>

definition heap_view :: "'os heap_env \<Rightarrow> ('os \<Rightarrow> nat set) \<Rightarrow> nat set \<Rightarrow> 'os page_heap \<Rightarrow> (addr \<rightharpoonup> Span) \<Rightarrow> (span_ptr \<Rightarrow> span_ptr list) \<Rightarrow> bool" where
  "heap_view E res Fm h V L =
     (os_contract (os_calls E) res \<and> (\<forall>x. res x \<subseteq> {..<2 ^ 42}) \<and> heap_limit_mb E = 0 \<and>
      (\<exists>U L'. heap_inv res Fm cheaders h U L' {} \<and> imbalance h U = 0 \<and>
         V = inuse_view (spans h) U \<and> (\<forall>H\<in>cheaders. L H = L' H)))"

lemma heap_viewE:
  assumes "heap_view E res Fm h V L"
  obtains U L' where "os_contract (os_calls E) res" "\<And>x. res x \<subseteq> {..<2 ^ 42}" "heap_limit_mb E = 0"
    "heap_inv res Fm cheaders h U L' {}" "imbalance h U = 0" "V = inuse_view (spans h) U"
    "\<And>H. H \<in> cheaders \<Longrightarrow> L H = L' H"
  using assms unfolding heap_view_def by blast

lemma heap_viewI:
  assumes "heap_view E res Fm h0 V0 L0" "heap_inv res Fm cheaders h U L' {}" "imbalance h U = 0"
    "V = inuse_view (spans h) U" "\<And>H. H \<in> cheaders \<Longrightarrow> L H = L' H"
  shows "heap_view E res Fm h V L"
  using assms unfolding heap_view_def by blast

lemma inuse_viewD: "inuse_view st U a = Some d \<Longrightarrow> a \<in> U \<and> loc_of st a = IN_USE \<and> d = span_data (st (Sp a))"
  by (auto simp: inuse_view_def split: if_splits)

lemma cheaders_not_headers: "H \<in> cheaders \<Longrightarrow> H \<notin> headers"
  by (auto simp: cheaders_def headers_def)

lemma cheaders_central: "cheaders \<subseteq> central_headers"
  by (auto simp: cheaders_def central_headers_def)

text \<open>Replacing the links of the spans by others that satisfy the lists.\<close>

lemma heap_inv_relink:
  assumes I: "heap_inv res Fm C h U L F" and O: "lists_ok C' st U L' F"
    and d: "\<And>x. span_data (st x) = span_data (spans h x)"
  shows "heap_inv res Fm C' (h\<lparr>spans := st\<rparr>) U L' F" "imbalance (h\<lparr>spans := st\<rparr>) U = imbalance h U"
    "inuse_view st U = inuse_view (spans h) U"
proof -
  note I' = heap_invD [OF I]
  note c = d [of "Sp _"]
  have "sums_ok (h\<lparr>spans := st\<rparr>) (U - F)"
    using I'(4) stat_sum_cong [of "U - F" st "spans h"] c by (simp add: sums_ok_def)
  moreover have "clean st U" using I'(6) span_data_fields [OF c] by (simp add: clean_def)
  moreover have "coalesced st (U - F)" using coalesced_cong [of "U - F" st "spans h"] c I'(5) by blast
  moreover have "mode_ok (aggressive_decommit h) st (U - F)" using mode_ok_cong [of "U - F" st "spans h"] c I'(8) by blast
  ultimately show "heap_inv res Fm C' (h\<lparr>spans := st\<rparr>) U L' F"
    using I' O view_cong [of U st "spans h"] mapped_cong [of U st "spans h"] c by (intro heap_invI) simp_all
  show "imbalance (h\<lparr>spans := st\<rparr>) U = imbalance h U"
    using stat_sum_cong [of U st "spans h"] c by (intro imbalance_same) simp_all
  show "inuse_view st U = inuse_view (spans h) U" using view_cong(4) c by blast
qed

text \<open>Members of central lists are taken off, and spans in use put on.\<close>

lemma lists_ok_central_remove:
  assumes O: "lists_ok C st U L F" and H: "H \<in> C" "s \<in> set (L H)"
  shows "\<exists>st'. DLL_Remove st s = Some st' \<and> lists_ok C st' U (L(H := removeAll s (L H))) F \<and>
    (\<forall>x. span_data (st' x) = span_data (st x))"
proof -
  let ?L = "L(H := removeAll s (L H))"
  have H': "H \<in> headers \<union> C" using H(1) by blast
  obtain st' where st': "DLL_Remove st s = Some st'" "dlls st' (headers \<union> C) ?L"
      "\<forall>x. span_data (st' x) = span_data (st x)" "loose st' s" "\<forall>x. loose st x \<longrightarrow> loose st' x"
    using DLL_Remove_dlls [OF lists_okD(3) [OF O] H' H(2)] by blast
  have d: "plen_of st' x = plen_of st x" "loc_of st' x = loc_of st x" for x
    using span_data_fields [of "st' (Sp x)" "st (Sp x)"] st'(3) by auto
  have nh: "H \<notin> headers" using H(1) lists_okD(1) [OF O] headers_central by blast
  have hd: "?L x = L x" if "x \<in> headers" for x using that nh by auto
  have "lists_ok C st' U ?L F"
    unfolding lists_ok_def d
  proof (intro conjI ballI impI)
    fix x assume x: "x \<in> U - F" "loc_of st x \<noteq> IN_USE"
    show "Sp x \<in> set (?L (list_of (loc_of st x) (plen_of st x)))"
      unfolding hd [OF list_of_header] by (rule lists_okD(4) [OF O x])
  next
    fix h s' assume h: "h \<in> headers" "s' \<in> set (?L h)"
    then show "\<exists>x\<in>U - F. s' = Sp x \<and> loc_of st x \<noteq> IN_USE \<and> h = list_of (loc_of st x) (plen_of st x)"
      unfolding hd [OF h(1)] by (intro lists_okD(5) [OF O])
  next
    fix h s' assume h: "h \<in> C" "s' \<in> set (?L h)"
    then have "s' \<in> set (L h)" by (auto split: if_splits)
    from lists_okD(6) [OF O h(1) this] show "\<exists>x\<in>U - F. s' = Sp x \<and> loc_of st x = IN_USE" .
  next
    fix x assume x: "x \<in> U" "\<not> listed (headers \<union> C) ?L (Sp x)"
    show "loose st' (Sp x)"
    proof (cases "Sp x = s")
      case False
      then have "\<not> listed (headers \<union> C) L (Sp x)" using x(2) by (auto simp: listed_def split: if_splits)
      then show ?thesis using lists_okD(7) [OF O x(1)] st'(5) by blast
    qed (use st'(4) in simp)
  qed (use O st' in \<open>auto simp: lists_ok_def\<close>)
  with st' show ?thesis by blast
qed

lemma lists_ok_central_prepend:
  assumes O: "lists_ok C st U L {}" and H: "H \<in> C" and a: "a \<in> U" "loc_of st a = IN_USE" "\<not> listed (headers \<union> C) L (Sp a)"
  shows "\<exists>st'. DLL_Prepend st H (Sp a) = Some st' \<and> lists_ok C st' U (L(H := Sp a # L H)) {} \<and>
    (\<forall>x. span_data (st' x) = span_data (st x))"
proof -
  let ?L = "L(H := Sp a # L H)"
  have H': "H \<in> headers \<union> C" using H(1) by blast
  have nl: "Sp a \<notin> headers \<union> C" using Sp_not_header [OF lists_okD(1) [OF O]] .
  obtain st' where st': "DLL_Prepend st H (Sp a) = Some st'" "dlls st' (headers \<union> C) ?L"
      "\<forall>x. span_data (st' x) = span_data (st x)" "\<forall>x. x \<noteq> Sp a \<longrightarrow> loose st x \<longrightarrow> loose st' x"
    using DLL_Prepend_dlls [OF lists_okD(3) [OF O] H' _ nl lists_okD(7) [OF O a(1,3)]] by blast
  have d: "plen_of st' x = plen_of st x" "loc_of st' x = loc_of st x" for x
    using span_data_fields [of "st' (Sp x)" "st (Sp x)"] st'(3) by auto
  have nh: "H \<notin> headers" using H(1) lists_okD(1) [OF O] headers_central by blast
  have hd: "?L x = L x" if "x \<in> headers" for x using that nh by auto
  have "lists_ok C st' U ?L {}"
    unfolding lists_ok_def d
  proof (intro conjI ballI impI)
    fix x assume x: "x \<in> U - {}" "loc_of st x \<noteq> IN_USE"
    show "Sp x \<in> set (?L (list_of (loc_of st x) (plen_of st x)))"
      unfolding hd [OF list_of_header] by (rule lists_okD(4) [OF O x])
  next
    fix h s' assume h: "h \<in> headers" "s' \<in> set (?L h)"
    then show "\<exists>x\<in>U - {}. s' = Sp x \<and> loc_of st x \<noteq> IN_USE \<and> h = list_of (loc_of st x) (plen_of st x)"
      unfolding hd [OF h(1)] by (intro lists_okD(5) [OF O])
  next
    fix h s' assume h: "h \<in> C" "s' \<in> set (?L h)"
    show "\<exists>x\<in>U - {}. s' = Sp x \<and> loc_of st x = IN_USE"
    proof (cases "s' = Sp a")
      case False
      then have "s' \<in> set (L h)" using h(2) by (auto split: if_splits)
      from lists_okD(6) [OF O h(1) this] show ?thesis .
    qed (use a in blast)
  next
    fix x assume x: "x \<in> U" "\<not> listed (headers \<union> C) ?L (Sp x)"
    have "Sp a \<in> set (?L H)" by simp
    then have "x \<noteq> a" using x(2) H' unfolding listed_def by blast
    moreover have "\<not> listed (headers \<union> C) L (Sp x)" using x(2) by (auto simp: listed_def split: if_splits)
    ultimately show "loose st' (Sp x)" using lists_okD(7) [OF O x(1)] st'(4) by blast
  qed (use O st' in \<open>auto simp: lists_ok_def\<close>)
  with st' show ?thesis by blast
qed

text \<open>Updates of the fields that the page heap does not look at while a span is in use.\<close>

lemma heap_inv_client_update:
  assumes I: "heap_inv res Fm C h U L {}" and a: "loc_of (spans h) a = IN_USE" and f: "client_update f"
  shows "heap_inv res Fm C (h\<lparr>spans := (spans h)(Sp a := f (spans h (Sp a)))\<rparr>) U L {}"
    "imbalance (h\<lparr>spans := (spans h)(Sp a := f (spans h (Sp a)))\<rparr>) U = imbalance h U"
proof -
  note I' = heap_invD [OF I]
  let ?st = "(spans h)(Sp a := f (spans h (Sp a)))"
  have ge: "start_of ?st b = start_of (spans h) b" "plen_of ?st b = plen_of (spans h) b"
    "loc_of ?st b = loc_of (spans h) b" "class_of ?st b = class_of (spans h) b" "sample (?st (Sp b)) = sample (spans h (Sp b))" for b
    using f by (auto simp: client_update_def)
  then have e: "ext ?st = ext (spans h)" by (simp add: ext_def fun_eq_iff)
  have p: "heap_pages ?st = heap_pages (spans h)" by (simp add: heap_pages_def e fun_eq_iff)
  have sum: "stat_sum ?st S l = stat_sum (spans h) S l" for S l unfolding stat_sum_def ge ..
  have "geom ?st U" using I'(1) unfolding geom_def ge e .
  moreover have "mapped (PageMap3_get BITS64 (pagemap h)) (PageMap3_ensured BITS64 (pagemap h)) ?st U"
    using I'(2) unfolding mapped_def p e ge .
  moreover have "lists_ok C ?st U L {}"
    using lists_ok_upd [OF I'(3), of f a] f a by (simp add: client_update_def)
  moreover have "sums_ok (h\<lparr>spans := ?st\<rparr>) (U - {})" using I'(4) by (simp add: sums_ok_def sum)
  moreover have "coalesced ?st (U - {})" using I'(5) unfolding coalesced_def ge .
  moreover have "clean ?st U" using I'(6) unfolding clean_def ge .
  moreover have "mode_ok (aggressive_decommit h) ?st (U - {})" using I'(8) unfolding mode_ok_def ge .
  moreover have "mem_ok res Fm (heap_meta h) (span_allocator h) (stacktrace_allocator h) U (heap_pages ?st U)"
    using I'(7) unfolding p .
  ultimately show "heap_inv res Fm C (h\<lparr>spans := ?st\<rparr>) U L {}" by (intro heap_invI) simp_all
  show "imbalance (h\<lparr>spans := ?st\<rparr>) U = imbalance h U" by (rule imbalance_same) (simp_all add: sum)
qed

lemma inuse_view_client_update:
  assumes "a \<in> U" "loc_of st a = IN_USE" "client_update f"
  shows "inuse_view (st(Sp a := f (st (Sp a)))) U = (inuse_view st U)(a \<mapsto> f (span_data (st (Sp a))))"
  using assms by (auto simp: inuse_view_def client_update_def fun_eq_iff)

lemma listed_cheaders:
  assumes O: "lists_ok cheaders st U L F" and a: "loc_of st a = IN_USE" and n: "\<forall>H\<in>cheaders. Sp a \<notin> set (L H)"
  shows "\<not> listed (headers \<union> cheaders) L (Sp a)"
proof
  assume "listed (headers \<union> cheaders) L (Sp a)"
  then obtain H where H: "H \<in> headers" "Sp a \<in> set (L H)" using n by (auto simp: listed_def)
  show False using lists_okD(5) [OF O H] a by auto
qed

text \<open>What a span in use tells of the invariant.\<close>

lemma view_fields:
  assumes "inuse_view (spans h) U a = Some d"
  shows "a \<in> U" "loc_of (spans h) a = IN_USE" "span_start d = start_of (spans h) a" "span_length d = plen_of (spans h) a"
    "sizeclass d = class_of (spans h) a" "span_pages d = ext (spans h) a" "d = span_data (spans h (Sp a))"
proof -
  show "a \<in> U" "loc_of (spans h) a = IN_USE" and d: "d = span_data (spans h (Sp a))"
    using inuse_viewD [OF assms] by simp_all
  have "span_data d = span_data (spans h (Sp a))" by (simp add: d span_data_def)
  from span_data_fields [OF this] show "span_start d = start_of (spans h) a" "span_length d = plen_of (spans h) a"
    "sizeclass d = class_of (spans h) a" "span_pages d = ext (spans h) a" by (simp_all add: span_pages_def ext_def)
qed

lemma heap_view_New:
  assumes R: "heap_view E res Fm h V L" and n: "0 < n"
  shows "\<exists>r. New E h n = Some r \<and> (\<forall>s h'. r = Ret (s, h') \<longrightarrow>
      (s = SNull \<and> heap_view E res Fm h' V L \<or>
       (\<exists>a d. s = Sp a \<and> V a = None \<and> heap_view E res Fm h' (V(a \<mapsto> d)) L \<and> span_length d = n \<and> sizeclass d = 0 \<and>
          (\<forall>H\<in>cheaders. Sp a \<notin> set (L H)))))"
proof -
  obtain U L' where O: "os_contract (os_calls E) res" "\<And>x. res x \<subseteq> {..<2 ^ 42}" "heap_limit_mb E = 0"
    "heap_inv res Fm cheaders h U L' {}" "imbalance h U = 0" "V = inuse_view (spans h) U"
    "\<And>H. H \<in> cheaders \<Longrightarrow> L H = L' H" using heap_viewE [OF R] by blast
  have small: "card (heap_pages (spans h') U') < 2 ^ 31" if "heap_inv res Fm cheaders h' U' L' {}" for h' :: "'a page_heap" and U' L'
    using few_pages [OF that O(2)] by simp
  have "\<exists>r. New E h n = Some r \<and> alloc_post res Fm cheaders h U L' n r"
    by (rule New_spec_bound [OF O(1,4,5,3) n]) (rule small)
  then obtain r where r: "New E h n = Some r" "alloc_post res Fm cheaders h U L' n r" by blast
  have "s = SNull \<and> heap_view E res Fm h' V L \<or>
       (\<exists>a d. s = Sp a \<and> V a = None \<and> heap_view E res Fm h' (V(a \<mapsto> d)) L \<and> span_length d = n \<and> sizeclass d = 0 \<and>
          (\<forall>H\<in>cheaders. Sp a \<notin> set (L H)))" if s: "r = Ret (s, h')" for s h'
  proof -
    obtain U1 L1 where A: "heap_inv res Fm cheaders h' U1 L1 {}" "imbalance h' U1 = 0"
      "\<forall>x. x \<notin> headers \<longrightarrow> L1 x = L' x" "s = SNull \<and> inuse_view (spans h') U1 = inuse_view (spans h) U \<or>
      (\<exists>a d. s = Sp a \<and> inuse_view (spans h) U a = None \<and>
        inuse_view (spans h') U1 = (inuse_view (spans h) U)(a \<mapsto> d) \<and> span_length d = n \<and> sizeclass d = 0 \<and>
        \<not> listed (headers \<union> cheaders) L1 (Sp a))" using r(2) s unfolding alloc_post_def by blast
    have L: "L H = L1 H" if "H \<in> cheaders" for H using O(7) [OF that] A(3) cheaders_not_headers [OF that] by simp
    note V = heap_viewI [OF R A(1,2) _ L]
    from A(4) show ?thesis
    proof (elim disjE exE conjE)
      fix a d assume a: "s = Sp a" "inuse_view (spans h) U a = None" "span_length d = n" "sizeclass d = 0"
        "inuse_view (spans h') U1 = (inuse_view (spans h) U)(a \<mapsto> d)" "\<not> listed (headers \<union> cheaders) L1 (Sp a)"
      have "\<forall>H\<in>cheaders. Sp a \<notin> set (L H)" using a(6) L by (auto simp: listed_def)
      moreover have "heap_view E res Fm h' (V(a \<mapsto> d)) L" by (rule V) (use a(5) O(6) in auto)
      ultimately show ?thesis using a O(6) by auto
    qed (use V O(6) in auto)
  qed
  with r(1) show ?thesis by blast
qed

lemma heap_view_lists:
  assumes R: "heap_view E res Fm h V L" and H: "H \<in> cheaders"
  shows "dll (spans h) H (L H)" "s \<in> set (L H) \<Longrightarrow> \<exists>a d. s = Sp a \<and> V a = Some d"
    "H' \<in> cheaders \<Longrightarrow> s \<in> set (L H) \<Longrightarrow> s \<in> set (L H') \<Longrightarrow> H = H'"
proof -
  obtain U L' where O: "heap_inv res Fm cheaders h U L' {}" "V = inuse_view (spans h) U" "\<And>H. H \<in> cheaders \<Longrightarrow> L H = L' H"
    using heap_viewE [OF R] by blast
  note D = lists_okD(3) [OF heap_invD(3) [OF O(1)]]
  show "dll (spans h) H (L H)" using dlls_dll [OF D, of H] H O(3) by simp
  show "\<exists>a d. s = Sp a \<and> V a = Some d" if "s \<in> set (L H)"
  proof -
    have "s \<in> set (L' H)" using that O(3) [OF H] by simp
    then obtain a where "a \<in> U" "s = Sp a" "loc_of (spans h) a = IN_USE"
      using lists_okD(6) [OF heap_invD(3) [OF O(1)] H] by blast
    then show ?thesis using O(2) by (auto simp: inuse_view_def)
  qed
  show "H = H'" if "H' \<in> cheaders" "s \<in> set (L H)" "s \<in> set (L H')"
    using dlls_disjoint [OF D, of H H' s] H that O(3) by auto
qed

lemma heap_view_relink:
  assumes R: "heap_view E res Fm h V L" and I: "heap_inv res Fm cheaders h U L0 {}" "V = inuse_view (spans h) U"
    "imbalance h U = 0"
    and O: "lists_ok cheaders st U L1 {}" and d: "\<forall>x. span_data (st x) = span_data (spans h x)"
    and L: "\<And>H. H \<in> cheaders \<Longrightarrow> L2 H = L1 H"
  shows "heap_view E res Fm (h\<lparr>spans := st\<rparr>) V L2"
  using heap_inv_relink [OF I(1) O d [rule_format]] I(2,3) L by (intro heap_viewI [OF R, of _ U L1]) auto

lemma cheaders_nonnull: "H \<in> cheaders \<Longrightarrow> H \<noteq> SNull"
  by (auto simp: cheaders_def)

lemma heap_view_pages:
  assumes R: "heap_view E res Fm h V L" and a: "V a = Some d"
  shows "0 < span_length d \<and> span_pages d \<subseteq> {0<..<2 ^ 34}" "span_data (span_of h (Sp a)) = d" "finite (dom V)"
    "V b = Some e \<Longrightarrow> a \<noteq> b \<Longrightarrow> span_pages d \<inter> span_pages e = {}"
    "sizeclass d \<noteq> 0 \<Longrightarrow> p \<in> span_pages d \<Longrightarrow> GetDescriptor h p = Sp a"
    "GetDescriptor h (span_start d) = Sp a" "\<not> sample d"
proof -
  obtain U L' where O: "heap_inv res Fm cheaders h U L' {}" "V = inuse_view (spans h) U"
    using heap_viewE [OF R] by blast
  note I = heap_invD [OF O(1)]
  note f = view_fields [OF a [unfolded O(2)]]
  show "0 < span_length d \<and> span_pages d \<subseteq> {0<..<2 ^ 34}" using I(1) f(1) unfolding f(4,6) by (simp add: geom_def)
  show "span_data (span_of h (Sp a)) = d" using f(7) by (simp add: span_of_def)
  have "dom V \<subseteq> U" using O(2) by (auto simp: inuse_view_def split: if_splits)
  then show "finite (dom V)" using geom_finite [OF I(1)] finite_subset by blast
  show "span_pages d \<inter> span_pages e = {}" if b: "V b = Some e" "a \<noteq> b"
  proof -
    note g = view_fields [OF b(1) [unfolded O(2)]]
    show ?thesis using I(1) f(1) g(1) b(2) unfolding f(6) g(6) by (simp add: geom_def)
  qed
  show "GetDescriptor h p = Sp a" if "sizeclass d \<noteq> 0" "p \<in> span_pages d"
    using mappedD(3) [OF I(2) f(1), of p] that unfolding f(5,6) by (simp add: GetDescriptor_def)
  show "GetDescriptor h (span_start d) = Sp a" using mappedD(1) [OF I(2) f(1)] unfolding f(3) by (simp add: GetDescriptor_def)
  show "\<not> sample d" using I(6) f(1) unfolding f(7) by (simp add: clean_def span_data_def)
qed

lemma heap_view_remove:
  assumes R: "heap_view E res Fm h V L" and H: "H \<in> cheaders" "s \<in> set (L H)"
  shows "\<exists>h'. lift_dll (\<lambda>st. DLL_Remove st s) h = Some h' \<and> heap_view E res Fm h' V (L(H := removeAll s (L H)))"
proof -
  obtain U L' where O: "heap_inv res Fm cheaders h U L' {}" "imbalance h U = 0" "V = inuse_view (spans h) U"
    "\<And>H. H \<in> cheaders \<Longrightarrow> L H = L' H" using heap_viewE [OF R] by blast
  have "s \<in> set (L' H)" using H O(4) by simp
  from lists_ok_central_remove [OF heap_invD(3) [OF O(1)] H(1) this] obtain st where
    st: "DLL_Remove (spans h) s = Some st" "lists_ok cheaders st U (L'(H := removeAll s (L' H))) {}"
      "\<forall>x. span_data (st x) = span_data (spans h x)" by blast
  have "heap_view E res Fm (h\<lparr>spans := st\<rparr>) V (L(H := removeAll s (L H)))"
    by (rule heap_view_relink [OF R O(1,3,2) st(2,3)]) (use O(4) in auto)
  then show ?thesis using st(1) by (simp add: lift_dll_def)
qed

lemma heap_view_prepend:
  assumes R: "heap_view E res Fm h V L" and H: "H \<in> cheaders" and a: "V a = Some d" "\<forall>H\<in>cheaders. Sp a \<notin> set (L H)"
  shows "\<exists>h'. lift_dll (\<lambda>st. DLL_Prepend st H (Sp a)) h = Some h' \<and> heap_view E res Fm h' V (L(H := Sp a # L H))"
proof -
  obtain U L' where O: "heap_inv res Fm cheaders h U L' {}" "imbalance h U = 0" "V = inuse_view (spans h) U"
    "\<And>H. H \<in> cheaders \<Longrightarrow> L H = L' H" using heap_viewE [OF R] by blast
  note f = view_fields [OF a(1) [unfolded O(3)]] and I = heap_invD(3) [OF O(1)]
  have "\<forall>H\<in>cheaders. Sp a \<notin> set (L' H)" using a(2) O(4) by simp
  from lists_ok_central_prepend [OF I H f(1,2) listed_cheaders [OF I f(2) this]] obtain st where
    st: "DLL_Prepend (spans h) H (Sp a) = Some st" "lists_ok cheaders st U (L'(H := Sp a # L' H)) {}"
      "\<forall>x. span_data (st x) = span_data (spans h x)" by blast
  have "heap_view E res Fm (h\<lparr>spans := st\<rparr>) V (L(H := Sp a # L H))"
    by (rule heap_view_relink [OF R O(1,3,2) st(2,3)]) (use O(4) in auto)
  then show ?thesis using st(1) by (simp add: lift_dll_def)
qed

lemma heap_view_update:
  assumes R: "heap_view E res Fm h V L" and a: "V a = Some d" and f: "client_update f"
  shows "\<exists>h'. upd_span h (Sp a) f = Some h' \<and> heap_view E res Fm h' (V(a \<mapsto> f d)) L"
proof -
  obtain U L' where O: "heap_inv res Fm cheaders h U L' {}" "imbalance h U = 0" "V = inuse_view (spans h) U"
    "\<And>H. H \<in> cheaders \<Longrightarrow> L H = L' H" using heap_viewE [OF R] by blast
  note v = view_fields [OF a [unfolded O(3)]]
  let ?h = "h\<lparr>spans := (spans h)(Sp a := f (spans h (Sp a)))\<rparr>"
  have "heap_view E res Fm ?h (V(a \<mapsto> f d)) L"
    using heap_inv_client_update [OF O(1) v(2) f] inuse_view_client_update [of a U "spans h", OF v(1,2) f] O(2-4) v(7)
    by (intro heap_viewI [OF R, of _ U L']) simp_all
  then show ?thesis by (simp add: upd_span_def)
qed

lemma heap_view_Delete:
  assumes R: "heap_view E res Fm h V L" and a: "V a = Some d" "\<forall>H\<in>cheaders. Sp a \<notin> set (L H)"
  shows "\<exists>h'. Delete E h (Sp a) = Some h' \<and> heap_view E res Fm h' (V(a := None)) L"
proof -
  obtain U L' where O: "os_contract (os_calls E) res" "heap_inv res Fm cheaders h U L' {}" "imbalance h U = 0" "V = inuse_view (spans h) U"
    "\<And>H. H \<in> cheaders \<Longrightarrow> L H = L' H" using heap_viewE [OF R] by blast
  note v = view_fields [OF a(1) [unfolded O(4)]]
  have "\<forall>H\<in>cheaders. Sp a \<notin> set (L' H)" using a(2) O(5) by simp
  from Delete_spec [OF O(1-3) v(1,2) listed_cheaders [OF heap_invD(3) [OF O(2)] v(2) this]] obtain h' U1 L1 where
    D: "Delete E h (Sp a) = Some h'" "heap_inv res Fm cheaders h' U1 L1 {}" "imbalance h' U1 = 0"
      "inuse_view (spans h') U1 = (inuse_view (spans h) U)(a := None)" "\<forall>x. x \<notin> headers \<longrightarrow> L1 x = L' x" by blast
  have "heap_view E res Fm h' (V(a := None)) L"
    by (rule heap_viewI [OF R D(2,3)]) (use D(4,5) O(4,5) cheaders_not_headers in auto)
  then show ?thesis using D(1) by blast
qed

lemma heap_view_Register:
  assumes R: "heap_view E res Fm h V L" and a: "V a = Some d"
  shows "\<exists>h'. RegisterSizeClass h (Sp a) sc = Some h' \<and> heap_view E res Fm h' (V(a \<mapsto> d\<lparr>sizeclass := sc mod 2 ^ 8\<rparr>)) L"
proof -
  obtain U L' where O: "heap_inv res Fm cheaders h U L' {}" "imbalance h U = 0" "V = inuse_view (spans h) U"
    "\<And>H. H \<in> cheaders \<Longrightarrow> L H = L' H" using heap_viewE [OF R] by blast
  note v = view_fields [OF a [unfolded O(3)]]
  from RegisterSizeClass_spec [OF O(1,2) v(1,2), of sc] obtain h' where
    D: "RegisterSizeClass h (Sp a) sc = Some h'" "heap_inv res Fm cheaders h' U L' {}" "imbalance h' U = 0"
      "aggressive_decommit h' = aggressive_decommit h"
      "inuse_view (spans h') U = (inuse_view (spans h) U)(a \<mapsto> (span_data (spans h (Sp a)))\<lparr>sizeclass := sc mod 2 ^ 8\<rparr>)" by blast
  have "heap_view E res Fm h' (V(a \<mapsto> d\<lparr>sizeclass := sc mod 2 ^ 8\<rparr>)) L"
    by (rule heap_viewI [OF R D(2,3)]) (use D(5) O(3,4) v(7) in auto)
  then show ?thesis using D(1) by blast
qed

lemma heap_view_cache:
  assumes R: "heap_view E res Fm h V L"
  shows "heap_view E res Fm (h\<lparr>pagemap_cache := c\<rparr>) V L"
proof -
  obtain U L' where O: "heap_inv res Fm cheaders h U L' {}" "imbalance h U = 0" "V = inuse_view (spans h) U"
    "\<And>H. H \<in> cheaders \<Longrightarrow> L H = L' H" using heap_viewE [OF R] by blast
  have "heap_inv res Fm cheaders (h\<lparr>pagemap_cache := c\<rparr>) U L' {}" using O(1) by (simp add: heap_inv_def sums_ok_def)
  then show ?thesis using O by (intro heap_viewI [OF R, of _ U L']) (simp_all add: imbalance_def)
qed

end
