(* ===== verification/Page_Heap_Cache.thy ===== *)
theory Page_Heap_Cache
  imports Page_Heap
begin

text \<open>
  The cache of size classes that the page heap keeps: only \<open>CacheSizeClass\<close> changes it. The lemmas go
  through the operations in the order in which they call each other.
\<close>

named_theorems same_cache

lemma bindE: "Option.bind m f = Some r \<Longrightarrow> (\<And>y. m = Some y \<Longrightarrow> f y = Some r \<Longrightarrow> P) \<Longrightarrow> P"
  by (cases m) auto

lemma upd_span_cache [same_cache]: "upd_span h s f = Some h' \<Longrightarrow> pagemap_cache h' = pagemap_cache h"
  by (auto simp: upd_span_def split: if_splits)

lemma lift_dll_cache [same_cache]: "lift_dll f h = Some h' \<Longrightarrow> pagemap_cache h' = pagemap_cache h"
  by (auto simp: lift_dll_def elim!: bindE)

lemma NewSpan_cache [same_cache]: "NewSpan E h p len = Some (Ret (s, h')) \<Longrightarrow> pagemap_cache h' = pagemap_cache h"
  by (auto simp: NewSpan_def elim!: bindE split: outcome.splits)

lemma DeleteSpan_cache [same_cache]: "DeleteSpan h s = Some h' \<Longrightarrow> pagemap_cache h' = pagemap_cache h"
  by (auto simp: DeleteSpan_def elim!: bindE split: span_ptr.splits)

lemma pagemap_set_cache [same_cache]: "pagemap_set h p s = Some h' \<Longrightarrow> pagemap_cache h' = pagemap_cache h"
  by (auto simp: pagemap_set_def elim!: bindE)

lemma RecordSpan_cache [same_cache]: "RecordSpan h s = Some h' \<Longrightarrow> pagemap_cache h' = pagemap_cache h"
  by (auto simp: RecordSpan_def elim!: bindE dest!: pagemap_set_cache split: if_splits)

lemma PrependToFreeList_cache [same_cache]: "PrependToFreeList h s = Some h' \<Longrightarrow> pagemap_cache h' = pagemap_cache h"
  by (auto simp: PrependToFreeList_def Let_def elim!: bindE dest!: lift_dll_cache split: if_splits)

lemma RemoveFromFreeList_cache [same_cache]: "RemoveFromFreeList h s = Some h' \<Longrightarrow> pagemap_cache h' = pagemap_cache h"
  by (auto simp: RemoveFromFreeList_def Let_def elim!: bindE dest!: lift_dll_cache split: if_splits)

lemma CommitSpan_cache [same_cache]: "CommitSpan E h s = Some h' \<Longrightarrow> pagemap_cache h' = pagemap_cache h"
  by (auto simp: CommitSpan_def elim!: bindE)

lemma DecommitSpan_cache [same_cache]: "DecommitSpan E h s = Some (b, h') \<Longrightarrow> pagemap_cache h' = pagemap_cache h"
  by (auto simp: DecommitSpan_def Let_def elim!: bindE split: if_splits)

lemma MergePrev_cache [same_cache]: "MergePrev h s p = Some (h', t) \<Longrightarrow> pagemap_cache h' = pagemap_cache h"
  by (auto simp: MergePrev_def Let_def elim!: bindE dest!: same_cache split: if_splits)

lemma MergeNext_cache [same_cache]: "MergeNext h s q t = Some (h', t') \<Longrightarrow> pagemap_cache h' = pagemap_cache h"
  by (auto simp: MergeNext_def Let_def elim!: bindE dest!: same_cache split: if_splits)

lemma MergeIntoFreeList_cache [same_cache]: "MergeIntoFreeList E h s = Some h' \<Longrightarrow> pagemap_cache h' = pagemap_cache h"
  by (auto simp: MergeIntoFreeList_def Let_def elim!: bindE dest!: same_cache split: if_splits)

lemma ReleaseLastNormalSpan_cache [same_cache]:
  "ReleaseLastNormalSpan E h hdr = Some (n, h') \<Longrightarrow> pagemap_cache h' = pagemap_cache h"
  by (auto simp: ReleaseLastNormalSpan_def Let_def elim!: bindE dest!: same_cache split: if_splits)

lemma Release_pass_cache [same_cache]:
  "Release_pass E k h num r = Some (b, r', h') \<Longrightarrow> pagemap_cache h' = pagemap_cache h"
proof (induction k arbitrary: h r)
  case (Suc k)
  show ?case
  proof (cases "r < num")
    case True
    let ?ri = "if release_index h > kMaxPages then 0 else release_index h"
    let ?hdr = "if ?ri = kMaxPages then LargeNormal else FreeNormal ?ri" and ?h = "h\<lparr>release_index := ?ri\<rparr>"
    from Suc.prems True obtain stop r1 h1 where
      1: "(if \<not> DLL_IsEmpty (spans ?h) ?hdr then do {
               (len, h) \<leftarrow> ReleaseLastNormalSpan E ?h ?hdr;
               if len = 0 then Some (True, r, h) else Some (False, add64 r len, h) }
             else Some (False, r, ?h)) = Some (stop, r1, h1)"
      and 2: "(if stop then Some (True, r1, h1) else Release_pass E k (h1\<lparr>release_index := release_index h1 + 1\<rparr>) num r1) = Some (b, r', h')"
      by (auto simp: Let_def elim!: bindE)
    have "pagemap_cache h1 = pagemap_cache h"
      using 1 by (auto elim!: bindE dest!: ReleaseLastNormalSpan_cache split: if_splits)
    with 2 show ?thesis using Suc.IH by (auto split: if_splits)
  qed (use Suc.prems in simp)
qed simp

lemma Release_loop_cache [same_cache]:
  assumes "Release_loop E h num r = Some (n, h')"
  shows "pagemap_cache h' = pagemap_cache h"
proof -
  have "pagemap_cache (snd x) = pagemap_cache h" if "Release_loop E h num r = Some x" for x
  proof (rule Release_loop.raw_induct [where P = "\<lambda>E h num r x. pagemap_cache (snd x) = pagemap_cache h", OF _ that])
    fix f :: "'a heap_env \<Rightarrow> 'a page_heap \<Rightarrow> nat \<Rightarrow> nat \<Rightarrow> (nat \<times> 'a page_heap) option" and E h num r x
    assume IH: "\<And>E h num r x. f E h num r = Some x \<Longrightarrow> pagemap_cache (snd x) = pagemap_cache h"
      and x: "(if r < num \<and> free_bytes h > 0 then do {
        (stop, r, h) \<leftarrow> Release_pass E (kMaxPages + 1) h num r;
        if stop then Some (r, h) else f E h num r }
      else Some (r, h)) = Some x"
    show "pagemap_cache (snd x) = pagemap_cache h" using x by (auto simp del: Release_pass.simps elim!: bindE dest!: IH Release_pass_cache split: if_splits prod.splits)
  qed
  from this [OF assms] show ?thesis by simp
qed

lemma ReleaseAtLeastNPages_cache [same_cache]: "ReleaseAtLeastNPages E h n = Some (r, h') \<Longrightarrow> pagemap_cache h' = pagemap_cache h"
  unfolding ReleaseAtLeastNPages_def by (rule Release_loop_cache)

lemma IncrementalScavenge_cache [same_cache]: "IncrementalScavenge E h n = Some h' \<Longrightarrow> pagemap_cache h' = pagemap_cache h"
  by (auto simp: IncrementalScavenge_def Let_def elim!: bindE dest!: same_cache split: if_splits)

lemma EnsureLimit_cache [same_cache]: "EnsureLimit E h n b = Some (ok, h') \<Longrightarrow> pagemap_cache h' = pagemap_cache h"
  by (auto simp: EnsureLimit_def Let_def elim!: bindE dest!: same_cache split: if_splits)

lemma Carve_leftover_cache [same_cache]:
  "Carve_leftover E h s n extra loc = Some (Ret h') \<Longrightarrow> pagemap_cache h' = pagemap_cache h"
  by (auto simp: Carve_leftover_def Let_def elim!: bindE dest!: same_cache split: if_splits outcome.splits)

lemma Carve_cache [same_cache]: "Carve E h s n = Some (Ret (s', h')) \<Longrightarrow> pagemap_cache h' = pagemap_cache h"
  by (auto simp: Carve_def Let_def elim!: bindE dest!: same_cache split: if_splits outcome.splits)

lemma Delete_cache [same_cache]: "Delete E h s = Some h' \<Longrightarrow> pagemap_cache h' = pagemap_cache h"
  by (auto simp: Delete_def Let_def elim!: bindE dest!: same_cache split: if_splits)

lemma RecordGrowth_cache [same_cache]: "RecordGrowth E h n = Some (Ret h') \<Longrightarrow> pagemap_cache h' = pagemap_cache h"
  by (auto simp: RecordGrowth_def elim!: bindE split: outcome.splits)

lemma GrowHeap_alloc_cache [same_cache]: "GrowHeap_alloc E h n = Some (p, a, h') \<Longrightarrow> pagemap_cache h' = pagemap_cache h"
  by (auto simp: GrowHeap_alloc_def Let_def elim!: bindE dest!: same_cache split: if_splits)

lemma GrowHeap_add_cache [same_cache]: "GrowHeap_add E h p a = Some (Ret (b, h')) \<Longrightarrow> pagemap_cache h' = pagemap_cache h"
  by (auto simp: GrowHeap_add_def Let_def elim!: bindE dest!: same_cache split: if_splits outcome.splits prod.splits)

lemma GrowHeap_cache [same_cache]: "GrowHeap E h n = Some (Ret (b, h')) \<Longrightarrow> pagemap_cache h' = pagemap_cache h"
  by (auto simp: GrowHeap_def Let_def elim!: bindE dest!: same_cache split: if_splits)

lemma AllocLarge_cache [same_cache]:
  assumes "AllocLarge E h n = Some (Ret (s, h'))"
  shows "pagemap_cache h' = pagemap_cache h"
proof -
  have "\<forall>s h'. x = Ret (s, h') \<longrightarrow> pagemap_cache h' = pagemap_cache h" if "AllocLarge E h n = Some x" for x
  proof (rule AllocLarge.raw_induct [where P = "\<lambda>E h n x. \<forall>s h'. x = Ret (s, h') \<longrightarrow> pagemap_cache h' = pagemap_cache h", OF _ that], goal_cases)
    case (1 f E h n x)
    have IH: "f E h n = Some (Ret (s, h')) \<Longrightarrow> pagemap_cache h' = pagemap_cache h" for E h n s h' using "1"(1) by blast
    show ?case using "1"(2) by (auto elim!: bindE dest!: IH same_cache split: if_splits prod.splits)
  qed
  from this [OF assms] show ?thesis by simp
qed

lemma Search_lists_cache [same_cache]: "Search_lists E h n i = Some (Ret (s, h')) \<Longrightarrow> pagemap_cache h' = pagemap_cache h"
proof (induction "kMaxPages - i" arbitrary: h i rule: less_induct)
  case less
  have IH: "Search_lists E h1 n (Suc i) = Some (Ret (s, h')) \<Longrightarrow> pagemap_cache h' = pagemap_cache h1" if "i < kMaxPages" for h1
    using less.hyps [of "Suc i" h1] that by simp
  show ?case using less.prems unfolding Search_lists.simps [of E h n i]
    by (cases "i < kMaxPages") (auto elim!: bindE dest!: same_cache IH split: if_splits)
qed

lemma SearchFreeAndLargeLists_cache [same_cache]: "SearchFreeAndLargeLists E h n = Some (Ret (s, h')) \<Longrightarrow> pagemap_cache h' = pagemap_cache h"
  by (auto simp: SearchFreeAndLargeLists_def dest!: same_cache split: if_splits)

lemma New_grow_cache [same_cache]: "New_grow E h n = Some (Ret (s, h')) \<Longrightarrow> pagemap_cache h' = pagemap_cache h"
  by (auto simp: New_grow_def elim!: bindE dest!: same_cache split: if_splits outcome.splits)

lemma New_cache [same_cache]: "New E h n = Some (Ret (s, h')) \<Longrightarrow> pagemap_cache h' = pagemap_cache h"
  by (auto simp: New_def elim!: bindE dest!: same_cache split: if_splits outcome.splits)

lemma Split_cache [same_cache]: "Split E h s n = Some (Ret (s', h')) \<Longrightarrow> pagemap_cache h' = pagemap_cache h"
  by (auto simp: Split_def Let_def elim!: bindE dest!: same_cache split: if_splits outcome.splits)

lemma set_interior_cache [same_cache]: "set_interior h s i k = Some h' \<Longrightarrow> pagemap_cache h' = pagemap_cache h"
  by (induction k arbitrary: h i) (auto elim!: bindE dest!: pagemap_set_cache)

lemma RegisterSizeClass_cache [same_cache]: "RegisterSizeClass h s sc = Some h' \<Longrightarrow> pagemap_cache h' = pagemap_cache h"
  by (auto simp: RegisterSizeClass_def elim!: bindE dest!: same_cache split: if_splits)

section \<open>What CacheSizeClass does\<close>

lemma of_nat_mask: "p < 2 ^ n \<Longrightarrow> (of_nat p :: 64 word) AND mask n = of_nat p"
proof -
  assume p: "p < 2 ^ n"
  have "take_bit n (of_nat p :: 64 word) = of_nat (take_bit n p)"
    by transfer (simp add: take_bit_of_nat take_bit_take_bit min.commute)
  also have "take_bit n p = p" using p by (simp add: take_bit_nat_eq_self)
  finally show ?thesis by (simp add: take_bit_eq_mask)
qed

lemma key_ok_page: "p < 2 ^ 51 \<Longrightarrow> key_ok 51 (of_nat p :: 64 word)"
  using of_nat_mask [of p 51] by (simp add: key_ok_def kKeyMask_def N_ONES_mask)

lemma val_ok_class: "c < kNumClasses \<Longrightarrow> val_ok (of_nat c :: 64 word)"
  using of_nat_mask [of c 7] by (simp add: val_ok_def kValueMask_def N_ONES_mask kValuebits_def config_defs)

text \<open>What the cache says of page \<open>p\<close> is nothing or the class \<open>c\<close>.\<close>

definition cached_as :: "'os page_heap \<Rightarrow> nat \<Rightarrow> nat \<Rightarrow> bool" where
  "cached_as h p c = (GetSizeClassIfCached h p = Some 0 \<or> GetSizeClassIfCached h p = Some c)"

lemma cached_as_same: "pagemap_cache h' = pagemap_cache h \<Longrightarrow> cached_as h' p c = cached_as h p c"
  by (simp add: cached_as_def GetSizeClassIfCached_def)

lemma unat_of_page: "p < 2 ^ 51 \<Longrightarrow> unat (of_nat p :: 64 word) = p"
  unfolding unat_of_nat by simp

lemma page_of_nat: "p < 2 ^ 51 \<Longrightarrow> q < 2 ^ 51 \<Longrightarrow> (of_nat p :: 64 word) = of_nat q \<Longrightarrow> p = q"
  using unat_of_page [of p] unat_of_page [of q] by metis

lemma CacheSizeClass_ok:
  assumes p: "p < 2 ^ 51" and c: "c < kNumClasses"
  shows "\<exists>k. CacheSizeClass h p c = Some (h\<lparr>pagemap_cache := k\<rparr>) \<and> cached_as (h\<lparr>pagemap_cache := k\<rparr>) p c \<and>
    (c = 0 \<longrightarrow> GetSizeClassIfCached (h\<lparr>pagemap_cache := k\<rparr>) p = Some 0) \<and>
    (\<forall>q<2 ^ 51. \<forall>j. q \<noteq> p \<longrightarrow> cached_as h q j \<longrightarrow> cached_as (h\<lparr>pagemap_cache := k\<rparr>) q j)"
proof -
  note k = key_ok_page [OF p] and v = val_ok_class [OF c]
  obtain c' where c': "Cache_Put 51 (pagemap_cache h) (of_nat p) (of_nat c) = Some c'" using cache64.Put_ok [OF k v] by blast
  have uc: "unat (of_nat c :: 64 word) = c" by (rule unat_of_page) (use c in \<open>simp add: config_defs\<close>)
  have g: "Cache_GetOrDefault 51 c' (of_nat p) 0 = Some (of_nat c)" using cache64.Get_put [OF c'] by blast
  have "cached_as (h\<lparr>pagemap_cache := c'\<rparr>) q j" if q: "q < 2 ^ 51" "q \<noteq> p" and a: "cached_as h q j" for q j
  proof -
    have ne: "(of_nat q :: 64 word) \<noteq> of_nat p" using page_of_nat [OF q(1) p] q(2) by blast
    have "Cache_Has 51 c' (of_nat q) = Some False \<or> Cache_GetOrDefault 51 c' (of_nat q) 0 = Cache_GetOrDefault 51 (pagemap_cache h) (of_nat q) 0"
      using Cache_Put_effect(3) [OF sizes_ok_64 c' key_ok_page [OF q(1)] ne] by blast
    moreover have "Cache_GetOrDefault 51 c' (of_nat q) 0 = Some 0" if "Cache_Has 51 c' (of_nat q) = Some False"
      by (rule cache64.Get_miss [OF that])
    ultimately show ?thesis using a by (auto simp: cached_as_def GetSizeClassIfCached_def)
  qed
  then show ?thesis using c' g uc
    by (intro exI [of _ c']) (simp add: CacheSizeClass_def cached_as_def GetSizeClassIfCached_def)
qed

text \<open>A new page heap says nothing of page 0, where no span ever starts.\<close>

lemma Cache_Clear_from_slot0:
  "Cache_Clear_from kb val i n arr = Some (arr' :: (64, 64) packed_cache) \<Longrightarrow> 0 < i \<Longrightarrow> i + n \<le> 2 ^ 64 \<Longrightarrow> arr' 0 = arr 0"
proof (induction n arbitrary: i arr)
  case (Suc n)
  have "(of_nat i :: 64 word) \<noteq> 0" using Suc.prems(2,3) by (simp add: word_of_nat_eq_0_iff) (auto dest: dvd_imp_le)
  with Suc.prems(1) Suc.IH [OF _ _ _] Suc.prems(2,3) show ?case by (auto elim!: bindE split: if_splits)
qed simp

lemma PageHeap_new_cached:
  assumes "PageHeap_new m sa ta st pm cache = Some h"
  shows "cached_as h 0 0"
proof -
  obtain c where c: "Cache_Clear BITS64 cache 0 = Some c" "pagemap_cache h = c"
    using assms by (auto simp: PageHeap_new_def elim!: bindE)
  obtain n where n: "(2::nat) ^ kHashbits = Suc n" "Suc n \<le> 2 ^ 64" by (cases "(2::nat) ^ kHashbits") (auto simp: kHashbits_def)
  have "kUseWholeKeys BITS64 TYPE(64)" by (simp add: kUseWholeKeys_def kValuebits_def)
  with c(1) have "Cache_Clear_from BITS64 0 1 n (cache(0 := KeyToUpper BITS64 (0 :: 64 word))) = Some c"
    by (auto simp: Cache_Clear_def n(1) elim!: bindE split: if_splits)
  from Cache_Clear_from_slot0 [OF this] n(2) have "c 0 = KeyToUpper BITS64 (0 :: 64 word)" by simp
  then have "c 0 = 0" by (simp add: KeyToUpper_def)
  then show ?thesis using c(2)
    by (auto simp: cached_as_def GetSizeClassIfCached_def Cache_GetOrDefault_def Hash_def EntryToValue_def)
qed

end
