(* ===== verification/Span_Frame.thy ===== *)
theory Span_Frame
  imports Span_Heap Page_Heap_Cache
begin

text \<open>
  The page heap with two clients: the central lists own the spans of the view \<open>V\<close>, the program those of
  \<open>B\<close>, whole runs of pages. What the cache of size classes says is right for the pages of both.
\<close>

section \<open>The cache of size classes is right\<close>

definition cache_right :: "'os page_heap \<Rightarrow> (addr \<rightharpoonup> Span) \<Rightarrow> (addr \<rightharpoonup> Span) \<Rightarrow> bool" where
  "cache_right h V B =
     ((\<forall>a d p. V a = Some d \<longrightarrow> sizeclass d \<noteq> 0 \<longrightarrow> p \<in> span_pages d \<longrightarrow> cached_as h p (sizeclass d)) \<and>
      (\<forall>a d. B a = Some d \<longrightarrow> sizeclass d = 0 \<and> cached_as h (span_start d) 0) \<and> cached_as h 0 0)"

lemma cache_rightD:
  assumes "cache_right h V B"
  shows "V a = Some d \<Longrightarrow> sizeclass d \<noteq> 0 \<Longrightarrow> p \<in> span_pages d \<Longrightarrow> cached_as h p (sizeclass d)"
    "B a = Some d \<Longrightarrow> sizeclass d = 0 \<and> cached_as h (span_start d) 0" "cached_as h 0 0"
  using assms unfolding cache_right_def by blast+

lemma cache_right_same: "cache_right h V B \<Longrightarrow> pagemap_cache h' = pagemap_cache h \<Longrightarrow> cache_right h' V B"
  using cached_as_same [of h' h] unfolding cache_right_def by blast

lemma cache_right_upd:
  assumes "cache_right h V B" "sizeclass d \<noteq> 0 \<Longrightarrow> \<forall>p\<in>span_pages d. cached_as h p (sizeclass d)"
  shows "cache_right h (V(a \<mapsto> d)) B"
  using assms unfolding cache_right_def by (auto split: if_splits)

lemma cache_right_drop: "cache_right h V B \<Longrightarrow> cache_right h (V(a := None)) B" "cache_right h V B \<Longrightarrow> cache_right h V (B(a := None))"
  unfolding cache_right_def by (auto split: if_splits)

text \<open>The pages of a span are entered; what is right for the other spans stays.\<close>

lemma cache_pages_right:
  assumes c: "c < kNumClasses" and p: "p + n \<le> 2 ^ 34"
  shows "\<exists>k. cache_pages h p n c = Some (h\<lparr>pagemap_cache := k\<rparr>) \<and>
    (\<forall>q<n. cached_as (h\<lparr>pagemap_cache := k\<rparr>) (p + q) c) \<and>
    (\<forall>q<2 ^ 34. \<forall>j. q \<notin> extent p n \<longrightarrow> cached_as h q j \<longrightarrow> cached_as (h\<lparr>pagemap_cache := k\<rparr>) q j)"
  using p
proof (induction n arbitrary: h p)
  case 0
  then show ?case by (intro exI [of _ "pagemap_cache h"]) simp
next
  case (Suc n)
  have p51: "p < 2 ^ 51" using Suc.prems by simp
  from CacheSizeClass_ok [OF p51 c, of h] obtain k where k: "CacheSizeClass h p c = Some (h\<lparr>pagemap_cache := k\<rparr>)"
    "cached_as (h\<lparr>pagemap_cache := k\<rparr>) p c"
    "\<And>q j. q < 2 ^ 51 \<Longrightarrow> q \<noteq> p \<Longrightarrow> cached_as h q j \<Longrightarrow> cached_as (h\<lparr>pagemap_cache := k\<rparr>) q j" by blast
  have "p + 1 + n \<le> 2 ^ 34" using Suc.prems by simp
  from Suc.IH [OF this, of "h\<lparr>pagemap_cache := k\<rparr>"] obtain k' where k': "cache_pages (h\<lparr>pagemap_cache := k\<rparr>) (p + 1) n c = Some (h\<lparr>pagemap_cache := k'\<rparr>)"
    "\<And>q. q < n \<Longrightarrow> cached_as (h\<lparr>pagemap_cache := k'\<rparr>) (p + 1 + q) c"
    "\<And>q j. q < 2 ^ 34 \<Longrightarrow> q \<notin> extent (p + 1) n \<Longrightarrow> cached_as (h\<lparr>pagemap_cache := k\<rparr>) q j \<Longrightarrow> cached_as (h\<lparr>pagemap_cache := k'\<rparr>) q j" by auto
  have "cached_as (h\<lparr>pagemap_cache := k'\<rparr>) (p + q) c" if q: "q < Suc n" for q
  proof (cases q)
    case 0
    have "p < 2 ^ 34" "p \<notin> extent (p + 1) n" using Suc.prems by (simp_all add: extent_def)
    then show ?thesis using k'(3) k(2) 0 by simp
  next
    case (Suc i)
    then show ?thesis using k'(2) [of i] q by simp
  qed
  moreover have "cached_as (h\<lparr>pagemap_cache := k'\<rparr>) q j" if q: "q < 2 ^ 34" "q \<notin> extent p (Suc n)" "cached_as h q j" for q j
  proof (rule k'(3) [OF q(1)])
    show "q \<notin> extent (p + 1) n" using q(2) by (auto simp: extent_def)
    have "q \<noteq> p" "q < 2 ^ 51" using q(1,2) by (auto simp: extent_def)
    then show "cached_as (h\<lparr>pagemap_cache := k\<rparr>) q j" using k(3) q(3) by blast
  qed
  ultimately show ?case using k(1) k'(1) by (intro exI [of _ k']) simp
qed

section \<open>Two owners\<close>

definition heap_frame :: "'os heap_env \<Rightarrow> ('os \<Rightarrow> nat set) \<Rightarrow> (addr \<rightharpoonup> Span) \<Rightarrow> nat set \<Rightarrow> 'os page_heap \<Rightarrow> (addr \<rightharpoonup> Span) \<Rightarrow>
    (span_ptr \<Rightarrow> span_ptr list) \<Rightarrow> bool" where
  "heap_frame E res B Fm h V L = (heap_view E res Fm h (V ++ B) L \<and> dom V \<inter> dom B = {} \<and>
     (\<forall>H\<in>cheaders. \<forall>a\<in>dom B. Sp a \<notin> set (L H)) \<and> cache_right h V B)"

lemma heap_frameD:
  assumes "heap_frame E res B Fm h V L"
  shows "heap_view E res Fm h (V ++ B) L" "dom V \<inter> dom B = {}" "H \<in> cheaders \<Longrightarrow> a \<in> dom B \<Longrightarrow> Sp a \<notin> set (L H)" "cache_right h V B"
    "V a = Some d \<Longrightarrow> (V ++ B) a = Some d" "V a = Some d \<Longrightarrow> B a = None" "B a = Some d \<Longrightarrow> V a = None"
proof -
  show "dom V \<inter> dom B = {}" "cache_right h V B" "heap_view E res Fm h (V ++ B) L"
    "H \<in> cheaders \<Longrightarrow> a \<in> dom B \<Longrightarrow> Sp a \<notin> set (L H)" using assms unfolding heap_frame_def by blast+
  then show "V a = Some d \<Longrightarrow> (V ++ B) a = Some d" "V a = Some d \<Longrightarrow> B a = None" "B a = Some d \<Longrightarrow> V a = None"
    by (auto simp: map_add_def split: option.splits)
qed

lemma frame_pages:
  assumes R: "heap_frame E res B Fm h V L" and a: "V a = Some d"
  shows "span_start d + span_length d \<le> 2 ^ 34" "(V ++ B) b = Some e \<Longrightarrow> a \<noteq> b \<Longrightarrow> span_pages d \<inter> span_pages e = {}"
proof -
  note F = heap_frameD [OF R]
  note P = heap_view_pages [OF F(1) F(5) [OF a]]
  have "span_start d + span_length d - 1 \<in> span_pages d" using P(1) by (auto simp: span_pages_def extent_def)
  then show "span_start d + span_length d \<le> 2 ^ 34" using P(1) by fastforce
  show "span_pages d \<inter> span_pages e = {}" if "(V ++ B) b = Some e" "a \<noteq> b" using P(4) [OF that] .
qed

definition owned_bytes :: "(addr \<rightharpoonup> Span) \<Rightarrow> addr set" where
  "owned_bytes B = (\<Union>d\<in>ran B. page_bytes (span_pages d))"

lemma owned_bytesI: "B a = Some d \<Longrightarrow> x \<in> page_bytes (span_pages d) \<Longrightarrow> x \<in> owned_bytes B"
  unfolding owned_bytes_def by (blast intro: ranI)

lemma owned_bytes_empty [simp]: "owned_bytes Map.empty = {}"
  by (simp add: owned_bytes_def)

lemma frame_foreign:
  assumes R: "heap_frame E res B Fm h V L" and a: "V a = Some d"
  shows "page_bytes (span_pages d) \<inter> owned_bytes B = {}"
proof -
  have "page_bytes (span_pages d) \<inter> page_bytes (span_pages e) = {}" if b: "B b = Some e" for b e
  proof -
    have "a \<noteq> b" using heap_frameD(6) [OF R a] b by auto
    then have "span_pages d \<inter> span_pages e = {}" using frame_pages(2) [OF R a map_add_find_right [of B b e V, OF b]] by blast
    then show ?thesis by (auto simp: page_bytes_def)
  qed
  then show ?thesis unfolding owned_bytes_def ran_def by blast
qed

lemma start_page: "0 < span_length d \<Longrightarrow> span_start d \<in> span_pages d"
  by (simp add: span_pages_def extent_def)

lemma frame_remove:
  assumes R: "heap_frame E res B Fm h V L" and H: "H \<in> cheaders" "s \<in> set (L H)"
  shows "\<exists>h'. lift_dll (\<lambda>st. DLL_Remove st s) h = Some h' \<and> heap_frame E res B Fm h' V (L(H := removeAll s (L H)))"
proof -
  note F = heap_frameD [OF R]
  obtain h' where h': "lift_dll (\<lambda>st. DLL_Remove st s) h = Some h'" "heap_view E res Fm h' (V ++ B) (L(H := removeAll s (L H)))"
    using heap_view_remove [OF F(1) H] by blast
  then show ?thesis using F(2-4) cache_right_same [OF F(4) lift_dll_cache [OF h'(1)]] by (auto simp: heap_frame_def)
qed

lemma frame_prepend:
  assumes R: "heap_frame E res B Fm h V L" and H: "H \<in> cheaders" and a: "V a = Some d" "\<forall>H\<in>cheaders. Sp a \<notin> set (L H)"
  shows "\<exists>h'. lift_dll (\<lambda>st. DLL_Prepend st H (Sp a)) h = Some h' \<and> heap_frame E res B Fm h' V (L(H := Sp a # L H))"
proof -
  note F = heap_frameD [OF R]
  obtain h' where h': "lift_dll (\<lambda>st. DLL_Prepend st H (Sp a)) h = Some h'" "heap_view E res Fm h' (V ++ B) (L(H := Sp a # L H))"
    using heap_view_prepend [OF F(1) H F(5) [OF a(1)] a(2)] by blast
  then show ?thesis using F(2-3) F(6) [OF a(1)] cache_right_same [OF F(4) lift_dll_cache [OF h'(1)]] by (auto simp: heap_frame_def)
qed

lemma map_add_upd: "B a = None \<Longrightarrow> (V ++ B)(a := x) = V(a := x) ++ B"
  by (auto simp: map_add_def fun_eq_iff split: option.splits)

lemma frame_update:
  assumes R: "heap_frame E res B Fm h V L" and a: "V a = Some d" and f: "client_update f"
  shows "\<exists>h'. upd_span h (Sp a) f = Some h' \<and> heap_frame E res B Fm h' (V(a \<mapsto> f d)) L"
proof -
  note F = heap_frameD [OF R]
  obtain h' where h': "upd_span h (Sp a) f = Some h'" "heap_view E res Fm h' ((V ++ B)(a \<mapsto> f d)) L"
    using heap_view_update [OF F(1) F(5) [OF a] f] by blast
  have fd: "sizeclass (f d) = sizeclass d" "span_pages (f d) = span_pages d" using f by (simp_all add: client_update_def span_pages_def)
  have "cache_right h' (V(a \<mapsto> f d)) B"
  proof (rule cache_right_upd [OF cache_right_same [OF F(4) upd_span_cache [OF h'(1)]]])
    show "\<forall>p\<in>span_pages (f d). cached_as h' p (sizeclass (f d))" if "sizeclass (f d) \<noteq> 0"
      using cache_rightD(1) [OF F(4) a] that cached_as_same [OF upd_span_cache [OF h'(1)]] unfolding fd by blast
  qed
  then show ?thesis using h' F(2,3) F(6) [OF a] map_add_upd [of B a V] unfolding heap_frame_def by auto
qed

lemma frame_Delete:
  assumes R: "heap_frame E res B Fm h V L" and a: "V a = Some d" "\<forall>H\<in>cheaders. Sp a \<notin> set (L H)"
  shows "\<exists>h'. Delete E h (Sp a) = Some h' \<and> heap_frame E res B Fm h' (V(a := None)) L"
proof -
  note F = heap_frameD [OF R]
  obtain h' where h': "Delete E h (Sp a) = Some h'" "heap_view E res Fm h' ((V ++ B)(a := None)) L"
    using heap_view_Delete [OF F(1) F(5) [OF a(1)] a(2)] by blast
  then show ?thesis using F(2,3) F(6) [OF a(1)] map_add_upd [of B a V] cache_right_drop(1) [OF cache_right_same [OF F(4) Delete_cache [OF h'(1)]]]
    unfolding heap_frame_def by auto
qed

lemma frame_New:
  assumes R: "heap_frame E res B Fm h V L" and n: "0 < n"
  shows "\<exists>r. New E h n = Some r \<and> (\<forall>s h'. r = Ret (s, h') \<longrightarrow>
      (s = SNull \<and> heap_frame E res B Fm h' V L \<or>
       (\<exists>a d. s = Sp a \<and> V a = None \<and> B a = None \<and> heap_frame E res B Fm h' (V(a \<mapsto> d)) L \<and> span_length d = n \<and> sizeclass d = 0 \<and>
          (\<forall>H\<in>cheaders. Sp a \<notin> set (L H)))))"
proof -
  note F = heap_frameD [OF R]
  obtain r where r: "New E h n = Some r" "\<And>s h'. r = Ret (s, h') \<Longrightarrow> s = SNull \<and> heap_view E res Fm h' (V ++ B) L \<or>
       (\<exists>a d. s = Sp a \<and> (V ++ B) a = None \<and> heap_view E res Fm h' ((V ++ B)(a \<mapsto> d)) L \<and> span_length d = n \<and> sizeclass d = 0 \<and>
          (\<forall>H\<in>cheaders. Sp a \<notin> set (L H)))" using heap_view_New [OF F(1) n] by blast
  have "s = SNull \<and> heap_frame E res B Fm h' V L \<or>
       (\<exists>a d. s = Sp a \<and> V a = None \<and> B a = None \<and> heap_frame E res B Fm h' (V(a \<mapsto> d)) L \<and> span_length d = n \<and> sizeclass d = 0 \<and>
          (\<forall>H\<in>cheaders. Sp a \<notin> set (L H)))" if s: "r = Ret (s, h')" for s h'
  proof -
    have c: "cache_right h' V B" using cache_right_same [OF F(4) New_cache] r(1) s by blast
    from r(2) [OF s] show ?thesis
    proof (elim disjE exE conjE)
      fix a d assume a: "s = Sp a" "(V ++ B) a = None" "heap_view E res Fm h' ((V ++ B)(a \<mapsto> d)) L" "span_length d = n" "sizeclass d = 0"
        "\<forall>H\<in>cheaders. Sp a \<notin> set (L H)"
      then have "V a = None" "B a = None" by auto
      moreover have "cache_right h' (V(a \<mapsto> d)) B" by (rule cache_right_upd [OF c]) (use a(5) in simp)
      ultimately have "heap_frame E res B Fm h' (V(a \<mapsto> d)) L" using a F(2,3) map_add_upd [of B a V] unfolding heap_frame_def by auto
      then show ?thesis using a \<open>V a = None\<close> \<open>B a = None\<close> by blast
    next
      assume "s = SNull" "heap_view E res Fm h' (V ++ B) L"
      then show ?thesis using F(2,3) c unfolding heap_frame_def by blast
    qed
  qed
  with r(1) show ?thesis by blast
qed

lemma frame_Register:
  assumes R: "heap_frame E res B Fm h V L" and a: "V a = Some d" and c: "sc < kNumClasses"
  shows "\<exists>h1 h2. RegisterSizeClass h (Sp a) sc = Some h1 \<and> span_data (span_of h1 (Sp a)) = d\<lparr>sizeclass := sc\<rparr> \<and>
        cache_pages h1 (span_start d) (span_length d) sc = Some h2 \<and> heap_frame E res B Fm h2 (V(a \<mapsto> d\<lparr>sizeclass := sc\<rparr>)) L"
proof -
  note F = heap_frameD [OF R]
  let ?d = "d\<lparr>sizeclass := sc\<rparr>" and ?V = "V(a \<mapsto> d\<lparr>sizeclass := sc\<rparr>)"
  have "sc mod 2 ^ 8 = sc" using c by (simp add: config_defs)
  then obtain h1 where h1: "RegisterSizeClass h (Sp a) sc = Some h1" "heap_view E res Fm h1 ((V ++ B)(a \<mapsto> ?d)) L"
    using heap_view_Register [OF F(1) F(5) [OF a], of sc] by auto
  note P = frame_pages [OF R a]
  obtain k where k: "cache_pages h1 (span_start d) (span_length d) sc = Some (h1\<lparr>pagemap_cache := k\<rparr>)"
    "\<And>q. q < span_length d \<Longrightarrow> cached_as (h1\<lparr>pagemap_cache := k\<rparr>) (span_start d + q) sc"
    "\<And>q j. q < 2 ^ 34 \<Longrightarrow> q \<notin> span_pages d \<Longrightarrow> cached_as h1 q j \<Longrightarrow> cached_as (h1\<lparr>pagemap_cache := k\<rparr>) q j"
    using cache_pages_right [OF c P(1), of h1] unfolding span_pages_def by blast
  let ?h = "h1\<lparr>pagemap_cache := k\<rparr>"
  have keep: "cached_as ?h q j" if b: "(V ++ B) b = Some e" "b \<noteq> a" "q \<in> span_pages e" "cached_as h q j" for b e q j
  proof (rule k(3))
    show "q < 2 ^ 34" using heap_view_pages(1) [OF F(1) b(1)] b(3) by auto
    show "q \<notin> span_pages d" using P(2) [OF b(1)] b(2,3) by blast
    show "cached_as h1 q j" using b(4) cached_as_same [OF RegisterSizeClass_cache [OF h1(1)]] by blast
  qed
  have "cache_right ?h ?V B"
    unfolding cache_right_def
  proof (intro conjI allI impI)
    fix b e p assume b: "?V b = Some e" "sizeclass e \<noteq> 0" "p \<in> span_pages e"
    show "cached_as ?h p (sizeclass e)"
    proof (cases "b = a")
      case True
      then have e: "e = ?d" "p \<in> span_pages d" using b(1,3) by (auto simp: span_pages_def)
      then obtain q where "q < span_length d" "p = span_start d + q" by (auto simp: span_pages_def extent_def dest: le_Suc_ex)
      then show ?thesis using k(2) e(1) by simp
    next
      case False
      then have "V b = Some e" using b(1) by simp
      then show ?thesis using keep [OF F(5) False b(3)] cache_rightD(1) [OF F(4) _ b(2,3)] by blast
    qed
  next
    fix b e assume b: "B b = Some e"
    note z = cache_rightD(2) [OF F(4) b]
    show "sizeclass e = 0" using z by blast
    have be: "(V ++ B) b = Some e" using b by simp
    have "b \<noteq> a" using b F(6) [OF a] by auto
    then show "cached_as ?h (span_start e) 0"
      by (rule keep [OF be _ start_page]) (use z heap_view_pages(1) [OF F(1) be] in simp_all)
  next
    have "0 \<notin> span_pages d" using heap_view_pages(1) [OF F(1) F(5) [OF a]] by auto
    moreover have "cached_as h1 0 0" using cache_rightD(3) [OF F(4)] cached_as_same [OF RegisterSizeClass_cache [OF h1(1)]] by blast
    ultimately show "cached_as ?h 0 0" using k(3) by simp
  qed
  moreover have "heap_view E res Fm ?h (?V ++ B) L" using heap_view_cache [OF h1(2)] map_add_upd [of B a V, OF F(6) [OF a]] by metis
  moreover have "dom ?V \<inter> dom B = {}" using F(2) F(6) [OF a] by auto
  ultimately have "heap_frame E res B Fm ?h ?V L" using F(3) unfolding heap_frame_def by blast
  moreover have "span_data (span_of h1 (Sp a)) = ?d" using heap_view_pages(2) [OF h1(2), of a ?d] by simp
  ultimately show ?thesis using h1(1) k(1) by blast
qed

interpretation client_heap: span_heap E "heap_frame E res B Fm" "owned_bytes B" for E res B Fm
proof (unfold_locales, goal_cases)
  case (1 h V L H s)
  from heap_view_lists(2) [OF heap_frameD(1) [OF 1(1)] 1(2,3)] show ?case
  proof (elim exE conjE)
    fix a d assume a: "s = Sp a" "(V ++ B) a = Some d"
    then have "B a = None" using heap_frameD(3) [OF 1(1,2), of a] 1(3) by auto
    then show ?thesis using a by auto
  qed
next
  case (2 h V L H)
  show ?case using heap_view_lists(1) [OF heap_frameD(1) [OF 2(1)] 2(2)] by (simp add: dll_def)
next
  case (3 h V L H H' s)
  then show ?case using heap_view_lists(3) [OF heap_frameD(1)] by blast
next
  case (4 h V L H)
  then show ?case using dll_IsEmpty [OF heap_view_lists(1) [OF heap_frameD(1)]] by blast
next
  case (5 h V L H s ss)
  then show ?case using dll_hd [of "spans h" H s ss] heap_view_lists(1) [OF heap_frameD(1), of E res B Fm h V L H] by (simp add: span_of_def)
next
  case (6 h V L a d)
  show ?case by (rule heap_view_pages(2) [OF heap_frameD(1) [OF 6(1)] heap_frameD(5) [OF 6(1,2)]])
next
  case (7 h V L)
  show ?case
  proof (cases "dom V = {}")
    case False
    then obtain a d where "V a = Some d" by blast
    then have "finite (dom (V ++ B))" using heap_view_pages(3) [OF heap_frameD(1) [OF 7] heap_frameD(5) [OF 7]] by blast
    then show ?thesis by simp
  qed simp
next
  case (8 h V L a d)
  show ?case by (rule heap_view_pages(1) [OF heap_frameD(1) [OF 8(1)] heap_frameD(5) [OF 8(1,2)]])
next
  case (9 h V L a d b e)
  show ?case by (rule heap_view_pages(4) [OF heap_frameD(1) [OF 9(1)] heap_frameD(5) [OF 9(1,2)] heap_frameD(5) [OF 9(1,3)] 9(4)])
next
  case (10 h V L a d)
  show ?case using frame_foreign [OF 10] .
next
  case (11 h V L a d p)
  show ?case by (rule heap_view_pages(5) [OF heap_frameD(1) [OF 11(1)] heap_frameD(5) [OF 11(1,2)] 11(3,4)])
next
  case (12 h V L H s)
  then show ?case by (rule frame_remove)
next
  case (13 h V L H a d)
  then show ?case by (rule frame_prepend)
next
  case (14 h V L a d f)
  then show ?case by (rule frame_update)
next
  case (15 h V L a d)
  then show ?case by (rule frame_Delete)
next
  case (16 h V L n)
  then obtain r where r: "New E h n = Some r" "\<And>s h'. r = Ret (s, h') \<Longrightarrow> s = SNull \<and> heap_frame E res B Fm h' V L \<or>
       (\<exists>a d. s = Sp a \<and> V a = None \<and> B a = None \<and> heap_frame E res B Fm h' (V(a \<mapsto> d)) L \<and> span_length d = n \<and> sizeclass d = 0 \<and>
          (\<forall>H\<in>cheaders. Sp a \<notin> set (L H)))" using frame_New by blast
  show ?case by (rule exI [of _ r]) (use r in blast)
next
  case (17 h V L a d sc)
  then show ?case by (rule frame_Register)
qed

section \<open>The spans of the program\<close>

text \<open>A span of the program: its descriptor, what the cache of size classes says of it, its pages.\<close>

lemma frame_owned:
  assumes R: "heap_frame E res B Fm h V L" and a: "B a = Some d"
  shows "GetDescriptor h (span_start d) = Sp a" "span_data (span_of h (Sp a)) = d" "GetSizeClassIfCached h (span_start d) = Some 0"
    "sizeclass d = 0" "\<not> sample d" "0 < span_length d" "span_pages d \<subseteq> {0<..<2 ^ 34}"
    "(V ++ B) b = Some e \<Longrightarrow> a \<noteq> b \<Longrightarrow> span_pages d \<inter> span_pages e = {}"
proof -
  note F = heap_frameD [OF R] and be = map_add_find_right [of B a d V, OF a]
  note P = heap_view_pages [OF F(1) be]
  show "GetDescriptor h (span_start d) = Sp a" "span_data (span_of h (Sp a)) = d" "\<not> sample d" "0 < span_length d" "span_pages d \<subseteq> {0<..<2 ^ 34}"
    using P by simp_all
  show "sizeclass d = 0" "GetSizeClassIfCached h (span_start d) = Some 0" using cache_rightD(2) [OF F(4) a] by (simp_all add: cached_as_def)
  show "span_pages d \<inter> span_pages e = {}" if "(V ++ B) b = Some e" "a \<noteq> b" using P(4) [OF that] .
qed

text \<open>A span fresh from the page heap becomes one of the program: \<open>SpanToMallocResult\<close>.\<close>

lemma frame_take:
  assumes R: "heap_frame E res B Fm h (V(a \<mapsto> d)) L" and a: "V a = None" "B a = None" "sizeclass d = 0" "\<forall>H\<in>cheaders. Sp a \<notin> set (L H)"
  shows "\<exists>k. CacheSizeClass h (span_start d) 0 = Some (h\<lparr>pagemap_cache := k\<rparr>) \<and> heap_frame E res (B(a \<mapsto> d)) Fm (h\<lparr>pagemap_cache := k\<rparr>) V L"
proof -
  note F = heap_frameD [OF R]
  let ?V = "V(a \<mapsto> d)"
  have Va: "?V a = Some d" by simp
  note P = frame_pages [OF R Va] and Q = heap_view_pages(1) [OF F(1) F(5) [OF Va]]
  have st: "span_start d < 2 ^ 34" "span_start d \<in> span_pages d" using Q start_page [of d] by auto
  have z: "(0::nat) < kNumClasses" by (simp add: config_defs)
  have "span_start d < 2 ^ 51" using st(1) by simp
  from CacheSizeClass_ok [OF this z, of h] obtain k where k: "CacheSizeClass h (span_start d) 0 = Some (h\<lparr>pagemap_cache := k\<rparr>)"
    "GetSizeClassIfCached (h\<lparr>pagemap_cache := k\<rparr>) (span_start d) = Some 0"
    "\<And>q j. q < 2 ^ 51 \<Longrightarrow> q \<noteq> span_start d \<Longrightarrow> cached_as h q j \<Longrightarrow> cached_as (h\<lparr>pagemap_cache := k\<rparr>) q j" by blast
  let ?h = "h\<lparr>pagemap_cache := k\<rparr>"
  have keep: "cached_as ?h q j" if b: "(?V ++ B) b = Some e" "b \<noteq> a" "q \<in> span_pages e" "cached_as h q j" for b e q j
  proof (rule k(3))
    show "q < 2 ^ 51" using heap_view_pages(1) [OF F(1) b(1)] b(3) by auto
    show "q \<noteq> span_start d" using P(2) [OF b(1)] b(2,3) st(2) by blast
  qed (rule b(4))
  have "cache_right ?h V (B(a \<mapsto> d))"
    unfolding cache_right_def
  proof (intro conjI allI impI)
    fix b e p assume b: "V b = Some e" "sizeclass e \<noteq> 0" "p \<in> span_pages e"
    then have v: "?V b = Some e" "b \<noteq> a" using a(1) by auto
    show "cached_as ?h p (sizeclass e)" by (rule keep [OF F(5) [OF v(1)] v(2) b(3) cache_rightD(1) [OF F(4) v(1) b(2,3)]])
  next
    fix b e assume b: "(B(a \<mapsto> d)) b = Some e"
    show "sizeclass e = 0" using b a(3) cache_rightD(2) [OF F(4), of b e] by (cases "b = a") auto
    show "cached_as ?h (span_start e) 0"
    proof (cases "b = a")
      case True
      then show ?thesis using b k(2) by (simp add: cached_as_def)
    next
      case False
      then have "B b = Some e" using b by simp
      note z = cache_rightD(2) [OF F(4) this] and be = map_add_find_right [of B b e ?V, OF this]
      show ?thesis by (rule keep [OF be False start_page]) (use z heap_view_pages(1) [OF F(1) be] in simp_all)
    qed
  next
    have "0 < span_start d" using st Q by auto
    then show "cached_as ?h 0 0" using k(3) cache_rightD(3) [OF F(4)] by simp
  qed
  moreover have "?V ++ B = V ++ B(a \<mapsto> d)" using a(2) by (auto simp: map_add_def fun_eq_iff split: option.splits)
  then have "heap_view E res Fm ?h (V ++ B(a \<mapsto> d)) L" using heap_view_cache [OF F(1)] by metis
  moreover have "dom V \<inter> dom (B(a \<mapsto> d)) = {}" using F(2) a(1) by auto
  ultimately have "heap_frame E res (B(a \<mapsto> d)) Fm ?h V L" using F(3) a(4) unfolding heap_frame_def by auto
  then show ?thesis using k(1) by blast
qed

text \<open>The program gives a span back.\<close>

lemma frame_give:
  assumes R: "heap_frame E res B Fm h V L" and a: "B a = Some d"
  shows "\<exists>h'. Delete E h (Sp a) = Some h' \<and> heap_frame E res (B(a := None)) Fm h' V L"
proof -
  note F = heap_frameD [OF R]
  have "\<forall>H\<in>cheaders. Sp a \<notin> set (L H)" using F(3) a by blast
  then obtain h' where h': "Delete E h (Sp a) = Some h'" "heap_view E res Fm h' ((V ++ B)(a := None)) L"
    using heap_view_Delete [OF F(1) map_add_find_right [of B a d V, OF a]] by blast
  have "(V ++ B)(a := None) = V ++ B(a := None)" using F(7) [OF a] by (auto simp: map_add_def fun_eq_iff split: option.splits)
  then have "heap_frame E res (B(a := None)) Fm h' V L"
    using h'(2) F(2,3) cache_right_drop(2) [OF cache_right_same [OF F(4) Delete_cache [OF h'(1)]]] unfolding heap_frame_def by auto
  then show ?thesis using h'(1) by blast
qed

text \<open>A span that nobody owns yet is cut in two.\<close>

lemma heap_view_Split:
  assumes R: "heap_view E res Fm h V L" and a: "V a = Some d" "sizeclass d = 0" and n: "0 < n" "n < span_length d"
  shows "\<exists>r. Split E h (Sp a) n = Some r \<and> (\<forall>s h'. r = Ret (s, h') \<longrightarrow>
    (\<exists>b e. s = Sp b \<and> V b = None \<and> heap_view E res Fm h' (V(a \<mapsto> d\<lparr>span_length := n\<rparr>, b \<mapsto> e)) L \<and>
      span_start e = span_start d + n \<and> span_length e = span_length d - n \<and> sizeclass e = 0 \<and> (\<forall>H\<in>cheaders. Sp b \<notin> set (L H))))"
proof -
  obtain U L' where O: "os_contract (os_calls E) res" "\<And>x. res x \<subseteq> {..<2 ^ 42}" "heap_inv res Fm cheaders h U L' {}" "imbalance h U = 0"
    "V = inuse_view (spans h) U" "\<And>H. H \<in> cheaders \<Longrightarrow> L H = L' H" using heap_viewE [OF R] by blast
  note v = view_fields [OF a(1) [unfolded O(5)]]
  have "plen_of (spans h) a \<le> card (heap_pages (spans h) U)" by (rule plen_le_pages [OF heap_invD(1) [OF O(3)] v(1)])
  then have p: "plen_of (spans h) a < 2 ^ 31" using few_pages [OF O(3,2)] by simp
  have c: "class_of (spans h) a = 0" "n < plen_of (spans h) a" using a(2) n(2) v(4,5) by simp_all
  obtain r where r: "Split E h (Sp a) n = Some r" "\<And>s h'. r = Ret (s, h') \<Longrightarrow>
    \<exists>b. s = Sp b \<and> b \<notin> U \<and> heap_inv res Fm cheaders h' (insert b U) L' {} \<and> imbalance h' (insert b U) = 0 \<and>
      aggressive_decommit h' = aggressive_decommit h \<and> \<not> listed (headers \<union> cheaders) L' (Sp b) \<and>
      heap_pages (spans h') (insert b U) = heap_pages (spans h) U \<and>
      inuse_view (spans h') (insert b U) = (inuse_view (spans h) U)
        (a \<mapsto> (span_data (spans h (Sp a)))\<lparr>span_length := n\<rparr>,
         b \<mapsto> zero_span\<lparr>span_start := start_of (spans h) a + n, span_length := plen_of (spans h) a - n\<rparr>)"
    using Split_spec [OF O(1,3,4) v(1,2) c(1) n(1) c(2) p] by blast
  have "\<exists>b e. s = Sp b \<and> V b = None \<and> heap_view E res Fm h' (V(a \<mapsto> d\<lparr>span_length := n\<rparr>, b \<mapsto> e)) L \<and>
      span_start e = span_start d + n \<and> span_length e = span_length d - n \<and> sizeclass e = 0 \<and> (\<forall>H\<in>cheaders. Sp b \<notin> set (L H))"
    if rs: "r = Ret (s, h')" for s h'
  proof -
    let ?e = "zero_span\<lparr>span_start := start_of (spans h) a + n, span_length := plen_of (spans h) a - n\<rparr>"
    obtain b where b: "s = Sp b" "b \<notin> U" "heap_inv res Fm cheaders h' (insert b U) L' {}" "imbalance h' (insert b U) = 0"
      "aggressive_decommit h' = aggressive_decommit h" "\<not> listed (headers \<union> cheaders) L' (Sp b)"
      "inuse_view (spans h') (insert b U) = V(a \<mapsto> d\<lparr>span_length := n\<rparr>, b \<mapsto> ?e)"
      using r(2) [OF rs] unfolding O(5) [symmetric] v(7) [symmetric] by blast
    have "heap_view E res Fm h' (V(a \<mapsto> d\<lparr>span_length := n\<rparr>, b \<mapsto> ?e)) L"
      by (rule heap_viewI [OF R b(3,4)]) (use b(7) O(5,6) in simp_all)
    moreover have "V b = None" using b(2) by (simp add: O(5) inuse_view_def)
    moreover have "\<forall>H\<in>cheaders. Sp b \<notin> set (L H)" using b(6) O(6) by (auto simp: listed_def)
    moreover have "span_start ?e = span_start d + n" "span_length ?e = span_length d - n" "sizeclass ?e = 0"
      using v(3,4) by (simp_all add: zero_span_def)
    ultimately show ?thesis using b(1) by blast
  qed
  with r(1) show ?thesis by blast
qed

lemma frame_Split:
  assumes R: "heap_frame E res B Fm h V L" and a: "V a = Some d" "sizeclass d = 0" and n: "0 < n" "n < span_length d"
  shows "\<exists>r. Split E h (Sp a) n = Some r \<and> (\<forall>s h'. r = Ret (s, h') \<longrightarrow>
    (\<exists>b e. s = Sp b \<and> V b = None \<and> B b = None \<and> heap_frame E res B Fm h' (V(a \<mapsto> d\<lparr>span_length := n\<rparr>, b \<mapsto> e)) L \<and>
      span_start e = span_start d + n \<and> span_length e = span_length d - n \<and> sizeclass e = 0 \<and> (\<forall>H\<in>cheaders. Sp b \<notin> set (L H))))"
proof -
  note F = heap_frameD [OF R]
  obtain r where r: "Split E h (Sp a) n = Some r" "\<And>s h'. r = Ret (s, h') \<Longrightarrow>
    \<exists>b e. s = Sp b \<and> (V ++ B) b = None \<and> heap_view E res Fm h' ((V ++ B)(a \<mapsto> d\<lparr>span_length := n\<rparr>, b \<mapsto> e)) L \<and>
      span_start e = span_start d + n \<and> span_length e = span_length d - n \<and> sizeclass e = 0 \<and> (\<forall>H\<in>cheaders. Sp b \<notin> set (L H))"
    using heap_view_Split [OF F(1) F(5) [OF a(1)] a(2) n] by blast
  have "\<exists>b e. s = Sp b \<and> V b = None \<and> B b = None \<and> heap_frame E res B Fm h' (V(a \<mapsto> d\<lparr>span_length := n\<rparr>, b \<mapsto> e)) L \<and>
      span_start e = span_start d + n \<and> span_length e = span_length d - n \<and> sizeclass e = 0 \<and> (\<forall>H\<in>cheaders. Sp b \<notin> set (L H))"
    if rs: "r = Ret (s, h')" for s h'
  proof -
    obtain b e where b: "s = Sp b" "(V ++ B) b = None" "heap_view E res Fm h' ((V ++ B)(a \<mapsto> d\<lparr>span_length := n\<rparr>, b \<mapsto> e)) L"
      "span_start e = span_start d + n" "span_length e = span_length d - n" "sizeclass e = 0" "\<forall>H\<in>cheaders. Sp b \<notin> set (L H)"
      using r(2) [OF rs] by blast
    have Bb: "V b = None" "B b = None" using b(2) by auto
    let ?V = "V(a \<mapsto> d\<lparr>span_length := n\<rparr>)"
    have c: "cache_right h' V B" using cache_right_same [OF F(4) Split_cache] r(1) rs by blast
    have "cache_right h' ?V B" by (rule cache_right_upd [OF c]) (use a(2) in simp)
    then have "cache_right h' (?V(b \<mapsto> e)) B" by (rule cache_right_upd) (use b(6) in simp)
    moreover have "(V ++ B)(a \<mapsto> d\<lparr>span_length := n\<rparr>, b \<mapsto> e) = ?V(b \<mapsto> e) ++ B"
      using map_add_upd [of B a V] map_add_upd [of B b ?V] F(6) [OF a(1)] Bb(2) by simp
    moreover have "dom (?V(b \<mapsto> e)) \<inter> dom B = {}" using F(2) F(6) [OF a(1)] Bb(2) by auto
    ultimately have "heap_frame E res B Fm h' (?V(b \<mapsto> e)) L" using b(3) F(3) unfolding heap_frame_def by metis
    then show ?thesis using b Bb by blast
  qed
  with r(1) show ?thesis by blast
qed

end
