(* ===== verification/Central_Inv.thy ===== *)
theory Central_Inv
  imports Span_Frame
begin

text \<open>
  The invariant of the central free lists. Every span of a class is cut in a grid of objects; each
  object is either free in its span, or in a chain of the transfer cache, or held outside
  (by a thread cache or the program). \<open>fr a\<close> are the free objects of span \<open>a\<close> in list order, \<open>ch c\<close>
  the chains in the transfer cache of class \<open>c\<close>, and \<open>Out c\<close> the objects held outside.
\<close>

section \<open>The objects of a span\<close>

definition capacity :: "nat \<Rightarrow> Span \<Rightarrow> nat" where
  "capacity sz d = span_length d * 2 ^ kPageShift div sz"

definition grid :: "nat \<Rightarrow> Span \<Rightarrow> addr set" where
  "grid sz d = (\<lambda>i. span_start d * 2 ^ kPageShift + i * sz) ` {..<capacity sz d}"

lemma finite_grid [simp]: "finite (grid sz d)"
  by (simp add: grid_def)

lemma card_grid: "0 < sz \<Longrightarrow> card (grid sz d) = capacity sz d"
  by (simp add: grid_def card_image inj_on_def)

lemma grid_extent: "x \<in> grid sz d \<Longrightarrow> extent x sz \<subseteq> page_bytes (span_pages d)"
proof -
  assume "x \<in> grid sz d"
  then obtain i where i: "i < capacity sz d" and x: "x = span_start d * 2 ^ kPageShift + i * sz" by (auto simp: grid_def)
  from i have "Suc i * sz \<le> capacity sz d * sz" by (intro mult_le_mono1) simp
  also have "\<dots> \<le> span_length d * 2 ^ kPageShift" by (simp add: capacity_def)
  finally have "i * sz + sz \<le> span_length d * 2 ^ kPageShift" by simp
  then show ?thesis unfolding span_pages_def page_bytes_extent x by (intro extent_mono) simp_all
qed

lemma grid_page: "0 < sz \<Longrightarrow> x \<in> grid sz d \<Longrightarrow> x div 2 ^ kPageShift \<in> span_pages d"
proof -
  assume "0 < sz" and g: "x \<in> grid sz d"
  then have "x \<in> extent x sz" by simp
  with grid_extent [OF g] have "x \<in> page_bytes (span_pages d)" by blast
  then show ?thesis by (simp add: page_bytes_def)
qed

lemma grid_apart: "0 < sz \<Longrightarrow> 0 < sz' \<Longrightarrow> span_pages d \<inter> span_pages e = {} \<Longrightarrow> grid sz d \<inter> grid sz' e = {}"
  using grid_page by blast

lemma grid_nonzero: "0 < sz \<Longrightarrow> span_pages d \<subseteq> {0<..<n} \<Longrightarrow> x \<in> grid sz d \<Longrightarrow> x \<noteq> 0"
  using grid_page [of sz x d] by (cases "x = 0") auto

lemma grid_objects_apart:
  assumes "x \<in> grid sz d" "y \<in> grid sz d" "x \<noteq> y"
  shows "extent x sz \<inter> extent y sz = {}"
proof -
  obtain i j where ij: "x = span_start d * 2 ^ kPageShift + i * sz" "y = span_start d * 2 ^ kPageShift + j * sz"
    using assms(1,2) by (auto simp: grid_def)
  have "i < j \<or> j < i" using ij assms(3) by fastforce
  then have "Suc i * sz \<le> j * sz \<or> Suc j * sz \<le> i * sz" by (metis Suc_leI mult_le_mono1)
  then have "x + sz \<le> y \<or> y + sz \<le> x" by (auto simp: ij)
  then show ?thesis using extent_apart by (metis inf_commute)
qed

section \<open>The invariant\<close>

definition sizemap_ok :: "SizeMap \<Rightarrow> bool" where
  "sizemap_ok sm = (\<forall>c. 0 < c \<and> c < kNumClasses \<longrightarrow> 8 \<le> class_to_size sm c \<and> class_to_size sm c \<le> kMaxSize \<and>
     0 < class_to_pages sm c \<and> class_to_pages sm c \<le> 2 ^ 20 \<and> 0 < num_objects_to_move sm c \<and>
     0 < class_to_pages sm c * 2 ^ kPageShift div class_to_size sm c \<and>
     class_to_pages sm c * 2 ^ kPageShift div class_to_size sm c < 2 ^ 16)"

lemma sizemap_okD:
  assumes "sizemap_ok sm" "0 < c" "c < kNumClasses"
  shows "8 \<le> class_to_size sm c" "class_to_size sm c \<le> kMaxSize" "0 < class_to_pages sm c" "class_to_pages sm c \<le> 2 ^ 20"
    "0 < num_objects_to_move sm c"
    "0 < class_to_pages sm c * 2 ^ kPageShift div class_to_size sm c"
    "class_to_pages sm c * 2 ^ kPageShift div class_to_size sm c < 2 ^ 16"
  using assms by (simp_all add: sizemap_ok_def)

definition class_spans :: "(span_ptr \<Rightarrow> span_ptr list) \<Rightarrow> nat \<Rightarrow> addr set" where
  "class_spans L c = {a. Sp a \<in> set (L (CentralNonempty c)) \<or> Sp a \<in> set (L (CentralEmpty c))}"

definition span_ok :: "SizeMap \<Rightarrow> mem \<Rightarrow> nat \<Rightarrow> Span \<Rightarrow> addr list \<Rightarrow> bool" where
  "span_ok sm m c d fl = (sizeclass d = c \<and> span_length d = class_to_pages sm c \<and> sll m (objects d) fl \<and>
     set fl \<subseteq> grid (class_to_size sm c) d \<and> refcount d + length fl = capacity (class_to_size sm c) d)"

definition spans_ok :: "SizeMap \<Rightarrow> mem \<Rightarrow> (addr \<rightharpoonup> Span) \<Rightarrow> (span_ptr \<Rightarrow> span_ptr list) \<Rightarrow> (addr \<Rightarrow> addr list) \<Rightarrow> nat \<Rightarrow> bool" where
  "spans_ok sm m V L fr c = (\<forall>a\<in>class_spans L c. span_ok sm m c (the (V a)) (fr a) \<and>
     (fr a = [] \<longleftrightarrow> Sp a \<in> set (L (CentralEmpty c))))"

definition class_objs :: "SizeMap \<Rightarrow> (addr \<rightharpoonup> Span) \<Rightarrow> (span_ptr \<Rightarrow> span_ptr list) \<Rightarrow> nat \<Rightarrow> addr set" where
  "class_objs sm V L c = (\<Union>a\<in>class_spans L c. grid (class_to_size sm c) (the (V a)))"

definition class_frees :: "(span_ptr \<Rightarrow> span_ptr list) \<Rightarrow> (addr \<Rightarrow> addr list) \<Rightarrow> nat \<Rightarrow> addr set" where
  "class_frees L fr c = (\<Union>a\<in>class_spans L c. set (fr a))"

definition counts_ok :: "(span_ptr \<Rightarrow> span_ptr list) \<Rightarrow> (addr \<Rightarrow> addr list) \<Rightarrow> nat \<Rightarrow> central_list \<Rightarrow> bool" where
  "counts_ok L fr c l = (num_spans l = of_nat (card (class_spans L c)) \<and>
     counter l = of_nat (\<Sum>a\<in>class_spans L c. length (fr a)))"

definition slots_ok :: "SizeMap \<Rightarrow> mem \<Rightarrow> nat \<Rightarrow> central_list \<Rightarrow> addr list list \<Rightarrow> bool" where
  "slots_ok sm m c l chs = (used_slots l = int (length chs) \<and> used_slots l \<le> cache_size l \<and>
     cache_size l \<le> max_cache_size l \<and> max_cache_size l \<le> kMaxNumTransferEntries \<and>
     (\<forall>i<length chs. sll m (fst (tc_slots l i)) (chs ! i) \<and> chs ! i \<noteq> [] \<and> last (chs ! i) = snd (tc_slots l i) \<and>
        int (length (chs ! i)) = num_objects_to_move sm c))"

definition held_ok :: "SizeMap \<Rightarrow> (addr \<rightharpoonup> Span) \<Rightarrow> (span_ptr \<Rightarrow> span_ptr list) \<Rightarrow> (addr \<Rightarrow> addr list) \<Rightarrow> nat \<Rightarrow>
    addr list list \<Rightarrow> addr set \<Rightarrow> bool" where
  "held_ok sm V L fr c chs out = (out \<union> set (concat chs) = class_objs sm V L c - class_frees L fr c \<and>
     out \<inter> set (concat chs) = {} \<and> distinct (concat chs))"

definition class_ok :: "SizeMap \<Rightarrow> mem \<Rightarrow> (addr \<rightharpoonup> Span) \<Rightarrow> (span_ptr \<Rightarrow> span_ptr list) \<Rightarrow> (addr \<Rightarrow> addr list) \<Rightarrow>
    nat \<Rightarrow> central_list \<Rightarrow> addr list list \<Rightarrow> addr set \<Rightarrow> bool" where
  "class_ok sm m V L fr c l chs out = (size_class l = c \<and> spans_ok sm m V L fr c \<and> counts_ok L fr c l \<and>
     slots_ok sm m c l chs \<and> held_ok sm V L fr c chs out \<and> (c = 0 \<longrightarrow> class_spans L 0 = {} \<and> chs = []))"

definition central_ok :: "('os page_heap \<Rightarrow> (addr \<rightharpoonup> Span) \<Rightarrow> (span_ptr \<Rightarrow> span_ptr list) \<Rightarrow> bool) \<Rightarrow> 'os central \<Rightarrow>
    (addr \<rightharpoonup> Span) \<Rightarrow> (span_ptr \<Rightarrow> span_ptr list) \<Rightarrow> (addr \<Rightarrow> addr list) \<Rightarrow> (nat \<Rightarrow> addr list list) \<Rightarrow> (nat \<Rightarrow> addr set) \<Rightarrow> bool" where
  "central_ok rep S V L fr ch Out = (sizemap_ok (sizemap S) \<and> rep (pageheap S) V L \<and> 0 \<le> race_counter S \<and>
     (\<forall>c<kNumClasses. class_ok (sizemap S) (object_mem S) V L fr c (central_cache S c) (ch c) (Out c)))"

lemma class_okD:
  assumes "class_ok sm m V L fr c l chs out"
  shows "size_class l = c" "spans_ok sm m V L fr c" "counts_ok L fr c l" "slots_ok sm m c l chs"
    "held_ok sm V L fr c chs out" "c = 0 \<Longrightarrow> class_spans L 0 = {} \<and> chs = []"
  using assms by (simp_all add: class_ok_def)

lemma central_okD:
  assumes "central_ok rep S V L fr ch Out"
  shows "sizemap_ok (sizemap S)" "rep (pageheap S) V L" "0 \<le> race_counter S"
    "c < kNumClasses \<Longrightarrow> class_ok (sizemap S) (object_mem S) V L fr c (central_cache S c) (ch c) (Out c)"
  using assms by (simp_all add: central_ok_def)

lemma held_okD:
  assumes "held_ok sm V L fr c chs out"
  shows "out \<union> set (concat chs) = class_objs sm V L c - class_frees L fr c" "out \<inter> set (concat chs) = {}" "distinct (concat chs)"
  using assms by (simp_all add: held_ok_def)

lemma spans_okD:
  assumes "spans_ok sm m V L fr c" "a \<in> class_spans L c"
  shows "span_ok sm m c (the (V a)) (fr a)" "fr a = [] \<longleftrightarrow> Sp a \<in> set (L (CentralEmpty c))"
  using assms by (simp_all add: spans_ok_def)

lemma span_okD:
  assumes "span_ok sm m c d fl"
  shows "sizeclass d = c" "span_length d = class_to_pages sm c" "sll m (objects d) fl"
    "set fl \<subseteq> grid (class_to_size sm c) d" "refcount d + length fl = capacity (class_to_size sm c) d"
  using assms by (simp_all add: span_ok_def)

text \<open>The memory of the objects held outside, of all classes, and foreign memory \<open>A\<close>.\<close>

definition outs :: "SizeMap \<Rightarrow> addr set \<Rightarrow> (nat \<Rightarrow> addr set) \<Rightarrow> addr set" where
  "outs sm A Out = A \<union> (\<Union>k<kNumClasses. \<Union>x\<in>Out k. insert x (extent x (class_to_size sm k)))"

lemma outsI: "c < kNumClasses \<Longrightarrow> x \<in> Out c \<Longrightarrow> x \<in> outs sm A Out"
  by (auto simp: outs_def)

lemma outs_mono: "(\<And>k. k < kNumClasses \<Longrightarrow> Out k \<subseteq> Out' k) \<Longrightarrow> outs sm A Out \<subseteq> outs sm A Out'"
  unfolding outs_def by blast

lemma outs_drop: "outs sm A (Out(c := Out c - X)) \<subseteq> outs sm A Out"
  by (rule outs_mono) simp

lemma outs_add: "c < kNumClasses \<Longrightarrow> outs sm A Out \<union> X \<subseteq> outs sm A (Out(c := Out c \<union> X))"
  using outs_mono [of Out "Out(c := Out c \<union> X)"] outsI [of c _ "Out(c := Out c \<union> X)"] by fastforce

section \<open>Frame rules\<close>

text \<open>A class does not see changes of other spans, of other lists and of memory outside its objects.\<close>

lemma class_ok_frame:
  assumes K: "class_ok sm m V L fr c l chs out"
    and L: "L' (CentralNonempty c) = L (CentralNonempty c)" "L' (CentralEmpty c) = L (CentralEmpty c)"
    and V: "\<And>a. a \<in> class_spans L c \<Longrightarrow> V' a = V a \<and> fr' a = fr a"
    and m: "\<And>x. x \<in> class_objs sm V L c \<Longrightarrow> m' x = m x"
  shows "class_ok sm m' V' L' fr' c l chs out"
proof -
  have cs: "class_spans L' c = class_spans L c" using L by (simp add: class_spans_def)
  have objs: "class_objs sm V' L' c = class_objs sm V L c" using V by (simp add: class_objs_def cs)
  have frees: "class_frees L' fr' c = class_frees L fr c" using V by (simp add: class_frees_def cs)
  have fl: "sll m' p (fr a) = sll m p (fr a)" if "a \<in> class_spans L c" for a p
  proof (rule slseg_frame_mem)
    fix x assume "x \<in> set (fr a)"
    then have "x \<in> class_objs sm V L c"
      using span_okD(4) [OF spans_okD(1) [OF class_okD(2) [OF K] that]] that unfolding class_objs_def by blast
    then show "m' x = m x" by (rule m)
  qed
  have ch: "sll m' p (chs ! i) = sll m p (chs ! i)" if "i < length chs" for i p
  proof (rule slseg_frame_mem)
    fix x assume "x \<in> set (chs ! i)"
    then have "x \<in> set (concat chs)" using nth_mem [OF that] unfolding set_concat by blast
    then show "m' x = m x" using m held_okD(1) [OF class_okD(5) [OF K]] by blast
  qed
  have "spans_ok sm m' V' L' fr' c"
    using class_okD(2) [OF K] fl V by (simp add: spans_ok_def cs L span_ok_def)
  moreover have "counts_ok L' fr' c l" using class_okD(3) [OF K] V by (simp add: counts_ok_def cs)
  moreover have "slots_ok sm m' c l chs" using class_okD(4) [OF K] ch by (simp add: slots_ok_def)
  moreover have "held_ok sm V' L' fr' c chs out" using class_okD(5) [OF K] by (simp add: held_ok_def objs frees)
  ultimately show ?thesis using class_okD(1,6) [OF K] cs by (cases "c = 0") (simp_all add: class_ok_def)
qed

text \<open>The invariant after an operation on one class.\<close>

lemma central_ok_class:
  assumes I: "central_ok rep S V L fr ch Out" and c: "c < kNumClasses"
    and S: "sizemap S' = sizemap S" "rep (pageheap S') V' L'" "race_counter S' = race_counter S"
      "\<And>k. k \<noteq> c \<Longrightarrow> central_cache S' k = central_cache S k"
    and K: "class_ok (sizemap S) (object_mem S') V' L' fr' c (central_cache S' c) (ch' c) (Out' c)"
    and o: "\<And>k. k \<noteq> c \<Longrightarrow> ch' k = ch k \<and> Out' k = Out k"
    and F: "\<And>k. k < kNumClasses \<Longrightarrow> k \<noteq> c \<Longrightarrow> L' (CentralNonempty k) = L (CentralNonempty k) \<and>
      L' (CentralEmpty k) = L (CentralEmpty k) \<and> (\<forall>a\<in>class_spans L k. V' a = V a \<and> fr' a = fr a) \<and>
      (\<forall>x\<in>class_objs (sizemap S) V L k. object_mem S' x = object_mem S x)"
  shows "central_ok rep S' V' L' fr' ch' Out'"
  unfolding central_ok_def
proof (intro conjI allI impI)
  fix k assume k: "k < kNumClasses"
  show "class_ok (sizemap S') (object_mem S') V' L' fr' k (central_cache S' k) (ch' k) (Out' k)"
  proof (cases "k = c")
    case False
    have "class_ok (sizemap S) (object_mem S') V' L' fr' k (central_cache S k) (ch k) (Out k)"
      by (rule class_ok_frame [OF central_okD(4) [OF I k]]) (use F [OF k False] in auto)
    then show ?thesis using S False o by simp
  qed (use K S(1) in simp)
qed (use S central_okD [OF I] in auto)

lemma cheadersI [simp]: "c < kNumClasses \<Longrightarrow> CentralNonempty c \<in> cheaders" "c < kNumClasses \<Longrightarrow> CentralEmpty c \<in> cheaders"
  by (auto simp: cheaders_def)

lemma heap_op_Some: "f (pageheap S) = Some h \<Longrightarrow> heap_op f S = Some (S\<lparr>pageheap := h\<rparr>)"
  by (simp add: heap_op_def)

lemma client_update_simps [simp]:
  "client_update (\<lambda>x. x\<lparr>refcount := r (refcount x)\<rparr>)" "client_update (\<lambda>x. x\<lparr>objects := p\<rparr>)"
  "client_update (\<lambda>x. x\<lparr>objects := p, refcount := n\<rparr>)"
  by (simp_all add: client_update_def span_data_def)

section \<open>Facts in every state\<close>

context span_heap
begin

lemma class_span_view:
  assumes R: "rep h V L" and c: "c < kNumClasses" and a: "a \<in> class_spans L c"
  shows "\<exists>d. V a = Some d"
  using member [OF R, of "CentralNonempty c" "Sp a"] member [OF R, of "CentralEmpty c" "Sp a"] a c
  by (auto simp: class_spans_def)

lemma class_spans_apart:
  assumes R: "rep h V L" and c: "c < kNumClasses" "k < kNumClasses" and a: "a \<in> class_spans L c" "a \<in> class_spans L k"
  shows "c = k"
  using a c lists_apart [OF R, of "CentralNonempty c" "CentralNonempty k"] lists_apart [OF R, of "CentralNonempty c" "CentralEmpty k"]
    lists_apart [OF R, of "CentralEmpty c" "CentralNonempty k"] lists_apart [OF R, of "CentralEmpty c" "CentralEmpty k"]
  by (auto simp: class_spans_def)

lemma class_spans_finite:
  assumes R: "rep h V L" and c: "c < kNumClasses"
  shows "finite (class_spans L c)"
  by (rule finite_subset [OF _ finite_view [OF R]]) (use class_span_view [OF R c] in blast)

lemma not_both:
  assumes R: "rep h V L" and c: "c < kNumClasses"
  shows "\<not> (s \<in> set (L (CentralNonempty c)) \<and> s \<in> set (L (CentralEmpty c)))"
  using lists_apart [OF R, of "CentralNonempty c" "CentralEmpty c" s] c by auto

lemma class_objs_apart:
  assumes I: "central_ok rep S V L fr ch Out" and c: "c < kNumClasses" "k < kNumClasses" "c \<noteq> k"
  shows "class_objs (sizemap S) V L c \<inter> class_objs (sizemap S) V L k = {}"
proof -
  note R = central_okD(2) [OF I]
  have "grid (class_to_size (sizemap S) c) (the (V a)) \<inter> grid (class_to_size (sizemap S) k) (the (V b)) = {}"
    if a: "a \<in> class_spans L c" "b \<in> class_spans L k" for a b
  proof -
    have ne: "a \<noteq> b" using class_spans_apart [OF R c(1,2)] a c(3) by blast
    have z: "0 < c" "0 < k"
      using class_okD(6) [OF central_okD(4) [OF I c(1)]] class_okD(6) [OF central_okD(4) [OF I c(2)]] a
      by (cases "c = 0"; cases "k = 0"; auto)+
    obtain d e where V: "V a = Some d" "V b = Some e" using class_span_view [OF R c(1) a(1)] class_span_view [OF R c(2) a(2)] by blast
    have "0 < class_to_size (sizemap S) c" "0 < class_to_size (sizemap S) k"
      using sizemap_okD(1) [OF central_okD(1) [OF I] z(1) c(1)] sizemap_okD(1) [OF central_okD(1) [OF I] z(2) c(2)] by simp_all
    then show ?thesis using grid_apart pages_apart [OF R V ne] V by simp
  qed
  then show ?thesis unfolding class_objs_def by blast
qed

text \<open>An object that is not held outside has its first word outside the memory that is.\<close>

lemma unheld_subset:
  assumes I: "central_ok rep S V L fr ch Out" and c: "c < kNumClasses" and x: "x \<in> class_objs (sizemap S) V L c" "x \<notin> Out' c"
    and sub: "\<And>k. k < kNumClasses \<Longrightarrow> Out' k \<subseteq> Out k"
  shows "x \<notin> outs (sizemap S) A Out'"
proof
  assume o: "x \<in> outs (sizemap S) A Out'"
  note R = central_okD(2) [OF I]
  let ?sz = "class_to_size (sizemap S)"
  have obj: "\<exists>a d. a \<in> class_spans L k \<and> V a = Some d \<and> y \<in> grid (?sz k) d \<and> y \<in> extent y (?sz k) \<and> extent y (?sz k) \<subseteq> page_bytes (span_pages d)"
    if k: "k < kNumClasses" "y \<in> class_objs (sizemap S) V L k" for k y
  proof -
    obtain a where a: "a \<in> class_spans L k" "y \<in> grid (?sz k) (the (V a))" using k(2) by (auto simp: class_objs_def)
    obtain d where d: "V a = Some d" using class_span_view [OF R k(1) a(1)] by blast
    have "0 < k" using class_okD(6) [OF central_okD(4) [OF I k(1)]] a(1) by (cases "k = 0") auto
    then have "0 < ?sz k" using sizemap_okD(1) [OF central_okD(1) [OF I] _ k(1)] by fastforce
    then show ?thesis using a d grid_extent [of y "?sz k" d] by auto
  qed
  obtain a d where a: "a \<in> class_spans L c" "V a = Some d" "x \<in> grid (?sz c) d" "x \<in> extent x (?sz c)" "extent x (?sz c) \<subseteq> page_bytes (span_pages d)"
    using obj [OF c x(1)] by blast
  have xd: "x \<in> page_bytes (span_pages d)" using a(4,5) by blast
  then have "x \<notin> A" using foreign [OF R a(2)] by blast
  then obtain k y where k: "k < kNumClasses" and y: "y \<in> Out' k" and xy: "x \<in> insert y (extent y (?sz k))" using o by (auto simp: outs_def)
  have "y \<in> class_objs (sizemap S) V L k" using held_okD(1) [OF class_okD(5) [OF central_okD(4) [OF I k]]] y sub [OF k] by blast
  then obtain b e where b: "b \<in> class_spans L k" "V b = Some e" "y \<in> grid (?sz k) e" "y \<in> extent y (?sz k)" "extent y (?sz k) \<subseteq> page_bytes (span_pages e)"
    using obj [OF k] by blast
  have xe: "x \<in> extent y (?sz k)" using xy b(4) by blast
  have "a = b"
  proof (rule ccontr)
    assume "a \<noteq> b"
    then have "span_pages d \<inter> span_pages e = {}" using pages_apart [OF R a(2) b(2)] by blast
    then show False using xd xe b(5) by (auto simp: page_bytes_def)
  qed
  then have e: "d = e" "c = k" using a(1,2) b(1,2) class_spans_apart [OF R c k] by auto
  then have "x \<noteq> y" using x(2) y by blast
  then have "extent x (?sz c) \<inter> extent y (?sz c) = {}" using grid_objects_apart [OF a(3)] b(3) e by blast
  then show False using a(4) xe e by blast
qed

lemmas unheld = unheld_subset [OF _ _ _ _ subset_refl]

text \<open>An object held outside: its span, and that it is on no list.\<close>

lemma held_object:
  assumes I: "central_ok rep S V L fr ch Out" and c: "c < kNumClasses" and x: "x \<in> Out c"
  shows "0 < c" "\<exists>a d. a \<in> class_spans L c \<and> V a = Some d \<and> span_ok (sizemap S) (object_mem S) c d (fr a) \<and>
     x \<in> grid (class_to_size (sizemap S) c) d \<and> x \<notin> set (fr a) \<and> MapObjectToSpan S x = Sp a \<and> x \<noteq> 0 \<and> 0 < refcount d"
proof -
  note R = central_okD(2) [OF I] and K = central_okD(4) [OF I c]
  let ?sz = "class_to_size (sizemap S) c"
  have "x \<in> class_objs (sizemap S) V L c" and n: "x \<notin> class_frees L fr c"
    using held_okD(1) [OF class_okD(5) [OF K]] x by blast+
  then obtain a where a: "a \<in> class_spans L c" "x \<in> grid ?sz (the (V a))" by (auto simp: class_objs_def)
  then show z: "0 < c" using class_okD(6) [OF K] by (cases "c = 0") auto
  obtain d where d: "V a = Some d" using class_span_view [OF R c a(1)] by blast
  have sz: "0 < ?sz" using sizemap_okD(1) [OF central_okD(1) [OF I] z c] by simp
  have s: "span_ok (sizemap S) (object_mem S) c d (fr a)" using spans_okD(1) [OF class_okD(2) [OF K] a(1)] d by simp
  have g: "x \<in> grid ?sz d" and nf: "x \<notin> set (fr a)" using a n d by (auto simp: class_frees_def)
  have "MapObjectToSpan S x = Sp a"
    unfolding MapObjectToSpan_def using lookup [OF R d] span_okD(1) [OF s] z grid_page [OF sz g] by simp
  moreover have "x \<noteq> 0" using grid_nonzero [OF sz _ g] pages_bound [OF R d] by blast
  moreover have "length (fr a) < capacity ?sz d"
  proof -
    have "length (fr a) = card (set (fr a))" using sll_distinct [OF span_okD(3) [OF s]] by (simp add: distinct_card)
    also have "\<dots> < card (grid ?sz d)" using span_okD(4) [OF s] g nf by (intro psubset_card_mono) auto
    finally show ?thesis using card_grid [OF sz] by simp
  qed
  then have "0 < refcount d" using span_okD(5) [OF s] by simp
  ultimately show "\<exists>a d. a \<in> class_spans L c \<and> V a = Some d \<and> span_ok (sizemap S) (object_mem S) c d (fr a) \<and>
     x \<in> grid ?sz d \<and> x \<notin> set (fr a) \<and> MapObjectToSpan S x = Sp a \<and> x \<noteq> 0 \<and> 0 < refcount d"
    using a(1) d s g nf by blast
qed

lemma span_fields:
  assumes "rep h V L" "V a = Some d"
  shows "span_start (span_of h (Sp a)) = span_start d" "span_length (span_of h (Sp a)) = span_length d"
    "objects (span_of h (Sp a)) = objects d" "refcount (span_of h (Sp a)) = refcount d" "sizeclass (span_of h (Sp a)) = sizeclass d"
proof -
  have "span_data (span_of h (Sp a)) = span_data d" using view_data [OF assms] by (auto simp: span_data_def)
  from span_data_fields [OF this] show "span_start (span_of h (Sp a)) = span_start d" "span_length (span_of h (Sp a)) = span_length d"
    "objects (span_of h (Sp a)) = objects d" "refcount (span_of h (Sp a)) = refcount d" "sizeclass (span_of h (Sp a)) = sizeclass d"
    by simp_all
qed

end

end
