(* ===== verification/Central_Release.thy ===== *)
theory Central_Release
  imports Central_Inv
begin

text \<open>
  Returning objects: \<open>ReleaseToSpans\<close>, \<open>ReleaseListToSpans\<close>, and with them the operations on the
  transfer cache and \<open>InsertRange\<close>.
\<close>

section \<open>Pure facts on the invariant of a class\<close>

text \<open>The transfer cache of a class is as it was.\<close>

definition same_slots :: "central_list \<Rightarrow> central_list \<Rightarrow> bool" where
  "same_slots l l' = (size_class l' = size_class l \<and> tc_slots l' = tc_slots l \<and> used_slots l' = used_slots l \<and>
     cache_size l' = cache_size l \<and> max_cache_size l' = max_cache_size l)"

lemma same_slots_refl [simp]: "same_slots l l" "same_slots l (l\<lparr>counter := w\<rparr>)" "same_slots l (l\<lparr>counter := w, num_spans := n\<rparr>)"
  by (simp_all add: same_slots_def)

lemma same_slots_trans: "same_slots l l' \<Longrightarrow> same_slots l' l'' \<Longrightarrow> same_slots l l''"
  by (simp add: same_slots_def)

text \<open>Membership in the two lists of a class, with the lists of the other classes alone.\<close>

definition relisted :: "nat \<Rightarrow> (span_ptr \<Rightarrow> span_ptr list) \<Rightarrow> (span_ptr \<Rightarrow> span_ptr list) \<Rightarrow> addr \<Rightarrow> bool" where
  "relisted c L L' a = (Sp a \<in> set (L' (CentralNonempty c)) \<and> Sp a \<notin> set (L' (CentralEmpty c)) \<and>
     (\<forall>b. b \<noteq> a \<longrightarrow> (Sp b \<in> set (L' (CentralNonempty c)) \<longleftrightarrow> Sp b \<in> set (L (CentralNonempty c))) \<and>
        (Sp b \<in> set (L' (CentralEmpty c)) \<longleftrightarrow> Sp b \<in> set (L (CentralEmpty c)))) \<and>
     (\<forall>H. H \<noteq> CentralNonempty c \<longrightarrow> H \<noteq> CentralEmpty c \<longrightarrow> L' H = L H))"

lemma relisted_spans: "relisted c L L' a \<Longrightarrow> a \<in> class_spans L c \<Longrightarrow> class_spans L' c = class_spans L c"
proof (rule set_eqI)
  fix b assume "relisted c L L' a" "a \<in> class_spans L c"
  then show "b \<in> class_spans L' c \<longleftrightarrow> b \<in> class_spans L c"
    by (cases "b = a") (simp_all add: relisted_def class_spans_def)
qed

lemma drop_held: "out \<union> C = insert x B \<Longrightarrow> x \<notin> B \<Longrightarrow> x \<notin> C \<Longrightarrow> out - {x} \<union> C = B"
proof -
  assume a: "out \<union> C = insert x B" "x \<notin> B" "x \<notin> C"
  then have "out \<union> C - {x} = B" by simp
  then show ?thesis using a(3) by (simp add: Un_Diff)
qed

lemma relisted_others: "relisted c L L' a \<Longrightarrow> k \<noteq> c \<Longrightarrow> L' (CentralNonempty k) = L (CentralNonempty k) \<and> L' (CentralEmpty k) = L (CentralEmpty k)"
  by (simp add: relisted_def)

text \<open>The object \<open>x\<close> of span \<open>a\<close> becomes free, at the head of the list of the span.\<close>

lemma class_ok_push:
  assumes K: "class_ok sm m V L fr c l chs out" and fin: "finite (class_spans L c)"
    and r: "relisted c L L' a" and a: "a \<in> class_spans L c" "V a = Some d" and x: "x \<in> out" "x \<in> grid (class_to_size sm c) d"
    and nf: "x \<notin> set (fr a)" "x \<noteq> 0" "0 < refcount d"
    and disj: "\<And>b. b \<in> class_spans L c \<Longrightarrow> b \<noteq> a \<Longrightarrow> x \<notin> set (fr b)"
  shows "class_ok sm (m(x := objects d)) (V(a \<mapsto> d\<lparr>refcount := refcount d - 1, objects := x\<rparr>)) L' (fr(a := x # fr a)) c
    (l\<lparr>counter := counter l + 1\<rparr>) chs (out - {x})"
proof -
  let ?m = "m(x := objects d)" and ?V = "V(a \<mapsto> d\<lparr>refcount := refcount d - 1, objects := x\<rparr>)" and ?fr = "fr(a := x # fr a)"
  note cs = relisted_spans [OF r a(1)]
  have s: "span_ok sm m c d (fr a)" using spans_okD(1) [OF class_okD(2) [OF K] a(1)] a(2) by simp
  have xc: "x \<notin> set (concat chs)" using held_okD(2) [OF class_okD(5) [OF K]] x(1) by blast
  have "span_ok sm ?m c (the (?V b)) (?fr b) \<and> (?fr b = [] \<longleftrightarrow> Sp b \<in> set (L' (CentralEmpty c)))" if b: "b \<in> class_spans L c" for b
  proof (cases "b = a")
    case True
    have "sll ?m x (x # fr a)" using span_okD(3) [OF s] nf by simp
    moreover have "grid z (d\<lparr>refcount := n, objects := p\<rparr>) = grid z d" "capacity z (d\<lparr>refcount := n, objects := p\<rparr>) = capacity z d" for z n p
      by (simp_all add: grid_def capacity_def)
    ultimately have "span_ok sm ?m c (d\<lparr>refcount := refcount d - 1, objects := x\<rparr>) (x # fr a)"
      using span_okD [OF s] x(2) nf(3) by (simp add: span_ok_def)
    then show ?thesis using True r by (simp add: relisted_def)
  next
    case False
    have "span_ok sm ?m c (the (V b)) (fr b)"
      using spans_okD(1) [OF class_okD(2) [OF K] b] disj [OF b False] by (simp add: span_ok_def)
    then show ?thesis using False r spans_okD(2) [OF class_okD(2) [OF K] b] by (simp add: relisted_def)
  qed
  then have 1: "spans_ok sm ?m ?V L' ?fr c" by (simp add: spans_ok_def cs)
  have "(\<Sum>b\<in>class_spans L c - {a}. length (?fr b)) = (\<Sum>b\<in>class_spans L c - {a}. length (fr b))"
    by (rule sum.cong) auto
  then have "(\<Sum>b\<in>class_spans L c. length (?fr b)) = (\<Sum>b\<in>class_spans L c. length (fr b)) + 1"
    unfolding sum.remove [OF fin a(1)] by simp
  then have 2: "counts_ok L' ?fr c (l\<lparr>counter := counter l + 1\<rparr>)" using class_okD(3) [OF K] by (simp add: counts_ok_def cs)
  have "sll ?m p (chs ! i) = sll m p (chs ! i)" if "i < length chs" for p i
    using xc nth_mem [OF that] by (intro slseg_frame) (auto simp: set_concat)
  then have 3: "slots_ok sm ?m c (l\<lparr>counter := counter l + 1\<rparr>) chs" using class_okD(4) [OF K] by (simp add: slots_ok_def)
  have o: "class_objs sm ?V L' c = class_objs sm V L c" unfolding class_objs_def cs by (intro SUP_cong) (use a in \<open>auto simp: grid_def capacity_def\<close>)
  have f: "class_frees L' ?fr c = insert x (class_frees L fr c)" using a(1) unfolding class_frees_def cs by (auto split: if_splits)
  have 4: "held_ok sm ?V L' ?fr c chs (out - {x})"
    using class_okD(5) [OF K] x(1) xc unfolding held_ok_def o f by blast
  show ?thesis using 1 2 3 4 class_okD(1,6) [OF K] cs a(1) unfolding class_ok_def by (cases "c = 0") auto
qed

text \<open>The last object of span \<open>a\<close> comes back, and the span leaves the class.\<close>

lemma class_ok_drop:
  assumes K: "class_ok sm m V L fr c l chs out" and fin: "finite (class_spans L c)" and sz: "0 < class_to_size sm c"
    and L': "\<And>b. Sp b \<in> set (L' (CentralNonempty c)) \<longleftrightarrow> b \<noteq> a \<and> Sp b \<in> set (L (CentralNonempty c))"
      "\<And>b. Sp b \<in> set (L' (CentralEmpty c)) \<longleftrightarrow> b \<noteq> a \<and> Sp b \<in> set (L (CentralEmpty c))"
    and a: "a \<in> class_spans L c" "V a = Some d" and x: "x \<in> out" "x \<in> grid (class_to_size sm c) d"
    and nf: "x \<notin> set (fr a)" "refcount d = 1"
    and disj: "\<And>b. b \<in> class_spans L c \<Longrightarrow> b \<noteq> a \<Longrightarrow> grid (class_to_size sm c) d \<inter> grid (class_to_size sm c) (the (V b)) = {}"
  shows "class_ok sm m (V(a := None)) L' fr c
    (l\<lparr>counter := counter l + 1 - of_nat (capacity (class_to_size sm c) d), num_spans := num_spans l - 1\<rparr>) chs (out - {x})"
proof -
  let ?sz = "class_to_size sm c" and ?l = "l\<lparr>counter := counter l + 1 - of_nat (capacity (class_to_size sm c) d), num_spans := num_spans l - 1\<rparr>"
  have cs: "class_spans L' c = class_spans L c - {a}" using L' by (auto simp: class_spans_def)
  have s: "span_ok sm m c d (fr a)" using spans_okD(1) [OF class_okD(2) [OF K] a(1)] a(2) by simp
  have "span_ok sm m c (the ((V(a := None)) b)) (fr b) \<and> (fr b = [] \<longleftrightarrow> Sp b \<in> set (L' (CentralEmpty c)))"
    if b: "b \<in> class_spans L c - {a}" for b
    using spans_okD [OF class_okD(2) [OF K], of b] b L'(2) by simp
  then have 1: "spans_ok sm m (V(a := None)) L' fr c" by (simp add: spans_ok_def cs)
  have len: "length (fr a) + 1 = capacity ?sz d" using span_okD(5) [OF s] nf(2) by simp
  have "(\<Sum>b\<in>class_spans L c. length (fr b)) + 1 = (\<Sum>b\<in>class_spans L c - {a}. length (fr b)) + capacity ?sz d"
    using sum.remove [OF fin a(1), of "\<lambda>b. length (fr b)"] len by simp
  then have "of_nat (\<Sum>b\<in>class_spans L c. length (fr b)) + 1 = (of_nat (\<Sum>b\<in>class_spans L c - {a}. length (fr b)) + of_nat (capacity ?sz d) :: 64 word)"
    by (metis of_nat_add of_nat_1)
  then have n: "counter l + 1 - of_nat (capacity ?sz d) = of_nat (\<Sum>b\<in>class_spans L c - {a}. length (fr b))"
    using class_okD(3) [OF K] by (simp add: counts_ok_def)
  have "card (class_spans L c) = Suc (card (class_spans L c - {a}))" using card.remove [OF fin a(1)] .
  then have 2: "counts_ok L' fr c ?l" using class_okD(3) [OF K] n by (simp add: counts_ok_def cs)
  have 3: "slots_ok sm m c ?l chs" using class_okD(4) [OF K] by (simp add: slots_ok_def)
  let ?R = "\<Union>b\<in>class_spans L c - {a}. grid ?sz (the (V b))" and ?F = "\<Union>b\<in>class_spans L c - {a}. set (fr b)"
  have o: "class_objs sm V L c = grid ?sz d \<union> ?R" "class_objs sm (V(a := None)) L' c = ?R"
    using a unfolding class_objs_def cs by auto
  have f: "class_frees L fr c = set (fr a) \<union> ?F" "class_frees L' fr c = ?F" using a(1) unfolding class_frees_def cs by auto
  have F: "?F \<subseteq> ?R" using spans_okD(1) [OF class_okD(2) [OF K]] by (fastforce simp: span_ok_def)
  have R: "grid ?sz d \<inter> ?R = {}" using disj by blast
  have "card (set (fr a)) = length (fr a)" using sll_distinct [OF span_okD(3) [OF s]] by (simp add: distinct_card)
  then have "card (insert x (set (fr a))) = card (grid ?sz d)" using nf(1) len card_grid [OF sz] by simp
  moreover have "insert x (set (fr a)) \<subseteq> grid ?sz d" using span_okD(4) [OF s] x(2) by blast
  ultimately have g: "grid ?sz d = insert x (set (fr a))" using card_subset_eq [OF finite_grid] by metis
  have xc: "x \<notin> set (concat chs)" using held_okD(2) [OF class_okD(5) [OF K]] x(1) by blast
  have "(grid ?sz d \<union> ?R) - (set (fr a) \<union> ?F) = insert x (?R - ?F)" "x \<notin> ?R - ?F" using R F nf(1) unfolding g by auto
  moreover note held_okD(1) [OF class_okD(5) [OF K], unfolded o(1) f(1)]
  ultimately have "out - {x} \<union> set (concat chs) = ?R - ?F" using xc by (intro drop_held) simp_all
  then have 4: "held_ok sm (V(a := None)) L' fr c chs (out - {x})"
    using held_okD(2,3) [OF class_okD(5) [OF K]] unfolding held_ok_def o f by blast
  show ?thesis using 1 2 3 4 class_okD(1,6) [OF K] cs a(1) unfolding class_ok_def by (cases "c = 0") auto
qed

text \<open>Taking the last chain out of the transfer cache, and putting a chain in.\<close>

lemma class_ok_pop_chain:
  assumes K: "class_ok sm m V L fr c l (chs @ [xs]) out"
  shows "class_ok sm m V L fr c (l\<lparr>used_slots := used_slots l - 1\<rparr>) chs (out \<union> set xs)"
    "sll m (fst (tc_slots l (length chs))) xs" "xs \<noteq> []" "last xs = snd (tc_slots l (length chs))"
    "int (length xs) = num_objects_to_move sm c" "out \<inter> set xs = {}" "0 < c"
proof -
  note k = class_okD [OF K]
  have P: "sll m (fst (tc_slots l i)) ((chs @ [xs]) ! i) \<and> (chs @ [xs]) ! i \<noteq> [] \<and> last ((chs @ [xs]) ! i) = snd (tc_slots l i) \<and>
        int (length ((chs @ [xs]) ! i)) = num_objects_to_move sm c" if "i < Suc (length chs)" for i
    using k(4) that unfolding slots_ok_def by simp
  show "sll m (fst (tc_slots l (length chs))) xs" "xs \<noteq> []" "last xs = snd (tc_slots l (length chs))"
    "int (length xs) = num_objects_to_move sm c" using P [of "length chs"] by simp_all
  show "out \<inter> set xs = {}" using held_okD(2) [OF k(5)] by auto
  show "0 < c" using k(6) by (cases "c = 0") auto
  have "sll m (fst (tc_slots l i)) (chs ! i) \<and> chs ! i \<noteq> [] \<and> last (chs ! i) = snd (tc_slots l i) \<and>
        int (length (chs ! i)) = num_objects_to_move sm c" if "i < length chs" for i
    using P [of i] that by (simp add: nth_append)
  then have "slots_ok sm m c (l\<lparr>used_slots := used_slots l - 1\<rparr>) chs" using k(4) by (simp add: slots_ok_def)
  moreover have "held_ok sm V L fr c chs (out \<union> set xs)" using k(5) by (auto simp: held_ok_def)
  ultimately show "class_ok sm m V L fr c (l\<lparr>used_slots := used_slots l - 1\<rparr>) chs (out \<union> set xs)"
    using k \<open>0 < c\<close> by (simp add: class_ok_def counts_ok_def)
qed

lemma class_ok_push_chain:
  assumes K: "class_ok sm m V L fr c l chs out" and u: "used_slots l < cache_size l" and c: "0 < c"
    and xs: "sll m start xs" "xs \<noteq> []" "int (length xs) = num_objects_to_move sm c" "set xs \<subseteq> out"
  shows "class_ok sm m V L fr c (l\<lparr>used_slots := used_slots l + 1, tc_slots := (tc_slots l)(nat (used_slots l) := (start, last xs))\<rparr>)
    (chs @ [xs]) (out - set xs)"
proof -
  let ?l = "l\<lparr>used_slots := used_slots l + 1, tc_slots := (tc_slots l)(nat (used_slots l) := (start, last xs))\<rparr>"
  note k = class_okD [OF K]
  have n: "nat (used_slots l) = length chs" using k(4) by (simp add: slots_ok_def)
  have "sll m (fst (tc_slots ?l i)) ((chs @ [xs]) ! i) \<and> (chs @ [xs]) ! i \<noteq> [] \<and> last ((chs @ [xs]) ! i) = snd (tc_slots ?l i) \<and>
        int (length ((chs @ [xs]) ! i)) = num_objects_to_move sm c" if "i < length (chs @ [xs])" for i
  proof (cases "i = length chs")
    case True
    then show ?thesis using xs n by simp
  next
    case False
    then have "i < length chs" using that by simp
    then show ?thesis using k(4) n by (simp add: slots_ok_def nth_append)
  qed
  then have "slots_ok sm m c ?l (chs @ [xs])" using k(4) u by (simp add: slots_ok_def)
  moreover have "held_ok sm V L fr c (chs @ [xs]) (out - set xs)"
    using k(5) xs(4) sll_distinct [OF xs(1)] unfolding held_ok_def by auto
  ultimately show ?thesis using k c by (simp add: class_ok_def counts_ok_def)
qed

lemma class_ok_resize:
  assumes "class_ok sm m V L fr c l chs out" "used_slots l \<le> n" "n \<le> max_cache_size l"
  shows "class_ok sm m V L fr c (l\<lparr>cache_size := n\<rparr>) chs out"
  using assms by (simp add: class_ok_def slots_ok_def counts_ok_def)

lemma resize_swap: "l\<lparr>used_slots := a, cache_size := b\<rparr> = (l :: central_list)\<lparr>cache_size := b, used_slots := a\<rparr>"
  by simp

section \<open>Releasing one object\<close>

context span_heap
begin

lemma removed_unlisted:
  assumes R: "rep h V L" and H: "H \<in> cheaders" "s \<in> set (L H)"
  shows "\<forall>K\<in>cheaders. s \<notin> set ((L(H := removeAll s (L H))) K)"
proof
  fix K assume K: "K \<in> cheaders"
  show "s \<notin> set ((L(H := removeAll s (L H))) K)" using lists_apart [OF R H(1) K H(2)] by (cases "K = H") auto
qed

text \<open>The span of a returned object goes to the list of the spans with free objects.\<close>

lemma to_nonempty:
  assumes R: "rep h V L" and c: "c < kNumClasses" and K: "spans_ok sm m V L fr c" and a: "a \<in> class_spans L c" "V a = Some d"
  shows "\<exists>h' L'. (if objects (span_of h (Sp a)) = 0
       then do { h \<leftarrow> lift_dll (\<lambda>st. DLL_Remove st (Sp a)) h; lift_dll (\<lambda>st. DLL_Prepend st (CentralNonempty c) (Sp a)) h }
       else Some h) = Some h' \<and> rep h' V L' \<and> relisted c L L' a"
proof (cases "fr a = []")
  case True
  have "sll m (objects d) (fr a)" using span_okD(3) [OF spans_okD(1) [OF K a(1)]] a(2) by simp
  then have e: "Sp a \<in> set (L (CentralEmpty c))" "objects (span_of h (Sp a)) = 0"
    using True spans_okD(2) [OF K a(1)] span_fields(3) [OF R a(2)] by auto
  let ?L1 = "L(CentralEmpty c := removeAll (Sp a) (L (CentralEmpty c)))"
  let ?L2 = "?L1(CentralNonempty c := Sp a # ?L1 (CentralNonempty c))"
  obtain h1 where h1: "lift_dll (\<lambda>st. DLL_Remove st (Sp a)) h = Some h1" "rep h1 V ?L1" using remove [OF R _ e(1)] c by auto
  have n: "\<forall>H\<in>cheaders. Sp a \<notin> set (?L1 H)" using removed_unlisted [OF R _ e(1)] c by simp
  obtain h2 where h2: "lift_dll (\<lambda>st. DLL_Prepend st (CentralNonempty c) (Sp a)) h1 = Some h2" "rep h2 V ?L2"
    using prepend [OF h1(2) cheadersI(1) [OF c] a(2) n] by blast
  have "relisted c L ?L2 a" by (auto simp: relisted_def)
  then show ?thesis using h1(1) h2 e(2) by (intro exI [of _ h2] exI [of _ ?L2]) simp
next
  case False
  then have "Sp a \<in> set (L (CentralNonempty c))" "Sp a \<notin> set (L (CentralEmpty c))"
    using spans_okD(2) [OF K a(1)] a(1) by (auto simp: class_spans_def)
  then have "relisted c L L a" by (simp add: relisted_def)
  moreover have "sll m (objects d) (fr a)" using span_okD(3) [OF spans_okD(1) [OF K a(1)]] a(2) by simp
  then have "objects (span_of h (Sp a)) \<noteq> 0" using False span_fields(3) [OF R a(2)] by (cases "fr a") auto
  ultimately show ?thesis using R by (intro exI [of _ h] exI [of _ L]) simp
qed

lemma heap_op_compose:
  "do { S \<leftarrow> heap_op f S; heap_op g S } = heap_op (\<lambda>h. do { h \<leftarrow> f h; g h }) S"
  "(if b then heap_op f S else Some S) = heap_op (\<lambda>h. if b then f h else Some h) S"
  by (auto simp: heap_op_def split: Option.bind_split)

lemma ReleaseToSpans_ok:
  assumes I: "central_ok rep S V L fr ch Out" and c: "c < kNumClasses" and x: "x \<in> Out c"
  shows "\<exists>S' V' L' fr'. ReleaseToSpans E c S x = Some S' \<and> central_ok rep S' V' L' fr' ch (Out(c := Out c - {x})) \<and>
    (\<forall>y. y \<noteq> x \<longrightarrow> object_mem S' y = object_mem S y) \<and> sizemap S' = sizemap S \<and>
    (\<forall>k. k \<noteq> c \<longrightarrow> central_cache S' k = central_cache S k) \<and>
    same_slots (central_cache S c) (central_cache S' c)"
proof -
  note R = central_okD(2) [OF I] and K = central_okD(4) [OF I c] and z = held_object(1) [OF I c x]
  let ?h = "pageheap S" and ?sz = "class_to_size (sizemap S) c" and ?l = "central_cache S c"
  note fin = class_spans_finite [OF R c]
  have sz: "0 < ?sz" using sizemap_okD(1) [OF central_okD(1) [OF I] z c] by simp
  obtain a d where a: "a \<in> class_spans L c" "V a = Some d" and s: "span_ok (sizemap S) (object_mem S) c d (fr a)"
    and g: "x \<in> grid ?sz d" "x \<notin> set (fr a)" "MapObjectToSpan S x = Sp a" "x \<noteq> 0" "0 < refcount d"
    using held_object(2) [OF I c x] by blast
  obtain h1 L1 where h1: "(if objects (span_of ?h (Sp a)) = 0
       then do { h \<leftarrow> lift_dll (\<lambda>st. DLL_Remove st (Sp a)) ?h; lift_dll (\<lambda>st. DLL_Prepend st (CentralNonempty c) (Sp a)) h }
       else Some ?h) = Some h1" "rep h1 V L1" "relisted c L L1 a"
    using to_nonempty [OF R c class_okD(2) [OF K] a] by blast
  let ?d1 = "d\<lparr>refcount := refcount d - 1\<rparr>"
  obtain h2 where h2: "upd_span h1 (Sp a) (\<lambda>x. x\<lparr>refcount := refcount x - 1\<rparr>) = Some h2" "rep h2 (V(a \<mapsto> ?d1)) L1"
    using update [OF h1(2) a(2), of "\<lambda>x. x\<lparr>refcount := refcount x - 1\<rparr>"] by (auto simp: client_update_def span_data_def)
  have V1: "(V(a \<mapsto> ?d1)) a = Some ?d1" by simp
  note f2 = span_fields [OF h2(2) V1, simplified]
  have disj: "grid ?sz d \<inter> grid ?sz (the (V b)) = {}" if b: "b \<in> class_spans L c" "b \<noteq> a" for b
    using class_span_view [OF R c b(1)] pages_apart [OF R a(2), of b] b(2) grid_apart [OF sz sz] by fastforce
  have nfr: "x \<notin> set (fr b)" if b: "b \<in> class_spans L c" "b \<noteq> a" for b
    using disj [OF b] g(1) span_okD(4) [OF spans_okD(1) [OF class_okD(2) [OF K] b(1)]] by blast
  have own: "k = c" if "k < kNumClasses" "a \<in> class_spans L k" for k using class_spans_apart [OF R that(1) c that(2) a(1)] .
  have notx: "x \<notin> class_objs (sizemap S) V L k" if "k < kNumClasses" "k \<noteq> c" for k
    using class_objs_apart [OF I c that(1)] that(2) a g(1) unfolding class_objs_def by fastforce
  let ?S2 = "(upd_list S c (\<lambda>l. l\<lparr>counter := counter l + 1\<rparr>))\<lparr>pageheap := h2\<rparr>"
  have unf: "ReleaseToSpans E c S x = (let y = span_of h2 (Sp a) in
      if refcount y = 0 then do {
        CHECK (class_to_size (sizemap S) (sizeclass y) \<noteq> 0);
        let S = upd_list ?S2 c (\<lambda>l. l\<lparr>counter := counter l - of_nat ((span_length y * 2 ^ kPageShift) mod 2 ^ 64 div class_to_size (sizemap S) (sizeclass y))\<rparr>) in do {
          S \<leftarrow> heap_op (lift_dll (\<lambda>st. DLL_Remove st (Sp a))) S;
          let S = upd_list S c (\<lambda>l. l\<lparr>num_spans := num_spans l - 1\<rparr>) in
          heap_op (\<lambda>h. Delete E h (Sp a)) S } }
      else do {
        m \<leftarrow> SLL_SetNext (object_mem ?S2) x (objects y);
        heap_op (\<lambda>h. upd_span h (Sp a) (\<lambda>z. z\<lparr>objects := x\<rparr>)) (?S2\<lparr>object_mem := m\<rparr>) })"
    using h1(1) h2(1) g(5) span_fields(4) [OF R a(2)]
    unfolding ReleaseToSpans_def g(3) heap_op_compose by (simp add: heap_op_def upd_list_def Let_def)
  show ?thesis
  proof (cases "refcount d = 1")
    case False
    let ?d2 = "d\<lparr>refcount := refcount d - 1, objects := x\<rparr>"
    obtain h3 where "upd_span h2 (Sp a) (\<lambda>z. z\<lparr>objects := x\<rparr>) = Some h3" "rep h3 ((V(a \<mapsto> ?d1))(a \<mapsto> ?d1\<lparr>objects := x\<rparr>)) L1"
      using update [OF h2(2) V1 client_update_simps(2), of x] by blast
    then have h3: "upd_span h2 (Sp a) (\<lambda>z. z\<lparr>objects := x\<rparr>) = Some h3" "rep h3 (V(a \<mapsto> ?d2)) L1"
      unfolding fun_upd_upd by simp_all
    let ?S = "?S2\<lparr>object_mem := (object_mem S)(x := objects d), pageheap := h3\<rparr>"
    have op: "ReleaseToSpans E c S x = Some ?S"
      unfolding unf using False g(4,5) h3(1) f2 by (simp add: Let_def SLL_SetNext_def heap_op_def upd_list_def)
    have "central_ok rep ?S (V(a \<mapsto> ?d2)) L1 (fr(a := x # fr a)) ch (Out(c := Out c - {x}))"
    proof (rule central_ok_class [OF I c])
      show "class_ok (sizemap S) (object_mem ?S) (V(a \<mapsto> ?d2)) L1 (fr(a := x # fr a)) c (central_cache ?S c) (ch c) ((Out(c := Out c - {x})) c)"
        using class_ok_push [OF K fin h1(3) a x g(1,2,4,5) nfr] by (simp add: upd_list_def)
    qed (use h3(2) own notx relisted_others [OF h1(3)] in \<open>auto simp: upd_list_def\<close>)
    then show ?thesis using op by (intro exI [of _ ?S] exI conjI) (simp_all add: upd_list_def)
  next
    case True
    let ?cap = "capacity ?sz d" and ?L2 = "L1(CentralNonempty c := removeAll (Sp a) (L1 (CentralNonempty c)))"
    have m1: "Sp a \<in> set (L1 (CentralNonempty c))" and m2: "Sp a \<notin> set (L1 (CentralEmpty c))" using h1(3) by (simp_all add: relisted_def)
    obtain h3 where h3: "lift_dll (\<lambda>st. DLL_Remove st (Sp a)) h2 = Some h3" "rep h3 (V(a \<mapsto> ?d1)) ?L2"
      using remove [OF h2(2) _ m1] c by auto
    have "\<forall>H\<in>cheaders. Sp a \<notin> set (?L2 H)" using removed_unlisted [OF h2(2) _ m1] c by simp
    then obtain h4 where "Delete E h3 (Sp a) = Some h4" "rep h4 ((V(a \<mapsto> ?d1))(a := None)) ?L2" using delete [OF h3(2) V1] by blast
    then have h4: "Delete E h3 (Sp a) = Some h4" "rep h4 (V(a := None)) ?L2" unfolding fun_upd_upd by simp_all
    let ?l' = "?l\<lparr>counter := counter ?l + 1 - of_nat ?cap, num_spans := num_spans ?l - 1\<rparr>"
    let ?S = "S\<lparr>central_cache := (central_cache S)(c := ?l'), pageheap := h4\<rparr>"
    have "span_length d * 2 ^ kPageShift < 2 ^ 64"
      using sizemap_okD(4) [OF central_okD(1) [OF I] z c] span_okD(2) [OF s] by (simp add: kPageShift_def)
    then have op: "ReleaseToSpans E c S x = Some ?S"
      unfolding unf using True f2 span_okD(1) [OF s] sz h3(1) h4(1)
      by (simp add: Let_def heap_op_def upd_list_def capacity_def mod_less)
    have L2: "Sp b \<in> set (?L2 (CentralNonempty c)) \<longleftrightarrow> b \<noteq> a \<and> Sp b \<in> set (L (CentralNonempty c))"
      "Sp b \<in> set (?L2 (CentralEmpty c)) \<longleftrightarrow> b \<noteq> a \<and> Sp b \<in> set (L (CentralEmpty c))" for b
      using h1(3) m2 by (auto simp: relisted_def)
    have k: "class_ok (sizemap S) (object_mem S) (V(a := None)) ?L2 fr c ?l' (ch c) (Out c - {x})"
      by (rule class_ok_drop [OF K fin sz L2 a x g(1,2) True disj])
    have "central_ok rep ?S (V(a := None)) ?L2 fr ch (Out(c := Out c - {x}))"
    proof (rule central_ok_class [OF I c])
      show "class_ok (sizemap S) (object_mem ?S) (V(a := None)) ?L2 fr c (central_cache ?S c) (ch c) ((Out(c := Out c - {x})) c)"
        using k by simp
    qed (use h4(2) own relisted_others [OF h1(3)] in auto)
    then show ?thesis using op by (intro exI [of _ ?S] exI conjI) simp_all
  qed
qed

lemma ReleaseListToSpans_ok:
  assumes I: "central_ok rep S V L fr ch Out" and c: "c < kNumClasses"
    and l: "sll (object_mem S) start xs" and x: "set xs \<subseteq> Out c"
  shows "\<exists>S' V' L' fr'. ReleaseListToSpans E c S start = Some S' \<and> central_ok rep S' V' L' fr' ch (Out(c := Out c - set xs)) \<and>
    (\<forall>y. y \<notin> set xs \<longrightarrow> object_mem S' y = object_mem S y) \<and> sizemap S' = sizemap S \<and>
    (\<forall>k. k \<noteq> c \<longrightarrow> central_cache S' k = central_cache S k) \<and> same_slots (central_cache S c) (central_cache S' c)"
  using assms
proof (induction xs arbitrary: start S V L fr Out)
  case Nil
  then have "ReleaseListToSpans E c S start = Some S" by (simp add: ReleaseListToSpans.simps)
  with Nil(1) show ?case by (intro exI [of _ S] exI conjI) simp_all
next
  case (Cons x xs)
  have st: "start = x" "x \<noteq> 0" and tl: "sll (object_mem S) (object_mem S x) xs" using Cons.prems(3) by simp_all
  have d: "distinct (x # xs)" using sll_distinct [OF Cons.prems(3)] .
  obtain S1 V1 L1 fr1 where 1: "ReleaseToSpans E c S x = Some S1" "central_ok rep S1 V1 L1 fr1 ch (Out(c := Out c - {x}))"
    "\<forall>y. y \<noteq> x \<longrightarrow> object_mem S1 y = object_mem S y" "sizemap S1 = sizemap S"
    "\<forall>k. k \<noteq> c \<longrightarrow> central_cache S1 k = central_cache S k" "same_slots (central_cache S c) (central_cache S1 c)"
    using ReleaseToSpans_ok [OF Cons.prems(1,2), of x] Cons.prems(4) by auto
  have "sll (object_mem S1) p xs = sll (object_mem S) p xs" for p by (rule slseg_frame_mem) (use 1(3) d in auto)
  then have "sll (object_mem S1) (object_mem S x) xs" using tl by simp
  moreover have "set xs \<subseteq> (Out(c := Out c - {x})) c" using Cons.prems(4) d by auto
  ultimately obtain S2 V2 L2 fr2 where 2: "ReleaseListToSpans E c S1 (object_mem S x) = Some S2"
    "central_ok rep S2 V2 L2 fr2 ch ((Out(c := Out c - {x}))(c := (Out(c := Out c - {x})) c - set xs))"
    "\<forall>y. y \<notin> set xs \<longrightarrow> object_mem S2 y = object_mem S1 y" "sizemap S2 = sizemap S1"
    "\<forall>k. k \<noteq> c \<longrightarrow> central_cache S2 k = central_cache S1 k" "same_slots (central_cache S1 c) (central_cache S2 c)"
    using Cons.IH [OF 1(2) Cons.prems(2)] by blast
  have "ReleaseListToSpans E c S start = Some S2"
    using st 1(1) 2(1) by (simp add: ReleaseListToSpans.simps [of E c S] SLL_Next_def)
  moreover have "(Out(c := Out c - {x}))(c := (Out(c := Out c - {x})) c - set xs) = Out(c := Out c - set (x # xs))"
    by (auto simp: fun_eq_iff)
  then have "central_ok rep S2 V2 L2 fr2 ch (Out(c := Out c - set (x # xs)))" using 2(2) by simp
  moreover have "\<forall>y. y \<notin> set (x # xs) \<longrightarrow> object_mem S2 y = object_mem S y" "sizemap S2 = sizemap S"
    "\<forall>k. k \<noteq> c \<longrightarrow> central_cache S2 k = central_cache S k" "same_slots (central_cache S c) (central_cache S2 c)"
    using 1(3-5) 2(3-5) same_slots_trans [OF 1(6) 2(6)] by simp_all
  ultimately show ?case by blast
qed

end

section \<open>The transfer cache\<close>

lemma evict_index_eq: "0 \<le> t \<Longrightarrow> evict_index t = t mod int kNumClasses"
proof (induction t rule: evict_index.induct)
  case (1 t)
  have "0 < kNumClasses" by (simp add: config_defs)
  with 1 show ?case by (simp add: evict_index.simps [of t] mod_pos_pos_trivial)
qed

context span_heap
begin

text \<open>Only the list record and the chains of one class change.\<close>

lemma central_ok_list:
  assumes I: "central_ok rep S V L fr ch Out" and c: "c < kNumClasses"
    and K: "class_ok (sizemap S) (object_mem S) V L fr c (f (central_cache S c)) chs out"
  shows "central_ok rep (upd_list S c f) V L fr (ch(c := chs)) (Out(c := out))"
  by (rule central_ok_class [OF I c]) (use K central_okD(2) [OF I] in \<open>auto simp: upd_list_def\<close>)

lemma chain_objs:
  assumes I: "central_ok rep S V L fr ch Out" and c: "c < kNumClasses"
  shows "set (concat (ch c)) \<subseteq> class_objs (sizemap S) V L c" "Out c \<subseteq> class_objs (sizemap S) V L c"
  using held_okD(1) [OF class_okD(5) [OF central_okD(4) [OF I c]]] by blast+

lemma chains_not_out:
  assumes I: "central_ok rep S V L fr ch Out" and c: "c < kNumClasses"
  shows "set (concat (ch c)) \<inter> outs (sizemap S) A Out = {}"
  using unheld [OF I c] chain_objs(1) [OF I c] held_okD(2) [OF class_okD(5) [OF central_okD(4) [OF I c]]] by blast

lemma ShrinkCache_ok:
  assumes I: "central_ok rep S V L fr ch Out" and c: "c < kNumClasses"
  shows "\<exists>ok S' V' L' fr' chs. ShrinkCache E c S force = Some (ok, S') \<and> central_ok rep S' V' L' fr' (ch(c := chs)) Out \<and>
    (\<forall>y\<in>outs (sizemap S) A Out. object_mem S' y = object_mem S y) \<and> sizemap S' = sizemap S \<and>
    (\<forall>k. k \<noteq> c \<longrightarrow> central_cache S' k = central_cache S k)"
proof -
  let ?l = "central_cache S c" and ?chs = "ch c"
  note K = central_okD(4) [OF I c]
  have sl: "used_slots ?l = int (length ?chs)" "used_slots ?l \<le> cache_size ?l" "cache_size ?l \<le> max_cache_size ?l"
    "max_cache_size ?l \<le> kMaxNumTransferEntries" using class_okD(4) [OF K] by (simp_all add: slots_ok_def)
  have same: ?thesis if "ShrinkCache E c S force = Some (False, S)"
    using that I by (intro exI [of _ False] exI [of _ S] exI [of _ V] exI [of _ L] exI [of _ fr] exI [of _ ?chs]) simp
  consider "cache_size ?l = 0 \<or> \<not> force \<and> used_slots ?l = cache_size ?l" | "cache_size ?l \<noteq> 0" "used_slots ?l \<noteq> cache_size ?l"
    | "cache_size ?l \<noteq> 0" "force" "used_slots ?l = cache_size ?l" by blast
  then show ?thesis
  proof cases
    case 1
    then show ?thesis by (intro same) (auto simp: ShrinkCache_def Let_def)
  next
    case 2
    let ?f = "\<lambda>l. l\<lparr>cache_size := cache_size l - 1\<rparr>"
    have "ShrinkCache E c S force = Some (True, upd_list S c ?f)" using 2 sl by (auto simp: ShrinkCache_def Let_def)
    moreover have "class_ok (sizemap S) (object_mem S) V L fr c (?f ?l) ?chs (Out c)"
      using class_ok_resize [OF K, of "cache_size ?l - 1"] sl 2 by simp
    from central_ok_list [OF I c, where f = ?f, OF this] have "central_ok rep (upd_list S c ?f) V L fr (ch(c := ?chs)) Out" by simp
    ultimately show ?thesis
      by (intro exI [of _ True] exI [of _ "upd_list S c ?f"] exI [of _ V] exI [of _ L] exI [of _ fr] exI [of _ ?chs]) (simp add: upd_list_def)
  next
    case 3
    then have "?chs \<noteq> []" using sl by auto
    then obtain chs xs where chs: "?chs = chs @ [xs]" by (cases ?chs rule: rev_cases) auto
    let ?f = "\<lambda>l. l\<lparr>cache_size := cache_size l - 1, used_slots := used_slots l - 1\<rparr>"
    let ?S1 = "upd_list S c ?f" and ?start = "fst (tc_slots ?l (nat (used_slots ?l - 1)))"
    note P = class_ok_pop_chain [OF K [unfolded chs]]
    have xs: "sll (object_mem S) ?start xs" using P(2) sl(1) by (simp add: chs)
    have "class_ok (sizemap S) (object_mem S) V L fr c (?f ?l) chs (Out c \<union> set xs)"
      using class_ok_resize [OF P(1), of "cache_size ?l - 1"] sl 3 unfolding resize_swap by simp
    from central_ok_list [OF I c, where f = ?f, OF this] have I1: "central_ok rep ?S1 V L fr (ch(c := chs)) (Out(c := Out c \<union> set xs))" .
    have m1: "object_mem ?S1 = object_mem S" "sizemap ?S1 = sizemap S" "k \<noteq> c \<Longrightarrow> central_cache ?S1 k = central_cache S k" for k
      by (simp_all add: upd_list_def)
    obtain S' V' L' fr' where 2: "ReleaseListToSpans E c ?S1 ?start = Some S'"
      "central_ok rep S' V' L' fr' (ch(c := chs)) ((Out(c := Out c \<union> set xs))(c := (Out(c := Out c \<union> set xs)) c - set xs))"
      "\<forall>y. y \<notin> set xs \<longrightarrow> object_mem S' y = object_mem S y" "sizemap S' = sizemap S"
      "\<forall>k. k \<noteq> c \<longrightarrow> central_cache S' k = central_cache ?S1 k"
      using ReleaseListToSpans_ok [OF I1 c, of ?start xs] xs unfolding m1 by auto
    have x: "set xs \<inter> outs (sizemap S) A Out = {}" using chains_not_out [OF I c] unfolding chs by auto
    then have "Out c \<inter> set xs = {}" using outsI [OF c] by blast
    then have "(Out(c := Out c \<union> set xs))(c := (Out(c := Out c \<union> set xs)) c - set xs) = Out"
      by (auto simp: fun_eq_iff)
    then have "central_ok rep S' V' L' fr' (ch(c := chs)) Out" using 2(2) by simp
    moreover have "ShrinkCache E c S force = Some (True, S')"
      using 3 2(1) sl by (simp add: ShrinkCache_def Let_def)
    moreover have "\<forall>y\<in>outs (sizemap S) A Out. object_mem S' y = object_mem S y" using x 2(3) by blast
    ultimately show ?thesis using 2(4,5) m1(3) by (intro exI [of _ True] exI [of _ S'] exI [of _ V'] exI [of _ L'] exI [of _ fr'] exI [of _ chs]) simp
  qed
qed

lemma EvictRandomSizeClass_ok:
  assumes I: "central_ok rep S V L fr ch Out" and c: "c < kNumClasses"
  shows "\<exists>ok S' V' L' fr' ch'. EvictRandomSizeClass E S c force = Some (ok, S') \<and> central_ok rep S' V' L' fr' ch' Out \<and>
    (\<forall>y\<in>outs (sizemap S) A Out. object_mem S' y = object_mem S y) \<and> sizemap S' = sizemap S \<and>
    central_cache S' c = central_cache S c \<and> ch' c = ch c"
proof -
  define t where "t = race_counter S mod int kNumClasses"
  define S1 where "S1 = (if race_counter S \<ge> int kNumClasses then S\<lparr>race_counter := t\<rparr> else S\<lparr>race_counter := race_counter S + 1\<rparr>)"
  have pos: "0 < int kNumClasses" by (simp add: config_defs)
  have r: "0 \<le> race_counter S" using central_okD(3) [OF I] .
  have t: "0 \<le> t" "t < int kNumClasses" using pos by (simp_all add: t_def)
  have small: "race_counter S < int kNumClasses \<Longrightarrow> t = race_counter S" using r by (simp add: t_def)
  have I1: "central_ok rep S1 V L fr ch Out" using I t r by (simp add: central_ok_def S1_def)
  have S1: "object_mem S1 = object_mem S" "sizemap S1 = sizemap S" "central_cache S1 = central_cache S" by (simp_all add: S1_def)
  have "EvictRandomSizeClass E S c force = (if t = int c then Some (False, S1) else ShrinkCache E (nat t) S1 force)"
    using t small evict_index_eq [OF r] unfolding EvictRandomSizeClass_def S1_def t_def [symmetric]
    by (cases "race_counter S \<ge> int kNumClasses") (simp_all add: Let_def)
  moreover have "nat t < kNumClasses" using t by simp
  from ShrinkCache_ok [OF I1 this] obtain ok S' V' L' fr' chs where s: "ShrinkCache E (nat t) S1 force = Some (ok, S')"
    "central_ok rep S' V' L' fr' (ch(nat t := chs)) Out" "\<forall>y\<in>outs (sizemap S) A Out. object_mem S' y = object_mem S y" "sizemap S' = sizemap S"
    "\<forall>k. k \<noteq> nat t \<longrightarrow> central_cache S' k = central_cache S k" unfolding S1 by blast
  moreover have "t \<noteq> int c \<Longrightarrow> c \<noteq> nat t" using t by auto
  ultimately show ?thesis
  proof (cases "t = int c")
    case True
    with I1 S1 \<open>EvictRandomSizeClass E S c force = _\<close> show ?thesis
      by (intro exI [of _ False] exI [of _ S1] exI [of _ V] exI [of _ L] exI [of _ fr] exI [of _ ch]) simp
  next
    case False
    then have "c \<noteq> nat t" using t by auto
    with s False \<open>EvictRandomSizeClass E S c force = _\<close> show ?thesis
      by (intro exI [of _ ok] exI [of _ S'] exI [of _ V'] exI [of _ L'] exI [of _ fr'] exI [of _ "ch(nat t := chs)"]) simp
  qed
qed

lemma MakeCacheSpace_ok:
  assumes I: "central_ok rep S V L fr ch Out" and c: "c < kNumClasses"
  shows "\<exists>ok S' V' L' fr' ch'. MakeCacheSpace E c S = Some (ok, S') \<and> central_ok rep S' V' L' fr' ch' Out \<and>
    (\<forall>y\<in>outs (sizemap S) A Out. object_mem S' y = object_mem S y) \<and> sizemap S' = sizemap S \<and>
    (ok \<longrightarrow> used_slots (central_cache S' c) < cache_size (central_cache S' c))"
proof -
  let ?l = "central_cache S c"
  note K = central_okD(4) [OF I c]
  have sc: "size_class ?l = c" and sl: "used_slots ?l \<le> cache_size ?l" "cache_size ?l \<le> max_cache_size ?l"
    using class_okD(1,4) [OF K] by (simp_all add: slots_ok_def)
  show ?thesis
  proof (cases "used_slots ?l < cache_size ?l \<or> cache_size ?l = max_cache_size ?l")
    case True
    with I show ?thesis
      by (intro exI [of _ "used_slots ?l < cache_size ?l"] exI [of _ S] exI [of _ V] exI [of _ L] exI [of _ fr] exI [of _ ch])
        (auto simp: MakeCacheSpace_def Let_def)
  next
    case False
    obtain ok1 S1 V1 L1 fr1 ch1 where 1: "EvictRandomSizeClass E S c False = Some (ok1, S1)" "central_ok rep S1 V1 L1 fr1 ch1 Out"
      "\<forall>y\<in>outs (sizemap S) A Out. object_mem S1 y = object_mem S y" "sizemap S1 = sizemap S" "central_cache S1 c = ?l" "ch1 c = ch c"
      using EvictRandomSizeClass_ok [OF I c] by blast
    obtain ok2 S2 V2 L2 fr2 ch2 where 2: "(if ok1 then Some (True, S1) else EvictRandomSizeClass E S1 c True) = Some (ok2, S2)"
      "central_ok rep S2 V2 L2 fr2 ch2 Out" "\<forall>y\<in>outs (sizemap S) A Out. object_mem S2 y = object_mem S1 y" "sizemap S2 = sizemap S1"
      "central_cache S2 c = central_cache S1 c" "ch2 c = ch1 c"
    proof (cases ok1)
      case True
      then show thesis using that [of True S1 V1 L1 fr1 ch1] 1(2) by simp
    next
      case False
      then show thesis using EvictRandomSizeClass_ok [OF 1(2) c, of True] that unfolding 1(4) by auto
    qed
    let ?f = "\<lambda>l. l\<lparr>cache_size := cache_size l + 1\<rparr>"
    let ?ok = "ok2 \<and> cache_size (central_cache S2 c) < max_cache_size (central_cache S2 c)"
    let ?S = "if ?ok then upd_list S2 c ?f else S2"
    have op: "MakeCacheSpace E c S = Some (?ok, ?S)"
      using False 1(1) 2(1) by (cases ok1) (simp_all add: MakeCacheSpace_def sc Let_def)
    have eq: "used_slots (central_cache S2 c) = cache_size (central_cache S2 c)" "central_cache S2 c = ?l" using False sl 1(5) 2(5) by simp_all
    have "central_ok rep ?S V2 L2 fr2 ch2 Out"
    proof (cases ?ok)
      case True
      then have "class_ok (sizemap S2) (object_mem S2) V2 L2 fr2 c (?f (central_cache S2 c)) (ch2 c) (Out c)"
        using class_ok_resize [OF central_okD(4) [OF 2(2) c], of "cache_size (central_cache S2 c) + 1"] eq by simp
      from central_ok_list [OF 2(2) c, where f = ?f, OF this] True show ?thesis by simp
    next
      case no: False
      then show ?thesis unfolding if_not_P [OF no] by (intro 2(2))
    qed
    moreover have "object_mem ?S = object_mem S2" "sizemap ?S = sizemap S2" by (simp_all add: upd_list_def)
    moreover have "?ok \<longrightarrow> used_slots (central_cache ?S c) < cache_size (central_cache ?S c)" using eq by (simp add: upd_list_def)
    ultimately show ?thesis using op 1(3,4) 2(3,4)
      by (intro exI [of _ ?ok] exI [of _ ?S] exI [of _ V2] exI [of _ L2] exI [of _ fr2] exI [of _ ch2]) simp
  qed
qed

lemma InsertRange_ok:
  assumes I: "central_ok rep S V L fr ch Out" and c: "c < kNumClasses"
    and xs: "sll (object_mem S) start xs" "xs \<noteq> []" "set xs \<subseteq> Out c" "tail = last xs"
  shows "\<exists>S' V' L' fr' ch'. InsertRange E c S start tail (int (length xs)) = Some S' \<and>
    central_ok rep S' V' L' fr' ch' (Out(c := Out c - set xs)) \<and>
    (\<forall>y\<in>outs (sizemap S) A (Out(c := Out c - set xs)). object_mem S' y = object_mem S y) \<and> sizemap S' = sizemap S"
proof -
  let ?n = "num_objects_to_move (sizemap S) (size_class (central_cache S c))" and ?Out = "Out(c := Out c - set xs)"
  have sc: "size_class (central_cache S c) = c" using class_okD(1) [OF central_okD(4) [OF I c]] .
  have c0: "0 < c" using held_object(1) [OF I c] xs(2,3) by (cases xs) auto
  obtain ok S1 V1 L1 fr1 ch1 where 1: "(if int (length xs) = ?n then MakeCacheSpace E c S else Some (False, S)) = Some (ok, S1)"
    "central_ok rep S1 V1 L1 fr1 ch1 Out" "\<forall>y\<in>outs (sizemap S) A Out. object_mem S1 y = object_mem S y" "sizemap S1 = sizemap S"
    "ok \<longrightarrow> int (length xs) = ?n \<and> used_slots (central_cache S1 c) < cache_size (central_cache S1 c)"
  proof (cases "int (length xs) = ?n")
    case True
    then show thesis using MakeCacheSpace_ok [OF I c] that by auto
  next
    case False
    then show thesis using that [of False S V L fr ch] I by simp
  qed
  have Oc: "Out c \<subseteq> outs (sizemap S) A Out" using outsI [OF c] by blast
  have l1: "sll (object_mem S1) start xs"
    using xs(1) slseg_frame_mem [of xs "object_mem S1" "object_mem S"] 1(3) xs(3) Oc by blast
  note sub = outs_drop [of "sizemap S" A Out c "set xs"]
  show ?thesis
  proof (cases ok)
    case False
    obtain S' V' L' fr' where 2: "ReleaseListToSpans E c S1 start = Some S'" "central_ok rep S' V' L' fr' ch1 ?Out"
      "\<forall>y. y \<notin> set xs \<longrightarrow> object_mem S' y = object_mem S1 y" "sizemap S' = sizemap S1"
      using ReleaseListToSpans_ok [OF 1(2) c l1 xs(3)] by blast
    have "set xs \<inter> outs (sizemap S) A ?Out = {}"
    proof -
      have "x \<notin> outs (sizemap S) A ?Out" if "x \<in> set xs" for x
        by (rule unheld_subset [OF I c]) (use that xs(3) chain_objs(2) [OF I c] in auto)
      then show ?thesis by blast
    qed
    then have "\<forall>y\<in>outs (sizemap S) A ?Out. object_mem S' y = object_mem S y" using 2(3) 1(3) sub by (metis disjoint_iff subsetD)
    moreover have "InsertRange E c S start tail (int (length xs)) = Some S'" using 1(1) 2(1) False by (simp add: InsertRange_def)
    moreover have "sizemap S' = sizemap S" using 2(4) 1(4) by simp
    ultimately show ?thesis using 2(2) by blast
  next
    case True
    let ?l = "central_cache S1 c"
    let ?f = "\<lambda>l. l\<lparr>used_slots := used_slots l + 1, tc_slots := (tc_slots l)(nat (used_slots l) := (start, last xs))\<rparr>"
    note K = central_okD(4) [OF 1(2) c]
    have k: "class_ok (sizemap S1) (object_mem S1) V1 L1 fr1 c (?f ?l) (ch1 c @ [xs]) (Out c - set xs)"
      using class_ok_push_chain [OF K _ c0 l1 xs(2) _ xs(3)] 1(4,5) True sc by simp
    from central_ok_list [OF 1(2) c, where f = ?f, OF k]
    have "central_ok rep (upd_list S1 c ?f) V1 L1 fr1 (ch1(c := ch1 c @ [xs])) ?Out" .
    moreover have "InsertRange E c S start tail (int (length xs)) = Some (upd_list S1 c ?f)"
    proof -
      have "0 \<le> used_slots ?l" "used_slots ?l < max_cache_size ?l" "max_cache_size ?l \<le> kMaxNumTransferEntries"
        using class_okD(4) [OF K] 1(5) True by (simp_all add: slots_ok_def)
      then show ?thesis using 1(1) True xs(4) by (simp add: InsertRange_def upd_list_def Let_def)
    qed
    moreover have "object_mem (upd_list S1 c ?f) = object_mem S1" "sizemap (upd_list S1 c ?f) = sizemap S1" by (simp_all add: upd_list_def)
    moreover have "\<forall>y\<in>outs (sizemap S) A ?Out. object_mem S1 y = object_mem S y" using 1(3) sub by blast
    ultimately show ?thesis using 1(4)
      by (intro exI [of _ "upd_list S1 c ?f"] exI [of _ V1] exI [of _ L1] exI [of _ fr1] exI [of _ "ch1(c := ch1 c @ [xs])"]) simp
  qed
qed

end

end
