(* ===== verification/Central_Fetch.thy ===== *)
theory Central_Fetch
  imports Central_Release
begin

text \<open>
  Handing out objects: \<open>FetchFromOneSpans\<close>, \<open>Populate\<close>, which cuts a new span, and \<open>RemoveRange\<close>.
\<close>

section \<open>The loops\<close>

lemma fetch_loop_eq:
  assumes "sll m p fl" "fl \<noteq> []" "r < N"
  shows "fetch_loop m p r N = (let k = min (nat (N - r)) (length fl) in
    Some (r + int k, last (take k fl), m (last (take k fl))))"
  using assms
proof (induction m p r N arbitrary: fl rule: fetch_loop.induct)
  case (1 m p r N)
  obtain ys where fl: "fl = p # ys" and p: "p \<noteq> 0" and tl: "sll m (m p) ys" using "1.prems"(1,2) by (cases fl) auto
  have nx: "SLL_Next m p = Some (m p)" using p by (simp add: SLL_Next_def)
  show ?case
  proof (cases "r + 1 < N \<and> m p \<noteq> 0")
    case True
    then have ne: "ys \<noteq> []" using tl by auto
    define q where "q = min (nat (N - (r + 1))) (length ys)"
    have k: "min (nat (N - r)) (length (p # ys)) = Suc q" and pos: "q \<noteq> 0"
      using True fl ne by (auto simp: min_def nat_diff_distrib' q_def)
    have "take q ys \<noteq> []" using pos ne by simp
    moreover have "fetch_loop m (m p) (r + 1) N = Some (r + 1 + int q, last (take q ys), m (last (take q ys)))"
      using "1.IH" [OF nx True tl ne] True by (simp add: Let_def q_def)
    ultimately show ?thesis
      using True nx pos unfolding fetch_loop.simps [of m p r N] fl Let_def k by simp
  next
    case False
    have "min (nat (N - r)) (length fl) = 1"
    proof (cases "r + 1 < N")
      case True
      then have "ys = []" using False tl by (cases ys) auto
      then show ?thesis using True fl by simp
    next
      case no: False
      then have "nat (N - r) = 1" using "1.prems"(3) by simp
      then show ?thesis using fl by simp
    qed
    moreover have "fetch_loop m p r N = Some (r + 1, p, m p)"
      unfolding fetch_loop.simps [of m p r N] nx bind.bind_lunit if_not_P [OF False] ..
    ultimately show ?thesis by (simp add: Let_def fl)
  qed
qed

text \<open>Cutting the rest of a span behind the object \<open>t\<close>.\<close>

definition pieces :: "addr \<Rightarrow> nat \<Rightarrow> nat \<Rightarrow> addr list" where
  "pieces p sz n = map (\<lambda>j. p + j * sz) [0..<n]"

lemma pieces_Suc: "pieces p sz (Suc n) = p # pieces (p + sz) sz n"
  by (simp add: pieces_def upt_conv_Cons map_Suc_upt [symmetric] add.assoc del: upt_Suc)

lemma pieces_0 [simp]: "pieces p sz 0 = []"
  by (simp add: pieces_def)

lemma pieces_ge: "x \<in> set (pieces p sz n) \<Longrightarrow> p \<le> x"
  by (auto simp: pieces_def)

lemma set_pieces: "set (pieces (span_start d * 2 ^ kPageShift) sz (capacity sz d)) = grid sz d"
  by (auto simp: pieces_def grid_def)

lemma length_pieces [simp]: "length (pieces p sz n) = n"
  by (simp add: pieces_def)

lemma cut_rest:
  assumes "p \<le> limit" "(limit - p) div sz = n" "0 < sz" "t < p"
  shows "\<exists>m'. cut_objects m first (Some t) p limit sz num = Some (m', first, num + int n) \<and> sll m' (m' t) (pieces p sz n) \<and>
    (\<forall>y. y \<noteq> t \<longrightarrow> y \<notin> set (pieces p sz n) \<longrightarrow> m' y = m y)"
  using assms
proof (induction n arbitrary: m p t num)
  case 0
  then have "limit < p + sz" using div_greater_zero_iff [of "limit - p" sz] by simp
  then have "cut_objects m first (Some t) p limit sz num = Some (m(t := 0), first, num)"
    using 0 by (simp add: cut_objects.simps)
  then show ?case by simp
next
  case (Suc n)
  have "sz \<le> limit - p" using Suc.prems(2,3) div_greater_zero_iff [of "limit - p" sz] by simp
  then have le: "p + sz \<le> limit" using Suc.prems(1) by simp
  have "(limit - (p + sz)) div sz = n"
    using Suc.prems(2,3) le le_div_geq [of sz "limit - p"] \<open>sz \<le> limit - p\<close> by simp
  moreover have "p < p + sz" using Suc.prems(3) by simp
  ultimately obtain m' where
    m': "cut_objects (m(t := p)) first (Some p) (p + sz) limit sz (num + 1) = Some (m', first, num + 1 + int n)"
      "sll m' (m' p) (pieces (p + sz) sz n)"
      "\<forall>y. y \<noteq> p \<longrightarrow> y \<notin> set (pieces (p + sz) sz n) \<longrightarrow> m' y = (m(t := p)) y"
    using Suc.IH [OF le _ Suc.prems(3), of p "m(t := p)" "num + 1"] by blast
  have "t \<notin> set (pieces (p + sz) sz n)" using pieces_ge [of t "p + sz" sz n] Suc.prems(4) by auto
  then have "m' t = p" using m'(3) Suc.prems(4) by simp
  moreover have "cut_objects m first (Some t) p limit sz num = Some (m', first, num + int (Suc n))"
    using le m'(1) by (simp add: cut_objects.simps [of m])
  ultimately show ?case using m'(2,3) Suc.prems(4) by (intro exI [of _ m']) (simp add: pieces_Suc)
qed

lemma cut_objects_eq:
  assumes "0 < sz" "0 < capacity sz d" "0 < span_start d"
  shows "\<exists>m'. cut_objects m old None (span_start d * 2 ^ kPageShift) (span_start d * 2 ^ kPageShift + span_length d * 2 ^ kPageShift) sz 0 =
      Some (m', span_start d * 2 ^ kPageShift, int (capacity sz d)) \<and>
    sll m' (span_start d * 2 ^ kPageShift) (pieces (span_start d * 2 ^ kPageShift) sz (capacity sz d)) \<and>
    (\<forall>y. y \<notin> grid sz d \<longrightarrow> m' y = m y)"
proof -
  let ?p = "span_start d * 2 ^ kPageShift" and ?n = "span_length d * 2 ^ kPageShift"
  obtain k where k: "capacity sz d = Suc k" using assms(2) by (cases "capacity sz d") auto
  have "sz \<le> ?n" using assms(1,2) div_greater_zero_iff [of ?n sz] by (simp add: capacity_def)
  then have le: "?p + sz \<le> ?p + ?n" by simp
  have "(?p + ?n - (?p + sz)) div sz = k"
    using k le_div_geq [of sz ?n] assms(1) \<open>sz \<le> ?n\<close> by (simp add: capacity_def)
  from cut_rest [OF le this assms(1), of ?p m ?p 1] assms(1) obtain m' where
    m': "cut_objects m ?p (Some ?p) (?p + sz) (?p + ?n) sz 1 = Some (m', ?p, 1 + int k)" "sll m' (m' ?p) (pieces (?p + sz) sz k)"
      "\<forall>y. y \<noteq> ?p \<longrightarrow> y \<notin> set (pieces (?p + sz) sz k) \<longrightarrow> m' y = m y" by auto
  have "cut_objects m old None ?p (?p + ?n) sz 0 = Some (m', ?p, int (capacity sz d))"
    using le m'(1) k by (simp add: cut_objects.simps [of m old None])
  moreover have "?p \<noteq> 0" using assms(3) by simp
  ultimately show ?thesis
    using m'(2,3) unfolding set_pieces [symmetric] k pieces_Suc by (intro exI [of _ m']) auto
qed

section \<open>Pure facts on the invariant of a class\<close>

text \<open>Where span \<open>a\<close> stands in the lists of its class, the other spans as before.\<close>

definition rehomed :: "nat \<Rightarrow> (span_ptr \<Rightarrow> span_ptr list) \<Rightarrow> (span_ptr \<Rightarrow> span_ptr list) \<Rightarrow> addr \<Rightarrow> bool \<Rightarrow> bool" where
  "rehomed c L L' a e = (class_spans L' c = insert a (class_spans L c) \<and> (Sp a \<in> set (L' (CentralEmpty c)) \<longleftrightarrow> e) \<and>
     (\<forall>b. b \<noteq> a \<longrightarrow> (Sp b \<in> set (L' (CentralEmpty c)) \<longleftrightarrow> Sp b \<in> set (L (CentralEmpty c)))) \<and>
     (\<forall>H. H \<noteq> CentralNonempty c \<longrightarrow> H \<noteq> CentralEmpty c \<longrightarrow> L' H = L H))"

lemma UN_split: "a \<in> A \<Longrightarrow> (\<Union>b\<in>A. F b) = F a \<union> (\<Union>b\<in>A - {a}. F b)"
  by blast

text \<open>The first free objects \<open>xs\<close> of span \<open>a\<close> are handed out.\<close>

lemma class_ok_take:
  assumes K: "class_ok sm m V L fr c l chs out" and fin: "finite (class_spans L c)"
    and a: "a \<in> class_spans L c" "V a = Some d" "fr a = xs @ ys" "xs \<noteq> []" and r: "rehomed c L L' a (ys = [])"
    and disj: "\<And>b. b \<in> class_spans L c \<Longrightarrow> b \<noteq> a \<Longrightarrow> set (fr a) \<inter> grid (class_to_size sm c) (the (V b)) = {}"
  shows "class_ok sm (m(last xs := 0)) (V(a \<mapsto> d\<lparr>objects := m (last xs), refcount := refcount d + length xs\<rparr>)) L' (fr(a := ys)) c
    (l\<lparr>counter := counter l - of_nat (length xs)\<rparr>) chs (out \<union> set xs)" "set xs \<inter> out = {}"
proof -
  let ?m = "m(last xs := 0)" and ?d = "d\<lparr>objects := m (last xs), refcount := refcount d + length xs\<rparr>" and ?fr = "fr(a := ys)"
  let ?V = "V(a \<mapsto> ?d)" and ?l = "l\<lparr>counter := counter l - of_nat (length xs)\<rparr>" and ?sz = "class_to_size sm c"
  have cs: "class_spans L' c = class_spans L c" using r a(1) by (auto simp: rehomed_def)
  have s: "span_ok sm m c d (xs @ ys)" using spans_okD(1) [OF class_okD(2) [OF K] a(1)] a(2,3) by simp
  note cut = sll_cut [OF span_okD(3) [OF s] a(4)]
  have dist: "distinct (xs @ ys)" using sll_distinct [OF span_okD(3) [OF s]] .
  have lx: "last xs \<in> set xs" using a(4) by simp
  have ge: "grid z (d\<lparr>objects := p, refcount := n\<rparr>) = grid z d" "capacity z (d\<lparr>objects := p, refcount := n\<rparr>) = capacity z d" for z n p
    by (simp_all add: grid_def capacity_def)
  have xf: "set xs \<subseteq> class_frees L fr c" using a(1,3) by (auto simp: class_frees_def)
  have xc: "set xs \<inter> set (concat chs) = {}" and xo: "set xs \<inter> out = {}"
    using held_okD(1) [OF class_okD(5) [OF K]] xf by blast+
  then show "set xs \<inter> out = {}" by blast
  have "span_ok sm ?m c (the (?V b)) (?fr b) \<and> (?fr b = [] \<longleftrightarrow> Sp b \<in> set (L' (CentralEmpty c)))" if b: "b \<in> class_spans L c" for b
  proof (cases "b = a")
    case True
    have "span_ok sm ?m c ?d ys" using span_okD [OF s] cut(2) ge by (simp add: span_ok_def)
    then show ?thesis using True r by (simp add: rehomed_def)
  next
    case False
    have B: "span_ok sm m c (the (V b)) (fr b)" using spans_okD(1) [OF class_okD(2) [OF K] b] .
    have "last xs \<notin> set (fr b)" using disj [OF b False] span_okD(4) [OF B] lx a(3) by auto
    then have "span_ok sm ?m c (the (V b)) (fr b)" using B by (simp add: span_ok_def)
    then show ?thesis using False r spans_okD(2) [OF class_okD(2) [OF K] b] by (simp add: rehomed_def)
  qed
  then have 1: "spans_ok sm ?m ?V L' ?fr c" by (simp add: spans_ok_def cs)
  have "(\<Sum>b\<in>class_spans L c - {a}. length (?fr b)) = (\<Sum>b\<in>class_spans L c - {a}. length (fr b))"
    by (rule sum.cong) auto
  then have "(\<Sum>b\<in>class_spans L c. length (fr b)) = (\<Sum>b\<in>class_spans L c. length (?fr b)) + length xs"
    unfolding sum.remove [OF fin a(1)] by (simp add: a(3))
  then have 2: "counts_ok L' ?fr c ?l" using class_okD(3) [OF K] by (simp add: counts_ok_def cs)
  have "sll ?m p (chs ! i) = sll m p (chs ! i)" if "i < length chs" for p i
    using xc lx nth_mem [OF that] by (intro slseg_frame) (auto simp: set_concat)
  then have 3: "slots_ok sm ?m c ?l chs" using class_okD(4) [OF K] by (simp add: slots_ok_def)
  have o: "class_objs sm ?V L' c = class_objs sm V L c" unfolding class_objs_def cs by (intro SUP_cong) (use a ge in auto)
  have F: "(\<Union>b\<in>class_spans L c - {a}. set (?fr b)) = (\<Union>b\<in>class_spans L c - {a}. set (fr b))" by (rule SUP_cong) auto
  then have R: "class_frees L fr c = set xs \<union> class_frees L' ?fr c"
    unfolding class_frees_def cs UN_split [OF a(1)] by (simp add: a(3) Un_assoc)
  have "set xs \<inter> set (fr b) = {}" if b: "b \<in> class_spans L c" "b \<noteq> a" for b
    using disj [OF b] span_okD(4) [OF spans_okD(1) [OF class_okD(2) [OF K] b(1)]] a(3) by auto
  then have "set xs \<inter> (\<Union>b\<in>class_spans L c - {a}. set (fr b)) = {}" by blast
  then have N: "set xs \<inter> class_frees L' ?fr c = {}"
    using dist unfolding class_frees_def cs UN_split [OF a(1)] F by (simp add: Int_Un_distrib)
  have X: "set xs \<subseteq> class_objs sm V L c" using span_okD(4) [OF s] a(1,2) unfolding class_objs_def by fastforce
  have "out \<union> set xs \<union> set (concat chs) = class_objs sm V L c - class_frees L' ?fr c"
    using held_okD(1) [OF class_okD(5) [OF K]] R N X by blast
  then have 4: "held_ok sm ?V L' ?fr c chs (out \<union> set xs)"
    using class_okD(5) [OF K] xc unfolding held_ok_def o by blast
  show "class_ok sm ?m ?V L' ?fr c ?l chs (out \<union> set xs)"
    using 1 2 3 4 class_okD(1,6) [OF K] cs a(1) unfolding class_ok_def by (cases "c = 0") auto
qed

text \<open>A new span \<open>a\<close>, all of whose objects are free, joins the class.\<close>

lemma class_ok_add:
  assumes K: "class_ok sm m V L fr c l chs out" and fin: "finite (class_spans L c)" and c: "0 < c"
    and a: "a \<notin> class_spans L c" and r: "rehomed c L L' a False" and s: "span_ok sm m' c d fl" "fl \<noteq> []" "set fl = grid (class_to_size sm c) d"
    and m: "\<And>y. y \<notin> grid (class_to_size sm c) d \<Longrightarrow> m' y = m y"
    and disj: "\<And>b. b \<in> class_spans L c \<Longrightarrow> grid (class_to_size sm c) d \<inter> grid (class_to_size sm c) (the (V b)) = {}"
  shows "class_ok sm m' (V(a \<mapsto> d)) L' (fr(a := fl)) c
    (l\<lparr>num_spans := num_spans l + 1, counter := counter l + of_nat (length fl)\<rparr>) chs out"
proof -
  let ?V = "V(a \<mapsto> d)" and ?fr = "fr(a := fl)" and ?sz = "class_to_size sm c"
  let ?l = "l\<lparr>num_spans := num_spans l + 1, counter := counter l + of_nat (length fl)\<rparr>"
  have cs: "class_spans L' c = insert a (class_spans L c)" using r by (simp add: rehomed_def)
  have "span_ok sm m' c (the (?V b)) (?fr b) \<and> (?fr b = [] \<longleftrightarrow> Sp b \<in> set (L' (CentralEmpty c)))" if b: "b \<in> insert a (class_spans L c)" for b
  proof (cases "b = a")
    case True
    then show ?thesis using s r by (simp add: rehomed_def)
  next
    case False
    then have b: "b \<in> class_spans L c" using b by simp
    have B: "span_ok sm m c (the (V b)) (fr b)" using spans_okD(1) [OF class_okD(2) [OF K] b] .
    have "sll m' p (fr b) = sll m p (fr b)" for p
      using m disj [OF b] span_okD(4) [OF B] by (intro slseg_frame_mem) blast
    then have "span_ok sm m' c (the (V b)) (fr b)" using B by (simp add: span_ok_def)
    then show ?thesis using False r spans_okD(2) [OF class_okD(2) [OF K] b] by (simp add: rehomed_def)
  qed
  then have 1: "spans_ok sm m' ?V L' ?fr c" by (simp add: spans_ok_def cs)
  have "(\<Sum>b\<in>class_spans L c. length (?fr b)) = (\<Sum>b\<in>class_spans L c. length (fr b))" by (rule sum.cong) (use a in auto)
  then have 2: "counts_ok L' ?fr c ?l" using class_okD(3) [OF K] fin a by (simp add: counts_ok_def cs add.commute)
  have oth: "class_objs sm ?V L' c = grid ?sz d \<union> class_objs sm V L c" "class_frees L' ?fr c = grid ?sz d \<union> class_frees L fr c"
  proof -
    have "(\<Union>b\<in>class_spans L c. grid ?sz (the (?V b))) = (\<Union>b\<in>class_spans L c. grid ?sz (the (V b)))"
      "(\<Union>b\<in>class_spans L c. set (?fr b)) = (\<Union>b\<in>class_spans L c. set (fr b))" by (rule SUP_cong; use a in auto)+
    then show "class_objs sm ?V L' c = grid ?sz d \<union> class_objs sm V L c" "class_frees L' ?fr c = grid ?sz d \<union> class_frees L fr c"
      using s(3) by (simp_all add: class_objs_def class_frees_def cs)
  qed
  have O: "grid ?sz d \<inter> class_objs sm V L c = {}" using disj unfolding class_objs_def by blast
  have "sll m' p (chs ! i) = sll m p (chs ! i)" if "i < length chs" for p i
  proof (rule slseg_frame_mem)
    fix x assume "x \<in> set (chs ! i)"
    then have "x \<in> set (concat chs)" using nth_mem [OF that] unfolding set_concat by blast
    then show "m' x = m x" using m O held_okD(1) [OF class_okD(5) [OF K]] by blast
  qed
  then have 3: "slots_ok sm m' c ?l chs" using class_okD(4) [OF K] by (simp add: slots_ok_def)
  have 4: "held_ok sm ?V L' ?fr c chs out"
    using class_okD(5) [OF K] O unfolding held_ok_def oth by blast
  show ?thesis using 1 2 3 4 class_okD(1) [OF K] c unfolding class_ok_def by simp
qed

section \<open>Fetching from a span\<close>

context span_heap
begin

lemma grids_apart:
  assumes R: "rep h V L" and c: "c < kNumClasses" "0 < sz" and a: "V a = Some d" and b: "b \<in> class_spans L c" "b \<noteq> a"
  shows "grid sz d \<inter> grid sz (the (V b)) = {}"
  using class_span_view [OF R c(1) b(1)] pages_apart [OF R a, of b] b(2) grid_apart [OF c(2,2)] by fastforce

lemma other_class:
  assumes I: "central_ok rep S V L fr ch Out" and c: "c < kNumClasses" "k < kNumClasses" "k \<noteq> c" and a: "a \<in> class_spans L c" "V a = Some d"
  shows "a \<notin> class_spans L k" "x \<in> grid (class_to_size (sizemap S) c) d \<Longrightarrow> x \<notin> class_objs (sizemap S) V L k"
proof -
  show "a \<notin> class_spans L k" using class_spans_apart [OF central_okD(2) [OF I] c(1,2) a(1)] c(3) by blast
  show "x \<notin> class_objs (sizemap S) V L k" if "x \<in> grid (class_to_size (sizemap S) c) d"
    using class_objs_apart [OF I c(1,2)] c(3) a that unfolding class_objs_def by fastforce
qed

lemma frees_not_out:
  assumes I: "central_ok rep S V L fr ch Out" and c: "c < kNumClasses" and a: "a \<in> class_spans L c"
  shows "set (fr a) \<inter> outs (sizemap S) A Out = {}"
proof -
  note K = central_okD(4) [OF I c]
  have "set (fr a) \<subseteq> class_objs (sizemap S) V L c" "set (fr a) \<subseteq> class_frees L fr c"
    using span_okD(4) [OF spans_okD(1) [OF class_okD(2) [OF K] a]] a unfolding class_objs_def class_frees_def by auto
  then show ?thesis using unheld [OF I c] held_okD(1) [OF class_okD(5) [OF K]] by blast
qed

text \<open>A span whose last free objects are taken goes to the list of the spans without free objects.\<close>

lemma to_empty:
  assumes R: "rep h V L" and c: "c < kNumClasses" and a: "Sp a \<in> set (L (CentralNonempty c))" "V a = Some d"
  shows "\<exists>h' L'. (if e then do { h \<leftarrow> lift_dll (\<lambda>st. DLL_Remove st (Sp a)) h; lift_dll (\<lambda>st. DLL_Prepend st (CentralEmpty c) (Sp a)) h }
       else Some h) = Some h' \<and> rep h' V L' \<and> rehomed c L L' a e"
proof (cases e)
  case True
  let ?L1 = "L(CentralNonempty c := removeAll (Sp a) (L (CentralNonempty c)))"
  let ?L2 = "?L1(CentralEmpty c := Sp a # ?L1 (CentralEmpty c))"
  obtain h1 where h1: "lift_dll (\<lambda>st. DLL_Remove st (Sp a)) h = Some h1" "rep h1 V ?L1" using remove [OF R _ a(1)] c by auto
  have n: "\<forall>H\<in>cheaders. Sp a \<notin> set (?L1 H)" using removed_unlisted [OF R _ a(1)] c by simp
  obtain h2 where h2: "lift_dll (\<lambda>st. DLL_Prepend st (CentralEmpty c) (Sp a)) h1 = Some h2" "rep h2 V ?L2"
    using prepend [OF h1(2) cheadersI(2) [OF c] a(2) n] by blast
  have "rehomed c L ?L2 a True" using a(1) by (auto simp: rehomed_def class_spans_def)
  then show ?thesis using h1(1) h2 True by (intro exI [of _ h2] exI [of _ ?L2]) simp
next
  case False
  have "Sp a \<notin> set (L (CentralEmpty c))" using not_both [OF R c] a(1) by blast
  then have "rehomed c L L a False" using a(1) by (auto simp: rehomed_def class_spans_def)
  then show ?thesis using R False by (intro exI [of _ h] exI [of _ L]) simp
qed

text \<open>What fetching a chain \<open>xs\<close> of class \<open>c\<close> has to establish.\<close>

definition fetched :: "nat \<Rightarrow> (nat \<Rightarrow> addr list list) \<Rightarrow> (nat \<Rightarrow> addr set) \<Rightarrow> 'os central \<Rightarrow> addr list \<Rightarrow> addr \<Rightarrow> 'os central \<Rightarrow> bool" where
  "fetched c ch Out S xs start S' = (sll (object_mem S') start xs \<and> set xs \<inter> outs (sizemap S) A Out = {} \<and>
     (\<forall>y\<in>outs (sizemap S) A Out. object_mem S' y = object_mem S y) \<and> sizemap S' = sizemap S \<and>
     (\<forall>k. k \<noteq> c \<longrightarrow> central_cache S' k = central_cache S k) \<and> same_slots (central_cache S c) (central_cache S' c) \<and>
     (\<exists>V L fr. central_ok rep S' V L fr ch (Out(c := Out c \<union> set xs))))"

lemma fetchedI:
  assumes "central_ok rep S' V L fr ch (Out(c := Out c \<union> set xs))" "sll (object_mem S') start xs" "set xs \<inter> outs (sizemap S) A Out = {}"
    "\<And>y. y \<in> outs (sizemap S) A Out \<Longrightarrow> object_mem S' y = object_mem S y" "sizemap S' = sizemap S"
    "\<And>k. k \<noteq> c \<Longrightarrow> central_cache S' k = central_cache S k" "same_slots (central_cache S c) (central_cache S' c)"
  shows "fetched c ch Out S xs start S'"
  using assms unfolding fetched_def by blast

lemma FetchFromOneSpans_ok:
  assumes I: "central_ok rep S V L fr ch Out" and c: "c < kNumClasses" and N: "0 < N"
  shows "\<exists>n start tail S' xs. FetchFromOneSpans c S N = Some (n, start, tail, S') \<and> n = int (length xs) \<and> n \<le> N \<and>
    fetched c ch Out S xs start S' \<and> (xs \<noteq> [] \<longrightarrow> tail = last xs) \<and> (xs = [] \<longleftrightarrow> L (CentralNonempty c) = [])"
proof (cases "L (CentralNonempty c)")
  case Nil
  have "DLL_IsEmpty (spans (pageheap S)) (CentralNonempty c)" using is_empty [OF central_okD(2) [OF I]] Nil c by simp
  then have "FetchFromOneSpans c S N = Some (0, 0, 0, S)" by (simp add: FetchFromOneSpans_def)
  moreover have "fetched c ch Out S [] 0 S" by (rule fetchedI) (use I in simp_all)
  ultimately show ?thesis using N Nil by (intro exI [of _ 0] exI [of _ S] exI [of _ "[]"]) simp
next
  case (Cons s ss)
  note R = central_okD(2) [OF I] and K = central_okD(4) [OF I c]
  let ?h = "pageheap S" and ?sz = "class_to_size (sizemap S) c" and ?l = "central_cache S c" and ?m = "object_mem S"
  have "\<exists>a d. s = Sp a \<and> V a = Some d" using member [OF R _, of "CentralNonempty c" s] Cons c by simp
  then obtain a d where s: "s = Sp a" and V: "V a = Some d" by blast
  have hd: "span_next (span_of ?h (CentralNonempty c)) = Sp a" using first [OF R _ Cons] c s by simp
  have ne: "\<not> DLL_IsEmpty (spans ?h) (CentralNonempty c)" using is_empty [OF R, of "CentralNonempty c"] Cons c by simp
  have aN: "Sp a \<in> set (L (CentralNonempty c))" using Cons s by simp
  then have a: "a \<in> class_spans L c" by (simp add: class_spans_def)
  have z: "0 < c" using class_okD(6) [OF K] a by (cases "c = 0") auto
  have sz: "0 < ?sz" using sizemap_okD(1) [OF central_okD(1) [OF I] z c] by simp
  have ok: "span_ok (sizemap S) ?m c d (fr a)" using spans_okD(1) [OF class_okD(2) [OF K] a] V by simp
  have fne: "fr a \<noteq> []" using spans_okD(2) [OF class_okD(2) [OF K] a] not_both [OF R c, of "Sp a"] aN by blast
  define k where "k = min (nat N) (length (fr a))"
  define xs ys where "xs = take k (fr a)" and "ys = drop k (fr a)"
  have k: "0 < k" "k \<le> length (fr a)" "int k \<le> N" using N fne by (auto simp: k_def min_def)
  have fr: "fr a = xs @ ys" and xs: "xs \<noteq> []" "length xs = k" using k by (auto simp: xs_def ys_def)
  note cut = sll_cut [OF span_okD(3) [OF ok, unfolded fr] xs(1)]
  have obj: "objects (span_of ?h (Sp a)) = objects d" "objects d \<noteq> 0" using span_fields(3) [OF R V] span_okD(3) [OF ok] fne by (cases "fr a"; simp)+
  have loop: "fetch_loop ?m (objects d) 0 N = Some (int k, last xs, ?m (last xs))"
    using fetch_loop_eq [OF span_okD(3) [OF ok] fne N] by (simp add: Let_def k_def xs_def)
  have last0: "?m (last xs) = 0 \<longleftrightarrow> ys = []" using cut(2) by (cases ys) auto
  obtain h1 L1 where h1: "(if ?m (last xs) = 0 then do { h \<leftarrow> lift_dll (\<lambda>st. DLL_Remove st (Sp a)) ?h; lift_dll (\<lambda>st. DLL_Prepend st (CentralEmpty c) (Sp a)) h }
       else Some ?h) = Some h1" "rep h1 V L1" "rehomed c L L1 a (ys = [])"
    using to_empty [OF R c aN V, of "?m (last xs) = 0"] unfolding last0 by blast
  let ?d1 = "d\<lparr>objects := ?m (last xs)\<rparr>" and ?d2 = "d\<lparr>objects := ?m (last xs), refcount := refcount d + length xs\<rparr>"
  obtain h2 where h2: "upd_span h1 (Sp a) (\<lambda>x. x\<lparr>objects := ?m (last xs)\<rparr>) = Some h2" "rep h2 (V(a \<mapsto> ?d1)) L1"
    using update [OF h1(2) V client_update_simps(2)] by blast
  let ?r = "\<lambda>r. nat ((int r + int k) mod 2 ^ 16)"
  have V1: "(V(a \<mapsto> ?d1)) a = Some ?d1" by simp
  obtain h3 where "upd_span h2 (Sp a) (\<lambda>x. x\<lparr>refcount := ?r (refcount x)\<rparr>) = Some h3"
    "rep h3 ((V(a \<mapsto> ?d1))(a \<mapsto> ?d1\<lparr>refcount := ?r (refcount ?d1)\<rparr>)) L1"
    using update [OF h2(2) V1 client_update_simps(1), of ?r] by blast
  moreover have "refcount d + length xs < 2 ^ 16"
    using span_okD(2,5) [OF ok] sizemap_okD(7) [OF central_okD(1) [OF I] z c] by (simp add: capacity_def fr)
  then have "?r (refcount d) = refcount d + length xs" using xs(2) by (simp add: nat_mod_distrib nat_add_distrib)
  ultimately have h3: "upd_span h2 (Sp a) (\<lambda>x. x\<lparr>refcount := ?r (refcount x)\<rparr>) = Some h3" "rep h3 (V(a \<mapsto> ?d2)) L1"
    unfolding fun_upd_upd by simp_all
  let ?S = "upd_list (S\<lparr>object_mem := ?m(last xs := 0), pageheap := h3\<rparr>) c (\<lambda>l. l\<lparr>counter := counter l - of_nat (length xs)\<rparr>)"
  have op: "FetchFromOneSpans c S N = Some (int k, objects d, last xs, ?S)"
    using ne hd obj loop h1(1) h2(1) h3(1) cut(4) xs(2)
    unfolding FetchFromOneSpans_def heap_op_compose by (simp add: Let_def heap_op_def SLL_SetNext_def upd_list_def)
  have disj: "set (fr a) \<inter> grid ?sz (the (V b)) = {}" if "b \<in> class_spans L c" "b \<noteq> a" for b
    using grids_apart [OF R c sz V that] span_okD(4) [OF ok] by blast
  note T = class_ok_take [OF K class_spans_finite [OF R c] a V fr xs(1) h1(3) disj]
  have lx: "last xs \<in> grid ?sz d" using span_okD(4) [OF ok] xs(1) unfolding fr by (metis last_in_set subsetD set_append UnCI)
  have C: "central_ok rep ?S (V(a \<mapsto> ?d2)) L1 (fr(a := ys)) ch (Out(c := Out c \<union> set xs))"
  proof (rule central_ok_class [OF I c])
    show "class_ok (sizemap S) (object_mem ?S) (V(a \<mapsto> ?d2)) L1 (fr(a := ys)) c (central_cache ?S c) (ch c) ((Out(c := Out c \<union> set xs)) c)"
      using T(1) by (simp add: upd_list_def)
  next
    fix k assume "k < kNumClasses" "k \<noteq> c"
    from other_class [OF I c this a V] lx h1(3) show "L1 (CentralNonempty k) = L (CentralNonempty k) \<and> L1 (CentralEmpty k) = L (CentralEmpty k) \<and>
      (\<forall>b\<in>class_spans L k. (V(a \<mapsto> ?d2)) b = V b \<and> (fr(a := ys)) b = fr b) \<and>
      (\<forall>x\<in>class_objs (sizemap S) V L k. object_mem ?S x = object_mem S x)"
      using \<open>k \<noteq> c\<close> by (auto simp: rehomed_def upd_list_def)
  qed (use h3(2) in \<open>auto simp: upd_list_def\<close>)
  have o: "set xs \<inter> outs (sizemap S) A Out = {}" using frees_not_out [OF I c a] unfolding fr by auto
  have "fetched c ch Out S xs (objects d) ?S"
  proof (rule fetchedI [OF C])
    show "object_mem ?S y = object_mem S y" if "y \<in> outs (sizemap S) A Out" for y
    proof -
      have "y \<noteq> last xs" using that o last_in_set [OF xs(1)] by blast
      then show ?thesis by (simp add: upd_list_def)
    qed
  qed (use cut(1) o in \<open>simp_all add: upd_list_def\<close>)
  then show ?thesis using op xs k(3) Cons by (intro exI [of _ "int k"] exI [of _ "objects d"] exI [of _ "last xs"] exI [of _ ?S] exI [of _ xs]) simp
qed

end

end
