(* ===== verification/Central_Remove.thy ===== *)
theory Central_Remove
  imports Central_Fetch
begin

text \<open>
  \<open>Populate\<close>, which takes a span from the page heap and cuts it, and \<open>RemoveRange\<close>, which composes the
  transfer cache, the spans in use and \<open>Populate\<close>.
\<close>

section \<open>A new span\<close>

context span_heap
begin

text \<open>The list of the spans with free objects after a fresh span was put on it.\<close>

lemma fresh_rehomed:
  assumes "\<forall>H\<in>cheaders. Sp a \<notin> set (L H)" "c < kNumClasses"
  shows "rehomed c L (L(CentralNonempty c := Sp a # L (CentralNonempty c))) a False"
  using assms by (auto simp: rehomed_def class_spans_def)

lemma Populate_add_ok:
  assumes I: "central_ok rep S V L fr ch Out" and c: "c < kNumClasses" "0 < c" and a: "V a = None"
    and S1: "sizemap S1 = sizemap S" "object_mem S1 = object_mem S" "central_cache S1 = central_cache S" "race_counter S1 = race_counter S"
    and sd: "span_data (span_of (pageheap S1) (Sp a)) = d"
    and k: "cache_pages (pageheap S1) (span_start d) (span_length d) c = Some hc" "rep hc (V(a \<mapsto> d)) L"
    and d: "span_length d = class_to_pages (sizemap S) c" "sizeclass d = c"
    and n: "\<forall>H\<in>cheaders. Sp a \<notin> set (L H)"
  shows "\<exists>S' V' L' fr'. Populate_add c S1 (Sp a) (class_to_pages (sizemap S) c) = Some S' \<and> central_ok rep S' V' L' fr' ch Out \<and>
    L' (CentralNonempty c) \<noteq> [] \<and>
    (\<forall>y\<in>outs (sizemap S) A Out. object_mem S' y = object_mem S y) \<and> sizemap S' = sizemap S \<and>
    (\<forall>k. k \<noteq> c \<longrightarrow> central_cache S' k = central_cache S k) \<and> same_slots (central_cache S c) (central_cache S' c)"
proof -
  let ?V = "V(a \<mapsto> d)" and ?sz = "class_to_size (sizemap S) c" and ?np = "class_to_pages (sizemap S) c" and ?h = "pageheap S1"
  let ?p = "span_start d * 2 ^ kPageShift"
  note sm = sizemap_okD [OF central_okD(1) [OF I] c(2,1)] and K = central_okD(4) [OF I c(1)]
  have Va: "?V a = Some d" by simp
  have cl: "size_class (central_cache S1 c) = c" using class_okD(1) [OF K] S1(3) by simp
  have pg: "0 < span_start d" "span_start d + span_length d \<le> 2 ^ 34"
  proof -
    have "extent (span_start d) (span_length d) \<subseteq> {0<..<2 ^ 34}" "0 < span_length d"
      using pages_bound [OF k(2) Va] by (simp_all add: span_pages_def)
    moreover from this(2) have "span_start d \<in> extent (span_start d) (span_length d)"
      "span_start d + span_length d - 1 \<in> extent (span_start d) (span_length d)" by (auto simp: extent_def)
    ultimately have "span_start d \<in> {0<..<2 ^ 34}" "span_start d + span_length d - 1 \<in> {0<..<2 ^ 34}" by blast+
    then show "0 < span_start d" "span_start d + span_length d \<le> 2 ^ 34" by auto
  qed
  have "span_data d = span_data (span_of ?h (Sp a))" by (simp add: sd [symmetric] span_data_def)
  from span_data_fields [OF this] have f: "span_start (span_of ?h (Sp a)) = span_start d" "span_length (span_of ?h (Sp a)) = span_length d" by simp_all
  have cap: "0 < capacity ?sz d" "capacity ?sz d < 2 ^ 16" "0 < ?sz" using sm d(1) by (simp_all add: capacity_def)
  obtain m where m: "cut_objects (object_mem S) (objects d) None ?p (?p + ?np * 2 ^ kPageShift) ?sz 0 = Some (m, ?p, int (capacity ?sz d))"
    "sll m ?p (pieces ?p ?sz (capacity ?sz d))" "\<forall>y. y \<notin> grid ?sz d \<longrightarrow> m y = object_mem S y"
    using cut_objects_eq [OF cap(3,1) pg(1), of "object_mem S" "objects d"] d(1) by auto
  let ?d = "d\<lparr>objects := ?p, refcount := 0\<rparr>" and ?L = "L(CentralNonempty c := Sp a # L (CentralNonempty c))"
  obtain h2 where h2: "upd_span hc (Sp a) (\<lambda>x. x\<lparr>objects := ?p, refcount := 0\<rparr>) = Some h2" "rep h2 (V(a \<mapsto> ?d)) L"
    using update [OF k(2) Va client_update_simps(3)] by (metis fun_upd_upd)
  have Va2: "(V(a \<mapsto> ?d)) a = Some ?d" by simp
  obtain h3 where h3: "lift_dll (\<lambda>st. DLL_Prepend st (CentralNonempty c) (Sp a)) h2 = Some h3" "rep h3 (V(a \<mapsto> ?d)) ?L"
    using prepend [OF h2(2) cheadersI(1) [OF c(1)] Va2 n] by blast
  let ?S = "upd_list (S1\<lparr>object_mem := m, pageheap := h3\<rparr>) c (\<lambda>l. l\<lparr>num_spans := num_spans l + 1, counter := counter l + of_int (int (capacity ?sz d))\<rparr>)"
  have g: "span_start (span_of hc (Sp a)) = span_start d" "objects (span_of hc (Sp a)) = objects d"
    using span_fields [OF k(2) Va] by simp_all
  have op: "Populate_add c S1 (Sp a) ?np = Some ?S"
    using f(1,2) d(1) k(1) g m(1) h2(1) h3(1) cl S1
    unfolding Populate_add_def by (simp add: heap_op_def Let_def upd_list_def)
  have none: "a \<notin> class_spans L k" if "k < kNumClasses" for k
    using class_span_view [OF central_okD(2) [OF I] that] a by fastforce
  have apart: "grid ?sz d \<inter> grid sz' (the (V b)) = {}" if b: "k < kNumClasses" "b \<in> class_spans L k" "0 < sz'" for b k sz'
  proof -
    obtain e where e: "V b = Some e" using class_span_view [OF central_okD(2) [OF I] b(1,2)] by blast
    then have "a \<noteq> b" using a by auto
    then have "span_pages d \<inter> span_pages e = {}" using pages_apart [OF k(2) Va, of b e] e by simp
    then show ?thesis using grid_apart [OF cap(3) b(3)] e by simp
  qed
  have sz': "0 < class_to_size (sizemap S) k" if k: "k < kNumClasses" "b \<in> class_spans L k" for k b
    using class_okD(6) [OF central_okD(4) [OF I k(1)]] sizemap_okD(1) [OF central_okD(1) [OF I] _ k(1)] k(2) by (cases "k = 0") auto
  have new: "grid ?sz d \<inter> class_objs (sizemap S) V L k = {}" if k: "k < kNumClasses" for k
    using apart [OF k _ sz' [OF k]] unfolding class_objs_def by blast
  have sok: "span_ok (sizemap S) m c ?d (pieces ?p ?sz (capacity ?sz d))"
    using d m(2) set_pieces [of d ?sz] by (simp add: span_ok_def capacity_def grid_def)
  have gr: "grid ?sz ?d = grid ?sz d" by (simp add: grid_def capacity_def)
  have "class_ok (sizemap S) m (V(a \<mapsto> ?d)) ?L (fr(a := pieces ?p ?sz (capacity ?sz d))) c
    ((central_cache S c)\<lparr>num_spans := num_spans (central_cache S c) + 1,
      counter := counter (central_cache S c) + of_nat (length (pieces ?p ?sz (capacity ?sz d)))\<rparr>) (ch c) (Out c)"
  proof (rule class_ok_add [OF K class_spans_finite [OF central_okD(2) [OF I] c(1)] c(2) none [OF c(1)] fresh_rehomed [OF n c(1)] sok])
    show "pieces ?p ?sz (capacity ?sz d) \<noteq> []" using cap(1) length_pieces [of ?p ?sz "capacity ?sz d"] by fastforce
    show "set (pieces ?p ?sz (capacity ?sz d)) = grid ?sz ?d" using set_pieces [of d ?sz] gr by simp
    show "m y = object_mem S y" if "y \<notin> grid ?sz ?d" for y using m(3) that gr by simp
    show "grid ?sz ?d \<inter> grid ?sz (the (V b)) = {}" if "b \<in> class_spans L c" for b using apart [OF c(1) that cap(3)] gr by simp
  qed
  then have C: "central_ok rep ?S (V(a \<mapsto> ?d)) ?L (fr(a := pieces ?p ?sz (capacity ?sz d))) ch Out"
  proof (intro central_ok_class [OF I c(1)])
    fix j assume j: "j < kNumClasses" "j \<noteq> c"
    show "?L (CentralNonempty j) = L (CentralNonempty j) \<and> ?L (CentralEmpty j) = L (CentralEmpty j) \<and>
      (\<forall>b\<in>class_spans L j. (V(a \<mapsto> ?d)) b = V b \<and> (fr(a := pieces ?p ?sz (capacity ?sz d))) b = fr b) \<and>
      (\<forall>x\<in>class_objs (sizemap S) V L j. object_mem ?S x = object_mem S x)"
      using j none [OF j(1)] new [OF j(1)] m(3) by (auto simp: upd_list_def)
  qed (use h3(2) S1 in \<open>auto simp: upd_list_def\<close>)
  have o: "object_mem ?S y = object_mem S y" if "y \<in> outs (sizemap S) A Out" for y
  proof -
    have "y \<notin> grid ?sz d"
    proof
      assume y: "y \<in> grid ?sz d"
      have "a \<in> class_spans ?L c" by (simp add: class_spans_def)
      then have "y \<in> class_objs (sizemap ?S) (V(a \<mapsto> ?d)) ?L c" using y gr S1(1) unfolding class_objs_def by (auto simp: upd_list_def)
      moreover have "y \<notin> Out c" using y new [OF c(1)] chain_objs(2) [OF I c(1)] by blast
      ultimately show False using unheld [OF C c(1)] that S1(1) by (simp add: upd_list_def)
    qed
    then show ?thesis using m(3) by (simp add: upd_list_def)
  qed
  have "\<forall>k. k \<noteq> c \<longrightarrow> central_cache ?S k = central_cache S k" "same_slots (central_cache S c) (central_cache ?S c)" "sizemap ?S = sizemap S"
    using S1 by (simp_all add: upd_list_def same_slots_def)
  moreover have "?L (CentralNonempty c) \<noteq> []" by simp
  ultimately show ?thesis using op C o by blast
qed

lemma Populate_ok:
  assumes I: "central_ok rep S V L fr ch Out" and c: "c < kNumClasses" "0 < c"
  shows "\<exists>r. Populate E c S = Some r \<and> (\<forall>S'. r = Ret S' \<longrightarrow> (\<exists>V' L' fr'. central_ok rep S' V' L' fr' ch Out) \<and>
    (\<forall>y\<in>outs (sizemap S) A Out. object_mem S' y = object_mem S y) \<and> sizemap S' = sizemap S \<and>
    (\<forall>k. k \<noteq> c \<longrightarrow> central_cache S' k = central_cache S k) \<and> same_slots (central_cache S c) (central_cache S' c))"
proof -
  let ?np = "class_to_pages (sizemap S) c"
  note sm = sizemap_okD [OF central_okD(1) [OF I] c(2,1)] and R = central_okD(2) [OF I]
  have cl: "size_class (central_cache S c) = c" using class_okD(1) [OF central_okD(4) [OF I c(1)]] .
  from new [OF R sm(3)] obtain r where r: "New E (pageheap S) ?np = Some r"
    "\<And>s h'. r = Ret (s, h') \<Longrightarrow> s = SNull \<and> rep h' V L \<or> (\<exists>a d. s = Sp a \<and> V a = None \<and> rep h' (V(a \<mapsto> d)) L \<and>
      span_length d = ?np \<and> sizeclass d = 0 \<and> (\<forall>H\<in>cheaders. Sp a \<notin> set (L H)))" by blast
  show ?thesis
  proof (cases r)
    case OutOfMemory
    then show ?thesis using r(1) cl by (simp add: Populate_def)
  next
    case (Ret q)
    obtain s h where q: "q = (s, h)" by (cases q)
    show ?thesis
    proof (cases "s = SNull")
      case True
      then have "rep h V L" using r(2) [of s h] Ret q by auto
      moreover have "Populate E c S = Some (Ret (S\<lparr>pageheap := h\<rparr>))" using r(1) Ret q True cl by (simp add: Populate_def Let_def)
      ultimately have "central_ok rep (S\<lparr>pageheap := h\<rparr>) V L fr ch Out" using I by (simp add: central_ok_def)
      then show ?thesis using \<open>Populate E c S = _\<close> by auto
    next
      case False
      then obtain a d where a: "s = Sp a" "V a = None" "rep h (V(a \<mapsto> d)) L" "span_length d = ?np" "\<forall>H\<in>cheaders. Sp a \<notin> set (L H)"
        using r(2) [of s h] Ret q by auto
      have Va: "(V(a \<mapsto> d)) a = Some d" by simp
      obtain h1 h2 where h1: "RegisterSizeClass h (Sp a) c = Some h1" "span_data (span_of h1 (Sp a)) = d\<lparr>sizeclass := c\<rparr>"
        "cache_pages h1 (span_start d) (span_length d) c = Some h2" "rep h2 (V(a \<mapsto> d\<lparr>sizeclass := c\<rparr>)) L"
        using register [OF a(3) Va c(1)] unfolding fun_upd_upd by blast
      obtain S' V' L' fr' where P: "Populate_add c (S\<lparr>pageheap := h1\<rparr>) (Sp a) ?np = Some S'" "central_ok rep S' V' L' fr' ch Out"
        "\<forall>y\<in>outs (sizemap S) A Out. object_mem S' y = object_mem S y" "sizemap S' = sizemap S"
        "\<forall>k. k \<noteq> c \<longrightarrow> central_cache S' k = central_cache S k" "same_slots (central_cache S c) (central_cache S' c)"
        using Populate_add_ok [OF I c a(2), of "S\<lparr>pageheap := h1\<rparr>" "d\<lparr>sizeclass := c\<rparr>" h2] h1 a(4,5) by auto
      have "Populate E c S = Some (Ret S')"
        using r(1) Ret q False a(1) h1(1) P(1) cl by (simp add: Populate_def Let_def heap_op_def)
      then show ?thesis using P(2-6) by blast
    qed
  qed
qed

section \<open>RemoveRange\<close>

text \<open>The memory of the objects held outside is not part of the invariant.\<close>

lemma central_ok_mem:
  assumes I: "central_ok rep S V L fr ch Out" and m: "\<And>y. y \<notin> outs (sizemap S) A Out \<Longrightarrow> m y = object_mem S y"
  shows "central_ok rep (S\<lparr>object_mem := m\<rparr>) V L fr ch Out"
proof -
  have "class_ok (sizemap S) m V L fr c (central_cache S c) (ch c) (Out c)" if c: "c < kNumClasses" for c
  proof -
    note K = central_okD(4) [OF I c]
    have f: "sll m p (fr a) = sll (object_mem S) p (fr a)" if "a \<in> class_spans L c" for a p
      using m frees_not_out [OF I c that] by (intro slseg_frame_mem) blast
    have k: "sll m p (ch c ! i) = sll (object_mem S) p (ch c ! i)" if "i < length (ch c)" for i p
    proof (rule slseg_frame_mem)
      fix x assume "x \<in> set (ch c ! i)"
      then have "x \<in> set (concat (ch c))" using nth_mem [OF that] unfolding set_concat by blast
      then show "m x = object_mem S x" using m chains_not_out [OF I c] by blast
    qed
    have "spans_ok (sizemap S) m V L fr c" using class_okD(2) [OF K] f by (simp add: spans_ok_def span_ok_def)
    moreover have "slots_ok (sizemap S) m c (central_cache S c) (ch c)" using class_okD(4) [OF K] k by (simp add: slots_ok_def)
    ultimately show ?thesis using K by (simp add: class_ok_def)
  qed
  then show ?thesis using I by (simp add: central_ok_def)
qed

lemma fetchedE:
  assumes "fetched c ch Out S xs start S'"
  obtains V L fr where "central_ok rep S' V L fr ch (Out(c := Out c \<union> set xs))" "sll (object_mem S') start xs" "set xs \<inter> outs (sizemap S) A Out = {}"
    "\<And>y. y \<in> outs (sizemap S) A Out \<Longrightarrow> object_mem S' y = object_mem S y" "sizemap S' = sizemap S"
    "\<And>k. k \<noteq> c \<Longrightarrow> central_cache S' k = central_cache S k" "same_slots (central_cache S c) (central_cache S' c)"
  using assms unfolding fetched_def by blast

text \<open>A second chain is put in front of the first one.\<close>

lemma fetched_push:
  assumes c: "c < kNumClasses" and x: "fetched c ch Out S xs start S1"
    and y: "fetched c ch (Out(c := Out c \<union> set xs)) S1 ys head S2" and ne: "ys \<noteq> []"
  shows "\<exists>m. SLL_PushRange (object_mem S2) start head (last ys) = Some (m, head) \<and>
    fetched c ch Out S (ys @ xs) head (S2\<lparr>object_mem := m\<rparr>)"
proof -
  let ?O = "Out(c := Out c \<union> set xs)"
  obtain V L fr where Y0: "central_ok rep S2 V L fr ch (?O(c := ?O c \<union> set ys))" "sll (object_mem S2) head ys" "set ys \<inter> outs (sizemap S1) A ?O = {}"
    "\<And>y. y \<in> outs (sizemap S1) A ?O \<Longrightarrow> object_mem S2 y = object_mem S1 y" "sizemap S2 = sizemap S1"
    "\<And>k. k \<noteq> c \<Longrightarrow> central_cache S2 k = central_cache S1 k" "same_slots (central_cache S1 c) (central_cache S2 c)"
    using fetchedE [OF y] by blast
  obtain X: "sll (object_mem S1) start xs" "set xs \<inter> outs (sizemap S) A Out = {}" "\<And>y. y \<in> outs (sizemap S) A Out \<Longrightarrow> object_mem S1 y = object_mem S y" "sizemap S1 = sizemap S"
    "\<And>k. k \<noteq> c \<Longrightarrow> central_cache S1 k = central_cache S k" "same_slots (central_cache S c) (central_cache S1 c)"
    using fetchedE [OF x] by blast
  note o = outs_add [OF c, of "sizemap S" A Out "set xs"] and Y = Y0 [unfolded X(4)]
  have "sll (object_mem S2) start xs = sll (object_mem S1) start xs" using Y(4) o by (intro slseg_frame_mem) blast
  then obtain m where m: "SLL_PushRange (object_mem S2) start head (last ys) = Some (m, head)" "sll m head (ys @ xs)"
    "\<forall>a. a \<noteq> last ys \<longrightarrow> m a = object_mem S2 a"
    using SLL_PushRange_sll [of "object_mem S2" start xs head ys "last ys"] X(1) Y(2,3) ne o by blast
  have O: "?O(c := ?O c \<union> set ys) = Out(c := Out c \<union> set (ys @ xs))" by (auto simp: fun_eq_iff)
  have l: "last ys \<in> set ys" using ne by simp
  have C: "central_ok rep (S2\<lparr>object_mem := m\<rparr>) V L fr ch (Out(c := Out c \<union> set (ys @ xs)))"
  proof (rule central_ok_mem [OF Y(1) [unfolded O]])
    fix y assume "y \<notin> outs (sizemap S2) A (Out(c := Out c \<union> set (ys @ xs)))"
    then have "y \<noteq> last ys" unfolding Y(5) using outs_add [OF c, of "sizemap S" A Out "set (ys @ xs)"] l by auto
    then show "m y = object_mem S2 y" using m(3) by blast
  qed
  have "fetched c ch Out S (ys @ xs) head (S2\<lparr>object_mem := m\<rparr>)"
  proof (rule fetchedI [OF C])
    show "set (ys @ xs) \<inter> outs (sizemap S) A Out = {}" using X(2) Y(3) o by auto
    show "object_mem (S2\<lparr>object_mem := m\<rparr>) y = object_mem S y" if "y \<in> outs (sizemap S) A Out" for y
    proof -
      have "y \<noteq> last ys" using that Y(3) o l by blast
      moreover have "object_mem S2 y = object_mem S1 y" using Y(4) that o by blast
      ultimately show ?thesis using m(3) X(3) [OF that] by simp
    qed
    show "same_slots (central_cache S c) (central_cache (S2\<lparr>object_mem := m\<rparr>) c)" using same_slots_trans [OF X(6) Y(7)] by simp
  qed (use m(2) X Y in simp_all)
  then show ?thesis using m(1) by blast
qed

text \<open>Steps that hand out nothing.\<close>

lemma fetched_trans:
  assumes x: "fetched c ch Out S xs start S1" and S2: "\<exists>V L fr. central_ok rep S2 V L fr ch (Out(c := Out c \<union> set xs))" "sizemap S2 = sizemap S1"
    "\<And>y. y \<in> outs (sizemap S) A Out \<union> set xs \<Longrightarrow> object_mem S2 y = object_mem S1 y"
    "\<And>k. k \<noteq> c \<Longrightarrow> central_cache S2 k = central_cache S1 k" "same_slots (central_cache S1 c) (central_cache S2 c)"
  shows "fetched c ch Out S xs start S2"
proof -
  obtain V L fr where C: "central_ok rep S2 V L fr ch (Out(c := Out c \<union> set xs))" using S2(1) by blast
  obtain X: "sll (object_mem S1) start xs" "set xs \<inter> outs (sizemap S) A Out = {}" "\<And>y. y \<in> outs (sizemap S) A Out \<Longrightarrow> object_mem S1 y = object_mem S y" "sizemap S1 = sizemap S"
    "\<And>k. k \<noteq> c \<Longrightarrow> central_cache S1 k = central_cache S k" "same_slots (central_cache S c) (central_cache S1 c)"
    using fetchedE [OF x] by blast
  have "sll (object_mem S2) start xs = sll (object_mem S1) start xs" using S2(3) by (intro slseg_frame_mem) blast
  then show ?thesis using X S2 same_slots_trans [OF X(6) S2(5)] by (intro fetchedI [OF C]) auto
qed

lemma fetch_more_ok:
  assumes c: "c < kNumClasses" and x: "fetched c ch Out S0 xs start S" "xs \<noteq> []" "int (length xs) \<le> N"
  shows "\<exists>ys start' S'. fetch_more c S N (int (length xs)) start = Some (int (length (ys @ xs)), start', S') \<and>
    int (length (ys @ xs)) \<le> N \<and> fetched c ch Out S0 (ys @ xs) start' S'"
  using x
proof (induction "nat (N - int (length xs))" arbitrary: S xs start rule: less_induct)
  case less
  let ?O = "Out(c := Out c \<union> set xs)"
  show ?case
  proof (cases "int (length xs) < N")
    case False
    have "fetch_more c S N (int (length xs)) start = Some (int (length xs), start, S)"
      unfolding fetch_more.simps [of c S N "int (length xs)" start] if_not_P [OF False] ..
    then show ?thesis using less.prems(1,3) by (intro exI [of _ "[]"] exI [of _ start] exI [of _ S]) (simp only: append_Nil simp_thms)
  next
    case True
    obtain V L fr where C: "central_ok rep S V L fr ch ?O" using less.prems(1) unfolding fetched_def by (elim conjE exE)
    have pos: "0 < N - int (length xs)" using True by simp
    from FetchFromOneSpans_ok [OF C c pos] obtain head tail S1 ys where F:
      "FetchFromOneSpans c S (N - int (length xs)) = Some (int (length ys), head, tail, S1)"
      "int (length ys) \<le> N - int (length xs)" "fetched c ch ?O S ys head S1" "ys \<noteq> [] \<longrightarrow> tail = last ys" by blast
    show ?thesis
    proof (cases "ys = []")
      case ys: True
      have "fetch_more c S N (int (length xs)) start = Some (int (length xs), start, S1)"
          unfolding fetch_more.simps [of c S N "int (length xs)" start] using True F(1) ys by simp
      moreover have "fetched c ch Out S0 xs start S1"
      proof (rule fetchedE [OF F(3)])
        fix V L fr assume G: "central_ok rep S1 V L fr ch (?O(c := ?O c \<union> set ys))" "\<And>y. y \<in> outs (sizemap S) A ?O \<Longrightarrow> object_mem S1 y = object_mem S y"
          "sizemap S1 = sizemap S" "\<And>k. k \<noteq> c \<Longrightarrow> central_cache S1 k = central_cache S k" "same_slots (central_cache S c) (central_cache S1 c)"
        have "?O(c := ?O c \<union> set ys) = ?O" using ys by (simp add: fun_eq_iff)
        moreover have "sizemap S = sizemap S0" using less.prems(1) unfolding fetched_def by blast
        ultimately show ?thesis using G outs_add [OF c, of "sizemap S" A Out "set xs"] by (intro fetched_trans [OF less.prems(1)]) auto
      qed
      ultimately show ?thesis using less.prems by (intro exI [of _ "[]"] exI [of _ start] exI [of _ S1]) simp
    next
      case ys: False
      from fetched_push [OF c less.prems(1) F(3) ys] obtain m where
        m: "SLL_PushRange (object_mem S1) start head (last ys) = Some (m, head)" "fetched c ch Out S0 (ys @ xs) head (S1\<lparr>object_mem := m\<rparr>)" by blast
      have "nat (N - int (length (ys @ xs))) < nat (N - int (length xs))" using True ys by simp
      moreover have "int (length (ys @ xs)) \<le> N" using F(2) by simp
      ultimately obtain zs start' S' where G: "fetch_more c (S1\<lparr>object_mem := m\<rparr>) N (int (length (ys @ xs))) head = Some (int (length (zs @ ys @ xs)), start', S')"
        "int (length (zs @ ys @ xs)) \<le> N" "fetched c ch Out S0 (zs @ ys @ xs) start' S'"
        using less.hyps [of "ys @ xs", OF _ m(2)] ys by auto
      have "fetch_more c S N (int (length xs)) start = fetch_more c (S1\<lparr>object_mem := m\<rparr>) N (int (length (ys @ xs))) head"
        unfolding fetch_more.simps [of c S N "int (length xs)" start] using True F(1,4) ys m(1) by (simp add: add.commute)
      then show ?thesis using G by (intro exI [of _ "zs @ ys"] exI [of _ start'] exI [of _ S']) simp
    qed
  qed
qed

lemma fetched_start:
  assumes "central_ok rep S V L fr ch Out"
  shows "fetched c ch Out S [] 0 S"
  by (rule fetchedI) (use assms in simp_all)

lemma FetchFromOneSpansSafe_ok:
  assumes I: "central_ok rep S V L fr ch Out" and c: "c < kNumClasses" "0 < c" and N: "0 < N"
  shows "\<exists>r. FetchFromOneSpansSafe E c S N = Some r \<and> (\<forall>n start tail S'. r = Ret (n, start, tail, S') \<longrightarrow>
    (\<exists>xs. n = int (length xs) \<and> n \<le> N \<and> fetched c ch Out S xs start S' \<and> (xs \<noteq> [] \<longrightarrow> tail = last xs)))"
proof -
  from FetchFromOneSpans_ok [OF I c(1) N] obtain start tail S1 xs where F: "FetchFromOneSpans c S N = Some (int (length xs), start, tail, S1)"
    "int (length xs) \<le> N" "fetched c ch Out S xs start S1" "xs \<noteq> [] \<longrightarrow> tail = last xs" by blast
  show ?thesis
  proof (cases "xs = []")
    case False
    then show ?thesis using F by (intro exI [of _ "Ret (int (length xs), start, tail, S1)"]) (auto simp: FetchFromOneSpansSafe_def)
  next
    case True
    then have o: "Out(c := Out c \<union> set xs) = Out" by (simp add: fun_eq_iff)
    obtain V L fr where C: "central_ok rep S1 V L fr ch Out" and sm: "sizemap S1 = sizemap S" using fetchedE [OF F(3)] o by metis
    from Populate_ok [OF C c, unfolded sm] obtain r where r: "Populate E c S1 = Some r" "\<And>S'. r = Ret S' \<Longrightarrow> (\<exists>V' L' fr'. central_ok rep S' V' L' fr' ch Out) \<and>
      (\<forall>y\<in>outs (sizemap S) A Out. object_mem S' y = object_mem S1 y) \<and> sizemap S' = sizemap S \<and>
      (\<forall>k. k \<noteq> c \<longrightarrow> central_cache S' k = central_cache S1 k) \<and> same_slots (central_cache S1 c) (central_cache S' c)" by blast
    show ?thesis
    proof (cases r)
      case OutOfMemory
      then show ?thesis using F(1) True r(1) by (simp add: FetchFromOneSpansSafe_def)
    next
      case (Ret S2)
      note P = r(2) [OF Ret]
      obtain V L fr where C: "central_ok rep S2 V L fr ch Out" using P by blast
      from FetchFromOneSpans_ok [OF C c(1) N] obtain start' tail' S3 ys where G: "FetchFromOneSpans c S2 N = Some (int (length ys), start', tail', S3)"
        "int (length ys) \<le> N" "fetched c ch Out S2 ys start' S3" "ys \<noteq> [] \<longrightarrow> tail' = last ys" by blast
      have "FetchFromOneSpansSafe E c S N = Some (Ret (int (length ys), start', tail', S3))"
        using F(1) True r(1) Ret G(1) by (simp add: FetchFromOneSpansSafe_def)
      moreover have "fetched c ch Out S ys start' S3"
      proof (rule fetchedE [OF F(3)])
        assume "\<And>y. y \<in> outs (sizemap S) A Out \<Longrightarrow> object_mem S1 y = object_mem S y"
          "\<And>k. k \<noteq> c \<Longrightarrow> central_cache S1 k = central_cache S k" "same_slots (central_cache S c) (central_cache S1 c)"
        moreover have "sizemap S2 = sizemap S" using P by simp
        ultimately show ?thesis using P G(3) unfolding fetched_def same_slots_def by simp
      qed
      ultimately show ?thesis using G(2,4) by blast
    qed
  qed
qed

text \<open>The result of \<open>RemoveRange\<close>: a chain of objects that nobody held.\<close>

lemma RemoveRange_ok:
  assumes I: "central_ok rep S V L fr ch Out" and c: "c < kNumClasses" "0 < c" and N: "0 < N"
  shows "\<exists>r. RemoveRange E c S N = Some r \<and> (\<forall>n start tail S'. r = Ret (n, start, tail, S') \<longrightarrow>
    (\<exists>xs ch' V' L' fr'. n = int (length xs) \<and> n \<le> N \<and> sll (object_mem S') start xs \<and> (xs \<noteq> [] \<longrightarrow> tail = last xs) \<and>
      set xs \<inter> outs (sizemap S) A Out = {} \<and> central_ok rep S' V' L' fr' ch' (Out(c := Out c \<union> set xs)) \<and> sizemap S' = sizemap S \<and>
      (\<forall>y\<in>outs (sizemap S) A Out. object_mem S' y = object_mem S y)))"
proof -
  let ?l = "central_cache S c" and ?n = "num_objects_to_move (sizemap S) c"
  note K = central_okD(4) [OF I c(1)]
  have cl: "size_class ?l = c" using class_okD(1) [OF K] .
  have u: "used_slots ?l = int (length (ch c))" using class_okD(4) [OF K] by (simp add: slots_ok_def)
  show ?thesis
  proof (cases "N = ?n \<and> used_slots ?l > 0")
    case True
    then obtain chs xs where ch: "ch c = chs @ [xs]" using u by (cases "ch c" rule: rev_cases) auto
    let ?i = "length chs"
    let ?S = "upd_list S c (\<lambda>l. l\<lparr>used_slots := int ?i\<rparr>)"
    have u': "used_slots ?l = int ?i + 1" using u ch by simp
    note P = class_ok_pop_chain [OF K [unfolded ch]]
    have "RemoveRange E c S N = Some (Ret (N, fst (tc_slots ?l ?i), snd (tc_slots ?l ?i), ?S))"
      using True N cl u' by (simp add: RemoveRange_def Let_def)
    moreover have "central_ok rep ?S V L fr (ch(c := chs)) (Out(c := Out c \<union> set xs))"
      by (rule central_ok_list [OF I c(1)]) (use P(1) u' in simp)
    moreover have "set xs \<inter> outs (sizemap S) A Out = {}" using chains_not_out [OF I c(1)] ch by auto
    moreover have "sizemap ?S = sizemap S" "object_mem ?S = object_mem S" by (simp_all add: upd_list_def)
    ultimately show ?thesis using P(2-5) True by (intro exI [of _ "Ret (N, fst (tc_slots ?l ?i), snd (tc_slots ?l ?i), ?S)"])
      (auto intro!: exI [of _ xs])
  next
    case False
    have RR: "RemoveRange E c S N = do {
       r \<leftarrow> FetchFromOneSpansSafe E c S N;
       case r of
         OutOfMemory \<Rightarrow> Some OutOfMemory
       | Ret (result, start, tail, S) \<Rightarrow>
           if result \<noteq> 0 then do {
             (result, start, S) \<leftarrow> fetch_more c S N result start;
             Some (Ret (result, start, tail, S)) }
           else Some (Ret (result, start, tail, S)) }"
      unfolding RemoveRange_def Let_def cl if_not_P [OF False] using N by simp
    from FetchFromOneSpansSafe_ok [OF I c N] obtain r where r: "FetchFromOneSpansSafe E c S N = Some r"
      "\<And>n start tail S'. r = Ret (n, start, tail, S') \<Longrightarrow>
        \<exists>xs. n = int (length xs) \<and> n \<le> N \<and> fetched c ch Out S xs start S' \<and> (xs \<noteq> [] \<longrightarrow> tail = last xs)" by blast
    show ?thesis
    proof (cases r)
      case OutOfMemory
      then show ?thesis using r(1) by (intro exI [of _ OutOfMemory]) (simp add: RR)
    next
      case (Ret q)
      obtain n start tail S1 where q: "q = (n, start, tail, S1)" by (cases q)
      obtain xs where X: "n = int (length xs)" "n \<le> N" "fetched c ch Out S xs start S1" "xs \<noteq> [] \<longrightarrow> tail = last xs" using r(2) Ret q by blast
      have "\<exists>zs start' S'. RemoveRange E c S N = Some (Ret (int (length zs), start', tail, S')) \<and> int (length zs) \<le> N \<and>
        fetched c ch Out S zs start' S' \<and> (zs \<noteq> [] \<longrightarrow> tail = last zs)"
      proof (cases "xs = []")
        case True
        then have "RemoveRange E c S N = Some (Ret (int (length xs), start, tail, S1))"
          using True r(1) Ret q X(1) by (simp add: RR)
        then show ?thesis using X by blast
      next
        case ne: False
        from fetch_more_ok [OF c(1) X(3) ne] obtain ys start' S' where
          Y: "fetch_more c S1 N (int (length xs)) start = Some (int (length (ys @ xs)), start', S')"
          "int (length (ys @ xs)) \<le> N" "fetched c ch Out S (ys @ xs) start' S'" using X(1,2) by blast
        have "RemoveRange E c S N = Some (Ret (int (length (ys @ xs)), start', tail, S'))"
          using r(1) Ret q X(1) ne Y(1) by (simp add: RR)
        then show ?thesis using Y(2,3) X(4) ne by (intro exI [of _ "ys @ xs"]) auto
      qed
      then obtain zs start' S' where Z: "RemoveRange E c S N = Some (Ret (int (length zs), start', tail, S'))" "int (length zs) \<le> N"
        "fetched c ch Out S zs start' S'" "zs \<noteq> [] \<longrightarrow> tail = last zs" by blast
      have "\<exists>V' L' fr'. central_ok rep S' V' L' fr' ch (Out(c := Out c \<union> set zs))" "sll (object_mem S') start' zs" "set zs \<inter> outs (sizemap S) A Out = {}"
        "\<forall>y\<in>outs (sizemap S) A Out. object_mem S' y = object_mem S y" "sizemap S' = sizemap S"
        using Z(3) unfolding fetched_def by blast+
      with Z show ?thesis by blast
    qed
  qed
qed

end

end
