(* ===== verification/Central_Init.thy ===== *)
theory Central_Init
  imports Central_Remove
begin

text \<open>
  The initial state of the central lists: the loop of \<open>Static::InitStaticVars\<close> over the classes, and the
  size map of \<open>SizeMap::Init\<close>, establish the invariant.
\<close>

fun init_centrals :: "'os central \<Rightarrow> nat \<Rightarrow> nat \<Rightarrow> 'os central option" where
  "init_centrals S i 0 = Some S"
| "init_centrals S i (Suc k) = do { S \<leftarrow> CentralFreeList_Init S i; init_centrals S (i + 1) k }"

section \<open>A list header of the client\<close>

lemma lists_ok_add_header:
  assumes O: "lists_ok C st U L F" and H: "H \<in> central_headers" "H \<notin> C"
  shows "\<exists>st'. DLL_Init st H = Some st' \<and> lists_ok (insert H C) st' U (L(H := [])) F \<and> (\<forall>x. span_data (st' x) = span_data (st x))"
proof -
  let ?L = "L(H := [])"
  have nn: "H \<noteq> SNull" "H \<notin> headers" "\<And>a. H \<noteq> Sp a" using H(1) headers_central by (auto simp: central_headers_def)
  obtain st' where st': "DLL_Init st H = Some st'" "dll st' H []" "\<forall>x. span_data (st' x) = span_data (st x)" "\<forall>x. x \<noteq> H \<longrightarrow> st' x = st x"
    using DLL_Init_dll [OF nn(1)] by blast
  note D = lists_okD(3) [OF O]
  have member: "\<exists>a. s = Sp a" if "h \<in> headers \<union> C" "s \<in> set (L h)" for h s
    using that lists_okD(5) [OF O, of h s] lists_okD(6) [OF O, of h s] by blast
  have "dll st' h (L h)" if h: "h \<in> headers \<union> C" for h
  proof -
    have "H \<notin> set (h # L h)" using member [OF h] nn(2,3) H(2) h by auto
    then have "dll st' h (L h) = dll st h (L h)" using st'(4) by (intro dll_frame) auto
    then show ?thesis using dlls_dll [OF D h] by simp
  qed
  moreover have "H \<notin> set (L h)" if "h \<in> headers \<union> C" for h using member [OF that] nn(3) by auto
  moreover have "headers \<union> insert H C = insert H (headers \<union> C)" by simp
  moreover have "H \<notin> headers \<union> C" using nn(2) H(2) by simp
  ultimately have "dlls st' (headers \<union> insert H C) ?L" using D st'(2) unfolding dlls_def by (simp add: Ball_def)
  moreover have d: "plen_of st' x = plen_of st x" "loc_of st' x = loc_of st x" for x
    using span_data_fields [of "st' (Sp x)" "st (Sp x)"] st'(3) by auto
  moreover have hd: "?L x = L x" if "x \<in> headers" for x using that nn(2) by auto
  moreover have "loose st' (Sp x)" if "x \<in> U" "\<not> listed (headers \<union> insert H C) ?L (Sp x)" for x
  proof -
    have "\<not> listed (headers \<union> C) L (Sp x)" using that(2) H(2) nn(2) unfolding listed_def by (auto split: if_splits)
    then have "loose st (Sp x)" using lists_okD(7) [OF O that(1)] by blast
    then show ?thesis using st'(4) nn(3) [of x] unfolding loose_def by fastforce
  qed
  ultimately have "lists_ok (insert H C) st' U ?L F"
    using O H(1) list_of_header unfolding lists_ok_def by (auto split: if_splits)
  with st' show ?thesis by blast
qed

lemma heap_inv_add_header:
  assumes I: "heap_inv res Fm C h U L F" and H: "H \<in> central_headers" "H \<notin> C"
  shows "\<exists>h'. lift_dll (\<lambda>st. DLL_Init st H) h = Some h' \<and> heap_inv res Fm (insert H C) h' U (L(H := [])) F \<and>
    imbalance h' U = imbalance h U \<and> inuse_view (spans h') U = inuse_view (spans h) U \<and> aggressive_decommit h' = aggressive_decommit h"
proof -
  obtain st where st: "DLL_Init (spans h) H = Some st" "lists_ok (insert H C) st U (L(H := [])) F" "\<forall>x. span_data (st x) = span_data (spans h x)"
    using lists_ok_add_header [OF heap_invD(3) [OF I] H] by blast
  with heap_inv_relink [OF I st(2)] show ?thesis by (simp add: lift_dll_def)
qed

section \<open>Init of a class\<close>

text \<open>The class \<open>c\<close> is empty.\<close>

definition fresh_list :: "nat \<Rightarrow> central_list \<Rightarrow> bool" where
  "fresh_list c l = (size_class l = c \<and> num_spans l = 0 \<and> counter l = 0 \<and> used_slots l = 0 \<and> 0 \<le> cache_size l \<and>
     cache_size l \<le> max_cache_size l \<and> max_cache_size l \<le> kMaxNumTransferEntries)"

definition class_headers :: "nat \<Rightarrow> span_ptr set" where
  "class_headers i = CentralEmpty ` {..<i} \<union> CentralNonempty ` {..<i}"

lemma class_headers_Suc: "class_headers (Suc i) = insert (CentralNonempty i) (insert (CentralEmpty i) (class_headers i))"
  by (auto simp: class_headers_def lessThan_Suc)

lemma class_headers_all: "class_headers kNumClasses = cheaders"
  by (simp add: class_headers_def cheaders_def)

lemma CentralFreeList_Init_list:
  assumes sm: "sizemap_ok (sizemap S)" "num_objects_to_move (sizemap S) c \<le> 4096" and c: "c < kNumClasses"
    and h1: "lift_dll (\<lambda>st. DLL_Init st (CentralEmpty c)) (pageheap S) = Some h1"
    and h2: "lift_dll (\<lambda>st. DLL_Init st (CentralNonempty c)) h1 = Some h2"
  shows "\<exists>f. CentralFreeList_Init S c = Some (upd_list (S\<lparr>pageheap := h2\<rparr>) c f) \<and> (\<forall>l. fresh_list c (f l))"
proof -
  let ?b = "int (class_to_size (sizemap S) c)" and ?o = "num_objects_to_move (sizemap S) c"
  let ?m = "min kMaxNumTransferEntries (max 1 (c_div (1024 * 1024) (?b * ?o)))"
  have pos: "0 < ?b" "0 < ?o" "?b * ?o < 2 ^ 31" if "0 < c"
  proof -
    note s = sizemap_okD [OF sm(1) that c]
    show "0 < ?b" "0 < ?o" using s(1,5) by simp_all
    have "?b * ?o \<le> int kMaxSize * 4096" using s(1,2,5) sm(2) by (intro mult_mono) simp_all
    also have "\<dots> < 2 ^ 31" by (simp add: kMaxSize_def)
    finally show "?b * ?o < 2 ^ 31" .
  qed
  let ?l = "\<lambda>l. l\<lparr>size_class := c, num_spans := 0, counter := 0, max_cache_size := (if c = 0 then kMaxNumTransferEntries else ?m),
    cache_size := (if c = 0 then 16 else min 16 ?m), used_slots := 0\<rparr>"
  have "CentralFreeList_Init S c = Some (upd_list (S\<lparr>pageheap := h2\<rparr>) c ?l)"
    using h1 h2 pos
    by (cases "c = 0") (auto simp: CentralFreeList_Init_def heap_op_def upd_list_def Let_def kMaxNumTransferEntries_def min_le_iff_disj)
  moreover have "fresh_list c (?l l)" for l by (auto simp: fresh_list_def kMaxNumTransferEntries_def)
  ultimately show ?thesis by (intro exI [of _ ?l]) simp
qed

lemma CentralFreeList_Init_ok:
  assumes sm: "sizemap_ok (sizemap S)" "num_objects_to_move (sizemap S) c \<le> 4096" and c: "c < kNumClasses"
    and I: "heap_inv res Fm (class_headers c) (pageheap S) U L {}"
  shows "\<exists>S' L'. CentralFreeList_Init S c = Some S' \<and> heap_inv res Fm (class_headers (Suc c)) (pageheap S') U L' {} \<and>
    imbalance (pageheap S') U = imbalance (pageheap S) U \<and> inuse_view (spans (pageheap S')) U = inuse_view (spans (pageheap S)) U \<and>
    aggressive_decommit (pageheap S') = aggressive_decommit (pageheap S) \<and>
    (\<forall>k. k \<noteq> CentralEmpty c \<longrightarrow> k \<noteq> CentralNonempty c \<longrightarrow> L' k = L k) \<and> L' (CentralEmpty c) = [] \<and> L' (CentralNonempty c) = [] \<and>
    sizemap S' = sizemap S \<and> race_counter S' = race_counter S \<and> fresh_list c (central_cache S' c) \<and>
    (\<forall>k. k \<noteq> c \<longrightarrow> central_cache S' k = central_cache S k)"
proof -
  have n: "CentralEmpty c \<in> central_headers" "CentralEmpty c \<notin> class_headers c" "CentralNonempty c \<in> central_headers"
    "CentralNonempty c \<notin> insert (CentralEmpty c) (class_headers c)" by (auto simp: central_headers_def class_headers_def)
  obtain h1 where h1: "lift_dll (\<lambda>st. DLL_Init st (CentralEmpty c)) (pageheap S) = Some h1"
    "heap_inv res Fm (insert (CentralEmpty c) (class_headers c)) h1 U (L(CentralEmpty c := [])) {}" "imbalance h1 U = imbalance (pageheap S) U"
    "inuse_view (spans h1) U = inuse_view (spans (pageheap S)) U" "aggressive_decommit h1 = aggressive_decommit (pageheap S)"
    using heap_inv_add_header [OF I n(1,2)] by blast
  obtain h2 where h2: "lift_dll (\<lambda>st. DLL_Init st (CentralNonempty c)) h1 = Some h2"
    "heap_inv res Fm (class_headers (Suc c)) h2 U (L(CentralEmpty c := [], CentralNonempty c := [])) {}" "imbalance h2 U = imbalance h1 U"
    "inuse_view (spans h2) U = inuse_view (spans h1) U" "aggressive_decommit h2 = aggressive_decommit h1"
    using heap_inv_add_header [OF h1(2) n(3,4)] unfolding class_headers_Suc by blast
  obtain f where f: "CentralFreeList_Init S c = Some (upd_list (S\<lparr>pageheap := h2\<rparr>) c f)" "\<forall>l. fresh_list c (f l)"
    using CentralFreeList_Init_list [OF sm c h1(1) h2(1)] by blast
  show ?thesis using f h1(3-5) h2(2-5)
    by (intro exI [of _ "upd_list (S\<lparr>pageheap := h2\<rparr>) c f"] exI [of _ "L(CentralEmpty c := [], CentralNonempty c := [])"])
      (simp add: upd_list_def)
qed

text \<open>The loop before there is a page heap: only the links of the lists are written.\<close>

lemma CentralFreeList_Init_raw:
  assumes sm: "sizemap_ok (sizemap S)" "num_objects_to_move (sizemap S) c \<le> 4096" and c: "c < kNumClasses"
    and H: "self_linked (spans (pageheap S)) (class_headers c)"
  shows "\<exists>st f. CentralFreeList_Init S c = Some (upd_list (S\<lparr>pageheap := (pageheap S)\<lparr>spans := st\<rparr>\<rparr>) c f) \<and> (\<forall>l. fresh_list c (f l)) \<and>
    self_linked st (class_headers (Suc c))"
proof -
  obtain st1 where 1: "DLL_Init (spans (pageheap S)) (CentralEmpty c) = Some st1" "self_linked st1 (insert (CentralEmpty c) (class_headers c))"
    using DLL_Init_self_linked [OF H, of "CentralEmpty c"] by blast
  obtain st2 where 2: "DLL_Init st1 (CentralNonempty c) = Some st2" "self_linked st2 (class_headers (Suc c))"
    using DLL_Init_self_linked [OF 1(2), of "CentralNonempty c"] unfolding class_headers_Suc by blast
  have h: "lift_dll (\<lambda>st. DLL_Init st (CentralEmpty c)) (pageheap S) = Some ((pageheap S)\<lparr>spans := st1\<rparr>)"
    "lift_dll (\<lambda>st. DLL_Init st (CentralNonempty c)) ((pageheap S)\<lparr>spans := st1\<rparr>) = Some ((pageheap S)\<lparr>spans := st2\<rparr>)"
    using 1(1) 2(1) by (simp_all add: lift_dll_def)
  from CentralFreeList_Init_list [OF sm c h] 2(2) show ?thesis by blast
qed

lemma init_centrals_raw:
  assumes sm: "sizemap_ok (sizemap S)" "\<And>c. num_objects_to_move (sizemap S) c \<le> 4096" and k: "i + k = kNumClasses"
    and H: "self_linked (spans (pageheap S)) (class_headers i)" and f: "\<forall>c<i. fresh_list c (central_cache S c)"
  shows "\<exists>st cc. init_centrals S i k = Some (S\<lparr>pageheap := (pageheap S)\<lparr>spans := st\<rparr>, central_cache := cc\<rparr>) \<and>
    self_linked st cheaders \<and> (\<forall>c<kNumClasses. fresh_list c (cc c))"
  using assms
proof (induction k arbitrary: S i)
  case 0
  then show ?case
    by (intro exI [of _ "spans (pageheap S)"] exI [of _ "central_cache S"]) (simp add: class_headers_all)
next
  case (Suc k)
  have i: "i < kNumClasses" using Suc.prems(3) by simp
  obtain st f where 1: "CentralFreeList_Init S i = Some (upd_list (S\<lparr>pageheap := (pageheap S)\<lparr>spans := st\<rparr>\<rparr>) i f)"
    "\<forall>l. fresh_list i (f l)" "self_linked st (class_headers (Suc i))"
    using CentralFreeList_Init_raw [OF Suc.prems(1,2) i Suc.prems(4)] by blast
  let ?S = "upd_list (S\<lparr>pageheap := (pageheap S)\<lparr>spans := st\<rparr>\<rparr>) i f"
  have "\<forall>c<Suc i. fresh_list c (central_cache ?S c)" using 1(2) Suc.prems(5) by (auto simp: upd_list_def less_Suc_eq)
  then obtain st2 cc where 2: "init_centrals ?S (Suc i) k = Some (?S\<lparr>pageheap := (pageheap ?S)\<lparr>spans := st2\<rparr>, central_cache := cc\<rparr>)"
    "self_linked st2 cheaders" "\<forall>c<kNumClasses. fresh_list c (cc c)"
    using Suc.IH [of ?S "Suc i"] Suc.prems(1-3) 1(3) by (auto simp: upd_list_def)
  have "?S\<lparr>pageheap := (pageheap ?S)\<lparr>spans := st2\<rparr>, central_cache := cc\<rparr> = S\<lparr>pageheap := (pageheap S)\<lparr>spans := st2\<rparr>, central_cache := cc\<rparr>"
    by (simp add: upd_list_def)
  with 1(1) 2 show ?case by (intro exI [of _ st2] exI [of _ cc]) simp
qed

lemma init_centrals_ok:
  assumes sm: "sizemap_ok (sizemap S)" "\<And>c. num_objects_to_move (sizemap S) c \<le> 4096" and k: "i + k = kNumClasses"
    and I: "heap_inv res Fm (class_headers i) (pageheap S) U L {}" and L: "\<forall>H\<in>class_headers i. L H = []"
    and f: "\<forall>c<i. fresh_list c (central_cache S c)"
  shows "\<exists>S' L'. init_centrals S i k = Some S' \<and> heap_inv res Fm cheaders (pageheap S') U L' {} \<and>
    imbalance (pageheap S') U = imbalance (pageheap S) U \<and> inuse_view (spans (pageheap S')) U = inuse_view (spans (pageheap S)) U \<and>
    aggressive_decommit (pageheap S') = aggressive_decommit (pageheap S) \<and> (\<forall>H\<in>cheaders. L' H = []) \<and>
    sizemap S' = sizemap S \<and> race_counter S' = race_counter S \<and> (\<forall>c<kNumClasses. fresh_list c (central_cache S' c))"
  using assms
proof (induction k arbitrary: S i L)
  case 0
  then show ?case by (auto simp: class_headers_all)
next
  case (Suc k)
  have i: "i < kNumClasses" using Suc.prems(3) by simp
  from CentralFreeList_Init_ok [OF Suc.prems(1,2) i Suc.prems(4)] obtain S1 L1 where
    1: "CentralFreeList_Init S i = Some S1" "heap_inv res Fm (class_headers (Suc i)) (pageheap S1) U L1 {}"
    "imbalance (pageheap S1) U = imbalance (pageheap S) U" "inuse_view (spans (pageheap S1)) U = inuse_view (spans (pageheap S)) U"
    "aggressive_decommit (pageheap S1) = aggressive_decommit (pageheap S)"
    "\<forall>k. k \<noteq> CentralEmpty i \<longrightarrow> k \<noteq> CentralNonempty i \<longrightarrow> L1 k = L k" "L1 (CentralEmpty i) = []" "L1 (CentralNonempty i) = []"
    "sizemap S1 = sizemap S" "race_counter S1 = race_counter S" "fresh_list i (central_cache S1 i)"
    "\<forall>k. k \<noteq> i \<longrightarrow> central_cache S1 k = central_cache S k" by blast
  have L: "\<forall>H\<in>class_headers (Suc i). L1 H = []"
  proof
    fix H assume H: "H \<in> class_headers (Suc i)"
    show "L1 H = []"
    proof (cases "H = CentralEmpty i \<or> H = CentralNonempty i")
      case False
      then have "H \<in> class_headers i" using H by (auto simp: class_headers_Suc)
      then show ?thesis using False 1(6) Suc.prems(5) by simp
    qed (use 1(7,8) in auto)
  qed
  have "\<forall>c<Suc i. fresh_list c (central_cache S1 c)" using 1(11,12) Suc.prems(6) less_Suc_eq by simp
  with Suc.IH [of S1 "Suc i" L1] 1 L Suc.prems(1-3) show ?case by auto
qed

lemma fresh_class_ok:
  assumes "fresh_list c l" "L (CentralEmpty c) = []" "L (CentralNonempty c) = []"
  shows "class_ok sm m V L fr c l [] {}"
  using assms by (cases "c = 0") (simp_all add: class_ok_def fresh_list_def spans_ok_def counts_ok_def slots_ok_def held_ok_def class_spans_def
      class_objs_def class_frees_def)

lemma init_centrals_cache: "init_centrals S i k = Some S' \<Longrightarrow> pagemap_cache (pageheap S') = pagemap_cache (pageheap S)"
proof (induction S i k rule: init_centrals.induct)
  case (2 S i k)
  then obtain S1 where S1: "CentralFreeList_Init S i = Some S1" "init_centrals S1 (i + 1) k = Some S'" by (auto elim!: bindE)
  have "pagemap_cache (pageheap S1) = pagemap_cache (pageheap S)"
    using S1(1) by (auto simp: CentralFreeList_Init_def heap_op_def upd_list_def Let_def elim!: bindE dest!: lift_dll_cache split: if_splits)
  with "2.IH" [OF S1] show ?case by simp
qed simp

text \<open>Fresh central lists over a page heap in whose spans in use no class is registered.\<close>

lemma fresh_central_ok:
  assumes sm: "sizemap_ok (sizemap S)" and r: "0 \<le> race_counter S"
    and E: "os_contract (os_calls E) res" "\<forall>x. res x \<subseteq> {..<2 ^ 42}" "heap_limit_mb E = 0"
    and I: "heap_inv res Fm cheaders (pageheap S) U L {}" "imbalance (pageheap S) U = 0" and V: "inuse_view (spans (pageheap S)) U = V"
    and c: "\<And>a d. V a = Some d \<Longrightarrow> sizeclass d = 0" "cached_as (pageheap S) 0 0"
    and L: "\<forall>H\<in>cheaders. L H = []" and f: "\<forall>c<kNumClasses. fresh_list c (central_cache S c)"
  shows "central_ok (heap_frame E res Map.empty Fm) S V L (\<lambda>_. []) (\<lambda>_. []) (\<lambda>_. {})"
proof -
  have "heap_view E res Fm (pageheap S) V L" using E I V unfolding heap_view_def by auto
  moreover have "cache_right (pageheap S) V Map.empty" using c unfolding cache_right_def by auto
  ultimately have "heap_frame E res Map.empty Fm (pageheap S) V L" by (simp add: heap_frame_def)
  then show ?thesis using sm r L f fresh_class_ok by (simp add: central_ok_def)
qed

lemma init_centrals_central_ok:
  assumes sm: "sizemap_ok (sizemap S)" "\<And>c. num_objects_to_move (sizemap S) c \<le> 4096" and r: "0 \<le> race_counter S"
    and E: "os_contract (os_calls E) res" "\<forall>x. res x \<subseteq> {..<2 ^ 42}" "heap_limit_mb E = 0"
    and I: "heap_inv res Fm {} (pageheap S) U L {}" "imbalance (pageheap S) U = 0"
    and V: "\<And>a d. inuse_view (spans (pageheap S)) U a = Some d \<Longrightarrow> sizeclass d = 0" "cached_as (pageheap S) 0 0"
  shows "\<exists>S' L. init_centrals S 0 kNumClasses = Some S' \<and> sizemap S' = sizemap S \<and> (\<forall>H\<in>cheaders. L H = []) \<and>
    central_ok (heap_frame E res Map.empty Fm) S' (inuse_view (spans (pageheap S)) U) L (\<lambda>_. []) (\<lambda>_. []) (\<lambda>_. {})"
proof -
  have 0: "class_headers 0 = {}" by (simp add: class_headers_def)
  from init_centrals_ok [of S 0 kNumClasses res Fm U L] sm I(1) obtain S' L' where
    1: "init_centrals S 0 kNumClasses = Some S'" "heap_inv res Fm cheaders (pageheap S') U L' {}" "imbalance (pageheap S') U = imbalance (pageheap S) U"
    "aggressive_decommit (pageheap S') = aggressive_decommit (pageheap S)" "\<forall>H\<in>cheaders. L' H = []" "sizemap S' = sizemap S"
    "race_counter S' = race_counter S" "\<forall>c<kNumClasses. fresh_list c (central_cache S' c)"
    "inuse_view (spans (pageheap S')) U = inuse_view (spans (pageheap S)) U" by (auto simp: 0)
  have "central_ok (heap_frame E res Map.empty Fm) S' (inuse_view (spans (pageheap S)) U) L' (\<lambda>_. []) (\<lambda>_. []) (\<lambda>_. {})"
    by (rule fresh_central_ok [OF _ _ E 1(2) _ 1(9) V(1)])
      (use sm(1) r I(2) 1(3,5-8) V(2) cached_as_same [OF init_centrals_cache [OF 1(1)]] in simp_all)
  with 1(1,5,6) show ?thesis by auto
qed

text \<open>The size map of \<open>SizeMap::Init\<close> has what the central lists rely on.\<close>

lemma default_sizemap_ok:
  "\<exists>sm. SizeMap_Init None 0 SizeMap_zero = Some sm \<and> sizemap_ok sm \<and> (\<forall>c. num_objects_to_move sm c \<le> 4096)"
proof -
  have all: "list_all (\<lambda>(sz, pg). 8 \<le> sz \<and> sz \<le> kMaxSize \<and> 0 < pg \<and> pg \<le> 2 ^ 20 \<and> 0 < NumMoveSize 512 sz \<and> NumMoveSize 512 sz \<le> 4096 \<and>
      0 < pg * 2 ^ kPageShift div sz \<and> pg * 2 ^ kPageShift div sz < 2 ^ 16) (zip default_sizes default_pages)"
    by (simp add: default_sizes_def default_pages_def NumMoveSize_def config_defs kMaxSize_def)
  obtain A where A: "SizeMap_Init None 0 SizeMap_zero = Some (Init_moves 512 (default_map\<lparr>class_array := A\<rparr>))"
    using SizeMap_Init_default by blast
  let ?sm = "Init_moves 512 (default_map\<lparr>class_array := A\<rparr>)"
  have d: "8 \<le> class_to_size default_map c \<and> class_to_size default_map c \<le> kMaxSize \<and> 0 < class_to_pages default_map c \<and>
      class_to_pages default_map c \<le> 2 ^ 20 \<and> 0 < NumMoveSize 512 (class_to_size default_map c) \<and> NumMoveSize 512 (class_to_size default_map c) \<le> 4096 \<and>
      0 < class_to_pages default_map c * 2 ^ kPageShift div class_to_size default_map c \<and>
      class_to_pages default_map c * 2 ^ kPageShift div class_to_size default_map c < 2 ^ 16" if "0 < c" "c < 88" for c
    using all that
    by (auto simp: list_all_length default_length default_map_def fun_upds_apply Let_def dest!: spec [of _ "c - 1"])
  have z: "num_objects_to_move default_map c = 0" for c by (simp add: default_map_def SizeMap_zero_def Let_def)
  have "sizemap_ok ?sm" using d by (simp add: sizemap_ok_def Init_moves_def config_defs)
  moreover have "num_objects_to_move ?sm c \<le> 4096" for c using d [of c] z [of c] by (simp add: Init_moves_def config_defs)
  ultimately show ?thesis using A by blast
qed

end
