(* ===== verification/Thread_Inv.thy ===== *)
theory Thread_Inv
  imports Thread_Cache Central_Init
begin

text \<open>
  The invariant of a thread cache. The locale \<open>object_supply\<close> is what the caches rely on in the central
  lists, and the model of the central lists interprets it; \<open>fl_ok\<close> and \<open>cache_ok\<close> are the invariants of a
  free list and of a cache, whose contents are given by \<open>fl\<close>, a list of objects for each class.
\<close>

section \<open>The interface of the central lists\<close>

locale object_supply =
  fixes E :: "'os heap_env"
    and ok :: "'os central \<Rightarrow> (nat \<Rightarrow> addr set) \<Rightarrow> bool"
    and A :: "addr set"
  assumes batch_size: "ok S Out \<Longrightarrow> 0 < c \<Longrightarrow> c < kNumClasses \<Longrightarrow>
      0 < num_objects_to_move (sizemap S) c \<and> num_objects_to_move (sizemap S) c \<le> 4096"
    and object_size: "ok S Out \<Longrightarrow> 0 < c \<Longrightarrow> c < kNumClasses \<Longrightarrow> class_to_size (sizemap S) c \<le> kMaxSize"
    and classes: "ok S Out \<Longrightarrow> x \<in> Out c \<Longrightarrow> c < kNumClasses"
    and held: "ok S Out \<Longrightarrow> c < kNumClasses \<Longrightarrow> x \<in> Out c \<Longrightarrow> 0 < c \<and> x \<noteq> 0"
    and classes_apart: "ok S Out \<Longrightarrow> c < kNumClasses \<Longrightarrow> k < kNumClasses \<Longrightarrow> c \<noteq> k \<Longrightarrow> Out c \<inter> Out k = {}"
    and apart: "ok S Out \<Longrightarrow> c < kNumClasses \<Longrightarrow> x \<in> Out c \<Longrightarrow> x \<notin> Out' c \<Longrightarrow> (\<And>k. k < kNumClasses \<Longrightarrow> Out' k \<subseteq> Out k) \<Longrightarrow>
      x \<notin> outs (sizemap S) A Out'"
    and take: "ok S Out \<Longrightarrow> c < kNumClasses \<Longrightarrow> 0 < c \<Longrightarrow> 0 < N \<Longrightarrow>
      \<exists>r. RemoveRange E c S N = Some r \<and> (\<forall>n start tail S'. r = Ret (n, start, tail, S') \<longrightarrow>
        (\<exists>xs. n = int (length xs) \<and> n \<le> N \<and> sll (object_mem S') start xs \<and> (xs \<noteq> [] \<longrightarrow> tail = last xs) \<and>
          set xs \<inter> outs (sizemap S) A Out = {} \<and> ok S' (Out(c := Out c \<union> set xs)) \<and> sizemap S' = sizemap S \<and>
          (\<forall>y\<in>outs (sizemap S) A Out. object_mem S' y = object_mem S y)))"
    and give: "ok S Out \<Longrightarrow> c < kNumClasses \<Longrightarrow> sll (object_mem S) start xs \<Longrightarrow> xs \<noteq> [] \<Longrightarrow> set xs \<subseteq> Out c \<Longrightarrow>
      \<exists>S'. InsertRange E c S start (last xs) (int (length xs)) = Some S' \<and> ok S' (Out(c := Out c - set xs)) \<and>
        (\<forall>y\<in>outs (sizemap S) A (Out(c := Out c - set xs)). object_mem S' y = object_mem S y) \<and> sizemap S' = sizemap S"
    and store: "ok S Out \<Longrightarrow> (\<And>y. y \<notin> outs (sizemap S) A Out \<Longrightarrow> m y = object_mem S y) \<Longrightarrow> ok (S\<lparr>object_mem := m\<rparr>) Out"

definition supply_ok :: "'os heap_env \<Rightarrow> ('os \<Rightarrow> nat set) \<Rightarrow> (addr \<rightharpoonup> Span) \<Rightarrow> nat set \<Rightarrow> 'os central \<Rightarrow> (nat \<Rightarrow> addr set) \<Rightarrow> bool" where
  "supply_ok E res B Fm S Out = ((\<forall>c. num_objects_to_move (sizemap S) c \<le> 4096) \<and> (\<forall>c\<ge>kNumClasses. Out c = {}) \<and>
     (\<exists>V L fr ch. central_ok (heap_frame E res B Fm) S V L fr ch Out))"

lemma supply_okI:
  "central_ok (heap_frame E res B Fm) S V L fr ch Out \<Longrightarrow> \<forall>c. num_objects_to_move (sizemap S) c \<le> 4096 \<Longrightarrow>
    \<forall>c\<ge>kNumClasses. Out c = {} \<Longrightarrow> supply_ok E res B Fm S Out"
  unfolding supply_ok_def by blast

lemma supply_okE:
  assumes "supply_ok E res B Fm S Out"
  obtains V L fr ch where "central_ok (heap_frame E res B Fm) S V L fr ch Out" "\<forall>c. num_objects_to_move (sizemap S) c \<le> 4096" "\<forall>c\<ge>kNumClasses. Out c = {}"
  using assms unfolding supply_ok_def by blast

interpretation central_supply: object_supply E "supply_ok E res B Fm" "owned_bytes B" for E res B Fm
proof (unfold_locales, goal_cases)
  case (1 S Out c)
  then show ?case by (auto simp: supply_ok_def dest: central_okD(1) sizemap_okD(5))
next
  case (2 S Out c)
  then show ?case by (auto simp: supply_ok_def dest: central_okD(1) sizemap_okD(2))
next
  case (3 S Out x c)
  then show ?case unfolding supply_ok_def by (metis empty_iff not_less)
next
  case (4 S Out c x)
  from 4(1) obtain V L fr ch where I: "central_ok (heap_frame E res B Fm) S V L fr ch Out" by (rule supply_okE)
  show ?case using client_heap.held_object [OF I 4(2,3)] by blast
next
  case (5 S Out c k)
  from 5(1) obtain V L fr ch where I: "central_ok (heap_frame E res B Fm) S V L fr ch Out" by (rule supply_okE)
  show ?case using client_heap.class_objs_apart [OF I 5(2-4)] client_heap.chain_objs(2) [OF I 5(2)]
      client_heap.chain_objs(2) [OF I 5(3)] by blast
next
  case (6 S Out c x Out')
  from 6(1) obtain V L fr ch where I: "central_ok (heap_frame E res B Fm) S V L fr ch Out" by (rule supply_okE)
  show ?case by (rule client_heap.unheld_subset [OF I 6(2) _ 6(4,5)]) (use client_heap.chain_objs(2) [OF I 6(2)] 6(3) in blast)
next
  case (7 S Out c N)
  from 7(1) obtain V L fr ch where I: "central_ok (heap_frame E res B Fm) S V L fr ch Out"
    and n: "\<forall>c. num_objects_to_move (sizemap S) c \<le> 4096" "\<forall>c\<ge>kNumClasses. Out c = {}" by (rule supply_okE)
  obtain r where r: "RemoveRange E c S N = Some r" "\<And>n start tail S'. r = Ret (n, start, tail, S') \<Longrightarrow>
    \<exists>xs ch' V' L' fr'. n = int (length xs) \<and> n \<le> N \<and> sll (object_mem S') start xs \<and> (xs \<noteq> [] \<longrightarrow> tail = last xs) \<and>
      set xs \<inter> outs (sizemap S) (owned_bytes B) Out = {} \<and> central_ok (heap_frame E res B Fm) S' V' L' fr' ch' (Out(c := Out c \<union> set xs)) \<and> sizemap S' = sizemap S \<and>
      (\<forall>y\<in>outs (sizemap S) (owned_bytes B) Out. object_mem S' y = object_mem S y)"
    using client_heap.RemoveRange_ok [OF I 7(2-4)] by blast
  show ?case
  proof (rule exI [of _ r], intro conjI allI impI)
    fix n0 start tail S' assume R: "r = Ret (n0, start, tail, S')"
    obtain xs ch' V' L' fr' where X: "n0 = int (length xs) \<and> n0 \<le> N \<and> sll (object_mem S') start xs \<and> (xs \<noteq> [] \<longrightarrow> tail = last xs) \<and>
      set xs \<inter> outs (sizemap S) (owned_bytes B) Out = {} \<and> central_ok (heap_frame E res B Fm) S' V' L' fr' ch' (Out(c := Out c \<union> set xs)) \<and> sizemap S' = sizemap S \<and>
      (\<forall>y\<in>outs (sizemap S) (owned_bytes B) Out. object_mem S' y = object_mem S y)" using r(2) [OF R] by blast
    moreover have "supply_ok E res B Fm S' (Out(c := Out c \<union> set xs))" using X n 7(2) by (intro supply_okI) auto
    ultimately show "\<exists>xs. n0 = int (length xs) \<and> n0 \<le> N \<and> sll (object_mem S') start xs \<and> (xs \<noteq> [] \<longrightarrow> tail = last xs) \<and>
        set xs \<inter> outs (sizemap S) (owned_bytes B) Out = {} \<and> supply_ok E res B Fm S' (Out(c := Out c \<union> set xs)) \<and> sizemap S' = sizemap S \<and>
        (\<forall>y\<in>outs (sizemap S) (owned_bytes B) Out. object_mem S' y = object_mem S y)" by blast
  qed (rule r(1))
next
  case (8 S Out c start xs)
  from 8(1) obtain V L fr ch where I: "central_ok (heap_frame E res B Fm) S V L fr ch Out"
    and n: "\<forall>c. num_objects_to_move (sizemap S) c \<le> 4096" "\<forall>c\<ge>kNumClasses. Out c = {}" by (rule supply_okE)
  obtain S' V' L' fr' ch' where S': "InsertRange E c S start (last xs) (int (length xs)) = Some S'"
    "central_ok (heap_frame E res B Fm) S' V' L' fr' ch' (Out(c := Out c - set xs))"
    "\<forall>y\<in>outs (sizemap S) (owned_bytes B) (Out(c := Out c - set xs)). object_mem S' y = object_mem S y" "sizemap S' = sizemap S"
    using client_heap.InsertRange_ok [OF I 8(2-5) refl] by blast
  moreover have "supply_ok E res B Fm S' (Out(c := Out c - set xs))" using S'(2,4) n by (intro supply_okI) auto
  ultimately show ?case by blast
next
  case (9 S Out m)
  from 9(1) obtain V L fr ch where I: "central_ok (heap_frame E res B Fm) S V L fr ch Out"
    and n: "\<forall>c. num_objects_to_move (sizemap S) c \<le> 4096" "\<forall>c\<ge>kNumClasses. Out c = {}" by (rule supply_okE)
  show ?case using client_heap.central_ok_mem [OF I 9(2)] n by (intro supply_okI) auto
qed

section \<open>Free lists\<close>

definition fl_ok :: "mem \<Rightarrow> int \<Rightarrow> FreeList \<Rightarrow> addr list \<Rightarrow> bool" where
  "fl_ok m b l xs = (sll m (fl_list l) xs \<and> unat (fl_length l) = length xs \<and> fl_lowater l \<le> fl_length l \<and>
     0 < unat (fl_max_length l) \<and> unat (fl_max_length l) \<le> 8192 \<and> unat (fl_overages l) \<le> 3 \<and>
     (b \<le> 0 \<or> int (unat (fl_max_length l)) < b \<or> b dvd int (unat (fl_max_length l))))"

lemma fl_okD:
  assumes "fl_ok m b l xs"
  shows "sll m (fl_list l) xs" "unat (fl_length l) = length xs" "fl_lowater l \<le> fl_length l"
    "0 < unat (fl_max_length l)" "unat (fl_max_length l) \<le> 8192" "unat (fl_overages l) \<le> 3"
    "b \<le> 0 \<or> int (unat (fl_max_length l)) < b \<or> b dvd int (unat (fl_max_length l))" "distinct xs"
  using assms sll_distinct unfolding fl_ok_def by blast+

lemma lower_mark_simps [simp]:
  "fl_list (lower_mark l) = fl_list l" "fl_length (lower_mark l) = fl_length l" "fl_max_length (lower_mark l) = fl_max_length l"
  "fl_overages (lower_mark l) = fl_overages l" "fl_lowater (lower_mark l) \<le> fl_length l"
  by (auto simp: lower_mark_def)

lemma FL_PopRange_ok:
  assumes l: "fl_ok m b l (xs @ ys)" and n: "N = length xs" "xs \<noteq> []"
  shows "\<exists>m' l'. FL_PopRange m l N = Some (m', l', hd xs, last xs) \<and> sll m' (hd xs) xs \<and> fl_ok m' b l' ys \<and>
    (\<forall>a. a \<noteq> last xs \<longrightarrow> m' a = m a) \<and> fl_max_length l' = fl_max_length l \<and> fl_overages l' = fl_overages l"
proof -
  obtain m' q where p: "SLL_PopRange m (fl_list l) N = Some (m', q, hd xs, last xs)" "sll m' (hd xs) xs" "sll m' q ys"
    "\<forall>a. a \<noteq> last xs \<longrightarrow> m' a = m a"
    using SLL_PopRange_sll [OF fl_okD(1) [OF l] n] by blast
  have N: "N \<le> unat (fl_length l)" using fl_okD(2) [OF l] n by simp
  let ?l = "lower_mark (l\<lparr>fl_list := q, fl_length := fl_length l - of_nat N\<rparr>)"
  have "FL_PopRange m l N = Some (m', ?l, hd xs, last xs)" using p(1) N by (simp add: FL_PopRange_def)
  moreover have "fl_ok m' b ?l ys"
    using l p(3) n unat_minus_of_nat [OF N] lower_mark_simps(5) [of "l\<lparr>fl_list := q, fl_length := fl_length l - of_nat N\<rparr>"]
    by (simp add: fl_ok_def)
  ultimately show ?thesis using p(2,4) by auto
qed

lemma FL_Push_ok:
  assumes l: "fl_ok m b l xs" and p: "p \<noteq> 0" "p \<notin> set xs" and n: "length xs < 2 ^ 15"
  shows "\<exists>m' l'. FL_Push m l p = Some (m', l') \<and> fl_ok m' b l' (p # xs) \<and> (\<forall>a. a \<noteq> p \<longrightarrow> m' a = m a) \<and>
    fl_max_length l' = fl_max_length l \<and> fl_overages l' = fl_overages l"
proof -
  let ?l = "l\<lparr>fl_list := p, fl_length := fl_length l + 1\<rparr>"
  have "unat (fl_length l + of_nat 1) = unat (fl_length l) + 1"
    by (rule unat_plus_of_nat) (use n fl_okD(2) [OF l] in simp)
  then have u: "unat (fl_length l + 1) = Suc (length xs)" using fl_okD(2) [OF l] by simp
  then have "fl_ok (m(p := fl_list l)) b ?l (p # xs)"
    using l p by (simp add: fl_ok_def word_le_nat_alt)
  moreover have "FL_Push m l p = Some (m(p := fl_list l), ?l)"
    using p(1) by (simp add: FL_Push_def SLL_Push_def SLL_SetNext_def)
  ultimately show ?thesis by auto
qed

lemma FL_Pop_ok:
  assumes l: "fl_ok m b l xs" and n: "xs \<noteq> []"
  shows "\<exists>l'. FL_Pop m l = Some (hd xs, l') \<and> fl_ok m b l' (tl xs)"
proof -
  obtain p ys where xs: "xs = p # ys" using n by (cases xs) auto
  have p: "fl_list l = p" "p \<noteq> 0" "sll m (m p) ys" using fl_okD(1) [OF l] xs by auto
  have "unat (fl_length l - of_nat 1) = unat (fl_length l) - 1"
    by (rule unat_minus_of_nat) (use fl_okD(2) [OF l] xs in simp)
  then have u: "unat (fl_length l - 1) = length ys" using fl_okD(2) [OF l] xs by simp
  let ?l = "lower_mark (l\<lparr>fl_length := fl_length l - 1\<rparr>)"
  have "FL_Pop m l = Some (p, ?l\<lparr>fl_list := m p\<rparr>)" using p by (simp add: FL_Pop_def SLL_Pop_def SLL_Next_def Let_def)
  moreover have "fl_ok m b (?l\<lparr>fl_list := m p\<rparr>) ys"
    using l p(3) u lower_mark_simps(5) [of "l\<lparr>fl_length := fl_length l - 1\<rparr>"] by (simp add: fl_ok_def)
  ultimately show ?thesis using xs by auto
qed

end
