(* ===== verification/Thread_Release.thy ===== *)
theory Thread_Release
  imports Thread_Inv
begin

text \<open>
  The operations that return objects of a thread cache to the central lists: \<open>ReleaseToCentralCache\<close>,
  \<open>ListTooLong\<close>, \<open>Cleanup\<close> and the loop of \<open>Scavenge\<close> keep the invariant of the cache, drop objects only,
  and do not touch the memory of the objects that stay held.
\<close>

section \<open>The invariant of a cache\<close>

text \<open>\<open>B\<close> bounds the lengths of the lists.\<close>

definition cache_ok :: "nat \<Rightarrow> SizeMap \<Rightarrow> mem \<Rightarrow> ThreadCache \<Rightarrow> (nat \<Rightarrow> addr list) \<Rightarrow> bool" where
  "cache_ok B sm m C fl = ((\<forall>c<kNumClasses. fl_ok m (num_objects_to_move sm c) (tc_lists C c) (fl c) \<and> length (fl c) \<le> B) \<and>
     tc_size C = (\<Sum>c<kNumClasses. of_nat (length (fl c)) * of_nat (class_to_size sm c)))"

lemma cache_okD:
  assumes "cache_ok B sm m C fl"
  shows "c < kNumClasses \<Longrightarrow> fl_ok m (num_objects_to_move sm c) (tc_lists C c) (fl c)"
    "c < kNumClasses \<Longrightarrow> length (fl c) \<le> B"
    "tc_size C = (\<Sum>c<kNumClasses. of_nat (length (fl c)) * of_nat (class_to_size sm c))"
  using assms by (simp_all add: cache_ok_def)

text \<open>What no operation on the lists changes.\<close>

definition same_cache :: "ThreadCache \<Rightarrow> ThreadCache \<Rightarrow> bool" where
  "same_cache C C' = (tc_next C' = tc_next C \<and> tc_prev C' = tc_prev C \<and> tc_max_size C' = tc_max_size C \<and>
     tc_tid C' = tc_tid C \<and> tc_in_setspecific C' = tc_in_setspecific C)"

lemma same_cache_refl [simp]: "same_cache C C"
  by (simp add: same_cache_def)

lemma same_cache_trans: "same_cache C C' \<Longrightarrow> same_cache C' C'' \<Longrightarrow> same_cache C C''"
  by (simp add: same_cache_def)

lemma same_cache_upd [simp]:
  "same_cache C (upd_fl C' c f) = same_cache C C'"
  "same_cache C (C'\<lparr>tc_lists := ls, tc_size := w\<rparr>) = same_cache C C'"
  by (simp_all add: same_cache_def upd_fl_def)

lemma fl_ok_frame: "fl_ok m b l xs \<Longrightarrow> (\<And>x. x \<in> set xs \<Longrightarrow> m' x = m x) \<Longrightarrow> fl_ok m' b l xs"
  using slseg_frame_mem [of xs m' m] by (simp add: fl_ok_def)

lemma cache_ok_frame:
  assumes K: "cache_ok B sm m C fl" and m: "\<And>c x. c < kNumClasses \<Longrightarrow> x \<in> set (fl c) \<Longrightarrow> m' x = m x"
  shows "cache_ok B sm m' C fl"
  using cache_okD [OF K] m fl_ok_frame unfolding cache_ok_def by blast

lemma cache_ok_mono: "cache_ok B sm m C fl \<Longrightarrow> (\<And>c. c < kNumClasses \<Longrightarrow> length (fl c) \<le> B') \<Longrightarrow> cache_ok B' sm m C fl"
  by (simp add: cache_ok_def)

text \<open>The invariant after an operation on one list.\<close>

lemma sum_upd:
  assumes "c < kNumClasses"
  shows "(\<Sum>k<kNumClasses. f (if k = c then a else g k) k) = (\<Sum>k<kNumClasses. f (g k) k) - f (g c) c + (f a c :: 64 word)"
proof -
  have "(\<Sum>k<kNumClasses. h k) = h c + (\<Sum>k\<in>{..<kNumClasses} - {c}. h k)" for h :: "nat \<Rightarrow> 64 word"
    using assms by (intro sum.remove) simp_all
  from this [of "\<lambda>k. f (if k = c then a else g k) k"] this [of "\<lambda>k. f (g k) k"] show ?thesis by simp
qed

lemma cache_ok_list:
  assumes K: "cache_ok B sm m C fl" and c: "c < kNumClasses" and l: "fl_ok m' (num_objects_to_move sm c) l xs" "length xs \<le> B"
    and m: "\<And>k x. k < kNumClasses \<Longrightarrow> k \<noteq> c \<Longrightarrow> x \<in> set (fl k) \<Longrightarrow> m' x = m x"
    and s: "w = tc_size C - of_nat (length (fl c)) * of_nat (class_to_size sm c) + of_nat (length xs) * of_nat (class_to_size sm c)"
  shows "cache_ok B sm m' (C\<lparr>tc_lists := (tc_lists C)(c := l), tc_size := w\<rparr>) (fl(c := xs))"
proof -
  have "fl_ok m' (num_objects_to_move sm k) (tc_lists C k) (fl k)" if "k < kNumClasses" "k \<noteq> c" for k
    using fl_ok_frame [OF cache_okD(1) [OF K that(1)]] m [OF that] by blast
  moreover have "(\<Sum>k<kNumClasses. of_nat (length ((fl(c := xs)) k)) * of_nat (class_to_size sm k)) = w"
    unfolding s cache_okD(3) [OF K] fun_upd_apply
    using sum_upd [OF c, of "\<lambda>xs k. of_nat (length xs) * of_nat (class_to_size sm k)" xs fl] by simp
  ultimately show ?thesis using l cache_okD(2) [OF K] unfolding cache_ok_def by simp
qed

text \<open>A change of the bounds of one list.\<close>

lemma cache_ok_limits:
  assumes K: "cache_ok B sm m C fl" and c: "c < kNumClasses" and l: "fl_ok m (num_objects_to_move sm c) (f (tc_lists C c)) (fl c)"
  shows "cache_ok B sm m (upd_fl C c f) fl"
  using K l by (auto simp: cache_ok_def upd_fl_def)

section \<open>The maximal length\<close>

lemma to_size_t_nonneg: "0 \<le> i \<Longrightarrow> i < 2 ^ 31 \<Longrightarrow> to_size_t i = nat i"
  by (simp add: to_size_t_def)

lemma unat_of_int16: "0 \<le> n \<Longrightarrow> n \<le> 8192 \<Longrightarrow> unat (of_int n :: 16 word) = nat n"
  using unat_of_nat [of "nat n", where ?'a = 16] by simp

lemma set_max_length_ok:
  assumes "fl_ok m b l xs" "0 < n" "n \<le> 8192" "b \<le> 0 \<or> n < b \<or> b dvd n"
  shows "fl_ok m b (set_max_length n l) xs"
  using assms unat_of_int16 [of n] by (simp add: fl_ok_def set_max_length_def)

lemma overages_ok:
  assumes "fl_ok m b l xs" "unat k \<le> 3"
  shows "fl_ok m b (l\<lparr>fl_overages := k\<rparr>) xs"
  using assms by (simp add: fl_ok_def)

lemma unat_inc16: "unat (k :: 16 word) \<le> 3 \<Longrightarrow> unat (k + 1) = unat k + 1"
  using unat_plus_of_nat [of k 1] by simp

text \<open>Below a batch \<open>max_length\<close> may take any value; from a batch on it is a multiple of the batch size.\<close>

lemma max_length_dvd: "fl_ok m b l xs \<Longrightarrow> 0 < b \<Longrightarrow> b \<le> int (unat (fl_max_length l)) \<Longrightarrow> b dvd int (unat (fl_max_length l))"
  using fl_okD(7) [of m b l xs] by linarith

lemma dvd_above: "(b :: int) dvd n \<Longrightarrow> b < n \<Longrightarrow> 0 < b \<Longrightarrow> b \<le> n - b"
  using zdvd_imp_le [of b "n - b"] by simp

lemma shrink_max_length_ok:
  assumes l: "fl_ok m b l xs" and b: "0 < b" "b < int (unat (fl_max_length l))"
  shows "fl_ok m b (set_max_length (int (unat (fl_max_length l)) - b) l) xs"
proof (rule set_max_length_ok [OF l])
  have d: "b dvd int (unat (fl_max_length l))" using max_length_dvd [OF l b(1)] b(2) by simp
  show "0 < int (unat (fl_max_length l)) - b" using b(2) by simp
  show "int (unat (fl_max_length l)) - b \<le> 8192" using fl_okD(5) [OF l] b(1) by linarith
  show "b \<le> 0 \<or> int (unat (fl_max_length l)) - b < b \<or> b dvd int (unat (fl_max_length l)) - b" using d by simp
qed

lemma grow_one_ok:
  assumes l: "fl_ok m b l xs" and b: "0 < b" "b \<le> 4096" "unat (fl_max_length l) < nat b"
  shows "fl_ok m b (set_max_length (int (unat (fl_max_length l)) + 1) l) xs"
proof (rule set_max_length_ok [OF l])
  have n: "int (unat (fl_max_length l)) + 1 \<le> b" using b by linarith
  then show "int (unat (fl_max_length l)) + 1 \<le> 8192" using b(2) by linarith
  show "b \<le> 0 \<or> int (unat (fl_max_length l)) + 1 < b \<or> b dvd int (unat (fl_max_length l)) + 1"
    using n by (cases "int (unat (fl_max_length l)) + 1 = b") (simp_all add: order.order_iff_strict)
qed simp

section \<open>Objects that leave a cache\<close>

definition released :: "(nat \<Rightarrow> addr set) \<Rightarrow> (nat \<Rightarrow> addr list) \<Rightarrow> (nat \<Rightarrow> addr list) \<Rightarrow> (nat \<Rightarrow> addr set)" where
  "released Out fl fl' = (\<lambda>c. Out c - (set (fl c) - set (fl' c)))"

lemma released_refl [simp]: "released Out fl fl = Out"
  by (simp add: released_def)

lemma released_trans:
  "(\<And>c. set (fl' c) \<subseteq> set (fl c)) \<Longrightarrow> (\<And>c. set (fl'' c) \<subseteq> set (fl' c)) \<Longrightarrow> released (released Out fl fl') fl' fl'' = released Out fl fl''"
  unfolding released_def by (rule ext) blast

lemma released_one:
  assumes "distinct (xs @ ys)" "fl c = xs @ ys"
  shows "Out(c := Out c - set xs) = released Out fl (fl(c := ys))"
  using assms by (auto simp: released_def fun_eq_iff)

definition owned :: "(nat \<Rightarrow> addr set) \<Rightarrow> (nat \<Rightarrow> addr list) \<Rightarrow> bool" where
  "owned Out fl = (\<forall>c. set (fl c) \<subseteq> Out c)"

lemma ownedD: "owned Out fl \<Longrightarrow> x \<in> set (fl c) \<Longrightarrow> x \<in> Out c"
  unfolding owned_def by blast

lemma owned_released: "owned Out fl \<Longrightarrow> (\<And>c. set (fl' c) \<subseteq> set (fl c)) \<Longrightarrow> owned (released Out fl fl') fl'"
  unfolding owned_def released_def by blast

lemma outs_released: "outs sm A (released Out fl fl') \<subseteq> outs sm A Out"
  by (rule outs_mono) (auto simp: released_def)

text \<open>What the operations of this theory do, from a state with lists \<open>fl\<close> to one with lists \<open>fl'\<close>.\<close>

context object_supply
begin

definition release_post :: "nat \<Rightarrow> 'os central \<Rightarrow> ThreadCache \<Rightarrow> (nat \<Rightarrow> addr set) \<Rightarrow> (nat \<Rightarrow> addr list) \<Rightarrow>
    'os central \<Rightarrow> ThreadCache \<Rightarrow> (nat \<Rightarrow> addr list) \<Rightarrow> bool" where
  "release_post B S C Out fl S' C' fl' = (ok S' (released Out fl fl') \<and> cache_ok B (sizemap S) (object_mem S') C' fl' \<and>
     sizemap S' = sizemap S \<and> same_cache C C' \<and> (\<forall>c. set (fl' c) \<subseteq> set (fl c)) \<and> (\<forall>c. length (fl' c) \<le> length (fl c)) \<and>
     (\<forall>y\<in>outs (sizemap S) A (released Out fl fl'). object_mem S' y = object_mem S y))"

lemma release_postD:
  assumes "release_post B S C Out fl S' C' fl'"
  shows "ok S' (released Out fl fl')" "cache_ok B (sizemap S) (object_mem S') C' fl'" "sizemap S' = sizemap S" "same_cache C C'"
    "set (fl' c) \<subseteq> set (fl c)" "length (fl' c) \<le> length (fl c)" "y \<in> outs (sizemap S) A (released Out fl fl') \<Longrightarrow> object_mem S' y = object_mem S y"
  using assms unfolding release_post_def by blast+

lemma release_post_refl: "ok S Out \<Longrightarrow> cache_ok B (sizemap S) (object_mem S) C fl \<Longrightarrow> release_post B S C Out fl S C fl"
  by (simp add: release_post_def)

lemma release_post_trans:
  assumes 1: "release_post B S C Out fl S1 C1 fl1" and 2: "release_post B' S1 C1 (released Out fl fl1) fl1 S2 C2 fl2"
  shows "release_post B' S C Out fl S2 C2 fl2"
proof -
  have e: "released (released Out fl fl1) fl1 fl2 = released Out fl fl2"
    by (rule released_trans) (use release_postD(5) [OF 1] release_postD(5) [OF 2] in blast)+
  note D2 = release_postD [OF 2, unfolded e release_postD(3) [OF 1]]
  have "outs (sizemap S) A (released Out fl fl2) \<subseteq> outs (sizemap S) A (released Out fl fl1)"
    using outs_released [of "sizemap S" A "released Out fl fl1" fl1 fl2] unfolding e .
  then have "\<forall>y\<in>outs (sizemap S) A (released Out fl fl2). object_mem S2 y = object_mem S y"
    using release_postD(7) [OF 1] D2(7) by (metis subsetD)
  moreover have "\<forall>c. set (fl2 c) \<subseteq> set (fl c)" using release_postD(5) [OF 1] D2(5) by blast
  moreover have "\<forall>c. length (fl2 c) \<le> length (fl c)" using release_postD(6) [OF 1] D2(6) order_trans by blast
  ultimately show ?thesis using D2 same_cache_trans [OF release_postD(4) [OF 1]] unfolding release_post_def by blast
qed

lemma owned_class: "ok S Out \<Longrightarrow> owned Out fl \<Longrightarrow> c < kNumClasses \<Longrightarrow> fl c \<noteq> [] \<Longrightarrow> 0 < c"
  using held [of S Out c "hd (fl c)"] hd_in_set [of "fl c"] unfolding owned_def by blast

section \<open>Batches\<close>

lemma release_chain:
  assumes S: "ok S Out" and c: "c < kNumClasses" and l: "fl_ok (object_mem S) b l (xs @ ys)" "xs \<noteq> []" "set (xs @ ys) \<subseteq> Out c"
  shows "\<exists>m S' l'. FL_PopRange (object_mem S) l (length xs) = Some (m, l', hd xs, last xs) \<and>
    InsertRange E c (S\<lparr>object_mem := m\<rparr>) (hd xs) (last xs) (int (length xs)) = Some S' \<and> ok S' (Out(c := Out c - set xs)) \<and>
    fl_ok (object_mem S') b l' ys \<and> sizemap S' = sizemap S \<and> fl_max_length l' = fl_max_length l \<and> fl_overages l' = fl_overages l \<and>
    (\<forall>y\<in>outs (sizemap S) A (Out(c := Out c - set xs)). object_mem S' y = object_mem S y)"
proof -
  obtain m l1 where p: "FL_PopRange (object_mem S) l (length xs) = Some (m, l1, hd xs, last xs)" "sll m (hd xs) xs"
    "fl_ok m b l1 ys" "\<forall>a. a \<noteq> last xs \<longrightarrow> m a = object_mem S a" "fl_max_length l1 = fl_max_length l" "fl_overages l1 = fl_overages l"
    using FL_PopRange_ok [OF l(1) refl l(2)] by blast
  have sub: "set xs \<subseteq> Out c" using l(3) by simp
  then have lu: "last xs \<in> Out c" using last_in_set [OF l(2)] by blast
  have lo: "last xs \<in> outs (sizemap S) A Out" using outsI [where Out = Out, OF c lu] .
  have "m y = object_mem S y" if "y \<notin> outs (sizemap S) A Out" for y using p(4) lo that by metis
  then have s1: "ok (S\<lparr>object_mem := m\<rparr>) Out" by (rule store [OF S])
  obtain S2 where s2: "InsertRange E c (S\<lparr>object_mem := m\<rparr>) (hd xs) (last xs) (int (length xs)) = Some S2" "ok S2 (Out(c := Out c - set xs))"
    "\<forall>y\<in>outs (sizemap S) A (Out(c := Out c - set xs)). object_mem S2 y = m y" "sizemap S2 = sizemap S"
    using give [OF s1 c, of "hd xs" xs] p(2) l(2) sub by auto
  have "set ys \<subseteq> Out c - set xs" using fl_okD(8) [OF l(1)] l(3) by auto
  then have "x \<in> outs (sizemap S) A (Out(c := Out c - set xs))" if "x \<in> set ys" for x
    using that outsI [where Out = "Out(c := Out c - set xs)", OF c, of x] by auto
  then have f2: "fl_ok (object_mem S2) b l1 ys" using s2(3) by (intro fl_ok_frame [OF p(3)]) blast
  have "object_mem S2 y = object_mem S y" if y: "y \<in> outs (sizemap S) A (Out(c := Out c - set xs))" for y
  proof -
    have "last xs \<notin> outs (sizemap S) A (Out(c := Out c - set xs))"
      by (rule apart [OF S c lu]) (use last_in_set [OF l(2)] in auto)
    then have "y \<noteq> last xs" using y by blast
    then show ?thesis using s2(3) y p(4) by simp
  qed
  then show ?thesis using p(1,5,6) s2(1,2,4) f2 by blast
qed

lemma release_batches_ok:
  assumes "ok S Out" and c: "c < kNumClasses" and b: "0 < b"
    and "fl_ok (object_mem S) b l (xs @ ys)" "xs \<noteq> []" "set (xs @ ys) \<subseteq> Out c"
  shows "\<exists>S' l' us vs. release_batches E c b S l (int (length xs)) = Some (S', l', int (length vs)) \<and> xs = us @ vs \<and> vs \<noteq> [] \<and>
    ok S' (Out(c := Out c - set us)) \<and> fl_ok (object_mem S') b l' (vs @ ys) \<and> sizemap S' = sizemap S \<and>
    fl_max_length l' = fl_max_length l \<and> fl_overages l' = fl_overages l \<and>
    (\<forall>y\<in>outs (sizemap S) A (Out(c := Out c - set us)). object_mem S' y = object_mem S y)"
  using assms(1,4-6)
proof (induction "length xs" arbitrary: S l xs Out rule: less_induct)
  case less
  show ?case
  proof (cases "int (length xs) > b")
    case False
    then have "release_batches E c b S l (int (length xs)) = Some (S, l, int (length xs))"
      by (simp add: release_batches.simps [of E c b S l])
    then show ?thesis using less.prems by (intro exI [of _ S] exI [of _ l] exI [of _ "[]"] exI [of _ xs]) simp
  next
    case True
    let ?n = "nat b" and ?u = "take (nat b) xs" and ?v = "drop (nat b) xs"
    have u: "length ?u = ?n" "?u \<noteq> []" "?v \<noteq> []" "int ?n = b" using True b by auto
    have xs: "xs @ ys = ?u @ (?v @ ys)" by simp
    have d: "distinct (xs @ ys)" using fl_okD(8) [OF less.prems(2)] .
    have sub: "set (?u @ (?v @ ys)) \<subseteq> Out c" using less.prems(4) unfolding xs .
    obtain m l1 S2 where p: "FL_PopRange (object_mem S) l ?n = Some (m, l1, hd ?u, last ?u)"
      and s2: "InsertRange E c (S\<lparr>object_mem := m\<rparr>) (hd ?u) (last ?u) b = Some S2" "ok S2 (Out(c := Out c - set ?u))"
        "\<forall>y\<in>outs (sizemap S) A (Out(c := Out c - set ?u)). object_mem S2 y = object_mem S y" "sizemap S2 = sizemap S"
      and f2: "fl_ok (object_mem S2) b l1 (?v @ ys)" and x2: "fl_max_length l1 = fl_max_length l" "fl_overages l1 = fl_overages l"
      using release_chain [OF less.prems(1) c less.prems(2) [unfolded xs] u(2) sub] unfolding u(1,4) by blast
    have rest: "set (?v @ ys) \<subseteq> Out c - set ?u" using d less.prems(4) unfolding xs by auto
    have small: "length ?v < length xs" using u(1,2) by (cases xs) auto
    have e: "int (length xs) - b = int (length ?v)" using True b by simp
    obtain S' l' us vs where r: "release_batches E c b S2 l1 (int (length ?v)) = Some (S', l', int (length vs))" "?v = us @ vs" "vs \<noteq> []"
      "ok S' (Out(c := Out c - set ?u - set us))" "fl_ok (object_mem S') b l' (vs @ ys)" "sizemap S' = sizemap S"
      and x3: "fl_max_length l' = fl_max_length l1" "fl_overages l' = fl_overages l1"
      and r7: "\<forall>y\<in>outs (sizemap S) A (Out(c := Out c - set ?u - set us)). object_mem S' y = object_mem S2 y"
      using less.hyps [OF small s2(2) f2 u(3)] rest unfolding fun_upd_same fun_upd_upd s2(4) by blast
    have o: "Out c - set ?u - set us = Out c - set (?u @ us)" by auto
    have run: "release_batches E c b S l (int (length xs)) = Some (S', l', int (length vs))"
      using True p s2(1) r(1) by (simp add: release_batches.simps [of E c b S l] e)
    have sub2: "outs (sizemap S) A (Out(c := Out c - set (?u @ us))) \<subseteq> outs (sizemap S) A (Out(c := Out c - set ?u))" by (rule outs_mono) auto
    have mem: "\<forall>y\<in>outs (sizemap S) A (Out(c := Out c - set (?u @ us))). object_mem S' y = object_mem S y"
    proof
      fix y assume y: "y \<in> outs (sizemap S) A (Out(c := Out c - set (?u @ us)))"
      have "object_mem S' y = object_mem S2 y" using r7 y unfolding o by (rule bspec)
      also have "\<dots> = object_mem S y" using s2(3) subsetD [OF sub2 y] by (rule bspec)
      finally show "object_mem S' y = object_mem S y" .
    qed
    have "?u @ ?v = xs" by simp
    then have "xs = (?u @ us) @ vs" unfolding r(2) append_assoc by (rule sym)
    moreover note r(6)
    moreover have "fl_max_length l' = fl_max_length l" "fl_overages l' = fl_overages l" using x2 x3 by simp_all
    moreover note run r(3,5) r(4) [unfolded o] mem
    ultimately show ?thesis by blast
  qed
qed

section \<open>The operations\<close>

lemma ReleaseToCentralCache_ok:
  assumes S: "ok S Out" and K: "cache_ok B (sizemap S) (object_mem S) C fl" and o: "owned Out fl" and c: "c < kNumClasses"
    and N: "0 < N" "N < 2 ^ 31" and ne: "fl c \<noteq> []"
  shows "\<exists>S' C'. ReleaseToCentralCache E c N (S, C) = Some (S', C') \<and>
    release_post B S C Out fl S' C' (fl(c := drop (nat N) (fl c))) \<and>
    fl_max_length (tc_lists C' c) = fl_max_length (tc_lists C c) \<and> fl_overages (tc_lists C' c) = fl_overages (tc_lists C c)"
proof -
  let ?sm = "sizemap S" and ?l = "tc_lists C c" and ?b = "num_objects_to_move (sizemap S) c" and ?sz = "of_nat (class_to_size (sizemap S) c) :: 64 word"
  define xs where "xs = take (nat N) (fl c)"
  define ys where "ys = drop (nat N) (fl c)"
  have l: "fl_ok (object_mem S) ?b ?l (xs @ ys)" using cache_okD(1) [OF K c] by (simp add: xs_def ys_def)
  have fl: "fl c = xs @ ys" by (simp add: xs_def ys_def)
  have nx: "xs \<noteq> []" using ne N(1) by (cases "fl c") (simp_all add: xs_def take_Cons' )
  have oc: "set (xs @ ys) \<subseteq> Out c" using o unfolding owned_def fl [symmetric] by blast
  have b: "0 < ?b" using batch_size [OF S owned_class [OF S o c ne] c] by blast
  have len: "unat (fl_length ?l) = length (fl c)" using fl_okD(2) [OF l] fl by simp
  have lx: "length xs = min (length (fl c)) (nat N)" by (simp add: xs_def)
  have N': "(if to_size_t N > unat (fl_length ?l) then int (unat (fl_length ?l)) else N) = int (length xs)"
    unfolding len lx to_size_t_nonneg [OF less_imp_le [OF N(1)] N(2)] using N(1) by (simp add: min_def)
  obtain S1 l1 us vs where r: "release_batches E c ?b S ?l (int (length xs)) = Some (S1, l1, int (length vs))" "xs = us @ vs" "vs \<noteq> []"
    "ok S1 (Out(c := Out c - set us))" "fl_ok (object_mem S1) ?b l1 (vs @ ys)" "sizemap S1 = ?sm"
    "fl_max_length l1 = fl_max_length ?l" "fl_overages l1 = fl_overages ?l"
    "\<forall>y\<in>outs (sizemap S) A (Out(c := Out c - set us)). object_mem S1 y = object_mem S y"
    using release_batches_ok [OF S c b l nx oc] by blast
  have d: "distinct (xs @ ys)" using fl_okD(8) [OF l] .
  have "set (vs @ ys) \<subseteq> (Out(c := Out c - set us)) c" using d oc unfolding r(2) by auto
  from release_chain [OF r(4) c r(5,3) this] obtain m S2 l2 where
    2: "FL_PopRange (object_mem S1) l1 (length vs) = Some (m, l2, hd vs, last vs)"
    "InsertRange E c (S1\<lparr>object_mem := m\<rparr>) (hd vs) (last vs) (int (length vs)) = Some S2" "ok S2 (Out(c := Out c - set us - set vs))"
    "fl_ok (object_mem S2) ?b l2 ys" "sizemap S2 = sizemap S" "fl_max_length l2 = fl_max_length l1" "fl_overages l2 = fl_overages l1"
    "\<forall>y\<in>outs (sizemap S) A (Out(c := Out c - set us - set vs)). object_mem S2 y = object_mem S1 y"
    unfolding fun_upd_same fun_upd_upd r(6) by blast
  have oe: "Out(c := Out c - set us - set vs) = released Out fl (fl(c := ys))"
    using released_one [where Out = Out and fl = fl, OF d fl] unfolding r(2) set_append Diff_eq Compl_Un Int_assoc .
  let ?C = "C\<lparr>tc_lists := (tc_lists C)(c := l2), tc_size := tc_size C - of_int (int (length xs)) * ?sz\<rparr>"
  have mem: "\<forall>y\<in>outs (sizemap S) A (released Out fl (fl(c := ys))). object_mem S2 y = object_mem S y"
  proof
    fix y assume y: "y \<in> outs (sizemap S) A (released Out fl (fl(c := ys)))"
    then have "y \<in> outs (sizemap S) A (Out(c := Out c - set us))" unfolding oe [symmetric] by (rule subsetD [OF outs_mono, rotated]) auto
    then show "object_mem S2 y = object_mem S y" using y 2(8) r(9) unfolding oe by simp
  qed
  have "cache_ok B ?sm (object_mem S2) ?C (fl(c := ys))"
  proof (rule cache_ok_list [OF K c 2(4)])
    show "length ys \<le> B" using cache_okD(2) [OF K c] fl by simp
    fix k x assume k: "k < kNumClasses" "k \<noteq> c" "x \<in> set (fl k)"
    then have "x \<in> released Out fl (fl(c := ys)) k" using o by (auto simp: released_def owned_def)
    then show "object_mem S2 x = object_mem S x" using mem outsI [OF k(1)] by blast
  qed (simp add: fl algebra_simps)
  moreover have "set ((fl(c := ys)) k) \<subseteq> set (fl k) \<and> length ((fl(c := ys)) k) \<le> length (fl k)" for k using fl by simp
  ultimately have "release_post B S C Out fl S2 ?C (fl(c := ys))"
    using 2(3,5) r(6) mem unfolding oe release_post_def by simp
  moreover have "ReleaseToCentralCache E c N (S, C) = Some (S2, ?C)"
    unfolding ReleaseToCentralCache_def Let_def prod.case N' using r(1) 2(1,2) by simp
  ultimately show ?thesis using r(7,8) 2(6,7) unfolding ys_def by auto
qed

lemma ListTooLong_ok:
  assumes S: "ok S Out" and K: "cache_ok B (sizemap S) (object_mem S) C fl" and o: "owned Out fl" and c: "c < kNumClasses"
    and ne: "fl c \<noteq> []"
  shows "\<exists>S' C'. ListTooLong E c (S, C) = Some (S', C') \<and>
    release_post B S C Out fl S' C' (fl(c := drop (nat (num_objects_to_move (sizemap S) c)) (fl c)))"
proof -
  let ?b = "num_objects_to_move (sizemap S) c"
  have b: "0 < ?b" "?b \<le> 4096" using batch_size [OF S owned_class [OF S o c ne] c] by blast+
  let ?fl = "fl(c := drop (nat ?b) (fl c))"
  have bs: "?b < 2 ^ 31" "to_size_t ?b = nat ?b" using b by (simp_all add: to_size_t_nonneg)
  obtain S' C1 where r: "ReleaseToCentralCache E c ?b (S, C) = Some (S', C1)" "release_post B S C Out fl S' C1 ?fl"
    using ReleaseToCentralCache_ok [OF S K o c b(1) bs(1) ne] by blast
  note D = release_postD [OF r(2)]
  let ?l = "tc_lists C1 c" and ?mx = "unat (fl_max_length (tc_lists C1 c))"
  have l: "fl_ok (object_mem S') ?b ?l (?fl c)" by (rule cache_okD(1) [OF D(2) c])
  have post: "release_post B S C Out fl S' (upd_fl C1 c f) ?fl" if "fl_ok (object_mem S') ?b (f ?l) (?fl c)" for f
    using r(2) cache_ok_limits [where f = f, OF D(2) c] that unfolding release_post_def by simp
  let ?run = "ListTooLong E c (S, C)"
  consider "?mx < nat ?b" | "?mx = nat ?b" | "nat ?b < ?mx" by linarith
  then show ?thesis
  proof cases
    case 1
    then have "?run = Some (S', upd_fl C1 c (set_max_length (int ?mx + 1)))" using r(1) bs(2) by (simp add: ListTooLong_def)
    moreover have "fl_ok (object_mem S') ?b (set_max_length (int ?mx + 1) ?l) (?fl c)"
      by (rule grow_one_ok [OF l b 1])
    ultimately show ?thesis using post by blast
  next
    case 2
    then have "?run = Some (S', C1)" using r(1) bs(2) by (simp add: ListTooLong_def)
    then show ?thesis using r(2) by blast
  next
    case 3
    have u: "unat (fl_overages ?l + 1) = unat (fl_overages ?l) + 1" using fl_okD(6) [OF l] by (rule unat_inc16)
    let ?f = "\<lambda>l. l\<lparr>fl_overages := fl_overages l + 1\<rparr>"
    show ?thesis
    proof (cases "unat (fl_overages ?l) + 1 > kMaxOverages")
      case True
      let ?g = "\<lambda>l. (set_max_length (int ?mx - ?b) (?f l))\<lparr>fl_overages := 0\<rparr>"
      have "upd_fl (upd_fl C1 c ?f) c (\<lambda>l. (set_max_length (int ?mx - ?b) l)\<lparr>fl_overages := 0\<rparr>) = upd_fl C1 c ?g"
        by (simp add: upd_fl_def)
      then have run: "?run = Some (S', upd_fl C1 c ?g)"
        using 3 True r(1) bs(2) u by (simp add: ListTooLong_def upd_fl_def Let_def)
      have "?g ?l = (set_max_length (int ?mx - ?b) ?l)\<lparr>fl_overages := 0\<rparr>" by (simp add: set_max_length_def)
      moreover have "?b < int ?mx" using 3 b(1) by linarith
      from overages_ok [OF shrink_max_length_ok [OF l b(1) this], of 0]
      have "fl_ok (object_mem S') ?b ((set_max_length (int ?mx - ?b) ?l)\<lparr>fl_overages := 0\<rparr>) (?fl c)" by simp
      ultimately have "fl_ok (object_mem S') ?b (?g ?l) (?fl c)" by (simp only:)
      with run post [where f = ?g] show ?thesis by blast
    next
      case False
      then have "?run = Some (S', upd_fl C1 c ?f)"
        using 3 r(1) bs(2) u by (simp add: ListTooLong_def upd_fl_def Let_def)
      moreover have "fl_ok (object_mem S') ?b (?f ?l) (?fl c)"
        by (rule overages_ok [OF l]) (use False u in \<open>simp add: kMaxOverages_def\<close>)
      ultimately show ?thesis using post [where f = ?f] by blast
    qed
  qed
qed

text \<open>A loop over the classes is a sequence of such operations.\<close>

lemma release_post_next:
  assumes P: "release_post B S C Out fl S1 C1 fl1" and o: "owned Out fl"
  shows "ok S1 (released Out fl fl1)" "cache_ok B (sizemap S1) (object_mem S1) C1 fl1" "owned (released Out fl fl1) fl1"
  using release_postD(1,2,3) [OF P] owned_released [OF o release_postD(5) [OF P]] by simp_all

lemma Cleanup_loop_ok:
  assumes "ok S Out" "cache_ok B (sizemap S) (object_mem S) C fl" "owned Out fl" "c + k \<le> kNumClasses" "B < 2 ^ 31"
  shows "\<exists>S' C' fl'. Cleanup_loop E c k (S, C) = Some (S', C') \<and> release_post B S C Out fl S' C' fl' \<and>
    (\<forall>i. fl' i = (if c \<le> i \<and> i < c + k then [] else fl i))"
  using assms
proof (induction k arbitrary: c S C Out fl)
  case 0
  then show ?case using release_post_refl by (intro exI [of _ S] exI [of _ C] exI [of _ fl]) auto
next
  case (Suc k)
  have c: "c < kNumClasses" using Suc.prems(4) by simp
  have len: "unat (fl_length (tc_lists C c)) = length (fl c)" using fl_okD(2) [OF cache_okD(1) [OF Suc.prems(2) c]] .
  obtain S1 C1 where 1: "(if length (fl c) > 0 then ReleaseToCentralCache E c (int (length (fl c))) (S, C) else Some (S, C)) = Some (S1, C1)"
    "release_post B S C Out fl S1 C1 (fl(c := []))"
  proof (cases "fl c = []")
    case True
    then have "fl(c := []) = fl" by auto
    with that True release_post_refl [OF Suc.prems(1,2)] show ?thesis by simp
  next
    case False
    have n: "0 < int (length (fl c))" "int (length (fl c)) < 2 ^ 31"
      using False cache_okD(2) [OF Suc.prems(2) c] Suc.prems(5) by auto
    from ReleaseToCentralCache_ok [OF Suc.prems(1-3) c n False] that False show ?thesis by auto
  qed
  note N = release_post_next [OF 1(2) Suc.prems(3)]
  have "Suc c + k \<le> kNumClasses" using Suc.prems(4) by simp
  from Suc.IH [OF N this Suc.prems(5)] obtain S2 C2 fl2 where 2: "Cleanup_loop E (Suc c) k (S1, C1) = Some (S2, C2)"
    "release_post B S1 C1 (released Out fl (fl(c := []))) (fl(c := [])) S2 C2 fl2"
    "\<forall>i. fl2 i = (if Suc c \<le> i \<and> i < Suc c + k then [] else (fl(c := [])) i)" by blast
  have "Cleanup_loop E c (Suc k) (S, C) = Some (S2, C2)" using 1(1) 2(1) len by (cases "fl c = []") (simp_all add: Let_def)
  moreover have "\<forall>i. fl2 i = (if c \<le> i \<and> i < c + Suc k then [] else fl i)" using 2(3) by (auto split: if_splits)
  ultimately show ?case using release_post_trans [OF 1(2) 2(2)] by blast
qed

lemma scavenge_list_ok:
  assumes S: "ok S Out" and K: "cache_ok B (sizemap S) (object_mem S) C fl" and o: "owned Out fl" and c: "c < kNumClasses"
  shows "\<exists>S' C' fl'. scavenge_list E c (S, C) = Some (S', C') \<and> release_post B S C Out fl S' C' fl'"
proof -
  let ?l = "tc_lists C c" and ?b = "num_objects_to_move (sizemap S) c"
  have low: "unat (fl_lowater ?l) \<le> length (fl c)" using fl_okD(2,3) [OF cache_okD(1) [OF K c]] by (simp add: word_le_nat_alt)
  have mark: "release_post B S C Out fl S' (upd_fl C' c clear_lowwatermark) fl'" if "release_post B S C Out fl S' C' fl'" for S' C' fl'
  proof -
    have "fl_ok (object_mem S') ?b (clear_lowwatermark (tc_lists C' c)) (fl' c)"
      using cache_okD(1) [OF release_postD(2) [OF that] c] by (simp add: fl_ok_def clear_lowwatermark_def)
    with that cache_ok_limits [where f = clear_lowwatermark, OF release_postD(2) [OF that] c] show ?thesis unfolding release_post_def by simp
  qed
  show ?thesis
  proof (cases "unat (fl_lowater ?l) > 0")
    case False
    then have "scavenge_list E c (S, C) = Some (S, upd_fl C c clear_lowwatermark)" by (simp add: scavenge_list_def)
    with mark [OF release_post_refl [OF S K]] show ?thesis by blast
  next
    case True
    define dr where "dr = (if unat (fl_lowater ?l) > 1 then int (unat (fl_lowater ?l) div 2) else 1)"
    have ne: "fl c \<noteq> []" using True low by auto
    have b: "0 < ?b" "?b \<le> 4096" using batch_size [OF S owned_class [OF S o c ne] c] by blast+
    have "unat (fl_lowater ?l) < 2 ^ 16" using unsigned_less [of "fl_lowater ?l", where ?'a = nat] by simp
    then have d: "0 < dr" "dr < 2 ^ 31" by (auto simp: dr_def)
    let ?fl = "fl(c := drop (nat dr) (fl c))"
    obtain S' C1 where r: "ReleaseToCentralCache E c dr (S, C) = Some (S', C1)" "release_post B S C Out fl S' C1 ?fl"
      using ReleaseToCentralCache_ok [OF S K o c d ne] by blast
    let ?l1 = "tc_lists C1 c" and ?mx = "unat (fl_max_length (tc_lists C1 c))"
    have l: "fl_ok (object_mem S') ?b ?l1 (?fl c)" by (rule cache_okD(1) [OF release_postD(2) [OF r(2)] c])
    have sm: "sizemap S' = sizemap S" by (rule release_postD(3) [OF r(2)])
    have bs: "to_size_t ?b = nat ?b" using b by (simp add: to_size_t_nonneg)
    let ?f = "set_max_length (max (int ?mx - ?b) ?b)"
    let ?C = "if ?mx > nat ?b then upd_fl C1 c ?f else C1"
    have "release_post B S C Out fl S' ?C ?fl"
    proof (cases "?mx > nat ?b")
      case True
      then have gt: "?b < int ?mx" by linarith
      have dvd: "?b dvd int ?mx" using max_length_dvd [OF l b(1)] gt by simp
      have "max (int ?mx - ?b) ?b = int ?mx - ?b" using dvd_above [OF dvd gt b(1)] by simp
      then have "fl_ok (object_mem S') ?b (?f ?l1) (?fl c)" using shrink_max_length_ok [OF l b(1) gt] by simp
      with r(2) cache_ok_limits [where f = ?f, OF release_postD(2) [OF r(2)] c] True show ?thesis unfolding release_post_def by simp
    qed (use r(2) in simp)
    moreover have "scavenge_list E c (S, C) = Some (S', upd_fl ?C c clear_lowwatermark)"
      using True r(1) [unfolded dr_def] sm bs by (cases "unat (fl_lowater ?l) > 1") (simp_all add: scavenge_list_def Let_def)
    ultimately show ?thesis using mark by blast
  qed
qed

lemma Scavenge_loop_ok:
  assumes "ok S Out" "cache_ok B (sizemap S) (object_mem S) C fl" "owned Out fl" "c + k \<le> kNumClasses"
  shows "\<exists>S' C' fl'. Scavenge_loop E c k (S, C) = Some (S', C') \<and> release_post B S C Out fl S' C' fl'"
  using assms
proof (induction k arbitrary: c S C Out fl)
  case 0
  from release_post_refl [OF 0(1,2)] show ?case unfolding Scavenge_loop.simps by blast
next
  case (Suc k)
  have c: "c < kNumClasses" "Suc c + k \<le> kNumClasses" using Suc.prems(4) by simp_all
  obtain S1 C1 fl1 where 1: "scavenge_list E c (S, C) = Some (S1, C1)" "release_post B S C Out fl S1 C1 fl1"
    using scavenge_list_ok [OF Suc.prems(1-3) c(1)] by blast
  from Suc.IH [OF release_post_next [OF 1(2) Suc.prems(3)] c(2)] obtain S2 C2 fl2 where
    2: "Scavenge_loop E (Suc c) k (S1, C1) = Some (S2, C2)" "release_post B S1 C1 (released Out fl fl1) fl1 S2 C2 fl2" by blast
  then show ?case using 1(1) release_post_trans [OF 1(2) 2(2)] by auto
qed

end

end
