(* ===== verification/Thread_Alloc.thy ===== *)
theory Thread_Alloc
  imports Thread_Release
begin

text \<open>
  \<open>Allocate\<close> and the first half of \<open>Deallocate\<close>: the objects that the caches do not hold gain exactly the
  object that \<open>Allocate\<close> returns, and lose exactly the object that goes back to a list.
\<close>

section \<open>The maximal length\<close>

lemma c_mod_nonneg: "0 \<le> a \<Longrightarrow> 0 < b \<Longrightarrow> c_mod a b = a mod b"
  by (cases "a = 0") (simp_all add: c_mod_def c_div_def minus_mult_div_eq_mod)

lemma to_int32_sum: "m + n < 2 ^ 31 \<Longrightarrow> to_int32 (m + n) = int m + int n"
  using to_int32_small [of "m + n"] by simp

lemma grow_max_length_ok:
  assumes l: "fl_ok m b l xs" and b: "0 < b" "b \<le> 4096"
  shows "\<exists>l'. grow_max_length b l = Some l' \<and> fl_ok m b l' xs \<and> fl_list l' = fl_list l \<and> fl_length l' = fl_length l"
proof -
  let ?mx = "unat (fl_max_length l)"
  have bs: "to_size_t b = nat b" using b by (simp add: to_size_t_def)
  show ?thesis
  proof (cases "?mx < nat b")
    case True
    then show ?thesis using grow_one_ok [OF l b True] bs by (simp add: grow_max_length_def set_max_length_def)
  next
    case False
    define n where "n = min (int ?mx + b) 8192"
    have n: "b \<le> n" "n \<le> 8192" using b False by (auto simp: n_def)
    have "nat b \<le> 4096" using b by simp
    then have small: "?mx + nat b < 2 ^ 31" using fl_okD(5) [OF l] by simp
    have "int ?mx + int (nat b) = int ?mx + b" using b by simp
    then have nl: "min (to_int32 (?mx + to_size_t b)) kMaxDynamicFreeListLength = n"
      unfolding bs to_int32_sum [OF small] n_def kMaxDynamicFreeListLength_def by simp
    have m: "c_mod n b = n mod b" using n b by (intro c_mod_nonneg) auto
    have d: "b dvd n - n mod b" by (simp add: minus_mod_eq_mult_div)
    have p: "b \<le> n - n mod b"
    proof -
      have "1 \<le> n div b" using n(1) b(1) by (simp add: pos_imp_zdiv_pos_iff int_one_le_iff_zero_less)
      then have "b * 1 \<le> b * (n div b)" using b(1) by (intro mult_left_mono) simp_all
      then show ?thesis by (simp add: minus_mod_eq_mult_div)
    qed
    have "n - n mod b \<le> n" using b(1) by simp
    then have up: "n - n mod b \<le> 8192" using n(2) by linarith
    have z: "c_mod (n - n mod b) b = 0" using p b d by (subst c_mod_nonneg) auto
    have "grow_max_length b l = Some (set_max_length (n - n mod b) l)"
      using False b z unfolding grow_max_length_def Let_def nl m by (simp add: bs)
    moreover have "fl_ok m b (set_max_length (n - n mod b) l) xs"
      by (rule set_max_length_ok [OF l]) (use p b up d in auto)
    ultimately show ?thesis by (simp add: set_max_length_def)
  qed
qed

section \<open>Allocation\<close>

definition kept :: "(nat \<Rightarrow> addr set) \<Rightarrow> (nat \<Rightarrow> addr list) \<Rightarrow> nat \<Rightarrow> addr set" where
  "kept Out fl c = Out c - set (fl c)"

lemma FL_PushRange_ok:
  assumes l: "fl_ok m b l []" and xs: "sll m p xs" "xs \<noteq> [] \<longrightarrow> tail = last xs" and n: "length xs \<le> 8192" "N = int (length xs)"
  shows "\<exists>m' l'. FL_PushRange m l N p tail = Some (m', l') \<and> fl_ok m' b l' xs \<and> (\<forall>a. a \<notin> set xs \<longrightarrow> m' a = m a)"
proof -
  have h: "fl_list l = 0" "unat (fl_length l) = 0" "fl_lowater l \<le> fl_length l" using fl_okD(1) [OF l] fl_okD(2,3) [OF l] by simp_all
  then have z: "fl_length l = 0" "fl_lowater l = 0" by (simp_all add: unat_eq_0 word_le_0_iff)
  have u: "unat (of_nat (length xs) :: 16 word) = length xs" using n(1) by (simp add: unat_of_nat)
  show ?thesis
  proof (cases "xs = []")
    case True
    then have "FL_PushRange m l N p tail = Some (m, l)" using xs(1) h(1) n(2) by (simp add: FL_PushRange_def SLL_PushRange_def)
    then show ?thesis using l True by auto
  next
    case False
    obtain m' where m': "SLL_PushRange m 0 p tail = Some (m', p)" "sll m' p (xs @ [])" "\<forall>a. a \<noteq> tail \<longrightarrow> m' a = m a"
      using SLL_PushRange_sll [of m 0 "[]" p xs tail] xs False by auto
    let ?l = "l\<lparr>fl_list := p, fl_length := fl_length l + of_int N\<rparr>"
    have "FL_PushRange m l N p tail = Some (m', ?l)" using m'(1) h(1) by (simp add: FL_PushRange_def)
    moreover have "fl_ok m' b ?l xs" using l m'(2) u z n(2) by (simp add: fl_ok_def word_le_nat_alt)
    moreover have "m' a = m a" if "a \<notin> set xs" for a
      using m'(3) xs(2) False last_in_set [OF False] that by (cases "a = tail") auto
    ultimately show ?thesis by blast
  qed
qed

context object_supply
begin

text \<open>An allocation of class \<open>c\<close> that returns \<open>p\<close>.\<close>

definition alloc_post :: "nat \<Rightarrow> 'os central \<Rightarrow> ThreadCache \<Rightarrow> (nat \<Rightarrow> addr set) \<Rightarrow> (nat \<Rightarrow> addr list) \<Rightarrow>
    addr \<Rightarrow> 'os central \<Rightarrow> ThreadCache \<Rightarrow> (nat \<Rightarrow> addr set) \<Rightarrow> (nat \<Rightarrow> addr list) \<Rightarrow> bool" where
  "alloc_post c S C Out fl p S' C' Out' fl' = (ok S' Out' \<and> cache_ok 8192 (sizemap S) (object_mem S') C' fl' \<and> owned Out' fl' \<and>
     sizemap S' = sizemap S \<and> same_cache C C' \<and> (\<forall>k. k \<noteq> c \<longrightarrow> Out' k = Out k \<and> fl' k = fl k) \<and>
     (p \<noteq> 0 \<longrightarrow> p \<notin> kept Out fl c) \<and> kept Out' fl' c = kept Out fl c \<union> ({p} - {0}) \<and>
     set (fl' c) \<inter> kept Out fl c = {} \<and> (\<forall>y\<in>outs (sizemap S) A Out. object_mem S' y = object_mem S y))"

lemma owned_upd: "owned Out fl \<Longrightarrow> Out c \<subseteq> X \<Longrightarrow> set xs \<subseteq> X \<Longrightarrow> owned (Out(c := X)) (fl(c := xs))"
  by (simp add: owned_def)

lemma FetchFromCentralCache_ok:
  assumes S: "ok S Out" and K: "cache_ok 8192 (sizemap S) (object_mem S) C fl" and o: "owned Out fl"
    and c: "c < kNumClasses" "0 < c" and e: "fl c = []"
  shows "\<exists>r. FetchFromCentralCache E c (class_to_size (sizemap S) c) (S, C) = Some r \<and>
    (\<forall>p S' C'. r = Ret (p, S', C') \<longrightarrow> (\<exists>Out' fl'. alloc_post c S C Out fl p S' C' Out' fl'))"
proof -
  let ?b = "num_objects_to_move (sizemap S) c" and ?l = "tc_lists C c" and ?sz = "class_to_size (sizemap S) c"
  let ?n = "min (int (unat (fl_max_length ?l))) ?b"
  have b: "0 < ?b" "?b \<le> 4096" using batch_size [OF S c(2,1)] by blast+
  have l: "fl_ok (object_mem S) ?b ?l []" using cache_okD(1) [OF K c(1)] unfolding e .
  have n: "0 < ?n" "?n \<le> 8192" using fl_okD(4,5) [OF l] b by linarith+
  have h: "FL_empty ?l" using fl_okD(1) [OF l] by (simp add: FL_empty_def)
  obtain r where r: "RemoveRange E c S ?n = Some r" "\<And>n start tail S1. r = Ret (n, start, tail, S1) \<Longrightarrow>
      \<exists>xs. n = int (length xs) \<and> n \<le> ?n \<and> sll (object_mem S1) start xs \<and> (xs \<noteq> [] \<longrightarrow> tail = last xs) \<and>
        set xs \<inter> outs (sizemap S) A Out = {} \<and> ok S1 (Out(c := Out c \<union> set xs)) \<and> sizemap S1 = sizemap S \<and>
        (\<forall>y\<in>outs (sizemap S) A Out. object_mem S1 y = object_mem S y)"
    using take [OF S c n(1)] by blast
  show ?thesis
  proof (cases r)
    case OutOfMemory
    then show ?thesis using r(1) h by (simp add: FetchFromCentralCache_def Let_def)
  next
    case (Ret x)
    obtain k start tail S1 where x: "x = (k, start, tail, S1)" by (cases x) auto
    obtain xs where X: "k = int (length xs)" "k \<le> ?n" "sll (object_mem S1) start xs" "xs \<noteq> [] \<longrightarrow> tail = last xs"
      "set xs \<inter> outs (sizemap S) A Out = {}" "ok S1 (Out(c := Out c \<union> set xs))" "sizemap S1 = sizemap S" "\<forall>y\<in>outs (sizemap S) A Out. object_mem S1 y = object_mem S y"
      using r(2) Ret x by blast
    let ?Out = "Out(c := Out c \<union> set xs)"
    have fr: "object_mem S1 x = object_mem S x" if "k < kNumClasses" "x \<in> set (fl k)" for k x
      using X(8) outsI [where Out = Out, OF that(1)] ownedD [OF o that(2)] by blast
    have K1: "cache_ok 8192 (sizemap S) (object_mem S1) C fl" by (rule cache_ok_frame [OF K]) (use fr in blast)
    show ?thesis
    proof (cases xs)
      case Nil
      have z: "start = 0" "k = 0" using X(1,3) Nil by simp_all
      obtain l' where l': "grow_max_length ?b ?l = Some l'" "fl_ok (object_mem S1) ?b l' []"
        using grow_max_length_ok [OF cache_okD(1) [OF K1 c(1), unfolded e] b] by blast
      have "FetchFromCentralCache E c ?sz (S, C) = Some (Ret (0, S1, upd_fl C c (\<lambda>_. l')))"
        using r(1) Ret x z h l'(1) by (simp add: FetchFromCentralCache_def Let_def)
      moreover have "cache_ok 8192 (sizemap S) (object_mem S1) (upd_fl C c (\<lambda>_. l')) fl"
        using cache_ok_limits [where f = "\<lambda>_. l'", OF K1 c(1)] l'(2) e by simp
      then have "alloc_post c S C Out fl 0 S1 (upd_fl C c (\<lambda>_. l')) Out fl"
        using X(6-8) Nil o by (auto simp: alloc_post_def kept_def e)
      ultimately show ?thesis by auto
    next
      case (Cons p ys)
      have p: "start = p" "p \<noteq> 0" "sll (object_mem S1) (object_mem S1 p) ys" "SLL_Next (object_mem S1) p = Some (object_mem S1 p)"
        using X(3) Cons by (auto simp: SLL_Next_def)
      have d: "p \<notin> set ys" using sll_distinct [OF X(3)] Cons by simp
      have len: "k - 1 = int (length ys)" "length ys \<le> 8192" using X(1,2) n(2) Cons by auto
      have ty: "ys \<noteq> [] \<longrightarrow> tail = last ys" using X(4) Cons by simp
      have l1: "fl_ok (object_mem S1) ?b ?l []" using cache_okD(1) [OF K1 c(1)] unfolding e .
      obtain m l2 where m: "FL_PushRange (object_mem S1) ?l (k - 1) (object_mem S1 p) tail = Some (m, l2)"
        "fl_ok m ?b l2 ys" "\<forall>a. a \<notin> set ys \<longrightarrow> m a = object_mem S1 a"
        using FL_PushRange_ok [OF l1 p(3) ty len(2,1)] by blast
      obtain l' where l': "grow_max_length ?b l2 = Some l'" "fl_ok m ?b l' ys"
        using grow_max_length_ok [OF m(2) b] by blast
      let ?S = "S1\<lparr>object_mem := m\<rparr>"
      let ?w = "tc_size C + of_nat ?sz * of_int (k - 1)"
      let ?C = "C\<lparr>tc_lists := (tc_lists C)(c := l'), tc_size := ?w\<rparr>"
      have "FetchFromCentralCache E c ?sz (S, C) = Some (Ret (p, ?S, ?C))"
        using r(1) Ret x h p(1,2,4) m(1) l'(1) len(1) X(1) Cons
        by (simp add: FetchFromCentralCache_def Let_def upd_fl_def)
      moreover have S2: "ok ?S ?Out"
      proof (rule store [OF X(6)])
        fix y assume y: "y \<notin> outs (sizemap S1) A ?Out"
        have "y \<notin> set ys" using y outsI [where Out = ?Out, OF c(1), of y] Cons by auto
        then show "m y = object_mem S1 y" using m(3) by blast
      qed
      moreover have mo: "m y = object_mem S1 y" if "y \<in> outs (sizemap S) A Out" for y using m(3) X(5) that Cons by auto
      have "cache_ok 8192 (sizemap S) m ?C (fl(c := ys))"
      proof (rule cache_ok_list [OF K1 c(1) l'(2) len(2)])
        fix i x assume "i < kNumClasses" "x \<in> set (fl i)"
        then have "x \<in> outs (sizemap S) A Out" using o outsI [where Out = Out and c = i and x = x] unfolding owned_def by blast
        then show "m x = object_mem S1 x" by (rule mo)
      qed (use len(1) in \<open>simp add: e mult.commute\<close>)
      moreover have "set xs \<inter> Out c = {}" using X(5) outsI [OF c(1), where Out = Out] by blast
      ultimately have "alloc_post c S C Out fl p ?S ?C ?Out (fl(c := ys))"
        using X(7,8) mo o d p(2) Cons by (auto simp: alloc_post_def kept_def e owned_def)
      then show ?thesis using \<open>FetchFromCentralCache E c ?sz (S, C) = Some (Ret (p, ?S, ?C))\<close> by auto
    qed
  qed
qed

lemma Allocate_ok:
  assumes S: "ok S Out" and K: "cache_ok 8192 (sizemap S) (object_mem S) C fl" and o: "owned Out fl"
    and c: "c < kNumClasses" "0 < c"
  shows "\<exists>r. Allocate E (class_to_size (sizemap S) c) c (S, C) = Some r \<and>
    (\<forall>p S' C'. r = Ret (p, S', C') \<longrightarrow> (\<exists>Out' fl'. alloc_post c S C Out fl p S' C' Out' fl'))"
proof -
  let ?l = "tc_lists C c" and ?sz = "class_to_size (sizemap S) c"
  have sz: "?sz \<le> kMaxSize" using object_size [OF S c(2,1)] .
  have l: "fl_ok (object_mem S) (num_objects_to_move (sizemap S) c) ?l (fl c)" using cache_okD(1) [OF K c(1)] .
  show ?thesis
  proof (cases "fl c = []")
    case True
    then have "FL_empty ?l" using fl_okD(1) [OF l] by (simp add: FL_empty_def)
    then have "Allocate E ?sz c (S, C) = FetchFromCentralCache E c ?sz (S, C)" using sz by (simp add: Allocate_def)
    with FetchFromCentralCache_ok [OF S K o c True] show ?thesis by simp
  next
    case False
    then obtain p ys where fl: "fl c = p # ys" by (cases "fl c") auto
    obtain l' where l': "FL_Pop (object_mem S) ?l = Some (p, l')" "fl_ok (object_mem S) (num_objects_to_move (sizemap S) c) l' ys"
      using FL_Pop_ok [OF l False] fl by auto
    have ne: "\<not> FL_empty ?l" using fl_okD(1) [OF l] fl by (auto simp: FL_empty_def)
    have d: "p \<notin> set ys" using fl_okD(8) [OF l] fl by simp
    have po: "p \<in> Out c" by (rule ownedD [OF o]) (simp add: fl)
    then have p0: "p \<noteq> 0" using held [OF S c(1)] by blast
    let ?C = "C\<lparr>tc_size := tc_size C - of_nat ?sz, tc_lists := (tc_lists C)(c := l')\<rparr>"
    have run: "Allocate E ?sz c (S, C) = Some (Ret (p, S, ?C))" using sz ne l'(1) by (simp add: Allocate_def)
    have "?C = C\<lparr>tc_lists := (tc_lists C)(c := l'), tc_size := tc_size C - of_nat ?sz\<rparr>" by simp
    moreover have "cache_ok 8192 (sizemap S) (object_mem S) \<dots> (fl(c := ys))"
      by (rule cache_ok_list [OF K c(1) l'(2)]) (use cache_okD(2) [OF K c(1)] fl in \<open>simp_all add: algebra_simps\<close>)
    ultimately have K': "cache_ok 8192 (sizemap S) (object_mem S) ?C (fl(c := ys))" by (simp only:)
    have "set ys \<subseteq> set (fl c)" using fl by auto
    then have own: "owned Out (fl(c := ys))" using o unfolding owned_def by auto
    have "kept Out (fl(c := ys)) c = kept Out fl c \<union> ({p} - {0})" "set ((fl(c := ys)) c) \<inter> kept Out fl c = {}" "p \<notin> kept Out fl c"
      using fl d po p0 by (auto simp: kept_def)
    then have "alloc_post c S C Out fl p S ?C Out (fl(c := ys))"
      using S K' own by (simp add: alloc_post_def same_cache_def)
    then show ?thesis using run by blast
  qed
qed

section \<open>Deallocation\<close>

lemma Deallocate_push_ok:
  assumes S: "ok S Out" and K: "cache_ok 8192 (sizemap S) (object_mem S) C fl" and o: "owned Out fl"
    and c: "c < kNumClasses" and p: "p \<in> kept Out fl c"
  shows "\<exists>S' C'. Deallocate_push c p (S, C) = Some (S', C') \<and> ok S' Out \<and> sizemap S' = sizemap S \<and> same_cache C C' \<and>
    cache_ok 8193 (sizemap S) (object_mem S') C' (fl(c := p # fl c)) \<and> owned Out (fl(c := p # fl c)) \<and>
    (\<forall>y. y \<noteq> p \<longrightarrow> object_mem S' y = object_mem S y)"
proof -
  let ?l = "tc_lists C c" and ?sz = "of_nat (class_to_size (sizemap S) c) :: 64 word"
  have l: "fl_ok (object_mem S) (num_objects_to_move (sizemap S) c) ?l (fl c)" using cache_okD(1) [OF K c] .
  have pp: "p \<in> Out c" "p \<notin> set (fl c)" using p by (simp_all add: kept_def)
  then have p0: "p \<noteq> 0" using held [OF S c] by blast
  have "fl_list ?l = hd (fl c) \<or> fl_list ?l = 0" using fl_okD(1) [OF l] by (cases "fl c") auto
  then have nx: "p \<noteq> FL_Next ?l" using pp(2) p0 fl_okD(1) [OF l] by (cases "fl c") (auto simp: FL_Next_def)
  have B: "length (fl c) < 2 ^ 15" using cache_okD(2) [OF K c] by simp
  obtain m l' where m: "FL_Push (object_mem S) ?l p = Some (m, l')" "fl_ok m (num_objects_to_move (sizemap S) c) l' (p # fl c)"
    "\<forall>a. a \<noteq> p \<longrightarrow> m a = object_mem S a"
    using FL_Push_ok [OF l p0 pp(2) B] by blast
  let ?C = "C\<lparr>tc_size := tc_size C + ?sz, tc_lists := (tc_lists C)(c := l')\<rparr>"
  have run: "Deallocate_push c p (S, C) = Some (S\<lparr>object_mem := m\<rparr>, ?C)"
    using nx m(1) by (simp add: Deallocate_push_def)
  have po: "p \<in> outs (sizemap S) A Out" using outsI [where Out = Out, OF c pp(1)] .
  have S': "ok (S\<lparr>object_mem := m\<rparr>) Out" by (rule store [OF S]) (use m(3) po in metis)
  have K': "cache_ok 8193 (sizemap S) (object_mem S) C fl"
    by (rule cache_ok_mono [OF K]) (use cache_okD(2) [OF K] le_SucI in fastforce)
  have e: "?C = C\<lparr>tc_lists := (tc_lists C)(c := l'), tc_size := tc_size C + ?sz\<rparr>" by simp
  have "cache_ok 8193 (sizemap S) m (C\<lparr>tc_lists := (tc_lists C)(c := l'), tc_size := tc_size C + ?sz\<rparr>) (fl(c := p # fl c))"
  proof (rule cache_ok_list [OF K' c m(2)])
    show "length (p # fl c) \<le> 8193" using cache_okD(2) [OF K c] by simp
    fix k x assume k: "k < kNumClasses" "k \<noteq> c" "x \<in> set (fl k)"
    then have "x \<in> Out k" using o by (auto simp: owned_def)
    then have "x \<noteq> p" using classes_apart [OF S c k(1)] k(2) pp(1) by blast
    then show "m x = object_mem S x" using m(3) by blast
  qed (simp add: algebra_simps)
  moreover have "owned Out (fl(c := p # fl c))" using o pp by (auto simp: owned_def)
  moreover have "same_cache C ?C" by (simp add: same_cache_def)
  ultimately show ?thesis using run S' m(3) unfolding e by auto
qed

end

end
