(* ===== verification/Thread_Budget.thy ===== *)
theory Thread_Budget
  imports Thread_Cache
begin

text \<open>
  The list of the thread caches and the budget they share. \<open>ring_ok\<close> is the shape of the list and of
  the pointer that goes round it; \<open>budget_ok\<close> says that the limits of the caches and the space not
  claimed by any add up to the overall size, and bounds how far the caches may overdraw it.
\<close>

section \<open>Signed words\<close>

lemma sint_add_small:
  assumes "- (2 ^ 63) \<le> sint (w :: 64 word) + k" "sint w + k < 2 ^ 63"
  shows "sint (w + of_int k) = sint w + k"
proof -
  have "sint (w + of_int k) = signed_take_bit 63 (sint w + signed_take_bit 63 k)"
    by (simp add: sint_word_ariths signed_of_int)
  also have "signed_take_bit 63 (sint w) = sint w"
    by (rule signed_take_bit_int_eq_self) (use sint_ge [of w] sint_less [of w] in simp_all)
  then have "signed_take_bit 63 (sint w + signed_take_bit 63 k) = signed_take_bit 63 (sint w + k)"
    using signed_take_bit_add [of 63 "sint w" k] by simp
  also have "\<dots> = sint w + k" by (rule signed_take_bit_int_eq_self) (use assms in simp_all)
  finally show ?thesis .
qed

lemma sint_sub_nat: "- (2 ^ 63) \<le> sint (w :: 64 word) - int k \<Longrightarrow> sint (w - of_nat k) = sint w - int k"
  using sint_add_small [of w "- int k"] sint_less [of w] by simp

section \<open>The list of caches\<close>

fun linked :: "(addr \<Rightarrow> ThreadCache) \<Rightarrow> addr \<Rightarrow> addr \<Rightarrow> addr list \<Rightarrow> bool" where
  "linked cs q p [] = (p = 0)"
| "linked cs q p (h # hs) = (p = h \<and> h \<noteq> 0 \<and> tc_prev (cs h) = q \<and> linked cs h (tc_next (cs h)) hs)"

lemma linked_cong: "(\<And>h. h \<in> set hs \<Longrightarrow> tc_next (cs' h) = tc_next (cs h) \<and> tc_prev (cs' h) = tc_prev (cs h)) \<Longrightarrow> linked cs' q p hs = linked cs q p hs"
  by (induction hs arbitrary: q p) auto

lemma linked_next: "linked cs q p hs \<Longrightarrow> h \<in> set hs \<Longrightarrow> tc_next (cs h) = 0 \<or> tc_next (cs h) \<in> set hs"
proof (induction hs arbitrary: q p)
  case (Cons a hs)
  then show ?case by (cases "h = a"; cases hs) auto
qed simp

lemma linked_head: "linked cs q p hs \<Longrightarrow> p = (case hs of [] \<Rightarrow> 0 | h # _ \<Rightarrow> h)"
  by (cases hs) auto

lemma linked_nonzero: "linked cs q p hs \<Longrightarrow> h \<in> set hs \<Longrightarrow> h \<noteq> 0"
  by (induction hs arbitrary: q p) auto

definition ring_ok :: "'os threads \<Rightarrow> addr list \<Rightarrow> bool" where
  "ring_ok T HS = (linked (caches T) 0 (thread_heaps T) HS \<and> distinct HS \<and> thread_heap_count T = int (length HS) \<and>
     (next_memory_steal T = 0 \<or> next_memory_steal T \<in> set HS))"

lemma ring_okD:
  assumes "ring_ok T HS"
  shows "linked (caches T) 0 (thread_heaps T) HS" "distinct HS" "thread_heap_count T = int (length HS)"
    "next_memory_steal T = 0 \<or> next_memory_steal T \<in> set HS"
    "thread_heaps T = 0 \<longleftrightarrow> HS = []" "HS \<noteq> [] \<Longrightarrow> thread_heaps T \<in> set HS"
    "h \<in> set HS \<Longrightarrow> h \<noteq> 0" "h \<in> set HS \<Longrightarrow> tc_next (caches T h) = 0 \<or> tc_next (caches T h) \<in> set HS"
proof -
  show l: "linked (caches T) 0 (thread_heaps T) HS" "distinct HS" "thread_heap_count T = int (length HS)"
    "next_memory_steal T = 0 \<or> next_memory_steal T \<in> set HS" using assms by (simp_all add: ring_ok_def)
  show "thread_heaps T = 0 \<longleftrightarrow> HS = []" "HS \<noteq> [] \<Longrightarrow> thread_heaps T \<in> set HS" using l(1) by (cases HS; auto)+
  show "h \<in> set HS \<Longrightarrow> h \<noteq> 0" using linked_nonzero [OF l(1)] by blast
  show "h \<in> set HS \<Longrightarrow> tc_next (caches T h) = 0 \<or> tc_next (caches T h) \<in> set HS" using linked_next [OF l(1)] by blast
qed

section \<open>The budget\<close>

text \<open>The limits of the caches in \<open>H\<close>.\<close>

definition limit_of :: "'os threads \<Rightarrow> addr \<Rightarrow> nat" where
  "limit_of T h = unat (tc_max_size (caches T h))"

definition budget_ok :: "'os threads \<Rightarrow> addr set \<Rightarrow> bool" where
  "budget_ok T H = (finite H \<and> int (\<Sum>h\<in>H. limit_of T h) + sint (unclaimed_cache_space T) = int (unat (overall_thread_cache_size T)) \<and>
     (\<forall>h\<in>H. kStealAmount dvd limit_of T h) \<and>
     (\<Sum>h\<in>H. limit_of T h - kMinThreadCacheSize) \<le> unat (overall_thread_cache_size T) + kStealAmount \<and>
     kMinThreadCacheSize \<le> unat (overall_thread_cache_size T) \<and> unat (overall_thread_cache_size T) \<le> 2 ^ 30)"

lemma budget_okD:
  assumes "budget_ok T H"
  shows "finite H" "int (\<Sum>h\<in>H. limit_of T h) + sint (unclaimed_cache_space T) = int (unat (overall_thread_cache_size T))"
    "h \<in> H \<Longrightarrow> kStealAmount dvd limit_of T h"
    "(\<Sum>h\<in>H. limit_of T h - kMinThreadCacheSize) \<le> unat (overall_thread_cache_size T) + kStealAmount"
    "kMinThreadCacheSize \<le> unat (overall_thread_cache_size T)" "unat (overall_thread_cache_size T) \<le> 2 ^ 30"
  using assms by (simp_all add: budget_ok_def)

text \<open>Limits are far from the end of a word.\<close>

lemma limit_small:
  assumes B: "budget_ok T H" and h: "h \<in> H"
  shows "limit_of T h < 2 ^ 63 + 2 ^ 31"
proof -
  have "limit_of T h \<le> (\<Sum>h\<in>H. limit_of T h)" using budget_okD(1) [OF B] h by (intro member_le_sum) simp_all
  moreover have "- (2 ^ 63) \<le> sint (unclaimed_cache_space T)" using sint_ge [of "unclaimed_cache_space T"] by simp
  ultimately show ?thesis using budget_okD(2,6) [OF B] by (simp del: of_nat_sum of_nat_unat)
qed

text \<open>How far the budget can be overdrawn.\<close>

lemma sum_excess:
  fixes f :: "addr \<Rightarrow> nat"
  shows "finite H \<Longrightarrow> (\<Sum>h\<in>H. f h) \<le> (\<Sum>h\<in>H. f h - k) + k * card H"
  by (induction H rule: finite_induct) auto

lemma overdraft:
  assumes B: "budget_ok T H" and n: "card H \<le> 2 ^ 42"
  shows "- (2 ^ 62) \<le> sint (unclaimed_cache_space T)"
proof -
  have k: "kMinThreadCacheSize = 2 ^ 19" "kStealAmount = 2 ^ 16" by (simp_all add: kMinThreadCacheSize_def kMaxSize_def kStealAmount_def)
  have "(\<Sum>h\<in>H. limit_of T h) \<le> unat (overall_thread_cache_size T) + 2 ^ 16 + 2 ^ 19 * card H"
    using sum_excess [OF budget_okD(1) [OF B], of "limit_of T" kMinThreadCacheSize] budget_okD(4) [OF B] by (simp add: k)
  then show ?thesis using budget_okD(2) [OF B] n by (simp del: of_nat_sum of_nat_unat)
qed

text \<open>The budget after a change of the limits of at most two caches.\<close>

lemma sum_swap:
  fixes f g :: "addr \<Rightarrow> nat"
  assumes "finite H" "a \<in> H" "b \<in> H" "a \<noteq> b" "\<And>h. h \<noteq> a \<Longrightarrow> h \<noteq> b \<Longrightarrow> f h = g h"
  shows "(\<Sum>h\<in>H. f h) + g a + g b = (\<Sum>h\<in>H. g h) + f a + f b"
proof -
  have H: "H = insert a (insert b (H - {a, b}))" using assms(2,3) by blast
  have "(\<Sum>h\<in>H - {a, b}. f h) = (\<Sum>h\<in>H - {a, b}. g h)" using assms(5) by (intro sum.cong) auto
  then show ?thesis using assms(1,4) by (subst H, subst H) simp
qed

lemma sum_one:
  fixes f g :: "addr \<Rightarrow> nat"
  assumes "finite H" "a \<in> H" "\<And>h. h \<noteq> a \<Longrightarrow> f h = g h"
  shows "(\<Sum>h\<in>H. f h) + g a = (\<Sum>h\<in>H. g h) + f a"
proof -
  have "(\<Sum>h\<in>H - {a}. f h) = (\<Sum>h\<in>H - {a}. g h)" using assms(3) by (intro sum.cong) auto
  then show ?thesis using sum.remove [OF assms(1,2), of f] sum.remove [OF assms(1,2), of g] by simp
qed

section \<open>Raising a limit\<close>

definition limits_changed :: "'os threads \<Rightarrow> 'os threads \<Rightarrow> bool" where
  "limits_changed T T' = (\<exists>cs v u. T' = T\<lparr>caches := cs, next_memory_steal := v, unclaimed_cache_space := u\<rparr> \<and>
     (\<forall>x. cs x = (caches T x)\<lparr>tc_max_size := tc_max_size (cs x)\<rparr>))"

lemma limits_changedI: "(\<And>x. cs x = (caches T x)\<lparr>tc_max_size := tc_max_size (cs x)\<rparr>) \<Longrightarrow>
    T' = T\<lparr>caches := cs, next_memory_steal := v, unclaimed_cache_space := u\<rparr> \<Longrightarrow> limits_changed T T'"
  unfolding limits_changed_def by blast

lemma limits_changedD:
  assumes "limits_changed T T'"
  shows "central T' = central T" "threadcache_allocator T' = threadcache_allocator T" "thread_heaps T' = thread_heaps T"
    "thread_heap_count T' = thread_heap_count T" "overall_thread_cache_size T' = overall_thread_cache_size T"
    "per_thread_cache_size T' = per_thread_cache_size T" "tsd_inited T' = tsd_inited T" "local_heap T' = local_heap T"
    "min_size_for_slow_path T' = min_size_for_slow_path T" "key_value T' = key_value T"
    "tc_next (caches T' x) = tc_next (caches T x)" "tc_prev (caches T' x) = tc_prev (caches T x)"
    "tc_size (caches T' x) = tc_size (caches T x)" "tc_lists (caches T' x) = tc_lists (caches T x)"
    "tc_tid (caches T' x) = tc_tid (caches T x)" "tc_in_setspecific (caches T' x) = tc_in_setspecific (caches T x)"
proof -
  obtain cs v u where e: "T' = T\<lparr>caches := cs, next_memory_steal := v, unclaimed_cache_space := u\<rparr>"
    and c: "cs x = (caches T x)\<lparr>tc_max_size := tc_max_size (cs x)\<rparr>" using assms unfolding limits_changed_def by blast
  show "central T' = central T" "threadcache_allocator T' = threadcache_allocator T" "thread_heaps T' = thread_heaps T"
    "thread_heap_count T' = thread_heap_count T" "overall_thread_cache_size T' = overall_thread_cache_size T"
    "per_thread_cache_size T' = per_thread_cache_size T" "tsd_inited T' = tsd_inited T" "local_heap T' = local_heap T"
    "min_size_for_slow_path T' = min_size_for_slow_path T" "key_value T' = key_value T" unfolding e by simp_all
  have cs: "caches T' = cs" by (simp add: e)
  show "tc_next (caches T' x) = tc_next (caches T x)" "tc_prev (caches T' x) = tc_prev (caches T x)"
    "tc_size (caches T' x) = tc_size (caches T x)" "tc_lists (caches T' x) = tc_lists (caches T x)"
    "tc_tid (caches T' x) = tc_tid (caches T x)" "tc_in_setspecific (caches T' x) = tc_in_setspecific (caches T x)"
    unfolding cs by (subst c, simp)+
qed

lemma limits_changed_refl [simp]: "limits_changed T (T\<lparr>next_memory_steal := v\<rparr>)"
  by (rule limits_changedI [where cs = "caches T" and v = v and u = "unclaimed_cache_space T"]) simp_all

lemma limits_changed_trans:
  assumes 1: "limits_changed T T1" and 2: "limits_changed T1 T2"
  shows "limits_changed T T2"
proof -
  obtain cs v u where e: "T1 = T\<lparr>caches := cs, next_memory_steal := v, unclaimed_cache_space := u\<rparr>"
    using 1 unfolding limits_changed_def by blast
  obtain cs' v' u' where e': "T2 = T1\<lparr>caches := cs', next_memory_steal := v', unclaimed_cache_space := u'\<rparr>"
    using 2 unfolding limits_changed_def by blast
  have "caches T2 = cs'" by (simp add: e')
  then have "cs' x = (caches T x)\<lparr>tc_max_size := tc_max_size (cs' x)\<rparr>" for x
    using limits_changedD(11-16) [OF 1, of x] limits_changedD(11-16) [OF 2, of x] by simp
  then show ?thesis by (rule limits_changedI) (simp add: e e')
qed

lemma ring_ok_limits:
  assumes R: "ring_ok T HS" and L: "limits_changed T T'" and v: "next_memory_steal T' = 0 \<or> next_memory_steal T' \<in> set HS"
  shows "ring_ok T' HS"
  using R v limits_changedD(3,4,11,12) [OF L] linked_cong [of HS "caches T'" "caches T"] by (simp add: ring_ok_def)

text \<open>Moving a share from \<open>v\<close> to \<open>h\<close>.\<close>

lemma steal_budget:
  assumes B: "budget_ok T H" and h: "h \<in> H" "v \<in> H" "v \<noteq> h" and big: "kMinThreadCacheSize < limit_of T v"
    and T': "T' = T\<lparr>caches := (caches T)(v := (caches T v)\<lparr>tc_max_size := tc_max_size (caches T v) - of_nat kStealAmount\<rparr>,
      h := (caches T h)\<lparr>tc_max_size := tc_max_size (caches T h) + of_nat kStealAmount\<rparr>)\<rparr>"
  shows "budget_ok T' H" "limit_of T' h = limit_of T h + kStealAmount"
proof -
  note D = budget_okD [OF B]
  have k: "kMinThreadCacheSize = 8 * kStealAmount" "kStealAmount = 2 ^ 16"
    by (simp_all add: kMinThreadCacheSize_def kMaxSize_def kStealAmount_def)
  have lv: "limit_of T' v = limit_of T v - kStealAmount"
    using unat_minus_of_nat [of kStealAmount "tc_max_size (caches T v)"] big k h(3) by (simp add: T' limit_of_def)
  show lh: "limit_of T' h = limit_of T h + kStealAmount"
    using unat_plus_of_nat [of "tc_max_size (caches T h)" kStealAmount] limit_small [OF B h(1)] k by (simp add: T' limit_of_def)
  have lx: "limit_of T' x = limit_of T x" if "x \<noteq> v" "x \<noteq> h" for x using that by (simp add: T' limit_of_def)
  have same: "unclaimed_cache_space T' = unclaimed_cache_space T" "overall_thread_cache_size T' = overall_thread_cache_size T"
    by (simp_all add: T')
  obtain q where q: "limit_of T v = kStealAmount * q" using D(3) [OF h(2)] by (auto elim: dvdE)
  have q8: "8 < q" using big unfolding q k(1) by (simp add: mult.commute [of 8])
  have v1: "limit_of T v - kStealAmount + kStealAmount = limit_of T v" using q8 q by (simp add: algebra_simps)
  have "kStealAmount * 9 \<le> kStealAmount * q" using q8 by (intro mult_le_mono2) simp
  then have v9: "9 * kStealAmount \<le> limit_of T v" unfolding q by simp
  have s: "(\<Sum>x\<in>H. limit_of T' x) = (\<Sum>x\<in>H. limit_of T x)"
    using sum_swap [OF D(1) h(2,1,3), of "limit_of T'" "limit_of T"] lx lv lh v1 by simp
  have "(\<Sum>x\<in>H. limit_of T' x - kMinThreadCacheSize) + (limit_of T v - kMinThreadCacheSize) + (limit_of T h - kMinThreadCacheSize) =
      (\<Sum>x\<in>H. limit_of T x - kMinThreadCacheSize) + (limit_of T' v - kMinThreadCacheSize) + (limit_of T' h - kMinThreadCacheSize)"
    by (rule sum_swap [OF D(1) h(2,1,3)]) (use lx in simp)
  then have "(\<Sum>x\<in>H. limit_of T' x - kMinThreadCacheSize) \<le> (\<Sum>x\<in>H. limit_of T x - kMinThreadCacheSize)"
    using v9 unfolding lv lh k(1) by linarith
  moreover have "kStealAmount dvd limit_of T' x" if "x \<in> H" for x
    using D(3) [OF that] D(3) [OF h(1)] D(3) [OF h(2)] lv lh lx by (cases "x = v"; cases "x = h") (auto intro: dvd_diff_nat)
  ultimately show "budget_ok T' H" using D unfolding budget_ok_def s same by auto
qed

lemma steal_loop_ok:
  assumes "ring_ok T HS" "HS \<noteq> []" "budget_ok T H" "set HS \<subseteq> H" "h \<in> H" "h \<noteq> 0"
  shows "\<exists>T'. steal_loop k T h = Some T' \<and> limits_changed T T' \<and> ring_ok T' HS \<and> budget_ok T' H \<and>
    unclaimed_cache_space T' = unclaimed_cache_space T \<and> limit_of T h \<le> limit_of T' h"
  using assms(1,3)
proof (induction k arbitrary: T)
  case 0
  then show ?case using limits_changed_refl [of T "next_memory_steal T"] by (intro exI [of _ T]) simp
next
  case (Suc k)
  note R = ring_okD [OF Suc.prems(1)]
  define v where "v = (if next_memory_steal T = 0 then thread_heaps T else next_memory_steal T)"
  define T1 where "T1 = T\<lparr>next_memory_steal := v\<rparr>"
  have v: "v \<in> set HS" using R(4,6) assms(2) by (auto simp: v_def)
  then have v0: "v \<noteq> 0" "v \<in> H" using R(7) assms(4) by blast+
  have first: "(if next_memory_steal T = 0 then do { CHECK (thread_heaps T \<noteq> 0); Some (T\<lparr>next_memory_steal := thread_heaps T\<rparr>) } else Some T) = Some T1"
    using R(5) assms(2) by (auto simp: T1_def v_def)
  let ?n = "tc_next (caches T v)"
  have n: "?n = 0 \<or> ?n \<in> set HS" using R(8) [OF v] .
  show ?case
  proof (cases "v = h \<or> limit_of T v \<le> kMinThreadCacheSize")
    case True
    let ?T = "T1\<lparr>next_memory_steal := ?n\<rparr>"
    have c: "limits_changed T ?T" by (simp add: T1_def)
    have r: "ring_ok ?T HS" by (rule ring_ok_limits [OF Suc.prems(1) c]) (use n in simp)
    have b: "budget_ok ?T H" using Suc.prems(2) by (simp add: budget_ok_def limit_of_def T1_def)
    have step: "steal_loop (Suc k) T h = steal_loop k ?T h"
      using True first unfolding steal_loop.simps first by (simp add: T1_def limit_of_def)
    obtain T' where "steal_loop k ?T h = Some T'" "limits_changed ?T T'" "ring_ok T' HS" "budget_ok T' H"
      "unclaimed_cache_space T' = unclaimed_cache_space ?T" "limit_of ?T h \<le> limit_of T' h" using Suc.IH [OF r b] by blast
    moreover have "limits_changed T T'" using limits_changed_trans [OF c \<open>limits_changed ?T T'\<close>] .
    ultimately show ?thesis unfolding step by (auto simp: T1_def limit_of_def)
  next
    case False
    let ?cs = "(caches T)(v := (caches T v)\<lparr>tc_max_size := tc_max_size (caches T v) - of_nat kStealAmount\<rparr>,
      h := (caches T h)\<lparr>tc_max_size := tc_max_size (caches T h) + of_nat kStealAmount\<rparr>)"
    let ?T = "T\<lparr>caches := ?cs, next_memory_steal := ?n\<rparr>"
    have vh: "v \<noteq> h" and big: "kMinThreadCacheSize < limit_of T v" using False by simp_all
    have step: "steal_loop (Suc k) T h = Some ?T"
      unfolding steal_loop.simps first using False v0(1) assms(6) by (simp add: T1_def limit_of_def upd_cache_def)
    have c: "limits_changed T ?T" by (rule limits_changedI [where cs = ?cs and v = ?n and u = "unclaimed_cache_space T"]) simp_all
    have "ring_ok ?T HS" by (rule ring_ok_limits [OF Suc.prems(1) c]) (use n in simp)
    moreover note sb = steal_budget [OF Suc.prems(2) assms(5) v0(2) vh big refl]
    then have "budget_ok ?T H" "limit_of T h \<le> limit_of ?T h" by (simp_all add: budget_ok_def limit_of_def)
    ultimately show ?thesis using step c by auto
  qed
qed

lemma limits_unfold:
  "kMinThreadCacheSize = 8 * kStealAmount" "kStealAmount = 2 ^ 16" "0 < kStealAmount"
  by (simp_all add: kMinThreadCacheSize_def kMaxSize_def kStealAmount_def)

lemma sum_sub_le: "(\<Sum>x\<in>H. f x - (k :: nat)) \<le> (\<Sum>x\<in>H. f x)"
  by (intro sum_mono) simp

lemma IncreaseCacheLimitLocked_ok:
  assumes R: "ring_ok T HS" and B: "budget_ok T H" and H: "set HS \<subseteq> H" "h \<in> H" "h \<noteq> 0"
    and ne: "HS \<noteq> [] \<or> 0 < sint (unclaimed_cache_space T)"
  shows "\<exists>T'. IncreaseCacheLimitLocked T h = Some T' \<and> limits_changed T T' \<and> ring_ok T' HS \<and> budget_ok T' H \<and>
    (0 < sint (unclaimed_cache_space T) \<longrightarrow> limit_of T' h = limit_of T h + kStealAmount) \<and>
    (sint (unclaimed_cache_space T) \<le> 0 \<longrightarrow> unclaimed_cache_space T' = unclaimed_cache_space T)"
proof (cases "0 < sint (unclaimed_cache_space T)")
  case False
  then have "HS \<noteq> []" using ne by simp
  from steal_loop_ok [OF R this B H] False show ?thesis by (auto simp: IncreaseCacheLimitLocked_def)
next
  case True
  let ?u = "unclaimed_cache_space T" and ?o = "unat (overall_thread_cache_size T)"
  note D = budget_okD [OF B]
  define T' where "T' = T\<lparr>unclaimed_cache_space := ?u - of_nat kStealAmount,
      caches := (caches T)(h := (caches T h)\<lparr>tc_max_size := tc_max_size (caches T h) + of_nat kStealAmount\<rparr>)\<rparr>"
  have step: "IncreaseCacheLimitLocked T h = Some T'"
    using True H(3) by (simp add: IncreaseCacheLimitLocked_def upd_cache_def T'_def)
  have c: "limits_changed T T'"
    by (rule limits_changedI [where cs = "caches T'" and v = "next_memory_steal T" and u = "unclaimed_cache_space T'"]) (simp_all add: T'_def)
  have r: "ring_ok T' HS" by (rule ring_ok_limits [OF R c]) (use ring_okD(4) [OF R] in \<open>simp add: T'_def\<close>)
  have lh: "limit_of T' h = limit_of T h + kStealAmount"
    using unat_plus_of_nat [of "tc_max_size (caches T h)" kStealAmount] limit_small [OF B H(2)] limits_unfold by (simp add: T'_def limit_of_def)
  have lx: "limit_of T' x = limit_of T x" if "x \<noteq> h" for x using that by (simp add: T'_def limit_of_def)
  have u: "sint (unclaimed_cache_space T') = sint ?u - int kStealAmount"
    using sint_sub_nat [of ?u kStealAmount] True limits_unfold(2) by (simp add: T'_def)
  have s: "(\<Sum>x\<in>H. limit_of T' x) = (\<Sum>x\<in>H. limit_of T x) + kStealAmount"
    using sum_one [OF D(1) H(2), of "limit_of T'" "limit_of T"] lx lh by simp
  have o: "overall_thread_cache_size T' = overall_thread_cache_size T" by (simp add: T'_def)
  have sum: "int (\<Sum>x\<in>H. limit_of T' x) + sint (unclaimed_cache_space T') = int ?o"
    using D(2) u s by (simp del: of_nat_sum of_nat_unat)
  then have "(\<Sum>x\<in>H. limit_of T' x) \<le> ?o + kStealAmount" using True u by (simp del: of_nat_sum of_nat_unat)
  then have ex: "(\<Sum>x\<in>H. limit_of T' x - kMinThreadCacheSize) \<le> ?o + kStealAmount" using sum_sub_le order_trans by blast
  have "kStealAmount dvd limit_of T' x" if "x \<in> H" for x using D(3) [OF that] lh lx by (cases "x = h") auto
  then have "budget_ok T' H" using D(1,5,6) sum ex unfolding budget_ok_def o by blast
  then show ?thesis using step c r lh True by auto
qed

section \<open>Caches that come and go\<close>

lemma budget_insert:
  assumes B: "budget_ok T H" and h: "h \<notin> H" "limit_of T h = 0"
  shows "budget_ok T (insert h H)"
  using budget_okD [OF B] h by (simp add: budget_ok_def)

lemma budget_cong:
  assumes "budget_ok T H" "\<And>x. x \<in> H \<Longrightarrow> limit_of T' x = limit_of T x" "unclaimed_cache_space T' = unclaimed_cache_space T"
    "overall_thread_cache_size T' = overall_thread_cache_size T"
  shows "budget_ok T' H"
  using assms by (simp add: budget_ok_def cong: sum.cong)

lemma budget_remove:
  assumes B: "budget_ok T H" and h: "h \<in> H"
    and T': "unclaimed_cache_space T' = unclaimed_cache_space T + tc_max_size (caches T h)" "overall_thread_cache_size T' = overall_thread_cache_size T"
      "\<And>x. x \<in> H - {h} \<Longrightarrow> limit_of T' x = limit_of T x"
  shows "budget_ok T' (H - {h})"
proof -
  let ?u = "unclaimed_cache_space T" and ?o = "unat (overall_thread_cache_size T)"
  note D = budget_okD [OF B]
  have s: "(\<Sum>x\<in>H - {h}. f (limit_of T' x)) + f (limit_of T h) = (\<Sum>x\<in>H. f (limit_of T x))" for f :: "nat \<Rightarrow> nat"
  proof -
    have "(\<Sum>x\<in>H - {h}. f (limit_of T' x)) = (\<Sum>x\<in>H - {h}. f (limit_of T x))" using T'(3) by (intro sum.cong) simp_all
    then show ?thesis using sum.remove [OF D(1) h, of "\<lambda>x. f (limit_of T x)"] by simp
  qed
  have w: "tc_max_size (caches T h) = of_int (int (limit_of T h))" by (simp add: limit_of_def)
  have le: "sint ?u + int (limit_of T h) \<le> int ?o" using D(2) s [of "\<lambda>n. n"] by (simp del: of_nat_sum of_nat_unat)
  have ge: "- (2 ^ 63) \<le> sint ?u" using sint_ge [of ?u] by simp
  have "sint (unclaimed_cache_space T') = sint ?u + int (limit_of T h)"
    unfolding T'(1) w by (rule sint_add_small) (use le ge D(6) in \<open>simp_all del: of_nat_unat\<close>)
  then have "int (\<Sum>x\<in>H - {h}. limit_of T' x) + sint (unclaimed_cache_space T') = int ?o"
    using D(2) s [of "\<lambda>n. n"] by (simp del: of_nat_sum of_nat_unat)
  moreover have "(\<Sum>x\<in>H - {h}. limit_of T' x - kMinThreadCacheSize) \<le> ?o + kStealAmount"
    using D(4) s [of "\<lambda>n. n - kMinThreadCacheSize"] by linarith
  ultimately show ?thesis using D T'(2,3) unfolding budget_ok_def by simp
qed

lemma budget_overdraw:
  assumes B: "budget_ok T H" and h: "h \<in> H" "limit_of T h = 0" and u: "sint (unclaimed_cache_space T) \<le> 0" and n: "card H \<le> 2 ^ 42"
    and T': "unclaimed_cache_space T' = unclaimed_cache_space T - of_nat kMinThreadCacheSize" "overall_thread_cache_size T' = overall_thread_cache_size T"
      "limit_of T' h = kMinThreadCacheSize" "\<And>x. x \<noteq> h \<Longrightarrow> limit_of T' x = limit_of T x"
  shows "budget_ok T' H" "sint (unclaimed_cache_space T') < 0"
proof -
  let ?u = "unclaimed_cache_space T"
  note D = budget_okD [OF B]
  have k: "kMinThreadCacheSize = 2 ^ 19" by (simp add: kMinThreadCacheSize_def kMaxSize_def)
  have v: "sint (unclaimed_cache_space T') = sint ?u - int kMinThreadCacheSize"
    unfolding T'(1) by (rule sint_sub_nat) (use overdraft [OF B n] in \<open>simp add: k\<close>)
  then show "sint (unclaimed_cache_space T') < 0" using u by (simp add: k)
  have s: "(\<Sum>x\<in>H. limit_of T' x) = (\<Sum>x\<in>H. limit_of T x) + kMinThreadCacheSize"
    using sum_one [OF D(1) h(1), of "limit_of T'" "limit_of T"] T'(3,4) h(2) by simp
  have e: "(\<Sum>x\<in>H. limit_of T' x - kMinThreadCacheSize) = (\<Sum>x\<in>H. limit_of T x - kMinThreadCacheSize)"
    using sum_one [OF D(1) h(1), of "\<lambda>x. limit_of T' x - kMinThreadCacheSize" "\<lambda>x. limit_of T x - kMinThreadCacheSize"] T'(3,4) h(2) by simp
  have "kStealAmount dvd kMinThreadCacheSize" unfolding limits_unfold(1) by (rule dvd_triv_right)
  then have "kStealAmount dvd limit_of T' x" if "x \<in> H" for x
    using D(3) [OF that] T'(3,4) by (cases "x = h") auto
  moreover have "int (\<Sum>x\<in>H. limit_of T' x) + sint (unclaimed_cache_space T') = int (unat (overall_thread_cache_size T'))"
    using D(2) v s T'(2) by (simp del: of_nat_sum of_nat_unat)
  ultimately show "budget_ok T' H" using D(1,4-6) e T'(2) unfolding budget_ok_def by simp
qed

end
