(* ===== verification/Thread_Pool.thy ===== *)
theory Thread_Pool
  imports Thread_Alloc Thread_Budget
begin

text \<open>
  All thread caches together. The objects that the central lists have handed out are either in a cache
  or held by the program; \<open>pool_ok\<close> is the invariant, with the list \<open>HS\<close> of the caches and their contents
  \<open>fl\<close>, and \<open>program\<close> gives the objects that the program holds.
\<close>

section \<open>The invariant\<close>

definition program :: "(nat \<Rightarrow> addr set) \<Rightarrow> addr list \<Rightarrow> (addr \<Rightarrow> nat \<Rightarrow> addr list) \<Rightarrow> nat \<Rightarrow> addr set" where
  "program Out HS fl c = Out c - (\<Union>h\<in>set HS. set (fl h c))"

definition contents_apart :: "addr list \<Rightarrow> (addr \<Rightarrow> nat \<Rightarrow> addr list) \<Rightarrow> bool" where
  "contents_apart HS fl = (\<forall>h\<in>set HS. \<forall>k\<in>set HS. h \<noteq> k \<longrightarrow> (\<forall>c. set (fl h c) \<inter> set (fl k c) = {}))"

lemma contents_apartD: "contents_apart HS fl \<Longrightarrow> h \<in> set HS \<Longrightarrow> k \<in> set HS \<Longrightarrow> h \<noteq> k \<Longrightarrow> x \<in> set (fl h c) \<Longrightarrow> x \<notin> set (fl k c)"
  unfolding contents_apart_def by blast

lemma programD: "x \<in> program Out HS fl c \<Longrightarrow> x \<in> Out c" "x \<in> program Out HS fl c \<Longrightarrow> h \<in> set HS \<Longrightarrow> x \<notin> set (fl h c)"
  by (auto simp: program_def)

lemma program_split: "h \<in> set HS \<Longrightarrow> program Out HS fl c = kept Out (fl h) c - (\<Union>k\<in>set HS - {h}. set (fl k c))"
  by (auto simp: program_def kept_def)

lemma program_upd:
  assumes "h \<in> set HS"
  shows "program Out HS (fl(h := l)) c = kept Out l c - (\<Union>k\<in>set HS - {h}. set (fl k c))"
proof -
  have "(\<Union>k\<in>set HS - {h}. set ((fl(h := l)) k c)) = (\<Union>k\<in>set HS - {h}. set (fl k c))" by auto
  then show ?thesis using program_split [OF assms, of Out "fl(h := l)"] by simp
qed

text \<open>What operations on the lists of a cache leave alone.\<close>

definition rest_same :: "'os threads \<Rightarrow> 'os threads \<Rightarrow> bool" where
  "rest_same T T' = (threadcache_allocator T' = threadcache_allocator T \<and> thread_heaps T' = thread_heaps T \<and>
     thread_heap_count T' = thread_heap_count T \<and> overall_thread_cache_size T' = overall_thread_cache_size T \<and>
     per_thread_cache_size T' = per_thread_cache_size T \<and> tsd_inited T' = tsd_inited T \<and> local_heap T' = local_heap T \<and>
     min_size_for_slow_path T' = min_size_for_slow_path T \<and> key_value T' = key_value T \<and>
     sizemap (central T') = sizemap (central T) \<and>
     (\<forall>x. tc_next (caches T' x) = tc_next (caches T x) \<and> tc_prev (caches T' x) = tc_prev (caches T x) \<and>
        tc_tid (caches T' x) = tc_tid (caches T x) \<and> tc_in_setspecific (caches T' x) = tc_in_setspecific (caches T x)))"

lemma rest_sameD:
  assumes "rest_same T T'"
  shows "threadcache_allocator T' = threadcache_allocator T" "thread_heaps T' = thread_heaps T"
    "thread_heap_count T' = thread_heap_count T" "overall_thread_cache_size T' = overall_thread_cache_size T"
    "tsd_inited T' = tsd_inited T" "local_heap T' = local_heap T" "key_value T' = key_value T" "sizemap (central T') = sizemap (central T)"
    "tc_next (caches T' x) = tc_next (caches T x)" "tc_prev (caches T' x) = tc_prev (caches T x)"
    "tc_tid (caches T' x) = tc_tid (caches T x)" "tc_in_setspecific (caches T' x) = tc_in_setspecific (caches T x)"
  using assms by (simp_all add: rest_same_def)

lemma rest_same_refl [simp]: "rest_same T T"
  by (simp add: rest_same_def)

lemma rest_same_trans: "rest_same T T1 \<Longrightarrow> rest_same T1 T2 \<Longrightarrow> rest_same T T2"
  by (simp add: rest_same_def)

lemma rest_same_limits: "limits_changed T T' \<Longrightarrow> rest_same T T'"
  by (simp add: rest_same_def limits_changedD)

lemma rest_same_cache:
  "same_cache (caches T h) C \<Longrightarrow> sizemap S = sizemap (central T) \<Longrightarrow> rest_same T (T\<lparr>central := S, caches := (caches T)(h := C)\<rparr>)"
  by (simp add: rest_same_def same_cache_def)

lemma ring_ok_cache:
  assumes "ring_ok T HS" "same_cache (caches T h) C"
  shows "ring_ok (T\<lparr>central := S, caches := (caches T)(h := C)\<rparr>) HS"
  using assms linked_cong [of HS "(caches T)(h := C)" "caches T"] by (simp add: ring_ok_def same_cache_def)

lemma budget_ok_cache:
  assumes "budget_ok T H" "same_cache (caches T h) C"
  shows "budget_ok (T\<lparr>central := S, caches := (caches T)(h := C)\<rparr>) H"
  by (rule budget_cong [OF assms(1)]) (use assms(2) in \<open>simp_all add: limit_of_def same_cache_def\<close>)

context object_supply
begin

definition caches_ok :: "'os threads \<Rightarrow> addr list \<Rightarrow> (addr \<Rightarrow> nat \<Rightarrow> addr list) \<Rightarrow> (nat \<Rightarrow> addr set) \<Rightarrow> bool" where
  "caches_ok T HS fl Out = (ok (central T) Out \<and> contents_apart HS fl \<and>
     (\<forall>h\<in>set HS. cache_ok 8192 (sizemap (central T)) (object_mem (central T)) (caches T h) (fl h) \<and> owned Out (fl h)))"

lemma caches_okD:
  assumes "caches_ok T HS fl Out"
  shows "ok (central T) Out" "contents_apart HS fl"
    "h \<in> set HS \<Longrightarrow> cache_ok 8192 (sizemap (central T)) (object_mem (central T)) (caches T h) (fl h)"
    "h \<in> set HS \<Longrightarrow> owned Out (fl h)"
  using assms by (simp_all add: caches_ok_def)

definition pool_ok :: "'os threads \<Rightarrow> addr list \<Rightarrow> (addr \<Rightarrow> nat \<Rightarrow> addr list) \<Rightarrow> (nat \<Rightarrow> addr set) \<Rightarrow> bool" where
  "pool_ok T HS fl Out = (caches_ok T HS fl Out \<and> ring_ok T HS \<and> budget_ok T (set HS))"

text \<open>An operation on the cache \<open>h\<close> does not disturb the others.\<close>

lemma caches_ok_upd:
  assumes I: "caches_ok T HS fl Out" and h: "h \<in> set HS" and S: "ok S' Out'" "sizemap S' = sizemap (central T)"
    and C: "cache_ok 8192 (sizemap (central T)) (object_mem S') C' l'" "owned Out' l'"
    and O: "\<And>c. kept Out (fl h) c - Q \<subseteq> kept Out' l' c"
    and m: "\<And>c y. c < kNumClasses \<Longrightarrow> y \<in> kept Out (fl h) c \<Longrightarrow> y \<notin> Q \<Longrightarrow> object_mem S' y = object_mem (central T) y"
    and q: "\<And>k c. k \<in> set HS \<Longrightarrow> k \<noteq> h \<Longrightarrow> set (fl k c) \<inter> Q = {}"
  shows "caches_ok (T\<lparr>central := S', caches := (caches T)(h := C')\<rparr>) HS (fl(h := l')) Out'"
proof -
  note D = caches_okD [OF I]
  have k: "set (fl k c) \<subseteq> kept Out (fl h) c" if "k \<in> set HS" "k \<noteq> h" for k c
    using contents_apartD [OF D(2) that(1) h that(2)] ownedD [OF D(4) [OF that(1)]] by (auto simp: kept_def)
  then have k': "set (fl k c) \<subseteq> kept Out' l' c" if "k \<in> set HS" "k \<noteq> h" for k c using O q [OF that] that by blast
  have "contents_apart HS (fl(h := l'))"
    unfolding contents_apart_def
  proof (intro ballI impI allI)
    fix a b c assume ab: "a \<in> set HS" "b \<in> set HS" "a \<noteq> b"
    then show "set ((fl(h := l')) a c) \<inter> set ((fl(h := l')) b c) = {}"
      using k' [of a c] k' [of b c] contents_apartD [OF D(2) ab] by (cases "a = h"; cases "b = h") (auto simp: kept_def)
  qed
  moreover have "cache_ok 8192 (sizemap (central T)) (object_mem S') (caches T a) (fl a) \<and> owned Out' (fl a)"
    if a: "a \<in> set HS" "a \<noteq> h" for a
  proof
    show "cache_ok 8192 (sizemap (central T)) (object_mem S') (caches T a) (fl a)"
      by (rule cache_ok_frame [OF D(3) [OF a(1)]]) (use k [OF a] q [OF a] m in blast)
    show "owned Out' (fl a)" using k' [OF a] by (auto simp: owned_def kept_def)
  qed
  ultimately show ?thesis using S C unfolding caches_ok_def by simp
qed

section \<open>Operations of one cache\<close>

lemma kept_released: "(\<And>c. set (l' c) \<subseteq> set (l c)) \<Longrightarrow> owned Out l \<Longrightarrow> kept (released Out l l') l' c = kept Out l c"
  by (auto simp: kept_def released_def owned_def)

lemma caches_ok_release:
  assumes I: "caches_ok T HS fl Out" and h: "h \<in> set HS" and P: "release_post 8192 (central T) (caches T h) Out (fl h) S' C' l'"
  shows "caches_ok (T\<lparr>central := S', caches := (caches T)(h := C')\<rparr>) HS (fl(h := l')) (released Out (fl h) l')"
    "program (released Out (fl h) l') HS (fl(h := l')) = program Out HS fl"
    "y \<in> outs (sizemap (central T)) A (program Out HS fl) \<Longrightarrow> object_mem S' y = object_mem (central T) y"
proof -
  note D = caches_okD [OF I] and P' = release_postD [OF P]
  have k: "kept (released Out (fl h) l') l' c = kept Out (fl h) c" for c by (rule kept_released [OF P'(5) D(4) [OF h]])
  have o: "owned (released Out (fl h) l') l'" by (rule owned_released [OF D(4) [OF h] P'(5)])
  have m: "object_mem S' y = object_mem (central T) y" if "c < kNumClasses" "y \<in> kept Out (fl h) c" for c y
    by (rule P'(7) [OF outsI [OF that(1)]]) (use that(2) in \<open>simp add: kept_def released_def\<close>)
  show "caches_ok (T\<lparr>central := S', caches := (caches T)(h := C')\<rparr>) HS (fl(h := l')) (released Out (fl h) l')"
    by (rule caches_ok_upd [OF I h P'(1,3,2) o, where Q = "{}"]) (use m in \<open>simp_all add: k\<close>)
  show p: "program (released Out (fl h) l') HS (fl(h := l')) = program Out HS fl"
    by (rule ext) (simp only: program_upd [OF h] program_split [OF h, of Out fl] k)
  have "program Out HS fl c \<subseteq> released Out (fl h) l' c" for c using programD [of _ Out HS fl c] h by (auto simp: released_def)
  then show "object_mem S' y = object_mem (central T) y" if "y \<in> outs (sizemap (central T)) A (program Out HS fl)"
    using P'(7) that outs_mono [of "program Out HS fl" "released Out (fl h) l'"] by blast
qed

lemma cache_Allocate_ok:
  assumes I: "pool_ok T HS fl Out" and h: "h \<in> set HS" and c: "c < kNumClasses" "0 < c"
  shows "\<exists>r. cache_Allocate E (class_to_size (sizemap (central T)) c) c h T = Some r \<and> (\<forall>p T'. r = Ret (p, T') \<longrightarrow>
    (\<exists>Out' fl'. pool_ok T' HS fl' Out' \<and> rest_same T T' \<and> (p \<noteq> 0 \<longrightarrow> p \<notin> program Out HS fl c) \<and>
      program Out' HS fl' = (program Out HS fl)(c := program Out HS fl c \<union> ({p} - {0})) \<and>
      (\<forall>y\<in>outs (sizemap (central T)) A (program Out HS fl). object_mem (central T') y = object_mem (central T) y)))"
proof -
  have J: "caches_ok T HS fl Out" "ring_ok T HS" "budget_ok T (set HS)" using I by (simp_all add: pool_ok_def)
  note D = caches_okD [OF J(1)]
  have h0: "h \<noteq> 0" using ring_okD(7) [OF J(2) h] .
  obtain r where r: "Allocate E (class_to_size (sizemap (central T)) c) c (central T, caches T h) = Some r"
    "\<And>p S' C'. r = Ret (p, S', C') \<Longrightarrow> \<exists>Out' l'. alloc_post c (central T) (caches T h) Out (fl h) p S' C' Out' l'"
    using Allocate_ok [OF D(1) D(3) [OF h] D(4) [OF h] c] by blast
  show ?thesis
  proof (cases r)
    case OutOfMemory
    then show ?thesis using r(1) h0 by (simp add: cache_Allocate_def)
  next
    case (Ret x)
    obtain p S' C' where x: "x = (p, S', C')" by (cases x)
    obtain Out' l' where "alloc_post c (central T) (caches T h) Out (fl h) p S' C' Out' l'" using r(2) Ret x by blast
    then have Q: "ok S' Out'" "cache_ok 8192 (sizemap (central T)) (object_mem S') C' l'" "owned Out' l'"
      "sizemap S' = sizemap (central T)" "same_cache (caches T h) C'" "\<And>k. k \<noteq> c \<Longrightarrow> Out' k = Out k \<and> l' k = fl h k"
      "p \<noteq> 0 \<Longrightarrow> p \<notin> kept Out (fl h) c" "kept Out' l' c = kept Out (fl h) c \<union> ({p} - {0})"
      "\<And>y. y \<in> outs (sizemap (central T)) A Out \<Longrightarrow> object_mem S' y = object_mem (central T) y" unfolding alloc_post_def by blast+
    have k: "kept Out' l' k = (if k = c then kept Out (fl h) c \<union> ({p} - {0}) else kept Out (fl h) k)" for k
      using Q(6) [of k] Q(8) by (auto simp: kept_def)
    let ?T = "T\<lparr>central := S', caches := (caches T)(h := C')\<rparr>" and ?fl = "fl(h := l')"
    have m: "object_mem S' y = object_mem (central T) y" if "k < kNumClasses" "y \<in> Out k" for k y
      by (rule Q(9) [OF outsI [where Out = Out, OF that]])
    have "caches_ok ?T HS ?fl Out'"
      by (rule caches_ok_upd [OF J(1) h Q(1,4,2,3), where Q = "{}"]) (use m k in \<open>auto simp: kept_def split: if_splits\<close>)
    then have P: "pool_ok ?T HS ?fl Out'" using ring_ok_cache [OF J(2) Q(5)] budget_ok_cache [OF J(3) Q(5)] by (simp add: pool_ok_def)
    have pn: "p \<noteq> 0 \<Longrightarrow> p \<notin> program Out HS fl c" using Q(7) program_split [OF h, of Out fl c] by blast
    have "set (fl a c) \<subseteq> kept Out (fl h) c" if "a \<in> set HS - {h}" for a
      using contents_apartD [OF D(2) _ h] ownedD [OF D(4)] that by (auto simp: kept_def)
    then have "p \<noteq> 0 \<Longrightarrow> p \<notin> (\<Union>a\<in>set HS - {h}. set (fl a c))" using Q(7) by blast
    then have "program Out' HS ?fl k = ((program Out HS fl)(c := program Out HS fl c \<union> ({p} - {0}))) k" for k
      unfolding program_upd [OF h] k fun_upd_apply program_split [OF h, of Out fl] by auto
    then have pe: "program Out' HS ?fl = (program Out HS fl)(c := program Out HS fl c \<union> ({p} - {0}))" by (rule ext)
    have "outs (sizemap (central T)) A (program Out HS fl) \<subseteq> outs (sizemap (central T)) A Out"
      by (rule outs_mono) (use programD(1) in blast)
    then have "\<forall>y\<in>outs (sizemap (central T)) A (program Out HS fl). object_mem S' y = object_mem (central T) y" using Q(9) by blast
    moreover have "rest_same T ?T" by (rule rest_same_cache [OF Q(5,4)])
    moreover have "cache_Allocate E (class_to_size (sizemap (central T)) c) c h T = Some (Ret (p, ?T))"
      using r(1) Ret x h0 by (simp add: cache_Allocate_def)
    ultimately have "pool_ok ?T HS ?fl Out' \<and> rest_same T ?T \<and> (p \<noteq> 0 \<longrightarrow> p \<notin> program Out HS fl c) \<and>
      program Out' HS ?fl = (program Out HS fl)(c := program Out HS fl c \<union> ({p} - {0})) \<and>
      (\<forall>y\<in>outs (sizemap (central T)) A (program Out HS fl). object_mem (central ?T) y = object_mem (central T) y)"
      using P pn pe by simp
    then show ?thesis using \<open>cache_Allocate E _ c h T = Some (Ret (p, ?T))\<close> by blast
  qed
qed

lemma caches_ok_limits:
  assumes "caches_ok T HS fl Out" "limits_changed T T'"
  shows "caches_ok T' HS fl Out"
  using assms(1) limits_changedD(1,13,14) [OF assms(2)] by (simp add: caches_ok_def cache_ok_def)

text \<open>What an operation that only moves objects between caches and central lists promises.\<close>

definition moved :: "'os threads \<Rightarrow> addr list \<Rightarrow> (nat \<Rightarrow> addr set) \<Rightarrow> 'os threads \<Rightarrow> (addr \<Rightarrow> nat \<Rightarrow> addr list) \<Rightarrow> (nat \<Rightarrow> addr set) \<Rightarrow> bool" where
  "moved T HS P T' fl' Out' = (pool_ok T' HS fl' Out' \<and> rest_same T T' \<and> program Out' HS fl' = P \<and>
     (\<forall>y\<in>outs (sizemap (central T)) A P. object_mem (central T') y = object_mem (central T) y))"

lemma moved_trans:
  assumes 1: "moved T HS P T1 fl1 Out1" and 2: "moved T1 HS P T2 fl2 Out2"
  shows "moved T HS P T2 fl2 Out2"
proof -
  have r: "rest_same T T1" "rest_same T1 T2" using 1 2 by (simp_all add: moved_def)
  show ?thesis using 1 2 rest_same_trans [OF r] unfolding moved_def rest_sameD(8) [OF r(1)] by simp
qed

lemma moved_release:
  assumes I: "pool_ok T HS fl Out" and h: "h \<in> set HS" and P: "release_post 8192 (central T) (caches T h) Out (fl h) S' C' l'"
  shows "moved T HS (program Out HS fl) (T\<lparr>central := S', caches := (caches T)(h := C')\<rparr>) (fl(h := l')) (released Out (fl h) l')"
proof -
  have J: "caches_ok T HS fl Out" "ring_ok T HS" "budget_ok T (set HS)" using I by (simp_all add: pool_ok_def)
  note R = caches_ok_release [OF J(1) h P] and P' = release_postD [OF P]
  show ?thesis unfolding moved_def pool_ok_def
    using R ring_ok_cache [OF J(2) P'(4)] budget_ok_cache [OF J(3) P'(4)] rest_same_cache [OF P'(4,3)] by simp
qed

lemma on_cache_Some: "h \<noteq> 0 \<Longrightarrow> f (central T, caches T h) = Some (S, C) \<Longrightarrow> on_cache h f T = Some (T\<lparr>central := S, caches := (caches T)(h := C)\<rparr>)"
  by (simp add: on_cache_def)

lemma IncreaseCacheLimit_ok:
  assumes I: "pool_ok T HS fl Out" and h: "h \<in> set HS"
  shows "\<exists>T'. IncreaseCacheLimit T h = Some T' \<and> moved T HS (program Out HS fl) T' fl Out"
proof -
  have J: "caches_ok T HS fl Out" "ring_ok T HS" "budget_ok T (set HS)" using I by (simp_all add: pool_ok_def)
  have "HS \<noteq> [] \<or> 0 < sint (unclaimed_cache_space T)" using h by auto
  from IncreaseCacheLimitLocked_ok [OF J(2,3) subset_refl h ring_okD(7) [OF J(2) h] this] obtain T' where
    T': "IncreaseCacheLimitLocked T h = Some T'" "limits_changed T T'" "ring_ok T' HS" "budget_ok T' (set HS)" by blast
  then have "moved T HS (program Out HS fl) T' fl Out"
    using caches_ok_limits [OF J(1) T'(2)] rest_same_limits [OF T'(2)] limits_changedD(1) [OF T'(2)]
    by (simp add: moved_def pool_ok_def)
  then show ?thesis using T'(1) by (auto simp: IncreaseCacheLimit_def)
qed

lemma Scavenge_ok:
  assumes I: "pool_ok T HS fl Out" and h: "h \<in> set HS"
  shows "\<exists>T' fl' Out'. Scavenge E h T = Some T' \<and> moved T HS (program Out HS fl) T' fl' Out'"
proof -
  have J: "caches_ok T HS fl Out" "ring_ok T HS" using I by (simp_all add: pool_ok_def)
  note D = caches_okD [OF J(1)]
  have h0: "h \<noteq> 0" using ring_okD(7) [OF J(2) h] .
  have "0 + kNumClasses \<le> kNumClasses" by simp
  from Scavenge_loop_ok [OF D(1) D(3) [OF h] D(4) [OF h] this] obtain S' C' l' where
    S': "Scavenge_loop E 0 kNumClasses (central T, caches T h) = Some (S', C')"
    "release_post 8192 (central T) (caches T h) Out (fl h) S' C' l'" by blast
  let ?T = "T\<lparr>central := S', caches := (caches T)(h := C')\<rparr>"
  note M = moved_release [OF I h S'(2)]
  then have I': "pool_ok ?T HS (fl(h := l')) (released Out (fl h) l')" and e: "program (released Out (fl h) l') HS (fl(h := l')) = program Out HS fl"
    by (simp_all add: moved_def)
  from IncreaseCacheLimit_ok [OF I' h, unfolded e] obtain T' where
    T': "IncreaseCacheLimit ?T h = Some T'" "moved ?T HS (program Out HS fl) T' (fl(h := l')) (released Out (fl h) l')" by blast
  have "Scavenge E h T = Some T'"
    using T'(1) on_cache_Some [where f = "Scavenge_loop E 0 kNumClasses", OF h0 S'(1)] by (simp add: Scavenge_def)
  with moved_trans [OF M T'(2)] show ?thesis by blast
qed

lemma on_Cleanup_ok:
  assumes I: "pool_ok T HS fl Out" and h: "h \<in> set HS"
  shows "\<exists>S' C' l' Out'. on_cache h (Cleanup E) T = Some (T\<lparr>central := S', caches := (caches T)(h := C')\<rparr>) \<and> same_cache (caches T h) C' \<and>
    moved T HS (program Out HS fl) (T\<lparr>central := S', caches := (caches T)(h := C')\<rparr>) (fl(h := l')) Out' \<and> (\<forall>c<kNumClasses. l' c = [])"
proof -
  have J: "caches_ok T HS fl Out" "ring_ok T HS" using I by (simp_all add: pool_ok_def)
  note D = caches_okD [OF J(1)]
  have h0: "h \<noteq> 0" using ring_okD(7) [OF J(2) h] .
  have n: "0 + kNumClasses \<le> kNumClasses" "(8192::nat) < 2 ^ 31" by simp_all
  from Cleanup_loop_ok [OF D(1) D(3) [OF h] D(4) [OF h] n] obtain S' C' l' where
    S': "Cleanup_loop E 0 kNumClasses (central T, caches T h) = Some (S', C')"
    "release_post 8192 (central T) (caches T h) Out (fl h) S' C' l'" "\<forall>i. l' i = (if 0 \<le> i \<and> i < 0 + kNumClasses then [] else fl h i)" by blast
  have "Cleanup E (central T, caches T h) = Some (S', C')" using S'(1) by (simp add: Cleanup_def)
  note run = on_cache_Some [where f = "Cleanup E", OF h0 this]
  have "\<forall>c<kNumClasses. l' c = []" using S'(3) by simp
  with run moved_release [OF I h S'(2)] release_postD(4) [OF S'(2)] show ?thesis by blast
qed

text \<open>The \<open>or\<close> of two headrooms is negative just if one of them is.\<close>

lemma sint_or_neg: "(sint (a OR b) < 0) = (sint (a :: 64 word) < 0 \<or> sint b < 0)"
  unfolding bit_last_iff [symmetric] by (simp add: bit_or_iff)

lemma list_headroom: "sint (ucast (a :: 16 word) - ucast (b :: 16 word) :: 64 word) = int (unat a) - int (unat b)"
proof -
  have lt: "unat b < 2 ^ 16" for b :: "16 word" using unsigned_less [of b, where ?'a = nat] by simp
  have w: "(ucast b :: 64 word) = of_nat (unat b)" for b :: "16 word" by (simp add: unsigned_of_nat of_nat_unat)
  have a: "sint (ucast a :: 64 word) = int (unat a)"
    using sint_add_small [of 0 "int (unat a)"] lt [of a] unfolding w by (simp del: of_nat_unat)
  have "sint (ucast a - ucast b :: 64 word) = sint (ucast a - of_nat (unat b) :: 64 word)" unfolding w ..
  also have "\<dots> = sint (ucast a :: 64 word) - int (unat b)" by (rule sint_sub_nat) (use a lt [of b] in \<open>simp del: of_nat_unat\<close>)
  finally show ?thesis unfolding a .
qed

lemma kept_push: "kept Out (l(c := p # l c)) k = (if k = c then kept Out l c - {p} else kept Out l k)"
  by (auto simp: kept_def)

text \<open>The state before the size limit is looked at.\<close>

lemma Deallocate_list_ok:
  assumes I: "pool_ok T HS fl Out" and h: "h \<in> set HS" and c: "c < kNumClasses" and p: "p \<in> program Out HS fl c"
  shows "\<exists>S1 C1 S' C' l' Out'. on_cache h (Deallocate_push c p) T = Some (T\<lparr>central := S1, caches := (caches T)(h := C1)\<rparr>) \<and>
    (if fl_length (tc_lists C1 c) > fl_max_length (tc_lists C1 c)
     then on_cache h (ListTooLong E c) (T\<lparr>central := S1, caches := (caches T)(h := C1)\<rparr>)
     else Some (T\<lparr>central := S1, caches := (caches T)(h := C1)\<rparr>)) = Some (T\<lparr>central := S', caches := (caches T)(h := C')\<rparr>) \<and>
    moved T HS ((program Out HS fl)(c := program Out HS fl c - {p})) (T\<lparr>central := S', caches := (caches T)(h := C')\<rparr>) (fl(h := l')) Out'"
proof -
  have J: "caches_ok T HS fl Out" "ring_ok T HS" "budget_ok T (set HS)" using I by (simp_all add: pool_ok_def)
  note D = caches_okD [OF J(1)]
  have h0: "h \<noteq> 0" using ring_okD(7) [OF J(2) h] .
  have pk: "p \<in> kept Out (fl h) c" using p program_split [OF h, of Out fl c] by blast
  let ?l1 = "(fl h)(c := p # fl h c)"
  obtain S1 C1 where 1: "Deallocate_push c p (central T, caches T h) = Some (S1, C1)" "ok S1 Out" "sizemap S1 = sizemap (central T)"
    "same_cache (caches T h) C1" "cache_ok 8193 (sizemap (central T)) (object_mem S1) C1 ?l1" "owned Out ?l1"
    "\<And>y. y \<noteq> p \<Longrightarrow> object_mem S1 y = object_mem (central T) y"
    using Deallocate_push_ok [OF D(1) D(3) [OF h] D(4) [OF h] c pk] by blast
  let ?T1 = "T\<lparr>central := S1, caches := (caches T)(h := C1)\<rparr>" and ?l = "tc_lists C1 c"
  have K1: "cache_ok 8193 (sizemap S1) (object_mem S1) C1 ?l1" using 1(5) unfolding 1(3) .
  have F: "fl_ok (object_mem S1) (num_objects_to_move (sizemap S1) c) ?l (p # fl h c)" using cache_okD(1) [OF K1 c] by simp
  have len: "length (?l1 k) \<le> 8192" if "k < kNumClasses" "k \<noteq> c" for k using cache_okD(2) [OF D(3) [OF h] that(1)] that(2) by simp
  obtain S' C' l' where 2: "(if fl_length ?l > fl_max_length ?l then on_cache h (ListTooLong E c) ?T1 else Some ?T1) =
      Some (T\<lparr>central := S', caches := (caches T)(h := C')\<rparr>)" "release_post 8192 S1 C1 Out ?l1 S' C' l'"
  proof (cases "fl_length ?l > fl_max_length ?l")
    case True
    obtain S' C' where r: "ListTooLong E c (S1, C1) = Some (S', C')"
      "release_post 8193 S1 C1 Out ?l1 S' C' (?l1(c := drop (nat (num_objects_to_move (sizemap S1) c)) (?l1 c)))"
      using ListTooLong_ok [OF 1(2) K1 1(6) c] by auto
    let ?l2 = "?l1(c := drop (nat (num_objects_to_move (sizemap S1) c)) (?l1 c))"
    have b: "0 < num_objects_to_move (sizemap S1) c" using batch_size [OF 1(2) owned_class [OF 1(2,6) c] c] by simp
    have "length (?l2 k) \<le> 8192" if "k < kNumClasses" for k
      using len [OF that] cache_okD(2) [OF K1 c] b by (cases "k = c") auto
    from cache_ok_mono [OF release_postD(2) [OF r(2)] this] have "release_post 8192 S1 C1 Out ?l1 S' C' ?l2"
      using r(2) unfolding release_post_def by blast
    moreover have "on_cache h (ListTooLong E c) ?T1 = Some (T\<lparr>central := S', caches := (caches T)(h := C')\<rparr>)"
      using on_cache_Some [where f = "ListTooLong E c" and T = ?T1, OF h0] r(1) by simp
    ultimately show thesis using that True by simp
  next
    case False
    then have "unat (fl_length ?l) \<le> unat (fl_max_length ?l)" by (simp add: word_le_nat_alt not_less)
    then have "length (?l1 c) \<le> 8192" using fl_okD(2,5) [OF F] by simp
    then have "length (?l1 k) \<le> 8192" if "k < kNumClasses" for k using len [OF that] by (cases "k = c") auto
    from cache_ok_mono [OF K1 this] have "release_post 8192 S1 C1 Out ?l1 S1 C1 ?l1" by (rule release_post_refl [OF 1(2)])
    then show thesis using that False by simp
  qed
  note P = release_postD [OF 2(2)]
  let ?T = "T\<lparr>central := S', caches := (caches T)(h := C')\<rparr>" and ?O = "released Out ?l1 l'" and ?fl = "fl(h := l')"
  let ?P = "(program Out HS fl)(c := program Out HS fl c - {p})"
  have k: "kept ?O l' k = kept Out ?l1 k" for k by (rule kept_released [OF P(5) 1(6)])
  have o: "owned ?O l'" by (rule owned_released [OF 1(6) P(5)])
  have sm: "sizemap S' = sizemap (central T)" using P(3) 1(3) by simp
  have m: "object_mem S' y = object_mem (central T) y" if "k < kNumClasses" "y \<in> kept Out (fl h) k" "y \<noteq> p" for k y
  proof -
    have "y \<in> kept ?O l' k" using that(2,3) unfolding k kept_push by (auto split: if_splits)
    then have "object_mem S' y = object_mem S1 y" using P(7) outsI [where Out = ?O, OF that(1), of y] by (simp add: kept_def)
    then show ?thesis using 1(7) [OF that(3)] by simp
  qed
  have pf: "p \<notin> set (fl a k)" if "a \<in> set HS" for a k
  proof
    assume "p \<in> set (fl a k)"
    then have "p \<in> Out k" "p \<in> Out c" using ownedD [OF D(4) [OF that]] programD(1) [OF p] by blast+
    then have "k = c" using classes_apart [OF D(1) _ c] classes [OF D(1)] by blast
    then show False using programD(2) [OF p that] \<open>p \<in> set (fl a k)\<close> by blast
  qed
  have ok': "caches_ok ?T HS ?fl ?O"
  proof (rule caches_ok_upd [OF J(1) h P(1) sm _ o, where Q = "{p}"])
    show "cache_ok 8192 (sizemap (central T)) (object_mem S') C' l'" using P(2) unfolding 1(3) .
    show "kept Out (fl h) k - {p} \<subseteq> kept ?O l' k" for k unfolding k kept_push by auto
    show "set (fl a k) \<inter> {p} = {}" if "a \<in> set HS" "a \<noteq> h" for a k
      using pf [OF that(1), of k] by simp
  qed (use m in auto)
  have same: "same_cache (caches T h) C'" using 1(4) P(4) by (rule same_cache_trans)
  have pe: "program ?O HS ?fl k = ?P k" for k
    unfolding program_upd [OF h] k kept_push fun_upd_apply program_split [OF h, of Out fl] by auto
  have "moved T HS ?P ?T ?fl ?O"
    unfolding moved_def pool_ok_def
  proof (intro conjI allI ballI impI)
    show "program ?O HS ?fl = ?P" by (rule ext) (rule pe)
    fix y assume y: "y \<in> outs (sizemap (central T)) A ?P"
    have po: "p \<notin> outs (sizemap (central T)) A ?P"
      by (rule apart [OF D(1) c programD(1) [OF p]]) (use programD(1) in auto)
    have "?P k \<subseteq> ?O k" for k using programD [of _ Out HS fl k] h by (auto simp: released_def)
    then have "outs (sizemap S1) A ?P \<subseteq> outs (sizemap S1) A ?O" by (rule outs_mono)
    then have "y \<in> outs (sizemap S1) A ?O" using y unfolding 1(3) by blast
    then have "object_mem S' y = object_mem S1 y" by (rule P(7))
    also have "\<dots> = object_mem (central T) y" by (rule 1(7)) (use y po in blast)
    finally show "object_mem (central ?T) y = object_mem (central T) y" by simp
  qed (use ok' ring_ok_cache [OF J(2) same] budget_ok_cache [OF J(3) same] rest_same_cache [OF same sm] in simp_all)
  then show ?thesis using on_cache_Some [where f = "Deallocate_push c p", OF h0 1(1)] 2(1) by blast
qed

lemma Deallocate_ok:
  assumes I: "pool_ok T HS fl Out" and h: "h \<in> set HS" and c: "c < kNumClasses" and p: "p \<in> program Out HS fl c"
  shows "\<exists>T' fl' Out'. Deallocate E p c h T = Some T' \<and> moved T HS ((program Out HS fl)(c := program Out HS fl c - {p})) T' fl' Out'"
proof -
  let ?P = "(program Out HS fl)(c := program Out HS fl c - {p})"
  obtain S1 C1 S2 C2 l2 Out2 where
    1: "on_cache h (Deallocate_push c p) T = Some (T\<lparr>central := S1, caches := (caches T)(h := C1)\<rparr>)" and
    2: "(if fl_length (tc_lists C1 c) > fl_max_length (tc_lists C1 c)
     then on_cache h (ListTooLong E c) (T\<lparr>central := S1, caches := (caches T)(h := C1)\<rparr>)
     else Some (T\<lparr>central := S1, caches := (caches T)(h := C1)\<rparr>)) = Some (T\<lparr>central := S2, caches := (caches T)(h := C2)\<rparr>)" and
    M: "moved T HS ?P (T\<lparr>central := S2, caches := (caches T)(h := C2)\<rparr>) (fl(h := l2)) Out2"
    using Deallocate_list_ok [OF assms] by blast
  let ?T1 = "T\<lparr>central := S1, caches := (caches T)(h := C1)\<rparr>" and ?T2 = "T\<lparr>central := S2, caches := (caches T)(h := C2)\<rparr>"
  let ?l = "tc_lists C1 c" and ?size = "tc_max_size C1 - tc_size C1 - 1"
  let ?lh = "ucast (fl_max_length ?l) - ucast (fl_length ?l) :: 64 word"
  have neg: "(sint ?lh < 0) = (fl_length ?l > fl_max_length ?l)"
    unfolding list_headroom by (simp add: word_less_nat_alt del: of_nat_unat)
  have 2: "(if sint ?lh < 0 then on_cache h (ListTooLong E c) ?T1 else Some ?T1) = Some ?T2" using 2 unfolding neg .
  have run: "Deallocate E p c h T = (if sint (?lh OR ?size) < 0 then
      if tc_size (caches ?T2 h) \<ge> tc_max_size (caches ?T2 h) then Scavenge E h ?T2 else Some ?T2 else Some ?T1)"
    using 1 2 by (simp add: Deallocate_def Let_def split: if_splits)
  show ?thesis
  proof (cases "sint (?lh OR ?size) < 0")
    case False
    then have "\<not> sint ?lh < 0" unfolding sint_or_neg by blast
    then have "?T2 = ?T1" using 2 by simp
    then show ?thesis using run False M by metis
  next
    case True
    have I2: "pool_ok ?T2 HS (fl(h := l2)) Out2" and e: "program Out2 HS (fl(h := l2)) = ?P" using M by (simp_all add: moved_def)
    show ?thesis
    proof (cases "tc_size (caches ?T2 h) \<ge> tc_max_size (caches ?T2 h)")
      case t: True
      from Scavenge_ok [OF I2 h, unfolded e] obtain T' fl' Out' where s: "Scavenge E h ?T2 = Some T'" "moved ?T2 HS ?P T' fl' Out'" by blast
      have "Deallocate E p c h T = Some T'" using run True t s(1) by simp
      with moved_trans [OF M s(2)] show ?thesis by blast
    next
      case f: False
      then have "Deallocate E p c h T = Some ?T2" using run True by simp
      with M show ?thesis by blast
    qed
  qed
qed

lemma program_write_ok:
  assumes I: "pool_ok T HS fl Out" and m: "\<And>y. y \<notin> outs (sizemap (central T)) A (program Out HS fl) \<Longrightarrow> m y = object_mem (central T) y"
  shows "pool_ok (T\<lparr>central := (central T)\<lparr>object_mem := m\<rparr>\<rparr>) HS fl Out"
proof -
  have J: "caches_ok T HS fl Out" "ring_ok T HS" "budget_ok T (set HS)" using I by (simp_all add: pool_ok_def)
  note D = caches_okD [OF J(1)]
  have S: "ok ((central T)\<lparr>object_mem := m\<rparr>) Out"
    by (rule store [OF D(1)], rule m) (use outs_mono [of "program Out HS fl" Out] programD(1) in blast)
  have "m y = object_mem (central T) y" if h: "h \<in> set HS" and c: "c < kNumClasses" and y: "y \<in> set (fl h c)" for h c y
  proof (rule m, rule apart [OF D(1) c ownedD [OF D(4) [OF h] y]])
    show "y \<notin> program Out HS fl c" using y h programD(2) by blast
    show "program Out HS fl k \<subseteq> Out k" for k using programD(1) by blast
  qed
  then have "cache_ok 8192 (sizemap (central T)) m (caches T h) (fl h)" if "h \<in> set HS" for h
    using cache_ok_frame [OF D(3) [OF that]] that by blast
  then have "caches_ok (T\<lparr>central := (central T)\<lparr>object_mem := m\<rparr>\<rparr>) HS fl Out" using D S by (simp add: caches_ok_def)
  moreover have "budget_ok (T\<lparr>central := (central T)\<lparr>object_mem := m\<rparr>\<rparr>) (set HS)"
    by (rule budget_cong [OF J(3)]) (simp_all add: limit_of_def)
  ultimately show ?thesis using J(2) by (simp add: pool_ok_def ring_ok_def)
qed

end

end
