(* ===== verification/Thread_Life.thy ===== *)
theory Thread_Life
  imports Thread_Pool
begin

text \<open>
  Thread caches that are created and deleted: \<open>NewHeap\<close>, \<open>DeleteCache\<close> and the functions that keep
  the cache of a thread in its local data. \<open>threads_ok\<close> is the invariant of the whole state; the memory
  \<open>Fm\<close> of the cache objects comes from the metadata that the page heap uses too.
\<close>

section \<open>The list of caches\<close>

lemma linked_prev: "linked cs q p (xs @ h # ys) \<Longrightarrow> tc_prev (cs h) = (if xs = [] then q else last xs)"
  by (induction xs arbitrary: q p) auto

lemma linked_tail: "linked cs q p (xs @ h # ys) \<Longrightarrow> linked cs h (tc_next (cs h)) ys"
  by (induction xs arbitrary: q p) auto

lemma linked_remove:
  assumes "linked cs q p (xs @ h # ys)" "distinct (xs @ h # ys)"
    and n: "tc_next (cs h) \<noteq> 0 \<Longrightarrow> tc_prev (cs' (tc_next (cs h))) = (if xs = [] then q else last xs)"
    and p: "xs \<noteq> [] \<Longrightarrow> tc_next (cs' (last xs)) = tc_next (cs h)"
    and o: "\<And>x. x \<in> set xs \<union> set ys \<Longrightarrow> (x \<noteq> tc_next (cs h) \<longrightarrow> tc_prev (cs' x) = tc_prev (cs x)) \<and>
      (xs = [] \<or> x \<noteq> last xs \<longrightarrow> tc_next (cs' x) = tc_next (cs x))"
  shows "linked cs' q (if xs = [] then tc_next (cs h) else p) (xs @ ys)"
  using assms
proof (induction xs arbitrary: q p)
  case Nil
  show ?case
  proof (cases ys)
    case (Cons a zs)
    have l: "linked cs h a (a # zs)" "tc_next (cs h) = a" "a \<noteq> 0" using Nil.prems(1) Cons by auto
    have "tc_next (cs' x) = tc_next (cs x) \<and> tc_prev (cs' x) = tc_prev (cs x)" if "x \<in> set zs" for x
      using Nil.prems(5) [of x] Nil.prems(2) that Cons l(2) by auto
    then have "linked cs' a (tc_next (cs a)) zs = linked cs a (tc_next (cs a)) zs" by (rule linked_cong)
    moreover have "tc_next (cs' a) = tc_next (cs a)" using Nil.prems(5) [of a] Cons by simp
    ultimately show ?thesis using l Nil.prems(3) Cons by simp
  qed (use Nil.prems(1) in simp)
next
  case (Cons x xs)
  have x: "p = x" "x \<noteq> 0" "tc_prev (cs x) = q" "linked cs x (tc_next (cs x)) (xs @ h # ys)" using Cons.prems(1) by simp_all
  have nx: "tc_next (cs h) \<noteq> x"
    using linked_next [OF x(4), of h] Cons.prems(2) x(2) linked_tail [OF x(4)] by (cases ys) auto
  have IH: "linked cs' x (if xs = [] then tc_next (cs h) else tc_next (cs x)) (xs @ ys)"
  proof (rule Cons.IH [OF x(4)])
    show "distinct (xs @ h # ys)" using Cons.prems(2) by simp
    show "tc_next (cs h) \<noteq> 0 \<Longrightarrow> tc_prev (cs' (tc_next (cs h))) = (if xs = [] then x else last xs)" using Cons.prems(3) by simp
    show "xs \<noteq> [] \<Longrightarrow> tc_next (cs' (last xs)) = tc_next (cs h)" using Cons.prems(4) by simp
    fix y assume y: "y \<in> set xs \<union> set ys"
    then have yx: "y \<noteq> x" using Cons.prems(2) by auto
    show "(y \<noteq> tc_next (cs h) \<longrightarrow> tc_prev (cs' y) = tc_prev (cs y)) \<and> (xs = [] \<or> y \<noteq> last xs \<longrightarrow> tc_next (cs' y) = tc_next (cs y))"
      using Cons.prems(5) [of y] y yx by (auto split: if_splits)
  qed
  have px: "tc_prev (cs' x) = q" using Cons.prems(5) [of x] nx x(3) by auto
  have "tc_next (cs' x) = (if xs = [] then tc_next (cs h) else tc_next (cs x))"
    using Cons.prems(4) Cons.prems(5) [of x] Cons.prems(2) by (cases "xs = []") auto
  then show ?case using IH px x(1,2) by simp
qed

lemma linked_push:
  assumes l: "linked cs 0 p hs" and h: "h \<noteq> 0" "h \<notin> set hs" "distinct hs"
    and n: "tc_next (cs' h) = p" "tc_prev (cs' h) = 0"
    and o: "\<And>x. x \<in> set hs \<Longrightarrow> tc_next (cs' x) = tc_next (cs x) \<and> tc_prev (cs' x) = (if x = p then h else tc_prev (cs x))"
  shows "linked cs' 0 h (h # hs)"
proof (cases hs)
  case Nil
  then show ?thesis using l h n by simp
next
  case (Cons a zs)
  have l': "p = a" "a \<noteq> 0" "linked cs a (tc_next (cs a)) zs" using l Cons by simp_all
  have "tc_next (cs' x) = tc_next (cs x) \<and> tc_prev (cs' x) = tc_prev (cs x)" if "x \<in> set zs" for x
    using o [of x] h(3) that Cons l'(1) by auto
  then have "linked cs' a (tc_next (cs a)) zs" using l'(3) linked_cong by blast
  then show ?thesis using o [of a] l' h(1) n Cons by simp
qed

lemma ring_ok_cong:
  assumes R: "ring_ok T HS" and c: "\<And>x. x \<in> set HS \<Longrightarrow> tc_next (caches T' x) = tc_next (caches T x) \<and> tc_prev (caches T' x) = tc_prev (caches T x)"
    and e: "thread_heaps T' = thread_heaps T" "thread_heap_count T' = thread_heap_count T" "next_memory_steal T' = next_memory_steal T"
  shows "ring_ok T' HS"
proof -
  have "linked (caches T') 0 (thread_heaps T) HS = linked (caches T) 0 (thread_heaps T) HS" using c by (rule linked_cong)
  then show ?thesis using R e by (simp add: ring_ok_def)
qed

section \<open>Memory for the caches\<close>

lemma pha_inv_mono: "pha_inv sz a U Own \<Longrightarrow> Own \<subseteq> Own' \<Longrightarrow> pha_inv sz a U Own'"
  unfolding pha_inv_def by (elim conjE exE, intro conjI exI) (assumption | blast intro: objs_ok_mono)+

lemma heap_view_metadata:
  assumes R: "heap_view E res Fm h V L" and P: "pha_inv sz a U Fm" and sz: "0 < sz" "sz \<le> kAllocIncrement"
  shows "\<exists>r. PageHeapAllocator_New (os_calls E) sz (heap_meta h, a) = Some r \<and>
    (\<forall>p m a'. r = Ret (p, m, a') \<longrightarrow> p \<noteq> 0 \<and> p \<notin> U \<and>
      (\<exists>Fm'. pha_inv sz a' (insert p U) Fm' \<and> heap_view E res Fm' (h\<lparr>heap_meta := m\<rparr>) V L \<and> Fm' \<subseteq> {..<2 ^ 42}))"
proof -
  from R obtain X L' where K: "os_contract (os_calls E) res" "\<And>x. res x \<subseteq> {..<2 ^ 42}" "heap_limit_mb E = 0"
    "heap_inv res Fm cheaders h X L' {}" "imbalance h X = 0" "V = inuse_view (spans h) X"
    "\<And>H. H \<in> cheaders \<Longrightarrow> L H = L' H" by (rule heap_viewE) blast
  let ?P = "page_bytes (heap_pages (spans h) X)"
  obtain O1 O2 W where m: "meta_inv res (heap_meta h) (O1 \<union> O2 \<union> ?P)" "O1 \<inter> O2 = {}" "(O1 \<union> O2) \<inter> ?P = {}"
    "span_objs_ok (span_allocator h) X O1" "pha_inv sizeof_StackTrace (stacktrace_allocator h) W O2" "Fm \<subseteq> O2"
    using heap_invD(7) [OF K(4)] unfolding mem_ok_def by blast
  have f: "meta_inv res (heap_meta h) (O2 \<union> (O1 \<union> ?P))" "O2 \<inter> (O1 \<union> ?P) = {}"
    using m(1-3) by (simp_all add: Un_ac, blast)
  obtain r where r: "PageHeapAllocator_New (os_calls E) sz (heap_meta h, a) = Some r"
    "\<And>p m a'. r = Ret (p, m, a') \<Longrightarrow> p \<noteq> 0 \<and> p \<notin> U \<and> (\<exists>Own'. O2 \<subseteq> Own' \<and> Own' \<inter> (O1 \<union> ?P) = {} \<and>
        meta_inv res m (Own' \<union> (O1 \<union> ?P)) \<and> pha_inv sz a' (insert p U) Own')"
    using PageHeapAllocator_New_spec [OF K(1) f pha_inv_mono [OF P m(6)] sz] by blast
  have "p \<noteq> 0 \<and> p \<notin> U \<and> (\<exists>Fm'. pha_inv sz a' (insert p U) Fm' \<and> heap_view E res Fm' (h\<lparr>heap_meta := m'\<rparr>) V L \<and> Fm' \<subseteq> {..<2 ^ 42})"
    if R': "r = Ret (p, m', a')" for p m' a'
  proof -
    obtain O3 where O: "p \<noteq> 0" "p \<notin> U" "O2 \<subseteq> O3" "O3 \<inter> (O1 \<union> ?P) = {}" "meta_inv res m' (O3 \<union> (O1 \<union> ?P))" "pha_inv sz a' (insert p U) O3"
      using r(2) [OF R'] by blast
    have "O1 \<inter> O3 = {}" "(O1 \<union> O3) \<inter> ?P = {}" using O(4) m(3) by blast+
    moreover have "meta_inv res m' (O1 \<union> O3 \<union> ?P)" using O(5) by (simp add: Un_ac)
    ultimately have "mem_ok res O3 m' (span_allocator h) (stacktrace_allocator h) X (heap_pages (spans h) X)"
      unfolding mem_ok_def using m(4) pha_inv_mono [OF m(5) O(3)] by blast
    then have "heap_inv res O3 cheaders (h\<lparr>heap_meta := m'\<rparr>) X L' {}"
      using heap_invD [OF K(4)] by (intro heap_invI) (simp_all add: sums_ok_def)
    moreover have "imbalance (h\<lparr>heap_meta := m'\<rparr>) X = 0" using K(5) by (simp add: imbalance_def)
    ultimately have "heap_view E res O3 (h\<lparr>heap_meta := m'\<rparr>) V L"
      unfolding heap_view_def using K(1-3,6,7) by auto
    moreover have "O3 \<subseteq> {..<2 ^ 42}" using meta_inv_res [OF O(5)] K(2) by blast
    ultimately show ?thesis using O(1,2,6) by blast
  qed
  with r(1) show ?thesis by blast
qed

lemma heap_frame_metadata:
  assumes R: "heap_frame E res B Fm h V L" and P: "pha_inv sz a U Fm" and sz: "0 < sz" "sz \<le> kAllocIncrement"
  shows "\<exists>r. PageHeapAllocator_New (os_calls E) sz (heap_meta h, a) = Some r \<and>
    (\<forall>p m a'. r = Ret (p, m, a') \<longrightarrow> p \<noteq> 0 \<and> p \<notin> U \<and>
      (\<exists>Fm'. pha_inv sz a' (insert p U) Fm' \<and> heap_frame E res B Fm' (h\<lparr>heap_meta := m\<rparr>) V L \<and> Fm' \<subseteq> {..<2 ^ 42}))"
proof -
  note F = heap_frameD [OF R]
  have "cache_right (h\<lparr>heap_meta := m\<rparr>) V B" for m by (rule cache_right_same [OF F(4)]) simp
  then have "heap_view E res Fm' (h\<lparr>heap_meta := m\<rparr>) (V ++ B) L \<Longrightarrow> heap_frame E res B Fm' (h\<lparr>heap_meta := m\<rparr>) V L" for Fm' m
    using F(2,3) unfolding heap_frame_def by blast
  with heap_view_metadata [OF F(1) P sz] show ?thesis by blast
qed

lemma pha_inv_card: "pha_inv sz a U Own \<Longrightarrow> 0 < sz \<Longrightarrow> Own \<subseteq> {..<2 ^ 42} \<Longrightarrow> card U \<le> 2 ^ 42"
proof -
  assume "pha_inv sz a U Own" and sz: "0 < sz" and o: "Own \<subseteq> {..<2 ^ 42}"
  then obtain fl where "objs_ok sz (Own - pha_area a) (U \<union> set fl)" by (auto elim: pha_invE)
  then have "x \<in> Own" if "x \<in> U" for x using objs_okD(2) [of sz "Own - pha_area a" "U \<union> set fl" x] that sz by fastforce
  then have "U \<subseteq> {..<2 ^ 42}" using o by blast
  from card_mono [OF _ this] show "card U \<le> 2 ^ 42" by simp
qed

section \<open>A new cache\<close>

text \<open>The cache \<open>h\<close> is initialised; of the others only the limits may change.\<close>

lemma Cache_Init_ok:
  assumes R: "ring_ok T HS" and B: "budget_ok T (set HS)" and h: "h \<noteq> 0" "h \<notin> set HS" and n: "card (insert h (set HS)) \<le> 2 ^ 42"
  shows "\<exists>T' T1. Cache_Init tid h T = Some T' \<and> limits_changed T1 T' \<and> ring_ok T' HS \<and> budget_ok T' (insert h (set HS)) \<and>
    T1 = T\<lparr>caches := (caches T)(h := (caches T h)\<lparr>tc_size := 0, tc_max_size := 0, tc_next := 0, tc_prev := 0, tc_tid := tid,
      tc_in_setspecific := False, tc_lists := init_free_lists (tc_lists (caches T h))\<rparr>)\<rparr>"
proof -
  let ?H = "insert h (set HS)" and ?f = "\<lambda>C. C\<lparr>tc_next := 0, tc_prev := 0, tc_tid := tid, tc_in_setspecific := False,
       tc_lists := init_free_lists (tc_lists C)\<rparr>"
  define C0 where "C0 = (caches T h)\<lparr>tc_size := 0, tc_max_size := 0\<rparr>"
  define T0 where "T0 = T\<lparr>caches := (caches T)(h := C0)\<rparr>"
  have R0: "ring_ok T0 HS" by (rule ring_ok_cong [OF R]) (use h(2) in \<open>auto simp: T0_def\<close>)
  have "budget_ok T0 (set HS)" by (rule budget_cong [OF B]) (use h(2) in \<open>auto simp: T0_def limit_of_def\<close>)
  then have B0: "budget_ok T0 ?H" by (rule budget_insert) (use h(2) in \<open>simp_all add: T0_def limit_of_def C0_def\<close>)
  have "HS \<noteq> [] \<or> 0 < sint (unclaimed_cache_space T0)"
    using budget_okD(2,5) [OF B] limits_unfold by (cases HS) (auto simp: T0_def simp del: of_nat_unat)
  from IncreaseCacheLimitLocked_ok [OF R0 B0 _ _ h(1) this] obtain T2 where
    2: "IncreaseCacheLimitLocked T0 h = Some T2" "limits_changed T0 T2" "ring_ok T2 HS" "budget_ok T2 ?H"
    "0 < sint (unclaimed_cache_space T0) \<longrightarrow> limit_of T2 h = limit_of T0 h + kStealAmount"
    "sint (unclaimed_cache_space T0) \<le> 0 \<longrightarrow> unclaimed_cache_space T2 = unclaimed_cache_space T0" by blast
  obtain T3 where 3: "(if tc_max_size (caches T2 h) = 0 then do {
          T \<leftarrow> upd_cache T2 h (\<lambda>C. C\<lparr>tc_max_size := of_nat kMinThreadCacheSize\<rparr>);
          let T = T\<lparr>unclaimed_cache_space := unclaimed_cache_space T - of_nat kMinThreadCacheSize\<rparr> in do {
            CHECK (sint (unclaimed_cache_space T) < 0);
            Some T } }
        else Some T2) = Some T3" "limits_changed T0 T3" "ring_ok T3 HS" "budget_ok T3 ?H"
  proof (cases "tc_max_size (caches T2 h) = 0")
    case False
    then show thesis using that [of T2] 2 by simp
  next
    case True
    then have l0: "limit_of T2 h = 0" by (simp add: limit_of_def)
    have u: "sint (unclaimed_cache_space T2) \<le> 0"
    proof (rule ccontr)
      assume "\<not> sint (unclaimed_cache_space T2) \<le> 0"
      then have "0 < sint (unclaimed_cache_space T0)" using 2(6) by (cases "0 < sint (unclaimed_cache_space T0)") simp_all
      then show False using 2(5) l0 limits_unfold(3) by simp
    qed
    let ?T = "T2\<lparr>caches := (caches T2)(h := (caches T2 h)\<lparr>tc_max_size := of_nat kMinThreadCacheSize\<rparr>),
      unclaimed_cache_space := unclaimed_cache_space T2 - of_nat kMinThreadCacheSize\<rparr>"
    have lm: "limit_of ?T h = kMinThreadCacheSize"
      using unat_of_nat [of kMinThreadCacheSize, where ?'a = 64] by (simp add: limit_of_def kMinThreadCacheSize_def kMaxSize_def)
    note O = budget_overdraw [OF 2(4) insertI1 l0 u n, of ?T]
    have b: "budget_ok ?T ?H" "sint (unclaimed_cache_space ?T) < 0" by (rule O; use lm in \<open>simp add: limit_of_def\<close>)+
    have c: "limits_changed T2 ?T"
      by (rule limits_changedI [where cs = "caches ?T" and v = "next_memory_steal T2" and u = "unclaimed_cache_space ?T"]) simp_all
    have "ring_ok ?T HS" by (rule ring_ok_limits [OF 2(3) c]) (use ring_okD(4) [OF 2(3)] in simp)
    then show thesis using that [of ?T] True b c limits_changed_trans [OF 2(2) c] h(1) by (simp add: upd_cache_def)
  qed
  let ?T' = "T3\<lparr>caches := (caches T3)(h := ?f (caches T3 h))\<rparr>"
  let ?T1 = "T\<lparr>caches := (caches T)(h := ?f C0)\<rparr>"
  have run: "Cache_Init tid h T = Some ?T'"
    using 2(1) 3(1) h(1) unfolding Cache_Init_def upd_cache_def T0_def C0_def by (simp add: upd_cache_def)
  obtain cs v u where e: "T3 = T0\<lparr>caches := cs, next_memory_steal := v, unclaimed_cache_space := u\<rparr>"
    and c: "\<And>x. cs x = (caches T0 x)\<lparr>tc_max_size := tc_max_size (cs x)\<rparr>" using 3(2) unfolding limits_changed_def by blast
  obtain w where ch: "cs h = C0\<lparr>tc_max_size := w\<rparr>" using c [of h] by (simp add: T0_def)
  have "limits_changed ?T1 ?T'"
  proof (rule limits_changedI [where cs = "cs(h := ?f (cs h))" and v = v and u = u])
    show "(cs(h := ?f (cs h))) x = (caches ?T1 x)\<lparr>tc_max_size := tc_max_size ((cs(h := ?f (cs h))) x)\<rparr>" for x
      using c [of x] by (cases "x = h") (simp_all add: ch T0_def)
  qed (simp add: e T0_def)
  moreover have "ring_ok ?T' HS" by (rule ring_ok_cong [OF 3(3)]) (use h(2) in auto)
  moreover have "budget_ok ?T' ?H" by (rule budget_cong [OF 3(4)]) (auto simp: limit_of_def)
  ultimately show ?thesis using run by (intro exI [of _ ?T'] exI [of _ ?T1]) (simp add: C0_def)
qed

section \<open>The invariant of the whole state\<close>

text \<open>A thread has at most one cache; the pointers that threads keep lead to their own cache.\<close>

definition tls_ok :: "'os threads \<Rightarrow> addr list \<Rightarrow> bool" where
  "tls_ok T HS = (inj_on (\<lambda>h. tc_tid (caches T h)) (set HS) \<and> (\<forall>h\<in>set HS. \<not> tc_in_setspecific (caches T h)) \<and>
     (\<forall>me. key_value T me = local_heap T me \<and> min_size_for_slow_path T me = (if local_heap T me = 0 then 0 else kMaxSize + 1) \<and>
        (local_heap T me = 0 \<or> local_heap T me \<in> set HS \<and> tc_tid (caches T (local_heap T me)) = me)))"

lemma tls_okD:
  assumes "tls_ok T HS"
  shows "inj_on (\<lambda>h. tc_tid (caches T h)) (set HS)" "h \<in> set HS \<Longrightarrow> \<not> tc_in_setspecific (caches T h)"
    "key_value T me = local_heap T me" "min_size_for_slow_path T me = (if local_heap T me = 0 then 0 else kMaxSize + 1)"
  using assms unfolding tls_ok_def by (simp_all del: not_gr_zero)

lemma tls_ok_local: "tls_ok T HS \<Longrightarrow> local_heap T me \<noteq> 0 \<Longrightarrow> local_heap T me \<in> set HS \<and> tc_tid (caches T (local_heap T me)) = me"
  unfolding tls_ok_def by metis

lemma tls_ok_same: "tls_ok T HS \<Longrightarrow> rest_same T T' \<Longrightarrow> tls_ok T' HS"
  by (simp add: tls_ok_def rest_same_def inj_on_def)

definition threads_ok :: "'os heap_env \<Rightarrow> ('os \<Rightarrow> nat set) \<Rightarrow> (addr \<rightharpoonup> Span) \<Rightarrow> nat set \<Rightarrow> 'os threads \<Rightarrow> addr list \<Rightarrow>
    (addr \<Rightarrow> nat \<Rightarrow> addr list) \<Rightarrow> (nat \<Rightarrow> addr set) \<Rightarrow> bool" where
  "threads_ok E res B Fm T HS fl Out = (central_supply.pool_ok E res B Fm T HS fl Out \<and>
     pha_inv sizeof_ThreadCache (threadcache_allocator T) (set HS) Fm \<and> tls_ok T HS)"

lemma threads_okD:
  assumes "threads_ok E res B Fm T HS fl Out"
  shows "central_supply.pool_ok E res B Fm T HS fl Out" "pha_inv sizeof_ThreadCache (threadcache_allocator T) (set HS) Fm" "tls_ok T HS"
    "central_supply.caches_ok E res B Fm T HS fl Out" "ring_ok T HS" "budget_ok T (set HS)" "supply_ok E res B Fm (central T) Out"
  using assms by (simp_all add: threads_ok_def central_supply.pool_ok_def central_supply.caches_ok_def)

lemma threads_ok_moved:
  assumes I: "threads_ok E res B Fm T HS fl Out" and M: "central_supply.moved E res B Fm T HS P T' fl' Out'"
  shows "threads_ok E res B Fm T' HS fl' Out'"
proof -
  have m: "central_supply.pool_ok E res B Fm T' HS fl' Out'" "rest_same T T'" using M by (simp_all add: central_supply.moved_def)
  then show ?thesis using threads_okD(2,3) [OF I] tls_ok_same rest_sameD(1) [OF m(2)] by (simp add: threads_ok_def)
qed

text \<open>A new empty cache.\<close>

lemma FL_Init_ok: "fl_ok m b (FL_Init l) []"
  by (simp add: fl_ok_def FL_Init_def) (cases "b = 1", auto)

lemma NewHeap_ok:
  assumes I: "threads_ok E res B Fm T HS fl Out" and tid: "\<forall>h\<in>set HS. tc_tid (caches T h) \<noteq> tid"
  shows "\<exists>r. NewHeap E tid T = Some r \<and> (\<forall>h T'. r = Ret (h, T') \<longrightarrow> h \<noteq> 0 \<and> h \<notin> set HS \<and>
    (\<exists>Fm'. threads_ok E res B Fm' T' (h # HS) (fl(h := \<lambda>_. [])) Out) \<and> tc_tid (caches T' h) = tid \<and>
    tsd_inited T' = tsd_inited T \<and> object_mem (central T') = object_mem (central T) \<and> sizemap (central T') = sizemap (central T) \<and>
    program Out (h # HS) (fl(h := \<lambda>_. [])) = program Out HS fl)"
proof -
  note D = threads_okD [OF I]
  let ?S = "central T"
  obtain V L fr ch where C: "central_ok (heap_frame E res B Fm) ?S V L fr ch Out" "\<forall>c. num_objects_to_move (sizemap ?S) c \<le> 4096"
    "\<forall>c\<ge>kNumClasses. Out c = {}" using D(7) by (rule supply_okE)
  have sz: "0 < sizeof_ThreadCache" "sizeof_ThreadCache \<le> kAllocIncrement" by (simp_all add: sizeof_ThreadCache_def kAllocIncrement_def)
  obtain r where r: "PageHeapAllocator_New (os_calls E) sizeof_ThreadCache (heap_meta (pageheap ?S), threadcache_allocator T) = Some r"
    "\<And>p m a. r = Ret (p, m, a) \<Longrightarrow> p \<noteq> 0 \<and> p \<notin> set HS \<and>
      (\<exists>Fm'. pha_inv sizeof_ThreadCache a (insert p (set HS)) Fm' \<and> heap_frame E res B Fm' ((pageheap ?S)\<lparr>heap_meta := m\<rparr>) V L \<and> Fm' \<subseteq> {..<2 ^ 42})"
    using heap_frame_metadata [OF central_okD(2) [OF C(1)] D(2) sz] by blast
  show ?thesis
  proof (cases r)
    case OutOfMemory
    then show ?thesis using r(1) by (simp add: NewHeap_def)
  next
    case (Ret x)
    obtain h m a where x: "x = (h, m, a)" by (cases x)
    obtain Fm' where h: "h \<noteq> 0" "h \<notin> set HS" "pha_inv sizeof_ThreadCache a (insert h (set HS)) Fm'"
      "heap_frame E res B Fm' ((pageheap ?S)\<lparr>heap_meta := m\<rparr>) V L" "Fm' \<subseteq> {..<2 ^ 42}" using r(2) Ret x by blast
    let ?S' = "?S\<lparr>pageheap := (pageheap ?S)\<lparr>heap_meta := m\<rparr>\<rparr>"
    let ?T = "T\<lparr>central := ?S', threadcache_allocator := a\<rparr>"
    have S': "supply_ok E res B Fm' ?S' Out"
      by (rule supply_okI [of E res B Fm' ?S' V L fr ch]) (use C h(4) in \<open>simp_all add: central_ok_def\<close>)
    have R: "ring_ok ?T HS" by (rule ring_ok_cong [OF D(5)]) simp_all
    have B: "budget_ok ?T (set HS)" by (rule budget_cong [OF D(6)]) (simp_all add: limit_of_def)
    have n: "card (insert h (set HS)) \<le> 2 ^ 42" by (rule pha_inv_card [OF h(3) sz(1) h(5)])
    obtain T2 T1 where 2: "Cache_Init tid h ?T = Some T2" "limits_changed T1 T2" "ring_ok T2 HS" "budget_ok T2 (insert h (set HS))"
      "T1 = ?T\<lparr>caches := (caches ?T)(h := (caches ?T h)\<lparr>tc_size := 0, tc_max_size := 0, tc_next := 0, tc_prev := 0, tc_tid := tid,
        tc_in_setspecific := False, tc_lists := init_free_lists (tc_lists (caches ?T h))\<rparr>)\<rparr>"
      using Cache_Init_ok [OF R B h(1,2) n] by blast
    note Lc = limits_changedD [OF 2(2)]
    have old: "tc_tid (caches T2 x) = tc_tid (caches T x)" "tc_in_setspecific (caches T2 x) = tc_in_setspecific (caches T x)"
      "tc_size (caches T2 x) = tc_size (caches T x)" "tc_lists (caches T2 x) = tc_lists (caches T x)" if "x \<noteq> h" for x
      using Lc(13-16) [of x] that by (simp_all add: 2(5))
    have new: "tc_tid (caches T2 h) = tid" "\<not> tc_in_setspecific (caches T2 h)" "tc_size (caches T2 h) = 0"
      "tc_lists (caches T2 h) = init_free_lists (tc_lists (caches T h))" using Lc(13-16) [of h] by (simp_all add: 2(5))
    have glob: "central T2 = ?S'" "threadcache_allocator T2 = a" "local_heap T2 = local_heap T" "key_value T2 = key_value T"
      "tsd_inited T2 = tsd_inited T" "min_size_for_slow_path T2 = min_size_for_slow_path T" using Lc(1,2,7-10) by (simp_all add: 2(5))
    let ?p = "thread_heaps T2"
    note R2 = ring_okD [OF 2(3)]
    have ph: "?p \<noteq> h" using R2(5,6) h(1,2) by (cases "HS = []") auto
    let ?cs1 = "(caches T2)(h := (caches T2 h)\<lparr>tc_next := ?p, tc_prev := 0\<rparr>)"
    let ?cs = "if ?p \<noteq> 0 then ?cs1(?p := (?cs1 ?p)\<lparr>tc_prev := h\<rparr>) else ?cs1"
    let ?v = "if ?p \<noteq> 0 then next_memory_steal T2 else h"
    let ?T' = "T2\<lparr>caches := ?cs, next_memory_steal := ?v, thread_heaps := h, thread_heap_count := thread_heap_count T2 + 1\<rparr>"
    have nms: "next_memory_steal T2 = 0" if "?p = 0" using that R2(4,5) by auto
    have run: "NewHeap E tid T = Some (Ret (h, ?T'))"
      using r(1) Ret x 2(1) h(1) nms by (simp add: NewHeap_def upd_cache_def)
    have link: "linked ?cs 0 h (h # HS)"
      by (rule linked_push [OF R2(1) h(1,2) R2(2)]) (use h(2) ph R2(7) [of 0] in auto)
    have R': "ring_ok ?T' (h # HS)" using link R2(2-4) h(2) unfolding ring_ok_def by auto
    have lim: "limit_of ?T' x = limit_of T2 x" for x by (simp add: limit_of_def)
    have "budget_ok ?T' (insert h (set HS))" by (rule budget_cong [OF 2(4)]) (simp_all only: lim, simp_all)
    then have B': "budget_ok ?T' (set (h # HS))" by simp
    have keep: "tc_tid (?cs x) = tc_tid (caches T2 x)" "tc_in_setspecific (?cs x) = tc_in_setspecific (caches T2 x)"
      "tc_size (?cs x) = tc_size (caches T2 x)" "tc_lists (?cs x) = tc_lists (caches T2 x)" for x by auto
    have Cd: "contents_apart HS fl" "\<And>k. k \<in> set HS \<Longrightarrow> cache_ok 8192 (sizemap ?S) (object_mem ?S) (caches T k) (fl k) \<and> owned Out (fl k)"
      using central_supply.caches_okD [OF D(4)] by auto
    let ?fl = "fl(h := \<lambda>_. [])"
    have "contents_apart (h # HS) ?fl" using Cd(1) unfolding contents_apart_def by auto
    moreover have "cache_ok 8192 (sizemap ?S) (object_mem ?S) (?cs k) (?fl k) \<and> owned Out (?fl k)" if "k \<in> set (h # HS)" for k
    proof (cases "k = h")
      case True
      have "cache_ok 8192 (sizemap ?S) (object_mem ?S) (?cs h) (\<lambda>_. [])"
        unfolding cache_ok_def keep new by (simp add: init_free_lists_def FL_Init_ok)
      then show ?thesis using True by (simp add: owned_def)
    next
      case False
      then have "cache_ok 8192 (sizemap ?S) (object_mem ?S) (?cs k) (fl k)"
        using Cd(2) [of k] that unfolding cache_ok_def keep old [OF False] by simp
      then show ?thesis using False that Cd(2) [of k] by simp
    qed
    ultimately have "central_supply.caches_ok E res B Fm' ?T' (h # HS) ?fl Out"
      using S' glob(1) unfolding central_supply.caches_ok_def by simp
    then have P': "central_supply.pool_ok E res B Fm' ?T' (h # HS) ?fl Out" using R' B' by (simp add: central_supply.pool_ok_def)
    have "tls_ok ?T' (h # HS)"
      unfolding tls_ok_def
    proof (intro conjI allI ballI)
      show "inj_on (\<lambda>x. tc_tid (caches ?T' x)) (set (h # HS))"
      proof (rule inj_onI)
        fix x y assume xy: "x \<in> set (h # HS)" "y \<in> set (h # HS)" "tc_tid (caches ?T' x) = tc_tid (caches ?T' y)"
        then have "tc_tid (caches T2 x) = tc_tid (caches T2 y)" by (simp add: keep(1) split: if_splits)
        then show "x = y" using xy(1,2) tid old(1) new(1) inj_onD [OF tls_okD(1) [OF D(3)]] by (cases "x = h"; cases "y = h") auto
      qed
      show "\<not> tc_in_setspecific (caches ?T' x)" if "x \<in> set (h # HS)" for x
        using that keep(2) [of x] old(2) [of x] new(2) tls_okD(2) [OF D(3), of x] by (cases "x = h") auto
      fix me
      show "key_value ?T' me = local_heap ?T' me" using tls_okD(3) [OF D(3)] glob by simp
      show "min_size_for_slow_path ?T' me = (if local_heap ?T' me = 0 then 0 else kMaxSize + 1)"
        using tls_okD(4) [OF D(3), of me] glob by simp
      show "local_heap ?T' me = 0 \<or> local_heap ?T' me \<in> set (h # HS) \<and> tc_tid (caches ?T' (local_heap ?T' me)) = me"
        using tls_ok_local [OF D(3), of me] glob(3) keep(1) [of "local_heap T me"] old(1) [of "local_heap T me"] h(2)
        by (cases "local_heap T me = 0") auto
    qed
    then have "threads_ok E res B Fm' ?T' (h # HS) ?fl Out" using P' h(3) glob(2) by (simp add: threads_ok_def)
    moreover have "(\<Union>k\<in>set HS. set (?fl k c)) = (\<Union>k\<in>set HS. set (fl k c))" for c using h(2) by (intro SUP_cong) auto
    then have "program Out (h # HS) ?fl = program Out HS fl" by (simp add: program_def fun_eq_iff)
    moreover have "tc_tid (caches ?T' h) = tid" using keep(1) [of h] new(1) by simp
    ultimately show ?thesis using run h(1,2) glob by (intro exI [of _ "Ret (h, ?T')"]) auto
  qed
qed

section \<open>A cache that goes\<close>

lemma linked_middle:
  assumes l: "linked cs q p (xs @ h # ys)" and d: "distinct (xs @ h # ys)"
  shows "tc_next (cs h) = (case ys of [] \<Rightarrow> 0 | y # _ \<Rightarrow> y)" "tc_next (cs h) \<noteq> h" "xs \<noteq> [] \<Longrightarrow> last xs \<noteq> h"
    "xs \<noteq> [] \<Longrightarrow> tc_next (cs h) \<noteq> last xs"
proof -
  note t = linked_tail [OF l]
  show n: "tc_next (cs h) = (case ys of [] \<Rightarrow> 0 | y # _ \<Rightarrow> y)" using linked_head [OF t] .
  have "h \<noteq> 0" using linked_nonzero [OF l, of h] by simp
  then show "tc_next (cs h) \<noteq> h" using d n by (cases ys) auto
  have z: "last xs \<noteq> 0" if "xs \<noteq> []" using linked_nonzero [OF l, of "last xs"] last_in_set [OF that] by simp
  have lx: "last xs \<in> set xs" if "xs \<noteq> []" using last_in_set [OF that] .
  then show "xs \<noteq> [] \<Longrightarrow> last xs \<noteq> h" using d by auto
  show "tc_next (cs h) \<noteq> last xs" if "xs \<noteq> []" using d n z [OF that] lx [OF that] by (cases ys) auto
qed

text \<open>Unlinking, and what it leaves of the caches.\<close>

definition unlink :: "addr \<Rightarrow> (addr \<Rightarrow> ThreadCache) \<Rightarrow> (addr \<Rightarrow> ThreadCache)" where
  "unlink h cs =
     (let n = tc_next (cs h); p = tc_prev (cs h);
          cs = (if n \<noteq> 0 then cs(n := (cs n)\<lparr>tc_prev := p\<rparr>) else cs) in
      if p \<noteq> 0 then cs(p := (cs p)\<lparr>tc_next := n\<rparr>) else cs)"

lemma unlink_fields [simp]:
  "tc_size (unlink h cs x) = tc_size (cs x)" "tc_max_size (unlink h cs x) = tc_max_size (cs x)" "tc_lists (unlink h cs x) = tc_lists (cs x)"
  "tc_tid (unlink h cs x) = tc_tid (cs x)" "tc_in_setspecific (unlink h cs x) = tc_in_setspecific (cs x)"
  by (auto simp: unlink_def Let_def)

lemma unlink_linked:
  assumes l: "linked cs 0 p (xs @ h # ys)" and d: "distinct (xs @ h # ys)"
  shows "linked (unlink h cs) 0 (if p = h then tc_next (cs h) else p) (xs @ ys)" "unlink h cs h = cs h"
proof -
  note M = linked_middle [OF l d]
  have pv: "tc_prev (cs h) = (if xs = [] then 0 else last xs)" using linked_prev [OF l] .
  have z: "last xs \<noteq> 0" if "xs \<noteq> []" using linked_nonzero [OF l, of "last xs"] last_in_set [OF that] by simp
  have ph: "p = h \<longleftrightarrow> xs = []" using l d linked_head [OF l] by (cases xs) auto
  have "linked (unlink h cs) 0 (if xs = [] then tc_next (cs h) else p) (xs @ ys)"
  proof (rule linked_remove [OF l d])
    show "tc_next (cs h) \<noteq> 0 \<Longrightarrow> tc_prev (unlink h cs (tc_next (cs h))) = (if xs = [] then 0 else last xs)"
      using M(4) pv by (auto simp: unlink_def Let_def)
    show "xs \<noteq> [] \<Longrightarrow> tc_next (unlink h cs (last xs)) = tc_next (cs h)" using pv z by (auto simp: unlink_def Let_def)
    fix x
    show "(x \<noteq> tc_next (cs h) \<longrightarrow> tc_prev (unlink h cs x) = tc_prev (cs x)) \<and> (xs = [] \<or> x \<noteq> last xs \<longrightarrow> tc_next (unlink h cs x) = tc_next (cs x))"
      using pv by (auto simp: unlink_def Let_def)
  qed
  then show "linked (unlink h cs) 0 (if p = h then tc_next (cs h) else p) (xs @ ys)" unfolding ph .
  show "unlink h cs h = cs h" using M(2,3) pv by (auto simp: unlink_def Let_def)
qed

lemma unlink_run:
  assumes "tc_next (caches T h) \<noteq> h"
  shows "(let n = tc_next (caches T h) in
      if n \<noteq> 0 then upd_cache T n (\<lambda>C. C\<lparr>tc_prev := tc_prev (caches T h)\<rparr>) else Some T) \<bind>
    (\<lambda>T. (let p = tc_prev (caches T h) in
      if p \<noteq> 0 then upd_cache T p (\<lambda>C. C\<lparr>tc_next := tc_next (caches T h)\<rparr>) else Some T) \<bind> k) = k (T\<lparr>caches := unlink h (caches T)\<rparr>)"
  using assms
  by (cases "tc_next (caches T h) = 0"; cases "tc_prev (caches T h) = 0") (simp_all add: unlink_def upd_cache_def Let_def)

lemma DeleteCache_ok:
  assumes I: "threads_ok E res B Fm T HS fl Out" and h: "h \<in> set HS" and loc: "\<And>me. local_heap T me \<noteq> h"
  shows "\<exists>T' fl' Out'. DeleteCache E h T = Some T' \<and> threads_ok E res B Fm T' (removeAll h HS) fl' Out' \<and>
    program Out' (removeAll h HS) fl' = program Out HS fl \<and> tsd_inited T' = tsd_inited T \<and> sizemap (central T') = sizemap (central T) \<and>
    (\<forall>y\<in>outs (sizemap (central T)) (owned_bytes B) (program Out HS fl). object_mem (central T') y = object_mem (central T) y)"
proof -
  note D = threads_okD [OF I]
  obtain S1 C1 l1 Out1 where 1: "on_cache h (Cleanup E) T = Some (T\<lparr>central := S1, caches := (caches T)(h := C1)\<rparr>)"
    "same_cache (caches T h) C1" "\<forall>c<kNumClasses. l1 c = []" and
    M: "central_supply.moved E res B Fm T HS (program Out HS fl) (T\<lparr>central := S1, caches := (caches T)(h := C1)\<rparr>) (fl(h := l1)) Out1"
    using central_supply.on_Cleanup_ok [OF D(1) h] by blast
  let ?T1 = "T\<lparr>central := S1, caches := (caches T)(h := C1)\<rparr>" and ?fl = "fl(h := l1)" and ?H = "removeAll h HS"
  note J = threads_okD [OF threads_ok_moved [OF I M]] and C = central_supply.caches_okD [OF threads_okD(4) [OF threads_ok_moved [OF I M]]]
  note R = ring_okD [OF J(5)]
  obtain xs ys where HS: "HS = xs @ h # ys" using split_list [OF h] by blast
  have d: "distinct (xs @ h # ys)" using R(2) unfolding HS .
  then have H: "?H = xs @ ys" unfolding HS by (rule removeAll_split)
  have setH: "set ?H = set HS - {h}" by auto
  have link: "linked (unlink h (caches ?T1)) 0 (if thread_heaps T = h then tc_next (caches ?T1 h) else thread_heaps T) ?H"
    and uh: "unlink h (caches ?T1) h = caches ?T1 h"
    using unlink_linked [OF R(1) [unfolded HS] d] unfolding H by (cases "thread_heaps T = h", simp_all)
  let ?cs = "unlink h (caches ?T1)"
  let ?th = "if thread_heaps T = h then tc_next (caches ?T1 h) else thread_heaps T"
  let ?v = "if next_memory_steal T = h then tc_next (caches ?T1 h) else next_memory_steal T"
  let ?v' = "if ?v = 0 then ?th else ?v"
  obtain a where a: "PageHeapAllocator_Delete (heap_meta (pageheap S1), threadcache_allocator T) h = Some (heap_meta (pageheap S1), a)"
    "pha_inv sizeof_ThreadCache a (set HS - {h}) Fm"
    using PageHeapAllocator_Delete_spec [OF D(2) h] by blast
  let ?T' = "?T1\<lparr>caches := ?cs, thread_heaps := ?th, thread_heap_count := thread_heap_count T - 1, next_memory_steal := ?v',
    unclaimed_cache_space := unclaimed_cache_space T + tc_max_size (?cs h), threadcache_allocator := a\<rparr>"
  have h0: "h \<noteq> 0" using R(7) [OF h] .
  have run: "DeleteCache E h T = Some ?T'"
  proof -
    note n = linked_middle(2) [OF R(1) [unfolded HS] d]
    show ?thesis
      unfolding DeleteCache_def 1(1) Option.bind.simps(2) unlink_run [OF n]
      using a(1) uh by (simp add: Let_def)
  qed
  have R': "ring_ok ?T' ?H"
  proof -
    have "?th = 0 \<or> ?th \<in> set ?H" using linked_head [OF link] by (cases ?H) auto
    moreover have "?v = 0 \<or> ?v \<in> set ?H"
      using R(4) R(8) [OF h] linked_middle(2) [OF R(1) [unfolded HS] d] unfolding setH by auto
    ultimately have "?v' = 0 \<or> ?v' \<in> set ?H" by auto
    moreover have "int (length ?H) = int (length HS) - 1" unfolding H by (simp add: HS)
    ultimately show ?thesis using link R(2,3) by (simp add: ring_ok_def distinct_removeAll)
  qed
  have B': "budget_ok ?T' (set ?H)"
    unfolding setH by (rule budget_remove [OF J(6) h]) (simp_all add: limit_of_def)
  have emp: "l1 c = []" for c
  proof (cases "c < kNumClasses")
    case False
    then have "Out1 c = {}" using J(7) by (simp add: supply_ok_def)
    then show ?thesis using C(4) [OF h] unfolding owned_def by (metis empty_subsetI fun_upd_same set_empty subset_antisym)
  qed (use 1(3) in simp)
  have "central_supply.caches_ok E res B Fm ?T' ?H ?fl Out1"
    unfolding central_supply.caches_ok_def
  proof (intro conjI ballI)
    show "contents_apart ?H ?fl"
      unfolding contents_apart_def
    proof (intro ballI impI allI)
      fix a b c assume ab: "a \<in> set ?H" "b \<in> set ?H" "a \<noteq> b"
      then have "a \<in> set HS" "b \<in> set HS" by auto
      then show "set (?fl a c) \<inter> set (?fl b c) = {}" using contents_apartD [OF C(2) _ _ ab(3)] by blast
    qed
    fix k assume k: "k \<in> set ?H"
    then have "cache_ok 8192 (sizemap S1) (object_mem S1) (caches ?T1 k) (?fl k)" "owned Out1 (?fl k)" using C(3,4) [of k] by simp_all
    then show "cache_ok 8192 (sizemap (central ?T')) (object_mem (central ?T')) (caches ?T' k) (?fl k)" "owned Out1 (?fl k)"
      by (simp_all add: cache_ok_def)
  qed (use C(1) in simp)
  moreover have "tls_ok ?T' ?H"
    unfolding tls_ok_def
  proof (intro conjI allI ballI)
    show "inj_on (\<lambda>x. tc_tid (caches ?T' x)) (set ?H)"
      using inj_on_subset [OF tls_okD(1) [OF J(3)], of "set ?H"] by (simp add: inj_on_def)
    show "\<not> tc_in_setspecific (caches ?T' x)" if "x \<in> set ?H" for x using tls_okD(2) [OF J(3), of x] that by simp
    fix me
    show "key_value ?T' me = local_heap ?T' me" using tls_okD(3) [OF J(3), of me] by simp
    show "min_size_for_slow_path ?T' me = (if local_heap ?T' me = 0 then 0 else kMaxSize + 1)" using tls_okD(4) [OF J(3), of me] by simp
    show "local_heap ?T' me = 0 \<or> local_heap ?T' me \<in> set ?H \<and> tc_tid (caches ?T' (local_heap ?T' me)) = me"
      using tls_ok_local [OF J(3), of me] loc [of me] by auto
  qed
  ultimately have "threads_ok E res B Fm ?T' ?H ?fl Out1"
    using R' B' a(2) unfolding threads_ok_def central_supply.pool_ok_def setH by simp
  moreover have P: "program Out1 HS ?fl = program Out HS fl" "sizemap S1 = sizemap (central T)"
    "\<forall>y\<in>outs (sizemap (central T)) (owned_bytes B) (program Out HS fl). object_mem S1 y = object_mem (central T) y"
    using M by (auto simp: central_supply.moved_def rest_same_def)
  moreover have un: "(\<Union>k\<in>insert h (set HS - {h}). set (?fl k c)) = (\<Union>k\<in>set HS - {h}. set (?fl k c))" for c unfolding UN_insert by (simp add: emp)
  have "program Out1 ?H ?fl c = program Out1 HS ?fl c" for c
    unfolding program_def setH un [unfolded insert_Diff [OF h]] ..
  then have "program Out1 ?H ?fl = program Out HS fl" using P(1) by (simp add: fun_eq_iff)
  ultimately show ?thesis using run by (intro exI [of _ ?T'] exI [of _ ?fl] exI [of _ Out1]) simp
qed

end
