(* ===== verification/Thread_Run.thy ===== *)
theory Thread_Run
  imports Thread_Life
begin

text \<open>
  The threads as a state machine. A thread gets its cache, allocates and deallocates through it, becomes
  idle or ends, in any order and interleaved with the other threads; the program writes to the objects
  it holds. The state has the caches and, for every class, the objects that the program holds.
\<close>

section \<open>The cache of a thread\<close>

lemma find_heap_linked:
  "linked cs q p hs \<Longrightarrow> find_heap cs me p = Some (case find (\<lambda>h. tc_tid (cs h) = me) hs of None \<Rightarrow> 0 | Some h \<Rightarrow> h)"
proof (induction hs arbitrary: q p)
  case Nil
  then show ?case by (simp add: find_heap.simps [of cs me 0])
next
  case (Cons h hs)
  then show ?case using Cons.IH [of h "tc_next (cs h)"] by (auto simp: find_heap.simps [of cs me h])
qed

lemma threads_ok_tls:
  assumes I: "threads_ok E res B Fm T HS fl Out" and T': "T' = T\<lparr>key_value := kv, local_heap := lh, min_size_for_slow_path := ms\<rparr>"
    and t: "\<And>me. kv me = lh me \<and> ms me = (if lh me = 0 then 0 else kMaxSize + 1) \<and> (lh me = 0 \<or> lh me \<in> set HS \<and> tc_tid (caches T (lh me)) = me)"
  shows "threads_ok E res B Fm T' HS fl Out"
proof -
  note D = threads_okD [OF I]
  have "ring_ok T' HS" by (rule ring_ok_cong [OF D(5)]) (simp_all add: T')
  moreover have "budget_ok T' (set HS)" by (rule budget_cong [OF D(6)]) (simp_all add: T' limit_of_def)
  moreover have "central_supply.caches_ok E res B Fm T' HS fl Out" using D(4) by (simp add: central_supply.caches_ok_def T')
  moreover have "tls_ok T' HS" using tls_okD(1,2) [OF D(3)] t unfolding tls_ok_def T' by simp
  ultimately show ?thesis using D(2) by (simp add: threads_ok_def central_supply.pool_ok_def T')
qed

lemma threads_ok_set_local:
  assumes I: "threads_ok E res B Fm T HS fl Out" and h: "h = 0 \<or> h \<in> set HS \<and> tc_tid (caches T h) = me"
    and n: "n = (if h = 0 then 0 else kMaxSize + 1)"
    and T': "T' = T\<lparr>key_value := (key_value T)(me := h), local_heap := (local_heap T)(me := h),
      min_size_for_slow_path := (min_size_for_slow_path T)(me := n)\<rparr>"
  shows "threads_ok E res B Fm T' HS fl Out"
proof (rule threads_ok_tls [OF I T'])
  fix x
  show "((key_value T)(me := h)) x = ((local_heap T)(me := h)) x \<and>
    ((min_size_for_slow_path T)(me := n)) x = (if ((local_heap T)(me := h)) x = 0 then 0 else kMaxSize + 1) \<and>
    (((local_heap T)(me := h)) x = 0 \<or> ((local_heap T)(me := h)) x \<in> set HS \<and> tc_tid (caches T (((local_heap T)(me := h)) x)) = x)"
    using h n tls_okD(3,4) [OF threads_okD(3) [OF I], of x] tls_ok_local [OF threads_okD(3) [OF I], of x] by (cases "x = me") auto
qed

lemma mark_specific:
  assumes "h \<noteq> 0" "\<not> tc_in_setspecific (caches T h)"
  shows "upd_cache T h (\<lambda>C. C\<lparr>tc_in_setspecific := True\<rparr>) \<bind>
      (\<lambda>T. let T = T\<lparr>key_value := (key_value T)(me := p)\<rparr>; T = set_local me p n T in upd_cache T h (\<lambda>C. C\<lparr>tc_in_setspecific := False\<rparr>) \<bind> k) =
    k (T\<lparr>key_value := (key_value T)(me := p), local_heap := (local_heap T)(me := p), min_size_for_slow_path := (min_size_for_slow_path T)(me := n)\<rparr>)"
proof -
  have "(caches T h)\<lparr>tc_in_setspecific := False\<rparr> = caches T h" using assms(2) by simp
  then have "(caches T)(h := (caches T h)\<lparr>tc_in_setspecific := False\<rparr>) = caches T" by simp
  then show ?thesis using assms(1) by (simp add: upd_cache_def set_local_def Let_def)
qed

lemma CreateCacheIfNecessary_ok:
  assumes I: "threads_ok E res B Fm T HS fl Out"
  shows "\<exists>r. CreateCacheIfNecessary E me T = Some r \<and> (\<forall>h T'. r = Ret (h, T') \<longrightarrow>
    (\<exists>Fm' HS' fl'. threads_ok E res B Fm' T' HS' fl' Out \<and> h \<in> set HS' \<and> tc_tid (caches T' h) = me \<and>
      program Out HS' fl' = program Out HS fl \<and> object_mem (central T') = object_mem (central T) \<and> sizemap (central T') = sizemap (central T)))"
proof -
  note D = threads_okD [OF I]
  define h0 where "h0 = (case find (\<lambda>h. tc_tid (caches T h) = me) HS of None \<Rightarrow> 0 | Some h \<Rightarrow> h)"
  have f: "find_heap (caches T) me (thread_heaps T) = Some h0"
    unfolding h0_def by (rule find_heap_linked [OF ring_okD(1) [OF D(5)]])
  obtain r where r: "(if h0 = 0 then NewHeap E me T else Some (Ret (h0, T))) = Some r"
    "\<And>h T1. r = Ret (h, T1) \<Longrightarrow> \<exists>Fm1 HS1 fl1. threads_ok E res B Fm1 T1 HS1 fl1 Out \<and> h \<in> set HS1 \<and> tc_tid (caches T1 h) = me \<and>
      program Out HS1 fl1 = program Out HS fl \<and> object_mem (central T1) = object_mem (central T) \<and> sizemap (central T1) = sizemap (central T)"
  proof (cases "find (\<lambda>h. tc_tid (caches T h) = me) HS")
    case None
    then have n: "\<forall>h\<in>set HS. tc_tid (caches T h) \<noteq> me" by (simp add: find_None_iff)
    obtain r where r: "NewHeap E me T = Some r" "\<And>h T'. r = Ret (h, T') \<Longrightarrow> h \<noteq> 0 \<and> h \<notin> set HS \<and>
        (\<exists>Fm'. threads_ok E res B Fm' T' (h # HS) (fl(h := \<lambda>_. [])) Out) \<and> tc_tid (caches T' h) = me \<and>
        tsd_inited T' = tsd_inited T \<and> object_mem (central T') = object_mem (central T) \<and> sizemap (central T') = sizemap (central T) \<and>
        program Out (h # HS) (fl(h := \<lambda>_. [])) = program Out HS fl"
      using NewHeap_ok [OF I n] by blast
    show thesis
    proof (rule that)
      show "(if h0 = 0 then NewHeap E me T else Some (Ret (h0, T))) = Some r" using r(1) None by (simp add: h0_def)
      fix h T1 assume "r = Ret (h, T1)"
      from r(2) [OF this] obtain Fm' where "threads_ok E res B Fm' T1 (h # HS) (fl(h := \<lambda>_. [])) Out" "tc_tid (caches T1 h) = me"
        "object_mem (central T1) = object_mem (central T)" "sizemap (central T1) = sizemap (central T)"
        "program Out (h # HS) (fl(h := \<lambda>_. [])) = program Out HS fl" by blast
      then show "\<exists>Fm1 HS1 fl1. threads_ok E res B Fm1 T1 HS1 fl1 Out \<and> h \<in> set HS1 \<and> tc_tid (caches T1 h) = me \<and>
        program Out HS1 fl1 = program Out HS fl \<and> object_mem (central T1) = object_mem (central T) \<and> sizemap (central T1) = sizemap (central T)"
        by (intro exI [of _ Fm'] exI [of _ "h # HS"] exI [of _ "fl(h := \<lambda>_. [])"]) simp
    qed
  next
    case (Some h)
    then have h: "h \<in> set HS" "tc_tid (caches T h) = me" by (auto simp: find_Some_iff)
    then have "h \<noteq> 0" using ring_okD(7) [OF D(5)] by blast
    with that [of "Ret (h, T)"] Some I h show thesis by (auto simp: h0_def)
  qed
  show ?thesis
  proof (cases r)
    case OutOfMemory
    then show ?thesis using f r(1) by (simp add: CreateCacheIfNecessary_def)
  next
    case (Ret x)
    obtain h T1 where x: "x = (h, T1)" by (cases x)
    obtain Fm1 HS1 fl1 where 1: "threads_ok E res B Fm1 T1 HS1 fl1 Out" "h \<in> set HS1" "tc_tid (caches T1 h) = me"
      "program Out HS1 fl1 = program Out HS fl" "object_mem (central T1) = object_mem (central T)" "sizemap (central T1) = sizemap (central T)"
      using r(2) Ret x by blast
    have h: "h \<noteq> 0" "\<not> tc_in_setspecific (caches T1 h)"
      using ring_okD(7) [OF threads_okD(5) [OF 1(1)] 1(2)] tls_okD(2) [OF threads_okD(3) [OF 1(1)] 1(2)] by simp_all
    show ?thesis
    proof (cases "tsd_inited T1")
      case False
      then have "CreateCacheIfNecessary E me T = Some (Ret (h, T1))" using f r(1) Ret x by (simp add: CreateCacheIfNecessary_def)
      then show ?thesis using 1 by (intro exI [of _ "Ret (h, T1)"]) auto
    next
      case True
      let ?T = "T1\<lparr>key_value := (key_value T1)(me := h), local_heap := (local_heap T1)(me := h),
        min_size_for_slow_path := (min_size_for_slow_path T1)(me := kMaxSize + 1)\<rparr>"
      have "CreateCacheIfNecessary E me T = Some (Ret (h, ?T))"
        using f r(1) Ret x True h mark_specific [OF h, of me h "kMaxSize + 1" "\<lambda>T. Some (Ret (h, T))"] by (simp add: CreateCacheIfNecessary_def)
      moreover have "threads_ok E res B Fm1 ?T HS1 fl1 Out" by (rule threads_ok_set_local [OF 1(1) _ _ refl]) (use 1(2,3) h(1) in simp_all)
      ultimately show ?thesis using 1 by (intro exI [of _ "Ret (h, ?T)"]) auto
    qed
  qed
qed

lemma GetCache_ok:
  assumes I: "threads_ok E res B Fm T HS fl Out"
  shows "\<exists>r. GetCache E me T = Some r \<and> (\<forall>h T'. r = Ret (h, T') \<longrightarrow>
    (\<exists>Fm' HS' fl'. threads_ok E res B Fm' T' HS' fl' Out \<and> h \<in> set HS' \<and> tc_tid (caches T' h) = me \<and>
      program Out HS' fl' = program Out HS fl \<and> object_mem (central T') = object_mem (central T) \<and> sizemap (central T') = sizemap (central T)))"
proof (cases "tsd_inited T \<and> local_heap T me \<noteq> 0")
  case False
  then have "GetCache E me T = CreateCacheIfNecessary E me T" by (auto simp: GetCache_def)
  with CreateCacheIfNecessary_ok [OF I] show ?thesis by simp
next
  case True
  then have "GetCache E me T = Some (Ret (local_heap T me, T))" by (simp add: GetCache_def)
  moreover have "local_heap T me \<in> set HS \<and> tc_tid (caches T (local_heap T me)) = me"
    using tls_ok_local [OF threads_okD(3) [OF I]] True by blast
  ultimately show ?thesis using I by (intro exI [of _ "Ret (local_heap T me, T)"]) auto
qed

section \<open>Idle threads and threads that end\<close>

lemma InitTSD_ok:
  assumes I: "threads_ok E res B Fm T HS fl Out" and n: "\<not> tsd_inited T"
  shows "InitTSD T = Some (T\<lparr>tsd_inited := True\<rparr>)" "threads_ok E res B Fm (T\<lparr>tsd_inited := True\<rparr>) HS fl Out"
proof -
  let ?T = "T\<lparr>tsd_inited := True\<rparr>"
  note D = threads_okD [OF I]
  have "ring_ok ?T HS" by (rule ring_ok_cong [OF D(5)]) simp_all
  moreover have "budget_ok ?T (set HS)" by (rule budget_cong [OF D(6)]) (simp_all add: limit_of_def)
  moreover have "central_supply.caches_ok E res B Fm ?T HS fl Out" using D(4) by (simp add: central_supply.caches_ok_def)
  moreover have "tls_ok ?T HS" using D(3) unfolding tls_ok_def by simp
  ultimately show "threads_ok E res B Fm ?T HS fl Out" using D(2) by (simp add: threads_ok_def central_supply.pool_ok_def)
qed (use n in \<open>simp add: InitTSD_def\<close>)

text \<open>The cache \<open>h\<close> of thread \<open>me\<close> is forgotten and deleted.\<close>

lemma forget_ok:
  assumes I: "threads_ok E res B Fm T HS fl Out" and h: "h = local_heap T me" "h \<noteq> 0"
    and T1: "T1 = T\<lparr>key_value := (key_value T)(me := 0), local_heap := (local_heap T)(me := 0),
      min_size_for_slow_path := (min_size_for_slow_path T)(me := 0)\<rparr>"
  shows "\<exists>T' HS' fl' Out'. DeleteCache E h T1 = Some T' \<and> threads_ok E res B Fm T' HS' fl' Out' \<and>
    program Out' HS' fl' = program Out HS fl \<and> sizemap (central T') = sizemap (central T) \<and>
    (\<forall>y\<in>outs (sizemap (central T)) (owned_bytes B) (program Out HS fl). object_mem (central T') y = object_mem (central T) y)"
proof -
  note tls = threads_okD(3) [OF I]
  have hs: "h \<in> set HS" "tc_tid (caches T h) = me" using tls_ok_local [OF tls, of me] h by simp_all
  have J: "threads_ok E res B Fm T1 HS fl Out" by (rule threads_ok_set_local [OF I _ _ T1]) simp_all
  have n: "local_heap T1 x \<noteq> h" for x
    using tls_ok_local [OF tls, of x] hs(2) h by (cases "x = me") (auto simp: T1)
  from DeleteCache_ok [OF J hs(1) n] obtain T' fl' Out' where 1: "DeleteCache E h T1 = Some T'"
    "threads_ok E res B Fm T' (removeAll h HS) fl' Out'" "program Out' (removeAll h HS) fl' = program Out HS fl"
    "sizemap (central T') = sizemap (central T1)"
    "\<forall>y\<in>outs (sizemap (central T1)) (owned_bytes B) (program Out HS fl). object_mem (central T') y = object_mem (central T1) y" by blast
  have c: "central T1 = central T" by (simp add: T1)
  show ?thesis using 1 unfolding c by blast
qed

definition moved_to :: "addr set \<Rightarrow> 'os threads \<Rightarrow> (nat \<Rightarrow> addr set) \<Rightarrow> 'os threads \<Rightarrow> addr list \<Rightarrow> (addr \<Rightarrow> nat \<Rightarrow> addr list) \<Rightarrow> (nat \<Rightarrow> addr set) \<Rightarrow> bool" where
  "moved_to A T P T' HS fl Out = (program Out HS fl = P \<and> sizemap (central T') = sizemap (central T) \<and>
     (\<forall>y\<in>outs (sizemap (central T)) A P. object_mem (central T') y = object_mem (central T) y))"

lemma moved_to_refl [simp]: "moved_to A T (program Out HS fl) T HS fl Out"
  by (simp add: moved_to_def)

lemma BecomeIdle_ok:
  assumes I: "threads_ok E res B Fm T HS fl Out"
  shows "\<exists>T' HS' fl' Out'. BecomeIdle E me T = Some T' \<and> threads_ok E res B Fm T' HS' fl' Out' \<and>
    moved_to (owned_bytes B) T (program Out HS fl) T' HS' fl' Out'"
proof (cases "tsd_inited T \<and> local_heap T me \<noteq> 0")
  case False
  then have "BecomeIdle E me T = Some T" by (auto simp: BecomeIdle_def)
  then show ?thesis using I moved_to_refl by blast
next
  case True
  let ?h = "local_heap T me"
  let ?T1 = "T\<lparr>key_value := (key_value T)(me := 0), local_heap := (local_heap T)(me := 0), min_size_for_slow_path := (min_size_for_slow_path T)(me := 0)\<rparr>"
  have n: "\<not> tc_in_setspecific (caches T ?h)"
    using tls_okD(2) [OF threads_okD(3) [OF I]] tls_ok_local [OF threads_okD(3) [OF I], of me] True by blast
  have "BecomeIdle E me T = DeleteCache E ?h ?T1"
    using True n mark_specific [OF _ n, of me 0 0 "\<lambda>T. if local_heap T me = ?h then Some T else DeleteCache E ?h T"]
    by (simp add: BecomeIdle_def Let_def)
  then show ?thesis using forget_ok [OF I refl _ refl, of me] True unfolding moved_to_def by metis
qed

lemma BecomeTemporarilyIdle_ok:
  assumes I: "threads_ok E res B Fm T HS fl Out"
  shows "\<exists>T' fl' Out'. BecomeTemporarilyIdle E me T = Some T' \<and> threads_ok E res B Fm T' HS fl' Out' \<and>
    moved_to (owned_bytes B) T (program Out HS fl) T' HS fl' Out'"
proof (cases "local_heap T me = 0")
  case True
  then have "BecomeTemporarilyIdle E me T = Some T" by (simp add: BecomeTemporarilyIdle_def GetCacheIfPresent_def)
  then show ?thesis using I moved_to_refl by blast
next
  case False
  then have h: "local_heap T me \<in> set HS" using tls_ok_local [OF threads_okD(3) [OF I]] by blast
  from central_supply.on_Cleanup_ok [OF threads_okD(1) [OF I] h] obtain T' fl' Out' where
    "on_cache (local_heap T me) (Cleanup E) T = Some T'" "central_supply.moved E res B Fm T HS (program Out HS fl) T' fl' Out'" by blast
  then show ?thesis using threads_ok_moved [OF I] False
    by (intro exI [of _ T'] exI [of _ fl'] exI [of _ Out'])
      (simp add: BecomeTemporarilyIdle_def GetCacheIfPresent_def moved_to_def central_supply.moved_def rest_same_def)
qed

lemma on_process_term_ok:
  assumes I: "threads_ok E res B Fm T HS fl Out"
  shows "\<exists>T' HS' fl' Out'. on_process_term E me T = Some T' \<and> threads_ok E res B Fm T' HS' fl' Out' \<and>
    moved_to (owned_bytes B) T (program Out HS fl) T' HS' fl' Out'"
proof (cases "tsd_inited T")
  case False
  then have "on_process_term E me T = Some T" by (simp add: on_process_term_def)
  then show ?thesis using I moved_to_refl by blast
next
  case True
  note k = tls_okD(3) [OF threads_okD(3) [OF I], of me]
  show ?thesis
  proof (cases "local_heap T me = 0")
    case z: True
    then have "(key_value T)(me := 0) = key_value T" using k by (simp add: fun_eq_iff)
    then have "on_process_term E me T = Some T" using True z k by (simp add: on_process_term_def)
    then show ?thesis using I moved_to_refl by blast
  next
    case False
    let ?T1 = "T\<lparr>key_value := (key_value T)(me := 0), local_heap := (local_heap T)(me := 0), min_size_for_slow_path := (min_size_for_slow_path T)(me := 0)\<rparr>"
    have "on_process_term E me T = DeleteCache E (local_heap T me) ?T1"
      using True False k by (simp add: on_process_term_def DestroyThreadCache_def set_local_def Let_def)
    then show ?thesis using forget_ok [OF I refl False refl] unfolding moved_to_def by metis
  qed
qed

end
