(* ===== verification/Malloc_Inv.thy ===== *)
theory Malloc_Inv
  imports Malloc Thread_Run
begin

text \<open>
  The blocks that the program holds. A small block is an object of a size class that no cache and no central
  list has, a large one a span of the page heap that the program owns. \<open>process_ok\<close> ties the state of the
  allocator to the set of the blocks, given as pairs of an address and the number of usable bytes.
\<close>

section \<open>The page heap under the caches\<close>

lemma set_heap_simps [simp]:
  "central (set_heap h T) = (central T)\<lparr>pageheap := h\<rparr>" "caches (set_heap h T) = caches T" "local_heap (set_heap h T) = local_heap T"
  "min_size_for_slow_path (set_heap h T) = min_size_for_slow_path T" "key_value (set_heap h T) = key_value T"
  "threadcache_allocator (set_heap h T) = threadcache_allocator T" "tsd_inited (set_heap h T) = tsd_inited T"
  by (simp_all add: set_heap_def)

lemma set_mem_simps [simp]:
  "central (set_mem m T) = (central T)\<lparr>object_mem := m\<rparr>" "local_heap (set_mem m T) = local_heap T"
  by (simp_all add: set_mem_def)

lemma central_ok_heap:
  "central_ok rep S V L fr ch Out \<Longrightarrow> rep' h V L \<Longrightarrow> central_ok rep' (S\<lparr>pageheap := h\<rparr>) V L fr ch Out"
  by (simp add: central_ok_def)

text \<open>The page heap may be exchanged for one with the same view of the central lists.\<close>

lemma threads_ok_heap:
  assumes I: "threads_ok E res B Fm T HS fl Out"
  obtains V L fr ch where "central_ok (heap_frame E res B Fm) (central T) V L fr ch Out"
    "\<And>h B'. heap_frame E res B' Fm h V L \<Longrightarrow> threads_ok E res B' Fm (set_heap h T) HS fl Out"
proof -
  note D = threads_okD [OF I]
  obtain V L fr ch where C: "central_ok (heap_frame E res B Fm) (central T) V L fr ch Out"
    "\<forall>c. num_objects_to_move (sizemap (central T)) c \<le> 4096" "\<forall>c\<ge>kNumClasses. Out c = {}" using D(7) by (rule supply_okE)
  show thesis
  proof (rule that [OF C(1)])
    fix h B' assume h: "heap_frame E res B' Fm h V L"
    let ?T = "set_heap h T"
    have "supply_ok E res B' Fm ((central T)\<lparr>pageheap := h\<rparr>) Out"
      by (rule supply_okI [OF central_ok_heap [where rep' = "heap_frame E res B' Fm", OF C(1) h]]) (use C(2,3) in simp_all)
    then have "central_supply.caches_ok E res B' Fm ?T HS fl Out" using D(4) by (simp add: central_supply.caches_ok_def)
    moreover have "ring_ok ?T HS" by (rule ring_ok_cong [OF D(5)]) (simp_all add: set_heap_def)
    moreover have "budget_ok ?T (set HS)" by (rule budget_cong [OF D(6)]) (simp_all add: set_heap_def limit_of_def)
    moreover have "tls_ok ?T HS" using D(3) by (simp add: tls_ok_def)
    ultimately show "threads_ok E res B' Fm ?T HS fl Out" using D(2) by (simp add: threads_ok_def central_supply.pool_ok_def)
  qed
qed

text \<open>Entering the right class, or none, for a page does no harm.\<close>

lemma frame_cache_entry:
  assumes R: "heap_frame E res B Fm h V L" and q: "q < 2 ^ 34" and c: "c < kNumClasses"
    and v: "\<And>a d. V a = Some d \<Longrightarrow> sizeclass d \<noteq> 0 \<Longrightarrow> q \<in> span_pages d \<Longrightarrow> sizeclass d = c"
    and b: "\<And>a d. B a = Some d \<Longrightarrow> span_start d = q \<Longrightarrow> c = 0" and q0: "0 < q"
  shows "\<exists>k. CacheSizeClass h q c = Some (h\<lparr>pagemap_cache := k\<rparr>) \<and> heap_frame E res B Fm (h\<lparr>pagemap_cache := k\<rparr>) V L"
proof -
  note F = heap_frameD [OF R]
  have "q < 2 ^ 51" using q by simp
  from CacheSizeClass_ok [OF this c, of h] obtain k where k: "CacheSizeClass h q c = Some (h\<lparr>pagemap_cache := k\<rparr>)"
    "cached_as (h\<lparr>pagemap_cache := k\<rparr>) q c" "\<And>p j. p < 2 ^ 51 \<Longrightarrow> p \<noteq> q \<Longrightarrow> cached_as h p j \<Longrightarrow> cached_as (h\<lparr>pagemap_cache := k\<rparr>) p j" by blast
  let ?h = "h\<lparr>pagemap_cache := k\<rparr>"
  have "cache_right ?h V B"
    unfolding cache_right_def
  proof (intro conjI allI impI)
    fix a d p assume a: "V a = Some d" "sizeclass d \<noteq> 0" "p \<in> span_pages d"
    show "cached_as ?h p (sizeclass d)"
    proof (cases "p = q")
      case True
      then show ?thesis using v [OF a(1,2)] a(3) k(2) by simp
    next
      case False
      moreover have "p < 2 ^ 51" using heap_view_pages(1) [OF F(1) F(5) [OF a(1)]] a(3) by auto
      ultimately show ?thesis using k(3) cache_rightD(1) [OF F(4) a] by blast
    qed
  next
    fix a d assume a: "B a = Some d"
    note z = cache_rightD(2) [OF F(4) a] and ae = map_add_find_right [of B a d V, OF a]
    show "sizeclass d = 0" using z by blast
    show "cached_as ?h (span_start d) 0"
    proof (cases "span_start d = q")
      case True
      then show ?thesis using b [OF a] k(2) by simp
    next
      case False
      have "span_start d < 2 ^ 51" using heap_view_pages(1) [OF F(1) ae] start_page [of d] by auto
      then show ?thesis using k(3) False z by blast
    qed
  next
    show "cached_as ?h 0 0" using k(3) q0 cache_rightD(3) [OF F(4)] by simp
  qed
  then have "heap_frame E res B Fm ?h V L" using heap_view_cache [OF F(1)] F(2,3) unfolding heap_frame_def by blast
  then show ?thesis using k(1) by blast
qed

section \<open>Blocks\<close>

definition blocks :: "SizeMap \<Rightarrow> (addr \<rightharpoonup> Span) \<Rightarrow> (nat \<Rightarrow> addr set) \<Rightarrow> (addr \<times> nat) set" where
  "blocks sm B Pr = (\<Union>c<kNumClasses. (\<lambda>x. (x, class_to_size sm c)) ` Pr c) \<union>
     (\<lambda>d. (span_start d * 2 ^ kPageShift, span_length d * 2 ^ kPageShift)) ` ran B"

definition block_bytes :: "(addr \<times> nat) set \<Rightarrow> addr set" where
  "block_bytes Bs = (\<Union>(p, n)\<in>Bs. extent p n)"

lemma block_bytesI: "(p, n) \<in> Bs \<Longrightarrow> y \<in> extent p n \<Longrightarrow> y \<in> block_bytes Bs"
  unfolding block_bytes_def by blast

lemma block_bytes_mono: "Bs \<subseteq> Bs' \<Longrightarrow> block_bytes Bs \<subseteq> block_bytes Bs'"
  unfolding block_bytes_def by blast

lemma block_bytes_insert: "block_bytes (insert (p, n) Bs) = extent p n \<union> block_bytes Bs"
  by (simp add: block_bytes_def)

lemma span_bytes_extent: "page_bytes (span_pages d) = extent (span_start d * 2 ^ kPageShift) (span_length d * 2 ^ kPageShift)"
  unfolding span_pages_def page_bytes_extent ..

lemma blocks_small: "c < kNumClasses \<Longrightarrow> x \<in> Pr c \<Longrightarrow> (x, class_to_size sm c) \<in> blocks sm B Pr"
  by (auto simp: blocks_def)

lemma blocks_large: "B a = Some d \<Longrightarrow> (span_start d * 2 ^ kPageShift, span_length d * 2 ^ kPageShift) \<in> blocks sm B Pr"
  unfolding blocks_def by (blast intro: ranI)

lemma blocksE:
  assumes "(p, n) \<in> blocks sm B Pr"
  obtains c where "c < kNumClasses" "p \<in> Pr c" "n = class_to_size sm c"
  | a d where "B a = Some d" "p = span_start d * 2 ^ kPageShift" "n = span_length d * 2 ^ kPageShift"
  using assms unfolding blocks_def ran_def by blast

lemma blocks_outs: "block_bytes (blocks sm B Pr) \<subseteq> outs sm (owned_bytes B) Pr"
proof
  fix y assume "y \<in> block_bytes (blocks sm B Pr)"
  then obtain p n where pn: "(p, n) \<in> blocks sm B Pr" "y \<in> extent p n" by (auto simp: block_bytes_def)
  from pn(1) show "y \<in> outs sm (owned_bytes B) Pr"
  proof (cases rule: blocksE)
    case (1 c)
    then show ?thesis using pn(2) by (auto simp: outs_def)
  next
    case (2 a d)
    then have "y \<in> owned_bytes B" using pn(2) owned_bytesI [of B a d] by (simp add: span_bytes_extent)
    then show ?thesis by (simp add: outs_def)
  qed
qed

section \<open>What the page map says of a block\<close>

text \<open>The span of a small block and its class.\<close>

lemma small_span:
  assumes I: "central_ok (heap_frame E res B Fm) S V L fr ch Out" and c: "c < kNumClasses" and p: "p \<in> Out c"
  shows "0 < c" "p \<noteq> 0" "0 < class_to_size (sizemap S) c"
    "\<exists>a d. V a = Some d \<and> sizeclass d = c \<and> p \<in> grid (class_to_size (sizemap S) c) d \<and> page_of p \<in> span_pages d"
proof -
  show z: "0 < c" by (rule client_heap.held_object(1) [OF I c p])
  show sz: "0 < class_to_size (sizemap S) c" using sizemap_okD(1) [OF central_okD(1) [OF I] z c] by simp
  obtain a d where a: "V a = Some d" "span_ok (sizemap S) (object_mem S) c d (fr a)" "p \<in> grid (class_to_size (sizemap S) c) d" "p \<noteq> 0"
    using client_heap.held_object(2) [OF I c p] by blast
  show "p \<noteq> 0" by (rule a(4))
  show "\<exists>a d. V a = Some d \<and> sizeclass d = c \<and> p \<in> grid (class_to_size (sizemap S) c) d \<and> page_of p \<in> span_pages d"
    using a span_okD(1) [OF a(2)] grid_page [OF sz a(3)] by (auto simp: page_of_def)
qed

lemma small_lookup:
  assumes I: "central_ok (heap_frame E res B Fm) S V L fr ch Out" and c: "c < kNumClasses" and p: "p \<in> Out c"
  obtains a where "GetDescriptor (pageheap S) (page_of p) = Sp a" "sizeclass (span_of (pageheap S) (Sp a)) = c"
    "\<not> sample (span_of (pageheap S) (Sp a))" "cached_as (pageheap S) (page_of p) c" "page_of p < 2 ^ 34"
    "\<exists>k. CacheSizeClass (pageheap S) (page_of p) c = Some ((pageheap S)\<lparr>pagemap_cache := k\<rparr>) \<and>
      heap_frame E res B Fm ((pageheap S)\<lparr>pagemap_cache := k\<rparr>) V L"
proof -
  let ?h = "pageheap S"
  note R = central_okD(2) [OF I]
  note F = heap_frameD [OF R]
  have z: "0 < c" by (rule small_span(1) [OF I c p])
  obtain a d where a: "V a = Some d" "sizeclass d = c" "page_of p \<in> span_pages d" using small_span(4) [OF I c p] by blast
  have nz: "sizeclass d \<noteq> 0" using a(2) z by simp
  note P = heap_view_pages [OF F(1) F(5) [OF a(1)]]
  have q: "page_of p < 2 ^ 34" using P(1) a(3) by auto
  have f: "sizeclass (span_of ?h (Sp a)) = c" "\<not> sample (span_of ?h (Sp a))"
    using P(2,7) a(2) by (auto simp: span_data_def)
  have "\<exists>k. CacheSizeClass ?h (page_of p) c = Some (?h\<lparr>pagemap_cache := k\<rparr>) \<and> heap_frame E res B Fm (?h\<lparr>pagemap_cache := k\<rparr>) V L"
  proof (rule frame_cache_entry [OF R q c])
    show "sizeclass e = c" if e: "V b = Some e" "sizeclass e \<noteq> 0" "page_of p \<in> span_pages e" for b e
    proof (cases "a = b")
      case False
      then have "span_pages d \<inter> span_pages e = {}" using frame_pages(2) [OF R a(1) F(5) [OF e(1)]] by blast
      then show ?thesis using a(3) e(3) by blast
    qed (use a e in auto)
    show "c = 0" if e: "B b = Some e" "span_start e = page_of p" for b e
    proof -
      note be = map_add_find_right [of B b e V, OF e(1)]
      have "a \<noteq> b" using heap_frameD(6) [OF R a(1)] e(1) by auto
      then have "span_pages d \<inter> span_pages e = {}" using frame_pages(2) [OF R a(1) be] by blast
      moreover have "page_of p \<in> span_pages e" using start_page [of e] heap_view_pages(1) [OF F(1) be] e(2) by simp
      ultimately show ?thesis using a(3) by blast
    qed
  next
    show "0 < page_of p" using P(1) a(3) by auto
  qed
  moreover have "cached_as ?h (page_of p) c" using cache_rightD(1) [OF F(4) a(1) nz a(3)] a(2) by simp
  ultimately show thesis by (intro that [OF P(5) [OF nz a(3)] f _ q])
qed

text \<open>The span of a large block.\<close>

lemma large_lookup:
  assumes R: "heap_frame E res B Fm h V L" and a: "B a = Some d"
  shows "GetDescriptor h (span_start d) = Sp a" "GetSizeClassIfCached h (span_start d) = Some 0" "\<not> sample (span_of h (Sp a))"
    "sizeclass (span_of h (Sp a)) = 0" "span_start (span_of h (Sp a)) = span_start d" "span_length (span_of h (Sp a)) = span_length d"
    "0 < span_start d" "0 < span_length d" "span_start d + span_length d \<le> 2 ^ 34"
    "\<exists>k. CacheSizeClass h (span_start d) 0 = Some (h\<lparr>pagemap_cache := k\<rparr>) \<and> heap_frame E res B Fm (h\<lparr>pagemap_cache := k\<rparr>) V L"
proof -
  note F = heap_frameD [OF R] and be = map_add_find_right [of B a d V, OF a]
  note O = frame_owned [OF R a]
  show "GetDescriptor h (span_start d) = Sp a" "GetSizeClassIfCached h (span_start d) = Some 0" "0 < span_length d" using O by blast+
  have d: "span_data (span_of h (Sp a)) = d" by (rule O(2))
  show "\<not> sample (span_of h (Sp a))" "sizeclass (span_of h (Sp a)) = 0" "span_start (span_of h (Sp a)) = span_start d"
    "span_length (span_of h (Sp a)) = span_length d" using O(4,5) arg_cong [OF d, of sample] arg_cong [OF d, of sizeclass]
      arg_cong [OF d, of span_start] arg_cong [OF d, of span_length] by (simp_all add: span_data_def)
  have st: "span_start d \<in> span_pages d" by (rule start_page [OF O(6)])
  then show "0 < span_start d" using O(7) by auto
  have "span_start d + span_length d - 1 \<in> span_pages d" using O(6) by (auto simp: span_pages_def extent_def)
  then show "span_start d + span_length d \<le> 2 ^ 34" using O(7) by fastforce
  have q: "span_start d < 2 ^ 34" using st O(7) by auto
  have z: "(0::nat) < kNumClasses" by (simp add: config_defs)
  show "\<exists>k. CacheSizeClass h (span_start d) 0 = Some (h\<lparr>pagemap_cache := k\<rparr>) \<and> heap_frame E res B Fm (h\<lparr>pagemap_cache := k\<rparr>) V L"
  proof (rule frame_cache_entry [OF R q z])
    show "sizeclass e = 0" if e: "V b = Some e" "sizeclass e \<noteq> 0" "span_start d \<in> span_pages e" for b e
    proof -
      have "b \<noteq> a" using F(6) [OF e(1)] a by auto
      then have "span_pages e \<inter> span_pages d = {}" using frame_pages(2) [OF R e(1) be] by blast
      then show ?thesis using st e(3) by blast
    qed
  next
    show "0 < span_start d" using st O(7) by auto
  qed simp
qed

section \<open>Blocks do not overlap\<close>

lemma small_apart:
  assumes I: "central_ok (heap_frame E res B Fm) S V L fr ch Out" and c: "c < kNumClasses" "k < kNumClasses"
    and x: "x \<in> Out c" "y \<in> Out k" and n: "c \<noteq> k \<or> x \<noteq> y"
  shows "extent x (class_to_size (sizemap S) c) \<inter> extent y (class_to_size (sizemap S) k) = {}"
proof -
  let ?sz = "class_to_size (sizemap S)"
  note R = central_okD(2) [OF I]
  obtain a d where a: "V a = Some d" "sizeclass d = c" "x \<in> grid (?sz c) d" using small_span(4) [OF I c(1) x(1)] by blast
  obtain b e where b: "V b = Some e" "sizeclass e = k" "y \<in> grid (?sz k) e" using small_span(4) [OF I c(2) x(2)] by blast
  show ?thesis
  proof (cases "a = b")
    case True
    then have "c = k" "d = e" using a(1,2) b(1,2) by auto
    then show ?thesis using grid_objects_apart [OF a(3)] b(3) n by blast
  next
    case False
    then have "span_pages d \<inter> span_pages e = {}" using frame_pages(2) [OF R a(1) heap_frameD(5) [OF R b(1)]] by blast
    then have "page_bytes (span_pages d) \<inter> page_bytes (span_pages e) = {}" by (auto simp: page_bytes_def)
    then show ?thesis using grid_extent [OF a(3)] grid_extent [OF b(3)] by blast
  qed
qed

lemma small_large_apart:
  assumes I: "central_ok (heap_frame E res B Fm) S V L fr ch Out" and c: "c < kNumClasses" and x: "x \<in> Out c" and b: "B b = Some e"
  shows "extent x (class_to_size (sizemap S) c) \<inter> page_bytes (span_pages e) = {}"
proof -
  obtain a d where a: "V a = Some d" "x \<in> grid (class_to_size (sizemap S) c) d" using small_span(4) [OF I c x] by blast
  have "page_bytes (span_pages d) \<inter> owned_bytes B = {}" by (rule frame_foreign [OF central_okD(2) [OF I] a(1)])
  then show ?thesis using grid_extent [OF a(2)] owned_bytesI [of B b e, OF b] by blast
qed

lemma large_apart:
  assumes R: "heap_frame E res B Fm h V L" and a: "B a = Some d" "B b = Some e" "a \<noteq> b"
  shows "page_bytes (span_pages d) \<inter> page_bytes (span_pages e) = {}"
proof -
  have "span_pages d \<inter> span_pages e = {}"
    by (rule frame_owned(8) [OF R a(1) map_add_find_right [of B b e V, OF a(2)] a(3)])
  then show ?thesis by (auto simp: page_bytes_def)
qed

section \<open>The state and its blocks\<close>

text \<open>What the entry points rely on in the size map: the class of a size holds it and keeps its alignment.\<close>

definition size_classes_ok :: "SizeMap \<Rightarrow> bool" where
  "size_classes_ok sm = ((\<forall>s\<le>kMaxSize. \<exists>c a. SizeClass sm s = Some c \<and> MaybeSizeClass sm s = Some c \<and> 0 < c \<and> c < kNumClasses \<and>
     s \<le> class_to_size sm c \<and> AlignmentForSize s = Some a \<and> a dvd class_to_size sm c) \<and>
     (\<forall>c d. 0 < c \<and> c < d \<and> d < kNumClasses \<longrightarrow> class_to_size sm c < class_to_size sm d))"

lemma size_classes_okD:
  assumes "size_classes_ok sm"
  shows "s \<le> kMaxSize \<Longrightarrow> \<exists>c a. SizeClass sm s = Some c \<and> MaybeSizeClass sm s = Some c \<and> 0 < c \<and> c < kNumClasses \<and>
      s \<le> class_to_size sm c \<and> AlignmentForSize s = Some a \<and> a dvd class_to_size sm c"
    "0 < c \<Longrightarrow> c < kNumClasses \<Longrightarrow> 0 < d \<Longrightarrow> d < kNumClasses \<Longrightarrow> class_to_size sm c = class_to_size sm d \<Longrightarrow> c = d"
    "MaybeSizeClass sm s = Some k \<Longrightarrow> 0 < k \<and> k < kNumClasses"
proof -
  show c: "s \<le> kMaxSize \<Longrightarrow> \<exists>c a. SizeClass sm s = Some c \<and> MaybeSizeClass sm s = Some c \<and> 0 < c \<and> c < kNumClasses \<and>
      s \<le> class_to_size sm c \<and> AlignmentForSize s = Some a \<and> a dvd class_to_size sm c" for s
    using assms unfolding size_classes_ok_def by blast
  show "0 < c \<Longrightarrow> c < kNumClasses \<Longrightarrow> 0 < d \<Longrightarrow> d < kNumClasses \<Longrightarrow> class_to_size sm c = class_to_size sm d \<Longrightarrow> c = d"
    using assms unfolding size_classes_ok_def by (metis less_irrefl linorder_neqE_nat)
  assume m: "MaybeSizeClass sm s = Some k"
  then have "s \<le> kMaxSize" by (auto simp: MaybeSizeClass_def config_defs split: if_splits)
  from c [OF this] m show "0 < k \<and> k < kNumClasses" by auto
qed

definition threads_blocks :: "'os heap_env \<Rightarrow> ('os \<Rightarrow> nat set) \<Rightarrow> 'os threads \<Rightarrow> (addr \<times> nat) set \<Rightarrow> bool" where
  "threads_blocks E res T Bs = (size_classes_ok (sizemap (central T)) \<and>
     (\<exists>B Fm HS fl Out. threads_ok E res B Fm T HS fl Out \<and> Bs = blocks (sizemap (central T)) B (program Out HS fl)))"

lemma threads_blocksI:
  "threads_ok E res B Fm T HS fl Out \<Longrightarrow> size_classes_ok (sizemap (central T)) \<Longrightarrow> Bs = blocks (sizemap (central T)) B (program Out HS fl) \<Longrightarrow>
    threads_blocks E res T Bs"
  unfolding threads_blocks_def by blast

lemma threads_blocksE:
  assumes "threads_blocks E res T Bs"
  obtains B Fm HS fl Out where "threads_ok E res B Fm T HS fl Out" "size_classes_ok (sizemap (central T))"
    "Bs = blocks (sizemap (central T)) B (program Out HS fl)"
  using assms unfolding threads_blocks_def by blast

text \<open>The size map and the contents of the blocks stay.\<close>

definition same_bytes :: "(addr \<times> nat) set \<Rightarrow> 'os threads \<Rightarrow> 'os threads \<Rightarrow> bool" where
  "same_bytes Bs T T' = (sizemap (central T') = sizemap (central T) \<and>
     (\<forall>y\<in>block_bytes Bs. object_mem (central T') y = object_mem (central T) y))"

lemma same_bytes_refl [simp]: "same_bytes Bs T T"
  by (simp add: same_bytes_def)

lemma same_bytes_trans: "same_bytes Bs T T1 \<Longrightarrow> same_bytes Bs T1 T2 \<Longrightarrow> same_bytes Bs T T2"
  by (simp add: same_bytes_def)

lemma same_bytes_mono: "same_bytes Bs' T T' \<Longrightarrow> Bs \<subseteq> Bs' \<Longrightarrow> same_bytes Bs T T'"
  using block_bytes_mono [of Bs Bs'] unfolding same_bytes_def by blast

lemma same_bytes_heap [simp]: "same_bytes Bs T (set_heap h T)"
  by (simp add: same_bytes_def)

lemma same_bytes_outs:
  assumes "\<forall>y\<in>outs (sizemap (central T)) (owned_bytes B) Pr. object_mem (central T') y = object_mem (central T) y"
    "sizemap (central T') = sizemap (central T)"
  shows "same_bytes (blocks (sizemap (central T)) B Pr) T T'"
  using assms blocks_outs unfolding same_bytes_def by blast

text \<open>A block and the others.\<close>

lemma block_removed: "0 < n \<Longrightarrow> extent p n \<inter> block_bytes Bs = {} \<Longrightarrow> insert (p, n) Bs - {(p, n)} = Bs"
  using block_bytesI [of p n Bs p] by fastforce

lemma blocks_take:
  assumes c: "c < kNumClasses" and p: "p \<in> P c"
  shows "blocks sm B P = insert (p, class_to_size sm c) (blocks sm B (P(c := P c - {p})))"
proof (intro set_eqI iffI)
  fix y assume y: "y \<in> blocks sm B P"
  obtain x n where xn: "y = (x, n)" by (cases y)
  from y [unfolded xn] show "y \<in> insert (p, class_to_size sm c) (blocks sm B (P(c := P c - {p})))"
  proof (cases rule: blocksE)
    case (1 k)
    show ?thesis
    proof (cases "k = c \<and> x = p")
      case False
      then have "x \<in> (P(c := P c - {p})) k" using 1(2) by auto
      from blocks_small [where Pr = "P(c := P c - {p})", OF 1(1) this] show ?thesis using 1(3) xn by simp
    qed (use 1(3) xn in simp)
  next
    case (2 a d)
    with blocks_large [where B = B, OF 2(1)] show ?thesis by (simp add: xn)
  qed
next
  fix y assume y: "y \<in> insert (p, class_to_size sm c) (blocks sm B (P(c := P c - {p})))"
  moreover have "blocks sm B (P(c := P c - {p})) \<subseteq> blocks sm B P" by (auto simp: blocks_def split: if_splits)
  ultimately show "y \<in> blocks sm B P" using blocks_small [where Pr = P, OF c p] by blast
qed

lemma held_small:
  assumes I: "threads_ok E res B Fm T HS fl Out" and c: "c < kNumClasses" and p: "p \<in> program Out HS fl c"
    and P: "P = program Out HS fl" "P' = P(c := P c - {p})"
  shows "blocks (sizemap (central T)) B P = insert (p, class_to_size (sizemap (central T)) c) (blocks (sizemap (central T)) B P')"
    "extent p (class_to_size (sizemap (central T)) c) \<inter> block_bytes (blocks (sizemap (central T)) B P') = {}"
    "0 < class_to_size (sizemap (central T)) c" "p \<noteq> 0" "0 < c"
proof -
  let ?sm = "sizemap (central T)"
  obtain V L fr ch where C: "central_ok (heap_frame E res B Fm) (central T) V L fr ch Out"
    using threads_okD(7) [OF I] by (rule supply_okE)
  have out: "x \<in> Out k" if "x \<in> P k" for x k using that programD(1) unfolding P by blast
  show "blocks ?sm B P = insert (p, class_to_size ?sm c) (blocks ?sm B P')" unfolding P by (rule blocks_take [where P = "program Out HS fl", OF c p])
  show "0 < class_to_size ?sm c" "p \<noteq> 0" "0 < c" using small_span(1-3) [OF C c out] p unfolding P(1) by blast+
  have "extent p (class_to_size ?sm c) \<inter> extent x n = {}" if x: "(x, n) \<in> blocks ?sm B P'" for x n
    using x
  proof (cases rule: blocksE)
    case (1 k)
    then have "x \<in> Out k" "c \<noteq> k \<or> p \<noteq> x" using out unfolding P(2) by (auto split: if_splits)
    with small_apart [OF C c 1(1) out [of p c]] p 1(3) show ?thesis unfolding P(1) by blast
  next
    case (2 a d)
    with small_large_apart [OF C c out [of p c] 2(1)] p show ?thesis unfolding P(1) span_bytes_extent by simp
  qed
  then show "extent p (class_to_size ?sm c) \<inter> block_bytes (blocks ?sm B P') = {}" unfolding block_bytes_def by blast
qed

lemma held_large:
  assumes I: "threads_ok E res B Fm T HS fl Out" and a: "B a = Some d" and P: "P = program Out HS fl"
    and p: "p = span_start d * 2 ^ kPageShift" "n = span_length d * 2 ^ kPageShift"
  shows "blocks (sizemap (central T)) B P = insert (p, n) (blocks (sizemap (central T)) (B(a := None)) P)"
    "extent p n \<inter> block_bytes (blocks (sizemap (central T)) (B(a := None)) P) = {}" "0 < n" "p \<noteq> 0"
proof -
  let ?sm = "sizemap (central T)"
  obtain V L fr ch where C: "central_ok (heap_frame E res B Fm) (central T) V L fr ch Out"
    using threads_okD(7) [OF I] by (rule supply_okE)
  note R = central_okD(2) [OF C]
  have "ran ((B(a := None))(a \<mapsto> d)) = insert d (ran (B(a := None)))" by (rule ran_map_upd) simp
  moreover have "(B(a := None))(a \<mapsto> d) = B" using a by (simp add: fun_upd_idem)
  ultimately have "ran B = insert d (ran (B(a := None)))" by simp
  then show "blocks ?sm B P = insert (p, n) (blocks ?sm (B(a := None)) P)" by (simp add: blocks_def p)
  show "0 < n" "p \<noteq> 0" using large_lookup(7,8) [OF R a] by (simp_all add: p)
  have e: "extent p n = page_bytes (span_pages d)" by (simp add: span_bytes_extent p)
  have "extent p n \<inter> extent x k = {}" if x: "(x, k) \<in> blocks ?sm (B(a := None)) P" for x k
    using x
  proof (cases rule: blocksE)
    case (1 c)
    have "x \<in> Out c" using 1(2) programD(1) unfolding P by blast
    from small_large_apart [OF C 1(1) this a] show ?thesis using 1(3) unfolding e by blast
  next
    case (2 b f)
    then have "B b = Some f" "a \<noteq> b" by (auto split: if_splits)
    from large_apart [OF R a this] show ?thesis using 2(2,3) unfolding e span_bytes_extent by simp
  qed
  then show "extent p n \<inter> block_bytes (blocks ?sm (B(a := None)) P) = {}" unfolding block_bytes_def by blast
qed

end
