(* ===== verification/Malloc_Alloc.thy ===== *)
theory Malloc_Alloc
  imports Malloc_Inv
begin

text \<open>
  Allocation. \<open>allotted\<close> is what every function that allocates promises: null, and nothing has changed for the
  program, or a new block of at least the size asked for, apart from all others and aligned; no byte of the
  other blocks is written.
\<close>

definition allotted :: "'os heap_env \<Rightarrow> ('os \<Rightarrow> nat set) \<Rightarrow> 'os threads \<Rightarrow> (addr \<times> nat) set \<Rightarrow> nat \<Rightarrow> nat \<Rightarrow> addr \<Rightarrow> 'os threads \<Rightarrow> bool" where
  "allotted E res T Bs sz al p T' = (same_bytes Bs T T' \<and> al dvd p \<and>
     (if p = 0 then threads_blocks E res T' Bs
      else \<exists>n\<ge>sz. 0 < n \<and> threads_blocks E res T' (insert (p, n) Bs) \<and> extent p n \<inter> block_bytes Bs = {}))"

lemma allotted_null: "threads_blocks E res T' Bs \<Longrightarrow> same_bytes Bs T T' \<Longrightarrow> allotted E res T Bs sz al 0 T'"
  by (simp add: allotted_def)

lemma allotted_trans: "same_bytes Bs T T1 \<Longrightarrow> allotted E res T1 Bs sz al p T' \<Longrightarrow> allotted E res T Bs sz al p T'"
  unfolding allotted_def using same_bytes_trans by blast

lemma allotted_weaken: "allotted E res T Bs sz al p T' \<Longrightarrow> sz' \<le> sz \<Longrightarrow> al' dvd al \<Longrightarrow> allotted E res T Bs sz' al' p T'"
  unfolding allotted_def using dvd_trans by (metis order_trans)

section \<open>Small blocks\<close>

lemma threads_ok_same:
  "central_supply.pool_ok E res B Fm T' HS fl' Out' \<Longrightarrow> rest_same T T' \<Longrightarrow> threads_ok E res B Fm T HS fl Out \<Longrightarrow> threads_ok E res B Fm T' HS fl' Out'"
  using threads_okD(2,3) tls_ok_same rest_sameD(1) by (metis threads_ok_def)

lemma grid_dvd: "p \<in> grid sz d \<Longrightarrow> al dvd sz \<Longrightarrow> al dvd kPageSize \<Longrightarrow> al dvd p"
  by (auto simp: grid_def kPageSize_def)

lemma checked_small:
  assumes I: "threads_ok E res B Fm T HS fl Out" and c: "c < kNumClasses" and p: "p \<in> program Out HS fl c"
  shows "CheckedMallocResult (central T) p = Some p"
    "al dvd class_to_size (sizemap (central T)) c \<Longrightarrow> al dvd kPageSize \<Longrightarrow> al dvd p"
proof -
  obtain V L fr ch where C: "central_ok (heap_frame E res B Fm) (central T) V L fr ch Out"
    using threads_okD(7) [OF I] by (rule supply_okE)
  have o: "p \<in> Out c" using p programD(1) by blast
  show "CheckedMallocResult (central T) p = Some p"
    by (rule small_lookup [OF C c o]) (auto simp: CheckedMallocResult_def CheckCachedSizeClass_def cached_as_def)
  show "al dvd class_to_size (sizemap (central T)) c \<Longrightarrow> al dvd kPageSize \<Longrightarrow> al dvd p"
    using small_span(4) [OF C c o] grid_dvd by blast
qed

lemma cache_alloc_ok:
  assumes I: "threads_ok E res B Fm T HS fl Out" and sm: "size_classes_ok (sizemap (central T))" and h: "h \<in> set HS"
    and c: "0 < c" "c < kNumClasses" and sz: "sz \<le> class_to_size (sizemap (central T)) c"
    and al: "al dvd class_to_size (sizemap (central T)) c" "al dvd kPageSize"
    and Bs: "Bs = blocks (sizemap (central T)) B (program Out HS fl)"
  shows "\<exists>r. cache_Allocate E (class_to_size (sizemap (central T)) c) c h T = Some r \<and>
    (\<forall>p T'. r = Ret (p, T') \<longrightarrow> CheckedMallocResult (central T') p = Some p \<and> allotted E res T Bs sz al p T')"
proof -
  let ?P = "program Out HS fl" and ?sz = "class_to_size (sizemap (central T)) c"
  obtain r where r: "cache_Allocate E ?sz c h T = Some r" "\<And>p T'. r = Ret (p, T') \<Longrightarrow>
    \<exists>Out' fl'. central_supply.pool_ok E res B Fm T' HS fl' Out' \<and> rest_same T T' \<and> (p \<noteq> 0 \<longrightarrow> p \<notin> ?P c) \<and>
      program Out' HS fl' = ?P(c := ?P c \<union> ({p} - {0})) \<and>
      (\<forall>y\<in>outs (sizemap (central T)) (owned_bytes B) ?P. object_mem (central T') y = object_mem (central T) y)"
    using central_supply.cache_Allocate_ok [OF threads_okD(1) [OF I] h c(2,1)] by blast
  have "CheckedMallocResult (central T') p = Some p \<and> allotted E res T Bs sz al p T'" if R: "r = Ret (p, T')" for p T'
  proof -
    obtain Out' fl' where 1: "central_supply.pool_ok E res B Fm T' HS fl' Out'" "rest_same T T'" "p \<noteq> 0 \<Longrightarrow> p \<notin> ?P c"
      "program Out' HS fl' = ?P(c := ?P c \<union> ({p} - {0}))"
      "\<forall>y\<in>outs (sizemap (central T)) (owned_bytes B) ?P. object_mem (central T') y = object_mem (central T) y"
      using r(2) [OF R] by blast
    note I' = threads_ok_same [OF 1(1,2) I] and s = rest_sameD(8) [OF 1(2)]
    have b: "same_bytes Bs T T'" unfolding Bs by (rule same_bytes_outs [OF 1(5) s])
    show ?thesis
    proof (cases "p = 0")
      case True
      then have e: "program Out' HS fl' = ?P" using 1(4) by simp
      have "threads_blocks E res T' Bs" by (rule threads_blocksI [OF I']) (use sm s Bs e in simp_all)
      then show ?thesis using True allotted_null [OF _ b] by (simp add: CheckedMallocResult_def)
    next
      case False
      have p: "p \<in> program Out' HS fl' c" using 1(4) False by simp
      have "?P = (program Out' HS fl')(c := program Out' HS fl' c - {p})" using 1(3,4) False by auto
      note H = held_small [OF I' c(2) p refl this, unfolded s]
      have "threads_blocks E res T' (insert (p, ?sz) Bs)"
        by (rule threads_blocksI [OF I']) (use sm s Bs H(1) in simp_all)
      moreover have "al dvd p" using checked_small(2) [OF I' c(2) p] al s by simp
      ultimately show ?thesis using checked_small(1) [OF I' c(2) p] False b sz H(2,3) Bs unfolding allotted_def by auto
    qed
  qed
  with r(1) show ?thesis by blast
qed

lemma do_malloc_small_ok:
  assumes I: "threads_ok E res B Fm T HS fl Out" and sm: "size_classes_ok (sizemap (central T))" and h: "h \<in> set HS"
    and sz: "sz \<le> kMaxSize" and Bs: "Bs = blocks (sizemap (central T)) B (program Out HS fl)" and al: "AlignmentForSize sz = Some al"
  shows "\<exists>r. do_malloc_small E h sz T = Some r \<and> (\<forall>p T'. r = Ret (p, T') \<longrightarrow> allotted E res T Bs sz al p T')"
proof -
  obtain c where c: "SizeClass (sizemap (central T)) sz = Some c" "0 < c" "c < kNumClasses" "sz \<le> class_to_size (sizemap (central T)) c"
    "al dvd class_to_size (sizemap (central T)) c" using size_classes_okD(1) [OF sm sz] al by auto
  have "al dvd kPageSize"
    using AlignmentForSize_spec [of sz] al le_imp_power_dvd by (auto simp: kPageSize_def)
  from cache_alloc_ok [OF I sm h c(2-5) this Bs] obtain r where r: "cache_Allocate E (class_to_size (sizemap (central T)) c) c h T = Some r"
    "\<And>p T'. r = Ret (p, T') \<Longrightarrow> CheckedMallocResult (central T') p = Some p \<and> allotted E res T Bs sz al p T'" by blast
  have "h \<noteq> 0" using ring_okD(7) [OF threads_okD(5) [OF I] h] .
  then show ?thesis using c(1) r by (cases r) (auto simp: do_malloc_small_def)
qed

section \<open>Large blocks\<close>

lemma pages_ge: "sz \<le> pages sz * 2 ^ kPageShift"
proof -
  have "sz = sz div kPageSize * kPageSize + sz mod kPageSize" by simp
  moreover have "sz mod kPageSize \<le> (if sz mod kPageSize > 0 then 1 else 0) * kPageSize"
    using mod_less_divisor [OF kPageSize_pos, of sz] by auto
  ultimately have "sz \<le> (sz div kPageSize + (if sz mod kPageSize > 0 then 1 else 0)) * kPageSize"
    unfolding add_mult_distrib by linarith
  then show ?thesis by (simp add: pages_def kPageSize_def)
qed

lemma pages_pos: "0 < sz \<Longrightarrow> 0 < pages sz"
  using pages_ge [of sz] by (cases "pages sz") auto

text \<open>A span that is new in the view of the central lists goes to the program.\<close>

lemma SpanToMallocResult_ok:
  assumes I: "threads_ok E res B Fm T HS fl Out" and sm: "size_classes_ok (sizemap (central T))"
    and J: "\<And>h B'. heap_frame E res B' Fm h V L \<Longrightarrow> threads_ok E res B' Fm (set_heap h T) HS fl Out"
    and R: "heap_frame E res B Fm h (V(a \<mapsto> d)) L" and a: "V a = None" "B a = None" "sizeclass d = 0" "\<forall>H\<in>cheaders. Sp a \<notin> set (L H)"
    and Bs: "Bs = blocks (sizemap (central T)) B (program Out HS fl)"
    and sz: "sz \<le> span_length d * 2 ^ kPageShift" and al: "al dvd span_start d * 2 ^ kPageShift"
  shows "\<exists>p T'. SpanToMallocResult (set_heap h T) (Sp a) = Some (p, T') \<and> p \<noteq> 0 \<and> allotted E res T Bs sz al p T'"
proof -
  let ?p = "span_start d * 2 ^ kPageShift" and ?n = "span_length d * 2 ^ kPageShift"
  obtain k where k: "CacheSizeClass h (span_start d) 0 = Some (h\<lparr>pagemap_cache := k\<rparr>)"
    "heap_frame E res (B(a \<mapsto> d)) Fm (h\<lparr>pagemap_cache := k\<rparr>) V L" using frame_take [OF R a] by blast
  let ?h = "h\<lparr>pagemap_cache := k\<rparr>" and ?B = "B(a \<mapsto> d)"
  let ?T = "set_heap ?h T"
  have I': "threads_ok E res ?B Fm ?T HS fl Out" by (rule J [OF k(2)])
  have Ba: "?B a = Some d" and Bd: "?B(a := None) = B" using a(2) by (auto simp: fun_eq_iff)
  note lk = large_lookup [where B = ?B, OF k(2) Ba] and H = held_large [where B = ?B, OF I' Ba refl refl refl, unfolded Bd]
  have st: "span_start (span_of h (Sp a)) = span_start d" using lk(5) by (simp add: span_of_def)
  have lt: "?p < 2 ^ 64"
  proof -
    have "?p < 2 ^ 34 * 2 ^ kPageShift" using lk(8,9) by (intro mult_strict_right_mono) simp_all
    also have "\<dots> < 2 ^ 64" by (simp add: kPageShift_def)
    finally show ?thesis .
  qed
  have "page_of ?p = span_start d" by (simp add: page_of_def)
  then have "CheckedMallocResult (central ?T) ?p = Some ?p"
    using lk(2) by (simp add: CheckedMallocResult_def CheckCachedSizeClass_def)
  moreover have tt: "set_heap ?h (set_heap h T) = ?T" by (simp add: set_heap_def)
  ultimately have "SpanToMallocResult (set_heap h T) (Sp a) = Some (?p, ?T)"
    using k(1) st lt by (simp add: SpanToMallocResult_def Let_def)
  moreover have "threads_blocks E res ?T (insert (?p, ?n) Bs)"
    by (rule threads_blocksI [OF I']) (use sm H(1) Bs in simp_all)
  then have "allotted E res T Bs sz al ?p ?T" using H(2-4) sz al Bs unfolding allotted_def by auto
  ultimately show ?thesis using H(4) by blast
qed

lemma New_ok:
  assumes R: "heap_frame E res B Fm h V L" and n: "0 < n"
  obtains "New E h n = Some OutOfMemory"
  | h' where "New E h n = Some (Ret (SNull, h'))" "heap_frame E res B Fm h' V L"
  | a d h' where "New E h n = Some (Ret (Sp a, h'))" "V a = None" "B a = None" "heap_frame E res B Fm h' (V(a \<mapsto> d)) L" "span_length d = n"
    "sizeclass d = 0" "\<forall>H\<in>cheaders. Sp a \<notin> set (L H)" "span_start (span_of h' (Sp a)) = span_start d" "span_length (span_of h' (Sp a)) = n"
proof -
  obtain r where r: "New E h n = Some r" "\<And>s h'. r = Ret (s, h') \<Longrightarrow>
      (s = SNull \<and> heap_frame E res B Fm h' V L \<or>
       (\<exists>a d. s = Sp a \<and> V a = None \<and> B a = None \<and> heap_frame E res B Fm h' (V(a \<mapsto> d)) L \<and> span_length d = n \<and> sizeclass d = 0 \<and>
          (\<forall>H\<in>cheaders. Sp a \<notin> set (L H))))" using frame_New [OF R n] by blast
  show thesis
  proof (cases r)
    case OutOfMemory
    then show thesis using that(1) r(1) by simp
  next
    case (Ret x)
    obtain s h' where x: "x = (s, h')" by (cases x)
    from r(2) Ret x consider "s = SNull" "heap_frame E res B Fm h' V L"
      | a d where "s = Sp a" "V a = None" "B a = None" "heap_frame E res B Fm h' (V(a \<mapsto> d)) L" "span_length d = n" "sizeclass d = 0"
        "\<forall>H\<in>cheaders. Sp a \<notin> set (L H)" by blast
    then show thesis
    proof cases
      case 1
      then show thesis using that(2) r(1) Ret x by simp
    next
      case (2 a d)
      have v: "(V(a \<mapsto> d)) a = Some d" by simp
      note f = client_heap.span_fields [OF 2(4) v]
      show thesis using that(3) [OF _ 2(2-7) f(1)] r(1) Ret x 2(1,5) f(2) by simp
    qed
  qed
qed

lemma New_span_ok:
  assumes I: "threads_ok E res B Fm T HS fl Out" and sm: "size_classes_ok (sizemap (central T))" and sz: "0 < sz" and al: "al dvd kPageSize"
    and Bs: "Bs = blocks (sizemap (central T)) B (program Out HS fl)"
  shows "New E (heap_of T) (pages sz) = Some OutOfMemory \<or>
    (\<exists>h. New E (heap_of T) (pages sz) = Some (Ret (SNull, h)) \<and> allotted E res T Bs sz al 0 (set_heap h T)) \<or>
    (\<exists>a h p T'. New E (heap_of T) (pages sz) = Some (Ret (Sp a, h)) \<and> SpanToMallocResult (set_heap h T) (Sp a) = Some (p, T') \<and>
      allotted E res T Bs sz al p T')"
proof -
  obtain V L fr ch where C: "central_ok (heap_frame E res B Fm) (central T) V L fr ch Out"
    and J: "\<And>h B'. heap_frame E res B' Fm h V L \<Longrightarrow> threads_ok E res B' Fm (set_heap h T) HS fl Out" using threads_ok_heap [OF I] by blast
  show ?thesis
  proof (rule New_ok [OF central_okD(2) [OF C] pages_pos [OF sz]])
    fix h' assume 1: "New E (heap_of T) (pages sz) = Some (Ret (SNull, h'))" "heap_frame E res B Fm h' V L"
    have "threads_blocks E res (set_heap h' T) Bs" by (rule threads_blocksI [OF J [OF 1(2)]]) (use sm Bs in simp_all)
    then show ?thesis using 1(1) allotted_null [OF _ same_bytes_heap] by blast
  next
    fix a d h'
    assume 1: "New E (heap_of T) (pages sz) = Some (Ret (Sp a, h'))" "V a = None" "B a = None" "heap_frame E res B Fm h' (V(a \<mapsto> d)) L"
      "span_length d = pages sz" "sizeclass d = 0" "\<forall>H\<in>cheaders. Sp a \<notin> set (L H)"
    have "al dvd span_start d * 2 ^ kPageShift" using al by (simp add: kPageSize_def)
    with SpanToMallocResult_ok [OF I sm J 1(4,2,3,6,7) Bs] 1(1,5) pages_ge [of sz] show ?thesis by metis
  qed simp
qed

section \<open>\<open>malloc\<close>\<close>

lemma threads_blocks_stay:
  assumes "threads_ok E res B Fm' T' HS' fl' Out'" "size_classes_ok (sizemap (central T))" "sizemap (central T') = sizemap (central T)"
    "program Out' HS' fl' = program Out HS fl" "Bs = blocks (sizemap (central T)) B (program Out HS fl)"
  shows "threads_blocks E res T' Bs" "Bs = blocks (sizemap (central T')) B (program Out' HS' fl')" "size_classes_ok (sizemap (central T'))"
  using threads_blocksI [OF assms(1)] assms(2-5) by simp_all

lemma alignment_dvd_page: "AlignmentForSize sz = Some al \<Longrightarrow> al dvd kPageSize"
  using AlignmentForSize_spec [of sz] le_imp_power_dvd by (auto simp: kPageSize_def)

lemma do_malloc_pages_ok:
  assumes I: "threads_ok E res B Fm (tcs P) HS fl Out" and sm: "size_classes_ok (sizemap (central (tcs P)))" and sz: "0 < sz" and al: "al dvd kPageSize"
    and Bs: "Bs = blocks (sizemap (central (tcs P))) B (program Out HS fl)"
  shows "\<exists>r. do_malloc_pages E sz P = Some r \<and> (\<forall>p P'. r = Ret (p, P') \<longrightarrow>
    allotted E res (tcs P) Bs sz al p (tcs P') \<and> tc_new_mode P' = tc_new_mode P)"
  using New_span_ok [OF I sm sz al Bs]
  by (elim disjE exE conjE) (simp_all add: do_malloc_pages_def Let_def split: prod.split)

lemma min_size: "tls_ok T HS \<Longrightarrow> sz < min_size_for_slow_path T me \<Longrightarrow> local_heap T me \<in> set HS \<and> local_heap T me \<noteq> 0 \<and> sz \<le> kMaxSize"
  using tls_okD(4) [of T HS me] tls_ok_local [of T HS me] by (auto split: if_splits)

lemma on_threads_ok:
  assumes "\<exists>r. f = Some r \<and> (\<forall>p T'. r = Ret (p, T') \<longrightarrow> Q p T')"
  shows "\<exists>r. on_threads f P = Some r \<and> (\<forall>p P'. r = Ret (p, P') \<longrightarrow> Q p (tcs P') \<and> tc_new_mode P' = tc_new_mode P)"
  using assms by (auto simp: on_threads_def split: outcome.splits)

lemma do_malloc_ok:
  assumes I: "threads_blocks E res (tcs P) Bs" and al: "AlignmentForSize sz = Some al"
  shows "\<exists>r. do_malloc E me sz P = Some r \<and> (\<forall>p P'. r = Ret (p, P') \<longrightarrow>
    allotted E res (tcs P) Bs sz al p (tcs P') \<and> tc_new_mode P' = tc_new_mode P)"
proof -
  let ?T = "tcs P"
  obtain B Fm HS fl Out where J: "threads_ok E res B Fm ?T HS fl Out" and sm: "size_classes_ok (sizemap (central ?T))"
    and Bs: "Bs = blocks (sizemap (central ?T)) B (program Out HS fl)" using I by (rule threads_blocksE)
  note tls = threads_okD(3) [OF J]
  show ?thesis
  proof (cases "sz < min_size_for_slow_path ?T me")
    case True
    note m = min_size [OF tls True]
    from on_threads_ok [OF do_malloc_small_ok [OF J sm _ _ Bs al], of "local_heap ?T me" P] m True show ?thesis
      by (simp add: do_malloc_def)
  next
    case False
    obtain r where r: "GetCache E me ?T = Some r" "\<And>h T'. r = Ret (h, T') \<Longrightarrow>
      \<exists>Fm' HS' fl'. threads_ok E res B Fm' T' HS' fl' Out \<and> h \<in> set HS' \<and> tc_tid (caches T' h) = me \<and>
        program Out HS' fl' = program Out HS fl \<and> object_mem (central T') = object_mem (central ?T) \<and> sizemap (central T') = sizemap (central ?T)"
      using GetCache_ok [OF J] by blast
    show ?thesis
    proof (cases r)
      case OutOfMemory
      then show ?thesis using r(1) False by (simp add: do_malloc_def)
    next
      case (Ret x)
      obtain h T1 where x: "x = (h, T1)" by (cases x)
      obtain Fm' HS' fl' where 1: "threads_ok E res B Fm' T1 HS' fl' Out" "h \<in> set HS'" "program Out HS' fl' = program Out HS fl"
        "object_mem (central T1) = object_mem (central ?T)" "sizemap (central T1) = sizemap (central ?T)" using r(2) Ret x by blast
      note 2 = threads_blocks_stay [OF 1(1) sm 1(5,3) Bs]
      have b: "same_bytes Bs ?T T1" using 1(4,5) by (simp add: same_bytes_def)
      let ?P = "P\<lparr>tcs := T1\<rparr>"
      have run: "do_malloc E me sz P = (if sz \<le> kMaxSize then on_threads (do_malloc_small E h sz T1) ?P else do_malloc_pages E sz ?P)"
        using r(1) Ret x False by (simp add: do_malloc_def Let_def)
      have "\<exists>r. (if sz \<le> kMaxSize then on_threads (do_malloc_small E h sz T1) ?P else do_malloc_pages E sz ?P) = Some r \<and>
        (\<forall>p P'. r = Ret (p, P') \<longrightarrow> allotted E res T1 Bs sz al p (tcs P') \<and> tc_new_mode P' = tc_new_mode P)"
      proof (cases "sz \<le> kMaxSize")
        case True
        from on_threads_ok [OF do_malloc_small_ok [OF 1(1) 2(3) 1(2) True 2(2) al], of ?P] True show ?thesis by simp
      next
        case f: False
        then have "0 < sz" by simp
        from do_malloc_pages_ok [of E res B Fm' ?P HS' fl' Out, OF _ _ this alignment_dvd_page [OF al]] 1(1) 2(2,3) f show ?thesis by simp
      qed
      then show ?thesis unfolding run using allotted_trans [OF b] by blast
    qed
  qed
qed

text \<open>With the default \<open>tc_new_mode\<close> the C functions give null when there is no memory.\<close>

definition pointer_to :: "(addr \<times> 'p) outcome \<Rightarrow> (alloc_result \<times> 'p) outcome" where
  "pointer_to r = (case r of OutOfMemory \<Rightarrow> OutOfMemory | Ret (p, P) \<Rightarrow> Ret (Pointer p, P))"

lemma or_handle_oom_mode0:
  assumes "alloc P = Some r" "\<And>p P'. r = Ret (p, P') \<Longrightarrow> tc_new_mode P' = 0"
  shows "or_handle_oom nh alloc False b P = Some (pointer_to r)"
  using assms by (auto simp: or_handle_oom_def handle_oom_def pointer_to_def split: outcome.splits)

lemma alloc_mode0:
  assumes r: "\<exists>r. alloc P = Some r \<and> (\<forall>p P'. r = Ret (p, P') \<longrightarrow> Q p P' \<and> tc_new_mode P' = tc_new_mode P)" and m: "tc_new_mode P = 0"
  shows "\<exists>r. or_handle_oom nh alloc False b P = Some r \<and> (\<forall>x P'. r = Ret (x, P') \<longrightarrow>
    (\<exists>p. x = Pointer p \<and> Q p P') \<and> tc_new_mode P' = 0)"
proof -
  obtain r where r: "alloc P = Some r" "\<And>p P'. r = Ret (p, P') \<Longrightarrow> Q p P' \<and> tc_new_mode P' = 0" using r m by auto
  show ?thesis using or_handle_oom_mode0 [of alloc P r nh b, OF r(1)] r(2)
    by (auto simp: pointer_to_def split: outcome.splits prod.splits)
qed

lemma malloc_ok:
  assumes "threads_blocks E res (tcs P) Bs" "tc_new_mode P = 0" "AlignmentForSize sz = Some al"
  shows "\<exists>r. do_malloc_or_cpp_alloc E nh me sz P = Some r \<and> (\<forall>x P'. r = Ret (x, P') \<longrightarrow>
    (\<exists>p. x = Pointer p \<and> allotted E res (tcs P) Bs sz al p (tcs P')) \<and> tc_new_mode P' = 0)"
  unfolding do_malloc_or_cpp_alloc_def
  by (rule alloc_mode0 [where alloc = "do_malloc E me sz" and P = P and Q = "\<lambda>p P'. allotted E res (tcs P) Bs sz al p (tcs P')", OF do_malloc_ok [OF assms(1,3)] assms(2)])

section \<open>Writing to blocks\<close>

lemma threads_blocks_write:
  assumes I: "threads_blocks E res T Bs" and m: "\<And>y. y \<notin> block_bytes Bs \<Longrightarrow> m y = object_mem (central T) y"
  shows "threads_blocks E res (set_mem m T) Bs"
proof -
  obtain B Fm HS fl Out where J: "threads_ok E res B Fm T HS fl Out" and sm: "size_classes_ok (sizemap (central T))"
    and Bs: "Bs = blocks (sizemap (central T)) B (program Out HS fl)" using I by (rule threads_blocksE)
  have "m y = object_mem (central T) y" if "y \<notin> outs (sizemap (central T)) (owned_bytes B) (program Out HS fl)" for y
    using that m blocks_outs unfolding Bs by blast
  from central_supply.program_write_ok [OF threads_okD(1) [OF J] this]
  have "central_supply.pool_ok E res B Fm (set_mem m T) HS fl Out" by (simp add: set_mem_def)
  then have "threads_ok E res B Fm (set_mem m T) HS fl Out"
    using threads_okD(2,3) [OF J] by (simp add: threads_ok_def tls_ok_def set_mem_def)
  then show ?thesis by (rule threads_blocksI) (use sm Bs in simp_all)
qed

text \<open>The first \<open>n\<close> bytes from \<open>p\<close> on are zero.\<close>

definition zeroed :: "mem \<Rightarrow> addr \<Rightarrow> nat \<Rightarrow> bool" where
  "zeroed m p n = (\<forall>a. p \<le> a \<and> a < p + n \<and> (a - p) mod 8 = 0 \<longrightarrow> m a mod 2 ^ (8 * min 8 (p + n - a)) = 0)"

lemma mem_set0_zeroed: "zeroed (mem_set0 p n m) p n"
  unfolding zeroed_def by (auto simp: mem_set0_def low_bytes_def min_def)

lemma mem_set0_frame: "y \<notin> extent p n \<Longrightarrow> mem_set0 p n m y = m y"
  by (auto simp: mem_set0_def extent_def)

lemma extent_grow: "k \<le> n \<Longrightarrow> extent p k \<subseteq> extent p n"
  by (auto simp: extent_def)

lemma mul_overflow:
  assumes "0 < (e::nat)"
  shows "(n * e mod 2 ^ 64 div e = n) = (n * e < 2 ^ 64)"
proof
  assume n: "n * e mod 2 ^ 64 div e = n"
  show "n * e < 2 ^ 64"
  proof (rule ccontr)
    assume "\<not> n * e < 2 ^ 64"
    moreover have "n * e mod 2 ^ 64 < 2 ^ 64" by simp
    ultimately have "n * e mod 2 ^ 64 < n * e" by linarith
    then have "n * e mod 2 ^ 64 div e < n" by (rule less_mult_imp_div_less)
    then show False using n by simp
  qed
qed (use assms in simp)

lemma do_calloc_ok:
  assumes I: "threads_blocks E res (tcs P) Bs" "tc_new_mode P = 0"
  shows "\<exists>r. do_calloc E nh me n e P = Some r \<and> (\<forall>x P'. r = Ret (x, P') \<longrightarrow>
    (\<exists>p. x = Pointer p \<and> allotted E res (tcs P) Bs (n * e) 8 p (tcs P') \<and>
       (p \<noteq> 0 \<longrightarrow> n * e < 2 ^ 64 \<and> zeroed (object_mem (central (tcs P'))) p (n * e))) \<and> tc_new_mode P' = 0)"
proof (cases "e \<noteq> 0 \<and> n * e mod 2 ^ 64 div e \<noteq> n")
  case True
  then have "do_calloc E nh me n e P = Some (Ret (Pointer 0, P))" by (simp add: do_calloc_def Let_def)
  then show ?thesis using allotted_null [OF I(1) same_bytes_refl] I(2) by simp
next
  case False
  then have lt: "n * e < 2 ^ 64" using mul_overflow [of e n] by (cases "e = 0") auto
  then have sz: "n * e mod 2 ^ 64 = n * e" by simp
  obtain k where k: "AlignmentForSize (n * e) = Some (2 ^ k)" "3 \<le> k" using AlignmentForSize_spec [of "n * e"] by blast
  have al: "8 dvd (2::nat) ^ k" using le_imp_power_dvd [OF k(2), of "2::nat"] by simp
  obtain r where r: "do_malloc_or_cpp_alloc E nh me (n * e) P = Some r" "\<And>x P'. r = Ret (x, P') \<Longrightarrow>
    (\<exists>p. x = Pointer p \<and> allotted E res (tcs P) Bs (n * e) (2 ^ k) p (tcs P')) \<and> tc_new_mode P' = 0"
    using malloc_ok [OF I k(1)] by blast
  show ?thesis
  proof (cases r)
    case OutOfMemory
    then show ?thesis using r(1) False sz by (auto simp: do_calloc_def Let_def)
  next
    case (Ret y)
    obtain x P1 where x: "y = (x, P1)" by (cases y)
    obtain p where p: "x = Pointer p" "allotted E res (tcs P) Bs (n * e) (2 ^ k) p (tcs P1)" "tc_new_mode P1 = 0" using r(2) Ret x by blast
    note A = allotted_weaken [OF p(2) le_refl al]
    let ?m = "mem_set0 p (n * e) (object_mem (central (tcs P1)))"
    have run: "do_calloc E nh me n e P = Some (Ret (Pointer p, if p \<noteq> 0 then P1\<lparr>tcs := set_mem ?m (tcs P1)\<rparr> else P1))"
      using r(1) Ret x p(1) False sz by (auto simp: do_calloc_def Let_def)
    show ?thesis
    proof (cases "p = 0")
      case True
      then show ?thesis using run A p(3) by simp
    next
      case nz: False
      obtain b where b: "n * e \<le> b" "0 < b" "threads_blocks E res (tcs P1) (insert (p, b) Bs)" "extent p b \<inter> block_bytes Bs = {}"
        "same_bytes Bs (tcs P) (tcs P1)" "8 dvd p" using A nz unfolding allotted_def by auto
      have f: "?m y = object_mem (central (tcs P1)) y" if "y \<notin> extent p b" for y
        using mem_set0_frame extent_grow [OF b(1), of p] that by blast
      have "threads_blocks E res (set_mem ?m (tcs P1)) (insert (p, b) Bs)"
        by (rule threads_blocks_write [OF b(3)], rule f) (simp add: block_bytes_insert)
      moreover have "?m y = object_mem (central (tcs P1)) y" if "y \<in> block_bytes Bs" for y
        by (rule f) (use b(4) that in blast)
      then have "same_bytes Bs (tcs P1) (set_mem ?m (tcs P1))" by (simp add: same_bytes_def)
      ultimately have "allotted E res (tcs P) Bs (n * e) 8 p (set_mem ?m (tcs P1))"
        using b nz same_bytes_trans [OF b(5)] unfolding allotted_def by auto
      then show ?thesis using run nz lt mem_set0_zeroed p(3) by simp
    qed
  qed
qed

end
