(* ===== verification/Malloc_Free.thy ===== *)
theory Malloc_Free
  imports Malloc_Alloc
begin

text \<open>
  Freeing and reallocation. A block that the program holds can be freed by every thread, with or without a
  cache of its own; just this block is gone, and no byte of the others is written.
\<close>

section \<open>A single object goes back to the central list\<close>

context object_supply
begin

lemma give_one_ok:
  assumes I: "pool_ok T HS fl Out" and c: "c < kNumClasses" and p: "p \<in> program Out HS fl c"
  shows "\<exists>m S'. SLL_SetNext (object_mem (central T)) p 0 = Some m \<and> InsertRange E c ((central T)\<lparr>object_mem := m\<rparr>) p p 1 = Some S' \<and>
    moved T HS ((program Out HS fl)(c := program Out HS fl c - {p})) (T\<lparr>central := S'\<rparr>) fl (Out(c := Out c - {p}))"
proof -
  let ?P = "program Out HS fl" and ?S = "central T" and ?Out = "Out(c := Out c - {p})"
  let ?m = "(object_mem ?S)(p := 0)"
  let ?T1 = "T\<lparr>central := ?S\<lparr>object_mem := ?m\<rparr>\<rparr>"
  have po: "p \<in> Out c" using p programD(1) by blast
  have ok0: "ok ?S Out" using I by (simp add: pool_ok_def caches_ok_def)
  have p0: "p \<noteq> 0" using held [where Out = Out, OF ok0 c po] by blast
  have "?m y = object_mem ?S y" if "y \<notin> outs (sizemap ?S) A ?P" for y
  proof -
    have "y \<noteq> p" using that outsI [where Out = ?P, OF c p] by blast
    then show ?thesis by simp
  qed
  from program_write_ok [OF I this] have I1: "pool_ok ?T1 HS fl Out" .
  then have J: "caches_ok ?T1 HS fl Out" "ring_ok ?T1 HS" "budget_ok ?T1 (set HS)" by (simp_all add: pool_ok_def)
  note D = caches_okD [OF J(1)]
  have ch: "sll (object_mem (central ?T1)) p [p]" "[p] \<noteq> []" "set [p] \<subseteq> Out c" using p0 po by simp_all
  from give [where Out = Out, OF D(1) c ch] obtain S' where S': "InsertRange E c (?S\<lparr>object_mem := ?m\<rparr>) p p 1 = Some S'" "ok S' ?Out"
    "\<forall>y\<in>outs (sizemap ?S) A ?Out. object_mem S' y = ?m y" "sizemap S' = sizemap ?S" by auto
  let ?T' = "T\<lparr>central := S'\<rparr>"
  have fl: "x \<in> ?Out k" if h: "h \<in> set HS" "x \<in> set (fl h k)" for h k x
    using ownedD [OF D(4) [OF h(1)] h(2)] programD(2) [OF p h(1)] h(2) by auto
  have "cache_ok 8192 (sizemap ?S) (object_mem S') (caches T h) (fl h) \<and> owned ?Out (fl h)" if h: "h \<in> set HS" for h
  proof
    have C: "cache_ok 8192 (sizemap ?S) ?m (caches T h) (fl h)" using D(3) [OF h] by simp
    show "cache_ok 8192 (sizemap ?S) (object_mem S') (caches T h) (fl h)"
    proof (rule cache_ok_frame [OF C])
      show "object_mem S' x = ?m x" if "k < kNumClasses" "x \<in> set (fl h k)" for k x
        using S'(3) outsI [where Out = ?Out, OF that(1) fl [OF h that(2)]] by blast
    qed
    show "owned ?Out (fl h)" unfolding owned_def using fl [OF h] by blast
  qed
  then have "caches_ok ?T' HS fl ?Out" using S'(2,4) D(2) by (simp add: caches_ok_def)
  moreover have "ring_ok ?T' HS" by (rule ring_ok_cong [OF J(2)]) simp_all
  moreover have "budget_ok ?T' (set HS)" by (rule budget_cong [OF J(3)]) (simp_all add: limit_of_def)
  ultimately have "pool_ok ?T' HS fl ?Out" by (simp add: pool_ok_def)
  moreover have e: "program ?Out HS fl = ?P(c := ?P c - {p})" by (rule ext) (auto simp: program_def)
  moreover have "object_mem S' y = object_mem ?S y" if y: "y \<in> outs (sizemap ?S) A (?P(c := ?P c - {p}))" for y
  proof -
    have "(?P(c := ?P c - {p})) k \<subseteq> ?Out k" for k using programD(1) [of _ Out HS fl] by auto
    then have "y \<in> outs (sizemap ?S) A ?Out" using y outs_mono by blast
    then have "object_mem S' y = ?m y" using S'(3) by blast
    moreover have "p \<notin> outs (sizemap ?S) A (?P(c := ?P c - {p}))"
      by (rule apart [where Out = Out, OF ok0 c po]) (use programD(1) [of _ Out HS fl] in \<open>auto split: if_splits\<close>)
    then have "y \<noteq> p" using y by blast
    ultimately show ?thesis by simp
  qed
  ultimately have "moved T HS (?P(c := ?P c - {p})) ?T' fl ?Out" using S'(4) by (simp add: moved_def rest_same_def)
  then show ?thesis using S'(1) p0 by (auto simp: SLL_SetNext_def)
qed

end

section \<open>\<open>free\<close>\<close>

lemma threads_ok_give:
  assumes I: "threads_ok E res B Fm T HS fl Out" and c: "c < kNumClasses" and p: "p \<in> program Out HS fl c"
    and M: "central_supply.moved E res B Fm T HS ((program Out HS fl)(c := program Out HS fl c - {p})) T' fl' Out'"
    and sm: "size_classes_ok (sizemap (central T))" and Bs: "Bs = blocks (sizemap (central T)) B (program Out HS fl)"
    and n: "n = class_to_size (sizemap (central T)) c"
  shows "threads_blocks E res T' (Bs - {(p, n)}) \<and> same_bytes (Bs - {(p, n)}) T T'"
proof -
  let ?P = "(program Out HS fl)(c := program Out HS fl c - {p})"
  have M': "central_supply.pool_ok E res B Fm T' HS fl' Out'" "rest_same T T'" "program Out' HS fl' = ?P"
    "\<forall>y\<in>outs (sizemap (central T)) (owned_bytes B) ?P. object_mem (central T') y = object_mem (central T) y"
    using M by (simp_all add: central_supply.moved_def)
  note I' = threads_ok_same [OF M'(1,2) I] and s = rest_sameD(8) [OF M'(2)]
  note H = held_small [OF I c p refl refl]
  have e: "Bs - {(p, n)} = blocks (sizemap (central T)) B ?P" using block_removed [OF H(3,2)] unfolding Bs H(1) n .
  have "threads_blocks E res T' (Bs - {(p, n)})" by (rule threads_blocksI [OF I']) (use sm s M'(3) e in simp_all)
  moreover have "same_bytes (Bs - {(p, n)}) T T'" unfolding e by (rule same_bytes_outs [OF M'(4) s])
  ultimately show ?thesis by blast
qed

lemma free_object_ok:
  assumes I: "threads_ok E res B Fm T HS fl Out" and c: "c < kNumClasses" and p: "p \<in> program Out HS fl c"
    and heap: "heap \<noteq> 0 \<Longrightarrow> heap \<in> set HS"
    and sm: "size_classes_ok (sizemap (central T))" and Bs: "Bs = blocks (sizemap (central T)) B (program Out HS fl)"
    and n: "n = class_to_size (sizemap (central T)) c"
  shows "\<exists>T'. free_object E p c heap (heap \<noteq> 0) T = Some T' \<and> threads_blocks E res T' (Bs - {(p, n)}) \<and> same_bytes (Bs - {(p, n)}) T T'"
proof -
  obtain V L fr ch where C: "central_ok (heap_frame E res B Fm) (central T) V L fr ch Out"
    using threads_okD(7) [OF I] by (rule supply_okE)
  have "p \<in> Out c" using p programD(1) by blast
  from small_lookup [OF C c this] obtain a where a: "GetDescriptor (heap_of T) (page_of p) = Sp a" "\<not> sample (span_of (heap_of T) (Sp a))" by metis
  show ?thesis
  proof (cases "heap = 0")
    case True
    from central_supply.give_one_ok [OF threads_okD(1) [OF I] c p] obtain m S' where
      "SLL_SetNext (object_mem (central T)) p 0 = Some m" "InsertRange E c ((central T)\<lparr>object_mem := m\<rparr>) p p 1 = Some S'" and
      M: "central_supply.moved E res B Fm T HS ((program Out HS fl)(c := program Out HS fl c - {p})) (T\<lparr>central := S'\<rparr>) fl (Out(c := Out c - {p}))"
      by blast
    then have "free_object E p c heap (heap \<noteq> 0) T = Some (T\<lparr>central := S'\<rparr>)" using a True by (simp add: free_object_def Let_def)
    with threads_ok_give [OF I c p M sm Bs n] show ?thesis by blast
  next
    case False
    from central_supply.Deallocate_ok [OF threads_okD(1) [OF I] heap [OF False] c p] obtain T' fl' Out' where
      d: "Deallocate E p c heap T = Some T'" and
      M: "central_supply.moved E res B Fm T HS ((program Out HS fl)(c := program Out HS fl c - {p})) T' fl' Out'" by blast
    have "free_object E p c heap (heap \<noteq> 0) T = Some T'" using a False d by (simp add: free_object_def Let_def)
    with threads_ok_give [OF I c p M sm Bs n] show ?thesis by blast
  qed
qed

lemma do_free_with_callback_alt:
  "do_free_with_callback E me p f use_hint hint T = do_free_helper E p f (local_heap T me) (local_heap T me \<noteq> 0) use_hint hint T"
  by (simp add: do_free_with_callback_def GetCacheIfPresent_def Let_def)

text \<open>A size hint must have the class of the block, or none.\<close>

lemma free_small_ok:
  assumes I: "threads_ok E res B Fm T HS fl Out" and c: "c < kNumClasses" and p: "p \<in> program Out HS fl c"
    and heap: "heap \<noteq> 0 \<Longrightarrow> heap \<in> set HS"
    and sm: "size_classes_ok (sizemap (central T))" and Bs: "Bs = blocks (sizemap (central T)) B (program Out HS fl)"
    and n: "n = class_to_size (sizemap (central T)) c"
    and hint: "\<And>k. use_hint \<Longrightarrow> MaybeSizeClass (sizemap (central T)) hint = Some k \<Longrightarrow> k = c"
  shows "\<exists>T'. do_free_helper E p f heap (heap \<noteq> 0) use_hint hint T = Some T' \<and> threads_blocks E res T' (Bs - {(p, n)}) \<and> same_bytes (Bs - {(p, n)}) T T'"
proof -
  obtain V L fr ch where C: "central_ok (heap_frame E res B Fm) (central T) V L fr ch Out"
    and J: "\<And>h B'. heap_frame E res B' Fm h V L \<Longrightarrow> threads_ok E res B' Fm (set_heap h T) HS fl Out" using threads_ok_heap [OF I] by blast
  have po: "p \<in> Out c" using p programD(1) by blast
  note z = small_span(1,2) [OF C c po]
  obtain a k where a: "GetDescriptor (heap_of T) (page_of p) = Sp a" "sizeclass (span_of (heap_of T) (Sp a)) = c"
    "cached_as (heap_of T) (page_of p) c" and
    k: "CacheSizeClass (heap_of T) (page_of p) c = Some ((heap_of T)\<lparr>pagemap_cache := k\<rparr>)"
      "heap_frame E res B Fm ((heap_of T)\<lparr>pagemap_cache := k\<rparr>) V L" using small_lookup [OF C c po] by metis
  note F = free_object_ok [OF I c p heap sm Bs n]
  show ?thesis
  proof (cases "use_hint \<and> MaybeSizeClass (sizemap (central T)) hint \<noteq> None")
    case True
    then have "do_free_helper E p f heap (heap \<noteq> 0) use_hint hint T = free_object E p c heap (heap \<noteq> 0) T"
      using hint by (auto simp: do_free_helper_def)
    then show ?thesis using F by simp
  next
    case nohint: False
    then have nh: "(if use_hint then MaybeSizeClass (sizemap (central T)) hint else None) = None" by auto
    show ?thesis
    proof (cases "GetSizeClassIfCached (heap_of T) (page_of p) = Some 0")
      case False
      then have "GetSizeClassIfCached (heap_of T) (page_of p) = Some c" using a(3) by (simp add: cached_as_def)
      then have "do_free_helper E p f heap (heap \<noteq> 0) use_hint hint T = free_object E p c heap (heap \<noteq> 0) T"
        using nh z by (cases "heap = 0") (simp_all add: do_free_helper_def)
      then show ?thesis using F by simp
    next
      case True
      let ?h = "(heap_of T)\<lparr>pagemap_cache := k\<rparr>"
      have "do_free_helper E p f heap (heap \<noteq> 0) use_hint hint T = free_object E p c heap (heap \<noteq> 0) (set_heap ?h T)"
        using nh z True a k(1) by (cases "heap = 0") (simp_all add: do_free_helper_def Let_def)
      moreover have "\<exists>T'. free_object E p c heap (heap \<noteq> 0) (set_heap ?h T) = Some T' \<and> threads_blocks E res T' (Bs - {(p, n)}) \<and>
          same_bytes (Bs - {(p, n)}) (set_heap ?h T) T'"
        by (rule free_object_ok [OF J [OF k(2)] c p heap]) (use sm Bs n in simp_all)
      ultimately show ?thesis using same_bytes_trans [OF same_bytes_heap] by metis
    qed
  qed
qed

lemma free_large_ok:
  assumes I: "threads_ok E res B Fm T HS fl Out" and a: "B a = Some d"
    and sm: "size_classes_ok (sizemap (central T))" and Bs: "Bs = blocks (sizemap (central T)) B (program Out HS fl)"
    and p: "p = span_start d * 2 ^ kPageShift" "n = span_length d * 2 ^ kPageShift"
    and hint: "use_hint \<Longrightarrow> MaybeSizeClass (sizemap (central T)) hint = None"
  shows "\<exists>T'. do_free_helper E p f heap (heap \<noteq> 0) use_hint hint T = Some T' \<and> threads_blocks E res T' (Bs - {(p, n)}) \<and> same_bytes (Bs - {(p, n)}) T T'"
proof -
  obtain V L fr ch where C: "central_ok (heap_frame E res B Fm) (central T) V L fr ch Out"
    and J: "\<And>h B'. heap_frame E res B' Fm h V L \<Longrightarrow> threads_ok E res B' Fm (set_heap h T) HS fl Out" using threads_ok_heap [OF I] by blast
  note R = central_okD(2) [OF C]
  note l = large_lookup [OF R a]
  obtain k where k: "CacheSizeClass (heap_of T) (span_start d) 0 = Some ((heap_of T)\<lparr>pagemap_cache := k\<rparr>)"
    "heap_frame E res B Fm ((heap_of T)\<lparr>pagemap_cache := k\<rparr>) V L" using l(10) by blast
  let ?h = "(heap_of T)\<lparr>pagemap_cache := k\<rparr>"
  obtain h' where h': "Delete E ?h (Sp a) = Some h'" "heap_frame E res (B(a := None)) Fm h' V L" using frame_give [OF k(2) a] by blast
  have pg: "page_of p = span_start d" "p mod kPageSize = 0" "p \<noteq> 0" using l(7) by (simp_all add: p page_of_def kPageSize_def)
  note l' = large_lookup [OF k(2) a]
  have nh: "(if use_hint then MaybeSizeClass (sizemap (central T)) hint else None) = None" using hint by auto
  have "do_free_helper E p f heap (heap \<noteq> 0) use_hint hint T = free_span E p (Sp a) (set_heap ?h T)"
    using nh pg l(1,2,4) k(1) by (cases "heap = 0") (simp_all add: do_free_helper_def Let_def)
  also have "\<dots> = Some (set_heap h' (set_heap ?h T))"
    using pg l'(3,5) h'(1) by (simp add: free_span_def)
  also have "set_heap h' (set_heap ?h T) = set_heap h' T" by (simp add: set_heap_def)
  finally have run: "do_free_helper E p f heap (heap \<noteq> 0) use_hint hint T = Some (set_heap h' T)" .
  note H = held_large [OF I a refl p]
  have e: "Bs - {(p, n)} = blocks (sizemap (central T)) (B(a := None)) (program Out HS fl)" using block_removed [OF H(3,2)] unfolding Bs H(1) .
  have "threads_blocks E res (set_heap h' T) (Bs - {(p, n)})"
    by (rule threads_blocksI [OF J [OF h'(2)]]) (use sm e in simp_all)
  then show ?thesis using run by simp
qed

text \<open>Every block can be freed. A size hint is one that leads to the class of the block, and is not given for a
  block at the start of a page.\<close>

lemma free_ok:
  assumes I: "threads_blocks E res T Bs" and b: "(p, n) \<in> Bs"
    and hint: "use_hint \<Longrightarrow> \<not> kPageSize dvd p" "\<And>k. use_hint \<Longrightarrow> MaybeSizeClass (sizemap (central T)) hint = Some k \<Longrightarrow> class_to_size (sizemap (central T)) k = n"
  shows "\<exists>T'. do_free_with_callback E me p f use_hint hint T = Some T' \<and> threads_blocks E res T' (Bs - {(p, n)}) \<and> same_bytes (Bs - {(p, n)}) T T'"
proof -
  obtain B Fm HS fl Out where J: "threads_ok E res B Fm T HS fl Out" and sm: "size_classes_ok (sizemap (central T))"
    and Bs: "Bs = blocks (sizemap (central T)) B (program Out HS fl)" using I by (rule threads_blocksE)
  have h: "local_heap T me \<noteq> 0 \<Longrightarrow> local_heap T me \<in> set HS" using tls_ok_local [OF threads_okD(3) [OF J]] by blast
  from b [unfolded Bs] show ?thesis unfolding do_free_with_callback_alt
  proof (cases rule: blocksE)
    case (1 c)
    have "0 < c" by (rule held_small(5) [OF J 1(1,2) refl refl])
    then have "k = c" if "use_hint" "MaybeSizeClass (sizemap (central T)) hint = Some k" for k
      using hint(2) [OF that] size_classes_okD(3) [OF sm that(2)] size_classes_okD(2) [OF sm, of k c] 1(1,3) by simp
    from free_small_ok [OF J 1(1,2) h sm Bs 1(3) this] show "\<exists>T'. do_free_helper E p f (local_heap T me) (local_heap T me \<noteq> 0) use_hint hint T = Some T' \<and>
      threads_blocks E res T' (Bs - {(p, n)}) \<and> same_bytes (Bs - {(p, n)}) T T'" by blast
  next
    case (2 a d)
    then have "\<not> use_hint" using hint(1) by (auto simp: kPageSize_def)
    with free_large_ok [OF J 2(1) sm Bs 2(2,3)] show "\<exists>T'. do_free_helper E p f (local_heap T me) (local_heap T me \<noteq> 0) use_hint hint T = Some T' \<and>
      threads_blocks E res T' (Bs - {(p, n)}) \<and> same_bytes (Bs - {(p, n)}) T T'" by blast
  qed
qed

text \<open>\<open>free(NULL)\<close> does nothing.\<close>

lemma null_page:
  assumes R: "heap_frame E res B Fm h V L"
  shows "GetSizeClassIfCached h 0 = Some 0" "GetDescriptor h 0 = SNull"
proof -
  note F = heap_frameD [OF R]
  show "GetSizeClassIfCached h 0 = Some 0" using cache_rightD(3) [OF F(4)] by (simp add: cached_as_def)
  obtain U L' where "heap_inv res Fm cheaders h U L' {}" using F(1) unfolding heap_view_def by blast
  note I = heap_invD [OF this]
  have "0 \<notin> heap_pages (spans h) U" using I(1) unfolding geom_def heap_pages_def by fastforce
  then have "PageMap3_get BITS64 (pagemap h) 0 = None" using I(2) unfolding mapped_def by (cases "PageMap3_get BITS64 (pagemap h) 0") auto
  then show "GetDescriptor h 0 = SNull" by (simp add: GetDescriptor_def)
qed

lemma free_null_ok:
  assumes I: "threads_blocks E res T Bs"
  shows "do_free E me 0 T = Some T"
proof -
  obtain B Fm HS fl Out where J: "threads_ok E res B Fm T HS fl Out" using I by (rule threads_blocksE)
  obtain V L fr ch where C: "central_ok (heap_frame E res B Fm) (central T) V L fr ch Out"
    using threads_okD(7) [OF J] by (rule supply_okE)
  note n = null_page [OF central_okD(2) [OF C]]
  have "page_of 0 = 0" by (simp add: page_of_def)
  then show ?thesis using n
    by (cases "local_heap T me = 0") (simp_all add: do_free_def do_free_with_callback_alt do_free_helper_def free_null_or_invalid_def)
qed

section \<open>The size of a block\<close>

lemma threads_blocks_apart:
  assumes I: "threads_blocks E res T Bs" and b: "(p, n) \<in> Bs"
  shows "0 < n" "p \<noteq> 0" "extent p n \<inter> block_bytes (Bs - {(p, n)}) = {}"
proof -
  obtain B Fm HS fl Out where J: "threads_ok E res B Fm T HS fl Out" 
    and Bs: "Bs = blocks (sizemap (central T)) B (program Out HS fl)" using I by (rule threads_blocksE)
  have "0 < n \<and> p \<noteq> 0 \<and> extent p n \<inter> block_bytes (Bs - {(p, n)}) = {}"
    using b [unfolded Bs]
  proof (cases rule: blocksE)
    case (1 c)
    note H = held_small [OF J 1(1,2) refl refl, folded 1(3)]
    have "Bs - {(p, n)} = blocks (sizemap (central T)) B ((program Out HS fl)(c := program Out HS fl c - {p}))"
      using block_removed [OF H(3,2)] unfolding Bs H(1) .
    then show ?thesis using H(2-4) by simp
  next
    case (2 a d)
    note H = held_large [where B = B, OF J 2(1) refl 2(2,3)]
    have "Bs - {(p, n)} = blocks (sizemap (central T)) (B(a := None)) (program Out HS fl)"
      using block_removed [OF H(3,2)] unfolding Bs H(1) .
    then show ?thesis using H(2-4) by simp
  qed
  then show "0 < n" "p \<noteq> 0" "extent p n \<inter> block_bytes (Bs - {(p, n)}) = {}" by blast+
qed

lemma GetSize_ok:
  assumes I: "threads_blocks E res T Bs" and b: "(p, n) \<in> Bs"
  shows "\<exists>h. GetSizeWithCallback p f T = Some (n, set_heap h T) \<and> threads_blocks E res (set_heap h T) Bs"
proof -
  obtain B Fm HS fl Out where J: "threads_ok E res B Fm T HS fl Out" and sm: "size_classes_ok (sizemap (central T))"
    and Bs: "Bs = blocks (sizemap (central T)) B (program Out HS fl)" using I by (rule threads_blocksE)
  have p0: "p \<noteq> 0" by (rule threads_blocks_apart(2) [OF I b])
  obtain V L fr ch where C: "central_ok (heap_frame E res B Fm) (central T) V L fr ch Out"
    and H: "\<And>h B'. heap_frame E res B' Fm h V L \<Longrightarrow> threads_ok E res B' Fm (set_heap h T) HS fl Out" using threads_ok_heap [OF J] by blast
  have st: "set_heap (heap_of T) T = T" by (simp add: set_heap_def)
  have keep: "threads_blocks E res (set_heap h T) Bs" if "heap_frame E res B Fm h V L" for h
    by (rule threads_blocksI [OF H [OF that]]) (use sm Bs in simp_all)
  from b [unfolded Bs] show ?thesis
  proof (cases rule: blocksE)
    case (1 c)
    have po: "p \<in> Out c" using 1(2) programD(1) by blast
    obtain a k where a: "GetDescriptor (heap_of T) (page_of p) = Sp a" "sizeclass (span_of (heap_of T) (Sp a)) = c"
      "cached_as (heap_of T) (page_of p) c" and
      k: "CacheSizeClass (heap_of T) (page_of p) c = Some ((heap_of T)\<lparr>pagemap_cache := k\<rparr>)"
        "heap_frame E res B Fm ((heap_of T)\<lparr>pagemap_cache := k\<rparr>) V L" using small_lookup [OF C 1(1) po] by metis
    have c0: "0 < c" by (rule small_span(1) [OF C 1(1) po])
    show ?thesis
    proof (cases "GetSizeClassIfCached (heap_of T) (page_of p) = Some 0")
      case True
      then have "GetSizeWithCallback p f T = Some (n, set_heap ((heap_of T)\<lparr>pagemap_cache := k\<rparr>) T)"
        using p0 a(1,2) k(1) c0 1(3) by (simp add: GetSizeWithCallback_def Let_def)
      with keep [OF k(2)] show ?thesis by blast
    next
      case False
      then have "GetSizeClassIfCached (heap_of T) (page_of p) = Some c" using a(3) by (simp add: cached_as_def)
      then have "GetSizeWithCallback p f T = Some (n, set_heap (heap_of T) T)"
        using p0 c0 1(3) st by (simp add: GetSizeWithCallback_def)
      with I st show ?thesis by metis
    qed
  next
    case (2 a d)
    note l = large_lookup [OF central_okD(2) [OF C] 2(1)]
    have pg: "page_of p = span_start d" by (simp add: 2(2) page_of_def)
    have "n < 2 ^ 34 * 2 ^ kPageShift" unfolding 2(3) using l(7,9) by (intro mult_strict_right_mono) simp_all
    also have "\<dots> < 2 ^ 64" by (simp add: kPageShift_def)
    finally have "n mod 2 ^ 64 = n" by simp
    then have "GetSizeWithCallback p f T = Some (n, set_heap (heap_of T) T)"
      using p0 l(1,2,4,6) pg 2(3) st by (simp add: GetSizeWithCallback_def Let_def)
    with I st show ?thesis by metis
  qed
qed

end
