(* ===== verification/Malloc_Realloc.thy ===== *)
theory Malloc_Realloc
  imports Malloc_Free
begin

text \<open>
  Reallocation: the block stays when its size is near enough; else a new block gets the contents and the old
  one is freed. When there is no memory the old block stays as it is.
\<close>

text \<open>The first \<open>n\<close> bytes from \<open>q\<close> on in \<open>m'\<close> are those from \<open>p\<close> on in \<open>m\<close>.\<close>

definition copied :: "mem \<Rightarrow> addr \<Rightarrow> mem \<Rightarrow> addr \<Rightarrow> nat \<Rightarrow> bool" where
  "copied m p m' q n = (\<forall>i<n. i mod 8 = 0 \<longrightarrow> m' (q + i) mod 2 ^ (8 * min 8 (n - i)) = m (p + i) mod 2 ^ (8 * min 8 (n - i)))"

lemma copied_refl [simp]: "copied m p m p n"
  by (simp add: copied_def)

lemma copied_same:
  assumes "copied m p m1 q n" "\<And>y. y \<in> extent q n \<Longrightarrow> m2 y = m1 y" "\<And>y. y \<in> extent p n \<Longrightarrow> m0 y = m y"
  shows "copied m0 p m2 q n"
  using assms by (simp add: copied_def extent_def)

lemma mem_copy_copied: "copied m p (mem_copy q p n m) q n"
  unfolding copied_def by (auto simp: mem_copy_def low_bytes_def min_def)

lemma mem_copy_frame: "y \<notin> extent q n \<Longrightarrow> mem_copy q p n m y = m y"
  by (auto simp: mem_copy_def extent_def)

lemma malloc_weak_ok:
  assumes I: "threads_blocks E res (tcs P) Bs" "tc_new_mode P = 0" and sz: "sz' \<le> sz"
  shows "\<exists>r. do_malloc_or_cpp_alloc E nh me sz P = Some r \<and> (\<forall>x P'. r = Ret (x, P') \<longrightarrow>
    (\<exists>p. x = Pointer p \<and> allotted E res (tcs P) Bs sz' 8 p (tcs P')) \<and> tc_new_mode P' = 0)"
proof -
  obtain k where k: "AlignmentForSize sz = Some (2 ^ k)" "3 \<le> k" using AlignmentForSize_spec [of sz] by blast
  have al: "8 dvd (2::nat) ^ k" using le_imp_power_dvd [OF k(2), of "2::nat"] by simp
  obtain r where r: "do_malloc_or_cpp_alloc E nh me sz P = Some r" "\<And>x P'. r = Ret (x, P') \<Longrightarrow>
    (\<exists>p. x = Pointer p \<and> allotted E res (tcs P) Bs sz (2 ^ k) p (tcs P')) \<and> tc_new_mode P' = 0"
    using malloc_ok [OF I k(1)] by blast
  then show ?thesis using allotted_weaken [OF _ sz al] by blast
qed

lemma realloc_attempt_ok:
  assumes I: "threads_blocks E res (tcs P) Bs" "tc_new_mode P = 0"
  shows "\<exists>r. realloc_attempt E nh me old sz P = Some r \<and> (\<forall>x P'. r = Ret (x, P') \<longrightarrow>
    (\<exists>p. x = Pointer p \<and> allotted E res (tcs P) Bs sz 8 p (tcs P')) \<and> tc_new_mode P' = 0)"
proof -
  let ?lb = "(old + old div 4) mod 2 ^ 64"
  let ?first = "if sz > old \<and> sz < ?lb then do_malloc_or_cpp_alloc E nh me ?lb P else Some (Ret (Pointer 0, P))"
  obtain r where r: "?first = Some r" "\<And>x P'. r = Ret (x, P') \<Longrightarrow>
    (\<exists>p. x = Pointer p \<and> allotted E res (tcs P) Bs sz 8 p (tcs P')) \<and> tc_new_mode P' = 0"
  proof (cases "sz > old \<and> sz < ?lb")
    case True
    then have "sz \<le> ?lb" by simp
    from malloc_weak_ok [where nh = nh and me = me, OF I this] True that show thesis by auto
  next
    case False
    then show thesis using that [of "Ret (Pointer 0, P)"] I allotted_null [OF I(1) same_bytes_refl] by auto
  qed
  have run: "realloc_attempt E nh me old sz P = (case r of OutOfMemory \<Rightarrow> Some OutOfMemory
      | Ret (rv, P) \<Rightarrow> if rv = Pointer 0 then do_malloc_or_cpp_alloc E nh me sz P else Some (Ret (rv, P)))"
    unfolding realloc_attempt_def Let_def r(1) by simp
  show ?thesis
  proof (cases r)
    case OutOfMemory
    then show ?thesis using run by simp
  next
    case (Ret y)
    obtain x P1 where y: "y = (x, P1)" by (cases y)
    obtain p where p: "x = Pointer p" "allotted E res (tcs P) Bs sz 8 p (tcs P1)" "tc_new_mode P1 = 0" using r(2) Ret y by blast
    show ?thesis
    proof (cases "p = 0")
      case True
      then have "threads_blocks E res (tcs P1) Bs" "same_bytes Bs (tcs P) (tcs P1)" using p(2) by (simp_all add: allotted_def)
      with malloc_weak_ok [OF this(1) p(3) le_refl, where nh = nh and me = me and sz = sz] allotted_trans show ?thesis
        unfolding run Ret y p(1) True by fastforce
    next
      case False
      then show ?thesis using run Ret y p by auto
    qed
  qed
qed

text \<open>What \<open>realloc\<close> promises: with the result 0 the block is as before; else the block has become one of at
  least the new size, with the contents of the old up to the smaller of the sizes.\<close>

definition reallotted :: "'os heap_env \<Rightarrow> ('os \<Rightarrow> nat set) \<Rightarrow> 'os threads \<Rightarrow> (addr \<times> nat) set \<Rightarrow> addr \<Rightarrow> nat \<Rightarrow> nat \<Rightarrow> addr \<Rightarrow> 'os threads \<Rightarrow> bool" where
  "reallotted E res T Bs p n sz q T' =
     (if q = 0 then threads_blocks E res T' Bs \<and> same_bytes Bs T T'
      else let Bs' = Bs - {(p, n)} in same_bytes Bs' T T' \<and> copied (object_mem (central T)) p (object_mem (central T')) q (min n sz) \<and>
        (\<exists>k\<ge>sz. 0 < k \<and> threads_blocks E res T' (insert (q, k) Bs') \<and> extent q k \<inter> block_bytes Bs' = {}))"

lemma do_realloc_ok:
  assumes I: "threads_blocks E res (tcs P) Bs" "tc_new_mode P = 0" and b: "(p, n) \<in> Bs"
  shows "\<exists>r. do_realloc E nh me p sz P = Some r \<and> (\<forall>x P'. r = Ret (x, P') \<longrightarrow>
    (\<exists>q. x = Pointer q \<and> reallotted E res (tcs P) Bs p n sz q (tcs P')) \<and> tc_new_mode P' = 0)"
proof -
  let ?T = "tcs P" and ?B = "Bs - {(p, n)}"
  note ap = threads_blocks_apart [OF I(1) b]
  have Bs: "insert (p, n) ?B = Bs" using b by blast
  obtain h where h: "GetSizeWithCallback p None ?T = Some (n, set_heap h ?T)" "threads_blocks E res (set_heap h ?T) Bs"
    using GetSize_ok [OF I(1) b] by blast
  let ?P = "P\<lparr>tcs := set_heap h ?T\<rparr>"
  show ?thesis
  proof (cases "sz > n \<or> sz < n div 2")
    case False
    then have run: "do_realloc E nh me p sz P = Some (Ret (Pointer p, ?P))" using h(1) by (simp add: do_realloc_def Let_def)
    have "sz \<le> n \<and> 0 < n \<and> threads_blocks E res (set_heap h ?T) (insert (p, n) ?B) \<and> extent p n \<inter> block_bytes ?B = {}"
      using ap h(2) False Bs by simp
    then have "reallotted E res ?T Bs p n sz p (set_heap h ?T)" using ap(2) unfolding reallotted_def Let_def by auto
    then show ?thesis using run I(2) by simp
  next
    case True
    obtain r where r: "realloc_attempt E nh me n sz ?P = Some r" "\<And>x P'. r = Ret (x, P') \<Longrightarrow>
      (\<exists>q. x = Pointer q \<and> allotted E res (set_heap h ?T) Bs sz 8 q (tcs P')) \<and> tc_new_mode P' = 0"
      using realloc_attempt_ok [of E res ?P Bs nh me n sz] h(2) I(2) by auto
    show ?thesis
    proof (cases r)
      case OutOfMemory
      then show ?thesis using h(1) True r(1) by (simp add: do_realloc_def Let_def)
    next
      case (Ret y)
      obtain x P1 where y: "y = (x, P1)" by (cases y)
      obtain q where q: "x = Pointer q" "allotted E res (set_heap h ?T) Bs sz 8 q (tcs P1)" "tc_new_mode P1 = 0" using r(2) Ret y by blast
      have sb: "same_bytes Bs ?T (tcs P1)"
        using same_bytes_trans [OF same_bytes_heap] q(2) unfolding allotted_def by blast
      show ?thesis
      proof (cases "q = 0")
        case z: True
        then have "threads_blocks E res (tcs P1) Bs" using q(2) by (simp add: allotted_def)
        then have "reallotted E res ?T Bs p n sz 0 (tcs P1)" using sb by (simp add: reallotted_def)
        moreover have "do_realloc E nh me p sz P = Some (Ret (Pointer 0, P1))"
          using h(1) True r(1) Ret y q(1) z by (simp add: do_realloc_def Let_def)
        ultimately show ?thesis using q(3) by simp
      next
        case nz: False
        obtain k where k: "sz \<le> k" "0 < k" "threads_blocks E res (tcs P1) (insert (q, k) Bs)" "extent q k \<inter> block_bytes Bs = {}"
          using q(2) nz unfolding allotted_def by auto
        let ?n = "if n < sz then n else sz"
        have nn: "?n = min n sz" by (simp add: min_def)
        let ?m = "mem_copy q p ?n (object_mem (central (tcs P1)))"
        let ?T2 = "set_mem ?m (tcs P1)"
        have sub: "extent q ?n \<subseteq> extent q k" by (rule extent_grow) (use k(1) in auto)
        have f: "?m y = object_mem (central (tcs P1)) y" if "y \<notin> extent q k" for y
          using mem_copy_frame sub that by blast
        have T2: "threads_blocks E res ?T2 (insert (q, k) Bs)"
          by (rule threads_blocks_write [OF k(3)], rule f) (simp add: block_bytes_insert)
        have "?m y = object_mem (central (tcs P1)) y" if "y \<in> block_bytes Bs" for y
          by (rule f) (use k(4) that in blast)
        then have "same_bytes Bs (tcs P1) ?T2" by (simp add: same_bytes_def)
        then have s2: "same_bytes Bs ?T ?T2" by (rule same_bytes_trans [OF sb])
        have qb: "(q, k) \<notin> Bs" using block_bytesI [of q k Bs q] k(2,4) by fastforce
        then have e: "insert (q, k) Bs - {(p, n)} = insert (q, k) ?B" using b by auto
        obtain T3 where T3: "do_free_with_callback E me p InvalidFree False 0 ?T2 = Some T3"
          "threads_blocks E res T3 (insert (q, k) ?B)" "same_bytes (insert (q, k) ?B) ?T2 T3"
          using free_ok [OF T2, of p n False 0 me InvalidFree] b unfolding e by auto
        have "do_realloc E nh me p sz P = Some (Ret (Pointer q, P1\<lparr>tcs := T3\<rparr>))"
          using h(1) True r(1) Ret y q(1) nz T3(1) by (simp add: do_realloc_def Let_def)
        moreover have "same_bytes ?B ?T T3"
          by (rule same_bytes_trans [OF same_bytes_mono [OF s2] same_bytes_mono [OF T3(3)]]) auto
        moreover have "copied (object_mem (central ?T)) p (object_mem (central T3)) q (min n sz)"
        proof (rule copied_same)
          show "copied (object_mem (central (tcs P1))) p ?m q (min n sz)" unfolding nn by (rule mem_copy_copied)
          show "object_mem (central T3) y = ?m y" if "y \<in> extent q (min n sz)" for y
          proof -
            have "y \<in> block_bytes (insert (q, k) ?B)" using that sub nn by (auto simp: block_bytes_insert)
            then show ?thesis using T3(3) by (simp add: same_bytes_def)
          qed
          show "object_mem (central ?T) y = object_mem (central (tcs P1)) y" if "y \<in> extent p (min n sz)" for y
          proof -
            have "y \<in> extent p n" using that extent_grow [of "min n sz" n p] by auto
            then show ?thesis using block_bytesI [OF b] sb by (simp add: same_bytes_def)
          qed
        qed
        moreover have "extent q k \<inter> block_bytes ?B = {}" using k(4) block_bytes_mono [of ?B Bs] by blast
        ultimately show ?thesis using T3(2) k(1,2) nz q(3) unfolding reallotted_def Let_def by auto
      qed
    qed
  qed
qed

end
