(* ===== verification/Malloc_Align.thy ===== *)
theory Malloc_Align
  imports Malloc_Free
begin

text \<open>
  Aligned memory: a class whose size is a multiple of the alignment, whole pages, or, for more than a page, a
  span that is cut to the first aligned page and to the pages that are needed.
\<close>

section \<open>Powers of two\<close>

lemma and_pred_pow2: "(x :: nat) AND (2 ^ k - 1) = x mod 2 ^ k" "(x :: nat) AND (2 ^ k - Suc 0) = x mod 2 ^ k"
proof -
  show e: "x AND (2 ^ k - 1) = x mod 2 ^ k" by (metis mask_eq_exp_minus_1 take_bit_eq_mask take_bit_eq_mod)
  then show "x AND (2 ^ k - Suc 0) = x mod 2 ^ k" by simp
qed

lemma pow2_if_and_pred: "0 < a \<Longrightarrow> a AND (a - 1) = 0 \<Longrightarrow> \<exists>k. a = (2 :: nat) ^ k"
proof (induction a rule: less_induct)
  case (less a)
  have rec: "a AND (a - 1) = of_bool (odd a \<and> odd (a - 1)) + 2 * ((a div 2) AND ((a - 1) div 2))" by (rule and_rec)
  show ?case
  proof (cases "even a")
    case True
    then obtain b where b: "a = 2 * b" by blast
    then have "0 < b" "b < a" "(a - 1) div 2 = b - 1" "a div 2 = b" using less.prems(1) by simp_all
    moreover from this have "b AND (b - 1) = 0" using rec less.prems(2) by simp
    ultimately obtain k where "b = 2 ^ k" using less.IH by blast
    then have "a = 2 ^ Suc k" using b by simp
    then show ?thesis by blast
  next
    case False
    then obtain b where b: "a = 2 * b + 1" using oddE by blast
    then have "(a - 1) div 2 = b" "a div 2 = b" by simp_all
    then have "b = 0" using rec less.prems(2) by simp
    then have "a = 2 ^ 0" using b by simp
    then show ?thesis by blast
  qed
qed

section \<open>The search for a class\<close>

lemma aligned_class_spec:
  "c + k = kNumClasses \<Longrightarrow> aligned_class sm (2 ^ j) c k = d \<Longrightarrow> c \<le> d \<and> d \<le> kNumClasses \<and> (d < kNumClasses \<longrightarrow> 2 ^ j dvd class_to_size sm d)"
proof (induction k arbitrary: c)
  case (Suc k)
  show ?case
  proof (cases "class_to_size sm c AND (2 ^ j - 1) \<noteq> 0")
    case True
    then have "aligned_class sm (2 ^ j) (c + 1) k = d" using Suc.prems(2) by simp
    with Suc.IH [of "c + 1"] Suc.prems(1) show ?thesis by simp
  next
    case False
    then have "d = c" using Suc.prems(2) by simp
    with False Suc.prems(1) show ?thesis by (simp add: and_pred_pow2 dvd_eq_mod_eq_0)
  qed
qed auto

section \<open>The search for a page\<close>

lemma aligned_skip_spec:
  assumes s: "s + 2 ^ j \<le> 2 ^ 51"
  shows "\<exists>k. aligned_skip s (2 ^ j * 2 ^ kPageShift) 0 = Some k \<and> k < 2 ^ j \<and> 2 ^ j dvd s + k"
proof -
  define t where "t = (s + 2 ^ j - 1) div 2 ^ j * 2 ^ j"
  have p: "(0::nat) < 2 ^ j" by simp
  have dm: "(s + 2 ^ j - 1) div 2 ^ j * 2 ^ j + (s + 2 ^ j - 1) mod 2 ^ j = s + 2 ^ j - 1" by (rule div_mult_mod_eq)
  have ml: "(s + 2 ^ j - 1) mod 2 ^ j < 2 ^ j" using p by (rule mod_less_divisor)
  have t: "s \<le> t" "t < s + 2 ^ j" "2 ^ j dvd t" using dm ml p unfolding t_def by (linarith, linarith, simp)
  have cond: "(add64 s i * 2 ^ kPageShift mod 2 ^ 64 AND (2 ^ j * 2 ^ kPageShift - 1) \<noteq> 0) = (\<not> 2 ^ j dvd s + i)" if i: "i \<le> t - s" for i
  proof -
    have lt: "s + i < 2 ^ 51" using i t s by simp
    then have a: "add64 s i = s + i" by (intro add64_small) simp
    have "(s + i) * 2 ^ kPageShift < 2 ^ 51 * 2 ^ kPageShift" using lt by simp
    then have "(s + i) * 2 ^ kPageShift mod 2 ^ 64 = (s + i) * 2 ^ kPageShift" by (simp add: kPageShift_def)
    moreover have "(2 :: nat) ^ j * 2 ^ kPageShift = 2 ^ (j + kPageShift)" by (simp add: power_add)
    moreover have "((s + i) * 2 ^ kPageShift mod 2 ^ (j + kPageShift) = 0) = (2 ^ j dvd s + i)"
      unfolding dvd_eq_mod_eq_0 [symmetric] power_add by simp
    ultimately show ?thesis unfolding a by (simp add: and_pred_pow2)
  qed
  have "\<exists>k. aligned_skip s (2 ^ j * 2 ^ kPageShift) i = Some k \<and> k \<le> t - s \<and> 2 ^ j dvd s + k" if "i \<le> t - s" for i
    using that
  proof (induction "t - s - i" arbitrary: i)
    case 0
    then have "i = t - s" by simp
    then have "2 ^ j dvd s + i" using t by simp
    then show ?case using cond [OF 0(2)] 0(2) by (simp add: aligned_skip.simps [of s _ i])
  next
    case (Suc d)
    show ?case
    proof (cases "2 ^ j dvd s + i")
      case True
      then show ?thesis using cond [OF Suc(3)] Suc(3) by (simp add: aligned_skip.simps [of s _ i])
    next
      case False
      have "d = t - s - (i + 1)" "i + 1 \<le> t - s" using Suc(2,3) by auto
      from Suc(1) [OF this] show ?thesis using cond [OF Suc(3)] False by (simp add: aligned_skip.simps [of s _ i])
    qed
  qed
  then show ?thesis using t by fastforce
qed

section \<open>Cutting the span\<close>

lemma trim_start_ok:
  assumes R: "heap_frame E res B Fm h (V(a \<mapsto> d)) L" and a: "V a = None" "B a = None" "sizeclass d = 0" "\<forall>H\<in>cheaders. Sp a \<notin> set (L H)"
    and k: "k < span_length d"
  shows "\<exists>r. trim_start E h (Sp a) k = Some r \<and> (\<forall>s h'. r = Ret (s, h') \<longrightarrow>
    (\<exists>b e. s = Sp b \<and> V b = None \<and> B b = None \<and> heap_frame E res B Fm h' (V(b \<mapsto> e)) L \<and> span_start e = span_start d + k \<and>
      span_length e = span_length d - k \<and> sizeclass e = 0 \<and> (\<forall>H\<in>cheaders. Sp b \<notin> set (L H))))"
proof (cases "k = 0")
  case True
  then show ?thesis using R a by (intro exI [of _ "Ret (Sp a, h)"]) (auto simp: trim_start_def)
next
  case False
  then have k0: "0 < k" by simp
  have Va: "(V(a \<mapsto> d)) a = Some d" by simp
  obtain r where r: "Split E h (Sp a) k = Some r" "\<And>s h'. r = Ret (s, h') \<Longrightarrow>
    \<exists>b e. s = Sp b \<and> (V(a \<mapsto> d)) b = None \<and> B b = None \<and> heap_frame E res B Fm h' ((V(a \<mapsto> d))(a \<mapsto> d\<lparr>span_length := k\<rparr>, b \<mapsto> e)) L \<and>
      span_start e = span_start d + k \<and> span_length e = span_length d - k \<and> sizeclass e = 0 \<and> (\<forall>H\<in>cheaders. Sp b \<notin> set (L H))"
    using frame_Split [OF R Va a(3) k0 k] by blast
  show ?thesis
  proof (cases r)
    case OutOfMemory
    then show ?thesis using r(1) k0 by (simp add: trim_start_def)
  next
    case (Ret x)
    obtain s h1 where x: "x = (s, h1)" by (cases x)
    obtain b e where b: "s = Sp b" "(V(a \<mapsto> d)) b = None" "B b = None" "heap_frame E res B Fm h1 (V(a \<mapsto> d\<lparr>span_length := k\<rparr>, b \<mapsto> e)) L"
      "span_start e = span_start d + k" "span_length e = span_length d - k" "sizeclass e = 0" "\<forall>H\<in>cheaders. Sp b \<notin> set (L H)"
      using r(2) Ret x by (auto simp: fun_upd_upd)
    have ab: "a \<noteq> b" "V b = None" using b(2) by (auto split: if_splits)
    have "(V(a \<mapsto> d\<lparr>span_length := k\<rparr>, b \<mapsto> e)) a = Some (d\<lparr>span_length := k\<rparr>)" using ab(1) by simp
    from frame_Delete [OF b(4) this a(4)] obtain h2 where h2: "Delete E h1 (Sp a) = Some h2"
      "heap_frame E res B Fm h2 ((V(a \<mapsto> d\<lparr>span_length := k\<rparr>, b \<mapsto> e))(a := None)) L" by blast
    have "(V(a \<mapsto> d\<lparr>span_length := k\<rparr>, b \<mapsto> e))(a := None) = V(b \<mapsto> e)" using ab a(1) by (auto simp: fun_eq_iff)
    then have "heap_frame E res B Fm h2 (V(b \<mapsto> e)) L" using h2(2) by simp
    moreover have "trim_start E h (Sp a) k = Some (Ret (Sp b, h2))" using r(1) Ret x b(1) h2(1) k0 by (simp add: trim_start_def)
    ultimately show ?thesis using b ab by (intro exI [of _ "Ret (Sp b, h2)"]) auto
  qed
qed

lemma trim_end_ok:
  assumes R: "heap_frame E res B Fm h (V(a \<mapsto> d)) L" and a: "V a = None" "B a = None" "sizeclass d = 0" "\<forall>H\<in>cheaders. Sp a \<notin> set (L H)"
    and k: "0 < k" "k \<le> span_length d"
  shows "\<exists>r. trim_end E h (Sp a) k = Some r \<and> (\<forall>h'. r = Ret h' \<longrightarrow> heap_frame E res B Fm h' (V(a \<mapsto> d\<lparr>span_length := k\<rparr>)) L)"
proof -
  have Va: "(V(a \<mapsto> d)) a = Some d" by simp
  have ln: "span_length (span_of h (Sp a)) = span_length d" by (rule client_heap.span_fields(2) [OF R Va])
  show ?thesis
  proof (cases "k = span_length d")
    case True
    then show ?thesis using R ln by (intro exI [of _ "Ret h"]) (simp add: trim_end_def)
  next
    case False
    then have kl: "k < span_length d" using k(2) by simp
    obtain r where r: "Split E h (Sp a) k = Some r" "\<And>s h'. r = Ret (s, h') \<Longrightarrow>
      \<exists>b e. s = Sp b \<and> (V(a \<mapsto> d)) b = None \<and> B b = None \<and> heap_frame E res B Fm h' ((V(a \<mapsto> d))(a \<mapsto> d\<lparr>span_length := k\<rparr>, b \<mapsto> e)) L \<and>
        span_start e = span_start d + k \<and> span_length e = span_length d - k \<and> sizeclass e = 0 \<and> (\<forall>H\<in>cheaders. Sp b \<notin> set (L H))"
      using frame_Split [OF R Va a(3) k(1) kl] by blast
    show ?thesis
    proof (cases r)
      case OutOfMemory
      then show ?thesis using r(1) kl ln by (simp add: trim_end_def)
    next
      case (Ret x)
      obtain s h1 where x: "x = (s, h1)" by (cases x)
      obtain b e where b: "s = Sp b" "(V(a \<mapsto> d)) b = None" "heap_frame E res B Fm h1 (V(a \<mapsto> d\<lparr>span_length := k\<rparr>, b \<mapsto> e)) L"
        "\<forall>H\<in>cheaders. Sp b \<notin> set (L H)" using r(2) Ret x by (auto simp: fun_upd_upd)
      have "(V(a \<mapsto> d\<lparr>span_length := k\<rparr>, b \<mapsto> e)) b = Some e" by simp
      from frame_Delete [OF b(3) this b(4)] obtain h2 where h2: "Delete E h1 (Sp b) = Some h2"
        "heap_frame E res B Fm h2 ((V(a \<mapsto> d\<lparr>span_length := k\<rparr>, b \<mapsto> e))(b := None)) L" by blast
      have "(V(a \<mapsto> d\<lparr>span_length := k\<rparr>, b \<mapsto> e))(b := None) = V(a \<mapsto> d\<lparr>span_length := k\<rparr>)"
        using b(2) by (auto simp: fun_eq_iff split: if_splits)
      then have "heap_frame E res B Fm h2 (V(a \<mapsto> d\<lparr>span_length := k\<rparr>)) L" using h2(2) by simp
      moreover have "trim_end E h (Sp a) k = Some (Ret h2)" using r(1) Ret x b(1) h2(1) kl ln by (simp add: trim_end_def)
      ultimately show ?thesis by blast
    qed
  qed
qed

lemma pages_add: "pages (sz + k * 2 ^ kPageShift) = pages sz + k"
  by (simp add: pages_def kPageSize_def)

lemma memalign_span_ok:
  assumes I: "threads_ok E res B Fm T HS fl Out" and sm: "size_classes_ok (sizemap (central T))" and sz: "0 < sz"
    and al: "al = 2 ^ j * 2 ^ kPageShift" and Bs: "Bs = blocks (sizemap (central T)) B (program Out HS fl)"
  shows "\<exists>r. memalign_span E al sz T = Some r \<and> (\<forall>p T'. r = Ret (p, T') \<longrightarrow> allotted E res T Bs sz al p T')"
proof -
  obtain V L fr ch where C: "central_ok (heap_frame E res B Fm) (central T) V L fr ch Out"
    and J: "\<And>h B'. heap_frame E res B' Fm h V L \<Longrightarrow> threads_ok E res B' Fm (set_heap h T) HS fl Out" using threads_ok_heap [OF I] by blast
  have N: "pages (sz + al) = pages sz + 2 ^ j" unfolding al by (rule pages_add)
  then have N0: "0 < pages (sz + al)" by simp
  show ?thesis
  proof (rule New_ok [OF central_okD(2) [OF C] N0])
    assume "New E (heap_of T) (pages (sz + al)) = Some OutOfMemory"
    then show ?thesis by (simp add: memalign_span_def)
  next
    fix h' assume 1: "New E (heap_of T) (pages (sz + al)) = Some (Ret (SNull, h'))" "heap_frame E res B Fm h' V L"
    have "threads_blocks E res (set_heap h' T) Bs" by (rule threads_blocksI [OF J [OF 1(2)]]) (use sm Bs in simp_all)
    then show ?thesis using 1(1) allotted_null [OF _ same_bytes_heap] by (simp add: memalign_span_def)
  next
    fix a d h1
    assume 1: "New E (heap_of T) (pages (sz + al)) = Some (Ret (Sp a, h1))" "V a = None" "B a = None" "heap_frame E res B Fm h1 (V(a \<mapsto> d)) L"
      "span_length d = pages (sz + al)" "sizeclass d = 0" "\<forall>H\<in>cheaders. Sp a \<notin> set (L H)" "span_start (span_of h1 (Sp a)) = span_start d"
    have Va: "(V(a \<mapsto> d)) a = Some d" by simp
    have "span_start d + 2 ^ j \<le> 2 ^ 51" using frame_pages(1) [OF 1(4) Va] 1(5) N by simp
    from aligned_skip_spec [OF this] obtain k where k: "aligned_skip (span_start d) al 0 = Some k" "k < 2 ^ j" "2 ^ j dvd span_start d + k"
      unfolding al by blast
    have kl: "k < pages (sz + al)" using k(2) N by simp
    obtain r1 where r1: "trim_start E h1 (Sp a) k = Some r1" "\<And>s h'. r1 = Ret (s, h') \<Longrightarrow>
      \<exists>b e. s = Sp b \<and> V b = None \<and> B b = None \<and> heap_frame E res B Fm h' (V(b \<mapsto> e)) L \<and> span_start e = span_start d + k \<and>
        span_length e = span_length d - k \<and> sizeclass e = 0 \<and> (\<forall>H\<in>cheaders. Sp b \<notin> set (L H))"
      using trim_start_ok [OF 1(4,2,3,6,7) kl [folded 1(5)]] by blast
    have run: "memalign_span E al sz T = (case r1 of OutOfMemory \<Rightarrow> Some OutOfMemory
      | Ret (sp, h) \<Rightarrow> trim_end E h sp (pages sz) \<bind> (\<lambda>r. case r of OutOfMemory \<Rightarrow> Some OutOfMemory
          | Ret h \<Rightarrow> SpanToMallocResult (set_heap h T) sp \<bind> (\<lambda>(p, T). Some (Ret (p, T)))))"
      using 1(1,8) k(1) kl r1(1) by (simp add: memalign_span_def)
    show ?thesis
    proof (cases r1)
      case OutOfMemory
      then show ?thesis using run by simp
    next
      case (Ret x)
      obtain s h2 where x: "x = (s, h2)" by (cases x)
      obtain b e where b: "s = Sp b" "V b = None" "B b = None" "heap_frame E res B Fm h2 (V(b \<mapsto> e)) L" "span_start e = span_start d + k"
        "span_length e = span_length d - k" "sizeclass e = 0" "\<forall>H\<in>cheaders. Sp b \<notin> set (L H)" using r1(2) Ret x by blast
      have le: "pages sz \<le> span_length e" using b(6) 1(5) N k(2) by simp
      obtain r2 where r2: "trim_end E h2 (Sp b) (pages sz) = Some r2"
        "\<And>h'. r2 = Ret h' \<Longrightarrow> heap_frame E res B Fm h' (V(b \<mapsto> e\<lparr>span_length := pages sz\<rparr>)) L"
        using trim_end_ok [OF b(4,2,3,7,8) pages_pos [OF sz] le] by blast
      show ?thesis
      proof (cases r2)
        case OutOfMemory
        then show ?thesis using run Ret x b(1) r2(1) by simp
      next
        case h3: (Ret h3)
        let ?e = "e\<lparr>span_length := pages sz\<rparr>"
        have "sizeclass ?e = 0" "sz \<le> span_length ?e * 2 ^ kPageShift" "al dvd span_start ?e * 2 ^ kPageShift"
          using b(5,7) pages_ge k(3) by (simp_all add: al)
        with SpanToMallocResult_ok [OF I sm J r2(2) [OF h3] b(2,3) _ b(8) Bs] obtain p T' where
          "SpanToMallocResult (set_heap h3 T) (Sp b) = Some (p, T')" "allotted E res T Bs sz al p T'" by blast
        then show ?thesis using run Ret x b(1) r2(1) h3 by simp
      qed
    qed
  qed
qed

lemma memalign_pages_ok:
  assumes I: "threads_ok E res B Fm T HS fl Out" and sm: "size_classes_ok (sizemap (central T))" and sz: "0 < sz" and al: "al dvd kPageSize"
    and Bs: "Bs = blocks (sizemap (central T)) B (program Out HS fl)"
  shows "\<exists>r. memalign_pages E sz T = Some r \<and> (\<forall>p T'. r = Ret (p, T') \<longrightarrow> allotted E res T Bs sz al p T')"
  using New_span_ok [OF I sm sz al Bs]
  by (elim disjE exE conjE) (simp_all add: memalign_pages_def Let_def)

lemma memalign_class_ok:
  assumes I: "threads_ok E res B Fm (tcs P) HS fl Out" and sm: "size_classes_ok (sizemap (central (tcs P)))"
    and c: "0 < c" "c < kNumClasses" "sz \<le> class_to_size (sizemap (central (tcs P))) c" "al dvd class_to_size (sizemap (central (tcs P))) c" "al dvd kPageSize"
    and Bs: "Bs = blocks (sizemap (central (tcs P))) B (program Out HS fl)"
  shows "\<exists>r. memalign_class E me c P = Some r \<and> (\<forall>p P'. r = Ret (p, P') \<longrightarrow> allotted E res (tcs P) Bs sz al p (tcs P') \<and> tc_new_mode P' = tc_new_mode P)"
proof -
  let ?T = "tcs P"
  obtain r where r: "GetCache E me ?T = Some r" "\<And>h T'. r = Ret (h, T') \<Longrightarrow>
    \<exists>Fm' HS' fl'. threads_ok E res B Fm' T' HS' fl' Out \<and> h \<in> set HS' \<and> tc_tid (caches T' h) = me \<and>
      program Out HS' fl' = program Out HS fl \<and> object_mem (central T') = object_mem (central ?T) \<and> sizemap (central T') = sizemap (central ?T)"
    using GetCache_ok [OF I] by blast
  show ?thesis
  proof (cases r)
    case OutOfMemory
    then show ?thesis using r(1) by (simp add: memalign_class_def)
  next
    case (Ret x)
    obtain h T1 where x: "x = (h, T1)" by (cases x)
    obtain Fm' HS' fl' where 1: "threads_ok E res B Fm' T1 HS' fl' Out" "h \<in> set HS'" "program Out HS' fl' = program Out HS fl"
      "object_mem (central T1) = object_mem (central ?T)" "sizemap (central T1) = sizemap (central ?T)" using r(2) Ret x by blast
    note 2 = threads_blocks_stay [OF 1(1) sm 1(5,3) Bs]
    have b: "same_bytes Bs ?T T1" using 1(4,5) by (simp add: same_bytes_def)
    obtain r' where r': "cache_Allocate E (class_to_size (sizemap (central T1)) c) c h T1 = Some r'"
      "\<And>p T'. r' = Ret (p, T') \<Longrightarrow> CheckedMallocResult (central T') p = Some p \<and> allotted E res T1 Bs sz al p T'"
      using cache_alloc_ok [OF 1(1) 2(3) 1(2) c(1,2) c(3,4) [folded 1(5)] c(5) 2(2)] by blast
    then show ?thesis using r(1) Ret x allotted_trans [OF b] by (cases r') (auto simp: memalign_class_def)
  qed
qed

lemma do_memalign_ok:
  assumes I: "threads_blocks E res (tcs P) Bs" and al: "al = 2 ^ j"
  shows "\<exists>r. do_memalign E me al sz P = Some r \<and> (\<forall>p P'. r = Ret (p, P') \<longrightarrow>
    allotted E res (tcs P) Bs sz al p (tcs P') \<and> tc_new_mode P' = tc_new_mode P)"
proof -
  let ?T = "tcs P" and ?sz = "if sz = 0 then 1 else sz"
  obtain B Fm HS fl Out where J: "threads_ok E res B Fm ?T HS fl Out" and sm: "size_classes_ok (sizemap (central ?T))"
    and Bs: "Bs = blocks (sizemap (central ?T)) B (program Out HS fl)" using I by (rule threads_blocksE)
  obtain i where i: "AlignmentForSize sz = Some (2 ^ i)" using AlignmentForSize_spec [of sz] by blast
  have chk: "al AND (al - 1) = 0" "0 < al" by (simp_all add: al and_pred_pow2)
  show ?thesis
  proof (cases "(sz + al) mod 2 ^ 64 < sz")
    case True
    then have "do_memalign E me al sz P = Some (Ret (0, P))" using chk by (simp add: do_memalign_def)
    then show ?thesis using allotted_null [OF I same_bytes_refl] by simp
  next
    case nov: False
    show ?thesis
    proof (cases "al \<le> 2 ^ i")
      case True
      then have dv: "al dvd 2 ^ i" unfolding al by (intro le_imp_power_dvd) simp
      obtain r where r: "do_malloc E me sz P = Some r" "\<And>p P'. r = Ret (p, P') \<Longrightarrow>
        allotted E res ?T Bs sz (2 ^ i) p (tcs P') \<and> tc_new_mode P' = tc_new_mode P" using do_malloc_ok [OF I i] by blast
      have "p mod al = 0 \<and> allotted E res ?T Bs sz al p (tcs P') \<and> tc_new_mode P' = tc_new_mode P" if "r = Ret (p, P')" for p P'
        using r(2) [OF that] dv allotted_weaken [OF _ le_refl dv] dvd_trans [OF dv, of p] by (auto simp: allotted_def)
      then show ?thesis using r(1) chk nov True i by (cases r) (auto simp: do_memalign_def)
    next
      case False
      define cl where "cl = (if ?sz \<le> kMaxSize \<and> al < kPageSize
        then map_option (\<lambda>cl. aligned_class (sizemap (central ?T)) al cl (kNumClasses - cl)) (SizeClass (sizemap (central ?T)) ?sz) else Some kNumClasses)"
      have run: "do_memalign E me al sz P = cl \<bind> (\<lambda>cl. if cl < kNumClasses then memalign_class E me cl P
          else if al \<le> kPageSize then on_threads (memalign_pages E ?sz ?T) P else on_threads (memalign_span E al ?sz ?T) P)"
        unfolding cl_def using chk nov False i by (simp add: do_memalign_def Let_def)
      have "\<exists>c. cl = Some c \<and> (c < kNumClasses \<longrightarrow> 0 < c \<and> ?sz \<le> class_to_size (sizemap (central ?T)) c \<and>
          al dvd class_to_size (sizemap (central ?T)) c \<and> al < kPageSize)"
      proof (cases "?sz \<le> kMaxSize \<and> al < kPageSize")
        case t: True
        obtain c where c: "SizeClass (sizemap (central ?T)) ?sz = Some c" "0 < c" "c < kNumClasses" "?sz \<le> class_to_size (sizemap (central ?T)) c"
          using size_classes_okD(1) [OF sm] t by blast
        let ?c = "aligned_class (sizemap (central ?T)) al c (kNumClasses - c)"
        have "c + (kNumClasses - c) = kNumClasses" using c(3) by simp
        note A = aligned_class_spec [OF this refl, of "sizemap (central ?T)" j, folded al]
        have "class_to_size (sizemap (central ?T)) c \<le> class_to_size (sizemap (central ?T)) ?c" if "?c < kNumClasses"
          using sm c(2) A that unfolding size_classes_ok_def by (metis le_neq_implies_less less_imp_le order_refl)
        then show ?thesis using A c t unfolding cl_def by auto
      next
        case False
        then have "cl = Some kNumClasses" unfolding cl_def by (rule if_not_P)
        then show ?thesis by simp
      qed
      then obtain c where c: "cl = Some c" "c < kNumClasses \<Longrightarrow> 0 < c \<and> ?sz \<le> class_to_size (sizemap (central ?T)) c \<and>
          al dvd class_to_size (sizemap (central ?T)) c \<and> al < kPageSize" by blast
      have small: "al dvd kPageSize" if "al \<le> kPageSize"
        using that unfolding al kPageSize_def by (intro le_imp_power_dvd) simp
      have "\<exists>r. do_memalign E me al sz P = Some r \<and> (\<forall>p P'. r = Ret (p, P') \<longrightarrow>
        allotted E res ?T Bs ?sz al p (tcs P') \<and> tc_new_mode P' = tc_new_mode P)"
      proof (cases "c < kNumClasses")
        case True
        then show ?thesis using memalign_class_ok [OF J sm _ True _ _ small Bs, of ?sz me] c by (simp add: run)
      next
        case nc: False
        have sz0: "0 < ?sz" by simp
        show ?thesis
        proof (cases "al \<le> kPageSize")
          case True
          from on_threads_ok [OF memalign_pages_ok [OF J sm sz0 small [OF True] Bs], of P] show ?thesis using nc True c(1) by (simp add: run)
        next
          case big: False
          then have "13 \<le> j" unfolding al kPageSize_def kPageShift_def by (metis le_cases one_le_numeral power_increasing_iff one_less_numeral_iff semiring_norm(76) power_increasing)
          then have "al = 2 ^ (j - 13) * 2 ^ kPageShift" unfolding al kPageShift_def power_add [symmetric] by simp
          from on_threads_ok [OF memalign_span_ok [OF J sm sz0 this Bs], of P] show ?thesis using nc big c(1) by (simp add: run)
        qed
      qed
      moreover have "sz \<le> ?sz" by simp
      ultimately show ?thesis using allotted_weaken [OF _ _ dvd_refl] by blast
    qed
  qed
qed

lemma memalign_ok:
  assumes I: "threads_blocks E res (tcs P) Bs" "tc_new_mode P = 0" and al: "al = 2 ^ j"
  shows "\<exists>r. do_memalign_or_cpp_memalign E nh me al sz P = Some r \<and> (\<forall>x P'. r = Ret (x, P') \<longrightarrow>
    (\<exists>p. x = Pointer p \<and> allotted E res (tcs P) Bs sz al p (tcs P')) \<and> tc_new_mode P' = 0)"
  unfolding do_memalign_or_cpp_memalign_def
  by (rule alloc_mode0 [where alloc = "do_memalign E me al sz" and P = P and Q = "\<lambda>p P'. allotted E res (tcs P) Bs sz al p (tcs P')",
    OF do_memalign_ok [OF I(1) al] I(2)])

end
