(* ===== verification/Central_Properties.thy ===== *)
theory Central_Properties
  imports Central_Init Page_Heap_Properties
begin

text \<open>
  The central free lists as a state machine, whose steps are the calls of the thread caches and the
  writes of the program to the objects it holds, and the properties of its states.
\<close>

section \<open>The machine\<close>

inductive central_step :: "'os heap_env \<Rightarrow> 'os central \<times> (nat \<Rightarrow> addr set) \<Rightarrow> 'os central \<times> (nat \<Rightarrow> addr set) \<Rightarrow> bool" for E where
  step_remove: "0 < c \<Longrightarrow> c < kNumClasses \<Longrightarrow> 0 < N \<Longrightarrow> RemoveRange E c S N = Some (Ret (n, start, tail, S')) \<Longrightarrow>
    sll (object_mem S') start xs \<Longrightarrow> central_step E (S, Out) (S', Out(c := Out c \<union> set xs))"
| step_insert: "c < kNumClasses \<Longrightarrow> sll (object_mem S) start xs \<Longrightarrow> xs \<noteq> [] \<Longrightarrow> set xs \<subseteq> Out c \<Longrightarrow>
    InsertRange E c S start (last xs) (int (length xs)) = Some S' \<Longrightarrow> central_step E (S, Out) (S', Out(c := Out c - set xs))"
| step_write: "(\<And>y. y \<notin> outs (sizemap S) {} Out \<Longrightarrow> m y = object_mem S y) \<Longrightarrow> central_step E (S, Out) (S\<lparr>object_mem := m\<rparr>, Out)"

definition central_state :: "'os heap_env \<Rightarrow> ('os \<Rightarrow> nat set) \<Rightarrow> 'os central \<times> (nat \<Rightarrow> addr set) \<Rightarrow> bool" where
  "central_state E res s = (\<exists>B Fm V L fr ch. central_ok (heap_frame E res B Fm) (fst s) V L fr ch (snd s))"

lemma central_stateI: "central_ok (heap_frame E res B Fm) S V L fr ch Out \<Longrightarrow> central_state E res (S, Out)"
  unfolding central_state_def fst_conv snd_conv by blast

lemma central_stateE:
  assumes "central_state E res (S, Out)"
  obtains B Fm V L fr ch where "central_ok (heap_frame E res B Fm) S V L fr ch Out"
  using assms unfolding central_state_def fst_conv snd_conv by blast

lemma RemoveRange_ret:
  assumes "central_ok (heap_frame E res B Fm) S V L fr ch Out" "c < kNumClasses" "0 < c" "0 < N" "RemoveRange E c S N = Some (Ret (n, start, tail, S'))"
  obtains xs ch' V' L' fr' where "n = int (length xs)" "n \<le> N" "sll (object_mem S') start xs" "xs \<noteq> [] \<longrightarrow> tail = last xs"
    "set xs \<inter> outs (sizemap S) (owned_bytes B) Out = {}" "central_ok (heap_frame E res B Fm) S' V' L' fr' ch' (Out(c := Out c \<union> set xs))" "sizemap S' = sizemap S"
    "\<forall>y\<in>outs (sizemap S) (owned_bytes B) Out. object_mem S' y = object_mem S y"
proof -
  obtain r where r: "RemoveRange E c S N = Some r" "\<And>n start tail S'. r = Ret (n, start, tail, S') \<Longrightarrow>
    \<exists>xs ch' V' L' fr'. n = int (length xs) \<and> n \<le> N \<and> sll (object_mem S') start xs \<and> (xs \<noteq> [] \<longrightarrow> tail = last xs) \<and>
      set xs \<inter> outs (sizemap S) (owned_bytes B) Out = {} \<and> central_ok (heap_frame E res B Fm) S' V' L' fr' ch' (Out(c := Out c \<union> set xs)) \<and> sizemap S' = sizemap S \<and>
      (\<forall>y\<in>outs (sizemap S) (owned_bytes B) Out. object_mem S' y = object_mem S y)"
    using client_heap.RemoveRange_ok [OF assms(1-4)] by blast
  have "r = Ret (n, start, tail, S')" using r(1) assms(5) by simp
  from r(2) [OF this] that show thesis by blast
qed

lemma central_state_step: "central_step E s s' \<Longrightarrow> central_state E res s \<Longrightarrow> central_state E res s'"
proof (induction rule: central_step.induct)
  case (step_remove c N S n start tail S' xs Out)
  then obtain B Fm V L fr ch where I: "central_ok (heap_frame E res B Fm) S V L fr ch Out" by (auto intro: central_stateI elim: central_stateE)
  show ?case
  proof (rule RemoveRange_ret [OF I step_remove(2,1,3,4)])
    fix ys ch' V' L' fr'
    assume Y: "sll (object_mem S') start ys" "central_ok (heap_frame E res B Fm) S' V' L' fr' ch' (Out(c := Out c \<union> set ys))"
    show ?thesis using Y(2) unfolding sll_unique [OF step_remove(5) Y(1)] by (rule central_stateI)
  qed
next
  case (step_insert c S start xs Out S')
  then obtain B Fm V L fr ch where I: "central_ok (heap_frame E res B Fm) S V L fr ch Out" by (auto intro: central_stateI elim: central_stateE)
  from client_heap.InsertRange_ok [OF I step_insert(1,2,3,4) refl] step_insert(5) show ?case by (auto intro: central_stateI)
next
  case (step_write S Out m)
  then obtain B Fm V L fr ch where I: "central_ok (heap_frame E res B Fm) S V L fr ch Out" by (auto intro: central_stateI elim: central_stateE)
  have "m y = object_mem S y" if "y \<notin> outs (sizemap S) (owned_bytes B) Out" for y
    using step_write(1) that by (simp add: outs_def)
  from client_heap.central_ok_mem [OF I this] show ?case by (rule central_stateI)
qed

lemma central_state_steps: "(central_step E)\<^sup>*\<^sup>* s s' \<Longrightarrow> central_state E res s \<Longrightarrow> central_state E res s'"
  by (induction rule: rtranclp_induct) (auto intro: central_state_step)

section \<open>Concrete states\<close>

definition ex_list :: central_list where
  "ex_list = \<lparr>size_class = 0, num_spans = 0, counter = 0, tc_slots = (\<lambda>_. (0, 0)), used_slots = 0, cache_size = 0, max_cache_size = 0\<rparr>"

definition ex_sizemap :: SizeMap where
  "ex_sizemap = SizeMap_zero\<lparr>class_to_size := (\<lambda>_. 1024), class_to_pages := (\<lambda>_. 8), num_objects_to_move := (\<lambda>_. 2)\<rparr>"

definition ex_uninit :: "nat page_heap \<Rightarrow> nat central" where
  "ex_uninit h = \<lparr>pageheap = h, object_mem = (\<lambda>_. 0), sizemap = ex_sizemap, central_cache = (\<lambda>_. ex_list), race_counter = 0\<rparr>"

definition ex_central :: "nat central" where
  "ex_central = the (init_centrals (ex_uninit empty_heap) 0 kNumClasses)"

lemma ex_uninit_facts:
  "sizemap_ok (sizemap (ex_uninit h))" "num_objects_to_move (sizemap (ex_uninit h)) c \<le> 4096" "race_counter (ex_uninit h) = 0"
  "pageheap (ex_uninit h) = h"
  by (simp_all add: ex_uninit_def ex_sizemap_def sizemap_ok_def kMaxSize_def kPageShift_def)

lemma ex_central_ok:
  "\<exists>L. central_ok (heap_frame ex_env ex_res Map.empty {}) ex_central (\<lambda>_. None) L (\<lambda>_. []) (\<lambda>_. []) (\<lambda>_. {}) \<and> (\<forall>H\<in>cheaders. L H = [])"
  "sizemap ex_central = ex_sizemap"
proof -
  have z: "0 \<le> race_counter (ex_uninit empty_heap)" and e: "inuse_view (spans empty_heap) {} = (\<lambda>_. None)"
    by (simp_all add: ex_uninit_facts inuse_view_def)
  obtain S L where S: "init_centrals (ex_uninit empty_heap) 0 kNumClasses = Some S" "sizemap S = sizemap (ex_uninit empty_heap)"
    "\<forall>H\<in>cheaders. L H = []" "central_ok (heap_frame ex_env ex_res Map.empty {}) S (\<lambda>_. None) L (\<lambda>_. []) (\<lambda>_. []) (\<lambda>_. {})"
    using init_centrals_central_ok [OF ex_uninit_facts(1,2) z ex_contract _ ex_limit, of "{}" "{}" "\<lambda>_. []"] ex_res_bound empty_heap_facts(2-4) PageHeap_new_cached [OF empty_heap_facts(1)]
    unfolding ex_uninit_facts(4) e by auto
  have "ex_central = S" using S(1) by (simp add: ex_central_def)
  then show "\<exists>L. central_ok (heap_frame ex_env ex_res Map.empty {}) ex_central (\<lambda>_. None) L (\<lambda>_. []) (\<lambda>_. []) (\<lambda>_. {}) \<and> (\<forall>H\<in>cheaders. L H = [])"
    "sizemap ex_central = ex_sizemap" using S(2-4) by (auto simp: ex_uninit_def)
qed

lemma ex_central_state: "central_state ex_env ex_res (ex_central, \<lambda>_. {})"
  using ex_central_ok by (auto intro: central_stateI elim: central_stateE)

lemma one_heap_cached: "cached_as one_heap 0 0"
  using PageHeap_new_cached [OF empty_heap_facts(1)] cached_as_same [of one_heap empty_heap] by (simp add: one_heap_def)

text \<open>A page heap with one span in use and empty central lists.\<close>

lemma one_heap_frame:
  "\<exists>h L. (\<forall>H\<in>cheaders. L H = []) \<and> heap_frame ex_env ex_res Map.empty {} h ((\<lambda>_. None)(2 ^ 17 \<mapsto> span_data ex_span)) L"
proof -
  have z: "0 \<le> race_counter (ex_uninit one_heap)" by (simp add: ex_uninit_facts)
  let ?d = "span_data ex_span"
  have v: "inuse_view (spans one_heap) {2 ^ 17} = (\<lambda>_. None)(2 ^ 17 \<mapsto> ?d)"
  proof
    fix x
    have "span_data (spans one_heap (Sp (2 ^ 17))) = ?d" unfolding one_heap_facts(4) ..
    then show "inuse_view (spans one_heap) {2 ^ 17} x = ((\<lambda>_. None)(2 ^ 17 \<mapsto> ?d)) x"
      using one_heap_span(2) by (cases "x = 2 ^ 17") (simp_all add: inuse_view_def)
  qed
  have v0: "sizeclass e = 0" if "inuse_view (spans one_heap) {2 ^ 17} x = Some e" for x e
    using that unfolding v by (auto simp: ex_span_def span_data_def zero_span_def split: if_splits)
  obtain S1 L1 where 1: "\<forall>H\<in>cheaders. L1 H = []" "central_ok (heap_frame ex_env ex_res Map.empty {}) S1 (inuse_view (spans one_heap) {2 ^ 17}) L1 (\<lambda>_. []) (\<lambda>_. []) (\<lambda>_. {})"
    using init_centrals_central_ok [OF ex_uninit_facts(1,2) z ex_contract _ ex_limit, of "{}" "{2 ^ 17}" "\<lambda>_. []"] ex_res_bound one_heap_facts(1,2) v0 one_heap_cached
    unfolding ex_uninit_facts(4) by blast
  have "heap_frame ex_env ex_res Map.empty {} (pageheap S1) ((\<lambda>_. None)(2 ^ 17 \<mapsto> ?d)) L1" using central_okD(2) [OF 1(2)] unfolding v .
  then show ?thesis using 1(1) by blast
qed

text \<open>A state in which objects of class 5 are held.\<close>

lemma ex_held: "\<exists>S xs start. central_state ex_env ex_res (S, (\<lambda>_. {})(5 := set xs)) \<and> xs \<noteq> [] \<and> sll (object_mem S) start xs"
proof -
  obtain L where I: "central_ok (heap_frame ex_env ex_res Map.empty {}) ex_central (\<lambda>_. None) L (\<lambda>_. []) (\<lambda>_. []) (\<lambda>_. {})"
    and L: "\<forall>H\<in>cheaders. L H = []" using ex_central_ok by blast
  let ?d = "span_data ex_span"
  obtain h1 L1 where 1: "\<forall>H\<in>cheaders. L1 H = []" "heap_frame ex_env ex_res Map.empty {} h1 ((\<lambda>_. None)(2 ^ 17 \<mapsto> ?d)) L1"
    using one_heap_frame by blast
  then have R: "heap_frame ex_env ex_res Map.empty {} h1 ((\<lambda>_. None)(2 ^ 17 \<mapsto> ?d)) L" using L by (simp add: heap_frame_def heap_view_def)
  have c: "(5::nat) < kNumClasses" "(0::nat) < 5" by (simp_all add: config_defs)
  from client_heap.register [OF R _ c(1), of "2 ^ 17" ?d] obtain h h2 where
    h: "span_data (span_of h (Sp (2 ^ 17))) = ?d\<lparr>sizeclass := 5\<rparr>" "cache_pages h (span_start ?d) (span_length ?d) 5 = Some h2"
    "heap_frame ex_env ex_res Map.empty {} h2 ((\<lambda>_. None)(2 ^ 17 \<mapsto> ?d\<lparr>sizeclass := 5\<rparr>)) L" by (auto simp: fun_upd_upd)
  let ?S = "ex_central\<lparr>pageheap := h\<rparr>"
  from client_heap.Populate_add_ok [OF I c, where a = "2 ^ 17" and ?S1.0 = ?S and d = "?d\<lparr>sizeclass := 5\<rparr>" and hc = h2] obtain S2 V2 L2 fr2 where
    2: "central_ok (heap_frame ex_env ex_res Map.empty {}) S2 V2 L2 fr2 (\<lambda>_. []) (\<lambda>_. {})" "L2 (CentralNonempty 5) \<noteq> []"
    using h L ex_central_ok(2) by (auto simp: ex_span_def span_data_def ex_sizemap_def)
  from client_heap.FetchFromOneSpans_ok [OF 2(1) c(1), of 2] obtain S3 xs start where
    3: "client_heap.fetched ex_env ex_res Map.empty {} 5 (\<lambda>_. []) (\<lambda>_. {}) S2 xs start S3" "xs \<noteq> []" using 2(2) by auto
  then obtain V L fr where "central_ok (heap_frame ex_env ex_res Map.empty {}) S3 V L fr (\<lambda>_. []) ((\<lambda>_. {})(5 := {} \<union> set xs))" "sll (object_mem S3) start xs"
    unfolding client_heap.fetched_def by blast
  then show ?thesis using 3(2) by (intro exI [of _ S3] exI [of _ xs] exI [of _ start]) (auto intro: central_stateI)
qed

section \<open>Properties\<close>

text \<open>With a freshly constructed page heap and the size map that \<open>SizeMap::Init\<close> fills by default, the
  loop that initialises the central free lists fails no assertion and gives a consistent state in
  which no object is held.\<close>

theorem central_init_correct:
  assumes E: "os_contract (os_calls E) res" "\<forall>x. res x \<subseteq> {..<2 ^ 42}" "heap_limit_mb E = 0" and M: "mem_ok res Fm m sa ta {} {}"
    and h: "PageHeap_new m sa ta st (\<lambda>_. None) cache = Some h" and sm: "SizeMap_Init None 0 SizeMap_zero = Some sm"
  shows "\<exists>S'. init_centrals (S\<lparr>pageheap := h, sizemap := sm, race_counter := 0\<rparr>) 0 kNumClasses = Some S' \<and>
    central_state E res (S', \<lambda>_. {})"
proof -
  let ?S = "S\<lparr>pageheap := h, sizemap := sm, race_counter := 0\<rparr>"
  have "sizemap_ok sm \<and> (\<forall>c. num_objects_to_move sm c \<le> 4096)" using default_sizemap_ok sm by auto
  moreover have "heap_inv res Fm {} h {} (\<lambda>_. []) {}" "imbalance h {} = 0" using PageHeap_new_empty [OF M h] by simp_all
  moreover have "inuse_view (spans h) {} a = Some d \<Longrightarrow> sizeclass d = 0" for a d by (simp add: inuse_view_def)
  moreover have "cached_as h 0 0" by (rule PageHeap_new_cached [OF h])
  ultimately obtain S' L where "init_centrals ?S 0 kNumClasses = Some S'"
    "central_ok (heap_frame E res Map.empty Fm) S' (inuse_view (spans h) {}) L (\<lambda>_. []) (\<lambda>_. []) (\<lambda>_. {})"
    using init_centrals_central_ok [of ?S E res Fm "{}" "\<lambda>_. []"] E by auto
  then show ?thesis unfolding central_state_def fst_conv snd_conv by blast
qed

theorem central_init_correct_witness:
  "\<exists>sm S'. SizeMap_Init None 0 SizeMap_zero = Some sm \<and>
    init_centrals (ex_central\<lparr>pageheap := empty_heap, sizemap := sm, race_counter := 0\<rparr>) 0 kNumClasses = Some S'"
proof -
  obtain sm where sm: "SizeMap_Init None 0 SizeMap_zero = Some sm" using default_sizemap_ok by blast
  have "\<forall>x. ex_res x \<subseteq> {..<2 ^ 42}" using ex_res_bound by blast
  from central_init_correct [OF ex_contract this ex_limit ex_mem_empty empty_heap_facts(1) sm, of ex_central] sm show ?thesis by blast
qed

text \<open>C12: After any sequence of \<open>RemoveRange\<close>s, \<open>InsertRange\<close>s of chains of held objects and writes of the
  program to the objects it holds, no call of the central lists fails an assertion, dereferences a null
  pointer or runs forever.\<close>

theorem central_calls_return:
  assumes ok: "central_state E res s" and st: "(central_step E)\<^sup>*\<^sup>* s (S, Out)"
  shows "(\<forall>c N. 0 < c \<and> c < kNumClasses \<and> 0 < N \<longrightarrow> RemoveRange E c S N \<noteq> None) \<and>
    (\<forall>c start xs. c < kNumClasses \<and> sll (object_mem S) start xs \<and> xs \<noteq> [] \<and> set xs \<subseteq> Out c \<longrightarrow>
      InsertRange E c S start (last xs) (int (length xs)) \<noteq> None)"
proof -
  obtain B Fm V L fr ch where I: "central_ok (heap_frame E res B Fm) S V L fr ch Out"
    using central_state_steps [OF st ok] by (rule central_stateE)
  have "RemoveRange E c S N \<noteq> None" if "0 < c" "c < kNumClasses" "0 < N" for c N
    using client_heap.RemoveRange_ok [OF I that(2,1,3)] by auto
  moreover have "InsertRange E c S start (last xs) (int (length xs)) \<noteq> None"
    if "c < kNumClasses" "sll (object_mem S) start xs" "xs \<noteq> []" "set xs \<subseteq> Out c" for c start xs
    using client_heap.InsertRange_ok [OF I that(1-4) refl] by auto
  ultimately show ?thesis by blast
qed

theorem central_calls_return_witness:
  "RemoveRange ex_env 1 ex_central 5 \<noteq> None \<and> RemoveRange ex_env 87 ex_central 2 \<noteq> None"
  using central_calls_return [OF ex_central_state rtranclp.rtrancl_refl] by (simp add: config_defs)

text \<open>C11: In every such state two different held objects, of whatever classes, do not share a byte; an object
  has the full size of its class, lies inside the span that the page map gives for its first byte, and
  that span is registered with its class: what \<open>free\<close> reads.\<close>

theorem held_objects_apart:
  assumes ok: "central_state E res s" and st: "(central_step E)\<^sup>*\<^sup>* s (S, Out)"
    and c: "c < kNumClasses" "k < kNumClasses" and x: "x \<in> Out c" "y \<in> Out k"
  shows "(x \<noteq> y \<longrightarrow> extent x (class_to_size (sizemap S) c) \<inter> extent y (class_to_size (sizemap S) k) = {}) \<and>
    (\<exists>a. MapObjectToSpan S x = Sp a \<and> sizeclass (span_of (pageheap S) (Sp a)) = c \<and>
      extent x (class_to_size (sizemap S) c) \<subseteq>
        page_bytes (extent (span_start (span_of (pageheap S) (Sp a))) (span_length (span_of (pageheap S) (Sp a)))))"
proof -
  obtain B Fm V L fr ch where I: "central_ok (heap_frame E res B Fm) S V L fr ch Out"
    using central_state_steps [OF st ok] by (rule central_stateE)
  let ?sz = "class_to_size (sizemap S)"
  obtain a d where a: "V a = Some d" "span_ok (sizemap S) (object_mem S) c d (fr a)" "x \<in> grid (?sz c) d" "MapObjectToSpan S x = Sp a"
    using client_heap.held_object(2) [OF I c(1) x(1)] by blast
  obtain b e where b: "V b = Some e" "span_ok (sizemap S) (object_mem S) k e (fr b)" "y \<in> grid (?sz k) e"
    using client_heap.held_object(2) [OF I c(2) x(2)] by blast
  note f = client_heap.span_fields [OF central_okD(2) [OF I] a(1)]
  have "extent x (?sz c) \<inter> extent y (?sz k) = {}" if "x \<noteq> y"
  proof (cases "a = b")
    case True
    then have "d = e" using a(1) b(1) by simp
    moreover from this have "c = k" using span_okD(1) [OF a(2)] span_okD(1) [OF b(2)] by simp
    ultimately show ?thesis using grid_objects_apart a(3) b(3) that by blast
  next
    case False
    then have "span_pages d \<inter> span_pages e = {}" using client_heap.pages_apart [OF central_okD(2) [OF I] a(1) b(1)] by blast
    then have "page_bytes (span_pages d) \<inter> page_bytes (span_pages e) = {}" by (auto simp: page_bytes_def)
    then show ?thesis using grid_extent [OF a(3)] grid_extent [OF b(3)] by blast
  qed
  moreover have "sizeclass (span_of (pageheap S) (Sp a)) = c" using f(5) span_okD(1) [OF a(2)] by simp
  moreover have "extent x (?sz c) \<subseteq> page_bytes (extent (span_start (span_of (pageheap S) (Sp a))) (span_length (span_of (pageheap S) (Sp a))))"
    using grid_extent [OF a(3)] unfolding f(1,2) span_pages_def .
  ultimately show ?thesis using a(4) by blast
qed

theorem held_objects_apart_witness:
  "\<exists>S Out x a. central_state ex_env ex_res (S, Out) \<and> x \<in> Out 5 \<and> MapObjectToSpan S x = Sp a \<and> sizeclass (span_of (pageheap S) (Sp a)) = 5"
proof -
  obtain S xs where S: "central_state ex_env ex_res (S, (\<lambda>_. {})(5 := set xs))" "xs \<noteq> []" using ex_held by blast
  have x: "hd xs \<in> ((\<lambda>_. {})(5 := set xs)) 5" using S(2) by simp
  have c: "(5::nat) < kNumClasses" by (simp add: config_defs)
  from held_objects_apart [OF S(1) rtranclp.rtrancl_refl c c x x] S(1) x show ?thesis by blast
qed

text \<open>C13: \<open>RemoveRange\<close> either reports that no memory is left for metadata or hands out a chain of at most
  \<open>N\<close> objects of the class, with the right first and last object and length, none of which anybody held;
  no byte of the objects that were held before is written.\<close>

theorem RemoveRange_correct:
  assumes ok: "central_state E res (S, Out)" and c: "0 < c" "c < kNumClasses" "0 < N"
  shows "\<exists>r. RemoveRange E c S N = Some r \<and> (\<forall>n start tail S'. r = Ret (n, start, tail, S') \<longrightarrow>
    (\<exists>xs. n = int (length xs) \<and> n \<le> N \<and> sll (object_mem S') start xs \<and> (xs \<noteq> [] \<longrightarrow> tail = last xs) \<and>
      set xs \<inter> (\<Union>k<kNumClasses. Out k) = {} \<and> central_state E res (S', Out(c := Out c \<union> set xs)) \<and>
      (\<forall>k<kNumClasses. \<forall>x\<in>Out k. \<forall>y\<in>extent x (class_to_size (sizemap S) k). object_mem S' y = object_mem S y)))"
proof -
  obtain B Fm V L fr ch where I: "central_ok (heap_frame E res B Fm) S V L fr ch Out" using ok by (rule central_stateE)
  obtain r where r: "RemoveRange E c S N = Some r" using client_heap.RemoveRange_ok [OF I c(2,1,3)] by blast
  have "\<exists>xs. n = int (length xs) \<and> n \<le> N \<and> sll (object_mem S') start xs \<and> (xs \<noteq> [] \<longrightarrow> tail = last xs) \<and>
      set xs \<inter> (\<Union>k<kNumClasses. Out k) = {} \<and> central_state E res (S', Out(c := Out c \<union> set xs)) \<and>
      (\<forall>k<kNumClasses. \<forall>x\<in>Out k. \<forall>y\<in>extent x (class_to_size (sizemap S) k). object_mem S' y = object_mem S y)" if R: "r = Ret (n, start, tail, S')" for n start tail S'
  proof (rule RemoveRange_ret [OF I c(2,1,3) r [unfolded R]])
    fix xs ch' V' L' fr'
    assume X: "n = int (length xs)" "n \<le> N" "sll (object_mem S') start xs" "xs \<noteq> [] \<longrightarrow> tail = last xs" "set xs \<inter> outs (sizemap S) (owned_bytes B) Out = {}"
      "central_ok (heap_frame E res B Fm) S' V' L' fr' ch' (Out(c := Out c \<union> set xs))" "\<forall>y\<in>outs (sizemap S) (owned_bytes B) Out. object_mem S' y = object_mem S y"
    have "central_state E res (S', Out(c := Out c \<union> set xs))" using X(6) by (auto intro: central_stateI elim: central_stateE)
    with X(1-5,7) show ?thesis unfolding outs_def by blast
  qed
  with r show ?thesis by blast
qed

theorem RemoveRange_correct_witness: "\<exists>r. RemoveRange ex_env 7 ex_central 3 = Some r"
proof -
  have "(0::nat) < 7" "(7::nat) < kNumClasses" "(0::int) < 3" by (simp_all add: config_defs)
  from RemoveRange_correct [OF ex_central_state this] show ?thesis by blast
qed

text \<open>C14: \<open>InsertRange\<close> of a chain of held objects returns; just these objects are no longer held, and no
  byte of the objects that are still held is written.\<close>

theorem InsertRange_correct:
  assumes ok: "central_state E res (S, Out)" and c: "c < kNumClasses"
    and xs: "sll (object_mem S) start xs" "xs \<noteq> []" "set xs \<subseteq> Out c"
  shows "\<exists>S'. InsertRange E c S start (last xs) (int (length xs)) = Some S' \<and>
    central_state E res (S', Out(c := Out c - set xs)) \<and>
    (\<forall>k<kNumClasses. \<forall>x\<in>(Out(c := Out c - set xs)) k. \<forall>y\<in>extent x (class_to_size (sizemap S) k). object_mem S' y = object_mem S y)"
proof -
  obtain B Fm V L fr ch where I: "central_ok (heap_frame E res B Fm) S V L fr ch Out" using ok by (rule central_stateE)
  from client_heap.InsertRange_ok [OF I c xs refl] obtain S' V' L' fr' ch' where
    1: "InsertRange E c S start (last xs) (int (length xs)) = Some S'" "central_ok (heap_frame E res B Fm) S' V' L' fr' ch' (Out(c := Out c - set xs))"
    "\<forall>y\<in>outs (sizemap S) (owned_bytes B) (Out(c := Out c - set xs)). object_mem S' y = object_mem S y" by blast
  have "central_state E res (S', Out(c := Out c - set xs))" using 1(2) by (auto intro: central_stateI elim: central_stateE)
  with 1 show ?thesis unfolding outs_def by blast
qed

theorem InsertRange_correct_witness:
  "\<exists>(S :: nat central) xs start S'. xs \<noteq> [] \<and> InsertRange ex_env 5 S start (last xs) (int (length xs)) = Some S' \<and>
    central_state ex_env ex_res (S', (\<lambda>_. {})(5 := set xs - set xs))"
proof -
  obtain S xs start where S: "central_state ex_env ex_res (S, (\<lambda>_. {})(5 := set xs))" "xs \<noteq> []" "sll (object_mem S) start xs" using ex_held by blast
  have x: "set xs \<subseteq> ((\<lambda>_. {})(5 := set xs)) 5" and c: "(5::nat) < kNumClasses" by (simp_all add: config_defs)
  have e: "((\<lambda>_. {})(5 := set xs))(5 := ((\<lambda>_. {})(5 := set xs)) 5 - set xs) = (\<lambda>_. {})(5 := set xs - set xs)" by (simp add: fun_eq_iff)
  from InsertRange_correct [OF S(1) c S(3,2) x] S(2) show ?thesis unfolding e by blast
qed

text \<open>C33: A full batch that goes into the transfer cache while it has room comes back, with the same first
  and last object, from the next \<open>RemoveRange\<close> of a batch; the objects are not touched.\<close>

theorem transfer_cache_roundtrip:
  assumes N: "N = num_objects_to_move (sizemap S) (size_class (central_cache S c))" "0 < N"
    and u: "0 \<le> used_slots (central_cache S c)" "used_slots (central_cache S c) < cache_size (central_cache S c)"
      "cache_size (central_cache S c) \<le> max_cache_size (central_cache S c)" "max_cache_size (central_cache S c) \<le> kMaxNumTransferEntries"
  shows "\<exists>S' S''. InsertRange E c S start tail N = Some S' \<and> RemoveRange E c S' N = Some (Ret (N, start, tail, S'')) \<and>
    object_mem S'' = object_mem S \<and> pageheap S'' = pageheap S \<and>
    (central_cache S'' c)\<lparr>tc_slots := tc_slots (central_cache S c)\<rparr> = central_cache S c"
proof -
  let ?l = "central_cache S c"
  let ?S = "upd_list (upd_list S c (\<lambda>l. l\<lparr>used_slots := used_slots l + 1\<rparr>)) c (\<lambda>l. l\<lparr>tc_slots := (tc_slots l)(nat (used_slots ?l) := (start, tail))\<rparr>)"
  have "InsertRange E c S start tail N = Some ?S"
    using N u by (simp add: InsertRange_def MakeCacheSpace_def Let_def upd_list_def)
  moreover have "RemoveRange E c ?S N = Some (Ret (N, start, tail, upd_list ?S c (\<lambda>l. l\<lparr>used_slots := used_slots ?l\<rparr>)))"
    using N u by (simp add: RemoveRange_def upd_list_def Let_def)
  ultimately show ?thesis by (simp add: upd_list_def)
qed

theorem transfer_cache_roundtrip_witness:
  "\<exists>S'. InsertRange ex_env 1 (upd_list ex_central 1 (\<lambda>l. ex_list\<lparr>cache_size := 16, max_cache_size := 64\<rparr>)) 4096 8192 2 = Some S'"
  using transfer_cache_roundtrip [of 2 "upd_list ex_central 1 (\<lambda>l. ex_list\<lparr>cache_size := 16, max_cache_size := 64\<rparr>)" 1 ex_env 4096 8192]
    ex_central_ok(2) by (auto simp: upd_list_def ex_list_def ex_sizemap_def kMaxNumTransferEntries_def)

end
