(* ===== verification/Malloc_Start.thy ===== *)
theory Malloc_Start
  imports Malloc_Inv Central_Properties
begin

text \<open>
  The start of the process: the size map of \<open>SizeMap::Init\<close> is one the entry points can rely on, and with the
  initial values of the static members no thread has a cache and the program holds no block.
\<close>

section \<open>The default size classes\<close>

lemma AlignmentForSize_cases:
  "kMaxSize < s \<Longrightarrow> AlignmentForSize s = Some kPageSize"
  "128 \<le> s \<Longrightarrow> s \<le> kMaxSize \<Longrightarrow> \<exists>l. 2 ^ l \<le> s \<and> s < 2 ^ Suc l \<and> AlignmentForSize s = Some (2 ^ min (l - 3) 13)"
  "16 \<le> s \<Longrightarrow> s < 128 \<Longrightarrow> AlignmentForSize s = Some 16"
  "s < 16 \<Longrightarrow> AlignmentForSize s = Some 8"
proof -
  show "AlignmentForSize s = Some kPageSize" if "kMaxSize < s"
    using that pow2_and_pred [of 13] by (simp add: AlignmentForSize_def config_defs Let_def)
  show "AlignmentForSize s = Some 16" if "16 \<le> s" "s < 128"
    using that pow2_and_pred [of 4] by (simp add: AlignmentForSize_def config_defs Let_def)
  show "AlignmentForSize s = Some 8" if "s < 16"
    using that pow2_and_pred [of 3] by (simp add: AlignmentForSize_def config_defs Let_def)
  show "\<exists>l. 2 ^ l \<le> s \<and> s < 2 ^ Suc l \<and> AlignmentForSize s = Some (2 ^ min (l - 3) 13)" if s: "128 \<le> s" "s \<le> kMaxSize"
  proof -
    obtain l where l: "LgFloor s = Some l" "2 ^ l \<le> s" "s < 2 ^ Suc l" using LgFloor_correct [of s] s by (auto simp: kMaxSize_def)
    have "(2::nat) ^ 7 < 2 ^ Suc l" using l(3) s(1) by simp
    then have l7: "7 \<le> l" by (simp only: power_strict_increasing_iff less_Suc_eq_le)
    have e: "(2::nat) ^ l div 8 = 2 ^ (l - 3)" using l7 power_diff [of "2::nat" 3 l] by simp
    have "(kPageSize < 2 ^ (l - 3)) = (13 < l - 3)"
      unfolding kPageSize_def kPageShift_def by (rule power_strict_increasing_iff) simp
    then have k: "(if 2 ^ (l - 3) > kPageSize then kPageSize else 2 ^ (l - 3)) = 2 ^ min (l - 3) 13"
      by (auto simp: min_def kPageSize_def kPageShift_def)
    have "(2::nat) ^ 4 \<le> 2 ^ min (l - 3) 13" by (rule power_increasing) (use l7 in simp_all)
    then have "AlignmentForSize s = Some (2 ^ min (l - 3) 13)"
      using s l(1) e k pow2_and_pred [of "min (l - 3) 13"] by (simp add: AlignmentForSize_def kMinAlign_def)
    with l show ?thesis by blast
  qed
qed

text \<open>A larger size has no smaller alignment.\<close>

lemma AlignmentForSize_mono:
  assumes "s \<le> t" "t \<le> kMaxSize"
  shows "\<exists>a b. AlignmentForSize s = Some a \<and> AlignmentForSize t = Some b \<and> a dvd b"
proof (cases "128 \<le> t")
  case True
  obtain l where l: "2 ^ l \<le> t" "t < 2 ^ Suc l" "AlignmentForSize t = Some (2 ^ min (l - 3) 13)"
    using AlignmentForSize_cases(2) [OF True assms(2)] by blast
  show ?thesis
  proof (cases "128 \<le> s")
    case s: True
    have "s \<le> kMaxSize" using assms by simp
    from AlignmentForSize_cases(2) [OF s this] obtain k where k: "2 ^ k \<le> s" "AlignmentForSize s = Some (2 ^ min (k - 3) 13)" by blast
    have "(2::nat) ^ k < 2 ^ Suc l" using k(1) l(2) assms(1) by simp
    then have "k \<le> l" by (simp only: power_strict_increasing_iff less_Suc_eq_le)
    then have "(2::nat) ^ min (k - 3) 13 dvd 2 ^ min (l - 3) 13" by (intro le_imp_power_dvd) auto
    then show ?thesis using k(2) l(3) by blast
  next
    case f: False
    have "(2::nat) ^ 7 < 2 ^ Suc l" using l(2) True by simp
    then have "7 \<le> l" by (simp only: power_strict_increasing_iff less_Suc_eq_le)
    then have "(2::nat) ^ 4 dvd 2 ^ min (l - 3) 13" "(2::nat) ^ 3 dvd 2 ^ min (l - 3) 13" by (intro le_imp_power_dvd; simp)+
    then show ?thesis using AlignmentForSize_cases(3,4) [of s] f l(3) by (cases "16 \<le> s") auto
  qed
next
  case False
  then show ?thesis using assms AlignmentForSize_cases(3,4) [of s] AlignmentForSize_cases(3,4) [of t]
    by (cases "16 \<le> s"; cases "16 \<le> t") auto
qed

lemma default_sizes_aligned: "\<forall>n\<in>set default_sizes. \<exists>a. AlignmentForSize n = Some a \<and> a dvd n"
proof
  fix n assume n: "n \<in> set default_sizes"
  have "list_all (\<lambda>n. n = 8 \<or> 16 \<le> n \<and> n < 128 \<and> n mod 16 = 0 \<or> 128 \<le> n \<and> n \<le> 262144 \<and>
      list_ex (\<lambda>l. 2 ^ l \<le> n \<and> n < 2 ^ Suc l \<and> n mod 2 ^ min (l - 3) 13 = 0) [7, 8, 9, 10, 11, 12, 13, 14, 15, 16, 17, 18]) default_sizes"
    by (simp add: default_sizes_def)
  then have q: "n = 8 \<or> 16 \<le> n \<and> n < 128 \<and> n mod 16 = 0 \<or> 128 \<le> n \<and> n \<le> 262144 \<and>
      list_ex (\<lambda>l. 2 ^ l \<le> n \<and> n < 2 ^ Suc l \<and> n mod 2 ^ min (l - 3) 13 = 0) [7, 8, 9, 10, 11, 12, 13, 14, 15, 16, 17, 18]"
    using n unfolding list_all_iff by (rule bspec)
  consider "n = 8" | "16 \<le> n" "n < 128" "n mod 16 = 0"
    | l where "128 \<le> n" "n \<le> 262144" "2 ^ l \<le> n" "n < 2 ^ Suc l" "n mod 2 ^ min (l - 3) 13 = 0"
    using q unfolding list_ex_iff by (elim disjE conjE bexE) simp_all
  then show "\<exists>a. AlignmentForSize n = Some a \<and> a dvd n"
  proof cases
    case 1
    then show ?thesis using AlignmentForSize_cases(4) [of n] by simp
  next
    case 2
    then show ?thesis using AlignmentForSize_cases(3) [of n] by (simp add: dvd_eq_mod_eq_0)
  next
    case (3 l)
    have "n \<le> kMaxSize" using 3(2) by (simp add: kMaxSize_def)
    from AlignmentForSize_cases(2) [OF 3(1) this] obtain k where
      k: "2 ^ k \<le> n" "n < 2 ^ Suc k" "AlignmentForSize n = Some (2 ^ min (k - 3) 13)" by blast
    have "(2::nat) ^ k < 2 ^ Suc l" "(2::nat) ^ l < 2 ^ Suc k" using k(1,2) 3(3,4) by simp_all
    then have "k = l" by (simp only: power_strict_increasing_iff less_Suc_eq_le)
    then show ?thesis using k(3) 3(5) by (auto simp: dvd_eq_mod_eq_0)
  qed
qed

lemma default_size_classes_ok:
  assumes sm: "SizeMap_Init None 0 SizeMap_zero = Some sm"
  shows "size_classes_ok sm"
proof -
  obtain A where A: "sm = Init_moves 512 (default_map\<lparr>class_array := A\<rparr>)" "classes_ok (default_map\<lparr>class_array := A\<rparr>)"
    using SizeMap_Init_default sm by auto
  have ok: "classes_ok sm" and cs: "class_to_size sm = class_to_size default_map" using A by simp_all
  have in_sizes: "class_to_size sm c \<in> set default_sizes" if "0 < c" "c < kNumClasses" for c
  proof -
    have "c - 1 < length default_sizes" using that by (simp add: default_length config_defs)
    moreover from this have "class_to_size sm c = default_sizes ! (c - 1)"
      using that by (simp add: cs default_map_def fun_upds_apply default_length config_defs)
    ultimately show ?thesis by (simp only: nth_mem)
  qed
  have "\<exists>c a. SizeClass sm s = Some c \<and> MaybeSizeClass sm s = Some c \<and> 0 < c \<and> c < kNumClasses \<and>
     s \<le> class_to_size sm c \<and> AlignmentForSize s = Some a \<and> a dvd class_to_size sm c" if s: "s \<le> kMaxSize" for s
  proof -
    obtain c where c: "SizeClass sm s = Some c" "1 \<le> c" "c < 88" "s \<le> class_to_size sm c" using SizeClass_least [OF ok s] by blast
    have ck: "0 < c" "c < kNumClasses" using c(2,3) by (simp_all add: config_defs)
    have m: "MaybeSizeClass sm s = Some c"
      using c(1) s by (auto simp: MaybeSizeClass_def SizeClass_def ClassIndex_def split: if_splits)
    obtain b where b: "AlignmentForSize (class_to_size sm c) = Some b" "b dvd class_to_size sm c"
      using default_sizes_aligned in_sizes [OF ck] by blast
    have "class_to_size sm c \<le> kMaxSize" using ok c(2,3) unfolding classes_ok_def table_ok_def by auto
    from AlignmentForSize_mono [OF c(4) this] b obtain a where "AlignmentForSize s = Some a" "a dvd b" by auto
    then show ?thesis using c(1,4) ck m dvd_trans [OF _ b(2)] by blast
  qed
  moreover have "class_to_size sm c < class_to_size sm d" if "0 < c" "c < d" "d < kNumClasses" for c d
    using ok that unfolding classes_ok_def table_ok_def by (auto simp: config_defs)
  ultimately show ?thesis unfolding size_classes_ok_def by blast
qed

section \<open>The first state\<close>

text \<open>The initial values of the static members of \<open>ThreadCache\<close>; \<open>cs\<close> is the memory of the cache objects and
  \<open>tca\<close> their allocator.\<close>

definition new_threads :: "'os central \<Rightarrow> pha \<Rightarrow> (addr \<Rightarrow> ThreadCache) \<Rightarrow> 'os threads" where
  "new_threads S tca cs = \<lparr>central = S, caches = cs, threadcache_allocator = tca, thread_heaps = 0, thread_heap_count = 0,
     next_memory_steal = 0, overall_thread_cache_size = of_nat kDefaultOverallThreadCacheSize,
     per_thread_cache_size = of_nat kMaxThreadCacheSize, unclaimed_cache_space = of_nat kDefaultOverallThreadCacheSize,
     tsd_inited = False, local_heap = (\<lambda>_. 0), min_size_for_slow_path = (\<lambda>_. 0), key_value = (\<lambda>_. 0)\<rparr>"

text \<open>\<open>flag\<close> is \<open>FLAGS_tcmalloc_large_alloc_report_threshold\<close>.\<close>

definition new_process :: "'os threads \<Rightarrow> int \<Rightarrow> 'os process" where
  "new_process T flag = \<lparr>tcs = T, large_alloc_threshold = (if int kPageSize > flag then int kPageSize else flag),
     tc_new_mode = 0, extra_bytes_released = 0\<rparr>"

text \<open>No cache, and a budget within its bounds.\<close>

definition no_caches :: "'os threads \<Rightarrow> bool" where
  "no_caches T = (thread_heaps T = 0 \<and> thread_heap_count T = 0 \<and> next_memory_steal T = 0 \<and> local_heap T = (\<lambda>_. 0) \<and>
     min_size_for_slow_path T = (\<lambda>_. 0) \<and> key_value T = (\<lambda>_. 0) \<and> kMinThreadCacheSize \<le> unat (overall_thread_cache_size T) \<and>
     unat (overall_thread_cache_size T) \<le> 2 ^ 30 \<and> unclaimed_cache_space T = overall_thread_cache_size T)"

lemma new_threads_no_caches: "no_caches (new_threads S tca cs)"
  by (simp add: no_caches_def new_threads_def kDefaultOverallThreadCacheSize_def kMaxThreadCacheSize_def kMinThreadCacheSize_def kMaxSize_def)

lemma sint_small:
  assumes "unat (w :: 64 word) \<le> 2 ^ 30"
  shows "sint w = int (unat w)"
proof -
  have b: "int (unat w) \<le> 2 ^ 30" using of_nat_mono [OF assms, where 'a = int] by (simp only: of_nat_power of_nat_numeral)
  have "signed_take_bit 63 (int (unat w)) = int (unat w)"
  proof (rule signed_take_bit_int_eq_self)
    show "- (2 ^ 63) \<le> int (unat w)" by (rule order_trans [of _ 0]) simp_all
    show "int (unat w) < 2 ^ 63" by (rule le_less_trans [OF b]) simp
  qed
  then show ?thesis unfolding sint_uint uint_nat by simp
qed

lemma no_caches_ok:
  assumes T: "no_caches T" and C: "central_ok (heap_frame E res B Fm) (central T) V L fr ch (\<lambda>_. {})"
    and n: "\<forall>c. num_objects_to_move (sizemap (central T)) c \<le> 4096" and a: "pha_inv sizeof_ThreadCache (threadcache_allocator T) {} Fm"
  shows "threads_ok E res B Fm T [] (\<lambda>_ _. []) (\<lambda>_. {})"
proof -
  have S: "supply_ok E res B Fm (central T) (\<lambda>_. {})" by (rule supply_okI) (use C n in simp_all)
  have "central_supply.caches_ok E res B Fm T [] (\<lambda>_ _. []) (\<lambda>_. {})"
    using S by (simp add: central_supply.caches_ok_def contents_apart_def)
  moreover have "ring_ok T []" using T by (simp add: ring_ok_def no_caches_def)
  moreover have "budget_ok T (set [])" using T sint_small [of "overall_thread_cache_size T"] by (simp add: budget_ok_def no_caches_def)
  moreover have "tls_ok T []" using T by (simp add: tls_ok_def no_caches_def)
  ultimately show ?thesis using a by (simp add: threads_ok_def central_supply.pool_ok_def)
qed

lemma new_threads_ok:
  assumes "central_ok (heap_frame E res B Fm) S V L fr ch (\<lambda>_. {})" "\<forall>c. num_objects_to_move (sizemap S) c \<le> 4096"
    "pha_inv sizeof_ThreadCache tca {} Fm"
  shows "threads_ok E res B Fm (new_threads S tca cs) [] (\<lambda>_ _. []) (\<lambda>_. {})"
  by (rule no_caches_ok [OF new_threads_no_caches]) (use assms in \<open>simp_all add: new_threads_def\<close>)

lemma new_process_blocks:
  assumes "central_ok (heap_frame E res Map.empty Fm) S V L fr ch (\<lambda>_. {})" "\<forall>c. num_objects_to_move (sizemap S) c \<le> 4096"
    "pha_inv sizeof_ThreadCache tca {} Fm" "size_classes_ok (sizemap S)"
  shows "threads_blocks E res (tcs (new_process (new_threads S tca cs) flag)) {}"
proof -
  have "threads_ok E res Map.empty Fm (tcs (new_process (new_threads S tca cs) flag)) [] (\<lambda>_ _. []) (\<lambda>_. {})"
    using new_threads_ok [OF assms(1-3)] by (simp add: new_process_def)
  then show ?thesis
    by (rule threads_blocksI) (use assms(4) in \<open>simp_all add: new_process_def new_threads_def blocks_def program_def\<close>)
qed

section \<open>A concrete process\<close>

definition ex_map :: SizeMap where
  "ex_map = the (SizeMap_Init None 0 SizeMap_zero)"

definition ex_start :: "nat central" where
  "ex_start = the (init_centrals ((ex_uninit empty_heap)\<lparr>sizemap := ex_map\<rparr>) 0 kNumClasses)"

definition ex_cache_mem :: "addr \<Rightarrow> ThreadCache" where
  "ex_cache_mem = (\<lambda>_. \<lparr>tc_next = 0, tc_prev = 0, tc_size = 0, tc_max_size = 0,
     tc_lists = (\<lambda>_. \<lparr>fl_list = 0, fl_length = 0, fl_lowater = 0, fl_max_length = 0, fl_overages = 0\<rparr>), tc_tid = 0, tc_in_setspecific = False\<rparr>)"

definition ex_process :: "nat process" where
  "ex_process = new_process (new_threads ex_start (ex_pha 0) ex_cache_mem) (2 ^ 62)"

lemma ex_start_ok:
  "\<exists>L. central_ok (heap_frame ex_env ex_res Map.empty {}) ex_start (\<lambda>_. None) L (\<lambda>_. []) (\<lambda>_. []) (\<lambda>_. {}) \<and> (\<forall>H\<in>cheaders. L H = [])"
  "sizemap ex_start = ex_map" "\<forall>c. num_objects_to_move ex_map c \<le> 4096" "size_classes_ok ex_map" "SizeMap_Init None 0 SizeMap_zero = Some ex_map"
  "init_centrals ((ex_uninit empty_heap)\<lparr>sizemap := ex_map\<rparr>) 0 kNumClasses = Some ex_start"
proof -
  let ?S = "(ex_uninit empty_heap)\<lparr>sizemap := ex_map\<rparr>"
  obtain sm where sm: "SizeMap_Init None 0 SizeMap_zero = Some sm" "sizemap_ok sm" "\<forall>c. num_objects_to_move sm c \<le> 4096"
    using default_sizemap_ok by auto
  then have m: "ex_map = sm" by (simp add: ex_map_def)
  have e: "inuse_view (spans empty_heap) {} = (\<lambda>_. None)" by (simp add: inuse_view_def)
  obtain S L where S: "init_centrals ?S 0 kNumClasses = Some S" "sizemap S = ex_map" "\<forall>H\<in>cheaders. L H = []"
    "central_ok (heap_frame ex_env ex_res Map.empty {}) S (\<lambda>_. None) L (\<lambda>_. []) (\<lambda>_. []) (\<lambda>_. {})"
    using init_centrals_central_ok [of ?S ex_env ex_res "{}" "{}" "\<lambda>_. []"] sm(2,3) m ex_contract ex_limit ex_res_bound empty_heap_facts(2-4)
      PageHeap_new_cached [OF empty_heap_facts(1)] e by (auto simp: ex_uninit_facts)
  then have "ex_start = S" by (simp add: ex_start_def)
  then show "\<exists>L. central_ok (heap_frame ex_env ex_res Map.empty {}) ex_start (\<lambda>_. None) L (\<lambda>_. []) (\<lambda>_. []) (\<lambda>_. {}) \<and> (\<forall>H\<in>cheaders. L H = [])"
    "sizemap ex_start = ex_map" "\<forall>c. num_objects_to_move ex_map c \<le> 4096" "size_classes_ok ex_map" "SizeMap_Init None 0 SizeMap_zero = Some ex_map"
    "init_centrals ?S 0 kNumClasses = Some ex_start" using S sm m default_size_classes_ok [OF sm(1)] by auto
qed

lemma ex_process_blocks: "threads_blocks ex_env ex_res (tcs ex_process) {}" "tc_new_mode ex_process = 0"
proof -
  obtain L where "central_ok (heap_frame ex_env ex_res Map.empty {}) ex_start (\<lambda>_. None) L (\<lambda>_. []) (\<lambda>_. []) (\<lambda>_. {})" using ex_start_ok(1) by blast
  from new_process_blocks [OF this _ ex_pha_empty] show "threads_blocks ex_env ex_res (tcs ex_process) {}"
    unfolding ex_process_def ex_start_ok(2) using ex_start_ok(3,4) by blast
  show "tc_new_mode ex_process = 0" by (simp add: ex_process_def new_process_def)
qed

text \<open>A process that holds one large block: pages 8 to 15.\<close>

lemma ex_held_process: "\<exists>P :: nat process. threads_blocks ex_env ex_res (tcs P) {(2 ^ 16, 2 ^ 16)} \<and> tc_new_mode P = 0"
proof -
  let ?d = "span_data ex_span" and ?B = "Map.empty(2 ^ 17 \<mapsto> span_data ex_span)"
  obtain L where C: "central_ok (heap_frame ex_env ex_res Map.empty {}) ex_start (\<lambda>_. None) L (\<lambda>_. []) (\<lambda>_. []) (\<lambda>_. {})"
    and L: "\<forall>H\<in>cheaders. L H = []" using ex_start_ok(1) by blast
  obtain h1 L1 where 1: "\<forall>H\<in>cheaders. L1 H = []" "heap_frame ex_env ex_res Map.empty {} h1 ((\<lambda>_. None)(2 ^ 17 \<mapsto> ?d)) L1"
    using one_heap_frame by blast
  then have R: "heap_frame ex_env ex_res Map.empty {} h1 ((\<lambda>_. None)(2 ^ 17 \<mapsto> ?d)) L" using L by (simp add: heap_frame_def heap_view_def)
  have d: "span_start ?d = 8" "span_length ?d = 8" "sizeclass ?d = 0" by (simp_all add: ex_span_def span_data_def zero_span_def)
  from frame_take [OF R _ _ d(3)] L obtain h where h: "heap_frame ex_env ex_res ?B {} h (\<lambda>_. None) L" by auto
  have C': "central_ok (heap_frame ex_env ex_res ?B {}) (ex_start\<lparr>pageheap := h\<rparr>) (\<lambda>_. None) L (\<lambda>_. []) (\<lambda>_. []) (\<lambda>_. {})"
    by (rule central_ok_heap [where rep' = "heap_frame ex_env ex_res ?B {}", OF C h])
  let ?T = "new_threads (ex_start\<lparr>pageheap := h\<rparr>) (ex_pha 0) ex_cache_mem"
  have J: "threads_ok ex_env ex_res ?B {} ?T [] (\<lambda>_ _. []) (\<lambda>_. {})" by (rule new_threads_ok [OF C' _ ex_pha_empty]) (simp add: ex_start_ok(2,3))
  have s: "sizemap (central ?T) = ex_map" by (simp add: new_threads_def ex_start_ok(2))
  have "threads_blocks ex_env ex_res ?T {(2 ^ 16, 2 ^ 16)}"
    by (rule threads_blocksI [OF J]) (simp_all add: s ex_start_ok(4) blocks_def program_def d kPageShift_def)
  then show ?thesis by (intro exI [of _ "new_process ?T 0"]) (simp add: new_process_def)
qed

end
