(* ===== verification/Malloc_Run.thy ===== *)
theory Malloc_Run
  imports Malloc_Realloc Malloc_Align Malloc_Start
begin

text \<open>
  The allocator as a state machine, and the abstract allocator that it implements. Threads call the entry
  points in any order, interleaved with writes of the program to the blocks it holds. \<open>alloc_spec\<close> says what an
  allocator may do: its state is the set of the blocks and the memory, and it knows no caches, spans or lists.
\<close>

section \<open>The abstract allocator\<close>

text \<open>A call with its arguments and its result.\<close>

datatype event =
    Alloc nat nat addr
  | AllocZero nat nat addr
  | Resize addr nat addr
  | Release addr
  | Store addr nat
  | Internal

definition unchanged :: "(addr \<times> nat) set \<Rightarrow> mem \<Rightarrow> mem \<Rightarrow> bool" where
  "unchanged Bs m m' = (\<forall>y\<in>block_bytes Bs. m' y = m y)"

inductive alloc_spec :: "event \<Rightarrow> (addr \<times> nat) set \<times> mem \<Rightarrow> (addr \<times> nat) set \<times> mem \<Rightarrow> bool" where
  spec_alloc: "unchanged Bs m m' \<Longrightarrow> p \<noteq> 0 \<Longrightarrow> al dvd p \<Longrightarrow> sz \<le> n \<Longrightarrow> 0 < n \<Longrightarrow> extent p n \<inter> block_bytes Bs = {} \<Longrightarrow>
    alloc_spec (Alloc sz al p) (Bs, m) (insert (p, n) Bs, m')"
| spec_alloc_none: "unchanged Bs m m' \<Longrightarrow> alloc_spec (Alloc sz al 0) (Bs, m) (Bs, m')"
| spec_zero: "unchanged Bs m m' \<Longrightarrow> p \<noteq> 0 \<Longrightarrow> 8 dvd p \<Longrightarrow> k * e < 2 ^ 64 \<Longrightarrow> k * e \<le> n \<Longrightarrow> 0 < n \<Longrightarrow> zeroed m' p (k * e) \<Longrightarrow>
    extent p n \<inter> block_bytes Bs = {} \<Longrightarrow> alloc_spec (AllocZero k e p) (Bs, m) (insert (p, n) Bs, m')"
| spec_zero_none: "unchanged Bs m m' \<Longrightarrow> alloc_spec (AllocZero k e 0) (Bs, m) (Bs, m')"
| spec_resize: "(p, k) \<in> Bs \<Longrightarrow> unchanged (Bs - {(p, k)}) m m' \<Longrightarrow> copied m p m' q (min k sz) \<Longrightarrow> q \<noteq> 0 \<Longrightarrow> sz \<le> n \<Longrightarrow> 0 < n \<Longrightarrow>
    extent q n \<inter> block_bytes (Bs - {(p, k)}) = {} \<Longrightarrow> alloc_spec (Resize p sz q) (Bs, m) (insert (q, n) (Bs - {(p, k)}), m')"
| spec_resize_none: "unchanged Bs m m' \<Longrightarrow> alloc_spec (Resize p sz 0) (Bs, m) (Bs, m')"
| spec_release: "(p, n) \<in> Bs \<Longrightarrow> unchanged (Bs - {(p, n)}) m m' \<Longrightarrow> alloc_spec (Release p) (Bs, m) (Bs - {(p, n)}, m')"
| spec_store: "y \<in> block_bytes Bs \<Longrightarrow> alloc_spec (Store y v) (Bs, m) (Bs, m(y := v))"
| spec_internal: "unchanged Bs m m' \<Longrightarrow> alloc_spec Internal (Bs, m) (Bs, m')"

section \<open>The allocator\<close>

text \<open>Next to the process there is the set of the blocks that the program holds, with the sizes that
  \<open>GetSizeWithCallback\<close> gives.\<close>

definition usable_size :: "'os process \<Rightarrow> addr \<Rightarrow> nat" where
  "usable_size P p = (case GetSizeWithCallback p None (tcs P) of Some (n, _) \<Rightarrow> n | None \<Rightarrow> 0)"

definition add_block :: "'os process \<Rightarrow> addr \<Rightarrow> (addr \<times> nat) set \<Rightarrow> (addr \<times> nat) set" where
  "add_block P p Bs = (if p = 0 then Bs else insert (p, usable_size P p) Bs)"

definition with_threads :: "'os process \<Rightarrow> 'os threads \<Rightarrow> 'os process" where
  "with_threads P T = P\<lparr>tcs := T\<rparr>"

text \<open>A sized \<open>free\<close> gets the size that the block was asked for: one of the same class.\<close>

inductive process_step :: "'os heap_env \<Rightarrow> ('os process \<Rightarrow> 'os process handler) \<Rightarrow> event \<Rightarrow>
    'os process \<times> (addr \<times> nat) set \<Rightarrow> 'os process \<times> (addr \<times> nat) set \<Rightarrow> bool" for E nh where
  step_malloc: "AlignmentForSize sz = Some al \<Longrightarrow> do_malloc_or_cpp_alloc E nh me sz P = Some (Ret (Pointer p, P')) \<Longrightarrow>
    process_step E nh (Alloc sz al p) (P, Bs) (P', add_block P' p Bs)"
| step_memalign: "do_memalign_or_cpp_memalign E nh me (2 ^ j) sz P = Some (Ret (Pointer p, P')) \<Longrightarrow>
    process_step E nh (Alloc sz (2 ^ j) p) (P, Bs) (P', add_block P' p Bs)"
| step_calloc: "do_calloc E nh me n e P = Some (Ret (Pointer p, P')) \<Longrightarrow>
    process_step E nh (AllocZero n e p) (P, Bs) (P', add_block P' p Bs)"
| step_realloc: "(p, n) \<in> Bs \<Longrightarrow> 0 < sz \<Longrightarrow> tc_realloc E nh me p sz P = Some (Ret (Pointer q, P')) \<Longrightarrow>
    process_step E nh (Resize p sz q) (P, Bs) (P', if q = 0 then Bs else add_block P' q (Bs - {(p, n)}))"
| step_realloc_free: "(p, n) \<in> Bs \<Longrightarrow> tc_realloc E nh me p 0 P = Some (Ret (r, P')) \<Longrightarrow>
    process_step E nh (Release p) (P, Bs) (P', Bs - {(p, n)})"
| step_free: "(p, n) \<in> Bs \<Longrightarrow> tc_free E me p P = Some P' \<Longrightarrow> process_step E nh (Release p) (P, Bs) (P', Bs - {(p, n)})"
| step_free_sized: "(p, n) \<in> Bs \<Longrightarrow> (\<And>k. MaybeSizeClass (sizemap (central (tcs P))) sz = Some k \<Longrightarrow> class_to_size (sizemap (central (tcs P))) k = n) \<Longrightarrow>
    tc_free_sized E me p sz P = Some P' \<Longrightarrow> process_step E nh (Release p) (P, Bs) (P', Bs - {(p, n)})"
| step_store: "y \<in> block_bytes Bs \<Longrightarrow>
    process_step E nh (Store y v) (P, Bs) (with_threads P (set_mem ((object_mem (central (tcs P)))(y := v)) (tcs P)), Bs)"
| step_free_null: "tc_free E me 0 P = Some P' \<Longrightarrow> process_step E nh Internal (P, Bs) (P', Bs)"
| step_size: "GetSizeWithCallback p f (tcs P) = Some (n, T) \<Longrightarrow> (p, k) \<in> Bs \<Longrightarrow> process_step E nh Internal (P, Bs) (with_threads P T, Bs)"
| step_init_tsd: "InitTSD (tcs P) = Some T \<Longrightarrow> process_step E nh Internal (P, Bs) (with_threads P T, Bs)"
| step_idle: "BecomeIdle E me (tcs P) = Some T \<Longrightarrow> process_step E nh Internal (P, Bs) (with_threads P T, Bs)"
| step_temporarily_idle: "BecomeTemporarilyIdle E me (tcs P) = Some T \<Longrightarrow> process_step E nh Internal (P, Bs) (with_threads P T, Bs)"
| step_exit: "on_process_term E me (tcs P) = Some T \<Longrightarrow> process_step E nh Internal (P, Bs) (with_threads P T, Bs)"
| step_busy: "MarkThreadBusy E me P = Some (Ret P') \<Longrightarrow> process_step E nh Internal (P, Bs) (P', Bs)"
| step_release: "ReleaseToSystem E n P = Some P' \<Longrightarrow> process_step E nh Internal (P, Bs) (P', Bs)"

definition process_ok :: "'os heap_env \<Rightarrow> ('os \<Rightarrow> nat set) \<Rightarrow> 'os process \<times> (addr \<times> nat) set \<Rightarrow> bool" where
  "process_ok E res s = (threads_blocks E res (tcs (fst s)) (snd s) \<and> tc_new_mode (fst s) = 0)"

definition abstract :: "'os process \<times> (addr \<times> nat) set \<Rightarrow> (addr \<times> nat) set \<times> mem" where
  "abstract s = (snd s, object_mem (central (tcs (fst s))))"

lemma same_unchanged: "same_bytes Bs T T' \<Longrightarrow> unchanged Bs (object_mem (central T)) (object_mem (central T'))"
  by (simp add: same_bytes_def unchanged_def)

lemma usable_size_ok: "threads_blocks E res (tcs P) Bs \<Longrightarrow> (p, n) \<in> Bs \<Longrightarrow> usable_size P p = n"
  using GetSize_ok [of E res "tcs P" Bs p n None] by (auto simp: usable_size_def)

section \<open>Memory goes back to the system\<close>

lemma frame_Release:
  assumes R: "heap_frame E res B Fm h V L"
  shows "\<exists>r h'. ReleaseAtLeastNPages E h n = Some (r, h') \<and> heap_frame E res B Fm h' V L"
proof -
  note F = heap_frameD [OF R]
  obtain U L' where O: "os_contract (os_calls E) res" "heap_inv res Fm cheaders h U L' {}" "imbalance h U = 0"
    "V ++ B = inuse_view (spans h) U" "\<And>H. H \<in> cheaders \<Longrightarrow> L H = L' H" using F(1) unfolding heap_view_def by blast
  obtain r h' U1 L1 where r: "ReleaseAtLeastNPages E h n = Some (r, h')" "heap_inv res Fm cheaders h' U1 L1 {}" "imbalance h' U1 = 0"
    "keeps h U L' h' U1 L1" using ReleaseAtLeastNPages_spec [OF O(1-3)] by blast
  have k: "inuse_view (spans h') U1 = V ++ B" "\<And>H. H \<in> cheaders \<Longrightarrow> L H = L1 H"
    using r(4) O(4,5) cheaders_not_headers by (auto simp: keeps_def)
  have "heap_view E res Fm h' (V ++ B) L" by (rule heap_viewI [OF F(1) r(2,3)]) (use k in simp_all)
  then show ?thesis using r(1) F(2,3) cache_right_same [OF F(4) ReleaseAtLeastNPages_cache [OF r(1)]] by (auto simp: heap_frame_def)
qed

lemma ReleaseToSystem_ok:
  assumes I: "threads_blocks E res (tcs P) Bs"
  shows "\<exists>P'. ReleaseToSystem E n P = Some P' \<and> threads_blocks E res (tcs P') Bs \<and> same_bytes Bs (tcs P) (tcs P') \<and> tc_new_mode P' = tc_new_mode P"
proof (cases "n \<le> extra_bytes_released P")
  case True
  then show ?thesis using I by (simp add: ReleaseToSystem_def)
next
  case False
  obtain B Fm HS fl Out where J: "threads_ok E res B Fm (tcs P) HS fl Out" and sm: "size_classes_ok (sizemap (central (tcs P)))"
    and Bs: "Bs = blocks (sizemap (central (tcs P))) B (program Out HS fl)" using I by (rule threads_blocksE)
  obtain V L fr ch where C: "central_ok (heap_frame E res B Fm) (central (tcs P)) V L fr ch Out"
    and H: "\<And>h B'. heap_frame E res B' Fm h V L \<Longrightarrow> threads_ok E res B' Fm (set_heap h (tcs P)) HS fl Out" using threads_ok_heap [OF J] by blast
  let ?n = "max ((n - extra_bytes_released P) div 2 ^ kPageShift) 1"
  obtain r h' where r: "ReleaseAtLeastNPages E (heap_of (tcs P)) ?n = Some (r, h')" "heap_frame E res B Fm h' V L"
    using frame_Release [OF central_okD(2) [OF C], of ?n] by blast
  have "threads_blocks E res (set_heap h' (tcs P)) Bs" by (rule threads_blocksI [OF H [OF r(2)]]) (use sm Bs in simp_all)
  then show ?thesis using r(1) False by (simp add: ReleaseToSystem_def Let_def)
qed

section \<open>Idle threads\<close>

lemma moved_to_blocks:
  assumes "threads_blocks E res T Bs"
    and "\<And>B Fm HS fl Out. threads_ok E res B Fm T HS fl Out \<Longrightarrow>
      \<exists>T' Fm' HS' fl' Out'. f T = Some T' \<and> threads_ok E res B Fm' T' HS' fl' Out' \<and> moved_to (owned_bytes B) T (program Out HS fl) T' HS' fl' Out'"
  shows "\<exists>T'. f T = Some T' \<and> threads_blocks E res T' Bs \<and> same_bytes Bs T T'"
proof -
  obtain B Fm HS fl Out where J: "threads_ok E res B Fm T HS fl Out" and sm: "size_classes_ok (sizemap (central T))"
    and Bs: "Bs = blocks (sizemap (central T)) B (program Out HS fl)" using assms(1) by (rule threads_blocksE)
  obtain T' Fm' HS' fl' Out' where 1: "f T = Some T'" "threads_ok E res B Fm' T' HS' fl' Out'"
    "moved_to (owned_bytes B) T (program Out HS fl) T' HS' fl' Out'" using assms(2) [OF J] by blast
  have m: "program Out' HS' fl' = program Out HS fl" "sizemap (central T') = sizemap (central T)"
    "\<forall>y\<in>outs (sizemap (central T)) (owned_bytes B) (program Out HS fl). object_mem (central T') y = object_mem (central T) y"
    using 1(3) by (simp_all add: moved_to_def)
  have "threads_blocks E res T' Bs" by (rule threads_blocksI [OF 1(2)]) (use sm Bs m in simp_all)
  moreover have "same_bytes Bs T T'" unfolding Bs by (rule same_bytes_outs [OF m(3,2)])
  ultimately show ?thesis using 1(1) by blast
qed

lemma idle_ok:
  assumes I: "threads_blocks E res T Bs"
  shows "\<exists>T'. BecomeIdle E me T = Some T' \<and> threads_blocks E res T' Bs \<and> same_bytes Bs T T'"
    "\<exists>T'. BecomeTemporarilyIdle E me T = Some T' \<and> threads_blocks E res T' Bs \<and> same_bytes Bs T T'"
    "\<exists>T'. on_process_term E me T = Some T' \<and> threads_blocks E res T' Bs \<and> same_bytes Bs T T'"
  using moved_to_blocks [where f = "BecomeIdle E me", OF I] BecomeIdle_ok
    moved_to_blocks [where f = "BecomeTemporarilyIdle E me", OF I] BecomeTemporarilyIdle_ok
    moved_to_blocks [where f = "on_process_term E me", OF I] on_process_term_ok by metis+

lemma InitTSD_blocks:
  assumes I: "threads_blocks E res T Bs" and T': "InitTSD T = Some T'"
  shows "threads_blocks E res T' Bs \<and> same_bytes Bs T T'"
proof -
  obtain B Fm HS fl Out where J: "threads_ok E res B Fm T HS fl Out" and sm: "size_classes_ok (sizemap (central T))"
    and Bs: "Bs = blocks (sizemap (central T)) B (program Out HS fl)" using I by (rule threads_blocksE)
  have n: "\<not> tsd_inited T" "T' = T\<lparr>tsd_inited := True\<rparr>" using T' by (auto simp: InitTSD_def split: if_splits)
  have "threads_blocks E res T' Bs" unfolding n(2)
    by (rule threads_blocksI [OF InitTSD_ok(2) [OF J n(1)]]) (use sm Bs in simp_all)
  then show ?thesis by (simp add: n(2) same_bytes_def)
qed

end
