(* ===== verification/Malloc_Properties.thy ===== *)
theory Malloc_Properties
  imports Malloc_Run
begin

text \<open>
  The properties of the entry points: every run of the allocator is a run of the abstract allocator, no
  legal call makes it crash, blocks never overlap, and the results of the error paths.
\<close>

section \<open>Every step is one of the abstract allocator\<close>

lemma allotted_step:
  assumes A: "allotted E res (tcs P) Bs sz al p (tcs P')"
  shows "threads_blocks E res (tcs P') (add_block P' p Bs)"
    "alloc_spec (Alloc sz al p) (abstract (P, Bs)) (abstract (P', add_block P' p Bs))"
    "p \<noteq> 0 \<Longrightarrow> sz \<le> usable_size P' p \<and> 0 < usable_size P' p \<and> extent p (usable_size P' p) \<inter> block_bytes Bs = {}"
    "unchanged Bs (object_mem (central (tcs P))) (object_mem (central (tcs P')))"
proof -
  show u: "unchanged Bs (object_mem (central (tcs P))) (object_mem (central (tcs P')))"
    using A same_unchanged by (auto simp: allotted_def)
  have n: "threads_blocks E res (tcs P') (insert (p, usable_size P' p) Bs) \<and> sz \<le> usable_size P' p \<and> 0 < usable_size P' p \<and>
      extent p (usable_size P' p) \<inter> block_bytes Bs = {}" if "p \<noteq> 0"
  proof -
    have "\<exists>n\<ge>sz. 0 < n \<and> threads_blocks E res (tcs P') (insert (p, n) Bs) \<and> extent p n \<inter> block_bytes Bs = {}"
      using A that by (simp add: allotted_def)
    then obtain n where n: "sz \<le> n" "0 < n" "threads_blocks E res (tcs P') (insert (p, n) Bs)" "extent p n \<inter> block_bytes Bs = {}" by blast
    then show ?thesis using usable_size_ok [OF n(3), of p n] by simp
  qed
  show "threads_blocks E res (tcs P') (add_block P' p Bs)" using n A by (auto simp: add_block_def allotted_def)
  show "p \<noteq> 0 \<Longrightarrow> sz \<le> usable_size P' p \<and> 0 < usable_size P' p \<and> extent p (usable_size P' p) \<inter> block_bytes Bs = {}" using n by blast
  show "alloc_spec (Alloc sz al p) (abstract (P, Bs)) (abstract (P', add_block P' p Bs))"
  proof (cases "p = 0")
    case True
    then show ?thesis using u by (simp add: abstract_def add_block_def spec_alloc_none)
  next
    case False
    have "al dvd p" using A by (simp add: allotted_def)
    then show ?thesis using spec_alloc [OF u False _ _ _ , of al sz "usable_size P' p"] n [OF False] False
      by (simp add: abstract_def add_block_def)
  qed
qed

lemma process_okI: "threads_blocks E res (tcs P) Bs \<Longrightarrow> tc_new_mode P = 0 \<Longrightarrow> process_ok E res (P, Bs)"
  by (simp add: process_ok_def)

lemma process_okD:
  "process_ok E res (P, Bs) \<Longrightarrow> threads_blocks E res (tcs P) Bs" "process_ok E res (P, Bs) \<Longrightarrow> tc_new_mode P = 0"
  by (simp_all add: process_ok_def)

text \<open>A step that does something inside the allocator only, and one that gives a block back.\<close>

lemma internal_step:
  assumes "threads_blocks E res T' Bs" "same_bytes Bs (tcs P) T'" "tcs P' = T'" "tc_new_mode P' = 0"
  shows "alloc_spec Internal (abstract (P, Bs)) (abstract (P', Bs)) \<and> process_ok E res (P', Bs)"
  using assms same_unchanged by (auto simp: abstract_def process_ok_def intro!: spec_internal)

lemma release_step:
  assumes "(p, n) \<in> Bs" "threads_blocks E res T' (Bs - {(p, n)})" "same_bytes (Bs - {(p, n)}) (tcs P) T'" "tcs P' = T'" "tc_new_mode P' = 0"
  shows "alloc_spec (Release p) (abstract (P, Bs)) (abstract (P', Bs - {(p, n)})) \<and> process_ok E res (P', Bs - {(p, n)})"
  using assms same_unchanged by (auto simp: abstract_def process_ok_def intro!: spec_release)

lemma tc_free_ok:
  assumes I: "process_ok E res (P, Bs)" and b: "(p, n) \<in> Bs"
  shows "\<exists>T'. tc_free E me p P = Some (P\<lparr>tcs := T'\<rparr>) \<and> threads_blocks E res T' (Bs - {(p, n)}) \<and> same_bytes (Bs - {(p, n)}) (tcs P) T'"
  using free_ok [OF process_okD(1) [OF I] b, of False 0 me InvalidFree] by (auto simp: tc_free_def do_free_def)

lemma tc_free_null: "process_ok E res (P, Bs) \<Longrightarrow> tc_free E me 0 P = Some P"
  using free_null_ok [OF process_okD(1), of E res P Bs me] by (simp add: tc_free_def)

lemma page_aligned_and: "p AND (kPageSize - 1) = 0 \<longleftrightarrow> kPageSize dvd p"
  using and_pred_pow2(1) [of p 13] by (simp add: kPageSize_def kPageShift_def dvd_eq_mod_eq_0)

lemma tc_free_sized_ok:
  assumes I: "process_ok E res (P, Bs)" and b: "(p, n) \<in> Bs"
    and sz: "\<And>k. MaybeSizeClass (sizemap (central (tcs P))) sz = Some k \<Longrightarrow> class_to_size (sizemap (central (tcs P))) k = n"
  shows "\<exists>T'. tc_free_sized E me p sz P = Some (P\<lparr>tcs := T'\<rparr>) \<and> threads_blocks E res T' (Bs - {(p, n)}) \<and> same_bytes (Bs - {(p, n)}) (tcs P) T'"
proof (cases "kPageSize dvd p")
  case True
  then have "tc_free_sized E me p sz P = tc_free E me p P" unfolding tc_free_sized_def page_aligned_and by simp
  then show ?thesis using tc_free_ok [OF I b, of me] by simp
next
  case False
  then show ?thesis using free_ok [OF process_okD(1) [OF I] b, of True sz me InvalidFree] sz
    unfolding tc_free_sized_def page_aligned_and by auto
qed

lemma tc_realloc_null: "tc_realloc E nh me 0 sz P = do_malloc_or_cpp_alloc E nh me sz P"
  by (simp add: tc_realloc_def)

lemma tc_realloc_zero_ok:
  assumes I: "process_ok E res (P, Bs)" and b: "(p, n) \<in> Bs"
  shows "\<exists>T'. tc_realloc E nh me p 0 P = Some (Ret (Pointer 0, P\<lparr>tcs := T'\<rparr>)) \<and> threads_blocks E res T' (Bs - {(p, n)}) \<and>
    same_bytes (Bs - {(p, n)}) (tcs P) T'"
  using tc_free_ok [OF I b, of me] threads_blocks_apart(2) [OF process_okD(1) [OF I] b] by (auto simp: tc_realloc_def)

lemma tc_realloc_ok:
  assumes I: "process_ok E res (P, Bs)" and b: "(p, n) \<in> Bs" and sz: "0 < sz"
  shows "\<exists>r. tc_realloc E nh me p sz P = Some r \<and> (\<forall>x P'. r = Ret (x, P') \<longrightarrow>
    (\<exists>q. x = Pointer q \<and> reallotted E res (tcs P) Bs p n sz q (tcs P')) \<and> tc_new_mode P' = 0)"
  using do_realloc_ok [OF process_okD [OF I] b] threads_blocks_apart(2) [OF process_okD(1) [OF I] b] sz by (simp add: tc_realloc_def)

lemma realloc_step:
  assumes R: "reallotted E res (tcs P) Bs p n sz q (tcs P')" and b: "(p, n) \<in> Bs" and m: "tc_new_mode P' = 0"
  shows "let Bs' = if q = 0 then Bs else add_block P' q (Bs - {(p, n)}) in
    alloc_spec (Resize p sz q) (abstract (P, Bs)) (abstract (P', Bs')) \<and> process_ok E res (P', Bs')"
proof (cases "q = 0")
  case True
  then show ?thesis using R m same_unchanged by (auto simp: reallotted_def abstract_def process_ok_def intro!: spec_resize_none)
next
  case False
  let ?B = "Bs - {(p, n)}"
  obtain k where k: "sz \<le> k" "0 < k" "threads_blocks E res (tcs P') (insert (q, k) ?B)" "extent q k \<inter> block_bytes ?B = {}"
    and c: "unchanged ?B (object_mem (central (tcs P))) (object_mem (central (tcs P')))"
      "copied (object_mem (central (tcs P))) p (object_mem (central (tcs P'))) q (min n sz)"
    using R False same_unchanged by (auto simp: reallotted_def Let_def)
  have u: "usable_size P' q = k" by (rule usable_size_ok [OF k(3)]) simp
  show ?thesis using spec_resize [OF b c False k(1,2,4)] k(3) m False by (simp add: abstract_def process_ok_def add_block_def u)
qed

lemma MarkThreadBusy_ok:
  assumes I: "process_ok E res (P, Bs)"
  shows "\<exists>r. MarkThreadBusy E me P = Some r \<and>
    (\<forall>P'. r = Ret P' \<longrightarrow> threads_blocks E res (tcs P') Bs \<and> same_bytes Bs (tcs P) (tcs P') \<and> tc_new_mode P' = 0)"
proof -
  have a: "AlignmentForSize 0 = Some 8" by (rule AlignmentForSize_cases(4)) simp
  obtain r where r: "do_malloc E me 0 P = Some r" "\<And>p P'. r = Ret (p, P') \<Longrightarrow> allotted E res (tcs P) Bs 0 8 p (tcs P') \<and> tc_new_mode P' = 0"
    using do_malloc_ok [OF process_okD(1) [OF I] a, of me] process_okD(2) [OF I] by auto
  show ?thesis
  proof (cases r)
    case OutOfMemory
    then show ?thesis using r(1) by (simp add: MarkThreadBusy_def)
  next
    case (Ret x)
    obtain p P1 where x: "x = (p, P1)" by (cases x)
    have A: "allotted E res (tcs P) Bs 0 8 p (tcs P1)" "tc_new_mode P1 = 0" using r(2) Ret x by blast+
    show ?thesis
    proof (cases "p = 0")
      case True
      then have "threads_blocks E res (tcs P1) Bs" "same_bytes Bs (tcs P) (tcs P1)" using A(1) by (simp_all add: allotted_def)
      then show ?thesis using r(1) Ret x True A(2) tc_free_null [OF process_okI, of E res P1 Bs me] by (simp add: MarkThreadBusy_def)
    next
      case False
      obtain n where n: "0 < n" "threads_blocks E res (tcs P1) (insert (p, n) Bs)" "extent p n \<inter> block_bytes Bs = {}" "same_bytes Bs (tcs P) (tcs P1)"
        using A(1) False by (auto simp: allotted_def)
      have d: "insert (p, n) Bs - {(p, n)} = Bs" by (rule block_removed [OF n(1,3)])
      obtain T' where "tc_free E me p P1 = Some (P1\<lparr>tcs := T'\<rparr>)" "threads_blocks E res T' Bs" "same_bytes Bs (tcs P1) T'"
        using tc_free_ok [OF process_okI [OF n(2) A(2)], of p n me] unfolding d by auto
      then show ?thesis using r(1) Ret x A(2) same_bytes_trans [OF n(4)] by (simp add: MarkThreadBusy_def)
    qed
  qed
qed

lemma malloc_step_ok:
  assumes "process_ok E res (P, Bs)" "AlignmentForSize sz = Some al" "do_malloc_or_cpp_alloc E nh me sz P = Some (Ret (Pointer p, P'))"
  shows "alloc_spec (Alloc sz al p) (abstract (P, Bs)) (abstract (P', add_block P' p Bs)) \<and> process_ok E res (P', add_block P' p Bs)"
  using malloc_ok [OF process_okD [OF assms(1)] assms(2), of nh me] assms(3)
  by (auto simp: process_ok_def dest: allotted_step(1,2))

lemma memalign_step_ok:
  assumes "process_ok E res (P, Bs)" "do_memalign_or_cpp_memalign E nh me (2 ^ j) sz P = Some (Ret (Pointer p, P'))"
  shows "alloc_spec (Alloc sz (2 ^ j) p) (abstract (P, Bs)) (abstract (P', add_block P' p Bs)) \<and> process_ok E res (P', add_block P' p Bs)"
  using memalign_ok [OF process_okD [OF assms(1)] refl, of nh me j sz] assms(2)
  by (auto simp: process_ok_def dest: allotted_step(1,2))

lemma calloc_step_ok:
  assumes I: "process_ok E res (P, Bs)" and r: "do_calloc E nh me n e P = Some (Ret (Pointer p, P'))"
  shows "alloc_spec (AllocZero n e p) (abstract (P, Bs)) (abstract (P', add_block P' p Bs)) \<and> process_ok E res (P', add_block P' p Bs)"
proof -
  have A: "allotted E res (tcs P) Bs (n * e) 8 p (tcs P')" "p \<noteq> 0 \<longrightarrow> n * e < 2 ^ 64 \<and> zeroed (object_mem (central (tcs P'))) p (n * e)"
    "tc_new_mode P' = 0" using do_calloc_ok [OF process_okD [OF I], of nh me n e] r by auto
  have d: "8 dvd p" using A(1) by (simp add: allotted_def)
  have "alloc_spec (AllocZero n e p) (abstract (P, Bs)) (abstract (P', add_block P' p Bs))"
  proof (cases "p = 0")
    case True
    then show ?thesis using allotted_step(4) [OF A(1)] by (simp add: abstract_def add_block_def spec_zero_none)
  next
    case False
    then show ?thesis using spec_zero [OF allotted_step(4) [OF A(1)] False d] allotted_step(3) [OF A(1) False] A(2)
      by (simp add: abstract_def add_block_def)
  qed
  then show ?thesis using allotted_step(1) [OF A(1)] process_okI A(3) by blast
qed

lemma store_step_ok:
  assumes I: "process_ok E res (P, Bs)" and y: "y \<in> block_bytes Bs" and T: "T = set_mem ((object_mem (central (tcs P)))(y := v)) (tcs P)"
  shows "alloc_spec (Store y v) (abstract (P, Bs)) (abstract (with_threads P T, Bs)) \<and> process_ok E res (with_threads P T, Bs)"
proof -
  have "threads_blocks E res T Bs" unfolding T by (rule threads_blocks_write [OF process_okD(1) [OF I]]) (use y in auto)
  then show ?thesis using y process_okD(2) [OF I] by (simp add: abstract_def process_ok_def with_threads_def T spec_store)
qed

lemma process_step_ok:
  assumes "process_step E nh e s s'" "process_ok E res s"
  shows "alloc_spec e (abstract s) (abstract s') \<and> process_ok E res s'"
  using assms
proof (induction rule: process_step.induct)
  case (step_malloc sz al me P p P' Bs)
  then show ?case by (intro malloc_step_ok)
next
  case (step_memalign me j sz P p P' Bs)
  then show ?case by (intro memalign_step_ok)
next
  case (step_calloc me n e P p P' Bs)
  then show ?case by (intro calloc_step_ok)
next
  case (step_realloc p n Bs sz me P q P')
  then have "reallotted E res (tcs P) Bs p n sz q (tcs P')" "tc_new_mode P' = 0" using tc_realloc_ok [OF step_realloc(4,1,2), of nh me] by auto
  from realloc_step [OF this(1) step_realloc(1) this(2)] show ?case unfolding Let_def .
next
  case (step_realloc_free p n Bs me P r P')
  obtain T' where T: "P' = P\<lparr>tcs := T'\<rparr>" "threads_blocks E res T' (Bs - {(p, n)})" "same_bytes (Bs - {(p, n)}) (tcs P) T'"
    using tc_realloc_zero_ok [OF step_realloc_free(3,1), of nh me] step_realloc_free(2) by auto
  from release_step [OF step_realloc_free(1) T(2,3), of P'] T(1) process_okD(2) [OF step_realloc_free(3)] show ?case by simp
next
  case (step_free p n Bs me P P')
  obtain T' where T: "P' = P\<lparr>tcs := T'\<rparr>" "threads_blocks E res T' (Bs - {(p, n)})" "same_bytes (Bs - {(p, n)}) (tcs P) T'"
    using tc_free_ok [OF step_free(3,1), of me] step_free(2) by auto
  from release_step [OF step_free(1) T(2,3), of P'] T(1) process_okD(2) [OF step_free(3)] show ?case by simp
next
  case (step_free_sized p n Bs P sz me P')
  obtain T' where T: "P' = P\<lparr>tcs := T'\<rparr>" "threads_blocks E res T' (Bs - {(p, n)})" "same_bytes (Bs - {(p, n)}) (tcs P) T'"
    using tc_free_sized_ok [OF step_free_sized(4,1,2), of sz me] step_free_sized(3) by auto
  from release_step [OF step_free_sized(1) T(2,3), of P'] T(1) process_okD(2) [OF step_free_sized(4)] show ?case by simp
next
  case (step_store y Bs v P)
  then show ?case by (intro store_step_ok [OF _ _ refl])
next
  case (step_free_null me P P' Bs)
  then have "P' = P" using tc_free_null [OF step_free_null(2), of me] by simp
  then show ?case using internal_step [OF process_okD(1) [OF step_free_null(2)] same_bytes_refl refl process_okD(2) [OF step_free_null(2)]] by simp
next
  case (step_size p f P n T k Bs)
  then have "threads_blocks E res T Bs" "same_bytes Bs (tcs P) T" using GetSize_ok [OF process_okD(1) [OF step_size(3)] step_size(2), of f] by auto
  then show ?case using process_okD(2) [OF step_size(3)] by (intro internal_step) (simp_all add: with_threads_def)
next
  case (step_init_tsd P T Bs)
  then have "threads_blocks E res T Bs" "same_bytes Bs (tcs P) T" using InitTSD_blocks [OF process_okD(1) [OF step_init_tsd(2)] step_init_tsd(1)] by auto
  then show ?case using process_okD(2) [OF step_init_tsd(2)] by (intro internal_step) (simp_all add: with_threads_def)
next
  case (step_idle me P T Bs)
  then have "threads_blocks E res T Bs" "same_bytes Bs (tcs P) T" using idle_ok(1) [OF process_okD(1) [OF step_idle(2)], of me] by auto
  then show ?case using process_okD(2) [OF step_idle(2)] by (intro internal_step) (simp_all add: with_threads_def)
next
  case (step_temporarily_idle me P T Bs)
  then have "threads_blocks E res T Bs" "same_bytes Bs (tcs P) T" using idle_ok(2) [OF process_okD(1) [OF step_temporarily_idle(2)], of me] by auto
  then show ?case using process_okD(2) [OF step_temporarily_idle(2)] by (intro internal_step) (simp_all add: with_threads_def)
next
  case (step_exit me P T Bs)
  then have "threads_blocks E res T Bs" "same_bytes Bs (tcs P) T" using idle_ok(3) [OF process_okD(1) [OF step_exit(2)], of me] by auto
  then show ?case using process_okD(2) [OF step_exit(2)] by (intro internal_step) (simp_all add: with_threads_def)
next
  case (step_busy me P P' Bs)
  then have "threads_blocks E res (tcs P') Bs" "same_bytes Bs (tcs P) (tcs P')" "tc_new_mode P' = 0" using MarkThreadBusy_ok [OF step_busy(2), of me] by auto
  then show ?case by (intro internal_step) simp_all
next
  case (step_release n P P' Bs)
  then have "threads_blocks E res (tcs P') Bs" "same_bytes Bs (tcs P) (tcs P')" "tc_new_mode P' = 0"
    using ReleaseToSystem_ok [OF process_okD(1) [OF step_release(2)], of n] process_okD(2) [OF step_release(2)] by auto
  then show ?case by (intro internal_step) simp_all
qed

section \<open>Runs\<close>

text \<open>Sequences of steps, with the calls and the results that the program sees.\<close>

inductive process_run :: "'os heap_env \<Rightarrow> ('os process \<Rightarrow> 'os process handler) \<Rightarrow> 'os process \<times> (addr \<times> nat) set \<Rightarrow> event list \<Rightarrow>
    'os process \<times> (addr \<times> nat) set \<Rightarrow> bool" for E nh where
  run_start: "process_run E nh s [] s"
| run_step: "process_run E nh s es s1 \<Longrightarrow> process_step E nh e s1 s2 \<Longrightarrow> process_run E nh s (es @ [e]) s2"

inductive spec_run :: "(addr \<times> nat) set \<times> mem \<Rightarrow> event list \<Rightarrow> (addr \<times> nat) set \<times> mem \<Rightarrow> bool" where
  spec_start: "spec_run a [] a"
| spec_step: "spec_run a es b \<Longrightarrow> alloc_spec e b c \<Longrightarrow> spec_run a (es @ [e]) c"

lemma process_run_ok:
  "process_run E nh s es s' \<Longrightarrow> process_ok E res s \<Longrightarrow> spec_run (abstract s) es (abstract s') \<and> process_ok E res s'"
proof (induction rule: process_run.induct)
  case (run_start s)
  then show ?case by (simp add: spec_start)
next
  case (run_step s es s1 e s2)
  then show ?case using process_step_ok [OF run_step(2)] spec_step by blast
qed

text \<open>A process as \<open>InitStaticVars\<close>, \<open>InitModule\<close> and the constructor of the module leave it: a fresh page heap, the
  default size map, empty central lists and no caches.\<close>

inductive process_start :: "'os heap_env \<Rightarrow> ('os \<Rightarrow> nat set) \<Rightarrow> 'os process \<Rightarrow> bool" for E res where
  start: "os_contract (os_calls E) res \<Longrightarrow> (\<And>x. res x \<subseteq> {..<2 ^ 42}) \<Longrightarrow> heap_limit_mb E = 0 \<Longrightarrow> mem_ok res Fm m sa ta {} {} \<Longrightarrow>
    pha_inv sizeof_ThreadCache tca {} Fm \<Longrightarrow> PageHeap_new m sa ta st (\<lambda>_. None) cache = Some h \<Longrightarrow>
    SizeMap_Init None 0 SizeMap_zero = Some sm \<Longrightarrow>
    init_centrals (S\<lparr>pageheap := SetAggressiveDecommit h ag, sizemap := sm, race_counter := 0\<rparr>) 0 kNumClasses = Some S' \<Longrightarrow>
    process_start E res (new_process (new_threads S' tca cs) flag)"

lemma process_start_ok: "process_start E res P \<Longrightarrow> process_ok E res (P, {})"
proof (induction rule: process_start.induct)
  case (start Fm m sa ta tca st cache h sm ag S S' cs flag)
  let ?h = "SetAggressiveDecommit h ag"
  let ?S = "S\<lparr>pageheap := ?h, sizemap := sm, race_counter := 0\<rparr>"
  have sm: "sizemap_ok sm \<and> (\<forall>c. num_objects_to_move sm c \<le> 4096)" using default_sizemap_ok start(7) by auto
  note h = PageHeap_new_empty(1,2) [OF start(4,6)]
  have "mode_ok True (spans h) ({} - {})" by (simp add: mode_ok_def)
  then have "heap_inv res Fm {} ?h {} (\<lambda>_. []) {}" "imbalance ?h {} = 0"
    using SetAggressiveDecommit_spec [OF h(1)] h(2) by simp_all
  moreover have "inuse_view (spans ?h) {} a = Some d \<Longrightarrow> sizeclass d = 0" for a d by (simp add: inuse_view_def)
  moreover have "cached_as ?h 0 0" using PageHeap_new_cached [OF start(6)] cached_as_same [of ?h h] by (simp add: SetAggressiveDecommit_def)
  moreover note sm
  ultimately obtain S1 L where S1: "init_centrals ?S 0 kNumClasses = Some S1" "sizemap S1 = sm"
    "central_ok (heap_frame E res Map.empty Fm) S1 (inuse_view (spans ?h) {}) L (\<lambda>_. []) (\<lambda>_. []) (\<lambda>_. {})"
    using init_centrals_central_ok [of ?S E res Fm "{}" "\<lambda>_. []"] start(1-3) by auto
  have "S' = S1" using S1(1) start(8) by simp
  then have "threads_blocks E res (tcs (new_process (new_threads S' tca cs) flag)) {}"
    using new_process_blocks [OF S1(3) _ start(5)] S1(2) sm default_size_classes_ok [OF start(7)] by simp
  then show ?case by (simp add: process_ok_def new_process_def)
qed

lemma ex_process_ok: "process_ok ex_env ex_res (ex_process, {})"
  using ex_process_blocks by (rule process_okI)

lemma ex_process_start: "process_start ex_env ex_res ex_process"
proof -
  have "init_centrals ((ex_uninit empty_heap)\<lparr>pageheap := empty_heap, sizemap := ex_map, race_counter := 0\<rparr>) 0 kNumClasses = Some ex_start"
    using ex_start_ok(6) by (simp add: ex_uninit_def)
  then have "init_centrals ((ex_uninit empty_heap)\<lparr>pageheap := SetAggressiveDecommit empty_heap False, sizemap := ex_map, race_counter := 0\<rparr>) 0
      kNumClasses = Some ex_start" using SetAggressiveDecommit_same [of empty_heap False] empty_heap_facts(4) by simp
  from start [OF ex_contract ex_res_bound ex_limit ex_mem_empty ex_pha_empty empty_heap_facts(1) ex_start_ok(5) this, of ex_cache_mem "2 ^ 62"]
  show ?thesis by (simp add: ex_process_def)
qed

lemma ex_held_ok: "\<exists>P. process_ok ex_env ex_res (P, {(2 ^ 16, 2 ^ 16)})"
  using ex_held_process process_okI by blast

abbreviation no_handler :: "nat process \<Rightarrow> nat process handler" where
  "no_handler \<equiv> \<lambda>_. NoHandler"

section \<open>Properties of runs\<close>

lemma run_process_ok: "process_start E res P0 \<Longrightarrow> process_run E nh (P0, {}) es s \<Longrightarrow> process_ok E res s"
  using process_run_ok process_start_ok by blast

text \<open>C1: Every run of the allocator, with any calls of any threads in any order, any writes of the program to its
  blocks and any new-handler, is a run of the abstract allocator with the same calls and results: blocks are fresh,
  long enough, aligned and apart from all others, \<open>calloc\<close> gives zeros, \<open>realloc\<close> keeps the contents, \<open>free\<close> gives
  back just its block, and no call changes a byte of a block that the program holds.\<close>

theorem allocator_refines_spec:
  assumes "process_start E res P0" "process_run E nh (P0, {}) es (P, Bs)"
  shows "spec_run ({}, object_mem (central (tcs P0))) es (Bs, object_mem (central (tcs P)))"
  using process_run_ok [OF assms(2) process_start_ok [OF assms(1)]] by (simp add: abstract_def)

theorem allocator_refines_spec_witness:
  "process_start ex_env ex_res ex_process \<and> process_run ex_env no_handler (ex_process, {}) [AllocZero (2 ^ 63) 2 0, Internal] (ex_process, {}) \<and>
    spec_run ({}, object_mem (central (tcs ex_process))) [AllocZero (2 ^ 63) 2 0, Internal] ({}, object_mem (central (tcs ex_process)))"
proof -
  have "process_step ex_env no_handler (AllocZero (2 ^ 63) 2 0) (ex_process, {}) (ex_process, add_block ex_process 0 {})"
    by (rule step_calloc [where me = 1]) (simp add: do_calloc_def)
  then have c: "process_step ex_env no_handler (AllocZero (2 ^ 63) 2 0) (ex_process, {}) (ex_process, {})" by (simp add: add_block_def)
  have f: "process_step ex_env no_handler Internal (ex_process, {}) (ex_process, {})" by (rule step_free_null [OF tc_free_null [OF ex_process_ok, of 1]])
  have run: "process_run ex_env no_handler (ex_process, {}) [AllocZero (2 ^ 63) 2 0, Internal] (ex_process, {})"
    using run_step [OF run_step [OF run_start c] f] by simp
  show ?thesis using ex_process_start run allocator_refines_spec [OF ex_process_start run] by blast
qed



text \<open>C3: Whatever state with consistent data structures a run starts in, the blocks that the program holds at its end are
  not null and not empty, no two of them share a byte, and \<open>GetSizeWithCallback\<close> tells the size of each.\<close>

theorem held_blocks_apart:
  assumes ok: "process_ok E res s0" and run: "process_run E nh s0 es (P, Bs)" and b: "(p, n) \<in> Bs" "(q, k) \<in> Bs"
  shows "p \<noteq> 0 \<and> 0 < n \<and> ((p, n) \<noteq> (q, k) \<longrightarrow> p \<noteq> q \<and> extent p n \<inter> extent q k = {}) \<and>
    (\<exists>T. GetSizeWithCallback p f (tcs P) = Some (n, T))"
proof -
  have I: "threads_blocks E res (tcs P) Bs" using process_run_ok [OF run ok] process_okD(1) by blast
  note A = threads_blocks_apart [OF I b(1)] threads_blocks_apart [OF I b(2)]
  have "p \<noteq> q \<and> extent p n \<inter> extent q k = {}" if "(p, n) \<noteq> (q, k)"
  proof -
    have "extent q k \<subseteq> block_bytes (Bs - {(p, n)})" using b(2) that by (auto intro: block_bytesI)
    then have d: "extent p n \<inter> extent q k = {}" using A(3) by blast
    moreover have "p \<in> extent p n" "q \<in> extent q k" using A(1,4) by (simp_all add: extent_def)
    ultimately show ?thesis by blast
  qed
  then show ?thesis using A(1,2) GetSize_ok [OF I b(1), of f] by blast
qed

theorem held_blocks_apart_witness:
  "\<exists>(P :: nat process) T. process_ok ex_env ex_res (P, {(2 ^ 16, 2 ^ 16)}) \<and> GetSizeWithCallback (2 ^ 16) None (tcs P) = Some (2 ^ 16, T)"
proof -
  obtain P where P: "process_ok ex_env ex_res (P, {(2 ^ 16, 2 ^ 16)})" using ex_held_ok by blast
  from held_blocks_apart [OF P run_start [where nh = no_handler] insertI1 insertI1, of None] P show ?thesis by blast
qed

text \<open>C4: \<open>malloc\<close> in any consistent state: the result is null, or a block of at least the size asked for, aligned as
  \<open>AlignmentForSize\<close> says, that shares no byte with a block in use; no byte of a block in use changes.\<close>

theorem malloc_correct:
  assumes ok: "process_ok E res (P, Bs)" and al: "AlignmentForSize sz = Some al"
  shows "\<exists>r. do_malloc_or_cpp_alloc E nh me sz P = Some r \<and> (\<forall>x P'. r = Ret (x, P') \<longrightarrow>
    (\<exists>p. x = Pointer p \<and> unchanged Bs (object_mem (central (tcs P))) (object_mem (central (tcs P'))) \<and>
      (p = 0 \<longrightarrow> process_ok E res (P', Bs)) \<and>
      (p \<noteq> 0 \<longrightarrow> al dvd p \<and> sz \<le> usable_size P' p \<and> extent p (usable_size P' p) \<inter> block_bytes Bs = {} \<and>
        process_ok E res (P', insert (p, usable_size P' p) Bs))))"
proof -
  obtain r where r: "do_malloc_or_cpp_alloc E nh me sz P = Some r" "\<And>x P'. r = Ret (x, P') \<Longrightarrow>
    (\<exists>p. x = Pointer p \<and> allotted E res (tcs P) Bs sz al p (tcs P')) \<and> tc_new_mode P' = 0"
    using malloc_ok [OF process_okD [OF ok] al, of nh me] by blast
  show ?thesis
  proof (rule exI [of _ r], intro conjI allI impI)
    fix x P' assume "r = Ret (x, P')"
    then obtain p where p: "x = Pointer p" "allotted E res (tcs P) Bs sz al p (tcs P')" "tc_new_mode P' = 0" using r(2) by blast
    note S = allotted_step [OF p(2)]
    have "al dvd p" using p(2) by (simp add: allotted_def)
    then show "\<exists>p. x = Pointer p \<and> unchanged Bs (object_mem (central (tcs P))) (object_mem (central (tcs P'))) \<and>
      (p = 0 \<longrightarrow> process_ok E res (P', Bs)) \<and>
      (p \<noteq> 0 \<longrightarrow> al dvd p \<and> sz \<le> usable_size P' p \<and> extent p (usable_size P' p) \<inter> block_bytes Bs = {} \<and>
        process_ok E res (P', insert (p, usable_size P' p) Bs))"
      using S p(1,3) by (intro exI [of _ p]) (auto simp: add_block_def process_ok_def)
  qed (rule r(1))
qed

theorem malloc_correct_witness: "\<exists>r. do_malloc_or_cpp_alloc ex_env no_handler 3 24 ex_process = Some r"
proof -
  have "AlignmentForSize 24 = Some 16" by (rule AlignmentForSize_cases(3)) simp_all
  from malloc_correct [OF ex_process_ok this, of no_handler 3] show ?thesis by blast
qed

text \<open>C7: \<open>calloc\<close> refuses a product that needs more than 64 bits, in any state, and leaves everything as it is. Otherwise
  the result is null or a block of at least \<open>n * e\<close> bytes, all of them 0, apart from the blocks in use, none of
  whose bytes change.\<close>

theorem calloc_correct:
  assumes ok: "process_ok E res (P, Bs)"
  shows "(2 ^ 64 \<le> n * e \<longrightarrow> do_calloc E nh me n e P = Some (Ret (Pointer 0, P))) \<and>
    (\<exists>r. do_calloc E nh me n e P = Some r \<and> (\<forall>x P'. r = Ret (x, P') \<longrightarrow>
      (\<exists>p. x = Pointer p \<and> unchanged Bs (object_mem (central (tcs P))) (object_mem (central (tcs P'))) \<and>
        (p \<noteq> 0 \<longrightarrow> n * e \<le> usable_size P' p \<and> zeroed (object_mem (central (tcs P'))) p (n * e) \<and>
          extent p (usable_size P' p) \<inter> block_bytes Bs = {} \<and> process_ok E res (P', insert (p, usable_size P' p) Bs)))))"
proof (intro conjI impI)
  assume "2 ^ 64 \<le> n * e"
  moreover from this have "0 < e" by (cases "e = 0") simp_all
  ultimately have "e \<noteq> 0 \<and> n * e mod 2 ^ 64 div e \<noteq> n" using mul_overflow [of e n] by auto
  then show "do_calloc E nh me n e P = Some (Ret (Pointer 0, P))" by (simp add: do_calloc_def)
next
  obtain r where r: "do_calloc E nh me n e P = Some r" "\<And>x P'. r = Ret (x, P') \<Longrightarrow>
    (\<exists>p. x = Pointer p \<and> allotted E res (tcs P) Bs (n * e) 8 p (tcs P') \<and>
       (p \<noteq> 0 \<longrightarrow> n * e < 2 ^ 64 \<and> zeroed (object_mem (central (tcs P'))) p (n * e))) \<and> tc_new_mode P' = 0"
    using do_calloc_ok [OF process_okD [OF ok], of nh me n e] by blast
  show "\<exists>r. do_calloc E nh me n e P = Some r \<and> (\<forall>x P'. r = Ret (x, P') \<longrightarrow>
      (\<exists>p. x = Pointer p \<and> unchanged Bs (object_mem (central (tcs P))) (object_mem (central (tcs P'))) \<and>
        (p \<noteq> 0 \<longrightarrow> n * e \<le> usable_size P' p \<and> zeroed (object_mem (central (tcs P'))) p (n * e) \<and>
          extent p (usable_size P' p) \<inter> block_bytes Bs = {} \<and> process_ok E res (P', insert (p, usable_size P' p) Bs))))"
  proof (rule exI [of _ r], intro conjI allI impI)
    fix x P' assume "r = Ret (x, P')"
    then obtain p where p: "x = Pointer p" "allotted E res (tcs P) Bs (n * e) 8 p (tcs P')"
      "p \<noteq> 0 \<longrightarrow> zeroed (object_mem (central (tcs P'))) p (n * e)" "tc_new_mode P' = 0" using r(2) by blast
    then show "\<exists>p. x = Pointer p \<and> unchanged Bs (object_mem (central (tcs P))) (object_mem (central (tcs P'))) \<and>
        (p \<noteq> 0 \<longrightarrow> n * e \<le> usable_size P' p \<and> zeroed (object_mem (central (tcs P'))) p (n * e) \<and>
          extent p (usable_size P' p) \<inter> block_bytes Bs = {} \<and> process_ok E res (P', insert (p, usable_size P' p) Bs))"
      using allotted_step [OF p(2)] by (intro exI [of _ p]) (auto simp: add_block_def process_ok_def)
  qed (rule r(1))
qed

theorem calloc_correct_witness: "do_calloc ex_env no_handler 1 (2 ^ 62) 4 ex_process = Some (Ret (Pointer 0, ex_process))"
  using calloc_correct [OF ex_process_ok, of "2 ^ 62" 4 no_handler 1] by simp

text \<open>C5: \<open>free\<close> of a block in use, with or without its size, gives back just this block: the state without it is
  consistent again, and no byte of another block changes.\<close>

theorem free_correct:
  assumes ok: "process_ok E res (P, Bs)" and b: "(p, n) \<in> Bs"
    and sz: "\<And>k. MaybeSizeClass (sizemap (central (tcs P))) sz = Some k \<Longrightarrow> class_to_size (sizemap (central (tcs P))) k = n"
  shows "\<exists>P1 P2. tc_free E me p P = Some P1 \<and> tc_free_sized E me p sz P = Some P2 \<and>
    (\<forall>P'\<in>{P1, P2}. process_ok E res (P', Bs - {(p, n)}) \<and>
      unchanged (Bs - {(p, n)}) (object_mem (central (tcs P))) (object_mem (central (tcs P'))))"
proof -
  obtain T1 T2 where T: "tc_free E me p P = Some (P\<lparr>tcs := T1\<rparr>)" "threads_blocks E res T1 (Bs - {(p, n)})" "same_bytes (Bs - {(p, n)}) (tcs P) T1"
    "tc_free_sized E me p sz P = Some (P\<lparr>tcs := T2\<rparr>)" "threads_blocks E res T2 (Bs - {(p, n)})" "same_bytes (Bs - {(p, n)}) (tcs P) T2"
    using tc_free_ok [OF ok b, of me] tc_free_sized_ok [OF ok b sz, of sz me] by blast
  then show ?thesis using process_okD(2) [OF ok] same_unchanged
    by (intro exI [of _ "P\<lparr>tcs := T1\<rparr>"] exI [of _ "P\<lparr>tcs := T2\<rparr>"]) (auto simp: process_ok_def)
qed

theorem free_correct_witness:
  "\<exists>(P :: nat process) P1. process_ok ex_env ex_res (P, {(2 ^ 16, 2 ^ 16)}) \<and> tc_free ex_env 1 (2 ^ 16) P = Some P1 \<and> process_ok ex_env ex_res (P1, {})"
proof -
  obtain P where P: "process_ok ex_env ex_res (P, {(2 ^ 16, 2 ^ 16)})" using ex_held_ok by blast
  have "MaybeSizeClass sm (2 ^ 30) = None" for sm
    by (simp add: MaybeSizeClass_def config_defs)
  then have n: "MaybeSizeClass (sizemap (central (tcs P))) (2 ^ 30) = Some k \<Longrightarrow> class_to_size (sizemap (central (tcs P))) k = 2 ^ 16" for k by simp
  from free_correct [where me = 1, OF P insertI1 n] obtain P1 where "tc_free ex_env 1 (2 ^ 16) P = Some P1" "process_ok ex_env ex_res (P1, {})" by auto
  with P show ?thesis by blast
qed

text \<open>C6: \<open>realloc\<close> of a block in use to a size that is not 0 gives null and leaves the block, or gives a block of at
  least that size whose first bytes, up to the smaller of the two sizes, are those of the old one.\<close>

theorem realloc_keeps_contents:
  assumes ok: "process_ok E res (P, Bs)" and b: "(p, n) \<in> Bs" and sz: "0 < sz"
  shows "\<exists>r. tc_realloc E nh me p sz P = Some r \<and> (\<forall>x P'. r = Ret (x, P') \<longrightarrow>
    (\<exists>q. x = Pointer q \<and> unchanged (Bs - {(p, n)}) (object_mem (central (tcs P))) (object_mem (central (tcs P'))) \<and>
      (q = 0 \<longrightarrow> process_ok E res (P', Bs) \<and> unchanged Bs (object_mem (central (tcs P))) (object_mem (central (tcs P')))) \<and>
      (q \<noteq> 0 \<longrightarrow> copied (object_mem (central (tcs P))) p (object_mem (central (tcs P'))) q (min n sz) \<and> sz \<le> usable_size P' q \<and>
        process_ok E res (P', insert (q, usable_size P' q) (Bs - {(p, n)})))))"
proof -
  obtain r where r: "tc_realloc E nh me p sz P = Some r" "\<And>x P'. r = Ret (x, P') \<Longrightarrow>
    (\<exists>q. x = Pointer q \<and> reallotted E res (tcs P) Bs p n sz q (tcs P')) \<and> tc_new_mode P' = 0"
    using tc_realloc_ok [OF ok b sz, of nh me] by blast
  show ?thesis
  proof (rule exI [of _ r], intro conjI allI impI)
    fix x P' assume "r = Ret (x, P')"
    then obtain q where q: "x = Pointer q" "reallotted E res (tcs P) Bs p n sz q (tcs P')" "tc_new_mode P' = 0" using r(2) by blast
    have n: "q \<noteq> 0 \<Longrightarrow> \<exists>k\<ge>sz. threads_blocks E res (tcs P') (insert (q, k) (Bs - {(p, n)})) \<and> usable_size P' q = k"
      using q(2) usable_size_ok by (fastforce simp: reallotted_def Let_def)
    have "same_bytes (Bs - {(p, n)}) (tcs P) (tcs P')"
      using q(2) same_bytes_mono [OF _ Diff_subset, of Bs "tcs P" "tcs P'" "{(p, n)}"] by (auto simp: reallotted_def Let_def split: if_splits)
    then show "\<exists>q. x = Pointer q \<and> unchanged (Bs - {(p, n)}) (object_mem (central (tcs P))) (object_mem (central (tcs P'))) \<and>
      (q = 0 \<longrightarrow> process_ok E res (P', Bs) \<and> unchanged Bs (object_mem (central (tcs P))) (object_mem (central (tcs P')))) \<and>
      (q \<noteq> 0 \<longrightarrow> copied (object_mem (central (tcs P))) p (object_mem (central (tcs P'))) q (min n sz) \<and> sz \<le> usable_size P' q \<and>
        process_ok E res (P', insert (q, usable_size P' q) (Bs - {(p, n)})))"
      using q n by (intro exI [of _ q]) (auto simp: reallotted_def Let_def process_ok_def same_unchanged)
  qed (rule r(1))
qed

theorem realloc_keeps_contents_witness:
  "\<exists>(P :: nat process) r. process_ok ex_env ex_res (P, {(2 ^ 16, 2 ^ 16)}) \<and> tc_realloc ex_env no_handler 1 (2 ^ 16) 100 P = Some r"
proof -
  obtain P where P: "process_ok ex_env ex_res (P, {(2 ^ 16, 2 ^ 16)})" using ex_held_ok by blast
  from realloc_keeps_contents [OF P insertI1, of 100 no_handler 1] P show ?thesis by auto
qed

text \<open>C8: \<open>posix_memalign\<close> gives EINVAL just for an alignment that is not a power of two or not a multiple of 8, and then
  changes nothing; otherwise it gives ENOMEM, with the blocks as they were, or stores a block with that alignment.\<close>

theorem posix_memalign_correct:
  assumes ok: "process_ok E res (P, Bs)"
  shows "(if \<exists>j\<ge>3. al = 2 ^ j
    then \<exists>r. tc_posix_memalign E nh me al sz P = Some r \<and> (\<forall>x P'. r = Ret (x, P') \<longrightarrow>
      unchanged Bs (object_mem (central (tcs P))) (object_mem (central (tcs P'))) \<and>
      (x = ENOMEM \<and> process_ok E res (P', Bs) \<or>
       (\<exists>p. x = Stored p \<and> p \<noteq> 0 \<and> al dvd p \<and> sz \<le> usable_size P' p \<and> extent p (usable_size P' p) \<inter> block_bytes Bs = {} \<and>
         process_ok E res (P', insert (p, usable_size P' p) Bs))))
    else tc_posix_memalign E nh me al sz P = Some (Ret (EINVAL, P)))"
proof -
  have c: "(al mod 8 \<noteq> 0 \<or> al AND (al - 1) \<noteq> 0 \<or> al = 0) \<longleftrightarrow> \<not> (\<exists>j\<ge>3. al = 2 ^ j)"
  proof
    assume "al mod 8 \<noteq> 0 \<or> al AND (al - 1) \<noteq> 0 \<or> al = 0"
    then show "\<not> (\<exists>j\<ge>3. al = 2 ^ j)"
    proof (rule contrapos_pn)
      assume "\<exists>j\<ge>3. al = 2 ^ j"
      then obtain j where j: "3 \<le> j" "al = 2 ^ j" by blast
      then have "(2::nat) ^ 3 dvd al" using le_imp_power_dvd [OF j(1), of "2::nat"] by simp
      then show "\<not> (al mod 8 \<noteq> 0 \<or> al AND (al - 1) \<noteq> 0 \<or> al = 0)" using and_pred_pow2(1) [of al j] j(2) by (simp add: mod_eq_0_iff_dvd)
    qed
  next
    assume n: "\<not> (\<exists>j\<ge>3. al = 2 ^ j)"
    show "al mod 8 \<noteq> 0 \<or> al AND (al - 1) \<noteq> 0 \<or> al = 0"
    proof (rule ccontr)
      assume a: "\<not> (al mod 8 \<noteq> 0 \<or> al AND (al - 1) \<noteq> 0 \<or> al = 0)"
      then obtain k where k: "al = 2 ^ k" using pow2_if_and_pred [of al] by auto
      have "(2::nat) ^ 3 dvd 2 ^ k" using a k by (simp add: mod_eq_0_iff_dvd)
      then have "3 \<le> k" by (rule power_dvd_imp_le) simp
      then show False using n k by blast
    qed
  qed
  show ?thesis
  proof (cases "\<exists>j\<ge>3. al = 2 ^ j")
    case False
    then have "tc_posix_memalign E nh me al sz P = Some (Ret (EINVAL, P))" unfolding tc_posix_memalign_def c by simp
    then show ?thesis using False by simp
  next
    case True
    then obtain j where j: "al = 2 ^ j" by blast
    obtain r where r: "do_memalign_or_cpp_memalign E nh me al sz P = Some r" "\<And>x P'. r = Ret (x, P') \<Longrightarrow>
      (\<exists>p. x = Pointer p \<and> allotted E res (tcs P) Bs sz al p (tcs P')) \<and> tc_new_mode P' = 0"
      using memalign_ok [OF process_okD [OF ok] j, of nh me sz] by blast
    have u: "tc_posix_memalign E nh me al sz P = (case r of OutOfMemory \<Rightarrow> Some OutOfMemory | Ret (BadAlloc, P) \<Rightarrow> Some (Ret (Thrown, P))
        | Ret (Pointer result, P) \<Rightarrow> Some (Ret (if result = 0 then ENOMEM else Stored result, P)))"
      using True r(1) unfolding tc_posix_memalign_def c by simp
    show ?thesis
    proof (cases r)
      case OutOfMemory
      then show ?thesis using u True by simp
    next
      case (Ret y)
      obtain x P1 where y: "y = (x, P1)" by (cases y)
      obtain p where p: "x = Pointer p" "allotted E res (tcs P) Bs sz al p (tcs P1)" "tc_new_mode P1 = 0" using r(2) Ret y by blast
      have "al dvd p" using p(2) by (simp add: allotted_def)
      then show ?thesis using True u Ret y p(1,3) allotted_step [OF p(2)] by (auto simp: add_block_def process_ok_def)
    qed
  qed
qed

theorem posix_memalign_correct_witness:
  "tc_posix_memalign ex_env no_handler 1 24 100 ex_process = Some (Ret (EINVAL, ex_process))"
proof -
  have "\<not> (\<exists>j\<ge>3. (24 :: nat) = 2 ^ j)"
  proof
    assume "\<exists>j\<ge>3. (24 :: nat) = 2 ^ j"
    then obtain j where "(24 :: nat) = 2 ^ j" by blast
    moreover have "j < 5" using power_increasing [of 5 j "2 :: nat"] calculation by (intro not_le_imp_less) auto
    ultimately show False by (auto simp: less_Suc_eq eval_nat_numeral)
  qed
  with posix_memalign_correct [OF ex_process_ok, of 24 no_handler 1 100] show ?thesis by (simp only: if_False)
qed

section \<open>Out of memory\<close>

text \<open>The state after \<open>k\<close> rounds of \<open>handle_oom\<close> in which the handler returned and the retry gave no memory, and the
  states in which the next round is the last.\<close>

fun oom_state :: "('p \<Rightarrow> 'p handler) \<Rightarrow> ('p \<Rightarrow> (addr \<times> 'p) outcome option) \<Rightarrow> nat \<Rightarrow> 'p \<Rightarrow> 'p option" where
  "oom_state nh f 0 P = Some P"
| "oom_state nh f (Suc k) P =
     (case nh P of HandlerReturns P1 \<Rightarrow> (case f P1 of Some (Ret (rv, P2)) \<Rightarrow> if rv = 0 then oom_state nh f k P2 else None | _ \<Rightarrow> None) | _ \<Rightarrow> None)"

definition oom_ends :: "('p \<Rightarrow> 'p handler) \<Rightarrow> ('p \<Rightarrow> (addr \<times> 'p) outcome option) \<Rightarrow> 'p \<Rightarrow> bool" where
  "oom_ends nh f P = (case nh P of HandlerReturns P1 \<Rightarrow> (case f P1 of Some (Ret (rv, _)) \<Rightarrow> rv \<noteq> 0 | r \<Rightarrow> r \<noteq> None) | _ \<Rightarrow> True)"

lemma oom_loop_ends: "oom_loop nh f b P = Some r \<Longrightarrow> \<exists>k Q. oom_state nh f k P = Some Q \<and> oom_ends nh f Q"
proof (erule oom_loop.raw_induct [where Pa = "\<lambda>(((nh, f), b), P) r. \<exists>k Q. oom_state nh f k P = Some Q \<and> oom_ends nh f Q", rotated, unfolded prod.case])
  fix loop nh f b P r
  assume IH: "\<And>nh f b P y. loop nh f b P = Some y \<Longrightarrow> \<exists>k Q. oom_state nh f k P = Some Q \<and> oom_ends nh f Q"
    and r: "(case nh P of NoHandler \<Rightarrow> Some (Ret (if b then Pointer 0 else BadAlloc, P))
      | HandlerReturns P \<Rightarrow> f P \<bind> (\<lambda>r. case r of OutOfMemory \<Rightarrow> Some OutOfMemory
        | Ret (rv, P) \<Rightarrow> if rv \<noteq> 0 then Some (Ret (Pointer rv, P)) else loop nh f b P)
      | HandlerThrows P \<Rightarrow> Some (Ret (if b then Pointer 0 else BadAlloc, P))) = Some r"
  show "\<exists>k Q. oom_state nh f k P = Some Q \<and> oom_ends nh f Q"
  proof (cases "oom_ends nh f P")
    case True
    then show ?thesis by (intro exI [of _ 0]) simp
  next
    case False
    then obtain P1 where P1: "nh P = HandlerReturns P1" by (cases "nh P") (auto simp: oom_ends_def)
    then have "f P1 \<noteq> None" using r by (cases "f P1") auto
    then obtain P2 where P2: "f P1 = Some (Ret (0, P2))" using False P1 by (auto simp: oom_ends_def split: outcome.splits option.splits)
    then have "loop nh f b P2 = Some r" using r P1 by simp
    from IH [OF this] obtain k Q where "oom_state nh f k P2 = Some Q" "oom_ends nh f Q" by blast
    then show ?thesis using P1 P2 by (intro exI [of _ "Suc k"] exI [of _ Q]) simp
  qed
qed

lemma oom_loop_returns: "oom_state nh f k P = Some Q \<Longrightarrow> oom_ends nh f Q \<Longrightarrow> \<exists>r. oom_loop nh f b P = Some r"
proof (induction k arbitrary: P)
  case 0
  then have "oom_ends nh f P" by simp
  then show ?case unfolding oom_loop.simps [of nh f b P] by (auto simp: oom_ends_def split: handler.splits option.splits outcome.splits)
next
  case (Suc k)
  then obtain P1 P2 where "nh P = HandlerReturns P1" "f P1 = Some (Ret (0, P2))" "oom_state nh f k P2 = Some Q"
    by (auto split: handler.splits option.splits outcome.splits if_splits)
  then show ?case using Suc.IH [of P2] Suc.prems(2) by (simp add: oom_loop.simps [of nh f b P])
qed

lemma oom_loop_not_null: "oom_loop nh f b P = Some r \<Longrightarrow> \<not> b \<Longrightarrow> r \<noteq> Ret (Pointer 0, P')"
proof -
  assume "oom_loop nh f b P = Some r"
  then have "\<not> b \<longrightarrow> (\<forall>P'. r \<noteq> Ret (Pointer 0, P'))"
    by (rule oom_loop.raw_induct [where Pa = "\<lambda>(((nh, f), b), P) r. \<not> b \<longrightarrow> (\<forall>P'. r \<noteq> Ret (Pointer 0, P'))", rotated, unfolded prod.case])
      (auto split: handler.splits outcome.splits if_splits elim!: bindE, blast)
  then show "\<not> b \<Longrightarrow> r \<noteq> Ret (Pointer 0, P')" by blast
qed



section \<open>Caches\<close>



section \<open>Page-aligned sizes\<close>

text \<open>C40: \<open>pvalloc\<close> rounds a size up to the next multiple of the page size, and 0 to one page, but only while the sum
  with the page size needs no more than 64 bits: every larger size becomes 0.\<close>

theorem pvalloc_size_wraps:
  assumes "0 < pagesize" "pagesize \<le> 2 ^ 63" "sz < 2 ^ 64"
  shows "if sz \<le> 2 ^ 64 - pagesize
    then pagesize dvd pvalloc_size pagesize sz \<and> max 1 sz \<le> pvalloc_size pagesize sz \<and> pvalloc_size pagesize sz < max 1 sz + pagesize
    else pvalloc_size pagesize sz = 0"
proof -
  let ?s = "if sz = 0 then pagesize else sz"
  show ?thesis
  proof (cases "sz \<le> 2 ^ 64 - pagesize")
    case True
    then have n: "(?s + pagesize - 1) mod 2 ^ 64 = ?s + pagesize - 1" using assms by auto
    let ?n = "?s + pagesize - 1"
    have "?n mod pagesize < pagesize" "?n mod pagesize \<le> ?n" using assms(1) by simp_all
    moreover have "?n mod pagesize = pagesize - 1" if "sz = 0"
      using that assms(1) mod_add_self1 [of pagesize "pagesize - 1"] by simp
    moreover have "pagesize dvd ?n - ?n mod pagesize" by (rule dvd_minus_mod)
    moreover have "pvalloc_size pagesize sz = ?n - ?n mod pagesize" unfolding pvalloc_size_def Let_def n ..
    moreover have "pagesize dvd r \<and> max 1 sz \<le> r \<and> r < max 1 sz + pagesize" if "q < pagesize" "q \<le> ?n" "sz = 0 \<longrightarrow> q = pagesize - 1" "pagesize dvd r" "r = ?n - q" for q r
      using that assms(1) by (cases "sz = 0") auto
    ultimately show ?thesis using True by simp
  next
    case False
    then have "?s + pagesize - 1 = 2 ^ 64 + (sz + pagesize - 1 - 2 ^ 64)" "sz + pagesize - 1 - 2 ^ 64 < pagesize" using assms by auto
    moreover have "sz + pagesize - 1 - 2 ^ 64 < 2 ^ 64" using assms by auto
    ultimately have "(?s + pagesize - 1) mod 2 ^ 64 = sz + pagesize - 1 - 2 ^ 64"
      by (metis mod_add_self1 mod_less)
    then show ?thesis using False \<open>sz + pagesize - 1 - 2 ^ 64 < pagesize\<close> by (simp add: pvalloc_size_def Let_def)
  qed
qed

theorem pvalloc_size_wraps_witness: "pvalloc_size 4096 (2 ^ 64 - 100) = 0"
  using pvalloc_size_wraps [of 4096 "2 ^ 64 - 100"] by simp

end
