(* ===== verification/Opcode_Types.thy ===== *)
theory Opcode_Types
  imports Prelude
begin

text \<open>
  The data of the small disassembler of the function patcher
  (\<open>windows/mini_disassembler_types.h\<close>): kinds of instructions, operand sizes, the bit fields that
  describe an operand, and the rows of the opcode tables. The flags of an operand are one \<open>int\<close> of
  disjoint bit fields, read here as the number that its 32 bits stand for.
\<close>

unbundle bit_operations_syntax

datatype InstructionType =
    IT_UNUSED | IT_UNKNOWN | IT_REFERENCE | IT_PREFIX | IT_PREFIX_ADDRESS | IT_PREFIX_OPERAND
  | IT_JUMP | IT_RETURN | IT_GENERIC

section \<open>Operand sizes\<close>

definition OS_ZERO :: nat where "OS_ZERO = 0"
definition OS_BYTE :: nat where "OS_BYTE = 1"
definition OS_WORD :: nat where "OS_WORD = 2"
definition OS_DOUBLE_WORD :: nat where "OS_DOUBLE_WORD = 4"
definition OS_QUAD_WORD :: nat where "OS_QUAD_WORD = 8"
definition OS_DOUBLE_QUAD_WORD :: nat where "OS_DOUBLE_QUAD_WORD = 16"
definition OS_32_BIT_POINTER :: nat where "OS_32_BIT_POINTER = 32 div 8"
definition OS_48_BIT_POINTER :: nat where "OS_48_BIT_POINTER = 48 div 8"
definition OS_SINGLE_PRECISION_FLOATING :: nat where "OS_SINGLE_PRECISION_FLOATING = 32 div 8"
definition OS_DOUBLE_PRECISION_FLOATING :: nat where "OS_DOUBLE_PRECISION_FLOATING = 64 div 8"
definition OS_DOUBLE_EXTENDED_PRECISION_FLOATING :: nat where "OS_DOUBLE_EXTENDED_PRECISION_FLOATING = 80 div 8"
definition OS_128_BIT_PACKED_SINGLE_PRECISION_FLOATING :: nat where "OS_128_BIT_PACKED_SINGLE_PRECISION_FLOATING = 128 div 8"
definition OS_PSEUDO_DESCRIPTOR :: nat where "OS_PSEUDO_DESCRIPTOR = 6"

lemmas operand_size_defs = OS_ZERO_def OS_BYTE_def OS_WORD_def OS_DOUBLE_WORD_def OS_QUAD_WORD_def OS_DOUBLE_QUAD_WORD_def OS_32_BIT_POINTER_def OS_48_BIT_POINTER_def OS_SINGLE_PRECISION_FLOATING_def OS_DOUBLE_PRECISION_FLOATING_def OS_DOUBLE_EXTENDED_PRECISION_FLOATING_def OS_128_BIT_PACKED_SINGLE_PRECISION_FLOATING_def OS_PSEUDO_DESCRIPTOR_def

section \<open>Addressing methods\<close>

definition AM_NOT_USED :: int where "AM_NOT_USED = 0"
definition AM_MASK :: int where "AM_MASK = 0x00FF0000"
definition AM_A :: int where "AM_A = 0x00010000"
definition AM_C :: int where "AM_C = 0x00020000"
definition AM_D :: int where "AM_D = 0x00030000"
definition AM_E :: int where "AM_E = 0x00040000"
definition AM_F :: int where "AM_F = 0x00050000"
definition AM_G :: int where "AM_G = 0x00060000"
definition AM_I :: int where "AM_I = 0x00070000"
definition AM_J :: int where "AM_J = 0x00080000"
definition AM_M :: int where "AM_M = 0x00090000"
definition AM_O :: int where "AM_O = 0x000A0000"
definition AM_P :: int where "AM_P = 0x000B0000"
definition AM_Q :: int where "AM_Q = 0x000C0000"
definition AM_R :: int where "AM_R = 0x000D0000"
definition AM_S :: int where "AM_S = 0x000E0000"
definition AM_T :: int where "AM_T = 0x000F0000"
definition AM_V :: int where "AM_V = 0x00100000"
definition AM_W :: int where "AM_W = 0x00110000"
definition AM_X :: int where "AM_X = 0x00120000"
definition AM_Y :: int where "AM_Y = 0x00130000"
definition AM_REGISTER :: int where "AM_REGISTER = 0x00140000"
definition AM_IMPLICIT :: int where "AM_IMPLICIT = 0x00150000"

lemmas addressing_defs = AM_NOT_USED_def AM_MASK_def AM_A_def AM_C_def AM_D_def AM_E_def AM_F_def AM_G_def AM_I_def AM_J_def AM_M_def AM_O_def AM_P_def AM_Q_def AM_R_def AM_S_def AM_T_def AM_V_def AM_W_def AM_X_def AM_Y_def AM_REGISTER_def AM_IMPLICIT_def

section \<open>Operand types\<close>

definition OT_MASK :: int where "OT_MASK = 0xFF000000"
definition OT_A :: int where "OT_A = 0x01000000"
definition OT_B :: int where "OT_B = 0x02000000"
definition OT_C :: int where "OT_C = 0x03000000"
definition OT_D :: int where "OT_D = 0x04000000"
definition OT_DQ :: int where "OT_DQ = 0x05000000"
definition OT_P :: int where "OT_P = 0x06000000"
definition OT_PI :: int where "OT_PI = 0x07000000"
definition OT_PS :: int where "OT_PS = 0x08000000"
definition OT_Q :: int where "OT_Q = 0x09000000"
definition OT_S :: int where "OT_S = 0x0A000000"
definition OT_SS :: int where "OT_SS = 0x0B000000"
definition OT_SI :: int where "OT_SI = 0x0C000000"
definition OT_V :: int where "OT_V = 0x0D000000"
definition OT_W :: int where "OT_W = 0x0E000000"
definition OT_SD :: int where "OT_SD = 0x0F000000"
definition OT_PD :: int where "OT_PD = 0x10000000"
definition OT_ADDRESS_MODE_M :: int where "OT_ADDRESS_MODE_M = 0x80000000"

lemmas operand_type_defs = OT_MASK_def OT_A_def OT_B_def OT_C_def OT_D_def OT_DQ_def OT_P_def OT_PI_def OT_PS_def OT_Q_def OT_S_def OT_SS_def OT_SI_def OT_V_def OT_W_def OT_SD_def OT_PD_def OT_ADDRESS_MODE_M_def

section \<open>Sizes of immediate operands\<close>

definition IOS_MASK :: int where "IOS_MASK = 0x0000F000"
definition IOS_DEFAULT :: int where "IOS_DEFAULT = 0"
definition IOS_64 :: int where "IOS_64 = 0x00001000"

lemmas immediate_defs = IOS_MASK_def IOS_DEFAULT_def IOS_64_def

lemmas flag_defs = addressing_defs operand_type_defs immediate_defs

section \<open>Rows of the tables\<close>

record SpecificOpcode =
  table_index :: nat
  opcode_type :: InstructionType
  flag_dest :: int
  flag_source :: int
  flag_aux :: int
  mnemonic :: "string option"

text \<open>\<open>Opcode\<close> starts with the fields of \<open>SpecificOpcode\<close>; the code casts one to the other.\<close>

record Opcode = SpecificOpcode +
  is_prefix_dependent :: bool
  opcode_if_f2_prefix :: SpecificOpcode
  opcode_if_f3_prefix :: SpecificOpcode
  opcode_if_66_prefix :: SpecificOpcode

record OpcodeTable =
  opcode_rows :: "Opcode list"
  table_shift :: nat
  table_mask :: "8 word"
  min_lim :: nat
  max_lim :: nat

record ModrmEntry =
  is_encoded_in_instruction :: bool
  use_sib_byte :: bool
  operand_size :: nat

text \<open>The initialisers of the tables: \<open>{ 0 }\<close>, a row that does not depend on prefixes, one that does.\<close>

definition spc :: "nat \<Rightarrow> InstructionType \<Rightarrow> int \<Rightarrow> int \<Rightarrow> int \<Rightarrow> string option \<Rightarrow> SpecificOpcode" where
  "spc i t d s a m = \<lparr>table_index = i, opcode_type = t, flag_dest = d, flag_source = s, flag_aux = a, mnemonic = m\<rparr>"

definition no_opcode :: SpecificOpcode where "no_opcode = spc 0 IT_UNUSED 0 0 0 None"

definition opp :: "nat \<Rightarrow> InstructionType \<Rightarrow> int \<Rightarrow> int \<Rightarrow> int \<Rightarrow> string option \<Rightarrow>
    SpecificOpcode \<Rightarrow> SpecificOpcode \<Rightarrow> SpecificOpcode \<Rightarrow> Opcode" where
  "opp i t d s a m f2 f3 f66 = \<lparr>table_index = i, opcode_type = t, flag_dest = d, flag_source = s, flag_aux = a, mnemonic = m,
     is_prefix_dependent = True, opcode_if_f2_prefix = f2, opcode_if_f3_prefix = f3, opcode_if_66_prefix = f66\<rparr>"

definition opc :: "nat \<Rightarrow> InstructionType \<Rightarrow> int \<Rightarrow> int \<Rightarrow> int \<Rightarrow> string option \<Rightarrow> Opcode" where
  "opc i t d s a m = (opp i t d s a m no_opcode no_opcode no_opcode)\<lparr>is_prefix_dependent := False\<rparr>"

definition mre :: "bool \<Rightarrow> bool \<Rightarrow> nat \<Rightarrow> ModrmEntry" where
  "mre e s n = \<lparr>is_encoded_in_instruction = e, use_sib_byte = s, operand_size = n\<rparr>"

definition opt :: "Opcode list \<Rightarrow> nat \<Rightarrow> 8 word \<Rightarrow> nat \<Rightarrow> nat \<Rightarrow> OpcodeTable" where
  "opt t s m lo hi = \<lparr>opcode_rows = t, table_shift = s, table_mask = m, min_lim = lo, max_lim = hi\<rparr>"

end
