(* ===== verification/Opcode_Map.thy ===== *)
theory Opcode_Map
  imports Opcode_Types
begin

text \<open>
  The opcode tables (\<open>windows/ia32_opcode_map.cc\<close>) and the tables for the ModR/M byte
  (\<open>windows/ia32_modrm_map.cc\<close>), row by row. The rows that \<open>_M_X64\<close> selects are both modelled; the tables
  of more than 150 rows are given in pieces.
\<close>

section \<open>First opcode byte\<close>

definition first_opcode_byte_00 :: "Opcode list" where
  "first_opcode_byte_00 = [
    opc 0 IT_GENERIC (AM_E OR OT_B) (AM_G OR OT_B) AM_NOT_USED (Some ''add''),
    opc 0 IT_GENERIC (AM_E OR OT_V) (AM_G OR OT_V) AM_NOT_USED (Some ''add''),
    opc 0 IT_GENERIC (AM_G OR OT_B) (AM_E OR OT_B) AM_NOT_USED (Some ''add''),
    opc 0 IT_GENERIC (AM_G OR OT_V) (AM_E OR OT_V) AM_NOT_USED (Some ''add''),
    opc 0 IT_GENERIC (AM_REGISTER OR OT_B) (AM_I OR OT_B) AM_NOT_USED (Some ''add''),
    opc 0 IT_GENERIC (AM_REGISTER OR OT_V) (AM_I OR OT_V) AM_NOT_USED (Some ''add''),
    opc 0 IT_GENERIC (AM_REGISTER OR OT_W) AM_NOT_USED AM_NOT_USED (Some ''push''),
    opc 0 IT_GENERIC (AM_REGISTER OR OT_W) AM_NOT_USED AM_NOT_USED (Some ''pop''),
    opc 0 IT_GENERIC (AM_E OR OT_B) (AM_G OR OT_B) AM_NOT_USED (Some ''or''),
    opc 0 IT_GENERIC (AM_E OR OT_V) (AM_G OR OT_V) AM_NOT_USED (Some ''or''),
    opc 0 IT_GENERIC (AM_G OR OT_B) (AM_E OR OT_B) AM_NOT_USED (Some ''or''),
    opc 0 IT_GENERIC (AM_G OR OT_V) (AM_E OR OT_V) AM_NOT_USED (Some ''or''),
    opc 0 IT_GENERIC (AM_REGISTER OR OT_B) (AM_I OR OT_B) AM_NOT_USED (Some ''or''),
    opc 0 IT_GENERIC (AM_REGISTER OR OT_V) (AM_I OR OT_V) AM_NOT_USED (Some ''or''),
    opc 0 IT_GENERIC (AM_REGISTER OR OT_W) AM_NOT_USED AM_NOT_USED (Some ''push''),
    opc 1 IT_REFERENCE AM_NOT_USED AM_NOT_USED AM_NOT_USED None,
    opc 0 IT_GENERIC (AM_E OR OT_B) (AM_G OR OT_B) AM_NOT_USED (Some ''adc''),
    opc 0 IT_GENERIC (AM_E OR OT_V) (AM_G OR OT_V) AM_NOT_USED (Some ''adc''),
    opc 0 IT_GENERIC (AM_G OR OT_B) (AM_E OR OT_B) AM_NOT_USED (Some ''adc''),
    opc 0 IT_GENERIC (AM_G OR OT_V) (AM_E OR OT_V) AM_NOT_USED (Some ''adc''),
    opc 0 IT_GENERIC (AM_REGISTER OR OT_B) (AM_I OR OT_B) AM_NOT_USED (Some ''adc''),
    opc 0 IT_GENERIC (AM_REGISTER OR OT_V) (AM_I OR OT_V) AM_NOT_USED (Some ''adc''),
    opc 0 IT_GENERIC (AM_REGISTER OR OT_W) AM_NOT_USED AM_NOT_USED (Some ''push''),
    opc 0 IT_GENERIC (AM_REGISTER OR OT_W) AM_NOT_USED AM_NOT_USED (Some ''pop''),
    opc 0 IT_GENERIC (AM_E OR OT_B) (AM_G OR OT_B) AM_NOT_USED (Some ''sbb''),
    opc 0 IT_GENERIC (AM_E OR OT_V) (AM_G OR OT_V) AM_NOT_USED (Some ''sbb''),
    opc 0 IT_GENERIC (AM_G OR OT_B) (AM_E OR OT_B) AM_NOT_USED (Some ''sbb''),
    opc 0 IT_GENERIC (AM_G OR OT_V) (AM_E OR OT_V) AM_NOT_USED (Some ''sbb''),
    opc 0 IT_GENERIC (AM_REGISTER OR OT_B) (AM_I OR OT_B) AM_NOT_USED (Some ''sbb''),
    opc 0 IT_GENERIC (AM_REGISTER OR OT_V) (AM_I OR OT_V) AM_NOT_USED (Some ''sbb''),
    opc 0 IT_GENERIC (AM_REGISTER OR OT_W) AM_NOT_USED AM_NOT_USED (Some ''push''),
    opc 0 IT_GENERIC (AM_REGISTER OR OT_W) AM_NOT_USED AM_NOT_USED (Some ''pop''),
    opc 0 IT_GENERIC (AM_E OR OT_B) (AM_G OR OT_B) AM_NOT_USED (Some ''and''),
    opc 0 IT_GENERIC (AM_E OR OT_V) (AM_G OR OT_V) AM_NOT_USED (Some ''and''),
    opc 0 IT_GENERIC (AM_G OR OT_B) (AM_E OR OT_B) AM_NOT_USED (Some ''and''),
    opc 0 IT_GENERIC (AM_G OR OT_V) (AM_E OR OT_V) AM_NOT_USED (Some ''and''),
    opc 0 IT_GENERIC (AM_REGISTER OR OT_B) (AM_I OR OT_B) AM_NOT_USED (Some ''and''),
    opc 0 IT_GENERIC (AM_REGISTER OR OT_V) (AM_I OR OT_V) AM_NOT_USED (Some ''and''),
    opc 0 IT_PREFIX AM_NOT_USED AM_NOT_USED AM_NOT_USED None,
    opc 0 IT_GENERIC AM_NOT_USED AM_NOT_USED AM_NOT_USED (Some ''daa''),
    opc 0 IT_GENERIC (AM_E OR OT_B) (AM_G OR OT_B) AM_NOT_USED (Some ''sub''),
    opc 0 IT_GENERIC (AM_E OR OT_V) (AM_G OR OT_V) AM_NOT_USED (Some ''sub''),
    opc 0 IT_GENERIC (AM_G OR OT_B) (AM_E OR OT_B) AM_NOT_USED (Some ''sub''),
    opc 0 IT_GENERIC (AM_G OR OT_V) (AM_E OR OT_V) AM_NOT_USED (Some ''sub''),
    opc 0 IT_GENERIC (AM_REGISTER OR OT_B) (AM_I OR OT_B) AM_NOT_USED (Some ''sub''),
    opc 0 IT_GENERIC (AM_REGISTER OR OT_V) (AM_I OR OT_V) AM_NOT_USED (Some ''sub''),
    opc 0 IT_PREFIX AM_NOT_USED AM_NOT_USED AM_NOT_USED None,
    opc 0 IT_GENERIC AM_NOT_USED AM_NOT_USED AM_NOT_USED (Some ''das''),
    opc 0 IT_GENERIC (AM_E OR OT_B) (AM_G OR OT_B) AM_NOT_USED (Some ''xor''),
    opc 0 IT_GENERIC (AM_E OR OT_V) (AM_G OR OT_V) AM_NOT_USED (Some ''xor''),
    opc 0 IT_GENERIC (AM_G OR OT_B) (AM_E OR OT_B) AM_NOT_USED (Some ''xor''),
    opc 0 IT_GENERIC (AM_G OR OT_V) (AM_E OR OT_V) AM_NOT_USED (Some ''xor''),
    opc 0 IT_GENERIC (AM_REGISTER OR OT_B) (AM_I OR OT_B) AM_NOT_USED (Some ''xor''),
    opc 0 IT_GENERIC (AM_REGISTER OR OT_V) (AM_I OR OT_V) AM_NOT_USED (Some ''xor''),
    opc 0 IT_PREFIX AM_NOT_USED AM_NOT_USED AM_NOT_USED None,
    opc 0 IT_GENERIC AM_NOT_USED AM_NOT_USED AM_NOT_USED (Some ''aaa''),
    opc 0 IT_GENERIC (AM_E OR OT_B) (AM_G OR OT_B) AM_NOT_USED (Some ''cmp''),
    opc 0 IT_GENERIC (AM_E OR OT_V) (AM_G OR OT_V) AM_NOT_USED (Some ''cmp''),
    opc 0 IT_GENERIC (AM_G OR OT_B) (AM_E OR OT_B) AM_NOT_USED (Some ''cmp''),
    opc 0 IT_GENERIC (AM_G OR OT_V) (AM_E OR OT_V) AM_NOT_USED (Some ''cmp''),
    opc 0 IT_GENERIC (AM_REGISTER OR OT_B) (AM_I OR OT_B) AM_NOT_USED (Some ''cmp''),
    opc 0 IT_GENERIC (AM_REGISTER OR OT_V) (AM_I OR OT_V) AM_NOT_USED (Some ''cmp''),
    opc 0 IT_PREFIX AM_NOT_USED AM_NOT_USED AM_NOT_USED None,
    opc 0 IT_GENERIC AM_NOT_USED AM_NOT_USED AM_NOT_USED (Some ''aas'')]"

definition first_opcode_byte_40_x64 :: "Opcode list" where
  "first_opcode_byte_40_x64 = [
    opc 0 IT_PREFIX AM_NOT_USED AM_NOT_USED AM_NOT_USED None,
    opc 0 IT_PREFIX AM_NOT_USED AM_NOT_USED AM_NOT_USED None,
    opc 0 IT_PREFIX AM_NOT_USED AM_NOT_USED AM_NOT_USED None,
    opc 0 IT_PREFIX AM_NOT_USED AM_NOT_USED AM_NOT_USED None,
    opc 0 IT_PREFIX AM_NOT_USED AM_NOT_USED AM_NOT_USED None,
    opc 0 IT_PREFIX AM_NOT_USED AM_NOT_USED AM_NOT_USED None,
    opc 0 IT_PREFIX AM_NOT_USED AM_NOT_USED AM_NOT_USED None,
    opc 0 IT_PREFIX AM_NOT_USED AM_NOT_USED AM_NOT_USED None,
    opc 0 IT_PREFIX AM_NOT_USED AM_NOT_USED AM_NOT_USED None,
    opc 0 IT_PREFIX AM_NOT_USED AM_NOT_USED AM_NOT_USED None,
    opc 0 IT_PREFIX AM_NOT_USED AM_NOT_USED AM_NOT_USED None,
    opc 0 IT_PREFIX AM_NOT_USED AM_NOT_USED AM_NOT_USED None,
    opc 0 IT_PREFIX AM_NOT_USED AM_NOT_USED AM_NOT_USED None,
    opc 0 IT_PREFIX AM_NOT_USED AM_NOT_USED AM_NOT_USED None,
    opc 0 IT_PREFIX AM_NOT_USED AM_NOT_USED AM_NOT_USED None,
    opc 0 IT_PREFIX AM_NOT_USED AM_NOT_USED AM_NOT_USED None]"

definition first_opcode_byte_40_x86 :: "Opcode list" where
  "first_opcode_byte_40_x86 = [
    opc 0 IT_GENERIC (AM_REGISTER OR OT_V) AM_NOT_USED AM_NOT_USED (Some ''inc''),
    opc 0 IT_GENERIC (AM_REGISTER OR OT_V) AM_NOT_USED AM_NOT_USED (Some ''inc''),
    opc 0 IT_GENERIC (AM_REGISTER OR OT_V) AM_NOT_USED AM_NOT_USED (Some ''inc''),
    opc 0 IT_GENERIC (AM_REGISTER OR OT_V) AM_NOT_USED AM_NOT_USED (Some ''inc''),
    opc 0 IT_GENERIC (AM_REGISTER OR OT_V) AM_NOT_USED AM_NOT_USED (Some ''inc''),
    opc 0 IT_GENERIC (AM_REGISTER OR OT_V) AM_NOT_USED AM_NOT_USED (Some ''inc''),
    opc 0 IT_GENERIC (AM_REGISTER OR OT_V) AM_NOT_USED AM_NOT_USED (Some ''inc''),
    opc 0 IT_GENERIC (AM_REGISTER OR OT_V) AM_NOT_USED AM_NOT_USED (Some ''inc''),
    opc 0 IT_GENERIC (AM_REGISTER OR OT_V) AM_NOT_USED AM_NOT_USED (Some ''dec''),
    opc 0 IT_GENERIC (AM_REGISTER OR OT_V) AM_NOT_USED AM_NOT_USED (Some ''dec''),
    opc 0 IT_GENERIC (AM_REGISTER OR OT_V) AM_NOT_USED AM_NOT_USED (Some ''dec''),
    opc 0 IT_GENERIC (AM_REGISTER OR OT_V) AM_NOT_USED AM_NOT_USED (Some ''dec''),
    opc 0 IT_GENERIC (AM_REGISTER OR OT_V) AM_NOT_USED AM_NOT_USED (Some ''dec''),
    opc 0 IT_GENERIC (AM_REGISTER OR OT_V) AM_NOT_USED AM_NOT_USED (Some ''dec''),
    opc 0 IT_GENERIC (AM_REGISTER OR OT_V) AM_NOT_USED AM_NOT_USED (Some ''dec''),
    opc 0 IT_GENERIC (AM_REGISTER OR OT_V) AM_NOT_USED AM_NOT_USED (Some ''dec'')]"

definition first_opcode_byte_50 :: "Opcode list" where
  "first_opcode_byte_50 = [
    opc 0 IT_GENERIC (AM_REGISTER OR OT_V) AM_NOT_USED AM_NOT_USED (Some ''push''),
    opc 0 IT_GENERIC (AM_REGISTER OR OT_V) AM_NOT_USED AM_NOT_USED (Some ''push''),
    opc 0 IT_GENERIC (AM_REGISTER OR OT_V) AM_NOT_USED AM_NOT_USED (Some ''push''),
    opc 0 IT_GENERIC (AM_REGISTER OR OT_V) AM_NOT_USED AM_NOT_USED (Some ''push''),
    opc 0 IT_GENERIC (AM_REGISTER OR OT_V) AM_NOT_USED AM_NOT_USED (Some ''push''),
    opc 0 IT_GENERIC (AM_REGISTER OR OT_V) AM_NOT_USED AM_NOT_USED (Some ''push''),
    opc 0 IT_GENERIC (AM_REGISTER OR OT_V) AM_NOT_USED AM_NOT_USED (Some ''push''),
    opc 0 IT_GENERIC (AM_REGISTER OR OT_V) AM_NOT_USED AM_NOT_USED (Some ''push''),
    opc 0 IT_GENERIC (AM_REGISTER OR OT_V) AM_NOT_USED AM_NOT_USED (Some ''pop''),
    opc 0 IT_GENERIC (AM_REGISTER OR OT_V) AM_NOT_USED AM_NOT_USED (Some ''pop''),
    opc 0 IT_GENERIC (AM_REGISTER OR OT_V) AM_NOT_USED AM_NOT_USED (Some ''pop''),
    opc 0 IT_GENERIC (AM_REGISTER OR OT_V) AM_NOT_USED AM_NOT_USED (Some ''pop''),
    opc 0 IT_GENERIC (AM_REGISTER OR OT_V) AM_NOT_USED AM_NOT_USED (Some ''pop''),
    opc 0 IT_GENERIC (AM_REGISTER OR OT_V) AM_NOT_USED AM_NOT_USED (Some ''pop''),
    opc 0 IT_GENERIC (AM_REGISTER OR OT_V) AM_NOT_USED AM_NOT_USED (Some ''pop''),
    opc 0 IT_GENERIC (AM_REGISTER OR OT_V) AM_NOT_USED AM_NOT_USED (Some ''pop''),
    opc 0 IT_GENERIC AM_NOT_USED AM_NOT_USED AM_NOT_USED (Some ''pushad''),
    opc 0 IT_GENERIC AM_NOT_USED AM_NOT_USED AM_NOT_USED (Some ''popad''),
    opc 0 IT_GENERIC (AM_G OR OT_V) (AM_M OR OT_A) AM_NOT_USED (Some ''bound''),
    opc 0 IT_GENERIC (AM_E OR OT_W) (AM_G OR OT_W) AM_NOT_USED (Some ''arpl''),
    opc 0 IT_PREFIX AM_NOT_USED AM_NOT_USED AM_NOT_USED None,
    opc 0 IT_PREFIX AM_NOT_USED AM_NOT_USED AM_NOT_USED None,
    opc 0 IT_PREFIX_OPERAND AM_NOT_USED AM_NOT_USED AM_NOT_USED None,
    opc 0 IT_PREFIX_ADDRESS AM_NOT_USED AM_NOT_USED AM_NOT_USED None,
    opc 0 IT_GENERIC (AM_I OR OT_V) AM_NOT_USED AM_NOT_USED (Some ''push''),
    opc 0 IT_GENERIC (AM_G OR OT_V) (AM_E OR OT_V) (AM_I OR OT_V) (Some ''imul''),
    opc 0 IT_GENERIC (AM_I OR OT_B) AM_NOT_USED AM_NOT_USED (Some ''push''),
    opc 0 IT_GENERIC (AM_G OR OT_V) (AM_E OR OT_V) (AM_I OR OT_B) (Some ''imul''),
    opc 0 IT_GENERIC (AM_Y OR OT_B) (AM_REGISTER OR OT_B) AM_NOT_USED (Some ''insb''),
    opc 0 IT_GENERIC (AM_Y OR OT_V) (AM_REGISTER OR OT_V) AM_NOT_USED (Some ''insd''),
    opc 0 IT_GENERIC (AM_REGISTER OR OT_B) (AM_X OR OT_B) AM_NOT_USED (Some ''outsb''),
    opc 0 IT_GENERIC (AM_REGISTER OR OT_V) (AM_X OR OT_V) AM_NOT_USED (Some ''outsb''),
    opc 0 IT_JUMP (AM_J OR OT_B) AM_NOT_USED AM_NOT_USED (Some ''jo''),
    opc 0 IT_JUMP (AM_J OR OT_B) AM_NOT_USED AM_NOT_USED (Some ''jno''),
    opc 0 IT_JUMP (AM_J OR OT_B) AM_NOT_USED AM_NOT_USED (Some ''jc''),
    opc 0 IT_JUMP (AM_J OR OT_B) AM_NOT_USED AM_NOT_USED (Some ''jnc''),
    opc 0 IT_JUMP (AM_J OR OT_B) AM_NOT_USED AM_NOT_USED (Some ''jz''),
    opc 0 IT_JUMP (AM_J OR OT_B) AM_NOT_USED AM_NOT_USED (Some ''jnz''),
    opc 0 IT_JUMP (AM_J OR OT_B) AM_NOT_USED AM_NOT_USED (Some ''jbe''),
    opc 0 IT_JUMP (AM_J OR OT_B) AM_NOT_USED AM_NOT_USED (Some ''ja''),
    opc 0 IT_JUMP (AM_J OR OT_B) AM_NOT_USED AM_NOT_USED (Some ''js''),
    opc 0 IT_JUMP (AM_J OR OT_B) AM_NOT_USED AM_NOT_USED (Some ''jns''),
    opc 0 IT_JUMP (AM_J OR OT_B) AM_NOT_USED AM_NOT_USED (Some ''jpe''),
    opc 0 IT_JUMP (AM_J OR OT_B) AM_NOT_USED AM_NOT_USED (Some ''jpo''),
    opc 0 IT_JUMP (AM_J OR OT_B) AM_NOT_USED AM_NOT_USED (Some ''jl''),
    opc 0 IT_JUMP (AM_J OR OT_B) AM_NOT_USED AM_NOT_USED (Some ''jge''),
    opc 0 IT_JUMP (AM_J OR OT_B) AM_NOT_USED AM_NOT_USED (Some ''jle''),
    opc 0 IT_JUMP (AM_J OR OT_B) AM_NOT_USED AM_NOT_USED (Some ''jg''),
    opc 2 IT_REFERENCE (AM_E OR OT_B) (AM_I OR OT_B) AM_NOT_USED None,
    opc 3 IT_REFERENCE (AM_E OR OT_V) (AM_I OR OT_V) AM_NOT_USED None,
    opc 4 IT_REFERENCE (AM_E OR OT_V) (AM_I OR OT_B) AM_NOT_USED None,
    opc 5 IT_REFERENCE (AM_E OR OT_V) (AM_I OR OT_B) AM_NOT_USED None,
    opc 0 IT_GENERIC (AM_E OR OT_B) (AM_G OR OT_B) AM_NOT_USED (Some ''test''),
    opc 0 IT_GENERIC (AM_E OR OT_V) (AM_G OR OT_V) AM_NOT_USED (Some ''test''),
    opc 0 IT_GENERIC (AM_E OR OT_B) (AM_G OR OT_B) AM_NOT_USED (Some ''xchg''),
    opc 0 IT_GENERIC (AM_E OR OT_V) (AM_G OR OT_V) AM_NOT_USED (Some ''xchg''),
    opc 0 IT_GENERIC (AM_E OR OT_B) (AM_G OR OT_B) AM_NOT_USED (Some ''mov''),
    opc 0 IT_GENERIC (AM_E OR OT_V) (AM_G OR OT_V) AM_NOT_USED (Some ''mov''),
    opc 0 IT_GENERIC (AM_G OR OT_B) (AM_E OR OT_B) AM_NOT_USED (Some ''mov''),
    opc 0 IT_GENERIC (AM_G OR OT_V) (AM_E OR OT_V) AM_NOT_USED (Some ''mov''),
    opc 0 IT_GENERIC (AM_E OR OT_W) (AM_S OR OT_W) AM_NOT_USED (Some ''mov''),
    opc 0 IT_GENERIC (AM_G OR OT_V) (AM_M OR OT_ADDRESS_MODE_M) AM_NOT_USED (Some ''lea''),
    opc 0 IT_GENERIC (AM_S OR OT_W) (AM_E OR OT_W) AM_NOT_USED (Some ''mov''),
    opc 0 IT_GENERIC (AM_E OR OT_V) AM_NOT_USED AM_NOT_USED (Some ''pop''),
    opc 0 IT_GENERIC AM_NOT_USED AM_NOT_USED AM_NOT_USED (Some ''nop''),
    opc 0 IT_GENERIC (AM_REGISTER OR OT_V) (AM_REGISTER OR OT_V) AM_NOT_USED (Some ''xchg''),
    opc 0 IT_GENERIC (AM_REGISTER OR OT_V) (AM_REGISTER OR OT_V) AM_NOT_USED (Some ''xchg''),
    opc 0 IT_GENERIC (AM_REGISTER OR OT_V) (AM_REGISTER OR OT_V) AM_NOT_USED (Some ''xchg''),
    opc 0 IT_GENERIC (AM_REGISTER OR OT_V) (AM_REGISTER OR OT_V) AM_NOT_USED (Some ''xchg''),
    opc 0 IT_GENERIC (AM_REGISTER OR OT_V) (AM_REGISTER OR OT_V) AM_NOT_USED (Some ''xchg''),
    opc 0 IT_GENERIC (AM_REGISTER OR OT_V) (AM_REGISTER OR OT_V) AM_NOT_USED (Some ''xchg''),
    opc 0 IT_GENERIC (AM_REGISTER OR OT_V) (AM_REGISTER OR OT_V) AM_NOT_USED (Some ''xchg''),
    opc 0 IT_GENERIC AM_NOT_USED AM_NOT_USED AM_NOT_USED (Some ''cwde''),
    opc 0 IT_GENERIC AM_NOT_USED AM_NOT_USED AM_NOT_USED (Some ''cdq''),
    opc 0 IT_JUMP (AM_A OR OT_P) AM_NOT_USED AM_NOT_USED (Some ''callf''),
    opc 0 IT_GENERIC AM_NOT_USED AM_NOT_USED AM_NOT_USED (Some ''wait''),
    opc 0 IT_GENERIC AM_NOT_USED AM_NOT_USED AM_NOT_USED (Some ''pushfd''),
    opc 0 IT_GENERIC AM_NOT_USED AM_NOT_USED AM_NOT_USED (Some ''popfd''),
    opc 0 IT_GENERIC AM_NOT_USED AM_NOT_USED AM_NOT_USED (Some ''sahf''),
    opc 0 IT_GENERIC AM_NOT_USED AM_NOT_USED AM_NOT_USED (Some ''lahf''),
    opc 0 IT_GENERIC (AM_REGISTER OR OT_B) (AM_O OR OT_B) AM_NOT_USED (Some ''mov''),
    opc 0 IT_GENERIC (AM_REGISTER OR OT_V) (AM_O OR OT_V) AM_NOT_USED (Some ''mov''),
    opc 0 IT_GENERIC (AM_O OR OT_B) (AM_REGISTER OR OT_B) AM_NOT_USED (Some ''mov''),
    opc 0 IT_GENERIC (AM_O OR OT_V) (AM_REGISTER OR OT_V) AM_NOT_USED (Some ''mov''),
    opc 0 IT_GENERIC (AM_X OR OT_B) (AM_Y OR OT_B) AM_NOT_USED (Some ''movsb''),
    opc 0 IT_GENERIC (AM_X OR OT_V) (AM_Y OR OT_V) AM_NOT_USED (Some ''movsd''),
    opc 0 IT_GENERIC (AM_X OR OT_B) (AM_Y OR OT_B) AM_NOT_USED (Some ''cmpsb''),
    opc 0 IT_GENERIC (AM_X OR OT_V) (AM_Y OR OT_V) AM_NOT_USED (Some ''cmpsd''),
    opc 0 IT_GENERIC (AM_REGISTER OR OT_B) (AM_I OR OT_B) AM_NOT_USED (Some ''test''),
    opc 0 IT_GENERIC (AM_REGISTER OR OT_V) (AM_I OR OT_V) AM_NOT_USED (Some ''test''),
    opc 0 IT_GENERIC (AM_Y OR OT_B) (AM_REGISTER OR OT_B) AM_NOT_USED (Some ''stosb''),
    opc 0 IT_GENERIC (AM_Y OR OT_V) (AM_REGISTER OR OT_V) AM_NOT_USED (Some ''stosd''),
    opc 0 IT_GENERIC (AM_REGISTER OR OT_B) (AM_X OR OT_B) AM_NOT_USED (Some ''lodsb''),
    opc 0 IT_GENERIC (AM_REGISTER OR OT_V) (AM_X OR OT_V) AM_NOT_USED (Some ''lodsd''),
    opc 0 IT_GENERIC (AM_REGISTER OR OT_B) (AM_Y OR OT_B) AM_NOT_USED (Some ''scasb''),
    opc 0 IT_GENERIC (AM_REGISTER OR OT_V) (AM_Y OR OT_V) AM_NOT_USED (Some ''scasd''),
    opc 0 IT_GENERIC (AM_REGISTER OR OT_B) (AM_I OR OT_B) AM_NOT_USED (Some ''mov''),
    opc 0 IT_GENERIC (AM_REGISTER OR OT_B) (AM_I OR OT_B) AM_NOT_USED (Some ''mov''),
    opc 0 IT_GENERIC (AM_REGISTER OR OT_B) (AM_I OR OT_B) AM_NOT_USED (Some ''mov''),
    opc 0 IT_GENERIC (AM_REGISTER OR OT_B) (AM_I OR OT_B) AM_NOT_USED (Some ''mov''),
    opc 0 IT_GENERIC (AM_REGISTER OR OT_B) (AM_I OR OT_B) AM_NOT_USED (Some ''mov''),
    opc 0 IT_GENERIC (AM_REGISTER OR OT_B) (AM_I OR OT_B) AM_NOT_USED (Some ''mov''),
    opc 0 IT_GENERIC (AM_REGISTER OR OT_B) (AM_I OR OT_B) AM_NOT_USED (Some ''mov''),
    opc 0 IT_GENERIC (AM_REGISTER OR OT_B) (AM_I OR OT_B) AM_NOT_USED (Some ''mov'')]"

definition first_opcode_byte_b8_x64 :: "Opcode list" where
  "first_opcode_byte_b8_x64 = [
    opc 0 IT_GENERIC (AM_REGISTER OR OT_V) (AM_I OR OT_V OR IOS_64) AM_NOT_USED (Some ''mov''),
    opc 0 IT_GENERIC (AM_REGISTER OR OT_V) (AM_I OR OT_V OR IOS_64) AM_NOT_USED (Some ''mov''),
    opc 0 IT_GENERIC (AM_REGISTER OR OT_V) (AM_I OR OT_V OR IOS_64) AM_NOT_USED (Some ''mov''),
    opc 0 IT_GENERIC (AM_REGISTER OR OT_V) (AM_I OR OT_V OR IOS_64) AM_NOT_USED (Some ''mov''),
    opc 0 IT_GENERIC (AM_REGISTER OR OT_V) (AM_I OR OT_V OR IOS_64) AM_NOT_USED (Some ''mov''),
    opc 0 IT_GENERIC (AM_REGISTER OR OT_V) (AM_I OR OT_V OR IOS_64) AM_NOT_USED (Some ''mov''),
    opc 0 IT_GENERIC (AM_REGISTER OR OT_V) (AM_I OR OT_V OR IOS_64) AM_NOT_USED (Some ''mov''),
    opc 0 IT_GENERIC (AM_REGISTER OR OT_V) (AM_I OR OT_V OR IOS_64) AM_NOT_USED (Some ''mov'')]"

definition first_opcode_byte_b8_x86 :: "Opcode list" where
  "first_opcode_byte_b8_x86 = [
    opc 0 IT_GENERIC (AM_REGISTER OR OT_V) (AM_I OR OT_V) AM_NOT_USED (Some ''mov''),
    opc 0 IT_GENERIC (AM_REGISTER OR OT_V) (AM_I OR OT_V) AM_NOT_USED (Some ''mov''),
    opc 0 IT_GENERIC (AM_REGISTER OR OT_V) (AM_I OR OT_V) AM_NOT_USED (Some ''mov''),
    opc 0 IT_GENERIC (AM_REGISTER OR OT_V) (AM_I OR OT_V) AM_NOT_USED (Some ''mov''),
    opc 0 IT_GENERIC (AM_REGISTER OR OT_V) (AM_I OR OT_V) AM_NOT_USED (Some ''mov''),
    opc 0 IT_GENERIC (AM_REGISTER OR OT_V) (AM_I OR OT_V) AM_NOT_USED (Some ''mov''),
    opc 0 IT_GENERIC (AM_REGISTER OR OT_V) (AM_I OR OT_V) AM_NOT_USED (Some ''mov''),
    opc 0 IT_GENERIC (AM_REGISTER OR OT_V) (AM_I OR OT_V) AM_NOT_USED (Some ''mov'')]"

definition first_opcode_byte_c0 :: "Opcode list" where
  "first_opcode_byte_c0 = [
    opc 6 IT_REFERENCE (AM_E OR OT_B) (AM_I OR OT_B) AM_NOT_USED None,
    opc 7 IT_REFERENCE (AM_E OR OT_V) (AM_I OR OT_B) AM_NOT_USED None,
    opc 0 IT_RETURN (AM_I OR OT_W) AM_NOT_USED AM_NOT_USED (Some ''ret''),
    opc 0 IT_RETURN AM_NOT_USED AM_NOT_USED AM_NOT_USED (Some ''ret''),
    opc 0 IT_GENERIC (AM_G OR OT_V) (AM_M OR OT_P) AM_NOT_USED (Some ''les''),
    opc 0 IT_GENERIC (AM_G OR OT_V) (AM_M OR OT_P) AM_NOT_USED (Some ''lds''),
    opc 0 IT_GENERIC (AM_E OR OT_B) (AM_I OR OT_B) AM_NOT_USED (Some ''mov''),
    opc 0 IT_GENERIC (AM_E OR OT_V) (AM_I OR OT_V) AM_NOT_USED (Some ''mov''),
    opc 0 IT_GENERIC (AM_I OR OT_W) (AM_I OR OT_B) AM_NOT_USED (Some ''enter''),
    opc 0 IT_GENERIC AM_NOT_USED AM_NOT_USED AM_NOT_USED (Some ''leave''),
    opc 0 IT_RETURN (AM_I OR OT_W) AM_NOT_USED AM_NOT_USED (Some ''retf''),
    opc 0 IT_RETURN AM_NOT_USED AM_NOT_USED AM_NOT_USED (Some ''retf''),
    opc 0 IT_GENERIC AM_NOT_USED AM_NOT_USED AM_NOT_USED (Some ''int3''),
    opc 0 IT_GENERIC (AM_I OR OT_B) AM_NOT_USED AM_NOT_USED (Some ''int''),
    opc 0 IT_GENERIC AM_NOT_USED AM_NOT_USED AM_NOT_USED (Some ''into''),
    opc 0 IT_GENERIC AM_NOT_USED AM_NOT_USED AM_NOT_USED (Some ''iret''),
    opc 8 IT_REFERENCE (AM_E OR OT_B) AM_NOT_USED AM_NOT_USED None,
    opc 9 IT_REFERENCE (AM_E OR OT_V) AM_NOT_USED AM_NOT_USED None,
    opc 10 IT_REFERENCE (AM_E OR OT_B) AM_NOT_USED AM_NOT_USED None,
    opc 11 IT_REFERENCE (AM_E OR OT_V) AM_NOT_USED AM_NOT_USED None,
    opc 0 IT_GENERIC (AM_I OR OT_B) AM_NOT_USED AM_NOT_USED (Some ''aam''),
    opc 0 IT_GENERIC (AM_I OR OT_B) AM_NOT_USED AM_NOT_USED (Some ''aad''),
    opc 0 IT_UNUSED AM_NOT_USED AM_NOT_USED AM_NOT_USED None,
    opc 0 IT_GENERIC AM_NOT_USED AM_NOT_USED AM_NOT_USED (Some ''xlat''),
    opc 0 IT_UNKNOWN AM_NOT_USED AM_NOT_USED AM_NOT_USED None,
    opc 0 IT_UNKNOWN AM_NOT_USED AM_NOT_USED AM_NOT_USED None,
    opc 0 IT_UNKNOWN AM_NOT_USED AM_NOT_USED AM_NOT_USED None,
    opc 0 IT_UNKNOWN AM_NOT_USED AM_NOT_USED AM_NOT_USED None,
    opc 0 IT_UNKNOWN AM_NOT_USED AM_NOT_USED AM_NOT_USED None,
    opc 0 IT_UNKNOWN AM_NOT_USED AM_NOT_USED AM_NOT_USED None,
    opc 0 IT_UNKNOWN AM_NOT_USED AM_NOT_USED AM_NOT_USED None,
    opc 0 IT_UNKNOWN AM_NOT_USED AM_NOT_USED AM_NOT_USED None,
    opc 0 IT_JUMP (AM_J OR OT_B) AM_NOT_USED AM_NOT_USED (Some ''loopnz''),
    opc 0 IT_JUMP (AM_J OR OT_B) AM_NOT_USED AM_NOT_USED (Some ''loopz''),
    opc 0 IT_JUMP (AM_J OR OT_B) AM_NOT_USED AM_NOT_USED (Some ''loop''),
    opc 0 IT_JUMP (AM_J OR OT_B) AM_NOT_USED AM_NOT_USED (Some ''jcxz''),
    opc 0 IT_GENERIC (AM_REGISTER OR OT_B) (AM_I OR OT_B) AM_NOT_USED (Some ''in''),
    opc 0 IT_GENERIC (AM_REGISTER OR OT_B) (AM_I OR OT_B) AM_NOT_USED (Some ''in''),
    opc 0 IT_GENERIC (AM_I OR OT_B) (AM_REGISTER OR OT_B) AM_NOT_USED (Some ''out''),
    opc 0 IT_GENERIC (AM_I OR OT_B) (AM_REGISTER OR OT_B) AM_NOT_USED (Some ''out''),
    opc 0 IT_JUMP (AM_J OR OT_V) AM_NOT_USED AM_NOT_USED (Some ''call''),
    opc 0 IT_JUMP (AM_J OR OT_V) AM_NOT_USED AM_NOT_USED (Some ''jmp''),
    opc 0 IT_JUMP (AM_A OR OT_P) AM_NOT_USED AM_NOT_USED (Some ''jmp''),
    opc 0 IT_JUMP (AM_J OR OT_B) AM_NOT_USED AM_NOT_USED (Some ''jmp''),
    opc 0 IT_GENERIC (AM_REGISTER OR OT_B) (AM_REGISTER OR OT_W) AM_NOT_USED (Some ''in''),
    opc 0 IT_GENERIC (AM_REGISTER OR OT_V) (AM_REGISTER OR OT_W) AM_NOT_USED (Some ''in''),
    opc 0 IT_GENERIC (AM_REGISTER OR OT_W) (AM_REGISTER OR OT_B) AM_NOT_USED (Some ''out''),
    opc 0 IT_GENERIC (AM_REGISTER OR OT_W) (AM_REGISTER OR OT_V) AM_NOT_USED (Some ''out''),
    opc 0 IT_PREFIX AM_NOT_USED AM_NOT_USED AM_NOT_USED (Some ''lock:''),
    opc 0 IT_UNUSED AM_NOT_USED AM_NOT_USED AM_NOT_USED None,
    opc 0 IT_PREFIX AM_NOT_USED AM_NOT_USED AM_NOT_USED (Some ''repne:''),
    opc 0 IT_PREFIX AM_NOT_USED AM_NOT_USED AM_NOT_USED (Some ''rep:''),
    opc 0 IT_GENERIC AM_NOT_USED AM_NOT_USED AM_NOT_USED (Some ''hlt''),
    opc 0 IT_GENERIC AM_NOT_USED AM_NOT_USED AM_NOT_USED (Some ''cmc''),
    opc 12 IT_REFERENCE (AM_E OR OT_B) AM_NOT_USED AM_NOT_USED None,
    opc 13 IT_REFERENCE (AM_E OR OT_V) AM_NOT_USED AM_NOT_USED None,
    opc 0 IT_GENERIC AM_NOT_USED AM_NOT_USED AM_NOT_USED (Some ''clc''),
    opc 0 IT_GENERIC AM_NOT_USED AM_NOT_USED AM_NOT_USED (Some ''stc''),
    opc 0 IT_GENERIC AM_NOT_USED AM_NOT_USED AM_NOT_USED (Some ''cli''),
    opc 0 IT_GENERIC AM_NOT_USED AM_NOT_USED AM_NOT_USED (Some ''sti''),
    opc 0 IT_GENERIC AM_NOT_USED AM_NOT_USED AM_NOT_USED (Some ''cld''),
    opc 0 IT_GENERIC AM_NOT_USED AM_NOT_USED AM_NOT_USED (Some ''std''),
    opc 14 IT_REFERENCE AM_NOT_USED AM_NOT_USED AM_NOT_USED None,
    opc 15 IT_REFERENCE AM_NOT_USED AM_NOT_USED AM_NOT_USED None]"

definition s_first_opcode_byte :: "bool \<Rightarrow> Opcode list" where
  "s_first_opcode_byte x64 =
     first_opcode_byte_00 @
     (if x64 then first_opcode_byte_40_x64 else first_opcode_byte_40_x86) @
     first_opcode_byte_50 @
     (if x64 then first_opcode_byte_b8_x64 else first_opcode_byte_b8_x86) @
     first_opcode_byte_c0"

section \<open>Second opcode byte\<close>

definition opcode_byte_after_0f_00 :: "Opcode list" where
  "opcode_byte_after_0f_00 = [
    opc 16 IT_REFERENCE AM_NOT_USED AM_NOT_USED AM_NOT_USED None,
    opc 17 IT_REFERENCE AM_NOT_USED AM_NOT_USED AM_NOT_USED None,
    opc 0 IT_GENERIC (AM_G OR OT_V) (AM_E OR OT_W) AM_NOT_USED (Some ''lar''),
    opc 0 IT_GENERIC (AM_G OR OT_V) (AM_E OR OT_W) AM_NOT_USED (Some ''lsl''),
    opc 0 IT_UNUSED AM_NOT_USED AM_NOT_USED AM_NOT_USED None,
    opc 0 IT_UNUSED AM_NOT_USED AM_NOT_USED AM_NOT_USED None,
    opc 0 IT_GENERIC AM_NOT_USED AM_NOT_USED AM_NOT_USED (Some ''clts''),
    opc 0 IT_UNUSED AM_NOT_USED AM_NOT_USED AM_NOT_USED None,
    opc 0 IT_GENERIC AM_NOT_USED AM_NOT_USED AM_NOT_USED (Some ''invd''),
    opc 0 IT_GENERIC AM_NOT_USED AM_NOT_USED AM_NOT_USED (Some ''wbinvd''),
    opc 0 IT_UNUSED AM_NOT_USED AM_NOT_USED AM_NOT_USED None,
    opc 0 IT_UNUSED AM_NOT_USED AM_NOT_USED AM_NOT_USED (Some ''ud2''),
    opc 0 IT_UNUSED AM_NOT_USED AM_NOT_USED AM_NOT_USED None,
    opc 0 IT_UNUSED AM_NOT_USED AM_NOT_USED AM_NOT_USED None,
    opc 0 IT_UNUSED AM_NOT_USED AM_NOT_USED AM_NOT_USED None,
    opc 0 IT_UNUSED AM_NOT_USED AM_NOT_USED AM_NOT_USED None,
    opp 0 IT_GENERIC (AM_V OR OT_PS) (AM_W OR OT_PS) AM_NOT_USED (Some ''movups'') (spc 0 IT_GENERIC (AM_V OR OT_SD) (AM_W OR OT_SD) AM_NOT_USED (Some ''movsd'')) (spc 0 IT_GENERIC (AM_V OR OT_SS) (AM_W OR OT_SS) AM_NOT_USED (Some ''movss'')) (spc 0 IT_GENERIC (AM_V OR OT_PD) (AM_W OR OT_PD) AM_NOT_USED (Some ''movupd'')),
    opp 0 IT_GENERIC (AM_W OR OT_PS) (AM_V OR OT_PS) AM_NOT_USED (Some ''movups'') (spc 0 IT_GENERIC (AM_W OR OT_SD) (AM_V OR OT_SD) AM_NOT_USED (Some ''movsd'')) (spc 0 IT_GENERIC (AM_W OR OT_SS) (AM_V OR OT_SS) AM_NOT_USED (Some ''movss'')) (spc 0 IT_GENERIC (AM_W OR OT_PD) (AM_V OR OT_PD) AM_NOT_USED (Some ''movupd'')),
    opp 0 IT_GENERIC (AM_W OR OT_Q) (AM_V OR OT_Q) AM_NOT_USED (Some ''movlps'') (spc 0 IT_GENERIC (AM_V OR OT_Q) (AM_V OR OT_Q) AM_NOT_USED (Some ''movhlps'')) (spc 0 IT_GENERIC (AM_V OR OT_Q) (AM_V OR OT_Q) AM_NOT_USED (Some ''movhlps'')) (spc 0 IT_GENERIC (AM_V OR OT_Q) (AM_W OR OT_S) AM_NOT_USED (Some ''movlpd'')),
    opp 0 IT_GENERIC (AM_V OR OT_Q) (AM_W OR OT_Q) AM_NOT_USED (Some ''movlps'') no_opcode no_opcode (spc 0 IT_GENERIC (AM_V OR OT_Q) (AM_W OR OT_Q) AM_NOT_USED (Some ''movlpd'')),
    opp 0 IT_GENERIC (AM_V OR OT_PS) (AM_W OR OT_Q) AM_NOT_USED (Some ''unpcklps'') no_opcode no_opcode (spc 0 IT_GENERIC (AM_V OR OT_PD) (AM_W OR OT_Q) AM_NOT_USED (Some ''unpcklpd'')),
    opp 0 IT_GENERIC (AM_V OR OT_PS) (AM_W OR OT_Q) AM_NOT_USED (Some ''unpckhps'') no_opcode no_opcode (spc 0 IT_GENERIC (AM_V OR OT_PD) (AM_W OR OT_Q) AM_NOT_USED (Some ''unpckhpd'')),
    opp 0 IT_GENERIC (AM_V OR OT_Q) (AM_W OR OT_Q) AM_NOT_USED (Some ''movhps'') (spc 0 IT_GENERIC (AM_V OR OT_Q) (AM_V OR OT_Q) AM_NOT_USED (Some ''movlhps'')) (spc 0 IT_GENERIC (AM_V OR OT_Q) (AM_V OR OT_Q) AM_NOT_USED (Some ''movlhps'')) (spc 0 IT_GENERIC (AM_V OR OT_Q) (AM_W OR OT_Q) AM_NOT_USED (Some ''movhpd'')),
    opp 0 IT_GENERIC (AM_W OR OT_Q) (AM_V OR OT_Q) AM_NOT_USED (Some ''movhps'') no_opcode no_opcode (spc 0 IT_GENERIC (AM_W OR OT_Q) (AM_V OR OT_Q) AM_NOT_USED (Some ''movhpd'')),
    opc 18 IT_REFERENCE AM_NOT_USED AM_NOT_USED AM_NOT_USED None,
    opc 0 IT_UNUSED AM_NOT_USED AM_NOT_USED AM_NOT_USED None,
    opc 0 IT_UNUSED AM_NOT_USED AM_NOT_USED AM_NOT_USED None,
    opc 0 IT_UNUSED AM_NOT_USED AM_NOT_USED AM_NOT_USED None,
    opc 0 IT_UNUSED AM_NOT_USED AM_NOT_USED AM_NOT_USED None,
    opc 0 IT_UNUSED AM_NOT_USED AM_NOT_USED AM_NOT_USED None,
    opc 0 IT_UNUSED AM_NOT_USED AM_NOT_USED AM_NOT_USED None,
    opc 0 IT_UNUSED AM_NOT_USED AM_NOT_USED AM_NOT_USED None,
    opc 0 IT_GENERIC (AM_R OR OT_D) (AM_C OR OT_D) AM_NOT_USED (Some ''mov''),
    opc 0 IT_GENERIC (AM_R OR OT_D) (AM_D OR OT_D) AM_NOT_USED (Some ''mov''),
    opc 0 IT_GENERIC (AM_C OR OT_D) (AM_R OR OT_D) AM_NOT_USED (Some ''mov''),
    opc 0 IT_GENERIC (AM_D OR OT_D) (AM_R OR OT_D) AM_NOT_USED (Some ''mov''),
    opc 0 IT_UNUSED AM_NOT_USED AM_NOT_USED AM_NOT_USED None,
    opc 0 IT_UNUSED AM_NOT_USED AM_NOT_USED AM_NOT_USED None,
    opc 0 IT_UNUSED AM_NOT_USED AM_NOT_USED AM_NOT_USED None,
    opc 0 IT_UNUSED AM_NOT_USED AM_NOT_USED AM_NOT_USED None,
    opp 0 IT_GENERIC (AM_V OR OT_PS) (AM_W OR OT_PS) AM_NOT_USED (Some ''movaps'') no_opcode no_opcode (spc 0 IT_GENERIC (AM_V OR OT_PD) (AM_W OR OT_PD) AM_NOT_USED (Some ''movapd'')),
    opp 0 IT_GENERIC (AM_W OR OT_PS) (AM_V OR OT_PS) AM_NOT_USED (Some ''movaps'') no_opcode no_opcode (spc 0 IT_GENERIC (AM_W OR OT_PD) (AM_V OR OT_PD) AM_NOT_USED (Some ''movapd'')),
    opp 0 IT_GENERIC (AM_V OR OT_PS) (AM_Q OR OT_Q) AM_NOT_USED (Some ''cvtpi2ps'') (spc 0 IT_GENERIC (AM_V OR OT_SD) (AM_E OR OT_D) AM_NOT_USED (Some ''cvtsi2sd'')) (spc 0 IT_GENERIC (AM_V OR OT_SS) (AM_E OR OT_D) AM_NOT_USED (Some ''cvtsi2ss'')) (spc 0 IT_GENERIC (AM_V OR OT_PD) (AM_Q OR OT_DQ) AM_NOT_USED (Some ''cvtpi2pd'')),
    opp 0 IT_GENERIC (AM_W OR OT_PS) (AM_V OR OT_PS) AM_NOT_USED (Some ''movntps'') no_opcode no_opcode (spc 0 IT_GENERIC (AM_W OR OT_PD) (AM_V OR OT_PD) AM_NOT_USED (Some ''movntpd'')),
    opp 0 IT_GENERIC (AM_Q OR OT_Q) (AM_W OR OT_PS) AM_NOT_USED (Some ''cvttps2pi'') (spc 0 IT_GENERIC (AM_G OR OT_D) (AM_W OR OT_SD) AM_NOT_USED (Some ''cvttsd2si'')) (spc 0 IT_GENERIC (AM_G OR OT_D) (AM_W OR OT_SS) AM_NOT_USED (Some ''cvttss2si'')) (spc 0 IT_GENERIC (AM_Q OR OT_DQ) (AM_W OR OT_PD) AM_NOT_USED (Some ''cvttpd2pi'')),
    opp 0 IT_GENERIC (AM_Q OR OT_Q) (AM_W OR OT_PS) AM_NOT_USED (Some ''cvtps2pi'') (spc 0 IT_GENERIC (AM_G OR OT_D) (AM_W OR OT_SD) AM_NOT_USED (Some ''cvtsd2si'')) (spc 0 IT_GENERIC (AM_G OR OT_D) (AM_W OR OT_SS) AM_NOT_USED (Some ''cvtss2si'')) (spc 0 IT_GENERIC (AM_Q OR OT_DQ) (AM_W OR OT_PD) AM_NOT_USED (Some ''cvtpd2pi'')),
    opp 0 IT_GENERIC (AM_V OR OT_SS) (AM_W OR OT_SS) AM_NOT_USED (Some ''ucomiss'') no_opcode no_opcode (spc 0 IT_GENERIC (AM_V OR OT_SD) (AM_W OR OT_SD) AM_NOT_USED (Some ''ucomisd'')),
    opp 0 IT_GENERIC (AM_V OR OT_PS) (AM_W OR OT_SS) AM_NOT_USED (Some ''comiss'') no_opcode no_opcode (spc 0 IT_GENERIC (AM_V OR OT_SD) (AM_W OR OT_SD) AM_NOT_USED (Some ''comisd'')),
    opc 0 IT_GENERIC AM_NOT_USED AM_NOT_USED AM_NOT_USED (Some ''wrmsr''),
    opc 0 IT_GENERIC AM_NOT_USED AM_NOT_USED AM_NOT_USED (Some ''rdtsc''),
    opc 0 IT_GENERIC AM_NOT_USED AM_NOT_USED AM_NOT_USED (Some ''rdmsr''),
    opc 0 IT_GENERIC AM_NOT_USED AM_NOT_USED AM_NOT_USED (Some ''rdpmc''),
    opc 0 IT_GENERIC AM_NOT_USED AM_NOT_USED AM_NOT_USED (Some ''sysenter''),
    opc 0 IT_GENERIC AM_NOT_USED AM_NOT_USED AM_NOT_USED (Some ''sysexit''),
    opc 0 IT_UNUSED AM_NOT_USED AM_NOT_USED AM_NOT_USED None,
    opc 0 IT_UNUSED AM_NOT_USED AM_NOT_USED AM_NOT_USED None,
    opc 0 IT_UNUSED AM_NOT_USED AM_NOT_USED AM_NOT_USED None,
    opc 0 IT_UNUSED AM_NOT_USED AM_NOT_USED AM_NOT_USED None,
    opc 0 IT_UNUSED AM_NOT_USED AM_NOT_USED AM_NOT_USED None,
    opc 0 IT_UNUSED AM_NOT_USED AM_NOT_USED AM_NOT_USED None,
    opc 0 IT_GENERIC (AM_G OR OT_V) (AM_E OR OT_V) AM_NOT_USED (Some ''movnti''),
    opc 0 IT_UNUSED AM_NOT_USED AM_NOT_USED AM_NOT_USED None,
    opc 0 IT_UNUSED AM_NOT_USED AM_NOT_USED AM_NOT_USED None,
    opc 0 IT_UNUSED AM_NOT_USED AM_NOT_USED AM_NOT_USED None,
    opc 0 IT_GENERIC (AM_G OR OT_V) (AM_E OR OT_V) AM_NOT_USED (Some ''cmovo''),
    opc 0 IT_GENERIC (AM_G OR OT_V) (AM_E OR OT_V) AM_NOT_USED (Some ''cmovno''),
    opc 0 IT_GENERIC (AM_G OR OT_V) (AM_E OR OT_V) AM_NOT_USED (Some ''cmovc''),
    opc 0 IT_GENERIC (AM_G OR OT_V) (AM_E OR OT_V) AM_NOT_USED (Some ''cmovnc''),
    opc 0 IT_GENERIC (AM_G OR OT_V) (AM_E OR OT_V) AM_NOT_USED (Some ''cmovz''),
    opc 0 IT_GENERIC (AM_G OR OT_V) (AM_E OR OT_V) AM_NOT_USED (Some ''cmovnz''),
    opc 0 IT_GENERIC (AM_G OR OT_V) (AM_E OR OT_V) AM_NOT_USED (Some ''cmovbe''),
    opc 0 IT_GENERIC (AM_G OR OT_V) (AM_E OR OT_V) AM_NOT_USED (Some ''cmova''),
    opc 0 IT_GENERIC (AM_G OR OT_V) (AM_E OR OT_V) AM_NOT_USED (Some ''cmovs''),
    opc 0 IT_GENERIC (AM_G OR OT_V) (AM_E OR OT_V) AM_NOT_USED (Some ''cmovns''),
    opc 0 IT_GENERIC (AM_G OR OT_V) (AM_E OR OT_V) AM_NOT_USED (Some ''cmovpe''),
    opc 0 IT_GENERIC (AM_G OR OT_V) (AM_E OR OT_V) AM_NOT_USED (Some ''cmovpo''),
    opc 0 IT_GENERIC (AM_G OR OT_V) (AM_E OR OT_V) AM_NOT_USED (Some ''cmovl''),
    opc 0 IT_GENERIC (AM_G OR OT_V) (AM_E OR OT_V) AM_NOT_USED (Some ''cmovge''),
    opc 0 IT_GENERIC (AM_G OR OT_V) (AM_E OR OT_V) AM_NOT_USED (Some ''cmovle''),
    opc 0 IT_GENERIC (AM_G OR OT_V) (AM_E OR OT_V) AM_NOT_USED (Some ''cmovg''),
    opp 0 IT_GENERIC (AM_E OR OT_D) (AM_V OR OT_PS) AM_NOT_USED (Some ''movmskps'') no_opcode no_opcode (spc 0 IT_GENERIC (AM_E OR OT_D) (AM_V OR OT_PD) AM_NOT_USED (Some ''movmskpd'')),
    opp 0 IT_GENERIC (AM_V OR OT_PS) (AM_W OR OT_PS) AM_NOT_USED (Some ''sqrtps'') (spc 0 IT_GENERIC (AM_V OR OT_SD) (AM_W OR OT_SD) AM_NOT_USED (Some ''sqrtsd'')) (spc 0 IT_GENERIC (AM_V OR OT_SS) (AM_W OR OT_SS) AM_NOT_USED (Some ''sqrtss'')) (spc 0 IT_GENERIC (AM_V OR OT_PD) (AM_W OR OT_PD) AM_NOT_USED (Some ''sqrtpd'')),
    opp 0 IT_GENERIC (AM_V OR OT_PS) (AM_W OR OT_PS) AM_NOT_USED (Some ''rsqrtps'') no_opcode (spc 0 IT_GENERIC (AM_V OR OT_SS) (AM_W OR OT_SS) AM_NOT_USED (Some ''rsqrtss'')) no_opcode,
    opp 0 IT_GENERIC (AM_V OR OT_PS) (AM_W OR OT_PS) AM_NOT_USED (Some ''rcpps'') no_opcode (spc 0 IT_GENERIC (AM_V OR OT_SS) (AM_W OR OT_SS) AM_NOT_USED (Some ''rcpss'')) no_opcode,
    opp 0 IT_GENERIC (AM_V OR OT_PS) (AM_W OR OT_PS) AM_NOT_USED (Some ''andps'') no_opcode no_opcode (spc 0 IT_GENERIC (AM_V OR OT_PD) (AM_W OR OT_PD) AM_NOT_USED (Some ''andpd''))]"

definition opcode_byte_after_0f_55 :: "Opcode list" where
  "opcode_byte_after_0f_55 = [
    opp 0 IT_GENERIC (AM_V OR OT_PS) (AM_W OR OT_PS) AM_NOT_USED (Some ''andnps'') no_opcode no_opcode (spc 0 IT_GENERIC (AM_V OR OT_PD) (AM_W OR OT_PD) AM_NOT_USED (Some ''andnpd'')),
    opp 0 IT_GENERIC (AM_V OR OT_PS) (AM_W OR OT_PS) AM_NOT_USED (Some ''orps'') no_opcode no_opcode (spc 0 IT_GENERIC (AM_V OR OT_PD) (AM_W OR OT_PD) AM_NOT_USED (Some ''orpd'')),
    opp 0 IT_GENERIC (AM_V OR OT_PS) (AM_W OR OT_PS) AM_NOT_USED (Some ''xorps'') no_opcode no_opcode (spc 0 IT_GENERIC (AM_V OR OT_PD) (AM_W OR OT_PD) AM_NOT_USED (Some ''xorpd'')),
    opp 0 IT_GENERIC (AM_V OR OT_PS) (AM_W OR OT_PS) AM_NOT_USED (Some ''addps'') (spc 0 IT_GENERIC (AM_V OR OT_SD) (AM_W OR OT_SD) AM_NOT_USED (Some ''addsd'')) (spc 0 IT_GENERIC (AM_V OR OT_SS) (AM_W OR OT_SS) AM_NOT_USED (Some ''addss'')) (spc 0 IT_GENERIC (AM_V OR OT_PD) (AM_W OR OT_PD) AM_NOT_USED (Some ''addpd'')),
    opp 0 IT_GENERIC (AM_V OR OT_PS) (AM_W OR OT_PS) AM_NOT_USED (Some ''mulps'') (spc 0 IT_GENERIC (AM_V OR OT_SD) (AM_W OR OT_SD) AM_NOT_USED (Some ''mulsd'')) (spc 0 IT_GENERIC (AM_V OR OT_SS) (AM_W OR OT_SS) AM_NOT_USED (Some ''mulss'')) (spc 0 IT_GENERIC (AM_V OR OT_PD) (AM_W OR OT_PD) AM_NOT_USED (Some ''mulpd'')),
    opp 0 IT_GENERIC (AM_V OR OT_PD) (AM_W OR OT_PS) AM_NOT_USED (Some ''cvtps2pd'') (spc 0 IT_GENERIC (AM_V OR OT_SD) (AM_W OR OT_SD) AM_NOT_USED (Some ''cvtsd2ss'')) (spc 0 IT_GENERIC (AM_V OR OT_SS) (AM_W OR OT_SS) AM_NOT_USED (Some ''cvtss2sd'')) (spc 0 IT_GENERIC (AM_V OR OT_PS) (AM_W OR OT_PD) AM_NOT_USED (Some ''cvtpd2ps'')),
    opp 0 IT_GENERIC (AM_V OR OT_PS) (AM_W OR OT_DQ) AM_NOT_USED (Some ''cvtdq2ps'') no_opcode (spc 0 IT_GENERIC (AM_V OR OT_DQ) (AM_W OR OT_PS) AM_NOT_USED (Some ''cvttps2dq'')) (spc 0 IT_GENERIC (AM_V OR OT_DQ) (AM_W OR OT_PS) AM_NOT_USED (Some ''cvtps2dq'')),
    opp 0 IT_GENERIC (AM_V OR OT_PS) (AM_W OR OT_PS) AM_NOT_USED (Some ''subps'') (spc 0 IT_GENERIC (AM_V OR OT_SD) (AM_W OR OT_SD) AM_NOT_USED (Some ''subsd'')) (spc 0 IT_GENERIC (AM_V OR OT_SS) (AM_W OR OT_SS) AM_NOT_USED (Some ''subss'')) (spc 0 IT_GENERIC (AM_V OR OT_PD) (AM_W OR OT_PD) AM_NOT_USED (Some ''subpd'')),
    opp 0 IT_GENERIC (AM_V OR OT_PS) (AM_W OR OT_PS) AM_NOT_USED (Some ''minps'') (spc 0 IT_GENERIC (AM_V OR OT_SD) (AM_W OR OT_SD) AM_NOT_USED (Some ''minsd'')) (spc 0 IT_GENERIC (AM_V OR OT_SS) (AM_W OR OT_SS) AM_NOT_USED (Some ''minss'')) (spc 0 IT_GENERIC (AM_V OR OT_PD) (AM_W OR OT_PD) AM_NOT_USED (Some ''minpd'')),
    opp 0 IT_GENERIC (AM_V OR OT_PS) (AM_W OR OT_PS) AM_NOT_USED (Some ''divps'') (spc 0 IT_GENERIC (AM_V OR OT_SD) (AM_W OR OT_SD) AM_NOT_USED (Some ''divsd'')) (spc 0 IT_GENERIC (AM_V OR OT_SS) (AM_W OR OT_SS) AM_NOT_USED (Some ''divss'')) (spc 0 IT_GENERIC (AM_V OR OT_PD) (AM_W OR OT_PD) AM_NOT_USED (Some ''divpd'')),
    opp 0 IT_GENERIC (AM_V OR OT_PS) (AM_W OR OT_PS) AM_NOT_USED (Some ''maxps'') (spc 0 IT_GENERIC (AM_V OR OT_SD) (AM_W OR OT_SD) AM_NOT_USED (Some ''maxsd'')) (spc 0 IT_GENERIC (AM_V OR OT_SS) (AM_W OR OT_SS) AM_NOT_USED (Some ''maxss'')) (spc 0 IT_GENERIC (AM_V OR OT_PD) (AM_W OR OT_PD) AM_NOT_USED (Some ''maxpd'')),
    opp 0 IT_GENERIC (AM_P OR OT_Q) (AM_Q OR OT_D) AM_NOT_USED (Some ''punpcklbw'') no_opcode no_opcode (spc 0 IT_GENERIC (AM_V OR OT_DQ) (AM_W OR OT_DQ) AM_NOT_USED (Some ''punpcklbw'')),
    opp 0 IT_GENERIC (AM_P OR OT_Q) (AM_Q OR OT_D) AM_NOT_USED (Some ''punpcklwd'') no_opcode no_opcode (spc 0 IT_GENERIC (AM_V OR OT_DQ) (AM_W OR OT_DQ) AM_NOT_USED (Some ''punpcklwd'')),
    opp 0 IT_GENERIC (AM_P OR OT_Q) (AM_Q OR OT_D) AM_NOT_USED (Some ''punpckldq'') no_opcode no_opcode (spc 0 IT_GENERIC (AM_V OR OT_DQ) (AM_W OR OT_DQ) AM_NOT_USED (Some ''punpckldq'')),
    opp 0 IT_GENERIC (AM_P OR OT_Q) (AM_Q OR OT_D) AM_NOT_USED (Some ''packsswb'') no_opcode no_opcode (spc 0 IT_GENERIC (AM_V OR OT_DQ) (AM_W OR OT_DQ) AM_NOT_USED (Some ''packsswb'')),
    opp 0 IT_GENERIC (AM_P OR OT_Q) (AM_Q OR OT_D) AM_NOT_USED (Some ''pcmpgtb'') no_opcode no_opcode (spc 0 IT_GENERIC (AM_V OR OT_DQ) (AM_W OR OT_DQ) AM_NOT_USED (Some ''pcmpgtb'')),
    opp 0 IT_GENERIC (AM_P OR OT_Q) (AM_Q OR OT_D) AM_NOT_USED (Some ''pcmpgtw'') no_opcode no_opcode (spc 0 IT_GENERIC (AM_V OR OT_DQ) (AM_W OR OT_DQ) AM_NOT_USED (Some ''pcmpgtw'')),
    opp 0 IT_GENERIC (AM_P OR OT_Q) (AM_Q OR OT_D) AM_NOT_USED (Some ''pcmpgtd'') no_opcode no_opcode (spc 0 IT_GENERIC (AM_V OR OT_DQ) (AM_W OR OT_DQ) AM_NOT_USED (Some ''pcmpgtd'')),
    opp 0 IT_GENERIC (AM_P OR OT_Q) (AM_Q OR OT_D) AM_NOT_USED (Some ''packuswb'') no_opcode no_opcode (spc 0 IT_GENERIC (AM_V OR OT_DQ) (AM_W OR OT_DQ) AM_NOT_USED (Some ''packuswb'')),
    opp 0 IT_GENERIC (AM_P OR OT_Q) (AM_Q OR OT_D) AM_NOT_USED (Some ''punpckhbw'') no_opcode no_opcode (spc 0 IT_GENERIC (AM_P OR OT_DQ) (AM_Q OR OT_DQ) AM_NOT_USED (Some ''punpckhbw'')),
    opp 0 IT_GENERIC (AM_P OR OT_Q) (AM_Q OR OT_D) AM_NOT_USED (Some ''punpckhwd'') no_opcode no_opcode (spc 0 IT_GENERIC (AM_P OR OT_DQ) (AM_Q OR OT_DQ) AM_NOT_USED (Some ''punpckhwd'')),
    opp 0 IT_GENERIC (AM_P OR OT_Q) (AM_Q OR OT_D) AM_NOT_USED (Some ''punpckhdq'') no_opcode no_opcode (spc 0 IT_GENERIC (AM_P OR OT_DQ) (AM_Q OR OT_DQ) AM_NOT_USED (Some ''punpckhdq'')),
    opp 0 IT_GENERIC (AM_P OR OT_Q) (AM_Q OR OT_D) AM_NOT_USED (Some ''packssdw'') no_opcode no_opcode (spc 0 IT_GENERIC (AM_P OR OT_DQ) (AM_Q OR OT_DQ) AM_NOT_USED (Some ''packssdw'')),
    opp 0 IT_GENERIC AM_NOT_USED AM_NOT_USED AM_NOT_USED (Some ''not used without prefix'') no_opcode no_opcode (spc 0 IT_GENERIC (AM_V OR OT_DQ) (AM_W OR OT_DQ) AM_NOT_USED (Some ''punpcklqdq'')),
    opp 0 IT_GENERIC AM_NOT_USED AM_NOT_USED AM_NOT_USED (Some ''not used without prefix'') no_opcode no_opcode (spc 0 IT_GENERIC (AM_V OR OT_DQ) (AM_W OR OT_DQ) AM_NOT_USED (Some ''punpcklqdq'')),
    opp 0 IT_GENERIC (AM_P OR OT_D) (AM_E OR OT_D) AM_NOT_USED (Some ''movd'') no_opcode no_opcode (spc 0 IT_GENERIC (AM_V OR OT_DQ) (AM_E OR OT_D) AM_NOT_USED (Some ''movd'')),
    opp 0 IT_GENERIC (AM_P OR OT_Q) (AM_Q OR OT_D) AM_NOT_USED (Some ''movq'') no_opcode (spc 0 IT_GENERIC (AM_V OR OT_DQ) (AM_W OR OT_DQ) AM_NOT_USED (Some ''movdqu'')) (spc 0 IT_GENERIC (AM_V OR OT_DQ) (AM_W OR OT_DQ) AM_NOT_USED (Some ''movdqa'')),
    opp 0 IT_GENERIC (AM_P OR OT_Q) (AM_Q OR OT_Q) (AM_I OR OT_B) (Some ''pshuf'') (spc 0 IT_GENERIC (AM_V OR OT_DQ) (AM_W OR OT_DQ) (AM_I OR OT_B) (Some ''pshuflw'')) (spc 0 IT_GENERIC (AM_V OR OT_DQ) (AM_W OR OT_DQ) (AM_I OR OT_B) (Some ''pshufhw'')) (spc 0 IT_GENERIC (AM_V OR OT_DQ) (AM_W OR OT_DQ) (AM_I OR OT_B) (Some ''pshufd'')),
    opc 19 IT_REFERENCE AM_NOT_USED AM_NOT_USED AM_NOT_USED None,
    opc 20 IT_REFERENCE AM_NOT_USED AM_NOT_USED AM_NOT_USED None,
    opc 21 IT_REFERENCE AM_NOT_USED AM_NOT_USED AM_NOT_USED None,
    opp 0 IT_GENERIC (AM_P OR OT_Q) (AM_Q OR OT_Q) AM_NOT_USED (Some ''pcmpeqb'') no_opcode no_opcode (spc 0 IT_GENERIC (AM_V OR OT_DQ) (AM_W OR OT_DQ) AM_NOT_USED (Some ''pcmpeqb'')),
    opp 0 IT_GENERIC (AM_P OR OT_Q) (AM_Q OR OT_Q) AM_NOT_USED (Some ''pcmpeqw'') no_opcode no_opcode (spc 0 IT_GENERIC (AM_V OR OT_DQ) (AM_W OR OT_DQ) AM_NOT_USED (Some ''pcmpeqw'')),
    opp 0 IT_GENERIC (AM_P OR OT_Q) (AM_Q OR OT_Q) AM_NOT_USED (Some ''pcmpeqd'') no_opcode no_opcode (spc 0 IT_GENERIC (AM_V OR OT_DQ) (AM_W OR OT_DQ) AM_NOT_USED (Some ''pcmpeqd'')),
    opc 0 IT_GENERIC AM_NOT_USED AM_NOT_USED AM_NOT_USED (Some ''emms''),
    opc 0 IT_UNKNOWN AM_NOT_USED AM_NOT_USED AM_NOT_USED None,
    opc 0 IT_UNKNOWN AM_NOT_USED AM_NOT_USED AM_NOT_USED None,
    opc 0 IT_UNKNOWN AM_NOT_USED AM_NOT_USED AM_NOT_USED None,
    opc 0 IT_UNKNOWN AM_NOT_USED AM_NOT_USED AM_NOT_USED None,
    opc 0 IT_UNKNOWN AM_NOT_USED AM_NOT_USED AM_NOT_USED None,
    opc 0 IT_UNKNOWN AM_NOT_USED AM_NOT_USED AM_NOT_USED None,
    opp 0 IT_GENERIC (AM_E OR OT_D) (AM_P OR OT_D) AM_NOT_USED (Some ''movd'') no_opcode (spc 0 IT_GENERIC (AM_V OR OT_Q) (AM_W OR OT_Q) AM_NOT_USED (Some ''movq'')) (spc 0 IT_GENERIC (AM_E OR OT_D) (AM_V OR OT_DQ) AM_NOT_USED (Some ''movd'')),
    opp 0 IT_GENERIC (AM_Q OR OT_Q) (AM_P OR OT_Q) AM_NOT_USED (Some ''movq'') no_opcode (spc 0 IT_GENERIC (AM_W OR OT_DQ) (AM_V OR OT_DQ) AM_NOT_USED (Some ''movdqu'')) (spc 0 IT_GENERIC (AM_W OR OT_DQ) (AM_V OR OT_DQ) AM_NOT_USED (Some ''movdqa'')),
    opc 0 IT_JUMP (AM_J OR OT_V) AM_NOT_USED AM_NOT_USED (Some ''jo''),
    opc 0 IT_JUMP (AM_J OR OT_V) AM_NOT_USED AM_NOT_USED (Some ''jno''),
    opc 0 IT_JUMP (AM_J OR OT_V) AM_NOT_USED AM_NOT_USED (Some ''jc''),
    opc 0 IT_JUMP (AM_J OR OT_V) AM_NOT_USED AM_NOT_USED (Some ''jnc''),
    opc 0 IT_JUMP (AM_J OR OT_V) AM_NOT_USED AM_NOT_USED (Some ''jz'')]"

definition opcode_byte_after_0f_85 :: "Opcode list" where
  "opcode_byte_after_0f_85 = [
    opc 0 IT_JUMP (AM_J OR OT_V) AM_NOT_USED AM_NOT_USED (Some ''jnz''),
    opc 0 IT_JUMP (AM_J OR OT_V) AM_NOT_USED AM_NOT_USED (Some ''jbe''),
    opc 0 IT_JUMP (AM_J OR OT_V) AM_NOT_USED AM_NOT_USED (Some ''ja''),
    opc 0 IT_JUMP (AM_J OR OT_V) AM_NOT_USED AM_NOT_USED (Some ''js''),
    opc 0 IT_JUMP (AM_J OR OT_V) AM_NOT_USED AM_NOT_USED (Some ''jns''),
    opc 0 IT_JUMP (AM_J OR OT_V) AM_NOT_USED AM_NOT_USED (Some ''jpe''),
    opc 0 IT_JUMP (AM_J OR OT_V) AM_NOT_USED AM_NOT_USED (Some ''jpo''),
    opc 0 IT_JUMP (AM_J OR OT_V) AM_NOT_USED AM_NOT_USED (Some ''jl''),
    opc 0 IT_JUMP (AM_J OR OT_V) AM_NOT_USED AM_NOT_USED (Some ''jge''),
    opc 0 IT_JUMP (AM_J OR OT_V) AM_NOT_USED AM_NOT_USED (Some ''jle''),
    opc 0 IT_JUMP (AM_J OR OT_V) AM_NOT_USED AM_NOT_USED (Some ''jg''),
    opc 0 IT_GENERIC (AM_E OR OT_B) AM_NOT_USED AM_NOT_USED (Some ''seto''),
    opc 0 IT_GENERIC (AM_E OR OT_B) AM_NOT_USED AM_NOT_USED (Some ''setno''),
    opc 0 IT_GENERIC (AM_E OR OT_B) AM_NOT_USED AM_NOT_USED (Some ''setc''),
    opc 0 IT_GENERIC (AM_E OR OT_B) AM_NOT_USED AM_NOT_USED (Some ''setnc''),
    opc 0 IT_GENERIC (AM_E OR OT_B) AM_NOT_USED AM_NOT_USED (Some ''setz''),
    opc 0 IT_GENERIC (AM_E OR OT_B) AM_NOT_USED AM_NOT_USED (Some ''setnz''),
    opc 0 IT_GENERIC (AM_E OR OT_B) AM_NOT_USED AM_NOT_USED (Some ''setbe''),
    opc 0 IT_GENERIC (AM_E OR OT_B) AM_NOT_USED AM_NOT_USED (Some ''seta''),
    opc 0 IT_GENERIC (AM_E OR OT_B) AM_NOT_USED AM_NOT_USED (Some ''sets''),
    opc 0 IT_GENERIC (AM_E OR OT_B) AM_NOT_USED AM_NOT_USED (Some ''setns''),
    opc 0 IT_GENERIC (AM_E OR OT_B) AM_NOT_USED AM_NOT_USED (Some ''setpe''),
    opc 0 IT_GENERIC (AM_E OR OT_B) AM_NOT_USED AM_NOT_USED (Some ''setpo''),
    opc 0 IT_GENERIC (AM_E OR OT_B) AM_NOT_USED AM_NOT_USED (Some ''setl''),
    opc 0 IT_GENERIC (AM_E OR OT_B) AM_NOT_USED AM_NOT_USED (Some ''setge''),
    opc 0 IT_GENERIC (AM_E OR OT_B) AM_NOT_USED AM_NOT_USED (Some ''setle''),
    opc 0 IT_GENERIC (AM_E OR OT_B) AM_NOT_USED AM_NOT_USED (Some ''setg''),
    opc 0 IT_GENERIC (AM_REGISTER OR OT_W) AM_NOT_USED AM_NOT_USED (Some ''push''),
    opc 0 IT_GENERIC (AM_REGISTER OR OT_W) AM_NOT_USED AM_NOT_USED (Some ''pop''),
    opc 0 IT_GENERIC AM_NOT_USED AM_NOT_USED AM_NOT_USED (Some ''cpuid''),
    opc 0 IT_GENERIC (AM_E OR OT_V) (AM_G OR OT_V) AM_NOT_USED (Some ''bt''),
    opc 0 IT_GENERIC (AM_E OR OT_V) (AM_G OR OT_V) (AM_I OR OT_B) (Some ''shld''),
    opc 0 IT_GENERIC (AM_E OR OT_V) (AM_G OR OT_V) (AM_I OR OT_B OR AM_REGISTER) (Some ''shld''),
    opc 0 IT_UNKNOWN AM_NOT_USED AM_NOT_USED AM_NOT_USED None,
    opc 0 IT_UNKNOWN AM_NOT_USED AM_NOT_USED AM_NOT_USED None,
    opc 0 IT_GENERIC (AM_REGISTER OR OT_W) AM_NOT_USED AM_NOT_USED (Some ''push''),
    opc 0 IT_GENERIC (AM_REGISTER OR OT_W) AM_NOT_USED AM_NOT_USED (Some ''pop''),
    opc 0 IT_GENERIC AM_NOT_USED AM_NOT_USED AM_NOT_USED (Some ''rsm''),
    opc 0 IT_GENERIC (AM_E OR OT_V) (AM_G OR OT_V) AM_NOT_USED (Some ''bts''),
    opc 0 IT_GENERIC (AM_E OR OT_V) (AM_G OR OT_V) (AM_I OR OT_B) (Some ''shrd''),
    opc 0 IT_GENERIC (AM_E OR OT_V) (AM_G OR OT_V) (AM_I OR OT_B OR AM_REGISTER) (Some ''shrd''),
    opc 22 IT_REFERENCE AM_NOT_USED AM_NOT_USED AM_NOT_USED None,
    opc 0 IT_GENERIC (AM_G OR OT_V) (AM_E OR OT_V) AM_NOT_USED (Some ''imul''),
    opc 0 IT_GENERIC (AM_E OR OT_B) (AM_G OR OT_B) AM_NOT_USED (Some ''cmpxchg''),
    opc 0 IT_GENERIC (AM_E OR OT_V) (AM_G OR OT_V) AM_NOT_USED (Some ''cmpxchg''),
    opc 0 IT_GENERIC (AM_M OR OT_P) AM_NOT_USED AM_NOT_USED (Some ''lss''),
    opc 0 IT_GENERIC (AM_E OR OT_V) (AM_G OR OT_V) AM_NOT_USED (Some ''btr''),
    opc 0 IT_GENERIC (AM_M OR OT_P) AM_NOT_USED AM_NOT_USED (Some ''lfs''),
    opc 0 IT_GENERIC (AM_M OR OT_P) AM_NOT_USED AM_NOT_USED (Some ''lgs''),
    opc 0 IT_GENERIC (AM_G OR OT_V) (AM_E OR OT_B) AM_NOT_USED (Some ''movzx''),
    opc 0 IT_GENERIC (AM_G OR OT_V) (AM_E OR OT_W) AM_NOT_USED (Some ''movzx''),
    opc 0 IT_UNKNOWN AM_NOT_USED AM_NOT_USED AM_NOT_USED None,
    opc 0 IT_UNKNOWN AM_NOT_USED AM_NOT_USED AM_NOT_USED (Some ''ud1''),
    opc 23 IT_REFERENCE AM_NOT_USED AM_NOT_USED AM_NOT_USED None,
    opc 0 IT_GENERIC (AM_E OR OT_V) (AM_G OR OT_V) AM_NOT_USED (Some ''btc''),
    opc 0 IT_GENERIC (AM_G OR OT_V) (AM_E OR OT_V) AM_NOT_USED (Some ''bsf''),
    opc 0 IT_GENERIC (AM_G OR OT_V) (AM_E OR OT_V) AM_NOT_USED (Some ''bsr''),
    opc 0 IT_GENERIC (AM_G OR OT_V) (AM_E OR OT_B) AM_NOT_USED (Some ''movsx''),
    opc 0 IT_GENERIC (AM_G OR OT_V) (AM_E OR OT_W) AM_NOT_USED (Some ''movsx''),
    opc 0 IT_GENERIC (AM_E OR OT_B) (AM_G OR OT_B) AM_NOT_USED (Some ''xadd''),
    opc 0 IT_GENERIC (AM_E OR OT_V) AM_NOT_USED AM_NOT_USED (Some ''xadd''),
    opp 0 IT_GENERIC (AM_V OR OT_PS) (AM_W OR OT_PS) (AM_I OR OT_B) (Some ''cmpps'') (spc 0 IT_GENERIC (AM_V OR OT_SD) (AM_W OR OT_SD) (AM_I OR OT_B) (Some ''cmpsd'')) (spc 0 IT_GENERIC (AM_V OR OT_SS) (AM_W OR OT_SS) (AM_I OR OT_B) (Some ''cmpss'')) (spc 0 IT_GENERIC (AM_V OR OT_PD) (AM_W OR OT_PD) (AM_I OR OT_B) (Some ''cmppd'')),
    opc 0 IT_GENERIC (AM_E OR OT_D) (AM_G OR OT_D) AM_NOT_USED (Some ''movnti''),
    opp 0 IT_GENERIC (AM_P OR OT_Q) (AM_E OR OT_D) (AM_I OR OT_B) (Some ''pinsrw'') no_opcode no_opcode (spc 0 IT_GENERIC (AM_V OR OT_DQ) (AM_E OR OT_D) (AM_I OR OT_B) (Some ''pinsrw'')),
    opp 0 IT_GENERIC (AM_G OR OT_D) (AM_P OR OT_Q) (AM_I OR OT_B) (Some ''pextrw'') no_opcode no_opcode (spc 0 IT_GENERIC (AM_G OR OT_D) (AM_V OR OT_DQ) (AM_I OR OT_B) (Some ''pextrw'')),
    opp 0 IT_GENERIC (AM_V OR OT_PS) (AM_W OR OT_PS) (AM_I OR OT_B) (Some ''shufps'') no_opcode no_opcode (spc 0 IT_GENERIC (AM_V OR OT_PD) (AM_W OR OT_PD) (AM_I OR OT_B) (Some ''shufpd'')),
    opc 24 IT_REFERENCE AM_NOT_USED AM_NOT_USED AM_NOT_USED None,
    opc 0 IT_GENERIC (AM_REGISTER OR OT_D) AM_NOT_USED AM_NOT_USED (Some ''bswap''),
    opc 0 IT_GENERIC (AM_REGISTER OR OT_D) AM_NOT_USED AM_NOT_USED (Some ''bswap''),
    opc 0 IT_GENERIC (AM_REGISTER OR OT_D) AM_NOT_USED AM_NOT_USED (Some ''bswap''),
    opc 0 IT_GENERIC (AM_REGISTER OR OT_D) AM_NOT_USED AM_NOT_USED (Some ''bswap''),
    opc 0 IT_GENERIC (AM_REGISTER OR OT_D) AM_NOT_USED AM_NOT_USED (Some ''bswap''),
    opc 0 IT_GENERIC (AM_REGISTER OR OT_D) AM_NOT_USED AM_NOT_USED (Some ''bswap''),
    opc 0 IT_GENERIC (AM_REGISTER OR OT_D) AM_NOT_USED AM_NOT_USED (Some ''bswap''),
    opc 0 IT_GENERIC (AM_REGISTER OR OT_D) AM_NOT_USED AM_NOT_USED (Some ''bswap''),
    opc 0 IT_UNUSED AM_NOT_USED AM_NOT_USED AM_NOT_USED None,
    opp 0 IT_GENERIC (AM_P OR OT_Q) (AM_Q OR OT_Q) AM_NOT_USED (Some ''psrlw'') no_opcode no_opcode (spc 0 IT_GENERIC (AM_V OR OT_DQ) (AM_W OR OT_DQ) AM_NOT_USED (Some ''psrlw'')),
    opp 0 IT_GENERIC (AM_P OR OT_Q) (AM_Q OR OT_Q) AM_NOT_USED (Some ''psrld'') no_opcode no_opcode (spc 0 IT_GENERIC (AM_V OR OT_DQ) (AM_W OR OT_DQ) AM_NOT_USED (Some ''psrld'')),
    opp 0 IT_GENERIC (AM_P OR OT_Q) (AM_Q OR OT_Q) AM_NOT_USED (Some ''psrlq'') no_opcode no_opcode (spc 0 IT_GENERIC (AM_V OR OT_DQ) (AM_W OR OT_DQ) AM_NOT_USED (Some ''psrlq'')),
    opp 0 IT_GENERIC (AM_P OR OT_Q) (AM_Q OR OT_Q) AM_NOT_USED (Some ''paddq'') no_opcode no_opcode (spc 0 IT_GENERIC (AM_V OR OT_DQ) (AM_W OR OT_DQ) AM_NOT_USED (Some ''paddq'')),
    opp 0 IT_GENERIC (AM_P OR OT_Q) (AM_Q OR OT_Q) AM_NOT_USED (Some ''pmullw'') no_opcode no_opcode (spc 0 IT_GENERIC (AM_V OR OT_DQ) (AM_W OR OT_DQ) AM_NOT_USED (Some ''pmullw'')),
    opp 0 IT_GENERIC AM_NOT_USED AM_NOT_USED AM_NOT_USED (Some ''unused without prefix'') (spc 0 IT_GENERIC (AM_P OR OT_Q) (AM_W OR OT_Q) AM_NOT_USED (Some ''movdq2q'')) (spc 0 IT_GENERIC (AM_V OR OT_DQ) (AM_Q OR OT_Q) AM_NOT_USED (Some ''movq2dq'')) (spc 0 IT_GENERIC (AM_W OR OT_Q) (AM_V OR OT_Q) AM_NOT_USED (Some ''movq'')),
    opp 0 IT_GENERIC (AM_G OR OT_D) (AM_P OR OT_Q) AM_NOT_USED (Some ''pmovmskb'') no_opcode no_opcode (spc 0 IT_GENERIC (AM_G OR OT_D) (AM_V OR OT_DQ) AM_NOT_USED (Some ''pmovmskb'')),
    opp 0 IT_GENERIC (AM_P OR OT_Q) (AM_Q OR OT_Q) AM_NOT_USED (Some ''psubusb'') no_opcode no_opcode (spc 0 IT_GENERIC (AM_V OR OT_DQ) (AM_W OR OT_DQ) AM_NOT_USED (Some ''psubusb'')),
    opp 0 IT_GENERIC (AM_P OR OT_Q) (AM_Q OR OT_Q) AM_NOT_USED (Some ''psubusw'') no_opcode no_opcode (spc 0 IT_GENERIC (AM_V OR OT_DQ) (AM_W OR OT_DQ) AM_NOT_USED (Some ''psubusw'')),
    opp 0 IT_GENERIC (AM_P OR OT_Q) (AM_Q OR OT_Q) AM_NOT_USED (Some ''pminub'') no_opcode no_opcode (spc 0 IT_GENERIC (AM_V OR OT_DQ) (AM_W OR OT_DQ) AM_NOT_USED (Some ''pminub'')),
    opp 0 IT_GENERIC (AM_P OR OT_Q) (AM_Q OR OT_Q) AM_NOT_USED (Some ''pand'') no_opcode no_opcode (spc 0 IT_GENERIC (AM_V OR OT_DQ) (AM_W OR OT_DQ) AM_NOT_USED (Some ''pand'')),
    opp 0 IT_GENERIC (AM_P OR OT_Q) (AM_Q OR OT_Q) AM_NOT_USED (Some ''paddusb'') no_opcode no_opcode (spc 0 IT_GENERIC (AM_V OR OT_DQ) (AM_W OR OT_DQ) AM_NOT_USED (Some ''paddusb'')),
    opp 0 IT_GENERIC (AM_P OR OT_Q) (AM_Q OR OT_Q) AM_NOT_USED (Some ''paddusw'') no_opcode no_opcode (spc 0 IT_GENERIC (AM_V OR OT_DQ) (AM_W OR OT_DQ) AM_NOT_USED (Some ''paddusw'')),
    opp 0 IT_GENERIC (AM_P OR OT_Q) (AM_Q OR OT_Q) AM_NOT_USED (Some ''pmaxub'') no_opcode no_opcode (spc 0 IT_GENERIC (AM_V OR OT_DQ) (AM_W OR OT_DQ) AM_NOT_USED (Some ''pmaxub'')),
    opp 0 IT_GENERIC (AM_P OR OT_Q) (AM_Q OR OT_Q) AM_NOT_USED (Some ''pandn'') no_opcode no_opcode (spc 0 IT_GENERIC (AM_V OR OT_DQ) (AM_W OR OT_DQ) AM_NOT_USED (Some ''pandn''))]"

definition opcode_byte_after_0f_e0 :: "Opcode list" where
  "opcode_byte_after_0f_e0 = [
    opp 0 IT_GENERIC (AM_P OR OT_Q) (AM_Q OR OT_Q) AM_NOT_USED (Some ''pavgb'') no_opcode no_opcode (spc 0 IT_GENERIC (AM_V OR OT_DQ) (AM_W OR OT_DQ) AM_NOT_USED (Some ''pavgb'')),
    opp 0 IT_GENERIC (AM_P OR OT_Q) (AM_Q OR OT_Q) AM_NOT_USED (Some ''psraw'') no_opcode no_opcode (spc 0 IT_GENERIC (AM_V OR OT_DQ) (AM_W OR OT_DQ) AM_NOT_USED (Some ''psrqw'')),
    opp 0 IT_GENERIC (AM_P OR OT_Q) (AM_Q OR OT_Q) AM_NOT_USED (Some ''psrad'') no_opcode no_opcode (spc 0 IT_GENERIC (AM_V OR OT_DQ) (AM_W OR OT_DQ) AM_NOT_USED (Some ''psrad'')),
    opp 0 IT_GENERIC (AM_P OR OT_Q) (AM_Q OR OT_Q) AM_NOT_USED (Some ''pavgw'') no_opcode no_opcode (spc 0 IT_GENERIC (AM_V OR OT_DQ) (AM_W OR OT_DQ) AM_NOT_USED (Some ''pavgw'')),
    opp 0 IT_GENERIC (AM_P OR OT_Q) (AM_Q OR OT_Q) AM_NOT_USED (Some ''pmulhuw'') no_opcode no_opcode (spc 0 IT_GENERIC (AM_V OR OT_DQ) (AM_W OR OT_DQ) AM_NOT_USED (Some ''pmulhuw'')),
    opp 0 IT_GENERIC (AM_P OR OT_Q) (AM_Q OR OT_Q) AM_NOT_USED (Some ''pmulhuw'') no_opcode no_opcode (spc 0 IT_GENERIC (AM_V OR OT_DQ) (AM_W OR OT_DQ) AM_NOT_USED (Some ''pmulhw'')),
    opp 0 IT_GENERIC AM_NOT_USED AM_NOT_USED AM_NOT_USED (Some ''not used without prefix'') (spc 0 IT_GENERIC (AM_V OR OT_DQ) (AM_W OR OT_PD) AM_NOT_USED (Some ''cvtpd2dq'')) (spc 0 IT_GENERIC (AM_V OR OT_PD) (AM_W OR OT_DQ) AM_NOT_USED (Some ''cvtdq2pd'')) (spc 0 IT_GENERIC (AM_V OR OT_DQ) (AM_W OR OT_PD) AM_NOT_USED (Some ''cvttpd2dq'')),
    opp 0 IT_GENERIC (AM_W OR OT_Q) (AM_V OR OT_Q) AM_NOT_USED (Some ''movntq'') no_opcode no_opcode (spc 0 IT_GENERIC (AM_W OR OT_DQ) (AM_V OR OT_DQ) AM_NOT_USED (Some ''movntdq'')),
    opp 0 IT_GENERIC (AM_P OR OT_Q) (AM_Q OR OT_Q) AM_NOT_USED (Some ''psubsb'') no_opcode no_opcode (spc 0 IT_GENERIC (AM_V OR OT_DQ) (AM_W OR OT_DQ) AM_NOT_USED (Some ''psubsb'')),
    opp 0 IT_GENERIC (AM_P OR OT_Q) (AM_Q OR OT_Q) AM_NOT_USED (Some ''psubsw'') no_opcode no_opcode (spc 0 IT_GENERIC (AM_V OR OT_DQ) (AM_W OR OT_DQ) AM_NOT_USED (Some ''psubsw'')),
    opp 0 IT_GENERIC (AM_P OR OT_Q) (AM_Q OR OT_Q) AM_NOT_USED (Some ''pminsw'') no_opcode no_opcode (spc 0 IT_GENERIC (AM_V OR OT_DQ) (AM_W OR OT_DQ) AM_NOT_USED (Some ''pminsw'')),
    opp 0 IT_GENERIC (AM_P OR OT_Q) (AM_Q OR OT_Q) AM_NOT_USED (Some ''por'') no_opcode no_opcode (spc 0 IT_GENERIC (AM_V OR OT_DQ) (AM_W OR OT_DQ) AM_NOT_USED (Some ''por'')),
    opp 0 IT_GENERIC (AM_P OR OT_Q) (AM_Q OR OT_Q) AM_NOT_USED (Some ''paddsb'') no_opcode no_opcode (spc 0 IT_GENERIC (AM_V OR OT_DQ) (AM_W OR OT_DQ) AM_NOT_USED (Some ''paddsb'')),
    opp 0 IT_GENERIC (AM_P OR OT_Q) (AM_Q OR OT_Q) AM_NOT_USED (Some ''paddsw'') no_opcode no_opcode (spc 0 IT_GENERIC (AM_V OR OT_DQ) (AM_W OR OT_DQ) AM_NOT_USED (Some ''paddsw'')),
    opp 0 IT_GENERIC (AM_P OR OT_Q) (AM_Q OR OT_Q) AM_NOT_USED (Some ''pmaxsw'') no_opcode no_opcode (spc 0 IT_GENERIC (AM_V OR OT_DQ) (AM_W OR OT_DQ) AM_NOT_USED (Some ''pmaxsw'')),
    opp 0 IT_GENERIC (AM_P OR OT_Q) (AM_Q OR OT_Q) AM_NOT_USED (Some ''pxor'') no_opcode no_opcode (spc 0 IT_GENERIC (AM_V OR OT_DQ) (AM_W OR OT_DQ) AM_NOT_USED (Some ''pxor'')),
    opc 0 IT_UNUSED AM_NOT_USED AM_NOT_USED AM_NOT_USED None,
    opp 0 IT_GENERIC (AM_P OR OT_Q) (AM_Q OR OT_Q) AM_NOT_USED (Some ''psllw'') no_opcode no_opcode (spc 0 IT_GENERIC (AM_V OR OT_DQ) (AM_W OR OT_DQ) AM_NOT_USED (Some ''psllw'')),
    opp 0 IT_GENERIC (AM_P OR OT_Q) (AM_Q OR OT_Q) AM_NOT_USED (Some ''pslld'') no_opcode no_opcode (spc 0 IT_GENERIC (AM_V OR OT_DQ) (AM_W OR OT_DQ) AM_NOT_USED (Some ''pslld'')),
    opp 0 IT_GENERIC (AM_P OR OT_Q) (AM_Q OR OT_Q) AM_NOT_USED (Some ''psllq'') no_opcode no_opcode (spc 0 IT_GENERIC (AM_V OR OT_DQ) (AM_W OR OT_DQ) AM_NOT_USED (Some ''psllq'')),
    opp 0 IT_GENERIC (AM_P OR OT_Q) (AM_Q OR OT_Q) AM_NOT_USED (Some ''pmuludq'') no_opcode no_opcode (spc 0 IT_GENERIC (AM_V OR OT_DQ) (AM_W OR OT_DQ) AM_NOT_USED (Some ''pmuludq'')),
    opp 0 IT_GENERIC (AM_P OR OT_Q) (AM_Q OR OT_Q) AM_NOT_USED (Some ''pmaddwd'') no_opcode no_opcode (spc 0 IT_GENERIC (AM_V OR OT_DQ) (AM_W OR OT_DQ) AM_NOT_USED (Some ''pmaddwd'')),
    opp 0 IT_GENERIC (AM_P OR OT_Q) (AM_Q OR OT_Q) AM_NOT_USED (Some ''psadbw'') no_opcode no_opcode (spc 0 IT_GENERIC (AM_V OR OT_DQ) (AM_W OR OT_DQ) AM_NOT_USED (Some ''psadbw'')),
    opp 0 IT_GENERIC (AM_P OR OT_PI) (AM_Q OR OT_PI) AM_NOT_USED (Some ''maskmovq'') no_opcode no_opcode (spc 0 IT_GENERIC (AM_V OR OT_DQ) (AM_W OR OT_DQ) AM_NOT_USED (Some ''maskmovdqu'')),
    opp 0 IT_GENERIC (AM_P OR OT_Q) (AM_Q OR OT_Q) AM_NOT_USED (Some ''psubb'') no_opcode no_opcode (spc 0 IT_GENERIC (AM_V OR OT_DQ) (AM_W OR OT_DQ) AM_NOT_USED (Some ''psubb'')),
    opp 0 IT_GENERIC (AM_P OR OT_Q) (AM_Q OR OT_Q) AM_NOT_USED (Some ''psubw'') no_opcode no_opcode (spc 0 IT_GENERIC (AM_V OR OT_DQ) (AM_W OR OT_DQ) AM_NOT_USED (Some ''psubw'')),
    opp 0 IT_GENERIC (AM_P OR OT_Q) (AM_Q OR OT_Q) AM_NOT_USED (Some ''psubd'') no_opcode no_opcode (spc 0 IT_GENERIC (AM_V OR OT_DQ) (AM_W OR OT_DQ) AM_NOT_USED (Some ''psubd'')),
    opp 0 IT_GENERIC (AM_P OR OT_Q) (AM_Q OR OT_Q) AM_NOT_USED (Some ''psubq'') no_opcode no_opcode (spc 0 IT_GENERIC (AM_V OR OT_DQ) (AM_W OR OT_DQ) AM_NOT_USED (Some ''psubq'')),
    opp 0 IT_GENERIC (AM_P OR OT_Q) (AM_Q OR OT_Q) AM_NOT_USED (Some ''paddb'') no_opcode no_opcode (spc 0 IT_GENERIC (AM_V OR OT_DQ) (AM_W OR OT_DQ) AM_NOT_USED (Some ''paddb'')),
    opp 0 IT_GENERIC (AM_P OR OT_Q) (AM_Q OR OT_Q) AM_NOT_USED (Some ''paddw'') no_opcode no_opcode (spc 0 IT_GENERIC (AM_V OR OT_DQ) (AM_W OR OT_DQ) AM_NOT_USED (Some ''paddw'')),
    opp 0 IT_GENERIC (AM_P OR OT_Q) (AM_Q OR OT_Q) AM_NOT_USED (Some ''paddd'') no_opcode no_opcode (spc 0 IT_GENERIC (AM_V OR OT_DQ) (AM_W OR OT_DQ) AM_NOT_USED (Some ''paddd'')),
    opc 0 IT_UNUSED AM_NOT_USED AM_NOT_USED AM_NOT_USED None]"

definition s_opcode_byte_after_0f :: "Opcode list" where
  "s_opcode_byte_after_0f = opcode_byte_after_0f_00 @ opcode_byte_after_0f_55 @ opcode_byte_after_0f_85 @ opcode_byte_after_0f_e0"

section \<open>Opcodes continued in the ModR/M byte\<close>

definition s_opcode_byte_after_0f00 :: "Opcode list" where
  "s_opcode_byte_after_0f00 = [
    opc 0 IT_GENERIC (AM_E OR OT_W) AM_NOT_USED AM_NOT_USED (Some ''sldt''),
    opc 0 IT_GENERIC (AM_E OR OT_W) AM_NOT_USED AM_NOT_USED (Some ''str''),
    opc 0 IT_GENERIC (AM_E OR OT_W) AM_NOT_USED AM_NOT_USED (Some ''lldt''),
    opc 0 IT_GENERIC (AM_E OR OT_W) AM_NOT_USED AM_NOT_USED (Some ''ltr''),
    opc 0 IT_GENERIC (AM_E OR OT_W) AM_NOT_USED AM_NOT_USED (Some ''verr''),
    opc 0 IT_GENERIC (AM_E OR OT_W) AM_NOT_USED AM_NOT_USED (Some ''verw''),
    opc 0 IT_UNUSED AM_NOT_USED AM_NOT_USED AM_NOT_USED None,
    opc 0 IT_UNUSED AM_NOT_USED AM_NOT_USED AM_NOT_USED None]"

definition s_opcode_byte_after_0f01 :: "Opcode list" where
  "s_opcode_byte_after_0f01 = [
    opc 0 IT_GENERIC (AM_M OR OT_S) AM_NOT_USED AM_NOT_USED (Some ''sgdt''),
    opc 0 IT_GENERIC (AM_M OR OT_S) AM_NOT_USED AM_NOT_USED (Some ''sidt''),
    opc 0 IT_GENERIC (AM_M OR OT_S) AM_NOT_USED AM_NOT_USED (Some ''lgdt''),
    opc 0 IT_GENERIC (AM_M OR OT_S) AM_NOT_USED AM_NOT_USED (Some ''lidt''),
    opc 0 IT_GENERIC (AM_E OR OT_W) AM_NOT_USED AM_NOT_USED (Some ''smsw''),
    opc 0 IT_UNUSED AM_NOT_USED AM_NOT_USED AM_NOT_USED None,
    opc 0 IT_GENERIC (AM_E OR OT_W) AM_NOT_USED AM_NOT_USED (Some ''lmsw''),
    opc 0 IT_GENERIC (AM_M OR OT_B) AM_NOT_USED AM_NOT_USED (Some ''invlpg'')]"

definition s_opcode_byte_after_0f18 :: "Opcode list" where
  "s_opcode_byte_after_0f18 = [
    opc 0 IT_GENERIC (AM_M OR OT_ADDRESS_MODE_M) AM_NOT_USED AM_NOT_USED (Some ''prefetch''),
    opc 0 IT_GENERIC (AM_REGISTER OR OT_D) AM_NOT_USED AM_NOT_USED (Some ''prefetch''),
    opc 0 IT_GENERIC (AM_REGISTER OR OT_D) AM_NOT_USED AM_NOT_USED (Some ''prefetch''),
    opc 0 IT_GENERIC (AM_REGISTER OR OT_D) AM_NOT_USED AM_NOT_USED (Some ''prefetch''),
    opc 0 IT_UNUSED AM_NOT_USED AM_NOT_USED AM_NOT_USED None,
    opc 0 IT_UNUSED AM_NOT_USED AM_NOT_USED AM_NOT_USED None,
    opc 0 IT_UNUSED AM_NOT_USED AM_NOT_USED AM_NOT_USED None,
    opc 0 IT_UNUSED AM_NOT_USED AM_NOT_USED AM_NOT_USED None]"

definition s_opcode_byte_after_0f71 :: "Opcode list" where
  "s_opcode_byte_after_0f71 = [
    opc 0 IT_UNUSED AM_NOT_USED AM_NOT_USED AM_NOT_USED None,
    opc 0 IT_UNUSED AM_NOT_USED AM_NOT_USED AM_NOT_USED None,
    opp 0 IT_GENERIC (AM_P OR OT_Q) (AM_I OR OT_B) AM_NOT_USED (Some ''psrlw'') no_opcode no_opcode (spc 0 IT_GENERIC (AM_P OR OT_DQ) (AM_I OR OT_B) AM_NOT_USED (Some ''psrlw'')),
    opc 0 IT_UNUSED AM_NOT_USED AM_NOT_USED AM_NOT_USED None,
    opp 0 IT_GENERIC (AM_P OR OT_Q) (AM_I OR OT_B) AM_NOT_USED (Some ''psraw'') no_opcode no_opcode (spc 0 IT_GENERIC (AM_P OR OT_DQ) (AM_I OR OT_B) AM_NOT_USED (Some ''psraw'')),
    opc 0 IT_UNUSED AM_NOT_USED AM_NOT_USED AM_NOT_USED None,
    opp 0 IT_GENERIC (AM_P OR OT_Q) (AM_I OR OT_B) AM_NOT_USED (Some ''psllw'') no_opcode no_opcode (spc 0 IT_GENERIC (AM_P OR OT_DQ) (AM_I OR OT_B) AM_NOT_USED (Some ''psllw'')),
    opc 0 IT_UNUSED AM_NOT_USED AM_NOT_USED AM_NOT_USED None]"

definition s_opcode_byte_after_0f72 :: "Opcode list" where
  "s_opcode_byte_after_0f72 = [
    opc 0 IT_UNUSED AM_NOT_USED AM_NOT_USED AM_NOT_USED None,
    opc 0 IT_UNUSED AM_NOT_USED AM_NOT_USED AM_NOT_USED None,
    opp 0 IT_GENERIC (AM_P OR OT_Q) (AM_I OR OT_B) AM_NOT_USED (Some ''psrld'') no_opcode no_opcode (spc 0 IT_GENERIC (AM_W OR OT_DQ) (AM_I OR OT_B) AM_NOT_USED (Some ''psrld'')),
    opc 0 IT_UNUSED AM_NOT_USED AM_NOT_USED AM_NOT_USED None,
    opp 0 IT_GENERIC (AM_P OR OT_Q) (AM_I OR OT_B) AM_NOT_USED (Some ''psrad'') no_opcode no_opcode (spc 0 IT_GENERIC (AM_W OR OT_DQ) (AM_I OR OT_B) AM_NOT_USED (Some ''psrad'')),
    opc 0 IT_UNUSED AM_NOT_USED AM_NOT_USED AM_NOT_USED None,
    opp 0 IT_GENERIC (AM_P OR OT_Q) (AM_I OR OT_B) AM_NOT_USED (Some ''pslld'') no_opcode no_opcode (spc 0 IT_GENERIC (AM_W OR OT_DQ) (AM_I OR OT_B) AM_NOT_USED (Some ''pslld'')),
    opc 0 IT_UNUSED AM_NOT_USED AM_NOT_USED AM_NOT_USED None]"

definition s_opcode_byte_after_0f73 :: "Opcode list" where
  "s_opcode_byte_after_0f73 = [
    opc 0 IT_UNUSED AM_NOT_USED AM_NOT_USED AM_NOT_USED None,
    opc 0 IT_UNUSED AM_NOT_USED AM_NOT_USED AM_NOT_USED None,
    opp 0 IT_GENERIC (AM_P OR OT_Q) (AM_I OR OT_B) AM_NOT_USED (Some ''psrlq'') no_opcode no_opcode (spc 0 IT_GENERIC (AM_W OR OT_DQ) (AM_I OR OT_B) AM_NOT_USED (Some ''psrlq'')),
    opc 0 IT_UNUSED AM_NOT_USED AM_NOT_USED AM_NOT_USED None,
    opc 0 IT_UNUSED AM_NOT_USED AM_NOT_USED AM_NOT_USED None,
    opc 0 IT_UNUSED AM_NOT_USED AM_NOT_USED AM_NOT_USED None,
    opp 0 IT_GENERIC (AM_P OR OT_Q) (AM_I OR OT_B) AM_NOT_USED (Some ''psllq'') no_opcode no_opcode (spc 0 IT_GENERIC (AM_W OR OT_DQ) (AM_I OR OT_B) AM_NOT_USED (Some ''psllq'')),
    opp 0 IT_GENERIC (AM_W OR OT_DQ) (AM_I OR OT_B) AM_NOT_USED (Some ''pslldq'') no_opcode no_opcode (spc 0 IT_GENERIC (AM_W OR OT_DQ) (AM_I OR OT_B) AM_NOT_USED (Some ''pslldq''))]"

definition s_opcode_byte_after_0fae :: "Opcode list" where
  "s_opcode_byte_after_0fae = [
    opc 0 IT_GENERIC AM_NOT_USED AM_NOT_USED AM_NOT_USED (Some ''fxsave''),
    opc 0 IT_GENERIC AM_NOT_USED AM_NOT_USED AM_NOT_USED (Some ''fxrstor''),
    opc 0 IT_GENERIC AM_NOT_USED AM_NOT_USED AM_NOT_USED (Some ''ldmxcsr''),
    opc 0 IT_GENERIC AM_NOT_USED AM_NOT_USED AM_NOT_USED (Some ''stmxcsr''),
    opc 0 IT_UNUSED AM_NOT_USED AM_NOT_USED AM_NOT_USED None,
    opc 0 IT_GENERIC AM_NOT_USED AM_NOT_USED AM_NOT_USED (Some ''lfence''),
    opc 0 IT_GENERIC AM_NOT_USED AM_NOT_USED AM_NOT_USED (Some ''mfence''),
    opc 0 IT_GENERIC AM_NOT_USED AM_NOT_USED AM_NOT_USED (Some ''clflush/sfence'')]"

definition s_opcode_byte_after_0fba :: "Opcode list" where
  "s_opcode_byte_after_0fba = [
    opc 0 IT_UNUSED AM_NOT_USED AM_NOT_USED AM_NOT_USED None,
    opc 0 IT_UNUSED AM_NOT_USED AM_NOT_USED AM_NOT_USED None,
    opc 0 IT_UNUSED AM_NOT_USED AM_NOT_USED AM_NOT_USED None,
    opc 0 IT_UNUSED AM_NOT_USED AM_NOT_USED AM_NOT_USED None,
    opc 0 IT_GENERIC (AM_E OR OT_V) (AM_I OR OT_B) AM_NOT_USED (Some ''bt''),
    opc 0 IT_GENERIC (AM_E OR OT_V) (AM_I OR OT_B) AM_NOT_USED (Some ''bts''),
    opc 0 IT_GENERIC (AM_E OR OT_V) (AM_I OR OT_B) AM_NOT_USED (Some ''btr''),
    opc 0 IT_GENERIC (AM_E OR OT_V) (AM_I OR OT_B) AM_NOT_USED (Some ''btc'')]"

definition s_opcode_byte_after_0fc7 :: "Opcode list" where
  "s_opcode_byte_after_0fc7 = [
    opc 0 IT_UNUSED AM_NOT_USED AM_NOT_USED AM_NOT_USED None,
    opc 0 IT_GENERIC (AM_M OR OT_Q) AM_NOT_USED AM_NOT_USED (Some ''cmpxch8b'')]"

definition s_opcode_byte_after_80 :: "Opcode list" where
  "s_opcode_byte_after_80 = [
    opc 0 IT_GENERIC (AM_E OR OT_B) (AM_I OR OT_B) AM_NOT_USED (Some ''add''),
    opc 0 IT_GENERIC (AM_E OR OT_B) (AM_I OR OT_B) AM_NOT_USED (Some ''or''),
    opc 0 IT_GENERIC (AM_E OR OT_B) (AM_I OR OT_B) AM_NOT_USED (Some ''adc''),
    opc 0 IT_GENERIC (AM_E OR OT_B) (AM_I OR OT_B) AM_NOT_USED (Some ''sbb''),
    opc 0 IT_GENERIC (AM_E OR OT_B) (AM_I OR OT_B) AM_NOT_USED (Some ''and''),
    opc 0 IT_GENERIC (AM_E OR OT_B) (AM_I OR OT_B) AM_NOT_USED (Some ''sub''),
    opc 0 IT_GENERIC (AM_E OR OT_B) (AM_I OR OT_B) AM_NOT_USED (Some ''xor''),
    opc 0 IT_GENERIC (AM_E OR OT_B) (AM_I OR OT_B) AM_NOT_USED (Some ''cmp'')]"

definition s_opcode_byte_after_81 :: "Opcode list" where
  "s_opcode_byte_after_81 = [
    opc 0 IT_GENERIC (AM_E OR OT_V) (AM_I OR OT_V) AM_NOT_USED (Some ''add''),
    opc 0 IT_GENERIC (AM_E OR OT_V) (AM_I OR OT_V) AM_NOT_USED (Some ''or''),
    opc 0 IT_GENERIC (AM_E OR OT_V) (AM_I OR OT_V) AM_NOT_USED (Some ''adc''),
    opc 0 IT_GENERIC (AM_E OR OT_V) (AM_I OR OT_V) AM_NOT_USED (Some ''sbb''),
    opc 0 IT_GENERIC (AM_E OR OT_V) (AM_I OR OT_V) AM_NOT_USED (Some ''and''),
    opc 0 IT_GENERIC (AM_E OR OT_V) (AM_I OR OT_V) AM_NOT_USED (Some ''sub''),
    opc 0 IT_GENERIC (AM_E OR OT_V) (AM_I OR OT_V) AM_NOT_USED (Some ''xor''),
    opc 0 IT_GENERIC (AM_E OR OT_V) (AM_I OR OT_V) AM_NOT_USED (Some ''cmp'')]"

definition s_opcode_byte_after_82 :: "Opcode list" where
  "s_opcode_byte_after_82 = [
    opc 0 IT_GENERIC (AM_E OR OT_V) (AM_I OR OT_B) AM_NOT_USED (Some ''add''),
    opc 0 IT_GENERIC (AM_E OR OT_V) (AM_I OR OT_B) AM_NOT_USED (Some ''or''),
    opc 0 IT_GENERIC (AM_E OR OT_V) (AM_I OR OT_B) AM_NOT_USED (Some ''adc''),
    opc 0 IT_GENERIC (AM_E OR OT_V) (AM_I OR OT_B) AM_NOT_USED (Some ''sbb''),
    opc 0 IT_GENERIC (AM_E OR OT_V) (AM_I OR OT_B) AM_NOT_USED (Some ''and''),
    opc 0 IT_GENERIC (AM_E OR OT_V) (AM_I OR OT_B) AM_NOT_USED (Some ''sub''),
    opc 0 IT_GENERIC (AM_E OR OT_V) (AM_I OR OT_B) AM_NOT_USED (Some ''xor''),
    opc 0 IT_GENERIC (AM_E OR OT_V) (AM_I OR OT_B) AM_NOT_USED (Some ''cmp'')]"

definition s_opcode_byte_after_83 :: "Opcode list" where
  "s_opcode_byte_after_83 = [
    opc 0 IT_GENERIC (AM_E OR OT_V) (AM_I OR OT_B) AM_NOT_USED (Some ''add''),
    opc 0 IT_GENERIC (AM_E OR OT_V) (AM_I OR OT_B) AM_NOT_USED (Some ''or''),
    opc 0 IT_GENERIC (AM_E OR OT_V) (AM_I OR OT_B) AM_NOT_USED (Some ''adc''),
    opc 0 IT_GENERIC (AM_E OR OT_V) (AM_I OR OT_B) AM_NOT_USED (Some ''sbb''),
    opc 0 IT_GENERIC (AM_E OR OT_V) (AM_I OR OT_B) AM_NOT_USED (Some ''and''),
    opc 0 IT_GENERIC (AM_E OR OT_V) (AM_I OR OT_B) AM_NOT_USED (Some ''sub''),
    opc 0 IT_GENERIC (AM_E OR OT_V) (AM_I OR OT_B) AM_NOT_USED (Some ''xor''),
    opc 0 IT_GENERIC (AM_E OR OT_V) (AM_I OR OT_B) AM_NOT_USED (Some ''cmp'')]"

definition s_opcode_byte_after_c0 :: "Opcode list" where
  "s_opcode_byte_after_c0 = [
    opc 0 IT_GENERIC (AM_E OR OT_B) (AM_I OR OT_B) AM_NOT_USED (Some ''rol''),
    opc 0 IT_GENERIC (AM_E OR OT_B) (AM_I OR OT_B) AM_NOT_USED (Some ''ror''),
    opc 0 IT_GENERIC (AM_E OR OT_B) (AM_I OR OT_B) AM_NOT_USED (Some ''rcl''),
    opc 0 IT_GENERIC (AM_E OR OT_B) (AM_I OR OT_B) AM_NOT_USED (Some ''rcr''),
    opc 0 IT_GENERIC (AM_E OR OT_B) (AM_I OR OT_B) AM_NOT_USED (Some ''shl''),
    opc 0 IT_GENERIC (AM_E OR OT_B) (AM_I OR OT_B) AM_NOT_USED (Some ''shr''),
    opc 0 IT_GENERIC (AM_E OR OT_B) (AM_I OR OT_B) AM_NOT_USED (Some ''sal''),
    opc 0 IT_GENERIC (AM_E OR OT_B) (AM_I OR OT_B) AM_NOT_USED (Some ''sar'')]"

definition s_opcode_byte_after_c1 :: "Opcode list" where
  "s_opcode_byte_after_c1 = [
    opc 0 IT_GENERIC (AM_E OR OT_V) (AM_I OR OT_B) AM_NOT_USED (Some ''rol''),
    opc 0 IT_GENERIC (AM_E OR OT_V) (AM_I OR OT_B) AM_NOT_USED (Some ''ror''),
    opc 0 IT_GENERIC (AM_E OR OT_V) (AM_I OR OT_B) AM_NOT_USED (Some ''rcl''),
    opc 0 IT_GENERIC (AM_E OR OT_V) (AM_I OR OT_B) AM_NOT_USED (Some ''rcr''),
    opc 0 IT_GENERIC (AM_E OR OT_V) (AM_I OR OT_B) AM_NOT_USED (Some ''shl''),
    opc 0 IT_GENERIC (AM_E OR OT_V) (AM_I OR OT_B) AM_NOT_USED (Some ''shr''),
    opc 0 IT_GENERIC (AM_E OR OT_V) (AM_I OR OT_B) AM_NOT_USED (Some ''sal''),
    opc 0 IT_GENERIC (AM_E OR OT_V) (AM_I OR OT_B) AM_NOT_USED (Some ''sar'')]"

definition s_opcode_byte_after_d0 :: "Opcode list" where
  "s_opcode_byte_after_d0 = [
    opc 0 IT_GENERIC (AM_E OR OT_B) AM_IMPLICIT AM_NOT_USED (Some ''rol''),
    opc 0 IT_GENERIC (AM_E OR OT_B) AM_IMPLICIT AM_NOT_USED (Some ''ror''),
    opc 0 IT_GENERIC (AM_E OR OT_B) AM_IMPLICIT AM_NOT_USED (Some ''rcl''),
    opc 0 IT_GENERIC (AM_E OR OT_B) AM_IMPLICIT AM_NOT_USED (Some ''rcr''),
    opc 0 IT_GENERIC (AM_E OR OT_B) AM_IMPLICIT AM_NOT_USED (Some ''shl''),
    opc 0 IT_GENERIC (AM_E OR OT_B) AM_IMPLICIT AM_NOT_USED (Some ''shr''),
    opc 0 IT_GENERIC (AM_E OR OT_B) AM_IMPLICIT AM_NOT_USED (Some ''sal''),
    opc 0 IT_GENERIC (AM_E OR OT_B) AM_IMPLICIT AM_NOT_USED (Some ''sar'')]"

definition s_opcode_byte_after_d1 :: "Opcode list" where
  "s_opcode_byte_after_d1 = [
    opc 0 IT_GENERIC (AM_E OR OT_V) AM_IMPLICIT AM_NOT_USED (Some ''rol''),
    opc 0 IT_GENERIC (AM_E OR OT_V) AM_IMPLICIT AM_NOT_USED (Some ''ror''),
    opc 0 IT_GENERIC (AM_E OR OT_V) AM_IMPLICIT AM_NOT_USED (Some ''rcl''),
    opc 0 IT_GENERIC (AM_E OR OT_V) AM_IMPLICIT AM_NOT_USED (Some ''rcr''),
    opc 0 IT_GENERIC (AM_E OR OT_V) AM_IMPLICIT AM_NOT_USED (Some ''shl''),
    opc 0 IT_GENERIC (AM_E OR OT_V) AM_IMPLICIT AM_NOT_USED (Some ''shr''),
    opc 0 IT_GENERIC (AM_E OR OT_V) AM_IMPLICIT AM_NOT_USED (Some ''sal''),
    opc 0 IT_GENERIC (AM_E OR OT_V) AM_IMPLICIT AM_NOT_USED (Some ''sar'')]"

definition s_opcode_byte_after_d2 :: "Opcode list" where
  "s_opcode_byte_after_d2 = [
    opc 0 IT_GENERIC (AM_E OR OT_B) (AM_REGISTER OR OT_B) AM_NOT_USED (Some ''rol''),
    opc 0 IT_GENERIC (AM_E OR OT_B) (AM_REGISTER OR OT_B) AM_NOT_USED (Some ''ror''),
    opc 0 IT_GENERIC (AM_E OR OT_B) (AM_REGISTER OR OT_B) AM_NOT_USED (Some ''rcl''),
    opc 0 IT_GENERIC (AM_E OR OT_B) (AM_REGISTER OR OT_B) AM_NOT_USED (Some ''rcr''),
    opc 0 IT_GENERIC (AM_E OR OT_B) (AM_REGISTER OR OT_B) AM_NOT_USED (Some ''shl''),
    opc 0 IT_GENERIC (AM_E OR OT_B) (AM_REGISTER OR OT_B) AM_NOT_USED (Some ''shr''),
    opc 0 IT_GENERIC (AM_E OR OT_B) (AM_REGISTER OR OT_B) AM_NOT_USED (Some ''sal''),
    opc 0 IT_GENERIC (AM_E OR OT_B) (AM_REGISTER OR OT_B) AM_NOT_USED (Some ''sar'')]"

definition s_opcode_byte_after_d3 :: "Opcode list" where
  "s_opcode_byte_after_d3 = [
    opc 0 IT_GENERIC (AM_E OR OT_V) (AM_REGISTER OR OT_B) AM_NOT_USED (Some ''rol''),
    opc 0 IT_GENERIC (AM_E OR OT_V) (AM_REGISTER OR OT_B) AM_NOT_USED (Some ''ror''),
    opc 0 IT_GENERIC (AM_E OR OT_V) (AM_REGISTER OR OT_B) AM_NOT_USED (Some ''rcl''),
    opc 0 IT_GENERIC (AM_E OR OT_V) (AM_REGISTER OR OT_B) AM_NOT_USED (Some ''rcr''),
    opc 0 IT_GENERIC (AM_E OR OT_V) (AM_REGISTER OR OT_B) AM_NOT_USED (Some ''shl''),
    opc 0 IT_GENERIC (AM_E OR OT_V) (AM_REGISTER OR OT_B) AM_NOT_USED (Some ''shr''),
    opc 0 IT_GENERIC (AM_E OR OT_V) (AM_REGISTER OR OT_B) AM_NOT_USED (Some ''sal''),
    opc 0 IT_GENERIC (AM_E OR OT_V) (AM_REGISTER OR OT_B) AM_NOT_USED (Some ''sar'')]"

definition s_opcode_byte_after_f6 :: "Opcode list" where
  "s_opcode_byte_after_f6 = [
    opc 0 IT_GENERIC (AM_E OR OT_B) (AM_I OR OT_B) AM_NOT_USED (Some ''test''),
    opc 0 IT_GENERIC (AM_E OR OT_B) (AM_I OR OT_B) AM_NOT_USED (Some ''test''),
    opc 0 IT_GENERIC (AM_E OR OT_B) AM_NOT_USED AM_NOT_USED (Some ''not''),
    opc 0 IT_GENERIC (AM_E OR OT_B) AM_NOT_USED AM_NOT_USED (Some ''neg''),
    opc 0 IT_GENERIC (OT_B OR AM_REGISTER) (AM_E OR OT_B) AM_NOT_USED (Some ''mul''),
    opc 0 IT_GENERIC (OT_B OR AM_REGISTER) (AM_E OR OT_B) AM_NOT_USED (Some ''imul''),
    opc 0 IT_GENERIC (AM_REGISTER OR OT_B) (AM_E OR OT_B) AM_NOT_USED (Some ''div''),
    opc 0 IT_GENERIC (AM_REGISTER OR OT_B) (AM_E OR OT_B) AM_NOT_USED (Some ''idiv'')]"

definition s_opcode_byte_after_f7 :: "Opcode list" where
  "s_opcode_byte_after_f7 = [
    opc 0 IT_GENERIC (AM_E OR OT_V) (AM_I OR OT_V) AM_NOT_USED (Some ''test''),
    opc 0 IT_GENERIC (AM_E OR OT_V) (AM_I OR OT_V) AM_NOT_USED (Some ''test''),
    opc 0 IT_GENERIC (AM_E OR OT_V) AM_NOT_USED AM_NOT_USED (Some ''not''),
    opc 0 IT_GENERIC (AM_E OR OT_V) AM_NOT_USED AM_NOT_USED (Some ''neg''),
    opc 0 IT_GENERIC (AM_REGISTER OR OT_V) (AM_E OR OT_V) AM_NOT_USED (Some ''mul''),
    opc 0 IT_GENERIC (AM_REGISTER OR OT_V) (AM_E OR OT_V) AM_NOT_USED (Some ''imul''),
    opc 0 IT_GENERIC (AM_REGISTER OR OT_V) (AM_E OR OT_V) AM_NOT_USED (Some ''div''),
    opc 0 IT_GENERIC (AM_REGISTER OR OT_V) (AM_E OR OT_V) AM_NOT_USED (Some ''idiv'')]"

definition s_opcode_byte_after_fe :: "Opcode list" where
  "s_opcode_byte_after_fe = [
    opc 0 IT_GENERIC (AM_E OR OT_B) AM_NOT_USED AM_NOT_USED (Some ''inc''),
    opc 0 IT_GENERIC (AM_E OR OT_B) AM_NOT_USED AM_NOT_USED (Some ''dec'')]"

definition s_opcode_byte_after_ff :: "Opcode list" where
  "s_opcode_byte_after_ff = [
    opc 0 IT_GENERIC (AM_E OR OT_V) AM_NOT_USED AM_NOT_USED (Some ''inc''),
    opc 0 IT_GENERIC (AM_E OR OT_V) AM_NOT_USED AM_NOT_USED (Some ''dec''),
    opc 0 IT_JUMP (AM_E OR OT_V) AM_NOT_USED AM_NOT_USED (Some ''call''),
    opc 0 IT_JUMP (AM_E OR OT_P) AM_NOT_USED AM_NOT_USED (Some ''call''),
    opc 0 IT_JUMP (AM_E OR OT_V) AM_NOT_USED AM_NOT_USED (Some ''jmp''),
    opc 0 IT_JUMP (AM_E OR OT_P) AM_NOT_USED AM_NOT_USED (Some ''jmp''),
    opc 0 IT_GENERIC (AM_E OR OT_V) AM_NOT_USED AM_NOT_USED (Some ''push''),
    opc 0 IT_UNUSED AM_NOT_USED AM_NOT_USED AM_NOT_USED None]"

section \<open>The table of tables\<close>

definition s_ia32_opcode_map :: "bool \<Rightarrow> OpcodeTable list" where
  "s_ia32_opcode_map x64 = [
    opt (s_first_opcode_byte x64) 0 0xff 0 0xff,
    opt s_opcode_byte_after_0f 0 0xff 0 0xff,
    opt s_opcode_byte_after_80 3 0x07 0 0x07,
    opt s_opcode_byte_after_81 3 0x07 0 0x07,
    opt s_opcode_byte_after_82 3 0x07 0 0x07,
    opt s_opcode_byte_after_83 3 0x07 0 0x07,
    opt s_opcode_byte_after_c0 3 0x07 0 0x07,
    opt s_opcode_byte_after_c1 3 0x07 0 0x07,
    opt s_opcode_byte_after_d0 3 0x07 0 0x07,
    opt s_opcode_byte_after_d1 3 0x07 0 0x07,
    opt s_opcode_byte_after_d2 3 0x07 0 0x07,
    opt s_opcode_byte_after_d3 3 0x07 0 0x07,
    opt s_opcode_byte_after_f6 3 0x07 0 0x07,
    opt s_opcode_byte_after_f7 3 0x07 0 0x07,
    opt s_opcode_byte_after_fe 3 0x07 0 0x01,
    opt s_opcode_byte_after_ff 3 0x07 0 0x07,
    opt s_opcode_byte_after_0f00 3 0x07 0 0x07,
    opt s_opcode_byte_after_0f01 3 0x07 0 0x07,
    opt s_opcode_byte_after_0f18 3 0x07 0 0x07,
    opt s_opcode_byte_after_0f71 3 0x07 0 0x07,
    opt s_opcode_byte_after_0f72 3 0x07 0 0x07,
    opt s_opcode_byte_after_0f73 3 0x07 0 0x07,
    opt s_opcode_byte_after_0fae 3 0x07 0 0x07,
    opt s_opcode_byte_after_0fba 3 0x07 0 0x07,
    opt s_opcode_byte_after_0fc7 3 0x07 0 0x01]"

section \<open>ModR/M\<close>

definition s_ia16_modrm_map :: "ModrmEntry list" where
  "s_ia16_modrm_map = [
    mre False False OS_ZERO,
    mre False False OS_ZERO,
    mre False False OS_ZERO,
    mre False False OS_ZERO,
    mre False False OS_ZERO,
    mre False False OS_ZERO,
    mre True False OS_WORD,
    mre False False OS_ZERO,
    mre True False OS_BYTE,
    mre True False OS_BYTE,
    mre True False OS_BYTE,
    mre True False OS_BYTE,
    mre True False OS_BYTE,
    mre True False OS_BYTE,
    mre True False OS_BYTE,
    mre True False OS_BYTE,
    mre True False OS_WORD,
    mre True False OS_WORD,
    mre True False OS_WORD,
    mre True False OS_WORD,
    mre True False OS_WORD,
    mre True False OS_WORD,
    mre True False OS_WORD,
    mre True False OS_WORD,
    mre False False OS_ZERO,
    mre False False OS_ZERO,
    mre False False OS_ZERO,
    mre False False OS_ZERO,
    mre False False OS_ZERO,
    mre False False OS_ZERO,
    mre False False OS_ZERO,
    mre False False OS_ZERO]"

definition s_ia32_modrm_map :: "ModrmEntry list" where
  "s_ia32_modrm_map = [
    mre False False OS_ZERO,
    mre False False OS_ZERO,
    mre False False OS_ZERO,
    mre False False OS_ZERO,
    mre False True OS_ZERO,
    mre True False OS_DOUBLE_WORD,
    mre False False OS_ZERO,
    mre False False OS_ZERO,
    mre True False OS_BYTE,
    mre True False OS_BYTE,
    mre True False OS_BYTE,
    mre True False OS_BYTE,
    mre True True OS_BYTE,
    mre True False OS_BYTE,
    mre True False OS_BYTE,
    mre True False OS_BYTE,
    mre True False OS_DOUBLE_WORD,
    mre True False OS_DOUBLE_WORD,
    mre True False OS_DOUBLE_WORD,
    mre True False OS_DOUBLE_WORD,
    mre True True OS_DOUBLE_WORD,
    mre True False OS_DOUBLE_WORD,
    mre True False OS_DOUBLE_WORD,
    mre True False OS_DOUBLE_WORD,
    mre False False OS_ZERO,
    mre False False OS_ZERO,
    mre False False OS_ZERO,
    mre False False OS_ZERO,
    mre False False OS_ZERO,
    mre False False OS_ZERO,
    mre False False OS_ZERO,
    mre False False OS_ZERO]"

lemmas first_table_defs = s_first_opcode_byte_def first_opcode_byte_00_def first_opcode_byte_40_x64_def first_opcode_byte_40_x86_def first_opcode_byte_50_def first_opcode_byte_b8_x64_def first_opcode_byte_b8_x86_def first_opcode_byte_c0_def

lemmas second_table_defs = s_opcode_byte_after_0f_def opcode_byte_after_0f_00_def opcode_byte_after_0f_55_def opcode_byte_after_0f_85_def opcode_byte_after_0f_e0_def

lemmas extension_table_defs = s_opcode_byte_after_0f00_def
    s_opcode_byte_after_0f01_def
    s_opcode_byte_after_0f18_def
    s_opcode_byte_after_0f71_def
    s_opcode_byte_after_0f72_def
    s_opcode_byte_after_0f73_def
    s_opcode_byte_after_0fae_def
    s_opcode_byte_after_0fba_def
    s_opcode_byte_after_0fc7_def
    s_opcode_byte_after_80_def
    s_opcode_byte_after_81_def
    s_opcode_byte_after_82_def
    s_opcode_byte_after_83_def
    s_opcode_byte_after_c0_def
    s_opcode_byte_after_c1_def
    s_opcode_byte_after_d0_def
    s_opcode_byte_after_d1_def
    s_opcode_byte_after_d2_def
    s_opcode_byte_after_d3_def
    s_opcode_byte_after_f6_def
    s_opcode_byte_after_f7_def
    s_opcode_byte_after_fe_def
    s_opcode_byte_after_ff_def

lemmas row_defs = opc_def opp_def spc_def no_opcode_def

end
