(* ===== verification/Mini_Disassembler.thy ===== *)
theory Mini_Disassembler
  imports Opcode_Map
begin

text \<open>
  The small disassembler (\<open>windows/mini_disassembler.h\<close>, \<open>windows/mini_disassembler.cc\<close>): it finds the
  length of an instruction and whether it is a jump or a return. Code is a function from addresses to
  bytes. \<open>x64\<close> says whether \<open>_M_X64\<close> is defined. \<open>None\<close> is a loop that does not end or an access
  outside of a table; the 32-bit counters of one instruction are small and plain numbers.
\<close>

type_synonym code = "nat \<Rightarrow> 8 word"

record MiniDisassembler =
  instruction_type :: InstructionType
  operand_bytes :: nat
  have_modrm :: bool
  should_decode_modrm :: bool
  operand_is_32_bits :: bool
  operand_default_is_32_bits :: bool
  address_is_32_bits :: bool
  address_default_is_32_bits :: bool
  operand_default_support_64_bits :: bool
  operand_is_64_bits :: bool
  got_f2_prefix :: bool
  got_f3_prefix :: bool
  got_66_prefix :: bool

definition Initialize :: "bool \<Rightarrow> MiniDisassembler \<Rightarrow> MiniDisassembler" where
  "Initialize x64 d = d\<lparr>
     operand_is_32_bits := operand_default_is_32_bits d,
     address_is_32_bits := address_default_is_32_bits d,
     operand_default_support_64_bits := x64,
     operand_is_64_bits := False,
     operand_bytes := 0,
     have_modrm := False,
     should_decode_modrm := False,
     instruction_type := IT_UNKNOWN,
     got_f2_prefix := False,
     got_f3_prefix := False,
     got_66_prefix := False\<rparr>"

text \<open>An access to an array.\<close>

definition array_at :: "'a list \<Rightarrow> nat \<Rightarrow> 'a option" where
  "array_at xs i = (if i < length xs then Some (xs ! i) else None)"

section \<open>Prefixes\<close>

definition note_prefix :: "MiniDisassembler \<Rightarrow> 8 word \<Rightarrow> MiniDisassembler" where
  "note_prefix d b =
     (if b = 0xF2 then d\<lparr>got_f2_prefix := True\<rparr>
      else if b = 0xF3 then d\<lparr>got_f3_prefix := True\<rparr>
      else if b = 0x66 then d\<lparr>got_66_prefix := True\<rparr>
      else if operand_default_support_64_bits d \<and> b AND 0x48 \<noteq> 0 then d\<lparr>operand_is_64_bits := True\<rparr>
      else d)"

definition switch_sizes :: "MiniDisassembler \<Rightarrow> InstructionType \<Rightarrow> MiniDisassembler" where
  "switch_sizes d t =
     (if t = IT_PREFIX_ADDRESS then d\<lparr>address_is_32_bits := \<not> address_default_is_32_bits d\<rparr>
      else if t = IT_PREFIX_OPERAND then d\<lparr>operand_is_32_bits := \<not> operand_default_is_32_bits d\<rparr>
      else d)"

definition is_prefix :: "InstructionType \<Rightarrow> bool" where
  "is_prefix t = (t = IT_PREFIX_ADDRESS \<or> t = IT_PREFIX_OPERAND \<or> t = IT_PREFIX)"

partial_function (option) ProcessPrefixes ::
    "bool \<Rightarrow> code \<Rightarrow> nat \<Rightarrow> MiniDisassembler \<Rightarrow> nat \<Rightarrow> (InstructionType \<times> MiniDisassembler \<times> nat) option" where
  [code]: "ProcessPrefixes x64 m start d size1 = do {
     opcode \<leftarrow> array_at (s_first_opcode_byte x64) (unat (m start));
     let t = opcode_type opcode in
     if is_prefix t then do {
       let d = note_prefix (switch_sizes d t) (m start) in do {
         (t', d, size1) \<leftarrow> ProcessPrefixes x64 m (start + 1) d (size1 + 1);
         Some (t, d, size1) } }
     else Some (IT_GENERIC, d, size1) }"

section \<open>Operands\<close>

definition immediate_bytes :: "MiniDisassembler \<Rightarrow> int \<Rightarrow> nat" where
  "immediate_bytes d flag =
     (let ot = flag AND OT_MASK in
      if ot = OT_B then OS_BYTE
      else if ot = OT_C then (if operand_is_32_bits d then OS_WORD else OS_BYTE)
      else if ot = OT_D then OS_DOUBLE_WORD
      else if ot = OT_DQ then OS_DOUBLE_QUAD_WORD
      else if ot = OT_P then (if operand_is_32_bits d then OS_48_BIT_POINTER else OS_32_BIT_POINTER)
      else if ot = OT_PS then OS_128_BIT_PACKED_SINGLE_PRECISION_FLOATING
      else if ot = OT_Q then OS_QUAD_WORD
      else if ot = OT_S then OS_PSEUDO_DESCRIPTOR
      else if ot = OT_SD \<or> ot = OT_PD then OS_DOUBLE_PRECISION_FLOATING
      else if ot = OT_V then
        (if operand_is_64_bits d \<and> flag AND AM_I \<noteq> 0 \<and> flag AND IOS_64 \<noteq> 0 then OS_QUAD_WORD
         else if operand_is_32_bits d then OS_DOUBLE_WORD
         else OS_WORD)
      else if ot = OT_W then OS_WORD
      else 0)"

text \<open>The result is whether the operand is supported; only \<open>OT_SS\<close> immediates are not.\<close>

definition ProcessOperand :: "MiniDisassembler \<Rightarrow> int \<Rightarrow> bool \<times> MiniDisassembler" where
  "ProcessOperand d flag =
     (if flag = AM_NOT_USED then (True, d)
      else let am = flag AND AM_MASK in
        if am \<in> {AM_C, AM_D, AM_G, AM_P, AM_R, AM_S, AM_T, AM_V} then (True, d\<lparr>have_modrm := True\<rparr>)
        else if am \<in> {AM_E, AM_M, AM_Q, AM_W} then (True, d\<lparr>have_modrm := True, should_decode_modrm := True\<rparr>)
        else if am \<in> {AM_I, AM_J, AM_O} then
          (flag AND OT_MASK \<noteq> OT_SS, d\<lparr>operand_bytes := operand_bytes d + immediate_bytes d flag\<rparr>)
        else (True, d))"

section \<open>The ModR/M and the SIB byte\<close>

definition ProcessSib :: "code \<Rightarrow> nat \<Rightarrow> 8 word \<Rightarrow> MiniDisassembler \<Rightarrow> nat \<Rightarrow> bool \<times> MiniDisassembler \<times> nat" where
  "ProcessSib m start md d size1 =
     (let sib_base = m start AND 0x07;
          d = (if sib_base = 0x05 then
                 (if md = 0x00 \<or> md = 0x02 then d\<lparr>operand_bytes := operand_bytes d + OS_DOUBLE_WORD\<rparr>
                  else if md = 0x01 then d\<lparr>operand_bytes := operand_bytes d + OS_BYTE\<rparr>
                  else d)
               else d)
      in (True, d, size1 + 1))"

definition ProcessModrm :: "code \<Rightarrow> nat \<Rightarrow> MiniDisassembler \<Rightarrow> nat \<Rightarrow> (bool \<times> MiniDisassembler \<times> nat) option" where
  "ProcessModrm m start d size1 =
     (if \<not> should_decode_modrm d then Some (True, d, size1 + 1)
      else let modrm = m start;
               md = modrm AND 0xC0;
               modrm = modrm AND 0x07;
               md = drop_bit 3 md;
               modrm = md OR modrm;
               md = drop_bit 3 md
        in do {
          e \<leftarrow> array_at (if address_is_32_bits d then s_ia32_modrm_map else s_ia16_modrm_map) (unat modrm);
          let d = (if is_encoded_in_instruction e then d\<lparr>operand_bytes := operand_bytes d + operand_size e\<rparr> else d) in
          if use_sib_byte e then Some (ProcessSib m (start + 1) md d (size1 + 1))
          else Some (True, d, size1 + 1) })"

section \<open>The opcode\<close>

definition choose_opcode :: "MiniDisassembler \<Rightarrow> Opcode \<Rightarrow> SpecificOpcode" where
  "choose_opcode d opcode =
     (if is_prefix_dependent opcode then
        (if got_f2_prefix d \<and> mnemonic (opcode_if_f2_prefix opcode) \<noteq> None then opcode_if_f2_prefix opcode
         else if got_f3_prefix d \<and> mnemonic (opcode_if_f3_prefix opcode) \<noteq> None then opcode_if_f3_prefix opcode
         else if got_66_prefix d \<and> mnemonic (opcode_if_66_prefix opcode) \<noteq> None then opcode_if_66_prefix opcode
         else SpecificOpcode.truncate opcode)
      else SpecificOpcode.truncate opcode)"

definition process_operands :: "MiniDisassembler \<Rightarrow> SpecificOpcode \<Rightarrow> MiniDisassembler" where
  "process_operands d sp =
     (let d = d\<lparr>instruction_type := opcode_type sp\<rparr>;
          (b1, d) = ProcessOperand d (flag_dest sp);
          (b2, d) = ProcessOperand d (flag_source sp);
          (b3, d) = ProcessOperand d (flag_aux sp)
      in d)"

partial_function (option) ProcessOpcode ::
    "bool \<Rightarrow> code \<Rightarrow> nat \<Rightarrow> nat \<Rightarrow> MiniDisassembler \<Rightarrow> nat \<Rightarrow> (InstructionType \<times> MiniDisassembler \<times> nat) option" where
  [code]: "ProcessOpcode x64 m start ti d size1 = do {
     table \<leftarrow> array_at (s_ia32_opcode_map x64) ti;
     let b = unat (drop_bit (table_shift table) (m start) AND table_mask table) in
     if b < min_lim table \<or> b > max_lim table then
       let d = d\<lparr>instruction_type := IT_UNKNOWN\<rparr> in Some (IT_UNKNOWN, d, size1)
     else do {
       opcode \<leftarrow> array_at (opcode_rows table) b;
       if opcode_type opcode = IT_UNUSED then
         let d = d\<lparr>instruction_type := IT_UNUSED\<rparr> in Some (IT_UNUSED, d, size1)
       else if opcode_type opcode = IT_REFERENCE then do {
         (t, d, size1) \<leftarrow> ProcessOpcode x64 m (start + 1) (table_index opcode) d (size1 + 1);
         Some (instruction_type d, d, size1) }
       else let d = process_operands d (choose_opcode d opcode) in
         if table_mask table \<noteq> 0xff then
           (if have_modrm d then do {
              (ok, d, size1) \<leftarrow> ProcessModrm m start d size1;
              Some (IT_GENERIC, d, size1) }
            else Some (IT_GENERIC, d, size1 + 1))
         else
           (if have_modrm d then do {
              (ok, d, size1) \<leftarrow> ProcessModrm m (start + 1) d (size1 + 1);
              Some (IT_GENERIC, d, size1) }
            else Some (IT_GENERIC, d, size1 + 1)) } }"

section \<open>Disassembling one instruction\<close>

definition Disassemble :: "bool \<Rightarrow> code \<Rightarrow> MiniDisassembler \<Rightarrow> nat \<Rightarrow> nat \<Rightarrow> (InstructionType \<times> nat \<times> MiniDisassembler) option" where
  "Disassemble x64 m d start instruction_bytes =
     (let d = Initialize x64 d in do {
        (t, d, size1) \<leftarrow> ProcessPrefixes x64 m start d 0;
        if t = IT_UNKNOWN then Some (t, instruction_bytes, d)
        else let current_byte = start + size1 in do {
          (t', d, size1) \<leftarrow> ProcessOpcode x64 m current_byte 0 d 0;
          if instruction_type d = IT_UNKNOWN \<or> instruction_type d = IT_UNUSED
          then Some (IT_UNKNOWN, instruction_bytes, d)
          else let current_byte = current_byte + size1 in
            Some (instruction_type d, (instruction_bytes + operand_bytes d + (current_byte - start)) mod 2 ^ 32, d) } })"

text \<open>The constructors.\<close>

definition MiniDisassembler_new :: "bool \<Rightarrow> bool \<Rightarrow> bool \<Rightarrow> MiniDisassembler" where
  "MiniDisassembler_new x64 operand_default_32_bits address_default_32_bits =
     Initialize x64 \<lparr>instruction_type = IT_UNKNOWN, operand_bytes = 0, have_modrm = False, should_decode_modrm = False,
       operand_is_32_bits = False, operand_default_is_32_bits = operand_default_32_bits,
       address_is_32_bits = False, address_default_is_32_bits = address_default_32_bits,
       operand_default_support_64_bits = False, operand_is_64_bits = False,
       got_f2_prefix = False, got_f3_prefix = False, got_66_prefix = False\<rparr>"

definition MiniDisassembler_default :: "bool \<Rightarrow> MiniDisassembler" where
  "MiniDisassembler_default x64 = MiniDisassembler_new x64 True True"

end
