(* ===== verification/Disassembler_Tables.thy ===== *)
theory Disassembler_Tables
  imports Mini_Disassembler
begin

text \<open>
  Facts about the tables, each checked row by row: every reference leads to a later table, every
  table is long enough for the bytes that select a row, and how many bytes of operands a row can
  ask for.
\<close>

section \<open>What a row has to satisfy\<close>

text \<open>The state with the largest operands.\<close>

definition widest :: MiniDisassembler where
  "widest = (MiniDisassembler_default True)\<lparr>operand_is_64_bits := True\<rparr>"

definition sp_ok :: "SpecificOpcode \<Rightarrow> bool" where
  "sp_ok sp = ((let d = process_operands widest sp in operand_bytes d \<le> (if have_modrm d then 4 else 8)) \<and>
     opcode_type sp \<in> {IT_JUMP, IT_RETURN, IT_GENERIC, IT_UNUSED, IT_UNKNOWN})"

definition variants :: "Opcode \<Rightarrow> SpecificOpcode list" where
  "variants oc = (if is_prefix_dependent oc
     then [SpecificOpcode.truncate oc, opcode_if_f2_prefix oc, opcode_if_f3_prefix oc, opcode_if_66_prefix oc]
     else [SpecificOpcode.truncate oc])"

text \<open>Tables 0 and 1 are indexed by a whole byte and may refer to later tables, the others by three bits.
  Only table 0 has prefixes.\<close>

definition row_ok :: "nat \<Rightarrow> Opcode \<Rightarrow> bool" where
  "row_ok n oc = (if opcode_type oc = IT_REFERENCE then 2 - table_index oc < 2 - n \<and> table_index oc < 25
     else if is_prefix (opcode_type oc) then n = 0
     else list_all sp_ok (variants oc))"

definition table_ok :: "nat \<Rightarrow> OpcodeTable \<Rightarrow> bool" where
  "table_ok n t = (min_lim t = 0 \<and> max_lim t < length (opcode_rows t) \<and> list_all (row_ok n) (opcode_rows t) \<and>
     (table_mask t = 0xff \<longleftrightarrow> n < 2))"

lemma first_rows_ok:
  "list_all (row_ok 0) first_opcode_byte_00" "list_all (row_ok 0) first_opcode_byte_40_x64"
  "list_all (row_ok 0) first_opcode_byte_40_x86" "list_all (row_ok 0) first_opcode_byte_50"
  "list_all (row_ok 0) first_opcode_byte_b8_x64" "list_all (row_ok 0) first_opcode_byte_b8_x86"
  "list_all (row_ok 0) first_opcode_byte_c0"
  by code_simp+

lemma first_length:
  "length first_opcode_byte_00 = 64" "length first_opcode_byte_40_x64 = 16" "length first_opcode_byte_40_x86 = 16"
  "length first_opcode_byte_50 = 104" "length first_opcode_byte_b8_x64 = 8" "length first_opcode_byte_b8_x86 = 8"
  "length first_opcode_byte_c0 = 64"
  by code_simp+

lemma first_table: "length (s_first_opcode_byte x64) = 256" "list_all (row_ok 0) (s_first_opcode_byte x64)"
  using first_rows_ok by (simp_all add: s_first_opcode_byte_def first_length)

lemma second_table: "length s_opcode_byte_after_0f = 256" "list_all (row_ok 1) s_opcode_byte_after_0f"
  by code_simp+

text \<open>The same check holds for every index from 2 on.\<close>

definition ext_table_ok :: "OpcodeTable \<Rightarrow> bool" where
  "ext_table_ok t = table_ok 2 t"

lemma extension_tables: "list_all ext_table_ok (drop 2 (s_ia32_opcode_map True))" "drop 2 (s_ia32_opcode_map False) = drop 2 (s_ia32_opcode_map True)"
  "length (s_ia32_opcode_map x64) = 25" "take 2 (s_ia32_opcode_map x64) =
     [opt (s_first_opcode_byte x64) 0 0xff 0 0xff, opt s_opcode_byte_after_0f 0 0xff 0 0xff]"
proof -
  show "list_all ext_table_ok (drop 2 (s_ia32_opcode_map True))" by code_simp
qed (simp_all add: s_ia32_opcode_map_def numeral_2_eq_2)

lemma table_ok_cong: "2 - n = 2 - k \<Longrightarrow> table_ok n t = table_ok k t"
proof -
  assume e: "2 - n = 2 - k"
  then have "n < 2 \<longleftrightarrow> k < 2" by linarith
  moreover have "n = 0 \<longleftrightarrow> k = 0" using e by linarith
  then have "row_ok n = row_ok k" using e by (simp add: row_ok_def fun_eq_iff)
  ultimately show ?thesis by (simp add: table_ok_def)
qed

lemma table_at:
  assumes "n < 25"
  shows "\<exists>t. array_at (s_ia32_opcode_map x64) n = Some t \<and> table_ok n t"
proof -
  let ?T = "s_ia32_opcode_map x64"
  have len: "n < length ?T" using assms extension_tables(3) by simp
  have "table_ok n (?T ! n)"
  proof (cases "n < 2")
    case True
    then have "?T ! n = take 2 ?T ! n" by simp
    moreover have "n = 0 \<or> n = 1" using True by linarith
    ultimately show ?thesis unfolding extension_tables(4) using first_table second_table by (auto simp: table_ok_def opt_def)
  next
    case False
    have "list_all ext_table_ok (drop 2 ?T)" using extension_tables(1,2) by (cases x64) simp_all
    moreover have "2 + (n - 2) = n" using False by simp
    then have "?T ! n = drop 2 ?T ! (n - 2)" using nth_drop [of 2 ?T "n - 2"] len by (metis less_imp_le False not_less order_trans)
    moreover have "n - 2 < length (drop 2 ?T)" using False len by simp
    ultimately have "ext_table_ok (?T ! n)" by (metis list_all_length)
    then show ?thesis using table_ok_cong [of n 2] False by (simp add: ext_table_ok_def)
  qed
  then show ?thesis using len by (auto simp: array_at_def)
qed

section \<open>Operands\<close>

lemma if_le: "(c \<Longrightarrow> (a :: nat) \<le> a') \<Longrightarrow> (\<not> c \<Longrightarrow> b \<le> b') \<Longrightarrow> (if c then a else b) \<le> (if c then a' else b')"
  by simp

lemma widest_sel [simp]: "operand_is_32_bits widest" "operand_is_64_bits widest" "operand_bytes widest = 0" "\<not> have_modrm widest"
  by (simp_all add: widest_def MiniDisassembler_default_def MiniDisassembler_new_def Initialize_def)

lemma immediate_bytes_widest: "immediate_bytes d f \<le> immediate_bytes widest f"
  unfolding immediate_bytes_def Let_def by (intro if_le) (simp_all add: operand_size_defs)

definition defaults :: "MiniDisassembler \<Rightarrow> bool \<times> bool" where
  "defaults d = (operand_default_is_32_bits d, address_default_is_32_bits d)"

text \<open>What an operand adds to the state.\<close>

definition modrm_operand :: "int \<Rightarrow> bool" where
  "modrm_operand f = (f \<noteq> AM_NOT_USED \<and> f AND AM_MASK \<in> {AM_C, AM_D, AM_G, AM_P, AM_R, AM_S, AM_T, AM_V, AM_E, AM_M, AM_Q, AM_W})"

definition decoded_operand :: "int \<Rightarrow> bool" where
  "decoded_operand f = (f \<noteq> AM_NOT_USED \<and> f AND AM_MASK \<notin> {AM_C, AM_D, AM_G, AM_P, AM_R, AM_S, AM_T, AM_V} \<and>
     f AND AM_MASK \<in> {AM_E, AM_M, AM_Q, AM_W})"

definition inline_bytes :: "MiniDisassembler \<Rightarrow> int \<Rightarrow> nat" where
  "inline_bytes d f = (if f \<noteq> AM_NOT_USED \<and> \<not> modrm_operand f \<and> f AND AM_MASK \<in> {AM_I, AM_J, AM_O} then immediate_bytes d f else 0)"

lemma ProcessOperand_eq:
  "snd (ProcessOperand d f) = d\<lparr>have_modrm := have_modrm d \<or> modrm_operand f,
     should_decode_modrm := should_decode_modrm d \<or> decoded_operand f, operand_bytes := operand_bytes d + inline_bytes d f\<rparr>"
proof (cases "f = AM_NOT_USED")
  case False
  define am where "am = f AND AM_MASK"
  note D = ProcessOperand_def modrm_operand_def decoded_operand_def inline_bytes_def Let_def am_def [symmetric]
  consider (A) "am \<in> {AM_C, AM_D, AM_G, AM_P, AM_R, AM_S, AM_T, AM_V}"
    | (B) "am \<notin> {AM_C, AM_D, AM_G, AM_P, AM_R, AM_S, AM_T, AM_V}" "am \<in> {AM_E, AM_M, AM_Q, AM_W}"
    | (C) "am \<notin> {AM_C, AM_D, AM_G, AM_P, AM_R, AM_S, AM_T, AM_V}" "am \<notin> {AM_E, AM_M, AM_Q, AM_W}" by blast
  then show ?thesis
  proof cases
    case A
    moreover from this have "am \<in> {AM_C, AM_D, AM_G, AM_P, AM_R, AM_S, AM_T, AM_V, AM_E, AM_M, AM_Q, AM_W}" by blast
    ultimately show ?thesis using False unfolding D by (simp only: if_True simp_thms if_False snd_conv add_0_right) simp
  next
    case B
    moreover from this have "am \<in> {AM_C, AM_D, AM_G, AM_P, AM_R, AM_S, AM_T, AM_V, AM_E, AM_M, AM_Q, AM_W}" by blast
    ultimately show ?thesis using False unfolding D by (simp only: if_True simp_thms if_False snd_conv add_0_right) simp
  next
    case C
    then have "am \<notin> {AM_C, AM_D, AM_G, AM_P, AM_R, AM_S, AM_T, AM_V, AM_E, AM_M, AM_Q, AM_W}" by blast
    with C show ?thesis using False unfolding D by (simp only: if_True simp_thms if_False snd_conv add_0_right) simp
  qed
qed (simp add: ProcessOperand_def modrm_operand_def decoded_operand_def inline_bytes_def)

lemma inline_bytes_cong [simp]:
  "inline_bytes (d\<lparr>have_modrm := a, should_decode_modrm := b, operand_bytes := n\<rparr>) f = inline_bytes d f"
  "inline_bytes (d\<lparr>instruction_type := t\<rparr>) f = inline_bytes d f"
  by (simp_all add: inline_bytes_def immediate_bytes_def Let_def)

lemma inline_bytes_widest: "inline_bytes d f \<le> inline_bytes widest f"
  using immediate_bytes_widest [of d f] by (simp add: inline_bytes_def)

lemma process_operands_eq:
  "process_operands d sp = d\<lparr>instruction_type := opcode_type sp,
     have_modrm := have_modrm d \<or> modrm_operand (flag_dest sp) \<or> modrm_operand (flag_source sp) \<or> modrm_operand (flag_aux sp),
     should_decode_modrm := should_decode_modrm d \<or> decoded_operand (flag_dest sp) \<or> decoded_operand (flag_source sp) \<or> decoded_operand (flag_aux sp),
     operand_bytes := operand_bytes d + inline_bytes d (flag_dest sp) + inline_bytes d (flag_source sp) + inline_bytes d (flag_aux sp)\<rparr>"
proof -
  have "process_operands d sp = snd (ProcessOperand (snd (ProcessOperand (snd (ProcessOperand (d\<lparr>instruction_type := opcode_type sp\<rparr>)
      (flag_dest sp))) (flag_source sp))) (flag_aux sp))"
    by (simp add: process_operands_def Let_def case_prod_unfold)
  then show ?thesis unfolding ProcessOperand_eq by (simp add: disj_assoc)
qed

lemma process_operands_bytes:
  assumes "operand_bytes d = 0" "\<not> have_modrm d" "sp_ok sp"
  shows "operand_bytes (process_operands d sp) \<le> (if have_modrm (process_operands d sp) then 4 else 8)"
proof -
  have "operand_bytes (process_operands d sp) \<le> operand_bytes (process_operands widest sp)"
    using assms(1) inline_bytes_widest [of d "flag_dest sp"] inline_bytes_widest [of d "flag_source sp"] inline_bytes_widest [of d "flag_aux sp"]
    unfolding process_operands_eq by simp
  moreover have "have_modrm (process_operands d sp) = have_modrm (process_operands widest sp)" using assms(2) unfolding process_operands_eq by simp
  ultimately show ?thesis using assms(3) unfolding sp_ok_def Let_def by (auto split: if_splits)
qed

lemma choose_variant: "choose_opcode d oc \<in> set (variants oc)"
  by (simp add: choose_opcode_def variants_def)

end
