(* ===== verification/Disassembler_Length.thy ===== *)
theory Disassembler_Length
  imports Disassembler_Tables
begin

text \<open>
  One specification for each step of the disassembler: it returns, it stays inside the tables, how far
  it moves and which bytes it reads.
\<close>

section \<open>The ModR/M byte\<close>

lemma all_bytes: "list_all P (map word_of_int [0..255]) \<Longrightarrow> P (b :: 8 word)"
proof -
  assume P: "list_all P (map word_of_int [0..255])"
  have "uint b \<in> {0..255}" using unsigned_less [of b, where ?'a = int] by simp
  moreover have "b = word_of_int (uint b)" by simp
  ultimately have "b \<in> set (map word_of_int [0..255])" unfolding set_map set_upto by (rule rev_image_eqI)
  with P show "P b" by (simp only: list_all_iff)
qed

definition modrm_index :: "8 word \<Rightarrow> nat" where
  "modrm_index b = unat (drop_bit 3 (b AND 0xC0) OR (b AND 0x07))"

definition modrm_map :: "bool \<Rightarrow> ModrmEntry list" where
  "modrm_map a32 = (if a32 then s_ia32_modrm_map else s_ia16_modrm_map)"

lemma modrm_index: "modrm_index b < 32"
proof -
  have "list_all (\<lambda>b. modrm_index b < 32) (map word_of_int [0..255])" by code_simp
  from all_bytes [OF this] show ?thesis .
qed

lemma modrm_rows: "length (modrm_map a32) = 32" "list_all (\<lambda>e. operand_size e \<le> 4) (modrm_map a32)"
proof -
  have "length (modrm_map True) = 32" "length (modrm_map False) = 32" by code_simp+
  then show "length (modrm_map a32) = 32" by (cases a32) simp_all
  have "list_all (\<lambda>e. operand_size e \<le> 4) (modrm_map True)" "list_all (\<lambda>e. operand_size e \<le> 4) (modrm_map False)" by code_simp+
  then show "list_all (\<lambda>e. operand_size e \<le> 4) (modrm_map a32)" by (cases a32) simp_all
qed

text \<open>The bytes of operands and the bytes of ModR/M and SIB that a ModR/M byte \<open>b\<close> stands for; \<open>q\<close> is the
  base field of the SIB byte.\<close>

definition modrm_effect :: "bool \<Rightarrow> 8 word \<Rightarrow> 8 word \<Rightarrow> nat \<times> nat" where
  "modrm_effect a32 b q =
     (let e = modrm_map a32 ! modrm_index b; md = drop_bit 3 (drop_bit 3 (b AND 0xC0));
          n = (if is_encoded_in_instruction e then operand_size e else 0)
      in if use_sib_byte e then
           (n + (if q = 0x05 then (if md = 0x00 \<or> md = 0x02 then OS_DOUBLE_WORD else if md = 0x01 then OS_BYTE else 0) else 0), 2)
         else (n, 1))"

lemma ProcessModrm_eq:
  "ProcessModrm m p d s =
     (if \<not> should_decode_modrm d then Some (True, d, s + 1)
      else case modrm_effect (address_is_32_bits d) (m p) (m (p + 1) AND 0x07) of (n, k) \<Rightarrow>
        Some (True, d\<lparr>operand_bytes := operand_bytes d + n\<rparr>, s + k))"
proof (cases "should_decode_modrm d")
  case True
  let ?e = "modrm_map (address_is_32_bits d) ! modrm_index (m p)"
  have "array_at (if address_is_32_bits d then s_ia32_modrm_map else s_ia16_modrm_map)
      (unat (drop_bit 3 (m p AND 0xC0) OR (m p AND 0x07))) = Some ?e"
    using modrm_index [of "m p"] modrm_rows(1) [of "address_is_32_bits d"] by (simp add: array_at_def modrm_index_def modrm_map_def)
  then show ?thesis using True
    by (simp add: ProcessModrm_def ProcessSib_def modrm_effect_def Let_def)
qed (simp add: ProcessModrm_def)

lemma modrm_effect_bound: "modrm_effect a32 b q = (n, k) \<Longrightarrow> n \<le> 8 \<and> 1 \<le> k \<and> k \<le> 2"
proof -
  assume e: "modrm_effect a32 b q = (n, k)"
  have "operand_size (modrm_map a32 ! modrm_index b) \<le> 4"
    using modrm_rows(2) [of a32] modrm_index [of b] modrm_rows(1) [of a32] by (simp add: list_all_length)
  then show ?thesis using e by (auto simp: modrm_effect_def Let_def operand_size_defs split: if_splits)
qed

section \<open>The opcode\<close>

definition first_opcode :: "bool \<Rightarrow> 8 word \<Rightarrow> Opcode" where
  "first_opcode x64 b = s_first_opcode_byte x64 ! unat b"

lemma first_opcode_at: "array_at (s_first_opcode_byte x64) (unat b) = Some (first_opcode x64 b)"
  using unsigned_less [of b, where ?'a = nat] by (simp add: array_at_def first_table first_opcode_def)

definition is_prefix_byte :: "bool \<Rightarrow> 8 word \<Rightarrow> bool" where
  "is_prefix_byte x64 b = is_prefix (opcode_type (first_opcode x64 b))"

text \<open>The row that a byte selects in a table.\<close>

definition row_of :: "OpcodeTable \<Rightarrow> 8 word \<Rightarrow> nat" where
  "row_of t b = unat (drop_bit (table_shift t) b AND table_mask t)"

lemma ProcessOpcode_step:
  assumes n: "n < 25" and d: "operand_bytes d = 0" "\<not> have_modrm d" and p: "n = 0 \<Longrightarrow> \<not> is_prefix_byte x64 (m p)"
  obtains
    (stop) t d' where "\<And>m'. m' p = m p \<Longrightarrow> ProcessOpcode x64 m' p n d s = Some (t, d', s)" "defaults d' = defaults d"
      "instruction_type d' \<in> {IT_UNUSED, IT_UNKNOWN}"
  | (refer) n' where "2 - n' < 2 - n" "n' < 25" "0 < n'"
      "\<And>m'. m' p = m p \<Longrightarrow> ProcessOpcode x64 m' p n d s =
        do { (t, d, s) \<leftarrow> ProcessOpcode x64 m' (p + 1) n' d (s + 1); Some (instruction_type d, d, s) }"
  | (row) d' e where "defaults d' = defaults d" "instruction_type d' \<in> {IT_JUMP, IT_RETURN, IT_GENERIC, IT_UNUSED, IT_UNKNOWN}"
      "operand_bytes d' \<le> (if have_modrm d' then 4 else 8)" "e = (if n < 2 then 1 else 0)"
      "\<And>m'. m' p = m p \<Longrightarrow> ProcessOpcode x64 m' p n d s =
        (if have_modrm d' then do { (ok, d, s) \<leftarrow> ProcessModrm m' (p + e) d' (s + e); Some (IT_GENERIC, d, s) }
         else Some (IT_GENERIC, d', s + 1))"
proof -
  obtain t where t: "array_at (s_ia32_opcode_map x64) n = Some t" "table_ok n t" using table_at [OF n] by blast
  let ?b = "row_of t (m p)"
  have b: "unat (drop_bit (table_shift t) x AND table_mask t) = ?b" if "x = m p" for x using that by (simp add: row_of_def)
  show thesis
  proof (cases "?b < min_lim t \<or> ?b > max_lim t")
    case True
    have "ProcessOpcode x64 m' p n d s = Some (IT_UNKNOWN, d\<lparr>instruction_type := IT_UNKNOWN\<rparr>, s)" if "m' p = m p" for m' :: code
      using True by (simp add: ProcessOpcode.simps [of x64 m' p n] t(1) b [OF that] Let_def)
    then show thesis by (rule stop) (simp_all add: defaults_def)
  next
    case False
    then have len: "?b < length (opcode_rows t)" using t(2) by (auto simp: table_ok_def)
    let ?oc = "opcode_rows t ! ?b"
    have oc: "array_at (opcode_rows t) ?b = Some ?oc" using len by (simp add: array_at_def)
    have ok: "row_ok n ?oc" using t(2) len by (simp add: table_ok_def list_all_length)
    have msk: "table_mask t = 0xff \<longleftrightarrow> n < 2" using t(2) by (simp add: table_ok_def)
    note S = ProcessOpcode.simps [of x64 _ p n d s, unfolded t(1) bind.bind_lunit Let_def]
    consider (unused) "opcode_type ?oc = IT_UNUSED" | (reference) "opcode_type ?oc = IT_REFERENCE"
      | (other) "opcode_type ?oc \<noteq> IT_UNUSED" "opcode_type ?oc \<noteq> IT_REFERENCE" by blast
    then show thesis
    proof cases
      case unused
      have "ProcessOpcode x64 m' p n d s = Some (IT_UNUSED, d\<lparr>instruction_type := IT_UNUSED\<rparr>, s)" if "m' p = m p" for m' :: code
        using False unused by (simp add: S b [OF that] oc)
      then show thesis by (rule stop) (simp_all add: defaults_def)
    next
      case reference
      then have "2 - table_index ?oc < 2 - n" "table_index ?oc < 25" using ok by (simp_all add: row_ok_def)
      moreover from this(1) have "0 < table_index ?oc" by linarith
      moreover have "ProcessOpcode x64 m' p n d s =
          do { (t, d, s) \<leftarrow> ProcessOpcode x64 m' (p + 1) (table_index ?oc) d (s + 1); Some (instruction_type d, d, s) }" if "m' p = m p" for m' :: code
        using False reference by (simp add: S b [OF that] oc)
      ultimately show thesis by (rule refer)
    next
      case other
      let ?d = "process_operands d (choose_opcode d ?oc)"
      have np: "\<not> is_prefix (opcode_type ?oc)"
      proof
        assume pr: "is_prefix (opcode_type ?oc)"
        then have n0: "n = 0" using ok other by (simp add: row_ok_def split: if_splits)
        then have "t = opt (s_first_opcode_byte x64) 0 0xff 0 0xff" using t(1) by (simp add: array_at_def s_ia32_opcode_map_def)
        moreover have "m p AND 0xff = m p" by (rule bit_word_eqI) (auto simp: bit_and_iff bit_numeral_rec numeral_eq_Suc less_Suc_eq)
        ultimately have "?oc = first_opcode x64 (m p)" by (simp add: row_of_def opt_def first_opcode_def)
        then show False using pr p [OF n0] by (simp add: is_prefix_byte_def)
      qed
      then have "sp_ok (choose_opcode d ?oc)" using ok other(2) choose_variant [of d ?oc] by (simp add: row_ok_def list_all_iff)
      then have 1: "operand_bytes ?d \<le> (if have_modrm ?d then 4 else 8)" "instruction_type ?d \<in> {IT_JUMP, IT_RETURN, IT_GENERIC, IT_UNUSED, IT_UNKNOWN}"
        using process_operands_bytes [OF d] by (simp_all add: sp_ok_def process_operands_eq)
      have 2: "defaults ?d = defaults d" by (simp add: process_operands_eq defaults_def)
      have "ProcessOpcode x64 m' p n d s = (if have_modrm ?d then do { (ok, d, s) \<leftarrow> ProcessModrm m' (p + (if n < 2 then 1 else 0)) ?d (s + (if n < 2 then 1 else 0)); Some (IT_GENERIC, d, s) }
         else Some (IT_GENERIC, ?d, s + 1))" if "m' p = m p" for m' :: code
        using False other msk by (simp add: S b [OF that] oc)
      from row [OF 2 1(2,1) refl this] show thesis .
    qed
  qed
qed

text \<open>The whole opcode with its ModR/M and SIB bytes: at most \<open>4 - n\<close> bytes are read, from table \<open>n\<close> on.\<close>

lemma ProcessOpcode_ok:
  assumes "n < 25" "operand_bytes d = 0" "\<not> have_modrm d" "n = 0 \<Longrightarrow> \<not> is_prefix_byte x64 (m p)"
  shows "\<exists>t d' k. (\<forall>m'. (\<forall>i<2 + (2 - n). m' (p + i) = m (p + i)) \<longrightarrow> ProcessOpcode x64 m' p n d s = Some (t, d', s + k)) \<and>
    defaults d' = defaults d \<and> instruction_type d' \<in> {IT_JUMP, IT_RETURN, IT_GENERIC, IT_UNUSED, IT_UNKNOWN} \<and>
    (instruction_type d' \<in> {IT_UNUSED, IT_UNKNOWN} \<or> 1 \<le> k \<and> k + operand_bytes d' \<le> 14 + (2 - n))"
  using assms
proof (induction "2 - n" arbitrary: n p s rule: less_induct)
  case less
  show ?case
  proof (rule ProcessOpcode_step [OF less.prems(1-3), of x64 m p s])
    assume "n = 0"
    then show "\<not> is_prefix_byte x64 (m p)" by (rule less.prems(4))
  next
    fix t d' assume A: "\<And>m'. m' p = m p \<Longrightarrow> ProcessOpcode x64 m' p n d s = Some (t, d', s)" "defaults d' = defaults d"
      "instruction_type d' \<in> {IT_UNUSED, IT_UNKNOWN}"
    have "ProcessOpcode x64 m' p n d s = Some (t, d', s + 0)" if "\<forall>i<2 + (2 - n). m' (p + i) = m (p + i)" for m'
      using A(1) [of m'] that [rule_format, of 0] by simp
    with A(2,3) show ?thesis by blast
  next
    fix n' assume A: "2 - n' < 2 - n" "n' < 25" "0 < n'"
      "\<And>m'. m' p = m p \<Longrightarrow> ProcessOpcode x64 m' p n d s =
        do { (t, d, s) \<leftarrow> ProcessOpcode x64 m' (p + 1) n' d (s + 1); Some (instruction_type d, d, s) }"
    from less.hyps [OF A(1,2) less.prems(2,3), of "p + 1" "s + 1"] A(3) obtain t d' k where
      B: "\<forall>m'. (\<forall>i<2 + (2 - n'). m' (p + 1 + i) = m (p + 1 + i)) \<longrightarrow> ProcessOpcode x64 m' (p + 1) n' d (s + 1) = Some (t, d', s + 1 + k)"
        "defaults d' = defaults d" "instruction_type d' \<in> {IT_JUMP, IT_RETURN, IT_GENERIC, IT_UNUSED, IT_UNKNOWN}"
        "instruction_type d' \<in> {IT_UNUSED, IT_UNKNOWN} \<or> 1 \<le> k \<and> k + operand_bytes d' \<le> 14 + (2 - n')" by blast
    have "ProcessOpcode x64 m' p n d s = Some (instruction_type d', d', s + (1 + k))" if "\<forall>i<2 + (2 - n). m' (p + i) = m (p + i)" for m'
    proof -
      have "m' (p + 1 + i) = m (p + 1 + i)" if "i < 2 + (2 - n')" for i
        using \<open>\<forall>i<2 + (2 - n). m' (p + i) = m (p + i)\<close> [rule_format, of "1 + i"] that A(1) by (simp add: add.assoc)
      then show ?thesis using A(4) [of m'] B(1) that [rule_format, of 0] by simp
    qed
    moreover have "1 + k + operand_bytes d' \<le> 14 + (2 - n)" if "k + operand_bytes d' \<le> 14 + (2 - n')" using that A(1) by linarith
    ultimately show ?thesis using B(2-4) by (metis le_add1)
  next
    fix d' e assume A: "defaults d' = defaults d" "instruction_type d' \<in> {IT_JUMP, IT_RETURN, IT_GENERIC, IT_UNUSED, IT_UNKNOWN}"
      "operand_bytes d' \<le> (if have_modrm d' then 4 else 8)" "e = (if n < 2 then 1 else 0)"
      "\<And>m'. m' p = m p \<Longrightarrow> ProcessOpcode x64 m' p n d s =
        (if have_modrm d' then do { (ok, d, s) \<leftarrow> ProcessModrm m' (p + e) d' (s + e); Some (IT_GENERIC, d, s) }
         else Some (IT_GENERIC, d', s + 1))"
    show ?thesis
    proof (cases "have_modrm d' \<and> should_decode_modrm d'")
      case True
      obtain j k where M: "modrm_effect (address_is_32_bits d') (m (p + e)) (m (p + e + 1) AND 0x07) = (j, k)"
        by (cases "modrm_effect (address_is_32_bits d') (m (p + e)) (m (p + e + 1) AND 0x07)") auto
      have "ProcessOpcode x64 m' p n d s = Some (IT_GENERIC, d'\<lparr>operand_bytes := operand_bytes d' + j\<rparr>, s + (e + k))"
        if "\<forall>i<2 + (2 - n). m' (p + i) = m (p + i)" for m'
      proof -
        have "m' p = m p" "m' (p + e) = m (p + e)" "m' (p + e + 1) = m (p + e + 1)"
          using that [rule_format, of 0] that [rule_format, of e] that [rule_format, of "e + 1"] A(4) by (auto simp: add.assoc split: if_splits)
        then show ?thesis using A(5) [of m'] True M by (simp add: ProcessModrm_eq)
      qed
      moreover have "e + k + (operand_bytes d' + j) \<le> 14 + (2 - n)" "1 \<le> e + k"
        using A(3,4) True modrm_effect_bound [OF M] by (auto split: if_splits)
      ultimately show ?thesis using A(1,2)
        by (intro exI [of _ IT_GENERIC] exI [of _ "d'\<lparr>operand_bytes := operand_bytes d' + j\<rparr>"] exI [of _ "e + k"]) (simp add: defaults_def)
    next
      case False
      define k where "k = (if have_modrm d' then e + 1 else 1)"
      have "ProcessOpcode x64 m' p n d s = Some (IT_GENERIC, d', s + k)" if "\<forall>i<2 + (2 - n). m' (p + i) = m (p + i)" for m'
        using A(5) [of m'] that [rule_format, of 0] False by (auto simp: ProcessModrm_eq k_def)
      moreover have "k + operand_bytes d' \<le> 14 + (2 - n)" "1 \<le> k" using A(3,4) by (auto simp: k_def split: if_splits)
      ultimately show ?thesis using A(1,2) by blast
    qed
  qed
qed

section \<open>Prefixes\<close>

text \<open>The instruction at \<open>p\<close> starts with exactly \<open>k\<close> prefixes.\<close>

definition prefix_run :: "bool \<Rightarrow> code \<Rightarrow> nat \<Rightarrow> nat \<Rightarrow> bool" where
  "prefix_run x64 m p k = ((\<forall>i<k. is_prefix_byte x64 (m (p + i))) \<and> \<not> is_prefix_byte x64 (m (p + k)))"

definition keeps_counts :: "MiniDisassembler \<Rightarrow> MiniDisassembler \<Rightarrow> bool" where
  "keeps_counts d d' = (defaults d' = defaults d \<and> operand_bytes d' = operand_bytes d \<and> have_modrm d' = have_modrm d)"

lemma note_prefix_keeps: "keeps_counts d (note_prefix (switch_sizes d t) b)"
  by (simp add: keeps_counts_def note_prefix_def switch_sizes_def defaults_def)

lemma ProcessPrefixes_run:
  assumes "prefix_run x64 m p k"
  shows "\<exists>t d'. (\<forall>m'. (\<forall>i\<le>k. m' (p + i) = m (p + i)) \<longrightarrow> ProcessPrefixes x64 m' p d s = Some (t, d', s + k)) \<and>
    t \<noteq> IT_UNKNOWN \<and> keeps_counts d d'"
  using assms
proof (induction k arbitrary: p d s)
  case 0
  have "ProcessPrefixes x64 m' p d s = Some (IT_GENERIC, d, s + 0)" if "\<forall>i\<le>0. m' (p + i) = m (p + i)" for m'
    using 0 that by (simp add: ProcessPrefixes.simps [of x64 m' p] first_opcode_at prefix_run_def is_prefix_byte_def)
  then show ?case by (intro exI [of _ IT_GENERIC] exI [of _ d]) (simp add: keeps_counts_def)
next
  case (Suc k)
  let ?t = "opcode_type (first_opcode x64 (m p))" and ?d = "note_prefix (switch_sizes d (opcode_type (first_opcode x64 (m p)))) (m p)"
  have pre: "is_prefix ?t" using Suc.prems by (auto simp: prefix_run_def is_prefix_byte_def)
  have "prefix_run x64 m (p + 1) k"
    unfolding prefix_run_def
  proof (intro conjI allI impI)
    fix i assume "i < k"
    then show "is_prefix_byte x64 (m (p + 1 + i))" using Suc.prems unfolding prefix_run_def by (auto dest: spec [of _ "Suc i"])
  qed (use Suc.prems in \<open>simp add: prefix_run_def\<close>)
  from Suc.IH [OF this, of ?d "s + 1"] obtain t d' where
    I: "\<forall>m'. (\<forall>i\<le>k. m' (p + 1 + i) = m (p + 1 + i)) \<longrightarrow> ProcessPrefixes x64 m' (p + 1) ?d (s + 1) = Some (t, d', s + 1 + k)"
      "t \<noteq> IT_UNKNOWN" "keeps_counts ?d d'" by blast
  have "ProcessPrefixes x64 m' p d s = Some (?t, d', s + Suc k)" if E: "\<forall>i\<le>Suc k. m' (p + i) = m (p + i)" for m'
  proof -
    have "m' (p + 1 + i) = m (p + 1 + i)" if "i \<le> k" for i using E [rule_format, of "Suc i"] that by simp
    then have "ProcessPrefixes x64 m' (p + 1) ?d (s + 1) = Some (t, d', s + 1 + k)" using I(1) by blast
    moreover have "m' p = m p" using E [rule_format, of 0] by simp
    ultimately show ?thesis using pre by (simp add: ProcessPrefixes.simps [of x64 m' p] first_opcode_at Let_def)
  qed
  moreover have "?t \<noteq> IT_UNKNOWN" using pre by (auto simp: is_prefix_def)
  moreover have "keeps_counts d d'" using I(3) note_prefix_keeps [of d ?t "m p"] by (simp add: keeps_counts_def)
  ultimately show ?case by blast
qed

text \<open>Scanning returns only if there is a byte that is not a prefix.\<close>

lemma ProcessPrefixes_ends:
  assumes "ProcessPrefixes x64 m p d s = Some y"
  shows "\<exists>k. prefix_run x64 m p k"
proof (rule ProcessPrefixes.raw_induct [where P = "\<lambda>x64 m p d s y. \<exists>k. prefix_run x64 m p k", OF _ assms])
  fix f :: "bool \<Rightarrow> code \<Rightarrow> nat \<Rightarrow> MiniDisassembler \<Rightarrow> nat \<Rightarrow> (InstructionType \<times> MiniDisassembler \<times> nat) option"
    and x64 m p d s y
  assume IH: "\<And>x64 m p d s y. f x64 m p d s = Some y \<Longrightarrow> \<exists>k. prefix_run x64 m p k"
    and f: "do { opcode \<leftarrow> array_at (s_first_opcode_byte x64) (unat (m p));
        let t = opcode_type opcode in
        if is_prefix t then
          let d = note_prefix (switch_sizes d t) (m p) in do {
            (t', d, size1) \<leftarrow> f x64 m (p + 1) d (s + 1);
            Some (t, d, size1) }
        else Some (IT_GENERIC, d, s) } = Some y"
  show "\<exists>k. prefix_run x64 m p k"
  proof (cases "is_prefix_byte x64 (m p)")
    case True
    then have pre: "is_prefix (opcode_type (first_opcode x64 (m p)))" by (simp add: is_prefix_byte_def)
    obtain d1 z where "f x64 m (p + 1) d1 (s + 1) = Some z"
      using f pre by (auto simp: first_opcode_at Let_def split: Option.bind_splits)
    from IH [OF this] obtain k where k: "prefix_run x64 m (p + 1) k" by blast
    have "prefix_run x64 m p (Suc k)"
      unfolding prefix_run_def
    proof (intro conjI allI impI)
      fix i assume "i < Suc k"
      then show "is_prefix_byte x64 (m (p + i))" using True k by (cases i) (auto simp: prefix_run_def)
    qed (use k in \<open>simp add: prefix_run_def\<close>)
    then show ?thesis by blast
  next
    case False
    then have "prefix_run x64 m p 0" by (simp add: prefix_run_def)
    then show ?thesis by blast
  qed
qed

end
