(* ===== verification/Disassembler_Properties.thy ===== *)
theory Disassembler_Properties
  imports Disassembler_Length
begin

text \<open>The properties of the disassembler.\<close>

section \<open>Every instruction\<close>

definition ex_code :: "8 word list \<Rightarrow> code" where
  "ex_code bs i = (if i < length bs then bs ! i else 0)"

lemma Initialize_defaults: "defaults d = defaults d' \<Longrightarrow> Initialize x64 d = Initialize x64 d'"
  by (cases d; cases d') (simp add: Initialize_def defaults_def)

lemma Initialize_fields [simp]: "operand_bytes (Initialize x64 d) = 0" "\<not> have_modrm (Initialize x64 d)" "defaults (Initialize x64 d) = defaults d"
  by (simp_all add: Initialize_def defaults_def)

text \<open>C34: An instruction that starts with \<open>k\<close> prefixes is disassembled without leaving the tables. Either
  the result is \<open>IT_UNKNOWN\<close> and the caller's count is not changed, or it is a jump, a return or a generic
  instruction and its length, at least 1 and at most 16 bytes beyond the prefixes, is added. Only the
  prefixes and the four bytes after them are read.\<close>

theorem Disassemble_length:
  assumes "prefix_run x64 m p k"
  shows "\<exists>t n' d'. (\<forall>m'. (\<forall>i<k + 4. m' (p + i) = m (p + i)) \<longrightarrow> Disassemble x64 m' d p n = Some (t, n', d')) \<and>
    (t = IT_UNKNOWN \<and> n' = n \<or>
     t \<in> {IT_JUMP, IT_RETURN, IT_GENERIC} \<and> (\<exists>len. k + 1 \<le> len \<and> len \<le> k + 16 \<and> n' = (n + len) mod 2 ^ 32))"
proof -
  let ?d = "Initialize x64 d"
  obtain t0 d0 where 0: "\<forall>m'. (\<forall>i\<le>k. m' (p + i) = m (p + i)) \<longrightarrow> ProcessPrefixes x64 m' p ?d 0 = Some (t0, d0, 0 + k)"
    "t0 \<noteq> IT_UNKNOWN" "keeps_counts ?d d0" using ProcessPrefixes_run [OF assms, where s = 0 and d = ?d] by blast
  have d0: "operand_bytes d0 = 0" "\<not> have_modrm d0" using 0(3) by (simp_all add: keeps_counts_def)
  have np: "\<not> is_prefix_byte x64 (m (p + k))" using assms by (simp add: prefix_run_def)
  obtain t1 d1 j where 1: "\<forall>m'. (\<forall>i<4. m' (p + k + i) = m (p + k + i)) \<longrightarrow> ProcessOpcode x64 m' (p + k) 0 d0 0 = Some (t1, d1, 0 + j)"
    "instruction_type d1 \<in> {IT_JUMP, IT_RETURN, IT_GENERIC, IT_UNUSED, IT_UNKNOWN}"
    "instruction_type d1 \<in> {IT_UNUSED, IT_UNKNOWN} \<or> 1 \<le> j \<and> j + operand_bytes d1 \<le> 16"
    using ProcessOpcode_ok [of 0 d0 x64 m "p + k" 0, OF _ d0 np] by auto
  have run: "ProcessPrefixes x64 m' p ?d 0 = Some (t0, d0, k)" "ProcessOpcode x64 m' (p + k) 0 d0 0 = Some (t1, d1, j)"
    if m': "\<forall>i<k + 4. m' (p + i) = m (p + i)" for m'
  proof -
    show "ProcessPrefixes x64 m' p ?d 0 = Some (t0, d0, k)" using 0(1) m' by simp
    have "m' (p + k + i) = m (p + k + i)" if "i < 4" for i using m' [rule_format, of "k + i"] that by (simp add: add.assoc)
    then show "ProcessOpcode x64 m' (p + k) 0 d0 0 = Some (t1, d1, j)" using 1(1) by simp
  qed
  show ?thesis
  proof (cases "instruction_type d1 \<in> {IT_UNUSED, IT_UNKNOWN}")
    case True
    have "Disassemble x64 m' d p n = Some (IT_UNKNOWN, n, d1)" if "\<forall>i<k + 4. m' (p + i) = m (p + i)" for m'
      using run [OF that] 0(2) True by (auto simp: Disassemble_def)
    then show ?thesis by blast
  next
    case False
    have "Disassemble x64 m' d p n = Some (instruction_type d1, (n + (k + j + operand_bytes d1)) mod 2 ^ 32, d1)"
      if "\<forall>i<k + 4. m' (p + i) = m (p + i)" for m'
      using run [OF that] 0(2) False by (simp add: Disassemble_def Let_def ac_simps)
    moreover have "k + 1 \<le> k + j + operand_bytes d1 \<and> k + j + operand_bytes d1 \<le> k + 16" using 1(3) False by simp
    moreover have "instruction_type d1 \<in> {IT_JUMP, IT_RETURN, IT_GENERIC}" using 1(2) False by blast
    ultimately show ?thesis by blast
  qed
qed

lemma ex_no_prefix: "prefix_run True (ex_code [0x8b, 0x44, 0x24, 0x10]) 0 0"
proof -
  have "\<not> is_prefix_byte True 0x8b" by code_simp
  then show ?thesis by (simp add: prefix_run_def ex_code_def)
qed

theorem Disassemble_length_witness:
  "\<exists>t n' d'. Disassemble True (ex_code [0x8b, 0x44, 0x24, 0x10]) (MiniDisassembler_default True) 0 0 = Some (t, n', d') \<and> n' \<le> 16"
proof -
  from Disassemble_length [OF ex_no_prefix, where d = "MiniDisassembler_default True" and n = 0] obtain t n' d' where
    D: "\<forall>m'. (\<forall>i<0 + 4. m' (0 + i) = ex_code [0x8b, 0x44, 0x24, 0x10] (0 + i)) \<longrightarrow> Disassemble True m' (MiniDisassembler_default True) 0 0 = Some (t, n', d')"
    "t = IT_UNKNOWN \<and> n' = 0 \<or> t \<in> {IT_JUMP, IT_RETURN, IT_GENERIC} \<and> (\<exists>len. 0 + 1 \<le> len \<and> len \<le> 0 + 16 \<and> n' = (0 + len) mod 2 ^ 32)" by blast
  have "Disassemble True (ex_code [0x8b, 0x44, 0x24, 0x10]) (MiniDisassembler_default True) 0 0 = Some (t, n', d')" using D(1) by blast
  moreover have "n' \<le> 16" using D(2) mod_less_eq_dividend order_trans by fastforce
  ultimately show ?thesis by blast
qed

text \<open>C35: \<open>Disassemble\<close> returns just if a byte that is not a prefix follows: over nothing but prefixes the
  recursion of \<open>ProcessPrefixes\<close> does not end.\<close>

theorem Disassemble_returns_iff: "(Disassemble x64 m d p n \<noteq> None) = (\<exists>k. prefix_run x64 m p k)"
proof
  assume "\<exists>k. prefix_run x64 m p k"
  then obtain k where "prefix_run x64 m p k" by blast
  from Disassemble_length [OF this, where d = d and n = n] show "Disassemble x64 m d p n \<noteq> None" by blast
next
  assume "Disassemble x64 m d p n \<noteq> None"
  then obtain y where "ProcessPrefixes x64 m p (Initialize x64 d) 0 = Some y"
    by (auto simp: Disassemble_def Let_def split: Option.bind_splits)
  then show "\<exists>k. prefix_run x64 m p k" by (rule ProcessPrefixes_ends)
qed



section \<open>The ModR/M byte against the manual\<close>

text \<open>The bytes of ModR/M, SIB and displacement in 32-bit addressing, as the processor manual has them.\<close>

definition manual_length :: "8 word \<Rightarrow> 8 word \<Rightarrow> nat" where
  "manual_length b sib =
     (let md = unat (drop_bit 6 b); rm = unat (b AND 0x07); base = unat (sib AND 0x07) in
      1 + (if md \<noteq> 3 \<and> rm = 4 then 1 else 0) +
      (if md = 0 then (if rm = 5 \<or> rm = 4 \<and> base = 5 then 4 else 0)
       else if md = 1 then 1 else if md = 2 then 4 else 0))"

definition effect_ok :: "8 word \<Rightarrow> 8 word \<Rightarrow> bool" where
  "effect_ok b q = (case modrm_effect True b q of (n, k) \<Rightarrow>
     n + k = manual_length b q + (if unat (b AND 0x07) = 4 \<and> q = 5 then (if unat (drop_bit 6 b) = 1 then 1 else if unat (drop_bit 6 b) = 2 then 4 else 0) else 0))"

lemma effect_ok_all: "effect_ok b (sib AND 0x07)"
proof -
  let ?q = "sib AND 0x07"
  have "list_all (\<lambda>b. effect_ok b 0) (map word_of_int [0..255])" "list_all (\<lambda>b. effect_ok b 5) (map word_of_int [0..255])" by code_simp+
  then have b: "effect_ok b 0" "effect_ok b 5" using all_bytes by blast+
  show ?thesis
  proof (cases "?q = 5")
    case False
    have q: "?q AND 0x07 = ?q" by (simp add: and.assoc)
    have "unat ?q \<noteq> 5" using False unfolding word_unat_eq_iff [of ?q 5] by simp
    then have "manual_length b ?q = manual_length b 0" unfolding manual_length_def Let_def q by simp
    moreover have "(0 :: 8 word) \<noteq> 5" by simp
    then have "modrm_effect True b ?q = modrm_effect True b 0" using False unfolding modrm_effect_def Let_def by simp
    ultimately show ?thesis using b(1) False by (simp add: effect_ok_def)
  qed (use b(2) in simp)
qed

text \<open>C38: For a ModR/M byte that has to be decoded, with 32-bit addresses, the bytes counted are those of the
  manual, except that with a SIB byte whose base is 5 and mod 1 or 2 the displacement is counted twice.\<close>

theorem ProcessModrm_manual:
  assumes "should_decode_modrm d" "address_is_32_bits d"
  shows "\<exists>d' s'. ProcessModrm m p d s = Some (True, d', s') \<and>
    (s' - s) + (operand_bytes d' - operand_bytes d) = manual_length (m p) (m (p + 1)) +
      (if unat (m p AND 0x07) = 4 \<and> m (p + 1) AND 0x07 = 5
       then (if unat (drop_bit 6 (m p)) = 1 then 1 else if unat (drop_bit 6 (m p)) = 2 then 4 else 0) else 0)"
proof -
  obtain n k where e: "modrm_effect True (m p) (m (p + 1) AND 0x07) = (n, k)" by (cases "modrm_effect True (m p) (m (p + 1) AND 0x07)") auto
  have "m (p + 1) AND 0x07 AND 0x07 = m (p + 1) AND 0x07" by (simp add: and.assoc)
  then have "manual_length (m p) (m (p + 1) AND 0x07) = manual_length (m p) (m (p + 1))" by (simp add: manual_length_def)
  then show ?thesis using effect_ok_all [of "m p" "m (p + 1)"] e assms by (simp add: ProcessModrm_eq effect_ok_def)
qed

theorem ProcessModrm_manual_witness:
  "\<exists>d' s'. ProcessModrm (ex_code [0x44, 0x05]) 0 ((MiniDisassembler_default True)\<lparr>should_decode_modrm := True\<rparr>) 0 = Some (True, d', s') \<and>
    s' + operand_bytes d' = 4"
proof -
  have "manual_length 0x44 0x05 = 3" "unat (0x44 AND 0x07 :: 8 word) = 4" "(0x05 AND 0x07 :: 8 word) = 5" "unat (drop_bit 6 (0x44 :: 8 word)) = 1" by code_simp+
  then show ?thesis
    using ProcessModrm_manual [of "(MiniDisassembler_default True)\<lparr>should_decode_modrm := True\<rparr>" "ex_code [0x44, 0x05]" 0 0]
    by (simp add: MiniDisassembler_default_def MiniDisassembler_new_def Initialize_def ex_code_def)
qed

section \<open>Jumps, calls and returns\<close>

text \<open>An instruction that is one opcode byte and immediate operands.\<close>

definition plain_ok :: "bool \<Rightarrow> InstructionType \<Rightarrow> nat \<Rightarrow> 8 word \<Rightarrow> bool" where
  "plain_ok x64 t len b =
     (let oc = first_opcode x64 b; d = process_operands (MiniDisassembler_default x64) (choose_opcode (MiniDisassembler_default x64) oc)
      in t \<notin> {IT_UNUSED, IT_REFERENCE, IT_UNKNOWN} \<and> opcode_type oc = t \<and> \<not> is_prefix t \<and> \<not> is_prefix_dependent oc \<and>
         \<not> have_modrm d \<and> operand_bytes d + 1 = len)"

lemma table_0: "array_at (s_ia32_opcode_map x64) 0 = Some (opt (s_first_opcode_byte x64) 0 0xff 0 0xff)"
  by (simp add: array_at_def s_ia32_opcode_map_def)

lemma byte_and_ff: "b AND 0xff = (b :: 8 word)"
  by (rule bit_word_eqI) (auto simp: bit_and_iff bit_numeral_rec numeral_eq_Suc less_Suc_eq)

lemma default_cong: "operand_default_is_32_bits d \<Longrightarrow> address_default_is_32_bits d \<Longrightarrow> Initialize x64 d = MiniDisassembler_default x64"
  by (cases d) (simp add: MiniDisassembler_default_def MiniDisassembler_new_def Initialize_def)

lemma Disassemble_plain:
  assumes ok: "plain_ok x64 t len (m p)" and d: "operand_default_is_32_bits d" "address_default_is_32_bits d"
  shows "\<exists>d'. Disassemble x64 m d p n = Some (t, (n + len) mod 2 ^ 32, d')"
proof -
  let ?d = "MiniDisassembler_default x64" and ?oc = "first_opcode x64 (m p)"
  let ?d' = "process_operands ?d (choose_opcode ?d ?oc)"
  have o: "t \<notin> {IT_UNUSED, IT_REFERENCE, IT_UNKNOWN}" "opcode_type ?oc = t" "\<not> is_prefix t" "\<not> is_prefix_dependent ?oc"
    "\<not> have_modrm ?d'" "operand_bytes ?d' + 1 = len" using ok unfolding plain_ok_def Let_def by blast+
  have ty: "instruction_type ?d' = t"
    using o(2,4) by (simp add: process_operands_eq choose_opcode_def SpecificOpcode.truncate_def)
  have "ProcessPrefixes x64 m p ?d 0 = Some (IT_GENERIC, ?d, 0)"
    using o(2,3) by (simp add: ProcessPrefixes.simps [of x64 m p] first_opcode_at Let_def)
  moreover have "ProcessOpcode x64 m p 0 ?d 0 = Some (IT_GENERIC, ?d', 1)"
    using o(1,2,5) by (simp add: ProcessOpcode.simps [of x64 m p 0] table_0 opt_def byte_and_ff first_opcode_at Let_def)
      (use unsigned_less [of "m p", where ?'a = nat] in auto)
  ultimately show ?thesis using o(1,6) ty unfolding Disassemble_def Let_def default_cong [OF d] by auto
qed

text \<open>With 32-bit defaults a near jump or call is a jump of 5 bytes, a short jump (conditional or not) one
  of 2 bytes, and the near returns have 1 and 3 bytes: what the patcher relies on when it takes a preamble
  apart.\<close>

theorem Disassemble_jumps:
  assumes d: "operand_default_is_32_bits d" "address_default_is_32_bits d"
  shows "(m p \<in> {0xE8, 0xE9} \<longrightarrow> (\<exists>d'. Disassemble x64 m d p n = Some (IT_JUMP, (n + 5) mod 2 ^ 32, d'))) \<and>
    (m p \<in> set (map word_of_int [0x70..0x7F]) \<union> {0xEB} \<longrightarrow> (\<exists>d'. Disassemble x64 m d p n = Some (IT_JUMP, (n + 2) mod 2 ^ 32, d'))) \<and>
    (m p = 0xC3 \<longrightarrow> (\<exists>d'. Disassemble x64 m d p n = Some (IT_RETURN, (n + 1) mod 2 ^ 32, d'))) \<and>
    (m p = 0xC2 \<longrightarrow> (\<exists>d'. Disassemble x64 m d p n = Some (IT_RETURN, (n + 3) mod 2 ^ 32, d')))"
proof -
  have "list_all (\<lambda>x. list_all (plain_ok x IT_JUMP 5) [0xE8, 0xE9] \<and> list_all (plain_ok x IT_JUMP 2) (0xEB # map word_of_int [0x70..0x7F]) \<and>
      plain_ok x IT_RETURN 1 0xC3 \<and> plain_ok x IT_RETURN 3 0xC2) [True, False]" by code_simp
  then have "plain_ok x64 IT_JUMP 5 b" if "b \<in> {0xE8, 0xE9}" for b
    using that by (cases x64) auto
  moreover have "plain_ok x64 IT_JUMP 2 b" if "b \<in> set (map word_of_int [0x70..0x7F]) \<union> {0xEB}" for b
    using that \<open>list_all _ [True, False]\<close> by (cases x64) (auto simp: list_all_iff)
  moreover have "plain_ok x64 IT_RETURN 1 0xC3" "plain_ok x64 IT_RETURN 3 0xC2" using \<open>list_all _ [True, False]\<close> by (cases x64; simp)+
  ultimately show ?thesis using Disassemble_plain [OF _ d] by metis
qed

theorem Disassemble_jumps_witness:
  "\<exists>d'. Disassemble False (ex_code [0xE9, 1, 2, 3, 4]) (MiniDisassembler_default False) 0 0 = Some (IT_JUMP, 5, d')"
  using Disassemble_jumps [of "MiniDisassembler_default False" "ex_code [0xE9, 1, 2, 3, 4]" 0 False 0]
  by (simp add: MiniDisassembler_default_def MiniDisassembler_new_def Initialize_def ex_code_def)

text \<open>C37: On x64 any REX prefix, and not only one with the W bit, makes the immediate of \<open>mov r, imm\<close> 8 bytes
  long: \<open>41 B8\<close>, whose immediate has 4 bytes, is taken for an instruction of 10 bytes instead of 6.\<close>

theorem Disassemble_rex_immediate:
  assumes d: "operand_default_is_32_bits d" "address_default_is_32_bits d"
    and b: "m p \<in> set (map word_of_int [0x40..0x4F])" "m (p + 1) \<in> set (map word_of_int [0xB8..0xBF])"
  shows "\<exists>d'. Disassemble True m d p n = Some (IT_GENERIC, (n + 10) mod 2 ^ 32, d')"
proof -
  let ?d = "MiniDisassembler_default True"
  let ?e = "?d\<lparr>operand_is_64_bits := True\<rparr>"
  have "list_all (\<lambda>b. opcode_type (first_opcode True b) = IT_PREFIX \<and> note_prefix ?d b = ?e) (map word_of_int [0x40..0x4F])"
    by code_simp
  then have 1: "opcode_type (first_opcode True (m p)) = IT_PREFIX" "note_prefix ?d (m p) = ?e" using b(1) by (simp_all only: list_all_iff)
  have "list_all (\<lambda>b. let oc = first_opcode True b; d = process_operands ?e (choose_opcode ?e oc) in
      opcode_type oc = IT_GENERIC \<and> \<not> have_modrm d \<and> operand_bytes d = 8 \<and> instruction_type d = IT_GENERIC) (map word_of_int [0xB8..0xBF])"
    by code_simp
  then have 2: "opcode_type (first_opcode True (m (p + 1))) = IT_GENERIC"
    "\<not> have_modrm (process_operands ?e (choose_opcode ?e (first_opcode True (m (p + 1)))))"
    "operand_bytes (process_operands ?e (choose_opcode ?e (first_opcode True (m (p + 1))))) = 8"
    "instruction_type (process_operands ?e (choose_opcode ?e (first_opcode True (m (p + 1))))) = IT_GENERIC"
    using b(2) by (simp_all only: list_all_iff Let_def) blast+
  have "switch_sizes ?d IT_PREFIX = ?d" by (simp add: switch_sizes_def)
  then have "ProcessPrefixes True m p ?d 0 = Some (IT_PREFIX, ?e, 1)"
    using 1 2(1) by (simp add: ProcessPrefixes.simps [of True m p] ProcessPrefixes.simps [of True m "Suc p"] first_opcode_at Let_def is_prefix_def)
  moreover have "ProcessOpcode True m (p + 1) 0 ?e 0 = Some (IT_GENERIC, process_operands ?e (choose_opcode ?e (first_opcode True (m (p + 1)))), 1)"
    using 2 by (simp add: ProcessOpcode.simps [of True m "Suc p" 0] table_0 opt_def byte_and_ff first_opcode_at Let_def)
      (use unsigned_less [of "m (p + 1)", where ?'a = nat] in auto)
  ultimately show ?thesis using 2(3,4) unfolding Disassemble_def Let_def default_cong [OF d] by (auto simp: add.commute)
qed

theorem Disassemble_rex_immediate_witness:
  "\<exists>d'. Disassemble True (ex_code [0x41, 0xB8, 1, 0, 0, 0]) (MiniDisassembler_default True) 0 0 = Some (IT_GENERIC, 10, d')"
proof -
  have "(0x41 :: 8 word) \<in> set (map word_of_int [0x40..0x4F])" "(0xB8 :: 8 word) \<in> set (map word_of_int [0xB8..0xBF])" by code_simp+
  then show ?thesis
    using Disassemble_rex_immediate [of "MiniDisassembler_default True" "ex_code [0x41, 0xB8, 1, 0, 0, 0]" 0 0]
    by (simp add: MiniDisassembler_default_def MiniDisassembler_new_def Initialize_def ex_code_def)
qed

end
