(* ===== verification/Spec2Isabelle.thy ===== *)
theory Spec2Isabelle
  imports Memory_Properties Malloc_Properties Disassembler_Properties
begin

text \<open>
  \<^bold>\<open>A model of tcmalloc\<close>

  The program is the thread-caching malloc of \<open>src/_cpp_modules/TCmalloc/gperftools/src\<close> (paths
  below are relative to it), as it is built on 64-bit Windows. Memory comes from the kernel in
  regions; the page heap cuts it in spans, runs of pages of 8 KiB; the size classes say how spans
  are cut in objects; page maps lead from a page to its span.

  \<^bold>\<open>Theories\<close>

  \<^item> \<open>Prelude\<close>: the crash monad (a failed \<open>ASSERT\<close>, a \<open>CHECK_CONDITION\<close>, \<open>Log(kCrash)\<close> and a null
    dereference are the value \<open>None\<close>), C integers, ranges of addresses.
  \<^item> \<open>Linked_List\<close>: \<open>linked_list.h\<close>, free lists threaded through the objects. A memory maps the
    address of an object to its first word.
  \<^item> \<open>Span_List\<close>: \<open>span.h\<close> and \<open>span.cc\<close>, the \<open>Span\<close> record and the circular lists of spans. A store
    maps span pointers (allocated spans and list headers) to spans; the lemmas on \<open>dlls\<close> treat a
    family of disjoint lists at once.
  \<^item> \<open>Page_Map\<close>: \<open>pagemap.h\<close>, the flat, the two-level and the three-level map; the locale \<open>page_map\<close>
    is what the page heap relies on, and each map interprets it.
  \<^item> \<open>Size_Map\<close>: \<open>SizeMap\<close> of \<open>common.h\<close> and \<open>common.cc\<close>.
  \<^item> \<open>System_Alloc\<close>: \<open>windows/system-alloc.cc\<close> over a kernel that is a parameter.
  \<^item> \<open>Meta_Alloc\<close>: \<open>MetaDataAlloc\<close> of \<open>common.cc\<close> and \<open>page_heap_allocator.h\<close>; the locale
    \<open>object_allocator\<close> with its client.
  \<^item> \<open>Packed_Cache\<close>: \<open>packed-cache-inl.h\<close> on machine words; the locale \<open>lossy_cache\<close>.
  \<^item> \<open>Page_Heap\<close>: \<open>page_heap.h\<close> and \<open>page_heap.cc\<close>, every operation that changes state, and the
    allocation of spans of \<open>span.cc\<close>.
  \<^item> \<open>Page_Heap_Inv\<close>: the invariant \<open>heap_inv\<close> of the page heap. \<open>Page_Heap_Free\<close>, \<open>Page_Heap_Alloc\<close>,
    \<open>Page_Heap_Grow\<close> and \<open>Page_Heap_Split\<close>: one specification for each operation, on every branch.
    \<open>Page_Heap_Run\<close>: the heap as a state machine and the invariant of its reachable states.
  \<^item> \<open>Central_Free_List\<close>: \<open>central_freelist.h\<close> and \<open>central_freelist.cc\<close>, every operation.
    \<open>Span_Heap\<close> has the locale \<open>span_heap\<close>, the page heap as its clients see it, and its interpretation
    on the model of the page heap. \<open>Central_Inv\<close> is the invariant of the central lists,
    \<open>Central_Release\<close>, \<open>Central_Fetch\<close> and \<open>Central_Remove\<close> prove inside the locale that every operation
    keeps it, \<open>Central_Init\<close> that the initial state has it, and \<open>Central_Properties\<close> has the machine
    whose steps are the calls of the thread caches, and the properties.
  \<^item> \<open>Opcode_Types\<close>, \<open>Opcode_Map\<close> and \<open>Mini_Disassembler\<close>: the disassembler of the function patcher
    (\<open>windows/mini_disassembler.cc\<close>) with its tables (\<open>windows/ia32_opcode_map.cc\<close>,
    \<open>windows/ia32_modrm_map.cc\<close>). \<open>Disassembler_Tables\<close> checks the tables row by row,
    \<open>Disassembler_Length\<close> specifies each step, \<open>Disassembler_Properties\<close> has the properties.
  \<^item> \<open>Page_Heap_Properties\<close> and \<open>Memory_Properties\<close>: the properties, with concrete instances.

  \<^bold>\<open>How the code is modelled\<close>

  An operation takes the state and returns it updated. Two kinds of failure are kept apart: \<open>None\<close> is a
  crash by a failed assertion or a loop that does not end (loops without a structural bound are
  \<open>partial_function (option)\<close>), \<open>OutOfMemory\<close> is the deliberate crash of \<open>PageHeapAllocator::New\<close>
  when the kernel gives no memory for metadata. Page numbers and lengths are natural numbers with the
  64-bit wrap-around written out where the code adds or subtracts them; the statistics are 64-bit
  words; \<open>int\<close> conversions that can truncate are explicit (\<open>to_int32\<close>). The kernel is a record of
  functions with the contract \<open>os_contract\<close>; \<open>bump_os\<close> is an instance that meets it.

  \<^bold>\<open>What is shown\<close>

  No sequence of calls of the page heap's interface fails an assertion or runs forever; spans in use
  never overlap and the page map finds them; free spans are coalesced, their lists and the
  statistics are exact; allocation is a best fit and fails only when it has to; the size map sends
  every size to the least class that holds it; the page maps agree with a flat function; caches
  lose entries but never confuse them; lists are restored by inverse operations. The bound of
  \<open>2^31\<close> pages in these theorems is where the code's \<open>int\<close> lengths end; an address space of
  4 TiB in the state machine keeps every heap below it.

  \<^bold>\<open>Not modelled\<close>

  Locks (each operation is one step), the event trace (compiled out), logging, the statistics that are
  only read, other platforms; the thread caches, central free lists, \<open>tcmalloc.cc\<close>, profilers, hooks
  and the function patcher are not modelled yet.
\<close>

end
